(* ===== verification/Rust_Text.thy ===== *)
theory Rust_Text
  imports Main "HOL-Library.Sublist"
begin

text \<open>
  The prelude of the development.  It fixes how Rust values are written in HOL and holds the
  facts every component shares.

  \<^item> A Rust \<^verbatim>\<open>char\<close> is its Unicode scalar value, a natural number; a \<^verbatim>\<open>String\<close> or
    \<^verbatim>\<open>&str\<close> is the list of its scalar values.  Nothing is restricted to ASCII: white space is
    the Unicode property \<^verbatim>\<open>White_Space\<close>, as in \<^verbatim>\<open>char::is_whitespace\<close>.  \<open>lit\<close> turns an
    Isabelle string literal (always ASCII here) into such a list.
  \<^item> A \<^verbatim>\<open>Vec\<close> or slice is a list.  A computation that may return \<^verbatim>\<open>Err\<close> or panic returns
    an \<open>outcome\<close>; \<open>and_then\<close> is the \<^verbatim>\<open>?\<close> operator.
  \<^item> The methods of \<^verbatim>\<open>str\<close> the program calls (\<^verbatim>\<open>trim\<close>, \<^verbatim>\<open>strip_prefix\<close>, \<^verbatim>\<open>lines\<close>,
    \<^verbatim>\<open>split_once\<close>, \<dots>) are functions on these lists, after the standard library's
    documentation.

  The collections \<open>text_simps\<close> and \<open>outcome_simps\<close> carry the component proofs.
\<close>

named_theorems text_simps "equations for the methods of str"
named_theorems outcome_simps "equations and splits for outcomes"

section \<open>Scalar values and strings\<close>

type_synonym rchar = nat
type_synonym rstr = "rchar list"

abbreviation ch :: "char \<Rightarrow> rchar" where
  "ch c \<equiv> of_char c"

definition lit :: "string \<Rightarrow> rstr" where
  "lit s = map of_char s"

abbreviation newline :: rchar where "newline \<equiv> 10"
abbreviation carriage_return :: rchar where "carriage_return \<equiv> 13"

definition is_whitespace :: "rchar \<Rightarrow> bool" where
  "is_whitespace c \<longleftrightarrow>
     9 \<le> c \<and> c \<le> 13 \<or> c = 32 \<or> c = 133 \<or> c = 160 \<or> c = 5760 \<or> 8192 \<le> c \<and> c \<le> 8202 \<or>
     c = 8232 \<or> c = 8233 \<or> c = 8239 \<or> c = 8287 \<or> c = 12288"

definition is_ascii_digit :: "rchar \<Rightarrow> bool" where
  "is_ascii_digit c \<longleftrightarrow> 48 \<le> c \<and> c \<le> 57"

definition to_ascii_lowercase :: "rstr \<Rightarrow> rstr" where
  "to_ascii_lowercase s = map (\<lambda>c. if 65 \<le> c \<and> c \<le> 90 then c + 32 else c) s"

definition trim_start :: "rstr \<Rightarrow> rstr" where
  "trim_start s = dropWhile is_whitespace s"

definition trim_end :: "rstr \<Rightarrow> rstr" where
  "trim_end s = rev (dropWhile is_whitespace (rev s))"

definition trim :: "rstr \<Rightarrow> rstr" where
  "trim s = trim_end (trim_start s)"

definition trim_end_matches :: "rchar \<Rightarrow> rstr \<Rightarrow> rstr" where
  "trim_end_matches c s = rev (dropWhile (\<lambda>x. x = c) (rev s))"

fun strip_prefix :: "'a list \<Rightarrow> 'a list \<Rightarrow> 'a list option" where
  "strip_prefix [] s = Some s"
| "strip_prefix (p # ps) [] = None"
| "strip_prefix (p # ps) (c # cs) = (if p = c then strip_prefix ps cs else None)"

definition starts_with :: "'a list \<Rightarrow> 'a list \<Rightarrow> bool" where
  "starts_with p s \<longleftrightarrow> strip_prefix p s \<noteq> None"

definition ends_with :: "'a list \<Rightarrow> 'a list \<Rightarrow> bool" where
  "ends_with p s \<longleftrightarrow> starts_with (rev p) (rev s)"

fun contains_str :: "rstr \<Rightarrow> rstr \<Rightarrow> bool" where
  "contains_str p [] = (p = [])"
| "contains_str p (c # cs) = (starts_with p (c # cs) \<or> contains_str p cs)"

fun split_once :: "rchar \<Rightarrow> rstr \<Rightarrow> (rstr \<times> rstr) option" where
  "split_once d [] = None"
| "split_once d (c # cs) =
     (if c = d then Some ([], cs)
      else case split_once d cs of None \<Rightarrow> None | Some (a, b) \<Rightarrow> Some (c # a, b))"

definition rsplit_once :: "rchar \<Rightarrow> rstr \<Rightarrow> (rstr \<times> rstr) option" where
  "rsplit_once d s =
     (case split_once d (rev s) of None \<Rightarrow> None | Some (a, b) \<Rightarrow> Some (rev b, rev a))"

text \<open>\<open>split_on\<close> is \<^verbatim>\<open>str::split\<close> with a character; it never returns the empty list.\<close>

fun split_on :: "rchar \<Rightarrow> rstr \<Rightarrow> rstr list" where
  "split_on d [] = [[]]"
| "split_on d (c # cs) =
     (if c = d then [] # split_on d cs
      else case split_on d cs of [] \<Rightarrow> [[c]] | l # ls \<Rightarrow> (c # l) # ls)"

fun join :: "'a list \<Rightarrow> 'a list list \<Rightarrow> 'a list" where
  "join sep [] = []"
| "join sep [x] = x"
| "join sep (x # y # zs) = x @ sep @ join sep (y # zs)"

text \<open>
  \<^verbatim>\<open>str::lines\<close>: lines end with a line feed, optionally preceded by a carriage return that is
  dropped with it; the last line may lack the line feed, and then keeps a final carriage
  return.
\<close>

definition strip_cr :: "rstr \<Rightarrow> rstr" where
  "strip_cr l = (if l \<noteq> [] \<and> last l = carriage_return then butlast l else l)"

fun lines_from :: "rstr \<Rightarrow> rstr \<Rightarrow> rstr list" where
  "lines_from acc [] = (if acc = [] then [] else [rev acc])"
| "lines_from acc (c # cs) =
     (if c = newline then strip_cr (rev acc) # lines_from [] cs else lines_from (c # acc) cs)"

definition lines :: "rstr \<Rightarrow> rstr list" where
  "lines s = lines_from [] s"

text \<open>The decimal digits of a number, as \<^verbatim>\<open>to_string\<close> prints it.\<close>

fun decimal :: "nat \<Rightarrow> rstr" where
  "decimal n = (if n < 10 then [48 + n] else decimal (n div 10) @ [48 + n mod 10])"

declare decimal.simps [simp del]

text \<open>
  Lengths and slices of a \<^verbatim>\<open>str\<close> are in bytes of its UTF-8 encoding; slicing inside a character
  panics.
\<close>

definition utf8_len :: "rchar \<Rightarrow> nat" where
  "utf8_len c = (if c < 128 then 1 else if c < 2048 then 2 else if c < 65536 then 3 else 4)"

definition byte_len :: "rstr \<Rightarrow> nat" where
  "byte_len s = sum_list (map utf8_len s)"

section \<open>Results, early returns and panics\<close>

datatype ('e, 'a) outcome = Ok 'a | Err 'e | Panic

fun and_then :: "('e, 'a) outcome \<Rightarrow> ('a \<Rightarrow> ('e, 'b) outcome) \<Rightarrow> ('e, 'b) outcome" where
  "and_then (Ok x) f = f x"
| "and_then (Err e) f = Err e"
| "and_then Panic f = Panic"

fun map_err :: "('e \<Rightarrow> 'f) \<Rightarrow> ('e, 'a) outcome \<Rightarrow> ('f, 'a) outcome" where
  "map_err g (Ok x) = Ok x"
| "map_err g (Err e) = Err (g e)"
| "map_err g Panic = Panic"

text \<open>\<^verbatim>\<open>&xs[n..]\<close>: out of range it panics.\<close>

definition slice_from :: "nat \<Rightarrow> 'a list \<Rightarrow> ('e, 'a list) outcome" where
  "slice_from n xs = (if n \<le> length xs then Ok (drop n xs) else Panic)"

text \<open>\<^verbatim>\<open>&xs[a..b]\<close>: \<open>a \<le> b \<le> len\<close> or a panic.\<close>

definition slice :: "nat \<Rightarrow> nat \<Rightarrow> 'a list \<Rightarrow> ('e, 'a list) outcome" where
  "slice a b xs = (if a \<le> b \<and> b \<le> length xs then Ok (take (b - a) (drop a xs)) else Panic)"

text \<open>\<^verbatim>\<open>&s[n..]\<close> on a \<^verbatim>\<open>str\<close>, with a byte offset.\<close>

fun byte_slice_from :: "nat \<Rightarrow> rstr \<Rightarrow> ('e, rstr) outcome" where
  "byte_slice_from n [] = (if n = 0 then Ok [] else Panic)"
| "byte_slice_from n (c # cs) =
     (if n = 0 then Ok (c # cs)
      else if utf8_len c \<le> n then byte_slice_from (n - utf8_len c) cs else Panic)"

section \<open>Facts about strings\<close>

lemma lit_simps [simp, text_simps]: "lit [] = []" "lit (c # s) = of_char c # lit s"
  by (simp_all add: lit_def)

lemma strip_prefix_Some_iff [text_simps]: "strip_prefix p s = Some r \<longleftrightarrow> s = p @ r"
  by (induction p s rule: strip_prefix.induct) auto

lemma strip_prefix_append [simp]: "strip_prefix p (p @ r) = Some r"
  by (simp add: strip_prefix_Some_iff)

lemma starts_with_iff [text_simps]: "starts_with p s \<longleftrightarrow> prefix p s"
  by (auto simp: starts_with_def strip_prefix_Some_iff prefix_def)

lemma strip_prefix_None_iff: "strip_prefix p s = None \<longleftrightarrow> \<not> prefix p s"
  using starts_with_iff [of p s] by (cases "strip_prefix p s") (auto simp: starts_with_def)

lemma ends_with_iff [text_simps]: "ends_with p s \<longleftrightarrow> suffix p s"
  by (simp add: ends_with_def starts_with_iff suffix_to_prefix)

lemma contains_str_iff [text_simps]: "contains_str p s \<longleftrightarrow> sublist p s"
  by (induction p s rule: contains_str.induct) (auto simp: starts_with_iff sublist_Cons_right)

lemma split_once_SomeD: "split_once d s = Some (a, b) \<Longrightarrow> s = a @ d # b \<and> d \<notin> set a"
  by (induction s arbitrary: a) (auto split: if_splits option.splits)

lemma split_once_append [simp]: "d \<notin> set a \<Longrightarrow> split_once d (a @ d # b) = Some (a, b)"
  by (induction a) auto

lemma split_once_Some_iff:
  "split_once d s = Some (a, b) \<longleftrightarrow> s = a @ d # b \<and> d \<notin> set a"
  by (auto dest: split_once_SomeD)

lemma split_once_None_iff: "split_once d s = None \<longleftrightarrow> d \<notin> set s"
  by (induction s) (auto split: option.splits)

lemma split_on_not_Nil [simp]: "split_on d s \<noteq> []"
  by (induction s) (auto split: list.splits)

lemma split_on_join_inverse: "join [d] (split_on d s) = s"
proof (induction s)
  case Nil
  then show ?case by simp
next
  case (Cons c cs)
  then show ?case
    by (cases "split_on d cs"; cases "tl (split_on d cs)") (auto split: list.splits)
qed

lemma join_Cons_not_Nil: "xs \<noteq> [] \<Longrightarrow> join sep (x # xs) = x @ sep @ join sep xs"
  by (cases xs) auto

lemma split_on_append_sep: "d \<notin> set a \<Longrightarrow> split_on d (a @ d # b) = a # split_on d b"
  by (induction a) auto

lemma split_on_no_sep: "d \<notin> set a \<Longrightarrow> split_on d a = [a]"
  by (induction a) auto

lemma split_on_join:
  "ls \<noteq> [] \<Longrightarrow> (\<And>l. l \<in> set ls \<Longrightarrow> d \<notin> set l) \<Longrightarrow> split_on d (join [d] ls) = ls"
proof (induction ls rule: induct_list012)
  case (3 x y zs)
  then show ?case by (simp add: split_on_append_sep)
qed (simp_all add: split_on_no_sep)

lemma trim_end_snoc:
  "trim_end (s @ [c]) = (if is_whitespace c then trim_end s else s @ [c])"
  by (simp add: trim_end_def)

lemma trim_end_Nil [simp]: "trim_end [] = []"
  by (simp add: trim_end_def)

lemma trim_end_idem [simp]: "trim_end (trim_end s) = trim_end s"
  by (simp add: trim_end_def dropWhile_idem)

lemma dropWhile_id: "s = [] \<or> \<not> P (hd s) \<Longrightarrow> dropWhile P s = s"
  by (cases s) auto

lemma trim_end_id: "s = [] \<or> \<not> is_whitespace (last s) \<Longrightarrow> trim_end s = s"
  by (cases s rule: rev_cases) (auto simp: trim_end_snoc)

lemma trim_id:
  "s = [] \<or> \<not> is_whitespace (hd s) \<and> \<not> is_whitespace (last s) \<Longrightarrow> trim s = s"
  by (auto simp: trim_def trim_start_def dropWhile_id trim_end_id)

lemma trim_start_append:
  "a \<noteq> [] \<Longrightarrow> \<not> is_whitespace (hd a) \<Longrightarrow> trim_start (a @ b) = a @ b"
  by (cases a) (auto simp: trim_start_def)

lemma prefix_trim_end: "prefix (trim_end s) s"
proof -
  have "suffix (dropWhile is_whitespace (rev s)) (rev s)" by (rule suffix_dropWhile)
  then show ?thesis by (simp add: trim_end_def suffix_to_prefix)
qed

lemma trim_start_trim_end_commute: "trim_start (trim_end s) = trim_end (trim_start s)"
proof (cases "\<forall>c \<in> set s. is_whitespace c")
  case True
  then have "trim_end s = []" "trim_start s = []"
    by (auto simp: trim_end_def trim_start_def dropWhile_eq_Nil_conv)
  then show ?thesis by (simp add: trim_start_def [of "[]"])
next
  case False
  then obtain a c b where s: "s = a @ c # b" "\<not> is_whitespace c" "\<forall>x \<in> set a. is_whitespace x"
    using split_list_first_prop [of s "\<lambda>x. \<not> is_whitespace x"] by blast
  then have start: "trim_start s = c # b" by (simp add: trim_start_def dropWhile_append2)
  have "trim_end (c # b) \<noteq> []"
    using s(2) by (auto simp: trim_end_def dropWhile_eq_Nil_conv)
  with prefix_trim_end [of "c # b"] obtain b' where b': "trim_end (c # b) = c # b'" by (cases "trim_end (c # b)") auto
  have "trim_end s = a @ trim_end (c # b)"
    using dropWhile_append1 [of c "rev (c # b)" is_whitespace "rev a"] s(2)
    by (simp add: trim_end_def s(1))
  then show ?thesis
    using start b' s(2,3) by (simp add: trim_start_def dropWhile_append2)
qed

lemma trim_trim_end: "trim (trim_end s) = trim s"
  by (simp add: trim_def trim_start_trim_end_commute)

lemma trim_trim: "trim (trim s) = trim s"
proof -
  have "trim_start (trim_start t) = trim_start t" for t by (simp add: trim_start_def)
  then show ?thesis by (metis trim_def trim_start_trim_end_commute trim_end_idem)
qed

lemma trim_end_append_nonws:
  "b \<noteq> [] \<Longrightarrow> \<not> is_whitespace (last b) \<Longrightarrow> trim_end (a @ b) = a @ b"
  by (rule trim_end_id) simp

text \<open>
  Lines without line feeds, none ending in a carriage return, survive being written out with
  line feeds and read back.
\<close>

definition plain_line :: "rstr \<Rightarrow> bool" where
  "plain_line l \<longleftrightarrow> newline \<notin> set l \<and> (l = [] \<or> last l \<noteq> carriage_return)"

lemma strip_cr_plain: "plain_line l \<Longrightarrow> strip_cr l = l"
  by (auto simp: plain_line_def strip_cr_def)

lemma lines_from_append_line:
  "newline \<notin> set l \<Longrightarrow> lines_from acc (l @ newline # s) = strip_cr (rev acc @ l) # lines_from [] s"
  by (induction l arbitrary: acc) auto

lemma lines_from_no_newline:
  "newline \<notin> set l \<Longrightarrow> lines_from acc l = (if acc = [] \<and> l = [] then [] else [rev acc @ l])"
  by (induction l arbitrary: acc) auto

lemma lines_unlines:
  assumes "\<And>l. l \<in> set ls \<Longrightarrow> plain_line l"
  shows "lines (concat (map (\<lambda>l. l @ [newline]) ls)) = ls"
  using assms
proof (induction ls)
  case Nil
  then show ?case by (simp add: lines_def)
next
  case (Cons l ls)
  then have "newline \<notin> set l" "strip_cr l = l"
    by (auto simp: plain_line_def strip_cr_plain)
  then show ?case
    using Cons by (simp add: lines_def lines_from_append_line)
qed

lemma lines_join:
  assumes "\<And>l. l \<in> set ls \<Longrightarrow> plain_line l" "ls \<noteq> []" "last ls \<noteq> []"
  shows "lines (join [newline] ls) = ls"
  using assms
proof (induction ls rule: induct_list012)
  case 1
  then show ?case by simp
next
  case (2 x)
  then show ?case by (auto simp: lines_def lines_from_no_newline plain_line_def)
next
  case (3 x y zs)
  then have "newline \<notin> set x" "strip_cr x = x"
    by (auto simp: plain_line_def strip_cr_plain)
  with 3 show ?case by (simp add: lines_def lines_from_append_line)
qed

section \<open>Facts about outcomes\<close>

lemma and_then_Ok_iff [outcome_simps]:
  "and_then m f = Ok y \<longleftrightarrow> (\<exists>x. m = Ok x \<and> f x = Ok y)"
  by (cases m) auto

lemma and_then_Err_iff [outcome_simps]:
  "and_then m f = Err e \<longleftrightarrow> m = Err e \<or> (\<exists>x. m = Ok x \<and> f x = Err e)"
  by (cases m) auto

lemma and_then_Panic_iff [outcome_simps]:
  "and_then m f = Panic \<longleftrightarrow> m = Panic \<or> (\<exists>x. m = Ok x \<and> f x = Panic)"
  by (cases m) auto

lemma map_err_iff [outcome_simps]:
  "map_err g m = Ok x \<longleftrightarrow> m = Ok x"
  "map_err g m = Err e \<longleftrightarrow> (\<exists>e'. m = Err e' \<and> e = g e')"
  "map_err g m = Panic \<longleftrightarrow> m = Panic"
  by (cases m; auto)+

lemma and_then_assoc: "and_then (and_then m f) g = and_then m (\<lambda>x. and_then (f x) g)"
  by (cases m) auto

lemma and_then_cong [fundef_cong]:
  "m = m' \<Longrightarrow> (\<And>x. m' = Ok x \<Longrightarrow> f x = g x) \<Longrightarrow> and_then m f = and_then m' g"
  by (cases m') auto

lemma slice_from_iff [outcome_simps]:
  "slice_from n xs = Ok ys \<longleftrightarrow> n \<le> length xs \<and> ys = drop n xs"
  "slice_from n xs = Panic \<longleftrightarrow> length xs < n"
  "slice_from n xs \<noteq> Err e"
  by (auto simp: slice_from_def)

lemma slice_iff [outcome_simps]:
  "slice a b xs = Ok ys \<longleftrightarrow> a \<le> b \<and> b \<le> length xs \<and> ys = take (b - a) (drop a xs)"
  "slice a b xs = Panic \<longleftrightarrow> b < a \<or> length xs < b"
  "slice a b xs \<noteq> Err e"
  by (auto simp: slice_def)

end
