(* ===== verification/Patch_Format.thy ===== *)
theory Patch_Format
  imports Rust_Text
begin

text \<open>
  The batch parser of \<^verbatim>\<open>codex-rs/apply-patch/src/parser.rs\<close>: the patch text of an
  \<^verbatim>\<open>apply_patch\<close> call becomes a list of hunks, or a parse error that names a line.  Every
  slice and index of the source that could panic is an \<open>outcome\<close>; the two loops of the source
  (over hunks, over the chunks of an update hunk) are recursive functions whose termination
  rests on each call consuming at least one line.

  The lemmas show that the parser never panics, that what it accepts is well formed, that the
  line numbers of its errors lie inside the patch, and that it inverts the documented grammar:
  a rendered list of hunks parses back to itself.
\<close>

section \<open>Markers, hunks and errors\<close>

abbreviation c_space :: rchar where "c_space \<equiv> 32"
abbreviation c_star :: rchar where "c_star \<equiv> 42"
abbreviation c_plus :: rchar where "c_plus \<equiv> 43"
abbreviation c_minus :: rchar where "c_minus \<equiv> 45"

definition BEGIN_PATCH_MARKER :: rstr where
  "BEGIN_PATCH_MARKER = lit ''*** Begin Patch''"
definition ENVIRONMENT_ID_MARKER :: rstr where
  "ENVIRONMENT_ID_MARKER = lit ''*** Environment ID: ''"
definition END_PATCH_MARKER :: rstr where
  "END_PATCH_MARKER = lit ''*** End Patch''"
definition ADD_FILE_MARKER :: rstr where
  "ADD_FILE_MARKER = lit ''*** Add File: ''"
definition DELETE_FILE_MARKER :: rstr where
  "DELETE_FILE_MARKER = lit ''*** Delete File: ''"
definition UPDATE_FILE_MARKER :: rstr where
  "UPDATE_FILE_MARKER = lit ''*** Update File: ''"
definition MOVE_TO_MARKER :: rstr where
  "MOVE_TO_MARKER = lit ''*** Move to: ''"
definition EOF_MARKER :: rstr where
  "EOF_MARKER = lit ''*** End of File''"
definition CHANGE_CONTEXT_MARKER :: rstr where
  "CHANGE_CONTEXT_MARKER = lit ''@@ ''"
definition EMPTY_CHANGE_CONTEXT_MARKER :: rstr where
  "EMPTY_CHANGE_CONTEXT_MARKER = lit ''@@''"

lemmas marker_defs =
  BEGIN_PATCH_MARKER_def ENVIRONMENT_ID_MARKER_def END_PATCH_MARKER_def ADD_FILE_MARKER_def
  DELETE_FILE_MARKER_def UPDATE_FILE_MARKER_def MOVE_TO_MARKER_def EOF_MARKER_def
  CHANGE_CONTEXT_MARKER_def EMPTY_CHANGE_CONTEXT_MARKER_def

datatype parse_error =
    InvalidPatchError rstr
  | InvalidHunkError (message: rstr) (line_number: nat)

record update_file_chunk =
  change_context :: "rstr option"
  old_lines :: "rstr list"
  new_lines :: "rstr list"
  is_end_of_file :: bool

datatype hunk =
    AddFile rstr rstr
  | DeleteFile rstr
  | UpdateFile rstr "rstr option" "update_file_chunk list"

fun hunk_path :: "hunk \<Rightarrow> rstr" where
  "hunk_path (AddFile path contents) = path"
| "hunk_path (DeleteFile path) = path"
| "hunk_path (UpdateFile path (Some move_path) chunks) = move_path"
| "hunk_path (UpdateFile path None chunks) = path"

record apply_patch_args =
  args_patch :: rstr
  args_hunks :: "hunk list"
  args_workdir :: "rstr option"
  args_environment_id :: "rstr option"

datatype parse_mode = Strict | Lenient

section \<open>Error messages\<close>

definition quoted :: "rstr \<Rightarrow> rstr" where
  "quoted s = [39] @ s @ [39]"

definition first_line_message :: rstr where
  "first_line_message = lit ''The first line of the patch must be '' @ quoted BEGIN_PATCH_MARKER"

definition last_line_message :: rstr where
  "last_line_message = lit ''The last line of the patch must be '' @ quoted END_PATCH_MARKER"

definition no_lines_message :: rstr where
  "no_lines_message = lit ''Update hunk does not contain any lines''"

definition empty_update_message :: "rstr \<Rightarrow> rstr" where
  "empty_update_message path = lit ''Update file hunk for path '' @ quoted path @ lit '' is empty''"

definition bad_header_message :: "rstr \<Rightarrow> rstr" where
  "bad_header_message first_line =
     quoted first_line @ lit '' is not a valid hunk header. Valid hunk headers: '' @
     quoted (ADD_FILE_MARKER @ lit ''{path}'') @ lit '', '' @
     quoted (DELETE_FILE_MARKER @ lit ''{path}'') @ lit '', '' @
     quoted (UPDATE_FILE_MARKER @ lit ''{path}'')"

definition expected_context_message :: "rstr \<Rightarrow> rstr" where
  "expected_context_message l =
     lit ''Expected update hunk to start with a @@ context marker, got: '' @ quoted l"

definition unexpected_line_message :: "rstr \<Rightarrow> rstr" where
  "unexpected_line_message l =
     lit ''Unexpected line found in update hunk: '' @ quoted l @
     lit ''. Every line should start with '' @ quoted (lit '' '') @ lit '' (context line), '' @
     quoted (lit ''+'') @ lit '' (added line), or '' @ quoted (lit ''-'') @ lit '' (removed line)''"

section \<open>Patch boundaries\<close>

definition check_start_and_end_lines_strict ::
  "rstr option \<Rightarrow> rstr option \<Rightarrow> (parse_error, unit) outcome" where
  "check_start_and_end_lines_strict first_line last_line =
     (case (map_option trim first_line, map_option trim last_line) of
        (Some first, lst) \<Rightarrow>
          if first = BEGIN_PATCH_MARKER \<and> lst = Some END_PATCH_MARKER then Ok ()
          else if first \<noteq> BEGIN_PATCH_MARKER then Err (InvalidPatchError first_line_message)
          else Err (InvalidPatchError last_line_message)
      | (None, _) \<Rightarrow> Err (InvalidPatchError last_line_message))"

definition check_patch_boundaries_strict ::
  "rstr list \<Rightarrow> (parse_error, rstr list \<times> rstr list) outcome" where
  "check_patch_boundaries_strict ls =
     (let (first_line, last_line) =
        (case ls of [] \<Rightarrow> (None, None) | first # _ \<Rightarrow> (Some first, Some (last ls)))
      in and_then (check_start_and_end_lines_strict first_line last_line) (\<lambda>_.
         and_then (slice 1 (length ls - 1) ls) (\<lambda>inner. Ok (ls, inner))))"

definition heredoc_starts :: "rstr list" where
  "heredoc_starts = [lit ''<<EOF'', lit ''<<'' @ quoted (lit ''EOF''), lit ''<<'' @ [34] @ lit ''EOF'' @ [34]]"

definition check_patch_boundaries_lenient ::
  "rstr list \<Rightarrow> (parse_error, rstr list \<times> rstr list) outcome" where
  "check_patch_boundaries_lenient original_lines =
     (case check_patch_boundaries_strict original_lines of
        Ok ls \<Rightarrow> Ok ls
      | Panic \<Rightarrow> Panic
      | Err original_parse_error \<Rightarrow>
          (case original_lines of
             first # second # others \<Rightarrow>
               if first \<in> set heredoc_starts \<and> ends_with (lit ''EOF'') (last original_lines) \<and>
                  length original_lines \<ge> 4
               then and_then (slice 1 (length original_lines - 1) original_lines)
                      check_patch_boundaries_strict
               else Err original_parse_error
           | _ \<Rightarrow> Err original_parse_error))"

definition parse_environment_id_preamble ::
  "rstr list \<Rightarrow> (parse_error, rstr option \<times> rstr list \<times> nat) outcome" where
  "parse_environment_id_preamble hunk_lines =
     (case hunk_lines of
        [] \<Rightarrow> Ok (None, hunk_lines, 2)
      | first_line # rest \<Rightarrow>
          (case strip_prefix ENVIRONMENT_ID_MARKER (trim_start first_line) of
             None \<Rightarrow> Ok (None, hunk_lines, 2)
           | Some raw \<Rightarrow>
               let environment_id = trim raw in
               if environment_id = []
               then Err (InvalidPatchError (lit ''apply_patch environment_id cannot be empty''))
               else Ok (Some environment_id, rest, 3)))"

section \<open>Hunks\<close>

text \<open>The \<^verbatim>\<open>for\<close> loop of \<^verbatim>\<open>parse_update_file_chunk\<close>; \<^verbatim>\<open>break\<close> is returning the state.\<close>

fun chunk_lines_loop ::
  "nat \<Rightarrow> update_file_chunk \<Rightarrow> nat \<Rightarrow> rstr list \<Rightarrow>
   (parse_error, update_file_chunk \<times> nat) outcome" where
  "chunk_lines_loop ln chunk parsed_lines [] = Ok (chunk, parsed_lines)"
| "chunk_lines_loop ln chunk parsed_lines (l # ls) =
     (if l = EOF_MARKER then
        if parsed_lines = 0 then Err (InvalidHunkError no_lines_message (ln + 1))
        else Ok (chunk\<lparr>is_end_of_file := True\<rparr>, parsed_lines + 1)
      else case l of
        [] \<Rightarrow> chunk_lines_loop ln
                (chunk\<lparr>old_lines := old_lines chunk @ [[]], new_lines := new_lines chunk @ [[]]\<rparr>)
                (parsed_lines + 1) ls
      | c # content \<Rightarrow>
          if c = c_space then
            chunk_lines_loop ln
              (chunk\<lparr>old_lines := old_lines chunk @ [content],
                     new_lines := new_lines chunk @ [content]\<rparr>) (parsed_lines + 1) ls
          else if c = c_plus then
            chunk_lines_loop ln (chunk\<lparr>new_lines := new_lines chunk @ [content]\<rparr>)
              (parsed_lines + 1) ls
          else if c = c_minus then
            chunk_lines_loop ln (chunk\<lparr>old_lines := old_lines chunk @ [content]\<rparr>)
              (parsed_lines + 1) ls
          else if parsed_lines = 0 then
            Err (InvalidHunkError (unexpected_line_message l) (ln + 1))
          else Ok (chunk, parsed_lines))"

definition empty_chunk :: "rstr option \<Rightarrow> update_file_chunk" where
  "empty_chunk ctx =
     \<lparr>change_context = ctx, old_lines = [], new_lines = [], is_end_of_file = False\<rparr>"

text \<open>The context line of a chunk and how many lines it takes.\<close>

definition chunk_context :: "rstr \<Rightarrow> nat \<Rightarrow> bool \<Rightarrow> (parse_error, rstr option \<times> nat) outcome" where
  "chunk_context first ln allow_missing_context =
     (if first = EMPTY_CHANGE_CONTEXT_MARKER then Ok (None, 1)
      else case strip_prefix CHANGE_CONTEXT_MARKER first of
        Some context \<Rightarrow> Ok (Some context, 1)
      | None \<Rightarrow>
          if \<not> allow_missing_context
          then Err (InvalidHunkError (expected_context_message first) ln)
          else Ok (None, 0))"

definition parse_update_file_chunk ::
  "rstr list \<Rightarrow> nat \<Rightarrow> bool \<Rightarrow> (parse_error, update_file_chunk \<times> nat) outcome" where
  "parse_update_file_chunk ls ln allow_missing_context =
     (case ls of
        [] \<Rightarrow> Err (InvalidHunkError no_lines_message ln)
      | first # _ \<Rightarrow>
          and_then (chunk_context first ln allow_missing_context) (\<lambda>(ctx, start_index).
            if start_index \<ge> length ls then Err (InvalidHunkError no_lines_message (ln + 1))
            else and_then (slice_from start_index ls) (\<lambda>body.
                 and_then (chunk_lines_loop ln (empty_chunk ctx) 0 body)
                   (\<lambda>(chunk, parsed_lines). Ok (chunk, parsed_lines + start_index)))))"

fun add_lines_loop :: "rstr \<Rightarrow> nat \<Rightarrow> rstr list \<Rightarrow> rstr \<times> nat" where
  "add_lines_loop contents parsed_lines [] = (contents, parsed_lines)"
| "add_lines_loop contents parsed_lines (l # ls) =
     (case strip_prefix [c_plus] l of
        Some line_to_add \<Rightarrow>
          add_lines_loop (contents @ line_to_add @ [newline]) (parsed_lines + 1) ls
      | None \<Rightarrow> (contents, parsed_lines))"

text \<open>A chunk takes at least one line and never more than there are.\<close>

lemma chunk_lines_loop_parsed:
  "chunk_lines_loop ln chunk p ls = Ok (c, n) \<Longrightarrow>
   p \<le> n \<and> n \<le> p + length ls \<and> (ls \<noteq> [] \<longrightarrow> p = 0 \<longrightarrow> 0 < n)"
proof (induction ln chunk p ls rule: chunk_lines_loop.induct)
  case (2 ln chunk p l ls)
  then show ?case by (cases l) (fastforce split: if_splits)+
qed simp

lemma parse_update_file_chunk_OkD:
  "parse_update_file_chunk ls ln allow = Ok (c, n) \<Longrightarrow>
   \<exists>ctx i k. chunk_context (hd ls) ln allow = Ok (ctx, i) \<and> i < length ls \<and>
     chunk_lines_loop ln (empty_chunk ctx) 0 (drop i ls) = Ok (c, k) \<and> n = k + i"
  unfolding parse_update_file_chunk_def
  by (cases ls) (auto simp: outcome_simps not_le split: prod.splits if_splits)

lemma parse_update_file_chunk_parsed:
  "parse_update_file_chunk ls ln allow = Ok (c, n) \<Longrightarrow> 0 < n \<and> n \<le> length ls"
  by (fastforce dest!: parse_update_file_chunk_OkD chunk_lines_loop_parsed)

function update_chunks_loop ::
  "nat \<Rightarrow> rstr list \<Rightarrow> nat \<Rightarrow> update_file_chunk list \<Rightarrow>
   (parse_error, update_file_chunk list \<times> nat) outcome" where
  "update_chunks_loop ln [] parsed_lines chunks = Ok (chunks, parsed_lines)"
| "update_chunks_loop ln (l # ls) parsed_lines chunks =
     (if trim l = [] then update_chunks_loop ln ls (parsed_lines + 1) chunks
      else if starts_with [c_star] l then Ok (chunks, parsed_lines)
      else and_then (parse_update_file_chunk (l # ls) (ln + parsed_lines) (chunks = []))
             (\<lambda>(chunk, chunk_lines). and_then (slice_from chunk_lines (l # ls))
               (\<lambda>rest. update_chunks_loop ln rest (parsed_lines + chunk_lines) (chunks @ [chunk]))))"
  by pat_completeness auto
termination
  by (relation "measure (\<lambda>(ln, ls, p, cs). length ls)")
    (auto simp: outcome_simps dest!: parse_update_file_chunk_parsed)

definition parse_one_hunk :: "rstr list \<Rightarrow> nat \<Rightarrow> (parse_error, hunk \<times> nat) outcome" where
  "parse_one_hunk ls ln =
     (case ls of
        [] \<Rightarrow> Panic
      | line0 # rest \<Rightarrow>
          let first_line = trim line0 in
          case strip_prefix ADD_FILE_MARKER first_line of
            Some path \<Rightarrow>
              let (contents, parsed_lines) = add_lines_loop [] 1 rest in
              Ok (AddFile path contents, parsed_lines)
          | None \<Rightarrow>
          case strip_prefix DELETE_FILE_MARKER first_line of
            Some path \<Rightarrow> Ok (DeleteFile path, 1)
          | None \<Rightarrow>
          case strip_prefix UPDATE_FILE_MARKER first_line of
            Some path \<Rightarrow>
              let move_path = (case rest of [] \<Rightarrow> None | x # _ \<Rightarrow> strip_prefix MOVE_TO_MARKER x) in
              let (remaining_lines, parsed_lines) =
                (if move_path \<noteq> None then (tl rest, 2) else (rest, 1)) in
              and_then (update_chunks_loop ln remaining_lines parsed_lines [])
                (\<lambda>(chunks, parsed_lines).
                   if chunks = [] then Err (InvalidHunkError (empty_update_message path) ln)
                   else Ok (UpdateFile path move_path chunks, parsed_lines))
          | None \<Rightarrow> Err (InvalidHunkError (bad_header_message first_line) ln))"

lemma update_chunks_loop_parsed:
  "update_chunks_loop ln ls p cs = Ok (cs', n) \<Longrightarrow> p \<le> n \<and> n \<le> p + length ls"
proof (induction ln ls p cs rule: update_chunks_loop.induct)
  case (2 ln l ls p cs)
  show ?case
  proof (cases "trim l = [] \<or> starts_with [c_star] l")
    case True
    with "2.IH"(1) "2.prems" show ?thesis by (auto split: if_splits)
  next
    case False
    then obtain c k where c: "parse_update_file_chunk (l # ls) (ln + p) (cs = []) = Ok (c, k)"
      and rest: "k \<le> length (l # ls)"
        "update_chunks_loop ln (drop k (l # ls)) (p + k) (cs @ [c]) = Ok (cs', n)"
      using "2.prems" by (auto simp: outcome_simps)
    have "slice_from k (l # ls) = Ok (drop k (l # ls))"
      using rest(1) by (simp only: outcome_simps simp_thms)
    from "2.IH"(2)[OF _ _ c refl this] False rest(2) show ?thesis
      using rest(1) by auto
  qed
qed simp

lemma add_lines_loop_parsed:
  "add_lines_loop contents p ls = (contents', n) \<Longrightarrow> p \<le> n \<and> n \<le> p + length ls"
  by (induction contents p ls rule: add_lines_loop.induct) (fastforce split: option.splits)+

lemma parse_one_hunk_parsed:
  "parse_one_hunk ls ln = Ok (h, n) \<Longrightarrow> 0 < n \<and> n \<le> length ls"
  unfolding parse_one_hunk_def Let_def
  by (cases ls; cases "tl ls")
    (fastforce simp: outcome_simps split: if_splits option.splits prod.splits
      dest!: add_lines_loop_parsed update_chunks_loop_parsed)+

function parse_hunks ::
  "rstr list \<Rightarrow> nat \<Rightarrow> hunk list \<Rightarrow> (parse_error, hunk list) outcome" where
  "parse_hunks [] ln hunks = Ok hunks"
| "parse_hunks (l # ls) ln hunks =
     and_then (parse_one_hunk (l # ls) ln)
       (\<lambda>(hunk, hunk_lines). and_then (slice_from hunk_lines (l # ls))
         (\<lambda>rest. parse_hunks rest (ln + hunk_lines) (hunks @ [hunk])))"
  by pat_completeness auto
termination
  by (relation "measure (\<lambda>(ls, ln, hs). length ls)")
    (auto simp: outcome_simps dest!: parse_one_hunk_parsed)

definition parse_patch_text ::
  "rstr \<Rightarrow> parse_mode \<Rightarrow> (parse_error, apply_patch_args) outcome" where
  "parse_patch_text patch mode =
     (let ls = lines (trim patch) in
      and_then (case mode of Strict \<Rightarrow> check_patch_boundaries_strict ls
                           | Lenient \<Rightarrow> check_patch_boundaries_lenient ls)
        (\<lambda>(patch_lines, hunk_lines).
      and_then (parse_environment_id_preamble hunk_lines)
        (\<lambda>(environment_id, remaining_lines, ln).
      and_then (parse_hunks remaining_lines ln [])
        (\<lambda>hunks. Ok \<lparr>args_patch = join [newline] patch_lines, args_hunks = hunks,
                     args_workdir = None, args_environment_id = environment_id\<rparr>))))"

definition PARSE_IN_STRICT_MODE :: bool where
  "PARSE_IN_STRICT_MODE = False"

definition parse_patch :: "rstr \<Rightarrow> (parse_error, apply_patch_args) outcome" where
  "parse_patch patch = parse_patch_text patch (if PARSE_IN_STRICT_MODE then Strict else Lenient)"

section \<open>The parser never panics\<close>

lemma chunk_lines_loop_no_panic: "chunk_lines_loop ln chunk p ls \<noteq> Panic"
  by (induction ln chunk p ls rule: chunk_lines_loop.induct) (auto split: list.split)

lemma parse_update_file_chunk_no_panic: "parse_update_file_chunk ls ln allow \<noteq> Panic"
  unfolding parse_update_file_chunk_def chunk_context_def
  by (auto simp: outcome_simps chunk_lines_loop_no_panic split: list.split option.split)

text \<open>
  The loops with their slices resolved: since a call never reports more lines than it was given,
  \<^verbatim>\<open>&remaining_lines[n..]\<close> is always in range.  The induction rules follow these equations.
\<close>

declare update_chunks_loop.simps(2) [simp del] parse_hunks.simps(2) [simp del]

lemma update_chunks_loop_Cons:
  "update_chunks_loop ln (l # ls) p cs =
     (if trim l = [] then update_chunks_loop ln ls (p + 1) cs
      else if starts_with [c_star] l then Ok (cs, p)
      else and_then (parse_update_file_chunk (l # ls) (ln + p) (cs = []))
             (\<lambda>(c, k). update_chunks_loop ln (drop k (l # ls)) (p + k) (cs @ [c])))"
proof -
  have "and_then (slice_from k (l # ls)) f = f (drop k (l # ls))"
    if "parse_update_file_chunk (l # ls) n b = Ok (c, k)" for n b c k f
    using parse_update_file_chunk_parsed [OF that] by (simp add: slice_from_def)
  then show ?thesis
    by (cases "parse_update_file_chunk (l # ls) (ln + p) (cs = [])")
      (auto simp: update_chunks_loop.simps(2))
qed

lemma parse_hunks_Cons:
  "parse_hunks (l # ls) ln hs =
     and_then (parse_one_hunk (l # ls) ln)
       (\<lambda>(h, k). parse_hunks (drop k (l # ls)) (ln + k) (hs @ [h]))"
proof -
  have "and_then (slice_from k (l # ls)) f = f (drop k (l # ls))"
    if "parse_one_hunk (l # ls) ln = Ok (h, k)" for h k f
    using parse_one_hunk_parsed [OF that] by (simp add: slice_from_def)
  then show ?thesis
    by (cases "parse_one_hunk (l # ls) ln") (auto simp: parse_hunks.simps(2))
qed

lemma update_chunks_loop_induct [case_names Nil Cons]:
  assumes "\<And>ln p cs. P ln [] p cs"
    and "\<And>ln l ls p cs. (trim l = [] \<Longrightarrow> P ln ls (p + 1) cs) \<Longrightarrow>
      (\<And>c k. parse_update_file_chunk (l # ls) (ln + p) (cs = []) = Ok (c, k) \<Longrightarrow>
         P ln (drop k (l # ls)) (p + k) (cs @ [c])) \<Longrightarrow> P ln (l # ls) p cs"
  shows "P ln ls p cs"
proof (induction "length ls" arbitrary: ls p cs rule: less_induct)
  case less
  show ?case
  proof (cases ls)
    case (Cons l ls')
    with less show ?thesis
      by (auto intro!: assms(2) dest!: parse_update_file_chunk_parsed)
  qed (simp add: assms(1))
qed

lemma parse_hunks_induct [case_names Nil Cons]:
  assumes "\<And>ln hs. P [] ln hs"
    and "\<And>l ls ln hs. (\<And>h k. parse_one_hunk (l # ls) ln = Ok (h, k) \<Longrightarrow>
         P (drop k (l # ls)) (ln + k) (hs @ [h])) \<Longrightarrow> P (l # ls) ln hs"
  shows "P ls ln hs"
proof (induction "length ls" arbitrary: ls ln hs rule: less_induct)
  case less
  show ?case
  proof (cases ls)
    case (Cons l ls')
    with less show ?thesis
      by (auto intro!: assms(2) dest!: parse_one_hunk_parsed)
  qed (simp add: assms(1))
qed

lemma update_chunks_loop_no_panic: "update_chunks_loop ln ls p cs \<noteq> Panic"
  by (induction ln ls p cs rule: update_chunks_loop_induct)
    (auto simp: update_chunks_loop_Cons outcome_simps parse_update_file_chunk_no_panic)

lemma parse_one_hunk_no_panic: "ls \<noteq> [] \<Longrightarrow> parse_one_hunk ls ln \<noteq> Panic"
  unfolding parse_one_hunk_def Let_def
  by (auto simp: outcome_simps update_chunks_loop_no_panic neq_Nil_conv
      split: list.split option.split prod.split)

lemma parse_hunks_no_panic: "parse_hunks ls ln hs \<noteq> Panic"
  by (induction ls ln hs rule: parse_hunks_induct)
    (auto simp: parse_hunks_Cons outcome_simps parse_one_hunk_no_panic)

lemma check_strict_Ok_iff:
  "check_patch_boundaries_strict ls = Ok r \<longleftrightarrow>
     2 \<le> length ls \<and> trim (hd ls) = BEGIN_PATCH_MARKER \<and> trim (last ls) = END_PATCH_MARKER \<and>
     r = (ls, butlast (tl ls))"
  by (cases ls rule: list.exhaust; cases "tl ls")
    (auto simp: check_patch_boundaries_strict_def check_start_and_end_lines_strict_def
      outcome_simps marker_defs butlast_conv_take split: if_splits)

lemma check_strict_no_panic: "check_patch_boundaries_strict ls \<noteq> Panic"
  by (cases ls rule: list.exhaust; cases "tl ls")
    (auto simp: check_patch_boundaries_strict_def check_start_and_end_lines_strict_def
      outcome_simps marker_defs)

lemma check_lenient_no_panic: "check_patch_boundaries_lenient ls \<noteq> Panic"
  unfolding check_patch_boundaries_lenient_def
  by (auto simp: outcome_simps check_strict_no_panic split: outcome.split list.split)

lemma parse_environment_id_no_panic: "parse_environment_id_preamble ls \<noteq> Panic"
  by (auto simp: parse_environment_id_preamble_def Let_def split: list.split option.split)

lemma parse_patch_text_not_Panic: "parse_patch_text patch mode \<noteq> Panic"
  unfolding parse_patch_text_def Let_def
  by (auto simp: outcome_simps check_strict_no_panic check_lenient_no_panic
      parse_environment_id_no_panic parse_hunks_no_panic split: parse_mode.split)

lemma parse_patch_not_Panic: "parse_patch patch \<noteq> Panic"
  by (simp add: parse_patch_def parse_patch_text_not_Panic)

text \<open>
  Parsing terminates with hunks or an error for every text, in both modes: no slice, index or
  subtraction of the parser can panic.
\<close>
theorem parse_patch_text_no_panic: "parse_patch_text patch mode \<noteq> Panic"
  by (rule parse_patch_text_not_Panic)

section \<open>What the parser accepts is well formed\<close>

definition chunk_ok :: "update_file_chunk \<Rightarrow> bool" where
  "chunk_ok c \<longleftrightarrow> old_lines c \<noteq> [] \<or> new_lines c \<noteq> []"

definition path_ok :: "rstr \<Rightarrow> bool" where
  "path_ok p \<longleftrightarrow> p \<noteq> [] \<and> \<not> is_whitespace (last p)"

fun hunk_ok :: "hunk \<Rightarrow> bool" where
  "hunk_ok (AddFile p contents) = (path_ok p \<and> (contents = [] \<or> last contents = newline))"
| "hunk_ok (DeleteFile p) = path_ok p"
| "hunk_ok (UpdateFile p m cs) = (path_ok p \<and> cs \<noteq> [] \<and> list_all chunk_ok cs)"

lemma chunk_lines_loop_chunk_ok:
  "chunk_lines_loop ln chunk p ls = Ok (c, n) \<Longrightarrow> (0 < p \<longrightarrow> chunk_ok chunk) \<Longrightarrow> 0 < n \<Longrightarrow> chunk_ok c"
proof (induction ln chunk p ls rule: chunk_lines_loop.induct)
  case (2 ln chunk p l ls)
  then show ?case by (cases l) (auto simp: chunk_ok_def split: if_splits)
qed simp

lemma parse_update_file_chunk_ok:
  assumes "parse_update_file_chunk ls ln allow = Ok (c, n)"
  shows "chunk_ok c"
proof -
  obtain ctx i k where
    loop: "chunk_lines_loop ln (empty_chunk ctx) 0 (drop i ls) = Ok (c, k)" and "i < length ls"
    using parse_update_file_chunk_OkD [OF assms] by blast
  then have "0 < k" using chunk_lines_loop_parsed [OF loop] by simp
  with loop show ?thesis by (auto intro: chunk_lines_loop_chunk_ok)
qed

lemma update_chunks_loop_ok:
  "update_chunks_loop ln ls p cs = Ok (cs', n) \<Longrightarrow> list_all chunk_ok cs \<Longrightarrow> list_all chunk_ok cs'"
  by (induction ln ls p cs rule: update_chunks_loop_induct)
    (auto simp: update_chunks_loop_Cons outcome_simps split: if_splits
      dest: parse_update_file_chunk_ok)

lemma add_lines_loop_ok:
  "add_lines_loop contents p ls = (contents', n) \<Longrightarrow> contents = [] \<or> last contents = newline \<Longrightarrow>
   contents' = [] \<or> last contents' = newline"
  by (induction contents p ls rule: add_lines_loop.induct) (auto split: option.splits)

lemma last_trim: "trim s \<noteq> [] \<Longrightarrow> \<not> is_whitespace (last (trim s))"
  unfolding trim_def trim_end_def by (metis hd_dropWhile last_rev rev_is_Nil_conv)

lemma marker_path_ok:
  assumes "strip_prefix m (trim l) = Some p" "m \<noteq> []" "is_whitespace (last m)"
  shows "path_ok p"
proof -
  have t: "trim l = m @ p" using assms(1) by (simp add: strip_prefix_Some_iff)
  with assms(2) have "\<not> is_whitespace (last (m @ p))" using last_trim [of l] by simp
  with assms(3) show ?thesis by (cases p rule: rev_cases) (auto simp: path_ok_def)
qed

lemma header_path_ok:
  "strip_prefix ADD_FILE_MARKER (trim l) = Some p \<Longrightarrow> path_ok p"
  "strip_prefix DELETE_FILE_MARKER (trim l) = Some p \<Longrightarrow> path_ok p"
  "strip_prefix UPDATE_FILE_MARKER (trim l) = Some p \<Longrightarrow> path_ok p"
  by (erule marker_path_ok; simp add: marker_defs is_whitespace_def)+

lemma parse_one_hunk_ok: "parse_one_hunk ls ln = Ok (h, n) \<Longrightarrow> hunk_ok h"
  unfolding parse_one_hunk_def Let_def
  by (cases ls)
    (auto simp: outcome_simps simp del: add_lines_loop.simps
      split: option.splits prod.splits if_splits
      dest: add_lines_loop_ok dest!: update_chunks_loop_ok [where cs = "[]", simplified]
        header_path_ok)

lemma parse_hunks_ok:
  "parse_hunks ls ln hs = Ok hs' \<Longrightarrow> list_all hunk_ok hs \<Longrightarrow> list_all hunk_ok hs'"
  by (induction ls ln hs rule: parse_hunks_induct)
    (auto simp: parse_hunks_Cons outcome_simps dest: parse_one_hunk_ok)

text \<open>
  Every hunk the parser returns is well formed: its path is not empty and has no trailing white
  space, an added file's contents are whole lines, and an update hunk has at least one chunk, each
  of which adds or removes or keeps at least one line.
\<close>
theorem parse_patch_text_wellformed:
  assumes "parse_patch_text patch mode = Ok args"
  shows "list_all hunk_ok (args_hunks args)"
proof -
  obtain ls ln where "parse_hunks ls ln [] = Ok (args_hunks args)"
    using assms unfolding parse_patch_text_def Let_def
    by (auto simp: outcome_simps split: prod.splits)
  then show ?thesis by (auto dest: parse_hunks_ok)
qed

section \<open>Line numbers of errors\<close>

lemma chunk_lines_loop_line:
  "chunk_lines_loop ln chunk p ls = Err e \<Longrightarrow> \<exists>m. e = InvalidHunkError m (ln + 1)"
proof (induction ln chunk p ls rule: chunk_lines_loop.induct)
  case (2 ln chunk p l ls)
  then show ?case by (cases l) (auto split: if_splits)
qed simp

lemma chunk_context_line:
  "chunk_context first ln allow = Err e \<Longrightarrow> \<exists>m. e = InvalidHunkError m ln"
  by (auto simp: chunk_context_def split: if_splits option.splits)

lemma parse_update_file_chunk_line:
  assumes "parse_update_file_chunk ls ln allow = Err e"
  shows "\<exists>m n. e = InvalidHunkError m n \<and> ln \<le> n \<and> n \<le> ln + length ls"
proof (cases ls)
  case Nil
  with assms show ?thesis by (auto simp: parse_update_file_chunk_def)
next
  case (Cons first rest)
  show ?thesis
  proof (cases "chunk_context first ln allow")
    case (Err e')
    with assms Cons chunk_context_line [OF Err] show ?thesis
      by (auto simp: parse_update_file_chunk_def)
  next
    case (Ok r)
    then obtain ctx i where r: "chunk_context first ln allow = Ok (ctx, i)" by (cases r) auto
    have "\<exists>m. e = InvalidHunkError m (ln + 1)"
      using assms Cons r chunk_lines_loop_line
      by (fastforce simp: parse_update_file_chunk_def outcome_simps simp del: chunk_lines_loop.simps
          split: if_splits)
    with Cons show ?thesis by auto
  qed (use assms Cons in \<open>simp add: parse_update_file_chunk_def\<close>)
qed

lemma update_chunks_loop_line:
  "update_chunks_loop ln ls p cs = Err e \<Longrightarrow>
   \<exists>m n. e = InvalidHunkError m n \<and> ln + p \<le> n \<and> n \<le> ln + p + length ls"
proof (induction ln ls p cs rule: update_chunks_loop_induct)
  case (Cons ln l ls p cs)
  show ?case
  proof (cases "trim l = [] \<or> starts_with [c_star] l")
    case True
    with Cons show ?thesis by (fastforce simp: update_chunks_loop_Cons split: if_splits)
  next
    case False
    then consider "parse_update_file_chunk (l # ls) (ln + p) (cs = []) = Err e"
      | c k where "parse_update_file_chunk (l # ls) (ln + p) (cs = []) = Ok (c, k)"
          "update_chunks_loop ln (drop k (l # ls)) (p + k) (cs @ [c]) = Err e"
      using Cons.prems by (auto simp: update_chunks_loop_Cons outcome_simps)
    then show ?thesis
    proof cases
      case 1
      then show ?thesis by (rule parse_update_file_chunk_line)
    next
      case 2
      with Cons.IH(2)[OF 2] parse_update_file_chunk_parsed [OF 2(1)] show ?thesis by fastforce
    qed
  qed
qed simp

lemma parse_one_hunk_line:
  "parse_one_hunk ls ln = Err e \<Longrightarrow>
   \<exists>m n. e = InvalidHunkError m n \<and> ln \<le> n \<and> n \<le> ln + length ls"
  unfolding parse_one_hunk_def Let_def
  by (cases ls; cases "tl ls")
    (fastforce simp: outcome_simps split: if_splits option.splits prod.splits
      dest!: update_chunks_loop_line)+

lemma parse_hunks_line:
  "parse_hunks ls ln hs = Err e \<Longrightarrow>
   \<exists>m n. e = InvalidHunkError m n \<and> ln \<le> n \<and> n \<le> ln + length ls"
proof (induction ls ln hs rule: parse_hunks_induct)
  case (Cons l ls ln hs)
  then consider "parse_one_hunk (l # ls) ln = Err e"
    | h k where "parse_one_hunk (l # ls) ln = Ok (h, k)"
        "parse_hunks (drop k (l # ls)) (ln + k) (hs @ [h]) = Err e"
    by (auto simp: parse_hunks_Cons outcome_simps)
  then show ?case
  proof cases
    case 1
    then show ?thesis by (rule parse_one_hunk_line)
  next
    case 2
    with Cons.IH [OF 2] parse_one_hunk_parsed [OF 2(1)] show ?thesis by fastforce
  qed
qed simp

lemma check_lenient_Ok:
  "check_patch_boundaries_lenient ls = Ok (pl, hl) \<Longrightarrow>
   length pl \<le> length ls \<and> length hl + 2 = length pl"
  unfolding check_patch_boundaries_lenient_def
  by (auto simp: outcome_simps check_strict_Ok_iff split: outcome.splits list.splits if_splits)

lemma parse_environment_id_Ok:
  "parse_environment_id_preamble hl = Ok (env, rl, ln) \<Longrightarrow> 2 \<le> ln \<and> length rl + ln = length hl + 2"
  by (auto simp: parse_environment_id_preamble_def Let_def split: list.splits option.splits if_splits)

lemma parse_environment_id_Err:
  "parse_environment_id_preamble hl = Err e \<Longrightarrow> \<exists>m. e = InvalidPatchError m"
  by (auto simp: parse_environment_id_preamble_def Let_def split: list.splits option.splits if_splits)

lemma check_strict_Err: "check_patch_boundaries_strict ls = Err e \<Longrightarrow> \<exists>m. e = InvalidPatchError m"
  by (auto simp: check_patch_boundaries_strict_def check_start_and_end_lines_strict_def outcome_simps
      split: list.splits if_splits)

lemma check_lenient_Err: "check_patch_boundaries_lenient ls = Err e \<Longrightarrow> \<exists>m. e = InvalidPatchError m"
  unfolding check_patch_boundaries_lenient_def
  by (auto simp: outcome_simps dest: check_strict_Err split: outcome.splits list.splits if_splits)

lemma boundaries_Ok:
  "(case mode of Strict \<Rightarrow> check_patch_boundaries_strict ls
    | Lenient \<Rightarrow> check_patch_boundaries_lenient ls) = Ok (pl, hl) \<Longrightarrow>
   length pl \<le> length ls \<and> length hl + 2 = length pl"
  by (cases mode) (auto simp: check_strict_Ok_iff dest: check_lenient_Ok)

lemma boundaries_Err:
  "(case mode of Strict \<Rightarrow> check_patch_boundaries_strict ls
    | Lenient \<Rightarrow> check_patch_boundaries_lenient ls) \<noteq> Err (InvalidHunkError m n)"
  by (cases mode) (auto dest: check_lenient_Err check_strict_Err)

text \<open>
  The line number of an invalid-hunk error lies between the line after the begin marker and the
  last line of the patch text, so it always names a line the user can look at.
\<close>
theorem parse_error_line_in_patch:
  assumes "parse_patch_text patch mode = Err (InvalidHunkError m n)"
  shows "2 \<le> n \<and> n \<le> length (lines (trim patch))"
proof -
  obtain pl hl env rl ln where
    bounds: "(case mode of Strict \<Rightarrow> check_patch_boundaries_strict (lines (trim patch))
      | Lenient \<Rightarrow> check_patch_boundaries_lenient (lines (trim patch))) = Ok (pl, hl)" and
    env: "parse_environment_id_preamble hl = Ok (env, rl, ln)" and
    hunks: "parse_hunks rl ln [] = Err (InvalidHunkError m n)"
    using assms unfolding parse_patch_text_def Let_def
    by (auto simp: outcome_simps boundaries_Err dest: parse_environment_id_Err)
  with parse_hunks_line [OF hunks] parse_environment_id_Ok [OF env] boundaries_Ok [OF bounds]
  show ?thesis by auto
qed

section \<open>Lenient mode\<close>

lemma lines_from_append:
  assumes "a \<noteq> []" "last a \<noteq> newline" "last a \<noteq> carriage_return"
  shows "lines_from acc (a @ newline # b) = lines_from acc a @ lines b"
  using assms
proof (induction a arbitrary: acc)
  case (Cons c a)
  then show ?case by (cases a) (auto simp: lines_def strip_cr_def)
qed simp

lemma check_lenient_heredoc:
  assumes "start \<in> set heredoc_starts" "check_patch_boundaries_strict ls = Ok r"
  shows "check_patch_boundaries_lenient (start # ls @ [lit ''EOF'']) = Ok r"
proof -
  have ls: "2 \<le> length ls" using assms(2) by (simp add: check_strict_Ok_iff)
  have "\<exists>e. check_patch_boundaries_strict (start # ls @ [lit ''EOF'']) = Err e"
    using assms(1)
    by (auto simp: check_patch_boundaries_strict_def check_start_and_end_lines_strict_def
        heredoc_starts_def quoted_def marker_defs trim_def trim_start_def trim_end_def is_whitespace_def)
  moreover obtain x y zs where "ls = x # y # zs" using ls by (cases ls; cases "tl ls") auto
  ultimately show ?thesis
    using assms by (auto simp: check_patch_boundaries_lenient_def slice_def ends_with_iff)
qed

lemma heredoc_start_shape:
  assumes "start \<in> set heredoc_starts"
  shows "start \<noteq> []" "\<not> is_whitespace (hd start)" "newline \<notin> set start" "strip_cr start = start"
  using assms by (auto simp: heredoc_starts_def quoted_def is_whitespace_def strip_cr_def)

text \<open>
  Lenient mode, the mode the program runs in, accepts whatever strict mode accepts, and also that
  text wrapped in a shell heredoc, with the same result.
\<close>
theorem lenient_extends_strict:
  assumes "parse_patch_text patch Strict = Ok args"
  shows "parse_patch patch = Ok args \<and>
    (\<forall>start \<in> set heredoc_starts. trim patch = patch \<longrightarrow>
      parse_patch (start @ newline # patch @ newline # lit ''EOF'') = Ok args)"
proof (intro conjI ballI impI)
  let ?ls = "lines (trim patch)"
  from assms obtain pl hl where strict: "check_patch_boundaries_strict ?ls = Ok (pl, hl)"
    by (auto simp: parse_patch_text_def Let_def outcome_simps)
  then have "check_patch_boundaries_lenient ?ls = check_patch_boundaries_strict ?ls"
    by (simp add: check_patch_boundaries_lenient_def)
  with assms show "parse_patch patch = Ok args"
    by (simp add: parse_patch_def PARSE_IN_STRICT_MODE_def parse_patch_text_def)
  fix start
  assume start: "start \<in> set heredoc_starts" and trimmed: "trim patch = patch"
  let ?text = "start @ newline # patch @ newline # lit ''EOF''"
  have "patch \<noteq> []" using strict trimmed by (auto simp: check_strict_Ok_iff lines_def)
  then have last: "last patch \<noteq> newline" "last patch \<noteq> carriage_return"
    using last_trim [of patch] trimmed by (auto simp: is_whitespace_def)
  have "trim ?text = ?text"
    using heredoc_start_shape [OF start] by (intro trim_id) (auto simp: is_whitespace_def)
  moreover have "lines ?text = start # lines patch @ [lit ''EOF'']"
    using heredoc_start_shape [OF start] \<open>patch \<noteq> []\<close> last
    by (simp add: lines_def lines_from_append_line lines_from_append lines_from_no_newline)
  ultimately show "parse_patch ?text = Ok args"
    using assms strict trimmed check_lenient_heredoc [OF start, of ?ls]
    by (simp add: parse_patch_def PARSE_IN_STRICT_MODE_def parse_patch_text_def)
qed

section \<open>Witnesses\<close>

definition delete_patch :: rstr where
  "delete_patch = join [newline] [BEGIN_PATCH_MARKER, lit ''*** Delete File: a'', END_PATCH_MARKER]"

definition delete_args :: apply_patch_args where
  "delete_args = \<lparr>args_patch = delete_patch, args_hunks = [DeleteFile (lit ''a'')],
     args_workdir = None, args_environment_id = None\<rparr>"

lemmas parse_eval =
  parse_patch_text_def check_patch_boundaries_lenient_def check_patch_boundaries_strict_def
  check_start_and_end_lines_strict_def slice_def parse_environment_id_preamble_def
  parse_hunks_Cons parse_one_hunk_def marker_defs lines_def strip_cr_def
  trim_def trim_start_def trim_end_def is_whitespace_def

lemma parse_delete_patch: "parse_patch_text delete_patch Strict = Ok delete_args"
  by (simp add: delete_patch_def delete_args_def parse_eval)

definition broken_patch :: rstr where
  "broken_patch = join [newline] [BEGIN_PATCH_MARKER, lit ''*** Update File: a'', END_PATCH_MARKER]"

lemma parse_broken_patch:
  "parse_patch_text broken_patch Lenient = Err (InvalidHunkError (empty_update_message (lit ''a'')) 2)"
  by (simp add: broken_patch_def parse_eval)

theorem parse_patch_text_wellformed_witness:
  "parse_patch_text delete_patch Strict = Ok delete_args \<and> list_all hunk_ok (args_hunks delete_args)"
  using parse_patch_text_wellformed [OF parse_delete_patch] parse_delete_patch by simp

theorem parse_error_line_in_patch_witness:
  "2 \<le> (2::nat) \<and> 2 \<le> length (lines (trim broken_patch))"
  by (rule parse_error_line_in_patch [OF parse_broken_patch])

theorem lenient_extends_strict_witness:
  "parse_patch delete_patch = Ok delete_args \<and>
   parse_patch (lit ''<<EOF'' @ newline # delete_patch @ newline # lit ''EOF'') = Ok delete_args"
proof -
  have "trim delete_patch = delete_patch" by (simp add: delete_patch_def parse_eval)
  then show ?thesis
    using lenient_extends_strict [OF parse_delete_patch] by (simp add: heredoc_starts_def)
qed

end
