(* ===== verification/Patch_Grammar.thy ===== *)
theory Patch_Grammar
  imports Patch_Format
begin

text \<open>
  The documented grammar of a patch (the Lark grammar at the head of
  \<^verbatim>\<open>codex-rs/apply-patch/src/parser.rs\<close>) as a printer, and the proof that the batch parser
  inverts it.  The printer is a specification: the program never prints a patch.  A chunk is
  printed with the lines its two sides begin with in common as context lines, then its removed lines,
  then its added lines; \<open>renderable_hunk\<close> says which hunks the
  grammar can express (paths and contexts on one line without trailing white space, file contents
  made of whole lines).
\<close>

section \<open>Rendering\<close>

fun common_lines :: "'a list \<Rightarrow> 'a list \<Rightarrow> 'a list" where
  "common_lines (x # xs) (y # ys) = (if x = y then x # common_lines xs ys else [])"
| "common_lines _ _ = []"

definition change_lines :: "rstr list \<Rightarrow> rstr list \<Rightarrow> rstr list" where
  "change_lines olds news =
     (let shared = common_lines olds news; n = length shared in
      map (\<lambda>l. c_space # l) shared @ map (\<lambda>l. c_minus # l) (drop n olds) @ map (\<lambda>l. c_plus # l) (drop n news))"

definition render_chunk :: "update_file_chunk \<Rightarrow> rstr list" where
  "render_chunk c =
     (case change_context c of
        None \<Rightarrow> EMPTY_CHANGE_CONTEXT_MARKER
      | Some ctx \<Rightarrow> CHANGE_CONTEXT_MARKER @ ctx) #
     change_lines (old_lines c) (new_lines c) @
     (if is_end_of_file c then [EOF_MARKER] else [])"

fun render_hunk :: "hunk \<Rightarrow> rstr list" where
  "render_hunk (AddFile p contents) = (ADD_FILE_MARKER @ p) # map (\<lambda>l. c_plus # l) (lines contents)"
| "render_hunk (DeleteFile p) = [DELETE_FILE_MARKER @ p]"
| "render_hunk (UpdateFile p m cs) =
     (UPDATE_FILE_MARKER @ p) #
     (case m of None \<Rightarrow> [] | Some d \<Rightarrow> [MOVE_TO_MARKER @ d]) @ concat (map render_chunk cs)"

definition render_lines :: "rstr option \<Rightarrow> hunk list \<Rightarrow> rstr list" where
  "render_lines env hs =
     BEGIN_PATCH_MARKER # (case env of None \<Rightarrow> [] | Some e \<Rightarrow> [ENVIRONMENT_ID_MARKER @ e]) @
     concat (map render_hunk hs) @ [END_PATCH_MARKER]"

definition render_patch :: "rstr option \<Rightarrow> hunk list \<Rightarrow> rstr" where
  "render_patch env hs = join [newline] (render_lines env hs)"

definition name_ok :: "rstr \<Rightarrow> bool" where
  "name_ok p \<longleftrightarrow> path_ok p \<and> newline \<notin> set p"

definition renderable_chunk :: "update_file_chunk \<Rightarrow> bool" where
  "renderable_chunk c \<longleftrightarrow>
     chunk_ok c \<and> list_all plain_line (old_lines c) \<and> list_all plain_line (new_lines c) \<and>
     (case change_context c of None \<Rightarrow> True | Some ctx \<Rightarrow> name_ok ctx)"

fun renderable_hunk :: "hunk \<Rightarrow> bool" where
  "renderable_hunk (AddFile p contents) =
     (name_ok p \<and> list_all plain_line (lines contents) \<and>
      contents = concat (map (\<lambda>l. l @ [newline]) (lines contents)))"
| "renderable_hunk (DeleteFile p) = name_ok p"
| "renderable_hunk (UpdateFile p m cs) =
     (name_ok p \<and> (case m of None \<Rightarrow> True | Some d \<Rightarrow> name_ok d) \<and>
      cs \<noteq> [] \<and> list_all renderable_chunk cs)"

section \<open>Chunks\<close>

lemma common_lines_split:
  "\<exists>olds' news'. olds = common_lines olds news @ olds' \<and> news = common_lines olds news @ news'"
  by (induction olds news rule: common_lines.induct) auto

lemma change_lines_split:
  obtains shared olds' news' where "olds = shared @ olds'" "news = shared @ news'"
    "change_lines olds news =
       map (\<lambda>l. c_space # l) shared @ map (\<lambda>l. c_minus # l) olds' @ map (\<lambda>l. c_plus # l) news'"
proof -
  obtain olds' news' where "olds = common_lines olds news @ olds'" "news = common_lines olds news @ news'"
    using common_lines_split by blast
  moreover from this have "drop (length (common_lines olds news)) olds = olds'"
    "drop (length (common_lines olds news)) news = news'"
    by (metis append_eq_conv_conj)+
  ultimately show ?thesis by (intro that) (simp_all add: change_lines_def Let_def)
qed

lemma chunk_lines_loop_shared:
  "chunk_lines_loop ln c p (map (\<lambda>l. c_space # l) ls @ rest) =
   chunk_lines_loop ln (c\<lparr>old_lines := old_lines c @ ls, new_lines := new_lines c @ ls\<rparr>) (p + length ls) rest"
  by (induction ls arbitrary: c p) (auto simp: EOF_MARKER_def)

lemma chunk_lines_loop_removed:
  "chunk_lines_loop ln c p (map (\<lambda>l. c_minus # l) ls @ rest) =
   chunk_lines_loop ln (c\<lparr>old_lines := old_lines c @ ls\<rparr>) (p + length ls) rest"
  by (induction ls arbitrary: c p) (auto simp: EOF_MARKER_def)

lemma chunk_lines_loop_added:
  "chunk_lines_loop ln c p (map (\<lambda>l. c_plus # l) ls @ rest) =
   chunk_lines_loop ln (c\<lparr>new_lines := new_lines c @ ls\<rparr>) (p + length ls) rest"
  by (induction ls arbitrary: c p) (auto simp: EOF_MARKER_def)

text \<open>A line at which a chunk ends: it is neither a change line nor the end-of-file marker.\<close>

definition ends_chunk :: "rstr list \<Rightarrow> bool" where
  "ends_chunk rest \<longleftrightarrow>
     (case rest of [] \<Rightarrow> True
      | l # _ \<Rightarrow> l \<noteq> [] \<and> hd l \<notin> {c_space, c_plus, c_minus} \<and> l \<noteq> EOF_MARKER)"

lemma chunk_lines_loop_stop:
  "ends_chunk rest \<Longrightarrow> 0 < p \<Longrightarrow>
   chunk_lines_loop ln c p ((if e then [EOF_MARKER] else []) @ rest) =
   Ok (if e then c\<lparr>is_end_of_file := True\<rparr> else c, p + (if e then 1 else 0))"
  by (cases rest; cases "hd rest") (auto simp: ends_chunk_def)

lemma chunk_lines_loop_body:
  assumes "ends_chunk rest" "0 < length olds + length news"
  shows "chunk_lines_loop ln (empty_chunk ctx) 0
     (change_lines olds news @ (if e then [EOF_MARKER] else []) @ rest) =
   Ok (\<lparr>change_context = ctx, old_lines = olds, new_lines = news, is_end_of_file = e\<rparr>,
       length (change_lines olds news) + (if e then 1 else 0))"
proof (cases rule: change_lines_split [of olds news])
  case (1 shared olds' news')
  then have "0 < length shared + length olds' + length news'" using assms(2) by auto
  then show ?thesis
    using assms(1) 1
    by (simp add: chunk_lines_loop_shared chunk_lines_loop_removed chunk_lines_loop_added chunk_lines_loop_stop
        empty_chunk_def del: append.simps)
qed

lemma change_lines_not_Nil: "0 < length olds + length news \<Longrightarrow> change_lines olds news \<noteq> []"
  by (cases rule: change_lines_split [of olds news]) auto

lemma parse_rendered_chunk:
  assumes "renderable_chunk c" "ends_chunk rest"
  shows "parse_update_file_chunk (render_chunk c @ rest) ln allow = Ok (c, length (render_chunk c))"
proof -
  have len: "0 < length (old_lines c) + length (new_lines c)"
    using assms(1) by (auto simp: renderable_chunk_def chunk_ok_def)
  have ctx: "chunk_context (hd (render_chunk c)) ln allow = Ok (change_context c, 1)"
    by (auto simp: chunk_context_def render_chunk_def marker_defs split: option.splits)
  have loop: "chunk_lines_loop ln (empty_chunk (change_context c)) 0
      (tl (render_chunk c) @ rest) = Ok (c, length (render_chunk c) - 1)"
    using chunk_lines_loop_body [OF assms(2) len, of ln "change_context c" "is_end_of_file c"]
    by (simp add: render_chunk_def)
  obtain x xs where c: "render_chunk c = x # xs" "xs \<noteq> []"
    using change_lines_not_Nil [OF len] by (cases "render_chunk c") (auto simp: render_chunk_def)
  with ctx loop show ?thesis
    by (simp add: parse_update_file_chunk_def slice_from_def Suc_le_eq)
qed

lemma render_chunk_not_Nil [simp]: "render_chunk c \<noteq> []"
  by (simp add: render_chunk_def)

lemma hd_render_chunk: "\<exists>l. hd (render_chunk c) = 64 # 64 # l"
  by (auto simp: render_chunk_def marker_defs split: option.split)

lemma render_chunk_shape: "\<exists>l ls. render_chunk c = (64 # 64 # l) # ls"
  by (auto simp: render_chunk_def marker_defs split: option.split)

definition starts_hunk :: "rstr list \<Rightarrow> bool" where
  "starts_hunk rest \<longleftrightarrow>
     (case rest of [] \<Rightarrow> True | l # _ \<Rightarrow> starts_with [c_star] l \<and> l \<noteq> EOF_MARKER)"

lemma trim_not_Nil: "\<not> is_whitespace (hd l) \<Longrightarrow> l \<noteq> [] \<Longrightarrow> trim l \<noteq> []"
  by (cases l) (auto simp: trim_def trim_start_def trim_end_def)

lemma starts_hunk_ends_chunk: "starts_hunk rest \<Longrightarrow> ends_chunk rest"
  by (auto simp: starts_hunk_def ends_chunk_def starts_with_iff prefix_def split: list.splits)

lemma ends_chunk_render_chunks:
  "starts_hunk rest \<Longrightarrow> ends_chunk (concat (map render_chunk cs) @ rest)"
proof (cases cs)
  case (Cons c cs')
  moreover obtain l ls where "render_chunk c = (64 # 64 # l) # ls"
    using render_chunk_shape [of c] by blast
  ultimately show ?thesis by (simp add: ends_chunk_def EOF_MARKER_def)
qed (simp add: starts_hunk_ends_chunk)

lemma update_chunks_loop_rendered:
  assumes "list_all renderable_chunk cs" "starts_hunk rest"
  shows "update_chunks_loop ln (concat (map render_chunk cs) @ rest) p acc =
    Ok (acc @ cs, p + length (concat (map render_chunk cs)))"
  using assms
proof (induction cs arbitrary: p acc)
  case Nil
  have "trim l \<noteq> []" if "starts_with [c_star] l" for l
    using that trim_not_Nil [of l] by (auto simp: starts_with_iff prefix_def is_whitespace_def)
  with Nil show ?case by (cases rest) (auto simp: starts_hunk_def update_chunks_loop_Cons)
next
  case (Cons c cs)
  let ?more = "concat (map render_chunk cs) @ rest"
  obtain l ls where c: "render_chunk c = (64 # 64 # l) # ls"
    using render_chunk_shape [of c] by blast
  have "trim (64 # 64 # l) \<noteq> []" by (rule trim_not_Nil) (auto simp: is_whitespace_def)
  moreover have "\<not> starts_with [c_star] (64 # 64 # l)" by (simp add: starts_with_def)
  moreover have "parse_update_file_chunk (render_chunk c @ ?more) (ln + p) (acc = []) =
      Ok (c, length (render_chunk c))"
    using Cons.prems by (intro parse_rendered_chunk) (auto intro: ends_chunk_render_chunks)
  ultimately have "update_chunks_loop ln (render_chunk c @ ?more) p acc =
      update_chunks_loop ln ?more (p + length (render_chunk c)) (acc @ [c])"
    by (simp add: c update_chunks_loop_Cons)
  with Cons show ?case by simp
qed

section \<open>Hunks\<close>

lemma add_lines_loop_rendered:
  "starts_hunk rest \<Longrightarrow>
   add_lines_loop acc p (map (\<lambda>l. c_plus # l) ls @ rest) =
   (acc @ concat (map (\<lambda>l. l @ [newline]) ls), p + length ls)"
proof (induction ls arbitrary: acc p)
  case Nil
  then show ?case
    by (cases rest) (auto simp: starts_hunk_def starts_with_iff prefix_def split: option.split)
qed auto

lemma trim_header:
  assumes "name_ok p" "m \<noteq> []" "\<not> is_whitespace (hd m)"
  shows "trim (m @ p) = m @ p"
  using assms by (intro trim_id) (auto simp: name_ok_def path_ok_def)

lemma markers_head:
  "hd ADD_FILE_MARKER = c_star" "ADD_FILE_MARKER \<noteq> []"
  "hd DELETE_FILE_MARKER = c_star" "DELETE_FILE_MARKER \<noteq> []"
  "hd UPDATE_FILE_MARKER = c_star" "UPDATE_FILE_MARKER \<noteq> []"
  "\<not> is_whitespace c_star"
  by (simp_all add: marker_defs is_whitespace_def)

lemma header_prefixes:
  "strip_prefix ADD_FILE_MARKER (DELETE_FILE_MARKER @ p) = None"
  "strip_prefix ADD_FILE_MARKER (UPDATE_FILE_MARKER @ p) = None"
  "strip_prefix DELETE_FILE_MARKER (UPDATE_FILE_MARKER @ p) = None"
  by (simp_all add: marker_defs)

lemma parse_rendered_hunk:
  assumes "renderable_hunk h" "starts_hunk rest"
  shows "parse_one_hunk (render_hunk h @ rest) ln = Ok (h, length (render_hunk h))"
proof (cases h)
  case (AddFile p contents)
  with assms show ?thesis
    by (simp add: parse_one_hunk_def trim_header markers_head add_lines_loop_rendered)
next
  case (DeleteFile p)
  with assms show ?thesis
    by (simp add: parse_one_hunk_def trim_header markers_head header_prefixes)
next
  case (UpdateFile p m cs)
  let ?body = "concat (map render_chunk cs) @ rest"
  have "strip_prefix MOVE_TO_MARKER l = None" if "?body = l # ls" for l ls
    using that assms hd_render_chunk [of "hd cs"] UpdateFile
    by (cases cs; cases "render_chunk (hd cs)") (auto simp: marker_defs)
  with assms UpdateFile show ?thesis
    by (cases m)
      (auto simp: parse_one_hunk_def trim_header markers_head header_prefixes Let_def
        update_chunks_loop_rendered simp flip: append_assoc split: list.split)
qed

lemma starts_hunk_rendered:
  "starts_hunk (concat (map render_hunk hs))"
proof (cases hs)
  case (Cons h hs')
  then show ?thesis
    by (cases h) (auto simp: starts_hunk_def marker_defs starts_with_def)
qed (simp add: starts_hunk_def)

lemma render_hunk_not_Nil [simp]: "render_hunk h \<noteq> []"
  by (cases h) auto

lemma parse_rendered_hunks:
  "list_all renderable_hunk hs \<Longrightarrow>
   parse_hunks (concat (map render_hunk hs)) ln acc = Ok (acc @ hs)"
proof (induction hs arbitrary: ln acc)
  case (Cons h hs)
  obtain l ls where h: "render_hunk h = l # ls" by (cases "render_hunk h") auto
  from Cons.prems have "parse_one_hunk (render_hunk h @ concat (map render_hunk hs)) ln =
      Ok (h, length (render_hunk h))"
    by (intro parse_rendered_hunk) (auto intro: starts_hunk_rendered)
  with Cons h show ?case by (simp add: parse_hunks_Cons)
qed simp

section \<open>The whole text\<close>

definition env_ok :: "rstr option \<Rightarrow> bool" where
  "env_ok env \<longleftrightarrow>
     (case env of None \<Rightarrow> True | Some e \<Rightarrow> name_ok e \<and> \<not> is_whitespace (hd e))"

lemma plain_line_markers [simp]:
  "plain_line BEGIN_PATCH_MARKER" "plain_line END_PATCH_MARKER" "plain_line EOF_MARKER"
  "plain_line EMPTY_CHANGE_CONTEXT_MARKER"
  by (simp_all add: plain_line_def marker_defs)

lemma plain_line_Cons: "plain_line l \<Longrightarrow> c \<noteq> newline \<Longrightarrow> c \<noteq> carriage_return \<Longrightarrow> plain_line (c # l)"
  by (auto simp: plain_line_def)

lemma plain_line_header:
  assumes "name_ok p" "newline \<notin> set m"
  shows "plain_line (m @ p)"
  using assms by (auto simp: name_ok_def path_ok_def plain_line_def is_whitespace_def)

lemma markers_no_newline:
  "newline \<notin> set ADD_FILE_MARKER" "newline \<notin> set DELETE_FILE_MARKER" "newline \<notin> set UPDATE_FILE_MARKER"
  "newline \<notin> set MOVE_TO_MARKER" "newline \<notin> set CHANGE_CONTEXT_MARKER"
  "newline \<notin> set ENVIRONMENT_ID_MARKER"
  by (simp_all add: marker_defs)

lemma plain_change_lines:
  "list_all plain_line olds \<Longrightarrow> list_all plain_line news \<Longrightarrow> list_all plain_line (change_lines olds news)"
  by (cases rule: change_lines_split [of olds news]) (auto simp: list_all_iff intro: plain_line_Cons)

lemma plain_render_chunk: "renderable_chunk c \<Longrightarrow> list_all plain_line (render_chunk c)"
  by (auto simp: renderable_chunk_def render_chunk_def plain_change_lines plain_line_header
      markers_no_newline split: option.splits)

lemma plain_render_hunk: "renderable_hunk h \<Longrightarrow> list_all plain_line (render_hunk h)"
proof (cases h)
  case (UpdateFile p m cs)
  assume "renderable_hunk h"
  with UpdateFile show ?thesis
    using plain_render_chunk
    by (fastforce simp: list_all_iff plain_line_header markers_no_newline split: option.splits)
qed (auto simp: list_all_iff plain_line_header markers_no_newline intro: plain_line_Cons)

lemma lines_render_patch:
  assumes "list_all renderable_hunk hs" "env_ok env"
  shows "lines (trim (render_patch env hs)) = render_lines env hs"
proof -
  have plain: "list_all plain_line (render_lines env hs)"
    using assms plain_render_hunk
    by (fastforce simp: render_lines_def env_ok_def list_all_iff plain_line_header
        markers_no_newline split: option.splits)
  have "\<exists>mid. render_patch env hs = BEGIN_PATCH_MARKER @ mid @ END_PATCH_MARKER"
  proof -
    have "\<exists>mid. join [newline] (a # bs @ [z]) = a @ mid @ z" for a z :: rstr and bs
    proof (induction bs arbitrary: a)
      case (Cons b bs)
      from Cons.IH [of b] show ?case
        by (auto simp: join_Cons_not_Nil)
    qed simp
    then show ?thesis unfolding render_patch_def render_lines_def by (metis append.assoc)
  qed
  then obtain mid where "render_patch env hs = BEGIN_PATCH_MARKER @ mid @ END_PATCH_MARKER" ..
  then have "trim (render_patch env hs) = render_patch env hs"
    by (simp add: trim_id marker_defs is_whitespace_def)
  moreover have "lines (join [newline] (render_lines env hs)) = render_lines env hs"
    using plain by (intro lines_join) (auto simp: list_all_iff render_lines_def marker_defs)
  ultimately show ?thesis by (simp add: render_patch_def)
qed

lemma check_strict_rendered:
  "check_patch_boundaries_strict (render_lines env hs) = Ok (render_lines env hs,
     (case env of None \<Rightarrow> [] | Some e \<Rightarrow> [ENVIRONMENT_ID_MARKER @ e]) @ concat (map render_hunk hs))"
  by (auto simp: check_strict_Ok_iff render_lines_def butlast_append trim_id marker_defs
      is_whitespace_def simp flip: append_assoc)

lemma parse_environment_id_rendered:
  assumes "env_ok env"
  shows "\<exists>ln. parse_environment_id_preamble
      ((case env of None \<Rightarrow> [] | Some e \<Rightarrow> [ENVIRONMENT_ID_MARKER @ e]) @ concat (map render_hunk hs)) =
    Ok (env, concat (map render_hunk hs), ln)"
proof (cases env)
  case None
  show ?thesis
  proof (cases hs)
    case (Cons h hs')
    with None show ?thesis
      by (cases h) (auto simp: parse_environment_id_preamble_def trim_start_def marker_defs is_whitespace_def)
  qed (simp add: None parse_environment_id_preamble_def)
next
  case (Some e)
  then have "trim e = e" "e \<noteq> []"
    using assms by (auto simp: env_ok_def name_ok_def path_ok_def intro: trim_id)
  moreover have "trim_start (ENVIRONMENT_ID_MARKER @ e) = ENVIRONMENT_ID_MARKER @ e"
    by (rule trim_start_append) (simp_all add: marker_defs is_whitespace_def)
  ultimately show ?thesis using Some by (simp add: parse_environment_id_preamble_def)
qed

lemma parse_rendered_patch:
  assumes "list_all renderable_hunk hs" "env_ok env"
  shows "parse_patch_text (render_patch env hs) mode =
    Ok \<lparr>args_patch = render_patch env hs, args_hunks = hs, args_workdir = None,
       args_environment_id = env\<rparr>"
proof -
  let ?ls = "render_lines env hs"
  have "(case mode of Strict \<Rightarrow> check_patch_boundaries_strict ?ls
      | Lenient \<Rightarrow> check_patch_boundaries_lenient ?ls) = check_patch_boundaries_strict ?ls"
    by (cases mode) (simp_all add: check_patch_boundaries_lenient_def check_strict_rendered)
  moreover obtain ln where "parse_environment_id_preamble
      ((case env of None \<Rightarrow> [] | Some e \<Rightarrow> [ENVIRONMENT_ID_MARKER @ e]) @ concat (map render_hunk hs)) =
    Ok (env, concat (map render_hunk hs), ln)"
    using parse_environment_id_rendered [OF assms(2)] by blast
  ultimately show ?thesis
    using assms parse_rendered_hunks [OF assms(1), of ln "[]"]
    by (simp add: parse_patch_text_def lines_render_patch check_strict_rendered)
      (simp add: render_patch_def)
qed

text \<open>
  (C1) The batch parser inverts the documented grammar: printing any list of expressible hunks, with or
  without an environment id, and parsing the text gives back exactly those hunks, that id and that
  text, in strict and in lenient mode.
\<close>
theorem parse_render_roundtrip:
  assumes "list_all renderable_hunk hs" "env_ok env"
  shows "parse_patch_text (render_patch env hs) mode =
    Ok \<lparr>args_patch = render_patch env hs, args_hunks = hs, args_workdir = None,
       args_environment_id = env\<rparr>"
  using assms by (rule parse_rendered_patch)

text \<open>An example patch, used by the witnesses of this and of later theories.\<close>

definition sample_chunk :: update_file_chunk where
  "sample_chunk = \<lparr>change_context = Some (lit ''fn main''), old_lines = [lit ''c'', lit ''a''],
     new_lines = [lit ''c'', lit ''b'', []], is_end_of_file = True\<rparr>"

definition sample_hunks :: "hunk list" where
  "sample_hunks = [AddFile (lit ''x.txt'') (lit ''hi'' @ [newline]), DeleteFile (lit ''old''),
     UpdateFile (lit ''src'') (Some (lit ''dst'')) [sample_chunk]]"

lemma sample_hunks_renderable: "list_all renderable_hunk sample_hunks"
  by (simp add: sample_hunks_def sample_chunk_def renderable_chunk_def chunk_ok_def name_ok_def
      path_ok_def plain_line_def is_whitespace_def lines_def strip_cr_def)

theorem parse_render_roundtrip_witness:
  "list_all renderable_hunk sample_hunks \<and>
   parse_patch_text (render_patch (Some (lit ''env-1'')) sample_hunks) Strict =
   Ok \<lparr>args_patch = render_patch (Some (lit ''env-1'')) sample_hunks, args_hunks = sample_hunks,
      args_workdir = None, args_environment_id = Some (lit ''env-1'')\<rparr>"
proof -
  have env: "env_ok (Some (lit ''env-1''))"
    by (simp add: env_ok_def name_ok_def path_ok_def is_whitespace_def)
  show ?thesis
    using parse_render_roundtrip [OF sample_hunks_renderable env, of Strict]
    by (simp add: sample_hunks_renderable)
qed

end
