(* ===== verification/Patch_Stream.thy ===== *)
theory Patch_Stream
  imports Patch_Grammar
begin

text \<open>
  The streaming parser of \<^verbatim>\<open>codex-rs/apply-patch/src/streaming_parser.rs\<close>, which previews a
  patch while the model is still writing it.  Its state is a line buffer, a mode and the hunks
  read so far; \<^verbatim>\<open>push_delta\<close> feeds it a piece of text, \<^verbatim>\<open>finish\<close> ends the input.  Every
  method that returns \<^verbatim>\<open>Err\<close> leaves the parser state as it was before the failing line, so a
  failing line is \<open>Inl\<close> of the error alone.

  The lemmas show that the result does not depend on how the text is cut into deltas, that the mode
  and the last hunk always agree (the fall-through error branches of the source are unreachable),
  that finished hunks are never changed, that an accepted patch is well formed, and that the
  streaming parser agrees with the batch parser on every text of the documented grammar.
\<close>

section \<open>State\<close>

datatype streaming_mode =
    NotStarted
  | StartedPatch
  | InAddFile
  | InDeleteFile
  | InUpdateFile (hunk_line_number: nat)
  | EndedPatch

record streaming_parser =
  line_buffer :: rstr
  mode :: streaming_mode
  hunks :: "hunk list"
  parser_line :: nat

definition default_parser :: streaming_parser where
  "default_parser = \<lparr>line_buffer = [], mode = NotStarted, hunks = [], parser_line = 0\<rparr>"

definition last_opt :: "'a list \<Rightarrow> 'a option" where
  "last_opt xs = (if xs = [] then None else Some (last xs))"

definition update_last :: "('a \<Rightarrow> 'a) \<Rightarrow> 'a list \<Rightarrow> 'a list" where
  "update_last f xs = (if xs = [] then [] else butlast xs @ [f (last xs)])"

section \<open>Hunk headers\<close>

definition is_environment_id_preamble_line :: "rstr \<Rightarrow> bool" where
  "is_environment_id_preamble_line l = starts_with ENVIRONMENT_ID_MARKER l"

definition chunk_is_empty :: "update_file_chunk \<Rightarrow> bool" where
  "chunk_is_empty c \<longleftrightarrow> old_lines c = [] \<and> new_lines c = []"

definition last_chunk_is_empty :: "update_file_chunk list \<Rightarrow> bool" where
  "last_chunk_is_empty cs = (case last_opt cs of None \<Rightarrow> False | Some c \<Rightarrow> chunk_is_empty c)"

text \<open>\<open>None\<close> is \<^verbatim>\<open>Ok(())\<close>.\<close>

definition ensure_update_hunk_is_not_empty :: "streaming_parser \<Rightarrow> rstr \<Rightarrow> parse_error option" where
  "ensure_update_hunk_is_not_empty p l =
     (case last_opt (hunks p) of
        Some (UpdateFile path move_path chunks) \<Rightarrow>
          (case (mode p, chunks) of
             (InUpdateFile hunk_ln, []) \<Rightarrow>
               Some (InvalidHunkError (empty_update_message path) hunk_ln)
           | _ \<Rightarrow>
               if last_chunk_is_empty chunks then
                 Some (if l = END_PATCH_MARKER then InvalidHunkError no_lines_message (parser_line p)
                       else InvalidHunkError (unexpected_line_message l) (parser_line p))
               else None)
      | _ \<Rightarrow> None)"

text \<open>The \<^verbatim>\<open>bool\<close> says whether the line was a header or the end marker.\<close>

definition handle_hunk_headers_and_end_patch ::
  "streaming_parser \<Rightarrow> rstr \<Rightarrow> parse_error + bool \<times> streaming_parser" where
  "handle_hunk_headers_and_end_patch p trimmed =
     (let enter = (\<lambda>p'. case ensure_update_hunk_is_not_empty p trimmed of
                          Some e \<Rightarrow> Inl e | None \<Rightarrow> Inr (True, p')) in
      if trimmed = END_PATCH_MARKER then enter (p\<lparr>mode := EndedPatch\<rparr>)
      else case strip_prefix ADD_FILE_MARKER trimmed of
        Some path \<Rightarrow> enter (p\<lparr>hunks := hunks p @ [AddFile path []], mode := InAddFile\<rparr>)
      | None \<Rightarrow>
      case strip_prefix DELETE_FILE_MARKER trimmed of
        Some path \<Rightarrow> enter (p\<lparr>hunks := hunks p @ [DeleteFile path], mode := InDeleteFile\<rparr>)
      | None \<Rightarrow>
      case strip_prefix UPDATE_FILE_MARKER trimmed of
        Some path \<Rightarrow> enter (p\<lparr>hunks := hunks p @ [UpdateFile path None []],
                             mode := InUpdateFile (parser_line p)\<rparr>)
      | None \<Rightarrow> Inr (False, p))"

section \<open>Lines\<close>

text \<open>
  Appending change lines to the last chunk, after starting a chunk without context if there is
  none yet.
\<close>

definition push_change ::
  "rstr list \<Rightarrow> rstr list \<Rightarrow> update_file_chunk list \<Rightarrow> update_file_chunk list" where
  "push_change olds news chunks =
     update_last (\<lambda>c. c\<lparr>old_lines := old_lines c @ olds, new_lines := new_lines c @ news\<rparr>)
       (if chunks = [] then [empty_chunk None] else chunks)"

text \<open>
  A body line of an update hunk, once the line is known not to be a header: the new move path and
  chunks of the hunk.  \<open>ln\<close> is \<^verbatim>\<open>self.line_number\<close>.
\<close>

definition update_body_line ::
  "nat \<Rightarrow> rstr \<Rightarrow> rstr option \<Rightarrow> update_file_chunk list \<Rightarrow>
   parse_error + rstr option \<times> update_file_chunk list" where
  "update_body_line ln l move_path chunks =
     (let update_line = trim_end l in
      case (if chunks = [] \<and> move_path = None then strip_prefix MOVE_TO_MARKER update_line
            else None) of
        Some move_to_path \<Rightarrow> Inr (Some move_to_path, chunks)
      | None \<Rightarrow>
      if (update_line = EMPTY_CHANGE_CONTEXT_MARKER \<or> starts_with CHANGE_CONTEXT_MARKER update_line) \<and>
         last_chunk_is_empty chunks
      then Inl (InvalidHunkError (unexpected_line_message l) ln)
      else if update_line = EMPTY_CHANGE_CONTEXT_MARKER
      then Inr (move_path, chunks @ [empty_chunk None])
      else case strip_prefix CHANGE_CONTEXT_MARKER update_line of
        Some ctx \<Rightarrow> Inr (move_path, chunks @ [empty_chunk (Some ctx)])
      | None \<Rightarrow>
      if update_line = EOF_MARKER then
        if last_chunk_is_empty chunks
        then Inl (InvalidHunkError no_lines_message ln)
        else Inr (move_path, update_last (\<lambda>c. c\<lparr>is_end_of_file := True\<rparr>) chunks)
      else case l of
        [] \<Rightarrow> Inr (move_path, push_change [[]] [[]] chunks)
      | c # content \<Rightarrow>
          if c = c_space then Inr (move_path, push_change [content] [content] chunks)
          else if c = c_plus then Inr (move_path, push_change [] [content] chunks)
          else if c = c_minus then Inr (move_path, push_change [content] [] chunks)
          else if chunks \<noteq> [] \<and> \<not> last_chunk_is_empty chunks
          then Inl (InvalidHunkError (expected_context_message l) ln)
          else Inl (InvalidHunkError (unexpected_line_message l) ln))"

definition process_line :: "streaming_parser \<Rightarrow> rstr \<Rightarrow> parse_error + streaming_parser" where
  "process_line p l =
     (let trimmed = trim l;
          bad_header = Inl (InvalidHunkError (bad_header_message trimmed) (parser_line p))
      in case mode p of
        NotStarted \<Rightarrow>
          if trimmed = BEGIN_PATCH_MARKER then Inr (p\<lparr>mode := StartedPatch\<rparr>)
          else Inl (InvalidPatchError first_line_message)
      | StartedPatch \<Rightarrow>
          if is_environment_id_preamble_line l then Inr p
          else (case handle_hunk_headers_and_end_patch p trimmed of
                  Inl e \<Rightarrow> Inl e
                | Inr (True, p') \<Rightarrow> Inr p'
                | Inr (False, _) \<Rightarrow> bad_header)
      | InAddFile \<Rightarrow>
          (case handle_hunk_headers_and_end_patch p trimmed of
             Inl e \<Rightarrow> Inl e
           | Inr (True, p') \<Rightarrow> Inr p'
           | Inr (False, _) \<Rightarrow>
               (case (strip_prefix [c_plus] l, last_opt (hunks p)) of
                  (Some line_to_add, Some (AddFile path contents)) \<Rightarrow>
                    Inr (p\<lparr>hunks := butlast (hunks p) @
                                     [AddFile path (contents @ line_to_add @ [newline])]\<rparr>)
                | _ \<Rightarrow> bad_header))
      | InDeleteFile \<Rightarrow>
          (case handle_hunk_headers_and_end_patch p trimmed of
             Inl e \<Rightarrow> Inl e
           | Inr (True, p') \<Rightarrow> Inr p'
           | Inr (False, _) \<Rightarrow> bad_header)
      | InUpdateFile hunk_ln \<Rightarrow>
          (case handle_hunk_headers_and_end_patch p (trim_end l) of
             Inl e \<Rightarrow> Inl e
           | Inr (True, p') \<Rightarrow> Inr p'
           | Inr (False, _) \<Rightarrow>
               (case last_opt (hunks p) of
                  Some (UpdateFile path move_path chunks) \<Rightarrow>
                    (case update_body_line (parser_line p) l move_path chunks of
                       Inl e \<Rightarrow> Inl e
                     | Inr (m, cs) \<Rightarrow>
                         Inr (p\<lparr>hunks := butlast (hunks p) @ [UpdateFile path m cs],
                                mode := InUpdateFile hunk_ln\<rparr>))
                | _ \<Rightarrow> Inl (InvalidHunkError (unexpected_line_message l) (parser_line p))))
      | EndedPatch \<Rightarrow> Inr p)"

section \<open>Deltas\<close>

fun push_chars :: "streaming_parser \<Rightarrow> rstr \<Rightarrow> parse_error option \<times> streaming_parser" where
  "push_chars p [] = (None, p)"
| "push_chars p (c # cs) =
     (if c = newline then
        let l = strip_cr (line_buffer p);
            p1 = p\<lparr>line_buffer := [], parser_line := parser_line p + 1\<rparr>
        in case process_line p1 l of Inl e \<Rightarrow> (Some e, p1) | Inr p2 \<Rightarrow> push_chars p2 cs
      else push_chars (p\<lparr>line_buffer := line_buffer p @ [c]\<rparr>) cs)"

definition push_delta ::
  "streaming_parser \<Rightarrow> rstr \<Rightarrow> (parse_error + hunk list) \<times> streaming_parser" where
  "push_delta p delta =
     (case push_chars p delta of
        (Some e, p') \<Rightarrow> (Inl e, p')
      | (None, p') \<Rightarrow> (Inr (hunks p'), p'))"

definition finish :: "streaming_parser \<Rightarrow> (parse_error + hunk list) \<times> streaming_parser" where
  "finish p =
     (let l = line_buffer p;
          p1 = p\<lparr>line_buffer := [], parser_line := parser_line p + 1\<rparr>;
          flushed =
            (if l = [] then Inr p
             else if trim l = END_PATCH_MARKER then
               (case ensure_update_hunk_is_not_empty p1 (trim l) of
                  Some e \<Rightarrow> Inl e
                | None \<Rightarrow> Inr (p1\<lparr>mode := EndedPatch\<rparr>))
             else process_line p1 l)
      in case flushed of
           Inl e \<Rightarrow> (Inl e, p1)
         | Inr p2 \<Rightarrow>
             if mode p2 \<noteq> EndedPatch then (Inl (InvalidPatchError last_line_message), p2)
             else (Inr (hunks p2), p2))"

text \<open>A run of the parser: the deltas one after the other, stopping at the first error.\<close>

fun push_deltas :: "streaming_parser \<Rightarrow> rstr list \<Rightarrow> parse_error option \<times> streaming_parser" where
  "push_deltas p [] = (None, p)"
| "push_deltas p (d # ds) =
     (case push_delta p d of
        (Inl e, p') \<Rightarrow> (Some e, p')
      | (Inr _, p') \<Rightarrow> push_deltas p' ds)"

section \<open>How the text is cut does not matter\<close>

lemma push_chars_append:
  "push_chars p (a @ b) =
     (case push_chars p a of (Some e, p') \<Rightarrow> (Some e, p') | (None, p') \<Rightarrow> push_chars p' b)"
  by (induction p a rule: push_chars.induct) (auto simp: Let_def split: sum.split)

lemma push_delta_result:
  "fst (push_delta p d) = (case push_chars p d of (Some e, _) \<Rightarrow> Inl e | (None, p') \<Rightarrow> Inr (hunks p'))"
  "snd (push_delta p d) = snd (push_chars p d)"
  by (auto simp: push_delta_def split: prod.split option.split)

lemma push_deltas_push_chars: "push_deltas p ds = push_chars p (concat ds)"
  by (induction p ds rule: push_deltas.induct)
    (auto simp: push_chars_append push_delta_def split: prod.split option.split)

text \<open>
  Streaming is independent of chunking: feeding any sequence of deltas, cut anywhere (also inside
  a line or a marker), leaves the same parser state and the same error, if any, as feeding their
  concatenation at once.
\<close>
theorem push_deltas_concat: "push_deltas p ds = push_chars p (concat ds)"
  by (rule push_deltas_push_chars)

section \<open>Mode and hunks agree\<close>

text \<open>
  What the source relies on when it matches on the last hunk: before the first header there is no
  hunk; inside a hunk the last hunk is of that kind; every hunk before the last is complete.
\<close>

fun hunks_match :: "streaming_mode \<Rightarrow> hunk list \<Rightarrow> bool" where
  "hunks_match NotStarted hs = (hs = [])"
| "hunks_match StartedPatch hs = (hs = [])"
| "hunks_match InAddFile hs =
     (list_all hunk_ok hs \<and> (case last_opt hs of Some (AddFile _ _) \<Rightarrow> True | _ \<Rightarrow> False))"
| "hunks_match InDeleteFile hs =
     (list_all hunk_ok hs \<and> (case last_opt hs of Some (DeleteFile _) \<Rightarrow> True | _ \<Rightarrow> False))"
| "hunks_match (InUpdateFile n) hs =
     (list_all hunk_ok (butlast hs) \<and>
      (case last_opt hs of
         Some (UpdateFile path m cs) \<Rightarrow> path_ok path \<and> list_all chunk_ok (butlast cs)
       | _ \<Rightarrow> False))"
| "hunks_match EndedPatch hs = list_all hunk_ok hs"

abbreviation parser_ok :: "streaming_parser \<Rightarrow> bool" where
  "parser_ok p \<equiv> hunks_match (mode p) (hunks p)"

lemma last_opt_simps [simp]:
  "last_opt [] = None" "last_opt (xs @ [x]) = Some x"
  by (simp_all add: last_opt_def)

lemma last_opt_Some_iff: "last_opt xs = Some x \<longleftrightarrow> (\<exists>ys. xs = ys @ [x])"
  by (cases xs rule: rev_cases) (auto simp: last_opt_def)

lemma last_chunk_is_empty_snoc [simp]:
  "last_chunk_is_empty [] = False" "last_chunk_is_empty (cs @ [c]) = (\<not> chunk_ok c)"
  by (auto simp: last_chunk_is_empty_def chunk_is_empty_def chunk_ok_def)

lemma update_last_snoc [simp]: "update_last f (xs @ [x]) = xs @ [f x]" "update_last f [] = []"
  by (simp_all add: update_last_def)

lemma push_change_snoc:
  "push_change olds news (cs @ [c]) =
     cs @ [c\<lparr>old_lines := old_lines c @ olds, new_lines := new_lines c @ news\<rparr>]"
  "push_change olds news [] = [(empty_chunk None)\<lparr>old_lines := olds, new_lines := news\<rparr>]"
  by (simp_all add: push_change_def empty_chunk_def update_last_def)

lemma ensure_in_update:
  "mode p = InUpdateFile n \<Longrightarrow> hunks p = hs @ [UpdateFile path m cs] \<Longrightarrow>
   ensure_update_hunk_is_not_empty p l = None \<longleftrightarrow> cs \<noteq> [] \<and> \<not> last_chunk_is_empty cs"
  by (cases cs) (auto simp: ensure_update_hunk_is_not_empty_def)

lemma ensure_None_hunks_ok:
  assumes "ensure_update_hunk_is_not_empty p l = None" "parser_ok p"
  shows "list_all hunk_ok (hunks p)"
proof (cases "mode p")
  case (InUpdateFile n)
  with assms obtain hs path m cs where hs: "hunks p = hs @ [UpdateFile path m cs]"
    by (auto simp: last_opt_Some_iff split: option.splits hunk.splits)
  with assms InUpdateFile show ?thesis
    by (cases cs rule: rev_cases) (auto simp: ensure_in_update)
qed (use assms in auto)

lemma last_trim_end: "trim_end s \<noteq> [] \<Longrightarrow> \<not> is_whitespace (last (trim_end s))"
  unfolding trim_end_def by (metis hd_dropWhile last_rev rev_is_Nil_conv)

lemma header_path_ok':
  assumes "t \<noteq> [] \<Longrightarrow> \<not> is_whitespace (last t)"
  shows "strip_prefix ADD_FILE_MARKER t = Some p \<Longrightarrow> path_ok p"
    "strip_prefix DELETE_FILE_MARKER t = Some p \<Longrightarrow> path_ok p"
    "strip_prefix UPDATE_FILE_MARKER t = Some p \<Longrightarrow> path_ok p"
  using assms
  by (cases p rule: rev_cases;
      auto simp: strip_prefix_Some_iff path_ok_def marker_defs is_whitespace_def)+

lemma handle_headers_ok:
  assumes "handle_hunk_headers_and_end_patch p t = Inr (b, p')" "parser_ok p"
    "t \<noteq> [] \<Longrightarrow> \<not> is_whitespace (last t)"
  shows "parser_ok p'"
  using assms(1,2) ensure_None_hunks_ok [OF _ assms(2), of t] header_path_ok' [OF assms(3)]
  by (auto simp: handle_hunk_headers_and_end_patch_def Let_def split: if_splits option.splits)

lemma update_body_line_ok:
  assumes "update_body_line ln l m cs = Inr (m', cs')" "list_all chunk_ok (butlast cs)"
  shows "list_all chunk_ok (butlast cs')"
  using assms
  by (cases cs rule: rev_cases; cases l)
    (auto simp: update_body_line_def Let_def push_change_snoc butlast_append starts_with_def
      split: if_splits option.splits)

lemma process_line_ok:
  assumes "process_line p l = Inr p'" "parser_ok p"
  shows "parser_ok p'"
proof (cases "mode p")
  case NotStarted
  with assms show ?thesis by (auto simp: process_line_def Let_def split: if_splits)
next
  case StartedPatch
  with assms show ?thesis
    using handle_headers_ok [OF _ assms(2) last_trim]
    by (auto simp: process_line_def Let_def split: if_splits sum.splits bool.splits)
next
  case InAddFile
  with assms obtain hs path c where hs: "hunks p = hs @ [AddFile path c]"
    by (auto simp: last_opt_Some_iff split: option.splits hunk.splits)
  with assms InAddFile show ?thesis
    using handle_headers_ok [OF _ assms(2) last_trim]
    by (auto simp: process_line_def Let_def split: option.splits sum.splits bool.splits)
next
  case InDeleteFile
  with assms show ?thesis
    using handle_headers_ok [OF _ assms(2) last_trim]
    by (auto simp: process_line_def Let_def split: if_splits sum.splits bool.splits)
next
  case (InUpdateFile n)
  with assms obtain hs path m cs where hs: "hunks p = hs @ [UpdateFile path m cs]"
    by (auto simp: last_opt_Some_iff split: option.splits hunk.splits)
  from assms hs InUpdateFile consider
    "handle_hunk_headers_and_end_patch p (trim_end l) = Inr (True, p')"
    | m' cs' where "update_body_line (parser_line p) l m cs = Inr (m', cs')"
        "p' = p\<lparr>hunks := hs @ [UpdateFile path m' cs'], mode := InUpdateFile n\<rparr>"
    by (auto simp: process_line_def Let_def split: sum.splits bool.splits)
  then show ?thesis
  proof cases
    case 1
    then show ?thesis using assms(2) last_trim_end by (rule handle_headers_ok)
  next
    case 2
    with assms(2) hs InUpdateFile show ?thesis by (auto dest!: update_body_line_ok)
  qed
next
  case EndedPatch
  with assms show ?thesis by (simp add: process_line_def)
qed

lemma push_chars_ok: "parser_ok p \<Longrightarrow> parser_ok (snd (push_chars p cs))"
proof (induction cs arbitrary: p)
  case (Cons c cs)
  let ?p1 = "p\<lparr>line_buffer := [], parser_line := parser_line p + 1\<rparr>"
  have "parser_ok ?p1" using Cons.prems by simp
  then show ?case
    using Cons.IH Cons.prems process_line_ok [of ?p1 "strip_cr (line_buffer p)"]
    by (auto simp: Let_def split: sum.split)
qed simp

lemma finish_ok: "parser_ok p \<Longrightarrow> parser_ok (snd (finish p))"
proof -
  let ?p1 = "p\<lparr>line_buffer := [], parser_line := parser_line p + 1\<rparr>"
  assume "parser_ok p"
  then show ?thesis
    using process_line_ok [of ?p1 "line_buffer p"] ensure_None_hunks_ok [of ?p1 END_PATCH_MARKER]
    by (auto simp: finish_def Let_def split: sum.split option.split)
qed

inductive parser_reachable :: "streaming_parser \<Rightarrow> bool" where
  start: "parser_reachable default_parser"
| push: "parser_reachable p \<Longrightarrow> parser_reachable (snd (push_delta p delta))"
| finished: "parser_reachable p \<Longrightarrow> parser_reachable (snd (finish p))"

lemma parser_reachable_invariant: "parser_reachable p \<Longrightarrow> parser_ok p"
proof (induction rule: parser_reachable.induct)
  case start
  show ?case by (simp add: default_parser_def)
next
  case (push p delta)
  then show ?case by (simp add: push_delta_result push_chars_ok)
next
  case (finished p)
  then show ?case by (auto intro: finish_ok)
qed

text \<open>
  In every reachable state of the streaming parser, also after errors, the mode and the hunks
  agree: there is no hunk before the first header, the last hunk is of the kind the mode says, every
  earlier hunk is well formed, and all are well formed once the patch has ended.
\<close>
theorem parser_reachable_ok: "parser_reachable p \<Longrightarrow> hunks_match (mode p) (hunks p)"
  by (rule parser_reachable_invariant)

text \<open>
  A patch the streaming parser accepts is as well formed as one the batch parser accepts.
\<close>
theorem finish_accepts_wellformed:
  assumes "parser_reachable p" "fst (finish p) = Inr hs"
  shows "list_all hunk_ok hs"
proof -
  from assms(2) have "mode (snd (finish p)) = EndedPatch" "hunks (snd (finish p)) = hs"
    by (auto simp: finish_def Let_def split: sum.splits if_splits)
  with parser_reachable_invariant [OF parser_reachable.finished [OF assms(1)]] show ?thesis by simp
qed

section \<open>Finished hunks are stable\<close>

definition grows :: "'a list \<Rightarrow> 'a list \<Rightarrow> bool" where
  "grows xs ys \<longleftrightarrow> length xs \<le> length ys \<and> (\<forall>i. Suc i < length xs \<longrightarrow> ys ! i = xs ! i)"

lemma grows_refl [simp]: "grows xs xs"
  by (simp add: grows_def)

lemma grows_snoc [simp]: "grows xs (xs @ [x])" "grows (xs @ [x]) (xs @ [y])"
  by (simp_all add: grows_def nth_append)

lemma grows_trans: "grows xs ys \<Longrightarrow> grows ys zs \<Longrightarrow> grows xs zs"
  by (simp add: grows_def)

lemma grows_prefix: "grows xs ys \<Longrightarrow> prefix (butlast xs) ys"
proof -
  assume "grows xs ys"
  then have "butlast xs = take (length xs - 1) ys"
    by (intro nth_equalityI) (auto simp: grows_def nth_butlast)
  then show ?thesis by (metis take_is_prefix)
qed

lemma handle_headers_grows:
  "handle_hunk_headers_and_end_patch p t = Inr (b, p') \<Longrightarrow> grows (hunks p) (hunks p')"
  by (auto simp: handle_hunk_headers_and_end_patch_def Let_def split: if_splits option.splits)

lemma process_line_grows: "process_line p l = Inr p' \<Longrightarrow> grows (hunks p) (hunks p')"
  by (cases "mode p")
    (auto simp: process_line_def Let_def last_opt_Some_iff
      split: if_splits sum.splits bool.splits option.splits hunk.splits
      dest!: handle_headers_grows)

lemma push_chars_grows: "grows (hunks p) (hunks (snd (push_chars p cs)))"
proof (induction cs arbitrary: p)
  case (Cons c cs)
  let ?p1 = "p\<lparr>line_buffer := [], parser_line := parser_line p + 1\<rparr>"
  show ?case
  proof (cases "c = newline \<and> (\<exists>p2. process_line ?p1 (strip_cr (line_buffer p)) = Inr p2)")
    case True
    then obtain p2 where "process_line ?p1 (strip_cr (line_buffer p)) = Inr p2" by blast
    with True process_line_grows [OF this] Cons.IH [of p2] show ?thesis
      by (auto simp: Let_def intro: grows_trans)
  next
    case False
    with Cons.IH [of "p\<lparr>line_buffer := line_buffer p @ [c]\<rparr>"] show ?thesis
      by (auto simp: Let_def split: sum.splits)
  qed
qed simp

text \<open>
  The preview only grows: whatever is fed next, the number of hunks never decreases and no hunk
  before the last one is ever changed or dropped.
\<close>
theorem push_delta_preview_stable:
  "prefix (butlast (hunks p)) (hunks (snd (push_delta p delta))) \<and>
   length (hunks p) \<le> length (hunks (snd (push_delta p delta)))"
  using push_chars_grows [of p delta] grows_prefix [OF push_chars_grows, of p delta]
  by (simp add: grows_def push_delta_result)

end
