(* ===== verification/Patch_Agreement.thy ===== *)
theory Patch_Agreement
  imports Patch_Stream
begin

text \<open>
  The streaming parser reads the documented grammar as the batch parser does: feeding a rendered
  patch and finishing yields the hunks the batch parser returns for that text.  The proof runs the
  streaming parser line by line over the rendered hunks.
\<close>

section \<open>Feeding whole lines\<close>

fun feed :: "streaming_parser \<Rightarrow> rstr list \<Rightarrow> parse_error + streaming_parser" where
  "feed p [] = Inr p"
| "feed p (l # ls) =
     (case process_line (p\<lparr>parser_line := parser_line p + 1\<rparr>) l of
        Inl e \<Rightarrow> Inl e | Inr p' \<Rightarrow> feed p' ls)"

lemma feed_append:
  "feed p (a @ b) = (case feed p a of Inl e \<Rightarrow> Inl e | Inr p' \<Rightarrow> feed p' b)"
  by (induction p a rule: feed.induct) (auto split: sum.split)

lemma handle_headers_buffer:
  "handle_hunk_headers_and_end_patch p t = Inr (b, p') \<Longrightarrow> line_buffer p' = line_buffer p"
  by (auto simp: handle_hunk_headers_and_end_patch_def Let_def split: if_splits option.splits)

lemma process_line_buffer: "process_line p l = Inr p' \<Longrightarrow> line_buffer p' = line_buffer p"
  by (cases "mode p")
    (auto simp: process_line_def Let_def
      split: if_splits sum.splits bool.splits option.splits hunk.splits dest!: handle_headers_buffer)

lemma push_chars_no_newline:
  "newline \<notin> set l \<Longrightarrow> push_chars p l = (None, p\<lparr>line_buffer := line_buffer p @ l\<rparr>)"
  by (induction l arbitrary: p) auto

lemma push_chars_rest:
  "push_chars p a = (None, q) \<Longrightarrow> line_buffer q = [] \<Longrightarrow> newline \<notin> set b \<Longrightarrow>
   push_chars p (a @ b) = (None, q\<lparr>line_buffer := b\<rparr>)"
  by (simp add: push_chars_append push_chars_no_newline)

lemma push_chars_line:
  assumes "plain_line l" "line_buffer p = []"
  shows "push_chars p (l @ newline # s) =
    (case process_line (p\<lparr>parser_line := parser_line p + 1\<rparr>) l of
       Inl e \<Rightarrow> (Some e, p\<lparr>parser_line := parser_line p + 1\<rparr>) | Inr p' \<Rightarrow> push_chars p' s)"
proof -
  have "newline \<notin> set l" using assms(1) by (simp add: plain_line_def)
  with assms show ?thesis
    by (cases p)
      (simp add: push_chars_append push_chars_no_newline strip_cr_plain Let_def split: sum.split)
qed

lemma push_chars_feed:
  assumes "\<forall>l \<in> set ls. plain_line l" "line_buffer p = []" "feed p ls = Inr p'"
  shows "push_chars p (concat (map (\<lambda>l. l @ [newline]) ls)) = (None, p') \<and> line_buffer p' = []"
  using assms
proof (induction ls arbitrary: p)
  case (Cons l ls)
  then obtain q where "process_line (p\<lparr>parser_line := parser_line p + 1\<rparr>) l = Inr q"
    and "feed q ls = Inr p'"
    by (auto split: sum.splits)
  with Cons process_line_buffer [of "p\<lparr>parser_line := parser_line p + 1\<rparr>" l q] show ?case
    by (simp add: push_chars_line)
qed simp

section \<open>Update hunks\<close>

definition in_update :: "streaming_parser \<Rightarrow> hunk list \<Rightarrow> rstr \<Rightarrow> rstr option \<Rightarrow> update_file_chunk list \<Rightarrow> bool" where
  "in_update p hs path m cs \<longleftrightarrow>
     (\<exists>n. mode p = InUpdateFile n) \<and> hunks p = hs @ [UpdateFile path m cs]"

definition not_header :: "rstr \<Rightarrow> bool" where
  "not_header t \<longleftrightarrow> t \<noteq> END_PATCH_MARKER \<and> strip_prefix ADD_FILE_MARKER t = None \<and>
     strip_prefix DELETE_FILE_MARKER t = None \<and> strip_prefix UPDATE_FILE_MARKER t = None"

lemma not_header_handle: "not_header t \<Longrightarrow> handle_hunk_headers_and_end_patch p t = Inr (False, p)"
  by (simp add: not_header_def handle_hunk_headers_and_end_patch_def Let_def)

lemma not_header_head: "t = [] \<or> hd t \<noteq> c_star \<Longrightarrow> not_header t"
  by (cases t) (auto simp: not_header_def marker_defs)

lemma trim_end_Cons: "\<not> is_whitespace c \<Longrightarrow> trim_end (c # l) = c # trim_end l"
  by (auto simp: trim_end_def dropWhile_append)

lemma feed_update_line:
  assumes "in_update p hs path m cs" "not_header (trim_end l)"
    "\<And>ln. update_body_line ln l m cs = Inr (m', cs')"
  shows "\<exists>p'. feed p [l] = Inr p' \<and> in_update p' hs path m' cs'"
  using assms by (auto simp: in_update_def process_line_def Let_def not_header_handle)

lemma feed_seq:
  "feed p a = Inr q \<Longrightarrow> feed p (a @ b) = feed q b"
  by (simp add: feed_append)

lemma body_line_removed:
  "cs \<noteq> [] \<Longrightarrow> update_body_line ln (c_minus # l) m cs = Inr (m, push_change [l] [] cs)"
  by (auto simp: update_body_line_def Let_def trim_end_Cons is_whitespace_def marker_defs starts_with_def)

lemma body_line_added:
  "cs \<noteq> [] \<Longrightarrow> update_body_line ln (c_plus # l) m cs = Inr (m, push_change [] [l] cs)"
  by (auto simp: update_body_line_def Let_def trim_end_Cons is_whitespace_def marker_defs starts_with_def)

lemma trim_end_space: "trim_end (c_space # l) = [] \<or> hd (trim_end (c_space # l)) = c_space"
  by (cases "trim_end l = []") (auto simp: trim_end_def dropWhile_append is_whitespace_def)

lemma body_line_shared:
  assumes "cs \<noteq> []"
  shows "update_body_line ln (c_space # l) m cs = Inr (m, push_change [l] [l] cs)"
proof -
  let ?t = "trim_end (c_space # l)"
  have "strip_prefix CHANGE_CONTEXT_MARKER ?t = None" "?t \<noteq> EMPTY_CHANGE_CONTEXT_MARKER" "?t \<noteq> EOF_MARKER"
    using trim_end_space [of l] by (cases ?t; auto simp: marker_defs)+
  with assms show ?thesis by (simp add: update_body_line_def Let_def starts_with_def)
qed

lemma feed_shared:
  "in_update p hs path m (cs @ [c]) \<Longrightarrow>
   \<exists>p'. feed p (map (\<lambda>l. c_space # l) ls) = Inr p' \<and>
        in_update p' hs path m (cs @ [c\<lparr>old_lines := old_lines c @ ls, new_lines := new_lines c @ ls\<rparr>])"
proof (induction ls arbitrary: p c)
  case (Cons l ls)
  have "not_header (trim_end (c_space # l))"
  proof (cases "trim_end (c_space # l)")
    case Nil
    then show ?thesis by (simp add: not_header_def marker_defs)
  next
    case (Cons x xs)
    then show ?thesis using trim_end_space [of l] by (intro not_header_head) auto
  qed
  moreover have "update_body_line ln (c_space # l) m (cs @ [c]) =
      Inr (m, cs @ [c\<lparr>old_lines := old_lines c @ [l], new_lines := new_lines c @ [l]\<rparr>])" for ln
    by (simp add: body_line_shared push_change_snoc)
  ultimately obtain q where q: "feed p [c_space # l] = Inr q"
    "in_update q hs path m (cs @ [c\<lparr>old_lines := old_lines c @ [l], new_lines := new_lines c @ [l]\<rparr>])"
    using feed_update_line [OF Cons.prems] by blast
  from Cons.IH [OF q(2)] show ?case
    using feed_seq [OF q(1), of "map (\<lambda>l. c_space # l) ls"] by auto
qed auto

lemma feed_removed:
  "in_update p hs path m (cs @ [c]) \<Longrightarrow>
   \<exists>p'. feed p (map (\<lambda>l. c_minus # l) ls) = Inr p' \<and>
        in_update p' hs path m (cs @ [c\<lparr>old_lines := old_lines c @ ls\<rparr>])"
proof (induction ls arbitrary: p c)
  case (Cons l ls)
  have "not_header (trim_end (c_minus # l))"
    by (rule not_header_head) (simp add: trim_end_Cons is_whitespace_def)
  moreover have "update_body_line ln (c_minus # l) m (cs @ [c]) =
      Inr (m, cs @ [c\<lparr>old_lines := old_lines c @ [l]\<rparr>])" for ln
    by (simp add: body_line_removed push_change_snoc)
  ultimately obtain q where q: "feed p [c_minus # l] = Inr q"
    "in_update q hs path m (cs @ [c\<lparr>old_lines := old_lines c @ [l]\<rparr>])"
    using feed_update_line [OF Cons.prems] by blast
  from Cons.IH [OF q(2)] show ?case
    using feed_seq [OF q(1), of "map (\<lambda>l. c_minus # l) ls"] by auto
qed auto

lemma feed_added:
  "in_update p hs path m (cs @ [c]) \<Longrightarrow>
   \<exists>p'. feed p (map (\<lambda>l. c_plus # l) ls) = Inr p' \<and>
        in_update p' hs path m (cs @ [c\<lparr>new_lines := new_lines c @ ls\<rparr>])"
proof (induction ls arbitrary: p c)
  case (Cons l ls)
  have "not_header (trim_end (c_plus # l))"
    by (rule not_header_head) (simp add: trim_end_Cons is_whitespace_def)
  moreover have "update_body_line ln (c_plus # l) m (cs @ [c]) =
      Inr (m, cs @ [c\<lparr>new_lines := new_lines c @ [l]\<rparr>])" for ln
    by (simp add: body_line_added push_change_snoc)
  ultimately obtain q where q: "feed p [c_plus # l] = Inr q"
    "in_update q hs path m (cs @ [c\<lparr>new_lines := new_lines c @ [l]\<rparr>])"
    using feed_update_line [OF Cons.prems] by blast
  from Cons.IH [OF q(2)] show ?case
    using feed_seq [OF q(1), of "map (\<lambda>l. c_plus # l) ls"] by auto
qed auto

lemma feed_eof:
  assumes "in_update p hs path m (cs @ [c])" "chunk_ok c" "\<not> is_end_of_file c"
  shows "\<exists>p'. feed p (if e then [EOF_MARKER] else []) = Inr p' \<and>
    in_update p' hs path m (cs @ [c\<lparr>is_end_of_file := e\<rparr>])"
proof (cases e)
  case True
  have "trim_end EOF_MARKER = EOF_MARKER" by (simp add: marker_defs trim_end_id is_whitespace_def)
  moreover from this have "update_body_line ln EOF_MARKER m (cs @ [c]) =
      Inr (m, cs @ [c\<lparr>is_end_of_file := True\<rparr>])" for ln
    using assms(2) by (simp add: update_body_line_def) (simp add: marker_defs starts_with_def)
  moreover have "not_header EOF_MARKER" by (simp add: not_header_def marker_defs)
  ultimately show ?thesis using True feed_update_line [OF assms(1)] by simp
next
  case False
  moreover have "c\<lparr>is_end_of_file := False\<rparr> = c" using assms(3) by simp
  ultimately show ?thesis using assms(1) by simp
qed

lemma feed_context:
  assumes "in_update p hs path m cs" "list_all chunk_ok cs"
    "case ctx of None \<Rightarrow> True | Some x \<Rightarrow> name_ok x"
  shows "\<exists>p'. feed p [case ctx of None \<Rightarrow> EMPTY_CHANGE_CONTEXT_MARKER
      | Some x \<Rightarrow> CHANGE_CONTEXT_MARKER @ x] = Inr p' \<and>
    in_update p' hs path m (cs @ [empty_chunk ctx])"
proof -
  let ?l = "case ctx of None \<Rightarrow> EMPTY_CHANGE_CONTEXT_MARKER | Some x \<Rightarrow> CHANGE_CONTEXT_MARKER @ x"
  have l: "trim_end ?l = ?l"
    using assms(3)
    by (cases ctx) (auto simp: name_ok_def path_ok_def marker_defs is_whitespace_def intro!: trim_end_id)
  have "\<not> last_chunk_is_empty cs" using assms(2) by (cases cs rule: rev_cases) auto
  with l have "update_body_line ln ?l m cs = Inr (m, cs @ [empty_chunk ctx])" for ln
    using assms(3)
    by (cases ctx) (simp_all add: update_body_line_def Let_def marker_defs name_ok_def path_ok_def starts_with_def)
  moreover have "not_header (trim_end ?l)"
    unfolding l by (rule not_header_head) (auto simp: marker_defs split: option.split)
  ultimately show ?thesis by (intro feed_update_line [OF assms(1)])
qed

lemma feed_chunk:
  assumes "in_update p hs path m cs" "list_all chunk_ok cs" "renderable_chunk c"
  shows "\<exists>p'. feed p (render_chunk c) = Inr p' \<and> in_update p' hs path m (cs @ [c])"
proof -
  let ?c1 = "(empty_chunk (change_context c))\<lparr>old_lines := old_lines c\<rparr>"
  let ?c2 = "?c1\<lparr>new_lines := new_lines c\<rparr>"
  have ok: "chunk_ok ?c2" "\<not> is_end_of_file ?c2"
    using assms(3) by (simp_all add: renderable_chunk_def chunk_ok_def empty_chunk_def)
  obtain p1 where p1: "feed p [hd (render_chunk c)] = Inr p1"
    "in_update p1 hs path m (cs @ [empty_chunk (change_context c)])"
    using feed_context [OF assms(1,2), of "change_context c"] assms(3)
    by (auto simp: renderable_chunk_def render_chunk_def)
  obtain shared olds news where split: "old_lines c = shared @ olds" "new_lines c = shared @ news"
    and body: "change_lines (old_lines c) (new_lines c) =
      map (\<lambda>l. c_space # l) shared @ map (\<lambda>l. c_minus # l) olds @ map (\<lambda>l. c_plus # l) news"
    by (rule change_lines_split)
  obtain p1' where p1': "feed p1 (map (\<lambda>l. c_space # l) shared) = Inr p1'"
    "in_update p1' hs path m (cs @ [(empty_chunk (change_context c))\<lparr>old_lines := shared, new_lines := shared\<rparr>])"
    using feed_shared [OF p1(2), of shared] by (auto simp: empty_chunk_def)
  obtain p2 where p2: "feed p1' (map (\<lambda>l. c_minus # l) olds) = Inr p2"
    "in_update p2 hs path m (cs @ [?c1\<lparr>new_lines := shared\<rparr>])"
    using feed_removed [OF p1'(2), of olds] split by (auto simp: empty_chunk_def)
  obtain p3 where p3: "feed p2 (map (\<lambda>l. c_plus # l) news) = Inr p3"
    "in_update p3 hs path m (cs @ [?c2])"
    using feed_added [OF p2(2), of news] split by (auto simp: empty_chunk_def)
  obtain p4 where p4: "feed p3 (if is_end_of_file c then [EOF_MARKER] else []) = Inr p4"
    "in_update p4 hs path m (cs @ [?c2\<lparr>is_end_of_file := is_end_of_file c\<rparr>])"
    using feed_eof [OF p3(2) ok] by blast
  have "render_chunk c = [hd (render_chunk c)] @ map (\<lambda>l. c_space # l) shared @ map (\<lambda>l. c_minus # l) olds @
      map (\<lambda>l. c_plus # l) news @ (if is_end_of_file c then [EOF_MARKER] else [])"
    by (simp add: render_chunk_def body)
  also have "feed p \<dots> = Inr p4"
    by (simp only: feed_append p1(1) p1'(1) p2(1) p3(1) p4(1) sum.case)
  finally have "feed p (render_chunk c) = Inr p4" .
  moreover have "?c2\<lparr>is_end_of_file := is_end_of_file c\<rparr> = c" by (simp add: empty_chunk_def)
  ultimately show ?thesis using p4(2) by auto
qed

lemma feed_chunks:
  "in_update p hs path m cs \<Longrightarrow> list_all chunk_ok cs \<Longrightarrow> list_all renderable_chunk ds \<Longrightarrow>
   \<exists>p'. feed p (concat (map render_chunk ds)) = Inr p' \<and> in_update p' hs path m (cs @ ds)"
proof (induction ds arbitrary: p cs)
  case (Cons d ds)
  then obtain q where q: "feed p (render_chunk d) = Inr q" "in_update q hs path m (cs @ [d])"
    using feed_chunk [of p hs path m cs d] by auto
  have "list_all chunk_ok (cs @ [d])" using Cons.prems by (simp add: renderable_chunk_def)
  with Cons.IH [OF q(2)] Cons.prems feed_seq [OF q(1)] show ?case by auto
qed auto

section \<open>Hunks\<close>

text \<open>A state in which a hunk header or the end marker is accepted.\<close>

definition ready :: "streaming_parser \<Rightarrow> bool" where
  "ready p \<longleftrightarrow> mode p \<noteq> NotStarted \<and> mode p \<noteq> EndedPatch \<and>
     (\<forall>ln l. ensure_update_hunk_is_not_empty (p\<lparr>parser_line := ln\<rparr>) l = None)"

lemma ensure_None_cong:
  "mode q = mode p \<Longrightarrow> hunks q = hunks p \<Longrightarrow>
   (ensure_update_hunk_is_not_empty q l = None) = (ensure_update_hunk_is_not_empty p l' = None)"
  by (auto simp: ensure_update_hunk_is_not_empty_def
      split: option.splits hunk.splits streaming_mode.splits list.splits)

lemma ready_cong: "mode q = mode p \<Longrightarrow> hunks q = hunks p \<Longrightarrow> ready p \<Longrightarrow> ready q"
  unfolding ready_def by (simp add: ensure_None_cong [of "q\<lparr>parser_line := _\<rparr>" p _ "[]"]
      ensure_None_cong [of "p\<lparr>parser_line := _\<rparr>" p _ "[]"])

lemma ready_header:
  assumes "ready p" "trim l = l" "trim_end l = l" "\<not> is_environment_id_preamble_line l"
    "\<And>q. (\<forall>l. ensure_update_hunk_is_not_empty q l = None) \<Longrightarrow>
       handle_hunk_headers_and_end_patch q l = Inr (True, f q)"
  shows "feed p [l] = Inr (f (p\<lparr>parser_line := parser_line p + 1\<rparr>))"
  using assms by (cases "mode p") (auto simp: ready_def process_line_def Let_def)

lemma in_update_ready:
  assumes "in_update p hs path m cs" "cs \<noteq> []" "list_all chunk_ok cs"
  shows "ready p"
proof -
  from assms obtain n where "mode p = InUpdateFile n" "hunks p = hs @ [UpdateFile path m cs]"
    by (auto simp: in_update_def)
  with assms(2,3) show ?thesis
    by (cases cs rule: rev_cases) (auto simp: ready_def ensure_in_update)
qed

lemma header_line:
  assumes "name_ok path" "m \<in> {ADD_FILE_MARKER, DELETE_FILE_MARKER, UPDATE_FILE_MARKER}"
  shows "trim (m @ path) = m @ path" "trim_end (m @ path) = m @ path"
    "\<not> is_environment_id_preamble_line (m @ path)"
  using assms
  by (auto simp: trim_header markers_head is_environment_id_preamble_line_def starts_with_def
      name_ok_def path_ok_def intro!: trim_end_id) (auto simp: marker_defs)

lemma feed_add_lines:
  "mode p = InAddFile \<Longrightarrow> hunks p = hs @ [AddFile path acc] \<Longrightarrow>
   \<exists>p'. feed p (map (\<lambda>l. c_plus # l) ls) = Inr p' \<and> mode p' = InAddFile \<and>
        hunks p' = hs @ [AddFile path (acc @ concat (map (\<lambda>l. l @ [newline]) ls))]"
proof (induction ls arbitrary: p acc)
  case (Cons l ls)
  have "not_header (trim (c_plus # l))"
    by (rule not_header_head) (simp add: trim_def trim_start_def trim_end_Cons is_whitespace_def)
  with Cons.prems Cons.IH [of "p\<lparr>parser_line := Suc (parser_line p),
      hunks := hs @ [AddFile path (acc @ l @ [newline])]\<rparr>" "acc @ l @ [newline]"]
  show ?case by (simp add: process_line_def Let_def not_header_handle)
qed simp

lemma ready_if_last:
  "mode p \<in> {InAddFile, InDeleteFile} \<Longrightarrow> hunks p = hs @ [h] \<Longrightarrow>
   (\<And>path m cs. h \<noteq> UpdateFile path m cs) \<Longrightarrow> ready p"
  by (cases h) (auto simp: ready_def ensure_update_hunk_is_not_empty_def)

lemma feed_hunk:
  assumes "ready p" "renderable_hunk h"
  shows "\<exists>p'. feed p (render_hunk h) = Inr p' \<and> ready p' \<and> hunks p' = hunks p @ [h]"
proof (cases h)
  case (AddFile path contents)
  let ?f = "\<lambda>q. q\<lparr>hunks := hunks q @ [AddFile path []], mode := InAddFile\<rparr>"
  have "feed p [ADD_FILE_MARKER @ path] = Inr (?f (p\<lparr>parser_line := parser_line p + 1\<rparr>))"
    using assms AddFile header_line [of path ADD_FILE_MARKER]
    by (intro ready_header) (auto simp: handle_hunk_headers_and_end_patch_def Let_def, auto simp: marker_defs)
  moreover have "contents = concat (map (\<lambda>l. l @ [newline]) (lines contents))"
    using assms AddFile by simp
  moreover obtain p' where "feed (?f (p\<lparr>parser_line := parser_line p + 1\<rparr>))
      (map (\<lambda>l. c_plus # l) (lines contents)) = Inr p'" "mode p' = InAddFile"
    "hunks p' = hunks p @ [AddFile path (concat (map (\<lambda>l. l @ [newline]) (lines contents)))]"
    using feed_add_lines [of "?f (p\<lparr>parser_line := parser_line p + 1\<rparr>)" "hunks p" path "[]"] by auto
  ultimately show ?thesis
    using AddFile feed_append [of p "[ADD_FILE_MARKER @ path]"] ready_if_last [of p' "hunks p" h]
    by auto
next
  case (DeleteFile path)
  let ?f = "\<lambda>q. q\<lparr>hunks := hunks q @ [DeleteFile path], mode := InDeleteFile\<rparr>"
  have "feed p [DELETE_FILE_MARKER @ path] = Inr (?f (p\<lparr>parser_line := parser_line p + 1\<rparr>))"
    using assms DeleteFile header_line [of path DELETE_FILE_MARKER]
    by (intro ready_header)
      (auto simp: handle_hunk_headers_and_end_patch_def header_prefixes Let_def, auto simp: marker_defs)
  then show ?thesis
    using DeleteFile ready_if_last [of "?f (p\<lparr>parser_line := parser_line p + 1\<rparr>)" "hunks p" h] by auto
next
  case (UpdateFile path m cs)
  let ?f = "\<lambda>q. q\<lparr>hunks := hunks q @ [UpdateFile path None []], mode := InUpdateFile (parser_line q)\<rparr>"
  let ?q = "?f (p\<lparr>parser_line := parser_line p + 1\<rparr>)"
  let ?mv = "case m of None \<Rightarrow> [] | Some d \<Rightarrow> [MOVE_TO_MARKER @ d]"
  have q: "feed p [UPDATE_FILE_MARKER @ path] = Inr ?q"
    using assms UpdateFile header_line [of path UPDATE_FILE_MARKER]
    by (intro ready_header)
      (auto simp: handle_hunk_headers_and_end_patch_def header_prefixes Let_def, auto simp: marker_defs)
  obtain r where r: "feed ?q ?mv = Inr r" "in_update r (hunks p) path m []"
  proof (cases m)
    case (Some d)
    then have "name_ok d" using assms UpdateFile by simp
    then have d: "trim_end (MOVE_TO_MARKER @ d) = MOVE_TO_MARKER @ d"
      by (auto simp: name_ok_def path_ok_def intro!: trim_end_id)
    moreover have "not_header (MOVE_TO_MARKER @ d)" by (simp add: not_header_def marker_defs)
    moreover have "in_update ?q (hunks p) path None []" by (simp add: in_update_def)
    ultimately show ?thesis
      using that Some feed_update_line [of ?q "hunks p" path None "[]" "MOVE_TO_MARKER @ d" "Some d" "[]"]
      by (auto simp: update_body_line_def Let_def)
  qed (use that in \<open>simp add: in_update_def\<close>)
  obtain p' where "feed r (concat (map render_chunk cs)) = Inr p'" "in_update p' (hunks p) path m cs"
    using feed_chunks [OF r(2)] assms UpdateFile by auto
  moreover have "list_all chunk_ok cs"
    using assms UpdateFile by (auto simp: list_all_iff renderable_chunk_def)
  moreover have "render_hunk h = [UPDATE_FILE_MARKER @ path] @ ?mv @ concat (map render_chunk cs)"
    using UpdateFile by simp
  ultimately show ?thesis
    using q r(1) assms UpdateFile in_update_ready [of p' "hunks p" path m cs]
    by (auto simp only: feed_append sum.case in_update_def renderable_hunk.simps)
qed

lemma feed_hunks:
  "ready p \<Longrightarrow> list_all renderable_hunk hs \<Longrightarrow>
   \<exists>p'. feed p (concat (map render_hunk hs)) = Inr p' \<and> ready p' \<and> hunks p' = hunks p @ hs"
proof (induction hs arbitrary: p)
  case (Cons h hs)
  then obtain q where q: "feed p (render_hunk h) = Inr q" "ready q" "hunks q = hunks p @ [h]"
    using feed_hunk [of p h] by auto
  with Cons show ?case by (fastforce simp: feed_append)
qed simp

section \<open>Whole patches\<close>

lemma join_snoc: "join sep (xs @ [y]) = concat (map (\<lambda>x. x @ sep) xs) @ y"
proof (induction xs)
  case (Cons x xs)
  then show ?case by (cases xs) simp_all
qed simp

lemma feed_preamble:
  assumes "env_ok env"
  shows "\<exists>p. feed default_parser
      (BEGIN_PATCH_MARKER # (case env of None \<Rightarrow> [] | Some e \<Rightarrow> [ENVIRONMENT_ID_MARKER @ e])) = Inr p \<and>
    ready p \<and> hunks p = []"
proof -
  have "trim BEGIN_PATCH_MARKER = BEGIN_PATCH_MARKER"
    by (simp add: trim_id marker_defs is_whitespace_def)
  then show ?thesis
    by (cases env)
      (auto simp: default_parser_def process_line_def Let_def is_environment_id_preamble_line_def
        starts_with_def ready_def ensure_update_hunk_is_not_empty_def)
qed

lemma finish_at_end:
  assumes "ready p" "line_buffer p = END_PATCH_MARKER"
  shows "fst (finish p) = Inr (hunks p)"
proof -
  have "trim END_PATCH_MARKER = END_PATCH_MARKER" "END_PATCH_MARKER \<noteq> []"
    by (simp_all add: trim_id marker_defs is_whitespace_def)
  moreover have "ensure_update_hunk_is_not_empty
      (p\<lparr>line_buffer := [], parser_line := Suc (parser_line p)\<rparr>) END_PATCH_MARKER = None"
    using ready_cong [OF _ _ assms(1), of "p\<lparr>line_buffer := []\<rparr>"] by (simp add: ready_def)
  ultimately show ?thesis using assms(2) by (simp add: finish_def)
qed

lemma stream_rendered:
  assumes "list_all renderable_hunk hs" "env_ok env"
  shows "fst (finish (snd (push_chars default_parser (render_patch env hs)))) = Inr hs"
proof -
  let ?pre = "BEGIN_PATCH_MARKER # (case env of None \<Rightarrow> [] | Some e \<Rightarrow> [ENVIRONMENT_ID_MARKER @ e])"
  let ?ls = "?pre @ concat (map render_hunk hs)"
  obtain p where "feed default_parser ?pre = Inr p" "ready p" "hunks p = []"
    using feed_preamble [OF assms(2)] by blast
  then obtain q where q: "feed default_parser ?ls = Inr q" "ready q" "hunks q = hs"
    using feed_hunks [OF _ assms(1), of p] feed_append [of default_parser ?pre] by auto
  have "\<forall>l \<in> set ?ls. plain_line l"
    using assms plain_render_hunk
    by (fastforce simp: env_ok_def list_all_iff plain_line_header markers_no_newline split: option.splits)
  from push_chars_feed [OF this _ q(1)]
  have "push_chars default_parser (concat (map (\<lambda>l. l @ [newline]) ?ls)) = (None, q)" "line_buffer q = []"
    by (auto simp: default_parser_def)
  moreover have nl: "newline \<notin> set END_PATCH_MARKER" by (simp add: marker_defs)
  ultimately have fed: "push_chars default_parser
      (concat (map (\<lambda>l. l @ [newline]) ?ls) @ END_PATCH_MARKER) =
      (None, q\<lparr>line_buffer := END_PATCH_MARKER\<rparr>)"
    by (rule push_chars_rest)
  have eq: "render_patch env hs = concat (map (\<lambda>l. l @ [newline]) ?ls) @ END_PATCH_MARKER"
    unfolding render_patch_def render_lines_def by (simp flip: append_Cons add: join_snoc flip: append_assoc)
  have "push_chars default_parser (render_patch env hs) =
      (None, q\<lparr>line_buffer := END_PATCH_MARKER\<rparr>)"
    unfolding eq by (rule fed)
  moreover have "ready (q\<lparr>line_buffer := END_PATCH_MARKER\<rparr>)"
    by (rule ready_cong [OF _ _ q(2)]) simp_all
  ultimately show ?thesis using finish_at_end q(3) by simp
qed

text \<open>
  (C2) The streaming preview and the batch parser agree on the patches the printer writes: for the printed
  text of any hunks that have one (plain lines, chunks that change something, names without spaces at their
  ends), with any environment identifier, cut into deltas in any way, finishing the stream
  yields exactly the hunks the batch parser returns for the whole text.
\<close>
theorem streaming_agrees_with_batch:
  assumes "list_all renderable_hunk hs" "env_ok env" "concat deltas = render_patch env hs"
  shows "\<exists>args. parse_patch (render_patch env hs) = Ok args \<and>
    fst (finish (snd (push_deltas default_parser deltas))) = Inr (args_hunks args)"
  using stream_rendered [OF assms(1,2)] parse_rendered_patch [OF assms(1,2)] assms(3)
  by (simp add: push_deltas_push_chars parse_patch_def)

theorem streaming_agrees_with_batch_witness:
  "\<exists>args. parse_patch (render_patch None sample_hunks) = Ok args \<and>
    fst (finish (snd (push_deltas default_parser [take 7 (render_patch None sample_hunks),
      drop 7 (render_patch None sample_hunks)]))) = Inr (args_hunks args)"
  by (rule streaming_agrees_with_batch [OF sample_hunks_renderable]) (simp_all add: env_ok_def)

text \<open>
  On other texts they need not agree: of a context line with a space at its end the batch parser keeps the
  space, the streaming parser does not.
\<close>

definition spaced_context_patch :: rstr where
  "spaced_context_patch = join [newline]
     [BEGIN_PATCH_MARKER, UPDATE_FILE_MARKER @ lit ''a'', CHANGE_CONTEXT_MARKER @ lit ''f '', lit ''+x'', END_PATCH_MARKER]"

definition spaced_context_hunk :: "rstr \<Rightarrow> hunk" where
  "spaced_context_hunk ctx = UpdateFile (lit ''a'') None
     [\<lparr>change_context = Some ctx, old_lines = [], new_lines = [lit ''x''], is_end_of_file = False\<rparr>]"

lemma spaced_context_differs:
  "\<exists>args. parse_patch spaced_context_patch = Ok args \<and> args_hunks args = [spaced_context_hunk (lit ''f '')]"
  "fst (finish (snd (push_delta default_parser spaced_context_patch))) = Inr [spaced_context_hunk (lit ''f'')]"
  by (simp_all add: spaced_context_patch_def spaced_context_hunk_def parse_patch_def PARSE_IN_STRICT_MODE_def
      parse_eval update_chunks_loop_Cons parse_update_file_chunk_def chunk_context_def starts_with_def slice_from_def empty_chunk_def
      push_delta_def default_parser_def process_line_def handle_hunk_headers_and_end_patch_def is_environment_id_preamble_line_def
      ensure_update_hunk_is_not_empty_def last_chunk_is_empty_def last_opt_def update_body_line_def push_change_def update_last_def finish_def
      chunk_is_empty_def)

theorem parser_reachable_ok_witness:
  "parser_reachable (snd (push_delta default_parser BEGIN_PATCH_MARKER)) \<and>
   hunks_match (mode (snd (push_delta default_parser BEGIN_PATCH_MARKER)))
     (hunks (snd (push_delta default_parser BEGIN_PATCH_MARKER)))"
proof -
  have "parser_reachable (snd (push_delta default_parser BEGIN_PATCH_MARKER))"
    by (intro parser_reachable.intros)
  with parser_reachable_ok [OF this] show ?thesis by simp
qed

theorem finish_accepts_wellformed_witness:
  "list_all hunk_ok sample_hunks"
proof -
  let ?p = "snd (push_delta default_parser (render_patch None sample_hunks))"
  have "parser_reachable ?p" by (intro parser_reachable.intros)
  moreover have "fst (finish ?p) = Inr sample_hunks"
    using stream_rendered [OF sample_hunks_renderable, of None] by (simp add: env_ok_def push_delta_result)
  ultimately show ?thesis by (rule finish_accepts_wellformed)
qed

end
