(* ===== verification/Patch_Replace.thy ===== *)
theory Patch_Replace
  imports Patch_Format
begin

text \<open>
  How an update hunk changes the lines of a file: \<^verbatim>\<open>codex-rs/apply-patch/src/seek_sequence.rs\<close>
  (finding the lines a chunk talks about) and, of \<^verbatim>\<open>codex-rs/apply-patch/src/lib.rs\<close>,
  \<^verbatim>\<open>compute_replacements\<close>, \<^verbatim>\<open>apply_replacements\<close> and the pure part of
  \<^verbatim>\<open>derive_new_contents_from_chunks\<close>.  Indexing, slicing and \<^verbatim>\<open>Vec::insert\<close> are
  outcomes that can panic.

  The lemmas show that no index is ever out of range, that the search is the first match of the
  strictest of four comparisons, and that replacements that are in order have the effect of one
  left-to-right splice; the section on limits shows where the code leaves that contract.
\<close>

section \<open>Errors\<close>

text \<open>
  An \<^verbatim>\<open>io::Error\<close> as the code sees it: its kind and its text.  \<open>OtherKind\<close> numbers the kinds of
  \<^verbatim>\<open>std::io::ErrorKind\<close> that no branch of the code looks at.
\<close>

datatype error_kind = NotFound | InvalidInput | OtherError | OtherKind nat

record io_error =
  kind :: error_kind
  error_text :: rstr

datatype apply_patch_error =
    ParseError parse_error
  | IoError (io_context: rstr) (io_source: io_error)
  | ComputeReplacements rstr
  | ImplicitInvocation

section \<open>Searching for lines\<close>

definition normalise_char :: "rchar \<Rightarrow> rchar" where
  "normalise_char c =
     (if c \<in> {0x2010, 0x2011, 0x2012, 0x2013, 0x2014, 0x2015, 0x2212} then 45
      else if c \<in> {0x2018, 0x2019, 0x201A, 0x201B} then 39
      else if c \<in> {0x201C, 0x201D, 0x201E, 0x201F} then 34
      else if c \<in> {0x00A0, 0x2002, 0x2003, 0x2004, 0x2005, 0x2006, 0x2007, 0x2008, 0x2009, 0x200A,
                   0x202F, 0x205F, 0x3000} then 32
      else c)"

definition normalise :: "rstr \<Rightarrow> rstr" where
  "normalise s = map normalise_char (trim s)"

definition index :: "'a list \<Rightarrow> nat \<Rightarrow> (apply_patch_error, 'a) outcome" where
  "index xs i = (if i < length xs then Ok (xs ! i) else Panic)"

text \<open>The inner loop of the three lenient passes, over the pattern lines.\<close>

fun lines_agree :: "(rstr \<Rightarrow> rstr) \<Rightarrow> rstr list \<Rightarrow> nat \<Rightarrow> rstr list \<Rightarrow> (apply_patch_error, bool) outcome" where
  "lines_agree f ls i [] = Ok True"
| "lines_agree f ls i (pat # pats) =
     and_then (index ls i) (\<lambda>l. if f l \<noteq> f pat then Ok False else lines_agree f ls (Suc i) pats)"

definition exact_at :: "rstr list \<Rightarrow> rstr list \<Rightarrow> nat \<Rightarrow> (apply_patch_error, bool) outcome" where
  "exact_at ls pattern i =
     and_then (slice i (i + length pattern) ls) (\<lambda>s. Ok (s = pattern))"

fun search_loop :: "(nat \<Rightarrow> (apply_patch_error, bool) outcome) \<Rightarrow> nat list \<Rightarrow> (apply_patch_error, nat option) outcome" where
  "search_loop ok [] = Ok None"
| "search_loop ok (i # is) =
     and_then (ok i) (\<lambda>b. if b then Ok (Some i) else search_loop ok is)"

definition or_else_search ::
  "(apply_patch_error, nat option) outcome \<Rightarrow> (apply_patch_error, nat option) outcome \<Rightarrow> (apply_patch_error, nat option) outcome" where
  "or_else_search a b = and_then a (\<lambda>r. case r of Some i \<Rightarrow> Ok (Some i) | None \<Rightarrow> b)"

definition seek_sequence ::
  "rstr list \<Rightarrow> rstr list \<Rightarrow> nat \<Rightarrow> bool \<Rightarrow> (apply_patch_error, nat option) outcome" where
  "seek_sequence ls pattern start eof =
     (if pattern = [] then Ok (Some start)
      else if length ls < length pattern then Ok None
      else let search_start = (if eof \<and> length pattern \<le> length ls
                               then length ls - length pattern else start);
               is = [search_start..<Suc (length ls - length pattern)]
           in or_else_search (search_loop (exact_at ls pattern) is)
             (or_else_search (search_loop (\<lambda>i. lines_agree trim_end ls i pattern) is)
             (or_else_search (search_loop (\<lambda>i. lines_agree trim ls i pattern) is)
               (search_loop (\<lambda>i. lines_agree normalise ls i pattern) is))))"

section \<open>Replacements\<close>

type_synonym replacement = "nat \<times> nat \<times> rstr list"

definition last_is_empty :: "rstr list \<Rightarrow> bool" where
  "last_is_empty ls \<longleftrightarrow> ls \<noteq> [] \<and> last ls = []"

definition context_message :: "rstr \<Rightarrow> rstr \<Rightarrow> rstr" where
  "context_message ctx_line path = lit ''Failed to find context '' @ quoted ctx_line @ lit '' in '' @ path"

definition expected_lines_message :: "rstr \<Rightarrow> rstr list \<Rightarrow> rstr" where
  "expected_lines_message path olds =
     lit ''Failed to find expected lines in '' @ path @ lit '':'' @ [newline] @ join [newline] olds"

text \<open>The new \<^verbatim>\<open>line_index\<close> after the change context of a chunk.\<close>

definition seek_context ::
  "rstr list \<Rightarrow> rstr \<Rightarrow> update_file_chunk \<Rightarrow> nat \<Rightarrow> (apply_patch_error, nat) outcome" where
  "seek_context original_lines path chunk line_index =
     (case change_context chunk of
        None \<Rightarrow> Ok line_index
      | Some ctx_line \<Rightarrow>
          and_then (seek_sequence original_lines [ctx_line] line_index False) (\<lambda>found.
            case found of
              Some idx \<Rightarrow> Ok (idx + 1)
            | None \<Rightarrow> Err (ComputeReplacements (context_message ctx_line path))))"

text \<open>Where the old lines of a chunk are, with the pattern and the new lines in effect there.\<close>

definition locate_old_lines ::
  "rstr list \<Rightarrow> update_file_chunk \<Rightarrow> nat \<Rightarrow> (apply_patch_error, nat option \<times> rstr list \<times> rstr list) outcome"
where
  "locate_old_lines original_lines chunk line_index =
     (let pattern = old_lines chunk; new_slice = new_lines chunk in
      and_then (seek_sequence original_lines pattern line_index (is_end_of_file chunk)) (\<lambda>found.
        if found = None \<and> last_is_empty pattern then
          let pattern = butlast pattern;
              new_slice = (if last_is_empty new_slice then butlast new_slice else new_slice)
          in and_then (seek_sequence original_lines pattern line_index (is_end_of_file chunk))
               (\<lambda>found. Ok (found, pattern, new_slice))
        else Ok (found, pattern, new_slice)))"

text \<open>One round of the loop over chunks: the replacement and the next \<^verbatim>\<open>line_index\<close>.\<close>

definition chunk_replacement ::
  "rstr list \<Rightarrow> rstr \<Rightarrow> update_file_chunk \<Rightarrow> nat \<Rightarrow> (apply_patch_error, replacement \<times> nat) outcome" where
  "chunk_replacement original_lines path chunk line_index =
     and_then (seek_context original_lines path chunk line_index) (\<lambda>line_index.
       if old_lines chunk = [] then
         let insertion_idx = (if last_is_empty original_lines then length original_lines - 1
                              else length original_lines)
         in Ok ((insertion_idx, 0, new_lines chunk), line_index)
       else
         and_then (locate_old_lines original_lines chunk line_index) (\<lambda>(found, pattern, new_slice).
           case found of
             Some start_idx \<Rightarrow>
               Ok ((start_idx, length pattern, new_slice), start_idx + length pattern)
           | None \<Rightarrow> Err (ComputeReplacements (expected_lines_message path (old_lines chunk)))))"

fun replacements_loop ::
  "rstr list \<Rightarrow> rstr \<Rightarrow> nat \<Rightarrow> update_file_chunk list \<Rightarrow> (apply_patch_error, replacement list) outcome" where
  "replacements_loop original_lines path line_index [] = Ok []"
| "replacements_loop original_lines path line_index (chunk # chunks) =
     and_then (chunk_replacement original_lines path chunk line_index) (\<lambda>(r, line_index).
       and_then (replacements_loop original_lines path line_index chunks) (\<lambda>rs. Ok (r # rs)))"

text \<open>\<^verbatim>\<open>sort_by\<close> is stable, and so is \<^const>\<open>sort_key\<close>.\<close>

definition compute_replacements ::
  "rstr list \<Rightarrow> rstr \<Rightarrow> update_file_chunk list \<Rightarrow> (apply_patch_error, replacement list) outcome" where
  "compute_replacements original_lines path chunks =
     and_then (replacements_loop original_lines path 0 chunks) (\<lambda>rs. Ok (sort_key fst rs))"

fun remove_lines :: "nat \<Rightarrow> nat \<Rightarrow> 'a list \<Rightarrow> 'a list" where
  "remove_lines start_idx 0 ls = ls"
| "remove_lines start_idx (Suc n) ls =
     remove_lines start_idx n
       (if start_idx < length ls then take start_idx ls @ drop (Suc start_idx) ls else ls)"

fun insert_lines :: "nat \<Rightarrow> 'a list \<Rightarrow> 'a list \<Rightarrow> (apply_patch_error, 'a list) outcome" where
  "insert_lines i [] ls = Ok ls"
| "insert_lines i (new_line # news) ls =
     (if i \<le> length ls then insert_lines (Suc i) news (take i ls @ new_line # drop i ls) else Panic)"

fun apply_reversed :: "'a list \<Rightarrow> (nat \<times> nat \<times> 'a list) list \<Rightarrow> (apply_patch_error, 'a list) outcome" where
  "apply_reversed ls [] = Ok ls"
| "apply_reversed ls ((start_idx, old_len, new_segment) # rs) =
     and_then (insert_lines start_idx new_segment (remove_lines start_idx old_len ls))
       (\<lambda>ls. apply_reversed ls rs)"

definition apply_replacements ::
  "'a list \<Rightarrow> (nat \<times> nat \<times> 'a list) list \<Rightarrow> (apply_patch_error, 'a list) outcome" where
  "apply_replacements ls rs = apply_reversed ls (rev rs)"

text \<open>
  \<^verbatim>\<open>derive_new_contents_from_chunks\<close> once the file has been read: the lines of the file, and the
  new text.
\<close>

definition original_lines_of :: "rstr \<Rightarrow> rstr list" where
  "original_lines_of contents =
     (let ls = split_on newline contents in if last_is_empty ls then butlast ls else ls)"

definition finish_lines :: "rstr list \<Rightarrow> rstr" where
  "finish_lines ls = join [newline] (if last_is_empty ls then ls else ls @ [[]])"

definition new_contents_from_chunks ::
  "rstr \<Rightarrow> rstr \<Rightarrow> update_file_chunk list \<Rightarrow> (apply_patch_error, rstr) outcome" where
  "new_contents_from_chunks contents path chunks =
     (let original_lines = original_lines_of contents in
      and_then (compute_replacements original_lines path chunks) (\<lambda>rs.
      and_then (apply_replacements original_lines rs) (\<lambda>ls.
        Ok (finish_lines ls))))"

section \<open>The search never leaves the file\<close>

text \<open>The pattern agrees with the lines at \<open>i\<close> up to \<open>f\<close>.\<close>

definition agree_at :: "(rstr \<Rightarrow> rstr) \<Rightarrow> rstr list \<Rightarrow> rstr list \<Rightarrow> nat \<Rightarrow> bool" where
  "agree_at f ls pattern i \<longleftrightarrow> map f (take (length pattern) (drop i ls)) = map f pattern"

definition candidates :: "rstr list \<Rightarrow> rstr list \<Rightarrow> nat \<Rightarrow> bool \<Rightarrow> nat list" where
  "candidates ls pattern start eof =
     [(if eof then length ls - length pattern else start)..<Suc (length ls - length pattern)]"

lemma lines_agree_Ok:
  "i + length pattern \<le> length ls \<Longrightarrow> lines_agree f ls i pattern = Ok (agree_at f ls pattern i)"
proof (induction pattern arbitrary: i)
  case (Cons pat pats)
  then have "drop i ls = ls ! i # drop (Suc i) ls" by (simp add: Cons_nth_drop_Suc)
  with Cons show ?case by (simp add: index_def agree_at_def)
qed (simp add: agree_at_def)

lemma exact_at_Ok:
  "i + length pattern \<le> length ls \<Longrightarrow> exact_at ls pattern i = Ok (agree_at id ls pattern i)"
  by (simp add: exact_at_def slice_def agree_at_def)

lemma search_loop_Ok:
  "(\<And>i. i \<in> set is \<Longrightarrow> ok i = Ok (P i)) \<Longrightarrow> search_loop ok is = Ok (find P is)"
  by (induction "is") auto

lemma or_else_search_Ok:
  "or_else_search (Ok a) (Ok b) = Ok (case a of None \<Rightarrow> b | Some i \<Rightarrow> Some i)"
  by (simp add: or_else_search_def split: option.split)

text \<open>The strictest comparison with a match decides, and its first match wins.\<close>

fun first_pass :: "(nat \<Rightarrow> bool) list \<Rightarrow> nat list \<Rightarrow> nat option" where
  "first_pass [] is = None"
| "first_pass (P # Ps) is = (case find P is of Some i \<Rightarrow> Some i | None \<Rightarrow> first_pass Ps is)"

definition passes :: "rstr list \<Rightarrow> rstr list \<Rightarrow> (nat \<Rightarrow> bool) list" where
  "passes ls pattern = map (\<lambda>f. agree_at f ls pattern) [id, trim_end, trim, normalise]"

lemma seek_sequence_first_pass:
  assumes "pattern \<noteq> []" "length pattern \<le> length ls"
  shows "seek_sequence ls pattern start eof = Ok (first_pass (passes ls pattern) (candidates ls pattern start eof))"
proof -
  have "i + length pattern \<le> length ls" if "i \<in> set (candidates ls pattern start eof)" for i
    using that assms by (auto simp: candidates_def split: if_splits)
  then have "search_loop (exact_at ls pattern) (candidates ls pattern start eof) =
      Ok (find (agree_at id ls pattern) (candidates ls pattern start eof))"
    "search_loop (\<lambda>i. lines_agree f ls i pattern) (candidates ls pattern start eof) =
      Ok (find (agree_at f ls pattern) (candidates ls pattern start eof))" for f
    by (auto intro!: search_loop_Ok exact_at_Ok lines_agree_Ok)
  note loops = this
  have last_pass: "(case r of None \<Rightarrow> None | Some i \<Rightarrow> Some i) = r" for r :: "nat option"
    by (cases r) simp_all
  let ?is = "candidates ls pattern start eof"
  have "seek_sequence ls pattern start eof =
      or_else_search (search_loop (exact_at ls pattern) ?is)
       (or_else_search (search_loop (\<lambda>i. lines_agree trim_end ls i pattern) ?is)
       (or_else_search (search_loop (\<lambda>i. lines_agree trim ls i pattern) ?is)
         (search_loop (\<lambda>i. lines_agree normalise ls i pattern) ?is)))"
    using assms by (simp add: seek_sequence_def candidates_def Let_def del: upt_Suc)
  then show ?thesis
    by (simp only: loops or_else_search_Ok passes_def list.map first_pass.simps last_pass)
qed

lemma first_pass_SomeD:
  "first_pass Ps is = Some i \<Longrightarrow> i \<in> set is \<and> (\<exists>P \<in> set Ps. P i)"
  by (induction Ps) (auto simp: find_Some_iff split: option.splits)

lemma first_pass_None_iff: "first_pass Ps is = None \<longleftrightarrow> (\<forall>P \<in> set Ps. \<forall>i \<in> set is. \<not> P i)"
proof (induction Ps)
  case (Cons P Ps)
  have "find P is = None \<longleftrightarrow> (\<forall>i \<in> set is. \<not> P i)" by (auto simp: find_None_iff)
  with Cons show ?case by (cases "find P is") auto
qed simp

text \<open>Each comparison is weaker than the ones before it.\<close>

declare trim_trim_end [simp] trim_trim [simp]

lemma agree_at_weaken:
  assumes "agree_at f ls pattern i" "\<And>s. g (f s) = g s"
  shows "agree_at g ls pattern i"
proof -
  have "map g (map f xs) = map g xs" for xs using assms(2) by simp
  with assms(1) show ?thesis unfolding agree_at_def by metis
qed

lemma passes_imp_normalise:
  "P \<in> set (passes ls pattern) \<Longrightarrow> P i \<Longrightarrow> agree_at normalise ls pattern i"
  by (auto simp: passes_def normalise_def intro: agree_at_weaken)

text \<open>
  The search is a pure function.  What a caller may rely on: the position is inside the file, at
  or after \<open>start\<close> unless the chunk is anchored at the end, and the lines there agree with the
  pattern up to \<^const>\<open>normalise\<close>; without a match no position agrees even that far.
\<close>

definition seek_result :: "rstr list \<Rightarrow> rstr list \<Rightarrow> nat \<Rightarrow> bool \<Rightarrow> nat option" where
  "seek_result ls pattern start eof =
     (if pattern = [] then Some start
      else if length ls < length pattern then None
      else first_pass (passes ls pattern) (candidates ls pattern start eof))"

lemma seek_sequence_result: "seek_sequence ls pattern start eof = Ok (seek_result ls pattern start eof)"
proof (cases "pattern = [] \<or> length ls < length pattern")
  case True
  then show ?thesis by (auto simp: seek_sequence_def seek_result_def)
next
  case False
  then show ?thesis by (simp add: seek_result_def seek_sequence_first_pass)
qed

lemma candidates_iff:
  "length pattern \<le> length ls \<Longrightarrow> i \<in> set (candidates ls pattern start eof) \<longleftrightarrow>
   i + length pattern \<le> length ls \<and> (if eof then i = length ls - length pattern else start \<le> i)"
  by (auto simp: candidates_def)

lemma seek_result_cases:
  assumes "pattern \<noteq> []"
  obtains (found) i where "seek_result ls pattern start eof = Some i" "i + length pattern \<le> length ls"
      "agree_at normalise ls pattern i" "if eof then i = length ls - length pattern else start \<le> i"
  | (missing) "seek_result ls pattern start eof = None"
      "\<nexists>i. i + length pattern \<le> length ls \<and> agree_at normalise ls pattern i \<and>
        (if eof then i = length ls - length pattern else start \<le> i)"
proof (cases "length pattern \<le> length ls")
  case False
  with assms show thesis by (intro missing) (auto simp: seek_result_def)
next
  case True
  let ?is = "candidates ls pattern start eof"
  have r: "seek_result ls pattern start eof = first_pass (passes ls pattern) ?is"
    using assms True by (simp add: seek_result_def)
  show thesis
  proof (cases "first_pass (passes ls pattern) ?is")
    case None
    then have "\<forall>i \<in> set ?is. \<not> agree_at normalise ls pattern i"
      unfolding first_pass_None_iff by (simp add: passes_def)
    with None r True show thesis by (intro missing) (simp, use True in \<open>auto simp: candidates_iff\<close>)
  next
    case (Some i)
    then have "i \<in> set ?is" "agree_at normalise ls pattern i"
      using first_pass_SomeD [OF Some] passes_imp_normalise by blast+
    with Some r True show thesis
      by (intro found [of i]) (simp_all add: candidates_iff)
  qed
qed

text \<open>
  \<^verbatim>\<open>seek_sequence\<close> is total and sound: for a pattern that is not empty it never indexes outside
  the file; a position it returns leaves room for the whole pattern, lies at or after the start
  (or is the last possible position, for a chunk anchored at the end of the file), and the lines
  there agree with the pattern up to trimming and punctuation; when it returns none, no such
  position exists.
\<close>
theorem seek_sequence_sound:
  assumes "pattern \<noteq> []"
  shows "case seek_sequence ls pattern start eof of
      Ok (Some i) \<Rightarrow> i + length pattern \<le> length ls \<and> agree_at normalise ls pattern i \<and>
        (if eof then i = length ls - length pattern else start \<le> i)
    | Ok None \<Rightarrow> (\<nexists>i. i + length pattern \<le> length ls \<and> agree_at normalise ls pattern i \<and>
        (if eof then i = length ls - length pattern else start \<le> i))
    | _ \<Rightarrow> False"
  using assms
  by (cases rule: seek_result_cases [of pattern ls start eof]) (simp_all add: seek_sequence_result)

theorem seek_sequence_sound_witness:
  "seek_sequence [lit ''a'', lit ''b '', lit ''b''] [lit ''b''] 1 False = (Ok (Some 2) :: (apply_patch_error, nat option) outcome) \<and>
   agree_at normalise [lit ''a'', lit ''b '', lit ''b''] [lit ''b''] 2"
proof -
  have "seek_sequence [lit ''a'', lit ''b '', lit ''b''] [lit ''b''] 1 False =
      (Ok (Some 2) :: (apply_patch_error, nat option) outcome)"
    by (simp add: seek_sequence_def or_else_search_def exact_at_def slice_def upt_rec)
  moreover from this seek_sequence_sound [of "[lit ''b'']" "[lit ''a'', lit ''b '', lit ''b'']" False 1]
  have "agree_at normalise [lit ''a'', lit ''b '', lit ''b''] [lit ''b''] 2" by simp
  ultimately show ?thesis by blast
qed

lemma seek_sequence_prefers_exact_first:
  assumes "pattern \<noteq> []" "start \<le> i" "take (length pattern) (drop i ls) = pattern"
    "\<And>j. start \<le> j \<Longrightarrow> j < i \<Longrightarrow> take (length pattern) (drop j ls) \<noteq> pattern"
  shows "seek_sequence ls pattern start False = Ok (Some i)"
proof -
  have len: "length pattern \<le> length ls" and i: "i + length pattern \<le> length ls"
    using arg_cong [OF assms(3), of length] assms(1) by (cases pattern; auto simp: min_def split: if_splits)+
  have "find (agree_at id ls pattern) (candidates ls pattern start False) = Some i"
    unfolding find_Some_iff candidates_def
    using assms i by (intro exI [of _ "i - start"]) (auto simp: agree_at_def simp del: upt_Suc)
  then show ?thesis
    using assms(1) len by (simp add: seek_sequence_first_pass passes_def)
qed

text \<open>
  The comparisons are tried from strict to lenient: an exact match at or after the start is
  always preferred, and the first one is taken, whatever lenient match precedes it.
\<close>
theorem seek_sequence_prefers_exact:
  assumes "pattern \<noteq> []" "start \<le> i" "take (length pattern) (drop i ls) = pattern"
    "\<And>j. start \<le> j \<Longrightarrow> j < i \<Longrightarrow> take (length pattern) (drop j ls) \<noteq> pattern"
  shows "seek_sequence ls pattern start False = Ok (Some i)"
  using assms by (rule seek_sequence_prefers_exact_first)

theorem seek_sequence_prefers_exact_witness:
  "seek_sequence [lit ''x '', lit ''x''] [lit ''x''] 0 False = (Ok (Some 1) :: (apply_patch_error, nat option) outcome)"
  by (rule seek_sequence_prefers_exact) (auto simp: less_Suc_eq)

section \<open>Replacements stay inside the file\<close>

text \<open>A replacement region that fits a file of \<open>n\<close> lines.\<close>

definition region_fits :: "nat \<Rightarrow> replacement \<Rightarrow> bool" where
  "region_fits n r = (case r of (s, l, _) \<Rightarrow> s + l \<le> n)"

lemma seek_context_bound:
  assumes "line_index \<le> length ls" "seek_context ls path c line_index = r"
  shows "(\<exists>e. r = Err e) \<or> (\<exists>k. r = Ok k \<and> line_index \<le> k \<and> k \<le> length ls)"
proof (cases "change_context c")
  case (Some ctx)
  show ?thesis
    by (cases rule: seek_result_cases [of "[ctx]" ls line_index False])
      (use assms Some in \<open>auto simp: seek_context_def seek_sequence_result\<close>)
qed (use assms in \<open>auto simp: seek_context_def\<close>)

text \<open>A search from inside the file, with the empty pattern allowed.\<close>

lemma seek_result_bound:
  assumes "start \<le> length ls" "seek_result ls pattern start eof = Some i"
  shows "i + length pattern \<le> length ls \<and> (\<not> eof \<longrightarrow> start \<le> i)"
proof (cases "pattern = []")
  case True
  with assms show ?thesis by (simp add: seek_result_def)
next
  case False
  then show ?thesis
    by (cases rule: seek_result_cases [of pattern ls start eof]) (use assms in auto)
qed

lemma locate_old_lines_bound:
  assumes "start \<le> length ls"
  shows "\<exists>found pattern news. locate_old_lines ls c start = Ok (found, pattern, news) \<and>
    (\<forall>i. found = Some i \<longrightarrow> i + length pattern \<le> length ls \<and> (\<not> is_end_of_file c \<longrightarrow> start \<le> i))"
proof -
  note bound = seek_result_bound [OF assms, of "old_lines c" "is_end_of_file c"]
    seek_result_bound [OF assms, of "butlast (old_lines c)" "is_end_of_file c"]
  show ?thesis using bound by (auto simp: locate_old_lines_def Let_def seek_sequence_result)
qed

text \<open>
  One round of the loop: a replacement that fits, and a line index inside the file.  Without an
  end-of-file anchor and with old lines to look for, the region starts at or after the old line
  index and the new index is its end.
\<close>

lemma chunk_replacement_bound:
  assumes "k \<le> length ls" "chunk_replacement ls path c k = r"
  obtains (fail) e where "r = Err e"
  | (ok) s l news k' where "r = Ok ((s, l, news), k')" "s + l \<le> length ls" "k' \<le> length ls"
      "is_end_of_file c \<or> k \<le> k'" "is_end_of_file c \<or> old_lines c = [] \<or> k \<le> s \<and> k' = s + l"
      "old_lines c = [] \<Longrightarrow> l = 0 \<and> s = (if last_is_empty ls then length ls - 1 else length ls)"
proof -
  consider e where "seek_context ls path c k = Err e"
    | k1 where "seek_context ls path c k = Ok k1" "k \<le> k1" "k1 \<le> length ls"
    using seek_context_bound [OF assms(1) refl] by blast
  then show thesis
  proof cases
    case (1 e)
    with assms show thesis by (intro fail [of e]) (auto simp: chunk_replacement_def)
  next
    case (2 k1)
    show thesis
    proof (cases "old_lines c = []")
      case True
      with 2 assms show thesis
        by (intro ok) (auto simp: chunk_replacement_def Let_def last_is_empty_def)
    next
      case False
      from locate_old_lines_bound [OF 2(3), of c] obtain found pattern news where
        l: "locate_old_lines ls c k1 = Ok (found, pattern, news)"
        "\<And>i. found = Some i \<Longrightarrow> i + length pattern \<le> length ls \<and> (\<not> is_end_of_file c \<longrightarrow> k1 \<le> i)"
        by blast
      show thesis
      proof (cases found)
        case None
        with 2 False l assms show thesis by (intro fail) (auto simp: chunk_replacement_def)
      next
        case (Some i)
        with 2 False l(1) l(2) [OF Some] assms show thesis
          by (intro ok [of i "length pattern" news "i + length pattern"])
            (auto simp: chunk_replacement_def)
      qed
    qed
  qed
qed

lemma replacements_loop_fits:
  "k \<le> length ls \<Longrightarrow> replacements_loop ls path k cs = r \<Longrightarrow>
   (\<exists>e. r = Err e) \<or> (\<exists>rs. r = Ok rs \<and> list_all (region_fits (length ls)) rs)"
proof (induction cs arbitrary: k r)
  case (Cons c cs)
  show ?case
  proof (cases rule: chunk_replacement_bound [OF Cons.prems(1) refl, of path c, case_names fail ok])
    case (ok s l news k')
    from Cons.IH [OF ok(3) refl] show ?thesis
      using Cons.prems(2) ok(1,2) by (auto simp: region_fits_def)
  qed (use Cons.prems(2) in auto)
qed auto

section \<open>Applying replacements\<close>

lemma remove_lines_take_drop:
  "s \<le> length ls \<Longrightarrow> remove_lines s n ls = take s ls @ drop (s + n) ls"
proof (induction n arbitrary: ls)
  case (Suc n)
  then show ?case by (cases "s < length ls") (simp_all add: add.commute)
qed simp

lemma insert_lines_take_drop:
  "s \<le> length ls \<Longrightarrow> insert_lines s news ls = Ok (take s ls @ news @ drop s ls)"
proof (induction news arbitrary: s ls)
  case (Cons x news)
  then show ?case using Cons.IH [of "Suc s" "take s ls @ x # drop s ls"] by (simp add: min_absorb2)
qed simp

text \<open>One replacement is one splice.\<close>

lemma replace_one:
  "s \<le> length ls \<Longrightarrow>
   insert_lines s news (remove_lines s n ls) = Ok (take s ls @ news @ drop (s + n) ls)"
  by (simp add: remove_lines_take_drop insert_lines_take_drop)

text \<open>
  Replacements applied from the highest start to the lowest never insert past the end, even when
  their regions overlap: what lies before the current start has not been touched.
\<close>

lemma apply_reversed_total:
  "sorted_wrt (\<lambda>r q. fst q \<le> fst r) rs \<Longrightarrow> \<forall>r \<in> set rs. fst r \<le> length ls \<Longrightarrow>
   \<exists>out. apply_reversed ls rs = Ok out"
proof (induction rs arbitrary: ls)
  case (Cons r rs)
  obtain s n news where r: "r = (s, n, news)" by (cases r)
  let ?ls = "take s ls @ news @ drop (s + n) ls"
  have "s \<le> length ls" using Cons.prems r by simp
  moreover have "\<forall>q \<in> set rs. fst q \<le> length ?ls"
    using Cons.prems r by (fastforce simp: min_absorb2)
  then have "\<exists>out. apply_reversed ?ls rs = Ok out"
    using Cons.prems by (simp add: Cons.IH)
  ultimately show ?case by (simp add: r replace_one)
qed simp

lemma apply_replacements_total:
  assumes "list_all (region_fits (length ls)) rs"
  shows "\<exists>out. apply_replacements ls (sort_key fst rs) = Ok out"
  unfolding apply_replacements_def
proof (rule apply_reversed_total)
  have "sorted (map fst (sort_key fst rs))" by simp
  then show "sorted_wrt (\<lambda>r q. fst q \<le> fst r) (rev (sort_key fst rs))"
    by (simp add: sorted_wrt_rev sorted_map)
  show "\<forall>r \<in> set (rev (sort_key fst rs)). fst r \<le> length ls"
    using assms by (auto simp: list_all_iff region_fits_def)
qed

lemma chunk_replacement_Err:
  "chunk_replacement ls path c k = Err e \<Longrightarrow> \<exists>msg. e = ComputeReplacements msg"
  by (auto simp: outcome_simps chunk_replacement_def seek_context_def locate_old_lines_def Let_def
      seek_sequence_result split: option.splits if_splits)

lemma replacements_loop_Err:
  "replacements_loop ls path k cs = Err e \<Longrightarrow> \<exists>msg. e = ComputeReplacements msg"
  by (induction cs arbitrary: k) (auto simp: outcome_simps dest: chunk_replacement_Err)

lemma new_contents_total:
  "(\<exists>t. new_contents_from_chunks contents path chunks = Ok t) \<or>
   (\<exists>msg. new_contents_from_chunks contents path chunks = Err (ComputeReplacements msg))"
proof -
  let ?ls = "original_lines_of contents"
  consider e where "replacements_loop ?ls path 0 chunks = Err e"
    | rs where "replacements_loop ?ls path 0 chunks = Ok rs" "list_all (region_fits (length ?ls)) rs"
    using replacements_loop_fits [of 0 ?ls path chunks, OF _ refl] by blast
  then show ?thesis
  proof cases
    case (1 e)
    then show ?thesis
      using replacements_loop_Err [OF 1] by (auto simp: new_contents_from_chunks_def compute_replacements_def)
  next
    case (2 rs)
    then show ?thesis
      using apply_replacements_total [OF 2(2)] by (auto simp: new_contents_from_chunks_def compute_replacements_def)
  qed
qed

text \<open>
  Working out the new contents of a file never panics: whatever the file and the chunks, the
  result is a new text or a \<^verbatim>\<open>ComputeReplacements\<close> error, although \<^verbatim>\<open>apply_replacements\<close>
  inserts into a vector and the search indexes lines directly.
\<close>
theorem new_contents_no_panic:
  "(\<exists>t. new_contents_from_chunks contents path chunks = Ok t) \<or>
   (\<exists>msg. new_contents_from_chunks contents path chunks = Err (ComputeReplacements msg))"
  by (rule new_contents_total)

lemma new_contents_not_Panic: "new_contents_from_chunks contents path chunks \<noteq> Panic"
  using new_contents_total [of contents path chunks] by auto

section \<open>One left-to-right splice\<close>

fun splice_from :: "nat \<Rightarrow> 'a list \<Rightarrow> (nat \<times> nat \<times> 'a list) list \<Rightarrow> 'a list" where
  "splice_from p ls [] = drop p ls"
| "splice_from p ls ((s, l, news) # rs) = take (s - p) (drop p ls) @ news @ splice_from (s + l) ls rs"

fun in_order :: "nat \<Rightarrow> nat \<Rightarrow> (nat \<times> nat \<times> 'a list) list \<Rightarrow> bool" where
  "in_order p n [] \<longleftrightarrow> p \<le> n"
| "in_order p n ((s, l, news) # rs) \<longleftrightarrow> p \<le> s \<and> in_order (s + l) n rs"

lemma in_order_le: "in_order p n rs \<Longrightarrow> p \<le> n"
  by (induction p n rs rule: in_order.induct) auto

lemma apply_reversed_snoc:
  "apply_reversed ls (rs @ [r]) = and_then (apply_reversed ls rs) (\<lambda>ls. apply_reversed ls [r])"
proof (induction rs arbitrary: ls)
  case (Cons q rs)
  then show ?case by (cases q) (simp add: and_then_assoc)
qed simp

lemma apply_replacements_splice_from:
  "in_order p (length ls) rs \<Longrightarrow> apply_replacements ls rs = Ok (take p ls @ splice_from p ls rs)"
proof (induction rs arbitrary: p)
  case Nil
  then show ?case by (simp add: apply_replacements_def)
next
  case (Cons r rs)
  obtain s l news where r: "r = (s, l, news)" by (cases r)
  with Cons.prems have ord: "p \<le> s" "in_order (s + l) (length ls) rs" "s + l \<le> length ls"
    using in_order_le by auto
  let ?ls = "take (s + l) ls @ splice_from (s + l) ls rs"
  have "apply_replacements ls (r # rs) = apply_reversed ?ls [r]"
    using Cons.IH [OF ord(2)] by (simp add: apply_replacements_def apply_reversed_snoc)
  also have "\<dots> = Ok (take s ?ls @ news @ drop (s + l) ?ls)"
    using ord(3) by (simp add: r replace_one min_absorb2)
  also have "take s ?ls @ news @ drop (s + l) ?ls = take p ls @ splice_from p ls (r # rs)"
  proof -
    have "take p ls @ take (s - p) (drop p ls) = take s ls"
      using ord(1) take_add [of p "s - p" ls] by simp
    then show ?thesis using ord(3) by (simp add: r min_absorb1 min_absorb2 flip: append_assoc)
  qed
  finally show ?case .
qed

text \<open>
  Two replacements of the loop, in the order of their chunks: the first ends before the second
  starts, or it is an insertion at the end of the file.
\<close>

definition loop_pair :: "nat \<Rightarrow> replacement \<Rightarrow> replacement \<Rightarrow> bool" where
  "loop_pair n r q \<longleftrightarrow> fst r + fst (snd r) \<le> fst q \<or> fst r = n \<and> fst (snd r) = 0"

lemma in_order_Cons_iff:
  "in_order p n (r # rs) \<longleftrightarrow> p \<le> fst r \<and> in_order (fst r + fst (snd r)) n rs"
  by (cases r) simp

lemma in_order_mono: "in_order p n rs \<Longrightarrow> q \<le> p \<Longrightarrow> in_order q n rs"
  by (cases rs) (auto simp: in_order_Cons_iff)

lemma in_order_starts: "in_order p n rs \<Longrightarrow> r \<in> set rs \<Longrightarrow> p \<le> fst r"
  by (induction p n rs rule: in_order.induct) fastforce+

lemma in_order_raise:
  "in_order p n rs \<Longrightarrow> (\<And>q. q \<in> set rs \<Longrightarrow> k \<le> fst q) \<Longrightarrow> k \<le> n \<Longrightarrow> in_order k n rs"
  by (cases rs) (auto simp: in_order_Cons_iff)

text \<open>Inserting an insertion at the end of the file keeps the order.\<close>

lemma in_order_insort_end:
  assumes "in_order p n rs" "fst r = n" "fst (snd r) = 0"
  shows "in_order p n (insort_key fst r rs)"
  using assms
proof (induction rs arbitrary: p)
  case Nil
  then show ?case by (auto simp: in_order_Cons_iff)
next
  case (Cons q rs)
  show ?case
  proof (cases "fst r \<le> fst q")
    case True
    then show ?thesis
      using Cons.prems in_order_le [of "fst q + fst (snd q)" n rs] by (simp add: in_order_Cons_iff)
  next
    case False
    with Cons show ?thesis by (simp add: in_order_Cons_iff)
  qed
qed

lemma sort_loop_in_order:
  "sorted_wrt (loop_pair n) rs \<Longrightarrow> list_all (region_fits n) rs \<Longrightarrow> in_order 0 n (sort_key fst rs)"
proof (induction rs)
  case (Cons r rs)
  then have IH: "in_order 0 n (sort_key fst rs)" by simp
  show ?case
  proof (cases "fst r = n \<and> fst (snd r) = 0")
    case True
    with IH show ?thesis by (simp add: in_order_insort_end)
  next
    case False
    with Cons.prems(1) have before: "\<And>q. q \<in> set rs \<Longrightarrow> fst r + fst (snd r) \<le> fst q"
      by (auto simp: loop_pair_def)
    then have "insort_key fst r (sort_key fst rs) = r # sort_key fst rs"
      by (intro insort_is_Cons) (auto intro: add_leD1)
    moreover have "fst r + fst (snd r) \<le> n" using Cons.prems(2) by (cases r) (simp add: region_fits_def)
    then have "in_order (fst r + fst (snd r)) n (sort_key fst rs)"
      using in_order_raise [OF IH] before by simp
    ultimately show ?thesis by (simp add: in_order_Cons_iff)
  qed
qed simp

text \<open>
  The chunks whose replacements keep the order: no end-of-file anchor, and pure insertions only
  where the file does not end in a blank line.
\<close>

definition sequential_chunk :: "rstr list \<Rightarrow> update_file_chunk \<Rightarrow> bool" where
  "sequential_chunk ls c \<longleftrightarrow> \<not> is_end_of_file c \<and> (old_lines c = [] \<longrightarrow> \<not> last_is_empty ls)"

lemma replacements_loop_pairs:
  assumes "k \<le> length ls" "list_all (sequential_chunk ls) cs" "replacements_loop ls path k cs = Ok rs"
  shows "sorted_wrt (loop_pair (length ls)) rs \<and> (\<forall>q \<in> set rs. k \<le> fst q)"
  using assms
proof (induction cs arbitrary: k rs)
  case (Cons c cs)
  from Cons.prems(3) obtain r k' rs' where
    r: "chunk_replacement ls path c k = Ok (r, k')" "replacements_loop ls path k' cs = Ok rs'" "rs = r # rs'"
    by (auto simp: outcome_simps)
  show ?case
  proof (cases rule: chunk_replacement_bound [OF Cons.prems(1) r(1), case_names fail ok])
    case (ok s l news k1)
    have IH: "sorted_wrt (loop_pair (length ls)) rs' \<and> (\<forall>q \<in> set rs'. k' \<le> fst q)"
      using Cons.IH [OF _ _ r(2)] Cons.prems(2) ok by simp
    have "\<not> is_end_of_file c" "old_lines c = [] \<longrightarrow> \<not> last_is_empty ls"
      using Cons.prems(2) by (simp_all add: sequential_chunk_def)
    then have "k \<le> s" "k \<le> k'" and pair: "k' = s + l \<or> s = length ls \<and> l = 0"
      using ok Cons.prems(1) by (cases "old_lines c = []"; simp)+
    moreover have "\<forall>q \<in> set rs'. loop_pair (length ls) r q"
      using pair IH ok(1) by (auto simp: loop_pair_def)
    ultimately show ?thesis
      using IH ok(1) by (auto simp: r(3))
  qed simp
qed simp

lemma compute_replacements_in_order:
  assumes "list_all (sequential_chunk ls) cs" "compute_replacements ls path cs = Ok rs"
  shows "in_order 0 (length ls) rs"
proof -
  obtain rs' where "replacements_loop ls path 0 cs = Ok rs'" "rs = sort_key fst rs'"
    using assms(2) by (auto simp: compute_replacements_def outcome_simps)
  then show ?thesis
    using replacements_loop_pairs [OF _ assms(1)] replacements_loop_fits [of 0 ls path cs, OF _ refl]
    by (auto intro: sort_loop_in_order)
qed

text \<open>
  (C5) For chunks without an end-of-file anchor (and insertions only where the file does not end in
  a blank line) the new contents are one left-to-right splice: the replacements are disjoint and
  ordered, every line outside them is kept, and the reverse-order deletions and insertions of
  \<^verbatim>\<open>apply_replacements\<close> have exactly that effect.
\<close>
theorem update_is_splice:
  assumes "list_all (sequential_chunk (original_lines_of contents)) chunks"
    "compute_replacements (original_lines_of contents) path chunks = Ok rs"
  shows "in_order 0 (length (original_lines_of contents)) rs \<and>
    new_contents_from_chunks contents path chunks =
      Ok (finish_lines (splice_from 0 (original_lines_of contents) rs))"
  using compute_replacements_in_order [OF assms] apply_replacements_splice_from [of 0 _ rs] assms(2)
  by (simp add: new_contents_from_chunks_def Let_def)

text \<open>A file of three lines whose middle line a chunk replaces.\<close>

definition sample_contents :: rstr where
  "sample_contents = [97, newline, 98, newline, 99, newline]"

definition sample_chunk :: update_file_chunk where
  "sample_chunk = \<lparr>change_context = None, old_lines = [[98]], new_lines = [[120], [121]],
     is_end_of_file = False\<rparr>"

lemmas replace_eval =
  compute_replacements_def chunk_replacement_def seek_context_def locate_old_lines_def
  seek_sequence_def or_else_search_def exact_at_def slice_def upt_rec last_is_empty_def
  original_lines_of_def apply_replacements_def new_contents_from_chunks_def finish_lines_def

theorem update_is_splice_witness:
  "new_contents_from_chunks sample_contents (lit ''f'') [sample_chunk] =
   Ok [97, newline, 120, newline, 121, newline, 99, newline]"
proof -
  have "compute_replacements (original_lines_of sample_contents) (lit ''f'') [sample_chunk] =
      Ok [(1, 1, [[120], [121]])]"
    by (simp add: replace_eval sample_contents_def sample_chunk_def)
  moreover have "list_all (sequential_chunk (original_lines_of sample_contents)) [sample_chunk]"
    by (simp add: sequential_chunk_def sample_chunk_def)
  ultimately show ?thesis
    using update_is_splice [of sample_contents "[sample_chunk]" "lit ''f''"]
    by (simp add: replace_eval sample_contents_def)
qed

text \<open>
  Replacing a block of lines that occurs exactly once at its first exact position replaces
  that block and nothing else: for any text before and after it, the new lines are the old ones
  with the block exchanged.
\<close>
theorem replace_block_exact:
  assumes "olds \<noteq> []" "\<And>j. j < length before \<Longrightarrow> take (length olds) (drop j (before @ olds @ after)) \<noteq> olds"
  shows "compute_replacements (before @ olds @ after) path
      [\<lparr>change_context = None, old_lines = olds, new_lines = news, is_end_of_file = False\<rparr>] =
        Ok [(length before, length olds, news)] \<and>
    apply_replacements (before @ olds @ after) [(length before, length olds, news)] =
      Ok (before @ news @ after)"
proof -
  have "seek_sequence (before @ olds @ after) olds 0 False = Ok (Some (length before))"
    using assms by (intro seek_sequence_prefers_exact_first) auto
  then show ?thesis
    using assms(1)
    by (simp add: compute_replacements_def chunk_replacement_def seek_context_def
        locate_old_lines_def apply_replacements_def replace_one)
qed

theorem replace_block_exact_witness:
  "apply_replacements ([[97]] @ [[98]] @ [[99]]) [(length [[97]], length [[98]], [[120], [121]])] =
   (Ok ([[97]] @ [[120], [121]] @ [[99]]) :: (apply_patch_error, rstr list) outcome)"
  using replace_block_exact [of "[[98]]" "[[97]]" "[[99]]" "lit ''f''" "[[120], [121]]"] by simp

text \<open>
  The new text of an updated file is empty or ends with a line feed, so the file keeps
  POSIX line structure whatever the chunks insert.
\<close>
theorem new_contents_newline_terminated:
  assumes "new_contents_from_chunks contents path chunks = Ok t"
  shows "t = [] \<or> last t = newline"
proof -
  from assms obtain ls where "t = finish_lines ls"
    by (auto simp: new_contents_from_chunks_def outcome_simps Let_def)
  moreover have "join [newline] ls = [] \<or> last (join [newline] ls) = newline"
    if "ls = [[]] \<or> last_is_empty ls" for ls
    using that
  proof (induction ls rule: induct_list012)
    case (3 x y zs)
    then show ?case by (cases zs) (auto simp: last_is_empty_def split: if_splits)
  qed (auto simp: last_is_empty_def)
  ultimately show ?thesis by (auto simp: finish_lines_def last_is_empty_def)
qed

theorem new_contents_newline_terminated_witness:
  "last [97, newline, 120, newline, 121, newline, 99, newline] = newline"
  using new_contents_newline_terminated [of sample_contents "lit ''f''" "[sample_chunk]"
      "[97, newline, 120, newline, 121, newline, 99, newline]"]
  by (simp add: replace_eval sample_contents_def sample_chunk_def)

section \<open>Limits\<close>

text \<open>
  An end-of-file anchor ignores the line index, so a later chunk can match inside the region of an
  earlier one; both chunks are accepted and the second one's new line is lost.
\<close>

lemma eof_chunk_overlaps:
  "new_contents_from_chunks sample_contents (lit ''f'')
     [\<lparr>change_context = None, old_lines = [[98], [99]], new_lines = [[120], [121]], is_end_of_file = False\<rparr>,
      \<lparr>change_context = None, old_lines = [[99]], new_lines = [[122]], is_end_of_file = True\<rparr>] =
   Ok [97, newline, 120, newline, 121, newline]"
  by (simp add: replace_eval sample_contents_def)

text \<open>
  The anchor is also the only position tried: a chunk marked as end of file whose lines occur
  earlier in the file is refused.
\<close>

lemma eof_has_no_fallback:
  "seek_sequence [[97], [98]] [[97]] 0 True = Ok None \<and>
   seek_sequence [[97], [98]] [[97]] 0 False = Ok (Some 0)"
  by (simp add: seek_sequence_def or_else_search_def exact_at_def slice_def upt_rec index_def
      trim_end_def trim_def trim_start_def normalise_def normalise_char_def is_whitespace_def)

text \<open>A pure insertion before a final blank line falls inside a region that ends with that line, and is lost.\<close>

lemma insertion_lost:
  "new_contents_from_chunks [97, newline, newline] (lit ''f'')
     [\<lparr>change_context = None, old_lines = [[97], []], new_lines = [[98], []], is_end_of_file = False\<rparr>,
      \<lparr>change_context = None, old_lines = [], new_lines = [[99]], is_end_of_file = False\<rparr>] =
   Ok [98, newline, newline]"
  by (simp add: replace_eval)

text \<open>
  A file that ends with a blank line loses it in any update, even one that touches another line:
  the line that is empty is taken for the terminating line feed.
\<close>

lemma trailing_blank_line_dropped:
  "new_contents_from_chunks [97, newline, 98, newline, newline] (lit ''f'')
     [\<lparr>change_context = None, old_lines = [[97]], new_lines = [[120]], is_end_of_file = False\<rparr>] =
   Ok [120, newline, 98, newline]"
  by (simp add: replace_eval)

end
