(* ===== verification/Patch_Files.thy ===== *)
theory Patch_Files
  imports Patch_Replace
begin

text \<open>
  Applying hunks to a file system: \<^verbatim>\<open>apply_patch\<close>, \<^verbatim>\<open>apply_hunks\<close>,
  \<^verbatim>\<open>apply_hunks_to_files\<close> and their helpers in \<^verbatim>\<open>codex-rs/apply-patch/src/lib.rs\<close>.

  The trait \<^verbatim>\<open>ExecutorFileSystem\<close> is a record of operations over a file system state \<open>'s\<close>
  (an operation that changes files returns its error, if any, and the new state, since a failed
  operation may have had effects); the sandbox context is part of that record.  Writers are pairs
  of a state and a \<^verbatim>\<open>writeln\<close>.  \<open>resolve\<close> is \<^verbatim>\<open>AbsolutePathBuf::resolve_path_against_base\<close>
  for the current directory and \<open>parent\<close> is \<^verbatim>\<open>AbsolutePathBuf::parent\<close>.

  What the code promises is its \<^verbatim>\<open>AppliedPatchDelta\<close>: the committed changes in order, and whether
  they are exact.  The lemmas show, for a file system in which distinct paths name distinct files,
  that an exact delta really is the difference between the file system before and after, also
  when the patch fails half way, and that it can be undone.
\<close>

section \<open>File system\<close>

record file_metadata =
  is_directory :: bool
  is_file :: bool
  is_symlink :: bool
  created_at_ms :: int
  modified_at_ms :: int

record 's file_system =
  read_file_text :: "'s \<Rightarrow> rstr \<Rightarrow> io_error + rstr"
  get_metadata :: "'s \<Rightarrow> rstr \<Rightarrow> io_error + file_metadata"
  write_file :: "'s \<Rightarrow> rstr \<Rightarrow> rstr \<Rightarrow> io_error option \<times> 's"
  create_directory :: "'s \<Rightarrow> rstr \<Rightarrow> io_error option \<times> 's"
  remove :: "'s \<Rightarrow> rstr \<Rightarrow> io_error option \<times> 's"

section \<open>Deltas and errors\<close>

datatype applied_patch_file_change =
    Add rstr "rstr option"
  | Delete rstr
  | Update "rstr option" rstr "rstr option" rstr

record applied_patch_change =
  change_path :: rstr
  change :: applied_patch_file_change

record applied_patch_delta =
  changes :: "applied_patch_change list"
  exact :: bool

definition empty_delta :: applied_patch_delta where
  "empty_delta = \<lparr>changes = [], exact = True\<rparr>"

definition delta_append :: "applied_patch_delta \<Rightarrow> applied_patch_delta \<Rightarrow> applied_patch_delta" where
  "delta_append d other = \<lparr>changes = changes d @ changes other, exact = (exact d \<and> exact other)\<rparr>"

definition push_change_delta :: "rstr \<Rightarrow> applied_patch_file_change \<Rightarrow> applied_patch_delta \<Rightarrow> applied_patch_delta" where
  "push_change_delta path c d = d\<lparr>changes := changes d @ [\<lparr>change_path = path, change = c\<rparr>]\<rparr>"

text \<open>
  An \<^verbatim>\<open>anyhow::Error\<close> of this code is a message, an \<^verbatim>\<open>io::Error\<close> under a context, or a
  converted \<^verbatim>\<open>ApplyPatchError\<close>; its text is that of the outermost layer.
\<close>

datatype anyhow_error =
    Message rstr
  | IoWithContext rstr io_error
  | FromPatchError apply_patch_error

fun display_parse_error :: "parse_error \<Rightarrow> rstr" where
  "display_parse_error (InvalidPatchError msg) = lit ''invalid patch: '' @ msg"
| "display_parse_error (InvalidHunkError msg ln) =
     lit ''invalid hunk at line '' @ decimal ln @ lit '', '' @ msg"

fun display_patch_error :: "apply_patch_error \<Rightarrow> rstr" where
  "display_patch_error (ParseError e) = display_parse_error e"
| "display_patch_error (IoError ctx e) = ctx @ lit '': '' @ error_text e"
| "display_patch_error (ComputeReplacements msg) = msg"
| "display_patch_error ImplicitInvocation =
     lit ''patch detected without explicit call to apply_patch. Rerun as ['' @ [34] @ lit ''apply_patch'' @ [34] @
     lit '', '' @ [34] @ lit ''<patch>'' @ [34] @ lit '']''"

fun display_anyhow :: "anyhow_error \<Rightarrow> rstr" where
  "display_anyhow (Message msg) = msg"
| "display_anyhow (IoWithContext ctx e) = ctx"
| "display_anyhow (FromPatchError e) = display_patch_error e"

text \<open>\<^verbatim>\<open>From<io::Error>\<close> and \<^verbatim>\<open>From<&io::Error>\<close>.\<close>

definition io_to_patch_error :: "io_error \<Rightarrow> apply_patch_error" where
  "io_to_patch_error e = IoError (lit ''I/O error'') e"

record apply_patch_failure =
  failure_error :: apply_patch_error
  failure_delta :: applied_patch_delta

record affected_paths =
  added :: "rstr list"
  modified :: "rstr list"
  deleted :: "rstr list"

section \<open>Helpers\<close>

definition ensure_not_directory :: "'s file_system \<Rightarrow> 's \<Rightarrow> rstr \<Rightarrow> io_error option" where
  "ensure_not_directory fs s path =
     (case get_metadata fs s path of
        Inl e \<Rightarrow> Some e
      | Inr metadata \<Rightarrow>
          if is_directory metadata
          then Some \<lparr>kind = InvalidInput, error_text = lit ''path is a directory''\<rparr> else None)"

definition remove_failure_was_side_effect_free ::
  "'s file_system \<Rightarrow> 's \<Rightarrow> rstr \<Rightarrow> rstr option \<Rightarrow> bool" where
  "remove_failure_was_side_effect_free fs s path expected_content =
     (case expected_content of
        Some expected \<Rightarrow>
          (case read_file_text fs s path of Inr content \<Rightarrow> content = expected | Inl _ \<Rightarrow> False)
      | None \<Rightarrow> False)"

text \<open>The new value of \<^verbatim>\<open>exact\<close>.\<close>

definition note_existing_path_delta_support :: "'s file_system \<Rightarrow> 's \<Rightarrow> rstr \<Rightarrow> bool \<Rightarrow> bool" where
  "note_existing_path_delta_support fs s path ex =
     (case get_metadata fs s path of
        Inr metadata \<Rightarrow> if is_file metadata \<and> \<not> is_symlink metadata then ex else False
      | Inl source \<Rightarrow> if kind source = NotFound then ex else False)"

definition read_optional_file_text_for_delta ::
  "'s file_system \<Rightarrow> 's \<Rightarrow> rstr \<Rightarrow> bool \<Rightarrow> rstr option \<times> bool" where
  "read_optional_file_text_for_delta fs s path ex =
     (let ex = note_existing_path_delta_support fs s path ex in
      case read_file_text fs s path of
        Inr content \<Rightarrow> (Some content, ex)
      | Inl source \<Rightarrow> if kind source = NotFound then (None, ex) else (None, False))"

definition failed_message :: "string \<Rightarrow> rstr \<Rightarrow> rstr" where
  "failed_message what path = lit ''Failed to '' @ lit what @ [32] @ path"

definition write_file_with_missing_parent_retry ::
  "'s file_system \<Rightarrow> (rstr \<Rightarrow> rstr option) \<Rightarrow> 's \<Rightarrow> rstr \<Rightarrow> rstr \<Rightarrow> anyhow_error option \<times> 's" where
  "write_file_with_missing_parent_retry fs parent s path_abs contents =
     (case write_file fs s path_abs contents of
        (None, s1) \<Rightarrow> (None, s1)
      | (Some err, s1) \<Rightarrow>
          if kind err = NotFound then
            (case (case parent path_abs of
                     Some parent_abs \<Rightarrow> create_directory fs s1 parent_abs
                   | None \<Rightarrow> (None, s1)) of
               (Some e, s2) \<Rightarrow>
                 (Some (IoWithContext (failed_message ''create parent directories for'' path_abs) e), s2)
             | (None, s2) \<Rightarrow>
                 (case write_file fs s2 path_abs contents of
                    (None, s3) \<Rightarrow> (None, s3)
                  | (Some e, s3) \<Rightarrow> (Some (IoWithContext (failed_message ''write file'' path_abs) e), s3)))
          else (Some (IoWithContext (failed_message ''write file'' path_abs) err), s1))"

definition derive_new_contents_from_chunks ::
  "'s file_system \<Rightarrow> 's \<Rightarrow> rstr \<Rightarrow> update_file_chunk list \<Rightarrow> (apply_patch_error, rstr \<times> rstr) outcome" where
  "derive_new_contents_from_chunks fs s path_abs chunks =
     (case read_file_text fs s path_abs of
        Inl err \<Rightarrow> Err (IoError (failed_message ''read file to update'' path_abs) err)
      | Inr original_contents \<Rightarrow>
          and_then (new_contents_from_chunks original_contents path_abs chunks) (\<lambda>new_contents.
            Ok (original_contents, new_contents)))"

section \<open>Hunks\<close>

type_synonym 's run = "(anyhow_error, affected_paths) outcome \<times> applied_patch_delta \<times> 's"

definition apply_add ::
  "'s file_system \<Rightarrow> (rstr \<Rightarrow> rstr option) \<Rightarrow> rstr \<Rightarrow> rstr \<Rightarrow> rstr \<Rightarrow>
   affected_paths \<Rightarrow> applied_patch_delta \<Rightarrow> 's \<Rightarrow> 's run" where
  "apply_add fs parent affected_path path_abs contents aff d s =
     (let (overwritten_content, ex) = read_optional_file_text_for_delta fs s path_abs (exact d);
          d = d\<lparr>exact := ex\<rparr>
      in case write_file_with_missing_parent_retry fs parent s path_abs contents of
           (Some e, s1) \<Rightarrow> (Err e, d\<lparr>exact := False\<rparr>, s1)
         | (None, s1) \<Rightarrow>
             (Ok (aff\<lparr>added := added aff @ [affected_path]\<rparr>),
              push_change_delta path_abs (Add contents overwritten_content) d, s1))"

definition apply_delete ::
  "'s file_system \<Rightarrow> rstr \<Rightarrow> rstr \<Rightarrow> affected_paths \<Rightarrow> applied_patch_delta \<Rightarrow> 's \<Rightarrow> 's run" where
  "apply_delete fs affected_path path_abs aff d s =
     (let d = d\<lparr>exact := note_existing_path_delta_support fs s path_abs (exact d)\<rparr>;
          deleted_content = (case read_file_text fs s path_abs of Inr t \<Rightarrow> Some t | Inl _ \<Rightarrow> None);
          d = (if deleted_content = None then d\<lparr>exact := False\<rparr> else d)
      in case ensure_not_directory fs s path_abs of
           Some e \<Rightarrow> (Err (IoWithContext (failed_message ''delete file'' path_abs) e), d, s)
         | None \<Rightarrow>
             (case remove fs s path_abs of
                (Some e, s1) \<Rightarrow>
                  (Err (IoWithContext (failed_message ''delete file'' path_abs) e),
                   d\<lparr>exact := (exact d \<and> remove_failure_was_side_effect_free fs s1 path_abs deleted_content)\<rparr>, s1)
              | (None, s1) \<Rightarrow>
                  (Ok (aff\<lparr>deleted := deleted aff @ [affected_path]\<rparr>),
                   (case deleted_content of
                      Some content \<Rightarrow> push_change_delta path_abs (Delete content) d
                    | None \<Rightarrow> d), s1)))"

text \<open>The move of an update hunk, once the new contents are known.\<close>

definition apply_move ::
  "'s file_system \<Rightarrow> (rstr \<Rightarrow> rstr option) \<Rightarrow> rstr \<Rightarrow> rstr \<Rightarrow> rstr \<Rightarrow> rstr \<Rightarrow> rstr \<Rightarrow>
   affected_paths \<Rightarrow> applied_patch_delta \<Rightarrow> 's \<Rightarrow> 's run" where
  "apply_move fs parent affected_path path_abs dest_abs original_contents new_contents aff d s =
     (let (overwritten_move_content, ex) = read_optional_file_text_for_delta fs s dest_abs (exact d);
          d = d\<lparr>exact := ex\<rparr>
      in case write_file_with_missing_parent_retry fs parent s dest_abs new_contents of
           (Some e, s1) \<Rightarrow> (Err e, d\<lparr>exact := False\<rparr>, s1)
         | (None, s1) \<Rightarrow>
             (let dest_write_change_index = length (changes d);
                  d = push_change_delta dest_abs (Add new_contents overwritten_move_content) d
              in case ensure_not_directory fs s1 path_abs of
                   Some e \<Rightarrow> (Err (IoWithContext (failed_message ''remove original'' path_abs) e), d, s1)
                 | None \<Rightarrow>
                     (case remove fs s1 path_abs of
                        (Some e, s2) \<Rightarrow>
                          (Err (IoWithContext (failed_message ''remove original'' path_abs) e),
                           d\<lparr>exact := (exact d \<and>
                               remove_failure_was_side_effect_free fs s2 path_abs (Some original_contents))\<rparr>, s2)
                      | (None, s2) \<Rightarrow>
                          (Ok (aff\<lparr>modified := modified aff @ [affected_path]\<rparr>),
                           d\<lparr>changes := (changes d)[dest_write_change_index :=
                               \<lparr>change_path = path_abs,
                                change = Update (Some dest_abs) original_contents
                                           overwritten_move_content new_contents\<rparr>]\<rparr>, s2))))"

definition apply_update ::
  "'s file_system \<Rightarrow> (rstr \<Rightarrow> rstr option) \<Rightarrow> (rstr \<Rightarrow> rstr) \<Rightarrow> rstr \<Rightarrow> rstr \<Rightarrow> rstr option \<Rightarrow>
   update_file_chunk list \<Rightarrow> affected_paths \<Rightarrow> applied_patch_delta \<Rightarrow> 's \<Rightarrow> 's run" where
  "apply_update fs parent resolve affected_path path_abs move_path chunks aff d s =
     (let d = d\<lparr>exact := note_existing_path_delta_support fs s path_abs (exact d)\<rparr> in
      case derive_new_contents_from_chunks fs s path_abs chunks of
        Err e \<Rightarrow> (Err (FromPatchError e), d, s)
      | Panic \<Rightarrow> (Panic, d, s)
      | Ok (original_contents, new_contents) \<Rightarrow>
          (case move_path of
             Some dest \<Rightarrow>
               apply_move fs parent affected_path path_abs (resolve dest) original_contents new_contents aff d s
           | None \<Rightarrow>
               (case write_file fs s path_abs new_contents of
                  (Some e, s1) \<Rightarrow>
                    (Err (IoWithContext (failed_message ''write file'' path_abs) e), d\<lparr>exact := False\<rparr>, s1)
                | (None, s1) \<Rightarrow>
                    (Ok (aff\<lparr>modified := modified aff @ [affected_path]\<rparr>),
                     push_change_delta path_abs (Update None original_contents None new_contents) d, s1))))"

text \<open>\<^verbatim>\<open>Hunk::resolve_path\<close> resolves the file a hunk reads, \<^verbatim>\<open>Hunk::path\<close> names its destination.\<close>

fun resolve_path :: "(rstr \<Rightarrow> rstr) \<Rightarrow> hunk \<Rightarrow> rstr" where
  "resolve_path resolve (UpdateFile path move_path chunks) = resolve path"
| "resolve_path resolve h = resolve (hunk_path h)"

fun apply_hunk ::
  "'s file_system \<Rightarrow> (rstr \<Rightarrow> rstr option) \<Rightarrow> (rstr \<Rightarrow> rstr) \<Rightarrow> hunk \<Rightarrow>
   affected_paths \<Rightarrow> applied_patch_delta \<Rightarrow> 's \<Rightarrow> 's run" where
  "apply_hunk fs parent resolve (AddFile path contents) =
     apply_add fs parent (hunk_path (AddFile path contents))
       (resolve_path resolve (AddFile path contents)) contents"
| "apply_hunk fs parent resolve (DeleteFile path) =
     apply_delete fs (hunk_path (DeleteFile path)) (resolve_path resolve (DeleteFile path))"
| "apply_hunk fs parent resolve (UpdateFile path move_path chunks) =
     apply_update fs parent resolve (hunk_path (UpdateFile path move_path chunks))
       (resolve_path resolve (UpdateFile path move_path chunks)) move_path chunks"

fun apply_hunk_loop ::
  "'s file_system \<Rightarrow> (rstr \<Rightarrow> rstr option) \<Rightarrow> (rstr \<Rightarrow> rstr) \<Rightarrow> hunk list \<Rightarrow>
   affected_paths \<Rightarrow> applied_patch_delta \<Rightarrow> 's \<Rightarrow> 's run" where
  "apply_hunk_loop fs parent resolve [] aff d s = (Ok aff, d, s)"
| "apply_hunk_loop fs parent resolve (h # hs) aff d s =
     (case apply_hunk fs parent resolve h aff d s of
        (Ok aff, d, s) \<Rightarrow> apply_hunk_loop fs parent resolve hs aff d s
      | (Err e, d, s) \<Rightarrow> (Err e, d, s)
      | (Panic, d, s) \<Rightarrow> (Panic, d, s))"

definition no_affected :: affected_paths where
  "no_affected = \<lparr>added = [], modified = [], deleted = []\<rparr>"

definition apply_hunks_to_files ::
  "'s file_system \<Rightarrow> (rstr \<Rightarrow> rstr option) \<Rightarrow> (rstr \<Rightarrow> rstr) \<Rightarrow> hunk list \<Rightarrow>
   applied_patch_delta \<Rightarrow> 's \<Rightarrow> 's run" where
  "apply_hunks_to_files fs parent resolve hs d s =
     (if hs = [] then (Err (Message (lit ''No files were modified.'')), d, s)
      else apply_hunk_loop fs parent resolve hs no_affected d s)"

section \<open>Output\<close>

type_synonym 'w writer = "'w \<Rightarrow> rstr \<Rightarrow> io_error option \<times> 'w"

fun write_lines :: "'w writer \<Rightarrow> 'w \<Rightarrow> rstr list \<Rightarrow> io_error option \<times> 'w" where
  "write_lines writeln w [] = (None, w)"
| "write_lines writeln w (l # ls) =
     (case writeln w l of (Some e, w) \<Rightarrow> (Some e, w) | (None, w) \<Rightarrow> write_lines writeln w ls)"

definition print_summary :: "'w writer \<Rightarrow> affected_paths \<Rightarrow> 'w \<Rightarrow> io_error option \<times> 'w" where
  "print_summary writeln aff w =
     write_lines writeln w
       (lit ''Success. Updated the following files:'' #
        map (\<lambda>p. lit ''A '' @ p) (added aff) @ map (\<lambda>p. lit ''M '' @ p) (modified aff) @
        map (\<lambda>p. lit ''D '' @ p) (deleted aff))"

text \<open>The result, the two writers and the file system at the end.\<close>

type_synonym ('w, 's) applied = "(apply_patch_failure, applied_patch_delta) outcome \<times> 'w \<times> 'w \<times> 's"

definition apply_hunks ::
  "'s file_system \<Rightarrow> (rstr \<Rightarrow> rstr option) \<Rightarrow> (rstr \<Rightarrow> rstr) \<Rightarrow> 'w writer \<Rightarrow> hunk list \<Rightarrow>
   'w \<Rightarrow> 'w \<Rightarrow> 's \<Rightarrow> ('w, 's) applied" where
  "apply_hunks fs parent resolve writeln hs stdout stderr s =
     (case apply_hunks_to_files fs parent resolve hs empty_delta s of
        (Ok affected, d, s) \<Rightarrow>
          (case print_summary writeln affected stdout of
             (None, stdout) \<Rightarrow> (Ok d, stdout, stderr, s)
           | (Some e, stdout) \<Rightarrow>
               (Err \<lparr>failure_error = io_to_patch_error e, failure_delta = d\<rparr>, stdout, stderr, s))
      | (Err error, d, s) \<Rightarrow>
          (let msg = display_anyhow error in
           case writeln stderr msg of
             (Some e, stderr) \<Rightarrow>
               (Err \<lparr>failure_error = io_to_patch_error e, failure_delta = d\<rparr>, stdout, stderr, s)
           | (None, stderr) \<Rightarrow>
               (let error' = (case error of
                                IoWithContext ctx io \<Rightarrow> io_to_patch_error io
                              | _ \<Rightarrow> IoError msg \<lparr>kind = OtherError, error_text = msg\<rparr>)
                in (Err \<lparr>failure_error = error', failure_delta = d\<rparr>, stdout, stderr, s)))
      | (Panic, d, s) \<Rightarrow> (Panic, stdout, stderr, s))"

definition apply_patch ::
  "'s file_system \<Rightarrow> (rstr \<Rightarrow> rstr option) \<Rightarrow> (rstr \<Rightarrow> rstr) \<Rightarrow> 'w writer \<Rightarrow> rstr \<Rightarrow>
   'w \<Rightarrow> 'w \<Rightarrow> 's \<Rightarrow> ('w, 's) applied" where
  "apply_patch fs parent resolve writeln patch stdout stderr s =
     (case parse_patch patch of
        Ok source \<Rightarrow> apply_hunks fs parent resolve writeln (args_hunks source) stdout stderr s
      | Err e \<Rightarrow>
          (let line = (case e of
                         InvalidPatchError msg \<Rightarrow> lit ''Invalid patch: '' @ msg
                       | InvalidHunkError msg ln \<Rightarrow>
                           lit ''Invalid patch hunk on line '' @ decimal ln @ lit '': '' @ msg)
           in case writeln stderr line of
                (Some io, stderr) \<Rightarrow>
                  (Err \<lparr>failure_error = io_to_patch_error io, failure_delta = empty_delta\<rparr>, stdout, stderr, s)
              | (None, stderr) \<Rightarrow>
                  (Err \<lparr>failure_error = ParseError e, failure_delta = empty_delta\<rparr>, stdout, stderr, s))
      | Panic \<Rightarrow> (Panic, stdout, stderr, s))"

section \<open>What is relied on of the file system\<close>

text \<open>The text files of a state, as the code can read them.\<close>

definition text_view :: "'s file_system \<Rightarrow> 's \<Rightarrow> rstr \<Rightarrow> rstr option" where
  "text_view fs s p = (case read_file_text fs s p of Inr t \<Rightarrow> Some t | Inl _ \<Rightarrow> None)"

text \<open>
  The behaviour of an \<^verbatim>\<open>ExecutorFileSystem\<close> without links between the paths of the patch: a
  successful write sets its file and no other, a write that fails because a directory is missing
  and the creation of directories change no file, a successful removal removes its file and no
  other, and a failed removal leaves its file as it was or removes it.
\<close>

definition lawful :: "'s file_system \<Rightarrow> bool" where
  "lawful fs \<longleftrightarrow>
     (\<forall>s p t s'. write_file fs s p t = (None, s') \<longrightarrow> text_view fs s' = (text_view fs s)(p \<mapsto> t)) \<and>
     (\<forall>s p t e s'. write_file fs s p t = (Some e, s') \<longrightarrow> kind e = NotFound \<longrightarrow> text_view fs s' = text_view fs s) \<and>
     (\<forall>s p r s'. create_directory fs s p = (r, s') \<longrightarrow> text_view fs s' = text_view fs s) \<and>
     (\<forall>s p s'. remove fs s p = (None, s') \<longrightarrow> text_view fs s' = (text_view fs s)(p := None)) \<and>
     (\<forall>s p e s'. remove fs s p = (Some e, s') \<longrightarrow>
        text_view fs s' = text_view fs s \<or> text_view fs s' = (text_view fs s)(p := None))"

lemma lawfulD:
  assumes "lawful fs"
  shows "write_file fs s p t = (None, s') \<Longrightarrow> text_view fs s' = (text_view fs s)(p \<mapsto> t)"
    "write_file fs s p t = (Some e, s') \<Longrightarrow> kind e = NotFound \<Longrightarrow> text_view fs s' = text_view fs s"
    "create_directory fs s p = (r, s') \<Longrightarrow> text_view fs s' = text_view fs s"
    "remove fs s p = (None, s') \<Longrightarrow> text_view fs s' = (text_view fs s)(p := None)"
    "remove fs s p = (Some e, s') \<Longrightarrow>
       text_view fs s' = text_view fs s \<or> text_view fs s' = (text_view fs s)(p := None)"
  using assms unfolding lawful_def by blast+

lemma write_retry_view:
  assumes "lawful fs" "write_file_with_missing_parent_retry fs parent s p t = (None, s')"
  shows "text_view fs s' = (text_view fs s)(p \<mapsto> t)"
  using assms(2)
  by (auto simp: write_file_with_missing_parent_retry_def lawfulD(1) [OF assms(1)]
      lawfulD(2) [OF assms(1)] lawfulD(3) [OF assms(1)]
      split: prod.splits option.splits if_splits)

section \<open>Replaying and undoing a delta\<close>

fun replay_change :: "applied_patch_file_change \<Rightarrow> rstr \<Rightarrow> (rstr \<rightharpoonup> rstr) \<Rightarrow> (rstr \<rightharpoonup> rstr)" where
  "replay_change (Add content overwritten) p m = m(p \<mapsto> content)"
| "replay_change (Delete content) p m = m(p := None)"
| "replay_change (Update None old overwritten new) p m = m(p \<mapsto> new)"
| "replay_change (Update (Some dest) old overwritten new) p m = m(dest \<mapsto> new, p := None)"

fun undo_change :: "applied_patch_file_change \<Rightarrow> rstr \<Rightarrow> (rstr \<rightharpoonup> rstr) \<Rightarrow> (rstr \<rightharpoonup> rstr)" where
  "undo_change (Add content overwritten) p m = m(p := overwritten)"
| "undo_change (Delete content) p m = m(p \<mapsto> content)"
| "undo_change (Update None old overwritten new) p m = m(p \<mapsto> old)"
| "undo_change (Update (Some dest) old overwritten new) p m = m(p \<mapsto> old, dest := overwritten)"

definition replay :: "applied_patch_change list \<Rightarrow> (rstr \<rightharpoonup> rstr) \<Rightarrow> (rstr \<rightharpoonup> rstr)" where
  "replay cs m = fold (\<lambda>c. replay_change (change c) (change_path c)) cs m"

definition undo :: "applied_patch_change list \<Rightarrow> (rstr \<rightharpoonup> rstr) \<Rightarrow> (rstr \<rightharpoonup> rstr)" where
  "undo cs m = foldr (\<lambda>c. undo_change (change c) (change_path c)) cs m"

text \<open>Every change of a list tells what was there before it.\<close>

fun truthful :: "applied_patch_change list \<Rightarrow> (rstr \<rightharpoonup> rstr) \<Rightarrow> bool" where
  "truthful [] v = True"
| "truthful (c # cs) v \<longleftrightarrow>
     undo_change (change c) (change_path c) (replay_change (change c) (change_path c) v) = v \<and>
     truthful cs (replay_change (change c) (change_path c) v)"

lemma replay_simps [simp]:
  "replay [] v = v" "replay (c # cs) v = replay cs (replay_change (change c) (change_path c) v)"
  "replay (cs @ ds) v = replay ds (replay cs v)"
  by (simp_all add: replay_def)

lemma truthful_append: "truthful (cs @ ds) v \<longleftrightarrow> truthful cs v \<and> truthful ds (replay cs v)"
  by (induction cs arbitrary: v) auto

lemma truthful_undo: "truthful cs v \<Longrightarrow> undo cs (replay cs v) = v"
  by (induction cs arbitrary: v) (auto simp: undo_def)

text \<open>The delta accounts for the way from the files \<open>v\<close> to the state \<open>s\<close>.\<close>

definition accounts :: "'s file_system \<Rightarrow> (rstr \<rightharpoonup> rstr) \<Rightarrow> applied_patch_delta \<Rightarrow> 's \<Rightarrow> bool" where
  "accounts fs v d s \<longleftrightarrow> (exact d \<longrightarrow> text_view fs s = replay (changes d) v \<and> truthful (changes d) v)"

lemma accounts_empty: "accounts fs (text_view fs s) empty_delta s"
  by (simp add: accounts_def empty_delta_def)

text \<open>One more committed change.\<close>

lemma accounts_push:
  assumes "accounts fs v d s" "exact d' \<Longrightarrow> exact d" "changes d' = changes d"
    "exact d' \<Longrightarrow> text_view fs s' = replay_change c p (text_view fs s)"
    "exact d' \<Longrightarrow> undo_change c p (text_view fs s') = text_view fs s"
  shows "accounts fs v (push_change_delta p c d') s'"
  using assms by (auto simp: accounts_def push_change_delta_def truthful_append)

lemma accounts_same:
  assumes "accounts fs v d s" "exact d' \<Longrightarrow> exact d \<and> text_view fs s' = text_view fs s" "changes d' = changes d"
  shows "accounts fs v d' s'"
  using assms by (auto simp: accounts_def)

lemma note_exact: "note_existing_path_delta_support fs s p ex \<Longrightarrow> ex"
  by (auto simp: note_existing_path_delta_support_def split: sum.splits if_splits)

lemma read_optional_exact:
  "read_optional_file_text_for_delta fs s p ex = (ov, ex') \<Longrightarrow> ex' \<Longrightarrow> ex \<and> ov = text_view fs s p"
  by (auto simp: read_optional_file_text_for_delta_def text_view_def Let_def
      split: sum.splits if_splits dest: note_exact)

lemma remove_free_view:
  "remove_failure_was_side_effect_free fs s p (Some t) \<longleftrightarrow> text_view fs s p = Some t"
  by (auto simp: remove_failure_was_side_effect_free_def text_view_def split: sum.splits)

section \<open>Every hunk keeps the account\<close>

lemma apply_add_accounts:
  assumes "lawful fs" "accounts fs v d s" "apply_add fs parent ap p c aff d s = (r, d', s')"
  shows "accounts fs v d' s'"
proof -
  obtain ov ex where ov: "read_optional_file_text_for_delta fs s p (exact d) = (ov, ex)" by force
  obtain w s1 where w: "write_file_with_missing_parent_retry fs parent s p c = (w, s1)" by force
  show ?thesis
  proof (cases w)
    case None
    then have "d' = push_change_delta p (Add c ov) (d\<lparr>exact := ex\<rparr>)" "s' = s1"
      using assms(3) by (auto simp: apply_add_def ov w)
    moreover have "accounts fs v (push_change_delta p (Add c ov) (d\<lparr>exact := ex\<rparr>)) s1"
      using read_optional_exact [OF ov] write_retry_view [OF assms(1)] w None
      by (intro accounts_push [OF assms(2)]) auto
    ultimately show ?thesis by simp
  next
    case (Some e)
    then have "\<not> exact d'" using assms(3) by (auto simp: apply_add_def ov w)
    then show ?thesis by (simp add: accounts_def)
  qed
qed

lemma apply_delete_accounts:
  assumes "lawful fs" "accounts fs v d s" "apply_delete fs ap p aff d s = (r, d', s')"
  shows "accounts fs v d' s'"
proof (cases "exact d'")
  case False
  then show ?thesis by (simp add: accounts_def)
next
  case True
  let ?d = "d\<lparr>exact := note_existing_path_delta_support fs s p (exact d)\<rparr>"
  obtain t where t: "read_file_text fs s p = Inr t"
  proof (cases "read_file_text fs s p")
    case (Inl e)
    with True assms(3) have False
      by (auto simp: apply_delete_def Let_def split: option.splits prod.splits)
    then show ?thesis ..
  qed
  then have view: "text_view fs s p = Some t" by (simp add: text_view_def)
  obtain x s1 where x: "remove fs s p = (x, s1)" by force
  show ?thesis
  proof (cases "ensure_not_directory fs s p")
    case (Some e)
    then have "d' = ?d" "s' = s" using assms(3) by (auto simp: apply_delete_def Let_def t)
    then show ?thesis by (intro accounts_same [OF assms(2)]) (auto dest: note_exact)
  next
    case dir: None
    show ?thesis
    proof (cases x)
      case None
      then have "d' = push_change_delta p (Delete t) ?d" "s' = s1"
        using assms(3) by (simp_all add: apply_delete_def Let_def t dir x)
      moreover have "accounts fs v (push_change_delta p (Delete t) ?d) s1"
        using lawfulD(4) [OF assms(1), of s p s1] x None view
        by (intro accounts_push [OF assms(2)]) (auto dest: note_exact)
      ultimately show ?thesis by simp
    next
      case (Some e)
      then have d': "d' = ?d\<lparr>exact := (exact ?d \<and> remove_failure_was_side_effect_free fs s1 p (Some t))\<rparr>" "s' = s1"
        using assms(3) by (auto simp: apply_delete_def Let_def t dir x)
      then have "text_view fs s1 = text_view fs s" if "exact d'"
        using that lawfulD(5) [OF assms(1), of s p e s1] x Some view by (auto simp: remove_free_view)
      with d' show ?thesis by (intro accounts_same [OF assms(2)]) (auto dest: note_exact)
    qed
  qed
qed

lemma apply_move_accounts:
  assumes "lawful fs" "accounts fs v d s" "text_view fs s p = Some old"
    "apply_move fs parent ap p dest old new aff d s = (r, d', s')"
  shows "accounts fs v d' s'"
proof -
  obtain ov ex where ov: "read_optional_file_text_for_delta fs s dest (exact d) = (ov, ex)" by force
  obtain w s1 where w: "write_file_with_missing_parent_retry fs parent s dest new = (w, s1)" by force
  obtain x s2 where x: "remove fs s1 p = (x, s2)" by force
  let ?d = "d\<lparr>exact := ex\<rparr>"
  let ?d1 = "push_change_delta dest (Add new ov) ?d"
  consider e where "w = Some e" "\<not> exact d'"
    | "w = None" "d' = ?d1" "s' = s1"
    | e where "w = None" "x = Some e" "s' = s2"
        "d' = ?d1\<lparr>exact := (ex \<and> remove_failure_was_side_effect_free fs s2 p (Some old))\<rparr>"
    | "w = None" "x = None" "s' = s2" "d' = push_change_delta p (Update (Some dest) old ov new) ?d"
    using assms(4)
    by (cases w; cases "ensure_not_directory fs s1 p"; cases x)
      (auto simp: apply_move_def ov w x Let_def push_change_delta_def)
  then show ?thesis
  proof cases
    case 1
    then show ?thesis by (simp add: accounts_def)
  next
    case 2
    then have "accounts fs v ?d1 s1"
      using read_optional_exact [OF ov] write_retry_view [OF assms(1)] w
      by (intro accounts_push [OF assms(2)]) auto
    with 2 show ?thesis by simp
  next
    case (3 e)
    then have w1: "text_view fs s1 = (text_view fs s)(dest \<mapsto> new)"
      using write_retry_view [OF assms(1)] w by simp
    have same: "text_view fs s2 = text_view fs s1" if "exact d'"
      using that 3 lawfulD(5) [OF assms(1), of s1 p e s2] x by (auto simp: remove_free_view)
    have "accounts fs v ?d1 s1"
      using read_optional_exact [OF ov] w1 by (intro accounts_push [OF assms(2)]) auto
    then show ?thesis
      by (rule accounts_same) (use 3 same in \<open>auto simp: push_change_delta_def\<close>)
  next
    case 4
    then have "text_view fs s2 = (text_view fs s)(dest \<mapsto> new, p := None)"
      using write_retry_view [OF assms(1)] w lawfulD(4) [OF assms(1)] x by simp
    then have "accounts fs v (push_change_delta p (Update (Some dest) old ov new) ?d) s2"
      using read_optional_exact [OF ov] assms(3) by (intro accounts_push [OF assms(2)]) auto
    with 4 show ?thesis by simp
  qed
qed

lemma derive_Ok:
  "derive_new_contents_from_chunks fs s p cs = Ok (old, new) \<longleftrightarrow>
   text_view fs s p = Some old \<and> new_contents_from_chunks old p cs = Ok new"
  by (auto simp: derive_new_contents_from_chunks_def text_view_def outcome_simps split: sum.splits)

lemma apply_update_accounts:
  assumes "lawful fs" "accounts fs v d s"
    "apply_update fs parent resolve ap p m cs aff d s = (r, d', s')"
  shows "accounts fs v d' s'"
proof -
  let ?d = "d\<lparr>exact := note_existing_path_delta_support fs s p (exact d)\<rparr>"
  have d: "accounts fs v ?d s" by (rule accounts_same [OF assms(2)]) (auto dest: note_exact)
  show ?thesis
  proof (cases "derive_new_contents_from_chunks fs s p cs")
    case (Ok on)
    obtain old new where on: "on = (old, new)" by (cases on)
    with Ok have old: "text_view fs s p = Some old" by (simp add: derive_Ok)
    show ?thesis
    proof (cases m)
      case (Some dest)
      with assms(3) have "apply_move fs parent ap p (resolve dest) old new aff ?d s = (r, d', s')"
        by (simp add: apply_update_def Let_def Ok on)
      then show ?thesis by (rule apply_move_accounts [OF assms(1) d old])
    next
      case None
      obtain w s1 where w: "write_file fs s p new = (w, s1)" by force
      show ?thesis
      proof (cases w)
        case (Some e)
        then have "\<not> exact d'" using assms(3) by (auto simp: apply_update_def Let_def Ok on None w)
        then show ?thesis by (simp add: accounts_def)
      next
        case w': None
        then have "d' = push_change_delta p (Update None old None new) ?d" "s' = s1"
          using assms(3) by (auto simp: apply_update_def Let_def Ok on None w)
        moreover have "accounts fs v (push_change_delta p (Update None old None new) ?d) s1"
          using lawfulD(1) [OF assms(1), of s p new s1] w w' old by (intro accounts_push [OF d]) auto
        ultimately show ?thesis by simp
      qed
    qed
  qed (use assms(3) d in \<open>auto simp: apply_update_def Let_def\<close>)
qed

lemma apply_hunk_accounts:
  "lawful fs \<Longrightarrow> accounts fs v d s \<Longrightarrow> apply_hunk fs parent resolve h aff d s = (r, d', s') \<Longrightarrow>
   accounts fs v d' s'"
  by (cases h) (auto dest: apply_add_accounts apply_delete_accounts apply_update_accounts)

lemma apply_hunk_loop_accounts:
  "lawful fs \<Longrightarrow> accounts fs v d s \<Longrightarrow> apply_hunk_loop fs parent resolve hs aff d s = (r, d', s') \<Longrightarrow>
   accounts fs v d' s'"
proof (induction hs arbitrary: aff d s)
  case (Cons h hs)
  obtain r1 d1 s1 where h: "apply_hunk fs parent resolve h aff d s = (r1, d1, s1)" by (metis prod_cases3)
  with Cons.prems have "accounts fs v d1 s1" by (blast intro: apply_hunk_accounts)
  with Cons h show ?case by (cases r1) auto
qed simp

lemma apply_hunks_to_files_accounts:
  assumes "lawful fs" "apply_hunks_to_files fs parent resolve hs empty_delta s = (r, d', s')"
  shows "accounts fs (text_view fs s) d' s'"
  using assms accounts_empty [of fs s]
  by (auto simp: apply_hunks_to_files_def split: if_splits intro: apply_hunk_loop_accounts)

section \<open>No panic\<close>

lemma derive_no_panic: "derive_new_contents_from_chunks fs s p cs \<noteq> Panic"
  by (auto simp: derive_new_contents_from_chunks_def outcome_simps new_contents_not_Panic split: sum.splits)

lemma apply_hunk_no_panic: "fst (apply_hunk fs parent resolve h aff d s) \<noteq> Panic"
  by (cases h)
    (auto simp: apply_add_def apply_delete_def apply_update_def apply_move_def Let_def derive_no_panic
      split: prod.splits option.splits outcome.splits)

lemma apply_hunk_loop_no_panic: "fst (apply_hunk_loop fs parent resolve hs aff d s) \<noteq> Panic"
proof (induction hs arbitrary: aff d s)
  case (Cons h hs)
  then show ?case
    using apply_hunk_no_panic [of fs parent resolve h aff d s]
    by (auto split: prod.splits outcome.splits)
qed simp

lemma apply_hunks_to_files_no_panic: "fst (apply_hunks_to_files fs parent resolve hs d s) \<noteq> Panic"
  by (simp add: apply_hunks_to_files_def apply_hunk_loop_no_panic)

section \<open>The account of a whole patch\<close>

text \<open>The delta a result carries: \<^verbatim>\<open>Ok(delta)\<close> or \<^verbatim>\<open>ApplyPatchFailure::delta\<close>.\<close>

fun result_delta :: "(apply_patch_failure, applied_patch_delta) outcome \<Rightarrow> applied_patch_delta" where
  "result_delta (Ok d) = d"
| "result_delta (Err f) = failure_delta f"
| "result_delta Panic = empty_delta"

lemma apply_hunks_accounts:
  assumes "lawful fs"
  shows "case apply_hunks fs parent resolve writeln hs out err s of
    (r, out', err', s') \<Rightarrow> r \<noteq> Panic \<and> accounts fs (text_view fs s) (result_delta r) s'"
proof -
  obtain r d s' where run: "apply_hunks_to_files fs parent resolve hs empty_delta s = (r, d, s')"
    by (metis prod_cases3)
  have "r \<noteq> Panic" using apply_hunks_to_files_no_panic [of fs parent resolve hs empty_delta s] run by simp
  moreover have "accounts fs (text_view fs s) d s'"
    by (rule apply_hunks_to_files_accounts [OF assms run])
  ultimately show ?thesis
    by (cases r) (auto simp: apply_hunks_def run Let_def split: prod.splits option.splits)
qed

lemma apply_patch_accounts:
  assumes "lawful fs" "apply_patch fs parent resolve writeln patch out err s = (r, out', err', s')"
  shows "r \<noteq> Panic \<and> accounts fs (text_view fs s) (result_delta r) s'"
proof (cases "parse_patch patch")
  case (Ok args)
  then show ?thesis
    using apply_hunks_accounts [OF assms(1), where parent = parent and resolve = resolve and writeln = writeln
        and hs = "args_hunks args" and out = out and err = err and s = s] assms(2)
    by (simp add: apply_patch_def)
next
  case (Err e)
  then show ?thesis
    using assms(2) accounts_empty [of fs s] by (auto simp: apply_patch_def Let_def split: prod.splits option.splits)
next
  case Panic
  then show ?thesis using parse_patch_not_Panic by metis
qed

text \<open>
  (C3) The delta of \<^verbatim>\<open>apply_patch\<close> tells the truth.  For any patch text, on a file system whose
  paths are not linked to each other, the call ends without a panic, and if the delta it returns
  (with success or with the failure) says it is exact, then replaying its changes on the files
  before the call gives the files after it, and undoing them gives the files before: also when the
  patch failed half way through its hunks or a removal failed.
\<close>
theorem apply_patch_delta_exact:
  assumes "lawful fs"
  shows "case apply_patch fs parent resolve writeln patch out err s of
    (r, out', err', s') \<Rightarrow> r \<noteq> Panic \<and>
      (exact (result_delta r) \<longrightarrow>
        text_view fs s' = replay (changes (result_delta r)) (text_view fs s) \<and>
        undo (changes (result_delta r)) (text_view fs s') = text_view fs s)"
proof -
  obtain r out' err' s' where "apply_patch fs parent resolve writeln patch out err s = (r, out', err', s')"
    by (metis prod_cases4)
  with apply_patch_accounts [OF assms this] show ?thesis by (auto simp: accounts_def truthful_undo)
qed

section \<open>A file system in memory\<close>

text \<open>
  Files and directories by path; a write into a missing directory fails, and directories are not
  files.
\<close>

record mem_state =
  mem_files :: "rstr \<rightharpoonup> rstr"
  mem_dirs :: "rstr list"

definition not_found :: io_error where
  "not_found = \<lparr>kind = NotFound, error_text = lit ''No such file or directory''\<rparr>"

definition is_a_directory :: io_error where
  "is_a_directory = \<lparr>kind = OtherKind 21, error_text = lit ''Is a directory''\<rparr>"

definition mem_fs :: "(rstr \<Rightarrow> rstr option) \<Rightarrow> mem_state file_system" where
  "mem_fs parent = \<lparr>
     read_file_text = (\<lambda>s p.
       if p \<in> set (mem_dirs s) then Inl is_a_directory
       else case mem_files s p of Some t \<Rightarrow> Inr t | None \<Rightarrow> Inl not_found),
     get_metadata = (\<lambda>s p.
       if p \<in> set (mem_dirs s)
       then Inr \<lparr>is_directory = True, is_file = False, is_symlink = False, created_at_ms = 0, modified_at_ms = 0\<rparr>
       else case mem_files s p of
         Some t \<Rightarrow> Inr \<lparr>is_directory = False, is_file = True, is_symlink = False, created_at_ms = 0, modified_at_ms = 0\<rparr>
       | None \<Rightarrow> Inl not_found),
     write_file = (\<lambda>s p t.
       if p \<in> set (mem_dirs s) then (Some is_a_directory, s)
       else case parent p of
         Some d \<Rightarrow> if d \<in> set (mem_dirs s) then (None, s\<lparr>mem_files := (mem_files s)(p \<mapsto> t)\<rparr>)
                   else (Some not_found, s)
       | None \<Rightarrow> (None, s\<lparr>mem_files := (mem_files s)(p \<mapsto> t)\<rparr>)),
     create_directory = (\<lambda>s d.
       if mem_files s d = None then (None, s\<lparr>mem_dirs := d # mem_dirs s\<rparr>) else (Some is_a_directory, s)),
     remove = (\<lambda>s p.
       if p \<in> set (mem_dirs s) then (Some is_a_directory, s)
       else if mem_files s p = None then (Some not_found, s)
       else (None, s\<lparr>mem_files := (mem_files s)(p := None)\<rparr>))\<rparr>"

lemma mem_fs_lawful: "lawful (mem_fs parent)"
  unfolding lawful_def
  by (auto simp: mem_fs_def text_view_def fun_eq_iff not_found_def is_a_directory_def
      split: if_splits option.splits)

text \<open>A writer that collects its lines.\<close>

definition list_writer :: "rstr list writer" where
  "list_writer w l = (None, w @ [l])"

definition sample_files :: mem_state where
  "sample_files = \<lparr>mem_files = [lit ''a'' \<mapsto> lit ''old''], mem_dirs = []\<rparr>"

lemma parse_patch_delete: "parse_patch delete_patch = Ok delete_args"
  by (simp add: delete_patch_def delete_args_def parse_patch_def PARSE_IN_STRICT_MODE_def parse_eval)

lemma apply_delete_patch:
  "apply_patch (mem_fs Map.empty) Map.empty id list_writer delete_patch [] [] sample_files =
   (Ok \<lparr>changes = [\<lparr>change_path = lit ''a'', change = Delete (lit ''old'')\<rparr>], exact = True\<rparr>,
    [lit ''Success. Updated the following files:'', lit ''D a''], [],
    sample_files\<lparr>mem_files := (mem_files sample_files)(lit ''a'' := None)\<rparr>)"
  by (simp add: apply_patch_def parse_patch_delete delete_args_def apply_hunks_def
      apply_hunks_to_files_def apply_delete_def Let_def mem_fs_def sample_files_def
      note_existing_path_delta_support_def ensure_not_directory_def empty_delta_def no_affected_def
      push_change_delta_def print_summary_def list_writer_def)

theorem apply_patch_delta_exact_witness:
  "undo [\<lparr>change_path = lit ''a'', change = Delete (lit ''old'')\<rparr>]
     (text_view (mem_fs Map.empty) (sample_files\<lparr>mem_files := (mem_files sample_files)(lit ''a'' := None)\<rparr>)) =
   text_view (mem_fs Map.empty) sample_files"
  using apply_patch_delta_exact [OF mem_fs_lawful, where parent = Map.empty and resolve = id and
      writeln = list_writer and patch = delete_patch and out = "[]" and err = "[]" and s = sample_files,
      of Map.empty]
  unfolding apply_delete_patch prod.case result_delta.simps applied_patch_delta.select_convs by blast

lemma apply_sample_add:
  "apply_hunks_to_files (mem_fs Map.empty) Map.empty id [AddFile (lit ''a'') (lit ''new'')] empty_delta sample_files =
    (Ok (no_affected\<lparr>added := [lit ''a'']\<rparr>),
     \<lparr>changes = [\<lparr>change_path = lit ''a'', change = Add (lit ''new'') (Some (lit ''old''))\<rparr>], exact = True\<rparr>,
     sample_files\<lparr>mem_files := (mem_files sample_files)(lit ''a'' \<mapsto> lit ''new'')\<rparr>)"
    by (simp add: apply_hunks_to_files_def apply_add_def Let_def mem_fs_def sample_files_def
      read_optional_file_text_for_delta_def write_file_with_missing_parent_retry_def
      note_existing_path_delta_support_def empty_delta_def no_affected_def push_change_delta_def)

section \<open>Changes and hunks\<close>

text \<open>
  What a hunk that was applied leaves in the delta; the new text of an update is what
  \<^const>\<open>new_contents_from_chunks\<close> makes of the old text.
\<close>

fun committed :: "(rstr \<Rightarrow> rstr) \<Rightarrow> hunk \<Rightarrow> applied_patch_change \<Rightarrow> bool" where
  "committed resolve (AddFile path contents) c \<longleftrightarrow>
     (case change c of Add content _ \<Rightarrow> change_path c = resolve path \<and> content = contents | _ \<Rightarrow> False)"
| "committed resolve (DeleteFile path) c \<longleftrightarrow>
     (case change c of Delete _ \<Rightarrow> change_path c = resolve path | _ \<Rightarrow> False)"
| "committed resolve (UpdateFile path move_path chunks) c \<longleftrightarrow>
     (case change c of
        Update dest old _ new \<Rightarrow>
          change_path c = resolve path \<and> dest = map_option resolve move_path \<and>
          new_contents_from_chunks old (resolve path) chunks = Ok new
      | _ \<Rightarrow> False)"

lemma apply_hunk_exact_mono: "apply_hunk fs parent resolve h aff d s = (r, d', s') \<Longrightarrow> exact d' \<Longrightarrow> exact d"
  by (cases h)
    (auto simp: apply_add_def apply_delete_def apply_update_def apply_move_def Let_def push_change_delta_def
      split: prod.splits option.splits outcome.splits if_splits
      dest: read_optional_exact note_exact)

lemma apply_hunk_committed:
  assumes "apply_hunk fs parent resolve h aff d s = (Ok aff', d', s')" "exact d'"
  shows "\<exists>c. changes d' = changes d @ [c] \<and> committed resolve h c"
proof (cases h)
  case (AddFile path contents)
  with assms show ?thesis
    by (auto simp: apply_add_def Let_def push_change_delta_def split: prod.splits option.splits)
next
  case (DeleteFile path)
  with assms show ?thesis
    by (auto simp: apply_delete_def Let_def push_change_delta_def
        split: prod.splits option.splits sum.splits)
next
  case (UpdateFile path move_path chunks)
  with assms obtain old new where
    on: "derive_new_contents_from_chunks fs s (resolve path) chunks = Ok (old, new)"
    by (auto simp: apply_update_def Let_def split: outcome.splits)
  then have new: "new_contents_from_chunks old (resolve path) chunks = Ok new" by (simp add: derive_Ok)
  show ?thesis
  proof (cases move_path)
    case None
    with assms UpdateFile on new show ?thesis
      by (auto simp: apply_update_def Let_def push_change_delta_def split: prod.splits option.splits)
  next
    case (Some dest)
    with assms UpdateFile on new show ?thesis
      by (auto simp: apply_update_def apply_move_def Let_def push_change_delta_def
          split: prod.splits option.splits)
  qed
qed

lemma apply_hunk_loop_exact_mono:
  "apply_hunk_loop fs parent resolve hs aff d s = (r, d', s') \<Longrightarrow> exact d' \<Longrightarrow> exact d"
proof (induction hs arbitrary: aff d s)
  case (Cons h hs)
  obtain r1 d1 s1 where h: "apply_hunk fs parent resolve h aff d s = (r1, d1, s1)" by (metis prod_cases3)
  with Cons have "exact d1" by (cases r1) auto
  with h show ?case by (blast intro: apply_hunk_exact_mono)
qed simp

lemma apply_hunk_loop_committed:
  "apply_hunk_loop fs parent resolve hs aff d s = (Ok aff', d', s') \<Longrightarrow> exact d' \<Longrightarrow>
   \<exists>cs. changes d' = changes d @ cs \<and> list_all2 (committed resolve) hs cs"
proof (induction hs arbitrary: aff d s)
  case (Cons h hs)
  then obtain aff1 d1 s1 where h: "apply_hunk fs parent resolve h aff d s = (Ok aff1, d1, s1)"
    "apply_hunk_loop fs parent resolve hs aff1 d1 s1 = (Ok aff', d', s')"
    by (auto split: prod.splits outcome.splits)
  with Cons.prems(2) have "exact d1" by (blast intro: apply_hunk_loop_exact_mono)
  with Cons.IH [OF h(2) Cons.prems(2)] apply_hunk_committed [OF h(1)] show ?case
    by fastforce
qed auto

text \<open>
  (C4) When a patch is applied completely and the delta is exact, the delta has one change per hunk,
  in the order of the patch, and each is what its hunk asks for: the file, the move destination and
  the new contents computed from the contents the file had.
\<close>
theorem applied_changes_match_hunks:
  assumes "apply_hunks_to_files fs parent resolve hs empty_delta s = (Ok aff, d, s')" "exact d"
  shows "list_all2 (committed resolve) hs (changes d)"
  using assms apply_hunk_loop_committed [of fs parent resolve hs no_affected empty_delta s aff d s']
  by (auto simp: apply_hunks_to_files_def empty_delta_def split: if_splits)

theorem applied_changes_match_hunks_witness:
  "list_all2 (committed id) [AddFile (lit ''a'') (lit ''new'')]
     [\<lparr>change_path = lit ''a'', change = Add (lit ''new'') (Some (lit ''old''))\<rparr>]"
  using applied_changes_match_hunks [OF apply_sample_add] by simp

text \<open>
  The summary names every hunk once: after a complete application the added, modified and
  deleted paths are the paths of the add, update and delete hunks, in patch order (an update with a
  move is listed under its destination).
\<close>
theorem affected_paths_match_hunks:
  assumes "apply_hunks_to_files fs parent resolve hs d s = (Ok aff, d', s')"
  shows "added aff = map hunk_path (filter (\<lambda>h. case h of AddFile _ _ \<Rightarrow> True | _ \<Rightarrow> False) hs) \<and>
    modified aff = map hunk_path (filter (\<lambda>h. case h of UpdateFile _ _ _ \<Rightarrow> True | _ \<Rightarrow> False) hs) \<and>
    deleted aff = map hunk_path (filter (\<lambda>h. case h of DeleteFile _ \<Rightarrow> True | _ \<Rightarrow> False) hs)"
proof -
  have step: "added aff1 = added aff @ (case h of AddFile _ _ \<Rightarrow> [hunk_path h] | _ \<Rightarrow> []) \<and>
      modified aff1 = modified aff @ (case h of UpdateFile _ _ _ \<Rightarrow> [hunk_path h] | _ \<Rightarrow> []) \<and>
      deleted aff1 = deleted aff @ (case h of DeleteFile _ \<Rightarrow> [hunk_path h] | _ \<Rightarrow> [])"
    if "apply_hunk fs parent resolve h aff d s = (Ok aff1, d1, s1)" for h aff d s aff1 d1 s1
    using that
    by (cases h) (auto simp: apply_add_def apply_delete_def apply_update_def apply_move_def Let_def
      split: prod.splits option.splits outcome.splits)
  have "added aff' = added aff @ map hunk_path (filter (\<lambda>h. case h of AddFile _ _ \<Rightarrow> True | _ \<Rightarrow> False) hs) \<and>
      modified aff' = modified aff @ map hunk_path (filter (\<lambda>h. case h of UpdateFile _ _ _ \<Rightarrow> True | _ \<Rightarrow> False) hs) \<and>
      deleted aff' = deleted aff @ map hunk_path (filter (\<lambda>h. case h of DeleteFile _ \<Rightarrow> True | _ \<Rightarrow> False) hs)"
    if "apply_hunk_loop fs parent resolve hs aff d s = (Ok aff', d1, s1)" for aff d s aff' d1 s1
    using that
  proof (induction hs arbitrary: aff d s)
    case (Cons h hs)
    then obtain aff1 d2 s2 where h: "apply_hunk fs parent resolve h aff d s = (Ok aff1, d2, s2)"
      "apply_hunk_loop fs parent resolve hs aff1 d2 s2 = (Ok aff', d1, s1)"
      by (auto split: prod.splits outcome.splits)
    from Cons.IH [OF h(2)] step [OF h(1)] show ?case by (cases h) auto
  qed simp
  with assms show ?thesis
    by (fastforce simp: apply_hunks_to_files_def no_affected_def split: if_splits)
qed

theorem affected_paths_match_hunks_witness:
  "added (no_affected\<lparr>added := [lit ''a'']\<rparr>) = [lit ''a'']"
  using affected_paths_match_hunks [OF apply_sample_add] by simp

section \<open>A move onto the file itself\<close>

text \<open>
  An update hunk that moves a file to its own path writes the new contents and then removes them:
  the call succeeds, the summary says modified, and the file is gone.
\<close>

lemma move_onto_itself_deletes:
  "case apply_hunks_to_files (mem_fs Map.empty) Map.empty id
     [UpdateFile (lit ''a'') (Some (lit ''a''))
        [\<lparr>change_context = None, old_lines = [lit ''old''], new_lines = [lit ''new''], is_end_of_file = False\<rparr>]]
     empty_delta sample_files of
   (r, d, s) \<Rightarrow> r = Ok (no_affected\<lparr>modified := [lit ''a'']\<rparr>) \<and> text_view (mem_fs Map.empty) s (lit ''a'') = None"
  by (simp add: apply_hunks_to_files_def apply_update_def apply_move_def Let_def mem_fs_def sample_files_def
      read_optional_file_text_for_delta_def write_file_with_missing_parent_retry_def
      derive_new_contents_from_chunks_def replace_eval ensure_not_directory_def text_view_def
      note_existing_path_delta_support_def empty_delta_def no_affected_def push_change_delta_def)

end
