(* ===== verification/Absolute_Path.thy ===== *)
theory Absolute_Path
  imports Rust_Text
begin

text \<open>
  Absolute paths (\<^verbatim>\<open>utils/absolute-path/src/lib.rs\<close> and \<^verbatim>\<open>absolutize.rs\<close>) on a Unix
  platform: the parts of the code under \<^verbatim>\<open>cfg(windows)\<close> are not modelled.

  A \<^verbatim>\<open>Path\<close> is its text.  The first section writes out the methods of \<^verbatim>\<open>std::path\<close> the code
  calls (\<^verbatim>\<open>components\<close>, \<^verbatim>\<open>push\<close>, \<^verbatim>\<open>parent\<close>, \<^verbatim>\<open>file_name\<close>), the second the functions of the
  crate.  The home directory and the current directory are the results of \<^verbatim>\<open>home_dir\<close> and
  \<^verbatim>\<open>std::env::current_dir\<close>, parameters of the definitions.  The specification is a walk over the
  components with a stack of names; the code, which pushes and pops path texts, refines it.
\<close>

section \<open>Paths of the standard library\<close>

abbreviation slash :: rchar where "slash \<equiv> 47"

definition dot_name :: rstr where "dot_name = [46]"
definition dot_dot_name :: rstr where "dot_dot_name = [46, 46]"

datatype path_component = RootDir | CurDir | ParentDir | NormalName rstr

definition is_absolute :: "rstr \<Rightarrow> bool" where
  "is_absolute p \<longleftrightarrow> p \<noteq> [] \<and> hd p = slash"

definition trivial_part :: "rstr \<Rightarrow> bool" where
  "trivial_part n \<longleftrightarrow> n = [] \<or> n = dot_name"

definition part_component :: "rstr \<Rightarrow> path_component" where
  "part_component n = (if n = dot_dot_name then ParentDir else NormalName n)"

definition body_components :: "rstr list \<Rightarrow> path_component list" where
  "body_components parts = map part_component (filter (\<lambda>n. \<not> trivial_part n) parts)"

text \<open>A dot counts as a component only at the start of a relative path.\<close>

definition components :: "rstr \<Rightarrow> path_component list" where
  "components p =
     (let parts = split_on slash p in
      (if is_absolute p then [RootDir] else if hd parts = dot_name then [CurDir] else []) @
      body_components parts)"

definition path_push :: "rstr \<Rightarrow> rstr \<Rightarrow> rstr" where
  "path_push p q =
     (if is_absolute q then q
      else if p \<noteq> [] \<and> last p \<noteq> slash then p @ slash # q else p @ q)"

definition strip_trailing :: "rstr list \<Rightarrow> rstr list" where
  "strip_trailing parts = rev (dropWhile trivial_part (rev parts))"

definition path_parent :: "rstr \<Rightarrow> rstr option" where
  "path_parent p =
     (if is_absolute p then
        (let ps = strip_trailing (split_on slash (tl p)) in
         if ps = [] then None else Some (slash # join [slash] (strip_trailing (butlast ps))))
      else
        (let parts = split_on slash p in
         if hd parts = dot_name then
           (let ps = strip_trailing (tl parts) in
            if ps = [] then Some [] else Some (join [slash] (dot_name # strip_trailing (butlast ps))))
         else
           (let ps = strip_trailing parts in
            if ps = [] then None else Some (join [slash] (strip_trailing (butlast ps))))))"

definition path_pop :: "rstr \<Rightarrow> rstr" where
  "path_pop p = (case path_parent p of Some q \<Rightarrow> q | None \<Rightarrow> p)"

definition file_name :: "rstr \<Rightarrow> rstr option" where
  "file_name p =
     (let cs = components p in
      if cs = [] then None else case last cs of NormalName n \<Rightarrow> Some n | _ \<Rightarrow> None)"

fun component_text :: "path_component \<Rightarrow> rstr" where
  "component_text RootDir = [slash]"
| "component_text CurDir = dot_name"
| "component_text ParentDir = dot_dot_name"
| "component_text (NormalName n) = n"

section \<open>The crate\<close>

fun normalize_step :: "rstr \<Rightarrow> path_component \<Rightarrow> rstr" where
  "normalize_step normalized CurDir = normalized"
| "normalize_step normalized ParentDir = path_pop normalized"
| "normalize_step normalized c = path_push normalized (component_text c)"

definition normalize_path :: "rstr \<Rightarrow> rstr" where
  "normalize_path p =
     (let normalized = foldl normalize_step [] (components p) in
      if normalized = [] then dot_name else normalized)"

definition path_with_base :: "rstr \<Rightarrow> rstr \<Rightarrow> rstr" where
  "path_with_base p base_path = (if is_absolute p then p else path_push base_path p)"

definition absolutize_from :: "rstr \<Rightarrow> rstr \<Rightarrow> rstr" where
  "absolutize_from p base_path = normalize_path (path_with_base p base_path)"

definition absolutize :: "'e + rstr \<Rightarrow> rstr \<Rightarrow> 'e + rstr" where
  "absolutize current_dir p =
     (if is_absolute p then Inr (normalize_path p)
      else case current_dir of Inl e \<Rightarrow> Inl e | Inr cwd \<Rightarrow> Inr (absolutize_from p cwd))"

definition trim_start_matches :: "rchar \<Rightarrow> rstr \<Rightarrow> rstr" where
  "trim_start_matches c s = dropWhile (\<lambda>x. x = c) s"

definition maybe_expand_home_directory :: "rstr option \<Rightarrow> rstr \<Rightarrow> rstr" where
  "maybe_expand_home_directory home_dir p =
     (case home_dir of
        None \<Rightarrow> p
      | Some home \<Rightarrow>
          (case strip_prefix (lit ''~'') p of
             None \<Rightarrow> p
           | Some rest \<Rightarrow>
               if rest = [] then home
               else (case strip_prefix [slash] rest of
                       Some rest \<Rightarrow> path_push home (trim_start_matches slash rest)
                     | None \<Rightarrow> p)))"

definition resolve_path_against_base :: "rstr option \<Rightarrow> rstr \<Rightarrow> rstr \<Rightarrow> rstr" where
  "resolve_path_against_base home_dir p base_path =
     absolutize_from (maybe_expand_home_directory home_dir p) base_path"

definition from_absolute_path :: "rstr option \<Rightarrow> 'e + rstr \<Rightarrow> rstr \<Rightarrow> 'e + rstr" where
  "from_absolute_path home_dir current_dir p =
     absolutize current_dir (maybe_expand_home_directory home_dir p)"

definition not_absolute_message :: "rstr \<Rightarrow> rstr" where
  "not_absolute_message p = lit ''path is not absolute: '' @ p"

definition from_absolute_path_checked :: "rstr option \<Rightarrow> rstr \<Rightarrow> rstr + rstr" where
  "from_absolute_path_checked home_dir p =
     (let expanded = maybe_expand_home_directory home_dir p in
      if \<not> is_absolute expanded then Inl (not_absolute_message p)
      else Inr (absolutize_from expanded [slash]))"

definition relative_to_current_dir :: "rstr option \<Rightarrow> 'e + rstr \<Rightarrow> rstr \<Rightarrow> 'e + rstr" where
  "relative_to_current_dir home_dir current_dir p =
     (case current_dir of
        Inl e \<Rightarrow> Inl e
      | Inr cwd \<Rightarrow> Inr (resolve_path_against_base home_dir p cwd))"

definition absolute_join :: "rstr option \<Rightarrow> rstr \<Rightarrow> rstr \<Rightarrow> rstr" where
  "absolute_join home_dir self p = resolve_path_against_base home_dir p self"

section \<open>The specification: a walk with a stack of names\<close>

fun walk :: "rstr list \<Rightarrow> path_component list \<Rightarrow> rstr list" where
  "walk st [] = st"
| "walk st (RootDir # cs) = walk [] cs"
| "walk st (CurDir # cs) = walk st cs"
| "walk st (ParentDir # cs) = walk (butlast st) cs"
| "walk st (NormalName n # cs) = walk (st @ [n]) cs"

definition render_abs :: "rstr list \<Rightarrow> rstr" where
  "render_abs ns = slash # join [slash] ns"

definition good_name :: "rstr \<Rightarrow> bool" where
  "good_name n \<longleftrightarrow> \<not> trivial_part n \<and> n \<noteq> dot_dot_name \<and> slash \<notin> set n"

definition good_component :: "path_component \<Rightarrow> bool" where
  "good_component c \<longleftrightarrow> (case c of NormalName n \<Rightarrow> good_name n | _ \<Rightarrow> True)"

lemma walk_append: "walk st (xs @ ys) = walk (walk st xs) ys"
  by (induction st xs rule: walk.induct) auto

lemma good_name_facts:
  "good_name n \<Longrightarrow> n \<noteq> []" "good_name n \<Longrightarrow> slash \<notin> set n"
  "good_name n \<Longrightarrow> \<not> trivial_part n" "good_name n \<Longrightarrow> n \<noteq> dot_dot_name" "good_name n \<Longrightarrow> \<not> is_absolute n"
  by (auto simp: good_name_def trivial_part_def is_absolute_def neq_Nil_conv)

lemma split_on_append: "split_on d (a @ d # b) = split_on d a @ split_on d b"
  by (induction a) (auto split: list.splits)

lemma split_on_parts: "n \<in> set (split_on d s) \<Longrightarrow> d \<notin> set n"
  by (induction s arbitrary: n) (auto split: if_splits list.splits)

lemma body_components_append [simp]:
  "body_components (xs @ ys) = body_components xs @ body_components ys"
  "body_components [] = []"
  by (simp_all add: body_components_def)

lemma body_components_trivial: "body_components [[]] = []"
  by (simp add: body_components_def trivial_part_def)

lemma components_good: "c \<in> set (components p) \<Longrightarrow> good_component c"
  by (auto simp: components_def body_components_def part_component_def good_component_def Let_def
      good_name_def dest: split_on_parts split: if_splits)

lemma body_components_names: "list_all good_name ns \<Longrightarrow> body_components ns = map NormalName ns"
  by (induction ns) (auto simp: body_components_def part_component_def good_name_facts)

lemma filter_good: "list_all good_name ns \<Longrightarrow> filter (\<lambda>n. \<not> trivial_part n) ns = ns"
  by (induction ns) (auto simp: good_name_facts)

lemma split_on_Cons_sep: "split_on d (d # s) = [] # split_on d s"
  by simp

lemma split_names:
  assumes "list_all good_name ns" "ns \<noteq> []"
  shows "split_on slash (join [slash] ns) = ns"
  by (rule split_on_join) (use assms in \<open>auto simp: list_all_iff good_name_facts\<close>)

lemma components_render:
  assumes "list_all good_name ns"
  shows "components (render_abs ns) = RootDir # map NormalName ns"
proof (cases "ns = []")
  case True
  then show ?thesis by (simp add: components_def render_abs_def is_absolute_def body_components_def trivial_part_def)
next
  case False
  then have "split_on slash (render_abs ns) = [] # ns"
    using assms by (simp add: render_abs_def split_names)
  then have "body_components (split_on slash (render_abs ns)) = map NormalName ns"
    using body_components_append(1) [of "[[]]" ns] assms
    by (simp add: body_components_trivial body_components_names)
  then show ?thesis by (simp add: components_def render_abs_def is_absolute_def Let_def)
qed

lemma walk_names: "walk st (map NormalName ns) = st @ ns"
  by (induction ns arbitrary: st) auto

lemma walk_render: "list_all good_name ns \<Longrightarrow> walk st (components (render_abs ns)) = ns"
  by (simp add: components_render walk_names)

lemma list_all_butlast: "list_all P xs \<Longrightarrow> list_all P (butlast xs)"
  by (auto simp: list_all_iff dest: in_set_butlastD)

lemma walk_good:
  "list_all good_name st \<Longrightarrow> list_all good_component cs \<Longrightarrow> list_all good_name (walk st cs)"
  by (induction st cs rule: walk.induct) (simp_all add: good_component_def list_all_butlast)

lemma strip_trailing_good:
  assumes "list_all good_name ns"
  shows "strip_trailing ns = ns"
proof (cases ns rule: rev_cases)
  case (snoc ms n)
  with assms show ?thesis by (simp add: strip_trailing_def good_name_facts)
qed (simp add: strip_trailing_def)

lemma path_pop_render:
  assumes "list_all good_name ns"
  shows "path_pop (render_abs ns) = render_abs (butlast ns)"
proof (cases "ns = []")
  case True
  then show ?thesis
    by (simp add: path_pop_def path_parent_def render_abs_def is_absolute_def strip_trailing_def trivial_part_def)
next
  case False
  have "strip_trailing (butlast ns) = butlast ns"
    by (rule strip_trailing_good [OF list_all_butlast [OF assms]])
  then show ?thesis using False assms
    by (simp add: path_pop_def path_parent_def render_abs_def is_absolute_def split_names
        strip_trailing_good [OF assms])
qed

lemma join_last: "ns \<noteq> [] \<Longrightarrow> join sep (ns @ [n]) = join sep ns @ sep @ n"
proof (induction ns)
  case (Cons x xs)
  then show ?case by (cases "xs = []") (simp_all add: join_Cons_not_Nil)
qed simp

lemma last_join:
  assumes "ns \<noteq> []" "list_all good_name ns"
  shows "join [slash] ns \<noteq> [] \<and> last (join [slash] ns) \<noteq> slash"
proof (cases ns rule: rev_cases)
  case (snoc ms n)
  then have n: "n \<noteq> []" "slash \<notin> set n" using assms by (simp_all add: good_name_facts)
  then have "last n \<noteq> slash" by (metis last_in_set)
  with n snoc show ?thesis by (cases "ms = []") (simp_all add: join_last)
qed (use assms in simp)

lemma path_push_render:
  assumes "list_all good_name ns" "\<not> is_absolute q"
  shows "path_push (render_abs ns) q = (if ns = [] then slash # q else render_abs ns @ slash # q)"
  using last_join [OF _ assms(1)] assms(2) by (auto simp: path_push_def render_abs_def)

lemma path_push_name:
  assumes "list_all good_name ns" "good_name n"
  shows "path_push (render_abs ns) n = render_abs (ns @ [n])"
  using assms by (simp add: path_push_render good_name_facts) (simp add: render_abs_def join_last)

lemma fold_normalize:
  assumes "list_all good_name st" "list_all good_component cs"
  shows "foldl normalize_step (render_abs st) cs = render_abs (walk st cs)"
  using assms
proof (induction st cs rule: walk.induct)
  case (2 st cs)
  then show ?case by (simp add: path_push_def is_absolute_def) (simp add: render_abs_def)
next
  case (4 st cs)
  then show ?case by (simp add: path_pop_render list_all_butlast)
next
  case (5 st n cs)
  then show ?case by (simp add: path_push_name good_component_def)
qed simp_all

lemma normalize_path_walk:
  assumes "is_absolute p"
  shows "normalize_path p = render_abs (walk [] (components p))"
proof -
  obtain cs where cs: "components p = RootDir # cs"
    using assms by (simp add: components_def Let_def)
  have good: "list_all good_component cs"
    using components_good [of _ p] cs by (simp add: list_all_iff)
  have "foldl normalize_step [] (components p) = foldl normalize_step (render_abs []) cs"
    by (simp add: cs path_push_def is_absolute_def) (simp add: render_abs_def)
  also have "\<dots> = render_abs (walk [] (components p))"
    using fold_normalize [OF _ good, of "[]"] by (simp add: cs)
  finally show ?thesis by (simp add: normalize_path_def render_abs_def)
qed

text \<open>The names a text stands for; on a normalised absolute path they determine the text.\<close>

definition names_of :: "rstr \<Rightarrow> rstr list" where
  "names_of p = walk [] (components p)"

definition normal_path :: "rstr \<Rightarrow> bool" where
  "normal_path p \<longleftrightarrow> list_all good_name (names_of p) \<and> p = render_abs (names_of p)"

lemma normal_render: "list_all good_name ns \<Longrightarrow> normal_path (render_abs ns) \<and> names_of (render_abs ns) = ns"
  by (simp add: normal_path_def names_of_def walk_render)

lemma normal_absolute: "normal_path p \<Longrightarrow> is_absolute p"
  unfolding normal_path_def render_abs_def is_absolute_def by (metis list.discI list.sel(1))

lemma names_of_good: "list_all good_name (names_of p)"
  unfolding names_of_def by (rule walk_good) (auto simp: list_all_iff components_good)

lemma names_normalize: "is_absolute p \<Longrightarrow> normal_path (normalize_path p) \<and> names_of (normalize_path p) = names_of p"
  using normal_render [OF names_of_good [of p]] by (simp add: normalize_path_walk names_of_def)

lemma components_join:
  assumes "is_absolute base" "\<not> is_absolute p"
  shows "walk [] (components (path_push base p)) = walk (names_of base) (components p)"
proof -
  have rel: "walk st (body_components (split_on slash p)) = walk st (components p)" for st
    using assms(2) by (simp add: components_def Let_def)
  obtain b where b: "base = slash # b" using assms(1) by (cases base) (simp_all add: is_absolute_def)
  have abs: "components (slash # s) = RootDir # body_components (split_on slash s)" for s
    using body_components_append(1) [of "[[]]" "split_on slash s"]
    by (simp add: components_def is_absolute_def body_components_trivial)
  have base: "names_of base = walk [] (body_components (split_on slash b))"
    by (simp add: names_of_def b abs)
  show ?thesis
  proof (cases "last base = slash")
    case False
    with assms b have "path_push base p = slash # (b @ slash # p)" by (simp add: path_push_def)
    then show ?thesis using rel by (simp add: abs split_on_append walk_append base)
  next
    case slash: True
    show ?thesis
    proof (cases b rule: rev_cases)
      case Nil
      with assms b have "path_push base p = slash # p" by (simp add: path_push_def)
      then show ?thesis using rel by (simp add: abs base Nil body_components_trivial)
    next
      case (snoc c x)
      with slash b have "b = c @ [slash]" by simp
      then have "path_push base p = slash # (c @ slash # p)" "split_on slash b = split_on slash c @ [[]]"
        using assms b by (simp_all add: path_push_def split_on_append)
      then show ?thesis using rel by (simp add: abs split_on_append walk_append base body_components_trivial)
    qed
  qed
qed

lemma absolutize_from_names:
  assumes "is_absolute base"
  shows "normal_path (absolutize_from p base)"
    and "names_of (absolutize_from p base) = walk (names_of base) (components p)"
proof -
  let ?q = "path_with_base p base"
  have "is_absolute ?q" using assms by (cases p) (auto simp: path_with_base_def path_push_def is_absolute_def)
  moreover have "names_of ?q = walk (names_of base) (components p)"
  proof (cases "is_absolute p")
    case True
    then obtain cs where "components p = RootDir # cs" by (simp add: components_def Let_def)
    with True show ?thesis by (simp add: path_with_base_def names_of_def)
  next
    case False
    then show ?thesis using components_join [OF assms False] by (simp add: path_with_base_def names_of_def)
  qed
  ultimately show "normal_path (absolutize_from p base)"
    "names_of (absolutize_from p base) = walk (names_of base) (components p)"
    using names_normalize [of ?q] by (simp_all add: absolutize_from_def)
qed

lemma normal_path_unique: "normal_path p \<Longrightarrow> normal_path q \<Longrightarrow> names_of p = names_of q \<Longrightarrow> p = q"
  by (metis normal_path_def)

lemma walk_absolute: "is_absolute p \<Longrightarrow> walk st (components p) = names_of p"
  by (auto simp: components_def Let_def names_of_def)

lemma no_home_expansion: "\<not> starts_with (lit ''~'') p \<Longrightarrow> maybe_expand_home_directory home p = p"
  by (auto simp: maybe_expand_home_directory_def starts_with_def split: option.splits)

lemma absolute_no_tilde: "is_absolute p \<Longrightarrow> \<not> starts_with (lit ''~'') p"
  by (cases p) (auto simp: is_absolute_def starts_with_def split: if_splits)

lemma absolute_no_home: "is_absolute p \<Longrightarrow> maybe_expand_home_directory home p = p"
  by (rule no_home_expansion [OF absolute_no_tilde])

lemma resolve_normal_id:
  assumes "normal_path q"
  shows "resolve_path_against_base home q base = q"
proof -
  have abs: "is_absolute q" by (rule normal_absolute [OF assms])
  then have "resolve_path_against_base home q base = normalize_path q"
    using absolute_no_home [OF abs]
    by (simp add: resolve_path_against_base_def absolutize_from_def path_with_base_def)
  also have "\<dots> = q"
    using names_normalize [OF abs] normal_path_unique [OF _ assms] by simp
  finally show ?thesis .
qed

text \<open>
  (C22) Against an absolute base every path text, a leading tilde expanded, resolves to a normalised absolute path, the one the
  walk over its components reaches from the base; resolving the result again, against any base,
  changes nothing.
\<close>
theorem resolve_path_spec:
  assumes "is_absolute base"
  shows "normal_path (resolve_path_against_base home p base) \<and>
    names_of (resolve_path_against_base home p base) =
      walk (names_of base) (components (maybe_expand_home_directory home p)) \<and>
    resolve_path_against_base home' (resolve_path_against_base home p base) base' =
      resolve_path_against_base home p base"
proof -
  let ?q = "resolve_path_against_base home p base"
  have "normal_path ?q"
    using absolutize_from_names(1) [OF assms] by (simp add: resolve_path_against_base_def)
  moreover have "names_of ?q = walk (names_of base) (components (maybe_expand_home_directory home p))"
    using absolutize_from_names(2) [OF assms] by (simp add: resolve_path_against_base_def)
  ultimately show ?thesis by (simp add: resolve_normal_id)
qed

lemma walk_without_parent:
  "ParentDir \<notin> set cs \<Longrightarrow> RootDir \<notin> set cs \<Longrightarrow> \<exists>ns. walk st cs = st @ ns"
  by (induction st cs rule: walk.induct) auto

lemma root_only_absolute: "RootDir \<in> set (components p) \<Longrightarrow> is_absolute p"
  by (auto simp: components_def Let_def body_components_def part_component_def split: if_splits)

text \<open>A path text that cannot leave the directory it is resolved against.\<close>

definition local_path :: "rstr \<Rightarrow> bool" where
  "local_path p \<longleftrightarrow> \<not> is_absolute p \<and> \<not> starts_with (lit ''~'') p \<and> ParentDir \<notin> set (components p)"

definition below :: "rstr \<Rightarrow> rstr \<Rightarrow> bool" where
  "below base p \<longleftrightarrow> normal_path p \<and> (\<exists>ns. names_of p = names_of base @ ns)"

lemma resolve_below:
  assumes "is_absolute base" "local_path p"
  shows "below base (resolve_path_against_base home p base)"
proof -
  have "maybe_expand_home_directory home p = p"
    using assms(2) by (simp add: local_path_def no_home_expansion)
  moreover have "RootDir \<notin> set (components p)" "ParentDir \<notin> set (components p)"
    using assms(2) root_only_absolute by (auto simp: local_path_def)
  ultimately show ?thesis
    using absolutize_from_names [OF assms(1), of p] walk_without_parent
    by (simp add: below_def resolve_path_against_base_def)
qed

text \<open>
  A relative path without parent components and without a leading tilde resolves to a path in the
  base directory, and a path that passes the checked constructor is normalised and absolute.
\<close>
theorem resolve_path_confined:
  assumes "is_absolute base" "local_path p" "from_absolute_path_checked home q = Inr r"
  shows "below base (resolve_path_against_base home p base) \<and> normal_path r"
proof -
  have "normal_path r"
    using assms(3) absolutize_from_names(1) [of "[slash]"]
    by (auto simp: from_absolute_path_checked_def Let_def is_absolute_def split: if_splits)
  then show ?thesis
    using resolve_below [OF assms(1,2)] by simp
qed

lemmas path_eval = resolve_path_against_base_def maybe_expand_home_directory_def absolutize_from_def
  path_with_base_def normalize_path_def components_def body_components_def part_component_def
  trivial_part_def dot_name_def dot_dot_name_def is_absolute_def path_push_def path_pop_def
  path_parent_def strip_trailing_def from_absolute_path_checked_def trim_start_matches_def
  local_path_def starts_with_def names_of_def Let_def

theorem resolve_path_spec_witness:
  "is_absolute (lit ''/w/x'') \<and>
   resolve_path_against_base (Some (lit ''/h'')) (lit ''./a/../../b'') (lit ''/w/x'') = lit ''/w/b'' \<and>
   names_of (lit ''/w/b'') = [lit ''w'', lit ''b'']"
proof -
  have "is_absolute (lit ''/w/x'')" by (simp add: is_absolute_def)
  moreover have "resolve_path_against_base (Some (lit ''/h'')) (lit ''./a/../../b'') (lit ''/w/x'') = lit ''/w/b''"
    by (simp add: path_eval)
  ultimately show ?thesis
    using resolve_path_spec [of "lit ''/w/x''" "Some (lit ''/h'')" "lit ''./a/../../b''"]
    by (simp add: path_eval)
qed

theorem resolve_path_confined_witness:
  "is_absolute (lit ''/w'') \<and> local_path (lit ''a/b'') \<and>
   from_absolute_path_checked (Some (lit ''/h'')) (lit ''~/c'') = Inr (lit ''/h/c'') \<and>
   below (lit ''/w'') (resolve_path_against_base (Some (lit ''/h'')) (lit ''a/b'') (lit ''/w'')) \<and>
   normal_path (lit ''/h/c'')"
proof -
  have 1: "is_absolute (lit ''/w'')" by (simp add: is_absolute_def)
  have 2: "local_path (lit ''a/b'')" by (simp add: path_eval)
  have 3: "from_absolute_path_checked (Some (lit ''/h'')) (lit ''~/c'') = Inr (lit ''/h/c'')"
    by (simp add: path_eval)
  show ?thesis using resolve_path_confined [OF 1 2 3] 1 2 3 by blast
qed

end
