(* ===== verification/Shell_Script.thy ===== *)
theory Shell_Script
  imports Absolute_Path "HOL-Library.Multiset"
begin

text \<open>
  Reading shell scripts (\<^verbatim>\<open>shell-command/src/bash.rs\<close>, \<^verbatim>\<open>shell_detect.rs\<close>): which commands a
  \<^verbatim>\<open>bash -lc\<close> invocation runs, when its script has nothing but plain words joined by
  \<^verbatim>\<open>&&\<close>, \<^verbatim>\<open>||\<close>, \<^verbatim>\<open>;\<close> and \<^verbatim>\<open>|\<close>.

  The syntax tree comes from the crate \<^verbatim>\<open>tree-sitter\<close> with its bash grammar.  The parser is a
  parameter \<open>try_parse_shell\<close>; a node is what the crate answers about it: its kind, whether it is
  named, whether there is a syntax error in it, its position, its text in the source (absent when
  \<^verbatim>\<open>utf8_text\<close> fails) and its children.  The code walks trees with an explicit stack; the walks
  are proved equal to sets and lists of descendants.
\<close>

section \<open>Shells\<close>

datatype shell_type = Zsh | Bash | PowerShell | Sh | Cmd

text \<open>\<^verbatim>\<open>Path::file_stem\<close>: the file name up to its last dot, unless the dot is its first character.\<close>

definition name_stem :: "rstr \<Rightarrow> rstr" where
  "name_stem n = (case rsplit_once (ch CHR ''.'') n of None \<Rightarrow> n | Some (before, after) \<Rightarrow> if before = [] then n else before)"

definition file_stem :: "rstr \<Rightarrow> rstr option" where
  "file_stem p = map_option name_stem (file_name p)"

lemma split_part_length: "n \<in> set (split_on d s) \<Longrightarrow> length n < length s \<or> n = s"
proof (induction s arbitrary: n)
  case (Cons c s)
  show ?case
  proof (cases "c = d")
    case True
    then show ?thesis using Cons by force
  next
    case False
    obtain l ls where ls: "split_on d s = l # ls" using split_on_not_Nil by (metis neq_Nil_conv)
    with False Cons.prems have "n = c # l \<or> n \<in> set ls" by simp
    then show ?thesis using Cons.IH [of l] Cons.IH [of n] ls by fastforce
  qed
qed simp

lemma file_name_length: "file_name p = Some n \<Longrightarrow> length n < length p \<or> n = p"
proof -
  assume *: "file_name p = Some n"
  then have "NormalName n \<in> set (components p)"
    by (auto simp: file_name_def Let_def split: if_splits path_component.splits dest: last_in_set)
  then have "n \<in> set (split_on slash p)"
    by (auto simp: components_def Let_def body_components_def part_component_def split: if_splits)
  then show ?thesis by (rule split_part_length)
qed

lemma name_stem_length: "length (name_stem n) < length n \<or> name_stem n = n"
  by (auto simp: name_stem_def rsplit_once_def split: option.splits dest!: split_once_SomeD
      dest: arg_cong [of "rev _" _ length])

lemma file_stem_length: "file_stem p = Some n \<Longrightarrow> length n < length p \<or> n = p"
  using file_name_length name_stem_length by (force simp: file_stem_def)

text \<open>The recursion ends because a stem that is another path is a shorter one.\<close>

function detect_shell_type :: "rstr \<Rightarrow> shell_type option" where
  "detect_shell_type p =
     (if p = lit ''zsh'' then Some Zsh
      else if p = lit ''sh'' then Some Sh
      else if p = lit ''cmd'' then Some Cmd
      else if p = lit ''bash'' then Some Bash
      else if p = lit ''pwsh'' then Some PowerShell
      else if p = lit ''powershell'' then Some PowerShell
      else case file_stem p of
             Some shell_name \<Rightarrow>
               if components shell_name \<noteq> components p then detect_shell_type shell_name else None
           | None \<Rightarrow> None)"
  by pat_completeness auto
termination
  by (relation "measure length") (use file_stem_length in fastforce)+

declare detect_shell_type.simps [simp del]

section \<open>Syntax trees\<close>

datatype ts_node = TsNode
  (node_kind: rstr) (is_named: bool) (has_error: bool) (start_byte: nat) (utf8_text: "rstr option")
  (node_children: "ts_node list")

definition named_children :: "ts_node \<Rightarrow> ts_node list" where
  "named_children n = filter is_named (node_children n)"

definition named_child :: "nat \<Rightarrow> ts_node \<Rightarrow> ts_node option" where
  "named_child i n = (if i < length (named_children n) then Some (named_children n ! i) else None)"

abbreviation kind_is :: "string \<Rightarrow> ts_node \<Rightarrow> bool" where
  "kind_is k n \<equiv> node_kind n = lit k"

lemma size_list_rev [simp]: "size_list f (rev xs) = size_list f xs"
  by (induction xs) simp_all

lemma size_list_filter: "size_list f (filter P xs) \<le> size_list f xs"
  by (induction xs) auto

section \<open>Words of a command\<close>

definition strip_quotes :: "rchar \<Rightarrow> rstr \<Rightarrow> rstr option" where
  "strip_quotes q raw =
     (case strip_prefix [q] raw of
        None \<Rightarrow> None
      | Some body \<Rightarrow> map_option rev (strip_prefix [q] (rev body)))"

definition parse_double_quoted_string :: "ts_node \<Rightarrow> rstr option" where
  "parse_double_quoted_string n =
     (if \<not> kind_is ''string'' n then None
      else if list_ex (\<lambda>part. \<not> kind_is ''string_content'' part) (named_children n) then None
      else case utf8_text n of None \<Rightarrow> None | Some raw \<Rightarrow> strip_quotes (ch CHR ''\"'') raw)"

definition parse_raw_string :: "ts_node \<Rightarrow> rstr option" where
  "parse_raw_string n =
     (if \<not> kind_is ''raw_string'' n then None
      else case utf8_text n of None \<Rightarrow> None | Some raw \<Rightarrow> strip_quotes 39 raw)"

fun collect_some :: "('a \<Rightarrow> 'b option) \<Rightarrow> 'a list \<Rightarrow> 'b list option" where
  "collect_some f [] = Some []"
| "collect_some f (x # xs) =
     (case f x of
        None \<Rightarrow> None
      | Some y \<Rightarrow> (case collect_some f xs of None \<Rightarrow> None | Some ys \<Rightarrow> Some (y # ys)))"

definition concatenated_part :: "ts_node \<Rightarrow> rstr option" where
  "concatenated_part part =
     (if kind_is ''word'' part \<or> kind_is ''number'' part then utf8_text part
      else if kind_is ''string'' part then parse_double_quoted_string part
      else if kind_is ''raw_string'' part then parse_raw_string part
      else None)"

definition plain_word :: "ts_node \<Rightarrow> rstr option" where
  "plain_word child =
     (if kind_is ''command_name'' child then
        (case named_child 0 child of
           None \<Rightarrow> None
         | Some word_node \<Rightarrow> if kind_is ''word'' word_node then utf8_text word_node else None)
      else if kind_is ''word'' child \<or> kind_is ''number'' child then utf8_text child
      else if kind_is ''string'' child then parse_double_quoted_string child
      else if kind_is ''raw_string'' child then parse_raw_string child
      else if kind_is ''concatenation'' child then
        (case collect_some concatenated_part (named_children child) of
           None \<Rightarrow> None
         | Some parts \<Rightarrow> if concat parts = [] then None else Some (concat parts))
      else None)"

definition parse_plain_command_from_node :: "ts_node \<Rightarrow> rstr list option" where
  "parse_plain_command_from_node cmd =
     (if \<not> kind_is ''command'' cmd then None else collect_some plain_word (named_children cmd))"

section \<open>Sequences of plain commands\<close>

definition ALLOWED_KINDS :: "rstr list" where
  "ALLOWED_KINDS = map lit [''program'', ''list'', ''pipeline'', ''command'', ''command_name'', ''word'',
     ''string'', ''string_content'', ''raw_string'', ''number'', ''concatenation'']"

definition ALLOWED_PUNCT_TOKENS :: "rstr list" where
  "ALLOWED_PUNCT_TOKENS = map lit [''&&'', ''||'', '';'', ''|'', [CHR 0x22], [CHR 0x27]]"

definition node_rejected :: "ts_node \<Rightarrow> bool" where
  "node_rejected node =
     (let kind = node_kind node in
      if is_named node then kind \<notin> set ALLOWED_KINDS
      else (list_ex (\<lambda>c. c \<in> set (lit ''&;|'')) kind \<and> kind \<notin> set ALLOWED_PUNCT_TOKENS) \<or>
           \<not> (kind \<in> set ALLOWED_PUNCT_TOKENS \<or> trim kind = []))"

text \<open>The top of the stack is the head of the list; children are pushed one after another.\<close>

function word_only_walk :: "ts_node list \<Rightarrow> ts_node list \<Rightarrow> ts_node list option" where
  "word_only_walk [] command_nodes = Some command_nodes"
| "word_only_walk (node # stack) command_nodes =
     (if node_rejected node then None
      else word_only_walk (rev (node_children node) @ stack)
        (if is_named node \<and> kind_is ''command'' node then command_nodes @ [node] else command_nodes))"
  by pat_completeness auto
termination
proof (relation "measure (\<lambda>(stack, acc). size_list size stack)")
  show "((rev (node_children node) @ stack, acc), node # stack, acc') \<in> measure (\<lambda>(stack, acc). size_list size stack)"
    for node stack and acc acc' :: "ts_node list"
    by (cases node) simp
qed simp

definition try_parse_word_only_commands_sequence :: "ts_node \<Rightarrow> rstr list list option" where
  "try_parse_word_only_commands_sequence root =
     (if has_error root then None
      else case word_only_walk [root] [] of
             None \<Rightarrow> None
           | Some command_nodes \<Rightarrow>
               collect_some parse_plain_command_from_node (sort_key start_byte command_nodes))"

definition extract_bash_command :: "rstr list \<Rightarrow> (rstr \<times> rstr) option" where
  "extract_bash_command command =
     (case command of
        [shell, flag, script] \<Rightarrow>
          if flag \<notin> {lit ''-lc'', lit ''-c''} \<or>
            detect_shell_type shell \<notin> {Some Zsh, Some Bash, Some Sh} then None
          else Some (shell, script)
      | _ \<Rightarrow> None)"

definition parse_shell_lc_plain_commands :: "(rstr \<Rightarrow> ts_node option) \<Rightarrow> rstr list \<Rightarrow> rstr list list option" where
  "parse_shell_lc_plain_commands try_parse_shell command =
     (case extract_bash_command command of
        None \<Rightarrow> None
      | Some (shell, script) \<Rightarrow>
          (case try_parse_shell script of
             None \<Rightarrow> None
           | Some root \<Rightarrow> try_parse_word_only_commands_sequence root))"

section \<open>Here-documents\<close>

definition is_literal_word_or_number :: "ts_node \<Rightarrow> bool" where
  "is_literal_word_or_number node \<longleftrightarrow>
     (kind_is ''word'' node \<or> kind_is ''number'' node) \<and> named_children node = []"

definition is_allowed_heredoc_attachment_kind :: "rstr \<Rightarrow> bool" where
  "is_allowed_heredoc_attachment_kind kind \<longleftrightarrow>
     kind \<in> set (map lit [''heredoc_body'', ''simple_heredoc_body'', ''heredoc_redirect'',
       ''herestring_redirect'', ''redirected_statement''])"

text \<open>\<open>Some None\<close> is a child that adds no word.\<close>

definition heredoc_word :: "ts_node \<Rightarrow> rstr option option" where
  "heredoc_word child =
     (if kind_is ''command_name'' child then
        (case named_child 0 child of
           None \<Rightarrow> None
         | Some word_node \<Rightarrow>
             if is_literal_word_or_number word_node then map_option Some (utf8_text word_node) else None)
      else if kind_is ''word'' child \<or> kind_is ''number'' child then
        (if is_literal_word_or_number child then map_option Some (utf8_text child) else None)
      else if kind_is ''comment'' child then Some None
      else if is_allowed_heredoc_attachment_kind (node_kind child) then Some None
      else None)"

definition parse_heredoc_command_words :: "ts_node \<Rightarrow> rstr list option" where
  "parse_heredoc_command_words cmd =
     (if \<not> kind_is ''command'' cmd then None
      else case collect_some heredoc_word (named_children cmd) of
             None \<Rightarrow> None
           | Some found \<Rightarrow>
               (let words = List.map_filter id found in if words = [] then None else Some words))"

function find_single_command_walk :: "ts_node list \<Rightarrow> ts_node option \<Rightarrow> ts_node option" where
  "find_single_command_walk [] single_command = single_command"
| "find_single_command_walk (node # stack) single_command =
     (if kind_is ''command'' node \<and> single_command \<noteq> None then None
      else find_single_command_walk (rev (named_children node) @ stack)
        (if kind_is ''command'' node then Some node else single_command))"
  by pat_completeness auto
termination
proof (relation "measure (\<lambda>(stack, found). size_list size stack)")
  show "((rev (named_children node) @ stack, found), node # stack, found') \<in> measure (\<lambda>(stack, found). size_list size stack)"
    for node stack and found found' :: "ts_node option"
    using size_list_filter [of size is_named "node_children node"]
    by (cases node) (simp add: named_children_def)
qed simp

definition find_single_command_node :: "ts_node \<Rightarrow> ts_node option" where
  "find_single_command_node root = find_single_command_walk [root] None"

function has_kind_walk :: "ts_node list \<Rightarrow> rstr \<Rightarrow> bool" where
  "has_kind_walk [] kind = False"
| "has_kind_walk (current # stack) kind =
     (if node_kind current = kind then True else has_kind_walk (rev (named_children current) @ stack) kind)"
  by pat_completeness auto
termination
proof (relation "measure (\<lambda>(stack, kind). size_list size stack)")
  show "((rev (named_children node) @ stack, kind), node # stack, kind') \<in> measure (\<lambda>(stack, kind). size_list size stack)"
    for node stack and kind kind' :: rstr
    using size_list_filter [of size is_named "node_children node"]
    by (cases node) (simp add: named_children_def)
qed simp

definition has_named_descendant_kind :: "ts_node \<Rightarrow> rstr \<Rightarrow> bool" where
  "has_named_descendant_kind node kind = has_kind_walk [node] kind"

definition parse_shell_lc_single_command_prefix :: "(rstr \<Rightarrow> ts_node option) \<Rightarrow> rstr list \<Rightarrow> rstr list option" where
  "parse_shell_lc_single_command_prefix try_parse_shell command =
     (case extract_bash_command command of
        None \<Rightarrow> None
      | Some (shell, script) \<Rightarrow>
          (case try_parse_shell script of
             None \<Rightarrow> None
           | Some root \<Rightarrow>
               if has_error root then None
               else if \<not> has_named_descendant_kind root (lit ''heredoc_redirect'') then None
               else if has_named_descendant_kind root (lit ''file_redirect'') then None
               else (case find_single_command_node root of
                       None \<Rightarrow> None
                     | Some command_node \<Rightarrow> parse_heredoc_command_words command_node)))"

section \<open>The walks visit every descendant\<close>

text \<open>Descendants in source order, and in the order in which the stack yields them.\<close>

fun preorder :: "ts_node \<Rightarrow> ts_node list" where
  "preorder (TsNode k n e s t cs) = TsNode k n e s t cs # concat (map preorder cs)"

fun stack_order :: "ts_node \<Rightarrow> ts_node list" where
  "stack_order (TsNode k n e s t cs) = TsNode k n e s t cs # concat (map stack_order (rev cs))"

function named_preorder :: "ts_node \<Rightarrow> ts_node list" where
  "named_preorder node = node # concat (map named_preorder (named_children node))"
  by pat_completeness auto
termination
proof (relation "measure size")
  show "(child, node) \<in> measure size" if "child \<in> set (named_children node)" for child node
    using that size_list_estimation' [of child "node_children node" "size child" size]
    by (cases node) (auto simp: named_children_def)
qed simp

declare named_preorder.simps [simp del]

abbreviation is_command_node :: "ts_node \<Rightarrow> bool" where
  "is_command_node n \<equiv> is_named n \<and> kind_is ''command'' n"

lemma preorder_unfold: "preorder n = n # concat (map preorder (node_children n))"
  by (cases n) simp

lemma stack_order_unfold: "stack_order n = n # concat (map stack_order (rev (node_children n)))"
  by (cases n) simp

lemma mset_concat_cong:
  "(\<And>x. x \<in> set xs \<Longrightarrow> mset (f x) = mset (g x)) \<Longrightarrow> mset (concat (map f (rev xs))) = mset (concat (map g xs))"
  by (induction xs) simp_all

lemma mset_stack_order: "mset (stack_order n) = mset (preorder n)"
proof (induction n)
  case (TsNode k n e s t cs)
  then show ?case using mset_concat_cong [of cs stack_order preorder] by simp
qed

lemma word_only_walk_eq:
  "word_only_walk stack acc =
     (if \<exists>n\<in>set (concat (map stack_order stack)). node_rejected n then None
      else Some (acc @ filter is_command_node (concat (map stack_order stack))))"
proof (induction stack acc rule: word_only_walk.induct)
  case (2 node stack acc)
  then show ?case by (auto simp: stack_order_unfold [of node])
qed simp

lemma has_kind_walk_eq:
  "has_kind_walk stack kind \<longleftrightarrow> (\<exists>n\<in>set (concat (map named_preorder stack)). node_kind n = kind)"
proof (induction stack kind rule: has_kind_walk.induct)
  case (2 node stack kind)
  then show ?case by (auto simp: named_preorder.simps [of node])
qed simp


definition found_mset :: "ts_node option \<Rightarrow> ts_node multiset" where
  "found_mset found = (case found of None \<Rightarrow> {#} | Some n \<Rightarrow> {#n#})"

lemma find_single_walk_eq:
  "find_single_command_walk stack found = Some n \<longleftrightarrow>
     found_mset found + mset (filter (kind_is ''command'') (concat (map named_preorder stack))) = {#n#}"
proof (induction stack found rule: find_single_command_walk.induct)
  case (1 found)
  then show ?case by (simp add: found_mset_def split: option.split)
next
  case (2 node stack found)
  have "mset (filter P (concat (map named_preorder (rev cs)))) = mset (filter P (concat (map named_preorder cs)))" for P cs
    using mset_concat_cong [of cs named_preorder named_preorder] by (simp add: mset_filter)
  with 2 show ?case
    by (auto simp: named_preorder.simps [of node] found_mset_def split: option.splits)
qed

lemma find_single_command_node_iff:
  "find_single_command_node root = Some n \<longleftrightarrow> filter (kind_is ''command'') (named_preorder root) = [n]"
proof -
  have "mset xs = {#n#} \<longleftrightarrow> xs = [n]" for xs :: "ts_node list"
    by (cases xs) auto
  then show ?thesis
    unfolding find_single_command_node_def find_single_walk_eq found_mset_def by (simp del: mset_filter)
qed

section \<open>What the shell reads\<close>

text \<open>
  The word a node stands for: its own text, the text between its quotes, the word inside a command
  name, or the joined parts of a concatenation.
\<close>

inductive part_reads :: "ts_node \<Rightarrow> rstr \<Rightarrow> bool" where
  bare: "part_reads n w" if "kind_is ''word'' n \<or> kind_is ''number'' n" "utf8_text n = Some w"
| double: "part_reads n w" if "kind_is ''string'' n" "list_all (kind_is ''string_content'') (named_children n)"
    "utf8_text n = Some ([34] @ w @ [34])"
| single: "part_reads n w" if "kind_is ''raw_string'' n" "utf8_text n = Some ([39] @ w @ [39])"

inductive reads :: "ts_node \<Rightarrow> rstr \<Rightarrow> bool" where
  part: "reads n w" if "part_reads n w"
| name: "reads n w" if "kind_is ''command_name'' n" "named_children n = c # cs" "kind_is ''word'' c" "utf8_text c = Some w"
| joined: "reads n (concat ws)" if "kind_is ''concatenation'' n" "list_all2 part_reads (named_children n) ws" "concat ws \<noteq> []"

lemma collect_some_iff: "collect_some f xs = Some ys \<longleftrightarrow> list_all2 (\<lambda>x y. f x = Some y) xs ys"
proof (induction xs arbitrary: ys)
  case (Cons x xs)
  show ?case by (cases ys) (auto simp: Cons.IH [symmetric] split: option.splits)
qed auto

lemma strip_quotes_iff: "strip_quotes q raw = Some w \<longleftrightarrow> raw = [q] @ w @ [q]"
proof -
  have "strip_prefix [q] (rev r) = Some z \<longleftrightarrow> r = rev z @ [q]" for r z
    by (metis append_Cons append_Nil rev.simps rev_append rev_rev_ident strip_prefix_Some_iff)
  moreover have "strip_prefix [q] raw = Some r \<longleftrightarrow> raw = q # r" for r
    by (simp add: strip_prefix_Some_iff del: strip_prefix.simps)
  ultimately show ?thesis
    by (auto simp: strip_quotes_def simp del: strip_prefix.simps split: option.splits)
       (metis not_None_eq option.map_disc_iff rev_rev_ident)+
qed

lemma concatenated_part_iff: "concatenated_part n = Some w \<longleftrightarrow> part_reads n w"
  by (auto simp: concatenated_part_def part_reads.simps parse_double_quoted_string_def parse_raw_string_def
      strip_quotes_iff list_ex_iff list_all_iff split: if_splits option.splits)

lemma plain_word_split:
  "plain_word n =
     (if kind_is ''command_name'' n then
        (case named_children n of
           [] \<Rightarrow> None
         | c # cs \<Rightarrow> if kind_is ''word'' c then utf8_text c else None)
      else if kind_is ''concatenation'' n then
        (case collect_some concatenated_part (named_children n) of
           None \<Rightarrow> None
         | Some parts \<Rightarrow> if concat parts = [] then None else Some (concat parts))
      else concatenated_part n)"
  by (simp add: plain_word_def concatenated_part_def named_child_def split: list.split)

lemma part_reads_kinds: "part_reads n w \<Longrightarrow> \<not> kind_is ''command_name'' n \<and> \<not> kind_is ''concatenation'' n"
  by (auto simp: part_reads.simps)

lemma plain_word_iff: "plain_word n = Some w \<longleftrightarrow> reads n w"
proof -
  consider (name) "kind_is ''command_name'' n" "\<not> kind_is ''concatenation'' n"
    | (joined) "kind_is ''concatenation'' n" "\<not> kind_is ''command_name'' n"
    | (part) "\<not> kind_is ''command_name'' n" "\<not> kind_is ''concatenation'' n"
    by fastforce
  then show ?thesis
  proof cases
    case name
    then show ?thesis
      using part_reads_kinds [of n w] by (auto simp: plain_word_split reads.simps split: list.splits)
  next
    case joined
    have "plain_word n = Some w \<longleftrightarrow>
        (\<exists>ws. collect_some concatenated_part (named_children n) = Some ws \<and> concat ws \<noteq> [] \<and> w = concat ws)"
      unfolding plain_word_split using joined by (simp del: lit_simps concat_eq_Nil_conv split: option.split) blast
    also have "\<dots> \<longleftrightarrow> reads n w"
      using joined part_reads_kinds [of n w]
      by (auto simp: reads.simps collect_some_iff concatenated_part_iff simp del: concat_eq_Nil_conv lit_simps)
    finally show ?thesis .
  next
    case part
    then show ?thesis
      by (auto simp: plain_word_split concatenated_part_iff reads.simps)
  qed
qed

lemma plain_command_iff:
  "kind_is ''command'' n \<Longrightarrow> parse_plain_command_from_node n = Some ws \<longleftrightarrow> list_all2 reads (named_children n) ws"
  by (simp add: parse_plain_command_from_node_def collect_some_iff plain_word_iff)

text \<open>
  Sorting the commands by position restores source order, whatever the order of the walk, when the
  commands of the tree start at increasing positions.
\<close>

definition commands_in_order :: "ts_node \<Rightarrow> bool" where
  "commands_in_order root = sorted_wrt (\<lambda>a b. start_byte a < start_byte b) (filter is_command_node (preorder root))"

lemma sort_commands:
  assumes "commands_in_order root"
  shows "sort_key start_byte (filter is_command_node (stack_order root)) = filter is_command_node (preorder root)"
proof (rule sort_key_inj_key_eq)
  let ?cs = "filter is_command_node (preorder root)"
  show same: "mset (filter is_command_node (stack_order root)) = mset ?cs"
    by (simp only: mset_filter mset_stack_order)
  have strict: "sorted_wrt (<) (map start_byte ?cs)"
    using assms by (simp add: commands_in_order_def sorted_wrt_map)
  then show "sorted (map start_byte ?cs)" by (rule strict_sorted_imp_sorted)
  have "inj_on start_byte (set ?cs)"
    using strict_sorted_iff [of "map start_byte ?cs"] strict by (simp add: distinct_map)
  with mset_eq_setD [OF same] show "inj_on start_byte (set (filter is_command_node (stack_order root)))" by simp
qed

lemma set_stack_order: "set (stack_order n) = set (preorder n)"
  using mset_eq_setD [OF mset_stack_order] .

lemma command_words_iff:
  "list_all (kind_is ''command'') ns \<Longrightarrow>
   collect_some parse_plain_command_from_node ns = Some cmds \<longleftrightarrow>
   list_all2 (\<lambda>n ws. list_all2 reads (named_children n) ws) ns cmds"
  unfolding collect_some_iff by (induction ns arbitrary: cmds) (auto simp: list_all2_Cons1 plain_command_iff)

text \<open>
  (C23) A script is accepted exactly when its tree has no syntax error, every named node is of an allowed
  kind and every token an allowed operator, quote or blank (so no redirection, substitution,
  assignment, subshell or control flow occurs anywhere), and every argument of every command is a
  plain word; the result is then those words, command by command in source order.
\<close>
theorem plain_commands_spec:
  assumes "commands_in_order root"
  shows "try_parse_word_only_commands_sequence root = Some cmds \<longleftrightarrow>
     \<not> has_error root \<and> (\<forall>n\<in>set (preorder root). \<not> node_rejected n) \<and>
     list_all2 (\<lambda>n ws. list_all2 reads (named_children n) ws) (filter is_command_node (preorder root)) cmds"
proof -
  have "list_all (kind_is ''command'') (filter is_command_node (preorder root))"
    by (simp add: list_all_iff del: lit_simps)
  from command_words_iff [OF this] show ?thesis
    by (auto simp: try_parse_word_only_commands_sequence_def word_only_walk_eq set_stack_order sort_commands [OF assms]
        simp del: lit_simps word_only_walk.simps split: option.splits)
qed

definition word_node :: "nat \<Rightarrow> rstr \<Rightarrow> ts_node" where
  "word_node pos text = TsNode (lit ''word'') True False pos (Some text) []"

definition command_node :: "nat \<Rightarrow> rstr \<Rightarrow> ts_node list \<Rightarrow> ts_node" where
  "command_node pos name args =
     TsNode (lit ''command'') True False pos None
       (TsNode (lit ''command_name'') True False pos (Some name) [word_node pos name] # args)"

definition sample_script :: ts_node where
  "sample_script =
     TsNode (lit ''program'') True False 0 None
       [TsNode (lit ''list'') True False 0 None
          [command_node 0 (lit ''ls'') [],
           TsNode (lit ''&&'') False False 3 (Some (lit ''&&'')) [],
           command_node 6 (lit ''git'') [TsNode (lit ''raw_string'') True False 10 (Some ([39] @ lit ''log'' @ [39])) []]]]"

theorem plain_commands_spec_witness:
  "try_parse_word_only_commands_sequence sample_script = Some [[lit ''ls''], [lit ''git'', lit ''log'']]"
proof -
  have "commands_in_order sample_script"
    by (simp add: commands_in_order_def sample_script_def command_node_def word_node_def)
  from plain_commands_spec [OF this] show ?thesis
    by (simp add: sample_script_def command_node_def word_node_def node_rejected_def ALLOWED_KINDS_def
        ALLOWED_PUNCT_TOKENS_def named_children_def reads.simps part_reads.simps)
qed

text \<open>
  The fall-back for here-documents names a program only when it is the sole command of the script,
  spelled with literal words, and no file redirection occurs; words of the command are never lost.
\<close>
theorem heredoc_prefix_is_sole_command:
  assumes "parse_shell_lc_single_command_prefix try_parse_shell command = Some words"
  shows "\<exists>shell script root cmd. extract_bash_command command = Some (shell, script) \<and> try_parse_shell script = Some root \<and>
     \<not> has_error root \<and> filter (kind_is ''command'') (named_preorder root) = [cmd] \<and>
     (\<forall>n\<in>set (named_preorder root). \<not> kind_is ''file_redirect'' n) \<and> words \<noteq> [] \<and>
     (\<exists>found. list_all2 (\<lambda>n w. heredoc_word n = Some w) (named_children cmd) found \<and> words = List.map_filter id found)"
  using assms
  by (auto simp: parse_shell_lc_single_command_prefix_def parse_heredoc_command_words_def has_named_descendant_kind_def
      has_kind_walk_eq find_single_command_node_iff collect_some_iff Let_def simp del: lit_simps has_kind_walk.simps
      split: option.splits if_splits)

end
