(* ===== verification/Exec_Policy.thy ===== *)
theory Exec_Policy
  imports Absolute_Path "HOL-Library.List_Lexorder" "HOL-Library.DAList"
begin

text \<open>
  The execution policy (\<^verbatim>\<open>execpolicy/src\<close>: \<^verbatim>\<open>decision.rs\<close>, \<^verbatim>\<open>rule.rs\<close>, \<^verbatim>\<open>policy.rs\<close>,
  \<^verbatim>\<open>executable_name.rs\<close> and the errors of \<^verbatim>\<open>error.rs\<close>): which rules match a command, and
  the decision taken for it.

  A policy files its rules by the first token of their pattern in a \<^verbatim>\<open>MultiMap\<close>, a type of a
  third-party crate: its operations are a parameter \<open>mm\<close>, and \<open>lawful_multimap\<close> states what the
  crate documents of them (the values of a key are kept in insertion order; the order of the keys is
  left open).  The only type of the crate that implements the trait \<^verbatim>\<open>Rule\<close> is \<^verbatim>\<open>PrefixRule\<close>,
  so a \<^verbatim>\<open>RuleRef\<close> is a \<open>prefix_rule\<close>; the locale \<open>rule_contract\<close> holds what the policy relies on
  of that trait.  Paths are those of \<^verbatim>\<open>Absolute_Path\<close>, on a Unix platform.
\<close>

section \<open>Decisions\<close>

datatype decision = Allow | Prompt | Forbidden

fun decision_rank :: "decision \<Rightarrow> nat" where
  "decision_rank Allow = 0"
| "decision_rank Prompt = 1"
| "decision_rank Forbidden = 2"

instantiation decision :: linorder
begin

definition less_eq_decision :: "decision \<Rightarrow> decision \<Rightarrow> bool" where
  "less_eq_decision a b \<longleftrightarrow> decision_rank a \<le> decision_rank b"

definition less_decision :: "decision \<Rightarrow> decision \<Rightarrow> bool" where
  "less_decision a b \<longleftrightarrow> decision_rank a < decision_rank b"

instance
proof
  fix a b c :: decision
  show "a < b \<longleftrightarrow> a \<le> b \<and> \<not> b \<le> a" by (auto simp: less_eq_decision_def less_decision_def)
  show "a \<le> a" by (simp add: less_eq_decision_def)
  show "a \<le> b \<Longrightarrow> b \<le> c \<Longrightarrow> a \<le> c" by (simp add: less_eq_decision_def)
  show "a \<le> b \<Longrightarrow> b \<le> a \<Longrightarrow> a = b" by (cases a; cases b) (simp_all add: less_eq_decision_def)
  show "a \<le> b \<or> b \<le> a" by (auto simp: less_eq_decision_def)
qed

end

section \<open>Errors\<close>

record text_position =
  pos_line :: nat
  pos_column :: nat

record text_range =
  range_start :: text_position
  range_end :: text_position

record error_location =
  loc_path :: rstr
  loc_range :: text_range

text \<open>
  An error of the Starlark interpreter is kept as its text and the location that its span stands for.
\<close>

datatype policy_error =
    InvalidDecision rstr
  | InvalidPattern rstr
  | InvalidExample rstr
  | InvalidRule rstr
  | ExampleDidNotMatch "rstr list" "rstr list" "error_location option"
  | ExampleDidMatch rstr rstr "error_location option"
  | Starlark rstr "error_location option"

fun with_location :: "policy_error \<Rightarrow> error_location \<Rightarrow> policy_error" where
  "with_location (ExampleDidNotMatch rules examples None) location = ExampleDidNotMatch rules examples (Some location)"
| "with_location (ExampleDidMatch rule example None) location = ExampleDidMatch rule example (Some location)"
| "with_location other location = other"

fun location_of :: "policy_error \<Rightarrow> error_location option" where
  "location_of (ExampleDidNotMatch rules examples location) = location"
| "location_of (ExampleDidMatch rule example location) = location"
| "location_of (Starlark err span) = span"
| "location_of _ = None"

definition decision_parse :: "rstr \<Rightarrow> (policy_error, decision) outcome" where
  "decision_parse raw =
     (if raw = lit ''allow'' then Ok Allow
      else if raw = lit ''prompt'' then Ok Prompt
      else if raw = lit ''forbidden'' then Ok Forbidden
      else Err (InvalidDecision raw))"

section \<open>Rules\<close>

datatype pattern_token = SingleToken rstr | Alts "rstr list"

fun token_matches :: "pattern_token \<Rightarrow> rstr \<Rightarrow> bool" where
  "token_matches (SingleToken expected) token = (expected = token)"
| "token_matches (Alts alternatives) token = list_ex (\<lambda>alt. alt = token) alternatives"

fun token_alternatives :: "pattern_token \<Rightarrow> rstr list" where
  "token_alternatives (SingleToken expected) = [expected]"
| "token_alternatives (Alts alternatives) = alternatives"

record prefix_pattern =
  pattern_first :: rstr
  pattern_rest :: "pattern_token list"

text \<open>\<^verbatim>\<open>cmd[0]\<close> is read only when the length test has passed, so it never panics.\<close>

definition matches_prefix :: "prefix_pattern \<Rightarrow> rstr list \<Rightarrow> rstr list option" where
  "matches_prefix p cmd =
     (let pattern_length = length (pattern_rest p) + 1 in
      if length cmd < pattern_length \<or> cmd ! 0 \<noteq> pattern_first p then None
      else if list_all (\<lambda>(pattern_token, cmd_token). token_matches pattern_token cmd_token)
                (zip (pattern_rest p) (take (pattern_length - 1) (drop 1 cmd)))
      then Some (take pattern_length cmd) else None)"

datatype rule_match =
    PrefixRuleMatch "rstr list" decision "rstr option" "rstr option"
  | HeuristicsRuleMatch "rstr list" decision

fun match_decision :: "rule_match \<Rightarrow> decision" where
  "match_decision (PrefixRuleMatch matched_prefix d resolved_program justification) = d"
| "match_decision (HeuristicsRuleMatch command d) = d"

fun with_resolved_program :: "rule_match \<Rightarrow> rstr \<Rightarrow> rule_match" where
  "with_resolved_program (PrefixRuleMatch matched_prefix d _ justification) resolved_program =
     PrefixRuleMatch matched_prefix d (Some resolved_program) justification"
| "with_resolved_program other resolved_program = other"

record prefix_rule =
  rule_pattern :: prefix_pattern
  rule_decision :: decision
  rule_justification :: "rstr option"

definition rule_program :: "prefix_rule \<Rightarrow> rstr" where
  "rule_program r = pattern_first (rule_pattern r)"

definition rule_matches :: "prefix_rule \<Rightarrow> rstr list \<Rightarrow> rule_match option" where
  "rule_matches r cmd =
     map_option (\<lambda>matched_prefix. PrefixRuleMatch matched_prefix (rule_decision r) None (rule_justification r))
       (matches_prefix (rule_pattern r) cmd)"

subsection \<open>What the policy relies on of a rule\<close>

text \<open>
  A rule matches only commands that start with its program, and keeps matching when arguments are
  added.  From the first law follows that filing the rules by program loses no match.
\<close>

locale rule_contract =
  fixes program :: "'r \<Rightarrow> rstr"
    and matches :: "'r \<Rightarrow> rstr list \<Rightarrow> 'w option"
  assumes matches_program: "matches r cmd = Some w \<Longrightarrow> cmd \<noteq> [] \<and> hd cmd = program r"
    and matches_extends: "matches r cmd = Some w \<Longrightarrow> matches r (cmd @ args) = Some w"
begin

definition hits :: "'r list \<Rightarrow> rstr list \<Rightarrow> 'w list" where
  "hits rs cmd = List.map_filter (\<lambda>r. matches r cmd) rs"

lemma hits_iff: "w \<in> set (hits rs cmd) \<longleftrightarrow> (\<exists>r\<in>set rs. matches r cmd = Some w)"
  by (force simp: hits_def List.map_filter_def)

lemma hits_empty_iff: "hits rs cmd = [] \<longleftrightarrow> (\<forall>r\<in>set rs. matches r cmd = None)"
  by (auto simp: hits_def List.map_filter_def filter_empty_conv)

lemma hits_other_program:
  "(\<And>r. r \<in> set rs \<Longrightarrow> program r = k) \<Longrightarrow> cmd = [] \<or> hd cmd \<noteq> k \<Longrightarrow> hits rs cmd = []"
  unfolding hits_empty_iff by (metis matches_program not_None_eq)

lemma index_complete:
  assumes "\<And>k r. r \<in> set (table k) \<Longrightarrow> program r = k"
  shows "(\<exists>k. w \<in> set (hits (table k) cmd)) \<longleftrightarrow> cmd \<noteq> [] \<and> w \<in> set (hits (table (hd cmd)) cmd)"
proof
  assume "\<exists>k. w \<in> set (hits (table k) cmd)"
  then obtain k r where r: "r \<in> set (table k)" "matches r cmd = Some w" by (auto simp: hits_iff)
  with matches_program [OF r(2)] assms [OF r(1)] show "cmd \<noteq> [] \<and> w \<in> set (hits (table (hd cmd)) cmd)"
    by (auto simp: hits_iff)
qed auto

lemma hits_extend: "w \<in> set (hits rs cmd) \<Longrightarrow> w \<in> set (hits rs (cmd @ args))"
  unfolding hits_iff by (blast intro: matches_extends)

end

lemma matches_prefix_iff:
  "matches_prefix p cmd = Some w \<longleftrightarrow>
     (\<exists>args rest_args. cmd = pattern_first p # args @ rest_args \<and>
        list_all2 token_matches (pattern_rest p) args \<and> w = pattern_first p # args)"
proof -
  have "(\<exists>args more. xs = args @ more \<and> list_all2 token_matches ps args \<and> w' = args) \<longleftrightarrow>
        length ps \<le> length xs \<and> w' = take (length ps) xs \<and>
        list_all (\<lambda>(p, t). token_matches p t) (zip ps (take (length ps) xs))" for ps xs w'
    by (auto simp: list_all2_iff list_all_iff intro: exI [of _ "drop (length ps) xs"])
  from this [of "tl cmd" "pattern_rest p" "tl w"] show ?thesis
    by (cases cmd; cases w) (auto simp: matches_prefix_def Let_def)
qed

interpretation pr: rule_contract rule_program rule_matches
proof
  show "rule_matches r cmd = Some w \<Longrightarrow> cmd \<noteq> [] \<and> hd cmd = rule_program r" for r cmd w
    by (auto simp: rule_matches_def rule_program_def matches_prefix_iff)
  show "rule_matches r cmd = Some w \<Longrightarrow> rule_matches r (cmd @ args) = Some w" for r cmd w args
    by (fastforce simp: rule_matches_def matches_prefix_iff)
qed

section \<open>Network rules\<close>

datatype network_rule_protocol = Http | Https | Socks5Tcp | Socks5Udp

definition protocol_parse :: "rstr \<Rightarrow> (policy_error, network_rule_protocol) outcome" where
  "protocol_parse raw =
     (if raw = lit ''http'' then Ok Http
      else if raw \<in> {lit ''https'', lit ''https_connect'', lit ''http-connect''} then Ok Https
      else if raw = lit ''socks5_tcp'' then Ok Socks5Tcp
      else if raw = lit ''socks5_udp'' then Ok Socks5Udp
      else Err (InvalidRule
        (lit ''network_rule protocol must be one of http, https, socks5_tcp, socks5_udp (got '' @ raw @ lit '')'')))"

fun as_policy_string :: "network_rule_protocol \<Rightarrow> rstr" where
  "as_policy_string Http = lit ''http''"
| "as_policy_string Https = lit ''https''"
| "as_policy_string Socks5Tcp = lit ''socks5_tcp''"
| "as_policy_string Socks5Udp = lit ''socks5_udp''"

record network_rule =
  net_host :: rstr
  net_protocol :: network_rule_protocol
  net_decision :: decision
  net_justification :: "rstr option"

definition is_port :: "rstr \<Rightarrow> bool" where
  "is_port port \<longleftrightarrow> port \<noteq> [] \<and> list_all is_ascii_digit port"

definition empty_host_message :: rstr where
  "empty_host_message = lit ''network_rule host cannot be empty''"

text \<open>The host part of the text: without brackets and port.\<close>

definition strip_host_port :: "rstr \<Rightarrow> rstr \<Rightarrow> (policy_error, rstr) outcome" where
  "strip_host_port raw host =
     (case strip_prefix (lit ''['') host of
        Some stripped \<Rightarrow>
          (case split_once (ch CHR '']'') stripped of
             None \<Rightarrow> Err (InvalidRule (lit ''network_rule host has an invalid bracketed IPv6 literal''))
           | Some (inside, rest) \<Rightarrow>
               (let port_ok = (case strip_prefix (lit '':'') rest of Some port \<Rightarrow> is_port port | None \<Rightarrow> False) in
                if rest \<noteq> [] \<and> \<not> port_ok
                then Err (InvalidRule (lit ''network_rule host contains an unsupported suffix: '' @ raw))
                else Ok inside))
      | None \<Rightarrow>
          if count_list host (ch CHR '':'') = 1
          then (case rsplit_once (ch CHR '':'') host of
                  Some (candidate, port) \<Rightarrow>
                    if candidate \<noteq> [] \<and> is_port port then Ok candidate else Ok host
                | None \<Rightarrow> Ok host)
          else Ok host)"

definition normalize_network_rule_host :: "rstr \<Rightarrow> (policy_error, rstr) outcome" where
  "normalize_network_rule_host raw =
     (let host = trim raw in
      if host = [] then Err (InvalidRule empty_host_message)
      else if contains_str (lit ''://'') host \<or> ch CHR ''/'' \<in> set host \<or> ch CHR ''?'' \<in> set host \<or>
        ch CHR ''#'' \<in> set host
      then Err (InvalidRule (lit ''network_rule host must be a hostname or IP literal (without scheme or path)''))
      else and_then (strip_host_port raw host) (\<lambda>host.
        let normalized = to_ascii_lowercase (trim (trim_end_matches (ch CHR ''.'') host)) in
        if normalized = [] then Err (InvalidRule empty_host_message)
        else if ch CHR ''*'' \<in> set normalized
        then Err (InvalidRule (lit ''network_rule host must be a specific host; wildcards are not allowed''))
        else if list_ex is_whitespace normalized
        then Err (InvalidRule (lit ''network_rule host cannot contain whitespace''))
        else Ok normalized))"

section \<open>The multi-map of rules\<close>

record 'm multimap =
  mm_new :: 'm
  mm_insert :: "'m \<Rightarrow> rstr \<Rightarrow> prefix_rule \<Rightarrow> 'm"
  mm_get_vec :: "'m \<Rightarrow> rstr \<Rightarrow> prefix_rule list option"
  mm_iter_all :: "'m \<Rightarrow> (rstr \<times> prefix_rule list) list"

definition unwrap_or :: "'a \<Rightarrow> 'a option \<Rightarrow> 'a" where
  "unwrap_or d x = (case x of Some y \<Rightarrow> y | None \<Rightarrow> d)"

definition lawful_multimap :: "'m multimap \<Rightarrow> bool" where
  "lawful_multimap mm \<longleftrightarrow>
     (\<forall>k. mm_get_vec mm (mm_new mm) k = None) \<and>
     (\<forall>m k v k'. mm_get_vec mm (mm_insert mm m k v) k' =
        (if k' = k then Some (unwrap_or [] (mm_get_vec mm m k) @ [v]) else mm_get_vec mm m k')) \<and>
     (\<forall>m. distinct (map fst (mm_iter_all mm m)) \<and> map_of (mm_iter_all mm m) = mm_get_vec mm m)"

section \<open>Policies\<close>

record host_env =
  home_dir :: "rstr option"
  current_dir :: "rstr + rstr"

record match_options =
  resolve_host_executables :: bool

definition default_options :: match_options where
  "default_options = \<lparr>resolve_host_executables = False\<rparr>"

record 'm policy =
  rules_by_program :: 'm
  network_rules :: "network_rule list"
  host_executables_by_name :: "rstr \<Rightarrow> rstr list option"

definition policy_empty :: "'m multimap \<Rightarrow> 'm policy" where
  "policy_empty mm =
     \<lparr>rules_by_program = mm_new mm, network_rules = [], host_executables_by_name = (\<lambda>_. None)\<rparr>"

fun render_pattern_token :: "pattern_token \<Rightarrow> rstr" where
  "render_pattern_token (SingleToken value) = value"
| "render_pattern_token (Alts alternatives) = lit ''['' @ join (lit ''|'') alternatives @ lit '']''"

definition allowed_prefix :: "prefix_rule \<Rightarrow> rstr list" where
  "allowed_prefix r = pattern_first (rule_pattern r) # map render_pattern_token (pattern_rest (rule_pattern r))"

definition allowed_prefixes_of :: "prefix_rule list \<Rightarrow> rstr list list" where
  "allowed_prefixes_of rules = map allowed_prefix (filter (\<lambda>r. rule_decision r = Allow) rules)"

definition get_allowed_prefixes :: "'m multimap \<Rightarrow> 'm policy \<Rightarrow> rstr list list" where
  "get_allowed_prefixes mm p =
     remdups_adj (sort (concat (map (\<lambda>(program, rules). allowed_prefixes_of rules)
       (mm_iter_all mm (rules_by_program p)))))"

definition add_prefix_rule ::
  "'m multimap \<Rightarrow> 'm policy \<Rightarrow> rstr list \<Rightarrow> decision \<Rightarrow> (policy_error, 'm policy) outcome" where
  "add_prefix_rule mm p pre d =
     (case pre of
        [] \<Rightarrow> Err (InvalidPattern (lit ''prefix cannot be empty''))
      | first_token # rest \<Rightarrow>
          Ok (p\<lparr>rules_by_program := mm_insert mm (rules_by_program p) first_token
            \<lparr>rule_pattern = \<lparr>pattern_first = first_token, pattern_rest = map SingleToken rest\<rparr>,
             rule_decision = d, rule_justification = None\<rparr>\<rparr>))"

definition empty_justification :: policy_error where
  "empty_justification = InvalidRule (lit ''justification cannot be empty'')"

definition blank_justification :: "rstr option \<Rightarrow> bool" where
  "blank_justification j = (case j of Some raw \<Rightarrow> trim raw = [] | None \<Rightarrow> False)"

definition add_network_rule ::
  "'m policy \<Rightarrow> rstr \<Rightarrow> network_rule_protocol \<Rightarrow> decision \<Rightarrow> rstr option \<Rightarrow> (policy_error, 'm policy) outcome" where
  "add_network_rule p raw protocol d justification =
     and_then (normalize_network_rule_host raw) (\<lambda>host.
       if blank_justification justification then Err empty_justification
       else Ok (p\<lparr>network_rules := network_rules p @
         [\<lparr>net_host = host, net_protocol = protocol, net_decision = d, net_justification = justification\<rparr>]\<rparr>))"

definition set_host_executable_paths :: "'m policy \<Rightarrow> rstr \<Rightarrow> rstr list \<Rightarrow> 'm policy" where
  "set_host_executable_paths p name paths =
     p\<lparr>host_executables_by_name := (host_executables_by_name p)(name := Some paths)\<rparr>"

definition insert_all :: "'m multimap \<Rightarrow> 'm \<Rightarrow> rstr \<times> prefix_rule list \<Rightarrow> 'm" where
  "insert_all mm m entry = foldl (\<lambda>m rule. mm_insert mm m (fst entry) rule) m (snd entry)"

definition merge_overlay :: "'m multimap \<Rightarrow> 'm policy \<Rightarrow> 'm policy \<Rightarrow> 'm policy" where
  "merge_overlay mm p overlay =
     \<lparr>rules_by_program = foldl (insert_all mm) (rules_by_program p) (mm_iter_all mm (rules_by_program overlay)),
      network_rules = network_rules p @ network_rules overlay,
      host_executables_by_name = host_executables_by_name p ++ host_executables_by_name overlay\<rparr>"

definition upsert_domain :: "rstr list \<Rightarrow> rstr \<Rightarrow> rstr list" where
  "upsert_domain entries host = filter (\<lambda>entry. entry \<noteq> host) entries @ [host]"

fun compile_network_rule :: "rstr list \<times> rstr list \<Rightarrow> network_rule \<Rightarrow> rstr list \<times> rstr list" where
  "compile_network_rule (allowed, denied) rule =
     (case net_decision rule of
        Allow \<Rightarrow> (upsert_domain allowed (net_host rule), filter (\<lambda>entry. entry \<noteq> net_host rule) denied)
      | Forbidden \<Rightarrow> (filter (\<lambda>entry. entry \<noteq> net_host rule) allowed, upsert_domain denied (net_host rule))
      | Prompt \<Rightarrow> (allowed, denied))"

definition compiled_network_domains :: "'m policy \<Rightarrow> rstr list \<times> rstr list" where
  "compiled_network_domains p = foldl compile_network_rule ([], []) (network_rules p)"

section \<open>Matching commands\<close>

definition executable_lookup_key :: "rstr \<Rightarrow> rstr" where
  "executable_lookup_key raw = raw"

definition executable_path_lookup_key :: "rstr \<Rightarrow> rstr option" where
  "executable_path_lookup_key p = map_option executable_lookup_key (file_name p)"

definition match_exact_rules :: "'m multimap \<Rightarrow> 'm policy \<Rightarrow> rstr list \<Rightarrow> rule_match list option" where
  "match_exact_rules mm p cmd =
     (case cmd of
        [] \<Rightarrow> None
      | first # _ \<Rightarrow>
          Some (case mm_get_vec mm (rules_by_program p) first of
                  Some rules \<Rightarrow> List.map_filter (\<lambda>rule. rule_matches rule cmd) rules
                | None \<Rightarrow> []))"

definition match_host_executable_rules ::
  "'m multimap \<Rightarrow> host_env \<Rightarrow> 'm policy \<Rightarrow> rstr list \<Rightarrow> rule_match list" where
  "match_host_executable_rules mm env p cmd =
     (case cmd of
        [] \<Rightarrow> []
      | first # args \<Rightarrow>
          (case from_absolute_path (home_dir env) (current_dir env) first of
             Inl _ \<Rightarrow> []
           | Inr program \<Rightarrow>
               (case executable_path_lookup_key program of
                  None \<Rightarrow> []
                | Some basename \<Rightarrow>
                    (case mm_get_vec mm (rules_by_program p) basename of
                       None \<Rightarrow> []
                     | Some rules \<Rightarrow>
                         if (case host_executables_by_name p basename of
                               Some paths \<Rightarrow> \<not> list_ex (\<lambda>path. path = program) paths
                             | None \<Rightarrow> False)
                         then []
                         else map (\<lambda>rule_match. with_resolved_program rule_match program)
                           (List.map_filter (\<lambda>rule. rule_matches rule (basename # args)) rules)))))"

definition matches_for_command_with_options ::
  "'m multimap \<Rightarrow> host_env \<Rightarrow> 'm policy \<Rightarrow> rstr list \<Rightarrow> (rstr list \<Rightarrow> decision) option \<Rightarrow> match_options \<Rightarrow>
   rule_match list" where
  "matches_for_command_with_options mm env p cmd heuristics_fallback options =
     (let exact_rules = unwrap_or [] (match_exact_rules mm p cmd);
          matched_rules =
            (if exact_rules \<noteq> [] then exact_rules
             else if resolve_host_executables options then match_host_executable_rules mm env p cmd
             else [])
      in case heuristics_fallback of
           Some fallback \<Rightarrow>
             if matched_rules = [] then [HeuristicsRuleMatch cmd (fallback cmd)] else matched_rules
         | None \<Rightarrow> matched_rules)"

definition matches_for_command ::
  "'m multimap \<Rightarrow> host_env \<Rightarrow> 'm policy \<Rightarrow> rstr list \<Rightarrow> (rstr list \<Rightarrow> decision) option \<Rightarrow> rule_match list" where
  "matches_for_command mm env p cmd heuristics_fallback =
     matches_for_command_with_options mm env p cmd heuristics_fallback default_options"

record evaluation =
  eval_decision :: decision
  matched_rules :: "rule_match list"

fun is_heuristics :: "rule_match \<Rightarrow> bool" where
  "is_heuristics (HeuristicsRuleMatch _ _) = True"
| "is_heuristics (PrefixRuleMatch _ _ _ _) = False"

definition is_match :: "evaluation \<Rightarrow> bool" where
  "is_match ev = list_ex (\<lambda>rule_match. \<not> is_heuristics rule_match) (matched_rules ev)"

fun iter_max :: "decision list \<Rightarrow> decision option" where
  "iter_max [] = None"
| "iter_max (d # ds) = (case iter_max ds of None \<Rightarrow> Some d | Some e \<Rightarrow> Some (max d e))"

definition from_matches :: "rule_match list \<Rightarrow> (policy_error, evaluation) outcome" where
  "from_matches ms =
     (case iter_max (map match_decision ms) of
        None \<Rightarrow> Panic
      | Some d \<Rightarrow> Ok \<lparr>eval_decision = d, matched_rules = ms\<rparr>)"

definition check_with_options ::
  "'m multimap \<Rightarrow> host_env \<Rightarrow> 'm policy \<Rightarrow> rstr list \<Rightarrow> (rstr list \<Rightarrow> decision) \<Rightarrow> match_options \<Rightarrow>
   (policy_error, evaluation) outcome" where
  "check_with_options mm env p cmd fallback options =
     from_matches (matches_for_command_with_options mm env p cmd (Some fallback) options)"

definition check ::
  "'m multimap \<Rightarrow> host_env \<Rightarrow> 'm policy \<Rightarrow> rstr list \<Rightarrow> (rstr list \<Rightarrow> decision) \<Rightarrow>
   (policy_error, evaluation) outcome" where
  "check mm env p cmd fallback =
     from_matches (matches_for_command_with_options mm env p cmd (Some fallback) default_options)"

definition check_multiple_with_options ::
  "'m multimap \<Rightarrow> host_env \<Rightarrow> 'm policy \<Rightarrow> rstr list list \<Rightarrow> (rstr list \<Rightarrow> decision) \<Rightarrow> match_options \<Rightarrow>
   (policy_error, evaluation) outcome" where
  "check_multiple_with_options mm env p commands fallback options =
     from_matches (concat (map (\<lambda>command.
       matches_for_command_with_options mm env p command (Some fallback) options) commands))"

definition check_multiple ::
  "'m multimap \<Rightarrow> host_env \<Rightarrow> 'm policy \<Rightarrow> rstr list list \<Rightarrow> (rstr list \<Rightarrow> decision) \<Rightarrow>
   (policy_error, evaluation) outcome" where
  "check_multiple mm env p commands fallback =
     check_multiple_with_options mm env p commands fallback default_options"

section \<open>The decision for a command\<close>

definition rules_for :: "'m multimap \<Rightarrow> 'm \<Rightarrow> rstr \<Rightarrow> prefix_rule list" where
  "rules_for mm m k = unwrap_or [] (mm_get_vec mm m k)"

definition all_rules :: "'m multimap \<Rightarrow> 'm \<Rightarrow> prefix_rule list" where
  "all_rules mm m = concat (map snd (mm_iter_all mm m))"

text \<open>Every rule is filed under its own program.\<close>

definition filed :: "'m multimap \<Rightarrow> 'm \<Rightarrow> bool" where
  "filed mm m \<longleftrightarrow> (\<forall>k. \<forall>r \<in> set (rules_for mm m k). rule_program r = k)"

lemma rules_for_new: "lawful_multimap mm \<Longrightarrow> rules_for mm (mm_new mm) k = []"
  by (simp add: lawful_multimap_def rules_for_def unwrap_or_def)

lemma rules_for_insert:
  "lawful_multimap mm \<Longrightarrow>
   rules_for mm (mm_insert mm m k r) k' = (if k' = k then rules_for mm m k @ [r] else rules_for mm m k')"
  by (simp add: lawful_multimap_def rules_for_def) (simp add: unwrap_or_def)

lemma all_rules_iff:
  assumes "lawful_multimap mm"
  shows "r \<in> set (all_rules mm m) \<longleftrightarrow> (\<exists>k. r \<in> set (rules_for mm m k))"
proof -
  have "(k, rs) \<in> set (mm_iter_all mm m) \<longleftrightarrow> mm_get_vec mm m k = Some rs" for k rs
    using assms map_of_eq_Some_iff [of "mm_iter_all mm m" k rs] by (simp add: lawful_multimap_def)
  moreover have "r \<in> set (rules_for mm m k) \<longleftrightarrow> (\<exists>rs. mm_get_vec mm m k = Some rs \<and> r \<in> set rs)" for k
    by (cases "mm_get_vec mm m k") (simp_all add: rules_for_def unwrap_or_def)
  moreover have "r \<in> set (all_rules mm m) \<longleftrightarrow> (\<exists>k rs. (k, rs) \<in> set (mm_iter_all mm m) \<and> r \<in> set rs)"
    by (force simp: all_rules_def)
  ultimately show ?thesis by simp
qed

lemma filed_new: "lawful_multimap mm \<Longrightarrow> filed mm (mm_new mm)"
  by (simp add: filed_def rules_for_new)

lemma filed_insert: "lawful_multimap mm \<Longrightarrow> filed mm m \<Longrightarrow> filed mm (mm_insert mm m (rule_program r) r)"
  by (simp add: filed_def rules_for_insert)

lemma match_exact_hits:
  "match_exact_rules mm p cmd =
     (if cmd = [] then None else Some (pr.hits (rules_for mm (rules_by_program p) (hd cmd)) cmd))"
  by (auto simp: match_exact_rules_def pr.hits_def rules_for_def unwrap_or_def List.map_filter_def
      split: list.splits option.splits)

lemma iter_max_Max: "iter_max ds = (if ds = [] then None else Some (Max (set ds)))"
  by (induction ds) (auto simp: max_def split: option.splits)

lemma from_matches_eq:
  "from_matches ms =
     (if ms = [] then Panic
      else Ok \<lparr>eval_decision = Max (match_decision ` set ms), matched_rules = ms\<rparr>)"
  by (simp add: from_matches_def iter_max_Max)

lemma matches_with_fallback_not_Nil:
  "matches_for_command_with_options mm env p cmd (Some fallback) options \<noteq> []"
  by (simp add: matches_for_command_with_options_def Let_def)

lemma check_with_options_Ok:
  "check_with_options mm env p cmd fallback options =
     Ok \<lparr>eval_decision = Max (match_decision ` set (matches_for_command_with_options mm env p cmd (Some fallback) options)),
         matched_rules = matches_for_command_with_options mm env p cmd (Some fallback) options\<rparr>"
  using matches_with_fallback_not_Nil [of mm env p cmd fallback options]
  by (simp add: check_with_options_def from_matches_eq)

text \<open>
  The specification of the policy: a rule covers a command when the command starts with the rule's
  program followed by one argument for each further token of the pattern, and the strictest covering
  rule decides; where no rule covers the command, the heuristics do.
\<close>

definition covers :: "prefix_rule \<Rightarrow> rstr list \<Rightarrow> bool" where
  "covers r cmd \<longleftrightarrow>
     (\<exists>args more. cmd = rule_program r # args @ more \<and>
        list_all2 (\<lambda>token arg. arg \<in> set (token_alternatives token)) (pattern_rest (rule_pattern r)) args)"

definition strictest :: "prefix_rule set \<Rightarrow> rstr list \<Rightarrow> (rstr list \<Rightarrow> decision) \<Rightarrow> decision" where
  "strictest rules cmd fallback =
     (let ds = rule_decision ` {r \<in> rules. covers r cmd} in if ds = {} then fallback cmd else Max ds)"

lemma token_matches_iff: "token_matches t a \<longleftrightarrow> a \<in> set (token_alternatives t)"
  by (cases t) (auto simp: list_ex_iff)

lemma rule_matches_iff:
  "rule_matches r cmd = Some w \<longleftrightarrow>
     covers r cmd \<and> w = PrefixRuleMatch (take (Suc (length (pattern_rest (rule_pattern r)))) cmd)
       (rule_decision r) None (rule_justification r)"
proof -
  have "token_matches = (\<lambda>t a. a \<in> set (token_alternatives t))" by (intro ext) (rule token_matches_iff)
  then have covers: "covers r cmd \<longleftrightarrow> (\<exists>args more. cmd = pattern_first (rule_pattern r) # args @ more \<and>
      list_all2 token_matches (pattern_rest (rule_pattern r)) args)"
    by (simp add: covers_def rule_program_def)
  have "matches_prefix (rule_pattern r) cmd = Some pre \<longleftrightarrow>
      covers r cmd \<and> pre = take (Suc (length (pattern_rest (rule_pattern r)))) cmd" for pre
    unfolding matches_prefix_iff covers by (fastforce simp: list_all2_lengthD)
  then show ?thesis by (auto simp: rule_matches_def)
qed

lemma hits_decisions:
  "match_decision ` set (pr.hits rs cmd) = rule_decision ` {r \<in> set rs. covers r cmd}"
proof -
  have "set (pr.hits rs cmd) =
      (\<lambda>r. PrefixRuleMatch (take (Suc (length (pattern_rest (rule_pattern r)))) cmd) (rule_decision r) None
        (rule_justification r)) ` {r \<in> set rs. covers r cmd}"
    by (auto simp: pr.hits_iff rule_matches_iff image_iff)
  then show ?thesis by (simp add: image_image)
qed

lemma hits_covered: "pr.hits rs cmd = [] \<longleftrightarrow> {r \<in> set rs. covers r cmd} = {}"
  by (auto simp: pr.hits_empty_iff rule_matches_iff simp flip: not_Some_eq)

lemma covered_by_index:
  assumes "lawful_multimap mm" "filed mm m"
  shows "{r \<in> set (all_rules mm m). covers r cmd} =
    (if cmd = [] then {} else {r \<in> set (rules_for mm m (hd cmd)). covers r cmd})"
proof -
  have "covers r cmd \<Longrightarrow> cmd \<noteq> [] \<and> hd cmd = rule_program r" for r by (auto simp: covers_def)
  then have "r \<in> set (all_rules mm m) \<and> covers r cmd \<longleftrightarrow>
      cmd \<noteq> [] \<and> r \<in> set (rules_for mm m (hd cmd)) \<and> covers r cmd" for r
    using assms(2) unfolding all_rules_iff [OF assms(1)] filed_def by metis
  then show ?thesis by auto
qed

lemma check_decision:
  assumes "lawful_multimap mm" "filed mm (rules_by_program p)"
  shows "check mm env p cmd fallback =
    Ok \<lparr>eval_decision = strictest (set (all_rules mm (rules_by_program p))) cmd fallback,
        matched_rules = matches_for_command mm env p cmd (Some fallback)\<rparr>"
proof -
  let ?rs = "rules_for mm (rules_by_program p) (hd cmd)"
  let ?ms = "matches_for_command mm env p cmd (Some fallback)"
  have ms: "?ms = (if cmd = [] \<or> pr.hits ?rs cmd = [] then [HeuristicsRuleMatch cmd (fallback cmd)] else pr.hits ?rs cmd)"
    by (simp add: matches_for_command_def matches_for_command_with_options_def match_exact_hits
        default_options_def unwrap_or_def)
  have "Max (match_decision ` set ?ms) = strictest (set (all_rules mm (rules_by_program p))) cmd fallback"
    unfolding ms strictest_def Let_def covered_by_index [OF assms]
    by (cases "cmd = []"; cases "pr.hits ?rs cmd = []") (simp_all add: hits_decisions, auto simp: hits_covered)
  then show ?thesis
    using check_with_options_Ok [of mm env p cmd fallback default_options]
    by (simp add: check_def check_with_options_def matches_for_command_def)
qed

text \<open>
  (C20) Looking a command up under its first token gives the decision of a scan of every rule of the
  policy: the strictest decision among the rules that cover the command, the heuristics' decision
  when there is none.  The lookup never panics.
\<close>
theorem policy_decision_strictest:
  assumes "lawful_multimap mm" "filed mm (rules_by_program p)"
  shows "\<exists>ev. check mm env p cmd fallback = Ok ev \<and>
    eval_decision ev = strictest (set (all_rules mm (rules_by_program p))) cmd fallback \<and>
    (is_match ev \<longleftrightarrow> (\<exists>r \<in> set (all_rules mm (rules_by_program p)). covers r cmd))"
proof -
  let ?rs = "rules_for mm (rules_by_program p) (hd cmd)"
  let ?ev = "\<lparr>eval_decision = strictest (set (all_rules mm (rules_by_program p))) cmd fallback,
    matched_rules = matches_for_command mm env p cmd (Some fallback)\<rparr>"
  have "\<not> is_heuristics w" if "w \<in> set (pr.hits ?rs cmd)" for w
    using that by (auto simp: pr.hits_iff rule_matches_iff)
  then have "is_match ?ev \<longleftrightarrow> cmd \<noteq> [] \<and> pr.hits ?rs cmd \<noteq> []"
    by (cases "pr.hits ?rs cmd")
      (auto simp: is_match_def matches_for_command_def matches_for_command_with_options_def
        match_exact_hits default_options_def unwrap_or_def)
  also have "\<dots> \<longleftrightarrow> {r \<in> set (all_rules mm (rules_by_program p)). covers r cmd} \<noteq> {}"
    unfolding covered_by_index [OF assms] hits_covered by simp
  finally show ?thesis using check_decision [OF assms, of env cmd fallback] by auto
qed

text \<open>A multi-map with the documented behaviour: association lists with distinct keys.\<close>

definition dal_multimap :: "(rstr, prefix_rule list) alist multimap" where
  "dal_multimap =
     \<lparr>mm_new = DAList.empty,
      mm_insert = (\<lambda>m k r. DAList.update k (unwrap_or [] (DAList.lookup m k) @ [r]) m),
      mm_get_vec = DAList.lookup,
      mm_iter_all = DAList.impl_of\<rparr>"

lemma dal_lawful: "lawful_multimap dal_multimap"
  by (simp add: lawful_multimap_def dal_multimap_def lookup_update flip: DAList.lookup.rep_eq)

definition git_rule :: "pattern_token list \<Rightarrow> decision \<Rightarrow> prefix_rule" where
  "git_rule rest d = \<lparr>rule_pattern = \<lparr>pattern_first = lit ''git'', pattern_rest = rest\<rparr>,
     rule_decision = d, rule_justification = None\<rparr>"

definition git_policy :: "(rstr, prefix_rule list) alist policy" where
  "git_policy =
     \<lparr>rules_by_program = mm_insert dal_multimap
        (mm_insert dal_multimap (mm_new dal_multimap) (lit ''git'') (git_rule [] Allow))
        (lit ''git'') (git_rule [Alts [lit ''push'', lit ''fetch'']] Prompt),
      network_rules = [], host_executables_by_name = (\<lambda>_. None)\<rparr>"

definition plain_env :: host_env where
  "plain_env = \<lparr>home_dir = None, current_dir = Inr (lit ''/w'')\<rparr>"

lemma git_policy_filed: "filed dal_multimap (rules_by_program git_policy)"
  by (simp add: git_policy_def filed_def rules_for_insert [OF dal_lawful] rules_for_new [OF dal_lawful]
      rule_program_def git_rule_def)

lemmas dal_eval = rules_for_insert [OF dal_lawful] rules_for_new [OF dal_lawful]

lemmas policy_eval = match_exact_hits pr.hits_def List.map_filter_def rule_matches_def
  matches_prefix_def matches_for_command_with_options_def unwrap_or_def from_matches_def

theorem policy_decision_strictest_witness:
  "lawful_multimap dal_multimap \<and> filed dal_multimap (rules_by_program git_policy) \<and>
   check dal_multimap plain_env git_policy [lit ''git'', lit ''push''] (\<lambda>_. Forbidden) =
     Ok \<lparr>eval_decision = Prompt,
         matched_rules = [PrefixRuleMatch [lit ''git''] Allow None None,
           PrefixRuleMatch [lit ''git'', lit ''push''] Prompt None None]\<rparr> \<and>
   strictest (set (all_rules dal_multimap (rules_by_program git_policy))) [lit ''git'', lit ''push''] (\<lambda>_. Forbidden)
     = Prompt"
proof -
  have ev: "check dal_multimap plain_env git_policy [lit ''git'', lit ''push''] (\<lambda>_. Forbidden) =
     Ok \<lparr>eval_decision = Prompt,
         matched_rules = [PrefixRuleMatch [lit ''git''] Allow None None,
           PrefixRuleMatch [lit ''git'', lit ''push''] Prompt None None]\<rparr>"
    by (simp add: check_def policy_eval git_policy_def dal_eval git_rule_def less_eq_decision_def max_def)
  show ?thesis
    using policy_decision_strictest [OF dal_lawful git_policy_filed, of plain_env "[lit ''git'', lit ''push'']" "\<lambda>_. Forbidden"]
      ev dal_lawful git_policy_filed by auto
qed

text \<open>
  A list of commands is judged as strictly as its strictest command: the joint decision is at
  least the decision for each command and equal to that of one of them.  Only the empty list has
  no decision, and asking for one panics.
\<close>
theorem check_multiple_strictest:
  "(check_multiple_with_options mm env p [] fallback options = Panic) \<and>
   (commands \<noteq> [] \<longrightarrow>
     (\<exists>ev. check_multiple_with_options mm env p commands fallback options = Ok ev \<and>
        (\<forall>c \<in> set commands. \<exists>e. check_with_options mm env p c fallback options = Ok e \<and>
           eval_decision e \<le> eval_decision ev) \<and>
        (\<exists>c \<in> set commands. \<exists>e. check_with_options mm env p c fallback options = Ok e \<and>
           eval_decision e = eval_decision ev)))"
proof -
  let ?m = "\<lambda>c. matches_for_command_with_options mm env p c (Some fallback) options"
  let ?d = "\<lambda>c. Max (match_decision ` set (?m c))"
  have ne: "?m c \<noteq> []" for c by (rule matches_with_fallback_not_Nil)
  have "\<exists>ev. check_multiple_with_options mm env p commands fallback options = Ok ev \<and>
        (\<forall>c \<in> set commands. ?d c \<le> eval_decision ev) \<and> (\<exists>c \<in> set commands. ?d c = eval_decision ev)"
    if "commands \<noteq> []"
  proof -
    let ?ms = "concat (map ?m commands)"
    have "?ms \<noteq> []" using that ne by (cases commands) simp_all
    then have ev: "check_multiple_with_options mm env p commands fallback options =
        Ok \<lparr>eval_decision = Max (match_decision ` set ?ms), matched_rules = ?ms\<rparr>"
      by (simp add: check_multiple_with_options_def from_matches_eq)
    have le: "?d c \<le> Max (match_decision ` set ?ms)" if "c \<in> set commands" for c
      by (rule Max_mono) (use that ne in auto)
    have "Max (match_decision ` set ?ms) \<in> match_decision ` set ?ms"
      using \<open>?ms \<noteq> []\<close> by (intro Max_in) (simp_all del: set_concat)
    then obtain c w where c: "c \<in> set commands" and w: "w \<in> set (?m c)"
      "Max (match_decision ` set ?ms) = match_decision w" by auto
    then have "Max (match_decision ` set ?ms) \<le> ?d c" by simp
    with le [OF c] have "?d c = Max (match_decision ` set ?ms)" by simp
    with c le ev show ?thesis by (metis evaluation.select_convs(1))
  qed
  then show ?thesis by (simp add: check_with_options_Ok) (simp add: check_multiple_with_options_def from_matches_eq)
qed

theorem check_multiple_strictest_witness:
  "[[lit ''git'', lit ''log''], [lit ''git'', lit ''push'']] \<noteq> [] \<and>
   (\<exists>ev. check_multiple_with_options dal_multimap plain_env git_policy
       [[lit ''git'', lit ''log''], [lit ''git'', lit ''push'']] (\<lambda>_. Forbidden) default_options = Ok ev \<and>
     eval_decision ev = Prompt)"
proof -
  let ?cs = "[[lit ''git'', lit ''log''], [lit ''git'', lit ''push'']]"
  have 1: "check_with_options dal_multimap plain_env git_policy [lit ''git'', lit ''log''] (\<lambda>_. Forbidden) default_options =
      Ok \<lparr>eval_decision = Allow, matched_rules = [PrefixRuleMatch [lit ''git''] Allow None None]\<rparr>"
    by (simp add: check_with_options_def policy_eval git_policy_def dal_eval git_rule_def default_options_def)
  have 2: "check_with_options dal_multimap plain_env git_policy [lit ''git'', lit ''push''] (\<lambda>_. Forbidden) default_options =
      Ok \<lparr>eval_decision = Prompt, matched_rules = [PrefixRuleMatch [lit ''git''] Allow None None,
        PrefixRuleMatch [lit ''git'', lit ''push''] Prompt None None]\<rparr>"
    by (simp add: check_with_options_def policy_eval git_policy_def dal_eval git_rule_def less_eq_decision_def
        max_def default_options_def)
  obtain ev where ev: "check_multiple_with_options dal_multimap plain_env git_policy ?cs (\<lambda>_. Forbidden) default_options = Ok ev"
    and le: "\<forall>c \<in> set ?cs. \<exists>e. check_with_options dal_multimap plain_env git_policy c (\<lambda>_. Forbidden) default_options = Ok e \<and>
      eval_decision e \<le> eval_decision ev"
    and eq: "\<exists>c \<in> set ?cs. \<exists>e. check_with_options dal_multimap plain_env git_policy c (\<lambda>_. Forbidden) default_options = Ok e \<and>
      eval_decision e = eval_decision ev"
    using check_multiple_strictest [of dal_multimap plain_env git_policy "\<lambda>_. Forbidden" default_options ?cs] by auto
  from le have "Prompt \<le> eval_decision ev" using 2 by simp
  moreover have "eval_decision ev = Allow \<or> eval_decision ev = Prompt" using eq 1 2 by auto
  ultimately show ?thesis using ev by (auto simp: less_eq_decision_def)
qed

section \<open>Merging policies\<close>

lemma rules_for_insert_all:
  assumes "lawful_multimap mm"
  shows "rules_for mm (insert_all mm m (k, rs)) k' = (if k' = k then rules_for mm m k @ rs else rules_for mm m k')"
  unfolding insert_all_def fst_conv snd_conv
  by (induction rs arbitrary: m) (simp_all add: rules_for_insert [OF assms])

lemma rules_for_insert_entries:
  assumes "lawful_multimap mm" "distinct (map fst es)"
  shows "rules_for mm (foldl (insert_all mm) m es) k = rules_for mm m k @ unwrap_or [] (map_of es k)"
  using assms(2)
proof (induction es arbitrary: m)
  case (Cons e es)
  obtain k' rs where e: "e = (k', rs)" by (cases e)
  have "map_of es k' = None" using Cons.prems e by (simp add: map_of_eq_None_iff)
  with Cons e show ?case by (simp add: rules_for_insert_all [OF assms(1)] unwrap_or_def)
qed (simp add: unwrap_or_def)

lemma rules_for_merge:
  assumes "lawful_multimap mm"
  shows "rules_for mm (rules_by_program (merge_overlay mm p overlay)) k =
    rules_for mm (rules_by_program p) k @ rules_for mm (rules_by_program overlay) k"
proof -
  have "distinct (map fst (mm_iter_all mm (rules_by_program overlay)))"
    "map_of (mm_iter_all mm (rules_by_program overlay)) = mm_get_vec mm (rules_by_program overlay)"
    using assms by (simp_all add: lawful_multimap_def)
  then show ?thesis by (simp add: merge_overlay_def rules_for_insert_entries [OF assms]) (simp add: rules_for_def)
qed

lemma filed_merge:
  "lawful_multimap mm \<Longrightarrow> filed mm (rules_by_program p) \<Longrightarrow> filed mm (rules_by_program overlay) \<Longrightarrow>
   filed mm (rules_by_program (merge_overlay mm p overlay))"
  by (auto simp: filed_def rules_for_merge)

definition exact_matches :: "'m multimap \<Rightarrow> 'm policy \<Rightarrow> rstr list \<Rightarrow> rule_match list" where
  "exact_matches mm p cmd = unwrap_or [] (match_exact_rules mm p cmd)"

lemma hits_append: "pr.hits (xs @ ys) cmd = pr.hits xs cmd @ pr.hits ys cmd"
  by (simp add: pr.hits_def List.map_filter_def)

lemma exact_matches_merge:
  assumes "lawful_multimap mm"
  shows "exact_matches mm (merge_overlay mm p overlay) cmd = exact_matches mm p cmd @ exact_matches mm overlay cmd"
  by (simp add: exact_matches_def match_exact_hits unwrap_or_def rules_for_merge [OF assms] hits_append)

lemma check_exact:
  "check mm env p cmd fallback =
     (let ms = exact_matches mm p cmd in
      if ms = [] then Ok \<lparr>eval_decision = fallback cmd, matched_rules = [HeuristicsRuleMatch cmd (fallback cmd)]\<rparr>
      else Ok \<lparr>eval_decision = Max (match_decision ` set ms), matched_rules = ms\<rparr>)"
  by (simp add: check_def matches_for_command_with_options_def default_options_def exact_matches_def
      from_matches_eq Let_def)

lemma exact_not_heuristics: "w \<in> set (exact_matches mm p cmd) \<Longrightarrow> \<not> is_heuristics w"
  by (auto simp: exact_matches_def match_exact_hits unwrap_or_def pr.hits_iff rule_matches_iff split: if_splits)

lemma check_is_match:
  "check mm env p cmd fallback = Ok ev \<Longrightarrow> is_match ev \<longleftrightarrow> exact_matches mm p cmd \<noteq> []"
  using exact_not_heuristics [of _ mm p cmd]
  by (cases "exact_matches mm p cmd") (auto simp: check_exact is_match_def)

text \<open>
  An overlay can only tighten the decisions its base policy takes by rule: where both policies have
  a rule for a command the stricter decision holds, where one has, its decision, and the merged
  policy falls back on the heuristics only where both do.
\<close>
theorem merge_overlay_decision:
  assumes "lawful_multimap mm" "check mm env p cmd fallback = Ok b" "check mm env overlay cmd fallback = Ok ov"
  shows "\<exists>ev. check mm env (merge_overlay mm p overlay) cmd fallback = Ok ev \<and>
    (is_match ev \<longleftrightarrow> is_match b \<or> is_match ov) \<and>
    eval_decision ev =
      (if is_match b \<and> is_match ov then max (eval_decision b) (eval_decision ov)
       else if is_match b then eval_decision b
       else if is_match ov then eval_decision ov else fallback cmd)"
proof -
  let ?b = "exact_matches mm p cmd" and ?o = "exact_matches mm overlay cmd"
  let ?dec = "\<lambda>ms. if ms = [] then fallback cmd else Max (match_decision ` set ms)"
  obtain ev where ev: "check mm env (merge_overlay mm p overlay) cmd fallback = Ok ev"
    "eval_decision ev = ?dec (?b @ ?o)"
    by (cases "?b @ ?o = []") (auto simp: check_exact Let_def exact_matches_merge [OF assms(1)])
  have dec: "eval_decision b = ?dec ?b" "eval_decision ov = ?dec ?o"
    using assms(2,3) by (auto simp: check_exact Let_def split: if_splits)
  have "Max (match_decision ` set (?b @ ?o)) = max (Max (match_decision ` set ?b)) (Max (match_decision ` set ?o))"
    if "?b \<noteq> []" "?o \<noteq> []" using that by (simp add: image_Un Max_Un)
  then have "?dec (?b @ ?o) = (if ?b \<noteq> [] \<and> ?o \<noteq> [] then max (?dec ?b) (?dec ?o)
      else if ?b \<noteq> [] then ?dec ?b else if ?o \<noteq> [] then ?dec ?o else fallback cmd)"
    by (cases "?b = []"; cases "?o = []") simp_all
  moreover have "is_match ev \<longleftrightarrow> ?b \<noteq> [] \<or> ?o \<noteq> []"
    using check_is_match [OF ev(1)] by (simp add: exact_matches_merge [OF assms(1)])
  ultimately show ?thesis
    using ev dec check_is_match [OF assms(2)] check_is_match [OF assms(3)] by simp
qed

definition push_policy :: "(rstr, prefix_rule list) alist policy" where
  "push_policy =
     \<lparr>rules_by_program = mm_insert dal_multimap (mm_new dal_multimap) (lit ''git'') (git_rule [SingleToken (lit ''push'')] Forbidden),
      network_rules = [], host_executables_by_name = (\<lambda>_. None)\<rparr>"

theorem merge_overlay_decision_witness:
  "lawful_multimap dal_multimap \<and>
   (\<exists>ev. check dal_multimap plain_env (merge_overlay dal_multimap git_policy push_policy)
      [lit ''git'', lit ''push''] (\<lambda>_. Allow) = Ok ev \<and> eval_decision ev = Forbidden)"
proof -
  have 1: "check dal_multimap plain_env git_policy [lit ''git'', lit ''push''] (\<lambda>_. Allow) =
      Ok \<lparr>eval_decision = Prompt, matched_rules = [PrefixRuleMatch [lit ''git''] Allow None None,
        PrefixRuleMatch [lit ''git'', lit ''push''] Prompt None None]\<rparr>"
    by (simp add: check_def policy_eval git_policy_def dal_eval git_rule_def less_eq_decision_def max_def)
  have 2: "check dal_multimap plain_env push_policy [lit ''git'', lit ''push''] (\<lambda>_. Allow) =
      Ok \<lparr>eval_decision = Forbidden, matched_rules = [PrefixRuleMatch [lit ''git'', lit ''push''] Forbidden None None]\<rparr>"
    by (simp add: check_def policy_eval push_policy_def dal_eval git_rule_def)
  show ?thesis
    using merge_overlay_decision [OF dal_lawful 1 2] dal_lawful
    by (auto simp: is_match_def max_def less_eq_decision_def)
qed

section \<open>Host executables\<close>

lemma host_match_cases:
  assumes "PrefixRuleMatch pre d (Some prog) j \<in> set (match_host_executable_rules mm env p cmd)"
  obtains first args base r where "cmd = first # args"
    "from_absolute_path (home_dir env) (current_dir env) first = Inr prog" "file_name prog = Some base"
    "\<And>paths. host_executables_by_name p base = Some paths \<Longrightarrow> prog \<in> set paths"
    "r \<in> set (rules_for mm (rules_by_program p) base)"
    "rule_matches r (base # args) = Some (PrefixRuleMatch pre d None j)"
proof -
  have key: "executable_path_lookup_key = file_name"
    by (rule ext) (simp add: executable_path_lookup_key_def executable_lookup_key_def map_option_case split: option.split)
  note def = match_host_executable_rules_def
  obtain first args where c1: "cmd = first # args" using assms by (cases cmd) (simp_all add: def)
  obtain prog' where c2: "from_absolute_path (home_dir env) (current_dir env) first = Inr prog'"
    using assms by (cases "from_absolute_path (home_dir env) (current_dir env) first") (simp_all add: def c1)
  obtain base where c3: "file_name prog' = Some base"
    using assms by (cases "file_name prog'") (simp_all add: def c1 c2 key)
  obtain rules where c4: "mm_get_vec mm (rules_by_program p) base = Some rules"
    using assms by (cases "mm_get_vec mm (rules_by_program p) base") (simp_all add: def c1 c2 c3 key)
  note c = c1 c2 c3 c4
  have allowed: "prog' \<in> set paths" if "host_executables_by_name p base = Some paths" for paths
    using assms that by (auto simp: def c key list_ex_iff split: if_splits)
  have m: "PrefixRuleMatch pre d (Some prog) j \<in>
      (\<lambda>w. with_resolved_program w prog') ` set (pr.hits rules (base # args))"
    using assms by (auto simp: def c key pr.hits_def split: if_splits option.splits)
  from m obtain r where r: "r \<in> set rules" "rule_matches r (base # args) = Some (PrefixRuleMatch pre d None j)"
    "prog' = prog"
    by (auto simp: pr.hits_iff rule_matches_iff)
  from c(4) r(1) have "r \<in> set (rules_for mm (rules_by_program p) base)" by (simp add: rules_for_def unwrap_or_def)
  with c allowed r show ?thesis by (intro that) auto
qed

text \<open>
  A match through a resolved program is found only with host-executable resolution switched on and
  only where no rule matches the command as written.  The reported program is the normalised path of
  the command's first token, the rule matched is one for the program's file name, and where the policy
  lists host executables of that name the program is one of them.
\<close>
theorem resolved_program_is_listed:
  assumes "PrefixRuleMatch pre d (Some prog) j \<in> set (matches_for_command_with_options mm env p cmd fallback options)"
  shows "resolve_host_executables options \<and> exact_matches mm p cmd = [] \<and>
    (\<exists>first args base r. cmd = first # args \<and>
       from_absolute_path (home_dir env) (current_dir env) first = Inr prog \<and> file_name prog = Some base \<and>
       r \<in> set (rules_for mm (rules_by_program p) base) \<and> covers r (base # args) \<and> d = rule_decision r \<and>
       (case host_executables_by_name p base of Some paths \<Rightarrow> prog \<in> set paths | None \<Rightarrow> True))"
proof -
  let ?w = "PrefixRuleMatch pre d (Some prog) j"
  have "?w \<notin> set (exact_matches mm p cmd)"
    by (auto simp: exact_matches_def match_exact_hits unwrap_or_def pr.hits_iff rule_matches_iff)
  with assms have on: "resolve_host_executables options" "exact_matches mm p cmd = []"
    and host: "?w \<in> set (match_host_executable_rules mm env p cmd)"
    by (auto simp: matches_for_command_with_options_def Let_def simp flip: exact_matches_def
        split: option.splits if_splits)
  from host show ?thesis
  proof (cases rule: host_match_cases)
    case (1 first args base r)
    then show ?thesis using on by (auto simp: rule_matches_iff split: option.splits)
  qed
qed

definition listed_policy :: "(rstr, prefix_rule list) alist policy" where
  "listed_policy = set_host_executable_paths git_policy (lit ''git'') [lit ''/bin/git'']"

theorem resolved_program_is_listed_witness:
  "PrefixRuleMatch [lit ''git''] Allow (Some (lit ''/bin/git'')) None \<in>
     set (matches_for_command_with_options dal_multimap plain_env listed_policy [lit ''/bin/./git''] None
       \<lparr>resolve_host_executables = True\<rparr>) \<and>
   exact_matches dal_multimap listed_policy [lit ''/bin/./git''] = []"
proof -
  have rules: "mm_get_vec dal_multimap (rules_by_program git_policy) (lit ''git'') =
      Some [git_rule [] Allow, git_rule [Alts [lit ''push'', lit ''fetch'']] Prompt]"
    by (simp add: git_policy_def dal_multimap_def unwrap_or_def lookup_update)
  have none: "mm_get_vec dal_multimap (rules_by_program git_policy) (lit ''/bin/./git'') = None"
    by (simp add: git_policy_def dal_multimap_def unwrap_or_def lookup_update)
  have 1: "PrefixRuleMatch [lit ''git''] Allow (Some (lit ''/bin/git'')) None \<in>
     set (matches_for_command_with_options dal_multimap plain_env listed_policy [lit ''/bin/./git''] None
       \<lparr>resolve_host_executables = True\<rparr>)"
    using rules none
    by (simp add: matches_for_command_with_options_def match_exact_rules_def match_host_executable_rules_def
        from_absolute_path_def absolutize_def plain_env_def executable_path_lookup_key_def
        executable_lookup_key_def file_name_def path_eval unwrap_or_def listed_policy_def
        set_host_executable_paths_def List.map_filter_def rule_matches_def matches_prefix_def git_rule_def)
  show ?thesis using resolved_program_is_listed [OF 1] 1 by blast
qed

text \<open>
  A relative program is resolved too: with a rule that allows \<^verbatim>\<open>git\<close> and no host executables
  listed, a program \<^verbatim>\<open>./git\<close> of the working directory is allowed as \<^verbatim>\<open>git\<close>, though the fallback is
  documented for absolute program paths.
\<close>

lemma relative_program_is_resolved:
  "matches_for_command_with_options dal_multimap plain_env git_policy [lit ''./git''] None
     \<lparr>resolve_host_executables = True\<rparr> =
   [PrefixRuleMatch [lit ''git''] Allow (Some (lit ''/w/git'')) None]"
proof -
  have rules: "mm_get_vec dal_multimap (rules_by_program git_policy) (lit ''git'') =
      Some [git_rule [] Allow, git_rule [Alts [lit ''push'', lit ''fetch'']] Prompt]"
    by (simp add: git_policy_def dal_multimap_def unwrap_or_def lookup_update)
  have none: "mm_get_vec dal_multimap (rules_by_program git_policy) (lit ''./git'') = None"
    "host_executables_by_name git_policy (lit ''git'') = None"
    by (simp_all add: git_policy_def dal_multimap_def unwrap_or_def lookup_update)
  show ?thesis using rules none
    by (simp add: matches_for_command_with_options_def match_exact_rules_def match_host_executable_rules_def
        from_absolute_path_def absolutize_def plain_env_def executable_path_lookup_key_def
        executable_lookup_key_def file_name_def path_eval unwrap_or_def
        List.map_filter_def rule_matches_def matches_prefix_def git_rule_def)
qed

section \<open>Network domains and listings\<close>

text \<open>The last decision for a host that is not a prompt.\<close>

definition last_verdict :: "network_rule list \<Rightarrow> rstr \<Rightarrow> decision option" where
  "last_verdict rules host =
     (let ds = filter (\<lambda>d. d \<noteq> Prompt) (map net_decision (filter (\<lambda>r. net_host r = host) rules)) in
      if ds = [] then None else Some (last ds))"

definition domains_ok :: "network_rule list \<Rightarrow> rstr list \<times> rstr list \<Rightarrow> bool" where
  "domains_ok rules res \<longleftrightarrow>
     distinct (fst res) \<and> distinct (snd res) \<and>
     (\<forall>h. (h \<in> set (fst res) \<longleftrightarrow> last_verdict rules h = Some Allow) \<and>
          (h \<in> set (snd res) \<longleftrightarrow> last_verdict rules h = Some Forbidden))"

lemma domains_ok_snoc:
  assumes "domains_ok rules (allowed, denied)"
  shows "domains_ok (rules @ [r]) (compile_network_rule (allowed, denied) r)"
proof -
  have lv: "last_verdict (rules @ [r]) h =
      (if net_host r = h \<and> net_decision r \<noteq> Prompt then Some (net_decision r) else last_verdict rules h)" for h
    by (simp add: last_verdict_def Let_def)
  show ?thesis
    using assms by (cases "net_decision r") (auto simp: domains_ok_def upsert_domain_def lv)
qed

lemma domains_ok_foldl:
  "domains_ok done res \<Longrightarrow> domains_ok (done @ rules) (foldl compile_network_rule res rules)"
proof (induction rules arbitrary: "done" res)
  case (Cons r rules)
  obtain a d where "res = (a, d)" by (cases res)
  with Cons.prems have "domains_ok (done @ [r]) (compile_network_rule res r)" by (metis domains_ok_snoc)
  from Cons.IH [OF this] show ?case by simp
qed simp

text \<open>
  The domain lists handed to the network proxy are the last word of the rules: a host is allowed, or
  denied, exactly when the last rule for it that is not a prompt says so; each list names a host once
  and no host is in both.
\<close>
theorem compiled_domains_last_verdict:
  "distinct (fst (compiled_network_domains p)) \<and> distinct (snd (compiled_network_domains p)) \<and>
   set (fst (compiled_network_domains p)) = {h. last_verdict (network_rules p) h = Some Allow} \<and>
   set (snd (compiled_network_domains p)) = {h. last_verdict (network_rules p) h = Some Forbidden}"
proof -
  have "domains_ok ([] @ network_rules p) (compiled_network_domains p)"
    unfolding compiled_network_domains_def
    by (rule domains_ok_foldl) (simp add: domains_ok_def last_verdict_def)
  then show ?thesis by (auto simp: domains_ok_def)
qed

text \<open>
  The list of allowed prefixes depends only on which rules the policy has, not on the order in which
  the multi-map yields its keys: two multi-maps with the same rules list the same prefixes.
\<close>

lemma set_allowed_prefixes:
  assumes "lawful_multimap mm"
  shows "set (get_allowed_prefixes mm p) =
    allowed_prefix ` {r \<in> set (all_rules mm (rules_by_program p)). rule_decision r = Allow}"
  by (force simp: get_allowed_prefixes_def allowed_prefixes_of_def all_rules_def)

lemma sorted_distinct_adj: "sorted xs \<Longrightarrow> distinct (remdups_adj xs)"
  by (induction xs rule: remdups_adj.induct) auto

lemma allowed_prefixes_sorted:
  "sorted (get_allowed_prefixes mm p) \<and> distinct (get_allowed_prefixes mm p)"
  by (simp add: get_allowed_prefixes_def sorted_remdups_adj sorted_distinct_adj)

lemma allowed_prefixes_unique:
  assumes "lawful_multimap mm" "lawful_multimap mm'"
    "set (all_rules mm (rules_by_program p)) = set (all_rules mm' (rules_by_program p'))"
  shows "get_allowed_prefixes mm p = get_allowed_prefixes mm' p'"
  using allowed_prefixes_sorted [of mm p] allowed_prefixes_sorted [of mm' p']
    set_allowed_prefixes [OF assms(1), of p] set_allowed_prefixes [OF assms(2), of p'] assms(3)
  by (intro sorted_distinct_set_unique) simp_all

end
