(* ===== verification/Sandbox_Policy.thy ===== *)
theory Sandbox_Policy
  imports Exec_Policy "HOL-Library.Product_Lexorder"
begin

text \<open>
  The file-system sandbox policy (\<^verbatim>\<open>protocol/src/permissions.rs\<close>, first part): its entries, how they
  resolve to paths, which access a path has, and the protection of workspace metadata.

  What the operating system answers (environment, kinds of files, canonical paths, contents) is a
  parameter \<open>env\<close>.  An \<^verbatim>\<open>AbsolutePathBuf\<close> is its text; \<^verbatim>\<open>Path\<close> values are compared by their
  components, as the standard library does.
\<close>

section \<open>Paths\<close>

definition path_eq :: "rstr \<Rightarrow> rstr \<Rightarrow> bool" where
  "path_eq p q \<longleftrightarrow> components p = components q"

definition path_starts_with :: "rstr \<Rightarrow> rstr \<Rightarrow> bool" where
  "path_starts_with p base \<longleftrightarrow> prefix (components base) (components p)"

text \<open>\<^verbatim>\<open>Path::strip_prefix\<close>, as the components that are left.\<close>

definition path_strip_prefix :: "rstr \<Rightarrow> rstr \<Rightarrow> path_component list option" where
  "path_strip_prefix p base = strip_prefix (components base) (components p)"

definition render_components :: "path_component list \<Rightarrow> rstr" where
  "render_components cs = join [slash] (map component_text cs)"

text \<open>\<^verbatim>\<open>Iterator::max_by_key\<close> returns the last of several maxima.\<close>

fun max_by_key :: "('a \<Rightarrow> 'k::linorder) \<Rightarrow> 'a list \<Rightarrow> 'a option" where
  "max_by_key f [] = None"
| "max_by_key f (x # xs) =
     (case max_by_key f xs of None \<Rightarrow> Some x | Some y \<Rightarrow> if f y < f x then Some x else Some y)"

lemma max_by_key_None: "max_by_key f xs = None \<longleftrightarrow> xs = []"
  by (cases xs) (auto split: option.splits)

lemma max_by_key_Some: "max_by_key f xs = Some y \<Longrightarrow> y \<in> set xs \<and> (\<forall>x\<in>set xs. f x \<le> f y)"
  by (induction xs arbitrary: y) (fastforce simp: max_by_key_None split: option.splits if_splits)+

section \<open>The environment\<close>

record sandbox_env = host_env +
  tmpdir_var :: "rstr option"
  is_dir :: "rstr \<Rightarrow> bool"
  is_file :: "rstr \<Rightarrow> bool"
  path_exists :: "rstr \<Rightarrow> bool"
  symlink_metadata :: "rstr \<Rightarrow> bool option"
  os_canonicalize :: "rstr \<Rightarrow> rstr option"
  read_to_string :: "rstr \<Rightarrow> rstr option"
  compile_glob :: "rstr \<Rightarrow> rstr + (rstr \<Rightarrow> bool)"

definition absolute_ok :: "'z host_env_scheme \<Rightarrow> rstr \<Rightarrow> rstr option" where
  "absolute_ok env p =
     (case from_absolute_path (home_dir env) (current_dir env) p of Inr q \<Rightarrow> Some q | Inl _ \<Rightarrow> None)"

abbreviation join_path :: "'z host_env_scheme \<Rightarrow> rstr \<Rightarrow> rstr \<Rightarrow> rstr" where
  "join_path env base p \<equiv> absolute_join (home_dir env) base p"

section \<open>The policy\<close>

datatype network_sandbox_policy = NetworkRestricted | NetworkEnabled

definition network_is_enabled :: "network_sandbox_policy \<Rightarrow> bool" where
  "network_is_enabled n \<longleftrightarrow> n = NetworkEnabled"

datatype access_mode = ReadAccess | WriteAccess | NoAccess

fun access_rank :: "access_mode \<Rightarrow> nat" where
  "access_rank ReadAccess = 0"
| "access_rank WriteAccess = 1"
| "access_rank NoAccess = 2"

instantiation access_mode :: linorder
begin

definition less_eq_access_mode :: "access_mode \<Rightarrow> access_mode \<Rightarrow> bool" where
  "less_eq_access_mode a b \<longleftrightarrow> access_rank a \<le> access_rank b"

definition less_access_mode :: "access_mode \<Rightarrow> access_mode \<Rightarrow> bool" where
  "less_access_mode a b \<longleftrightarrow> access_rank a < access_rank b"

instance
proof
  fix a b c :: access_mode
  show "a < b \<longleftrightarrow> a \<le> b \<and> \<not> b \<le> a" by (auto simp: less_eq_access_mode_def less_access_mode_def)
  show "a \<le> a" by (simp add: less_eq_access_mode_def)
  show "a \<le> b \<Longrightarrow> b \<le> c \<Longrightarrow> a \<le> c" by (simp add: less_eq_access_mode_def)
  show "a \<le> b \<Longrightarrow> b \<le> a \<Longrightarrow> a = b" by (cases a; cases b) (simp_all add: less_eq_access_mode_def)
  show "a \<le> b \<or> b \<le> a" by (auto simp: less_eq_access_mode_def)
qed

end

definition can_read :: "access_mode \<Rightarrow> bool" where
  "can_read a \<longleftrightarrow> a \<noteq> NoAccess"

definition can_write :: "access_mode \<Rightarrow> bool" where
  "can_write a \<longleftrightarrow> a = WriteAccess"

datatype special_path =
    Root
  | Minimal
  | ProjectRoots "rstr option"
  | Tmpdir
  | SlashTmp
  | UnknownPath rstr "rstr option"

datatype fs_path = PathEntry rstr | GlobPattern rstr | Special special_path

record sandbox_entry =
  entry_path :: fs_path
  entry_access :: access_mode

datatype sandbox_kind = Restricted | Unrestricted | ExternalSandbox

record fs_policy =
  policy_kind :: sandbox_kind
  glob_scan_max_depth :: "nat option"
  policy_entries :: "sandbox_entry list"

definition entry :: "fs_path \<Rightarrow> access_mode \<Rightarrow> sandbox_entry" where
  "entry p a = \<lparr>entry_path = p, entry_access = a\<rparr>"

definition restricted :: "sandbox_entry list \<Rightarrow> fs_policy" where
  "restricted es = \<lparr>policy_kind = Restricted, glob_scan_max_depth = None, policy_entries = es\<rparr>"

definition default_policy :: fs_policy where
  "default_policy = \<lparr>policy_kind = Restricted, glob_scan_max_depth = None, policy_entries = [entry (Special Root) ReadAccess]\<rparr>"

definition unrestricted :: fs_policy where
  "unrestricted = \<lparr>policy_kind = Unrestricted, glob_scan_max_depth = None, policy_entries = []\<rparr>"

definition external_sandbox :: fs_policy where
  "external_sandbox = \<lparr>policy_kind = ExternalSandbox, glob_scan_max_depth = None, policy_entries = []\<rparr>"

section \<open>Comparing entries\<close>

fun option_path_eq :: "rstr option \<Rightarrow> rstr option \<Rightarrow> bool" where
  "option_path_eq None None = True"
| "option_path_eq (Some p) (Some q) = path_eq p q"
| "option_path_eq _ _ = False"

fun special_eq :: "special_path \<Rightarrow> special_path \<Rightarrow> bool" where
  "special_eq Root Root = True"
| "special_eq Minimal Minimal = True"
| "special_eq (ProjectRoots s) (ProjectRoots t) = option_path_eq s t"
| "special_eq Tmpdir Tmpdir = True"
| "special_eq SlashTmp SlashTmp = True"
| "special_eq (UnknownPath p s) (UnknownPath q t) = (p = q \<and> option_path_eq s t)"
| "special_eq _ _ = False"

fun fs_path_eq :: "fs_path \<Rightarrow> fs_path \<Rightarrow> bool" where
  "fs_path_eq (PathEntry p) (PathEntry q) = path_eq p q"
| "fs_path_eq (GlobPattern p) (GlobPattern q) = (p = q)"
| "fs_path_eq (Special p) (Special q) = special_eq p q"
| "fs_path_eq _ _ = False"

definition entry_eq :: "sandbox_entry \<Rightarrow> sandbox_entry \<Rightarrow> bool" where
  "entry_eq a b \<longleftrightarrow> fs_path_eq (entry_path a) (entry_path b) \<and> entry_access a = entry_access b"

fun special_path_matches_absolute_path :: "special_path \<Rightarrow> rstr \<Rightarrow> bool" where
  "special_path_matches_absolute_path Root path = (path_parent path = None)"
| "special_path_matches_absolute_path SlashTmp path = path_eq path (lit ''/tmp'')"
| "special_path_matches_absolute_path _ path = False"

fun special_paths_share_target :: "special_path \<Rightarrow> special_path \<Rightarrow> bool" where
  "special_paths_share_target Root Root = True"
| "special_paths_share_target Minimal Minimal = True"
| "special_paths_share_target Tmpdir Tmpdir = True"
| "special_paths_share_target SlashTmp SlashTmp = True"
| "special_paths_share_target (ProjectRoots s) (ProjectRoots t) = option_path_eq s t"
| "special_paths_share_target (UnknownPath p s) (UnknownPath q t) = (p = q \<and> option_path_eq s t)"
| "special_paths_share_target _ _ = False"

fun file_system_paths_share_target :: "fs_path \<Rightarrow> fs_path \<Rightarrow> bool" where
  "file_system_paths_share_target (PathEntry left) (PathEntry right) = path_eq left right"
| "file_system_paths_share_target (Special left) (Special right) = special_paths_share_target left right"
| "file_system_paths_share_target (PathEntry path) (Special value) = special_path_matches_absolute_path value path"
| "file_system_paths_share_target (Special value) (PathEntry path) = special_path_matches_absolute_path value path"
| "file_system_paths_share_target (GlobPattern left) (GlobPattern right) = (left = right)"
| "file_system_paths_share_target (GlobPattern _) _ = False"
| "file_system_paths_share_target _ (GlobPattern _) = False"

section \<open>Access to the whole disk\<close>

definition is_special :: "special_path \<Rightarrow> fs_path \<Rightarrow> bool" where
  "is_special value p \<longleftrightarrow> p = Special value"

definition has_root_access :: "(access_mode \<Rightarrow> bool) \<Rightarrow> fs_policy \<Rightarrow> bool" where
  "has_root_access predicate pol \<longleftrightarrow>
     policy_kind pol = Restricted \<and>
     list_ex (\<lambda>e. is_special Root (entry_path e) \<and> predicate (entry_access e)) (policy_entries pol)"

definition has_denied_read_restrictions :: "fs_policy \<Rightarrow> bool" where
  "has_denied_read_restrictions pol \<longleftrightarrow>
     policy_kind pol = Restricted \<and> list_ex (\<lambda>e. entry_access e = NoAccess) (policy_entries pol)"

definition has_same_target_write_override :: "fs_policy \<Rightarrow> sandbox_entry \<Rightarrow> bool" where
  "has_same_target_write_override pol e =
     list_ex (\<lambda>candidate. can_write (entry_access candidate) \<and> entry_access e < entry_access candidate \<and>
       file_system_paths_share_target (entry_path candidate) (entry_path e)) (policy_entries pol)"

definition narrows_write :: "fs_policy \<Rightarrow> sandbox_entry \<Rightarrow> bool" where
  "narrows_write pol e =
     (if can_write (entry_access e) then False
      else case entry_path e of
             PathEntry _ \<Rightarrow> \<not> has_same_target_write_override pol e
           | GlobPattern _ \<Rightarrow> True
           | Special value \<Rightarrow>
               (case value of
                  Root \<Rightarrow> entry_access e = NoAccess
                | Minimal \<Rightarrow> False
                | UnknownPath _ _ \<Rightarrow> False
                | _ \<Rightarrow> \<not> has_same_target_write_override pol e))"

definition has_write_narrowing_entries :: "fs_policy \<Rightarrow> bool" where
  "has_write_narrowing_entries pol \<longleftrightarrow>
     policy_kind pol = Restricted \<and> list_ex (narrows_write pol) (policy_entries pol)"

definition has_full_disk_read_access :: "fs_policy \<Rightarrow> bool" where
  "has_full_disk_read_access pol =
     (case policy_kind pol of
        Restricted \<Rightarrow> has_root_access can_read pol \<and> \<not> has_denied_read_restrictions pol
      | _ \<Rightarrow> True)"

definition has_full_disk_write_access :: "fs_policy \<Rightarrow> bool" where
  "has_full_disk_write_access pol =
     (case policy_kind pol of
        Restricted \<Rightarrow> has_root_access can_write pol \<and> \<not> has_write_narrowing_entries pol
      | _ \<Rightarrow> True)"

definition include_platform_defaults :: "fs_policy \<Rightarrow> bool" where
  "include_platform_defaults pol \<longleftrightarrow>
     \<not> has_full_disk_read_access pol \<and> policy_kind pol = Restricted \<and>
     list_ex (\<lambda>e. is_special Minimal (entry_path e) \<and> can_read (entry_access e)) (policy_entries pol)"

section \<open>Resolving entries\<close>

lemma join_append: "xs \<noteq> [] \<Longrightarrow> ys \<noteq> [] \<Longrightarrow> join s (xs @ ys) = join s xs @ s @ join s ys"
proof (induction xs)
  case (Cons x xs)
  then show ?case by (cases "xs = []") (simp_all add: join_Cons_not_Nil)
qed simp

lemma join_prefix_length: "prefix xs ys \<Longrightarrow> length (join s xs) \<le> length (join s ys)"
proof -
  assume "prefix xs ys"
  then obtain zs where "ys = xs @ zs" by (auto simp: prefix_def)
  then show ?thesis by (cases "xs = []"; cases "zs = []") (simp_all add: join_append)
qed

lemma join_butlast_length:
  "xs \<noteq> [] \<Longrightarrow> last xs \<noteq> [] \<Longrightarrow> length (join s (butlast xs)) < length (join s xs)"
proof (cases xs rule: rev_cases)
  case (snoc ys y)
  moreover assume "xs \<noteq> []" "last xs \<noteq> []"
  ultimately show ?thesis by (cases "ys = []") (simp_all add: join_last)
qed simp

lemma strip_trailing_prefix: "prefix (strip_trailing xs) xs"
  unfolding strip_trailing_def using suffix_dropWhile suffix_to_prefix by (metis rev_rev_ident)

lemma strip_trailing_last: "strip_trailing xs \<noteq> [] \<Longrightarrow> last (strip_trailing xs) \<noteq> []"
  using hd_dropWhile [of trivial_part "rev xs"] by (auto simp: strip_trailing_def last_rev trivial_part_def)

lemma parent_parts_length:
  assumes "strip_trailing xs \<noteq> []"
  shows "length (join s (pre @ strip_trailing (butlast (strip_trailing xs)))) < length (join s (pre @ xs))"
proof -
  let ?ps = "strip_trailing xs"
  have "prefix (pre @ strip_trailing (butlast ?ps)) (butlast (pre @ ?ps))"
    using strip_trailing_prefix [of "butlast ?ps"] assms by (simp add: butlast_append same_prefix_prefix)
  then have "length (join s (pre @ strip_trailing (butlast ?ps))) \<le> length (join s (butlast (pre @ ?ps)))"
    by (rule join_prefix_length)
  also have "\<dots> < length (join s (pre @ ?ps))"
    using join_butlast_length [of "pre @ ?ps"] strip_trailing_last assms by simp
  also have "\<dots> \<le> length (join s (pre @ xs))"
    by (rule join_prefix_length) (simp add: strip_trailing_prefix)
  finally show ?thesis .
qed

lemma path_parent_length:
  assumes "path_parent p = Some q"
  shows "length q < length p"
proof (cases "is_absolute p")
  case True
  then obtain r where p: "p = slash # r" by (cases p) (simp_all add: is_absolute_def)
  have "length (join [slash] (split_on slash r)) = length r" by (simp add: split_on_join_inverse)
  then show ?thesis
    using assms True parent_parts_length [of "split_on slash r" "[slash]" "[]"]
    by (auto simp: path_parent_def p Let_def split: if_splits)
next
  case False
  let ?parts = "split_on slash p"
  have len: "length (join [slash] ?parts) = length p" by (simp add: split_on_join_inverse)
  show ?thesis
  proof (cases "hd ?parts = dot_name")
    case True
    then have parts: "?parts = [dot_name] @ tl ?parts" by (cases ?parts) simp_all
    have "p \<noteq> []" using True by (auto simp: dot_name_def)
    then show ?thesis
      using assms False True len parent_parts_length [of "tl ?parts" "[slash]" "[dot_name]"] parts
      by (auto simp: path_parent_def Let_def split: if_splits)
  next
    case no_dot: False
    then show ?thesis
      using assms False len parent_parts_length [of ?parts "[slash]" "[]"]
      by (auto simp: path_parent_def Let_def split: if_splits)
  qed
qed

function ancestors :: "rstr \<Rightarrow> rstr list" where
  "ancestors p = p # (case path_parent p of None \<Rightarrow> [] | Some q \<Rightarrow> ancestors q)"
  by pat_completeness auto
termination
  by (relation "measure length") (simp_all add: path_parent_length)

declare ancestors.simps [simp del]

text \<open>The two panics of \<^verbatim>\<open>absolute_root_path_for_cwd\<close> are the value \<open>Panic\<close>; for an absolute path they are not reached.\<close>

definition absolute_root_path_for_cwd :: "'z host_env_scheme \<Rightarrow> rstr \<Rightarrow> (unit, rstr) outcome" where
  "absolute_root_path_for_cwd env cwd =
     (case absolute_ok env (last (ancestors cwd)) of Some root \<Rightarrow> Ok root | None \<Rightarrow> Panic)"

definition outcome_option :: "('e, 'a) outcome \<Rightarrow> 'a option" where
  "outcome_option r = (case r of Ok x \<Rightarrow> Some x | _ \<Rightarrow> None)"

fun resolve_file_system_special_path :: "'z sandbox_env_scheme \<Rightarrow> special_path \<Rightarrow> rstr option \<Rightarrow> rstr option" where
  "resolve_file_system_special_path env Root cwd = None"
| "resolve_file_system_special_path env Minimal cwd = None"
| "resolve_file_system_special_path env (UnknownPath _ _) cwd = None"
| "resolve_file_system_special_path env (ProjectRoots subpath) cwd =
     (case cwd of
        None \<Rightarrow> None
      | Some cwd \<Rightarrow>
          (case subpath of
             Some subpath \<Rightarrow> Some (resolve_path_against_base (home_dir env) subpath cwd)
           | None \<Rightarrow> Some cwd))"
| "resolve_file_system_special_path env Tmpdir cwd =
     (case tmpdir_var env of
        None \<Rightarrow> None
      | Some tmpdir \<Rightarrow> if tmpdir = [] then None else absolute_ok env tmpdir)"
| "resolve_file_system_special_path env SlashTmp cwd =
     (case absolute_ok env (lit ''/tmp'') of
        None \<Rightarrow> None
      | Some slash_tmp \<Rightarrow> if is_dir env slash_tmp then Some slash_tmp else None)"

fun resolve_file_system_path :: "'z sandbox_env_scheme \<Rightarrow> fs_path \<Rightarrow> rstr option \<Rightarrow> rstr option" where
  "resolve_file_system_path env (PathEntry path) cwd = Some path"
| "resolve_file_system_path env (GlobPattern _) cwd = None"
| "resolve_file_system_path env (Special value) cwd = resolve_file_system_special_path env value cwd"

definition resolve_entry_path :: "'z sandbox_env_scheme \<Rightarrow> fs_path \<Rightarrow> rstr option \<Rightarrow> rstr option" where
  "resolve_entry_path env path cwd =
     (if path = Special Root
      then (case cwd of None \<Rightarrow> None | Some cwd \<Rightarrow> outcome_option (absolute_root_path_for_cwd env cwd))
      else resolve_file_system_path env path cwd)"

definition resolve_candidate_path :: "'z host_env_scheme \<Rightarrow> rstr \<Rightarrow> rstr \<Rightarrow> rstr option" where
  "resolve_candidate_path env path cwd =
     (if is_absolute path then absolute_ok env path
      else map_option (\<lambda>c. join_path env c path) (absolute_ok env cwd))"

definition resolved_entries_with_cwd :: "'z sandbox_env_scheme \<Rightarrow> fs_policy \<Rightarrow> rstr \<Rightarrow> (rstr \<times> access_mode) list" where
  "resolved_entries_with_cwd env pol cwd =
     (let cwd_absolute = absolute_ok env cwd in
      List.map_filter (\<lambda>e. map_option (\<lambda>path. (path, entry_access e)) (resolve_entry_path env (entry_path e) cwd_absolute))
        (policy_entries pol))"

section \<open>The access of a path\<close>

definition resolved_entry_precedence :: "rstr \<times> access_mode \<Rightarrow> nat \<times> access_mode" where
  "resolved_entry_precedence e = (length (components (fst e)), snd e)"

definition resolve_access_with_cwd :: "'z sandbox_env_scheme \<Rightarrow> fs_policy \<Rightarrow> rstr \<Rightarrow> rstr \<Rightarrow> access_mode" where
  "resolve_access_with_cwd env pol path cwd =
     (case policy_kind pol of
        Restricted \<Rightarrow>
          (case resolve_candidate_path env path cwd of
             None \<Rightarrow> NoAccess
           | Some path \<Rightarrow>
               (case max_by_key resolved_entry_precedence
                  (filter (\<lambda>e. path_starts_with path (fst e)) (resolved_entries_with_cwd env pol cwd)) of
                  Some e \<Rightarrow> snd e
                | None \<Rightarrow> NoAccess))
      | _ \<Rightarrow> WriteAccess)"

definition can_read_path_with_cwd :: "'z sandbox_env_scheme \<Rightarrow> fs_policy \<Rightarrow> rstr \<Rightarrow> rstr \<Rightarrow> bool" where
  "can_read_path_with_cwd env pol path cwd = can_read (resolve_access_with_cwd env pol path cwd)"

section \<open>Protected metadata\<close>

definition PROTECTED_METADATA_PATH_NAMES :: "rstr list" where
  "PROTECTED_METADATA_PATH_NAMES = map lit [''.git'', ''.agents'', ''.codex'', ''.deepseekx'']"

definition is_protected_metadata_name :: "rstr \<Rightarrow> bool" where
  "is_protected_metadata_name name = list_ex (\<lambda>metadata_name. name = metadata_name) PROTECTED_METADATA_PATH_NAMES"

definition is_protected_metadata_directory_name :: "rstr \<Rightarrow> bool" where
  "is_protected_metadata_directory_name name \<longleftrightarrow> name = lit ''.agents'' \<or> name = lit ''.codex'' \<or> name = lit ''.deepseekx''"

definition metadata_path_name :: "rstr \<Rightarrow> rstr option" where
  "metadata_path_name name = List.find (\<lambda>metadata_name. name = metadata_name) PROTECTED_METADATA_PATH_NAMES"

definition metadata_child_of :: "'z host_env_scheme \<Rightarrow> rstr \<Rightarrow> rstr \<Rightarrow> (rstr \<times> rstr) option" where
  "metadata_child_of env target root =
     (case path_strip_prefix target root of
        None \<Rightarrow> None
      | Some [] \<Rightarrow> None
      | Some (first_component # _) \<Rightarrow>
          map_option (\<lambda>metadata_name. (join_path env root metadata_name, metadata_name))
            (metadata_path_name (component_text first_component)))"

fun find_map :: "('a \<Rightarrow> 'b option) \<Rightarrow> 'a list \<Rightarrow> 'b option" where
  "find_map f [] = None"
| "find_map f (x # xs) = (case f x of Some y \<Rightarrow> Some y | None \<Rightarrow> find_map f xs)"

definition metadata_child_of_writable_root ::
  "'z sandbox_env_scheme \<Rightarrow> fs_policy \<Rightarrow> rstr \<Rightarrow> rstr \<Rightarrow> (rstr \<times> rstr) option" where
  "metadata_child_of_writable_root env pol target cwd =
     find_map (\<lambda>e. metadata_child_of env target (fst e))
       (filter (\<lambda>e. can_write (snd e)) (resolved_entries_with_cwd env pol cwd))"

definition has_explicit_write_entry_for_metadata_path ::
  "'z sandbox_env_scheme \<Rightarrow> fs_policy \<Rightarrow> rstr \<Rightarrow> rstr \<Rightarrow> rstr \<Rightarrow> bool" where
  "has_explicit_write_entry_for_metadata_path env pol protected_metadata_path target cwd =
     list_ex (\<lambda>e. can_write (snd e) \<and> path_starts_with target (fst e) \<and>
       path_starts_with (fst e) protected_metadata_path) (resolved_entries_with_cwd env pol cwd)"

definition is_metadata_write_denied :: "'z sandbox_env_scheme \<Rightarrow> fs_policy \<Rightarrow> rstr \<Rightarrow> rstr \<Rightarrow> bool" where
  "is_metadata_write_denied env pol path cwd =
     (if policy_kind pol \<noteq> Restricted then False
      else case resolve_candidate_path env path cwd of
             None \<Rightarrow> True
           | Some target \<Rightarrow>
               (case metadata_child_of_writable_root env pol target cwd of
                  None \<Rightarrow> False
                | Some (protected_metadata_path, _) \<Rightarrow>
                    \<not> has_explicit_write_entry_for_metadata_path env pol protected_metadata_path target cwd))"

definition can_write_path_with_cwd :: "'z sandbox_env_scheme \<Rightarrow> fs_policy \<Rightarrow> rstr \<Rightarrow> rstr \<Rightarrow> bool" where
  "can_write_path_with_cwd env pol path cwd =
     (if \<not> can_write (resolve_access_with_cwd env pol path cwd) then False
      else if has_full_disk_write_access pol then True
      else \<not> is_metadata_write_denied env pol path cwd)"

definition forbidden_agent_metadata_write :: "'z sandbox_env_scheme \<Rightarrow> rstr \<Rightarrow> rstr \<Rightarrow> fs_policy \<Rightarrow> rstr option" where
  "forbidden_agent_metadata_write env path cwd pol =
     (if policy_kind pol \<noteq> Restricted then None
      else case resolve_candidate_path env path cwd of
             None \<Rightarrow> None
           | Some target \<Rightarrow>
               (case metadata_child_of_writable_root env pol target cwd of
                  None \<Rightarrow> None
                | Some (protected_metadata_path, metadata_name) \<Rightarrow>
                    if has_explicit_write_entry_for_metadata_path env pol protected_metadata_path target cwd then None
                    else if \<not> can_write_path_with_cwd env pol target cwd then Some metadata_name
                    else None))"

section \<open>Paths as lists of names\<close>

lemma normal_components: "normal_path p \<Longrightarrow> components p = RootDir # map NormalName (names_of p)"
  unfolding normal_path_def using components_render by metis

lemma map_NormalName_prefix: "prefix (map NormalName xs) (map NormalName ys) \<longleftrightarrow> prefix xs ys"
proof (induction xs arbitrary: ys)
  case (Cons x xs)
  then show ?case by (cases ys) auto
qed simp

lemma starts_with_names:
  "normal_path p \<Longrightarrow> normal_path q \<Longrightarrow> path_starts_with p q \<longleftrightarrow> prefix (names_of q) (names_of p)"
  by (simp add: path_starts_with_def normal_components map_NormalName_prefix)

lemma path_eq_normal: "normal_path p \<Longrightarrow> normal_path q \<Longrightarrow> path_eq p q \<longleftrightarrow> p = q"
proof -
  assume n: "normal_path p" "normal_path q"
  have "inj NormalName" by (rule injI) simp
  then show ?thesis using n normal_path_unique [OF n] by (auto simp: path_eq_def normal_components inj_map_eq_map)
qed

lemma path_parent_render:
  assumes "list_all good_name ns"
  shows "path_parent (render_abs ns) = (if ns = [] then None else Some (render_abs (butlast ns)))"
  using assms
  by (simp add: path_parent_def render_abs_def is_absolute_def split_names strip_trailing_good list_all_butlast
      strip_trailing_def [of "[[]]"] trivial_part_def)

lemma last_ancestors:
  assumes "list_all good_name ns"
  shows "last (ancestors (render_abs ns)) = [slash]"
  using assms
proof (induction ns rule: rev_induct)
  case Nil
  then show ?case by (subst ancestors.simps) (simp add: path_parent_render render_abs_def path_parent_render [of "[]", unfolded render_abs_def, simplified])
next
  case (snoc n ns)
  have "ancestors p \<noteq> []" for p by (subst ancestors.simps) simp
  with snoc show ?case by (subst ancestors.simps) (simp add: path_parent_render list_all_iff)
qed

definition env_ok :: "'z host_env_scheme \<Rightarrow> bool" where
  "env_ok env \<longleftrightarrow> (\<forall>d. current_dir env = Inr d \<longrightarrow> is_absolute d)"

text \<open>
  What the constructors of \<^verbatim>\<open>AbsolutePathBuf\<close> ensure of the paths of a policy, and that no project
  subpath starts in the home directory.
\<close>

fun fs_path_ok :: "fs_path \<Rightarrow> bool" where
  "fs_path_ok (PathEntry p) = normal_path p"
| "fs_path_ok (Special (ProjectRoots (Some s))) = (\<not> starts_with (lit ''~'') s)"
| "fs_path_ok _ = True"

definition policy_ok :: "fs_policy \<Rightarrow> bool" where
  "policy_ok pol \<longleftrightarrow> list_all (\<lambda>e. fs_path_ok (entry_path e)) (policy_entries pol)"

lemma absolute_ok_normal: "env_ok env \<Longrightarrow> absolute_ok env p = Some q \<Longrightarrow> normal_path q"
  using names_normalize absolutize_from_names(1)
  by (auto simp: absolute_ok_def from_absolute_path_def absolutize_def env_ok_def split: sum.splits if_splits)

lemma absolute_ok_id: "normal_path p \<Longrightarrow> absolute_ok env p = Some p"
  using normal_absolute [of p] absolute_no_home [of p] names_normalize [of p] normal_path_unique [of "normalize_path p" p]
  by (simp add: absolute_ok_def from_absolute_path_def absolutize_def)

lemma root_normal [simp]: "normal_path [slash]" "names_of [slash] = []"
  using normal_render [of "[]"] by (simp_all add: render_abs_def)

lemma root_path_of_cwd: "normal_path cwd \<Longrightarrow> absolute_root_path_for_cwd env cwd = Ok [slash]"
proof -
  assume "normal_path cwd"
  then have "last (ancestors cwd) = [slash]"
    using last_ancestors [of "names_of cwd"] by (simp add: normal_path_def)
  then show ?thesis
    using absolute_ok_id [OF root_normal(1), of env] by (simp add: absolute_root_path_for_cwd_def)
qed

lemma join_path_normal:
  "normal_path base \<Longrightarrow> normal_path (join_path env base p)"
  unfolding absolute_join_def resolve_path_against_base_def
  by (rule absolutize_from_names(1)) (rule normal_absolute)

lemma join_path_name:
  assumes "normal_path base" "good_name n" "n \<noteq> [] \<Longrightarrow> hd n \<noteq> ch CHR ''~''"
  shows "names_of (join_path env base n) = names_of base @ [n]"
proof -
  have "components n = [NormalName n]"
    using assms(2) by (auto simp: components_def Let_def good_name_def split_on_no_sep is_absolute_def body_components_def
        trivial_part_def part_component_def dest: hd_in_set)
  moreover have "maybe_expand_home_directory (home_dir env) n = n"
    using assms(2,3) by (intro no_home_expansion) (auto simp: starts_with_def neq_Nil_conv good_name_def trivial_part_def split: if_splits)
  ultimately show ?thesis
    using absolutize_from_names(2) [OF normal_absolute [OF assms(1)], of n]
    by (simp add: absolute_join_def resolve_path_against_base_def)
qed

lemma resolve_special_normal:
  "env_ok env \<Longrightarrow> (\<And>c. cwd = Some c \<Longrightarrow> normal_path c) \<Longrightarrow> resolve_file_system_special_path env v cwd = Some p \<Longrightarrow> normal_path p"
  using absolutize_from_names(1) normal_absolute absolute_ok_normal
  by (cases v) (auto simp: resolve_path_against_base_def split: option.splits if_splits)

lemma resolved_entry_normal:
  assumes "env_ok env" "policy_ok pol" "(p, a) \<in> set (resolved_entries_with_cwd env pol cwd)"
  shows "normal_path p"
proof -
  from assms(3) obtain e where e: "e \<in> set (policy_entries pol)"
    "resolve_entry_path env (entry_path e) (absolute_ok env cwd) = Some p"
    by (auto simp: resolved_entries_with_cwd_def Let_def List.map_filter_def)
  have cwd: "normal_path c" if "absolute_ok env cwd = Some c" for c using absolute_ok_normal [OF assms(1) that] .
  show ?thesis
  proof (cases "entry_path e")
    case (PathEntry q)
    with e assms(2) show ?thesis by (auto simp: resolve_entry_path_def policy_ok_def list_all_iff)
  next
    case (Special v)
    with e cwd show ?thesis
      using resolve_special_normal [OF assms(1), of "absolute_ok env cwd" v p]
      by (auto simp: resolve_entry_path_def outcome_option_def root_path_of_cwd split: if_splits option.splits)
  qed (use e in \<open>simp add: resolve_entry_path_def\<close>)
qed

section \<open>The most specific entry decides\<close>

definition covering :: "'z sandbox_env_scheme \<Rightarrow> fs_policy \<Rightarrow> rstr \<Rightarrow> rstr \<Rightarrow> (rstr list \<times> access_mode) set" where
  "covering env pol cwd p =
     (\<lambda>(q, a). (names_of q, a)) ` set (filter (\<lambda>(q, a). prefix (names_of q) (names_of p)) (resolved_entries_with_cwd env pol cwd))"

definition decides :: "(rstr list \<times> access_mode) set \<Rightarrow> access_mode \<Rightarrow> bool" where
  "decides E a \<longleftrightarrow>
     (if E = {} then a = NoAccess
      else \<exists>ns. (ns, a) \<in> E \<and> (\<forall>(ms, b) \<in> E. length ms \<le> length ns \<and> (ms = ns \<longrightarrow> b \<le> a)))"

lemma decides_unique:
  assumes "\<And>ns a. (ns, a) \<in> E \<Longrightarrow> prefix ns p" "decides E a" "decides E b"
  shows "a = b"
proof (cases "E = {}")
  case False
  with assms(2,3) obtain ns ms where
    n: "(ns, a) \<in> E" "\<forall>(ms, b) \<in> E. length ms \<le> length ns \<and> (ms = ns \<longrightarrow> b \<le> a)" and
    m: "(ms, b) \<in> E" "\<forall>(ks, c) \<in> E. length ks \<le> length ms \<and> (ks = ms \<longrightarrow> c \<le> b)"
    by (auto simp: decides_def)
  have len: "length ns = length ms" using bspec [OF n(2) m(1)] bspec [OF m(2) n(1)] by simp
  have "prefix ns p" "prefix ms p" using assms(1) n(1) m(1) by blast+
  then have "ns = ms" using len prefix_length_prefix [of ns p ms] by (auto simp: prefix_def)
  then show ?thesis using bspec [OF n(2) m(1)] bspec [OF m(2) n(1)] by simp
qed (use assms in \<open>simp add: decides_def\<close>)

lemma resolve_candidate_normal: "normal_path p \<Longrightarrow> resolve_candidate_path env p cwd = Some p"
  by (simp add: resolve_candidate_path_def normal_absolute absolute_ok_id)

lemma resolve_access_decides:
  assumes "env_ok env" "policy_ok pol" "policy_kind pol = Restricted" "resolve_candidate_path env path cwd = Some p" "normal_path p"
  shows "decides (covering env pol cwd p) (resolve_access_with_cwd env pol path cwd)"
proof -
  let ?es = "filter (\<lambda>e. path_starts_with p (fst e)) (resolved_entries_with_cwd env pol cwd)"
  have nrm: "normal_path q" if "(q, a) \<in> set (resolved_entries_with_cwd env pol cwd)" for q a
    using resolved_entry_normal [OF assms(1,2) that] .
  have cov: "(ns, a) \<in> covering env pol cwd p \<longleftrightarrow> (\<exists>q. names_of q = ns \<and> (q, a) \<in> set ?es)" for ns a
    using starts_with_names [OF assms(5) nrm] by (auto simp: covering_def)
  have len: "length (components q) = Suc (length (names_of q))" if "(q, a) \<in> set ?es" for q a
    using nrm [of q a] that by (simp add: normal_components)
  show ?thesis
  proof (cases "max_by_key resolved_entry_precedence ?es")
    case None
    then have "?es = []" by (simp add: max_by_key_None)
    with cov have "covering env pol cwd p = {}" by auto
    with None assms(3,4) show ?thesis by (simp add: decides_def resolve_access_with_cwd_def)
  next
    case (Some e)
    obtain q a where e: "e = (q, a)" by (cases e)
    from max_by_key_Some [OF Some] have mx: "(q, a) \<in> set ?es" "\<forall>x\<in>set ?es. resolved_entry_precedence x \<le> resolved_entry_precedence (q, a)"
      by (simp_all add: e)
    have "length ms \<le> length (names_of q) \<and> (ms = names_of q \<longrightarrow> b \<le> a)" if "(ms, b) \<in> covering env pol cwd p" for ms b
    proof -
      from that cov obtain r where r: "names_of r = ms" "(r, b) \<in> set ?es" by blast
      with bspec [OF mx(2) r(2)] len [OF r(2)] len [OF mx(1)] show ?thesis
        by (auto simp: resolved_entry_precedence_def less_eq_prod_def)
    qed
    moreover have "(names_of q, a) \<in> covering env pol cwd p" using cov mx(1) by blast
    ultimately show ?thesis using Some assms(3,4) e by (auto simp: decides_def resolve_access_with_cwd_def)
  qed
qed

lemma covering_prefix: "(ns, a) \<in> covering env pol cwd p \<Longrightarrow> prefix ns (names_of p)"
  by (auto simp: covering_def)

lemma covering_decides_one:
  "decides (covering env pol cwd p) a \<Longrightarrow> decides (covering env pol cwd p) b \<Longrightarrow> a = b"
  by (rule decides_unique [OF covering_prefix])

text \<open>
  (C31) The access of a path under a restricted policy is that of the most specific entry above it, and
  between entries for the same path no access beats write and write beats read; without an entry
  above it there is no access.  (\<open>decides\<close> holds of exactly one access.)
\<close>
theorem access_of_most_specific_entry:
  assumes "env_ok env" "policy_ok pol" "policy_kind pol = Restricted" "normal_path p"
  shows "resolve_access_with_cwd env pol p cwd = a \<longleftrightarrow> decides (covering env pol cwd p) a"
  using resolve_access_decides [OF assms(1-3) resolve_candidate_normal [OF assms(4)] assms(4)]
    covering_decides_one by blast

definition work_env :: sandbox_env where
  "work_env =
     \<lparr>home_dir = None, current_dir = Inr (lit ''/w''), tmpdir_var = None, is_dir = (\<lambda>p. p = lit ''/tmp''),
      is_file = (\<lambda>_. False), path_exists = (\<lambda>_. False), symlink_metadata = (\<lambda>_. None), os_canonicalize = (\<lambda>_. None),
      read_to_string = (\<lambda>_. None), compile_glob = (\<lambda>p. Inr (\<lambda>q. q = p))\<rparr>"

definition work_policy :: fs_policy where
  "work_policy = restricted [entry (Special Root) ReadAccess, entry (Special (ProjectRoots None)) WriteAccess,
     entry (PathEntry (lit ''/w/secret'')) NoAccess, entry (PathEntry (lit ''/w/secret'')) WriteAccess]"

lemma normal_lits: "normal_path (lit ''/w'')" "normal_path (lit ''/w/secret'')" "normal_path (lit ''/w/secret/key'')"
  "names_of (lit ''/w'') = [lit ''w'']" "names_of (lit ''/w/secret'') = [lit ''w'', lit ''secret'']"
  "names_of (lit ''/w/secret/key'') = [lit ''w'', lit ''secret'', lit ''key'']"
  by (simp_all add: normal_path_def names_of_def components_def is_absolute_def body_components_def trivial_part_def
      dot_name_def dot_dot_name_def part_component_def render_abs_def good_name_def)

lemma work_ok: "env_ok work_env" "policy_ok work_policy" "policy_kind work_policy = Restricted"
  using normal_lits by (simp_all add: env_ok_def work_env_def is_absolute_def policy_ok_def work_policy_def restricted_def entry_def)

lemma work_entries:
  "resolved_entries_with_cwd work_env work_policy (lit ''/w'') =
     [([slash], ReadAccess), (lit ''/w'', WriteAccess), (lit ''/w/secret'', NoAccess), (lit ''/w/secret'', WriteAccess)]"
  using root_path_of_cwd [OF normal_lits(1), of work_env] absolute_ok_id [OF normal_lits(1), of work_env]
  by (simp add: resolved_entries_with_cwd_def work_policy_def restricted_def entry_def List.map_filter_def
      resolve_entry_path_def outcome_option_def)

theorem access_of_most_specific_entry_witness:
  "resolve_access_with_cwd work_env work_policy (lit ''/w/secret/key'') (lit ''/w'') = NoAccess"
proof -
  have "covering work_env work_policy (lit ''/w'') (lit ''/w/secret/key'') =
      {([], ReadAccess), ([lit ''w''], WriteAccess), ([lit ''w'', lit ''secret''], NoAccess), ([lit ''w'', lit ''secret''], WriteAccess)}"
    unfolding covering_def work_entries using normal_lits root_normal(2) by (simp del: lit_simps)
  then have "decides (covering work_env work_policy (lit ''/w'') (lit ''/w/secret/key'')) NoAccess"
    by (simp add: decides_def less_eq_access_mode_def)
  then show ?thesis using access_of_most_specific_entry [OF work_ok normal_lits(3)] by blast
qed

text \<open>The order and the repetition of entries do not matter.\<close>

lemma access_order_irrelevant:
  assumes "env_ok env" "policy_ok pol" "policy_ok pol'" "policy_kind pol = policy_kind pol'"
    "set (policy_entries pol) = set (policy_entries pol')" "normal_path p"
  shows "resolve_access_with_cwd env pol p cwd = resolve_access_with_cwd env pol' p cwd"
proof (cases "policy_kind pol = Restricted")
  case True
  have "set (resolved_entries_with_cwd env pol cwd) = set (resolved_entries_with_cwd env pol' cwd)"
    using assms(5) by (auto simp: resolved_entries_with_cwd_def Let_def List.map_filter_def)
  then have "covering env pol cwd p = covering env pol' cwd p" by (simp add: covering_def)
  then show ?thesis
    using covering_decides_one [OF resolve_access_decides [OF assms(1,2) True resolve_candidate_normal [OF assms(6)] assms(6), of cwd]]
      resolve_access_decides [OF assms(1,3) _ resolve_candidate_normal [OF assms(6)] assms(6), of cwd] True assms(4) by simp
qed (use assms(4) in \<open>auto simp: resolve_access_with_cwd_def split: sandbox_kind.splits\<close>)

section \<open>Access to the whole disk\<close>

lemma tmp_normal: "normal_path (lit ''/tmp'')"
  by (simp add: normal_path_def names_of_def components_def is_absolute_def body_components_def trivial_part_def
      dot_name_def dot_dot_name_def part_component_def render_abs_def good_name_def)

lemma no_parent_root: "normal_path q \<Longrightarrow> path_parent q = None \<longleftrightarrow> q = [slash]"
  using path_parent_render [of "names_of q"] by (auto simp: normal_path_def render_abs_def)

lemma project_subpath:
  assumes "normal_path c" "\<not> starts_with (lit ''~'') s" "\<not> starts_with (lit ''~'') t" "components s = components t"
  shows "resolve_path_against_base home s c = resolve_path_against_base home t c"
  using absolutize_from_names [OF normal_absolute [OF assms(1)]] assms(2-4)
  by (auto simp: resolve_path_against_base_def no_home_expansion simp del: lit_simps intro: normal_path_unique)

lemma share_target_resolves:
  assumes "normal_path c" "is_dir env (lit ''/tmp'')" "fs_path_ok a" "fs_path_ok b"
    "file_system_paths_share_target a b" "resolve_entry_path env b (Some c) = Some q"
  shows "resolve_entry_path env a (Some c) = Some q"
proof -
  have tmp: "resolve_entry_path env (Special SlashTmp) (Some c) = Some (lit ''/tmp'')"
    using absolute_ok_id [OF tmp_normal, of env] assms(2) by (simp add: resolve_entry_path_def del: lit_simps)
  have root: "resolve_entry_path env (Special Root) (Some c) = Some [slash]"
    using root_path_of_cwd [OF assms(1), of env] by (simp add: resolve_entry_path_def outcome_option_def)
  have path: "resolve_entry_path env (PathEntry p) (Some c) = Some p" for p by (simp add: resolve_entry_path_def)
  consider (paths) l r where "a = PathEntry l" "b = PathEntry r" | (ps) l v where "a = PathEntry l" "b = Special v"
    | (sp) v r where "a = Special v" "b = PathEntry r" | (ss) v w where "a = Special v" "b = Special w"
    | (globs) g where "b = GlobPattern g"
    using assms(5) by (cases a; cases b) auto
  then show ?thesis
  proof cases
    case paths
    with assms(3-6) path_eq_normal [of l r] show ?thesis by (simp add: path)
  next
    case ps
    with assms(3,5) have "v = Root \<and> l = [slash] \<or> v = SlashTmp \<and> l = lit ''/tmp''"
      using path_eq_normal [OF _ tmp_normal, of l] no_parent_root [of l] by (cases v) (simp_all del: lit_simps)
    with assms(6) ps tmp root path show ?thesis by (auto simp del: lit_simps)
  next
    case sp
    with assms(4,5) have "v = Root \<and> r = [slash] \<or> v = SlashTmp \<and> r = lit ''/tmp''"
      using path_eq_normal [OF _ tmp_normal, of r] no_parent_root [of r] by (cases v) (simp_all del: lit_simps)
    with assms(6) sp tmp root path show ?thesis by (auto simp del: lit_simps)
  next
    case ss
    show ?thesis
    proof (cases "\<exists>s t. v = ProjectRoots (Some s) \<and> w = ProjectRoots (Some t)")
      case True
      then obtain s t where st: "v = ProjectRoots (Some s)" "w = ProjectRoots (Some t)" by blast
      with assms(3-5) ss project_subpath [OF assms(1), of s t]
      have "resolve_path_against_base (home_dir env) s c = resolve_path_against_base (home_dir env) t c"
        by (simp add: path_eq_def del: lit_simps)
      with assms(6) ss st show ?thesis by (simp add: resolve_entry_path_def)
    next
      case False
      with assms(5,6) ss have "v = w"
        by (cases v; cases w) (auto simp: resolve_entry_path_def elim: option_path_eq.elims)
      with assms(6) ss show ?thesis by simp
    qed
  next
    case globs
    with assms(6) show ?thesis by (simp add: resolve_entry_path_def)
  qed
qed

lemma decidesE:
  assumes "decides E a" "x \<in> E"
  obtains ns where "(ns, a) \<in> E" "\<forall>(ms, b) \<in> E. length ms \<le> length ns \<and> (ms = ns \<longrightarrow> b \<le> a)"
  using assms by (cases "E = {}") (auto simp: decides_def)

lemma unnarrowed_entry:
  assumes "\<not> narrows_write pol e" "resolve_entry_path env (entry_path e) cwd = Some q" "entry_access e \<noteq> WriteAccess"
  shows "entry_access e = ReadAccess \<and> (entry_path e = Special Root \<or> has_same_target_write_override pol e)"
proof -
  have "entry_access e = NoAccess \<Longrightarrow> \<not> has_same_target_write_override pol e"
    by (auto simp: has_same_target_write_override_def list_ex_iff can_write_def less_access_mode_def)
  then show ?thesis
    using assms
    by (cases "entry_access e")
      (auto simp: narrows_write_def can_write_def resolve_entry_path_def split: fs_path.splits special_path.splits)
qed

lemma resolved_entry_cases:
  assumes "(q, a) \<in> set (resolved_entries_with_cwd env pol cwd)"
  obtains e where "e \<in> set (policy_entries pol)" "entry_access e = a"
    "resolve_entry_path env (entry_path e) (absolute_ok env cwd) = Some q"
  using assms by (auto simp: resolved_entries_with_cwd_def Let_def List.map_filter_def)

lemma resolved_entry_intro:
  "e \<in> set (policy_entries pol) \<Longrightarrow> resolve_entry_path env (entry_path e) (absolute_ok env cwd) = Some q \<Longrightarrow>
   (q, entry_access e) \<in> set (resolved_entries_with_cwd env pol cwd)"
  by (force simp: resolved_entries_with_cwd_def Let_def List.map_filter_def)

lemma covering_intro:
  "(q, a) \<in> set (resolved_entries_with_cwd env pol cwd) \<Longrightarrow> prefix (names_of q) (names_of p) \<Longrightarrow>
   (names_of q, a) \<in> covering env pol cwd p"
  by (force simp: covering_def)

text \<open>
  When the policy is taken for one with write access to the whole disk, every path resolves to write
  access: no entry it ignores as shadowed narrows anything.
\<close>
theorem full_disk_write_is_sound:
  assumes "env_ok env" "policy_ok pol" "is_dir env (lit ''/tmp'')" "absolute_ok env cwd \<noteq> None"
    "has_full_disk_write_access pol" "normal_path p"
  shows "can_write_path_with_cwd env pol p cwd"
proof (cases "policy_kind pol = Restricted")
  case True
  let ?E = "covering env pol cwd p" and ?a = "resolve_access_with_cwd env pol p cwd"
  from assms(4) obtain c where c: "absolute_ok env cwd = Some c" by blast
  have nc: "normal_path c" using absolute_ok_normal [OF assms(1) c] .
  from assms(5) True obtain r where r: "r \<in> set (policy_entries pol)" "entry_path r = Special Root" "entry_access r = WriteAccess"
    by (auto simp: has_full_disk_write_access_def has_root_access_def list_ex_iff is_special_def can_write_def)
  then have rootE: "([], WriteAccess) \<in> ?E"
    using covering_intro [OF resolved_entry_intro [OF r(1)], of env cwd "[slash]" p] root_path_of_cwd [OF nc, of env]
    by (simp add: c resolve_entry_path_def outcome_option_def)
  have nar: "\<not> narrows_write pol e" if "e \<in> set (policy_entries pol)" for e
    using that assms(5) True
    by (auto simp: has_full_disk_write_access_def has_write_narrowing_entries_def list_ex_iff)
  from resolve_access_decides [OF assms(1,2) True resolve_candidate_normal [OF assms(6)] assms(6), of cwd] rootE
  obtain ns where d: "(ns, ?a) \<in> ?E" "\<forall>(ms, b) \<in> ?E. length ms \<le> length ns \<and> (ms = ns \<longrightarrow> b \<le> ?a)"
    by (rule decidesE)
  have "?a = WriteAccess"
  proof (rule ccontr)
    assume na: "?a \<noteq> WriteAccess"
    from d(1) obtain q where q: "(q, ?a) \<in> set (resolved_entries_with_cwd env pol cwd)" "ns = names_of q" "prefix ns (names_of p)"
      by (auto simp: covering_def)
    from q(1) obtain e where e: "e \<in> set (policy_entries pol)" "entry_access e = ?a"
      "resolve_entry_path env (entry_path e) (Some c) = Some q"
      by (rule resolved_entry_cases) (use c in simp)
    from unnarrowed_entry [OF nar [OF e(1)] e(3)] na e(2)
    have ra: "?a = ReadAccess" and "entry_path e = Special Root \<or> has_same_target_write_override pol e" by auto
    from this(2) have "(ns, WriteAccess) \<in> ?E"
    proof
      assume "has_same_target_write_override pol e"
      then obtain w where w: "w \<in> set (policy_entries pol)" "entry_access w = WriteAccess"
        "file_system_paths_share_target (entry_path w) (entry_path e)"
        by (auto simp: has_same_target_write_override_def list_ex_iff can_write_def)
      from assms(2) w(1) e(1) have "fs_path_ok (entry_path w)" "fs_path_ok (entry_path e)"
        by (auto simp: policy_ok_def list_all_iff)
      from share_target_resolves [OF nc assms(3) this w(3) e(3)] show ?thesis
        using resolved_entry_intro [OF w(1), of env cwd q] c w(2) q(2,3) by (simp add: covering_intro)
    next
      assume "entry_path e = Special Root"
      with e(3) root_path_of_cwd [OF nc, of env] q(2) rootE show ?thesis
        by (auto simp: resolve_entry_path_def outcome_option_def)
    qed
    with d(2) ra show False by (auto simp: less_eq_access_mode_def)
  qed
  with assms(5) show ?thesis by (simp add: can_write_path_with_cwd_def can_write_def)
qed (use assms(5) in \<open>auto simp: can_write_path_with_cwd_def resolve_access_with_cwd_def can_write_def split: sandbox_kind.splits\<close>)

lemma whole_disk_policy:
  "policy_ok (restricted [entry (PathEntry (lit ''/w'')) ReadAccess, entry (Special Root) WriteAccess, entry (PathEntry (lit ''/w'')) WriteAccess])"
  "has_full_disk_write_access
     (restricted [entry (PathEntry (lit ''/w'')) ReadAccess, entry (Special Root) WriteAccess, entry (PathEntry (lit ''/w'')) WriteAccess])"
  using normal_lits(1)
  by (simp_all add: policy_ok_def restricted_def entry_def has_full_disk_write_access_def has_root_access_def is_special_def
      can_write_def has_write_narrowing_entries_def narrows_write_def has_same_target_write_override_def less_access_mode_def
      path_eq_def)

theorem full_disk_write_is_sound_witness:
  "can_write_path_with_cwd work_env
     (restricted [entry (PathEntry (lit ''/w'')) ReadAccess, entry (Special Root) WriteAccess, entry (PathEntry (lit ''/w'')) WriteAccess])
     (lit ''/w/secret'') (lit ''/w'')"
proof (rule full_disk_write_is_sound)
  show "is_dir work_env (lit ''/tmp'')" by (simp add: work_env_def)
  show "absolute_ok work_env (lit ''/w'') \<noteq> None" using absolute_ok_id [OF normal_lits(1), of work_env] by simp
qed (use work_ok whole_disk_policy normal_lits in \<open>simp_all del: lit_simps\<close>)

section \<open>Metadata of a workspace\<close>

lemma find_map_Some: "find_map f xs = Some y \<Longrightarrow> \<exists>x\<in>set xs. f x = Some y"
  by (induction xs) (auto split: option.splits)

lemma find_map_None: "find_map f xs = None \<longleftrightarrow> (\<forall>x\<in>set xs. f x = None)"
  by (induction xs) (auto split: option.splits)

lemma strip_prefix_map:
  assumes "inj f"
  shows "strip_prefix (map f xs) (map f ys) = map_option (map f) (strip_prefix xs ys)"
  by (induction xs ys rule: strip_prefix.induct) (simp_all add: inj_eq [OF assms])

lemma metadata_names_good: "list_all (\<lambda>m. good_name m \<and> hd m \<noteq> ch CHR ''~'') PROTECTED_METADATA_PATH_NAMES"
  by (simp add: PROTECTED_METADATA_PATH_NAMES_def good_name_def trivial_part_def dot_name_def dot_dot_name_def)

lemma metadata_path_name_iff: "metadata_path_name n = Some m \<longleftrightarrow> n = m \<and> m \<in> set PROTECTED_METADATA_PATH_NAMES"
proof -
  have "List.find (\<lambda>k. n = k) xs = Some m \<longleftrightarrow> n = m \<and> m \<in> set xs" for xs by (induction xs) auto
  then show ?thesis by (simp add: metadata_path_name_def)
qed

lemma metadata_child_of_iff:
  assumes "normal_path target" "normal_path root"
  shows "metadata_child_of env target root = Some (mp, m) \<longleftrightarrow>
     m \<in> set PROTECTED_METADATA_PATH_NAMES \<and> prefix (names_of root @ [m]) (names_of target) \<and> mp = join_path env root m"
proof -
  have "inj NormalName" by (rule injI) simp
  then have "path_strip_prefix target root = map_option (map NormalName) (strip_prefix (names_of root) (names_of target))"
    by (simp add: path_strip_prefix_def normal_components assms strip_prefix_map)
  then show ?thesis
    by (auto simp: metadata_child_of_def metadata_path_name_iff strip_prefix_Some_iff prefix_def strip_prefix_None_iff
        split: option.splits list.splits)
qed

lemma metadata_write_denied:
  assumes "env_ok env" "policy_ok pol" "policy_kind pol = Restricted" "\<not> has_full_disk_write_access pol" "normal_path p"
    and "(r, WriteAccess) \<in> set (resolved_entries_with_cwd env pol cwd)" "m \<in> set PROTECTED_METADATA_PATH_NAMES"
      "prefix (names_of r @ [m]) (names_of p)"
    and "\<And>q s k. (q, WriteAccess) \<in> set (resolved_entries_with_cwd env pol cwd) \<Longrightarrow>
      (s, WriteAccess) \<in> set (resolved_entries_with_cwd env pol cwd) \<Longrightarrow> k \<in> set PROTECTED_METADATA_PATH_NAMES \<Longrightarrow>
      prefix (names_of q) (names_of p) \<Longrightarrow> \<not> prefix (names_of s @ [k]) (names_of q)"
  shows "\<not> can_write_path_with_cwd env pol p cwd \<and>
    (\<exists>k\<in>set PROTECTED_METADATA_PATH_NAMES. forbidden_agent_metadata_write env p cwd pol = Some k)"
proof -
  let ?es = "filter (\<lambda>e. can_write (snd e)) (resolved_entries_with_cwd env pol cwd)"
  have nrm: "normal_path q" if "(q, a) \<in> set (resolved_entries_with_cwd env pol cwd)" for q a
    using resolved_entry_normal [OF assms(1,2) that] .
  have "metadata_child_of env p r \<noteq> None"
    using metadata_child_of_iff [OF assms(5) nrm [OF assms(6)]] assms(7,8) by blast
  with assms(6) have "metadata_child_of_writable_root env pol p cwd \<noteq> None"
    by (auto simp: metadata_child_of_writable_root_def find_map_None can_write_def)
  then obtain mp k where mp: "metadata_child_of_writable_root env pol p cwd = Some (mp, k)" by auto
  then obtain s where s: "(s, WriteAccess) \<in> set (resolved_entries_with_cwd env pol cwd)" "metadata_child_of env p s = Some (mp, k)"
    by (auto simp: metadata_child_of_writable_root_def can_write_def dest!: find_map_Some)
  then have k: "k \<in> set PROTECTED_METADATA_PATH_NAMES" "mp = join_path env s k"
    using metadata_child_of_iff [OF assms(5) nrm [OF s(1)]] by blast+
  have mp_names: "names_of mp = names_of s @ [k]"
    using join_path_name [OF nrm [OF s(1)], of k] k metadata_names_good by (auto simp: list_all_iff)
  have "\<not> has_explicit_write_entry_for_metadata_path env pol mp p cwd"
  proof
    assume "has_explicit_write_entry_for_metadata_path env pol mp p cwd"
    then obtain q where q: "(q, WriteAccess) \<in> set (resolved_entries_with_cwd env pol cwd)" "path_starts_with q mp"
      "path_starts_with p q"
      by (auto simp: has_explicit_write_entry_for_metadata_path_def list_ex_iff can_write_def)
    then have "prefix (names_of s @ [k]) (names_of q)"
      using starts_with_names [OF nrm [OF q(1)] join_path_normal [OF nrm [OF s(1)], of env k]] k(2) mp_names by simp
    moreover have "prefix (names_of q) (names_of p)" using starts_with_names [OF assms(5) nrm [OF q(1)]] q(3) by simp
    ultimately show False using assms(9) [OF q(1) s(1) k(1)] by simp
  qed
  with mp k assms(3,4) resolve_candidate_normal [OF assms(5), of env cwd] show ?thesis
    by (auto simp: can_write_path_with_cwd_def is_metadata_write_denied_def forbidden_agent_metadata_write_def)
qed

text \<open>
  (C33) Under a restricted policy without write access to the whole disk, a path in the \<^verbatim>\<open>.git\<close>,
  \<^verbatim>\<open>.agents\<close>, \<^verbatim>\<open>.codex\<close> or \<^verbatim>\<open>.deepseekx\<close> directory of a writable root cannot be written, unless one of
  the write entries that contain the path lies itself in such a directory of a writable root; the agent is
  told a protected name.
\<close>
theorem metadata_is_protected:
  assumes "env_ok env" "policy_ok pol" "policy_kind pol = Restricted" "\<not> has_full_disk_write_access pol" "normal_path p"
    and "(r, WriteAccess) \<in> set (resolved_entries_with_cwd env pol cwd)" "m \<in> set PROTECTED_METADATA_PATH_NAMES"
      "prefix (names_of r @ [m]) (names_of p)"
    and "\<And>q s k. (q, WriteAccess) \<in> set (resolved_entries_with_cwd env pol cwd) \<Longrightarrow>
      (s, WriteAccess) \<in> set (resolved_entries_with_cwd env pol cwd) \<Longrightarrow> k \<in> set PROTECTED_METADATA_PATH_NAMES \<Longrightarrow>
      prefix (names_of q) (names_of p) \<Longrightarrow> \<not> prefix (names_of s @ [k]) (names_of q)"
  shows "\<not> can_write_path_with_cwd env pol p cwd \<and>
    (\<exists>k\<in>set PROTECTED_METADATA_PATH_NAMES. forbidden_agent_metadata_write env p cwd pol = Some k)"
  using metadata_write_denied [OF assms] .

definition repo_policy :: fs_policy where
  "repo_policy = restricted [entry (Special Root) ReadAccess, entry (Special (ProjectRoots None)) WriteAccess]"

lemma repo_entries: "resolved_entries_with_cwd work_env repo_policy (lit ''/w'') = [([slash], ReadAccess), (lit ''/w'', WriteAccess)]"
  using root_path_of_cwd [OF normal_lits(1), of work_env] absolute_ok_id [OF normal_lits(1), of work_env]
  by (simp add: resolved_entries_with_cwd_def repo_policy_def restricted_def entry_def List.map_filter_def
      resolve_entry_path_def outcome_option_def)

lemma repo_ok: "policy_ok repo_policy" "policy_kind repo_policy = Restricted" "\<not> has_full_disk_write_access repo_policy"
  by (simp_all add: policy_ok_def repo_policy_def restricted_def entry_def has_full_disk_write_access_def has_root_access_def
      is_special_def can_write_def)

lemma hook_path: "normal_path (lit ''/w/.git/hooks'')" "names_of (lit ''/w/.git/hooks'') = [lit ''w'', lit ''.git'', lit ''hooks'']"
  by (simp_all add: normal_path_def names_of_def components_def is_absolute_def body_components_def trivial_part_def
      dot_name_def dot_dot_name_def part_component_def render_abs_def good_name_def)

theorem metadata_is_protected_witness:
  "\<not> can_write_path_with_cwd work_env repo_policy (lit ''/w/.git/hooks'') (lit ''/w'') \<and>
   (\<exists>k\<in>set PROTECTED_METADATA_PATH_NAMES.
      forbidden_agent_metadata_write work_env (lit ''/w/.git/hooks'') (lit ''/w'') repo_policy = Some k)"
proof (rule metadata_is_protected [where r = "lit ''/w''" and m = "lit ''.git''"])
  show "(lit ''/w'', WriteAccess) \<in> set (resolved_entries_with_cwd work_env repo_policy (lit ''/w''))"
    by (simp add: repo_entries del: lit_simps)
  show "lit ''.git'' \<in> set PROTECTED_METADATA_PATH_NAMES" by (simp add: PROTECTED_METADATA_PATH_NAMES_def)
  show "prefix (names_of (lit ''/w'') @ [lit ''.git'']) (names_of (lit ''/w/.git/hooks''))"
    by (simp add: normal_lits hook_path del: lit_simps)
  show "\<not> prefix (names_of s @ [k]) (names_of q)"
    if "(q, WriteAccess) \<in> set (resolved_entries_with_cwd work_env repo_policy (lit ''/w''))"
      "(s, WriteAccess) \<in> set (resolved_entries_with_cwd work_env repo_policy (lit ''/w''))" for q s k
    using that by (simp add: repo_entries normal_lits del: lit_simps)
qed (use work_ok repo_ok hook_path in \<open>simp_all del: lit_simps\<close>)

text \<open>
  Only the first writable root that has the path in a metadata directory is considered.  With a
  writable root inside the metadata of another one, the answer depends on the order of the entries.
\<close>

definition nested_policy :: "bool \<Rightarrow> fs_policy" where
  "nested_policy outer_first =
     restricted ((if outer_first then id else rev)
       [entry (PathEntry (lit ''/w'')) WriteAccess, entry (PathEntry (lit ''/w/.git/s'')) WriteAccess])"

lemma nested_components:
  "components (lit ''/w'') = [RootDir, NormalName (lit ''w'')]"
  "components (lit ''/w/.git'') = [RootDir, NormalName (lit ''w''), NormalName (lit ''.git'')]"
  "components (lit ''/w/.git/s'') = [RootDir, NormalName (lit ''w''), NormalName (lit ''.git''), NormalName (lit ''s'')]"
  "components (lit ''/w/.git/s/.git'') =
     [RootDir, NormalName (lit ''w''), NormalName (lit ''.git''), NormalName (lit ''s''), NormalName (lit ''.git'')]"
  by (simp_all add: components_def is_absolute_def body_components_def trivial_part_def dot_name_def dot_dot_name_def
      part_component_def)

lemma nested_joins:
  "join_path work_env (lit ''/w'') (lit ''.git'') = lit ''/w/.git''"
  "join_path work_env (lit ''/w/.git/s'') (lit ''.git'') = lit ''/w/.git/s/.git''"
  "resolve_candidate_path work_env (lit ''/w/.git/s/.git'') (lit ''/w'') = Some (lit ''/w/.git/s/.git'')"
  by (simp_all add: absolute_join_def path_eval work_env_def resolve_candidate_path_def absolute_ok_def from_absolute_path_def
      absolutize_def)

lemma metadata_denial_depends_on_order:
  "can_write_path_with_cwd work_env (nested_policy True) (lit ''/w/.git/s/.git'') (lit ''/w'')"
  "\<not> can_write_path_with_cwd work_env (nested_policy False) (lit ''/w/.git/s/.git'') (lit ''/w'')"
  using nested_components nested_joins
  by (simp_all add: can_write_path_with_cwd_def resolve_access_with_cwd_def nested_policy_def restricted_def entry_def
      resolved_entries_with_cwd_def List.map_filter_def resolve_entry_path_def path_starts_with_def resolved_entry_precedence_def
      can_write_def has_full_disk_write_access_def has_root_access_def is_special_def is_metadata_write_denied_def
      metadata_child_of_writable_root_def metadata_child_of_def path_strip_prefix_def metadata_path_name_def
      PROTECTED_METADATA_PATH_NAMES_def has_explicit_write_entry_for_metadata_path_def)

end
