(* ===== verification/Patch_Invocation.thy ===== *)
theory Patch_Invocation
  imports Patch_Files Patch_Grammar Shell_Script Sandbox_Policy
begin

text \<open>
  Recognising an invocation of \<^verbatim>\<open>apply_patch\<close> and verifying its patch against the file system
  (\<^verbatim>\<open>apply-patch/src/invocation.rs\<close>, with \<^verbatim>\<open>ApplyPatchAction\<close> and
  \<^verbatim>\<open>unified_diff_from_chunks\<close> of \<^verbatim>\<open>apply-patch/src/lib.rs\<close>).

  Two crates are parameters: \<^verbatim>\<open>tree-sitter\<close>, which answers the code's query with a list of matches
  (each a list of named captures and their texts, absent when \<^verbatim>\<open>utf8_text\<close> fails), and
  \<^verbatim>\<open>similar\<close>, which renders a unified diff.  The \<^verbatim>\<open>HashMap\<close> of changes is a list of bindings with
  different paths, in some order.

  The lemmas relate the two readings of a patch, the one that is shown and approved (the action) and
  the one that is carried out (the hunks): which paths the action knows of, and which files the
  application can change at all.
\<close>

section \<open>Data\<close>

datatype file_change =
    AddChange rstr
  | DeleteChange rstr
  | UpdateChange rstr "rstr option" rstr

type_synonym change_map = "(rstr \<times> file_change) list"

record patch_action =
  action_changes :: change_map
  action_patch :: rstr
  action_cwd :: rstr

datatype extract_heredoc_error =
    CommandDidNotStartWithApplyPatch
  | FailedToLoadBashGrammar rstr
  | HeredocNotUtf8
  | FailedToParsePatchIntoAst
  | FailedToFindHeredocBody

datatype maybe_apply_patch =
    PatchBody apply_patch_args
  | ShellParseError extract_heredoc_error
  | PatchParseError parse_error
  | NotApplyPatch

datatype maybe_verified =
    VerifiedBody patch_action
  | VerifiedShellParseError extract_heredoc_error
  | CorrectnessError apply_patch_error
  | VerifiedNotApplyPatch

record bash_query =
  language_error :: "rstr option"
  query_matches :: "rstr \<Rightarrow> (rstr \<times> rstr option) list list option"

section \<open>Shells\<close>

datatype apply_patch_shell = UnixShell | PowerShellShell | CmdShell

definition APPLY_PATCH_COMMANDS :: "rstr list" where
  "APPLY_PATCH_COMMANDS = [lit ''apply_patch'', lit ''applypatch'']"

definition same_ignoring_case :: "rstr \<Rightarrow> rstr \<Rightarrow> bool" where
  "same_ignoring_case s t \<longleftrightarrow> to_ascii_lowercase s = to_ascii_lowercase t"

definition classify_shell_name :: "rstr \<Rightarrow> rstr option" where
  "classify_shell_name shell = map_option to_ascii_lowercase (file_stem shell)"

definition classify_shell :: "rstr \<Rightarrow> rstr \<Rightarrow> apply_patch_shell option" where
  "classify_shell shell flag =
     Option.bind (classify_shell_name shell) (\<lambda>name.
       if name \<in> {lit ''bash'', lit ''zsh'', lit ''sh''} \<and> (flag = lit ''-lc'' \<or> flag = lit ''-c'') then Some UnixShell
       else if name \<in> {lit ''pwsh'', lit ''powershell''} \<and> same_ignoring_case flag (lit ''-command'') then Some PowerShellShell
       else if name = lit ''cmd'' \<and> same_ignoring_case flag (lit ''/c'') then Some CmdShell
       else None)"

definition can_skip_flag :: "rstr \<Rightarrow> rstr \<Rightarrow> bool" where
  "can_skip_flag shell flag =
     (case classify_shell_name shell of
        None \<Rightarrow> False
      | Some name \<Rightarrow> name \<in> {lit ''pwsh'', lit ''powershell''} \<and> same_ignoring_case flag (lit ''-noprofile''))"

fun parse_shell_script :: "rstr list \<Rightarrow> (apply_patch_shell \<times> rstr) option" where
  "parse_shell_script [shell, flag, script] = map_option (\<lambda>t. (t, script)) (classify_shell shell flag)"
| "parse_shell_script [shell, skip_flag, flag, script] =
     (if can_skip_flag shell skip_flag then map_option (\<lambda>t. (t, script)) (classify_shell shell flag) else None)"
| "parse_shell_script argv = None"

section \<open>The heredoc\<close>

text \<open>The captures of one match, in order: the last one of a name is kept.\<close>

fun read_captures ::
  "(rstr \<times> rstr option) list \<Rightarrow> rstr option \<Rightarrow> rstr option \<Rightarrow> extract_heredoc_error + rstr option \<times> rstr option" where
  "read_captures [] heredoc_text cd_path = Inr (heredoc_text, cd_path)"
| "read_captures ((name, text) # cs) heredoc_text cd_path =
     (if name = lit ''heredoc'' then
        (case text of
           None \<Rightarrow> Inl HeredocNotUtf8
         | Some t \<Rightarrow> read_captures cs (Some (trim_end_matches newline t)) cd_path)
      else if name = lit ''cd_path'' then
        (case text of None \<Rightarrow> Inl HeredocNotUtf8 | Some t \<Rightarrow> read_captures cs heredoc_text (Some t))
      else if name = lit ''cd_raw_string'' then
        (case text of
           None \<Rightarrow> Inl HeredocNotUtf8
         | Some raw \<Rightarrow> read_captures cs heredoc_text (Some (unwrap_or raw (strip_quotes 39 raw))))
      else read_captures cs heredoc_text cd_path)"

fun first_heredoc :: "(rstr \<times> rstr option) list list \<Rightarrow> extract_heredoc_error + rstr \<times> rstr option" where
  "first_heredoc [] = Inl CommandDidNotStartWithApplyPatch"
| "first_heredoc (m # ms) =
     (case read_captures m None None of
        Inl e \<Rightarrow> Inl e
      | Inr (Some heredoc, cd_path) \<Rightarrow> Inr (heredoc, cd_path)
      | Inr (None, _) \<Rightarrow> first_heredoc ms)"

definition extract_apply_patch_from_bash :: "bash_query \<Rightarrow> rstr \<Rightarrow> extract_heredoc_error + rstr \<times> rstr option" where
  "extract_apply_patch_from_bash q src =
     (case language_error q of
        Some e \<Rightarrow> Inl (FailedToLoadBashGrammar e)
      | None \<Rightarrow>
          (case query_matches q src of
             None \<Rightarrow> Inl FailedToParsePatchIntoAst
           | Some matches \<Rightarrow> first_heredoc matches))"

fun extract_apply_patch_from_shell ::
  "bash_query \<Rightarrow> apply_patch_shell \<Rightarrow> rstr \<Rightarrow> extract_heredoc_error + rstr \<times> rstr option" where
  "extract_apply_patch_from_shell q UnixShell script = extract_apply_patch_from_bash q script"
| "extract_apply_patch_from_shell q PowerShellShell script = extract_apply_patch_from_bash q script"
| "extract_apply_patch_from_shell q CmdShell script = extract_apply_patch_from_bash q script"

section \<open>Recognition\<close>

text \<open>The parser leaves the working directory empty, so for a direct invocation the update changes nothing.\<close>

definition body_or_error :: "rstr \<Rightarrow> rstr option \<Rightarrow> (unit, maybe_apply_patch) outcome" where
  "body_or_error body workdir =
     (case parse_patch body of
        Ok source \<Rightarrow> Ok (PatchBody (source\<lparr>args_workdir := workdir\<rparr>))
      | Err e \<Rightarrow> Ok (PatchParseError e)
      | Panic \<Rightarrow> Panic)"

definition maybe_parse_script :: "bash_query \<Rightarrow> rstr list \<Rightarrow> (unit, maybe_apply_patch) outcome" where
  "maybe_parse_script q argv =
     (case parse_shell_script argv of
        None \<Rightarrow> Ok NotApplyPatch
      | Some (shell, script) \<Rightarrow>
          (case extract_apply_patch_from_shell q shell script of
             Inr (body, workdir) \<Rightarrow> body_or_error body workdir
           | Inl CommandDidNotStartWithApplyPatch \<Rightarrow> Ok NotApplyPatch
           | Inl e \<Rightarrow> Ok (ShellParseError e)))"

definition maybe_parse_apply_patch :: "bash_query \<Rightarrow> rstr list \<Rightarrow> (unit, maybe_apply_patch) outcome" where
  "maybe_parse_apply_patch q argv =
     (case argv of
        [cmd, body] \<Rightarrow>
          if cmd \<in> set APPLY_PATCH_COMMANDS then body_or_error body None else maybe_parse_script q argv
      | _ \<Rightarrow> maybe_parse_script q argv)"

section \<open>Verification\<close>

text \<open>\<^verbatim>\<open>HashMap::insert\<close>: paths are compared by their components, a present key is kept.\<close>

fun insert_change :: "rstr \<Rightarrow> file_change \<Rightarrow> change_map \<Rightarrow> change_map" where
  "insert_change path c [] = [(path, c)]"
| "insert_change path c ((p, d) # m) =
     (if path_eq path p then (p, c) # m else (p, d) # insert_change path c m)"

type_synonym differ = "nat \<Rightarrow> rstr \<Rightarrow> rstr \<Rightarrow> rstr"

definition unified_diff_from_chunks_with_context ::
  "differ \<Rightarrow> 's file_system \<Rightarrow> 's \<Rightarrow> rstr \<Rightarrow> update_file_chunk list \<Rightarrow> nat \<Rightarrow>
   (apply_patch_error, rstr \<times> rstr \<times> rstr) outcome" where
  "unified_diff_from_chunks_with_context diff fs s path_abs chunks ctx =
     and_then (derive_new_contents_from_chunks fs s path_abs chunks) (\<lambda>(original_contents, new_contents).
       Ok (diff ctx original_contents new_contents, original_contents, new_contents))"

definition unified_diff_from_chunks ::
  "differ \<Rightarrow> 's file_system \<Rightarrow> 's \<Rightarrow> rstr \<Rightarrow> update_file_chunk list \<Rightarrow> (apply_patch_error, rstr \<times> rstr \<times> rstr) outcome" where
  "unified_diff_from_chunks diff fs s path_abs chunks = unified_diff_from_chunks_with_context diff fs s path_abs chunks 1"

fun hunk_change ::
  "differ \<Rightarrow> 's file_system \<Rightarrow> 's \<Rightarrow> (rstr \<Rightarrow> rstr) \<Rightarrow> hunk \<Rightarrow> (apply_patch_error, file_change) outcome" where
  "hunk_change diff fs s resolve (AddFile path contents) = Ok (AddChange contents)"
| "hunk_change diff fs s resolve (DeleteFile path) =
     (case read_file_text fs s (resolve path) of
        Inr content \<Rightarrow> Ok (DeleteChange content)
      | Inl e \<Rightarrow> Err (IoError (lit ''Failed to read '' @ resolve path) e))"
| "hunk_change diff fs s resolve (UpdateFile path move_path chunks) =
     and_then (unified_diff_from_chunks diff fs s (resolve path) chunks) (\<lambda>(unified_diff, _, contents).
       Ok (UpdateChange unified_diff (map_option resolve move_path) contents))"

fun collect_changes ::
  "differ \<Rightarrow> 's file_system \<Rightarrow> 's \<Rightarrow> (rstr \<Rightarrow> rstr) \<Rightarrow> hunk list \<Rightarrow> change_map \<Rightarrow> (apply_patch_error, change_map) outcome" where
  "collect_changes diff fs s resolve [] m = Ok m"
| "collect_changes diff fs s resolve (h # hs) m =
     and_then (hunk_change diff fs s resolve h) (\<lambda>c.
       collect_changes diff fs s resolve hs (insert_change (resolve_path resolve h) c m))"

definition verify_apply_patch_args ::
  "rstr option \<Rightarrow> differ \<Rightarrow> 's file_system \<Rightarrow> 's \<Rightarrow> apply_patch_args \<Rightarrow> rstr \<Rightarrow> (unit, maybe_verified) outcome" where
  "verify_apply_patch_args home diff fs s args cwd =
     (let effective_cwd = (case args_workdir args of Some dir \<Rightarrow> absolute_join home cwd dir | None \<Rightarrow> cwd) in
      case collect_changes diff fs s (\<lambda>p. resolve_path_against_base home p effective_cwd) (args_hunks args) [] of
        Ok m \<Rightarrow> Ok (VerifiedBody \<lparr>action_changes = m, action_patch = args_patch args, action_cwd = effective_cwd\<rparr>)
      | Err e \<Rightarrow> Ok (CorrectnessError e)
      | Panic \<Rightarrow> Panic)"

definition is_patch :: "rstr \<Rightarrow> bool" where
  "is_patch body \<longleftrightarrow> (case parse_patch body of Ok _ \<Rightarrow> True | _ \<Rightarrow> False)"

definition implicit_invocation :: "rstr list \<Rightarrow> bool" where
  "implicit_invocation argv \<longleftrightarrow>
     (case argv of [body] \<Rightarrow> is_patch body | _ \<Rightarrow> False) \<or>
     (case parse_shell_script argv of Some (_, script) \<Rightarrow> is_patch script | None \<Rightarrow> False)"

definition maybe_parse_apply_patch_verified ::
  "bash_query \<Rightarrow> rstr option \<Rightarrow> differ \<Rightarrow> 's file_system \<Rightarrow> 's \<Rightarrow> rstr list \<Rightarrow> rstr \<Rightarrow> (unit, maybe_verified) outcome" where
  "maybe_parse_apply_patch_verified q home diff fs s argv cwd =
     (if implicit_invocation argv then Ok (CorrectnessError ImplicitInvocation)
      else and_then (maybe_parse_apply_patch q argv) (\<lambda>r.
        case r of
          PatchBody args \<Rightarrow> verify_apply_patch_args home diff fs s args cwd
        | ShellParseError e \<Rightarrow> Ok (VerifiedShellParseError e)
        | PatchParseError e \<Rightarrow> Ok (CorrectnessError (ParseError e))
        | NotApplyPatch \<Rightarrow> Ok VerifiedNotApplyPatch))"

section \<open>Reading a patch twice\<close>

text \<open>The tool runtime parses the text of the verified action again.\<close>

lemma lines_from_chars: "l \<in> set (lines_from acc s) \<Longrightarrow> newline \<notin> set acc \<Longrightarrow> newline \<notin> set l \<and> set l \<subseteq> set acc \<union> set s"
proof (induction acc s arbitrary: l rule: lines_from.induct)
  case (2 acc c cs)
  show ?case
  proof (cases "c = newline")
    case True
    with 2 consider "l = strip_cr (rev acc)" | "l \<in> set (lines_from [] cs)" by auto
    then show ?thesis
    proof cases
      case 1
      then show ?thesis using 2(4) by (auto simp: strip_cr_def dest: list.set_sel(2) split: if_splits)
    next
      case 2
      then show ?thesis using "2.IH"(1) [OF True 2] by auto
    qed
  next
    case False
    then show ?thesis using 2(2) [OF False, of l] 2(3,4) by auto
  qed
qed (auto split: if_splits)

text \<open>
  No line of the patch ends in two carriage returns: lines may end in a line feed or in a carriage return
  and a line feed.
\<close>

definition single_returns :: "rstr \<Rightarrow> bool" where
  "single_returns s \<longleftrightarrow> list_all (\<lambda>l. l = [] \<or> last l \<noteq> carriage_return) (lines (trim s))"

lemma single_returns_plain: "single_returns s \<Longrightarrow> l \<in> set (lines (trim s)) \<Longrightarrow> plain_line l"
  using lines_from_chars [of l "[]" "trim s"] by (auto simp: single_returns_def list_all_iff lines_def plain_line_def)

lemma set_trim_subset: "set (trim s) \<subseteq> set s" "set (trim_start s) \<subseteq> set s" "set (trim_end s) \<subseteq> set s"
  by (auto simp: trim_def trim_end_def trim_start_def dest!: set_dropWhileD)

lemma check_lenient_strict:
  "check_patch_boundaries_lenient ls = Ok (pl, hl) \<Longrightarrow> check_patch_boundaries_strict pl = Ok (pl, hl) \<and> set pl \<subseteq> set ls"
  unfolding check_patch_boundaries_lenient_def
  by (auto simp: outcome_simps check_strict_Ok_iff slice_def split: outcome.splits list.splits if_splits
      dest: in_set_takeD in_set_dropD)

lemma trim_has_text: "trim s \<noteq> [] \<Longrightarrow> \<exists>x\<in>set s. \<not> is_whitespace x"
  by (rule ccontr) (simp add: trim_def trim_start_def trim_end_def dropWhile_eq_Nil_conv [THEN iffD2])

lemma trim_middle:
  assumes "trim a \<noteq> []" "trim z \<noteq> []"
  shows "trim (a @ m @ z) = trim_start a @ m @ trim_end z"
proof -
  note start = trim_has_text [OF assms(1)] and fin = trim_has_text [OF assms(2)]
  from start have "trim_start (a @ m @ z) = trim_start a @ m @ z"
    by (auto simp: trim_start_def dropWhile_append1)
  moreover have "trim_end (x @ z) = x @ trim_end z" for x
    using fin by (auto simp: trim_end_def dropWhile_append1)
  from this [of "trim_start a @ m"] have "trim_end (trim_start a @ m @ z) = trim_start a @ m @ trim_end z" by simp
  ultimately show ?thesis by (simp add: trim_def)
qed

lemma join_ends: "join [newline] (a # m @ [z]) = a @ join [newline] ([] # m @ [[]]) @ z"
  by (induction m) (simp_all add: join_last join_Cons_not_Nil)

lemma plain_trim: "plain_line l \<Longrightarrow> plain_line (trim_start l)" "plain_line l \<Longrightarrow> plain_line (trim_end l)"
proof -
  assume l: "plain_line l"
  obtain x where "l = x @ trim_start l" unfolding trim_start_def using suffix_dropWhile [of is_whitespace l] by (auto simp: suffix_def)
  with l show "plain_line (trim_start l)"
    using set_trim_subset(2) [of l] unfolding plain_line_def by (metis append_is_Nil_conv last_appendR subsetD)
  have "trim_end l = [] \<or> \<not> is_whitespace (last (trim_end l))"
    by (cases "dropWhile is_whitespace (rev l) = []") (simp_all add: trim_end_def last_rev hd_dropWhile)
  then show "plain_line (trim_end l)"
    using l set_trim_subset(3) [of l] by (auto simp: plain_line_def is_whitespace_def)
qed

lemma reread_lines:
  assumes "check_patch_boundaries_strict pl = Ok (pl, hl)" "\<And>l. l \<in> set pl \<Longrightarrow> plain_line l"
  shows "\<exists>pl'. check_patch_boundaries_strict (lines (trim (join [newline] pl))) = Ok (pl', hl)"
proof -
  have ends: "2 \<le> length pl" "trim (hd pl) = BEGIN_PATCH_MARKER" "trim (last pl) = END_PATCH_MARKER" "hl = butlast (tl pl)"
    using assms(1) by (auto simp: check_strict_Ok_iff)
  obtain a m z where pl: "pl = a # m @ [z]"
    using ends(1) by (cases pl; cases "tl pl" rule: rev_cases) auto
  have az: "trim a = BEGIN_PATCH_MARKER" "trim z = END_PATCH_MARKER" "hl = m" using ends pl by auto
  have ne: "trim a \<noteq> []" "trim z \<noteq> []" by (simp_all add: az marker_defs)
  have "trim_end z \<noteq> []" using ne(2) trim_trim_end [of z] by (auto simp: trim_def trim_start_def)
  have "trim (join [newline] pl) = join [newline] (trim_start a # m @ [trim_end z])"
    unfolding pl join_ends [of a m z] join_ends [of "trim_start a" m "trim_end z"] by (rule trim_middle [OF ne])
  moreover have "lines \<dots> = trim_start a # m @ [trim_end z]"
  proof (rule lines_join)
    fix l assume "l \<in> set (trim_start a # m @ [trim_end z])"
    then show "plain_line l" using plain_trim [OF assms(2)] assms(2) by (auto simp: pl)
  qed (use \<open>trim_end z \<noteq> []\<close> in simp_all)
  moreover have "trim (trim_start a) = BEGIN_PATCH_MARKER" using az(1) by (simp add: trim_def trim_start_def)
  ultimately show ?thesis by (simp add: check_strict_Ok_iff az)
qed

lemma reparse_same:
  assumes "parse_patch patch = Ok args" "single_returns patch"
  shows "\<exists>text. parse_patch (args_patch args) = Ok (args\<lparr>args_patch := text\<rparr>)"
proof -
  let ?ls = "lines (trim patch)"
  obtain pl hl env rl ln where
    c: "check_patch_boundaries_lenient ?ls = Ok (pl, hl)" and
    e: "parse_environment_id_preamble hl = Ok (env, rl, ln)" and
    h: "parse_hunks rl ln [] = Ok (args_hunks args)" and
    a: "args = \<lparr>args_patch = join [newline] pl, args_hunks = args_hunks args, args_workdir = None, args_environment_id = env\<rparr>"
    using assms(1) by (auto simp: parse_patch_def PARSE_IN_STRICT_MODE_def parse_patch_text_def Let_def outcome_simps split: prod.splits)
  have "plain_line l" if "l \<in> set pl" for l
    using check_lenient_strict [OF c] that single_returns_plain [OF assms(2)] by blast
  then obtain pl' where "check_patch_boundaries_strict (lines (trim (join [newline] pl))) = Ok (pl', hl)"
    using reread_lines check_lenient_strict [OF c] by blast
  then have "parse_patch (join [newline] pl) =
      Ok \<lparr>args_patch = join [newline] pl', args_hunks = args_hunks args, args_workdir = None, args_environment_id = env\<rparr>"
    by (simp add: parse_patch_def PARSE_IN_STRICT_MODE_def parse_patch_text_def check_patch_boundaries_lenient_def e h)
  then show ?thesis by (subst (1 2) a) auto
qed

text \<open>
  When a patch with no line that ends in two carriage returns is accepted, the text kept in the action is accepted
  again, with the same hunks and the same environment: what the tool runtime carries out is what was
  verified.
\<close>
theorem reparsed_patch_is_same:
  assumes "parse_patch patch = Ok args" "single_returns patch"
  shows "\<exists>text. parse_patch (args_patch args) = Ok (args\<lparr>args_patch := text\<rparr>)"
  by (rule reparse_same [OF assms])

lemma delete_patch_returns: "single_returns delete_patch"
  by (simp add: single_returns_def delete_patch_def parse_eval)

theorem reparsed_patch_is_same_witness:
  "\<exists>text. parse_patch (args_patch delete_args) = Ok (delete_args\<lparr>args_patch := text\<rparr>)"
  by (rule reparsed_patch_is_same [OF parse_patch_delete delete_patch_returns])

text \<open>
  A line that ends in two carriage returns loses one at each reading: the contents of a new file, or the
  destination of a move, which is not trimmed.
\<close>

definition doubled_return_patch :: rstr where
  "doubled_return_patch = join [newline]
     [BEGIN_PATCH_MARKER, ADD_FILE_MARKER @ lit ''a'', lit ''+x'' @ [carriage_return, carriage_return], END_PATCH_MARKER]"

definition doubled_return_move :: rstr where
  "doubled_return_move = join [newline]
     [BEGIN_PATCH_MARKER, UPDATE_FILE_MARKER @ lit ''a'', MOVE_TO_MARKER @ lit ''b'' @ [carriage_return, carriage_return],
      lit ''+x'', END_PATCH_MARKER]"

abbreviation read_once :: "rstr \<Rightarrow> hunk list option" where
  "read_once patch \<equiv> map_option args_hunks (outcome_option (parse_patch patch))"

abbreviation read_twice :: "rstr \<Rightarrow> hunk list option" where
  "read_twice patch \<equiv> map_option args_hunks (outcome_option (and_then (parse_patch patch) (parse_patch \<circ> args_patch)))"

lemma doubled_return_changes:
  "read_once doubled_return_patch = Some [AddFile (lit ''a'') (lit ''x'' @ [carriage_return, newline])]"
  "read_twice doubled_return_patch = Some [AddFile (lit ''a'') (lit ''x'' @ [newline])]"
  by (simp_all add: doubled_return_patch_def outcome_option_def parse_patch_def PARSE_IN_STRICT_MODE_def parse_eval)

lemma doubled_return_moves:
  "\<exists>cs. read_once doubled_return_move = Some [UpdateFile (lit ''a'') (Some (lit ''b'' @ [carriage_return])) cs]"
  "\<exists>cs. read_twice doubled_return_move = Some [UpdateFile (lit ''a'') (Some (lit ''b'')) cs]"
  by (simp_all add: doubled_return_move_def outcome_option_def parse_patch_def PARSE_IN_STRICT_MODE_def parse_eval
      update_chunks_loop_Cons parse_update_file_chunk_def chunk_context_def starts_with_def slice_from_def empty_chunk_def)

section \<open>What the action knows of the hunks\<close>

text \<open>The paths of a change: the file itself and where it moves.\<close>

fun change_paths :: "rstr \<times> file_change \<Rightarrow> rstr set" where
  "change_paths (p, UpdateChange _ (Some dest) _) = {p, dest}"
| "change_paths (p, c) = {p}"

text \<open>The paths a hunk reads or writes when it is applied.\<close>

fun hunk_targets :: "(rstr \<Rightarrow> rstr) \<Rightarrow> hunk \<Rightarrow> rstr set" where
  "hunk_targets resolve (UpdateFile path (Some dest) chunks) = {resolve path, resolve dest}"
| "hunk_targets resolve h = {resolve_path resolve h}"

lemma insert_new: "\<forall>q\<in>fst ` set m. \<not> path_eq path q \<Longrightarrow> insert_change path c m = m @ [(path, c)]"
  by (induction m) auto

lemma hunk_change_paths:
  assumes "hunk_change diff fs s resolve h = Ok c"
  shows "change_paths (resolve_path resolve h, c) = hunk_targets resolve h"
proof (cases h)
  case (UpdateFile path move_path chunks)
  with assms show ?thesis by (cases move_path) (auto simp: outcome_simps)
qed (use assms in \<open>auto split: sum.splits\<close>)

text \<open>Hunks on different files: each of them has its own change, in order.\<close>

lemma collect_changes_distinct:
  assumes "collect_changes diff fs s resolve hs m = Ok m'"
    "distinct (map fst m @ map (resolve_path resolve) hs)"
    "list_all (\<lambda>b. normal_path (fst b)) m" "\<And>h. normal_path (resolve_path resolve h)"
  shows "\<exists>cs. m' = m @ cs \<and> map change_paths cs = map (hunk_targets resolve) hs"
  using assms(1-3)
proof (induction hs arbitrary: m)
  case (Cons h hs)
  let ?p = "resolve_path resolve h"
  obtain c where c: "hunk_change diff fs s resolve h = Ok c"
    and r: "collect_changes diff fs s resolve hs (insert_change ?p c m) = Ok m'"
    using Cons.prems(1) by (auto simp: outcome_simps)
  have "\<not> path_eq ?p q" if "q \<in> fst ` set m" for q
  proof -
    have "normal_path q" "q \<noteq> ?p" using that Cons.prems(2,3) by (auto simp: list_all_iff image_iff)
    then show ?thesis using path_eq_normal [OF assms(4), of q h] by auto
  qed
  then have i: "insert_change ?p c m = m @ [(?p, c)]" by (intro insert_new) blast
  have "distinct (map fst (m @ [(?p, c)]) @ map (resolve_path resolve) hs)" using Cons.prems(2) by auto
  moreover have "list_all (\<lambda>b. normal_path (fst b)) (m @ [(?p, c)])" using Cons.prems(3) assms(4) by simp
  ultimately obtain cs where "m' = (m @ [(?p, c)]) @ cs" "map change_paths cs = map (hunk_targets resolve) hs"
    using Cons.IH [OF r [unfolded i]] by blast
  then show ?case using hunk_change_paths [OF c] by (intro exI [of _ "(?p, c) # cs"]) simp
qed simp

abbreviation resolver :: "rstr option \<Rightarrow> rstr \<Rightarrow> rstr \<Rightarrow> rstr" where
  "resolver home cwd \<equiv> \<lambda>p. resolve_path_against_base home p cwd"

lemma resolve_path_normal: "is_absolute cwd \<Longrightarrow> normal_path (resolve_path (resolver home cwd) h)"
  by (cases h) (simp_all add: resolve_path_against_base_def absolutize_from_names(1))

definition action_paths :: "patch_action \<Rightarrow> rstr set" where
  "action_paths a = (\<Union>b\<in>set (action_changes a). change_paths b)"

definition patch_targets :: "rstr option \<Rightarrow> rstr \<Rightarrow> hunk list \<Rightarrow> rstr set" where
  "patch_targets home cwd hs = (\<Union>h\<in>set hs. hunk_targets (resolver home cwd) h)"

lemma verified_action:
  assumes "verify_apply_patch_args home diff fs s args cwd = Ok (VerifiedBody a)"
  shows "action_patch a = args_patch args"
    "action_cwd a = (case args_workdir args of Some dir \<Rightarrow> absolute_join home cwd dir | None \<Rightarrow> cwd)"
    "collect_changes diff fs s (resolver home (action_cwd a)) (args_hunks args) [] = Ok (action_changes a)"
  using assms by (auto simp: verify_apply_patch_args_def Let_def split: outcome.splits)

lemma verified_cwd:
  assumes "verify_apply_patch_args home diff fs s args cwd = Ok (VerifiedBody a)" "is_absolute cwd"
  shows "is_absolute (action_cwd a)"
  using assms(2) absolutize_from_names(1) [OF assms(2), THEN normal_absolute]
  by (auto simp: verified_action(2) [OF assms(1)] absolute_join_def resolve_path_against_base_def split: option.splits)

lemma verified_paths:
  assumes "verify_apply_patch_args home diff fs s args cwd = Ok (VerifiedBody a)" "is_absolute cwd"
    "distinct (map (resolve_path (resolver home (action_cwd a))) (args_hunks args))"
  shows "action_paths a = patch_targets home (action_cwd a) (args_hunks args)"
proof -
  note v = verified_action [OF assms(1)]
  from collect_changes_distinct [OF v(3)] assms(3) resolve_path_normal [OF verified_cwd [OF assms(1,2)]]
  have "map change_paths (action_changes a) = map (hunk_targets (resolver home (action_cwd a))) (args_hunks args)" by auto
  from arg_cong [OF this, of "\<lambda>xs. \<Union> (set xs)"] show ?thesis by (simp add: action_paths_def patch_targets_def)
qed

section \<open>What the application can change\<close>

text \<open>An operation on a path changes the text of no other path, and creating directories none at all; \<open>view\<close> tells the texts of a state.\<close>

definition local_on :: "('s \<Rightarrow> rstr \<Rightarrow> rstr option) \<Rightarrow> 's file_system \<Rightarrow> bool" where
  "local_on view fs \<longleftrightarrow>
     (\<forall>s p t q. q \<noteq> p \<longrightarrow> view (snd (write_file fs s p t)) q = view s q) \<and>
     (\<forall>s p. view (snd (create_directory fs s p)) = view s) \<and>
     (\<forall>s p q. q \<noteq> p \<longrightarrow> view (snd (remove fs s p)) q = view s q)"

abbreviation local_effects :: "'s file_system \<Rightarrow> bool" where
  "local_effects fs \<equiv> local_on (text_view fs) fs"

definition unchanged_outside :: "('s \<Rightarrow> rstr \<Rightarrow> rstr option) \<Rightarrow> rstr set \<Rightarrow> 's \<Rightarrow> 's \<Rightarrow> bool" where
  "unchanged_outside view T s s' \<longleftrightarrow> (\<forall>q. q \<notin> T \<longrightarrow> view s' q = view s q)"

lemma unchanged_refl [simp]: "unchanged_outside view T s s"
  by (simp add: unchanged_outside_def)

lemma unchanged_trans: "unchanged_outside view T s s' \<Longrightarrow> unchanged_outside view T s' s'' \<Longrightarrow> unchanged_outside view T s s''"
  by (simp add: unchanged_outside_def)

lemma unchanged_mono: "unchanged_outside view T s s' \<Longrightarrow> T \<subseteq> U \<Longrightarrow> unchanged_outside view U s s'"
  by (auto simp: unchanged_outside_def)

lemma local_onD:
  assumes "local_on view fs"
  shows "write_file fs s p t = (r, s') \<Longrightarrow> p \<in> T \<Longrightarrow> unchanged_outside view T s s'"
    "create_directory fs s p = (r, s') \<Longrightarrow> unchanged_outside view T s s'"
    "remove fs s p = (r, s') \<Longrightarrow> p \<in> T \<Longrightarrow> unchanged_outside view T s s'"
  using assms unfolding local_on_def unchanged_outside_def by (metis snd_conv)+

lemma write_retry_frame:
  assumes "local_on view fs" "write_file_with_missing_parent_retry fs parent s p t = (r, s')" "p \<in> T"
  shows "unchanged_outside view T s s'"
  using assms(2) unfolding write_file_with_missing_parent_retry_def
  by (auto split: prod.splits option.splits if_splits intro: unchanged_trans
      dest!: local_onD(1) [OF assms(1) _ assms(3)] local_onD(2) [OF assms(1), where T = T])

lemma apply_add_frame:
  "local_on view fs \<Longrightarrow> apply_add fs parent aff_path p t aff d s = (r, d', s') \<Longrightarrow> p \<in> T \<Longrightarrow> unchanged_outside view T s s'"
  by (auto simp: apply_add_def Let_def split: prod.splits option.splits dest: write_retry_frame)

lemma apply_delete_frame:
  "local_on view fs \<Longrightarrow> apply_delete fs aff_path p aff d s = (r, d', s') \<Longrightarrow> p \<in> T \<Longrightarrow> unchanged_outside view T s s'"
  by (auto simp: apply_delete_def Let_def split: prod.splits option.splits dest: local_onD(3))

lemma apply_move_frame:
  assumes "local_on view fs" "apply_move fs parent aff_path p dest old new aff d s = (r, d', s')" "p \<in> T" "dest \<in> T"
  shows "unchanged_outside view T s s'"
  using assms(2) unfolding apply_move_def Let_def
  by (auto split: prod.splits option.splits intro: unchanged_trans
      dest!: write_retry_frame [OF assms(1) _ assms(4)] local_onD(3) [OF assms(1) _ assms(3)])

lemma apply_update_frame:
  assumes "local_on view fs" "apply_update fs parent resolve aff_path p mv chunks aff d s = (r, d', s')"
    "p \<in> T" "\<And>dest. mv = Some dest \<Longrightarrow> resolve dest \<in> T"
  shows "unchanged_outside view T s s'"
  using assms(2) unfolding apply_update_def Let_def
  by (auto split: prod.splits option.splits outcome.splits intro: assms(4)
      dest!: apply_move_frame [OF assms(1) _ assms(3)] local_onD(1) [OF assms(1) _ assms(3)])

lemma apply_hunk_frame:
  assumes "local_on view fs" "apply_hunk fs parent resolve h aff d s = (r, d', s')" "hunk_targets resolve h \<subseteq> T"
  shows "unchanged_outside view T s s'"
proof (cases h)
  case (UpdateFile path move_path chunks)
  then have "resolve path \<in> T" "\<And>dest. move_path = Some dest \<Longrightarrow> resolve dest \<in> T"
    using assms(3) by (cases move_path; auto)+
  then show ?thesis using apply_update_frame [OF assms(1)] assms(2) UpdateFile by simp
qed (use assms in \<open>auto dest: apply_add_frame apply_delete_frame\<close>)

lemma apply_hunk_loop_frame:
  assumes "local_on view fs" "apply_hunk_loop fs parent resolve hs aff d s = (r, d', s')"
    "(\<Union>h\<in>set hs. hunk_targets resolve h) \<subseteq> T"
  shows "unchanged_outside view T s s'"
  using assms(2,3)
proof (induction hs arbitrary: aff d s)
  case (Cons h hs)
  obtain r1 d1 s1 where h: "apply_hunk fs parent resolve h aff d s = (r1, d1, s1)" by (cases "apply_hunk fs parent resolve h aff d s")
  have "unchanged_outside view T s s1" using apply_hunk_frame [OF assms(1) h] Cons.prems(2) by simp
  with Cons h show ?case by (cases r1) (auto intro: unchanged_trans)
qed simp

lemma apply_hunks_frame:
  assumes "local_on view fs" "apply_hunks fs parent resolve writeln hs out err s = (r, out', err', s')"
    "(\<Union>h\<in>set hs. hunk_targets resolve h) \<subseteq> T"
  shows "unchanged_outside view T s s'"
proof -
  obtain r1 d1 s1 where l: "apply_hunks_to_files fs parent resolve hs empty_delta s = (r1, d1, s1)"
    by (cases "apply_hunks_to_files fs parent resolve hs empty_delta s")
  then have "unchanged_outside view T s s1"
    using apply_hunk_loop_frame [OF assms(1) _ assms(3)] by (auto simp: apply_hunks_to_files_def split: if_splits)
  moreover have "s' = s1"
    using assms(2) l by (cases r1) (auto simp: apply_hunks_def Let_def split: prod.splits option.splits)
  ultimately show ?thesis by simp
qed

lemma apply_patch_frame:
  assumes "local_on view fs" "apply_patch fs parent resolve writeln patch out err s = (r, out', err', s')"
    "parse_patch patch = Ok args" "(\<Union>h\<in>set (args_hunks args). hunk_targets resolve h) \<subseteq> T"
  shows "unchanged_outside view T s s'"
  using assms(2,3) apply_hunks_frame [OF assms(1) _ assms(4)] by (simp add: apply_patch_def)

text \<open>The text of the action, parsed again, changes its targets only.\<close>

lemma verified_frame:
  assumes "parse_patch patch = Ok args" "single_returns patch"
    "verify_apply_patch_args home diff fs0 s0 (args\<lparr>args_workdir := workdir\<rparr>) cwd = Ok (VerifiedBody a)"
    "local_on view fs"
    "apply_patch fs parent (resolver home (action_cwd a)) writeln (action_patch a) out err s = (r, out', err', s')"
  shows "unchanged_outside view (patch_targets home (action_cwd a) (args_hunks args)) s s'"
proof -
  obtain args' where a': "parse_patch (action_patch a) = Ok args'" "args_hunks args' = args_hunks args"
    using reparse_same [OF assms(1,2)] verified_action(1) [OF assms(3)] by fastforce
  show ?thesis by (rule apply_patch_frame [OF assms(4,5) a'(1)]) (simp add: a'(2) patch_targets_def)
qed

text \<open>
  (C8) A verified patch whose hunks are on different files, and none of whose lines ends in two carriage
  returns, can change only the paths its action names, whatever its application comes to: files that are to be
  added, deleted or updated, and the destinations of moves.  This is about the text of the action, which
  the runtime parses again; the working directory is absolute, and an operation of the file system changes only
  the file it is on.
\<close>
theorem verified_patch_confined:
  assumes "parse_patch patch = Ok args" "single_returns patch"
    "verify_apply_patch_args home diff fs0 s0 (args\<lparr>args_workdir := workdir\<rparr>) cwd = Ok (VerifiedBody a)" "is_absolute cwd"
    "distinct (map (resolve_path (resolver home (action_cwd a))) (args_hunks args))"
    "local_effects fs"
    "apply_patch fs parent (resolver home (action_cwd a)) writeln (action_patch a) out err s = (r, out', err', s')"
    "text_view fs s' q \<noteq> text_view fs s q"
  shows "q \<in> action_paths a"
  using verified_frame [OF assms(1-3,6,7)] verified_paths [OF assms(3,4)] assms(5,8) by (auto simp: unchanged_outside_def)

lemma mem_fs_local: "local_effects (mem_fs parent)"
  unfolding local_on_def by (auto simp: mem_fs_def text_view_def fun_eq_iff split: option.splits)

definition work_files :: mem_state where
  "work_files = \<lparr>mem_files = [lit ''/w/a'' \<mapsto> lit ''old'' @ [newline]], mem_dirs = []\<rparr>"

lemma work_paths:
  "resolver None (lit ''/w'') (lit ''a'') = lit ''/w/a''" "resolver None (lit ''/w'') (lit ''../out'') = lit ''/out''"
  by (simp_all add: path_eval)

definition delete_action :: patch_action where
  "delete_action = \<lparr>action_changes = [(lit ''/w/a'', DeleteChange (lit ''old'' @ [newline]))],
     action_patch = delete_patch, action_cwd = lit ''/w''\<rparr>"

lemma verify_delete:
  "verify_apply_patch_args None diff (mem_fs Map.empty) work_files (delete_args\<lparr>args_workdir := None\<rparr>) (lit ''/w'') = Ok (VerifiedBody delete_action)"
  by (simp add: verify_apply_patch_args_def delete_args_def delete_action_def work_paths mem_fs_def work_files_def del: lit_simps)

lemma apply_work_delete:
  "apply_patch (mem_fs Map.empty) Map.empty (resolver None (lit ''/w'')) list_writer delete_patch [] [] work_files =
   (Ok \<lparr>changes = [\<lparr>change_path = lit ''/w/a'', change = Delete (lit ''old'' @ [newline])\<rparr>], exact = True\<rparr>,
    [lit ''Success. Updated the following files:'', lit ''D a''], [],
    work_files\<lparr>mem_files := (mem_files work_files)(lit ''/w/a'' := None)\<rparr>)"
  by (simp add: apply_patch_def parse_patch_delete delete_args_def apply_hunks_def work_paths
      apply_hunks_to_files_def apply_delete_def Let_def mem_fs_def work_files_def
      note_existing_path_delta_support_def ensure_not_directory_def empty_delta_def no_affected_def
      push_change_delta_def print_summary_def list_writer_def del: lit_simps) simp

theorem verified_patch_confined_witness: "lit ''/w/a'' \<in> action_paths delete_action"
proof (rule verified_patch_confined [OF parse_patch_delete _ verify_delete _ _ mem_fs_local])
  show "single_returns delete_patch" by (rule delete_patch_returns)
  show "is_absolute (lit ''/w'')" by (simp add: is_absolute_def)
  show "distinct (map (resolve_path (resolver None (action_cwd delete_action))) (args_hunks delete_args))"
    by (simp add: delete_args_def)
  show "apply_patch (mem_fs Map.empty) Map.empty (resolver None (action_cwd delete_action)) list_writer
      (action_patch delete_action) [] [] work_files =
     (Ok \<lparr>changes = [\<lparr>change_path = lit ''/w/a'', change = Delete (lit ''old'' @ [newline])\<rparr>], exact = True\<rparr>,
      [lit ''Success. Updated the following files:'', lit ''D a''], [],
      work_files\<lparr>mem_files := (mem_files work_files)(lit ''/w/a'' := None)\<rparr>)"
    using apply_work_delete by (simp add: delete_action_def del: lit_simps)
  show "text_view (mem_fs Map.empty) (work_files\<lparr>mem_files := (mem_files work_files)(lit ''/w/a'' := None)\<rparr>) (lit ''/w/a'') \<noteq>
      text_view (mem_fs Map.empty) work_files (lit ''/w/a'')"
    by (simp add: text_view_def mem_fs_def work_files_def)
qed

text \<open>
  Two hunks on one file leave one binding in the map, the one of the later hunk: a destination named
  by the earlier one is not among the paths of the action, but it is among the paths that change.
\<close>

definition hidden_move :: "hunk list" where
  "hidden_move =
     [UpdateFile (lit ''a'') (Some (lit ''../out''))
        [\<lparr>change_context = None, old_lines = [lit ''old''], new_lines = [lit ''new''], is_end_of_file = False\<rparr>],
      AddFile (lit ''a'') (lit ''x'')]"

lemma hidden_move_not_in_action:
  "collect_changes diff (mem_fs Map.empty) work_files (resolver None (lit ''/w'')) hidden_move [] = Ok [(lit ''/w/a'', AddChange (lit ''x''))]"
  "lit ''/out'' \<in> patch_targets None (lit ''/w'') hidden_move"
proof -
  have "new_contents_from_chunks (lit ''old'' @ [newline]) (lit ''/w/a'')
      [\<lparr>change_context = None, old_lines = [lit ''old''], new_lines = [lit ''new''], is_end_of_file = False\<rparr>] = Ok (lit ''new'' @ [newline])"
    by (simp add: replace_eval)
  then show "collect_changes diff (mem_fs Map.empty) work_files (resolver None (lit ''/w'')) hidden_move [] = Ok [(lit ''/w/a'', AddChange (lit ''x''))]"
    by (simp add: hidden_move_def work_paths unified_diff_from_chunks_def unified_diff_from_chunks_with_context_def
        derive_new_contents_from_chunks_def mem_fs_def work_files_def path_eq_def del: lit_simps)
  show "lit ''/out'' \<in> patch_targets None (lit ''/w'') hidden_move"
    by (simp add: patch_targets_def hidden_move_def work_paths del: lit_simps)
qed

end
