(* ===== verification/Sandbox_Roots.thy ===== *)
theory Sandbox_Roots
  imports Sandbox_Policy
begin

text \<open>
  The file-system sandbox policy, second part (\<^verbatim>\<open>protocol/src/permissions.rs\<close>, the legacy
  \<^verbatim>\<open>SandboxPolicy\<close> and \<^verbatim>\<open>WritableRoot\<close> of \<^verbatim>\<open>protocol/src/protocol.rs\<close>, and the canonical paths of
  \<^verbatim>\<open>utils/absolute-path/src/lib.rs\<close>): building policies, changing them, the roots a sandbox is
  given, denied reads, and the conversion to and from legacy policies.
\<close>

section \<open>Canonical paths\<close>

definition should_preserve_logical_path :: "'z sandbox_env_scheme \<Rightarrow> rstr \<Rightarrow> bool" where
  "should_preserve_logical_path env logical =
     list_ex (\<lambda>ancestor.
       case symlink_metadata env ancestor of
         None \<Rightarrow> False
       | Some is_symlink \<Rightarrow>
           is_symlink \<and> (case path_parent ancestor of None \<Rightarrow> False | Some parent \<Rightarrow> path_parent parent \<noteq> None))
       (ancestors logical)"

definition canonicalize_preserving_symlinks :: "'z sandbox_env_scheme \<Rightarrow> rstr \<Rightarrow> rstr option" where
  "canonicalize_preserving_symlinks env path =
     map_option (\<lambda>logical.
       case os_canonicalize env path of
         Some canonical \<Rightarrow>
           if should_preserve_logical_path env logical \<and> \<not> path_eq canonical logical then logical else canonical
       | None \<Rightarrow> logical) (absolute_ok env path)"

definition normalize_effective_absolute_path :: "'z sandbox_env_scheme \<Rightarrow> rstr \<Rightarrow> rstr" where
  "normalize_effective_absolute_path env path =
     (case find_map (\<lambda>ancestor.
        if symlink_metadata env ancestor = None then None
        else case canonicalize_preserving_symlinks env ancestor of
               None \<Rightarrow> None
             | Some normalized_ancestor \<Rightarrow>
                 (case path_strip_prefix path ancestor of
                    None \<Rightarrow> None
                  | Some rest \<Rightarrow> absolute_ok env (path_push normalized_ancestor (render_components rest))))
        (ancestors path) of
        Some normalized_path \<Rightarrow> normalized_path
      | None \<Rightarrow> path)"

fun dedup_loop :: "rstr list \<Rightarrow> rstr list \<Rightarrow> rstr list" where
  "dedup_loop seen [] = []"
| "dedup_loop seen (p # ps) =
     (if list_ex (path_eq p) seen then dedup_loop seen ps else p # dedup_loop (p # seen) ps)"

definition dedup_absolute_paths :: "'z sandbox_env_scheme \<Rightarrow> rstr list \<Rightarrow> bool \<Rightarrow> rstr list" where
  "dedup_absolute_paths env paths normalize_effective_paths =
     dedup_loop [] (map (if normalize_effective_paths then normalize_effective_absolute_path env else (\<lambda>p. p)) paths)"

text \<open>\<^verbatim>\<open>Path::cmp\<close> compares components in the order root, \<^verbatim>\<open>.\<close>, \<^verbatim>\<open>..\<close>, names.\<close>

fun component_key :: "path_component \<Rightarrow> nat \<times> rstr" where
  "component_key RootDir = (0, [])"
| "component_key CurDir = (1, [])"
| "component_key ParentDir = (2, [])"
| "component_key (NormalName n) = (3, n)"

definition path_key :: "rstr \<Rightarrow> (nat \<times> rstr) list" where
  "path_key p = map component_key (components p)"

definition sorted_absolute_paths :: "rstr list \<Rightarrow> rstr list" where
  "sorted_absolute_paths paths = sort_key path_key paths"

section \<open>Default protection of a writable root\<close>

definition is_git_pointer_file :: "'z sandbox_env_scheme \<Rightarrow> rstr \<Rightarrow> bool" where
  "is_git_pointer_file env path \<longleftrightarrow> is_file env path \<and> file_name path = Some (lit ''.git'')"

definition resolve_gitdir_from_file :: "'z sandbox_env_scheme \<Rightarrow> rstr \<Rightarrow> rstr option" where
  "resolve_gitdir_from_file env dot_git =
     (case read_to_string env dot_git of
        None \<Rightarrow> None
      | Some contents \<Rightarrow>
          (case split_once (ch CHR '':'') (trim contents) of
             None \<Rightarrow> None
           | Some (pre, gitdir_raw) \<Rightarrow>
               if trim pre \<noteq> lit ''gitdir'' then None
               else if trim gitdir_raw = [] then None
               else (case path_parent dot_git of
                       None \<Rightarrow> None
                     | Some base \<Rightarrow>
                         (let gitdir_path = resolve_path_against_base (home_dir env) (trim gitdir_raw) base in
                          if path_exists env gitdir_path then Some gitdir_path else None))))"

definition git_subpaths :: "'z sandbox_env_scheme \<Rightarrow> rstr \<Rightarrow> rstr list" where
  "git_subpaths env top_level_git =
     (if is_dir env top_level_git \<or> is_file env top_level_git
      then (if is_file env top_level_git \<and> is_git_pointer_file env top_level_git
            then (case resolve_gitdir_from_file env top_level_git of Some gitdir \<Rightarrow> [gitdir] | None \<Rightarrow> [])
            else []) @ [top_level_git]
      else [])"

definition default_read_only_subpaths_for_writable_root :: "'z sandbox_env_scheme \<Rightarrow> rstr \<Rightarrow> bool \<Rightarrow> rstr list" where
  "default_read_only_subpaths_for_writable_root env writable_root protect_missing_dot_codex =
     (let top_level_git = join_path env writable_root (lit ''.git'');
          top_level_agents = join_path env writable_root (lit ''.agents'');
          top_level_codex = join_path env writable_root (lit ''.codex'');
          top_level_deepseekx = join_path env writable_root (lit ''.deepseekx'');
          subpaths = git_subpaths env top_level_git @
            (if is_dir env top_level_agents then [top_level_agents] else []) @
            (if protect_missing_dot_codex \<or> is_dir env top_level_codex then [top_level_codex] else []) @
            (if protect_missing_dot_codex \<or> is_dir env top_level_deepseekx then [top_level_deepseekx] else [])
      in dedup_absolute_paths env subpaths False)"

definition append_default_read_only_entry_if_no_explicit_rule :: "fs_path \<Rightarrow> sandbox_entry list \<Rightarrow> sandbox_entry list" where
  "append_default_read_only_entry_if_no_explicit_rule path es =
     (if list_ex (\<lambda>e. file_system_paths_share_target (entry_path e) path) es then es else es @ [entry path ReadAccess])"

definition append_default_read_only_path_if_no_explicit_rule :: "rstr \<Rightarrow> sandbox_entry list \<Rightarrow> sandbox_entry list" where
  "append_default_read_only_path_if_no_explicit_rule path = append_default_read_only_entry_if_no_explicit_rule (PathEntry path)"

definition append_default_read_only_project_root_subpath_if_no_explicit_rule ::
  "rstr \<Rightarrow> sandbox_entry list \<Rightarrow> sandbox_entry list" where
  "append_default_read_only_project_root_subpath_if_no_explicit_rule subpath =
     append_default_read_only_entry_if_no_explicit_rule (Special (ProjectRoots (Some subpath)))"

definition protect_root :: "'z sandbox_env_scheme \<Rightarrow> bool \<Rightarrow> rstr \<Rightarrow> sandbox_entry list \<Rightarrow> sandbox_entry list" where
  "protect_root env protect_missing_dot_codex writable_root es =
     fold append_default_read_only_path_if_no_explicit_rule
       (default_read_only_subpaths_for_writable_root env writable_root protect_missing_dot_codex) es"

section \<open>Legacy policies\<close>

datatype network_access = NetworkAccessRestricted | NetworkAccessEnabled

datatype sandbox_policy =
    DangerFullAccess
  | ReadOnly bool
  | ExternalSandboxPolicy network_access
  | WorkspaceWrite "rstr list" bool bool bool

record writable_root =
  wr_root :: rstr
  read_only_subpaths :: "rstr list"
  protected_metadata_names :: "rstr list"

definition path_contains_protected_metadata_name :: "writable_root \<Rightarrow> rstr \<Rightarrow> bool" where
  "path_contains_protected_metadata_name w path =
     (case path_strip_prefix path (wr_root w) of
        None \<Rightarrow> False
      | Some [] \<Rightarrow> False
      | Some (first_component # _) \<Rightarrow> list_ex (\<lambda>name. component_text first_component = name) (protected_metadata_names w))"

definition is_path_writable :: "writable_root \<Rightarrow> rstr \<Rightarrow> bool" where
  "is_path_writable w path =
     (if \<not> path_starts_with path (wr_root w) then False
      else if list_ex (\<lambda>subpath. path_starts_with path subpath) (read_only_subpaths w) then False
      else if path_contains_protected_metadata_name w path then False
      else True)"

fun has_full_network_access :: "sandbox_policy \<Rightarrow> bool" where
  "has_full_network_access DangerFullAccess = True"
| "has_full_network_access (ExternalSandboxPolicy n) = (n = NetworkAccessEnabled)"
| "has_full_network_access (ReadOnly n) = n"
| "has_full_network_access (WorkspaceWrite _ n _ _) = n"

definition network_policy_of :: "sandbox_policy \<Rightarrow> network_sandbox_policy" where
  "network_policy_of sp = (if has_full_network_access sp then NetworkEnabled else NetworkRestricted)"

definition legacy_roots :: "'z sandbox_env_scheme \<Rightarrow> rstr list \<Rightarrow> bool \<Rightarrow> bool \<Rightarrow> rstr \<Rightarrow> rstr list" where
  "legacy_roots env writable_roots exclude_tmpdir_env_var exclude_slash_tmp cwd =
     writable_roots @
     (case absolute_ok env cwd of Some c \<Rightarrow> [c] | None \<Rightarrow> []) @
     (if \<not> exclude_slash_tmp
      then (case absolute_ok env (lit ''/tmp'') of Some slash_tmp \<Rightarrow> if is_dir env slash_tmp then [slash_tmp] else [] | None \<Rightarrow> [])
      else []) @
     (if \<not> exclude_tmpdir_env_var
      then (case tmpdir_var env of
              None \<Rightarrow> []
            | Some tmpdir \<Rightarrow> if tmpdir = [] then [] else (case absolute_ok env tmpdir of Some t \<Rightarrow> [t] | None \<Rightarrow> []))
      else [])"

fun legacy_writable_roots_with_cwd :: "'z sandbox_env_scheme \<Rightarrow> sandbox_policy \<Rightarrow> rstr \<Rightarrow> writable_root list" where
  "legacy_writable_roots_with_cwd env (WorkspaceWrite roots _ exclude_tmpdir exclude_slash_tmp) cwd =
     map (\<lambda>root. \<lparr>wr_root = root,
         read_only_subpaths = default_read_only_subpaths_for_writable_root env root
           (case absolute_ok env cwd of Some c \<Rightarrow> path_eq c root | None \<Rightarrow> False),
         protected_metadata_names = []\<rparr>)
       (legacy_roots env roots exclude_tmpdir exclude_slash_tmp cwd)"
| "legacy_writable_roots_with_cwd env _ cwd = []"

section \<open>Building and changing policies\<close>

definition workspace_entries :: "rstr list \<Rightarrow> bool \<Rightarrow> bool \<Rightarrow> sandbox_entry list" where
  "workspace_entries writable_roots exclude_tmpdir_env_var exclude_slash_tmp =
     [entry (Special Root) ReadAccess, entry (Special (ProjectRoots None)) WriteAccess] @
     (if \<not> exclude_slash_tmp then [entry (Special SlashTmp) WriteAccess] else []) @
     (if \<not> exclude_tmpdir_env_var then [entry (Special Tmpdir) WriteAccess] else []) @
     map (\<lambda>path. entry (PathEntry path) WriteAccess) writable_roots"

definition workspace_write :: "'z sandbox_env_scheme \<Rightarrow> rstr list \<Rightarrow> bool \<Rightarrow> bool \<Rightarrow> fs_policy" where
  "workspace_write env writable_roots exclude_tmpdir_env_var exclude_slash_tmp =
     restricted
       (fold (protect_root env False) writable_roots
         (fold append_default_read_only_project_root_subpath_if_no_explicit_rule
           (map lit [''.git'', ''.agents'', ''.codex'', ''.deepseekx''])
           (workspace_entries writable_roots exclude_tmpdir_env_var exclude_slash_tmp)))"

fun policy_from_legacy :: "'z sandbox_env_scheme \<Rightarrow> sandbox_policy \<Rightarrow> fs_policy" where
  "policy_from_legacy env DangerFullAccess = unrestricted"
| "policy_from_legacy env (ExternalSandboxPolicy _) = external_sandbox"
| "policy_from_legacy env (ReadOnly _) = restricted [entry (Special Root) ReadAccess]"
| "policy_from_legacy env (WorkspaceWrite roots _ exclude_tmpdir exclude_slash_tmp) =
     workspace_write env roots exclude_tmpdir exclude_slash_tmp"

definition protect_cwd_and_roots :: "'z sandbox_env_scheme \<Rightarrow> rstr \<Rightarrow> rstr list \<Rightarrow> sandbox_entry list \<Rightarrow> sandbox_entry list" where
  "protect_cwd_and_roots env cwd writable_roots es =
     fold (protect_root env False) writable_roots
       (case absolute_ok env cwd of Some cwd_root \<Rightarrow> protect_root env True cwd_root es | None \<Rightarrow> es)"

definition from_legacy_sandbox_policy_for_cwd :: "'z sandbox_env_scheme \<Rightarrow> sandbox_policy \<Rightarrow> rstr \<Rightarrow> fs_policy" where
  "from_legacy_sandbox_policy_for_cwd env sp cwd =
     (let pol = policy_from_legacy env sp in
      case sp of
        WorkspaceWrite writable_roots _ _ _ \<Rightarrow>
          pol\<lparr>policy_entries := protect_cwd_and_roots env cwd writable_roots (policy_entries pol)\<rparr>
      | _ \<Rightarrow> pol)"

definition push_deny_entry :: "sandbox_entry \<Rightarrow> sandbox_entry list \<Rightarrow> sandbox_entry list" where
  "push_deny_entry deny_entry es = (if list_ex (\<lambda>e. entry_eq e deny_entry) es then es else es @ [deny_entry])"

definition add_deny_entries :: "fs_policy \<Rightarrow> sandbox_entry list \<Rightarrow> sandbox_entry list" where
  "add_deny_entries existing es =
     fold push_deny_entry
       (filter (\<lambda>e. entry_access e = NoAccess) (policy_entries existing)) es"

definition from_legacy_sandbox_policy_preserving_deny_entries ::
  "'z sandbox_env_scheme \<Rightarrow> sandbox_policy \<Rightarrow> rstr \<Rightarrow> fs_policy \<Rightarrow> fs_policy" where
  "from_legacy_sandbox_policy_preserving_deny_entries env sp cwd existing =
     (let rebuilt = from_legacy_sandbox_policy_for_cwd env sp cwd in
      if policy_kind rebuilt \<noteq> Restricted then rebuilt
      else rebuilt\<lparr>glob_scan_max_depth := glob_scan_max_depth existing,
        policy_entries := add_deny_entries existing (policy_entries rebuilt)\<rparr>)"

definition preserve_deny_read_restrictions_from :: "fs_policy \<Rightarrow> fs_policy \<Rightarrow> fs_policy" where
  "preserve_deny_read_restrictions_from self existing =
     (let has_deny_read_entries = list_ex (\<lambda>e. entry_access e = NoAccess) (policy_entries existing);
          self = (if policy_kind self = Unrestricted \<and> has_deny_read_entries
                  then restricted [entry (Special Root) WriteAccess] else self)
      in if policy_kind self \<noteq> Restricted then self
         else self\<lparr>glob_scan_max_depth :=
                     (if glob_scan_max_depth self = None then glob_scan_max_depth existing else glob_scan_max_depth self),
                   policy_entries := add_deny_entries existing (policy_entries self)\<rparr>)"

definition materialize_entry :: "'z sandbox_env_scheme \<Rightarrow> rstr option \<Rightarrow> sandbox_entry \<Rightarrow> sandbox_entry" where
  "materialize_entry env cwd e =
     (case entry_path e of
        Special (ProjectRoots s) \<Rightarrow>
          (case resolve_file_system_path env (Special (ProjectRoots s)) cwd of
             Some path \<Rightarrow> e\<lparr>entry_path := PathEntry path\<rparr>
           | None \<Rightarrow> e)
      | _ \<Rightarrow> e)"

definition materialize_project_roots_with_cwd :: "'z sandbox_env_scheme \<Rightarrow> fs_policy \<Rightarrow> rstr \<Rightarrow> fs_policy" where
  "materialize_project_roots_with_cwd env pol cwd =
     pol\<lparr>policy_entries := map (materialize_entry env (absolute_ok env cwd)) (policy_entries pol)\<rparr>"

definition push_entry :: "fs_policy \<Rightarrow> sandbox_entry \<Rightarrow> fs_policy" where
  "push_entry pol e = pol\<lparr>policy_entries := policy_entries pol @ [e]\<rparr>"

definition with_additional_readable_roots :: "'z sandbox_env_scheme \<Rightarrow> fs_policy \<Rightarrow> rstr \<Rightarrow> rstr list \<Rightarrow> fs_policy" where
  "with_additional_readable_roots env pol cwd additional_readable_roots =
     (if has_full_disk_read_access pol then pol
      else fold (\<lambda>path pol. if can_read_path_with_cwd env pol path cwd then pol
             else push_entry pol (entry (PathEntry path) ReadAccess)) additional_readable_roots pol)"

definition with_additional_writable_roots :: "'z sandbox_env_scheme \<Rightarrow> fs_policy \<Rightarrow> rstr \<Rightarrow> rstr list \<Rightarrow> fs_policy" where
  "with_additional_writable_roots env pol cwd additional_writable_roots =
     fold (\<lambda>path pol. if can_write_path_with_cwd env pol path cwd then pol
        else push_entry pol (entry (PathEntry path) WriteAccess)) additional_writable_roots pol"

definition add_legacy_root :: "'z sandbox_env_scheme \<Rightarrow> rstr \<Rightarrow> sandbox_entry list \<Rightarrow> sandbox_entry list" where
  "add_legacy_root env path es =
     protect_root env False path
       (if list_ex (\<lambda>e. can_write (entry_access e) \<and>
            (case entry_path e of PathEntry existing \<Rightarrow> path_eq existing path | _ \<Rightarrow> False)) es
        then es else es @ [entry (PathEntry path) WriteAccess])"

definition with_additional_legacy_workspace_writable_roots :: "'z sandbox_env_scheme \<Rightarrow> fs_policy \<Rightarrow> rstr list \<Rightarrow> fs_policy" where
  "with_additional_legacy_workspace_writable_roots env pol additional_writable_roots =
     (if policy_kind pol \<noteq> Restricted then pol
      else pol\<lparr>policy_entries := fold (add_legacy_root env) additional_writable_roots (policy_entries pol)\<rparr>)"

section \<open>The roots of a policy\<close>

definition get_readable_roots_with_cwd :: "'z sandbox_env_scheme \<Rightarrow> fs_policy \<Rightarrow> rstr \<Rightarrow> rstr list" where
  "get_readable_roots_with_cwd env pol cwd =
     (if has_full_disk_read_access pol then []
      else dedup_absolute_paths env
        (map fst (filter (\<lambda>e. can_read_path_with_cwd env pol (fst e) cwd)
          (filter (\<lambda>e. can_read (snd e)) (resolved_entries_with_cwd env pol cwd)))) True)"

definition has_explicit_resolved_path_entry :: "(rstr \<times> access_mode) list \<Rightarrow> rstr \<Rightarrow> bool" where
  "has_explicit_resolved_path_entry es path = list_ex (\<lambda>e. path_eq (fst e) path) es"

definition protected_metadata_names_for_writable_root ::
  "'z sandbox_env_scheme \<Rightarrow> fs_policy \<Rightarrow> rstr \<Rightarrow> rstr list \<Rightarrow> rstr \<Rightarrow> rstr list" where
  "protected_metadata_names_for_writable_root env pol root raw_writable_roots cwd =
     filter (\<lambda>metadata_name.
       list_all (\<lambda>metadata_path. \<not> can_write_path_with_cwd env pol metadata_path cwd)
         (join_path env root metadata_name # map (\<lambda>raw_root. join_path env raw_root metadata_name) raw_writable_roots))
       PROTECTED_METADATA_PATH_NAMES"

definition raw_carveout_path :: "'z sandbox_env_scheme \<Rightarrow> rstr \<Rightarrow> rstr list \<Rightarrow> rstr \<Rightarrow> rstr option" where
  "raw_carveout_path env root raw_writable_roots path =
     (if path_parent root \<noteq> None then
        (if path_eq path root then None
         else if path_starts_with path root then Some path
         else find_map (\<lambda>raw_root.
                case path_strip_prefix path raw_root of
                  None \<Rightarrow> None
                | Some rest \<Rightarrow> if rest = [] then None else Some (join_path env root (render_components rest)))
              raw_writable_roots)
      else None)"

definition carveout :: "'z sandbox_env_scheme \<Rightarrow> rstr \<Rightarrow> rstr list \<Rightarrow> rstr \<Rightarrow> rstr option" where
  "carveout env root raw_writable_roots path =
     (let effective_path = normalize_effective_absolute_path env path in
      case raw_carveout_path env root raw_writable_roots path of
        Some raw \<Rightarrow> Some raw
      | None \<Rightarrow>
          if path_eq effective_path root \<or> \<not> path_starts_with effective_path root then None
          else Some effective_path)"

definition writable_root_for ::
  "'z sandbox_env_scheme \<Rightarrow> fs_policy \<Rightarrow> rstr \<Rightarrow> rstr list \<Rightarrow> rstr \<Rightarrow> writable_root" where
  "writable_root_for env pol cwd writable_entries root =
     (let resolved_entries = resolved_entries_with_cwd env pol cwd;
          raw_writable_roots = filter (\<lambda>path. path_eq (normalize_effective_absolute_path env path) root) writable_entries;
          protect_missing_dot_codex =
            (case absolute_ok env cwd of None \<Rightarrow> False | Some c \<Rightarrow> path_eq (normalize_effective_absolute_path env c) root);
          default_subpaths = filter (\<lambda>path. \<not> has_explicit_resolved_path_entry resolved_entries path)
            (default_read_only_subpaths_for_writable_root env root protect_missing_dot_codex);
          carveouts = List.map_filter (\<lambda>e. carveout env root raw_writable_roots (fst e))
            (filter (\<lambda>e. \<not> can_write_path_with_cwd env pol (fst e) cwd)
              (filter (\<lambda>e. \<not> can_write (snd e)) resolved_entries))
      in \<lparr>wr_root = root,
          read_only_subpaths = dedup_absolute_paths env (default_subpaths @ carveouts) False,
          protected_metadata_names = protected_metadata_names_for_writable_root env pol root raw_writable_roots cwd\<rparr>)"

definition get_writable_roots_with_cwd :: "'z sandbox_env_scheme \<Rightarrow> fs_policy \<Rightarrow> rstr \<Rightarrow> writable_root list" where
  "get_writable_roots_with_cwd env pol cwd =
     (if has_full_disk_write_access pol then []
      else
        (let writable_entries =
               map fst (filter (\<lambda>e. can_write_path_with_cwd env pol (fst e) cwd)
                 (filter (\<lambda>e. can_write (snd e)) (resolved_entries_with_cwd env pol cwd)))
         in map (writable_root_for env pol cwd writable_entries) (dedup_absolute_paths env writable_entries True)))"

definition get_unreadable_roots_with_cwd :: "'z sandbox_env_scheme \<Rightarrow> fs_policy \<Rightarrow> rstr \<Rightarrow> rstr list" where
  "get_unreadable_roots_with_cwd env pol cwd =
     (if policy_kind pol \<noteq> Restricted then []
      else
        (let root = (case absolute_ok env cwd of None \<Rightarrow> None | Some c \<Rightarrow> outcome_option (absolute_root_path_for_cwd env c))
         in dedup_absolute_paths env
              (map fst (filter (\<lambda>e. case root of Some r \<Rightarrow> \<not> path_eq r (fst e) | None \<Rightarrow> True)
                (filter (\<lambda>e. \<not> can_read_path_with_cwd env pol (fst e) cwd)
                  (filter (\<lambda>e. snd e = NoAccess) (resolved_entries_with_cwd env pol cwd))))) True))"

definition get_unreadable_globs_with_cwd :: "'z sandbox_env_scheme \<Rightarrow> fs_policy \<Rightarrow> rstr \<Rightarrow> rstr list" where
  "get_unreadable_globs_with_cwd env pol cwd =
     (if policy_kind pol \<noteq> Restricted then []
      else remdups_adj (sort (List.map_filter (\<lambda>e.
             case entry_path e of
               GlobPattern pattern \<Rightarrow> Some (resolve_path_against_base (home_dir env) pattern cwd)
             | _ \<Rightarrow> None)
           (filter (\<lambda>e. entry_access e = NoAccess) (policy_entries pol)))))"

section \<open>Denied reads\<close>

record read_deny_matcher =
  denied_candidates :: "rstr list list"
  deny_read_matchers :: "(rstr \<Rightarrow> bool) list"
  invalid_pattern :: bool

datatype invalid_deny_read_glob_behavior = FailClosed | ReturnError

definition push_unique :: "rstr list \<Rightarrow> rstr \<Rightarrow> rstr list" where
  "push_unique candidates candidate =
     (if list_ex (\<lambda>existing. path_eq existing candidate) candidates then candidates else candidates @ [candidate])"

definition normalized_and_canonical_candidates :: "'z sandbox_env_scheme \<Rightarrow> rstr \<Rightarrow> rstr list" where
  "normalized_and_canonical_candidates env path =
     (let candidates = push_unique [] (case absolute_ok env path of Some normalized \<Rightarrow> normalized | None \<Rightarrow> path) in
      case os_canonicalize env path of
        None \<Rightarrow> candidates
      | Some canonical \<Rightarrow>
          (case absolute_ok env canonical of
             None \<Rightarrow> candidates
           | Some canonical_absolute \<Rightarrow> push_unique candidates canonical_absolute))"

fun compile_globs ::
  "'z sandbox_env_scheme \<Rightarrow> invalid_deny_read_glob_behavior \<Rightarrow> rstr list \<Rightarrow> (rstr \<Rightarrow> bool) list \<Rightarrow> bool \<Rightarrow>
   rstr + ((rstr \<Rightarrow> bool) list \<times> bool)" where
  "compile_globs env behavior [] matchers invalid = Inr (matchers, invalid)"
| "compile_globs env behavior (pattern # patterns) matchers invalid =
     (case compile_glob env pattern of
        Inr matcher \<Rightarrow> compile_globs env behavior patterns (matchers @ [matcher]) invalid
      | Inl err \<Rightarrow>
          (case behavior of
             FailClosed \<Rightarrow> compile_globs env behavior patterns matchers True
           | ReturnError \<Rightarrow> Inl (lit ''invalid deny-read glob pattern `'' @ pattern @ lit ''`: '' @ err)))"

definition build_matcher ::
  "'z sandbox_env_scheme \<Rightarrow> fs_policy \<Rightarrow> rstr \<Rightarrow> invalid_deny_read_glob_behavior \<Rightarrow> rstr + read_deny_matcher option" where
  "build_matcher env pol cwd behavior =
     (if \<not> has_denied_read_restrictions pol then Inr None
      else case compile_globs env behavior (get_unreadable_globs_with_cwd env pol cwd) [] False of
             Inl err \<Rightarrow> Inl err
           | Inr (matchers, invalid) \<Rightarrow>
               Inr (Some \<lparr>denied_candidates =
                   map (normalized_and_canonical_candidates env) (get_unreadable_roots_with_cwd env pol cwd),
                 deny_read_matchers = matchers, invalid_pattern = invalid\<rparr>))"

definition matcher_new :: "'z sandbox_env_scheme \<Rightarrow> fs_policy \<Rightarrow> rstr \<Rightarrow> (unit, read_deny_matcher option) outcome" where
  "matcher_new env pol cwd = (case build_matcher env pol cwd FailClosed of Inr matcher \<Rightarrow> Ok matcher | Inl _ \<Rightarrow> Panic)"

definition matcher_try_new :: "'z sandbox_env_scheme \<Rightarrow> fs_policy \<Rightarrow> rstr \<Rightarrow> rstr + read_deny_matcher option" where
  "matcher_try_new env pol cwd = build_matcher env pol cwd ReturnError"

definition is_read_denied :: "'z sandbox_env_scheme \<Rightarrow> read_deny_matcher \<Rightarrow> rstr \<Rightarrow> bool" where
  "is_read_denied env m path =
     (if invalid_pattern m then True
      else
        (let path_candidates = normalized_and_canonical_candidates env path in
         if list_ex (\<lambda>denied. list_ex (\<lambda>candidate. list_ex (\<lambda>denied_candidate.
              path_eq candidate denied_candidate \<or> path_starts_with candidate denied_candidate) denied) path_candidates)
            (denied_candidates m)
         then True
         else list_ex (\<lambda>matcher. list_ex matcher path_candidates) (deny_read_matchers m)))"

section \<open>Conversion to a legacy policy\<close>

record legacy_scan =
  workspace_root_writable :: bool
  scan_writable_roots :: "rstr list"
  tmpdir_writable :: bool
  slash_tmp_writable :: bool
  unbridgeable_root_write :: bool

definition scan_start :: legacy_scan where
  "scan_start = \<lparr>workspace_root_writable = False, scan_writable_roots = [], tmpdir_writable = False,
     slash_tmp_writable = False, unbridgeable_root_write = False\<rparr>"

definition scan_entry :: "'z sandbox_env_scheme \<Rightarrow> rstr option \<Rightarrow> sandbox_entry \<Rightarrow> legacy_scan \<Rightarrow> legacy_scan" where
  "scan_entry env cwd_absolute e st =
     (case entry_path e of
        GlobPattern _ \<Rightarrow> st
      | PathEntry path \<Rightarrow>
          if can_write (entry_access e) then
            (if (case cwd_absolute of Some c \<Rightarrow> path_eq c path | None \<Rightarrow> False)
             then st\<lparr>workspace_root_writable := True\<rparr>
             else st\<lparr>scan_writable_roots := scan_writable_roots st @ [path]\<rparr>)
          else st
      | Special value \<Rightarrow>
          (case value of
             Root \<Rightarrow> if entry_access e = WriteAccess then st\<lparr>unbridgeable_root_write := True\<rparr> else st
           | Minimal \<Rightarrow> st
           | ProjectRoots subpath \<Rightarrow>
               if subpath = None \<and> can_write (entry_access e) then st\<lparr>workspace_root_writable := True\<rparr>
               else (case resolve_file_system_special_path env value cwd_absolute of
                       Some path \<Rightarrow>
                         if can_write (entry_access e) then st\<lparr>scan_writable_roots := scan_writable_roots st @ [path]\<rparr> else st
                     | None \<Rightarrow> st)
           | Tmpdir \<Rightarrow> if can_write (entry_access e) then st\<lparr>tmpdir_writable := True\<rparr> else st
           | SlashTmp \<Rightarrow> if can_write (entry_access e) then st\<lparr>slash_tmp_writable := True\<rparr> else st
           | UnknownPath _ _ \<Rightarrow> st))"

definition unbridgeable_message :: rstr where
  "unbridgeable_message = lit ''permissions profile requests filesystem writes outside the workspace root, which is not supported until the runtime enforces FileSystemSandboxPolicy directly''"

definition full_access_legacy :: "network_sandbox_policy \<Rightarrow> sandbox_policy" where
  "full_access_legacy network_policy =
     (if network_is_enabled network_policy then DangerFullAccess else ExternalSandboxPolicy NetworkAccessRestricted)"

definition to_legacy_sandbox_policy ::
  "'z sandbox_env_scheme \<Rightarrow> fs_policy \<Rightarrow> network_sandbox_policy \<Rightarrow> rstr \<Rightarrow> rstr + sandbox_policy" where
  "to_legacy_sandbox_policy env pol network_policy cwd =
     (case policy_kind pol of
        ExternalSandbox \<Rightarrow>
          Inr (ExternalSandboxPolicy (if network_is_enabled network_policy then NetworkAccessEnabled else NetworkAccessRestricted))
      | Unrestricted \<Rightarrow> Inr (full_access_legacy network_policy)
      | Restricted \<Rightarrow>
          (let st = fold (scan_entry env (absolute_ok env cwd)) (policy_entries pol) scan_start in
           if has_full_disk_write_access pol then Inr (full_access_legacy network_policy)
           else if workspace_root_writable st then
             Inr (WorkspaceWrite (dedup_absolute_paths env (scan_writable_roots st) False) (network_is_enabled network_policy)
               (\<not> tmpdir_writable st) (\<not> slash_tmp_writable st))
           else if unbridgeable_root_write st \<or> scan_writable_roots st \<noteq> [] \<or> tmpdir_writable st \<or> slash_tmp_writable st
           then Inl unbridgeable_message
           else Inr (ReadOnly (network_is_enabled network_policy))))"

record semantic_signature =
  sig_full_disk_read :: bool
  sig_full_disk_write :: bool
  sig_platform_defaults :: bool
  sig_readable_roots :: "rstr list"
  sig_writable_roots :: "writable_root list"
  sig_unreadable_roots :: "rstr list"
  sig_unreadable_globs :: "rstr list"

definition sorted_writable_roots :: "writable_root list \<Rightarrow> writable_root list" where
  "sorted_writable_roots roots =
     sort_key (\<lambda>w. path_key (wr_root w))
       (map (\<lambda>w. w\<lparr>read_only_subpaths := sorted_absolute_paths (read_only_subpaths w),
          protected_metadata_names := remdups_adj (sort (protected_metadata_names w))\<rparr>) roots)"

definition semantic_signature_of :: "'z sandbox_env_scheme \<Rightarrow> fs_policy \<Rightarrow> rstr \<Rightarrow> semantic_signature" where
  "semantic_signature_of env pol cwd =
     \<lparr>sig_full_disk_read = has_full_disk_read_access pol,
      sig_full_disk_write = has_full_disk_write_access pol,
      sig_platform_defaults = include_platform_defaults pol,
      sig_readable_roots = sorted_absolute_paths (get_readable_roots_with_cwd env pol cwd),
      sig_writable_roots = sorted_writable_roots (get_writable_roots_with_cwd env pol cwd),
      sig_unreadable_roots = sorted_absolute_paths (get_unreadable_roots_with_cwd env pol cwd),
      sig_unreadable_globs = get_unreadable_globs_with_cwd env pol cwd\<rparr>"

definition is_semantically_equivalent_to :: "'z sandbox_env_scheme \<Rightarrow> fs_policy \<Rightarrow> fs_policy \<Rightarrow> rstr \<Rightarrow> bool" where
  "is_semantically_equivalent_to env pol other cwd \<longleftrightarrow>
     semantic_signature_of env pol cwd = semantic_signature_of env other cwd"

definition legacy_runtime_file_system_policy_for_cwd :: "'z sandbox_env_scheme \<Rightarrow> sandbox_policy \<Rightarrow> rstr \<Rightarrow> fs_policy" where
  "legacy_runtime_file_system_policy_for_cwd env sp cwd =
     (case sp of
        WorkspaceWrite roots _ exclude_tmpdir exclude_slash_tmp \<Rightarrow>
          restricted (protect_cwd_and_roots env cwd roots (workspace_entries roots exclude_tmpdir exclude_slash_tmp))
      | _ \<Rightarrow> policy_from_legacy env sp)"

definition protected_metadata_names_need_direct_runtime_enforcement ::
  "'z sandbox_env_scheme \<Rightarrow> fs_policy \<Rightarrow> sandbox_policy \<Rightarrow> rstr \<Rightarrow> bool" where
  "protected_metadata_names_need_direct_runtime_enforcement env pol legacy_policy cwd =
     (let legacy_roots = legacy_writable_roots_with_cwd env legacy_policy cwd in
      list_ex (\<lambda>w.
        case List.find (\<lambda>candidate. path_eq (wr_root candidate) (wr_root w)) legacy_roots of
          None \<Rightarrow> protected_metadata_names w \<noteq> []
        | Some legacy_root \<Rightarrow>
            list_ex (\<lambda>metadata_name.
              \<not> list_ex (\<lambda>subpath. path_eq subpath (join_path env (wr_root w) metadata_name)) (read_only_subpaths legacy_root))
              (protected_metadata_names w))
        (get_writable_roots_with_cwd env pol cwd))"

definition needs_direct_runtime_enforcement ::
  "'z sandbox_env_scheme \<Rightarrow> fs_policy \<Rightarrow> network_sandbox_policy \<Rightarrow> rstr \<Rightarrow> bool" where
  "needs_direct_runtime_enforcement env pol network_policy cwd =
     (if policy_kind pol \<noteq> Restricted then False
      else case to_legacy_sandbox_policy env pol network_policy cwd of
             Inl _ \<Rightarrow> True
           | Inr legacy_policy \<Rightarrow>
               if protected_metadata_names_need_direct_runtime_enforcement env pol legacy_policy cwd then True
               else semantic_signature_of env pol cwd \<noteq>
                 semantic_signature_of env (legacy_runtime_file_system_policy_for_cwd env legacy_policy cwd) cwd)"

section \<open>Protection only adds entries that read\<close>

definition adds_read_entries :: "sandbox_entry list \<Rightarrow> sandbox_entry list \<Rightarrow> bool" where
  "adds_read_entries es es' \<longleftrightarrow>
     (\<exists>xs. es' = es @ xs \<and> list_all (\<lambda>e. entry_access e = ReadAccess \<and> fs_path_ok (entry_path e)) xs)"

lemma adds_read_refl [simp]: "adds_read_entries es es"
  by (simp add: adds_read_entries_def)

lemma adds_read_trans [trans]: "adds_read_entries a b \<Longrightarrow> adds_read_entries b c \<Longrightarrow> adds_read_entries a c"
  by (auto simp: adds_read_entries_def)

lemma append_default_adds: "fs_path_ok p \<Longrightarrow> adds_read_entries es (append_default_read_only_entry_if_no_explicit_rule p es)"
  by (auto simp: adds_read_entries_def append_default_read_only_entry_if_no_explicit_rule_def entry_def)

lemma fold_adds:
  "(\<And>x es. x \<in> set xs \<Longrightarrow> adds_read_entries es (f x es)) \<Longrightarrow> adds_read_entries es (fold f xs es)"
  by (induction xs arbitrary: es) (auto intro: adds_read_trans)

lemma dedup_loop_subset: "set (dedup_loop seen ps) \<subseteq> set ps"
  by (induction seen ps rule: dedup_loop.induct) auto

lemma path_parent_normal: "normal_path p \<Longrightarrow> path_parent p = Some q \<Longrightarrow> normal_path q"
  using path_parent_render [of "names_of p"] normal_render [of "butlast (names_of p)"] list_all_butlast
  by (auto simp: normal_path_def split: if_splits)

lemma gitdir_normal:
  assumes "normal_path g" "resolve_gitdir_from_file env g = Some d"
  shows "normal_path d"
proof -
  from assms(2) obtain base raw where "path_parent g = Some base" "d = resolve_path_against_base (home_dir env) raw base"
    by (auto simp: resolve_gitdir_from_file_def Let_def split: option.splits if_splits)
  with absolutize_from_names(1) [OF normal_absolute [OF path_parent_normal [OF assms(1)]]] show ?thesis
    by (simp add: resolve_path_against_base_def)
qed

lemma git_subpaths_normal:
  assumes "normal_path p" "d \<in> set (git_subpaths env p)"
  shows "normal_path d"
proof -
  from assms(2) have "d = p \<or> resolve_gitdir_from_file env p = Some d"
    unfolding git_subpaths_def
    by (cases "is_dir env p"; cases "is_file env p"; cases "is_git_pointer_file env p"; cases "resolve_gitdir_from_file env p") auto
  then show ?thesis using gitdir_normal [OF assms(1)] assms(1) by blast
qed

lemma default_subpaths_normal:
  assumes "normal_path r" "q \<in> set (default_read_only_subpaths_for_writable_root env r b)"
  shows "normal_path q"
proof -
  have g: "normal_path (join_path env r m)" for m by (rule join_path_normal [OF assms(1)])
  have "normal_path d" if "d \<in> set (git_subpaths env (join_path env r (lit ''.git'')))" for d
    using git_subpaths_normal [OF g that] .
  moreover have "set (default_read_only_subpaths_for_writable_root env r b) \<subseteq>
      set (git_subpaths env (join_path env r (lit ''.git''))) \<union> range (join_path env r)"
    unfolding default_read_only_subpaths_for_writable_root_def dedup_absolute_paths_def Let_def
    by (intro subset_trans [OF dedup_loop_subset]) (auto simp del: lit_simps)
  ultimately show ?thesis using g assms(2) by blast
qed

lemma protect_root_adds: "normal_path r \<Longrightarrow> adds_read_entries es (protect_root env b r es)"
  unfolding protect_root_def append_default_read_only_path_if_no_explicit_rule_def
  by (rule fold_adds) (auto intro!: append_default_adds dest: default_subpaths_normal)

lemma protect_roots_adds:
  "list_all normal_path roots \<Longrightarrow> adds_read_entries es (fold (protect_root env b) roots es)"
  by (rule fold_adds) (auto simp: list_all_iff intro: protect_root_adds)

lemma workspace_write_adds:
  assumes "list_all normal_path roots"
  shows "adds_read_entries (workspace_entries roots t s) (policy_entries (workspace_write env roots t s))"
proof -
  have "adds_read_entries (workspace_entries roots t s)
      (fold append_default_read_only_project_root_subpath_if_no_explicit_rule
        (map lit [''.git'', ''.agents'', ''.codex'', ''.deepseekx'']) (workspace_entries roots t s))"
    unfolding append_default_read_only_project_root_subpath_if_no_explicit_rule_def
    by (rule fold_adds) (auto intro!: append_default_adds simp: starts_with_def)
  with protect_roots_adds [OF assms] show ?thesis
    unfolding workspace_write_def restricted_def fs_policy.simps by (blast intro: adds_read_trans)
qed

lemma legacy_entries:
  assumes "env_ok env" "list_all normal_path roots"
  obtains xs where "policy_entries (from_legacy_sandbox_policy_for_cwd env (WorkspaceWrite roots n t s) cwd) =
      workspace_entries roots t s @ xs" "list_all (\<lambda>e. entry_access e = ReadAccess \<and> fs_path_ok (entry_path e)) xs"
proof -
  have "adds_read_entries es (protect_cwd_and_roots env cwd roots es)" for es
  proof (cases "absolute_ok env cwd")
    case (Some c)
    from protect_root_adds [OF absolute_ok_normal [OF assms(1) Some], of es env True]
      protect_roots_adds [OF assms(2), of "protect_root env True c es" env False]
    show ?thesis by (simp add: protect_cwd_and_roots_def Some) (rule adds_read_trans)
  qed (simp add: protect_cwd_and_roots_def protect_roots_adds [OF assms(2)])
  from adds_read_trans [OF workspace_write_adds [OF assms(2), of t s env] this]
  have "adds_read_entries (workspace_entries roots t s)
      (policy_entries (from_legacy_sandbox_policy_for_cwd env (WorkspaceWrite roots n t s) cwd))"
    by (simp add: from_legacy_sandbox_policy_for_cwd_def Let_def)
  then show thesis using that by (auto simp: adds_read_entries_def)
qed

lemma legacy_kind: "policy_kind (from_legacy_sandbox_policy_for_cwd env (WorkspaceWrite roots n t s) cwd) = Restricted"
  by (simp add: from_legacy_sandbox_policy_for_cwd_def Let_def workspace_write_def restricted_def)

section \<open>Legacy policies survive the conversion\<close>

lemma scan_read: "entry_access e = ReadAccess \<Longrightarrow> scan_entry env c e st = st"
  by (auto simp: scan_entry_def can_write_def split: fs_path.split special_path.split option.split)

lemma scan_reads: "list_all (\<lambda>e. entry_access e = ReadAccess \<and> Q e) xs \<Longrightarrow> fold (scan_entry env c) xs st = st"
  by (induction xs arbitrary: st) (simp_all add: scan_read)

lemma scan_roots:
  assumes "workspace_root_writable st"
  shows "fold (scan_entry env (Some c)) (map (\<lambda>path. entry (PathEntry path) WriteAccess) roots) st =
     st\<lparr>scan_writable_roots := scan_writable_roots st @ filter (\<lambda>r. \<not> path_eq c r) roots\<rparr>"
  using assms
proof (induction roots arbitrary: st)
  case (Cons r roots)
  have "st\<lparr>workspace_root_writable := True\<rparr> = st" using Cons.prems by (cases st) simp
  with Cons show ?case by (simp add: scan_entry_def entry_def can_write_def)
qed simp

text \<open>Each root once, in the place where it is listed first.\<close>

function keep_first :: "'a list \<Rightarrow> 'a list" where
  "keep_first [] = []"
| "keep_first (p # ps) = p # keep_first (filter (\<lambda>q. q \<noteq> p) ps)"
  by pat_completeness auto
termination
  by (relation "measure length") (simp_all add: le_imp_less_Suc)

lemma keep_first_distinct: "distinct ps \<Longrightarrow> keep_first ps = ps"
proof (induction ps)
  case (Cons p ps)
  then have "filter (\<lambda>q. q \<noteq> p) ps = ps" by (auto intro!: filter_True)
  with Cons show ?case by simp
qed simp

lemma dedup_keep_first:
  "list_all normal_path ps \<Longrightarrow> list_all normal_path seen \<Longrightarrow> dedup_loop seen ps = keep_first (filter (\<lambda>p. p \<notin> set seen) ps)"
proof (induction ps arbitrary: seen)
  case (Cons p ps)
  then have "list_ex (path_eq p) seen \<longleftrightarrow> p \<in> set seen"
    using path_eq_normal [of p] by (auto simp: list_ex_iff list_all_iff)
  moreover have "filter (\<lambda>q. q \<noteq> p) (filter (\<lambda>q. q \<notin> set seen) ps) = filter (\<lambda>q. q \<notin> set (p # seen)) ps"
    by (simp add: conj_commute)
  ultimately show ?case using Cons by simp
qed simp

lemma not_full_write:
  "list_all (\<lambda>e. entry_path e = Special Root \<longrightarrow> entry_access e = ReadAccess) (policy_entries pol) \<Longrightarrow>
   policy_kind pol = Restricted \<Longrightarrow> \<not> has_full_disk_write_access pol"
  by (auto simp: has_full_disk_write_access_def has_root_access_def list_ex_iff list_all_iff is_special_def can_write_def)

lemma legacy_not_full_write:
  assumes "env_ok env" "list_all normal_path roots"
  shows "\<not> has_full_disk_write_access (from_legacy_sandbox_policy_for_cwd env (WorkspaceWrite roots n t s) cwd)"
proof -
  obtain xs where "policy_entries (from_legacy_sandbox_policy_for_cwd env (WorkspaceWrite roots n t s) cwd) =
      workspace_entries roots t s @ xs" "list_all (\<lambda>e. entry_access e = ReadAccess \<and> fs_path_ok (entry_path e)) xs"
    by (rule legacy_entries [OF assms])
  then show ?thesis
    by (intro not_full_write) (auto simp: workspace_entries_def entry_def list_all_iff legacy_kind)
qed

text \<open>What the entries keep of a list of writable roots: repetitions and the working directory are left out.\<close>

fun canonical_roots :: "rstr \<Rightarrow> sandbox_policy \<Rightarrow> sandbox_policy" where
  "canonical_roots c (WorkspaceWrite roots n t s) = WorkspaceWrite (keep_first (filter (\<lambda>r. r \<noteq> c) roots)) n t s"
| "canonical_roots c sp = sp"

text \<open>
  (C34) Converting a legacy policy to entries for a working directory and back gives the same legacy
  policy, network access included, except that a writable root that is listed again, and one that is the
  working directory itself, is left out; with roots listed once and the working directory not among them
  it gives the very same policy.  (Roots are absolute paths in normal form, and the working directory can
  be made absolute.)
\<close>
theorem legacy_policy_roundtrip:
  assumes "env_ok env" "absolute_ok env cwd = Some c"
    and "\<And>roots n t s. sp = WorkspaceWrite roots n t s \<Longrightarrow> list_all normal_path roots"
  shows "to_legacy_sandbox_policy env (from_legacy_sandbox_policy_for_cwd env sp cwd) (network_policy_of sp) cwd =
      Inr (canonical_roots c sp) \<and>
    (\<forall>roots n t s. sp = WorkspaceWrite roots n t s \<and> distinct roots \<and> c \<notin> set roots \<longrightarrow> canonical_roots c sp = sp)"
proof
  show "\<forall>roots n t s. sp = WorkspaceWrite roots n t s \<and> distinct roots \<and> c \<notin> set roots \<longrightarrow> canonical_roots c sp = sp"
  proof (intro allI impI)
    fix roots n t s
    assume *: "sp = WorkspaceWrite roots n t s \<and> distinct roots \<and> c \<notin> set roots"
    then have "filter (\<lambda>r. r \<noteq> c) roots = roots" by (auto intro!: filter_True)
    with * show "canonical_roots c sp = sp" by (simp add: keep_first_distinct)
  qed
  show "to_legacy_sandbox_policy env (from_legacy_sandbox_policy_for_cwd env sp cwd) (network_policy_of sp) cwd =
      Inr (canonical_roots c sp)"
  proof (cases sp)
    case (WorkspaceWrite roots n t s)
    let ?pol = "from_legacy_sandbox_policy_for_cwd env (WorkspaceWrite roots n t s) cwd"
    have roots: "list_all normal_path roots" using assms(3) [OF WorkspaceWrite] .
    obtain xs where xs: "policy_entries ?pol = workspace_entries roots t s @ xs"
      "list_all (\<lambda>e. entry_access e = ReadAccess \<and> fs_path_ok (entry_path e)) xs"
      by (rule legacy_entries [OF assms(1) roots])
    have other: "filter (\<lambda>r. \<not> path_eq c r) roots = filter (\<lambda>r. r \<noteq> c) roots"
      using roots path_eq_normal [OF absolute_ok_normal [OF assms(1,2)]] by (intro filter_cong) (auto simp: list_all_iff)
    have "fold (scan_entry env (Some c)) (policy_entries ?pol) scan_start =
        \<lparr>workspace_root_writable = True, scan_writable_roots = filter (\<lambda>r. r \<noteq> c) roots, tmpdir_writable = \<not> t,
         slash_tmp_writable = \<not> s, unbridgeable_root_write = False\<rparr>"
      by (simp add: xs(1) scan_reads [OF xs(2)] workspace_entries_def)
        (simp add: scan_entry_def scan_roots [unfolded entry_def] other entry_def scan_start_def can_write_def)
    moreover have "dedup_absolute_paths env (filter (\<lambda>r. r \<noteq> c) roots) False = keep_first (filter (\<lambda>r. r \<noteq> c) roots)"
      using dedup_keep_first [of "filter (\<lambda>r. r \<noteq> c) roots" "[]"] roots
      by (simp add: dedup_absolute_paths_def list_all_iff)
    ultimately show ?thesis
      using legacy_not_full_write [OF assms(1) roots, of n t s cwd]
      by (simp add: WorkspaceWrite to_legacy_sandbox_policy_def legacy_kind assms(2) network_policy_of_def network_is_enabled_def)
  next
    case (ReadOnly n)
    then show ?thesis
      by (simp add: from_legacy_sandbox_policy_for_cwd_def to_legacy_sandbox_policy_def restricted_def entry_def scan_entry_def
          scan_start_def has_full_disk_write_access_def has_root_access_def is_special_def can_write_def network_policy_of_def
          network_is_enabled_def)
  next
    case (ExternalSandboxPolicy n)
    then show ?thesis
      by (cases n) (simp_all add: from_legacy_sandbox_policy_for_cwd_def to_legacy_sandbox_policy_def external_sandbox_def
          network_policy_of_def network_is_enabled_def)
  qed (simp add: from_legacy_sandbox_policy_for_cwd_def to_legacy_sandbox_policy_def unrestricted_def full_access_legacy_def
    network_policy_of_def network_is_enabled_def)
qed

lemma tmp_work: "absolute_ok work_env (lit ''/w'') = Some (lit ''/w'')"
  by (rule absolute_ok_id [OF normal_lits(1)])

theorem legacy_policy_roundtrip_witness:
  "to_legacy_sandbox_policy work_env
     (from_legacy_sandbox_policy_for_cwd work_env (WorkspaceWrite [lit ''/tmp'', lit ''/w'', lit ''/tmp''] True True False) (lit ''/w''))
     (network_policy_of (WorkspaceWrite [lit ''/tmp'', lit ''/w'', lit ''/tmp''] True True False)) (lit ''/w'') =
   Inr (WorkspaceWrite [lit ''/tmp''] True True False)"
proof -
  have "canonical_roots (lit ''/w'') (WorkspaceWrite [lit ''/tmp'', lit ''/w'', lit ''/tmp''] True True False) =
      WorkspaceWrite [lit ''/tmp''] True True False" by simp
  with legacy_policy_roundtrip [OF work_ok(1) tmp_work, of "WorkspaceWrite [lit ''/tmp'', lit ''/w'', lit ''/tmp''] True True False"]
    tmp_normal normal_lits(1) show ?thesis by (simp del: lit_simps)
qed

section \<open>Denied reads survive\<close>

lemma fs_path_eq_refl [simp]: "fs_path_eq p p"
proof -
  have "option_path_eq q q" for q by (cases q) (simp_all add: path_eq_def)
  then have "special_eq v v" for v by (cases v) simp_all
  then show ?thesis by (cases p) (simp_all add: path_eq_def)
qed

lemma push_deny_mono: "set es \<subseteq> set (push_deny_entry d es)" "\<exists>e\<in>set (push_deny_entry d es). entry_eq e d"
  by (auto simp: push_deny_entry_def list_ex_iff entry_eq_def)

lemma push_denies_mono: "set es \<subseteq> set (fold push_deny_entry ds es)"
  by (induction ds arbitrary: es) (simp, use push_deny_mono(1) in fastforce)

lemma push_denies_subset: "set (fold push_deny_entry ds es) \<subseteq> set es \<union> set ds"
proof (induction ds arbitrary: es)
  case (Cons d ds)
  have "set (push_deny_entry d es) \<subseteq> insert d (set es)" by (auto simp: push_deny_entry_def)
  with Cons [of "push_deny_entry d es"] show ?case by auto
qed simp

lemma push_denies_adds: "d \<in> set ds \<Longrightarrow> \<exists>e\<in>set (fold push_deny_entry ds es). entry_eq e d"
proof (induction ds arbitrary: es)
  case (Cons x xs)
  show ?case
  proof (cases "d = x")
    case True
    with push_deny_mono(2) [of x es] push_denies_mono [of "push_deny_entry x es" xs] show ?thesis by auto
  next
    case False
    with Cons show ?thesis by simp
  qed
qed simp

text \<open>
  Whatever allow side replaces a policy, the paths it denied stay denied: after
  \<^verbatim>\<open>preserve_deny_read_restrictions_from\<close> a path with a deny entry of the former policy resolves to no
  access, also when the new policy was unrestricted.  (Only a policy that leaves enforcement to an
  external sandbox is kept as it is.)
\<close>
theorem preserved_denies_deny:
  assumes "env_ok env" "policy_ok self" "policy_ok existing" "policy_kind self \<noteq> ExternalSandbox"
    "entry (PathEntry d) NoAccess \<in> set (policy_entries existing)"
  shows "resolve_access_with_cwd env (preserve_deny_read_restrictions_from self existing) d cwd = NoAccess"
proof -
  let ?pol = "preserve_deny_read_restrictions_from self existing"
  have nd: "normal_path d" using assms(3,5) by (auto simp: policy_ok_def list_all_iff entry_def)
  define ds where "ds = filter (\<lambda>e. entry_access e = NoAccess) (policy_entries existing)"
  have d: "entry (PathEntry d) NoAccess \<in> set ds" using assms(5) by (simp add: ds_def entry_def)
  then have "list_ex (\<lambda>e. entry_access e = NoAccess) (policy_entries existing)" by (auto simp: ds_def list_ex_iff)
  then obtain es where pol: "policy_kind ?pol = Restricted" "policy_entries ?pol = fold push_deny_entry ds es"
    "list_all (\<lambda>e. fs_path_ok (entry_path e)) es"
    using assms(2,4)
    by (cases "policy_kind self")
      (auto simp: preserve_deny_read_restrictions_from_def Let_def restricted_def policy_ok_def add_deny_entries_def ds_def entry_def)
  have "policy_ok ?pol"
    using assms(3) pol(3) push_denies_subset [of ds es] by (auto simp: policy_ok_def pol(2) list_all_iff ds_def)
  note dec = resolve_access_decides [OF assms(1) this pol(1) resolve_candidate_normal [OF nd] nd, of cwd]
  obtain e where e: "e \<in> set (policy_entries ?pol)" "entry_eq e (entry (PathEntry d) NoAccess)"
    using push_denies_adds [OF d] by (auto simp: pol(2))
  then obtain q where q: "entry_path e = PathEntry q" "entry_access e = NoAccess" "path_eq q d"
    by (cases "entry_path e") (auto simp: entry_eq_def entry_def)
  have "normal_path q" using \<open>policy_ok ?pol\<close> e(1) q(1) by (auto simp: policy_ok_def list_all_iff)
  with q(3) nd have "q = d" by (simp add: path_eq_normal)
  then have in_cov: "(names_of d, NoAccess) \<in> covering env ?pol cwd d"
    using covering_intro [OF resolved_entry_intro [OF e(1)], of env cwd d d] q by (simp add: resolve_entry_path_def)
  from decidesE [OF dec in_cov] obtain ns where ns:
    "(ns, resolve_access_with_cwd env ?pol d cwd) \<in> covering env ?pol cwd d"
    "\<forall>(ms, b)\<in>covering env ?pol cwd d. length ms \<le> length ns \<and> (ms = ns \<longrightarrow> b \<le> resolve_access_with_cwd env ?pol d cwd)"
    by blast
  have "ns = names_of d"
    using covering_prefix [OF ns(1)] bspec [OF ns(2) in_cov] by (auto simp: prefix_def)
  with bspec [OF ns(2) in_cov] have "NoAccess \<le> resolve_access_with_cwd env ?pol d cwd" by simp
  then show ?thesis by (cases "resolve_access_with_cwd env ?pol d cwd") (simp_all add: less_eq_access_mode_def)
qed

theorem preserved_denies_deny_witness:
  "resolve_access_with_cwd work_env (preserve_deny_read_restrictions_from unrestricted work_policy) (lit ''/w/secret'') (lit ''/w'') =
   NoAccess"
  by (rule preserved_denies_deny [OF work_ok(1) _ work_ok(2)])
    (simp_all add: unrestricted_def policy_ok_def work_policy_def restricted_def del: lit_simps)

section \<open>Deny globs fail closed\<close>

definition glob_fails :: "'z sandbox_env_scheme \<Rightarrow> rstr \<Rightarrow> bool" where
  "glob_fails env pattern = isl (compile_glob env pattern)"

definition glob_matchers :: "'z sandbox_env_scheme \<Rightarrow> rstr list \<Rightarrow> (rstr \<Rightarrow> bool) list" where
  "glob_matchers env patterns = map (\<lambda>g. projr (compile_glob env g)) (filter (\<lambda>g. \<not> glob_fails env g) patterns)"

lemma compile_globs_closed:
  "compile_globs env FailClosed gs ms invalid = Inr (ms @ glob_matchers env gs, invalid \<or> list_ex (glob_fails env) gs)"
  by (induction gs arbitrary: ms invalid) (auto simp: glob_matchers_def glob_fails_def split: sum.split)

lemma compile_globs_error:
  "compile_globs env ReturnError gs ms invalid =
     (case find (glob_fails env) gs of
        None \<Rightarrow> Inr (ms @ glob_matchers env gs, invalid)
      | Some g \<Rightarrow> Inl (lit ''invalid deny-read glob pattern `'' @ g @ lit ''`: '' @ projl (compile_glob env g)))"
  by (induction gs arbitrary: ms) (auto simp: glob_matchers_def glob_fails_def simp del: lit_simps split: sum.split option.split)

text \<open>
  A deny pattern that does not compile never opens anything.  The runtime matcher
  (\<^verbatim>\<open>ReadDenyMatcher::new\<close>) is always built, without reaching its \<^verbatim>\<open>unwrap\<close> on an error, and then denies
  every path; when all patterns compile it denies exactly the paths below an unreadable root and the
  paths some pattern matches, in their normalized or their canonical form.  The validating
  constructor (\<^verbatim>\<open>try_new\<close>) reports the first pattern that fails, and otherwise builds the same matcher.
\<close>
theorem deny_globs_fail_closed:
  assumes "has_denied_read_restrictions pol"
  shows "\<exists>m. matcher_new env pol cwd = Ok (Some m) \<and>
    (\<forall>path. is_read_denied env m path \<longleftrightarrow>
      (\<exists>g\<in>set (get_unreadable_globs_with_cwd env pol cwd). glob_fails env g) \<or>
      (\<exists>c\<in>set (normalized_and_canonical_candidates env path).
        (\<exists>root\<in>set (get_unreadable_roots_with_cwd env pol cwd). \<exists>d\<in>set (normalized_and_canonical_candidates env root).
           path_eq c d \<or> path_starts_with c d) \<or>
        (\<exists>g\<in>set (get_unreadable_globs_with_cwd env pol cwd). \<exists>matches. compile_glob env g = Inr matches \<and> matches c))) \<and>
    matcher_try_new env pol cwd =
      (case find (glob_fails env) (get_unreadable_globs_with_cwd env pol cwd) of
         None \<Rightarrow> Inr (Some m)
       | Some g \<Rightarrow> Inl (lit ''invalid deny-read glob pattern `'' @ g @ lit ''`: '' @ projl (compile_glob env g)))"
proof -
  let ?gs = "get_unreadable_globs_with_cwd env pol cwd"
  let ?m = "\<lparr>denied_candidates = map (normalized_and_canonical_candidates env) (get_unreadable_roots_with_cwd env pol cwd),
    deny_read_matchers = glob_matchers env ?gs, invalid_pattern = list_ex (glob_fails env) ?gs\<rparr>"
  have new: "matcher_new env pol cwd = Ok (Some ?m)"
    using assms by (simp add: matcher_new_def build_matcher_def compile_globs_closed)
  have "find (glob_fails env) ?gs = None \<longleftrightarrow> \<not> list_ex (glob_fails env) ?gs" by (auto simp: find_None_iff list_ex_iff)
  then have try_it: "matcher_try_new env pol cwd = (case find (glob_fails env) ?gs of None \<Rightarrow> Inr (Some ?m)
      | Some g \<Rightarrow> Inl (lit ''invalid deny-read glob pattern `'' @ g @ lit ''`: '' @ projl (compile_glob env g)))"
    using assms by (auto simp add: matcher_try_new_def build_matcher_def compile_globs_error simp del: lit_simps split: option.split)
  have matchers: "(\<exists>f\<in>set (glob_matchers env ?gs). f c) \<longleftrightarrow> (\<exists>g\<in>set ?gs. \<exists>f. compile_glob env g = Inr f \<and> f c)"
    if "\<not> list_ex (glob_fails env) ?gs" for c
  proof -
    have "\<exists>f. compile_glob env g = Inr f" if "g \<in> set ?gs" for g
      using \<open>\<not> list_ex _ _\<close> that by (cases "compile_glob env g") (auto simp: glob_fails_def list_ex_iff)
    then have "projr (compile_glob env g) c \<longleftrightarrow> (\<exists>f. compile_glob env g = Inr f \<and> f c)" if "g \<in> set ?gs" for g
      using that by fastforce
    moreover have "filter (\<lambda>g. \<not> glob_fails env g) ?gs = ?gs" using that by (simp add: list_ex_iff)
    ultimately show ?thesis by (auto simp: glob_matchers_def)
  qed
  have denied: "is_read_denied env ?m path \<longleftrightarrow> (\<exists>g\<in>set ?gs. glob_fails env g) \<or>
      (\<exists>c\<in>set (normalized_and_canonical_candidates env path).
        (\<exists>root\<in>set (get_unreadable_roots_with_cwd env pol cwd). \<exists>d\<in>set (normalized_and_canonical_candidates env root).
           path_eq c d \<or> path_starts_with c d) \<or> (\<exists>g\<in>set ?gs. \<exists>f. compile_glob env g = Inr f \<and> f c))" for path
  proof (cases "list_ex (glob_fails env) ?gs")
    case False
    have "is_read_denied env ?m path \<longleftrightarrow> (\<exists>c\<in>set (normalized_and_canonical_candidates env path).
        (\<exists>root\<in>set (get_unreadable_roots_with_cwd env pol cwd). \<exists>d\<in>set (normalized_and_canonical_candidates env root).
           path_eq c d \<or> path_starts_with c d) \<or> (\<exists>f\<in>set (glob_matchers env ?gs). f c))"
      using False by (simp add: is_read_denied_def Let_def list_ex_iff) blast
    with False show ?thesis unfolding matchers [OF False] by (simp add: list_ex_iff)
  qed (auto simp: is_read_denied_def list_ex_iff)
  show ?thesis by (intro exI [of _ ?m] conjI allI new denied try_it)
qed

theorem deny_globs_fail_closed_witness:
  "\<exists>m. matcher_new work_env work_policy (lit ''/w'') = Ok (Some m)"
  using deny_globs_fail_closed [of work_policy work_env "lit ''/w''"]
  by (auto simp: has_denied_read_restrictions_def work_policy_def restricted_def entry_def simp del: lit_simps)

section \<open>The writable workspace\<close>

lemma resolved_append:
  "resolved_entries_with_cwd env (pol\<lparr>policy_entries := es @ xs\<rparr>) cwd =
   resolved_entries_with_cwd env (pol\<lparr>policy_entries := es\<rparr>) cwd @ resolved_entries_with_cwd env (pol\<lparr>policy_entries := xs\<rparr>) cwd"
  by (simp add: resolved_entries_with_cwd_def Let_def List.map_filter_def)

lemma write_entry_iff:
  "(q, WriteAccess) \<in> set (resolved_entries_with_cwd env pol cwd) \<longleftrightarrow>
   (\<exists>e\<in>set (policy_entries pol). entry_access e = WriteAccess \<and>
      resolve_entry_path env (entry_path e) (absolute_ok env cwd) = Some q)"
  by (force simp: resolved_entries_with_cwd_def Let_def List.map_filter_def)

lemma slash_tmp_resolves:
  "resolve_entry_path env (Special SlashTmp) c = Some q \<longleftrightarrow>
     q \<in> set (case absolute_ok env (lit ''/tmp'') of Some tmp \<Rightarrow> if is_dir env tmp then [tmp] else [] | None \<Rightarrow> [])"
  by (cases "absolute_ok env (lit ''/tmp'')") (auto simp add: resolve_entry_path_def simp del: lit_simps)

lemma tmpdir_resolves:
  "resolve_entry_path env (Special Tmpdir) c = Some q \<longleftrightarrow>
     q \<in> set (case tmpdir_var env of
        None \<Rightarrow> []
      | Some tmpdir \<Rightarrow> if tmpdir = [] then [] else (case absolute_ok env tmpdir of Some t \<Rightarrow> [t] | None \<Rightarrow> []))"
proof (cases "tmpdir_var env")
  case (Some tmpdir)
  then show ?thesis by (cases "absolute_ok env tmpdir") (auto simp: resolve_entry_path_def)
qed (simp add: resolve_entry_path_def)

lemma plain_root_resolves:
  "resolve_entry_path env (Special (ProjectRoots None)) c = c" "resolve_entry_path env (PathEntry p) c = Some p"
  by (simp_all add: resolve_entry_path_def split: option.split)

lemmas special_root_resolves = slash_tmp_resolves tmpdir_resolves plain_root_resolves

lemma legacy_write_roots:
  assumes "env_ok env" "list_all normal_path roots" "absolute_ok env cwd = Some c"
  shows "(q, WriteAccess) \<in> set (resolved_entries_with_cwd env
      (from_legacy_sandbox_policy_for_cwd env (WorkspaceWrite roots n t s) cwd) cwd) \<longleftrightarrow>
    q \<in> set (legacy_roots env roots t s cwd)"
proof -
  let ?pol = "from_legacy_sandbox_policy_for_cwd env (WorkspaceWrite roots n t s) cwd"
  obtain xs where xs: "policy_entries ?pol = workspace_entries roots t s @ xs"
    "list_all (\<lambda>e. entry_access e = ReadAccess \<and> fs_path_ok (entry_path e)) xs"
    by (rule legacy_entries [OF assms(1,2)])
  have "(q, WriteAccess) \<in> set (resolved_entries_with_cwd env ?pol cwd) \<longleftrightarrow>
      (\<exists>e\<in>set (workspace_entries roots t s). entry_access e = WriteAccess \<and> resolve_entry_path env (entry_path e) (Some c) = Some q)"
    using xs(2) by (auto simp: write_entry_iff xs(1) assms(3) list_all_iff)
  also have "\<dots> \<longleftrightarrow> q \<in> set (legacy_roots env roots t s cwd)"
    by (cases s; cases t)
      (auto simp: workspace_entries_def legacy_roots_def entry_def assms(3) special_root_resolves simp del: lit_simps)
  finally show ?thesis .
qed

lemma legacy_policy_ok:
  assumes "env_ok env" "list_all normal_path roots"
  shows "policy_ok (from_legacy_sandbox_policy_for_cwd env (WorkspaceWrite roots n t s) cwd)"
proof -
  obtain xs where xs: "policy_entries (from_legacy_sandbox_policy_for_cwd env (WorkspaceWrite roots n t s) cwd) =
      workspace_entries roots t s @ xs" "list_all (\<lambda>e. entry_access e = ReadAccess \<and> fs_path_ok (entry_path e)) xs"
    by (rule legacy_entries [OF assms])
  then show ?thesis using assms(2) by (auto simp: policy_ok_def workspace_entries_def entry_def list_all_iff)
qed

text \<open>
  What the workspace-write policy keeps out of reach: a path outside the working directory, the
  configured roots and the temporary directories that are not excluded cannot be written; and, as long
  as no such root lies in the metadata of another, neither can the \<^verbatim>\<open>.git\<close>, \<^verbatim>\<open>.agents\<close>, \<^verbatim>\<open>.codex\<close> and
  \<^verbatim>\<open>.deepseekx\<close> directories of any of them.
\<close>
theorem workspace_write_confined:
  assumes "env_ok env" "list_all normal_path roots" "absolute_ok env cwd = Some c" "normal_path p"
    and rs: "rs = set (legacy_roots env roots t s cwd)"
    and "(\<forall>r\<in>rs. \<not> prefix (names_of r) (names_of p)) \<or>
      (\<exists>r\<in>rs. \<exists>k\<in>set PROTECTED_METADATA_PATH_NAMES. prefix (names_of r @ [k]) (names_of p)) \<and>
      (\<forall>q\<in>rs. \<forall>r\<in>rs. \<forall>k\<in>set PROTECTED_METADATA_PATH_NAMES. \<not> prefix (names_of r @ [k]) (names_of q))"
  shows "\<not> can_write_path_with_cwd env (from_legacy_sandbox_policy_for_cwd env (WorkspaceWrite roots n t s) cwd) p cwd"
proof
  let ?pol = "from_legacy_sandbox_policy_for_cwd env (WorkspaceWrite roots n t s) cwd"
  assume can: "can_write_path_with_cwd env ?pol p cwd"
  note ok = legacy_policy_ok [OF assms(1,2), of n t s cwd]
    and write_roots = legacy_write_roots [OF assms(1-3), of _ n t s, folded rs]
  have "resolve_access_with_cwd env ?pol p cwd = WriteAccess"
    using can by (auto simp: can_write_path_with_cwd_def can_write_def split: if_splits)
  with resolve_access_decides [OF assms(1) ok legacy_kind resolve_candidate_normal [OF assms(4)] assms(4), of cwd]
  have "\<exists>ns. (ns, WriteAccess) \<in> covering env ?pol cwd p" by (auto simp: decides_def split: if_splits)
  then have "\<exists>r\<in>rs. prefix (names_of r) (names_of p)"
    using write_roots by (auto simp: covering_def rs)
  with assms(6) obtain r k where "r \<in> rs" "k \<in> set PROTECTED_METADATA_PATH_NAMES" "prefix (names_of r @ [k]) (names_of p)"
    "\<forall>q\<in>rs. \<forall>r\<in>rs. \<forall>k\<in>set PROTECTED_METADATA_PATH_NAMES. \<not> prefix (names_of r @ [k]) (names_of q)" by blast
  with metadata_write_denied [OF assms(1) ok legacy_kind legacy_not_full_write [OF assms(1,2)] assms(4), of r cwd k]
  show False using can write_roots by (auto simp: rs)
qed

theorem workspace_write_confined_witness:
  "\<not> can_write_path_with_cwd work_env
     (from_legacy_sandbox_policy_for_cwd work_env (WorkspaceWrite [] True True True) (lit ''/w'')) (lit ''/w/.git/hooks'') (lit ''/w'')"
proof (rule workspace_write_confined [OF work_ok(1) _ tmp_work hook_path(1) refl])
  have "legacy_roots work_env [] True True (lit ''/w'') = [lit ''/w'']"
    by (simp add: legacy_roots_def tmp_work del: lit_simps)
  then show "(\<forall>r\<in>set (legacy_roots work_env [] True True (lit ''/w'')). \<not> prefix (names_of r) (names_of (lit ''/w/.git/hooks''))) \<or>
      (\<exists>r\<in>set (legacy_roots work_env [] True True (lit ''/w'')). \<exists>k\<in>set PROTECTED_METADATA_PATH_NAMES.
         prefix (names_of r @ [k]) (names_of (lit ''/w/.git/hooks''))) \<and>
      (\<forall>q\<in>set (legacy_roots work_env [] True True (lit ''/w'')). \<forall>r\<in>set (legacy_roots work_env [] True True (lit ''/w'')).
         \<forall>k\<in>set PROTECTED_METADATA_PATH_NAMES. \<not> prefix (names_of r @ [k]) (names_of q))"
    by (simp add: normal_lits hook_path PROTECTED_METADATA_PATH_NAMES_def del: lit_simps)
qed simp

end
