(* ===== verification/Permission_Profile.thy ===== *)
theory Permission_Profile
  imports Sandbox_Roots
begin

text \<open>
  Permission profiles (\<^verbatim>\<open>protocol/src/models.rs\<close>) and how a profile is widened by the additional
  permissions of one command (\<^verbatim>\<open>sandboxing/src/policy_transforms.rs\<close>): conversion to and from the
  runtime policies, merging and intersecting requests with grants, the effective policies.

  A \<^verbatim>\<open>NonZeroUsize\<close> is a \<^typ>\<open>nat\<close>; where the code builds one, zero is dropped as the code drops it.
  The \<^verbatim>\<open>unreachable!\<close> of the conversion is the value \<open>Panic\<close>.
\<close>

section \<open>Sandbox overrides of a command\<close>

datatype sandbox_permissions = UseDefault | RequireEscalated | WithAdditionalPermissions

definition requires_escalated_permissions :: "sandbox_permissions \<Rightarrow> bool" where
  "requires_escalated_permissions s \<longleftrightarrow> s = RequireEscalated"

definition requests_sandbox_override :: "sandbox_permissions \<Rightarrow> bool" where
  "requests_sandbox_override s \<longleftrightarrow> s \<noteq> UseDefault"

definition uses_additional_permissions :: "sandbox_permissions \<Rightarrow> bool" where
  "uses_additional_permissions s \<longleftrightarrow> s = WithAdditionalPermissions"

section \<open>Additional permissions\<close>

definition nonzero :: "nat option \<Rightarrow> nat option" where
  "nonzero d = (case d of Some n \<Rightarrow> if n = 0 then None else Some n | None \<Rightarrow> None)"

record fs_permissions =
  perm_entries :: "sandbox_entry list"
  perm_glob_depth :: "nat option"

definition fs_permissions_default :: fs_permissions where
  "fs_permissions_default = \<lparr>perm_entries = [], perm_glob_depth = None\<rparr>"

definition fs_permissions_is_empty :: "fs_permissions \<Rightarrow> bool" where
  "fs_permissions_is_empty p \<longleftrightarrow> perm_entries p = []"

definition from_read_write_roots :: "rstr list option \<Rightarrow> rstr list option \<Rightarrow> fs_permissions" where
  "from_read_write_roots read write =
     \<lparr>perm_entries =
        map (\<lambda>path. entry (PathEntry path) ReadAccess) (unwrap_or [] read) @
        map (\<lambda>path. entry (PathEntry path) WriteAccess) (unwrap_or [] write),
      perm_glob_depth = None\<rparr>"

definition explicit_path_entries :: "fs_permissions \<Rightarrow> (rstr \<times> access_mode) list" where
  "explicit_path_entries p =
     List.map_filter (\<lambda>e. case entry_path e of PathEntry path \<Rightarrow> Some (path, entry_access e) | _ \<Rightarrow> None) (perm_entries p)"

fun legacy_roots_loop :: "sandbox_entry list \<Rightarrow> rstr list \<Rightarrow> rstr list \<Rightarrow> (rstr list \<times> rstr list) option" where
  "legacy_roots_loop [] read write = Some (read, write)"
| "legacy_roots_loop (e # es) read write =
     (case entry_path e of
        PathEntry path \<Rightarrow>
          (case entry_access e of
             ReadAccess \<Rightarrow> legacy_roots_loop es (read @ [path]) write
           | WriteAccess \<Rightarrow> legacy_roots_loop es read (write @ [path])
           | NoAccess \<Rightarrow> None)
      | _ \<Rightarrow> None)"

definition some_if_not_Nil :: "'a list \<Rightarrow> 'a list option" where
  "some_if_not_Nil xs = (if xs = [] then None else Some xs)"

definition as_legacy_permissions :: "fs_permissions \<Rightarrow> (rstr list option \<times> rstr list option) option" where
  "as_legacy_permissions p =
     (if perm_glob_depth p \<noteq> None then None
      else map_option (\<lambda>(read, write). (some_if_not_Nil read, some_if_not_Nil write))
        (legacy_roots_loop (perm_entries p) [] []))"

text \<open>The JSON object of the permissions, field by field; an absent field is \<open>None\<close>.\<close>

record fs_permissions_json =
  json_entries :: "sandbox_entry list option"
  json_glob_depth :: "nat option"
  json_read :: "rstr list option"
  json_write :: "rstr list option"

definition serialize_fs_permissions :: "fs_permissions \<Rightarrow> fs_permissions_json" where
  "serialize_fs_permissions p =
     (case as_legacy_permissions p of
        Some (read, write) \<Rightarrow> \<lparr>json_entries = None, json_glob_depth = None, json_read = read, json_write = write\<rparr>
      | None \<Rightarrow> \<lparr>json_entries = some_if_not_Nil (perm_entries p), json_glob_depth = perm_glob_depth p,
          json_read = None, json_write = None\<rparr>)"

text \<open>The untagged decoding tries the canonical form first; both forms refuse fields of the other.\<close>

definition deserialize_fs_permissions :: "fs_permissions_json \<Rightarrow> fs_permissions option" where
  "deserialize_fs_permissions j =
     (if json_read j = None \<and> json_write j = None
      then Some \<lparr>perm_entries = unwrap_or [] (json_entries j), perm_glob_depth = json_glob_depth j\<rparr>
      else if json_entries j = None \<and> json_glob_depth j = None
      then Some (from_read_write_roots (json_read j) (json_write j))
      else None)"

record network_permissions =
  net_enabled :: "bool option"

definition network_permissions_is_empty :: "network_permissions \<Rightarrow> bool" where
  "network_permissions_is_empty n \<longleftrightarrow> net_enabled n = None"

record additional_permissions =
  add_network :: "network_permissions option"
  add_file_system :: "fs_permissions option"

definition additional_is_empty :: "additional_permissions \<Rightarrow> bool" where
  "additional_is_empty a \<longleftrightarrow> add_network a = None \<and> add_file_system a = None"

section \<open>Permission profiles\<close>

datatype sandbox_enforcement = EnforcedManaged | EnforcedDisabled | EnforcedExternal

fun enforcement_from_legacy :: "sandbox_policy \<Rightarrow> sandbox_enforcement" where
  "enforcement_from_legacy DangerFullAccess = EnforcedDisabled"
| "enforcement_from_legacy (ExternalSandboxPolicy _) = EnforcedExternal"
| "enforcement_from_legacy (ReadOnly _) = EnforcedManaged"
| "enforcement_from_legacy (WorkspaceWrite _ _ _ _) = EnforcedManaged"

datatype managed_permissions = ManagedRestricted "sandbox_entry list" "nat option" | ManagedUnrestricted

definition managed_from_sandbox_policy :: "fs_policy \<Rightarrow> (unit, managed_permissions) outcome" where
  "managed_from_sandbox_policy pol =
     (case policy_kind pol of
        Restricted \<Rightarrow> Ok (ManagedRestricted (policy_entries pol) (nonzero (glob_scan_max_depth pol)))
      | Unrestricted \<Rightarrow> Ok ManagedUnrestricted
      | ExternalSandbox \<Rightarrow> Panic)"

fun managed_to_sandbox_policy :: "managed_permissions \<Rightarrow> fs_policy" where
  "managed_to_sandbox_policy (ManagedRestricted entries depth) =
     \<lparr>policy_kind = Restricted, glob_scan_max_depth = depth, policy_entries = entries\<rparr>"
| "managed_to_sandbox_policy ManagedUnrestricted = unrestricted"

datatype permission_profile = Managed managed_permissions network_sandbox_policy | Disabled | External network_sandbox_policy

definition profile_default :: permission_profile where
  "profile_default = Managed (ManagedRestricted [] None) NetworkRestricted"

definition profile_read_only :: permission_profile where
  "profile_read_only = Managed (ManagedRestricted [entry (Special Root) ReadAccess] None) NetworkRestricted"

definition workspace_write_with ::
  "'z sandbox_env_scheme \<Rightarrow> rstr list \<Rightarrow> network_sandbox_policy \<Rightarrow> bool \<Rightarrow> bool \<Rightarrow> (unit, permission_profile) outcome" where
  "workspace_write_with env writable_roots network exclude_tmpdir_env_var exclude_slash_tmp =
     and_then (managed_from_sandbox_policy (workspace_write env writable_roots exclude_tmpdir_env_var exclude_slash_tmp))
       (\<lambda>file_system. Ok (Managed file_system network))"

definition profile_workspace_write :: "'z sandbox_env_scheme \<Rightarrow> (unit, permission_profile) outcome" where
  "profile_workspace_write env = workspace_write_with env [] NetworkRestricted False False"

definition from_runtime_permissions_with_enforcement ::
  "sandbox_enforcement \<Rightarrow> fs_policy \<Rightarrow> network_sandbox_policy \<Rightarrow> (unit, permission_profile) outcome" where
  "from_runtime_permissions_with_enforcement enforcement pol network =
     (if policy_kind pol = ExternalSandbox then Ok (External network)
      else if policy_kind pol = Unrestricted \<and> enforcement = EnforcedDisabled then Ok Disabled
      else and_then (managed_from_sandbox_policy pol) (\<lambda>file_system. Ok (Managed file_system network)))"

definition from_runtime_permissions :: "fs_policy \<Rightarrow> network_sandbox_policy \<Rightarrow> (unit, permission_profile) outcome" where
  "from_runtime_permissions pol network =
     from_runtime_permissions_with_enforcement
       (case policy_kind pol of ExternalSandbox \<Rightarrow> EnforcedExternal | _ \<Rightarrow> EnforcedManaged) pol network"

definition profile_from_legacy :: "'z sandbox_env_scheme \<Rightarrow> sandbox_policy \<Rightarrow> (unit, permission_profile) outcome" where
  "profile_from_legacy env sp =
     from_runtime_permissions_with_enforcement (enforcement_from_legacy sp) (policy_from_legacy env sp) (network_policy_of sp)"

definition profile_from_legacy_for_cwd ::
  "'z sandbox_env_scheme \<Rightarrow> sandbox_policy \<Rightarrow> rstr \<Rightarrow> (unit, permission_profile) outcome" where
  "profile_from_legacy_for_cwd env sp cwd =
     from_runtime_permissions_with_enforcement (enforcement_from_legacy sp)
       (from_legacy_sandbox_policy_for_cwd env sp cwd) (network_policy_of sp)"

fun profile_enforcement :: "permission_profile \<Rightarrow> sandbox_enforcement" where
  "profile_enforcement (Managed _ _) = EnforcedManaged"
| "profile_enforcement Disabled = EnforcedDisabled"
| "profile_enforcement (External _) = EnforcedExternal"

fun file_system_sandbox_policy :: "permission_profile \<Rightarrow> fs_policy" where
  "file_system_sandbox_policy (Managed file_system _) = managed_to_sandbox_policy file_system"
| "file_system_sandbox_policy Disabled = unrestricted"
| "file_system_sandbox_policy (External _) = external_sandbox"

fun network_sandbox_policy_of :: "permission_profile \<Rightarrow> network_sandbox_policy" where
  "network_sandbox_policy_of (Managed _ network) = network"
| "network_sandbox_policy_of (External network) = network"
| "network_sandbox_policy_of Disabled = NetworkEnabled"

fun profile_to_legacy :: "'z sandbox_env_scheme \<Rightarrow> permission_profile \<Rightarrow> rstr \<Rightarrow> rstr + sandbox_policy" where
  "profile_to_legacy env (Managed file_system network) cwd =
     to_legacy_sandbox_policy env (managed_to_sandbox_policy file_system) network cwd"
| "profile_to_legacy env Disabled cwd = Inr DangerFullAccess"
| "profile_to_legacy env (External network) cwd =
     Inr (ExternalSandboxPolicy (if network_is_enabled network then NetworkAccessEnabled else NetworkAccessRestricted))"

definition to_runtime_permissions :: "permission_profile \<Rightarrow> fs_policy \<times> network_sandbox_policy" where
  "to_runtime_permissions p = (file_system_sandbox_policy p, network_sandbox_policy_of p)"

definition permissions_from_policy :: "fs_policy \<Rightarrow> fs_permissions" where
  "permissions_from_policy pol =
     \<lparr>perm_entries = (case policy_kind pol of Restricted \<Rightarrow> policy_entries pol | _ \<Rightarrow> [entry (Special Root) WriteAccess]),
      perm_glob_depth = nonzero (glob_scan_max_depth pol)\<rparr>"

definition policy_from_permissions :: "fs_permissions \<Rightarrow> fs_policy" where
  "policy_from_permissions p = (restricted (perm_entries p))\<lparr>glob_scan_max_depth := perm_glob_depth p\<rparr>"

text \<open>The shape of profiles in old rollout files.\<close>

definition profile_from_legacy_shape :: "additional_permissions \<Rightarrow> (unit, permission_profile) outcome" where
  "profile_from_legacy_shape l =
     from_runtime_permissions
       (case add_file_system l of None \<Rightarrow> restricted [] | Some fs \<Rightarrow> policy_from_permissions fs)
       (if unwrap_or False (Option.bind (add_network l) net_enabled) then NetworkEnabled else NetworkRestricted)"

section \<open>Normalising a request\<close>

text \<open>\<^verbatim>\<open>Vec::contains\<close> followed by a push: an entry equal to a present one is not added again.\<close>

abbreviation push_new_entry :: "sandbox_entry \<Rightarrow> sandbox_entry list \<Rightarrow> sandbox_entry list" where
  "push_new_entry \<equiv> push_deny_entry"

fun is_glob :: "fs_path \<Rightarrow> bool" where
  "is_glob (GlobPattern _) = True"
| "is_glob _ = False"

fun normalize_permission_path :: "'z sandbox_env_scheme \<Rightarrow> fs_path \<Rightarrow> fs_path" where
  "normalize_permission_path env (PathEntry path) =
     PathEntry (unwrap_or path (Option.bind (canonicalize_preserving_symlinks env path) (absolute_ok env)))"
| "normalize_permission_path env p = p"

fun normalize_entries :: "'z sandbox_env_scheme \<Rightarrow> sandbox_entry list \<Rightarrow> sandbox_entry list \<Rightarrow> rstr + sandbox_entry list" where
  "normalize_entries env [] acc = Inr acc"
| "normalize_entries env (e # es) acc =
     (if is_glob (entry_path e) \<and> entry_access e \<noteq> NoAccess
      then Inl (lit ''glob file system permissions only support deny-read entries'')
      else normalize_entries env es (push_new_entry (entry (normalize_permission_path env (entry_path e)) (entry_access e)) acc))"

definition filter_option :: "('a \<Rightarrow> bool) \<Rightarrow> 'a option \<Rightarrow> 'a option" where
  "filter_option P x = (case x of Some y \<Rightarrow> if P y then Some y else None | None \<Rightarrow> None)"

definition normalize_additional_permissions ::
  "'z sandbox_env_scheme \<Rightarrow> additional_permissions \<Rightarrow> rstr + additional_permissions" where
  "normalize_additional_permissions env a =
     (let network = filter_option (\<lambda>n. \<not> network_permissions_is_empty n) (add_network a) in
      case add_file_system a of
        None \<Rightarrow> Inr \<lparr>add_network = network, add_file_system = None\<rparr>
      | Some fs \<Rightarrow>
          (case normalize_entries env (perm_entries fs) [] of
             Inl e \<Rightarrow> Inl e
           | Inr es \<Rightarrow>
               Inr \<lparr>add_network = network,
                 add_file_system = filter_option (\<lambda>p. \<not> fs_permissions_is_empty p)
                   (Some \<lparr>perm_entries = es, perm_glob_depth = perm_glob_depth fs\<rparr>)\<rparr>))"

section \<open>Depths of glob scans\<close>

datatype glob_scan_depth = Bounded nat | Unbounded

definition is_deny_glob :: "sandbox_entry \<Rightarrow> bool" where
  "is_deny_glob e \<longleftrightarrow> entry_access e = NoAccess \<and> is_glob (entry_path e)"

definition effective_glob_scan_depth :: "sandbox_entry list \<Rightarrow> nat option \<Rightarrow> glob_scan_depth option" where
  "effective_glob_scan_depth es depth =
     (if list_ex is_deny_glob es then Some (case depth of Some d \<Rightarrow> Bounded d | None \<Rightarrow> Unbounded) else None)"

fun merge_depths :: "glob_scan_depth option \<Rightarrow> glob_scan_depth option \<Rightarrow> nat option" where
  "merge_depths (Some Unbounded) _ = None"
| "merge_depths _ (Some Unbounded) = None"
| "merge_depths (Some (Bounded left)) (Some (Bounded right)) = Some (max left right)"
| "merge_depths (Some (Bounded depth)) None = Some depth"
| "merge_depths None (Some (Bounded depth)) = Some depth"
| "merge_depths None None = None"

definition merge_glob_scan_max_depth ::
  "sandbox_entry list \<Rightarrow> nat option \<Rightarrow> sandbox_entry list \<Rightarrow> nat option \<Rightarrow> nat option" where
  "merge_glob_scan_max_depth left_entries left_depth right_entries right_depth =
     merge_depths (effective_glob_scan_depth left_entries left_depth) (effective_glob_scan_depth right_entries right_depth)"

section \<open>Merging\<close>

definition merge_permission_entries :: "sandbox_entry list \<Rightarrow> sandbox_entry list \<Rightarrow> sandbox_entry list" where
  "merge_permission_entries base permissions = fold push_new_entry (base @ permissions) []"

definition network_granted :: "network_permissions option \<Rightarrow> bool" where
  "network_granted n \<longleftrightarrow> n = Some \<lparr>net_enabled = Some True\<rparr>"

definition merge_permission_profiles ::
  "additional_permissions option \<Rightarrow> additional_permissions option \<Rightarrow> additional_permissions option" where
  "merge_permission_profiles base permissions =
     (case permissions of
        None \<Rightarrow> base
      | Some permissions \<Rightarrow>
          (case base of
             None \<Rightarrow> filter_option (\<lambda>p. \<not> additional_is_empty p) (Some permissions)
           | Some base \<Rightarrow>
               (let network =
                  (if network_granted (add_network base) \<or> network_granted (add_network permissions)
                   then Some \<lparr>net_enabled = Some True\<rparr> else None);
                  file_system =
                   (case (add_file_system base, add_file_system permissions) of
                      (Some b, Some p) \<Rightarrow>
                        filter_option (\<lambda>f. \<not> fs_permissions_is_empty f)
                          (Some \<lparr>perm_entries = merge_permission_entries (perm_entries b) (perm_entries p),
                             perm_glob_depth = nonzero (merge_glob_scan_max_depth (perm_entries b) (perm_glob_depth b)
                               (perm_entries p) (perm_glob_depth p))\<rparr>)
                    | (Some b, None) \<Rightarrow> Some b
                    | (None, p) \<Rightarrow> p)
                in filter_option (\<lambda>p. \<not> additional_is_empty p)
                     (Some \<lparr>add_network = network, add_file_system = file_system\<rparr>))))"

section \<open>Intersecting a grant with a request\<close>

fun resolve_permission_path :: "'z sandbox_env_scheme \<Rightarrow> fs_path \<Rightarrow> rstr \<Rightarrow> rstr option" where
  "resolve_permission_path env (PathEntry path) cwd = Some path"
| "resolve_permission_path env (GlobPattern _) cwd = None"
| "resolve_permission_path env (Special value) cwd =
     (case value of
        Root \<Rightarrow> absolute_ok env (last (ancestors cwd))
      | ProjectRoots subpath \<Rightarrow>
          (case absolute_ok env cwd of
             None \<Rightarrow> None
           | Some cwd \<Rightarrow>
               Some (case subpath of
                       Some subpath \<Rightarrow> resolve_path_against_base (home_dir env) subpath cwd
                     | None \<Rightarrow> cwd))
      | Tmpdir \<Rightarrow>
          (case tmpdir_var env of
             None \<Rightarrow> None
           | Some tmpdir \<Rightarrow> if tmpdir = [] then None else absolute_ok env tmpdir)
      | SlashTmp \<Rightarrow> filter_option (is_dir env) (absolute_ok env (lit ''/tmp''))
      | Minimal \<Rightarrow> None
      | UnknownPath _ _ \<Rightarrow> None)"

definition materialize_cwd_dependent_entry :: "'z sandbox_env_scheme \<Rightarrow> sandbox_entry \<Rightarrow> rstr \<Rightarrow> sandbox_entry" where
  "materialize_cwd_dependent_entry env e cwd =
     (case entry_path e of
        Special (ProjectRoots _) \<Rightarrow>
          (case resolve_permission_path env (entry_path e) cwd of
             Some path \<Rightarrow> entry (PathEntry path) (entry_access e)
           | None \<Rightarrow> e)
      | GlobPattern pattern \<Rightarrow> entry (GlobPattern (resolve_path_against_base (home_dir env) pattern cwd)) (entry_access e)
      | _ \<Rightarrow> e)"

fun access_covers :: "access_mode \<Rightarrow> access_mode \<Rightarrow> bool" where
  "access_covers requested ReadAccess = can_read requested"
| "access_covers requested WriteAccess = can_write requested"
| "access_covers requested NoAccess = False"

definition paths_overlap :: "rstr \<Rightarrow> rstr \<Rightarrow> bool" where
  "paths_overlap left right \<longleftrightarrow> path_starts_with left right \<or> path_starts_with right left"

definition glob_static_prefix_path :: "'z sandbox_env_scheme \<Rightarrow> rstr \<Rightarrow> rstr \<Rightarrow> rstr option" where
  "glob_static_prefix_path env pattern cwd =
     (let resolved_pattern = resolve_path_against_base (home_dir env) pattern cwd;
          pre = takeWhile (\<lambda>c. c \<notin> set (lit ''*?[]'')) resolved_pattern
      in if pre = resolved_pattern then absolute_ok env resolved_pattern
         else if pre = [] then None
         else if ends_with [slash] pre \<or> ends_with [92] pre then absolute_ok env pre
         else Option.bind (path_parent pre) (absolute_ok env))"

definition deny_entry_constrains_accepted_grant ::
  "'z sandbox_env_scheme \<Rightarrow> sandbox_entry \<Rightarrow> sandbox_entry list \<Rightarrow> rstr \<Rightarrow> bool" where
  "deny_entry_constrains_accepted_grant env deny_entry accepted_entries cwd =
     list_ex (\<lambda>e.
       case resolve_permission_path env (entry_path e) cwd of
         None \<Rightarrow> False
       | Some grant_path \<Rightarrow>
           (case (case entry_path deny_entry of
                    GlobPattern pattern \<Rightarrow> glob_static_prefix_path env pattern cwd
                  | p \<Rightarrow> resolve_permission_path env p cwd) of
              None \<Rightarrow> False
            | Some deny_path \<Rightarrow> paths_overlap deny_path grant_path))
       (filter (\<lambda>e. can_read (entry_access e)) accepted_entries)"

fun retain_loop ::
  "'z sandbox_env_scheme \<Rightarrow> sandbox_entry list \<Rightarrow> rstr \<Rightarrow> sandbox_entry list \<Rightarrow> sandbox_entry list \<Rightarrow> sandbox_entry list \<Rightarrow>
   sandbox_entry list \<times> sandbox_entry list" where
  "retain_loop env accepted_entries cwd [] output retained = (retained, output)"
| "retain_loop env accepted_entries cwd (e # es) output retained =
     (if entry_access e \<noteq> NoAccess \<or> \<not> deny_entry_constrains_accepted_grant env e accepted_entries cwd
      then retain_loop env accepted_entries cwd es output retained
      else (let e = materialize_cwd_dependent_entry env e cwd in
            retain_loop env accepted_entries cwd es (push_new_entry e output) (retained @ [e])))"

definition retain_constraining_deny_entries ::
  "'z sandbox_env_scheme \<Rightarrow> sandbox_entry list \<Rightarrow> sandbox_entry list \<Rightarrow> rstr \<Rightarrow> sandbox_entry list \<Rightarrow>
   sandbox_entry list \<times> sandbox_entry list" where
  "retain_constraining_deny_entries env source_entries accepted_entries cwd output_entries =
     retain_loop env accepted_entries cwd source_entries output_entries []"

definition granted_file_system_entry_within_request ::
  "'z sandbox_env_scheme \<Rightarrow> fs_permissions \<Rightarrow> fs_policy \<Rightarrow> read_deny_matcher option \<Rightarrow> sandbox_entry \<Rightarrow> rstr \<Rightarrow> bool" where
  "granted_file_system_entry_within_request env requested requested_policy matcher granted_entry cwd =
     (if \<not> can_read (entry_access granted_entry) then False
      else case resolve_permission_path env (entry_path granted_entry) cwd of
             Some path \<Rightarrow>
               if (case matcher of Some m \<Rightarrow> is_read_denied env m path | None \<Rightarrow> False) then False
               else access_covers (resolve_access_with_cwd env requested_policy path cwd) (entry_access granted_entry)
           | None \<Rightarrow>
               list_ex (\<lambda>requested_entry.
                 access_covers (entry_access requested_entry) (entry_access granted_entry) \<and>
                 fs_path_eq (entry_path requested_entry) (entry_path granted_entry)) (perm_entries requested))"

definition accepted_grants ::
  "'z sandbox_env_scheme \<Rightarrow> fs_permissions \<Rightarrow> fs_policy \<Rightarrow> read_deny_matcher option \<Rightarrow> fs_permissions \<Rightarrow> rstr \<Rightarrow> sandbox_entry list" where
  "accepted_grants env requested requested_policy matcher granted cwd =
     fold push_new_entry
       (map (\<lambda>e. materialize_cwd_dependent_entry env e cwd)
         (filter (\<lambda>e. granted_file_system_entry_within_request env requested requested_policy matcher e cwd)
           (perm_entries granted))) []"

definition intersect_file_system ::
  "'z sandbox_env_scheme \<Rightarrow> fs_permissions \<Rightarrow> fs_permissions \<Rightarrow> rstr \<Rightarrow> (unit, fs_permissions) outcome" where
  "intersect_file_system env requested granted cwd =
     (let requested_policy = restricted (perm_entries requested) in
      and_then (matcher_new env requested_policy cwd) (\<lambda>matcher.
        let accepted_entries = accepted_grants env requested requested_policy matcher granted cwd;
            (requested_retained, output) =
              retain_constraining_deny_entries env (perm_entries requested) accepted_entries cwd accepted_entries;
            (granted_retained, entries) =
              retain_constraining_deny_entries env (perm_entries granted) accepted_entries cwd output
        in Ok \<lparr>perm_entries = entries,
               perm_glob_depth = nonzero (merge_glob_scan_max_depth requested_retained (perm_glob_depth requested)
                 granted_retained (perm_glob_depth granted))\<rparr>))"

definition intersect_permission_profiles ::
  "'z sandbox_env_scheme \<Rightarrow> additional_permissions \<Rightarrow> additional_permissions \<Rightarrow> rstr \<Rightarrow> (unit, additional_permissions) outcome" where
  "intersect_permission_profiles env requested granted cwd =
     (let network = (if network_granted (add_network requested) \<and> network_granted (add_network granted)
                     then Some \<lparr>net_enabled = Some True\<rparr> else None) in
      case add_file_system requested of
        None \<Rightarrow> Ok \<lparr>add_network = network, add_file_system = None\<rparr>
      | Some requested_file_system \<Rightarrow>
          and_then (intersect_file_system env requested_file_system
            (unwrap_or fs_permissions_default (add_file_system granted)) cwd) (\<lambda>file_system.
              Ok \<lparr>add_network = network,
                  add_file_system = filter_option (\<lambda>p. \<not> fs_permissions_is_empty p) (Some file_system)\<rparr>))"

section \<open>Effective policies\<close>

definition merge_file_system_policy_with_additional_permissions :: "fs_policy \<Rightarrow> fs_permissions \<Rightarrow> fs_policy" where
  "merge_file_system_policy_with_additional_permissions pol additional =
     (case policy_kind pol of
        Restricted \<Rightarrow>
          pol\<lparr>policy_entries := fold push_new_entry (perm_entries additional) (policy_entries pol),
              glob_scan_max_depth := merge_glob_scan_max_depth (policy_entries pol) (glob_scan_max_depth pol)
                (perm_entries additional) (perm_glob_depth additional)\<rparr>
      | _ \<Rightarrow> pol)"

definition effective_file_system_sandbox_policy :: "fs_policy \<Rightarrow> additional_permissions option \<Rightarrow> fs_policy" where
  "effective_file_system_sandbox_policy pol additional =
     (case additional of
        None \<Rightarrow> pol
      | Some additional \<Rightarrow>
          (case add_file_system additional of
             None \<Rightarrow> pol
           | Some permissions \<Rightarrow>
               if fs_permissions_is_empty permissions then pol
               else merge_file_system_policy_with_additional_permissions pol permissions))"

definition merge_network_access :: "bool \<Rightarrow> additional_permissions \<Rightarrow> bool" where
  "merge_network_access base_network_access additional \<longleftrightarrow>
     base_network_access \<or> unwrap_or False (Option.bind (add_network additional) net_enabled)"

definition effective_network_sandbox_policy ::
  "network_sandbox_policy \<Rightarrow> additional_permissions option \<Rightarrow> network_sandbox_policy" where
  "effective_network_sandbox_policy network additional =
     (case additional of
        Some permissions \<Rightarrow>
          if merge_network_access (network_is_enabled network) permissions then NetworkEnabled else NetworkRestricted
      | None \<Rightarrow> network)"

definition effective_permission_profile ::
  "permission_profile \<Rightarrow> additional_permissions option \<Rightarrow> (unit, permission_profile) outcome" where
  "effective_permission_profile profile additional =
     (let (pol, network) = to_runtime_permissions profile in
      from_runtime_permissions_with_enforcement (profile_enforcement profile)
        (effective_file_system_sandbox_policy pol additional) (effective_network_sandbox_policy network additional))"

definition should_require_platform_sandbox :: "fs_policy \<Rightarrow> network_sandbox_policy \<Rightarrow> bool \<Rightarrow> bool" where
  "should_require_platform_sandbox pol network has_managed_network_requirements =
     (if has_managed_network_requirements then True
      else if \<not> network_is_enabled network then policy_kind pol \<noteq> ExternalSandbox
      else (case policy_kind pol of
              Restricted \<Rightarrow> \<not> has_full_disk_write_access pol
            | _ \<Rightarrow> False))"

section \<open>Profiles and runtime policies\<close>

fun profile_ok :: "permission_profile \<Rightarrow> bool" where
  "profile_ok (Managed (ManagedRestricted _ depth) _) = (depth \<noteq> Some 0)"
| "profile_ok _ = True"

lemma runtime_roundtrip:
  "profile_ok p \<Longrightarrow>
   from_runtime_permissions_with_enforcement (profile_enforcement p) (file_system_sandbox_policy p) (network_sandbox_policy_of p) = Ok p"
  by (cases p rule: profile_ok.cases)
    (auto simp: from_runtime_permissions_with_enforcement_def managed_from_sandbox_policy_def nonzero_def unrestricted_def
      external_sandbox_def split: option.splits)

lemma effective_kind: "policy_kind (effective_file_system_sandbox_policy pol a) = policy_kind pol"
  by (auto simp: effective_file_system_sandbox_policy_def merge_file_system_policy_with_additional_permissions_def
      split: option.splits sandbox_kind.splits)

lemma from_runtime_total: "\<exists>q. from_runtime_permissions_with_enforcement e pol n = Ok q \<and> profile_ok q"
  by (cases "policy_kind pol")
    (auto simp: from_runtime_permissions_with_enforcement_def managed_from_sandbox_policy_def nonzero_def split: option.splits)

text \<open>
  Splitting a profile into its runtime policies and putting them together again gives the profile; so
  a command without additional permissions runs under the turn's profile.  Whatever permissions are
  added, the conversion never reaches its \<^verbatim>\<open>unreachable!\<close>, and the kind of enforcement stays.
\<close>
theorem effective_profile_keeps_enforcement:
  assumes "profile_ok p"
  shows "effective_permission_profile p None = Ok p \<and>
    (\<exists>q. effective_permission_profile p additional = Ok q \<and> profile_ok q \<and> profile_enforcement q = profile_enforcement p)"
proof -
  have kinds: "profile_enforcement p = EnforcedExternal \<longleftrightarrow> policy_kind (file_system_sandbox_policy p) = ExternalSandbox"
    "profile_enforcement p = EnforcedDisabled \<Longrightarrow> policy_kind (file_system_sandbox_policy p) = Unrestricted"
    by (cases p rule: profile_ok.cases; simp add: unrestricted_def external_sandbox_def)+
  have keeps: "profile_enforcement q = profile_enforcement p"
    if "from_runtime_permissions_with_enforcement (profile_enforcement p) pol n = Ok q"
      "policy_kind pol = policy_kind (file_system_sandbox_policy p)" for pol n q
    using that kinds by (cases "profile_enforcement p"; cases "policy_kind pol")
      (auto simp: from_runtime_permissions_with_enforcement_def managed_from_sandbox_policy_def)
  obtain q where q: "from_runtime_permissions_with_enforcement (profile_enforcement p)
      (effective_file_system_sandbox_policy (file_system_sandbox_policy p) additional)
      (effective_network_sandbox_policy (network_sandbox_policy_of p) additional) = Ok q" "profile_ok q"
    using from_runtime_total by blast
  then have "profile_enforcement q = profile_enforcement p" using keeps effective_kind by blast
  with q runtime_roundtrip [OF assms] show ?thesis
    by (simp add: effective_permission_profile_def to_runtime_permissions_def effective_file_system_sandbox_policy_def
        effective_network_sandbox_policy_def)
qed

theorem effective_profile_keeps_enforcement_witness:
  "effective_permission_profile profile_read_only None = Ok profile_read_only \<and>
   (\<exists>q. effective_permission_profile profile_read_only (Some \<lparr>add_network = None, add_file_system = None\<rparr>) = Ok q \<and>
      profile_ok q \<and> profile_enforcement q = EnforcedManaged)"
  using effective_profile_keeps_enforcement [of profile_read_only "Some \<lparr>add_network = None, add_file_system = None\<rparr>"]
  by (simp add: profile_read_only_def)

section \<open>What entries resolve to\<close>

definition entries_ok :: "sandbox_entry list \<Rightarrow> bool" where
  "entries_ok es \<longleftrightarrow> list_all (\<lambda>e. fs_path_ok (entry_path e)) es"

lemma entries_ok_policy: "policy_ok (restricted es) \<longleftrightarrow> entries_ok es"
  by (simp add: policy_ok_def entries_ok_def restricted_def)

text \<open>The paths the entries stand for, with their access.\<close>

definition resolved_set :: "'z sandbox_env_scheme \<Rightarrow> sandbox_entry list \<Rightarrow> rstr \<Rightarrow> (rstr \<times> access_mode) set" where
  "resolved_set env es cwd =
     {(q, entry_access e) | e q. e \<in> set es \<and> resolve_entry_path env (entry_path e) (absolute_ok env cwd) = Some q}"

lemma resolved_set_eq: "set (resolved_entries_with_cwd env pol cwd) = resolved_set env (policy_entries pol) cwd"
  by (force simp: resolved_entries_with_cwd_def Let_def List.map_filter_def resolved_set_def)

lemma resolved_set_intro:
  "e \<in> set es \<Longrightarrow> resolve_entry_path env (entry_path e) (absolute_ok env cwd) = Some q \<Longrightarrow> entry_access e = a \<Longrightarrow>
   (q, a) \<in> resolved_set env es cwd"
  by (auto simp: resolved_set_def)

lemma resolved_set_mono: "set es \<subseteq> set es' \<Longrightarrow> resolved_set env es cwd \<subseteq> resolved_set env es' cwd"
  by (auto simp: resolved_set_def)

lemma resolved_set_append [simp]: "resolved_set env (es @ es') cwd = resolved_set env es cwd \<union> resolved_set env es' cwd"
  by (auto simp: resolved_set_def)

lemma subpath_resolution:
  assumes "path_eq s t" "\<not> starts_with (lit ''~'') s" "\<not> starts_with (lit ''~'') t" "normal_path c"
  shows "resolve_path_against_base home s c = resolve_path_against_base home t c"
  unfolding resolve_path_against_base_def no_home_expansion [OF assms(2)] no_home_expansion [OF assms(3)]
  using assms(1) absolutize_from_names [OF normal_absolute [OF assms(4)]] by (intro normal_path_unique) (simp_all add: path_eq_def)

lemma equal_paths_resolve:
  assumes "fs_path_eq p q" "fs_path_ok p" "fs_path_ok q" "\<And>c. cwd = Some c \<Longrightarrow> normal_path c"
  shows "resolve_entry_path env p cwd = resolve_entry_path env q cwd"
proof (cases "(p, q)" rule: fs_path_eq.cases)
  case (3 v w)
  show ?thesis
  proof (cases "(v, w)" rule: special_eq.cases)
    case (3 s t)
    with \<open>(p, q) = _\<close> assms show ?thesis
      by (cases s; cases t; cases cwd) (auto simp: resolve_entry_path_def intro: subpath_resolution simp del: lit_simps)
  qed (use \<open>(p, q) = _\<close> assms in \<open>auto simp: resolve_entry_path_def\<close>)
qed (use assms path_eq_normal in \<open>auto simp: resolve_entry_path_def\<close>)

lemma resolved_push_all:
  assumes "env_ok env" "entries_ok es" "entries_ok ds"
  shows "resolved_set env (fold push_new_entry ds es) cwd = resolved_set env es cwd \<union> resolved_set env ds cwd"
proof
  show "resolved_set env (fold push_new_entry ds es) cwd \<subseteq> resolved_set env es cwd \<union> resolved_set env ds cwd"
    using push_denies_subset [of ds es] unfolding resolved_set_def by blast
  have cwd: "normal_path c" if "absolute_ok env cwd = Some c" for c using absolute_ok_normal [OF assms(1) that] .
  have "(q, entry_access d) \<in> resolved_set env (fold push_new_entry ds es) cwd"
    if d: "d \<in> set ds" "resolve_entry_path env (entry_path d) (absolute_ok env cwd) = Some q" for d q
  proof -
    obtain e where e: "e \<in> set (fold push_new_entry ds es)" "entry_eq e d" using push_denies_adds [OF d(1)] by blast
    have "fs_path_ok (entry_path e)" "fs_path_ok (entry_path d)"
      using push_denies_subset [of ds es] e(1) d(1) assms(2,3) by (auto simp: entries_ok_def list_all_iff)
    then have "resolve_entry_path env (entry_path e) (absolute_ok env cwd) = Some q"
      using equal_paths_resolve [of "entry_path e" "entry_path d" "absolute_ok env cwd" env] cwd e(2) d(2)
      by (simp add: entry_eq_def)
    from resolved_set_intro [OF e(1) this] e(2) show ?thesis by (simp add: entry_eq_def)
  qed
  then show "resolved_set env es cwd \<union> resolved_set env ds cwd \<subseteq> resolved_set env (fold push_new_entry ds es) cwd"
    using resolved_set_mono [OF push_denies_mono [of es ds], of env cwd] by (auto simp: resolved_set_def [of env ds])
qed

lemma entries_ok_push: "entries_ok es \<Longrightarrow> entries_ok ds \<Longrightarrow> entries_ok (fold push_new_entry ds es)"
  using push_denies_subset [of ds es] by (auto simp: entries_ok_def list_all_iff)

lemma resolve_permission_entry:
  "normal_path cwd \<Longrightarrow> resolve_permission_path env p cwd = resolve_entry_path env p (absolute_ok env cwd)"
proof (cases p)
  case (Special v)
  assume "normal_path cwd"
  then show ?thesis
    using root_path_of_cwd [of cwd env] absolute_ok_id [of cwd env] Special
    by (cases v) (auto simp: resolve_entry_path_def absolute_root_path_for_cwd_def outcome_option_def filter_option_def
        simp del: lit_simps split: option.splits if_splits)
qed (simp_all add: resolve_entry_path_def)

lemma materialized_entry:
  assumes "env_ok env" "normal_path cwd"
  shows "resolve_entry_path env (entry_path (materialize_cwd_dependent_entry env e cwd)) (absolute_ok env cwd) =
      resolve_entry_path env (entry_path e) (absolute_ok env cwd)"
    and "entry_access (materialize_cwd_dependent_entry env e cwd) = entry_access e"
    and "fs_path_ok (entry_path e) \<Longrightarrow> fs_path_ok (entry_path (materialize_cwd_dependent_entry env e cwd))"
proof -
  note abs = absolute_ok_id [OF assms(2), of env]
  have base: "normal_path (resolve_path_against_base (home_dir env) s cwd)" for s
    using absolutize_from_names(1) [OF normal_absolute [OF assms(2)]] by (simp add: resolve_path_against_base_def)
  show "resolve_entry_path env (entry_path (materialize_cwd_dependent_entry env e cwd)) (absolute_ok env cwd) =
      resolve_entry_path env (entry_path e) (absolute_ok env cwd)"
    "entry_access (materialize_cwd_dependent_entry env e cwd) = entry_access e"
    "fs_path_ok (entry_path e) \<Longrightarrow> fs_path_ok (entry_path (materialize_cwd_dependent_entry env e cwd))"
    using abs base assms(2)
    by (auto simp: materialize_cwd_dependent_entry_def resolve_entry_path_def entry_def split: fs_path.split special_path.split option.splits)
qed

lemma resolved_materialized:
  assumes "env_ok env" "normal_path cwd"
  shows "resolved_set env (map (\<lambda>e. materialize_cwd_dependent_entry env e cwd) es) cwd = resolved_set env es cwd"
proof -
  let ?mat = "\<lambda>e. materialize_cwd_dependent_entry env e cwd"
  have "resolved_set env (map ?mat es) cwd =
      {(q, entry_access (?mat e)) | e q. e \<in> set es \<and> resolve_entry_path env (entry_path (?mat e)) (absolute_ok env cwd) = Some q}"
    by (auto simp: resolved_set_def)
  then show ?thesis by (simp only: materialized_entry(1,2) [OF assms] resolved_set_def)
qed

lemma entries_ok_materialized:
  "env_ok env \<Longrightarrow> normal_path cwd \<Longrightarrow> entries_ok es \<Longrightarrow>
   entries_ok (map (\<lambda>e. materialize_cwd_dependent_entry env e cwd) es)"
  using materialized_entry(3) by (auto simp: entries_ok_def list_all_iff)

section \<open>The access entries give\<close>

abbreviation access_under :: "'z sandbox_env_scheme \<Rightarrow> sandbox_entry list \<Rightarrow> rstr \<Rightarrow> rstr \<Rightarrow> access_mode" where
  "access_under env es cwd p \<equiv> resolve_access_with_cwd env (restricted es) p cwd"

definition covering_set :: "(rstr \<times> access_mode) set \<Rightarrow> rstr \<Rightarrow> (rstr list \<times> access_mode) set" where
  "covering_set E p = {(names_of q, a) | q a. (q, a) \<in> E \<and> prefix (names_of q) (names_of p)}"

lemma access_under_decides:
  assumes "env_ok env" "entries_ok es" "normal_path p"
  shows "decides (covering_set (resolved_set env es cwd) p) (access_under env es cwd p)"
proof -
  have "covering_set (resolved_set env es cwd) p = covering env (restricted es) cwd p"
    unfolding covering_def covering_set_def set_filter resolved_set_eq by (auto simp: restricted_def)
  moreover have "policy_kind (restricted es) = Restricted" by (simp add: restricted_def)
  ultimately show ?thesis
    using resolve_access_decides [OF assms(1) _ _ resolve_candidate_normal [OF assms(3)] assms(3), of "restricted es" cwd] assms(2)
    by (simp add: entries_ok_policy)
qed

lemma access_by_entries:
  assumes "policy_kind pol = Restricted"
  shows "resolve_access_with_cwd env pol p cwd = access_under env (policy_entries pol) cwd p"
proof -
  have "policy_kind (restricted es) = Restricted" for es by (simp add: restricted_def)
  moreover have same: "resolved_entries_with_cwd env pol cwd = resolved_entries_with_cwd env (restricted (policy_entries pol)) cwd"
    by (simp add: resolved_entries_with_cwd_def restricted_def)
  ultimately show ?thesis unfolding resolve_access_with_cwd_def same using assms by simp
qed

lemma no_access_below: "NoAccess \<le> a \<longleftrightarrow> a = NoAccess"
  by (cases a) (simp_all add: less_eq_access_mode_def)

text \<open>A path keeps the read access of a directory above it unless a denied path lies between them.\<close>

lemma readable_below:
  assumes "env_ok env" "entries_ok es" "normal_path p" "normal_path q" "prefix (names_of q) (names_of p)"
    and "can_read (access_under env es cwd q)"
    and "\<And>d. (d, NoAccess) \<in> resolved_set env es cwd \<Longrightarrow> prefix (names_of d) (names_of p) \<Longrightarrow> length (names_of d) < length (names_of q)"
  shows "can_read (access_under env es cwd p)"
proof (rule ccontr)
  let ?C = "covering_set (resolved_set env es cwd)"
  assume "\<not> can_read (access_under env es cwd p)"
  then have dec: "decides (?C p) NoAccess" using access_under_decides [OF assms(1-3), of cwd] by (simp add: can_read_def)
  define b where "b = access_under env es cwd q"
  have b: "decides (?C q) b" "b \<noteq> NoAccess"
    using access_under_decides [OF assms(1,2,4), of cwd] assms(6) by (simp_all add: b_def can_read_def)
  then obtain ms where ms: "(ms, b) \<in> ?C q" "\<forall>(ks, c)\<in>?C q. length ks \<le> length ms \<and> (ks = ms \<longrightarrow> c \<le> b)"
    by (auto simp: decides_def split: if_splits)
  have "?C q \<subseteq> ?C p" using assms(5) prefix_order.trans by (fastforce simp: covering_set_def)
  with ms(1) have "(ms, b) \<in> ?C p" by blast
  from decidesE [OF dec this] obtain ks where ks: "(ks, NoAccess) \<in> ?C p"
    "\<forall>(ms, b)\<in>?C p. length ms \<le> length ks \<and> (ms = ks \<longrightarrow> b \<le> NoAccess)" .
  from ks(1) obtain d where d: "ks = names_of d" "(d, NoAccess) \<in> resolved_set env es cwd" "prefix ks (names_of p)"
    by (auto simp: covering_set_def)
  with assms(7) have short: "length ks < length (names_of q)" by simp
  with d(3) assms(5) have "prefix ks (names_of q)" by (meson less_imp_le prefix_length_prefix)
  with d have "(ks, NoAccess) \<in> ?C q" by (auto simp: covering_set_def)
  with ms(2) b(2) have "length ks \<le> length ms" "ks \<noteq> ms" by (auto simp: no_access_below)
  moreover have "length ms \<le> length ks" using ks(2) \<open>(ms, b) \<in> ?C p\<close> by auto
  moreover have "prefix ms (names_of p)" using \<open>(ms, b) \<in> ?C p\<close> by (auto simp: covering_set_def)
  ultimately show False using d(3) by (metis le_antisym prefix_length_prefix prefix_order.antisym order_refl)
qed

section \<open>Intersections stay within request and grant\<close>

lemma retain_loop_output:
  "snd (retain_loop env acc cwd es out retained) =
     fold push_new_entry (map (\<lambda>e. materialize_cwd_dependent_entry env e cwd)
       (filter (\<lambda>e. entry_access e = NoAccess \<and> deny_entry_constrains_accepted_grant env e acc cwd) es)) out"
  by (induction es arbitrary: out retained) (auto simp: Let_def)

lemma access_covers_read: "access_covers a b \<Longrightarrow> can_read a \<and> can_read b"
  by (cases b) (auto simp: can_read_def can_write_def)

lemma matcher_new_total: "\<exists>m. matcher_new env pol cwd = Ok m"
  by (simp add: matcher_new_def build_matcher_def compile_globs_closed)

lemma resolved_set_normal:
  assumes "env_ok env" "entries_ok es" "(q, a) \<in> resolved_set env es cwd"
  shows "normal_path q"
  using resolved_entry_normal [OF assms(1), of "restricted es" q a cwd] assms(2,3)
  by (simp add: entries_ok_policy resolved_set_eq) (simp add: restricted_def)

lemma resolved_filter:
  "(q, a) \<in> resolved_set env (filter P es) cwd \<longleftrightarrow>
   (\<exists>e\<in>set es. P e \<and> entry_access e = a \<and> resolve_entry_path env (entry_path e) (absolute_ok env cwd) = Some q)"
  by (auto simp: resolved_set_def)

lemma entries_ok_filter: "entries_ok es \<Longrightarrow> entries_ok (filter P es)"
  by (auto simp: entries_ok_def list_all_iff)

lemma deny_retained:
  assumes "env_ok env" "normal_path cwd" "entries_ok acc" "entries_ok es"
    and "(d, NoAccess) \<in> resolved_set env es cwd" "prefix (names_of d) (names_of p)"
    and "(q, a) \<in> resolved_set env acc cwd" "can_read a" "prefix (names_of q) (names_of p)"
  shows "(d, NoAccess) \<in> resolved_set env (filter (\<lambda>e. entry_access e = NoAccess \<and> deny_entry_constrains_accepted_grant env e acc cwd) es) cwd"
proof -
  from assms(5) obtain e where e: "e \<in> set es" "entry_access e = NoAccess"
    "resolve_entry_path env (entry_path e) (absolute_ok env cwd) = Some d" by (auto simp: resolved_set_def)
  from assms(7) obtain g where g: "g \<in> set acc" "entry_access g = a"
    "resolve_entry_path env (entry_path g) (absolute_ok env cwd) = Some q" by (auto simp: resolved_set_def)
  have "normal_path d" "normal_path q"
    using resolved_set_normal [OF assms(1,4,5)] resolved_set_normal [OF assms(1,3,7)] .
  moreover have "prefix (names_of d) (names_of q) \<or> prefix (names_of q) (names_of d)"
    using assms(6,9) prefix_same_cases by blast
  ultimately have "paths_overlap d q" by (auto simp: paths_overlap_def starts_with_names)
  moreover have "\<not> is_glob (entry_path e)" using e(3) by (cases "entry_path e") (simp_all add: resolve_entry_path_def)
  ultimately have "deny_entry_constrains_accepted_grant env e acc cwd"
    using g assms(8) e(3) unfolding deny_entry_constrains_accepted_grant_def list_ex_iff resolve_permission_entry [OF assms(2)]
    by (intro bexI [of _ g]) (auto split: fs_path.split option.splits)
  with e show ?thesis by (auto simp: resolved_filter)
qed

text \<open>What the matcher of denied reads says of a path, in its normalized and its canonical form.\<close>

definition read_denied :: "'z sandbox_env_scheme \<Rightarrow> sandbox_entry list \<Rightarrow> rstr \<Rightarrow> rstr \<Rightarrow> bool" where
  "read_denied env es cwd q \<longleftrightarrow> (\<exists>m. matcher_new env (restricted es) cwd = Ok (Some m) \<and> is_read_denied env m q)"

subsection \<open>Deny patterns\<close>

text \<open>
  The text of a pattern before its first wildcard.  What is used of \<^verbatim>\<open>globset\<close> is what it documents: a
  pattern without wildcards, alternatives and escapes matches only itself, and another one without
  alternatives and escapes only paths that begin with this text.
\<close>

definition static_text :: "rstr \<Rightarrow> rstr" where
  "static_text pattern = takeWhile (\<lambda>c. c \<notin> set (lit ''*?[]'')) pattern"

definition no_alternatives :: "rstr \<Rightarrow> bool" where
  "no_alternatives pattern \<longleftrightarrow> set pattern \<inter> set (lit ''{}'') = {} \<and> 92 \<notin> set pattern"

definition documented_patterns :: "'z sandbox_env_scheme \<Rightarrow> bool" where
  "documented_patterns env \<longleftrightarrow>
     (\<forall>pattern matches p. compile_glob env pattern = Inr matches \<and> no_alternatives pattern \<and> matches p \<longrightarrow>
        (if static_text pattern = pattern then p = pattern else prefix (static_text pattern) p))"

text \<open>
  The patterns whose denial is kept wherever it matters: no alternatives or escapes, and not a pattern
  for hidden files in the root directory (see \<open>lost_patterns\<close> below).
\<close>

definition kept_pattern :: "rstr \<Rightarrow> bool" where
  "kept_pattern pattern \<longleftrightarrow> no_alternatives pattern \<and> static_text pattern \<noteq> lit ''/.''"

definition glob_denied :: "'z sandbox_env_scheme \<Rightarrow> sandbox_entry list \<Rightarrow> rstr \<Rightarrow> rstr \<Rightarrow> bool" where
  "glob_denied env es cwd p \<longleftrightarrow>
     (\<exists>g \<in> set (get_unreadable_globs_with_cwd env (restricted es) cwd). \<exists>matches. compile_glob env g = Inr matches \<and> matches p)"

lemma unreadable_globs:
  "g \<in> set (get_unreadable_globs_with_cwd env (restricted es) cwd) \<longleftrightarrow>
     (\<exists>e \<in> set es. \<exists>pattern. entry_access e = NoAccess \<and> entry_path e = GlobPattern pattern \<and>
        g = resolve_path_against_base (home_dir env) pattern cwd)"
  by (force simp: get_unreadable_globs_with_cwd_def restricted_def List.map_filter_def split: fs_path.splits)

lemma split_on_prefix: "prefix (butlast (split_on d u)) (split_on d (u @ r))"
proof (induction u)
  case (Cons c u)
  obtain l ls where l: "split_on d u = l # ls" by (cases "split_on d u") simp_all
  obtain k ks where k: "split_on d (u @ r) = k # ks" by (cases "split_on d (u @ r)") simp_all
  show ?case using Cons l k by (cases ls) auto
qed simp

lemma last_part_not_Nil: "u \<noteq> [] \<Longrightarrow> last u \<noteq> d \<Longrightarrow> last (split_on d u) \<noteq> []"
proof (induction u)
  case (Cons c u)
  obtain l ls where l: "split_on d u = l # ls" by (cases "split_on d u") simp_all
  show ?case
  proof (cases "u = []")
    case False
    with Cons l have "last (l # ls) \<noteq> []" by simp
    with l show ?thesis by (cases ls) auto
  qed (use Cons in simp)
qed simp

lemma normal_text_parts:
  assumes "normal_path p" "prefix (slash # u) p"
  shows "prefix (butlast (split_on slash u)) (names_of p)"
proof -
  have good: "list_all good_name (names_of p)" and p: "p = slash # join [slash] (names_of p)"
    using assms(1) by (simp_all add: normal_path_def render_abs_def)
  with assms(2) obtain r where r: "join [slash] (names_of p) = u @ r" by (auto simp: prefix_def)
  show ?thesis
  proof (cases "names_of p = []")
    case True
    with r show ?thesis by simp
  next
    case False
    with split_names [OF good False] r split_on_prefix [of slash u r] show ?thesis by simp
  qed
qed

lemma absolute_ok_names: "is_absolute t \<Longrightarrow> \<exists>d. absolute_ok env t = Some d \<and> normal_path d \<and> names_of d = names_of t"
  using absolute_no_home [of t] names_normalize [of t]
  by (simp add: absolute_ok_def from_absolute_path_def absolutize_def)

lemma static_prefix_above:
  assumes "normal_path g" "kept_pattern g" "static_text g \<noteq> g" "normal_path p" "prefix (static_text g) p"
    and "g = resolve_path_against_base (home_dir env) pattern cwd"
  shows "\<exists>d. glob_static_prefix_path env pattern cwd = Some d \<and> normal_path d \<and> prefix (names_of d) (names_of p)"
proof -
  have "hd g = slash" "g \<noteq> []" using normal_absolute [OF assms(1)] by (auto simp: is_absolute_def)
  then obtain u where u: "static_text g = slash # u" by (cases g) (auto simp: static_text_def)
  let ?X = "butlast (split_on slash u)" and ?b = "last (split_on slash u)"
  have X: "prefix ?X (names_of p)" using normal_text_parts [OF assms(4)] assms(5) u by simp
  then have good: "list_all good_name ?X" using names_of_good [of p] by (auto simp: prefix_def)
  have split: "split_on slash u = ?X @ [?b]" by simp
  have names: "names_of (slash # join [slash] Y) = Y" if "list_all good_name Y" for Y
    using normal_render [OF that] by (simp add: render_abs_def)
  have no92: "\<not> ends_with [92] (static_text g)"
  proof
    assume "ends_with [92] (static_text g)"
    then have "92 \<in> set (static_text g)" unfolding ends_with_iff by (auto dest: set_mono_suffix)
    then have "92 \<in> set g" unfolding static_text_def by (rule set_takeWhileD [THEN conjunct1])
    with assms(2) show False by (simp add: kept_pattern_def no_alternatives_def)
  qed
  have path: "glob_static_prefix_path env pattern cwd =
      (if ends_with [slash] (slash # u) then absolute_ok env (slash # u) else Option.bind (path_parent (slash # u)) (absolute_ok env))"
    unfolding glob_static_prefix_path_def Let_def assms(6) [symmetric] static_text_def [symmetric]
    using assms(3) no92 u by simp
  show ?thesis
  proof (cases "ends_with [slash] (slash # u)")
    case True
    have b: "?b = []"
      using True split_on_append [of slash "butlast u" "[]"]
      by (cases u rule: rev_cases) (simp_all add: ends_with_iff suffix_def)
    have "body_components (split_on slash u) = map NormalName ?X"
    proof -
      have "body_components (split_on slash u) = body_components ?X @ body_components [?b]"
        by (subst split) (rule body_components_append(1))
      then show ?thesis using body_components_names [OF good] b body_components_trivial by simp
    qed
    then have "body_components (split_on slash (slash # u)) = map NormalName ?X"
      unfolding split_on_Cons_sep using body_components_append(1) [of "[[]]" "split_on slash u"]
      by (simp add: body_components_trivial)
    then have "names_of (slash # u) = ?X" by (simp add: names_of_def components_def is_absolute_def Let_def walk_names)
    with absolute_ok_names [of "slash # u" env] X True path show ?thesis by (auto simp: is_absolute_def)
  next
    case False
    have "u \<noteq> []" using False by (auto simp: ends_with_iff)
    then have b: "?b \<noteq> []"
    proof (rule last_part_not_Nil)
      show "last u \<noteq> slash"
      proof
        assume "last u = slash"
        with \<open>u \<noteq> []\<close> have "slash # u = (slash # butlast u) @ [slash]" using append_butlast_last_id [of u] by simp
        then have "ends_with [slash] (slash # u)" unfolding ends_with_iff suffix_def by blast
        with False show False by blast
      qed
    qed
    have "strip_trailing (Z @ [z]) = (if trivial_part z then strip_trailing Z else Z @ [z])" for Z z
      by (simp add: strip_trailing_def)
    from this [of ?X ?b] have strip: "strip_trailing (split_on slash u) = (if trivial_part ?b then strip_trailing ?X else ?X @ [?b])"
      unfolding split [symmetric] .
    have "\<exists>Y. path_parent (slash # u) = Some (slash # join [slash] Y) \<and> list_all good_name Y \<and> prefix Y ?X"
    proof (cases "trivial_part ?b")
      case True
      then have dot: "?b = dot_name" using b by (simp add: trivial_part_def)
      have "strip_trailing (split_on slash u) = ?X"
        using True strip_trailing_good [OF good] strip by simp
      moreover have "?X \<noteq> []"
      proof
        assume "?X = []"
        then have "u = dot_name" using split dot split_on_join_inverse [of slash u] by simp
        then show False using assms(2) u by (simp add: kept_pattern_def dot_name_def)
      qed
      ultimately show ?thesis
        using strip_trailing_good [OF list_all_butlast [OF good]] good list_all_butlast [OF good] prefixeq_butlast [of ?X]
        by (auto simp: path_parent_def is_absolute_def)
    next
      case False
      then have "strip_trailing (split_on slash u) = ?X @ [?b]" using strip by simp
      then show ?thesis using strip_trailing_good [OF good] good by (auto simp: path_parent_def is_absolute_def)
    qed
    then obtain Y where Y: "path_parent (slash # u) = Some (slash # join [slash] Y)" "list_all good_name Y" "prefix Y ?X" by blast
    with absolute_ok_names [of "slash # join [slash] Y" env] names X False path show ?thesis
      by (auto simp: is_absolute_def intro: prefix_order.trans)
  qed
qed

lemma intersection_resolved:
  assumes "env_ok env" "normal_path cwd" "entries_ok (perm_entries req)" "entries_ok (perm_entries gr)"
    "intersect_file_system env req gr cwd = Ok f"
  obtains acc where "entries_ok acc" "entries_ok (perm_entries f)"
    "\<And>q a. (q, a) \<in> resolved_set env acc cwd \<Longrightarrow>
      (q, a) \<in> resolved_set env (perm_entries gr) cwd \<and> access_covers (access_under env (perm_entries req) cwd q) a \<and>
      \<not> read_denied env (perm_entries req) cwd q"
    "resolved_set env (perm_entries f) cwd = resolved_set env acc cwd \<union>
      resolved_set env (filter (\<lambda>e. entry_access e = NoAccess \<and> deny_entry_constrains_accepted_grant env e acc cwd) (perm_entries req)) cwd \<union>
      resolved_set env (filter (\<lambda>e. entry_access e = NoAccess \<and> deny_entry_constrains_accepted_grant env e acc cwd) (perm_entries gr)) cwd"
    "\<And>e. e \<in> set (perm_entries req) \<union> set (perm_entries gr) \<Longrightarrow> entry_access e = NoAccess \<Longrightarrow>
      deny_entry_constrains_accepted_grant env e acc cwd \<Longrightarrow>
      \<exists>e' \<in> set (perm_entries f). entry_eq e' (materialize_cwd_dependent_entry env e cwd)"
proof -
  let ?pol = "restricted (perm_entries req)"
  let ?mat = "map (\<lambda>e. materialize_cwd_dependent_entry env e cwd)"
  obtain m where m: "matcher_new env ?pol cwd = Ok m" using matcher_new_total by blast
  define grants where "grants = filter (\<lambda>e. granted_file_system_entry_within_request env req ?pol m e cwd) (perm_entries gr)"
  define acc where "acc = accepted_grants env req ?pol m gr cwd"
  let ?denies = "filter (\<lambda>e. entry_access e = NoAccess \<and> deny_entry_constrains_accepted_grant env e acc cwd)"
  have acc: "acc = fold push_new_entry (?mat grants) []" by (simp add: acc_def accepted_grants_def grants_def)
  have entries: "perm_entries f = fold push_new_entry (?mat (?denies (perm_entries gr)))
      (fold push_new_entry (?mat (?denies (perm_entries req))) acc)"
    using assms(5)
    by (auto simp: intersect_file_system_def m acc_def [symmetric] Let_def retain_constraining_deny_entries_def split_beta
        retain_loop_output)
  have ok: "entries_ok (?mat grants)" "entries_ok (?mat (?denies (perm_entries req)))" "entries_ok (?mat (?denies (perm_entries gr)))"
    unfolding grants_def by (intro entries_ok_materialized [OF assms(1,2)] entries_ok_filter assms)+
  have ok_acc: "entries_ok acc" unfolding acc by (rule entries_ok_push [OF _ ok(1)]) (simp add: entries_ok_def)
  note push = resolved_push_all [OF assms(1)]
  have "resolved_set env acc cwd = resolved_set env grants cwd"
    unfolding acc using push [of "[]" "?mat grants" cwd] ok(1) resolved_materialized [OF assms(1,2)]
    by (simp add: entries_ok_def resolved_set_def [of _ "[]"])
  then have "(q, a) \<in> resolved_set env (perm_entries gr) cwd \<and> access_covers (access_under env (perm_entries req) cwd q) a \<and>
      \<not> read_denied env (perm_entries req) cwd q"
    if "(q, a) \<in> resolved_set env acc cwd" for q a
    using that resolve_permission_entry [OF assms(2), of env] m
    by (auto simp: grants_def resolved_filter granted_file_system_entry_within_request_def resolved_set_intro read_denied_def
        split: if_splits)
  moreover have "resolved_set env (perm_entries f) cwd = resolved_set env acc cwd \<union>
      resolved_set env (?denies (perm_entries req)) cwd \<union> resolved_set env (?denies (perm_entries gr)) cwd"
    unfolding entries using push ok ok_acc entries_ok_push resolved_materialized [OF assms(1,2)] by simp
  moreover have "entries_ok (perm_entries f)" unfolding entries using ok ok_acc entries_ok_push by simp
  moreover have "\<exists>e' \<in> set (perm_entries f). entry_eq e' (materialize_cwd_dependent_entry env e cwd)"
    if "e \<in> set (perm_entries req) \<union> set (perm_entries gr)" "entry_access e = NoAccess"
      "deny_entry_constrains_accepted_grant env e acc cwd" for e
  proof -
    have "materialize_cwd_dependent_entry env e cwd \<in> set (?mat (?denies (perm_entries req))) \<union> set (?mat (?denies (perm_entries gr)))"
      using that by auto
    then show ?thesis
      unfolding entries
      using push_denies_adds push_denies_mono [of _ "?mat (?denies (perm_entries gr))"] by blast
  qed
  ultimately show ?thesis using that [OF ok_acc] by blast
qed

lemma glob_retained:
  assumes "env_ok env" "normal_path cwd" "documented_patterns env" "entries_ok acc" "normal_path p"
    and "(q, a) \<in> resolved_set env acc cwd" "can_read a" "prefix (names_of q) (names_of p)"
    and "e \<in> set es" "entry_access e = NoAccess" "entry_path e = GlobPattern pattern"
    and "g = resolve_path_against_base (home_dir env) pattern cwd" "kept_pattern g"
    and "compile_glob env g = Inr matches" "matches p"
  shows "deny_entry_constrains_accepted_grant env e acc cwd"
proof -
  have g: "normal_path g"
    unfolding assms(12) resolve_path_against_base_def by (rule absolutize_from_names(1) [OF normal_absolute [OF assms(2)]])
  have static: "if static_text g = g then p = g else prefix (static_text g) p"
    using assms(3,13-) by (auto simp: documented_patterns_def kept_pattern_def)
  have "\<exists>d. glob_static_prefix_path env pattern cwd = Some d \<and> normal_path d \<and> prefix (names_of d) (names_of p)"
  proof (cases "static_text g = g")
    case True
    then have "glob_static_prefix_path env pattern cwd = absolute_ok env g"
      unfolding glob_static_prefix_path_def Let_def assms(12) [symmetric] static_text_def [symmetric] by simp
    with True static absolute_ok_id [OF g, of env] g show ?thesis by simp
  next
    case False
    with static show ?thesis by (intro static_prefix_above [OF g assms(13) False assms(5) _ assms(12)]) simp
  qed
  then obtain d where d: "glob_static_prefix_path env pattern cwd = Some d" "normal_path d" "prefix (names_of d) (names_of p)" by blast
  have q: "normal_path q" using resolved_set_normal [OF assms(1,4,6)] .
  have "prefix (names_of d) (names_of q) \<or> prefix (names_of q) (names_of d)"
    using d(3) assms(8) prefix_same_cases by blast
  then have "paths_overlap d q" using d(2) q by (auto simp: paths_overlap_def starts_with_names)
  moreover obtain k where "k \<in> set acc" "entry_access k = a"
    "resolve_entry_path env (entry_path k) (absolute_ok env cwd) = Some q"
    using assms(6) by (auto simp: resolved_set_def)
  ultimately show ?thesis
    using d(1) assms(7,11) unfolding deny_entry_constrains_accepted_grant_def list_ex_iff resolve_permission_entry [OF assms(2)]
    by (intro bexI [of _ k]) auto
qed

lemma materialized_glob_listed:
  assumes "normal_path cwd" "e' \<in> set es" "entry_eq e' (materialize_cwd_dependent_entry env e cwd)"
    "entry_access e = NoAccess" "entry_path e = GlobPattern pattern"
  shows "resolve_path_against_base (home_dir env) pattern cwd \<in> set (get_unreadable_globs_with_cwd env (restricted es) cwd)"
proof -
  let ?g = "resolve_path_against_base (home_dir env) pattern cwd"
  have "normal_path ?g"
    unfolding resolve_path_against_base_def by (rule absolutize_from_names(1) [OF normal_absolute [OF assms(1)]])
  then have "resolve_path_against_base (home_dir env) ?g cwd = ?g" by (rule resolve_normal_id)
  moreover have "entry_path e' = GlobPattern ?g" "entry_access e' = NoAccess"
    using assms(3-5) by (cases "entry_path e'"; simp add: entry_eq_def materialize_cwd_dependent_entry_def entry_def)+
  ultimately show ?thesis unfolding unreadable_globs using assms(2) by force
qed

text \<open>
  (C36) Granting part of a request never reads more than both sides agree on.  Take a path that can be read
  under the intersection: its entries give read access and no deny pattern in them matches it.  Then the
  same holds under the request and under the grant, whatever narrower denied paths and deny patterns
  either has; and the access comes from a granted directory above it on which the request asked for at
  least that access and which the matcher of the request's denied reads does not deny.  (Patterns have no
  alternatives or escapes and are not for hidden files of the root; a pattern is matched against the path
  as it is written.)  The intersection is always computed.
\<close>
theorem intersection_reads_in_both:
  assumes "env_ok env" "normal_path cwd" "entries_ok (perm_entries req)" "entries_ok (perm_entries gr)"
    and "documented_patterns env"
    and "list_all kept_pattern (get_unreadable_globs_with_cwd env (restricted (perm_entries req)) cwd)"
      "list_all kept_pattern (get_unreadable_globs_with_cwd env (restricted (perm_entries gr)) cwd)"
  shows "\<exists>f. intersect_file_system env req gr cwd = Ok f \<and>
    (\<forall>p. normal_path p \<and> can_read (access_under env (perm_entries f) cwd p) \<and> \<not> glob_denied env (perm_entries f) cwd p \<longrightarrow>
      can_read (access_under env (perm_entries req) cwd p) \<and> \<not> glob_denied env (perm_entries req) cwd p \<and>
      can_read (access_under env (perm_entries gr) cwd p) \<and> \<not> glob_denied env (perm_entries gr) cwd p \<and>
      (\<exists>q. (q, access_under env (perm_entries f) cwd p) \<in> resolved_set env (perm_entries gr) cwd \<and>
        prefix (names_of q) (names_of p) \<and> \<not> read_denied env (perm_entries req) cwd q \<and>
        access_covers (access_under env (perm_entries req) cwd q) (access_under env (perm_entries f) cwd p)))"
proof -
  obtain f where f: "intersect_file_system env req gr cwd = Ok f"
    using matcher_new_total [of env "restricted (perm_entries req)" cwd] by (auto simp: intersect_file_system_def split_beta Let_def)
  obtain acc where acc: "entries_ok acc" "entries_ok (perm_entries f)"
    "\<And>q a. (q, a) \<in> resolved_set env acc cwd \<Longrightarrow>
      (q, a) \<in> resolved_set env (perm_entries gr) cwd \<and> access_covers (access_under env (perm_entries req) cwd q) a \<and>
      \<not> read_denied env (perm_entries req) cwd q"
    "resolved_set env (perm_entries f) cwd = resolved_set env acc cwd \<union>
      resolved_set env (filter (\<lambda>e. entry_access e = NoAccess \<and> deny_entry_constrains_accepted_grant env e acc cwd) (perm_entries req)) cwd \<union>
      resolved_set env (filter (\<lambda>e. entry_access e = NoAccess \<and> deny_entry_constrains_accepted_grant env e acc cwd) (perm_entries gr)) cwd"
    (is "_ = _ \<union> ?rd \<union> ?gd")
    "\<And>e. e \<in> set (perm_entries req) \<union> set (perm_entries gr) \<Longrightarrow> entry_access e = NoAccess \<Longrightarrow>
      deny_entry_constrains_accepted_grant env e acc cwd \<Longrightarrow>
      \<exists>e' \<in> set (perm_entries f). entry_eq e' (materialize_cwd_dependent_entry env e cwd)"
    by (rule intersection_resolved [OF assms(1-4) f]) blast
  have "can_read (access_under env (perm_entries req) cwd p) \<and> \<not> glob_denied env (perm_entries req) cwd p \<and>
      can_read (access_under env (perm_entries gr) cwd p) \<and> \<not> glob_denied env (perm_entries gr) cwd p \<and>
      (\<exists>q. (q, a) \<in> resolved_set env (perm_entries gr) cwd \<and> prefix (names_of q) (names_of p) \<and>
        \<not> read_denied env (perm_entries req) cwd q \<and> access_covers (access_under env (perm_entries req) cwd q) a)"
    if p: "normal_path p" and a: "a = access_under env (perm_entries f) cwd p" "can_read a"
      and free: "\<not> glob_denied env (perm_entries f) cwd p" for p a
  proof -
    let ?C = "\<lambda>es. covering_set (resolved_set env es cwd) p"
    have "decides (?C (perm_entries f)) a" using access_under_decides [OF assms(1) acc(2) p] a(1) by simp
    with a(2) obtain ns where ns: "(ns, a) \<in> ?C (perm_entries f)"
      "\<forall>(ms, b)\<in>?C (perm_entries f). length ms \<le> length ns \<and> (ms = ns \<longrightarrow> b \<le> a)"
      by (auto simp: decides_def can_read_def split: if_splits)
    then obtain q where q: "ns = names_of q" "(q, a) \<in> resolved_set env acc cwd" "prefix ns (names_of p)"
      using a(2) by (auto simp: covering_set_def acc(4) resolved_filter can_read_def)
    note gq = acc(3) [OF q(2)]
    have nq: "normal_path q" using resolved_set_normal [OF assms(1) acc(1) q(2)] .
    have above: "length (names_of d) < length (names_of q)"
      if "(d, NoAccess) \<in> ?rd \<union> ?gd" "prefix (names_of d) (names_of p)" for d
    proof -
      have "(names_of d, NoAccess) \<in> ?C (perm_entries f)" using that by (auto simp: covering_set_def acc(4))
      from bspec [OF ns(2) this] a(2) have "length (names_of d) \<le> length ns" "names_of d \<noteq> ns"
        by (auto simp: no_access_below can_read_def)
      moreover have "names_of d = ns" if "length (names_of d) = length ns"
        using \<open>prefix (names_of d) _\<close> q(3) that by (metis prefix_length_prefix prefix_order.antisym order_refl)
      ultimately show ?thesis using q(1) by force
    qed
    have glob: "\<not> glob_denied env es cwd p"
      if es: "set es \<subseteq> set (perm_entries req) \<union> set (perm_entries gr)"
        "list_all kept_pattern (get_unreadable_globs_with_cwd env (restricted es) cwd)" for es
    proof
      assume "glob_denied env es cwd p"
      then obtain g matches e pattern where g: "g \<in> set (get_unreadable_globs_with_cwd env (restricted es) cwd)"
        "compile_glob env g = Inr matches" "matches p" "e \<in> set es" "entry_access e = NoAccess"
        "entry_path e = GlobPattern pattern" "g = resolve_path_against_base (home_dir env) pattern cwd"
        unfolding glob_denied_def by (metis unreadable_globs)
      have "kept_pattern g" using es(2) g(1) by (simp add: list_all_iff)
      from glob_retained [OF assms(1,2,5) acc(1) p q(2) a(2) q(3) [unfolded q(1)] g(4-7) this g(2,3)]
      obtain e' where "e' \<in> set (perm_entries f)" "entry_eq e' (materialize_cwd_dependent_entry env e cwd)"
        using acc(5) [OF _ g(5)] g(4) es(1) by blast
      from materialized_glob_listed [OF assms(2) this g(5,6)] g(2,3,7) free show False by (auto simp: glob_denied_def)
    qed
    note kept = deny_retained [OF assms(1,2) acc(1) _ _ _ q(2) a(2) q(3) [unfolded q(1)]]
    have "can_read (access_under env (perm_entries req) cwd p)"
      using access_covers_read gq kept [OF assms(3)] above
      by (intro readable_below [OF assms(1,3) p nq q(3) [unfolded q(1)]]) blast+
    moreover have "can_read (access_under env (perm_entries gr) cwd p)"
    proof (rule ccontr)
      assume "\<not> can_read (access_under env (perm_entries gr) cwd p)"
      then have dec: "decides (?C (perm_entries gr)) NoAccess"
        using access_under_decides [OF assms(1,4) p, of cwd] by (simp add: can_read_def)
      have mem: "(ns, a) \<in> ?C (perm_entries gr)" using gq q by (auto simp: covering_set_def)
      obtain ks where ks: "(ks, NoAccess) \<in> ?C (perm_entries gr)" "length ns \<le> length ks"
        by (rule decidesE [OF dec mem]) (use mem in blast)
      then obtain d where "(d, NoAccess) \<in> resolved_set env (perm_entries gr) cwd"
        "prefix (names_of d) (names_of p)" "length ns \<le> length (names_of d)" by (auto simp: covering_set_def)
      with above [OF UnI2 [OF kept [OF assms(4)]]] q(1) show False using leD by blast
    qed
    ultimately show ?thesis using gq q glob [OF _ assms(6)] glob [OF _ assms(7)] by blast
  qed
  with f show ?thesis by blast
qed

definition secret_grant :: fs_permissions where
  "secret_grant = \<lparr>perm_entries = policy_entries work_policy, perm_glob_depth = None\<rparr>"

definition project_request :: fs_permissions where
  "project_request = \<lparr>perm_entries = [entry (Special (ProjectRoots None)) WriteAccess], perm_glob_depth = None\<rparr>"

section \<open>Merged permissions\<close>

lemma merge_depths_cases:
  "merge_depths a b = None \<longleftrightarrow> a = Some Unbounded \<or> b = Some Unbounded \<or> a = None \<and> b = None"
  "merge_depths a b = Some n \<Longrightarrow> (a = Some (Bounded d) \<or> b = Some (Bounded d)) \<Longrightarrow> d \<le> n"
  by (cases "(a, b)" rule: merge_depths.cases; auto)+

text \<open>
  The policy of a command with additional permissions resolves a path by the entries of both, the most
  specific one deciding, so a denied path stays denied unless something more specific is granted
  below it; and the depth to which deny patterns are expanded covers what either side needs
  (\<open>None\<close> is unbounded).
\<close>
theorem effective_policy_joins_entries:
  assumes "env_ok env" "policy_kind pol = Restricted" "policy_ok pol" "entries_ok (perm_entries fs)" "normal_path p"
  shows "let eff = effective_file_system_sandbox_policy pol (Some \<lparr>add_network = n, add_file_system = Some fs\<rparr>) in
    decides (covering_set (resolved_set env (policy_entries pol) cwd \<union> resolved_set env (perm_entries fs) cwd) p)
      (resolve_access_with_cwd env eff p cwd) \<and>
    (perm_entries fs \<noteq> [] \<longrightarrow>
      (\<forall>d. glob_scan_max_depth eff = Some d \<longrightarrow>
        (list_ex is_deny_glob (policy_entries pol) \<longrightarrow> (\<exists>b\<le>d. glob_scan_max_depth pol = Some b)) \<and>
        (list_ex is_deny_glob (perm_entries fs) \<longrightarrow> (\<exists>b\<le>d. perm_glob_depth fs = Some b))))"
proof -
  let ?eff = "effective_file_system_sandbox_policy pol (Some \<lparr>add_network = n, add_file_system = Some fs\<rparr>)"
  have entries: "policy_entries ?eff = fold push_new_entry (perm_entries fs) (policy_entries pol)"
    using assms(2) by (auto simp: effective_file_system_sandbox_policy_def fs_permissions_is_empty_def
        merge_file_system_policy_with_additional_permissions_def)
  have base: "entries_ok (policy_entries pol)" using assms(3) by (simp add: policy_ok_def entries_ok_def)
  have "decides (covering_set (resolved_set env (policy_entries pol) cwd \<union> resolved_set env (perm_entries fs) cwd) p)
      (resolve_access_with_cwd env ?eff p cwd)"
    using access_under_decides [OF assms(1) entries_ok_push [OF base assms(4)] assms(5), of cwd] access_by_entries [of ?eff env p cwd] effective_kind assms(2)
    by (simp add: entries resolved_push_all [OF assms(1) base assms(4)])
  moreover have "glob_scan_max_depth ?eff = merge_glob_scan_max_depth (policy_entries pol) (glob_scan_max_depth pol)
      (perm_entries fs) (perm_glob_depth fs)" if "perm_entries fs \<noteq> []"
    using that assms(2) by (simp add: effective_file_system_sandbox_policy_def fs_permissions_is_empty_def
        merge_file_system_policy_with_additional_permissions_def)
  ultimately show ?thesis
    using merge_depths_cases
    by (auto simp: Let_def merge_glob_scan_max_depth_def effective_glob_scan_depth_def split: option.splits if_splits)
qed

theorem effective_policy_joins_entries_witness:
  "decides (covering_set (resolved_set work_env (policy_entries work_policy) (lit ''/w'') \<union>
       resolved_set work_env (perm_entries project_request) (lit ''/w'')) (lit ''/w/secret/key''))
     (resolve_access_with_cwd work_env (effective_file_system_sandbox_policy work_policy
        (Some \<lparr>add_network = None, add_file_system = Some project_request\<rparr>)) (lit ''/w/secret/key'') (lit ''/w''))"
proof -
  have "entries_ok (perm_entries project_request)" by (simp add: project_request_def entries_ok_def entry_def)
  from effective_policy_joins_entries [OF work_ok(1,3,2) this normal_lits(3), of None "lit ''/w''"] show ?thesis
    by (simp add: Let_def del: lit_simps)
qed

section \<open>The wire format of file permissions\<close>

lemma entry_eta: "entry_path e = p \<Longrightarrow> entry_access e = a \<Longrightarrow> e = entry p a"
  by (cases e) (simp add: entry_def)

lemma legacy_roots_loop_Some:
  assumes "legacy_roots_loop es rd wr = Some (r, w)"
  shows "map (\<lambda>path. entry (PathEntry path) ReadAccess) r =
      map (\<lambda>path. entry (PathEntry path) ReadAccess) rd @ filter (\<lambda>e. entry_access e = ReadAccess) es"
    and "map (\<lambda>path. entry (PathEntry path) WriteAccess) w =
      map (\<lambda>path. entry (PathEntry path) WriteAccess) wr @ filter (\<lambda>e. entry_access e = WriteAccess) es"
    and "\<forall>e\<in>set es. entry_access e \<noteq> NoAccess"
  using assms
  by (induction es rd wr rule: legacy_roots_loop.induct)
    (auto split: fs_path.splits access_mode.splits dest: entry_eta)

definition reads_first :: "sandbox_entry list \<Rightarrow> sandbox_entry list" where
  "reads_first es = filter (\<lambda>e. entry_access e = ReadAccess) es @ filter (\<lambda>e. entry_access e = WriteAccess) es"

lemma unwrap_some_if_not_Nil [simp]: "unwrap_or [] (some_if_not_Nil xs) = xs"
  by (simp add: unwrap_or_def some_if_not_Nil_def)

lemma wire_decodes:
  "deserialize_fs_permissions (serialize_fs_permissions p) =
     Some (if as_legacy_permissions p = None then p else p\<lparr>perm_entries := reads_first (perm_entries p)\<rparr>)"
proof (cases "as_legacy_permissions p")
  case None
  then show ?thesis by (simp add: serialize_fs_permissions_def deserialize_fs_permissions_def)
next
  case (Some rw)
  then obtain r w where depth: "perm_glob_depth p = None"
    and loop: "legacy_roots_loop (perm_entries p) [] [] = Some (r, w)" "rw = (some_if_not_Nil r, some_if_not_Nil w)"
    by (auto simp: as_legacy_permissions_def split: if_splits)
  note entries = legacy_roots_loop_Some [OF loop(1), simplified]
  show ?thesis
    using depth Some loop(2) entries
    by (cases p) (auto simp: serialize_fs_permissions_def deserialize_fs_permissions_def from_read_write_roots_def
        reads_first_def some_if_not_Nil_def unwrap_or_def)
qed

text \<open>
  Permissions survive their JSON form: what is written can always be read back, with the same depth
  and the same entries (the form with \<^verbatim>\<open>read\<close> and \<^verbatim>\<open>write\<close> lists only moves the entries that read
  before those that write), so every path has the same access.
\<close>
theorem fs_permissions_wire_roundtrip:
  assumes "env_ok env" "entries_ok (perm_entries p)" "normal_path x"
  shows "\<exists>q. deserialize_fs_permissions (serialize_fs_permissions p) = Some q \<and>
    perm_glob_depth q = perm_glob_depth p \<and> set (perm_entries q) = set (perm_entries p) \<and>
    access_under env (perm_entries q) cwd x = access_under env (perm_entries p) cwd x"
proof -
  have "set (reads_first (perm_entries p)) = set (perm_entries p)" if "as_legacy_permissions p \<noteq> None"
  proof -
    have "entry_access e = ReadAccess \<or> entry_access e = WriteAccess" if "e \<in> set (perm_entries p)" for e
      using \<open>as_legacy_permissions p \<noteq> None\<close> that legacy_roots_loop_Some(3) [of "perm_entries p" "[]" "[]"]
      by (cases "entry_access e") (auto simp: as_legacy_permissions_def split: if_splits)
    then show ?thesis by (auto simp: reads_first_def)
  qed
  then obtain q where q: "deserialize_fs_permissions (serialize_fs_permissions p) = Some q"
    "perm_glob_depth q = perm_glob_depth p" "set (perm_entries q) = set (perm_entries p)"
    by (auto simp: wire_decodes split: if_splits)
  then have "entries_ok (perm_entries q)" using assms(2) by (simp add: entries_ok_def list_all_iff)
  moreover have "resolved_set env (perm_entries q) cwd = resolved_set env (perm_entries p) cwd"
    using q(3) by (simp add: resolved_set_def)
  ultimately have "access_under env (perm_entries q) cwd x = access_under env (perm_entries p) cwd x"
    using access_under_decides [OF assms(1) _ assms(3), of _ cwd] assms(2)
    by (intro decides_unique [of "covering_set (resolved_set env (perm_entries p) cwd) x" "names_of x"])
      (fastforce simp: covering_set_def)+
  with q show ?thesis by blast
qed

theorem fs_permissions_wire_roundtrip_witness:
  "\<exists>q. deserialize_fs_permissions (serialize_fs_permissions secret_grant) = Some q \<and>
     set (perm_entries q) = set (policy_entries work_policy)"
proof -
  have "entries_ok (perm_entries secret_grant)"
    using normal_lits(2) by (simp add: secret_grant_def entries_ok_def work_policy_def restricted_def entry_def)
  from fs_permissions_wire_roundtrip [OF work_ok(1) this normal_lits(3)] show ?thesis by (auto simp: secret_grant_def)
qed

section \<open>A narrower request for reading is lost\<close>

lemma resolved_set_Cons:
  "resolved_set env (e # es) cwd =
     (case resolve_entry_path env (entry_path e) (absolute_ok env cwd) of
        Some q \<Rightarrow> insert (q, entry_access e) (resolved_set env es cwd)
      | None \<Rightarrow> resolved_set env es cwd)"
  by (auto simp: resolved_set_def split: option.split)

lemma covering_set_insert:
  "covering_set (insert (q, a) E) p =
     (if prefix (names_of q) (names_of p) then insert (names_of q, a) (covering_set E p) else covering_set E p)"
  by (auto simp: covering_set_def)

lemma write_decides: "decides (covering_set {(lit ''/w'', WriteAccess)} (lit ''/w/secret'')) WriteAccess"
  "decides (covering_set {(lit ''/w'', WriteAccess), (lit ''/w/secret'', ReadAccess)} (lit ''/w'')) WriteAccess"
  "decides (covering_set {(lit ''/w'', WriteAccess), (lit ''/w/secret'', ReadAccess)} (lit ''/w/secret'')) ReadAccess"
  using normal_lits by (simp_all add: covering_set_insert covering_set_def [of "{}"] decides_def del: lit_simps)

text \<open>
  A request for write access to a directory and only read access to a part of it, answered by a grant
  of the directory: the intersection gives write access to the part as well, since only the granted
  directory itself is compared with the request.
\<close>
lemma access_by_decides:
  assumes "entries_ok es" "normal_path x" "decides (covering_set (resolved_set work_env es (lit ''/w'')) x) a"
  shows "access_under work_env es (lit ''/w'') x = a"
  using assms access_under_decides [OF work_ok(1) assms(1,2), of "lit ''/w''"]
  by (intro decides_unique [of "covering_set (resolved_set work_env es (lit ''/w'')) x" "names_of x"])
    (auto simp: covering_set_def simp del: lit_simps)

lemma intersection_drops_narrower_read:
  "\<exists>f. intersect_file_system work_env
      \<lparr>perm_entries = [entry (PathEntry (lit ''/w'')) WriteAccess, entry (PathEntry (lit ''/w/secret'')) ReadAccess], perm_glob_depth = None\<rparr>
      \<lparr>perm_entries = [entry (PathEntry (lit ''/w'')) WriteAccess], perm_glob_depth = None\<rparr> (lit ''/w'') = Ok f \<and>
    access_under work_env (perm_entries f) (lit ''/w'') (lit ''/w/secret'') = WriteAccess \<and>
    access_under work_env [entry (PathEntry (lit ''/w'')) WriteAccess, entry (PathEntry (lit ''/w/secret'')) ReadAccess]
      (lit ''/w'') (lit ''/w/secret'') = ReadAccess"
proof -
  let ?req = "[entry (PathEntry (lit ''/w'')) WriteAccess, entry (PathEntry (lit ''/w/secret'')) ReadAccess]"
  let ?gr = "[entry (PathEntry (lit ''/w'')) WriteAccess]"
  have ok: "entries_ok ?req" "entries_ok ?gr" using normal_lits by (simp_all add: entries_ok_def entry_def del: lit_simps)
  have sets: "resolved_set work_env ?req (lit ''/w'') = {(lit ''/w'', WriteAccess), (lit ''/w/secret'', ReadAccess)}"
    "resolved_set work_env ?gr (lit ''/w'') = {(lit ''/w'', WriteAccess)}"
    by (simp_all add: resolved_set_Cons resolved_set_def [of _ "[]"] entry_def resolve_entry_path_def del: lit_simps)
  have acc: "access_under work_env ?req (lit ''/w'') (lit ''/w'') = WriteAccess"
    "access_under work_env ?req (lit ''/w'') (lit ''/w/secret'') = ReadAccess"
    "access_under work_env ?gr (lit ''/w'') (lit ''/w/secret'') = WriteAccess"
    using access_by_decides ok normal_lits write_decides sets by (metis, metis, metis)
  have "matcher_new work_env (restricted ?req) (lit ''/w'') = Ok None"
    by (simp add: matcher_new_def build_matcher_def has_denied_read_restrictions_def restricted_def entry_def del: lit_simps)
  then have "intersect_file_system work_env \<lparr>perm_entries = ?req, perm_glob_depth = None\<rparr> \<lparr>perm_entries = ?gr, perm_glob_depth = None\<rparr>
      (lit ''/w'') = Ok \<lparr>perm_entries = ?gr, perm_glob_depth = None\<rparr>"
    using acc(1)
    by (simp add: intersect_file_system_def accepted_grants_def granted_file_system_entry_within_request_def entry_def can_read_def
        can_write_def materialize_cwd_dependent_entry_def push_deny_entry_def retain_constraining_deny_entries_def
        merge_glob_scan_max_depth_def effective_glob_scan_depth_def is_deny_glob_def nonzero_def del: lit_simps)
  with acc show ?thesis by simp
qed

section \<open>A pattern in the intersection\<close>

definition keyed_request :: fs_permissions where
  "keyed_request = \<lparr>perm_entries = [entry (PathEntry (lit ''/w'')) WriteAccess, entry (GlobPattern (lit ''/w/secret/key'')) NoAccess],
     perm_glob_depth = None\<rparr>"

definition read_grant :: fs_permissions where
  "read_grant = \<lparr>perm_entries = [entry (PathEntry (lit ''/w'')) ReadAccess], perm_glob_depth = None\<rparr>"

lemma work_patterns: "documented_patterns work_env"
  by (auto simp: documented_patterns_def work_env_def static_text_def takeWhile_is_prefix)

lemma keyed_ok: "entries_ok (perm_entries keyed_request)" "entries_ok (perm_entries read_grant)"
  using normal_lits by (simp_all add: entries_ok_def keyed_request_def read_grant_def entry_def del: lit_simps)

lemma keyed_globs:
  "get_unreadable_globs_with_cwd work_env (restricted (perm_entries keyed_request)) (lit ''/w'') = [lit ''/w/secret/key'']"
  "get_unreadable_globs_with_cwd work_env (restricted (perm_entries read_grant)) (lit ''/w'') = []"
  using resolve_normal_id [OF normal_lits(3), of "home_dir work_env" "lit ''/w''"]
  by (simp_all add: get_unreadable_globs_with_cwd_def keyed_request_def read_grant_def restricted_def entry_def List.map_filter_def
      del: lit_simps)

lemma keyed_access: "access_under work_env (perm_entries keyed_request) (lit ''/w'') (lit ''/w'') = WriteAccess"
proof (rule access_by_decides [OF keyed_ok(1) normal_lits(1)])
  have "resolved_set work_env (perm_entries keyed_request) (lit ''/w'') = {(lit ''/w'', WriteAccess)}"
    by (simp add: keyed_request_def resolved_set_Cons resolved_set_def [of _ "[]"] entry_def resolve_entry_path_def del: lit_simps)
  then show "decides (covering_set (resolved_set work_env (perm_entries keyed_request) (lit ''/w'')) (lit ''/w'')) WriteAccess"
    by (simp add: covering_set_insert covering_set_def [of "{}"] decides_def del: lit_simps)
qed

lemma work_compile: "compile_glob work_env g = Inr (\<lambda>q. q = g)"
  by (simp add: work_env_def)

lemma keyed_texts: "lit ''/w'' \<noteq> lit ''/w/secret/key''" "lit ''/w/secret'' \<noteq> lit ''/w/secret/key''"
  by simp_all

lemma keyed_intersection:
  "intersect_file_system work_env keyed_request read_grant (lit ''/w'') =
     Ok \<lparr>perm_entries = [entry (PathEntry (lit ''/w'')) ReadAccess, entry (GlobPattern (lit ''/w/secret/key'')) NoAccess],
         perm_glob_depth = None\<rparr>"
proof -
  let ?pol = "restricted (perm_entries keyed_request)"
  have roots: "get_unreadable_roots_with_cwd work_env ?pol (lit ''/w'') = []"
    by (simp add: get_unreadable_roots_with_cwd_def resolved_entries_with_cwd_def keyed_request_def restricted_def entry_def
        List.map_filter_def resolve_entry_path_def dedup_absolute_paths_def Let_def del: lit_simps)
  have candidates: "normalized_and_canonical_candidates work_env (lit ''/w'') = [lit ''/w'']"
    using absolute_ok_id [OF normal_lits(1), of work_env]
    by (simp add: normalized_and_canonical_candidates_def push_unique_def del: lit_simps) (simp add: work_env_def)
  have "\<exists>m. matcher_new work_env ?pol (lit ''/w'') = Ok (Some m) \<and> \<not> is_read_denied work_env m (lit ''/w'')"
  proof -
    have "has_denied_read_restrictions ?pol"
      by (simp add: has_denied_read_restrictions_def keyed_request_def restricted_def entry_def)
    then have "matcher_new work_env ?pol (lit ''/w'') =
        Ok (Some \<lparr>denied_candidates = [], deny_read_matchers = [\<lambda>q. q = lit ''/w/secret/key''], invalid_pattern = False\<rparr>)"
      using roots keyed_globs(1) work_compile by (simp add: matcher_new_def build_matcher_def del: lit_simps)
    then show ?thesis using candidates keyed_texts by (simp add: is_read_denied_def del: lit_simps)
  qed
  then obtain m where m: "matcher_new work_env ?pol (lit ''/w'') = Ok (Some m)" "\<not> is_read_denied work_env m (lit ''/w'')" by blast
  have grants: "accepted_grants work_env keyed_request ?pol (Some m) read_grant (lit ''/w'') = [entry (PathEntry (lit ''/w'')) ReadAccess]"
    using m(2) keyed_access
    by (simp add: accepted_grants_def read_grant_def granted_file_system_entry_within_request_def entry_def can_read_def
        materialize_cwd_dependent_entry_def push_deny_entry_def del: lit_simps)
  have glob: "resolve_path_against_base (home_dir work_env) (lit ''/w/secret/key'') (lit ''/w'') = lit ''/w/secret/key''"
    by (rule resolve_normal_id [OF normal_lits(3)])
  have "static_text (lit ''/w/secret/key'') = lit ''/w/secret/key''" by (simp add: static_text_def)
  then have static: "glob_static_prefix_path work_env (lit ''/w/secret/key'') (lit ''/w'') = Some (lit ''/w/secret/key'')"
    unfolding glob_static_prefix_path_def Let_def glob static_text_def [symmetric]
    using absolute_ok_id [OF normal_lits(3), of work_env] by (simp del: lit_simps)
  have "paths_overlap (lit ''/w/secret/key'') (lit ''/w'')"
    using starts_with_names [OF normal_lits(3,1)] normal_lits by (simp add: paths_overlap_def del: lit_simps)
  with static grants m(1) glob show ?thesis
    by (simp add: intersect_file_system_def retain_constraining_deny_entries_def keyed_request_def read_grant_def entry_def can_read_def
        deny_entry_constrains_accepted_grant_def materialize_cwd_dependent_entry_def push_deny_entry_def entry_eq_def
        merge_glob_scan_max_depth_def effective_glob_scan_depth_def is_deny_glob_def nonzero_def Let_def del: lit_simps)
qed

theorem intersection_reads_in_both_witness:
  "\<exists>f. intersect_file_system work_env keyed_request read_grant (lit ''/w'') = Ok f \<and>
     can_read (access_under work_env (perm_entries f) (lit ''/w'') (lit ''/w/secret'')) \<and>
     \<not> glob_denied work_env (perm_entries f) (lit ''/w'') (lit ''/w/secret'') \<and>
     can_read (access_under work_env (perm_entries keyed_request) (lit ''/w'') (lit ''/w/secret'')) \<and>
     \<not> glob_denied work_env (perm_entries keyed_request) (lit ''/w'') (lit ''/w/secret'')"
proof -
  let ?f = "\<lparr>perm_entries = [entry (PathEntry (lit ''/w'')) ReadAccess, entry (GlobPattern (lit ''/w/secret/key'')) NoAccess],
    perm_glob_depth = None\<rparr>"
  have set: "resolved_set work_env (perm_entries ?f) (lit ''/w'') = {(lit ''/w'', ReadAccess)}"
    by (simp add: resolved_set_Cons resolved_set_def [of _ "[]"] entry_def resolve_entry_path_def del: lit_simps)
  have "access_under work_env (perm_entries ?f) (lit ''/w'') (lit ''/w/secret'') = ReadAccess"
  proof (rule access_by_decides)
    show "entries_ok (perm_entries ?f)" using normal_lits by (simp add: entries_ok_def entry_def del: lit_simps)
    show "decides (covering_set (resolved_set work_env (perm_entries ?f) (lit ''/w'')) (lit ''/w/secret'')) ReadAccess"
      unfolding set using normal_lits by (simp add: covering_set_def decides_def del: lit_simps)
  qed (rule normal_lits)
  moreover have "\<not> glob_denied work_env (perm_entries ?f) (lit ''/w'') (lit ''/w/secret'')"
    using resolve_normal_id [OF normal_lits(3), of "home_dir work_env" "lit ''/w''"]
      work_compile keyed_texts by (auto simp: glob_denied_def unreadable_globs entry_def simp del: lit_simps)
  moreover have "list_all kept_pattern (get_unreadable_globs_with_cwd work_env (restricted (perm_entries keyed_request)) (lit ''/w''))"
    "list_all kept_pattern (get_unreadable_globs_with_cwd work_env (restricted (perm_entries read_grant)) (lit ''/w''))"
    by (simp_all add: keyed_globs del: lit_simps) (simp add: kept_pattern_def no_alternatives_def static_text_def)
  ultimately show ?thesis
    using intersection_reads_in_both [OF work_ok(1) normal_lits(1) keyed_ok work_patterns] keyed_intersection normal_lits(2)
    by (auto simp: can_read_def simp del: lit_simps)
qed

text \<open>
  Two kinds of deny patterns are lost by an intersection although they match paths below a grant.  The
  text before the first wildcard is taken for a directory also where it has alternatives in braces, so
  \<^verbatim>\<open>/w/{a,b}/*\<close> does not overlap a grant of \<^verbatim>\<open>/w/a\<close>; and \<^verbatim>\<open>/.*\<close> has no directory at all, since
  \<^verbatim>\<open>/.\<close> has no parent.
\<close>

lemma lost_patterns:
  "glob_static_prefix_path work_env (lit ''/w/{a,b}/*'') (lit ''/w'') = Some (lit ''/w/{a,b}'')"
  "\<not> paths_overlap (lit ''/w/{a,b}'') (lit ''/w/a'')"
  "glob_static_prefix_path work_env (lit ''/.*'') (lit ''/w'') = None"
  by (simp_all add: glob_static_prefix_path_def paths_overlap_def path_starts_with_def path_eval work_env_def absolute_ok_def
      from_absolute_path_def absolutize_def ends_with_def starts_with_def path_parent_def strip_trailing_def)

end
