(* ===== verification/Command_Safety.thy ===== *)
theory Command_Safety
  imports Shell_Script
begin

text \<open>
  The heuristics for commands that no rule names (\<^verbatim>\<open>shell-command/src/command_safety\<close>:
  \<^verbatim>\<open>is_safe_command.rs\<close>, \<^verbatim>\<open>is_dangerous_command.rs\<close>, \<^verbatim>\<open>windows_safe_commands.rs\<close>): which
  commands only read, and which may destroy.

  The check of PowerShell invocations is called on every platform.  It asks a PowerShell process for
  the syntax tree of a script; that process is a parameter \<open>parse_with_powershell_ast\<close>.  The list of
  safe programs is the one of a Linux build (\<^verbatim>\<open>cfg!(target_os = "linux")\<close> holds, and the branches
  under \<^verbatim>\<open>cfg(windows)\<close> are absent).
\<close>

section \<open>Git\<close>

definition executable_name_lookup_key :: "rstr \<Rightarrow> rstr option" where
  "executable_name_lookup_key raw = file_name raw"

definition is_git_global_option_with_value :: "rstr \<Rightarrow> bool" where
  "is_git_global_option_with_value arg \<longleftrightarrow>
     arg \<in> set (map lit [''-C'', ''-c'', ''--config-env'', ''--exec-path'', ''--git-dir'', ''--namespace'',
       ''--super-prefix'', ''--work-tree''])"

definition is_git_global_option_with_inline_value :: "rstr \<Rightarrow> bool" where
  "is_git_global_option_with_inline_value arg \<longleftrightarrow>
     list_ex (\<lambda>option. starts_with (lit option) arg)
       [''--config-env='', ''--exec-path='', ''--git-dir='', ''--namespace='', ''--super-prefix='', ''--work-tree=''] \<or>
     (starts_with (lit ''-C'') arg \<or> starts_with (lit ''-c'') arg) \<and> 2 < byte_len arg"

text \<open>The loop over the arguments; \<open>idx\<close> is the index of the first one.\<close>

fun git_subcommand_loop :: "rstr list \<Rightarrow> nat \<Rightarrow> bool \<Rightarrow> rstr list \<Rightarrow> (nat \<times> rstr) option" where
  "git_subcommand_loop subcommands idx skip_next [] = None"
| "git_subcommand_loop subcommands idx skip_next (arg # args) =
     (if skip_next then git_subcommand_loop subcommands (idx + 1) False args
      else if is_git_global_option_with_inline_value arg then git_subcommand_loop subcommands (idx + 1) False args
      else if is_git_global_option_with_value arg then git_subcommand_loop subcommands (idx + 1) True args
      else if arg = lit ''--'' \<or> starts_with (lit ''-'') arg then git_subcommand_loop subcommands (idx + 1) False args
      else if arg \<in> set subcommands then Some (idx, arg)
      else None)"

definition find_git_subcommand :: "rstr list \<Rightarrow> rstr list \<Rightarrow> (nat \<times> rstr) option" where
  "find_git_subcommand command subcommands =
     (case command of
        [] \<Rightarrow> None
      | cmd0 # args \<Rightarrow>
          if executable_name_lookup_key cmd0 \<noteq> Some (lit ''git'') then None
          else git_subcommand_loop subcommands 1 False args)"

datatype git_option_pattern = Exact rstr | ShortWithInlineValue rstr | Prefix rstr

fun option_matches :: "git_option_pattern \<Rightarrow> rstr \<Rightarrow> bool" where
  "option_matches (Exact option) arg = (arg = option)"
| "option_matches (ShortWithInlineValue option) arg = (starts_with option arg \<and> byte_len option < byte_len arg)"
| "option_matches (Prefix pre) arg = starts_with pre arg"

definition UNSAFE_GIT_GLOBAL_OPTIONS :: "git_option_pattern list" where
  "UNSAFE_GIT_GLOBAL_OPTIONS =
     [Exact (lit ''-C''), ShortWithInlineValue (lit ''-C''), Exact (lit ''-c''), ShortWithInlineValue (lit ''-c''),
      Exact (lit ''-p''), Exact (lit ''--config-env''), Prefix (lit ''--config-env=''),
      Exact (lit ''--exec-path''), Prefix (lit ''--exec-path=''), Exact (lit ''--git-dir''), Prefix (lit ''--git-dir=''),
      Exact (lit ''--namespace''), Prefix (lit ''--namespace=''), Exact (lit ''--paginate''),
      Exact (lit ''--super-prefix''), Prefix (lit ''--super-prefix=''), Exact (lit ''--work-tree''), Prefix (lit ''--work-tree='')]"

definition UNSAFE_GIT_SUBCOMMAND_OPTIONS :: "git_option_pattern list" where
  "UNSAFE_GIT_SUBCOMMAND_OPTIONS =
     [Exact (lit ''--output''), Prefix (lit ''--output=''), Exact (lit ''--ext-diff''), Exact (lit ''--textconv''),
      Exact (lit ''--exec''), Prefix (lit ''--exec='')]"

definition git_matches_option_pattern :: "rstr \<Rightarrow> git_option_pattern list \<Rightarrow> bool" where
  "git_matches_option_pattern arg patterns = list_ex (\<lambda>pattern. option_matches pattern arg) patterns"

definition git_has_unsafe_global_option :: "rstr list \<Rightarrow> bool" where
  "git_has_unsafe_global_option global_args =
     list_ex (\<lambda>arg. git_matches_option_pattern arg UNSAFE_GIT_GLOBAL_OPTIONS) global_args"

definition git_subcommand_args_are_read_only :: "rstr list \<Rightarrow> bool" where
  "git_subcommand_args_are_read_only args =
     (\<not> list_ex (\<lambda>arg. git_matches_option_pattern arg UNSAFE_GIT_SUBCOMMAND_OPTIONS) args)"

definition branch_flag_is_read_only :: "rstr \<Rightarrow> bool" where
  "branch_flag_is_read_only arg \<longleftrightarrow>
     arg \<in> set (map lit [''--list'', ''-l'', ''--show-current'', ''-a'', ''--all'', ''-r'', ''--remotes'', ''-v'', ''-vv'', ''--verbose'']) \<or>
     starts_with (lit ''--format='') arg"

fun branch_args_loop :: "bool \<Rightarrow> rstr list \<Rightarrow> bool" where
  "branch_args_loop saw_read_only_flag [] = saw_read_only_flag"
| "branch_args_loop saw_read_only_flag (arg # args) =
     (if branch_flag_is_read_only arg then branch_args_loop True args else False)"

definition git_branch_is_read_only :: "rstr list \<Rightarrow> bool" where
  "git_branch_is_read_only branch_args = (if branch_args = [] then True else branch_args_loop False branch_args)"

text \<open>
  The two slices are \<^verbatim>\<open>command[1..idx]\<close> and \<^verbatim>\<open>command[idx + 1..]\<close>; they are in range because the index
  is that of an argument (\<open>find_git_subcommand_split\<close> below).
\<close>

definition is_safe_git_command :: "rstr list \<Rightarrow> bool" where
  "is_safe_git_command command =
     (case find_git_subcommand command (map lit [''status'', ''log'', ''diff'', ''show'', ''branch'']) of
        None \<Rightarrow> False
      | Some (subcommand_idx, subcommand) \<Rightarrow>
          (let global_args = take (subcommand_idx - 1) (drop 1 command);
               subcommand_args = drop (subcommand_idx + 1) command
           in if git_has_unsafe_global_option global_args then False
              else if subcommand \<in> set (map lit [''status'', ''log'', ''diff'', ''show''])
              then git_subcommand_args_are_read_only subcommand_args
              else if subcommand = lit ''branch''
              then git_subcommand_args_are_read_only subcommand_args \<and> git_branch_is_read_only subcommand_args
              else False))"

section \<open>Programs that only read\<close>

definition is_valid_sed_n_arg :: "rstr option \<Rightarrow> bool" where
  "is_valid_sed_n_arg arg =
     (case arg of
        None \<Rightarrow> False
      | Some s \<Rightarrow>
          (case strip_prefix (lit ''p'') (rev s) of
             None \<Rightarrow> False
           | Some rest \<Rightarrow>
               (case split_on (ch CHR '','') (rev rest) of
                  [num] \<Rightarrow> num \<noteq> [] \<and> list_all is_ascii_digit num
                | [a, b] \<Rightarrow> a \<noteq> [] \<and> b \<noteq> [] \<and> list_all is_ascii_digit a \<and> list_all is_ascii_digit b
                | _ \<Rightarrow> False)))"

definition unsafe_base64_arg :: "rstr \<Rightarrow> bool" where
  "unsafe_base64_arg arg \<longleftrightarrow>
     arg \<in> set (map lit [''-o'', ''--output'']) \<or> starts_with (lit ''--output='') arg \<or>
     starts_with (lit ''-o'') arg \<and> arg \<noteq> lit ''-o''"

definition UNSAFE_FIND_OPTIONS :: "rstr list" where
  "UNSAFE_FIND_OPTIONS = map lit [''-exec'', ''-execdir'', ''-ok'', ''-okdir'', ''-delete'', ''-fls'', ''-fprint'',
     ''-fprint0'', ''-fprintf'']"

definition unsafe_ripgrep_arg :: "rstr \<Rightarrow> bool" where
  "unsafe_ripgrep_arg arg \<longleftrightarrow>
     arg \<in> set (map lit [''--search-zip'', ''-z'']) \<or>
     list_ex (\<lambda>opt. arg = lit opt \<or> starts_with (lit opt @ lit ''='') arg) [''--pre'', ''--hostname-bin'']"

definition READ_ONLY_PROGRAMS :: "rstr list" where
  "READ_ONLY_PROGRAMS = map lit [''cat'', ''cd'', ''cut'', ''echo'', ''expr'', ''false'', ''grep'', ''head'', ''id'', ''ls'',
     ''nl'', ''paste'', ''pwd'', ''rev'', ''seq'', ''stat'', ''tail'', ''tr'', ''true'', ''uname'', ''uniq'', ''wc'',
     ''which'', ''whoami'']"

definition command_get :: "nat \<Rightarrow> 'a list \<Rightarrow> 'a option" where
  "command_get i xs = (if i < length xs then Some (xs ! i) else None)"

definition is_safe_to_call_with_exec :: "rstr list \<Rightarrow> bool" where
  "is_safe_to_call_with_exec command =
     (case command of
        [] \<Rightarrow> False
      | cmd0 # args \<Rightarrow>
          (case executable_name_lookup_key cmd0 of
             None \<Rightarrow> False
           | Some cmd \<Rightarrow>
               if cmd \<in> set (map lit [''numfmt'', ''tac'']) then True
               else if cmd \<in> set READ_ONLY_PROGRAMS then True
               else if cmd = lit ''base64'' then \<not> list_ex unsafe_base64_arg args
               else if cmd = lit ''find'' then \<not> list_ex (\<lambda>arg. arg \<in> set UNSAFE_FIND_OPTIONS) command
               else if cmd = lit ''rg'' then \<not> list_ex unsafe_ripgrep_arg command
               else if cmd = lit ''git'' then is_safe_git_command command
               else if cmd = lit ''sed'' \<and> length command \<le> 4 \<and> command_get 1 command = Some (lit ''-n'') \<and>
                 is_valid_sed_n_arg (command_get 2 command) then True
               else False))"

section \<open>PowerShell\<close>

datatype powershell_parse_outcome = Commands "rstr list list" | Unsupported | Failed

definition parse_powershell_script ::
  "(rstr \<Rightarrow> rstr \<Rightarrow> powershell_parse_outcome) \<Rightarrow> rstr \<Rightarrow> rstr \<Rightarrow> rstr list list option" where
  "parse_powershell_script parse_with_powershell_ast executable script =
     (case parse_with_powershell_ast executable script of Commands commands \<Rightarrow> Some commands | _ \<Rightarrow> None)"

definition is_powershell_executable :: "rstr \<Rightarrow> bool" where
  "is_powershell_executable exe \<longleftrightarrow>
     to_ascii_lowercase (case file_name exe of Some n \<Rightarrow> n | None \<Rightarrow> exe) \<in>
       set (map lit [''powershell'', ''powershell.exe'', ''pwsh'', ''pwsh.exe''])"

fun replace_char :: "rchar \<Rightarrow> rstr \<Rightarrow> rstr \<Rightarrow> rstr" where
  "replace_char c by [] = []"
| "replace_char c by (x # xs) = (if x = c then by @ replace_char c by xs else x # replace_char c by xs)"

definition quote_argument :: "rstr \<Rightarrow> rstr" where
  "quote_argument arg =
     (if arg = [] then [39, 39]
      else if list_all (\<lambda>c. \<not> is_whitespace c) arg then arg
      else [39] @ replace_char 39 [39, 39] arg @ [39])"

definition join_arguments_as_script :: "rstr list \<Rightarrow> rstr" where
  "join_arguments_as_script args =
     (case args of [] \<Rightarrow> [] | first # rest \<Rightarrow> join (lit '' '') (first # map quote_argument rest))"

text \<open>\<open>args\<close> are the arguments from \<^verbatim>\<open>idx\<close> on.\<close>

fun powershell_invocation_loop ::
  "(rstr \<Rightarrow> rstr \<Rightarrow> powershell_parse_outcome) \<Rightarrow> rstr \<Rightarrow> rstr list \<Rightarrow> rstr list list option" where
  "powershell_invocation_loop ast executable [] = None"
| "powershell_invocation_loop ast executable (arg # rest) =
     (let lower = to_ascii_lowercase arg in
      if lower \<in> set (map lit [''-command'', ''/command'', ''-c'']) then
        (case rest of
           [script] \<Rightarrow> parse_powershell_script ast executable script
         | _ \<Rightarrow> None)
      else if starts_with (lit ''-command:'') lower \<or> starts_with (lit ''/command:'') lower then
        (if rest \<noteq> [] then None
         else case split_once (ch CHR '':'') arg of
                None \<Rightarrow> None
              | Some (flag, script) \<Rightarrow> parse_powershell_script ast executable script)
      else if lower \<in> set (map lit [''-nologo'', ''-noprofile'', ''-noninteractive'', ''-mta'', ''-sta'']) then
        powershell_invocation_loop ast executable rest
      else if lower \<in> set (map lit [''-encodedcommand'', ''-ec'', ''-file'', ''/file'', ''-windowstyle'', ''-executionpolicy'',
        ''-workingdirectory'']) then None
      else if starts_with (lit ''-'') lower then None
      else parse_powershell_script ast executable (join_arguments_as_script (arg # rest)))"

definition parse_powershell_invocation ::
  "(rstr \<Rightarrow> rstr \<Rightarrow> powershell_parse_outcome) \<Rightarrow> rstr \<Rightarrow> rstr list \<Rightarrow> rstr list list option" where
  "parse_powershell_invocation ast executable args =
     (if args = [] then None else powershell_invocation_loop ast executable args)"

definition try_parse_powershell_command_sequence ::
  "(rstr \<Rightarrow> rstr \<Rightarrow> powershell_parse_outcome) \<Rightarrow> rstr list \<Rightarrow> rstr list list option" where
  "try_parse_powershell_command_sequence ast command =
     (case command of
        [] \<Rightarrow> None
      | exe # rest \<Rightarrow> if is_powershell_executable exe then parse_powershell_invocation ast exe rest else None)"

definition trim_parens :: "rstr \<Rightarrow> rstr" where
  "trim_parens w =
     (let is_paren = (\<lambda>c. c = ch CHR ''('' \<or> c = ch CHR '')'')
      in rev (dropWhile is_paren (rev (dropWhile is_paren w))))"

definition powershell_word :: "rstr \<Rightarrow> rstr" where
  "powershell_word w = to_ascii_lowercase (trim_start_matches (ch CHR ''-'') (trim_parens w))"

definition SIDE_EFFECTING_CMDLETS :: "rstr list" where
  "SIDE_EFFECTING_CMDLETS = map lit [''set-content'', ''add-content'', ''out-file'', ''new-item'', ''remove-item'',
     ''move-item'', ''copy-item'', ''rename-item'', ''start-process'', ''stop-process'']"

definition READ_ONLY_CMDLETS :: "rstr list" where
  "READ_ONLY_CMDLETS = map lit [''echo'', ''write-output'', ''write-host'', ''dir'', ''ls'', ''get-childitem'', ''gci'',
     ''cat'', ''type'', ''gc'', ''get-content'', ''select-string'', ''sls'', ''findstr'', ''measure-object'', ''measure'',
     ''get-location'', ''gl'', ''pwd'', ''test-path'', ''tp'', ''resolve-path'', ''rvpa'', ''select-object'', ''select'',
     ''get-item'']"

definition is_safe_ripgrep :: "rstr list \<Rightarrow> bool" where
  "is_safe_ripgrep words = (\<not> list_ex (\<lambda>arg. unsafe_ripgrep_arg (to_ascii_lowercase arg)) (drop 1 words))"

definition is_safe_powershell_words :: "rstr list \<Rightarrow> bool" where
  "is_safe_powershell_words words =
     (if words = [] then False
      else if list_ex (\<lambda>w. powershell_word w \<in> set SIDE_EFFECTING_CMDLETS) words then False
      else (let command = powershell_word (hd words) in
            if command \<in> set READ_ONLY_CMDLETS then True
            else if command = lit ''git'' then is_safe_git_command words
            else if command = lit ''rg'' then is_safe_ripgrep words
            else False))"

definition is_safe_command_windows :: "(rstr \<Rightarrow> rstr \<Rightarrow> powershell_parse_outcome) \<Rightarrow> rstr list \<Rightarrow> bool" where
  "is_safe_command_windows ast command =
     (case try_parse_powershell_command_sequence ast command of
        Some commands \<Rightarrow> list_all is_safe_powershell_words commands
      | None \<Rightarrow> False)"

section \<open>Known safe and possibly dangerous commands\<close>

text \<open>The two parsers of other languages a check asks.\<close>

record command_parsers =
  bash_tree :: "rstr \<Rightarrow> ts_node option"
  powershell_ast :: "rstr \<Rightarrow> rstr \<Rightarrow> powershell_parse_outcome"

definition zsh_as_bash :: "rstr \<Rightarrow> rstr" where
  "zsh_as_bash s = (if s = lit ''zsh'' then lit ''bash'' else s)"

definition is_known_safe_command :: "command_parsers \<Rightarrow> rstr list \<Rightarrow> bool" where
  "is_known_safe_command ps raw =
     (let command = map zsh_as_bash raw in
      if is_safe_command_windows (powershell_ast ps) command then True
      else if is_safe_to_call_with_exec command then True
      else case parse_shell_lc_plain_commands (bash_tree ps) command of
             Some all_commands \<Rightarrow> all_commands \<noteq> [] \<and> list_all is_safe_to_call_with_exec all_commands
           | None \<Rightarrow> False)"

fun is_dangerous_to_call_with_exec :: "rstr list \<Rightarrow> bool" where
  "is_dangerous_to_call_with_exec [] = False"
| "is_dangerous_to_call_with_exec (cmd0 # args) =
     (if cmd0 = lit ''rm'' then (case args of [] \<Rightarrow> False | arg # _ \<Rightarrow> arg \<in> {lit ''-f'', lit ''-rf''})
      else if cmd0 = lit ''sudo'' then is_dangerous_to_call_with_exec args
      else False)"

definition command_might_be_dangerous :: "(rstr \<Rightarrow> ts_node option) \<Rightarrow> rstr list \<Rightarrow> bool" where
  "command_might_be_dangerous try_parse_shell command =
     (if is_dangerous_to_call_with_exec command then True
      else case parse_shell_lc_plain_commands try_parse_shell command of
             Some all_commands \<Rightarrow> list_ex is_dangerous_to_call_with_exec all_commands
           | None \<Rightarrow> False)"

section \<open>A safe git command\<close>

lemma git_loop_split:
  "git_subcommand_loop subs i skip args = Some (j, sub) \<Longrightarrow>
   \<exists>globals rest. args = globals @ sub # rest \<and> j = i + length globals \<and> sub \<in> set subs \<and> \<not> starts_with (lit ''-'') sub"
proof (induction subs i skip args rule: git_subcommand_loop.induct)
  case (2 subs i skip arg args)
  show ?case
  proof (cases "\<not> skip \<and> \<not> is_git_global_option_with_inline_value arg \<and> \<not> is_git_global_option_with_value arg \<and>
      \<not> (arg = lit ''--'' \<or> starts_with (lit ''-'') arg)")
    case True
    with 2(5) show ?thesis by (auto split: if_splits intro!: exI [of _ "[]"])
  next
    case False
    with 2 obtain globals rest where "args = globals @ sub # rest" "j = i + 1 + length globals" "sub \<in> set subs"
      "\<not> starts_with (lit ''-'') sub"
      by (auto split: if_splits)
    then have "arg # args = (arg # globals) @ sub # rest \<and> j = i + length (arg # globals) \<and> sub \<in> set subs \<and>
        \<not> starts_with (lit ''-'') sub" by simp
    then show ?thesis by blast
  qed
qed simp

lemma find_git_subcommand_split:
  assumes "find_git_subcommand command subs = Some (i, sub)"
  obtains cmd0 globals args where "command = cmd0 # globals @ sub # args" "i = Suc (length globals)" "sub \<in> set subs"
    "executable_name_lookup_key cmd0 = Some (lit ''git'')" "\<not> starts_with (lit ''-'') sub"
  using assms git_loop_split
  by (fastforce simp: find_git_subcommand_def simp del: lit_simps split: list.splits if_splits)

text \<open>An option that is not unsafe takes no value: the scan goes on with the next argument.\<close>

definition safe_global :: "rstr \<Rightarrow> bool" where
  "safe_global g \<longleftrightarrow> starts_with (lit ''-'') g \<and> \<not> git_matches_option_pattern g UNSAFE_GIT_GLOBAL_OPTIONS"

lemma safe_global_flags:
  "\<not> git_matches_option_pattern g UNSAFE_GIT_GLOBAL_OPTIONS \<Longrightarrow>
   \<not> is_git_global_option_with_inline_value g \<and> \<not> is_git_global_option_with_value g"
  by (auto simp: git_matches_option_pattern_def UNSAFE_GIT_GLOBAL_OPTIONS_def is_git_global_option_with_inline_value_def
      is_git_global_option_with_value_def byte_len_def utf8_len_def)

lemma git_loop_safe_globals:
  "list_all safe_global globals \<Longrightarrow>
   git_subcommand_loop subs i False (globals @ rest) = git_subcommand_loop subs (i + length globals) False rest"
  by (induction globals arbitrary: i) (auto simp: safe_global_def dest!: safe_global_flags simp del: lit_simps)

lemma git_loop_only_flags:
  assumes "git_subcommand_loop subs i False (globals @ sub # args) = Some (i + length globals, sub)"
    "\<not> git_has_unsafe_global_option globals"
  shows "list_all safe_global globals"
  using assms
proof (induction globals arbitrary: i)
  case (Cons g globals)
  then have g: "\<not> git_matches_option_pattern g UNSAFE_GIT_GLOBAL_OPTIONS"
    by (simp add: git_has_unsafe_global_option_def)
  with Cons.prems(1) safe_global_flags [OF g] have "starts_with (lit ''-'') g"
    by (auto simp del: lit_simps split: if_splits) (simp add: text_simps)
  with Cons.prems Cons.IH [of "Suc i"] g safe_global_flags [OF g] show ?case
    by (auto simp: safe_global_def git_has_unsafe_global_option_def simp del: lit_simps split: if_splits)
qed simp

lemma branch_args_loop_iff: "branch_args_loop saw args \<longleftrightarrow> list_all branch_flag_is_read_only args \<and> (saw \<or> args \<noteq> [])"
  by (induction args arbitrary: saw) auto

definition GIT_READERS :: "rstr list" where
  "GIT_READERS = map lit [''status'', ''log'', ''diff'', ''show'', ''branch'']"

lemma readers_are_words:
  "list_all (\<lambda>sub. \<not> is_git_global_option_with_inline_value sub \<and> \<not> is_git_global_option_with_value sub \<and>
     sub \<noteq> lit ''--'' \<and> \<not> starts_with (lit ''-'') sub) GIT_READERS"
  by (simp add: GIT_READERS_def is_git_global_option_with_inline_value_def is_git_global_option_with_value_def starts_with_def)

lemma is_safe_git_split:
  assumes "find_git_subcommand command GIT_READERS = Some (Suc (length globals), sub)" "command = cmd0 # globals @ sub # args"
  shows "is_safe_git_command command \<longleftrightarrow>
     \<not> git_has_unsafe_global_option globals \<and> git_subcommand_args_are_read_only args \<and>
     (sub = lit ''branch'' \<longrightarrow> git_branch_is_read_only args)"
proof -
  have "sub \<in> set GIT_READERS" using assms(1) by (rule find_git_subcommand_split)
  then show ?thesis
    using assms(1) by (auto simp: is_safe_git_command_def GIT_READERS_def assms(2))
qed

text \<open>
  A git command is auto-approved exactly when it is \<^verbatim>\<open>git\<close>, options, one of the reading
  subcommands and its arguments, where every option before the subcommand is a flag that redirects
  neither the repository nor its configuration nor the pager, no argument makes the subcommand write
  a file or run a program, and \<^verbatim>\<open>branch\<close> has only listing flags.  The subcommand that is vetted is
  thus the first argument that is not an option: no option value is taken for it.
\<close>
theorem safe_git_command_spec:
  "is_safe_git_command command \<longleftrightarrow>
     (\<exists>cmd0 globals sub args. command = cmd0 # globals @ sub # args \<and> executable_name_lookup_key cmd0 = Some (lit ''git'') \<and>
        list_all safe_global globals \<and> sub \<in> set GIT_READERS \<and>
        list_all (\<lambda>a. \<not> git_matches_option_pattern a UNSAFE_GIT_SUBCOMMAND_OPTIONS) args \<and>
        (sub = lit ''branch'' \<longrightarrow> list_all branch_flag_is_read_only args))"
proof
  assume safe: "is_safe_git_command command"
  then obtain i sub where found: "find_git_subcommand command GIT_READERS = Some (i, sub)"
    by (auto simp: is_safe_git_command_def GIT_READERS_def simp del: lit_simps split: option.splits)
  from this obtain cmd0 globals args where command: "command = cmd0 # globals @ sub # args" "i = Suc (length globals)"
    "sub \<in> set GIT_READERS" "executable_name_lookup_key cmd0 = Some (lit ''git'')"
    by (rule find_git_subcommand_split)
  with found is_safe_git_split [of command globals sub cmd0 args] safe have facts:
    "\<not> git_has_unsafe_global_option globals" "git_subcommand_args_are_read_only args"
    "sub = lit ''branch'' \<longrightarrow> git_branch_is_read_only args" by (simp_all del: lit_simps)
  moreover have "git_subcommand_loop GIT_READERS 1 False (globals @ sub # args) = Some (1 + length globals, sub)"
    using found command by (simp add: find_git_subcommand_def del: lit_simps split: if_splits)
  then have "list_all safe_global globals" using git_loop_only_flags facts(1) by blast
  ultimately show "\<exists>cmd0 globals sub args. command = cmd0 # globals @ sub # args \<and>
      executable_name_lookup_key cmd0 = Some (lit ''git'') \<and> list_all safe_global globals \<and> sub \<in> set GIT_READERS \<and>
      list_all (\<lambda>a. \<not> git_matches_option_pattern a UNSAFE_GIT_SUBCOMMAND_OPTIONS) args \<and>
      (sub = lit ''branch'' \<longrightarrow> list_all branch_flag_is_read_only args)"
    using command by (intro exI [of _ cmd0] exI [of _ globals] exI [of _ sub] exI [of _ args])
      (auto simp: git_subcommand_args_are_read_only_def git_branch_is_read_only_def branch_args_loop_iff
        list_ex_iff list_all_iff simp del: lit_simps split: if_splits)
next
  assume "\<exists>cmd0 globals sub args. command = cmd0 # globals @ sub # args \<and>
      executable_name_lookup_key cmd0 = Some (lit ''git'') \<and> list_all safe_global globals \<and> sub \<in> set GIT_READERS \<and>
      list_all (\<lambda>a. \<not> git_matches_option_pattern a UNSAFE_GIT_SUBCOMMAND_OPTIONS) args \<and>
      (sub = lit ''branch'' \<longrightarrow> list_all branch_flag_is_read_only args)"
  then obtain cmd0 globals sub args where command: "command = cmd0 # globals @ sub # args"
    "executable_name_lookup_key cmd0 = Some (lit ''git'')" "list_all safe_global globals" "sub \<in> set GIT_READERS"
    and args: "list_all (\<lambda>a. \<not> git_matches_option_pattern a UNSAFE_GIT_SUBCOMMAND_OPTIONS) args"
      "sub = lit ''branch'' \<longrightarrow> list_all branch_flag_is_read_only args" by blast
  have sub: "git_subcommand_loop GIT_READERS j False (sub # args) = Some (j, sub)" for j
    using command(4) readers_are_words by (auto simp: list_all_iff simp del: lit_simps)
  have "find_git_subcommand command GIT_READERS = Some (Suc (length globals), sub)"
    using command(1,2) git_loop_safe_globals [OF command(3)] sub
    by (simp add: find_git_subcommand_def del: lit_simps git_subcommand_loop.simps)
  from is_safe_git_split [OF this command(1)] show "is_safe_git_command command"
    using args command(3) by (auto simp: safe_global_def git_has_unsafe_global_option_def git_subcommand_args_are_read_only_def
        git_branch_is_read_only_def branch_args_loop_iff list_ex_iff list_all_iff simp del: lit_simps)
qed

section \<open>Safe commands are not dangerous\<close>

abbreviation lower_char :: "rchar \<Rightarrow> rchar" where
  "lower_char c \<equiv> (if 65 \<le> c \<and> c \<le> 90 then c + 32 else c)"

lemma split_once_map:
  "(\<And>c. f c = d \<longleftrightarrow> c = d) \<Longrightarrow> split_once d (map f s) = map_option (\<lambda>(a, b). (map f a, map f b)) (split_once d s)"
  by (induction s) (auto split: option.splits)

lemma name_stem_lower: "to_ascii_lowercase (name_stem n) = name_stem (to_ascii_lowercase n)"
proof -
  have "split_once 46 (rev (map lower_char n)) =
      map_option (\<lambda>(a, b). (map lower_char a, map lower_char b)) (split_once 46 (rev n))"
    unfolding rev_map by (rule split_once_map) auto
  then show ?thesis
    by (auto simp: name_stem_def rsplit_once_def to_ascii_lowercase_def rev_map split: option.splits)
qed

lemma lower_other: "c < 65 \<Longrightarrow> c \<in> set (to_ascii_lowercase s) \<longleftrightarrow> c \<in> set s"
  by (force simp: to_ascii_lowercase_def image_iff)

lemma file_name_plain: "slash \<notin> set n \<Longrightarrow> n \<noteq> [] \<Longrightarrow> n \<noteq> dot_name \<Longrightarrow> n \<noteq> dot_dot_name \<Longrightarrow> file_name n = Some n"
  by (auto simp: file_name_def components_def Let_def split_on_no_sep is_absolute_def body_components_def trivial_part_def
      part_component_def dest: hd_in_set)

lemma powershell_stem_type:
  assumes "to_ascii_lowercase n \<in> {lit ''powershell'', lit ''pwsh''}"
  shows "detect_shell_type n \<in> {Some PowerShell, None}"
proof -
  have no: "46 \<notin> set n" "slash \<notin> set n"
    using assms lower_other [of 46 n] lower_other [of slash n] by auto
  have "n \<noteq> []" "n \<notin> {dot_name, dot_dot_name}"
    using assms no(1) by (auto simp: to_ascii_lowercase_def dot_name_def dot_dot_name_def)
  then have "file_name n = Some n" using no(2) by (simp add: file_name_plain)
  moreover have "name_stem n = n"
    using no(1) by (simp add: name_stem_def rsplit_once_def split_once_None_iff [THEN iffD2])
  ultimately have "file_stem n = Some n" by (simp add: file_stem_def)
  moreover have "n \<noteq> lit ''zsh''" "n \<noteq> lit ''sh''" "n \<noteq> lit ''cmd''" "n \<noteq> lit ''bash''"
    using assms by (auto simp: to_ascii_lowercase_def)
  ultimately show ?thesis by (subst detect_shell_type.simps) (simp del: lit_simps)
qed

lemma powershell_not_bash:
  assumes "is_powershell_executable exe"
  shows "detect_shell_type exe \<in> {Some PowerShell, None}" and "exe \<noteq> lit ''rm''" "exe \<noteq> lit ''sudo''"
proof -
  let ?names = "set (map lit [''powershell'', ''powershell.exe'', ''pwsh'', ''pwsh.exe''])"
  have file_names: "file_name (lit s) = Some (lit s)" if "s \<in> {''zsh'', ''sh'', ''cmd'', ''bash'', ''rm'', ''sudo''}" for s
    using that by (auto intro!: file_name_plain simp: dot_name_def dot_dot_name_def)
  have ne: "exe \<noteq> lit s" if "s \<in> {''zsh'', ''sh'', ''cmd'', ''bash'', ''rm'', ''sudo''}" for s
    using assms file_names [OF that] that by (auto simp: is_powershell_executable_def to_ascii_lowercase_def)
  then show "exe \<noteq> lit ''rm''" "exe \<noteq> lit ''sudo''" by (simp_all del: lit_simps)
  have "detect_shell_type n \<in> {Some PowerShell, None}" if "file_stem exe = Some n" for n
  proof -
    from that obtain m where m: "file_name exe = Some m" "n = name_stem m" by (auto simp: file_stem_def)
    have "to_ascii_lowercase m \<in> ?names" using assms m(1) by (simp add: is_powershell_executable_def)
    then have "name_stem (to_ascii_lowercase m) \<in> {lit ''powershell'', lit ''pwsh''}"
      by (auto simp: name_stem_def rsplit_once_def)
    then show ?thesis using powershell_stem_type [of n] by (simp add: m(2) name_stem_lower del: lit_simps)
  qed
  with ne [of "''zsh''"] ne [of "''sh''"] ne [of "''cmd''"] ne [of "''bash''"]
  show "detect_shell_type exe \<in> {Some PowerShell, None}"
    by (subst detect_shell_type.simps) (auto simp del: lit_simps split: option.split)
qed

lemma exec_safe_not_dangerous: "is_safe_to_call_with_exec c \<Longrightarrow> \<not> is_dangerous_to_call_with_exec c"
proof (cases c)
  case (Cons cmd0 args)
  have "executable_name_lookup_key (lit ''rm'') = Some (lit ''rm'')" "executable_name_lookup_key (lit ''sudo'') = Some (lit ''sudo'')"
    by (simp_all add: executable_name_lookup_key_def dot_name_def dot_dot_name_def file_name_plain)
  then have "\<not> is_safe_to_call_with_exec (lit ''rm'' # args)" "\<not> is_safe_to_call_with_exec (lit ''sudo'' # args)"
    by (simp_all add: is_safe_to_call_with_exec_def READ_ONLY_PROGRAMS_def)
  then show "is_safe_to_call_with_exec c \<Longrightarrow> \<not> is_dangerous_to_call_with_exec c"
    by (auto simp: Cons simp del: lit_simps split: if_splits)
qed simp

lemma file_name_idem: "file_name p = Some n \<Longrightarrow> file_name n = Some n"
proof -
  assume "file_name p = Some n"
  then have "NormalName n \<in> set (components p)"
    by (auto simp: file_name_def Let_def split: if_splits path_component.splits dest: last_in_set)
  from components_good [OF this] show ?thesis
    by (auto simp: good_component_def good_name_def trivial_part_def intro!: file_name_plain)
qed

lemma detect_other:
  assumes "file_name exe = Some n" "46 \<notin> set n"
    "n \<notin> set (map lit [''zsh'', ''sh'', ''cmd'', ''bash'', ''pwsh'', ''powershell''])"
  shows "detect_shell_type exe = None"
proof -
  have "name_stem n = n"
    using assms(2) by (simp add: name_stem_def rsplit_once_def split_once_None_iff [THEN iffD2])
  then have stems: "file_stem exe = Some n" "file_stem n = Some n"
    using assms(1) file_name_idem by (auto simp: file_stem_def)
  then have "detect_shell_type n = None"
    using assms(3) by (subst detect_shell_type.simps) (simp del: lit_simps)
  moreover have "exe \<notin> set (map lit [''zsh'', ''sh'', ''cmd'', ''bash'', ''pwsh'', ''powershell''])"
  proof
    assume exe: "exe \<in> set (map lit [''zsh'', ''sh'', ''cmd'', ''bash'', ''pwsh'', ''powershell''])"
    then have "file_name exe = Some exe"
      by (intro file_name_plain) (auto simp: dot_name_def dot_dot_name_def)
    with assms(1,3) exe show False by simp
  qed
  ultimately show ?thesis
    using stems(1) by (subst detect_shell_type.simps) (simp del: lit_simps)
qed

definition SAFE_PROGRAMS :: "rstr list" where
  "SAFE_PROGRAMS = map lit [''numfmt'', ''tac''] @ READ_ONLY_PROGRAMS @
     map lit [''base64'', ''find'', ''rg'', ''git'', ''sed'']"

lemma exec_safe_program:
  "is_safe_to_call_with_exec (cmd0 # args) \<Longrightarrow> \<exists>n\<in>set SAFE_PROGRAMS. file_name cmd0 = Some n"
  by (auto simp: is_safe_to_call_with_exec_def SAFE_PROGRAMS_def executable_name_lookup_key_def simp del: lit_simps
      split: option.splits if_splits)

lemma safe_programs_no_shell:
  "list_all (\<lambda>n. 46 \<notin> set n \<and> n \<notin> set (map lit [''zsh'', ''sh'', ''cmd'', ''bash'', ''pwsh'', ''powershell''])) SAFE_PROGRAMS"
  by (simp add: SAFE_PROGRAMS_def READ_ONLY_PROGRAMS_def)

lemma exec_safe_no_shell: "is_safe_to_call_with_exec (cmd0 # args) \<Longrightarrow> detect_shell_type cmd0 = None"
  using exec_safe_program [of cmd0 args] detect_other [of cmd0] safe_programs_no_shell unfolding list_all_iff by blast

definition is_shell :: "rstr list \<Rightarrow> bool" where
  "is_shell c \<longleftrightarrow> c \<noteq> [] \<and> detect_shell_type (hd c) \<in> {Some Zsh, Some Bash, Some Sh}"

lemma no_shell_no_parse: "\<not> is_shell c \<Longrightarrow> parse_shell_lc_plain_commands t c = None"
  by (auto simp: is_shell_def parse_shell_lc_plain_commands_def extract_bash_command_def simp del: lit_simps
      split: list.splits)

lemma shell_not_dangerous: "is_shell c \<Longrightarrow> \<not> is_dangerous_to_call_with_exec c"
proof (cases c)
  case (Cons cmd0 args)
  have "file_name (lit ''rm'') = Some (lit ''rm'')" "file_name (lit ''sudo'') = Some (lit ''sudo'')"
    by (simp_all add: dot_name_def dot_dot_name_def file_name_plain)
  then have "detect_shell_type (lit ''rm'') = None" "detect_shell_type (lit ''sudo'') = None"
    by (auto elim!: detect_other)
  then show "is_shell c \<Longrightarrow> \<not> is_dangerous_to_call_with_exec c"
    by (auto simp: Cons is_shell_def simp del: lit_simps split: if_splits)
qed simp

lemma windows_safe_exe: "is_safe_command_windows ast (exe # rest) \<Longrightarrow> is_powershell_executable exe"
  by (auto simp: is_safe_command_windows_def try_parse_powershell_command_sequence_def split: if_splits option.splits)

text \<open>
  The check for safety reads every word \<^verbatim>\<open>zsh\<close> as \<^verbatim>\<open>bash\<close>.  In the program that makes no
  difference to either check, and in the arguments only where such a word is the script of a shell.
\<close>

lemma dangerous_as_bash: "is_dangerous_to_call_with_exec (map zsh_as_bash raw) = is_dangerous_to_call_with_exec raw"
proof (induction raw)
  case (Cons c cs)
  have "zsh_as_bash w = lit x \<longleftrightarrow> w = lit x" if "x \<noteq> ''zsh''" "x \<noteq> ''bash''" "lit x \<noteq> lit ''bash''" "lit x \<noteq> lit ''zsh''" for w x
    using that by (auto simp: zsh_as_bash_def)
  from this [of "''rm''"] this [of "''sudo''"] this [of "''-f''"] this [of "''-rf''"] Cons show ?case
    by (cases cs) auto
qed simp

lemma is_shell_as_bash: "is_shell (map zsh_as_bash raw) = is_shell raw"
proof -
  have "detect_shell_type (lit ''zsh'') = Some Zsh" "detect_shell_type (lit ''bash'') = Some Bash"
    by (simp_all add: detect_shell_type.simps)
  then show ?thesis by (cases raw) (auto simp: is_shell_def zsh_as_bash_def simp del: lit_simps)
qed

lemma bash_parse_as_bash:
  assumes "\<And>shell flag. raw \<noteq> [shell, flag, lit ''zsh'']"
  shows "parse_shell_lc_plain_commands t (map zsh_as_bash raw) = parse_shell_lc_plain_commands t raw"
proof -
  have shells: "detect_shell_type (zsh_as_bash shell) \<in> {Some Zsh, Some Bash, Some Sh} \<longleftrightarrow>
      detect_shell_type shell \<in> {Some Zsh, Some Bash, Some Sh}" for shell
    using is_shell_as_bash [of "[shell]"] by (simp add: is_shell_def)
  have flags: "zsh_as_bash flag \<in> {lit ''-lc'', lit ''-c''} \<longleftrightarrow> flag \<in> {lit ''-lc'', lit ''-c''}" for flag
    by (simp add: zsh_as_bash_def)
  consider (three) shell flag script where "raw = [shell, flag, script]" | (other) "length raw \<noteq> 3"
    by (auto simp: numeral_3_eq_3 length_Suc_conv)
  then show ?thesis
  proof cases
    case three
    then have "zsh_as_bash script = script" using assms by (auto simp: zsh_as_bash_def)
    with three show ?thesis
      unfolding parse_shell_lc_plain_commands_def extract_bash_command_def
      by (simp only: list.map list.case flags shells split: if_split option.split) simp
  next
    case other
    then have "extract_bash_command r = None" if "length r = length raw" for r
      using that by (auto simp: extract_bash_command_def split: list.splits)
    then show ?thesis by (simp add: parse_shell_lc_plain_commands_def)
  qed
qed

text \<open>
  What is used of the shell grammar: the text of a node is a piece of the script it was parsed from.  The
  words of a script have then no characters but those of the script.
\<close>

definition node_texts_from_script :: "(rstr \<Rightarrow> ts_node option) \<Rightarrow> bool" where
  "node_texts_from_script try_parse_shell \<longleftrightarrow>
     (\<forall>script root. try_parse_shell script = Some root \<longrightarrow>
        (\<forall>n \<in> set (preorder root). \<forall>t. utf8_text n = Some t \<longrightarrow> sublist t script))"

lemma preorder_child: "c \<in> set (node_children n) \<Longrightarrow> x \<in> set (preorder c) \<Longrightarrow> x \<in> set (preorder n)"
  by (subst preorder_unfold) auto

lemma preorder_refl: "n \<in> set (preorder n)"
  by (subst preorder_unfold) simp

lemma preorder_named: "c \<in> set (named_children n) \<Longrightarrow> c \<in> set (preorder n)"
  by (auto simp: named_children_def preorder_refl intro: preorder_child)

lemma preorder_trans: "x \<in> set (preorder c) \<Longrightarrow> c \<in> set (preorder n) \<Longrightarrow> x \<in> set (preorder n)"
proof (induction n rule: preorder.induct)
  case (1 k nm e st t cs)
  from "1.prems"(2) consider "c = TsNode k nm e st t cs" | d where "d \<in> set cs" "c \<in> set (preorder d)" by auto
  then show ?case
  proof cases
    case 2
    with "1.IH" [OF 2(1) "1.prems"(1)] show ?thesis by auto
  qed (use "1.prems" in simp)
qed

lemma list_all2_left: "list_all2 P xs ys \<Longrightarrow> y \<in> set ys \<Longrightarrow> \<exists>x \<in> set xs. P x y"
  by (induction rule: list_all2_induct) auto

lemma reads_chars:
  assumes "\<And>m t. m \<in> set (preorder n) \<Longrightarrow> utf8_text m = Some t \<Longrightarrow> set t \<subseteq> A" "reads n w"
  shows "set w \<subseteq> A"
proof -
  have part: "set w \<subseteq> A" if "part_reads m w" "m \<in> set (preorder n)" for m w
    using that(1) assms(1) [OF that(2)] by cases auto
  from assms(2) show ?thesis
  proof cases
    case part
    then show ?thesis using \<open>\<And>m w. part_reads m w \<Longrightarrow> m \<in> set (preorder n) \<Longrightarrow> set w \<subseteq> A\<close> preorder_refl by blast
  next
    case (name c cs)
    then show ?thesis using assms(1) [of c w] preorder_named [of c n] by simp
  next
    case (joined ws)
    have "set x \<subseteq> A" if "x \<in> set ws" for x
      using list_all2_left [OF joined(3) that] part preorder_named by blast
    then show ?thesis using joined(1) by auto
  qed
qed

lemma script_words_chars:
  assumes "\<And>m t. m \<in> set (preorder root) \<Longrightarrow> utf8_text m = Some t \<Longrightarrow> set t \<subseteq> A"
    "try_parse_word_only_commands_sequence root = Some cmds" "c \<in> set cmds" "w \<in> set c"
  shows "set w \<subseteq> A"
proof -
  let ?ns = "sort_key start_byte (filter is_command_node (stack_order root))"
  have ns: "list_all (kind_is ''command'') ?ns" by (simp add: list_all_iff del: lit_simps)
  from assms(2) have "list_all2 (\<lambda>n ws. list_all2 reads (named_children n) ws) ?ns cmds"
    unfolding command_words_iff [OF ns, symmetric]
    by (auto simp: try_parse_word_only_commands_sequence_def word_only_walk_eq simp del: lit_simps word_only_walk.simps
        split: if_splits option.splits)
  with assms(3) obtain n where n: "n \<in> set (preorder root)" "list_all2 reads (named_children n) c"
    using list_all2_left [of _ ?ns cmds c] by (auto simp: set_stack_order)
  with assms(4) obtain m where "m \<in> set (named_children n)" "reads m w" by (blast dest: list_all2_left)
  moreover from this n have "x \<in> set (preorder root)" if "x \<in> set (preorder m)" for x
    using that preorder_named preorder_trans by blast
  ultimately show ?thesis using reads_chars assms(1) by metis
qed

lemma file_name_chars: "file_name p = Some n \<Longrightarrow> set n \<subseteq> set p"
proof -
  assume *: "file_name p = Some n"
  then have "NormalName n \<in> set (components p)"
    by (auto simp: file_name_def Let_def split: if_splits path_component.splits dest: last_in_set)
  then have "n \<in> set (split_on slash p)"
    by (auto simp: components_def Let_def body_components_def part_component_def split: if_splits)
  moreover have "n \<in> set (split_on slash p) \<Longrightarrow> set n \<subseteq> set p"
  proof (induction p arbitrary: n)
    case (Cons c p)
    then show ?case using split_on_not_Nil [of slash p]
      by (cases "split_on slash p") (auto split: if_splits, fastforce+)
  qed simp
  ultimately show ?thesis by blast
qed

lemma bash_script_not_safe:
  assumes "node_texts_from_script t" "t (lit ''bash'') = Some root" "try_parse_word_only_commands_sequence root = Some cmds"
    "c \<in> set cmds" "is_safe_to_call_with_exec c"
  shows False
proof -
  obtain w ws where c: "c = w # ws" using assms(5) by (cases c) (auto simp: is_safe_to_call_with_exec_def)
  have "set w \<subseteq> set (lit ''bash'')"
  proof (rule script_words_chars [OF _ assms(3,4)])
    fix m x
    assume "m \<in> set (preorder root)" "utf8_text m = Some x"
    with assms(1,2) have "sublist x (lit ''bash'')" by (auto simp: node_texts_from_script_def simp del: lit_simps)
    then show "set x \<subseteq> set (lit ''bash'')" by (rule set_mono_sublist)
  qed (simp add: c)
  moreover obtain n where n: "n \<in> set SAFE_PROGRAMS" "file_name w = Some n"
    using exec_safe_program assms(5) c by blast
  ultimately have "set n \<subseteq> set (lit ''bash'')" using file_name_chars by blast
  moreover have "list_all (\<lambda>n. \<not> set n \<subseteq> set (lit ''bash'')) SAFE_PROGRAMS"
    by (simp add: SAFE_PROGRAMS_def READ_ONLY_PROGRAMS_def)
  ultimately show False using n(1) by (auto simp: list_all_iff)
qed

text \<open>
  (C24) No command is both known to be safe and possibly dangerous, whatever trees the shell parser gives
  for scripts, as long as their nodes carry pieces of the script, and whatever the PowerShell parser answers.
\<close>
theorem safe_not_dangerous:
  assumes "is_known_safe_command ps command" "node_texts_from_script (bash_tree ps)"
  shows "\<not> command_might_be_dangerous (bash_tree ps) command"
proof -
  let ?command = "map zsh_as_bash command"
  let ?t = "bash_tree ps"
  have no_shell: ?thesis if "\<not> is_shell command" "\<not> is_dangerous_to_call_with_exec command"
    using that no_shell_no_parse [of command] by (simp add: command_might_be_dangerous_def)
  consider (windows) "is_safe_command_windows (powershell_ast ps) ?command"
    | (exec) "is_safe_to_call_with_exec ?command"
    | (script) cmds where "parse_shell_lc_plain_commands ?t ?command = Some cmds" "cmds \<noteq> []"
        "list_all is_safe_to_call_with_exec cmds"
    using assms(1) by (auto simp: is_known_safe_command_def Let_def split: if_splits option.splits)
  then show ?thesis
  proof cases
    case windows
    then obtain exe rest where c: "?command = exe # rest" "is_powershell_executable exe"
      using windows_safe_exe [of "powershell_ast ps" "hd ?command" "tl ?command"]
      by (cases command) (simp_all add: is_safe_command_windows_def [of _ "[]"] try_parse_powershell_command_sequence_def)
    from powershell_not_bash [OF c(2)] have "\<not> is_shell ?command" "\<not> is_dangerous_to_call_with_exec ?command"
      by (auto simp: c(1) is_shell_def simp del: lit_simps)
    then show ?thesis using no_shell by (simp add: is_shell_as_bash dangerous_as_bash)
  next
    case exec
    then have "\<not> is_shell ?command"
      using exec_safe_no_shell [of "hd ?command" "tl ?command"]
      by (cases "?command = []") (auto simp: is_shell_def simp del: lit_simps)
    with exec_safe_not_dangerous [OF exec] show ?thesis using no_shell by (simp add: is_shell_as_bash dangerous_as_bash)
  next
    case script
    then have shell: "is_shell ?command" using no_shell_no_parse [of ?command ?t] by auto
    have "command \<noteq> [shell, flag, lit ''zsh'']" for shell flag
    proof
      assume "command = [shell, flag, lit ''zsh'']"
      then have "\<exists>root. ?t (lit ''bash'') = Some root \<and> try_parse_word_only_commands_sequence root = Some cmds"
        using script(1) by (auto simp: parse_shell_lc_plain_commands_def extract_bash_command_def zsh_as_bash_def
            simp del: lit_simps split: if_splits option.splits)
      with script(2,3) bash_script_not_safe [OF assms(2), of _ cmds "hd cmds"] show False by (cases cmds) auto
    qed
    from bash_parse_as_bash [OF this] script(1,3) shell exec_safe_not_dangerous shell_not_dangerous show ?thesis
      by (auto simp: command_might_be_dangerous_def is_shell_as_bash list_all_iff list_ex_iff)
  qed
qed

definition no_powershell :: "rstr \<Rightarrow> rstr \<Rightarrow> powershell_parse_outcome" where
  "no_powershell executable script = Failed"

definition sample_text :: rstr where
  "sample_text = lit ''ls && git '' @ [39] @ lit ''log'' @ [39]"

definition sample_parsers :: command_parsers where
  "sample_parsers =
     \<lparr>bash_tree = (\<lambda>script. if script = sample_text then Some sample_script else None), powershell_ast = no_powershell\<rparr>"

lemma file_name_lit:
  "file_name (lit ''ls'') = Some (lit ''ls'')" "file_name (lit ''git'') = Some (lit ''git'')"
  "file_name (lit ''bash'') = Some (lit ''bash'')" "file_name (lit ''rg'') = Some (lit ''rg'')"
  by (simp_all add: file_name_plain dot_name_def dot_dot_name_def)

lemma sample_parse:
  "parse_shell_lc_plain_commands (bash_tree sample_parsers) [lit ''zsh'', lit ''-lc'', sample_text] =
   Some [[lit ''ls''], [lit ''git'', lit ''log'']]"
  by (simp add: parse_shell_lc_plain_commands_def extract_bash_command_def detect_shell_type.simps sample_parsers_def
      try_parse_word_only_commands_sequence_def sample_script_def command_node_def word_node_def node_rejected_def
      ALLOWED_KINDS_def ALLOWED_PUNCT_TOKENS_def parse_plain_command_from_node_def named_children_def named_child_def
      plain_word_def parse_raw_string_def strip_quotes_def)

lemma sample_commands_safe: "is_safe_to_call_with_exec [lit ''ls'']" "is_safe_to_call_with_exec [lit ''git'', lit ''log'']"
  using file_name_lit
  by (simp_all add: is_safe_to_call_with_exec_def executable_name_lookup_key_def READ_ONLY_PROGRAMS_def is_safe_git_command_def
      find_git_subcommand_def is_git_global_option_with_inline_value_def is_git_global_option_with_value_def starts_with_def
      git_has_unsafe_global_option_def git_subcommand_args_are_read_only_def)

theorem safe_not_dangerous_witness:
  "\<not> command_might_be_dangerous (bash_tree sample_parsers) [lit ''zsh'', lit ''-lc'', sample_text]"
proof (rule safe_not_dangerous)
  let ?c = "[lit ''zsh'', lit ''-lc'', sample_text]"
  show "node_texts_from_script (bash_tree sample_parsers)"
    by (auto simp: node_texts_from_script_def sample_parsers_def sample_script_def command_node_def word_node_def
        sample_text_def sublist_code split: if_splits)
  have not_zsh: "?c \<noteq> [shell, flag, lit ''zsh'']" for shell flag by (simp add: sample_text_def)
  have "parse_shell_lc_plain_commands (bash_tree sample_parsers) (map zsh_as_bash ?c) = Some [[lit ''ls''], [lit ''git'', lit ''log'']]"
    using bash_parse_as_bash [OF not_zsh] sample_parse by (simp del: lit_simps list.map)
  then show "is_known_safe_command sample_parsers ?c"
    using sample_commands_safe by (simp add: is_known_safe_command_def Let_def del: lit_simps list.map)
qed

section \<open>Arguments of sed\<close>

text \<open>The documented pattern: digits, or digits, a comma and digits, and a final \<^verbatim>\<open>p\<close>.\<close>

lemma two_parts:
  "split_on d r = [x, y] \<longleftrightarrow> r = x @ d # y \<and> d \<notin> set x \<and> d \<notin> set y"
  using split_on_join_inverse [of d r] split_on_parts [of _ d r] by (auto simp: split_on_append_sep split_on_no_sep)

lemma one_part: "split_on d r = [x] \<longleftrightarrow> r = x \<and> d \<notin> set x"
  using split_on_join_inverse [of d r] split_on_parts [of x d r] by (auto simp: split_on_no_sep)

lemma sed_arg_iff:
  "is_valid_sed_n_arg (Some s) \<longleftrightarrow>
     (\<exists>a. a \<noteq> [] \<and> list_all is_ascii_digit a \<and>
        (s = a @ lit ''p'' \<or> (\<exists>b. b \<noteq> [] \<and> list_all is_ascii_digit b \<and> s = b @ lit '','' @ a @ lit ''p'')))"
proof -
  have digits: "44 \<notin> set a" if "list_all is_ascii_digit a" for a
    using that by (auto simp: list_all_iff is_ascii_digit_def)
  have inner: "(case split_on 44 r of [num] \<Rightarrow> num \<noteq> [] \<and> list_all is_ascii_digit num
       | [a, b] \<Rightarrow> a \<noteq> [] \<and> b \<noteq> [] \<and> list_all is_ascii_digit a \<and> list_all is_ascii_digit b | _ \<Rightarrow> False) \<longleftrightarrow>
     (\<exists>a. a \<noteq> [] \<and> list_all is_ascii_digit a \<and>
        (r = a \<or> (\<exists>b. b \<noteq> [] \<and> list_all is_ascii_digit b \<and> r = b @ 44 # a)))" (is "?L r \<longleftrightarrow> ?R r") for r
  proof
    assume "?L r"
    then consider (1) x where "split_on 44 r = [x]" "x \<noteq> []" "list_all is_ascii_digit x"
      | (2) x y where "split_on 44 r = [x, y]" "x \<noteq> []" "y \<noteq> []" "list_all is_ascii_digit x" "list_all is_ascii_digit y"
      by (auto split: list.splits)
    then show "?R r" by cases (auto simp: one_part two_parts)
  next
    assume "?R r"
    then show "?L r" using digits by (auto simp: split_on_append_sep split_on_no_sep)
  qed
  show ?thesis
  proof (cases s rule: rev_cases)
    case (snoc r c)
    then show ?thesis using inner [of r] by (auto simp: is_valid_sed_n_arg_def)
  qed (simp add: is_valid_sed_n_arg_def)
qed

section \<open>Limits\<close>

text \<open>
  The check of ripgrep options compares whole arguments, so the flag \<^verbatim>\<open>-z\<close>, which is refused on its
  own because it runs decompression programs, is accepted when it is joined with another short flag.
\<close>

lemma joined_short_flags_pass:
  "is_safe_to_call_with_exec [lit ''rg'', lit ''-nz'', lit ''x''] \<and> \<not> is_safe_to_call_with_exec [lit ''rg'', lit ''-z'', lit ''x'']"
  using file_name_lit
  by (simp add: is_safe_to_call_with_exec_def executable_name_lookup_key_def READ_ONLY_PROGRAMS_def unsafe_ripgrep_arg_def starts_with_def)

text \<open>
  The PowerShell check asks the executable the command names, recognised by its file name alone: for
  \<^verbatim>\<open>./pwsh\<close> the answer of that program, run before any approval, decides.
\<close>

lemma named_powershell_is_asked:
  "is_safe_command_windows ast [lit ''./pwsh'', lit ''-c'', script] =
     (case ast (lit ''./pwsh'') script of Commands cs \<Rightarrow> list_all is_safe_powershell_words cs | _ \<Rightarrow> False)"
proof -
  have "file_name (lit ''./pwsh'') = Some (lit ''pwsh'')"
    by (simp add: file_name_def components_def is_absolute_def body_components_def trivial_part_def dot_name_def
        dot_dot_name_def part_component_def)
  then show ?thesis
    by (simp add: is_safe_command_windows_def try_parse_powershell_command_sequence_def is_powershell_executable_def
        parse_powershell_invocation_def parse_powershell_script_def to_ascii_lowercase_def split: powershell_parse_outcome.split)
qed

end
