(* ===== verification/Policy_Parser.thy ===== *)
theory Policy_Parser
  imports Exec_Policy
begin

text \<open>
  Building and amending policies (\<^verbatim>\<open>execpolicy/src/parser.rs\<close>, the example validation of
  \<^verbatim>\<open>rule.rs\<close> and \<^verbatim>\<open>amend.rs\<close>).

  A policy file is a Starlark program; the interpreter is a third-party crate.  What it does with
  a file is a parameter of \<open>parser_parse\<close>, a \<open>script\<close>: an error before anything runs, or the calls of
  the three built-in functions it makes, in order, and the error that ends the evaluation, if any.
  Starlark has no exception handling, so the first built-in call that fails ends the evaluation.
  The built-ins change the policy builder; what they add stays there when a later call fails.
  Splitting and joining of shell words, the debug texts of rules and the text of a wrapped error come
  from other crates and are fields of \<open>parser_env\<close>.

  The lemmas show that every policy a parser builds is well formed and that the examples written
  beside the rules hold for it, and that amending a policy file adds one line and loses nothing.
\<close>

section \<open>Values and patterns\<close>

datatype starlark_value = StrValue rstr | ListValue "starlark_value list" | OtherValue rstr

fun unpack_str :: "starlark_value \<Rightarrow> rstr option" where
  "unpack_str (StrValue s) = Some s"
| "unpack_str _ = None"

fun get_type :: "starlark_value \<Rightarrow> rstr" where
  "get_type (StrValue _) = lit ''string''"
| "get_type (ListValue _) = lit ''list''"
| "get_type (OtherValue t) = t"

text \<open>\<^verbatim>\<open>collect::<Result<_>>()\<close>: the first error ends it.\<close>

fun collect :: "('a \<Rightarrow> ('e, 'b) outcome) \<Rightarrow> 'a list \<Rightarrow> ('e, 'b list) outcome" where
  "collect f [] = Ok []"
| "collect f (x # xs) = and_then (f x) (\<lambda>y. and_then (collect f xs) (\<lambda>ys. Ok (y # ys)))"

definition string_item :: "(rstr \<Rightarrow> policy_error) \<Rightarrow> string \<Rightarrow> starlark_value \<Rightarrow> (policy_error, rstr) outcome" where
  "string_item err what v =
     (case unpack_str v of
        Some s \<Rightarrow> Ok s
      | None \<Rightarrow> Err (err (lit what @ lit '' (got '' @ get_type v @ lit '')'')))"

fun parse_pattern_token :: "starlark_value \<Rightarrow> (policy_error, pattern_token) outcome" where
  "parse_pattern_token (StrValue s) = Ok (SingleToken s)"
| "parse_pattern_token (ListValue vs) =
     and_then (collect (string_item InvalidPattern ''pattern alternative must be a string'') vs) (\<lambda>tokens.
       case tokens of
         [] \<Rightarrow> Err (InvalidPattern (lit ''pattern alternatives cannot be empty''))
       | [single] \<Rightarrow> Ok (SingleToken single)
       | _ \<Rightarrow> Ok (Alts tokens))"
| "parse_pattern_token (OtherValue t) =
     Err (InvalidPattern (lit ''pattern element must be a string or list of strings (got '' @ t @ lit '')''))"

definition parse_pattern :: "starlark_value list \<Rightarrow> (policy_error, pattern_token list) outcome" where
  "parse_pattern items =
     and_then (collect parse_pattern_token items) (\<lambda>tokens.
       if tokens = [] then Err (InvalidPattern (lit ''pattern cannot be empty'')) else Ok tokens)"

record parser_env =
  parser_host :: host_env
  shlex_split :: "rstr \<Rightarrow> rstr list option"
  shlex_join :: "rstr list \<Rightarrow> rstr option"
  debug_rule :: "prefix_rule \<Rightarrow> rstr"
  debug_match :: "rule_match \<Rightarrow> rstr"
  wrap_error :: "policy_error \<Rightarrow> rstr \<times> error_location option"

definition parse_string_example :: "parser_env \<Rightarrow> rstr \<Rightarrow> (policy_error, rstr list) outcome" where
  "parse_string_example env raw =
     (case shlex_split env raw of
        None \<Rightarrow> Err (InvalidExample (lit ''example string has invalid shell syntax''))
      | Some tokens \<Rightarrow>
          if tokens = [] then Err (InvalidExample (lit ''example cannot be an empty string'')) else Ok tokens)"

definition parse_list_example :: "starlark_value list \<Rightarrow> (policy_error, rstr list) outcome" where
  "parse_list_example vs =
     and_then (collect (string_item InvalidExample ''example tokens must be strings'') vs) (\<lambda>tokens.
       if tokens = [] then Err (InvalidExample (lit ''example cannot be an empty list'')) else Ok tokens)"

fun parse_example :: "parser_env \<Rightarrow> starlark_value \<Rightarrow> (policy_error, rstr list) outcome" where
  "parse_example env (StrValue raw) = parse_string_example env raw"
| "parse_example env (ListValue vs) = parse_list_example vs"
| "parse_example env (OtherValue t) =
     Err (InvalidExample (lit ''example must be a string or list of strings (got '' @ t @ lit '')''))"

definition parse_examples :: "parser_env \<Rightarrow> starlark_value list \<Rightarrow> (policy_error, rstr list list) outcome" where
  "parse_examples env items = collect (parse_example env) items"

definition parse_optional_examples ::
  "parser_env \<Rightarrow> starlark_value list option \<Rightarrow> (policy_error, rstr list list) outcome" where
  "parse_optional_examples env items = (case items of Some vs \<Rightarrow> parse_examples env vs | None \<Rightarrow> Ok [])"

definition parse_literal_absolute_path :: "parser_env \<Rightarrow> rstr \<Rightarrow> (policy_error, rstr) outcome" where
  "parse_literal_absolute_path env raw =
     (if \<not> is_absolute raw
      then Err (InvalidRule (lit ''host_executable paths must be absolute (got '' @ raw @ lit '')''))
      else case from_absolute_path (home_dir (parser_host env)) (current_dir (parser_host env)) raw of
             Inr p \<Rightarrow> Ok p
           | Inl e \<Rightarrow> Err (InvalidRule (lit ''invalid absolute path `'' @ raw @ lit ''`: '' @ e)))"

definition validate_host_executable_name :: "rstr \<Rightarrow> (policy_error, unit) outcome" where
  "validate_host_executable_name name =
     (if name = [] then Err (InvalidRule (lit ''host_executable name cannot be empty''))
      else if length (components name) \<noteq> 1 \<or> file_name name \<noteq> Some name
      then Err (InvalidRule (lit ''host_executable name must be a bare executable name (got '' @ name @ lit '')''))
      else Ok ())"

definition parse_network_rule_decision :: "rstr \<Rightarrow> (policy_error, decision) outcome" where
  "parse_network_rule_decision raw = (if raw = lit ''deny'' then Ok Forbidden else decision_parse raw)"

section \<open>The policy builder\<close>

record pending_example_validation =
  pend_rules :: "prefix_rule list"
  pend_matches :: "rstr list list"
  pend_not_matches :: "rstr list list"
  pend_location :: "error_location option"

record 'm policy_builder =
  pb_rules :: 'm
  pb_network :: "network_rule list"
  pb_hosts :: "rstr \<Rightarrow> rstr list option"
  pb_pending :: "pending_example_validation list"

definition builder_new :: "'m multimap \<Rightarrow> 'm policy_builder" where
  "builder_new mm = \<lparr>pb_rules = mm_new mm, pb_network = [], pb_hosts = (\<lambda>_. None), pb_pending = []\<rparr>"

definition add_rule :: "'m multimap \<Rightarrow> 'm policy_builder \<Rightarrow> prefix_rule \<Rightarrow> 'm policy_builder" where
  "add_rule mm b rule = b\<lparr>pb_rules := mm_insert mm (pb_rules b) (rule_program rule) rule\<rparr>"

definition builder_add_network_rule :: "'m policy_builder \<Rightarrow> network_rule \<Rightarrow> 'm policy_builder" where
  "builder_add_network_rule b rule = b\<lparr>pb_network := pb_network b @ [rule]\<rparr>"

definition add_host_executable :: "'m policy_builder \<Rightarrow> rstr \<Rightarrow> rstr list \<Rightarrow> 'm policy_builder" where
  "add_host_executable b name paths = b\<lparr>pb_hosts := (pb_hosts b)(name := Some paths)\<rparr>"

definition add_pending_example_validation ::
  "'m policy_builder \<Rightarrow> pending_example_validation \<Rightarrow> 'm policy_builder" where
  "add_pending_example_validation b v = b\<lparr>pb_pending := pb_pending b @ [v]\<rparr>"

definition build :: "'m policy_builder \<Rightarrow> 'm policy" where
  "build b = \<lparr>rules_by_program = pb_rules b, network_rules = pb_network b, host_executables_by_name = pb_hosts b\<rparr>"

section \<open>Validation of examples\<close>

definition resolving :: match_options where
  "resolving = \<lparr>resolve_host_executables = True\<rparr>"

definition render_example :: "parser_env \<Rightarrow> rstr list \<Rightarrow> rstr" where
  "render_example env example = unwrap_or (lit ''unable to render example'') (shlex_join env example)"

definition validate_match_examples ::
  "'m multimap \<Rightarrow> parser_env \<Rightarrow> 'm policy \<Rightarrow> prefix_rule list \<Rightarrow> rstr list list \<Rightarrow> (policy_error, unit) outcome" where
  "validate_match_examples mm env p rules examples =
     (let unmatched_examples = map (render_example env) (filter (\<lambda>example.
            matches_for_command_with_options mm (parser_host env) p example None resolving = []) examples)
      in if unmatched_examples = [] then Ok ()
         else Err (ExampleDidNotMatch (map (debug_rule env) rules) unmatched_examples None))"

fun validate_not_match_examples ::
  "'m multimap \<Rightarrow> parser_env \<Rightarrow> 'm policy \<Rightarrow> rstr list list \<Rightarrow> (policy_error, unit) outcome" where
  "validate_not_match_examples mm env p [] = Ok ()"
| "validate_not_match_examples mm env p (example # examples) =
     (case matches_for_command_with_options mm (parser_host env) p example None resolving of
        rule # _ \<Rightarrow> Err (ExampleDidMatch (debug_match env rule) (render_example env example) None)
      | [] \<Rightarrow> validate_not_match_examples mm env p examples)"

definition attach_validation_location :: "policy_error \<Rightarrow> error_location option \<Rightarrow> policy_error" where
  "attach_validation_location err location =
     (case location of Some loc \<Rightarrow> with_location err loc | None \<Rightarrow> err)"

definition validation_policy :: "'m multimap \<Rightarrow> 'm policy_builder \<Rightarrow> pending_example_validation \<Rightarrow> 'm policy" where
  "validation_policy mm b v =
     \<lparr>rules_by_program = foldl (\<lambda>m rule. mm_insert mm m (rule_program rule) rule) (mm_new mm) (pend_rules v),
      network_rules = [], host_executables_by_name = pb_hosts b\<rparr>"

definition validate_pending ::
  "'m multimap \<Rightarrow> parser_env \<Rightarrow> 'm policy_builder \<Rightarrow> pending_example_validation \<Rightarrow> (policy_error, unit) outcome" where
  "validate_pending mm env b v =
     map_err (\<lambda>err. attach_validation_location err (pend_location v))
       (and_then (validate_not_match_examples mm env (validation_policy mm b v) (pend_not_matches v)) (\<lambda>_.
          validate_match_examples mm env (validation_policy mm b v) (pend_rules v) (pend_matches v)))"

definition validate_pending_examples_from ::
  "'m multimap \<Rightarrow> parser_env \<Rightarrow> 'm policy_builder \<Rightarrow> nat \<Rightarrow> (policy_error, unit) outcome" where
  "validate_pending_examples_from mm env b start =
     and_then (slice_from start (pb_pending b)) (\<lambda>vs.
       and_then (collect (validate_pending mm env b) vs) (\<lambda>_. Ok ()))"

section \<open>The built-in functions\<close>

datatype policy_call =
    PrefixRuleCall "starlark_value list" "rstr option" "starlark_value list option" "starlark_value list option"
      "rstr option" "error_location option"
  | NetworkRuleCall rstr rstr rstr "rstr option"
  | HostExecutableCall rstr "starlark_value list"

definition install_rules ::
  "'m multimap \<Rightarrow> 'm policy_builder \<Rightarrow> pending_example_validation \<Rightarrow> 'm policy_builder" where
  "install_rules mm b v = foldl (add_rule mm) (add_pending_example_validation b v) (pend_rules v)"

fun prefix_rules ::
  "pattern_token list \<Rightarrow> decision \<Rightarrow> rstr option \<Rightarrow> (policy_error, prefix_rule list) outcome" where
  "prefix_rules [] decision justification = Err (InvalidPattern (lit ''pattern cannot be empty''))"
| "prefix_rules (first_token # remaining_tokens) decision justification =
     Ok (map (\<lambda>head. \<lparr>rule_pattern = \<lparr>pattern_first = head, pattern_rest = remaining_tokens\<rparr>,
       rule_decision = decision, rule_justification = justification\<rparr>) (token_alternatives first_token))"

definition prefix_rule_call ::
  "'m multimap \<Rightarrow> parser_env \<Rightarrow> 'm policy_builder \<Rightarrow> starlark_value list \<Rightarrow> rstr option \<Rightarrow>
   starlark_value list option \<Rightarrow> starlark_value list option \<Rightarrow> rstr option \<Rightarrow> error_location option \<Rightarrow>
   (policy_error, 'm policy_builder) outcome" where
  "prefix_rule_call mm env b pattern decision match_examples not_match justification location =
     and_then (case decision of Some raw \<Rightarrow> decision_parse raw | None \<Rightarrow> Ok Allow) (\<lambda>decision.
     if blank_justification justification then Err empty_justification
     else and_then (parse_pattern pattern) (\<lambda>pattern_tokens.
     and_then (parse_optional_examples env match_examples) (\<lambda>matches.
     and_then (parse_optional_examples env not_match) (\<lambda>not_matches.
     and_then (prefix_rules pattern_tokens decision justification) (\<lambda>rules.
       Ok (install_rules mm b
         \<lparr>pend_rules = rules, pend_matches = matches, pend_not_matches = not_matches,
          pend_location = location\<rparr>))))))"

definition network_rule_call ::
  "'m policy_builder \<Rightarrow> rstr \<Rightarrow> rstr \<Rightarrow> rstr \<Rightarrow> rstr option \<Rightarrow> (policy_error, 'm policy_builder) outcome" where
  "network_rule_call b host protocol decision justification =
     and_then (protocol_parse protocol) (\<lambda>protocol.
     and_then (parse_network_rule_decision decision) (\<lambda>decision.
     if blank_justification justification then Err empty_justification
     else and_then (normalize_network_rule_host host) (\<lambda>host.
       Ok (builder_add_network_rule b
         \<lparr>net_host = host, net_protocol = protocol, net_decision = decision, net_justification = justification\<rparr>))))"

definition basename_error :: "rstr \<Rightarrow> rstr \<Rightarrow> policy_error" where
  "basename_error raw name =
     InvalidRule (lit ''host_executable path `'' @ raw @ lit ''` must have basename `'' @ name @ lit ''`'')"

fun parse_host_paths ::
  "parser_env \<Rightarrow> rstr \<Rightarrow> rstr list \<Rightarrow> starlark_value list \<Rightarrow> (policy_error, rstr list) outcome" where
  "parse_host_paths env name parsed_paths [] = Ok parsed_paths"
| "parse_host_paths env name parsed_paths (v # vs) =
     and_then (string_item InvalidRule ''host_executable paths must be strings'' v) (\<lambda>raw.
     and_then (parse_literal_absolute_path env raw) (\<lambda>path.
     case executable_path_lookup_key path of
       None \<Rightarrow> Err (basename_error raw name)
     | Some path_name \<Rightarrow>
         if path_name \<noteq> executable_lookup_key name then Err (basename_error raw name)
         else parse_host_paths env name
           (if list_ex (\<lambda>existing. existing = path) parsed_paths then parsed_paths else parsed_paths @ [path]) vs))"

definition host_executable_call ::
  "parser_env \<Rightarrow> 'm policy_builder \<Rightarrow> rstr \<Rightarrow> starlark_value list \<Rightarrow> (policy_error, 'm policy_builder) outcome" where
  "host_executable_call env b name paths =
     and_then (validate_host_executable_name name) (\<lambda>_.
     and_then (parse_host_paths env name [] paths) (\<lambda>parsed_paths.
       Ok (add_host_executable b (executable_lookup_key name) parsed_paths)))"

fun run_call ::
  "'m multimap \<Rightarrow> parser_env \<Rightarrow> 'm policy_builder \<Rightarrow> policy_call \<Rightarrow> (policy_error, 'm policy_builder) outcome" where
  "run_call mm env b (PrefixRuleCall pattern decision match_examples not_match justification location) =
     prefix_rule_call mm env b pattern decision match_examples not_match justification location"
| "run_call mm env b (NetworkRuleCall host protocol decision justification) =
     network_rule_call b host protocol decision justification"
| "run_call mm env b (HostExecutableCall name paths) = host_executable_call env b name paths"

section \<open>Parsing a policy file\<close>

type_synonym script = "policy_error + policy_call list \<times> policy_error option"

definition wrapped :: "parser_env \<Rightarrow> policy_error \<Rightarrow> policy_error" where
  "wrapped env e = Starlark (fst (wrap_error env e)) (snd (wrap_error env e))"

fun eval_module ::
  "'m multimap \<Rightarrow> parser_env \<Rightarrow> 'm policy_builder \<Rightarrow> policy_call list \<Rightarrow> policy_error option \<Rightarrow>
   (policy_error, unit) outcome \<times> 'm policy_builder" where
  "eval_module mm env b [] ending = ((case ending of None \<Rightarrow> Ok () | Some e \<Rightarrow> Err e), b)"
| "eval_module mm env b (c # cs) ending =
     (case run_call mm env b c of
        Ok b' \<Rightarrow> eval_module mm env b' cs ending
      | Err e \<Rightarrow> (Err (wrapped env e), b)
      | Panic \<Rightarrow> (Panic, b))"

definition parser_parse ::
  "'m multimap \<Rightarrow> parser_env \<Rightarrow> 'm policy_builder \<Rightarrow> script \<Rightarrow> (policy_error, unit) outcome \<times> 'm policy_builder" where
  "parser_parse mm env b script =
     (let pending_validation_count = length (pb_pending b) in
      case script of
        Inl e \<Rightarrow> (Err e, b)
      | Inr (calls, ending) \<Rightarrow>
          (let (result, b') = eval_module mm env b calls ending in
           (and_then result (\<lambda>_. validate_pending_examples_from mm env b' pending_validation_count), b')))"

section \<open>Well-formed policies\<close>

definition canonical_host :: "rstr \<Rightarrow> bool" where
  "canonical_host h \<longleftrightarrow>
     h \<noteq> [] \<and> (\<forall>c \<in> set h. \<not> is_whitespace c \<and> \<not> (65 \<le> c \<and> c \<le> 90) \<and>
       c \<notin> {ch CHR ''*'', ch CHR ''/'', ch CHR ''?'', ch CHR ''#''})"

lemma set_trim: "set (trim s) \<subseteq> set s"
  by (auto simp: trim_def trim_end_def trim_start_def dest!: set_dropWhileD)

lemma set_trim_end_matches: "set (trim_end_matches c s) \<subseteq> set s"
  by (auto simp: trim_end_matches_def dest!: set_dropWhileD)

lemma strip_host_port_subset: "strip_host_port raw host = Ok h \<Longrightarrow> set h \<subseteq> set host"
  by (auto simp: strip_host_port_def rsplit_once_def strip_prefix_Some_iff Let_def
      dest!: split_once_SomeD split: option.splits if_splits prod.splits)
    (metis Un_iff insertCI set_append set_rev list.simps(15))

lemma strip_host_port_no_panic: "strip_host_port raw host \<noteq> Panic"
  by (auto simp: strip_host_port_def Let_def split: option.splits prod.splits)

lemma normalize_host_canonical:
  assumes "normalize_network_rule_host raw = Ok h"
  shows "canonical_host h"
proof -
  from assms obtain host where
    bad: "ch CHR ''/'' \<notin> set (trim raw)" "ch CHR ''?'' \<notin> set (trim raw)" "ch CHR ''#'' \<notin> set (trim raw)"
    and host: "strip_host_port raw (trim raw) = Ok host"
    and h: "h = to_ascii_lowercase (trim (trim_end_matches (ch CHR ''.'') host))"
    and ok: "h \<noteq> []" "ch CHR ''*'' \<notin> set h" "\<not> list_ex is_whitespace h"
    by (auto simp: normalize_network_rule_host_def Let_def outcome_simps split: if_splits)
  have "set (trim (trim_end_matches (ch CHR ''.'') host)) \<subseteq> set (trim raw)"
    using set_trim set_trim_end_matches strip_host_port_subset [OF host] by blast
  then have "\<not> (65 \<le> c \<and> c \<le> 90) \<and> c \<noteq> 47 \<and> c \<noteq> 63 \<and> c \<noteq> 35" if "c \<in> set h" for c
    using that bad by (auto simp: h to_ascii_lowercase_def split: if_splits)
  with ok show ?thesis by (auto simp: canonical_host_def list_ex_iff)
qed

lemma normalize_host_no_panic: "normalize_network_rule_host raw \<noteq> Panic"
  by (auto simp: normalize_network_rule_host_def Let_def outcome_simps strip_host_port_no_panic split: if_splits)

definition policy_wf :: "'m multimap \<Rightarrow> 'm policy \<Rightarrow> bool" where
  "policy_wf mm p \<longleftrightarrow>
     filed mm (rules_by_program p) \<and>
     (\<forall>r \<in> set (network_rules p). canonical_host (net_host r)) \<and>
     (\<forall>name paths. host_executables_by_name p name = Some paths \<longrightarrow>
        distinct paths \<and> (\<forall>q \<in> set paths. normal_path q \<and> file_name q = Some name))"

definition builder_inv :: "'m multimap \<Rightarrow> 'm policy_builder \<Rightarrow> bool" where
  "builder_inv mm b \<longleftrightarrow>
     policy_wf mm (build b) \<and>
     (\<forall>v \<in> set (pb_pending b). \<forall>r \<in> set (pend_rules v). r \<in> set (rules_for mm (pb_rules b) (rule_program r)))"

lemma builder_inv_new: "lawful_multimap mm \<Longrightarrow> builder_inv mm (builder_new mm)"
  by (simp add: builder_inv_def policy_wf_def build_def builder_new_def filed_new)

lemma rules_for_fold_insert:
  assumes "lawful_multimap mm"
  shows "rules_for mm (foldl (\<lambda>m r. mm_insert mm m (rule_program r) r) m rs) k =
    rules_for mm m k @ filter (\<lambda>r. rule_program r = k) rs"
  by (induction rs arbitrary: m) (simp_all add: rules_for_insert [OF assms])

lemma foldl_add_rule:
  "foldl (add_rule mm) b rs = b\<lparr>pb_rules := foldl (\<lambda>m r. mm_insert mm m (rule_program r) r) (pb_rules b) rs\<rparr>"
  by (induction rs arbitrary: b) (simp_all add: add_rule_def)

lemma builder_inv_install_rules:
  assumes "lawful_multimap mm" "builder_inv mm b"
  shows "builder_inv mm (install_rules mm b v)"
proof -
  have "rules_for mm (foldl (\<lambda>m r. mm_insert mm m (rule_program r) r) (pb_rules b) rs) k =
      rules_for mm (pb_rules b) k @ filter (\<lambda>r. rule_program r = k) rs" for k rs
    by (rule rules_for_fold_insert [OF assms(1)])
  then show ?thesis
    using assms(2)
    by (auto simp: builder_inv_def policy_wf_def build_def install_rules_def foldl_add_rule
        add_pending_example_validation_def filed_def)
qed

lemma prefix_rule_call_Ok:
  assumes "prefix_rule_call mm env b pattern decision ms nms j loc = Ok b'"
  obtains v where "b' = install_rules mm b v"
  using assms by (auto simp: prefix_rule_call_def outcome_simps split: if_splits)

lemma parse_host_paths_Ok:
  assumes "parse_host_paths env name acc vs = Ok paths"
    "distinct acc" "\<forall>q \<in> set acc. normal_path q \<and> file_name q = Some name"
  shows "distinct paths \<and> (\<forall>q \<in> set paths. normal_path q \<and> file_name q = Some name)"
  using assms
proof (induction env name acc vs rule: parse_host_paths.induct)
  case (2 env name acc v vs)
  from 2(2) obtain raw path where raw: "string_item InvalidRule ''host_executable paths must be strings'' v = Ok raw"
    and path: "parse_literal_absolute_path env raw = Ok path"
    and name: "executable_path_lookup_key path = Some (executable_lookup_key name)"
    and rest: "parse_host_paths env name (if list_ex (\<lambda>e. e = path) acc then acc else acc @ [path]) vs = Ok paths"
    by (auto simp: outcome_simps split: option.splits if_splits)
  from path have abs: "is_absolute raw" and n: "path = normalize_path raw"
    by (auto simp: parse_literal_absolute_path_def from_absolute_path_def absolutize_def absolute_no_home
        split: if_splits sum.splits)
  have "normal_path path" using names_normalize [OF abs] n by simp
  moreover have "file_name path = Some name"
    using name by (auto simp: executable_path_lookup_key_def executable_lookup_key_def)
  ultimately show ?case
    by (intro 2(1) [OF raw path name _ rest]) (use 2(3,4) in \<open>simp_all add: list_ex_iff\<close>)
qed simp

lemma run_call_inv:
  assumes "lawful_multimap mm" "builder_inv mm b" "run_call mm env b c = Ok b'"
  shows "builder_inv mm b' \<and> prefix (pb_pending b) (pb_pending b')"
proof (cases c)
  case (PrefixRuleCall pattern decision ms nms j loc)
  with assms(3) obtain v where "b' = install_rules mm b v" by (auto elim: prefix_rule_call_Ok)
  then show ?thesis
    using builder_inv_install_rules [OF assms(1,2), of v]
    by (simp add: install_rules_def foldl_add_rule) (simp add: add_pending_example_validation_def)
next
  case (NetworkRuleCall host protocol decision j)
  with assms(3) obtain h pr d where h: "canonical_host h"
    and b': "b' = builder_add_network_rule b \<lparr>net_host = h, net_protocol = pr, net_decision = d, net_justification = j\<rparr>"
    by (auto simp: network_rule_call_def outcome_simps dest!: normalize_host_canonical split: if_splits)
  show ?thesis unfolding b' using h
    using assms(2) by (auto simp: builder_add_network_rule_def builder_inv_def policy_wf_def build_def)
next
  case (HostExecutableCall name paths)
  with assms(3) obtain parsed where p: "parse_host_paths env name [] paths = Ok parsed"
    and b': "b' = add_host_executable b name parsed"
    by (auto simp: host_executable_call_def outcome_simps executable_lookup_key_def)
  have "distinct parsed \<and> (\<forall>q \<in> set parsed. normal_path q \<and> file_name q = Some name)"
    using parse_host_paths_Ok [OF p] by simp
  with assms(2) show ?thesis
    by (auto simp: b' add_host_executable_def builder_inv_def policy_wf_def build_def split: if_splits)
qed

lemma eval_module_inv:
  assumes "lawful_multimap mm" "builder_inv mm b" "eval_module mm env b cs ending = (res, b')"
  shows "builder_inv mm b' \<and> prefix (pb_pending b) (pb_pending b')"
  using assms(2,3)
proof (induction cs arbitrary: b)
  case (Cons c cs)
  show ?case
  proof (cases "run_call mm env b c")
    case (Ok b1)
    with Cons.prems Cons.IH [of b1] run_call_inv [OF assms(1) Cons.prems(1) Ok] show ?thesis
      by (auto intro: prefix_order.trans)
  qed (use Cons.prems in auto)
qed simp

text \<open>The builders a parser can hold: a new one, and what any policy file makes of one.\<close>

inductive parser_reachable :: "'m multimap \<Rightarrow> parser_env \<Rightarrow> 'm policy_builder \<Rightarrow> bool" for mm env where
  reachable_new: "parser_reachable mm env (builder_new mm)"
| reachable_parse:
    "parser_reachable mm env b \<Longrightarrow> parser_parse mm env b script = (res, b') \<Longrightarrow> parser_reachable mm env b'"

lemma parser_parse_builder:
  "parser_parse mm env b script = (res, b') \<Longrightarrow>
   b' = b \<or> (\<exists>calls ending r. eval_module mm env b calls ending = (r, b'))"
  by (auto simp: parser_parse_def Let_def split: sum.splits prod.splits)

lemma parser_parse_inv:
  assumes "lawful_multimap mm" "builder_inv mm b" "parser_parse mm env b script = (res, b')"
  shows "builder_inv mm b' \<and> prefix (pb_pending b) (pb_pending b')"
  using parser_parse_builder [OF assms(3)] eval_module_inv [OF assms(1,2)] assms(2) by blast

lemma reachable_inv: "parser_reachable mm env b \<Longrightarrow> lawful_multimap mm \<Longrightarrow> builder_inv mm b"
  by (induction rule: parser_reachable.induct) (auto simp: builder_inv_new dest: parser_parse_inv)

subsection \<open>Parsing does not panic\<close>

lemma collect_no_panic: "(\<And>x. f x \<noteq> Panic) \<Longrightarrow> collect f xs \<noteq> Panic"
  by (induction xs) (auto simp: outcome_simps)

lemma string_item_no_panic [simp]: "string_item err what v \<noteq> Panic"
  by (simp add: string_item_def split: option.splits)

lemma parse_pattern_no_panic [simp]: "parse_pattern items \<noteq> Panic"
proof -
  have "parse_pattern_token v \<noteq> Panic" for v
    by (cases v) (auto simp: outcome_simps collect_no_panic split: list.splits)
  then show ?thesis by (auto simp: parse_pattern_def outcome_simps collect_no_panic split: if_splits)
qed

lemma parse_examples_no_panic [simp]: "parse_optional_examples env items \<noteq> Panic"
proof -
  have "parse_example env v \<noteq> Panic" for v
    by (cases v) (auto simp: parse_string_example_def parse_list_example_def outcome_simps collect_no_panic
        split: option.splits if_splits)
  then show ?thesis
    by (simp add: parse_optional_examples_def parse_examples_def collect_no_panic split: option.splits)
qed

lemma parse_small_no_panic [simp]:
  "decision_parse raw \<noteq> Panic" "protocol_parse raw \<noteq> Panic" "parse_network_rule_decision raw \<noteq> Panic"
  "validate_host_executable_name raw \<noteq> Panic" "parse_literal_absolute_path env raw \<noteq> Panic"
  by (simp_all add: decision_parse_def protocol_parse_def parse_network_rule_decision_def
      validate_host_executable_name_def parse_literal_absolute_path_def split: sum.splits)

lemma parse_host_paths_no_panic [simp]: "parse_host_paths env name acc vs \<noteq> Panic"
  by (induction vs arbitrary: acc) (auto simp: outcome_simps split: option.splits if_splits)

lemma run_call_no_panic: "run_call mm env b c \<noteq> Panic"
proof (cases c)
  case (PrefixRuleCall pattern decision ms nms j loc)
  have "prefix_rules tokens d j \<noteq> Panic" for tokens d by (cases tokens) simp_all
  then show ?thesis
    by (auto simp: PrefixRuleCall prefix_rule_call_def outcome_simps split: option.splits if_splits)
qed (auto simp: network_rule_call_def host_executable_call_def outcome_simps normalize_host_no_panic
    split: if_splits)

lemma eval_module_no_panic: "fst (eval_module mm env b cs ending) \<noteq> Panic"
  by (induction cs arbitrary: b) (auto simp: run_call_no_panic split: outcome.splits option.splits)

lemma validate_pending_no_panic: "validate_pending mm env b v \<noteq> Panic"
proof -
  have "validate_not_match_examples mm env p exs \<noteq> Panic" for p exs
    by (induction exs) (auto split: list.splits)
  then show ?thesis
    by (auto simp: validate_pending_def outcome_simps validate_match_examples_def Let_def split: if_splits)
qed

lemma parser_parse_no_panic:
  assumes "lawful_multimap mm" "builder_inv mm b"
  shows "fst (parser_parse mm env b script) \<noteq> Panic"
proof (cases script)
  case (Inr cs)
  obtain calls ending where "cs = (calls, ending)" by (cases cs)
  moreover obtain r b' where ev: "eval_module mm env b calls ending = (r, b')" by (cases "eval_module mm env b calls ending")
  ultimately have parse: "fst (parser_parse mm env b script) =
      and_then r (\<lambda>_. validate_pending_examples_from mm env b' (length (pb_pending b)))"
    using Inr by (simp add: parser_parse_def)
  have "length (pb_pending b) \<le> length (pb_pending b')"
    using eval_module_inv [OF assms ev] by (auto dest: prefix_length_le)
  then have "validate_pending_examples_from mm env b' (length (pb_pending b)) \<noteq> Panic"
    by (auto simp: validate_pending_examples_from_def outcome_simps collect_no_panic validate_pending_no_panic)
  then show ?thesis using eval_module_no_panic [of mm env b calls ending] ev parse by (auto simp: outcome_simps)
qed (simp add: parser_parse_def)

text \<open>
  Whatever policy files a parser reads, with success or failure, parsing does not panic and the
  policy it then builds is well formed: every rule is filed under its program, network hosts are
  canonical, and host executables are normalised absolute paths with the name they are listed under.
\<close>
theorem parsed_policy_wellformed:
  assumes "lawful_multimap mm" "parser_reachable mm env b"
  shows "policy_wf mm (build b) \<and> fst (parser_parse mm env b script) \<noteq> Panic"
proof -
  have inv: "builder_inv mm b" by (rule reachable_inv [OF assms(2,1)])
  then have "policy_wf mm (build b)" by (simp add: builder_inv_def)
  with parser_parse_no_panic [OF assms(1) inv] show ?thesis by simp
qed

section \<open>Declared examples\<close>

lemma host_match_hits:
  "match_host_executable_rules mm env p cmd =
     (case cmd of
        [] \<Rightarrow> []
      | first # args \<Rightarrow>
          (case from_absolute_path (home_dir env) (current_dir env) first of
             Inl _ \<Rightarrow> []
           | Inr program \<Rightarrow>
               (case file_name program of
                  None \<Rightarrow> []
                | Some base \<Rightarrow>
                    if (case host_executables_by_name p base of Some paths \<Rightarrow> program \<notin> set paths | None \<Rightarrow> False)
                    then []
                    else map (\<lambda>w. with_resolved_program w program)
                      (pr.hits (rules_for mm (rules_by_program p) base) (base # args)))))"
proof -
  have key: "executable_path_lookup_key q = file_name q" for q
    by (simp add: executable_path_lookup_key_def executable_lookup_key_def map_option_case split: option.split)
  show ?thesis
    unfolding match_host_executable_rules_def key pr.hits_def rules_for_def unwrap_or_def
    by (auto simp: list_ex_iff List.map_filter_def split: list.split sum.split option.split)
qed

lemma collect_Ok_all: "collect f xs = Ok ys \<Longrightarrow> x \<in> set xs \<Longrightarrow> \<exists>y. f x = Ok y"
  by (induction xs arbitrary: ys) (auto simp: outcome_simps)

lemma not_match_Ok:
  "validate_not_match_examples mm env p exs = Ok () \<Longrightarrow> ex \<in> set exs \<Longrightarrow>
   matches_for_command_with_options mm (parser_host env) p ex None resolving = []"
  by (induction exs) (auto split: list.splits)

lemma validate_pending_Ok:
  assumes "validate_pending mm env b v = Ok ()"
  shows "ex \<in> set (pend_matches v) \<Longrightarrow>
      matches_for_command_with_options mm (parser_host env) (validation_policy mm b v) ex None resolving \<noteq> []"
    and "ex \<in> set (pend_not_matches v) \<Longrightarrow>
      matches_for_command_with_options mm (parser_host env) (validation_policy mm b v) ex None resolving = []"
  using assms
  by (auto simp: validate_pending_def outcome_simps validate_match_examples_def filter_empty_conv not_match_Ok
      split: if_splits)

lemma rules_for_validation:
  assumes "lawful_multimap mm"
  shows "rules_for mm (rules_by_program (validation_policy mm b v)) k = filter (\<lambda>r. rule_program r = k) (pend_rules v)"
  by (simp add: validation_policy_def rules_for_fold_insert [OF assms] rules_for_new [OF assms])

lemma parse_Ok_validated:
  assumes "parser_parse mm env b script = (Ok (), b')" "v \<in> set (drop (length (pb_pending b)) (pb_pending b'))"
  shows "validate_pending mm env b' v = Ok ()"
proof -
  from assms(1) have "validate_pending_examples_from mm env b' (length (pb_pending b)) = Ok ()"
    by (auto simp: parser_parse_def Let_def outcome_simps split: sum.splits prod.splits)
  then obtain ys where "collect (validate_pending mm env b') (drop (length (pb_pending b)) (pb_pending b')) = Ok ys"
    by (auto simp: validate_pending_examples_from_def outcome_simps)
  from collect_Ok_all [OF this assms(2)] show ?thesis by auto
qed

text \<open>
  What the examples of a declaration are about: a rule applies to a command that it covers, and to one
  whose program names, by its path, an executable with a name under which the rule covers the command; if
  paths are listed for that name it has to be one of them.
\<close>

definition applies_to :: "host_env \<Rightarrow> (rstr \<rightharpoonup> rstr list) \<Rightarrow> prefix_rule \<Rightarrow> rstr list \<Rightarrow> bool" where
  "applies_to env hosts r cmd \<longleftrightarrow>
     covers r cmd \<or>
     (\<exists>first args program base. cmd = first # args \<and>
        from_absolute_path (home_dir env) (current_dir env) first = Inr program \<and> file_name program = Some base \<and>
        (\<forall>paths. hosts base = Some paths \<longrightarrow> program \<in> set paths) \<and> covers r (base # args))"

lemma hits_own_program:
  "pr.hits (filter (\<lambda>r. rule_program r = hd cmd) rs) cmd = [] \<longleftrightarrow> (\<forall>r \<in> set rs. \<not> covers r cmd)"
proof -
  have "covers r cmd \<Longrightarrow> rule_program r = hd cmd" for r by (auto simp: covers_def)
  then show ?thesis by (auto simp: hits_covered)
qed

lemma validation_matches:
  assumes "lawful_multimap mm"
  shows "matches_for_command_with_options mm env (validation_policy mm b v) ex None resolving \<noteq> [] \<longleftrightarrow>
    (\<exists>r \<in> set (pend_rules v). applies_to env (pb_hosts b) r ex)"
proof -
  let ?p = "validation_policy mm b v"
  have rules: "rules_for mm (rules_by_program ?p) k = filter (\<lambda>r. rule_program r = k) (pend_rules v)" for k
    by (rule rules_for_validation [OF assms])
  have hosts: "host_executables_by_name ?p = pb_hosts b" by (simp add: validation_policy_def)
  have exact: "unwrap_or [] (match_exact_rules mm ?p ex) \<noteq> [] \<longleftrightarrow> (\<exists>r \<in> set (pend_rules v). covers r ex)"
    using hits_own_program [of ex "pend_rules v"] by (auto simp: match_exact_hits unwrap_or_def rules covers_def)
  have named: "pr.hits (filter (\<lambda>r. rule_program r = base) rs) (base # args) = [] \<longleftrightarrow>
      (\<forall>r \<in> set rs. \<not> covers r (base # args))" for base args rs
    using hits_own_program [of "base # args" rs] by simp
  have host: "match_host_executable_rules mm env ?p ex \<noteq> [] \<longleftrightarrow>
      (\<exists>r \<in> set (pend_rules v). \<exists>first args program base. ex = first # args \<and>
        from_absolute_path (home_dir env) (current_dir env) first = Inr program \<and> file_name program = Some base \<and>
        (\<forall>paths. pb_hosts b base = Some paths \<longrightarrow> program \<in> set paths) \<and> covers r (base # args))"
    by (auto simp: host_match_hits rules hosts named split: list.splits sum.splits option.splits)
  have "matches_for_command_with_options mm env ?p ex None resolving \<noteq> [] \<longleftrightarrow>
      unwrap_or [] (match_exact_rules mm ?p ex) \<noteq> [] \<or> match_host_executable_rules mm env ?p ex \<noteq> []"
    by (auto simp: matches_for_command_with_options_def resolving_def Let_def)
  with exact host show ?thesis unfolding applies_to_def by blast
qed

text \<open>What the file declares with one call of \<^verbatim>\<open>prefix_rule\<close>: a rule per alternative of the first token.\<close>

definition declared_rules :: "pattern_token list \<Rightarrow> decision \<Rightarrow> rstr option \<Rightarrow> prefix_rule set" where
  "declared_rules tokens d justification =
     {\<lparr>rule_pattern = \<lparr>pattern_first = program, pattern_rest = tl tokens\<rparr>, rule_decision = d,
       rule_justification = justification\<rparr> | program. program \<in> set (token_alternatives (hd tokens))}"

lemma prefix_rules_declared: "prefix_rules tokens d j = Ok rules \<Longrightarrow> set rules = declared_rules tokens d j"
  by (cases tokens) (auto simp: declared_rules_def)

definition declared_decision :: "rstr option \<Rightarrow> (policy_error, decision) outcome" where
  "declared_decision decision = (case decision of Some raw \<Rightarrow> decision_parse raw | None \<Rightarrow> Ok Allow)"

text \<open>The validation that a call leaves behind has the examples and the rules of its arguments.\<close>

definition declares ::
  "parser_env \<Rightarrow> starlark_value list \<Rightarrow> rstr option \<Rightarrow> starlark_value list option \<Rightarrow> starlark_value list option \<Rightarrow>
   rstr option \<Rightarrow> pending_example_validation \<Rightarrow> bool" where
  "declares env pattern decision ms nms j v \<longleftrightarrow>
     (\<exists>tokens d. parse_pattern pattern = Ok tokens \<and> declared_decision decision = Ok d \<and>
        set (pend_rules v) = declared_rules tokens d j) \<and>
     parse_optional_examples env ms = Ok (pend_matches v) \<and> parse_optional_examples env nms = Ok (pend_not_matches v)"

lemma prefix_rule_call_pending:
  assumes "prefix_rule_call mm env b pattern decision ms nms j loc = Ok b'"
  shows "\<exists>v. pb_pending b' = pb_pending b @ [v] \<and> declares env pattern decision ms nms j v"
proof -
  from assms obtain d tokens mx nx rules where *: "declared_decision decision = Ok d" "parse_pattern pattern = Ok tokens"
    "parse_optional_examples env ms = Ok mx" "parse_optional_examples env nms = Ok nx" "prefix_rules tokens d j = Ok rules"
    and b': "b' = install_rules mm b \<lparr>pend_rules = rules, pend_matches = mx, pend_not_matches = nx, pend_location = loc\<rparr>"
    by (auto simp: prefix_rule_call_def declared_decision_def outcome_simps split: if_splits)
  have "pb_pending (install_rules mm b v) = pb_pending b @ [v]" for v
    by (simp add: install_rules_def foldl_add_rule) (simp add: add_pending_example_validation_def)
  with * show ?thesis by (simp add: b' declares_def prefix_rules_declared)
qed

lemma eval_module_pending:
  assumes "lawful_multimap mm" "builder_inv mm b" "eval_module mm env b cs ending = (Ok (), b')"
    and "PrefixRuleCall pattern decision ms nms j loc \<in> set cs"
  shows "\<exists>v \<in> set (drop (length (pb_pending b)) (pb_pending b')). declares env pattern decision ms nms j v"
  using assms(2-)
proof (induction cs arbitrary: b)
  case (Cons c cs)
  from Cons.prems(2) obtain b1 where run: "run_call mm env b c = Ok b1" and ev: "eval_module mm env b1 cs ending = (Ok (), b')"
    by (auto split: outcome.splits)
  have one: "builder_inv mm b1" "prefix (pb_pending b) (pb_pending b1)"
    using run_call_inv [OF assms(1) Cons.prems(1) run] by simp_all
  show ?case
  proof (cases "c = PrefixRuleCall pattern decision ms nms j loc")
    case True
    with run have "prefix_rule_call mm env b pattern decision ms nms j loc = Ok b1" by simp
    then obtain v where "pb_pending b1 = pb_pending b @ [v]" "declares env pattern decision ms nms j v"
      using prefix_rule_call_pending by blast
    moreover have "prefix (pb_pending b1) (pb_pending b')" using eval_module_inv [OF assms(1) one(1) ev] by simp
    ultimately show ?thesis by (auto simp: prefix_def)
  next
    case False
    have "set (drop (length (pb_pending b1)) (pb_pending b')) \<subseteq> set (drop (length (pb_pending b)) (pb_pending b'))"
      using one(2) by (intro set_drop_subset_set_drop) (rule prefix_length_le)
    with False Cons.prems(3) Cons.IH [OF one(1) ev] show ?thesis by auto
  qed
qed simp

lemma parse_optional_examples_Ok:
  "parse_optional_examples env items = Ok exs \<Longrightarrow> v \<in> set (unwrap_or [] items) \<Longrightarrow> \<exists>ex \<in> set exs. parse_example env v = Ok ex"
proof -
  have "collect (parse_example env) vs = Ok exs \<Longrightarrow> v \<in> set vs \<Longrightarrow> \<exists>ex \<in> set exs. parse_example env v = Ok ex" for vs
    by (induction vs arbitrary: exs) (auto simp: outcome_simps)
  then show "parse_optional_examples env items = Ok exs \<Longrightarrow> v \<in> set (unwrap_or [] items) \<Longrightarrow> \<exists>ex \<in> set exs. parse_example env v = Ok ex"
    by (auto simp: parse_optional_examples_def parse_examples_def unwrap_or_def split: option.splits)
qed

text \<open>
  (C21) When a policy file is accepted, every call of \<^verbatim>\<open>prefix_rule\<close> in it has done what it declares.
  Its rules, one for each alternative of the first token, are in the policy built; each example of its
  \<^verbatim>\<open>match\<close> argument is a command to which one of these rules applies, and each example of its
  \<^verbatim>\<open>not_match\<close> argument one to which none of these rules does (rules of other calls may).
  Whether a rule applies to a program given by its path is judged with the host executables of the whole file.
\<close>
theorem declared_examples_hold:
  assumes "lawful_multimap mm" "parser_reachable mm env b" "parser_parse mm env b (Inr (calls, ending)) = (Ok (), b')"
    and "PrefixRuleCall pattern decision ms nms justification loc \<in> set calls"
  shows "\<exists>tokens d. parse_pattern pattern = Ok tokens \<and> declared_decision decision = Ok d \<and>
    declared_rules tokens d justification \<subseteq> set (all_rules mm (rules_by_program (build b'))) \<and>
    (\<forall>v \<in> set (unwrap_or [] ms). \<exists>ex. parse_example env v = Ok ex \<and>
       (\<exists>r \<in> declared_rules tokens d justification. applies_to (parser_host env) (host_executables_by_name (build b')) r ex)) \<and>
    (\<forall>v \<in> set (unwrap_or [] nms). \<exists>ex. parse_example env v = Ok ex \<and>
       (\<forall>r \<in> declared_rules tokens d justification. \<not> applies_to (parser_host env) (host_executables_by_name (build b')) r ex))"
proof -
  have inv: "builder_inv mm b" by (rule reachable_inv [OF assms(2,1)])
  have ev: "eval_module mm env b calls ending = (Ok (), b')"
    using assms(3) by (auto simp: parser_parse_def Let_def outcome_simps split: prod.splits)
  obtain v tokens d where v: "v \<in> set (drop (length (pb_pending b)) (pb_pending b'))"
    "parse_pattern pattern = Ok tokens" "declared_decision decision = Ok d"
    and rules: "set (pend_rules v) = declared_rules tokens d justification"
    and exs: "parse_optional_examples env ms = Ok (pend_matches v)" "parse_optional_examples env nms = Ok (pend_not_matches v)"
    using eval_module_pending [OF assms(1) inv ev assms(4)] by (auto simp: declares_def)
  note ok = validate_pending_Ok [OF parse_Ok_validated [OF assms(3) v(1)]]
  note applies = validation_matches [OF assms(1), of "parser_host env" b' v]
  have hosts: "host_executables_by_name (build b') = pb_hosts b'" by (simp add: build_def)
  have "builder_inv mm b'" by (rule reachable_inv [OF reachable_parse [OF assms(2,3)] assms(1)])
  then have "declared_rules tokens d justification \<subseteq> set (all_rules mm (rules_by_program (build b')))"
    using in_set_dropD [OF v(1)] unfolding builder_inv_def build_def rules [symmetric] policy.select_convs
    by (meson all_rules_iff [OF assms(1)] subsetI)
  moreover have "\<exists>r \<in> declared_rules tokens d justification. applies_to (parser_host env) (pb_hosts b') r ex"
    if "ex \<in> set (pend_matches v)" for ex using ok(1) [OF that] by (simp add: applies rules)
  then have "\<exists>ex. parse_example env m = Ok ex \<and>
      (\<exists>r \<in> declared_rules tokens d justification. applies_to (parser_host env) (pb_hosts b') r ex)"
    if "m \<in> set (unwrap_or [] ms)" for m using parse_optional_examples_Ok [OF exs(1) that] by blast
  moreover have "\<not> applies_to (parser_host env) (pb_hosts b') r ex"
    if "ex \<in> set (pend_not_matches v)" "r \<in> declared_rules tokens d justification" for ex r
    using ok(2) [OF that(1)] applies [of ex] that(2) by (auto simp: rules)
  then have "\<exists>ex. parse_example env m = Ok ex \<and>
      (\<forall>r \<in> declared_rules tokens d justification. \<not> applies_to (parser_host env) (pb_hosts b') r ex)"
    if "m \<in> set (unwrap_or [] nms)" for m using parse_optional_examples_Ok [OF exs(2) that] by blast
  ultimately show ?thesis unfolding hosts using v(2,3) by blast
qed

definition plain_parser_env :: parser_env where
  "plain_parser_env =
     \<lparr>parser_host = plain_env, shlex_split = (\<lambda>s. Some (split_on 32 s)), shlex_join = (\<lambda>ws. Some (join [32] ws)),
      debug_rule = (\<lambda>_. []), debug_match = (\<lambda>_. []), wrap_error = (\<lambda>_. ([], None))\<rparr>"

definition git_script :: script where
  "git_script = Inr ([PrefixRuleCall [StrValue (lit ''git''), ListValue [StrValue (lit ''log''), StrValue (lit ''diff'')]]
     None (Some [StrValue (lit ''git log'')]) (Some [StrValue (lit ''git push'')]) None None], None)"

definition git_validation :: pending_example_validation where
  "git_validation =
     \<lparr>pend_rules = [git_rule [Alts [lit ''log'', lit ''diff'']] Allow], pend_matches = [[lit ''git'', lit ''log'']],
      pend_not_matches = [[lit ''git'', lit ''push'']], pend_location = None\<rparr>"

lemma git_script_parsed:
  "parser_parse dal_multimap plain_parser_env (builder_new dal_multimap) git_script =
     (Ok (), install_rules dal_multimap (builder_new dal_multimap) git_validation)"
proof -
  let ?b = "install_rules dal_multimap (builder_new dal_multimap) git_validation"
  have run: "eval_module dal_multimap plain_parser_env (builder_new dal_multimap)
      [PrefixRuleCall [StrValue (lit ''git''), ListValue [StrValue (lit ''log''), StrValue (lit ''diff'')]]
        None (Some [StrValue (lit ''git log'')]) (Some [StrValue (lit ''git push'')]) None None] None = (Ok (), ?b)"
    by (simp add: prefix_rule_call_def blank_justification_def parse_pattern_def string_item_def
        parse_optional_examples_def parse_examples_def parse_string_example_def plain_parser_env_def
        git_validation_def git_rule_def)
  have pending: "pb_pending ?b = [git_validation]"
    by (simp add: install_rules_def foldl_add_rule) (simp add: add_pending_example_validation_def builder_new_def)
  have match: "unwrap_or [] (match_exact_rules dal_multimap (validation_policy dal_multimap ?b git_validation)
      [lit ''git'', lit ''log'']) = [PrefixRuleMatch [lit ''git'', lit ''log''] Allow None None]"
    by (simp add: match_exact_hits unwrap_or_def rules_for_validation [OF dal_lawful] git_validation_def
        git_rule_def rule_program_def pr.hits_def List.map_filter_def rule_matches_def matches_prefix_def)
  have none: "unwrap_or [] (match_exact_rules dal_multimap (validation_policy dal_multimap ?b git_validation)
      [lit ''git'', lit ''push'']) = []"
    by (simp add: match_exact_hits unwrap_or_def rules_for_validation [OF dal_lawful] git_validation_def
        git_rule_def rule_program_def pr.hits_def List.map_filter_def rule_matches_def matches_prefix_def)
  have host: "match_host_executable_rules dal_multimap plain_env (validation_policy dal_multimap ?b git_validation)
      [lit ''git'', lit ''push''] = []"
    by (simp add: host_match_hits from_absolute_path_def absolutize_def plain_env_def path_eval file_name_def
        rules_for_validation [OF dal_lawful] git_validation_def git_rule_def rule_program_def pr.hits_def
        List.map_filter_def rule_matches_def matches_prefix_def split: option.splits)
  have "validate_pending dal_multimap plain_parser_env ?b git_validation = Ok ()"
    using match none host
    by (simp add: validate_pending_def git_validation_def validate_match_examples_def resolving_def
        matches_for_command_with_options_def plain_parser_env_def Let_def)
  moreover have "pb_pending (builder_new dal_multimap) = []" by (simp add: builder_new_def)
  ultimately show ?thesis
    by (simp add: parser_parse_def git_script_def run validate_pending_examples_from_def pending
        slice_from_def del: lit_simps eval_module.simps)
qed

theorem parsed_policy_wellformed_witness:
  "lawful_multimap dal_multimap \<and> parser_reachable dal_multimap plain_parser_env (builder_new dal_multimap) \<and>
   policy_wf dal_multimap (build (builder_new dal_multimap)) \<and>
   fst (parser_parse dal_multimap plain_parser_env (builder_new dal_multimap) git_script) = Ok ()"
  using parsed_policy_wellformed [OF dal_lawful reachable_new, of plain_parser_env git_script]
    dal_lawful reachable_new git_script_parsed by simp

theorem declared_examples_hold_witness:
  "lawful_multimap dal_multimap \<and> parser_reachable dal_multimap plain_parser_env (builder_new dal_multimap) \<and>
   (\<exists>tokens d. applies_to plain_env (\<lambda>_. None) (git_rule [Alts [lit ''log'', lit ''diff'']] Allow) [lit ''git'', lit ''log''] \<and>
     declared_rules tokens d None = {git_rule [Alts [lit ''log'', lit ''diff'']] Allow} \<and>
     \<not> applies_to plain_env (\<lambda>_. None) (git_rule [Alts [lit ''log'', lit ''diff'']] Allow) [lit ''git'', lit ''push''])"
proof -
  let ?b = "install_rules dal_multimap (builder_new dal_multimap) git_validation"
  let ?pattern = "[StrValue (lit ''git''), ListValue [StrValue (lit ''log''), StrValue (lit ''diff'')]]"
  let ?rule = "git_rule [Alts [lit ''log'', lit ''diff'']] Allow"
  have run: "parser_parse dal_multimap plain_parser_env (builder_new dal_multimap) (Inr ([PrefixRuleCall ?pattern
      None (Some [StrValue (lit ''git log'')]) (Some [StrValue (lit ''git push'')]) None None], None)) = (Ok (), ?b)"
    using git_script_parsed unfolding git_script_def .
  have pattern: "parse_pattern ?pattern = Ok [SingleToken (lit ''git''), Alts [lit ''log'', lit ''diff'']]"
    by (simp add: parse_pattern_def string_item_def)
  have rules: "declared_rules [SingleToken (lit ''git''), Alts [lit ''log'', lit ''diff'']] Allow None = {?rule}"
    by (auto simp: declared_rules_def git_rule_def)
  have exs: "parse_example plain_parser_env (StrValue (lit ''git log'')) = Ok [lit ''git'', lit ''log'']"
    "parse_example plain_parser_env (StrValue (lit ''git push'')) = Ok [lit ''git'', lit ''push'']"
    by (simp_all add: parse_string_example_def plain_parser_env_def)
  have hosts: "host_executables_by_name (build ?b) = (\<lambda>_. None)" "parser_host plain_parser_env = plain_env"
    by (simp_all add: build_def install_rules_def foldl_add_rule plain_parser_env_def)
      (simp add: add_pending_example_validation_def builder_new_def)
  have "applies_to plain_env (\<lambda>_. None) ?rule [lit ''git'', lit ''log'']"
    "\<not> applies_to plain_env (\<lambda>_. None) ?rule [lit ''git'', lit ''push'']"
    using declared_examples_hold [OF dal_lawful reachable_new run, of ?pattern None "Some [StrValue (lit ''git log'')]"
        "Some [StrValue (lit ''git push'')]" None None]
    by (auto simp: pattern declared_decision_def rules exs hosts unwrap_or_def simp del: lit_simps parse_example.simps)
  then show ?thesis using dal_lawful reachable_new rules by blast
qed

end
