(* ===== verification/Policy_Amend.thy ===== *)
theory Policy_Amend
  imports Policy_Parser
begin

text \<open>
  Amending a policy file (\<^verbatim>\<open>execpolicy/src/amend.rs\<close>).  The file is its text, or nothing when it
  does not exist.  What the operating system answers to each call (creating the directory, opening,
  locking, seeking, reading and writing) is a parameter \<open>io\<close>; a write that fails may have written
  the beginning of its text.  The JSON printer of strings is a parameter too.
\<close>

datatype amend_error =
    EmptyPrefix
  | InvalidNetworkRule rstr
  | MissingParent rstr
  | CreatePolicyDir rstr rstr
  | SerializePrefix rstr
  | SerializeNetworkRule rstr
  | OpenPolicyFile rstr rstr
  | WritePolicyFile rstr rstr
  | LockPolicyFile rstr rstr
  | SeekPolicyFile rstr rstr
  | ReadPolicyFile rstr rstr
  | PolicyMetadata rstr rstr

text \<open>\<open>None\<close> is success.  The flag of \<open>io_create_dir\<close> tells the error kind \<^verbatim>\<open>AlreadyExists\<close>.\<close>

record amend_io =
  io_create_dir :: "(bool \<times> rstr) option"
  io_open :: "rstr option"
  io_lock :: "rstr option"
  io_seek :: "rstr option"
  io_read :: "rstr option"
  io_write_newline :: "(rstr \<times> nat) option"
  io_write_line :: "(rstr \<times> nat) option"

type_synonym amend_result = "(amend_error, unit) outcome \<times> rstr option"

definition write_all :: "(rstr \<times> nat) option \<Rightarrow> rstr \<Rightarrow> rstr \<Rightarrow> rstr option \<times> rstr" where
  "write_all answer contents s =
     (case answer of None \<Rightarrow> (None, contents @ s) | Some (e, n) \<Rightarrow> (Some e, contents @ take n s))"

definition write_missing_newline :: "amend_io \<Rightarrow> rstr \<Rightarrow> rstr option \<times> rstr" where
  "write_missing_newline io contents =
     (if contents \<noteq> [] \<and> \<not> ends_with [newline] contents
      then write_all (io_write_newline io) contents [newline] else (None, contents))"

definition append_to_contents :: "amend_io \<Rightarrow> rstr \<Rightarrow> rstr \<Rightarrow> rstr \<Rightarrow> (amend_error, unit) outcome \<times> rstr" where
  "append_to_contents io policy_path line contents =
     (if list_ex (\<lambda>existing. existing = line) (lines contents) then (Ok (), contents)
      else case write_missing_newline io contents of
             (Some e, c1) \<Rightarrow> (Err (WritePolicyFile policy_path e), c1)
           | (None, c1) \<Rightarrow>
               (case write_all (io_write_line io) c1 (line @ [newline]) of
                  (Some e, c2) \<Rightarrow> (Err (WritePolicyFile policy_path e), c2)
                | (None, c2) \<Rightarrow> (Ok (), c2)))"

definition append_locked_line :: "amend_io \<Rightarrow> rstr \<Rightarrow> rstr \<Rightarrow> rstr option \<Rightarrow> amend_result" where
  "append_locked_line io policy_path line file =
     (case io_open io of
        Some e \<Rightarrow> (Err (OpenPolicyFile policy_path e), file)
      | None \<Rightarrow>
          (let contents = unwrap_or [] file in
           case io_lock io of
             Some e \<Rightarrow> (Err (LockPolicyFile policy_path e), Some contents)
           | None \<Rightarrow>
               (case io_seek io of
                  Some e \<Rightarrow> (Err (SeekPolicyFile policy_path e), Some contents)
                | None \<Rightarrow>
                    (case io_read io of
                       Some e \<Rightarrow> (Err (ReadPolicyFile policy_path e), Some contents)
                     | None \<Rightarrow> apsnd Some (append_to_contents io policy_path line contents)))))"

definition append_rule_line :: "amend_io \<Rightarrow> rstr \<Rightarrow> rstr \<Rightarrow> rstr option \<Rightarrow> amend_result" where
  "append_rule_line io policy_path rule file =
     (case path_parent policy_path of
        None \<Rightarrow> (Err (MissingParent policy_path), file)
      | Some dir \<Rightarrow>
          (case io_create_dir io of
             Some (already_exists, e) \<Rightarrow>
               if already_exists then append_locked_line io policy_path rule file
               else (Err (CreatePolicyDir dir e), file)
           | None \<Rightarrow> append_locked_line io policy_path rule file))"

fun serialize_all :: "(rstr \<Rightarrow> rstr + rstr) \<Rightarrow> rstr list \<Rightarrow> rstr + rstr list" where
  "serialize_all to_json [] = Inr []"
| "serialize_all to_json (s # ss) =
     (case to_json s of
        Inl e \<Rightarrow> Inl e
      | Inr t \<Rightarrow> (case serialize_all to_json ss of Inl e \<Rightarrow> Inl e | Inr ts \<Rightarrow> Inr (t # ts)))"

definition prefix_rule_line :: "rstr list \<Rightarrow> rstr" where
  "prefix_rule_line tokens =
     lit ''prefix_rule(pattern=['' @ join (lit '', '') tokens @ lit ''], decision=\"allow\")''"

definition blocking_append_allow_prefix_rule ::
  "(rstr \<Rightarrow> rstr + rstr) \<Rightarrow> amend_io \<Rightarrow> rstr \<Rightarrow> rstr list \<Rightarrow> rstr option \<Rightarrow> amend_result" where
  "blocking_append_allow_prefix_rule to_json io policy_path pre file =
     (if pre = [] then (Err EmptyPrefix, file)
      else case serialize_all to_json pre of
             Inl e \<Rightarrow> (Err (SerializePrefix e), file)
           | Inr tokens \<Rightarrow> append_rule_line io policy_path (prefix_rule_line tokens) file)"

text \<open>
  The only error of the host normalisation is \<^verbatim>\<open>InvalidRule\<close>, so only its text is needed.
\<close>

definition display_invalid_rule :: "policy_error \<Rightarrow> rstr" where
  "display_invalid_rule e = (case e of InvalidRule t \<Rightarrow> lit ''invalid rule: '' @ t | _ \<Rightarrow> [])"

fun decision_word :: "decision \<Rightarrow> rstr" where
  "decision_word Allow = lit ''allow''"
| "decision_word Prompt = lit ''prompt''"
| "decision_word Forbidden = lit ''deny''"

definition network_rule_line ::
  "(rstr \<Rightarrow> rstr + rstr) \<Rightarrow> rstr \<Rightarrow> network_rule_protocol \<Rightarrow> decision \<Rightarrow> rstr option \<Rightarrow> rstr + rstr" where
  "network_rule_line to_json host protocol d justification =
     (case serialize_all to_json
        ([host, as_policy_string protocol, decision_word d] @ (case justification of Some j \<Rightarrow> [j] | None \<Rightarrow> [])) of
        Inl e \<Rightarrow> Inl e
      | Inr texts \<Rightarrow>
          Inr (lit ''network_rule('' @
            join (lit '', '') (map (\<lambda>(k, v). lit k @ v)
              (zip [''host='', ''protocol='', ''decision='', ''justification=''] texts)) @ lit '')''))"

definition blocking_append_network_rule ::
  "(rstr \<Rightarrow> rstr + rstr) \<Rightarrow> amend_io \<Rightarrow> rstr \<Rightarrow> rstr \<Rightarrow> network_rule_protocol \<Rightarrow> decision \<Rightarrow> rstr option \<Rightarrow>
   rstr option \<Rightarrow> amend_result" where
  "blocking_append_network_rule to_json io policy_path raw protocol d justification file =
     (case normalize_network_rule_host raw of
        Err e \<Rightarrow> (Err (InvalidNetworkRule (display_invalid_rule e)), file)
      | Panic \<Rightarrow> (Panic, file)
      | Ok host \<Rightarrow>
          if blank_justification justification
          then (Err (InvalidNetworkRule (lit ''justification cannot be empty'')), file)
          else (case network_rule_line to_json host protocol d justification of
                  Inl e \<Rightarrow> (Err (SerializeNetworkRule e), file)
                | Inr rule \<Rightarrow> append_rule_line io policy_path rule file))"

section \<open>One line is added and nothing is lost\<close>

lemma lines_from_append_newline:
  "lines_from acc (c @ newline # s) = lines_from acc (c @ [newline]) @ lines_from [] s"
  by (induction c arbitrary: acc) simp_all

lemma lines_from_final_newline:
  "rev acc @ c \<noteq> [] \<Longrightarrow> last (rev acc @ c) \<notin> {newline, carriage_return} \<or> c \<noteq> [] \<and> last c \<notin> {newline, carriage_return} \<Longrightarrow>
   lines_from acc (c @ [newline]) = lines_from acc c"
proof (induction c arbitrary: acc)
  case Nil
  then show ?case by (cases acc) (auto simp: strip_cr_def)
next
  case (Cons x xs)
  then show ?case by (cases "xs = []") (auto simp: strip_cr_def)
qed

lemma lines_append_line:
  assumes "plain_line l" "c = [] \<or> last c = newline"
  shows "lines (c @ l @ [newline]) = lines c @ [l]"
proof (cases c rule: rev_cases)
  case Nil
  then show ?thesis
    using lines_from_append_line [of l "[]" "[]"] assms(1)
    by (simp add: lines_def strip_cr_plain plain_line_def)
next
  case (snoc ys y)
  then have "c = ys @ [newline]" using assms(2) by simp
  moreover have "lines_from [] (l @ [newline]) = [l]"
    using lines_from_append_line [of l "[]" "[]"] assms(1) by (simp add: strip_cr_plain plain_line_def)
  ultimately show ?thesis
    using lines_from_append_newline [of "[]" ys "l @ [newline]"] by (simp add: lines_def)
qed

definition contents_after_append :: "rstr \<Rightarrow> rstr \<Rightarrow> rstr" where
  "contents_after_append line c =
     (if line \<in> set (lines c) then c
      else (if c \<noteq> [] \<and> last c \<noteq> newline then c @ [newline] else c) @ line @ [newline])"

lemma ends_with_newline: "ends_with [newline] c \<longleftrightarrow> c \<noteq> [] \<and> last c = newline"
  by (cases c rule: rev_cases) (auto simp: ends_with_iff suffix_def)

lemma append_to_contents_Ok:
  "append_to_contents io policy_path line c = (Ok (), c') \<Longrightarrow> c' = contents_after_append line c"
  by (auto simp: append_to_contents_def write_missing_newline_def write_all_def contents_after_append_def
      ends_with_newline list_ex_iff split: if_splits option.splits prod.splits)

lemma append_to_contents_prefix:
  "append_to_contents io policy_path line c = (r, c') \<Longrightarrow> prefix c c'"
  by (auto simp: append_to_contents_def write_missing_newline_def write_all_def
      split: if_splits option.splits prod.splits)

lemma contents_after_append_lines:
  assumes "plain_line line" "c = [] \<or> last c \<noteq> carriage_return"
  shows "lines (contents_after_append line c) = (if line \<in> set (lines c) then lines c else lines c @ [line])"
proof (cases "c \<noteq> [] \<and> last c \<noteq> newline")
  case True
  then have "lines (c @ [newline]) = lines c"
    using assms(2) lines_from_final_newline [of "[]" c] by (simp add: lines_def)
  then show ?thesis
    using True lines_append_line [OF assms(1), of "c @ [newline]"] by (simp add: contents_after_append_def)
next
  case False
  then show ?thesis using lines_append_line [OF assms(1), of c] by (auto simp: contents_after_append_def)
qed

lemma append_rule_line_cases:
  assumes "append_rule_line io policy_path rule file = (r, file')"
  obtains "file' = file" "r \<noteq> Ok ()"
  | "file' = Some (unwrap_or [] file)" "r \<noteq> Ok ()"
  | c' where "append_to_contents io policy_path rule (unwrap_or [] file) = (r, c')" "file' = Some c'"
  using assms
  by (auto simp: append_rule_line_def append_locked_line_def Let_def apsnd_def map_prod_def
      split: option.splits prod.splits if_splits)

text \<open>
  Amending a policy file never loses what is in it, whatever call fails on the way.  When it
  succeeds, the rule is one of the file's lines: the last one if it was not there before, with every
  other line as it was; and amending the file with the same rule again leaves it unchanged.
\<close>
theorem amend_adds_one_line:
  assumes "append_rule_line io policy_path rule file = (r, file')" "plain_line rule"
    and "unwrap_or [] file = [] \<or> last (unwrap_or [] file) \<noteq> carriage_return"
  shows "prefix (unwrap_or [] file) (unwrap_or [] file') \<and>
    (r = Ok () \<longrightarrow>
       lines (unwrap_or [] file') =
         (if rule \<in> set (lines (unwrap_or [] file)) then lines (unwrap_or [] file)
          else lines (unwrap_or [] file) @ [rule]) \<and>
       (\<forall>io' r' file''. append_rule_line io' policy_path rule file' = (r', file'') \<longrightarrow> file'' = file'))"
  using assms(1)
proof (cases rule: append_rule_line_cases)
  case (3 c')
  note c' = this
  show ?thesis
  proof (cases "r = Ok ()")
    case True
    then have after: "c' = contents_after_append rule (unwrap_or [] file)"
      using append_to_contents_Ok c'(1) by simp
    note ls = contents_after_append_lines [OF assms(2,3)]
    have "rule \<in> set (lines c')" using ls after by auto
    then have again: "append_to_contents io' policy_path rule c' = (Ok (), c')" for io'
      by (auto simp: append_to_contents_def list_ex_iff)
    have "file'' = file'" if "append_rule_line io' policy_path rule file' = (r', file'')" for io' r' file''
      using that by (cases rule: append_rule_line_cases) (use c' again in \<open>auto simp: unwrap_or_def\<close>)
    then show ?thesis using ls after c' append_to_contents_prefix [OF c'(1)] by (auto simp: unwrap_or_def)
  next
    case False
    then show ?thesis using append_to_contents_prefix [OF c'(1)] c'(2) by (simp add: unwrap_or_def)
  qed
qed (simp_all add: unwrap_or_def)

theorem amend_adds_one_line_witness:
  "lines (unwrap_or [] (snd (blocking_append_allow_prefix_rule Inr
     \<lparr>io_create_dir = Some (True, []), io_open = None, io_lock = None, io_seek = None, io_read = None,
      io_write_newline = None, io_write_line = None\<rparr> (lit ''/w/r'') [lit ''a''] (Some (lit ''x''))))) =
   [lit ''x'', prefix_rule_line [lit ''a'']]"
proof -
  let ?io = "\<lparr>io_create_dir = Some (True, []), io_open = None, io_lock = None, io_seek = None, io_read = None,
      io_write_newline = None, io_write_line = None\<rparr>"
  let ?file = "Some (lit ''x'' @ [newline] @ prefix_rule_line [lit ''a''] @ [newline])"
  have parent: "path_parent (lit ''/w/r'') = Some (lit ''/w'')" by (simp add: path_eval)
  have ls: "lines (lit ''x'') = [lit ''x'']" by (simp add: lines_def)
  have rule: "prefix_rule_line [lit ''a''] \<noteq> lit ''x''" by (simp add: prefix_rule_line_def)
  have run: "append_rule_line ?io (lit ''/w/r'') (prefix_rule_line [lit ''a'']) (Some (lit ''x'')) = (Ok (), ?file)"
    using parent ls rule
    by (simp add: append_rule_line_def append_locked_line_def unwrap_or_def append_to_contents_def
        write_missing_newline_def write_all_def ends_with_newline)
  have plain: "plain_line (prefix_rule_line [lit ''a''])" by (simp add: plain_line_def prefix_rule_line_def)
  have cr: "unwrap_or [] (Some (lit ''x'')) = [] \<or> last (unwrap_or [] (Some (lit ''x''))) \<noteq> carriage_return"
    by (simp add: unwrap_or_def)
  have "lines (unwrap_or [] ?file) = [lit ''x'', prefix_rule_line [lit ''a'']]"
    using amend_adds_one_line [OF run plain cr] ls rule by (simp add: unwrap_or_def)
  then show ?thesis using run by (simp add: blocking_append_allow_prefix_rule_def del: lit_simps)
qed

end
