(* ===== verification/Exec_Approval.thy ===== *)
theory Exec_Approval
  imports Permission_Profile Command_Safety Policy_Amend
begin

text \<open>
  Whether a command may run (\<^verbatim>\<open>core/src/exec_policy.rs\<close>, the requirement types of
  \<^verbatim>\<open>core/src/tools/sandboxing.rs\<close> and the approval settings of \<^verbatim>\<open>protocol/src/protocol.rs\<close>): the
  rules of the execution policy, the heuristics for commands without a rule, the approval setting of
  the user and the sandbox decide together between running, asking and refusing; an amendment the
  user accepts becomes a rule.

  The definitions are those of a Unix build (\<open>cfg_windows\<close> is false).  \<^verbatim>\<open>shlex::try_join\<close> and the
  parsers of shell scripts are parameters; the policy's multi-map and the operating system are the
  parameters of the execution policy and of the sandbox policy.
\<close>

section \<open>Approval settings\<close>

record granular_config =
  sandbox_approval :: bool
  rules_approval :: bool
  skill_approval :: bool
  request_permissions :: bool
  mcp_elicitations :: bool

datatype ask_for_approval = UnlessTrusted | OnFailure | OnRequest | Granular granular_config | Never

definition allows_sandbox_approval :: "granular_config \<Rightarrow> bool" where
  "allows_sandbox_approval g = sandbox_approval g"

definition allows_rules_approval :: "granular_config \<Rightarrow> bool" where
  "allows_rules_approval g = rules_approval g"

definition PROMPT_CONFLICT_REASON :: rstr where
  "PROMPT_CONFLICT_REASON = lit ''approval required by policy, but AskForApproval is set to Never''"

definition REJECT_SANDBOX_APPROVAL_REASON :: rstr where
  "REJECT_SANDBOX_APPROVAL_REASON = lit ''approval required by policy, but AskForApproval::Granular.sandbox_approval is false''"

definition REJECT_RULES_APPROVAL_REASON :: rstr where
  "REJECT_RULES_APPROVAL_REASON = lit ''approval required by policy rule, but AskForApproval::Granular.rules is false''"

fun prompt_is_rejected_by_policy :: "ask_for_approval \<Rightarrow> bool \<Rightarrow> rstr option" where
  "prompt_is_rejected_by_policy Never prompt_is_rule = Some PROMPT_CONFLICT_REASON"
| "prompt_is_rejected_by_policy OnFailure prompt_is_rule = None"
| "prompt_is_rejected_by_policy OnRequest prompt_is_rule = None"
| "prompt_is_rejected_by_policy UnlessTrusted prompt_is_rule = None"
| "prompt_is_rejected_by_policy (Granular g) prompt_is_rule =
     (if prompt_is_rule
      then (if \<not> allows_rules_approval g then Some REJECT_RULES_APPROVAL_REASON else None)
      else if \<not> allows_sandbox_approval g then Some REJECT_SANDBOX_APPROVAL_REASON else None)"

section \<open>Commands without a rule\<close>

definition cfg_windows :: bool where
  "cfg_windows = False"

datatype command_origin = GenericOrigin

record exec_policy_commands =
  epc_commands :: "rstr list list"
  epc_used_complex_parsing :: bool
  epc_command_origin :: command_origin

record approval_env =
  ae_parsers :: command_parsers
  ae_sandbox :: sandbox_env
  ae_shlex_join :: "rstr list \<Rightarrow> rstr option"

record unmatched_context =
  uc_approval_policy :: ask_for_approval
  uc_permission_profile :: permission_profile
  uc_file_system_policy :: fs_policy
  uc_sandbox_cwd :: rstr
  uc_sandbox_permissions :: sandbox_permissions
  uc_used_complex_parsing :: bool
  uc_command_origin :: command_origin

fun is_managed :: "permission_profile \<Rightarrow> bool" where
  "is_managed (Managed _ _) = True"
| "is_managed _ = False"

definition profile_is_managed_read_only :: "approval_env \<Rightarrow> permission_profile \<Rightarrow> fs_policy \<Rightarrow> rstr \<Rightarrow> bool" where
  "profile_is_managed_read_only env profile pol cwd \<longleftrightarrow>
     is_managed profile \<and> policy_kind pol = Restricted \<and> \<not> has_full_disk_write_access pol \<and>
     get_writable_roots_with_cwd (ae_sandbox env) pol cwd = []"

definition restricted_decision :: "fs_policy \<Rightarrow> sandbox_permissions \<Rightarrow> decision" where
  "restricted_decision pol perms =
     (case policy_kind pol of
        Restricted \<Rightarrow> if requests_sandbox_override perms then Prompt else Allow
      | _ \<Rightarrow> Allow)"

definition render_decision_for_unmatched_command :: "approval_env \<Rightarrow> unmatched_context \<Rightarrow> rstr list \<Rightarrow> decision" where
  "render_decision_for_unmatched_command env ctx command =
     (let approval_policy = uc_approval_policy ctx;
          is_known_safe = (case uc_command_origin ctx of GenericOrigin \<Rightarrow> is_known_safe_command (ae_parsers env) command);
          environment_lacks_sandbox_protections = (cfg_windows \<and>
            profile_is_managed_read_only env (uc_permission_profile ctx) (uc_file_system_policy ctx) (uc_sandbox_cwd ctx))
      in if is_known_safe \<and> \<not> uc_used_complex_parsing ctx \<and>
            (approval_policy = UnlessTrusted \<or> environment_lacks_sandbox_protections)
         then Allow
         else if (case uc_command_origin ctx of GenericOrigin \<Rightarrow> command_might_be_dangerous (bash_tree (ae_parsers env)) command) \<or>
                 environment_lacks_sandbox_protections
         then (case approval_policy of
                 Never \<Rightarrow> if \<not> is_managed (uc_permission_profile ctx) then Allow else Forbidden
               | _ \<Rightarrow> Prompt)
         else (case approval_policy of
                 Never \<Rightarrow> Allow
               | OnFailure \<Rightarrow> Allow
               | UnlessTrusted \<Rightarrow> Prompt
               | OnRequest \<Rightarrow> restricted_decision (uc_file_system_policy ctx) (uc_sandbox_permissions ctx)
               | Granular _ \<Rightarrow> restricted_decision (uc_file_system_policy ctx) (uc_sandbox_permissions ctx)))"

definition commands_for_exec_policy :: "approval_env \<Rightarrow> rstr list \<Rightarrow> exec_policy_commands" where
  "commands_for_exec_policy env command =
     (let tree = bash_tree (ae_parsers env) in
      case filter_option (\<lambda>cs. cs \<noteq> []) (parse_shell_lc_plain_commands tree command) of
        Some commands \<Rightarrow> \<lparr>epc_commands = commands, epc_used_complex_parsing = False, epc_command_origin = GenericOrigin\<rparr>
      | None \<Rightarrow>
          (case parse_shell_lc_single_command_prefix tree command of
             Some single_command \<Rightarrow>
               \<lparr>epc_commands = [single_command], epc_used_complex_parsing = True, epc_command_origin = GenericOrigin\<rparr>
           | None \<Rightarrow> \<lparr>epc_commands = [command], epc_used_complex_parsing = False, epc_command_origin = GenericOrigin\<rparr>))"

section \<open>Proposed amendments\<close>

definition is_policy_match :: "rule_match \<Rightarrow> bool" where
  "is_policy_match m \<longleftrightarrow> \<not> is_heuristics m"

definition policy_match_with :: "decision \<Rightarrow> rule_match \<Rightarrow> bool" where
  "policy_match_with d m \<longleftrightarrow> is_policy_match m \<and> match_decision m = d"

fun heuristics_command :: "decision \<Rightarrow> rule_match \<Rightarrow> rstr list option" where
  "heuristics_command d (HeuristicsRuleMatch command e) = (if e = d then Some command else None)"
| "heuristics_command d (PrefixRuleMatch _ _ _ _) = None"

definition try_derive_execpolicy_amendment_for_prompt_rules :: "rule_match list \<Rightarrow> rstr list option" where
  "try_derive_execpolicy_amendment_for_prompt_rules ms =
     (if list_ex (policy_match_with Prompt) ms then None else find_map (heuristics_command Prompt) ms)"

definition try_derive_execpolicy_amendment_for_allow_rules :: "rule_match list \<Rightarrow> rstr list option" where
  "try_derive_execpolicy_amendment_for_allow_rules ms =
     (if list_ex is_policy_match ms then None else find_map (heuristics_command Allow) ms)"

definition BANNED_PREFIX_SUGGESTIONS :: "rstr list list" where
  "BANNED_PREFIX_SUGGESTIONS = map (map lit)
     [[''python3''], [''python3'', ''-''], [''python3'', ''-c''], [''python''], [''python'', ''-''], [''python'', ''-c''],
      [''py''], [''py'', ''-3''], [''pythonw''], [''pyw''], [''pypy''], [''pypy3''], [''git''], [''bash''], [''bash'', ''-lc''],
      [''sh''], [''sh'', ''-c''], [''sh'', ''-lc''], [''zsh''], [''zsh'', ''-lc''], [''/bin/zsh''], [''/bin/zsh'', ''-lc''],
      [''/bin/bash''], [''/bin/bash'', ''-lc''], [''pwsh''], [''pwsh'', ''-Command''], [''pwsh'', ''-c''],
      [''powershell''], [''powershell'', ''-Command''], [''powershell'', ''-c''],
      [''powershell.exe''], [''powershell.exe'', ''-Command''], [''powershell.exe'', ''-c''],
      [''env''], [''sudo''], [''node''], [''node'', ''-e''], [''perl''], [''perl'', ''-e''], [''ruby''], [''ruby'', ''-e''],
      [''php''], [''php'', ''-r''], [''lua''], [''lua'', ''-e''], [''osascript'']]"

definition host_of :: "approval_env \<Rightarrow> host_env" where
  "host_of env = host_env.truncate (ae_sandbox env)"

fun all_checks :: "('a \<Rightarrow> ('e, bool) outcome) \<Rightarrow> 'a list \<Rightarrow> ('e, bool) outcome" where
  "all_checks f [] = Ok True"
| "all_checks f (x # xs) = and_then (f x) (\<lambda>b. if b then all_checks f xs else Ok False)"

definition prefix_rule_would_approve_all_commands ::
  "'m multimap \<Rightarrow> approval_env \<Rightarrow> 'm policy \<Rightarrow> rstr list \<Rightarrow> rstr list list \<Rightarrow> (rstr list \<Rightarrow> decision) \<Rightarrow>
   (policy_error, bool) outcome" where
  "prefix_rule_would_approve_all_commands mm env pol pre commands fallback =
     (case add_prefix_rule mm pol pre Allow of
        Ok policy_with_prefix_rule \<Rightarrow>
          all_checks (\<lambda>command.
            and_then (check_with_options mm (host_of env) policy_with_prefix_rule command fallback resolving)
              (\<lambda>ev. Ok (eval_decision ev = Allow))) commands
      | Err _ \<Rightarrow> Ok False
      | Panic \<Rightarrow> Panic)"

definition derive_requested_execpolicy_amendment_from_prefix_rule ::
  "'m multimap \<Rightarrow> approval_env \<Rightarrow> rstr list option \<Rightarrow> rule_match list \<Rightarrow> 'm policy \<Rightarrow> rstr list list \<Rightarrow>
   (rstr list \<Rightarrow> decision) \<Rightarrow> (policy_error, rstr list option) outcome" where
  "derive_requested_execpolicy_amendment_from_prefix_rule mm env prefix_rule ms pol commands fallback =
     (case prefix_rule of
        None \<Rightarrow> Ok None
      | Some pre \<Rightarrow>
          if pre = [] then Ok None
          else if list_ex (\<lambda>banned. length pre = length banned \<and> pre = banned) BANNED_PREFIX_SUGGESTIONS then Ok None
          else if list_ex is_policy_match ms then Ok None
          else and_then (prefix_rule_would_approve_all_commands mm env pol pre commands fallback)
                 (\<lambda>ok. Ok (if ok then Some pre else None)))"

section \<open>Reasons\<close>

definition render_shlex_command :: "approval_env \<Rightarrow> rstr list \<Rightarrow> rstr" where
  "render_shlex_command env args = (case ae_shlex_join env args of Some s \<Rightarrow> s | None \<Rightarrow> join (lit '' '') args)"

fun rule_hit :: "decision \<Rightarrow> rule_match \<Rightarrow> (rstr list \<times> rstr option) option" where
  "rule_hit d (PrefixRuleMatch matched_prefix e _ justification) = (if e = d then Some (matched_prefix, justification) else None)"
| "rule_hit d (HeuristicsRuleMatch _ _) = None"

definition most_specific :: "decision \<Rightarrow> rule_match list \<Rightarrow> (rstr list \<times> rstr option) option" where
  "most_specific d ms = max_by_key (\<lambda>hit. length (fst hit)) (List.map_filter (rule_hit d) ms)"

definition derive_prompt_reason :: "approval_env \<Rightarrow> rstr list \<Rightarrow> evaluation \<Rightarrow> rstr option" where
  "derive_prompt_reason env args ev =
     (let command = render_shlex_command env args in
      case most_specific Prompt (matched_rules ev) of
        Some (_, Some justification) \<Rightarrow> Some (lit ''`'' @ command @ lit ''` requires approval: '' @ justification)
      | Some (_, None) \<Rightarrow> Some (lit ''`'' @ command @ lit ''` requires approval by policy'')
      | None \<Rightarrow> None)"

definition derive_forbidden_reason :: "approval_env \<Rightarrow> rstr list \<Rightarrow> evaluation \<Rightarrow> rstr" where
  "derive_forbidden_reason env args ev =
     (let command = render_shlex_command env args in
      case most_specific Forbidden (matched_rules ev) of
        Some (_, Some justification) \<Rightarrow> lit ''`'' @ command @ lit ''` rejected: '' @ justification
      | Some (matched_prefix, None) \<Rightarrow>
          lit ''`'' @ command @ lit ''` rejected: policy forbids commands starting with `'' @
          render_shlex_command env matched_prefix @ lit ''`''
      | None \<Rightarrow> lit ''`'' @ command @ lit ''` rejected: blocked by policy'')"

section \<open>The requirement of a command\<close>

datatype approval_requirement =
    Skip bool "rstr list option"
  | NeedsApproval "rstr option" "rstr list option"
  | ForbiddenRun rstr

fun proposed_execpolicy_amendment :: "approval_requirement \<Rightarrow> rstr list option" where
  "proposed_execpolicy_amendment (NeedsApproval _ amendment) = amendment"
| "proposed_execpolicy_amendment (Skip _ amendment) = amendment"
| "proposed_execpolicy_amendment (ForbiddenRun _) = None"

record approval_request =
  req_command :: "rstr list"
  req_approval_policy :: ask_for_approval
  req_permission_profile :: permission_profile
  req_file_system_policy :: fs_policy
  req_sandbox_cwd :: rstr
  req_sandbox_permissions :: sandbox_permissions
  req_prefix_rule :: "rstr list option"

definition request_context :: "approval_request \<Rightarrow> exec_policy_commands \<Rightarrow> unmatched_context" where
  "request_context req cs =
     \<lparr>uc_approval_policy = req_approval_policy req, uc_permission_profile = req_permission_profile req,
      uc_file_system_policy = req_file_system_policy req, uc_sandbox_cwd = req_sandbox_cwd req,
      uc_sandbox_permissions = req_sandbox_permissions req, uc_used_complex_parsing = epc_used_complex_parsing cs,
      uc_command_origin = epc_command_origin cs\<rparr>"

definition requirement_of_evaluation ::
  "'m multimap \<Rightarrow> approval_env \<Rightarrow> 'm policy \<Rightarrow> approval_request \<Rightarrow> exec_policy_commands \<Rightarrow> evaluation \<Rightarrow> rstr list option \<Rightarrow>
   approval_requirement" where
  "requirement_of_evaluation mm env exec_policy req cs ev requested_amendment =
     (let auto_amendment_allowed = (\<not> epc_used_complex_parsing cs) in
      case eval_decision ev of
        Forbidden \<Rightarrow> ForbiddenRun (derive_forbidden_reason env (req_command req) ev)
      | Prompt \<Rightarrow>
          (case prompt_is_rejected_by_policy (req_approval_policy req) (list_ex (policy_match_with Prompt) (matched_rules ev)) of
             Some reason \<Rightarrow> ForbiddenRun reason
           | None \<Rightarrow>
               NeedsApproval (derive_prompt_reason env (req_command req) ev)
                 (if requested_amendment \<noteq> None then requested_amendment
                  else if auto_amendment_allowed then try_derive_execpolicy_amendment_for_prompt_rules (matched_rules ev)
                  else None))
      | Allow \<Rightarrow>
          Skip (list_all (\<lambda>command.
              list_ex (policy_match_with Allow)
                (matches_for_command_with_options mm (host_of env) exec_policy command None resolving)) (epc_commands cs))
            (if auto_amendment_allowed then try_derive_execpolicy_amendment_for_allow_rules (matched_rules ev) else None))"

definition create_exec_approval_requirement_for_command ::
  "'m multimap \<Rightarrow> approval_env \<Rightarrow> 'm policy \<Rightarrow> approval_request \<Rightarrow> (policy_error, approval_requirement) outcome" where
  "create_exec_approval_requirement_for_command mm env exec_policy req =
     (let cs = commands_for_exec_policy env (req_command req);
          commands = epc_commands cs;
          fallback = render_decision_for_unmatched_command env (request_context req cs)
      in and_then (check_multiple_with_options mm (host_of env) exec_policy commands fallback resolving) (\<lambda>ev.
         and_then
           (if \<not> epc_used_complex_parsing cs
            then derive_requested_execpolicy_amendment_from_prefix_rule mm env (req_prefix_rule req) (matched_rules ev)
              exec_policy commands fallback
            else Ok None) (\<lambda>requested_amendment.
         Ok (requirement_of_evaluation mm env exec_policy req cs ev requested_amendment))))"

definition default_exec_approval_requirement :: "ask_for_approval \<Rightarrow> fs_policy \<Rightarrow> approval_requirement" where
  "default_exec_approval_requirement policy pol =
     (let needs_approval =
        (case policy of
           Never \<Rightarrow> False
         | OnFailure \<Rightarrow> False
         | OnRequest \<Rightarrow> policy_kind pol = Restricted
         | Granular _ \<Rightarrow> policy_kind pol = Restricted
         | UnlessTrusted \<Rightarrow> True)
      in if needs_approval \<and> (case policy of Granular g \<Rightarrow> \<not> allows_sandbox_approval g | _ \<Rightarrow> False)
         then ForbiddenRun (lit ''approval policy disallowed sandbox approval prompt'')
         else if needs_approval then NeedsApproval None None
         else Skip False None)"

datatype sandbox_override = NoOverride | BypassSandboxFirstAttempt

definition sandbox_override_for_first_attempt ::
  "sandbox_permissions \<Rightarrow> approval_requirement \<Rightarrow> fs_policy \<Rightarrow> sandbox_override" where
  "sandbox_override_for_first_attempt perms requirement pol =
     (if (case requirement of Skip bypass_sandbox _ \<Rightarrow> bypass_sandbox | _ \<Rightarrow> False) then BypassSandboxFirstAttempt
      else if has_denied_read_restrictions pol then NoOverride
      else if requires_escalated_permissions perms then BypassSandboxFirstAttempt
      else NoOverride)"

section \<open>Amending the policy\<close>

datatype update_error = AppendRule rstr amend_error | JoinBlockingTask | AddRule policy_error

record update_io =
  semaphore_closed :: bool
  join_fails :: bool
  update_amend_io :: amend_io

text \<open>The policy in memory and the contents of the rules file.\<close>

record 'm policy_manager =
  current_policy :: "'m policy"
  rules_file :: "rstr option"

definition default_policy_path :: "rstr \<Rightarrow> rstr" where
  "default_policy_path codex_home = path_push (path_push codex_home (lit ''rules'')) (lit ''default.rules'')"

definition closed_error :: update_error where
  "closed_error = AddRule (InvalidRule (lit ''exec policy update semaphore closed''))"

definition append_blocking ::
  "update_io \<Rightarrow> rstr \<Rightarrow> (rstr option \<Rightarrow> amend_result) \<Rightarrow> 'm policy_manager \<Rightarrow> (update_error, unit) outcome \<times> 'm policy_manager" where
  "append_blocking io policy_path append_rule mgr =
     (if join_fails io then (Err JoinBlockingTask, mgr)
      else case append_rule (rules_file mgr) of
             (Ok _, file) \<Rightarrow> (Ok (), mgr\<lparr>rules_file := file\<rparr>)
           | (Err e, file) \<Rightarrow> (Err (AppendRule policy_path e), mgr\<lparr>rules_file := file\<rparr>)
           | (Panic, file) \<Rightarrow> (Err JoinBlockingTask, mgr\<lparr>rules_file := file\<rparr>))"

definition already_allowed :: "'m multimap \<Rightarrow> approval_env \<Rightarrow> 'm policy \<Rightarrow> rstr list \<Rightarrow> (policy_error, bool) outcome" where
  "already_allowed mm env pol command =
     and_then (check_multiple_with_options mm (host_of env) pol [command] (\<lambda>_. Forbidden) resolving) (\<lambda>ev.
       Ok (eval_decision ev = Allow \<and> list_ex (policy_match_with Allow) (matched_rules ev)))"

definition append_amendment_and_update ::
  "'m multimap \<Rightarrow> approval_env \<Rightarrow> (rstr \<Rightarrow> rstr + rstr) \<Rightarrow> update_io \<Rightarrow> rstr \<Rightarrow> rstr list \<Rightarrow> 'm policy_manager \<Rightarrow>
   (update_error, unit) outcome \<times> 'm policy_manager" where
  "append_amendment_and_update mm env to_json io codex_home amendment mgr =
     (if semaphore_closed io then (Err closed_error, mgr)
      else
        (let policy_path = default_policy_path codex_home in
         case append_blocking io policy_path (blocking_append_allow_prefix_rule to_json (update_amend_io io) policy_path amendment) mgr of
           (Ok _, mgr) \<Rightarrow>
             (case already_allowed mm env (current_policy mgr) amendment of
                Ok True \<Rightarrow> (Ok (), mgr)
              | Ok False \<Rightarrow>
                  (case add_prefix_rule mm (current_policy mgr) amendment Allow of
                     Ok updated_policy \<Rightarrow> (Ok (), mgr\<lparr>current_policy := updated_policy\<rparr>)
                   | Err e \<Rightarrow> (Err (AddRule e), mgr)
                   | Panic \<Rightarrow> (Panic, mgr))
              | Err _ \<Rightarrow> (Panic, mgr)
              | Panic \<Rightarrow> (Panic, mgr))
         | (r, mgr) \<Rightarrow> (r, mgr)))"

definition append_network_rule_and_update ::
  "(rstr \<Rightarrow> rstr + rstr) \<Rightarrow> update_io \<Rightarrow> rstr \<Rightarrow> rstr \<Rightarrow> network_rule_protocol \<Rightarrow> decision \<Rightarrow> rstr option \<Rightarrow> 'm policy_manager \<Rightarrow>
   (update_error, unit) outcome \<times> 'm policy_manager" where
  "append_network_rule_and_update to_json io codex_home host protocol d justification mgr =
     (if semaphore_closed io then (Err closed_error, mgr)
      else
        (let policy_path = default_policy_path codex_home in
         case append_blocking io policy_path
           (blocking_append_network_rule to_json (update_amend_io io) policy_path host protocol d justification) mgr of
           (Ok _, mgr) \<Rightarrow>
             (case add_network_rule (current_policy mgr) host protocol d justification of
                Ok updated_policy \<Rightarrow> (Ok (), mgr\<lparr>current_policy := updated_policy\<rparr>)
              | Err e \<Rightarrow> (Err (AddRule e), mgr)
              | Panic \<Rightarrow> (Panic, mgr))
         | (r, mgr) \<Rightarrow> (r, mgr)))"

section \<open>Decisions per segment\<close>

text \<open>The segments of a command, the rules that match one, and the decision the heuristics would give it.\<close>

definition segments :: "approval_env \<Rightarrow> approval_request \<Rightarrow> rstr list list" where
  "segments env req = epc_commands (commands_for_exec_policy env (req_command req))"

definition rules_on :: "'m multimap \<Rightarrow> approval_env \<Rightarrow> 'm policy \<Rightarrow> rstr list \<Rightarrow> rule_match list" where
  "rules_on mm env pol c = matches_for_command_with_options mm (host_of env) pol c None resolving"

definition heuristics :: "approval_env \<Rightarrow> approval_request \<Rightarrow> rstr list \<Rightarrow> decision" where
  "heuristics env req =
     render_decision_for_unmatched_command env (request_context req (commands_for_exec_policy env (req_command req)))"

definition segment_decision :: "'m multimap \<Rightarrow> approval_env \<Rightarrow> 'm policy \<Rightarrow> approval_request \<Rightarrow> rstr list \<Rightarrow> decision" where
  "segment_decision mm env pol req c =
     (if rules_on mm env pol c = [] then heuristics env req c else Max (match_decision ` set (rules_on mm env pol c)))"

definition prompting_rule :: "'m multimap \<Rightarrow> approval_env \<Rightarrow> 'm policy \<Rightarrow> approval_request \<Rightarrow> bool" where
  "prompting_rule mm env pol req \<longleftrightarrow>
     (\<exists>c\<in>set (segments env req). \<exists>m\<in>set (rules_on mm env pol c). match_decision m = Prompt)"

lemma segments_not_Nil: "segments env req \<noteq> []"
  by (auto simp: segments_def commands_for_exec_policy_def Let_def filter_option_def split: option.splits)

lemma matches_with_fallback:
  "matches_for_command_with_options mm (host_of env) pol c (Some f) resolving =
     (if rules_on mm env pol c = [] then [HeuristicsRuleMatch c (f c)] else rules_on mm env pol c)"
  by (simp add: rules_on_def matches_for_command_with_options_def Let_def)

lemma with_resolved_program_match: "is_heuristics (with_resolved_program m p) \<longleftrightarrow> is_heuristics m"
  by (cases m) simp_all

lemma host_match_policy: "m \<in> set (match_host_executable_rules mm env p cmd) \<Longrightarrow> \<not> is_heuristics m"
proof -
  assume m: "m \<in> set (match_host_executable_rules mm env p cmd)"
  obtain prog hits where "match_host_executable_rules mm env p cmd = map (\<lambda>m. with_resolved_program m prog) hits"
    "\<forall>h\<in>set hits. \<not> is_heuristics h"
  proof (cases "match_host_executable_rules mm env p cmd = []")
    case False
    then obtain prog rules base args where "match_host_executable_rules mm env p cmd =
        map (\<lambda>m. with_resolved_program m prog) (pr.hits rules (base # args))"
      by (cases cmd) (auto simp: match_host_executable_rules_def pr.hits_def split: sum.splits option.splits if_splits)
    then show ?thesis by (rule that) (auto simp: pr.hits_iff rule_matches_iff)
  qed (use m in simp)
  with m show ?thesis by (auto simp: with_resolved_program_match)
qed

lemma rules_on_policy: "m \<in> set (rules_on mm env pol c) \<Longrightarrow> is_policy_match m"
  using exact_not_heuristics [of m mm pol c] host_match_policy [of m mm "host_of env" pol c]
  by (auto simp: is_policy_match_def rules_on_def matches_for_command_with_options_def Let_def exact_matches_def split: if_splits)

lemma Max_concat_le:
  "xss \<noteq> [] \<Longrightarrow> \<forall>xs\<in>set xss. xs \<noteq> [] \<Longrightarrow>
   Max (f ` set (concat xss)) \<le> (d :: 'b :: linorder) \<longleftrightarrow> (\<forall>xs\<in>set xss. Max (f ` set xs) \<le> d)"
proof -
  assume ne: "xss \<noteq> []" "\<forall>xs\<in>set xss. xs \<noteq> []"
  then obtain xs where "xs \<in> set xss" "xs \<noteq> []" using hd_in_set by blast
  then have "set (concat xss) \<noteq> {}" by auto
  then have "Max (f ` set (concat xss)) \<le> d \<longleftrightarrow> (\<forall>y\<in>set (concat xss). f y \<le> d)" by (subst Max_le_iff) auto
  moreover have "Max (f ` set xs) \<le> d \<longleftrightarrow> (\<forall>y\<in>set xs. f y \<le> d)" if "xs \<in> set xss" for xs
    using ne(2) that by (subst Max_le_iff) auto
  ultimately show ?thesis by auto
qed

lemma evaluation_of_request:
  obtains ev where
    "check_multiple_with_options mm (host_of env) pol (segments env req) (heuristics env req) resolving = Ok ev"
    "\<And>d. eval_decision ev \<le> d \<longleftrightarrow> (\<forall>c\<in>set (segments env req). segment_decision mm env pol req c \<le> d)"
    "list_ex (policy_match_with d) (matched_rules ev) \<longleftrightarrow>
      (\<exists>c\<in>set (segments env req). \<exists>m\<in>set (rules_on mm env pol c). match_decision m = d)"
proof -
  let ?ms = "\<lambda>c. matches_for_command_with_options mm (host_of env) pol c (Some (heuristics env req)) resolving"
  let ?all = "concat (map ?ms (segments env req))"
  let ?ev = "\<lparr>eval_decision = Max (match_decision ` set ?all), matched_rules = ?all\<rparr>"
  have ne: "\<forall>xs\<in>set (map ?ms (segments env req)). xs \<noteq> []" by (simp add: matches_with_fallback_not_Nil)
  then have "?all \<noteq> []" using segments_not_Nil [of env req] hd_in_set by fastforce
  then have "check_multiple_with_options mm (host_of env) pol (segments env req) (heuristics env req) resolving = Ok ?ev"
    by (simp add: check_multiple_with_options_def from_matches_eq)
  moreover have "segment_decision mm env pol req c = Max (match_decision ` set (?ms c))" for c
    by (simp add: matches_with_fallback segment_decision_def)
  then have "eval_decision ?ev \<le> d \<longleftrightarrow> (\<forall>c\<in>set (segments env req). segment_decision mm env pol req c \<le> d)" for d
    using Max_concat_le [OF _ ne, of match_decision d] segments_not_Nil [of env req] by simp
  moreover have "policy_match_with d m \<and> m \<in> set (?ms c) \<longleftrightarrow> m \<in> set (rules_on mm env pol c) \<and> match_decision m = d" for d m c
    using rules_on_policy [of m mm env pol c]
    by (auto simp: matches_with_fallback policy_match_with_def is_policy_match_def)
  then have "list_ex (policy_match_with d) (matched_rules ?ev) \<longleftrightarrow>
      (\<exists>c\<in>set (segments env req). \<exists>m\<in>set (rules_on mm env pol c). match_decision m = d)"
    by (simp add: list_ex_iff) blast
  ultimately show ?thesis using that by blast
qed

lemma all_checks_total: "(\<And>x. x \<in> set xs \<Longrightarrow> \<exists>b. f x = Ok b) \<Longrightarrow> \<exists>b. all_checks f xs = Ok b"
  by (induction xs) (fastforce split: if_splits)+

lemma would_approve_total: "\<exists>b. prefix_rule_would_approve_all_commands mm env pol pre commands f = Ok b"
  unfolding prefix_rule_would_approve_all_commands_def add_prefix_rule_def
  by (cases pre) (auto simp: check_with_options_Ok intro!: all_checks_total)

lemma derive_requested_total: "\<exists>a. derive_requested_execpolicy_amendment_from_prefix_rule mm env pre ms pol commands f = Ok a"
proof (cases pre)
  case (Some p)
  obtain b where "prefix_rule_would_approve_all_commands mm env pol p commands f = Ok b" using would_approve_total by blast
  with Some show ?thesis by (simp add: derive_requested_execpolicy_amendment_from_prefix_rule_def)
qed (simp add: derive_requested_execpolicy_amendment_from_prefix_rule_def)

lemma decision_le_simps: "d \<le> Allow \<longleftrightarrow> d = Allow" "d \<le> Prompt \<longleftrightarrow> d \<noteq> Forbidden"
  by (cases d; simp add: less_eq_decision_def)+

lemma segment_rule_le: "m \<in> set (rules_on mm env pol c) \<Longrightarrow> match_decision m \<le> segment_decision mm env pol req c"
  by (auto simp: segment_decision_def intro: Max_ge)

lemma segment_allow_rules:
  "segment_decision mm env pol req c = Allow \<Longrightarrow> m \<in> set (rules_on mm env pol c) \<Longrightarrow> match_decision m = Allow"
  using segment_rule_le [of m mm env pol c req] by (simp add: decision_le_simps)

text \<open>
  The requirement in terms of the segments' decisions: the command is skipped over when every segment
  is allowed, refused when one is forbidden or when the approval setting takes no prompt of its kind,
  and presented to the user otherwise.
\<close>

lemma requirement_by_segments:
  obtains r where "create_exec_approval_requirement_for_command mm env pol req = Ok r"
    "case r of
       Skip bypass _ \<Rightarrow>
         (\<forall>c\<in>set (segments env req). segment_decision mm env pol req c = Allow) \<and>
         (bypass \<longleftrightarrow> (\<forall>c\<in>set (segments env req). rules_on mm env pol c \<noteq> []))
     | NeedsApproval _ _ \<Rightarrow>
         (\<forall>c\<in>set (segments env req). segment_decision mm env pol req c \<noteq> Forbidden) \<and>
         (\<exists>c\<in>set (segments env req). segment_decision mm env pol req c = Prompt) \<and>
         prompt_is_rejected_by_policy (req_approval_policy req) (prompting_rule mm env pol req) = None
     | ForbiddenRun _ \<Rightarrow>
         (\<exists>c\<in>set (segments env req). segment_decision mm env pol req c = Forbidden) \<or>
         (\<exists>c\<in>set (segments env req). segment_decision mm env pol req c = Prompt) \<and>
         prompt_is_rejected_by_policy (req_approval_policy req) (prompting_rule mm env pol req) \<noteq> None"
proof -
  obtain ev where ev: "check_multiple_with_options mm (host_of env) pol (segments env req) (heuristics env req) resolving = Ok ev"
    "\<And>d. eval_decision ev \<le> d \<longleftrightarrow> (\<forall>c\<in>set (segments env req). segment_decision mm env pol req c \<le> d)"
    "list_ex (policy_match_with Prompt) (matched_rules ev) \<longleftrightarrow> prompting_rule mm env pol req"
    unfolding prompting_rule_def using evaluation_of_request [of mm env pol req Prompt] by blast
  obtain a where a: "(if \<not> epc_used_complex_parsing (commands_for_exec_policy env (req_command req))
      then derive_requested_execpolicy_amendment_from_prefix_rule mm env (req_prefix_rule req) (matched_rules ev) pol
        (segments env req) (heuristics env req) else Ok None) = Ok a"
    using derive_requested_total [of mm env "req_prefix_rule req" "matched_rules ev" pol "segments env req" "heuristics env req"]
    by (cases "epc_used_complex_parsing (commands_for_exec_policy env (req_command req))") (simp, force)
  have bypass: "list_ex (policy_match_with Allow) (rules_on mm env pol c) \<longleftrightarrow> rules_on mm env pol c \<noteq> []"
    if "segment_decision mm env pol req c = Allow" for c
    using segment_allow_rules [OF that] rules_on_policy [of _ mm env pol c]
    by (cases "rules_on mm env pol c") (auto simp: policy_match_with_def)
  have all: "(eval_decision ev = Allow \<longleftrightarrow> (\<forall>c\<in>set (segments env req). segment_decision mm env pol req c = Allow))"
    "(eval_decision ev \<noteq> Forbidden \<longleftrightarrow> (\<forall>c\<in>set (segments env req). segment_decision mm env pol req c \<noteq> Forbidden))"
    using ev(2) [of Allow] ev(2) [of Prompt] by (simp_all add: decision_le_simps)
  have prompt: "\<exists>c\<in>set (segments env req). segment_decision mm env pol req c = Prompt" if "eval_decision ev = Prompt"
    using that all decision.exhaust by (metis decision.distinct(1,5))
  let ?r = "requirement_of_evaluation mm env pol req (commands_for_exec_policy env (req_command req)) ev a"
  have "create_exec_approval_requirement_for_command mm env pol req = Ok ?r"
    by (simp only: create_exec_approval_requirement_for_command_def Let_def segments_def [symmetric] heuristics_def [symmetric]
        ev(1) a and_then.simps)
  then show ?thesis
  proof (rule that, goal_cases)
    case 1
    note req = requirement_of_evaluation_def Let_def list_all_iff segments_def [symmetric] rules_on_def [symmetric] ev(3)
    show ?case
    proof (cases "eval_decision ev")
      case Allow
      with all(1) bypass show ?thesis by (simp add: req)
    next
      case Prompt
      with all(2) prompt show ?thesis
        by (cases "prompt_is_rejected_by_policy (req_approval_policy req) (prompting_rule mm env pol req)") (simp_all add: req)
    next
      case Forbidden
      with all(2) show ?thesis by (simp add: req)
    qed
  qed
qed

text \<open>A rule added in memory counts for exactly the commands that begin with its prefix, next to the rules there were.\<close>

lemma singles_match: "list_all2 token_matches (map SingleToken ts) args \<longleftrightarrow> args = ts"
  by (induction ts arbitrary: args) (auto simp: list_all2_Cons1)

lemma added_rule_exact:
  assumes "lawful_multimap mm" "add_prefix_rule mm pol am d = Ok pol'"
  shows "set (exact_matches mm pol' c) =
    set (exact_matches mm pol c) \<union> (if prefix am c then {PrefixRuleMatch am d None None} else {})"
proof -
  obtain first rest where am: "am = first # rest" using assms(2) by (cases am) (simp_all add: add_prefix_rule_def)
  define rule where "rule = \<lparr>rule_pattern = \<lparr>pattern_first = first, pattern_rest = map SingleToken rest\<rparr>,
    rule_decision = d, rule_justification = None\<rparr>"
  have pol': "pol' = pol\<lparr>rules_by_program := mm_insert mm (rules_by_program pol) first rule\<rparr>"
    using assms(2) by (simp add: add_prefix_rule_def am rule_def)
  have new: "rule_matches rule c = Some m \<longleftrightarrow> prefix am c \<and> m = PrefixRuleMatch am d None None" for m
    by (auto simp: rule_matches_def rule_def matches_prefix_iff singles_match am prefix_def)
  show ?thesis
  proof (cases "c \<noteq> [] \<and> hd c = first")
    case True
    then show ?thesis
      by (auto simp: exact_matches_def match_exact_hits unwrap_or_def pol' rules_for_insert [OF assms(1)] pr.hits_iff new)
  next
    case False
    then have "\<not> prefix am c" by (auto simp: am prefix_def)
    with False show ?thesis
      by (auto simp: exact_matches_def match_exact_hits unwrap_or_def pol' rules_for_insert [OF assms(1)])
  qed
qed

lemma rules_on_exact: "exact_matches mm pol c \<noteq> [] \<Longrightarrow> rules_on mm env pol c = exact_matches mm pol c"
  by (simp add: rules_on_def matches_for_command_with_options_def exact_matches_def Let_def)

lemma added_rule_matches:
  assumes "lawful_multimap mm" "add_prefix_rule mm pol am d = Ok pol'"
  shows "set (rules_on mm env pol' am) = insert (PrefixRuleMatch am d None None) (set (exact_matches mm pol am))"
  using added_rule_exact [OF assms, of am] rules_on_exact [of mm pol' am env] by (cases "exact_matches mm pol' am") auto

lemma rules_on_empty: "lawful_multimap mm \<Longrightarrow> rules_on mm env (policy_empty mm) c = []"
  by (cases c) (auto simp: rules_on_def matches_for_command_with_options_def Let_def match_exact_hits host_match_hits policy_empty_def
      rules_for_new pr.hits_def List.map_filter_def unwrap_or_def split: sum.split option.split)

definition quiet_env :: approval_env where
  "quiet_env = \<lparr>ae_parsers = \<lparr>bash_tree = (\<lambda>_. None), powershell_ast = no_powershell\<rparr>, ae_sandbox = work_env,
     ae_shlex_join = (\<lambda>_. None)\<rparr>"

definition plain_request :: "rstr list \<Rightarrow> ask_for_approval \<Rightarrow> approval_request" where
  "plain_request command policy =
     \<lparr>req_command = command, req_approval_policy = policy, req_permission_profile = profile_read_only,
      req_file_system_policy = repo_policy, req_sandbox_cwd = lit ''/w'', req_sandbox_permissions = UseDefault,
      req_prefix_rule = Some [lit ''rm'']\<rparr>"

lemma plain_segments:
  shows "commands_for_exec_policy quiet_env command =
      \<lparr>epc_commands = [command], epc_used_complex_parsing = False, epc_command_origin = GenericOrigin\<rparr>"
    and "segments quiet_env (plain_request command policy) = [command]"
proof -
  have "parse_shell_lc_plain_commands (\<lambda>_. None) command = None" "parse_shell_lc_single_command_prefix (\<lambda>_. None) command = None"
    by (auto simp: parse_shell_lc_plain_commands_def parse_shell_lc_single_command_prefix_def split: option.split)
  then show "commands_for_exec_policy quiet_env command =
      \<lparr>epc_commands = [command], epc_used_complex_parsing = False, epc_command_origin = GenericOrigin\<rparr>"
    by (simp add: commands_for_exec_policy_def quiet_env_def filter_option_def)
  then show "segments quiet_env (plain_request command policy) = [command]" by (simp add: segments_def plain_request_def)
qed

lemma all_allowed_skips:
  assumes "\<And>c. c \<in> set (segments env req) \<Longrightarrow> segment_decision mm env pol req c = Allow"
  shows "\<exists>bypass amendment. create_exec_approval_requirement_for_command mm env pol req = Ok (Skip bypass amendment)"
proof -
  obtain r where r: "create_exec_approval_requirement_for_command mm env pol req = Ok r"
    "case r of
       Skip bypass _ \<Rightarrow> True
     | NeedsApproval _ _ \<Rightarrow> \<exists>c\<in>set (segments env req). segment_decision mm env pol req c = Prompt
     | ForbiddenRun _ \<Rightarrow> \<exists>c\<in>set (segments env req). segment_decision mm env pol req c \<noteq> Allow"
    by (rule requirement_by_segments [of mm env pol req]) (fastforce split: approval_requirement.splits)
  with assms show ?thesis by (cases r) auto
qed

lemma ls_allowed: "heuristics quiet_env (plain_request [lit ''ls''] OnRequest) [lit ''ls''] = Allow"
proof -
  have tree: "bash_tree (ae_parsers quiet_env) = (\<lambda>_. None)" by (simp add: quiet_env_def)
  have "\<not> command_might_be_dangerous (\<lambda>_. None) [lit ''ls'']"
    by (auto simp: command_might_be_dangerous_def parse_shell_lc_plain_commands_def split: option.split)
  then show ?thesis
    by (simp add: heuristics_def plain_request_def plain_segments(1) render_decision_for_unmatched_command_def request_context_def tree
        cfg_windows_def restricted_decision_def requests_sandbox_override_def repo_policy_def restricted_def del: lit_simps)
qed

section \<open>What runs without asking\<close>

text \<open>
  (C37) A command that runs without asking: no segment has a rule that prompts or forbids; and where a
  segment has no rule at all, the sandbox is not bypassed, a segment that looks dangerous means that
  prompts and sandbox are both switched off (or that the segment is one of the known safe ones), under
  \<^verbatim>\<open>untrusted\<close> it is a known safe command of a script that was fully understood, and a request to
  leave a restricted sandbox was not passed over (unless the setting never asks beforehand).
\<close>
theorem unasked_command_is_trusted:
  assumes "create_exec_approval_requirement_for_command mm env pol req = Ok (Skip bypass amendment)"
    "c \<in> set (segments env req)"
  shows "(\<forall>m\<in>set (rules_on mm env pol c). match_decision m = Allow) \<and>
    (rules_on mm env pol c = [] \<longrightarrow>
      \<not> bypass \<and>
      (command_might_be_dangerous (bash_tree (ae_parsers env)) c \<longrightarrow>
        req_approval_policy req = Never \<and> \<not> is_managed (req_permission_profile req) \<or>
        req_approval_policy req = UnlessTrusted \<and> is_known_safe_command (ae_parsers env) c) \<and>
      (req_approval_policy req = UnlessTrusted \<longrightarrow>
        is_known_safe_command (ae_parsers env) c \<and>
        \<not> epc_used_complex_parsing (commands_for_exec_policy env (req_command req))) \<and>
      (policy_kind (req_file_system_policy req) = Restricted \<and> requests_sandbox_override (req_sandbox_permissions req) \<longrightarrow>
        req_approval_policy req \<in> {Never, OnFailure, UnlessTrusted}))"
proof -
  obtain r where r: "create_exec_approval_requirement_for_command mm env pol req = Ok r"
    "case r of
       Skip bypass _ \<Rightarrow>
         (\<forall>c\<in>set (segments env req). segment_decision mm env pol req c = Allow) \<and>
         (bypass \<longleftrightarrow> (\<forall>c\<in>set (segments env req). rules_on mm env pol c \<noteq> []))
     | _ \<Rightarrow> True"
    by (rule requirement_by_segments [of mm env pol req]) (auto split: approval_requirement.splits)
  with assms have seg: "segment_decision mm env pol req c = Allow"
    and bypass: "bypass \<longleftrightarrow> (\<forall>c\<in>set (segments env req). rules_on mm env pol c \<noteq> [])" by auto
  have "heuristics env req c = Allow" if "rules_on mm env pol c = []" using seg that by (simp add: segment_decision_def)
  then show ?thesis
    using segment_allow_rules [OF seg] bypass assms(2)
    by (auto simp: heuristics_def render_decision_for_unmatched_command_def Let_def cfg_windows_def request_context_def
        restricted_decision_def split: if_splits ask_for_approval.splits command_origin.splits)
qed

theorem unasked_command_is_trusted_witness:
  "\<exists>bypass amendment. create_exec_approval_requirement_for_command dal_multimap quiet_env (policy_empty dal_multimap)
      (plain_request [lit ''ls''] OnRequest) = Ok (Skip bypass amendment) \<and> \<not> bypass"
proof -
  note none = rules_on_empty [OF dal_lawful]
  have "segment_decision dal_multimap quiet_env (policy_empty dal_multimap) (plain_request [lit ''ls''] OnRequest) c = Allow"
    if "c \<in> set (segments quiet_env (plain_request [lit ''ls''] OnRequest))" for c
    using that ls_allowed by (simp add: plain_segments segment_decision_def none del: lit_simps)
  from all_allowed_skips [OF this] obtain bypass amendment where skip: "create_exec_approval_requirement_for_command dal_multimap quiet_env
      (policy_empty dal_multimap) (plain_request [lit ''ls''] OnRequest) = Ok (Skip bypass amendment)" by blast
  have "[lit ''ls''] \<in> set (segments quiet_env (plain_request [lit ''ls''] OnRequest))" by (simp add: plain_segments)
  from unasked_command_is_trusted [OF skip this] none skip show ?thesis by blast
qed

text \<open>Which questions the settings let be asked: never one, all of them, or those of the granular setting.\<close>

definition question_allowed :: "ask_for_approval \<Rightarrow> bool \<Rightarrow> bool" where
  "question_allowed policy by_rule \<longleftrightarrow>
     (case policy of
        Never \<Rightarrow> False
      | Granular g \<Rightarrow> if by_rule then rules_approval g else sandbox_approval g
      | _ \<Rightarrow> True)"

lemma rejected_iff: "prompt_is_rejected_by_policy policy by_rule = None \<longleftrightarrow> question_allowed policy by_rule"
  by (cases policy) (simp_all add: question_allowed_def allows_rules_approval_def allows_sandbox_approval_def)

text \<open>The three answers exclude one another, and so do the three kinds of decision.\<close>

lemma answer_by_decisions:
  assumes "created = Ok r"
    and "case r of
       Skip bypass _ \<Rightarrow> \<forall>c\<in>S. d c = Allow
     | NeedsApproval _ _ \<Rightarrow> (\<forall>c\<in>S. d c \<noteq> Forbidden) \<and> (\<exists>c\<in>S. d c = Prompt) \<and> Q
     | ForbiddenRun _ \<Rightarrow> (\<exists>c\<in>S. d c = Forbidden) \<or> (\<exists>c\<in>S. d c = Prompt) \<and> \<not> Q"
    and "F \<Longrightarrow> \<exists>c\<in>S. d c = Forbidden"
    and "P \<Longrightarrow> \<exists>c\<in>S. d c \<noteq> Allow"
  shows "\<exists>r. created = Ok r \<and>
    ((\<exists>bypass amendment. r = Skip bypass amendment) \<longleftrightarrow> (\<forall>c\<in>S. d c = Allow)) \<and>
    ((\<exists>reason amendment. r = NeedsApproval reason amendment) \<longleftrightarrow>
      (\<forall>c\<in>S. d c \<noteq> Forbidden) \<and> (\<exists>c\<in>S. d c = Prompt) \<and> Q) \<and>
    ((\<exists>reason. r = ForbiddenRun reason) \<longleftrightarrow> (\<exists>c\<in>S. d c = Forbidden) \<or> (\<exists>c\<in>S. d c = Prompt) \<and> \<not> Q) \<and>
    (F \<longrightarrow> (\<exists>reason. r = ForbiddenRun reason)) \<and>
    (P \<longrightarrow> (\<forall>bypass amendment. r \<noteq> Skip bypass amendment))"
proof -
  define fb pr where "fb \<longleftrightarrow> (\<exists>c\<in>S. d c = Forbidden)" and "pr \<longleftrightarrow> (\<exists>c\<in>S. d c = Prompt)"
  have all: "(\<forall>c\<in>S. d c = Allow) \<longleftrightarrow> \<not> fb \<and> \<not> pr" and none: "(\<forall>c\<in>S. d c \<noteq> Forbidden) \<longleftrightarrow> \<not> fb"
    and some: "(\<exists>c\<in>S. d c \<noteq> Allow) \<longleftrightarrow> fb \<or> pr"
    unfolding fb_def pr_def by (metis decision.exhaust decision.distinct)+
  show ?thesis
    using assms unfolding all none some fb_def [symmetric] pr_def [symmetric] by (cases r) auto
qed

text \<open>
  (C38) The user's settings are respected, and every request gets an answer.  Each segment of the command has
  a decision, the strictest of its rules, or that of the heuristics where no rule covers it.  The command
  runs without asking exactly if every segment is allowed.  It is presented to the user exactly if none is
  forbidden, some segment prompts and the settings let that question be asked: never under
  \<^verbatim>\<open>never\<close>, under a granular setting only if it takes prompts of rules (where a rule prompts) or of the
  sandbox (where only the heuristics do).  Otherwise it is refused.  One forbidding rule on one segment
  refuses the whole command, and a prompting rule is never passed over.
\<close>
theorem approval_settings_respected:
  "\<exists>r. create_exec_approval_requirement_for_command mm env pol req = Ok r \<and>
    ((\<exists>bypass amendment. r = Skip bypass amendment) \<longleftrightarrow>
      (\<forall>c\<in>set (segments env req). segment_decision mm env pol req c = Allow)) \<and>
    ((\<exists>reason amendment. r = NeedsApproval reason amendment) \<longleftrightarrow>
      (\<forall>c\<in>set (segments env req). segment_decision mm env pol req c \<noteq> Forbidden) \<and>
      (\<exists>c\<in>set (segments env req). segment_decision mm env pol req c = Prompt) \<and>
      question_allowed (req_approval_policy req) (prompting_rule mm env pol req)) \<and>
    ((\<exists>reason. r = ForbiddenRun reason) \<longleftrightarrow>
      (\<exists>c\<in>set (segments env req). segment_decision mm env pol req c = Forbidden) \<or>
      (\<exists>c\<in>set (segments env req). segment_decision mm env pol req c = Prompt) \<and>
      \<not> question_allowed (req_approval_policy req) (prompting_rule mm env pol req)) \<and>
    ((\<exists>c\<in>set (segments env req). \<exists>m\<in>set (rules_on mm env pol c). match_decision m = Forbidden) \<longrightarrow>
      (\<exists>reason. r = ForbiddenRun reason)) \<and>
    (prompting_rule mm env pol req \<longrightarrow> (\<forall>bypass amendment. r \<noteq> Skip bypass amendment))"
proof -
  obtain r where r: "create_exec_approval_requirement_for_command mm env pol req = Ok r"
    "case r of
       Skip bypass _ \<Rightarrow> \<forall>c\<in>set (segments env req). segment_decision mm env pol req c = Allow
     | NeedsApproval _ _ \<Rightarrow>
         (\<forall>c\<in>set (segments env req). segment_decision mm env pol req c \<noteq> Forbidden) \<and>
         (\<exists>c\<in>set (segments env req). segment_decision mm env pol req c = Prompt) \<and>
         question_allowed (req_approval_policy req) (prompting_rule mm env pol req)
     | ForbiddenRun _ \<Rightarrow>
         (\<exists>c\<in>set (segments env req). segment_decision mm env pol req c = Forbidden) \<or>
         (\<exists>c\<in>set (segments env req). segment_decision mm env pol req c = Prompt) \<and>
         \<not> question_allowed (req_approval_policy req) (prompting_rule mm env pol req)"
    unfolding rejected_iff [symmetric]
    by (rule requirement_by_segments [of mm env pol req]) (auto split: approval_requirement.splits)
  have "segment_decision mm env pol req c = Forbidden"
    if "m \<in> set (rules_on mm env pol c)" "match_decision m = Forbidden" for c m
    using segment_rule_le [OF that(1), of req] that(2) decision_le_simps(2) [of "match_decision m"]
    by (cases "segment_decision mm env pol req c") (simp_all add: less_eq_decision_def)
  then have forbids: "\<exists>c\<in>set (segments env req). segment_decision mm env pol req c = Forbidden"
    if "\<exists>c\<in>set (segments env req). \<exists>m\<in>set (rules_on mm env pol c). match_decision m = Forbidden"
    using that by blast
  have prompts: "\<exists>c\<in>set (segments env req). segment_decision mm env pol req c \<noteq> Allow" if "prompting_rule mm env pol req"
    using that segment_allow_rules [of mm env pol req] by (auto simp: prompting_rule_def) (metis decision.distinct(1))
  show ?thesis
    using r(1) by (rule answer_by_decisions [OF _ r(2) forbids prompts])
qed

theorem approval_settings_respected_witness:
  "\<exists>pol reason. add_prefix_rule dal_multimap (policy_empty dal_multimap) [lit ''ls''] Forbidden = Ok pol \<and>
     create_exec_approval_requirement_for_command dal_multimap quiet_env pol (plain_request [lit ''ls''] OnRequest) =
       Ok (ForbiddenRun reason)"
proof -
  obtain pol where pol: "add_prefix_rule dal_multimap (policy_empty dal_multimap) [lit ''ls''] Forbidden = Ok pol"
    by (simp add: add_prefix_rule_def)
  have "\<exists>c\<in>set (segments quiet_env (plain_request [lit ''ls''] OnRequest)).
      \<exists>m\<in>set (rules_on dal_multimap quiet_env pol c). match_decision m = Forbidden"
    by (simp add: plain_segments added_rule_matches [OF dal_lawful pol] del: lit_simps)
  with approval_settings_respected [of dal_multimap quiet_env pol "plain_request [lit ''ls''] OnRequest"] pol
  show ?thesis by blast
qed

section \<open>Amendments\<close>

lemma all_checks_True: "all_checks f xs = Ok True \<Longrightarrow> x \<in> set xs \<Longrightarrow> f x = Ok True"
proof (induction xs)
  case (Cons y ys)
  then show ?case by (cases "f y") (auto split: if_splits)
qed simp

text \<open>
  A rule the model asks for is only proposed to the user when accepting it is enough: it is not empty,
  not one of the prefixes that would allow arbitrary code, and with the rule added the same request
  runs without asking.
\<close>
theorem requested_amendment_settles:
  assumes "derive_requested_execpolicy_amendment_from_prefix_rule mm env (req_prefix_rule req) ms pol
      (segments env req) (heuristics env req) = Ok (Some amendment)"
  shows "amendment \<noteq> [] \<and> amendment \<notin> set BANNED_PREFIX_SUGGESTIONS \<and>
    (\<exists>pol'. add_prefix_rule mm pol amendment Allow = Ok pol' \<and>
      (\<exists>bypass am. create_exec_approval_requirement_for_command mm env pol' req = Ok (Skip bypass am)))"
proof -
  from assms have am: "req_prefix_rule req = Some amendment" "amendment \<noteq> []" "amendment \<notin> set BANNED_PREFIX_SUGGESTIONS"
    "prefix_rule_would_approve_all_commands mm env pol amendment (segments env req) (heuristics env req) = Ok True"
    by (auto simp: derive_requested_execpolicy_amendment_from_prefix_rule_def and_then_Ok_iff list_ex_iff
        split: option.splits if_splits)
  then obtain pol' where pol': "add_prefix_rule mm pol amendment Allow = Ok pol'" by (cases amendment) (auto simp: add_prefix_rule_def)
  have "segment_decision mm env pol' req c = Allow" if "c \<in> set (segments env req)" for c
    using all_checks_True [OF _ that] am(4) pol'
    by (fastforce simp: prefix_rule_would_approve_all_commands_def check_with_options_Ok segment_decision_def matches_with_fallback)
  then show ?thesis using am pol' all_allowed_skips by blast
qed

lemma rm_rule_approves:
  "derive_requested_execpolicy_amendment_from_prefix_rule dal_multimap quiet_env
     (req_prefix_rule (plain_request [lit ''rm'', lit ''-f'', lit ''x''] OnRequest)) []
     (policy_empty dal_multimap) (segments quiet_env (plain_request [lit ''rm'', lit ''-f'', lit ''x''] OnRequest))
     (heuristics quiet_env (plain_request [lit ''rm'', lit ''-f'', lit ''x''] OnRequest)) = Ok (Some [lit ''rm''])"
proof -
  let ?c = "[lit ''rm'', lit ''-f'', lit ''x'']"
  let ?pol = "(policy_empty dal_multimap)\<lparr>rules_by_program := mm_insert dal_multimap (rules_by_program (policy_empty dal_multimap)) (lit ''rm'')
    \<lparr>rule_pattern = \<lparr>pattern_first = lit ''rm'', pattern_rest = []\<rparr>, rule_decision = Allow, rule_justification = None\<rparr>\<rparr>"
  have pol: "add_prefix_rule dal_multimap (policy_empty dal_multimap) [lit ''rm''] Allow = Ok ?pol" by (simp add: add_prefix_rule_def)
  have "rules_on dal_multimap quiet_env ?pol ?c = [PrefixRuleMatch [lit ''rm''] Allow None None]"
    by (simp add: rules_on_def matches_for_command_with_options_def match_exact_hits unwrap_or_def policy_empty_def dal_eval
        pr.hits_def List.map_filter_def rule_matches_def matches_prefix_def)
  then have "prefix_rule_would_approve_all_commands dal_multimap quiet_env (policy_empty dal_multimap) [lit ''rm''] [?c] f = Ok True" for f
    by (simp add: prefix_rule_would_approve_all_commands_def pol check_with_options_Ok matches_with_fallback del: lit_simps)
  moreover have "\<not> list_ex (\<lambda>banned. length [lit ''rm''] = length banned \<and> [lit ''rm''] = banned) BANNED_PREFIX_SUGGESTIONS"
    by (simp add: BANNED_PREFIX_SUGGESTIONS_def)
  ultimately show ?thesis
    unfolding derive_requested_execpolicy_amendment_from_prefix_rule_def plain_segments(2)
    by (simp add: plain_request_def del: lit_simps)
qed

theorem requested_amendment_settles_witness:
  "\<exists>pol' bypass am. add_prefix_rule dal_multimap (policy_empty dal_multimap) [lit ''rm''] Allow = Ok pol' \<and>
     create_exec_approval_requirement_for_command dal_multimap quiet_env pol'
       (plain_request [lit ''rm'', lit ''-f'', lit ''x''] OnRequest) = Ok (Skip bypass am)"
  using requested_amendment_settles [OF rm_rule_approves] by blast

lemma already_allowed_rule:
  "already_allowed mm env pol am =
     Ok (rules_on mm env pol am \<noteq> [] \<and> (\<forall>m\<in>set (rules_on mm env pol am). match_decision m = Allow))"
proof -
  let ?ms = "rules_on mm env pol am"
  have max: "Max (match_decision ` set ?ms) = Allow \<longleftrightarrow> (\<forall>m\<in>set ?ms. match_decision m = Allow)" if "?ms \<noteq> []"
    using that Max_le_iff [of "match_decision ` set ?ms" Allow] by (simp add: decision_le_simps)
  have "list_ex (policy_match_with Allow) ?ms" if "?ms \<noteq> []" "\<forall>m\<in>set ?ms. match_decision m = Allow"
    using that rules_on_policy [of "hd ?ms" mm env pol am]
    by (auto simp: list_ex_iff policy_match_with_def is_policy_match_def intro!: bexI [of _ "hd ?ms"])
  with max show ?thesis
    by (cases "?ms = []")
      (auto simp: already_allowed_def check_multiple_with_options_def from_matches_eq matches_with_fallback policy_match_with_def)
qed

text \<open>
  (C39) An accepted amendment reaches the file before the memory.  When anything fails (a closed semaphore, a
  lost task, any step of the file update, an invalid rule) the policy in use stays as it was.  On
  success the rule's line is in the rules file, and either the policy in use stays as it was because its
  rules all allow the amended prefix, or it gains the rule: an allowing match for exactly the commands that
  begin with the prefix, next to the matches there were.  So some rule now allows the amended prefix; all of
  its rules do exactly if none of the rules there were on that very program and prefix is stricter, since
  a stricter rule still decides.  Nothing panics.
\<close>
theorem amendment_reaches_file_then_memory:
  assumes "lawful_multimap mm" "append_amendment_and_update mm env to_json io home am mgr = (r, mgr')"
  shows "r \<noteq> Panic \<and> (r \<noteq> Ok () \<longrightarrow> current_policy mgr' = current_policy mgr) \<and>
    (r = Ok () \<longrightarrow>
      (\<exists>tokens. serialize_all to_json am = Inr tokens \<and>
        rules_file mgr' = Some (contents_after_append (prefix_rule_line tokens) (unwrap_or [] (rules_file mgr)))) \<and>
      (current_policy mgr' = current_policy mgr \<and> rules_on mm env (current_policy mgr) am \<noteq> [] \<and>
         (\<forall>m\<in>set (rules_on mm env (current_policy mgr) am). match_decision m = Allow) \<or>
       (\<forall>c. set (exact_matches mm (current_policy mgr') c) = set (exact_matches mm (current_policy mgr) c) \<union>
          (if prefix am c then {PrefixRuleMatch am Allow None None} else {}))) \<and>
      (\<exists>m\<in>set (rules_on mm env (current_policy mgr') am). match_decision m = Allow) \<and>
      ((\<forall>m\<in>set (rules_on mm env (current_policy mgr') am). match_decision m = Allow) \<longleftrightarrow>
       (\<forall>m\<in>set (exact_matches mm (current_policy mgr) am). match_decision m = Allow)))"
proof (cases "semaphore_closed io \<or> join_fails io")
  case True
  then have "\<exists>e. append_amendment_and_update mm env to_json io home am mgr = (Err e, mgr)"
    by (cases "semaphore_closed io") (simp_all add: append_amendment_and_update_def append_blocking_def Let_def)
  with assms(2) show ?thesis by auto
next
  case False
  let ?path = "default_policy_path home"
  obtain ar "file" where run: "blocking_append_allow_prefix_rule to_json (update_amend_io io) ?path am (rules_file mgr) = (ar, file)"
    by (cases "blocking_append_allow_prefix_rule to_json (update_amend_io io) ?path am (rules_file mgr)")
  show ?thesis
  proof (cases "ar = Ok ()")
    case False
    then show ?thesis
      using assms(2) run \<open>\<not> (semaphore_closed io \<or> join_fails io)\<close>
      by (cases ar) (auto simp: append_amendment_and_update_def append_blocking_def Let_def)
  next
    case True
    let ?mgr = "mgr\<lparr>rules_file := file\<rparr>"
    from run True obtain tokens where tokens: "am \<noteq> []" "serialize_all to_json am = Inr tokens"
      "append_rule_line (update_amend_io io) ?path (prefix_rule_line tokens) (rules_file mgr) = (Ok (), file)"
      by (auto simp: blocking_append_allow_prefix_rule_def split: if_splits sum.splits)
    then have written: "file = Some (contents_after_append (prefix_rule_line tokens) (unwrap_or [] (rules_file mgr)))"
      by (cases rule: append_rule_line_cases [OF tokens(3)]) (auto dest: append_to_contents_Ok)
    obtain pol' where pol': "add_prefix_rule mm (current_policy mgr) am Allow = Ok pol'"
      using tokens(1) by (cases am) (auto simp: add_prefix_rule_def)
    let ?old = "rules_on mm env (current_policy mgr) am"
    let ?b = "?old \<noteq> [] \<and> (\<forall>m\<in>set ?old. match_decision m = Allow)"
    have "append_amendment_and_update mm env to_json io home am mgr =
        (Ok (), if ?b then ?mgr else ?mgr\<lparr>current_policy := pol'\<rparr>)"
      using run True pol' \<open>\<not> (semaphore_closed io \<or> join_fails io)\<close>
      by (simp add: append_amendment_and_update_def append_blocking_def Let_def already_allowed_rule split: bool.split)
    with assms(2) have r: "r = Ok ()" and mgr': "mgr' = (if ?b then ?mgr else ?mgr\<lparr>current_policy := pol'\<rparr>)" by simp_all
    show ?thesis
    proof (cases ?b)
      case True
      moreover from this rules_on_exact [of mm "current_policy mgr" am env]
      have "\<forall>m\<in>set (exact_matches mm (current_policy mgr) am). match_decision m = Allow"
        by (cases "exact_matches mm (current_policy mgr) am") auto
      ultimately show ?thesis using r written tokens(2) by (auto simp: mgr' neq_Nil_conv)
    next
      case False
      then have "current_policy mgr' = pol'" "rules_file mgr' = file" by (auto simp: mgr')
      with r written tokens(2) show ?thesis
        by (auto simp: added_rule_matches [OF assms(1) pol'] added_rule_exact [OF assms(1) pol'])
    qed
  qed
qed

definition good_io :: update_io where
  "good_io = \<lparr>semaphore_closed = False, join_fails = False, update_amend_io =
     \<lparr>io_create_dir = None, io_open = None, io_lock = None, io_seek = None, io_read = None,
      io_write_newline = None, io_write_line = None\<rparr>\<rparr>"

theorem amendment_reaches_file_then_memory_witness:
  "\<exists>mgr'. append_amendment_and_update dal_multimap quiet_env Inr good_io (lit ''/w'') [lit ''ls'']
       \<lparr>current_policy = policy_empty dal_multimap, rules_file = None\<rparr> = (Ok (), mgr') \<and>
     (\<exists>m\<in>set (rules_on dal_multimap quiet_env (current_policy mgr') [lit ''ls'']). match_decision m = Allow)"
proof -
  let ?mgr = "\<lparr>current_policy = policy_empty dal_multimap, rules_file = None\<rparr>"
  obtain r mgr' where run: "append_amendment_and_update dal_multimap quiet_env Inr good_io (lit ''/w'') [lit ''ls''] ?mgr = (r, mgr')"
    by fastforce
  have path: "path_parent (default_policy_path (lit ''/w'')) = Some (lit ''/w/rules'')"
    by (simp add: default_policy_path_def path_push_def path_eval)
  have "fst (append_amendment_and_update dal_multimap quiet_env Inr good_io (lit ''/w'') [lit ''ls''] ?mgr) = Ok ()"
    using path
    by (simp add: append_amendment_and_update_def append_blocking_def good_io_def blocking_append_allow_prefix_rule_def
        append_rule_line_def append_locked_line_def append_to_contents_def write_missing_newline_def write_all_def lines_def
        unwrap_or_def already_allowed_rule rules_on_empty [OF dal_lawful] add_prefix_rule_def Let_def del: lit_simps)
  with run have "r = Ok ()" by simp
  with amendment_reaches_file_then_memory [OF dal_lawful run] run show ?thesis by blast
qed

end
