(* ===== verification/Tool_Orchestrator.thy ===== *)
theory Tool_Orchestrator
  imports Exec_Approval
begin

text \<open>
  Running a tool (\<^verbatim>\<open>core/src/tools/orchestrator.rs\<close>, the approval traits and the approval cache of
  \<^verbatim>\<open>core/src/tools/sandboxing.rs\<close>, sandbox selection in \<^verbatim>\<open>sandboxing/src/manager.rs\<close>, the network
  context of \<^verbatim>\<open>core/src/network_policy_decision.rs\<close>): ask for approval where the requirement demands it,
  run the first attempt in the chosen sandbox, and after a denial by the sandbox ask again, where
  the settings allow that, and run once more without the sandbox.

  Every call that leaves the orchestrator (a hook, a reviewer, an attempt, the bookkeeping of network
  approvals) is an event; the state is the list of events so far, and the tool, the reviewers and
  the hooks answer as functions of it, so that they may remember anything.  Telemetry is left out.
\<close>

section \<open>Choosing a sandbox\<close>

datatype sandbox_type = NoSandbox | MacosSeatbelt | LinuxSeccomp | WindowsRestrictedToken

datatype sandboxable_preference = PreferAuto | PreferRequire | PreferForbid

datatype target_os = Macos | Linux | Windows | OtherOs

definition get_platform_sandbox :: "target_os \<Rightarrow> bool \<Rightarrow> sandbox_type option" where
  "get_platform_sandbox os windows_sandbox_enabled =
     (case os of
        Macos \<Rightarrow> Some MacosSeatbelt
      | Linux \<Rightarrow> Some LinuxSeccomp
      | Windows \<Rightarrow> if windows_sandbox_enabled then Some WindowsRestrictedToken else None
      | OtherOs \<Rightarrow> None)"

definition select_initial ::
  "target_os \<Rightarrow> fs_policy \<Rightarrow> network_sandbox_policy \<Rightarrow> sandboxable_preference \<Rightarrow> bool \<Rightarrow> bool \<Rightarrow> sandbox_type" where
  "select_initial os pol network pref windows_sandbox_enabled has_managed_network_requirements =
     (case pref of
        PreferForbid \<Rightarrow> NoSandbox
      | PreferRequire \<Rightarrow> unwrap_or NoSandbox (get_platform_sandbox os windows_sandbox_enabled)
      | PreferAuto \<Rightarrow>
          if should_require_platform_sandbox pol network has_managed_network_requirements
          then unwrap_or NoSandbox (get_platform_sandbox os windows_sandbox_enabled)
          else NoSandbox)"

section \<open>Review decisions and errors\<close>

datatype network_rule_action = AllowHost | DenyHost

datatype review_decision =
    Approved
  | ApprovedExecpolicyAmendment "rstr list"
  | ApprovedForSession
  | NetworkPolicyAmendment rstr network_rule_action
  | Denied
  | TimedOut
  | Abort

record network_payload =
  np_is_ask :: bool
  np_from_decider :: bool
  np_protocol :: "network_rule_protocol option"
  np_host :: "rstr option"

definition is_ask_from_decider :: "network_payload \<Rightarrow> bool" where
  "is_ask_from_decider p \<longleftrightarrow> np_is_ask p \<and> np_from_decider p"

definition network_approval_context_from_payload :: "network_payload \<Rightarrow> (rstr \<times> network_rule_protocol) option" where
  "network_approval_context_from_payload p =
     (if \<not> is_ask_from_decider p then None
      else case np_protocol p of
             None \<Rightarrow> None
           | Some protocol \<Rightarrow>
               (case np_host p of
                  None \<Rightarrow> None
                | Some host \<Rightarrow> if trim host = [] then None else Some (trim host, protocol)))"

datatype 'o tool_error = Rejected rstr | SandboxDenied 'o "network_payload option" | OtherError rstr

section \<open>What the tool and its surroundings answer\<close>

datatype hook_decision = HookAllow | HookDeny rstr

datatype network_approval_mode = Immediate | Deferred

datatype event =
    HookAnswered "hook_decision option"
  | Reviewed bool "rstr option" review_decision
  | NetworkBegun network_approval_mode
  | Attempted sandbox_type
  | NetworkFinished network_approval_mode

type_synonym trace = "event list"

record 'o tool_world =
  exec_approval_requirement :: "approval_requirement option"
  tool_sandbox_permissions :: sandbox_permissions
  sandbox_preference :: sandboxable_preference
  escalate_on_failure :: bool
  tool_wants_no_sandbox_approval :: "ask_for_approval \<Rightarrow> bool"
  has_permission_request_payload :: bool
  run_permission_request_hooks :: "trace \<Rightarrow> hook_decision option"
  start_approval :: "trace \<Rightarrow> review_decision"
  tool_run :: "trace \<Rightarrow> sandbox_type \<Rightarrow> 'o tool_error + 'o"
  begin_network_approval :: "trace \<Rightarrow> network_approval_mode option"
  finish_network_approval :: "trace \<Rightarrow> 'o tool_error option"
  guardian_rejection_message :: rstr
  guardian_timeout_message :: rstr

record turn_context =
  strict_auto_review :: bool
  routes_approval_to_guardian :: bool
  turn_file_system_policy :: fs_policy
  turn_network_policy :: network_sandbox_policy
  managed_network_active :: bool
  windows_sandbox_enabled :: bool
  turn_os :: target_os

section \<open>The defaults of the approval trait\<close>

definition should_bypass_approval :: "ask_for_approval \<Rightarrow> bool \<Rightarrow> bool" where
  "should_bypass_approval policy already_approved = (if already_approved then True else policy = Never)"

fun wants_no_sandbox_approval :: "ask_for_approval \<Rightarrow> bool" where
  "wants_no_sandbox_approval OnFailure = True"
| "wants_no_sandbox_approval UnlessTrusted = True"
| "wants_no_sandbox_approval Never = False"
| "wants_no_sandbox_approval OnRequest = False"
| "wants_no_sandbox_approval (Granular g) = sandbox_approval g"

text \<open>The override of the \<^verbatim>\<open>apply_patch\<close> runtime.\<close>

fun patch_wants_no_sandbox_approval :: "ask_for_approval \<Rightarrow> bool" where
  "patch_wants_no_sandbox_approval Never = False"
| "patch_wants_no_sandbox_approval (Granular g) = allows_sandbox_approval g"
| "patch_wants_no_sandbox_approval OnFailure = True"
| "patch_wants_no_sandbox_approval OnRequest = True"
| "patch_wants_no_sandbox_approval UnlessTrusted = True"

section \<open>Asking\<close>

definition request_approval ::
  "'o tool_world \<Rightarrow> bool \<Rightarrow> rstr option \<Rightarrow> bool \<Rightarrow> trace \<Rightarrow> ('o tool_error + review_decision) \<times> trace" where
  "request_approval w guardian retry_reason evaluate_permission_request_hooks tr =
     (let hooks = evaluate_permission_request_hooks \<and> has_permission_request_payload w;
          answer = (if hooks then run_permission_request_hooks w tr else None);
          tr = (if hooks then tr @ [HookAnswered answer] else tr)
      in case answer of
           Some HookAllow \<Rightarrow> (Inr Approved, tr)
         | Some (HookDeny message) \<Rightarrow> (Inl (Rejected message), tr)
         | None \<Rightarrow>
             (let d = start_approval w tr in (Inr d, tr @ [Reviewed guardian retry_reason d])))"

fun reject_if_not_approved :: "'o tool_world \<Rightarrow> bool \<Rightarrow> review_decision \<Rightarrow> 'o tool_error + unit" where
  "reject_if_not_approved w guardian Denied =
     Inl (Rejected (if guardian then guardian_rejection_message w else lit ''rejected by user''))"
| "reject_if_not_approved w guardian Abort =
     Inl (Rejected (if guardian then guardian_rejection_message w else lit ''rejected by user''))"
| "reject_if_not_approved w guardian TimedOut = Inl (Rejected (guardian_timeout_message w))"
| "reject_if_not_approved w guardian Approved = Inr ()"
| "reject_if_not_approved w guardian (ApprovedExecpolicyAmendment _) = Inr ()"
| "reject_if_not_approved w guardian ApprovedForSession = Inr ()"
| "reject_if_not_approved w guardian (NetworkPolicyAmendment _ AllowHost) = Inr ()"
| "reject_if_not_approved w guardian (NetworkPolicyAmendment _ DenyHost) = Inl (Rejected (lit ''rejected by user''))"

text \<open>The two calls as the orchestrator always makes them, one after the other.\<close>

definition obtain_approval ::
  "'o tool_world \<Rightarrow> bool \<Rightarrow> rstr option \<Rightarrow> bool \<Rightarrow> trace \<Rightarrow> ('o tool_error + unit) \<times> trace" where
  "obtain_approval w guardian retry_reason hooks tr =
     (case request_approval w guardian retry_reason hooks tr of
        (Inl e, tr) \<Rightarrow> (Inl e, tr)
      | (Inr d, tr) \<Rightarrow> (reject_if_not_approved w guardian d, tr))"

section \<open>Attempts\<close>

definition run_attempt :: "'o tool_world \<Rightarrow> sandbox_type \<Rightarrow> trace \<Rightarrow> ('o tool_error + 'o) \<times> bool \<times> trace" where
  "run_attempt w sandbox tr =
     (let network_approval = begin_network_approval w tr;
          tr = (case network_approval of None \<Rightarrow> tr | Some mode \<Rightarrow> tr @ [NetworkBegun mode]);
          run_result = tool_run w tr sandbox;
          tr = tr @ [Attempted sandbox]
      in case network_approval of
           None \<Rightarrow> (run_result, False, tr)
         | Some Immediate \<Rightarrow>
             (case finish_network_approval w tr of
                Some e \<Rightarrow> (Inl e, False, tr @ [NetworkFinished Immediate])
              | None \<Rightarrow> (run_result, False, tr @ [NetworkFinished Immediate]))
         | Some Deferred \<Rightarrow>
             (case run_result of
                Inl _ \<Rightarrow>
                  (case finish_network_approval w tr of
                     Some e \<Rightarrow> (Inl e, False, tr @ [NetworkFinished Deferred])
                   | None \<Rightarrow> (run_result, False, tr @ [NetworkFinished Deferred]))
              | Inr _ \<Rightarrow> (run_result, True, tr)))"

section \<open>The orchestrator\<close>

definition approval_phase ::
  "'o tool_world \<Rightarrow> turn_context \<Rightarrow> approval_requirement \<Rightarrow> trace \<Rightarrow> ('o tool_error + bool) \<times> trace" where
  "approval_phase w tc requirement tr =
     (let use_guardian = (routes_approval_to_guardian tc \<or> strict_auto_review tc) in
      case requirement of
        Skip _ _ \<Rightarrow>
          if strict_auto_review tc
          then (case obtain_approval w True None False tr of
                  (Inl e, tr) \<Rightarrow> (Inl e, tr)
                | (Inr _, tr) \<Rightarrow> (Inr True, tr))
          else (Inr False, tr)
      | ForbiddenRun reason \<Rightarrow> (Inl (Rejected reason), tr)
      | NeedsApproval reason _ \<Rightarrow>
          (case obtain_approval w use_guardian reason (\<not> strict_auto_review tc) tr of
             (Inl e, tr) \<Rightarrow> (Inl e, tr)
           | (Inr _, tr) \<Rightarrow> (Inr True, tr)))"

definition initial_sandbox :: "'o tool_world \<Rightarrow> turn_context \<Rightarrow> approval_requirement \<Rightarrow> sandbox_type" where
  "initial_sandbox w tc requirement =
     (case sandbox_override_for_first_attempt (tool_sandbox_permissions w) requirement (turn_file_system_policy tc) of
        BypassSandboxFirstAttempt \<Rightarrow> NoSandbox
      | NoOverride \<Rightarrow>
          select_initial (turn_os tc) (turn_file_system_policy tc) (turn_network_policy tc) (sandbox_preference w)
            (windows_sandbox_enabled tc) (managed_network_active tc))"

definition build_denial_reason_from_output :: "'o \<Rightarrow> rstr" where
  "build_denial_reason_from_output _ = lit ''command failed; retry without sandbox?''"

text \<open>Whether a denial is followed by another attempt; the network context the approval is asked for.\<close>

definition retry_allowed ::
  "'o tool_world \<Rightarrow> turn_context \<Rightarrow> ask_for_approval \<Rightarrow> network_payload option \<Rightarrow> (rstr \<times> network_rule_protocol) option \<Rightarrow> bool" where
  "retry_allowed w tc policy payload context =
     (if payload \<noteq> None \<and> context = None then False
      else if \<not> escalate_on_failure w then False
      else if \<not> tool_wants_no_sandbox_approval w policy
      then policy = OnRequest \<and> context \<noteq> None \<and>
           (case default_exec_approval_requirement policy (turn_file_system_policy tc) of NeedsApproval _ _ \<Rightarrow> True | _ \<Rightarrow> False)
      else True)"

definition escalated_attempt ::
  "'o tool_world \<Rightarrow> turn_context \<Rightarrow> ask_for_approval \<Rightarrow> bool \<Rightarrow> 'o \<Rightarrow> (rstr \<times> network_rule_protocol) option \<Rightarrow> trace \<Rightarrow>
   ('o tool_error + 'o \<times> bool) \<times> trace" where
  "escalated_attempt w tc policy already_approved out context tr =
     (let retry_reason =
        (case context of
           Some (host, _) \<Rightarrow> lit ''Network access to \"'' @ host @ lit ''\" is blocked by policy.''
         | None \<Rightarrow> build_denial_reason_from_output out);
        bypass_retry_approval = (\<not> strict_auto_review tc \<and> should_bypass_approval policy already_approved \<and> context = None);
        (asked, tr) =
          (if bypass_retry_approval then (Inr (), tr)
           else obtain_approval w (routes_approval_to_guardian tc \<or> strict_auto_review tc) (Some retry_reason)
             (\<not> strict_auto_review tc) tr)
      in case asked of
           Inl e \<Rightarrow> (Inl e, tr)
         | Inr _ \<Rightarrow>
             (case run_attempt w NoSandbox tr of
                (Inl e, _, tr) \<Rightarrow> (Inl e, tr)
              | (Inr o2, deferred, tr) \<Rightarrow> (Inr (o2, deferred), tr)))"

definition orchestrator_run ::
  "'o tool_world \<Rightarrow> turn_context \<Rightarrow> ask_for_approval \<Rightarrow> trace \<Rightarrow> ('o tool_error + 'o \<times> bool) \<times> trace" where
  "orchestrator_run w tc policy tr =
     (let requirement = unwrap_or (default_exec_approval_requirement policy (turn_file_system_policy tc)) (exec_approval_requirement w) in
      case approval_phase w tc requirement tr of
        (Inl e, tr) \<Rightarrow> (Inl e, tr)
      | (Inr already_approved, tr) \<Rightarrow>
          (case run_attempt w (initial_sandbox w tc requirement) tr of
             (Inr out, deferred, tr) \<Rightarrow> (Inr (out, deferred), tr)
           | (Inl (SandboxDenied out payload), _, tr) \<Rightarrow>
               (let context = (if managed_network_active tc then Option.bind payload network_approval_context_from_payload else None) in
                if \<not> retry_allowed w tc policy payload context then (Inl (SandboxDenied out payload), tr)
                else escalated_attempt w tc policy already_approved out context tr)
           | (Inl e, _, tr) \<Rightarrow> (Inl e, tr)))"

section \<open>The approval cache\<close>

type_synonym approval_store = "rstr \<Rightarrow> review_decision option"

definition store_get :: "('k \<Rightarrow> rstr option) \<Rightarrow> approval_store \<Rightarrow> 'k \<Rightarrow> review_decision option" where
  "store_get to_json store key = Option.bind (to_json key) store"

definition store_put :: "('k \<Rightarrow> rstr option) \<Rightarrow> 'k \<Rightarrow> review_decision \<Rightarrow> approval_store \<Rightarrow> approval_store" where
  "store_put to_json key d store = (case to_json key of Some s \<Rightarrow> store(s \<mapsto> d) | None \<Rightarrow> store)"

text \<open>The last component tells whether the user was asked.\<close>

definition with_cached_approval ::
  "('k \<Rightarrow> rstr option) \<Rightarrow> 'k list \<Rightarrow> review_decision \<Rightarrow> approval_store \<Rightarrow> review_decision \<times> approval_store \<times> bool" where
  "with_cached_approval to_json keys fetched store =
     (if keys = [] then (fetched, store, True)
      else if list_all (\<lambda>key. store_get to_json store key = Some ApprovedForSession) keys then (ApprovedForSession, store, False)
      else if fetched = ApprovedForSession
      then (fetched, fold (\<lambda>key. store_put to_json key ApprovedForSession) keys store, True)
      else (fetched, store, True))"

section \<open>The protocol of asks and attempts\<close>

definition accepted :: "review_decision \<Rightarrow> bool" where
  "accepted d \<longleftrightarrow> d \<notin> {Denied, Abort, TimedOut} \<and> (\<forall>h. d \<noteq> NetworkPolicyAmendment h DenyHost)"

fun approves :: "event \<Rightarrow> bool" where
  "approves (HookAnswered (Some HookAllow)) = True"
| "approves (Reviewed _ _ d) = accepted d"
| "approves _ = False"

fun refuses :: "event \<Rightarrow> bool" where
  "refuses (HookAnswered (Some (HookDeny _))) = True"
| "refuses (Reviewed _ _ d) = (\<not> accepted d)"
| "refuses _ = False"

fun is_attempt :: "event \<Rightarrow> bool" where
  "is_attempt (Attempted _) = True"
| "is_attempt _ = False"

fun is_ask :: "event \<Rightarrow> bool" where
  "is_ask (HookAnswered _) = True"
| "is_ask (Reviewed _ _ _) = True"
| "is_ask _ = False"

text \<open>
  What may happen, as a machine over the events: it counts the attempts and remembers whether an
  approval is in force.  A first attempt needs one if the command needs approval; a second one always
  does, runs without sandbox and is the last; under strict review an approval covers one attempt only;
  after a refusal nothing runs.
\<close>

fun follows_protocol :: "bool \<Rightarrow> bool \<Rightarrow> nat \<Rightarrow> bool \<Rightarrow> trace \<Rightarrow> bool" where
  "follows_protocol needs strict n in_force [] = True"
| "follows_protocol needs strict n in_force (e # es) =
     (case e of
        Attempted sandbox \<Rightarrow>
          (n = 0 \<and> (needs \<longrightarrow> in_force) \<or> n = 1 \<and> sandbox = NoSandbox \<and> in_force) \<and>
          follows_protocol needs strict (Suc n) (in_force \<and> \<not> strict) es
      | _ \<Rightarrow>
          if refuses e then list_all (\<lambda>e. \<not> is_attempt e) es
          else follows_protocol needs strict n (in_force \<or> approves e) es)"

lemma protocol_asks:
  "list_all (\<lambda>e. \<not> is_attempt e \<and> \<not> refuses e) xs \<Longrightarrow>
   follows_protocol needs strict n ok (xs @ ys) = follows_protocol needs strict n (ok \<or> list_ex approves xs) ys"
proof (induction xs arbitrary: ok)
  case (Cons e xs)
  then show ?case by (cases e) (simp_all add: disj_assoc)
qed simp

lemma protocol_refused: "list_all (\<lambda>e. \<not> is_attempt e) xs \<Longrightarrow> follows_protocol needs strict n ok xs"
proof (induction xs arbitrary: ok)
  case (Cons e xs)
  then show ?case by (cases e) simp_all
qed simp

lemma accepted_iff: "reject_if_not_approved w g d = Inr () \<longleftrightarrow> accepted d"
proof (cases d)
  case (NetworkPolicyAmendment h a)
  then show ?thesis by (cases a) (simp_all add: accepted_def)
qed (simp_all add: accepted_def)

lemma obtain_approval_trace:
  assumes "obtain_approval w g r hooks tr = (res, tr')"
  obtains asks where "tr' = tr @ asks" "list_all (\<lambda>e. \<not> is_attempt e) asks"
    "res = Inr () \<Longrightarrow> list_all (\<lambda>e. \<not> is_attempt e \<and> \<not> refuses e) asks \<and> list_ex approves asks"
proof (cases "hooks \<and> has_permission_request_payload w")
  case False
  then show ?thesis
    using assms by (intro that [of "[Reviewed g r (start_approval w tr)]"])
      (auto simp: obtain_approval_def request_approval_def accepted_iff Let_def)
next
  case True
  note run = assms [unfolded obtain_approval_def request_approval_def Let_def]
  show ?thesis
  proof (cases "run_permission_request_hooks w tr")
    case None
    let ?asks = "[HookAnswered None, Reviewed g r (start_approval w (tr @ [HookAnswered None]))]"
    show ?thesis using run True None by (intro that [of ?asks]) (auto simp: accepted_iff)
  next
    case (Some h)
    then show ?thesis using run True by (intro that [of "[HookAnswered (Some h)]"]) (cases h; auto)+
  qed
qed

lemma run_attempt_trace:
  assumes "run_attempt w sandbox tr = (res, deferred, tr')"
  obtains before after where "tr' = tr @ before @ Attempted sandbox # after"
    "list_all (\<lambda>e. \<not> is_attempt e \<and> \<not> refuses e \<and> \<not> is_ask e) (before @ after)"
proof (cases "begin_network_approval w tr")
  case None
  then show ?thesis using assms by (intro that [of "[]" "[]"]) (auto simp: run_attempt_def Let_def)
next
  case (Some mode)
  note run = assms [unfolded run_attempt_def Let_def Some option.case]
  let ?tr = "(tr @ [NetworkBegun mode]) @ [Attempted sandbox]"
  have "tr' = ?tr \<or> tr' = ?tr @ [NetworkFinished mode]"
    using run by (cases mode; cases "finish_network_approval w ?tr"; cases "tool_run w (tr @ [NetworkBegun mode]) sandbox") auto
  then show ?thesis
    by (elim disjE) (rule that [of "[NetworkBegun mode]" "[]"], simp_all, rule that [of "[NetworkBegun mode]" "[NetworkFinished mode]"], simp_all)
qed

section \<open>What the orchestrator guarantees\<close>

definition requirement_of :: "'o tool_world \<Rightarrow> turn_context \<Rightarrow> ask_for_approval \<Rightarrow> approval_requirement" where
  "requirement_of w tc policy =
     unwrap_or (default_exec_approval_requirement policy (turn_file_system_policy tc)) (exec_approval_requirement w)"

definition needs_ask :: "turn_context \<Rightarrow> approval_requirement \<Rightarrow> bool" where
  "needs_ask tc req = (case req of Skip _ _ \<Rightarrow> strict_auto_review tc | NeedsApproval _ _ \<Rightarrow> True | ForbiddenRun _ \<Rightarrow> False)"

lemma approval_phase_trace:
  assumes "approval_phase w tc req [] = (res, tr)"
  shows "list_all (\<lambda>e. \<not> is_attempt e) tr"
    and "res = Inr approved \<Longrightarrow> list_all (\<lambda>e. \<not> is_attempt e \<and> \<not> refuses e) tr \<and> (approved \<longleftrightarrow> needs_ask tc req) \<and>
      (needs_ask tc req \<longrightarrow> list_ex approves tr) \<and> (\<not> needs_ask tc req \<longrightarrow> tr = [])"
    and "req = ForbiddenRun reason \<Longrightarrow> res = Inl (Rejected reason) \<and> tr = []"
proof -
  have step: "list_all (\<lambda>e. \<not> is_attempt e) tr \<and>
      (res = Inr approved \<longrightarrow> approved \<and> list_all (\<lambda>e. \<not> is_attempt e \<and> \<not> refuses e) tr \<and> list_ex approves tr)"
    if "(case obtain_approval w g r h [] of (Inl e, tr) \<Rightarrow> (Inl e, tr) | (Inr _, tr) \<Rightarrow> (Inr True, tr)) = (res, tr)" for g r h
  proof -
    obtain a tr1 where a: "obtain_approval w g r h [] = (a, tr1)" by (cases "obtain_approval w g r h []")
    then obtain asks where "tr1 = asks" "list_all (\<lambda>e. \<not> is_attempt e) asks"
      "a = Inr () \<Longrightarrow> list_all (\<lambda>e. \<not> is_attempt e \<and> \<not> refuses e) asks \<and> list_ex approves asks"
      by (rule obtain_approval_trace) auto
    with that a show ?thesis by (cases a) auto
  qed
  show "list_all (\<lambda>e. \<not> is_attempt e) tr"
    "res = Inr approved \<Longrightarrow> list_all (\<lambda>e. \<not> is_attempt e \<and> \<not> refuses e) tr \<and> (approved \<longleftrightarrow> needs_ask tc req) \<and>
      (needs_ask tc req \<longrightarrow> list_ex approves tr) \<and> (\<not> needs_ask tc req \<longrightarrow> tr = [])"
    "req = ForbiddenRun reason \<Longrightarrow> res = Inl (Rejected reason) \<and> tr = []"
    using assms step by (cases req; auto simp: approval_phase_def needs_ask_def split: if_splits)+
qed

lemma escalated_trace:
  assumes "escalated_attempt w tc policy approved out context tr = (res, tr')" "policy \<noteq> Never"
  obtains asks rest where "tr' = tr @ asks @ rest" "list_all (\<lambda>e. \<not> is_attempt e) asks"
    "rest \<noteq> [] \<Longrightarrow> list_all (\<lambda>e. \<not> is_attempt e \<and> \<not> refuses e) asks \<and> (list_ex approves asks \<or> approved \<and> \<not> strict_auto_review tc)"
    "rest = [] \<or> (\<exists>before after. rest = before @ Attempted NoSandbox # after \<and>
      list_all (\<lambda>e. \<not> is_attempt e \<and> \<not> refuses e \<and> \<not> is_ask e) (before @ after))"
proof -
  define bypass where "bypass = (\<not> strict_auto_review tc \<and> should_bypass_approval policy approved \<and> context = None)"
  obtain reason where "escalated_attempt w tc policy approved out context tr =
      (let (asked, tr) = (if bypass then (Inr (), tr)
           else obtain_approval w (routes_approval_to_guardian tc \<or> strict_auto_review tc) (Some reason) (\<not> strict_auto_review tc) tr)
       in case asked of Inl e \<Rightarrow> (Inl e, tr)
          | Inr _ \<Rightarrow> (case run_attempt w NoSandbox tr of (Inl e, _, tr) \<Rightarrow> (Inl e, tr) | (Inr o2, d, tr) \<Rightarrow> (Inr (o2, d), tr)))"
    by (simp add: escalated_attempt_def bypass_def Let_def)
  moreover obtain asked tr1 where asked: "(if bypass then (Inr (), tr)
      else obtain_approval w (routes_approval_to_guardian tc \<or> strict_auto_review tc) (Some reason) (\<not> strict_auto_review tc) tr) = (asked, tr1)"
    by fastforce
  ultimately have run: "(case asked of Inl e \<Rightarrow> (Inl e, tr1)
      | Inr _ \<Rightarrow> (case run_attempt w NoSandbox tr1 of (Inl e, _, tr) \<Rightarrow> (Inl e, tr) | (Inr o2, d, tr) \<Rightarrow> (Inr (o2, d), tr))) = (res, tr')"
    using assms(1) by simp
  obtain asks where asks: "tr1 = tr @ asks" "list_all (\<lambda>e. \<not> is_attempt e) asks"
    "asked = Inr () \<Longrightarrow> list_all (\<lambda>e. \<not> is_attempt e \<and> \<not> refuses e) asks \<and> (list_ex approves asks \<or> approved \<and> \<not> strict_auto_review tc)"
  proof (cases bypass)
    case True
    with asked assms(2) show ?thesis by (intro that [of "[]"]) (auto simp: bypass_def should_bypass_approval_def split: if_splits)
  next
    case False
    then have "obtain_approval w (routes_approval_to_guardian tc \<or> strict_auto_review tc) (Some reason) (\<not> strict_auto_review tc) tr = (asked, tr1)"
      using asked by simp
    then show ?thesis by (rule obtain_approval_trace) (use that in blast)
  qed
  show ?thesis
  proof (cases asked)
    case (Inl e)
    with run asks show ?thesis by (intro that [of asks "[]"]) auto
  next
    case (Inr u)
    obtain r d tr2 where r: "run_attempt w NoSandbox tr1 = (r, d, tr2)" by (cases "run_attempt w NoSandbox tr1")
    then obtain before after where b: "tr2 = tr1 @ before @ Attempted NoSandbox # after"
      "list_all (\<lambda>e. \<not> is_attempt e \<and> \<not> refuses e \<and> \<not> is_ask e) (before @ after)" by (rule run_attempt_trace)
    have "tr' = tr2" using run r Inr by (cases r) auto
    with b asks Inr show ?thesis by (intro that [of asks "before @ Attempted NoSandbox # after"]) auto
  qed
qed

lemma quiet_events:
  "list_all (\<lambda>e. \<not> is_attempt e \<and> \<not> refuses e \<and> \<not> is_ask e) xs \<Longrightarrow> list_all (\<lambda>e. \<not> is_attempt e \<and> \<not> refuses e) xs \<and> \<not> list_ex approves xs"
proof (induction xs)
  case (Cons e xs)
  then show ?case by (cases e) auto
qed simp

lemma protocol_attempt:
  assumes "list_all (\<lambda>e. \<not> is_attempt e \<and> \<not> refuses e \<and> \<not> is_ask e) (before @ after)"
  shows "follows_protocol needs strict n ok (before @ Attempted sandbox # after @ rest) \<longleftrightarrow>
    (n = 0 \<and> (needs \<longrightarrow> ok) \<or> n = 1 \<and> sandbox = NoSandbox \<and> ok) \<and> follows_protocol needs strict (Suc n) (ok \<and> \<not> strict) rest"
  using assms quiet_events [of before] quiet_events [of after]
    protocol_asks [of before needs strict n ok "Attempted sandbox # after @ rest"]
    protocol_asks [of after needs strict "Suc n" "ok \<and> \<not> strict" rest] by simp

text \<open>The shape of a run: asks, a first attempt, asks again, a second attempt, where each part may be the last.\<close>

lemma orchestrator_trace:
  assumes "orchestrator_run w tc policy [] = (res, tr)" "\<not> tool_wants_no_sandbox_approval w Never"
  obtains asks where "tr = asks" "list_all (\<lambda>e. \<not> is_attempt e) asks" "needs_ask tc (requirement_of w tc policy) \<or> tr = []"
  | asks before after rest where
    "tr = asks @ before @ Attempted (initial_sandbox w tc (requirement_of w tc policy)) # after @ rest"
    "list_all (\<lambda>e. \<not> is_attempt e \<and> \<not> refuses e) asks" "\<And>r. requirement_of w tc policy \<noteq> ForbiddenRun r"
    "needs_ask tc (requirement_of w tc policy) \<longrightarrow> list_ex approves asks" "\<not> needs_ask tc (requirement_of w tc policy) \<longrightarrow> asks = []"
    "list_all (\<lambda>e. \<not> is_attempt e \<and> \<not> refuses e \<and> \<not> is_ask e) (before @ after)"
    "rest = [] \<or> policy \<noteq> Never \<and> (\<exists>asks2 fin. rest = asks2 @ fin \<and> list_all (\<lambda>e. \<not> is_attempt e) asks2 \<and>
       (fin \<noteq> [] \<longrightarrow> list_all (\<lambda>e. \<not> is_attempt e \<and> \<not> refuses e) asks2 \<and>
         (list_ex approves asks2 \<or> needs_ask tc (requirement_of w tc policy) \<and> \<not> strict_auto_review tc)) \<and>
       (fin = [] \<or> (\<exists>b a. fin = b @ Attempted NoSandbox # a \<and>
          list_all (\<lambda>e. \<not> is_attempt e \<and> \<not> refuses e \<and> \<not> is_ask e) (b @ a))))"
proof -
  let ?req = "requirement_of w tc policy"
  obtain ap tr0 where phase: "approval_phase w tc ?req [] = (ap, tr0)" by (cases "approval_phase w tc ?req []")
  note run = assms(1) [unfolded orchestrator_run_def Let_def requirement_of_def [symmetric] phase]
  show ?thesis
  proof (cases ap)
    case (Inl e)
    have "needs_ask tc ?req \<or> tr0 = []"
      using phase Inl by (auto simp: approval_phase_def needs_ask_def split: approval_requirement.splits if_splits)
    with run Inl approval_phase_trace(1) [OF phase] show ?thesis by (intro that(1) [of tr0]) auto
  next
    case (Inr approved)
    note ph = approval_phase_trace(2) [OF phase Inr]
    have no_forbid: "?req \<noteq> ForbiddenRun r" for r using approval_phase_trace(3) [OF phase] Inr by auto
    obtain r d tr1 where r: "run_attempt w (initial_sandbox w tc ?req) tr0 = (r, d, tr1)"
      by (cases "run_attempt w (initial_sandbox w tc ?req) tr0")
    then obtain before after where b: "tr1 = tr0 @ before @ Attempted (initial_sandbox w tc ?req) # after"
      "list_all (\<lambda>e. \<not> is_attempt e \<and> \<not> refuses e \<and> \<not> is_ask e) (before @ after)" by (rule run_attempt_trace)
    show ?thesis
    proof (cases "\<exists>out payload ctx. r = Inl (SandboxDenied out payload) \<and> retry_allowed w tc policy payload ctx \<and>
        escalated_attempt w tc policy approved out ctx tr1 = (res, tr)")
      case False
      then have "tr = tr1" using run r Inr by (auto simp: Let_def split: sum.splits tool_error.splits if_splits)
      with b ph no_forbid show ?thesis by (intro that(2) [of tr0 before after "[]"]) auto
    next
      case True
      then obtain out payload ctx where esc: "retry_allowed w tc policy payload ctx"
        "escalated_attempt w tc policy approved out ctx tr1 = (res, tr)" by blast
      then have "policy \<noteq> Never" using assms(2) by (auto simp: retry_allowed_def split: if_splits)
      from escalated_trace [OF esc(2) this] obtain asks2 fin where rest: "tr = tr1 @ asks2 @ fin" "list_all (\<lambda>e. \<not> is_attempt e) asks2"
        "fin \<noteq> [] \<Longrightarrow> list_all (\<lambda>e. \<not> is_attempt e \<and> \<not> refuses e) asks2 \<and> (list_ex approves asks2 \<or> approved \<and> \<not> strict_auto_review tc)"
        "fin = [] \<or> (\<exists>before after. fin = before @ Attempted NoSandbox # after \<and>
          list_all (\<lambda>e. \<not> is_attempt e \<and> \<not> refuses e \<and> \<not> is_ask e) (before @ after))" by blast
      show ?thesis
        by (rule that(2) [of tr0 before after "asks2 @ fin"]) (use rest b ph no_forbid \<open>policy \<noteq> Never\<close> in \<open>simp, simp, simp, simp, simp, simp, blast\<close>)
    qed
  qed
qed

lemma attempts_of_quiet: "list_all (\<lambda>e. \<not> is_attempt e \<and> \<not> refuses e \<and> \<not> is_ask e) xs \<Longrightarrow> filter is_attempt xs = [] \<and> filter is_ask xs = []"
  by (induction xs) auto

text \<open>
  (C40) Whatever the tool, the hooks and the reviewers answer, a run follows the protocol: nothing runs that
  needs an approval and has none, nothing runs after a refusal, a second attempt is made at most once
  and only with an approval in force, which under strict review must be a new one.  A forbidden
  command is not even asked about.  Under \<^verbatim>\<open>never\<close> a command that was found to need no approval is
  attempted once, and nobody is asked.
\<close>
theorem orchestrator_follows_protocol:
  assumes "orchestrator_run w tc policy [] = (res, tr)" "\<not> tool_wants_no_sandbox_approval w Never"
  shows "follows_protocol (needs_ask tc (requirement_of w tc policy)) (strict_auto_review tc) 0 False tr \<and>
    (\<forall>reason. requirement_of w tc policy = ForbiddenRun reason \<longrightarrow> tr = []) \<and>
    (policy = Never \<and> \<not> needs_ask tc (requirement_of w tc policy) \<longrightarrow>
      filter is_ask tr = [] \<and> length (filter is_attempt tr) \<le> 1)"
  using assms
proof (cases rule: orchestrator_trace)
  case (1 asks)
  then have "requirement_of w tc policy = ForbiddenRun reason \<Longrightarrow> tr = []" for reason by (auto simp: needs_ask_def)
  with 1 show ?thesis using protocol_refused [of asks] by auto
next
  case (2 asks before after rest)
  let ?needs = "needs_ask tc (requirement_of w tc policy)"
  let ?follows = "follows_protocol ?needs (strict_auto_review tc)"
  have "?follows (Suc 0) (list_ex approves asks \<and> \<not> strict_auto_review tc) rest"
  proof (cases "rest = []")
    case False
    with 2(7) obtain asks2 fin where rest: "rest = asks2 @ fin" "list_all (\<lambda>e. \<not> is_attempt e) asks2"
      "fin \<noteq> [] \<longrightarrow> list_all (\<lambda>e. \<not> is_attempt e \<and> \<not> refuses e) asks2 \<and> (list_ex approves asks2 \<or> ?needs \<and> \<not> strict_auto_review tc)"
      "fin = [] \<or> (\<exists>b a. fin = b @ Attempted NoSandbox # a \<and> list_all (\<lambda>e. \<not> is_attempt e \<and> \<not> refuses e \<and> \<not> is_ask e) (b @ a))"
      by blast
    show ?thesis
    proof (cases "fin = []")
      case True
      with rest show ?thesis using protocol_refused [of asks2] by simp
    next
      case False
      with rest obtain b a where fin: "fin = b @ Attempted NoSandbox # a @ []"
        "list_all (\<lambda>e. \<not> is_attempt e \<and> \<not> refuses e \<and> \<not> is_ask e) (b @ a)" by auto
      have "list_all (\<lambda>e. \<not> is_attempt e \<and> \<not> refuses e) asks2" "list_ex approves asks2 \<or> ?needs \<and> \<not> strict_auto_review tc"
        using rest(3) False by blast+
      with 2(4) show ?thesis by (simp only: rest(1) protocol_asks fin(1) protocol_attempt [OF fin(2)]) auto
    qed
  qed simp
  with 2(1,2,4) have "?follows 0 False tr" by (simp add: protocol_asks protocol_attempt [OF 2(6)])
  moreover have "filter is_ask tr = [] \<and> length (filter is_attempt tr) \<le> 1" if "policy = Never" "\<not> ?needs"
    using that 2(1,5,6,7) attempts_of_quiet [of before] attempts_of_quiet [of after] by auto
  ultimately show ?thesis using 2(3) by blast
qed

definition patch_world :: "bool tool_world" where
  "patch_world =
     \<lparr>exec_approval_requirement = Some (NeedsApproval None None), tool_sandbox_permissions = UseDefault,
      sandbox_preference = PreferAuto, escalate_on_failure = True,
      tool_wants_no_sandbox_approval = patch_wants_no_sandbox_approval, has_permission_request_payload = False,
      run_permission_request_hooks = (\<lambda>_. None), start_approval = (\<lambda>_. Approved),
      tool_run = (\<lambda>_ sandbox. if sandbox = NoSandbox then Inr True else Inl (SandboxDenied False None)),
      begin_network_approval = (\<lambda>_. None), finish_network_approval = (\<lambda>_. None),
      guardian_rejection_message = [], guardian_timeout_message = []\<rparr>"

definition linux_turn :: turn_context where
  "linux_turn =
     \<lparr>strict_auto_review = False, routes_approval_to_guardian = False, turn_file_system_policy = work_policy,
      turn_network_policy = NetworkRestricted, managed_network_active = False, windows_sandbox_enabled = False,
      turn_os = Linux\<rparr>"

lemma patch_run:
  "orchestrator_run patch_world linux_turn UnlessTrusted [] =
     (Inr (True, False), [Reviewed False None Approved, Attempted LinuxSeccomp, Attempted NoSandbox])"
proof -
  have "initial_sandbox patch_world linux_turn (NeedsApproval None None) = LinuxSeccomp"
    by (simp add: initial_sandbox_def patch_world_def linux_turn_def sandbox_override_for_first_attempt_def
        has_denied_read_restrictions_def work_policy_def restricted_def entry_def select_initial_def
        should_require_platform_sandbox_def network_is_enabled_def get_platform_sandbox_def unwrap_or_def)
  then show ?thesis
    by (simp add: orchestrator_run_def patch_world_def linux_turn_def unwrap_or_def approval_phase_def obtain_approval_def
        request_approval_def run_attempt_def retry_allowed_def escalated_attempt_def should_bypass_approval_def Let_def)
qed

theorem orchestrator_follows_protocol_witness:
  "follows_protocol True False 0 False [Reviewed False None Approved, Attempted LinuxSeccomp, Attempted NoSandbox]"
  using orchestrator_follows_protocol [OF patch_run]
  by (simp add: patch_world_def linux_turn_def requirement_of_def unwrap_or_def needs_ask_def)

text \<open>
  The first attempt is not unsandboxed against a policy that denies reads, even on request; the second
  one, after a denial by the sandbox, is, and when the command was approved before it ran nobody is
  asked again.
\<close>
lemma retry_discards_denied_reads:
  "has_denied_read_restrictions (turn_file_system_policy linux_turn) \<and>
   snd (orchestrator_run patch_world linux_turn UnlessTrusted []) =
     [Reviewed False None Approved, Attempted LinuxSeccomp, Attempted NoSandbox]"
  by (simp add: patch_run) (simp add: linux_turn_def has_denied_read_restrictions_def work_policy_def restricted_def entry_def)

text \<open>
  The sandbox of the first attempt: where the platform has one and the policy restricts writes, it is
  used unless a rule allows the whole command or escalation was asked for; and a policy that denies
  reads keeps the sandbox even then.
\<close>
theorem first_attempt_is_sandboxed:
  assumes "policy_kind (turn_file_system_policy tc) = Restricted" "\<not> has_full_disk_write_access (turn_file_system_policy tc)"
    "get_platform_sandbox (turn_os tc) (windows_sandbox_enabled tc) = Some sandbox" "sandbox_preference w \<noteq> PreferForbid"
    "\<And>amendment. requirement \<noteq> Skip True amendment"
    "has_denied_read_restrictions (turn_file_system_policy tc) \<or> tool_sandbox_permissions w \<noteq> RequireEscalated"
  shows "initial_sandbox w tc requirement = sandbox \<and> sandbox \<noteq> NoSandbox"
proof -
  have "sandbox_override_for_first_attempt (tool_sandbox_permissions w) requirement (turn_file_system_policy tc) = NoOverride"
    using assms(5,6) by (cases requirement) (auto simp: sandbox_override_for_first_attempt_def requires_escalated_permissions_def)
  moreover have "should_require_platform_sandbox (turn_file_system_policy tc) n m" for n m
    using assms(1,2) by (simp add: should_require_platform_sandbox_def)
  moreover have "sandbox \<noteq> NoSandbox" using assms(3) by (auto simp: get_platform_sandbox_def split: target_os.splits if_splits)
  ultimately show ?thesis
    using assms(3,4) by (cases "sandbox_preference w") (simp_all add: initial_sandbox_def select_initial_def unwrap_or_def)
qed

theorem first_attempt_is_sandboxed_witness:
  "initial_sandbox patch_world linux_turn (NeedsApproval None None) = LinuxSeccomp"
proof -
  have "has_denied_read_restrictions work_policy" "\<not> has_full_disk_write_access work_policy"
    by (simp_all add: has_denied_read_restrictions_def work_policy_def restricted_def entry_def has_full_disk_write_access_def
        has_root_access_def is_special_def can_write_def)
  then show ?thesis
    using first_attempt_is_sandboxed [of linux_turn LinuxSeccomp patch_world "NeedsApproval None None"] work_ok(3)
    by (simp add: linux_turn_def patch_world_def get_platform_sandbox_def)
qed

section \<open>Approvals for the session\<close>

lemma store_put_all:
  "k \<in> set keys \<Longrightarrow> to_json k = Some s \<Longrightarrow> fold (\<lambda>key. store_put to_json key d) keys store s = Some d"
proof (induction keys arbitrary: store)
  case (Cons x xs)
  have keep: "fold (\<lambda>key. store_put to_json key d) xs st s = Some d" if "st s = Some d" for st
    using that by (induction xs arbitrary: st) (auto simp: store_put_def split: option.split)
  show ?case
  proof (cases "k \<in> set xs")
    case False
    with Cons.prems have "store_put to_json x d store s = Some d" by (simp add: store_put_def)
    then show ?thesis using keep by simp
  qed (use Cons in simp)
qed simp

text \<open>
  An approval for the session covers every later request for some of the same targets: it is answered
  from the cache without asking.  And the cache never answers for a target that was not approved for
  the session.
\<close>
theorem session_approval_covers_subsets:
  assumes "with_cached_approval to_json keys ApprovedForSession store = (d, store', asked)"
    "\<forall>k\<in>set keys. to_json k \<noteq> None" "set keys' \<subseteq> set keys" "keys' \<noteq> []"
  shows "with_cached_approval to_json keys' fetched store' = (ApprovedForSession, store', False) \<and>
    (\<not> asked \<longrightarrow> (\<forall>k\<in>set keys. store_get to_json store k = Some ApprovedForSession))"
proof -
  have "keys \<noteq> []" using assms(3,4) by auto
  have "store_get to_json store' k = Some ApprovedForSession" if "k \<in> set keys" for k
    using assms(1,2) that store_put_all [OF that] \<open>keys \<noteq> []\<close>
    by (auto simp: with_cached_approval_def store_get_def list_all_iff bind_eq_Some_conv split: if_splits)
  with assms \<open>keys \<noteq> []\<close> show ?thesis by (auto simp: with_cached_approval_def list_all_iff split: if_splits)
qed

theorem session_approval_covers_subsets_witness:
  "with_cached_approval Some [lit ''b''] Denied (fst (snd (with_cached_approval Some [lit ''a'', lit ''b''] ApprovedForSession (\<lambda>_. None)))) =
     (ApprovedForSession, fst (snd (with_cached_approval Some [lit ''a'', lit ''b''] ApprovedForSession (\<lambda>_. None))), False)"
proof -
  obtain d store' asked where r: "with_cached_approval Some [lit ''a'', lit ''b''] ApprovedForSession (\<lambda>_. None) = (d, store', asked)"
    by (cases "with_cached_approval Some [lit ''a'', lit ''b''] ApprovedForSession (\<lambda>_. None)")
  from session_approval_covers_subsets [OF r, of "[lit ''b'']" Denied] r show ?thesis by simp
qed

end
