(* ===== verification/Patch_Safety.thy ===== *)
theory Patch_Safety
  imports Patch_Invocation Patch_Agreement Tool_Orchestrator
begin

text \<open>
  Whether a verified patch may be applied, and under which permissions: \<^verbatim>\<open>core/src/safety.rs\<close>,
  \<^verbatim>\<open>core/src/apply_patch.rs\<close>, the pure functions of \<^verbatim>\<open>tools/handlers/apply_patch.rs\<close> and
  \<^verbatim>\<open>tools/handlers/mod.rs\<close>, and the request and runtime of
  \<^verbatim>\<open>tools/runtimes/apply_patch.rs\<close>.

  The theorems put the parts of a patch together: the verified action, its assessment, the
  requirement the orchestrator gets and the file system in the end.
\<close>

section \<open>Assessment\<close>

definition PATCH_REJECTED_OUTSIDE_PROJECT_REASON :: rstr where
  "PATCH_REJECTED_OUTSIDE_PROJECT_REASON = lit ''writing outside of the project; rejected by user approval settings''"

definition PATCH_REJECTED_READ_ONLY_REASON :: rstr where
  "PATCH_REJECTED_READ_ONLY_REASON = lit ''writing is blocked by read-only sandbox; rejected by user approval settings''"

datatype safety_check = AutoApprove sandbox_type bool | AskUser | Reject rstr

text \<open>\<^verbatim>\<open>util::resolve_path\<close>; \<^verbatim>\<open>Path::join\<close> is \<^const>\<open>path_push\<close>.\<close>

definition util_resolve_path :: "rstr \<Rightarrow> rstr \<Rightarrow> rstr" where
  "util_resolve_path base path = (if is_absolute path then path else path_push base path)"

definition safety_normalize :: "rstr \<Rightarrow> rstr option" where
  "safety_normalize path = Some (foldl normalize_step [] (components path))"

definition patch_path_writable :: "'z sandbox_env_scheme \<Rightarrow> fs_policy \<Rightarrow> rstr \<Rightarrow> rstr \<Rightarrow> bool" where
  "patch_path_writable env pol cwd p =
     (case safety_normalize (util_resolve_path cwd p) of
        Some abs_path \<Rightarrow> can_write_path_with_cwd env pol abs_path cwd
      | None \<Rightarrow> False)"

fun change_writable :: "'z sandbox_env_scheme \<Rightarrow> fs_policy \<Rightarrow> rstr \<Rightarrow> rstr \<times> file_change \<Rightarrow> bool" where
  "change_writable env pol cwd (path, AddChange _) = patch_path_writable env pol cwd path"
| "change_writable env pol cwd (path, DeleteChange _) = patch_path_writable env pol cwd path"
| "change_writable env pol cwd (path, UpdateChange _ move_path _) =
     (if \<not> patch_path_writable env pol cwd path then False
      else case move_path of
             Some dest \<Rightarrow> if \<not> patch_path_writable env pol cwd dest then False else True
           | None \<Rightarrow> True)"

definition is_write_patch_constrained_to_writable_paths ::
  "'z sandbox_env_scheme \<Rightarrow> patch_action \<Rightarrow> fs_policy \<Rightarrow> rstr \<Rightarrow> bool" where
  "is_write_patch_constrained_to_writable_paths env action pol cwd =
     list_all (change_writable env pol cwd) (action_changes action)"

fun patch_rejection_reason :: "'z sandbox_env_scheme \<Rightarrow> permission_profile \<Rightarrow> fs_policy \<Rightarrow> rstr \<Rightarrow> rstr" where
  "patch_rejection_reason env (Managed fs network) pol cwd =
     (if \<not> has_full_disk_write_access pol \<and> get_writable_roots_with_cwd env pol cwd = []
      then PATCH_REJECTED_READ_ONLY_REASON else PATCH_REJECTED_OUTSIDE_PROJECT_REASON)"
| "patch_rejection_reason env Disabled pol cwd = PATCH_REJECTED_OUTSIDE_PROJECT_REASON"
| "patch_rejection_reason env (External network) pol cwd = PATCH_REJECTED_OUTSIDE_PROJECT_REASON"

definition rejects_sandbox_approval :: "ask_for_approval \<Rightarrow> bool" where
  "rejects_sandbox_approval policy \<longleftrightarrow>
     policy = Never \<or> (case policy of Granular granular_config \<Rightarrow> \<not> sandbox_approval granular_config | _ \<Rightarrow> False)"

definition assess_patch_safety ::
  "'z sandbox_env_scheme \<Rightarrow> target_os \<Rightarrow> patch_action \<Rightarrow> ask_for_approval \<Rightarrow> permission_profile \<Rightarrow> fs_policy \<Rightarrow> rstr \<Rightarrow> bool \<Rightarrow>
   safety_check" where
  "assess_patch_safety env os action policy profile pol cwd windows_enabled =
     (if action_changes action = [] then Reject (lit ''empty patch'')
      else if policy = UnlessTrusted then AskUser
      else if is_write_patch_constrained_to_writable_paths env action pol cwd \<or> policy = OnFailure then
        (case profile of
           Disabled \<Rightarrow> AutoApprove NoSandbox False
         | External _ \<Rightarrow> AutoApprove NoSandbox False
         | Managed _ _ \<Rightarrow>
             (case get_platform_sandbox os windows_enabled of
                Some sandbox_type \<Rightarrow> AutoApprove sandbox_type False
              | None \<Rightarrow>
                  if rejects_sandbox_approval policy then Reject (patch_rejection_reason env profile pol cwd) else AskUser))
      else if rejects_sandbox_approval policy then Reject (patch_rejection_reason env profile pol cwd)
      else AskUser)"

section \<open>From the assessment to a request\<close>

record runtime_invocation =
  invocation_action :: patch_action
  auto_approved :: bool
  invocation_requirement :: approval_requirement

datatype internal_invocation = InvocationOutput "rstr + rstr" | DelegateToRuntime runtime_invocation

definition apply_patch_decision ::
  "'z sandbox_env_scheme \<Rightarrow> target_os \<Rightarrow> ask_for_approval \<Rightarrow> permission_profile \<Rightarrow> bool \<Rightarrow> fs_policy \<Rightarrow> patch_action \<Rightarrow> internal_invocation" where
  "apply_patch_decision env os policy profile windows_enabled pol action =
     (case assess_patch_safety env os action policy profile pol (action_cwd action) windows_enabled of
        AutoApprove _ user_explicitly_approved \<Rightarrow>
          DelegateToRuntime \<lparr>invocation_action = action, auto_approved = (\<not> user_explicitly_approved),
            invocation_requirement = Skip False None\<rparr>
      | AskUser \<Rightarrow>
          DelegateToRuntime \<lparr>invocation_action = action, auto_approved = False,
            invocation_requirement = NeedsApproval None None\<rparr>
      | Reject reason \<Rightarrow> InvocationOutput (Inl (lit ''patch rejected: '' @ reason)))"

datatype protocol_change = ProtocolAdd rstr | ProtocolDelete rstr | ProtocolUpdate rstr "rstr option"

fun protocol_change_of :: "file_change \<Rightarrow> protocol_change" where
  "protocol_change_of (AddChange content) = ProtocolAdd content"
| "protocol_change_of (DeleteChange content) = ProtocolDelete content"
| "protocol_change_of (UpdateChange unified_diff move_path _) = ProtocolUpdate unified_diff move_path"

definition convert_apply_patch_to_protocol :: "patch_action \<Rightarrow> (rstr \<times> protocol_change) list" where
  "convert_apply_patch_to_protocol action = map (\<lambda>(path, change). (path, protocol_change_of change)) (action_changes action)"

section \<open>Progress of a patch that is being written\<close>

definition format_update_chunk :: "update_file_chunk \<Rightarrow> rstr" where
  "format_update_chunk chunk =
     (case change_context chunk of
        Some ctx \<Rightarrow> lit ''@@ '' @ ctx @ [newline]
      | None \<Rightarrow> lit ''@@'' @ [newline]) @
     concat (map (\<lambda>line. [c_minus] @ line @ [newline]) (old_lines chunk)) @
     concat (map (\<lambda>line. [c_plus] @ line @ [newline]) (new_lines chunk)) @
     (if is_end_of_file chunk then lit ''*** End of File'' @ [newline] else [])"

definition format_update_chunks_for_progress :: "update_file_chunk list \<Rightarrow> rstr" where
  "format_update_chunks_for_progress chunks = concat (map format_update_chunk chunks)"

fun hunk_source_path :: "hunk \<Rightarrow> rstr" where
  "hunk_source_path (AddFile path _) = path"
| "hunk_source_path (DeleteFile path) = path"
| "hunk_source_path (UpdateFile path _ _) = path"

fun hunk_progress :: "hunk \<Rightarrow> protocol_change" where
  "hunk_progress (AddFile _ contents) = ProtocolAdd contents"
| "hunk_progress (DeleteFile _) = ProtocolDelete []"
| "hunk_progress (UpdateFile _ move_path chunks) = ProtocolUpdate (format_update_chunks_for_progress chunks) move_path"

text \<open>\<^verbatim>\<open>collect\<close> into a \<^verbatim>\<open>HashMap\<close>: a later hunk on the same path replaces an earlier one.\<close>

fun insert_progress :: "rstr \<Rightarrow> protocol_change \<Rightarrow> (rstr \<times> protocol_change) list \<Rightarrow> (rstr \<times> protocol_change) list" where
  "insert_progress path c [] = [(path, c)]"
| "insert_progress path c ((p, d) # m) = (if path_eq path p then (p, c) # m else (p, d) # insert_progress path c m)"

definition convert_apply_patch_hunks_to_protocol :: "hunk list \<Rightarrow> (rstr \<times> protocol_change) list" where
  "convert_apply_patch_hunks_to_protocol hs =
     foldl (\<lambda>m h. insert_progress (hunk_source_path h) (hunk_progress h) m) [] hs"

text \<open>
  The consumer of a patch that is being streamed: at most one event every 500 milliseconds, the
  newest one kept for later.  The time of a call is an argument; \<^verbatim>\<open>duration_since\<close> is zero for a
  later time.
\<close>

definition APPLY_PATCH_ARGUMENT_DIFF_BUFFER_INTERVAL :: nat where
  "APPLY_PATCH_ARGUMENT_DIFF_BUFFER_INTERVAL = 500"

type_synonym patch_event = "rstr \<times> (rstr \<times> protocol_change) list"

record diff_consumer =
  consumer_parser :: streaming_parser
  last_sent_at :: "nat option"
  pending :: "patch_event option"

definition new_consumer :: diff_consumer where
  "new_consumer = \<lparr>consumer_parser = default_parser, last_sent_at = None, pending = None\<rparr>"

definition consumer_push_delta :: "nat \<Rightarrow> rstr \<Rightarrow> rstr \<Rightarrow> diff_consumer \<Rightarrow> patch_event option \<times> diff_consumer" where
  "consumer_push_delta now call_id delta c =
     (case push_delta (consumer_parser c) delta of
        (Inl _, parser) \<Rightarrow> (None, c\<lparr>consumer_parser := parser\<rparr>)
      | (Inr hs, parser) \<Rightarrow>
          (let c = c\<lparr>consumer_parser := parser\<rparr> in
           if hs = [] then (None, c)
           else (let event = (call_id, convert_apply_patch_hunks_to_protocol hs) in
                 if (case last_sent_at c of
                       Some sent \<Rightarrow> now - sent < APPLY_PATCH_ARGUMENT_DIFF_BUFFER_INTERVAL
                     | None \<Rightarrow> False)
                 then (None, c\<lparr>pending := Some event\<rparr>)
                 else (Some event, c\<lparr>pending := None, last_sent_at := Some now\<rparr>))))"

definition finish_update_on_complete :: "nat \<Rightarrow> diff_consumer \<Rightarrow> (rstr + patch_event option) \<times> diff_consumer" where
  "finish_update_on_complete now c =
     (case finish (consumer_parser c) of
        (Inl err, parser) \<Rightarrow>
          (Inl (lit ''failed to parse apply_patch: '' @ display_parse_error err), c\<lparr>consumer_parser := parser\<rparr>)
      | (Inr _, parser) \<Rightarrow>
          (let event = pending c;
               c = c\<lparr>consumer_parser := parser, pending := None\<rparr>
           in (Inr event, if event \<noteq> None then c\<lparr>last_sent_at := Some now\<rparr> else c)))"

definition consume_diff :: "bool \<Rightarrow> nat \<Rightarrow> rstr \<Rightarrow> rstr \<Rightarrow> diff_consumer \<Rightarrow> patch_event option \<times> diff_consumer" where
  "consume_diff streaming_events_enabled now call_id diff c =
     (if \<not> streaming_events_enabled then (None, c) else consumer_push_delta now call_id diff c)"

section \<open>Permissions of a patch\<close>

text \<open>\<^verbatim>\<open>AbsolutePathBuf::parent\<close> is the parent of its path; \<^verbatim>\<open>to_abs_path\<close> always answers.\<close>

definition to_abs_path :: "'z sandbox_env_scheme \<Rightarrow> rstr \<Rightarrow> rstr \<Rightarrow> rstr option" where
  "to_abs_path env cwd path = Some (resolve_path_against_base (home_dir env) path cwd)"

fun change_keys :: "'z sandbox_env_scheme \<Rightarrow> rstr \<Rightarrow> rstr \<times> file_change \<Rightarrow> rstr list" where
  "change_keys env cwd (path, UpdateChange _ (Some dest) _) =
     (case to_abs_path env cwd path of Some key \<Rightarrow> [key] | None \<Rightarrow> []) @
     (case to_abs_path env cwd dest of Some key \<Rightarrow> [key] | None \<Rightarrow> [])"
| "change_keys env cwd (path, c) = (case to_abs_path env cwd path of Some key \<Rightarrow> [key] | None \<Rightarrow> [])"

definition file_paths_for_action :: "'z sandbox_env_scheme \<Rightarrow> patch_action \<Rightarrow> rstr list" where
  "file_paths_for_action env action = concat (map (change_keys env (action_cwd action)) (action_changes action))"

text \<open>A \<^verbatim>\<open>BTreeSet\<close> of paths: sorted, without paths equal to one before.\<close>

definition path_set :: "rstr list \<Rightarrow> rstr list" where
  "path_set paths = dedup_loop [] (sorted_absolute_paths paths)"

definition write_permissions_for_paths ::
  "'z sandbox_env_scheme \<Rightarrow> rstr list \<Rightarrow> fs_policy \<Rightarrow> rstr \<Rightarrow> additional_permissions option" where
  "write_permissions_for_paths env file_paths pol cwd =
     (let parents = map (\<lambda>path. unwrap_or path (path_parent path)) file_paths;
          missing = filter (\<lambda>path. \<not> can_write_path_with_cwd env pol path cwd) parents
      in case those (map (absolute_ok env) (path_set missing)) of
           None \<Rightarrow> None
         | Some write_paths \<Rightarrow>
             if write_paths = [] then None
             else case normalize_additional_permissions env
                    \<lparr>add_network = None,
                     add_file_system = Some (from_read_write_roots (Some []) (Some write_paths))\<rparr> of
                    Inr permissions \<Rightarrow> Some permissions
                  | Inl _ \<Rightarrow> None)"

record effective_additional_permissions =
  eff_sandbox_permissions :: sandbox_permissions
  eff_additional_permissions :: "additional_permissions option"
  permissions_preapproved :: bool

text \<open>The derived equality of permissions, which compares paths by their components.\<close>

definition additional_eq :: "additional_permissions \<Rightarrow> additional_permissions \<Rightarrow> bool" where
  "additional_eq a b \<longleftrightarrow>
     add_network a = add_network b \<and>
     (case (add_file_system a, add_file_system b) of
        (None, None) \<Rightarrow> True
      | (Some f, Some g) \<Rightarrow> list_all2 entry_eq (perm_entries f) (perm_entries g) \<and> perm_glob_depth f = perm_glob_depth g
      | _ \<Rightarrow> False)"

definition permissions_are_preapproved ::
  "'z sandbox_env_scheme \<Rightarrow> additional_permissions \<Rightarrow> additional_permissions \<Rightarrow> rstr \<Rightarrow> (unit, bool) outcome" where
  "permissions_are_preapproved env effective granted cwd =
     and_then (intersect_permission_profiles env effective effective cwd) (\<lambda>materialized.
       and_then (intersect_permission_profiles env effective granted cwd) (\<lambda>both.
         Ok (additional_eq both materialized)))"

definition implicit_granted_permissions ::
  "sandbox_permissions \<Rightarrow> additional_permissions option \<Rightarrow> effective_additional_permissions \<Rightarrow> additional_permissions option" where
  "implicit_granted_permissions perms additional effective =
     (if \<not> uses_additional_permissions perms \<and> perms \<noteq> RequireEscalated \<and> additional = None
      then eff_additional_permissions effective else None)"

text \<open>The grants of the session and of the turn are arguments.\<close>

definition apply_granted_turn_permissions ::
  "'z sandbox_env_scheme \<Rightarrow> additional_permissions option \<Rightarrow> additional_permissions option \<Rightarrow> rstr \<Rightarrow> sandbox_permissions \<Rightarrow>
   additional_permissions option \<Rightarrow> (unit, effective_additional_permissions) outcome" where
  "apply_granted_turn_permissions env granted_session granted_turn cwd perms additional =
     (if perms = RequireEscalated
      then Ok \<lparr>eff_sandbox_permissions = perms, eff_additional_permissions = additional, permissions_preapproved = False\<rparr>
      else let granted = merge_permission_profiles granted_session granted_turn;
               effective = merge_permission_profiles additional granted
           in and_then (case (effective, granted) of
                          (Some e, Some g) \<Rightarrow> permissions_are_preapproved env e g cwd
                        | _ \<Rightarrow> Ok False) (\<lambda>preapproved.
                Ok \<lparr>eff_sandbox_permissions =
                      (if effective \<noteq> None \<and> \<not> uses_additional_permissions perms then WithAdditionalPermissions else perms),
                    eff_additional_permissions = effective, permissions_preapproved = preapproved\<rparr>))"

definition normalize_and_validate_additional_permissions ::
  "'z sandbox_env_scheme \<Rightarrow> (ask_for_approval \<Rightarrow> rstr) \<Rightarrow> bool \<Rightarrow> ask_for_approval \<Rightarrow> sandbox_permissions \<Rightarrow>
   additional_permissions option \<Rightarrow> bool \<Rightarrow> rstr + additional_permissions option" where
  "normalize_and_validate_additional_permissions env debug allowed policy perms additional preapproved =
     (let uses = (perms = WithAdditionalPermissions) in
      if \<not> preapproved \<and> \<not> allowed \<and> (uses \<or> additional \<noteq> None)
      then Inl (lit ''additional permissions are disabled; enable `features.exec_permission_approvals` before using `with_additional_permissions`'')
      else if uses then
        (if \<not> preapproved \<and> policy \<noteq> OnRequest
         then Inl (lit ''approval policy is '' @ debug policy @ lit ''; reject command '' @ [8212] @
                   lit '' you cannot request additional permissions unless the approval policy is OnRequest'')
         else case additional of
                None \<Rightarrow> Inl (lit ''missing `additional_permissions`; provide at least one of `network` or `file_system` when using `with_additional_permissions`'')
              | Some additional \<Rightarrow>
                  (case normalize_additional_permissions env additional of
                     Inl e \<Rightarrow> Inl e
                   | Inr normalized \<Rightarrow>
                       if additional_is_empty normalized
                       then Inl (lit ''`additional_permissions` must include at least one requested permission in `network` or `file_system`'')
                       else Inr (Some normalized)))
      else if additional \<noteq> None
      then Inl (lit ''`additional_permissions` requires `sandbox_permissions` set to `with_additional_permissions`'')
      else Inr None)"

definition effective_patch_permissions ::
  "'z sandbox_env_scheme \<Rightarrow> additional_permissions option \<Rightarrow> additional_permissions option \<Rightarrow> fs_policy \<Rightarrow> patch_action \<Rightarrow> rstr \<Rightarrow>
   (unit, rstr list \<times> effective_additional_permissions \<times> fs_policy) outcome" where
  "effective_patch_permissions env granted_session granted_turn base action cwd =
     (let file_paths = file_paths_for_action env action;
          granted = merge_permission_profiles granted_session granted_turn;
          pol = effective_file_system_sandbox_policy base granted
      in and_then (apply_granted_turn_permissions env granted_session granted_turn cwd UseDefault
                    (write_permissions_for_paths env file_paths pol cwd)) (\<lambda>effective.
           Ok (file_paths, effective, pol)))"

section \<open>What an assessment says\<close>

lemma normal_path_kept: "normal_path p \<Longrightarrow> foldl normalize_step [] (components p) = p"
proof -
  assume p: "normal_path p"
  then have "normalize_path p = p" using names_normalize normal_absolute normal_path_unique by blast
  moreover have "p \<noteq> dot_name" using normal_absolute [OF p] by (auto simp: dot_name_def is_absolute_def)
  ultimately show ?thesis by (auto simp: normalize_path_def Let_def split: if_splits)
qed

lemma writable_normal:
  "normal_path p \<Longrightarrow> patch_path_writable env pol cwd p \<longleftrightarrow> can_write_path_with_cwd env pol p cwd"
  by (simp add: patch_path_writable_def safety_normalize_def util_resolve_path_def normal_absolute normal_path_kept)

lemma change_writable_paths: "change_writable env pol cwd b \<longleftrightarrow> (\<forall>p\<in>change_paths b. patch_path_writable env pol cwd p)"
  by (cases "(env, pol, cwd, b)" rule: change_writable.cases) (auto split: option.splits)

lemma constrained_paths:
  "is_write_patch_constrained_to_writable_paths env a pol cwd \<longleftrightarrow> (\<forall>p\<in>action_paths a. patch_path_writable env pol cwd p)"
  by (simp add: is_write_patch_constrained_to_writable_paths_def list_all_iff change_writable_paths action_paths_def)

lemma hunk_targets_normal: "is_absolute cwd \<Longrightarrow> p \<in> hunk_targets (resolver home cwd) h \<Longrightarrow> normal_path p"
  by (cases "(resolver home cwd, h)" rule: hunk_targets.cases)
    (auto simp: resolve_path_against_base_def absolutize_from_names(1))

section \<open>A patch that nobody was asked about\<close>

text \<open>What an automatic approval says of the targets of a verified patch.\<close>

lemma auto_approved_targets:
  assumes "verify_apply_patch_args home diff fs s args cwd = Ok (VerifiedBody a)" "is_absolute cwd"
    "distinct (map (resolve_path (resolver home (action_cwd a))) (args_hunks args))"
    "assess_patch_safety env os a policy profile pol (action_cwd a) windows = AutoApprove sandbox b" "policy \<noteq> OnFailure"
    "p \<in> patch_targets home (action_cwd a) (args_hunks args)"
  shows "can_write_path_with_cwd env pol p (action_cwd a)"
proof -
  have "\<forall>p\<in>action_paths a. patch_path_writable env pol (action_cwd a) p"
    using assms(4,5) by (auto simp: assess_patch_safety_def constrained_paths split: if_splits)
  then have "patch_path_writable env pol (action_cwd a) p" using verified_paths [OF assms(1-3)] assms(6) by simp
  moreover have "normal_path p"
    using assms(6) hunk_targets_normal [OF verified_cwd [OF assms(1,2)]] by (auto simp: patch_targets_def)
  ultimately show ?thesis by (simp add: writable_normal)
qed

section \<open>Nothing of the progress is lost\<close>

text \<open>
  The text of a call as it arrives, each piece with its time: the events that were sent, with their
  times, the hunks that the parser showed, where it showed any, and the consumer.
\<close>

type_synonym progress = "(nat \<times> patch_event) list \<times> hunk list list \<times> diff_consumer"

definition consumer_step :: "rstr \<Rightarrow> nat \<times> rstr \<Rightarrow> progress \<Rightarrow> progress" where
  "consumer_step call_id piece state =
     (case (piece, state) of
        ((now, delta), sent, previews, c) \<Rightarrow>
          (case consumer_push_delta now call_id delta c of
             (event, c') \<Rightarrow>
               (sent @ (case event of Some e \<Rightarrow> [(now, e)] | None \<Rightarrow> []),
                previews @ (case fst (push_delta (consumer_parser c) delta) of Inr (h # hs) \<Rightarrow> [h # hs] | _ \<Rightarrow> []),
                c')))"

definition spaced :: "(nat \<times> patch_event) list \<Rightarrow> bool" where
  "spaced sent \<longleftrightarrow> sorted_wrt (\<lambda>a b. fst a + APPLY_PATCH_ARGUMENT_DIFF_BUFFER_INTERVAL \<le> fst b) sent"

fun progress_ok :: "rstr \<Rightarrow> progress \<Rightarrow> bool" where
  "progress_ok call_id (sent, previews, c) \<longleftrightarrow>
     spaced sent \<and> last_sent_at c = (if sent = [] then None else Some (fst (last sent))) \<and>
     (case pending c of
        Some e \<Rightarrow> previews \<noteq> [] \<and> e = (call_id, convert_apply_patch_hunks_to_protocol (last previews))
      | None \<Rightarrow> (previews = [] \<longleftrightarrow> sent = []) \<and>
          (previews \<noteq> [] \<longrightarrow> snd (last sent) = (call_id, convert_apply_patch_hunks_to_protocol (last previews))))"

lemma spaced_snoc:
  "spaced (sent @ [x]) \<longleftrightarrow> spaced sent \<and> (sent \<noteq> [] \<longrightarrow> fst (last sent) + APPLY_PATCH_ARGUMENT_DIFF_BUFFER_INTERVAL \<le> fst x)"
  unfolding spaced_def
proof (cases sent rule: rev_cases)
  case (snoc ys y)
  then show "sorted_wrt (\<lambda>a b. fst a + APPLY_PATCH_ARGUMENT_DIFF_BUFFER_INTERVAL \<le> fst b) (sent @ [x]) \<longleftrightarrow>
      sorted_wrt (\<lambda>a b. fst a + APPLY_PATCH_ARGUMENT_DIFF_BUFFER_INTERVAL \<le> fst b) sent \<and>
      (sent \<noteq> [] \<longrightarrow> fst (last sent) + APPLY_PATCH_ARGUMENT_DIFF_BUFFER_INTERVAL \<le> fst x)"
    by (auto simp: sorted_wrt_append intro: order_trans [rotated])
qed simp

lemma consumer_step_ok: "progress_ok call_id st \<Longrightarrow> progress_ok call_id (consumer_step call_id piece st)"
proof -
  assume ok: "progress_ok call_id st"
  obtain now delta where piece: "piece = (now, delta)" by force
  obtain sent previews c where st: "st = (sent, previews, c)" by (cases st)
  obtain r parser where push: "push_delta (consumer_parser c) delta = (r, parser)" by force
  show "progress_ok call_id (consumer_step call_id piece st)"
  proof (cases "\<exists>h hs. r = Inr (h # hs)")
    case False
    with ok piece st push show ?thesis
      by (cases r; cases "projr r") (auto simp: consumer_step_def consumer_push_delta_def Let_def)
  next
    case True
    with ok piece st push show ?thesis
      by (auto simp: consumer_step_def consumer_push_delta_def Let_def spaced_snoc APPLY_PATCH_ARGUMENT_DIFF_BUFFER_INTERVAL_def
          split: option.splits if_splits)
  qed
qed

lemma new_consumer_ok: "progress_ok call_id ([], [], new_consumer)"
  by (simp add: new_consumer_def spaced_def)

text \<open>
  While a patch is being written, at least half a second passes between two events that show its
  progress, and when it was written completely the last event, with the one that the end may
  send, shows the last hunks the parser knew of: an event is held back, never dropped.
\<close>
theorem progress_is_not_lost:
  assumes "fold (consumer_step call_id) pieces ([], [], new_consumer) = (sent, previews, c)"
    "finish_update_on_complete now c = (Inr final, c')"
  shows "spaced sent \<and>
    (let events = map snd sent @ (case final of Some e \<Rightarrow> [e] | None \<Rightarrow> []) in
     (events = [] \<longleftrightarrow> previews = []) \<and>
     (previews \<noteq> [] \<longrightarrow> last events = (call_id, convert_apply_patch_hunks_to_protocol (last previews))))"
proof -
  have "progress_ok call_id (fold (consumer_step call_id) pieces st)" if "progress_ok call_id st" for st
    using that by (induction pieces arbitrary: st) (simp_all add: consumer_step_ok del: progress_ok.simps)
  from this [OF new_consumer_ok] have "progress_ok call_id (sent, previews, c)" by (simp add: assms(1))
  moreover have "final = pending c"
    using assms(2) by (auto simp: finish_update_on_complete_def Let_def split: prod.splits sum.splits)
  ultimately show ?thesis by (auto simp: Let_def last_map split: option.splits)
qed

theorem progress_is_not_lost_witness:
  "\<exists>sent previews c final c'. fold (consumer_step []) [(0, render_patch None sample_hunks)] ([], [], new_consumer) = (sent, previews, c) \<and>
     finish_update_on_complete 1 c = (Inr final, c') \<and> spaced sent \<and>
     (previews \<noteq> [] \<longrightarrow> last (map snd sent @ (case final of Some e \<Rightarrow> [e] | None \<Rightarrow> [])) =
       ([], convert_apply_patch_hunks_to_protocol (last previews)))"
proof -
  let ?text = "render_patch None sample_hunks"
  obtain sent previews c where run: "fold (consumer_step []) [(0, ?text)] ([], [], new_consumer) = (sent, previews, c)"
    using prod_cases3 by blast
  have "consumer_parser c = snd (push_delta default_parser ?text)"
    using run by (auto simp: consumer_step_def consumer_push_delta_def new_consumer_def Let_def split: prod.splits sum.splits if_splits)
  moreover have "fst (finish (snd (push_delta default_parser ?text))) = Inr sample_hunks"
    using stream_rendered [OF sample_hunks_renderable, of None] by (simp add: Patch_Grammar.env_ok_def push_delta_result)
  ultimately obtain c' where fin: "finish_update_on_complete 1 c = (Inr (pending c), c')"
    by (cases "finish (consumer_parser c)") (auto simp: finish_update_on_complete_def Let_def)
  from progress_is_not_lost [OF run fin] run fin show ?thesis by (auto simp: Let_def)
qed

section \<open>The sandbox of a patch outside of the workspace\<close>

text \<open>
  Under \<^verbatim>\<open>on-failure\<close> nobody is asked about a patch, wherever it writes; and the sandbox of its first attempt
  gets write access to the directories of its files that are not writable.  So the writes of such a patch
  are not confined to the writable roots.
\<close>

definition outside_action :: patch_action where
  "outside_action = \<lparr>action_changes = [(lit ''/out/x'', AddChange (lit ''x''))], action_patch = [], action_cwd = lit ''/w''\<rparr>"

lemma outside_components:
  "components (lit ''/out'') = [RootDir, NormalName (lit ''out'')]" "components [slash] = [RootDir]"
  "components (lit ''/w'') = [RootDir, NormalName (lit ''w'')]"
  by (simp_all add: components_def is_absolute_def body_components_def trivial_part_def dot_name_def dot_dot_name_def part_component_def)

lemma outside_not_writable: "\<not> can_write_path_with_cwd work_env repo_policy (lit ''/out'') (lit ''/w'')"
proof -
  have "normal_path (lit ''/out'')"
    by (simp add: normal_path_def names_of_def components_def is_absolute_def body_components_def trivial_part_def
        dot_name_def dot_dot_name_def part_component_def render_abs_def good_name_def)
  from resolve_candidate_normal [OF this] have "resolve_candidate_path work_env (lit ''/out'') (lit ''/w'') = Some (lit ''/out'')" .
  then have "resolve_access_with_cwd work_env repo_policy (lit ''/out'') (lit ''/w'') = ReadAccess"
    using repo_ok(2)
    by (simp add: resolve_access_with_cwd_def repo_entries path_starts_with_def outside_components del: lit_simps) simp
  then show ?thesis by (simp add: can_write_path_with_cwd_def can_write_def)
qed

lemma on_failure_widens_sandbox:
  "assess_patch_safety work_env Linux outside_action OnFailure (Managed (ManagedRestricted (policy_entries repo_policy) None) NetworkRestricted)
     repo_policy (lit ''/w'') False = AutoApprove LinuxSeccomp False"
  "write_permissions_for_paths work_env (file_paths_for_action work_env outside_action) repo_policy (lit ''/w'') =
     Some \<lparr>add_network = None, add_file_system = Some \<lparr>perm_entries = [entry (PathEntry (lit ''/out'')) WriteAccess], perm_glob_depth = None\<rparr>\<rparr>"
proof -
  show "assess_patch_safety work_env Linux outside_action OnFailure (Managed (ManagedRestricted (policy_entries repo_policy) None) NetworkRestricted)
     repo_policy (lit ''/w'') False = AutoApprove LinuxSeccomp False"
    by (simp add: assess_patch_safety_def outside_action_def get_platform_sandbox_def)
  have "file_paths_for_action work_env outside_action = [lit ''/out/x'']" "path_parent (lit ''/out/x'') = Some (lit ''/out'')"
    by (simp_all add: file_paths_for_action_def outside_action_def to_abs_path_def work_env_def path_eval)
  moreover have "absolute_ok work_env (lit ''/out'') = Some (lit ''/out'')"
    by (simp add: absolute_ok_def from_absolute_path_def absolutize_def work_env_def path_eval)
  moreover have "os_canonicalize work_env p = None" for p by (simp add: work_env_def)
  ultimately show "write_permissions_for_paths work_env (file_paths_for_action work_env outside_action) repo_policy (lit ''/w'') =
     Some \<lparr>add_network = None, add_file_system = Some \<lparr>perm_entries = [entry (PathEntry (lit ''/out'')) WriteAccess], perm_glob_depth = None\<rparr>\<rparr>"
    using outside_not_writable
    by (simp add: write_permissions_for_paths_def path_set_def sorted_absolute_paths_def unwrap_or_def from_read_write_roots_def
        normalize_additional_permissions_def entry_def push_deny_entry_def canonicalize_preserving_symlinks_def filter_option_def
        fs_permissions_is_empty_def Let_def del: lit_simps)
qed

end
