(* ===== verification/Stream_Text.thy ===== *)
theory Stream_Text
  imports Rust_Text
begin

text \<open>
  Parsers of streamed text (\<^verbatim>\<open>utils/stream-parser\<close>): the chunks they return, the trait
  \<^verbatim>\<open>StreamTextParser\<close> as a locale, and \<^verbatim>\<open>Utf8StreamParser\<close>, which feeds such a parser with raw bytes
  and holds back an unfinished code point.

  The law of the locale is what callers of the trait rely on: how a text is cut into chunks does not
  show in the result.  Extracted payloads may come in smaller pieces; \<open>canon\<close> is the reading under
  which they agree.
\<close>

section \<open>Chunks\<close>

record 'e stream_text_chunk =
  visible_text :: rstr
  extracted :: "'e list"

definition empty_chunk :: "'e stream_text_chunk" where
  "empty_chunk = \<lparr>visible_text = [], extracted = []\<rparr>"

definition text_chunk_is_empty :: "'e stream_text_chunk \<Rightarrow> bool" where
  "text_chunk_is_empty c = (visible_text c = [] \<and> extracted c = [])"

definition chunk_append :: "'e stream_text_chunk \<Rightarrow> 'e stream_text_chunk \<Rightarrow> 'e stream_text_chunk" where
  "chunk_append c d = \<lparr>visible_text = visible_text c @ visible_text d, extracted = extracted c @ extracted d\<rparr>"

lemma chunk_append_simps [simp]:
  "visible_text (chunk_append c d) = visible_text c @ visible_text d"
  "extracted (chunk_append c d) = extracted c @ extracted d"
  "visible_text empty_chunk = []" "extracted empty_chunk = []"
  "chunk_append empty_chunk d = d" "chunk_append c empty_chunk = c"
  "chunk_append (chunk_append c d) e = chunk_append c (chunk_append d e)"
  by (simp_all add: chunk_append_def empty_chunk_def)

section \<open>UTF-8\<close>

text \<open>
  \<^verbatim>\<open>std::str::from_utf8\<close>: the text, or the length of the valid beginning together with the length of
  the invalid sequence after it, which is absent when the input only ends too early.
\<close>

datatype utf8_step = Scalar rchar nat | Incomplete | Invalid nat

definition is_cont :: "nat \<Rightarrow> bool" where
  "is_cont b \<longleftrightarrow> 128 \<le> b \<and> b \<le> 191"

definition second_of_three :: "nat \<Rightarrow> nat \<Rightarrow> bool" where
  "second_of_three a b \<longleftrightarrow>
     a = 224 \<and> 160 \<le> b \<and> b \<le> 191 \<or> 225 \<le> a \<and> a \<le> 236 \<and> is_cont b \<or>
     a = 237 \<and> 128 \<le> b \<and> b \<le> 159 \<or> 238 \<le> a \<and> a \<le> 239 \<and> is_cont b"

definition second_of_four :: "nat \<Rightarrow> nat \<Rightarrow> bool" where
  "second_of_four a b \<longleftrightarrow>
     a = 240 \<and> 144 \<le> b \<and> b \<le> 191 \<or> 241 \<le> a \<and> a \<le> 243 \<and> is_cont b \<or>
     a = 244 \<and> 128 \<le> b \<and> b \<le> 143"

definition next_two :: "nat \<Rightarrow> nat list \<Rightarrow> utf8_step" where
  "next_two a bs = (case bs of [] \<Rightarrow> Incomplete
     | b # _ \<Rightarrow> if is_cont b then Scalar ((a - 192) * 64 + (b - 128)) 2 else Invalid 1)"

definition next_three :: "nat \<Rightarrow> nat list \<Rightarrow> utf8_step" where
  "next_three a bs = (case bs of [] \<Rightarrow> Incomplete
     | b # bs \<Rightarrow> if \<not> second_of_three a b then Invalid 1 else
       (case bs of [] \<Rightarrow> Incomplete
        | c # _ \<Rightarrow> if is_cont c then Scalar ((a - 224) * 4096 + (b - 128) * 64 + (c - 128)) 3 else Invalid 2))"

definition next_four :: "nat \<Rightarrow> nat list \<Rightarrow> utf8_step" where
  "next_four a bs = (case bs of [] \<Rightarrow> Incomplete
     | b # bs \<Rightarrow> if \<not> second_of_four a b then Invalid 1 else
       (case bs of [] \<Rightarrow> Incomplete
        | c # bs \<Rightarrow> if \<not> is_cont c then Invalid 2 else
          (case bs of [] \<Rightarrow> Incomplete
           | d # _ \<Rightarrow> if is_cont d
               then Scalar ((a - 240) * 262144 + (b - 128) * 4096 + (c - 128) * 64 + (d - 128)) 4 else Invalid 3)))"

definition utf8_next :: "nat \<Rightarrow> nat list \<Rightarrow> utf8_step" where
  "utf8_next a bs =
     (if a < 128 then Scalar a 1
      else if 194 \<le> a \<and> a \<le> 223 then next_two a bs
      else if 224 \<le> a \<and> a \<le> 239 then next_three a bs
      else if 240 \<le> a \<and> a \<le> 244 then next_four a bs
      else Invalid 1)"

lemma utf8_next_pos: "utf8_next a bs = Scalar c n \<Longrightarrow> 0 < n"
  by (auto simp: utf8_next_def next_two_def next_three_def next_four_def split: if_splits list.splits)

function from_utf8_at :: "nat \<Rightarrow> nat list \<Rightarrow> (nat \<times> nat option) + rstr" where
  "from_utf8_at i [] = Inr []"
| "from_utf8_at i (a # bs) =
     (case utf8_next a bs of
        Scalar c n \<Rightarrow> (case from_utf8_at (i + n) (drop n (a # bs)) of Inl e \<Rightarrow> Inl e | Inr t \<Rightarrow> Inr (c # t))
      | Incomplete \<Rightarrow> Inl (i, None)
      | Invalid k \<Rightarrow> Inl (i, Some k))"
  by pat_completeness auto
termination
  by (relation "measure (\<lambda>(i, bs). length bs)") (auto dest: utf8_next_pos)

definition from_utf8 :: "nat list \<Rightarrow> (nat \<times> nat option) + rstr" where
  "from_utf8 bs = from_utf8_at 0 bs"

text \<open>Unicode scalar values and their encoding.\<close>

definition is_scalar :: "rchar \<Rightarrow> bool" where
  "is_scalar c \<longleftrightarrow> c < 55296 \<or> 57344 \<le> c \<and> c < 1114112"

definition encode_char :: "rchar \<Rightarrow> nat list" where
  "encode_char c =
     (if c < 128 then [c]
      else if c < 2048 then [192 + c div 64, 128 + c mod 64]
      else if c < 65536 then [224 + c div 4096, 128 + c div 64 mod 64, 128 + c mod 64]
      else [240 + c div 262144, 128 + c div 4096 mod 64, 128 + c div 64 mod 64, 128 + c mod 64])"

definition encode_utf8 :: "rstr \<Rightarrow> nat list" where
  "encode_utf8 t = concat (map encode_char t)"

lemma encode_char_nonempty [simp]: "encode_char c \<noteq> []"
  by (simp add: encode_char_def)

lemma is_cont_mod [simp]: "is_cont (128 + n mod 64)"
proof -
  have "n mod 64 < 64" by simp
  then show ?thesis unfolding is_cont_def by linarith
qed

lemma div_digits:
  "(c::nat) div 64 * 64 + c mod 64 = c"
  "c div 4096 * 4096 + c div 64 mod 64 * 64 + c mod 64 = c"
  "c div 262144 * 262144 + c div 4096 mod 64 * 4096 + c div 64 mod 64 * 64 + c mod 64 = c"
proof -
  have "c div 64 div 64 = c div 4096" "c div 4096 div 64 = c div 262144"
    by (simp_all add: div_mult2_eq [symmetric])
  moreover have "c div 64 = c div 64 div 64 * 64 + c div 64 mod 64" "c div 4096 = c div 4096 div 64 * 64 + c div 4096 mod 64"
    by (simp_all only: div_mult_mod_eq)
  moreover show "c div 64 * 64 + c mod 64 = c" by (rule div_mult_mod_eq)
  ultimately show "c div 4096 * 4096 + c div 64 mod 64 * 64 + c mod 64 = c"
    "c div 262144 * 262144 + c div 4096 mod 64 * 4096 + c div 64 mod 64 * 64 + c mod 64 = c"
    by linarith+
qed

lemma second_three_scalar:
  assumes "2048 \<le> c" "c < 65536" "is_scalar c"
  shows "second_of_three (224 + c div 4096) (128 + c div 64 mod 64)"
proof -
  have "c div 64 mod 64 < 64" by simp
  moreover have "c div 4096 * 4096 + c div 64 mod 64 * 64 + c mod 64 = c" by (rule div_digits)
  moreover have "c mod 64 < 64" by simp
  moreover have "c div 4096 < 16" using assms(2) by (simp add: less_mult_imp_div_less)
  ultimately show ?thesis
    using assms unfolding second_of_three_def is_cont_def is_scalar_def by linarith
qed

lemma second_four_scalar:
  assumes "65536 \<le> c" "c < 1114112"
  shows "second_of_four (240 + c div 262144) (128 + c div 4096 mod 64)"
proof -
  have "c div 4096 mod 64 < 64" "c div 64 mod 64 < 64" "c mod 64 < 64" by simp_all
  moreover have "c div 262144 * 262144 + c div 4096 mod 64 * 4096 + c div 64 mod 64 * 64 + c mod 64 = c" by (rule div_digits)
  moreover have "c div 262144 < 5" using assms(2) by (simp add: less_mult_imp_div_less)
  ultimately show ?thesis
    using assms unfolding second_of_four_def is_cont_def by linarith
qed

text \<open>Decoding an encoded character, whole or cut short.\<close>

lemma utf8_next_encode:
  assumes "is_scalar c" "encode_char c = a # r"
  shows "utf8_next a (r @ bs) = Scalar c (Suc (length r))"
proof -
  consider "c < 128" | "128 \<le> c" "c < 2048" | "2048 \<le> c" "c < 65536" | "65536 \<le> c" "c < 1114112"
    using assms(1) by (cases "c < 128"; cases "c < 2048"; cases "c < 65536") (auto simp: is_scalar_def)
  then show ?thesis
  proof cases
    case 2
    then have "2 \<le> c div 64" "c div 64 < 32"
      by (auto simp: less_mult_imp_div_less div_le_mono [of 128 c 64, simplified])
    with 2 assms(2) div_digits(1) [of c] show ?thesis
      by (auto simp: encode_char_def utf8_next_def next_two_def)
  next
    case 3
    then have "c div 4096 < 16" by (simp add: less_mult_imp_div_less)
    with 3 assms second_three_scalar [of c] div_digits(2) [of c] show ?thesis
      by (auto simp: encode_char_def utf8_next_def next_three_def)
  next
    case 4
    then have "c div 262144 < 5" by (simp add: less_mult_imp_div_less)
    with 4 assms second_four_scalar [of c] div_digits(3) [of c] show ?thesis
      by (auto simp: encode_char_def utf8_next_def next_four_def)
  qed (use assms in \<open>auto simp: encode_char_def utf8_next_def\<close>)
qed

lemma utf8_next_short:
  assumes "is_scalar c" "encode_char c = a # r @ x # s"
  shows "utf8_next a r = Incomplete"
proof -
  consider "128 \<le> c" "c < 2048" | "2048 \<le> c" "c < 65536" | "65536 \<le> c" "c < 1114112"
    using assms by (auto simp: is_scalar_def encode_char_def split: if_splits)
  then show ?thesis
  proof cases
    case 1
    then have "2 \<le> c div 64" "c div 64 < 32"
      by (auto simp: less_mult_imp_div_less div_le_mono [of 128 c 64, simplified])
    with 1 assms(2) show ?thesis
      by (auto simp: encode_char_def utf8_next_def next_two_def Cons_eq_append_conv)
  next
    case 2
    then have "c div 4096 < 16" by (simp add: less_mult_imp_div_less)
    with 2 assms second_three_scalar [of c] show ?thesis
      by (auto simp: encode_char_def utf8_next_def next_three_def Cons_eq_append_conv)
  next
    case 3
    then have "c div 262144 < 5" by (simp add: less_mult_imp_div_less)
    with 3 assms second_four_scalar [of c] show ?thesis
      by (auto simp: encode_char_def utf8_next_def next_four_def Cons_eq_append_conv)
  qed
qed

lemma from_utf8_encode:
  assumes "list_all is_scalar t"
  shows "from_utf8_at i (encode_utf8 t @ bs) =
    (case from_utf8_at (i + length (encode_utf8 t)) bs of Inl e \<Rightarrow> Inl e | Inr u \<Rightarrow> Inr (t @ u))"
  using assms
proof (induction t arbitrary: i)
  case Nil
  show ?case by (simp add: encode_utf8_def split: sum.splits)
next
  case (Cons c t)
  obtain a r where ar: "encode_char c = a # r" by (cases "encode_char c") auto
  have bytes: "encode_utf8 (c # t) = a # r @ encode_utf8 t" by (simp add: encode_utf8_def ar)
  have "utf8_next a (r @ encode_utf8 t @ bs) = Scalar c (Suc (length r))"
    using Cons.prems ar by (intro utf8_next_encode) auto
  with Cons.IH [of "i + Suc (length r)"] Cons.prems show ?case
    by (auto simp: bytes add.assoc split: sum.splits)
qed

lemma from_utf8_whole: "list_all is_scalar t \<Longrightarrow> from_utf8 (encode_utf8 t) = Inr t"
  using from_utf8_encode [of t 0 "[]"] by (simp add: from_utf8_def)

lemma from_utf8_cut:
  assumes "list_all is_scalar t" "is_scalar c" "encode_char c = r @ x # s" "r \<noteq> []"
  shows "from_utf8 (encode_utf8 t @ r) = Inl (length (encode_utf8 t), None)"
proof -
  obtain a r' where r: "r = a # r'" using assms(4) by (cases r) auto
  have "utf8_next a r' = Incomplete"
    using utf8_next_short [OF assms(2)] assms(3) r by simp
  then show ?thesis
    using from_utf8_encode [OF assms(1), of 0 r] by (simp add: from_utf8_def r)
qed

text \<open>A beginning of an encoded text is an encoded text and the beginning of one more character.\<close>

lemma encode_prefix_cases:
  assumes "encode_utf8 t = p @ q"
  shows "\<exists>t1 t2 r. t = t1 @ t2 \<and> p = encode_utf8 t1 @ r \<and> encode_utf8 t2 = r @ q \<and>
    (r = [] \<or> (\<exists>c u x s. t2 = c # u \<and> encode_char c = r @ x # s))"
  using assms
proof (induction t arbitrary: p)
  case Nil
  then show ?case by (intro exI [of _ "[]"]) (simp add: encode_utf8_def)
next
  case (Cons c t)
  have bytes: "encode_char c @ encode_utf8 t = p @ q"
    using Cons.prems by (simp add: encode_utf8_def)
  then obtain u where "encode_char c = p @ u \<and> u @ encode_utf8 t = q \<or>
      encode_char c @ u = p \<and> encode_utf8 t = u @ q"
    by (auto simp: append_eq_append_conv2)
  then consider x s where "encode_char c = p @ x # s" | u where "p = encode_char c @ u" "encode_utf8 t = u @ q"
    by (cases u) auto
  then show ?case
  proof cases
    case 1
    with Cons.prems show ?thesis
      by (intro exI [of _ "[]"] exI [of _ "c # t"] exI [of _ p]) (auto simp: encode_utf8_def)
  next
    case 2
    from Cons.IH [OF 2(2)] obtain t1 t2 r where
      "t = t1 @ t2" "u = encode_utf8 t1 @ r" "encode_utf8 t2 = r @ q"
      "r = [] \<or> (\<exists>c u x s. t2 = c # u \<and> encode_char c = r @ x # s)"
      by blast
    with 2 show ?thesis
      by (intro exI [of _ "c # t1"] exI [of _ t2] exI [of _ r]) (auto simp: encode_utf8_def)
  qed
qed

section \<open>Feeding bytes\<close>

datatype utf8_stream_parser_error = InvalidUtf8 nat nat | IncompleteUtf8AtEof

record 's utf8_stream_parser =
  utf8_inner :: 's
  pending_utf8 :: "nat list"

definition utf8_new :: "'s \<Rightarrow> 's utf8_stream_parser" where
  "utf8_new s = \<lparr>utf8_inner = s, pending_utf8 = []\<rparr>"

definition push_bytes ::
  "(rstr \<Rightarrow> 's \<Rightarrow> 'e stream_text_chunk \<times> 's) \<Rightarrow> nat list \<Rightarrow> 's utf8_stream_parser \<Rightarrow>
   (utf8_stream_parser_error + 'e stream_text_chunk) \<times> 's utf8_stream_parser" where
  "push_bytes push_str chunk u =
     (let old_len = length (pending_utf8 u);
          pending = pending_utf8 u @ chunk
      in case from_utf8 pending of
           Inr t \<Rightarrow>
             let (out, s) = push_str t (utf8_inner u) in (Inr out, \<lparr>utf8_inner = s, pending_utf8 = []\<rparr>)
         | Inl (valid_up_to, Some error_len) \<Rightarrow>
             (Inl (InvalidUtf8 valid_up_to error_len), u\<lparr>pending_utf8 := take old_len pending\<rparr>)
         | Inl (valid_up_to, None) \<Rightarrow>
             if valid_up_to = 0 then (Inr empty_chunk, u\<lparr>pending_utf8 := pending\<rparr>)
             else (case from_utf8 (take valid_up_to pending) of
                     Inr t \<Rightarrow>
                       let (out, s) = push_str t (utf8_inner u)
                       in (Inr out, \<lparr>utf8_inner = s, pending_utf8 = drop valid_up_to pending\<rparr>)
                   | Inl (v, e) \<Rightarrow>
                       (Inl (InvalidUtf8 v (case e of Some n \<Rightarrow> n | None \<Rightarrow> 0)), u\<lparr>pending_utf8 := take old_len pending\<rparr>)))"

definition eof_error :: "nat \<times> nat option \<Rightarrow> utf8_stream_parser_error" where
  "eof_error = (\<lambda>(valid_up_to, e). case e of Some error_len \<Rightarrow> InvalidUtf8 valid_up_to error_len | None \<Rightarrow> IncompleteUtf8AtEof)"

definition utf8_finish ::
  "(rstr \<Rightarrow> 's \<Rightarrow> 'e stream_text_chunk \<times> 's) \<Rightarrow> ('s \<Rightarrow> 'e stream_text_chunk \<times> 's) \<Rightarrow> 's utf8_stream_parser \<Rightarrow>
   (utf8_stream_parser_error + 'e stream_text_chunk) \<times> 's utf8_stream_parser" where
  "utf8_finish push_str finish u =
     (case from_utf8 (pending_utf8 u) of
        Inl err \<Rightarrow> (Inl (eof_error err), u)
      | Inr t \<Rightarrow>
          let (out, s) = (if pending_utf8 u = [] then (empty_chunk, utf8_inner u) else push_str t (utf8_inner u));
              (tail, s) = finish s
          in (Inr (chunk_append out tail), \<lparr>utf8_inner = s, pending_utf8 = []\<rparr>))"

definition into_inner :: "'s utf8_stream_parser \<Rightarrow> utf8_stream_parser_error + 's" where
  "into_inner u =
     (if pending_utf8 u = [] then Inr (utf8_inner u)
      else case from_utf8 (pending_utf8 u) of Inr _ \<Rightarrow> Inr (utf8_inner u) | Inl err \<Rightarrow> Inl (eof_error err))"

definition into_inner_lossy :: "'s utf8_stream_parser \<Rightarrow> 's" where
  "into_inner_lossy u = utf8_inner u"

text \<open>An invalid chunk is rolled back whole: the parser is as before.\<close>

lemma push_bytes_error_rolls_back: "push_bytes push_str chunk u = (Inl e, u') \<Longrightarrow> u' = u"
  by (auto simp: push_bytes_def Let_def split: sum.splits prod.splits option.splits if_splits)

text \<open>Chunks of bytes pushed in turn, and the collected result of a whole stream.\<close>

fun push_all_bytes ::
  "(rstr \<Rightarrow> 's \<Rightarrow> 'e stream_text_chunk \<times> 's) \<Rightarrow> nat list list \<Rightarrow> 's utf8_stream_parser \<Rightarrow>
   (utf8_stream_parser_error + 'e stream_text_chunk) \<times> 's utf8_stream_parser" where
  "push_all_bytes push_str [] u = (Inr empty_chunk, u)"
| "push_all_bytes push_str (chunk # chunks) u =
     (case push_bytes push_str chunk u of
        (Inl e, u1) \<Rightarrow> (Inl e, u1)
      | (Inr out, u1) \<Rightarrow>
          (case push_all_bytes push_str chunks u1 of
             (Inl e, u2) \<Rightarrow> (Inl e, u2)
           | (Inr rest, u2) \<Rightarrow> (Inr (chunk_append out rest), u2)))"

section \<open>The trait\<close>

locale stream_text_parser =
  fixes push_str :: "rstr \<Rightarrow> 's \<Rightarrow> 'e stream_text_chunk \<times> 's"
    and finish :: "'s \<Rightarrow> 'e stream_text_chunk \<times> 's"
    and inv :: "'s \<Rightarrow> bool"
    and canon :: "'e list \<Rightarrow> 'm"
  assumes push_inv: "inv s \<Longrightarrow> inv (snd (push_str a s))"
    and push_nil: "inv s \<Longrightarrow> push_str [] s = (empty_chunk, s)"
    and push_state: "inv s \<Longrightarrow> snd (push_str b (snd (push_str a s))) = snd (push_str (a @ b) s)"
    and push_visible: "inv s \<Longrightarrow>
      visible_text (fst (push_str (a @ b) s)) =
      visible_text (fst (push_str a s)) @ visible_text (fst (push_str b (snd (push_str a s))))"
    and push_extracted: "inv s \<Longrightarrow>
      canon (extracted (fst (push_str (a @ b) s))) =
      canon (extracted (fst (push_str a s)) @ extracted (fst (push_str b (snd (push_str a s)))))"
    and canon_cong: "canon x = canon x' \<Longrightarrow> canon y = canon y' \<Longrightarrow> canon (x @ y) = canon (x' @ y')"
begin

definition agrees :: "'e stream_text_chunk \<Rightarrow> 'e stream_text_chunk \<Rightarrow> bool" where
  "agrees c d \<longleftrightarrow> visible_text c = visible_text d \<and> canon (extracted c) = canon (extracted d)"

lemma agrees_refl [simp]: "agrees c c"
  by (simp add: agrees_def)

lemma agrees_trans: "agrees c d \<Longrightarrow> agrees d e \<Longrightarrow> agrees c e"
  by (simp add: agrees_def)

lemma agrees_append: "agrees c c' \<Longrightarrow> agrees d d' \<Longrightarrow> agrees (chunk_append c d) (chunk_append c' d')"
  by (auto simp: agrees_def intro: canon_cong)

lemma push_push_agrees:
  "inv s \<Longrightarrow> agrees (chunk_append (fst (push_str a s)) (fst (push_str b (snd (push_str a s))))) (fst (push_str (a @ b) s))"
  by (simp add: agrees_def push_visible push_extracted)

definition push_all :: "rstr list \<Rightarrow> 's \<Rightarrow> 'e stream_text_chunk \<times> 's" where
  "push_all chunks s = fold (\<lambda>chunk (out, s). let (c, s') = push_str chunk s in (chunk_append out c, s')) chunks (empty_chunk, s)"

lemma push_all_from:
  "fold (\<lambda>chunk (out, s). let (c, s') = push_str chunk s in (chunk_append out c, s')) chunks (out, s) =
     (chunk_append out (fst (push_all chunks s)), snd (push_all chunks s))"
proof (induction chunks arbitrary: out s)
  case (Cons chunk chunks)
  obtain c s' where c: "push_str chunk s = (c, s')" by force
  show ?case
    using Cons.IH [of "chunk_append out c" s'] Cons.IH [of c s'] by (simp add: push_all_def c)
qed (simp add: push_all_def)

lemma push_all_simps:
  "push_all [] s = (empty_chunk, s)"
  "push_all (chunk # chunks) s =
     (chunk_append (fst (push_str chunk s)) (fst (push_all chunks (snd (push_str chunk s)))),
      snd (push_all chunks (snd (push_str chunk s))))"
  using push_all_from [of chunks "fst (push_str chunk s)" "snd (push_str chunk s)"]
  by (auto simp: push_all_def split: prod.splits)

text \<open>The cut into chunks does not matter.\<close>

lemma push_all_whole:
  assumes "inv s"
  shows "agrees (fst (push_all chunks s)) (fst (push_str (concat chunks) s))
    \<and> snd (push_all chunks s) = snd (push_str (concat chunks) s)"
  using assms
proof (induction chunks arbitrary: s)
  case Nil
  then show ?case by (simp add: push_all_simps push_nil)
next
  case (Cons chunk chunks)
  let ?s = "snd (push_str chunk s)"
  have IH: "agrees (fst (push_all chunks ?s)) (fst (push_str (concat chunks) ?s))"
    "snd (push_all chunks ?s) = snd (push_str (concat chunks) ?s)"
    using Cons.IH [of ?s] Cons.prems by (simp_all add: push_inv)
  have "agrees (chunk_append (fst (push_str chunk s)) (fst (push_all chunks ?s)))
      (chunk_append (fst (push_str chunk s)) (fst (push_str (concat chunks) ?s)))"
    using IH(1) by (simp add: agrees_append)
  then show ?case
    using push_push_agrees [OF Cons.prems, of chunk "concat chunks"] IH(2) push_state [OF Cons.prems, of "concat chunks" chunk]
    by (auto simp: push_all_simps intro: agrees_trans)
qed

text \<open>One chunk of bytes: the characters it completes are pushed, the rest is held back.\<close>

lemma push_bytes_step:
  assumes inv: "inv s" and t: "list_all is_scalar t" and r: "encode_utf8 t = r @ chunk @ q"
    and short: "r = [] \<or> (\<exists>c u x y. t = c # u \<and> encode_char c = r @ x # y)"
  shows "\<exists>t1 t2 r'. t = t1 @ t2 \<and>
    push_bytes push_str chunk \<lparr>utf8_inner = s, pending_utf8 = r\<rparr> =
      (Inr (fst (push_str t1 s)), \<lparr>utf8_inner = snd (push_str t1 s), pending_utf8 = r'\<rparr>) \<and>
    encode_utf8 t2 = r' @ q \<and> (r' = [] \<or> (\<exists>c u x y. t2 = c # u \<and> encode_char c = r' @ x # y))"
proof -
  obtain t1 t2 r' where t12: "t = t1 @ t2" and p: "r @ chunk = encode_utf8 t1 @ r'"
    and q: "encode_utf8 t2 = r' @ q" and r': "r' = [] \<or> (\<exists>c u x y. t2 = c # u \<and> encode_char c = r' @ x # y)"
    using encode_prefix_cases [of t "r @ chunk" q] r by auto
  have scalars: "list_all is_scalar t1" "list_all is_scalar t2" using t t12 by auto
  have "push_bytes push_str chunk \<lparr>utf8_inner = s, pending_utf8 = r\<rparr> =
      (Inr (fst (push_str t1 s)), \<lparr>utf8_inner = snd (push_str t1 s), pending_utf8 = r'\<rparr>)"
  proof (cases "r' = []")
    case True
    then have "from_utf8 (r @ chunk) = Inr t1" using scalars(1) p by (simp add: from_utf8_whole)
    then show ?thesis by (simp add: push_bytes_def True split: prod.splits)
  next
    case False
    with r' scalars(2) obtain c x y where "is_scalar c" "encode_char c = r' @ x # y" by auto
    from from_utf8_cut [OF scalars(1) this False] p
    have cut: "from_utf8 (r @ chunk) = Inl (length (encode_utf8 t1), None)" by simp
    have "t1 = [] \<longleftrightarrow> encode_utf8 t1 = []" by (cases t1) (auto simp: encode_utf8_def)
    with cut p scalars(1) push_nil [OF inv] show ?thesis
      by (auto simp: push_bytes_def from_utf8_whole split: prod.splits)
  qed
  with t12 q r' show ?thesis by blast
qed

lemma push_all_bytes_text:
  assumes "inv s" "list_all is_scalar t" "encode_utf8 t = r @ concat chunks"
    and "r = [] \<or> (\<exists>c u x y. t = c # u \<and> encode_char c = r @ x # y)"
  shows "\<exists>out. push_all_bytes push_str chunks \<lparr>utf8_inner = s, pending_utf8 = r\<rparr> =
      (Inr out, utf8_new (snd (push_str t s))) \<and> agrees out (fst (push_str t s))"
  using assms
proof (induction chunks arbitrary: s t r)
  case Nil
  from Nil.prems(3,4) have "t = []" "r = []"
    by (cases t; auto simp: encode_utf8_def)+
  then show ?case using push_nil [OF Nil.prems(1)] by (simp add: utf8_new_def)
next
  case (Cons chunk chunks)
  have bytes: "encode_utf8 t = r @ chunk @ concat chunks" using Cons.prems(3) by simp
  from push_bytes_step [OF Cons.prems(1,2) bytes Cons.prems(4)]
  obtain t1 t2 r' where t12: "t = t1 @ t2"
    and step: "push_bytes push_str chunk \<lparr>utf8_inner = s, pending_utf8 = r\<rparr> =
      (Inr (fst (push_str t1 s)), \<lparr>utf8_inner = snd (push_str t1 s), pending_utf8 = r'\<rparr>)"
    and rest: "encode_utf8 t2 = r' @ concat chunks" "r' = [] \<or> (\<exists>c u x y. t2 = c # u \<and> encode_char c = r' @ x # y)"
    by blast
  have "list_all is_scalar t2" using Cons.prems(2) t12 by simp
  from Cons.IH [OF push_inv [OF Cons.prems(1)] this rest]
  obtain out where out: "push_all_bytes push_str chunks \<lparr>utf8_inner = snd (push_str t1 s), pending_utf8 = r'\<rparr> =
      (Inr out, utf8_new (snd (push_str t2 (snd (push_str t1 s)))))"
    "agrees out (fst (push_str t2 (snd (push_str t1 s))))"
    by blast
  have "agrees (chunk_append (fst (push_str t1 s)) out) (fst (push_str t s))"
    using agrees_append [OF agrees_refl out(2)] push_push_agrees [OF Cons.prems(1)] t12 agrees_trans by blast
  then show ?case
    using step out(1) t12 push_state [OF Cons.prems(1)] by simp
qed

text \<open>
  The bytes of a text, cut anywhere, also inside a character, give what the text gives at once.
\<close>

lemma utf8_any_split:
  assumes "inv s" "list_all is_scalar t" "concat chunks = encode_utf8 t"
  shows "\<exists>out. push_all_bytes push_str chunks (utf8_new s) = (Inr out, utf8_new (snd (push_str t s)))
    \<and> agrees out (fst (push_str t s))
    \<and> utf8_finish push_str finish (utf8_new (snd (push_str t s))) =
        (Inr (fst (finish (snd (push_str t s)))), utf8_new (snd (finish (snd (push_str t s)))))"
  using push_all_bytes_text [OF assms(1,2), of "[]" chunks] assms(3)
  by (auto simp: utf8_new_def utf8_finish_def from_utf8_def split: prod.splits)

end

end
