(* ===== verification/Turn_Diff.thy ===== *)
theory Turn_Diff
  imports Patch_Invocation Stream_Text "HOL-Library.List_Lexorder"
begin

text \<open>
  The net diff of a turn (\<^verbatim>\<open>core/src/turn_diff_tracker.rs\<close>): from the deltas of committed patches the
  tracker keeps, per path, the text before the turn and the text now, and where a file came from, and
  renders one diff of the turn without reading the files again.

  A \<^verbatim>\<open>HashMap\<close> with paths as keys is a list of bindings in some order, searched by the components
  of the path.  The crates \<^verbatim>\<open>sha1\<close> and \<^verbatim>\<open>similar\<close> are parameters.  The lemmas relate the tracker to
  the files: the bindings are the texts of the files before the turn and now, for every path that a
  patch has touched, and the rendered diff mentions every file that is different.
\<close>

section \<open>Maps with paths as keys\<close>

type_synonym path_map = "(rstr \<times> rstr) list"

fun pm_get :: "rstr \<Rightarrow> path_map \<Rightarrow> rstr option" where
  "pm_get p [] = None"
| "pm_get p ((q, x) # m) = (if path_eq p q then Some x else pm_get p m)"

fun pm_insert :: "rstr \<Rightarrow> rstr \<Rightarrow> path_map \<Rightarrow> path_map" where
  "pm_insert p x [] = [(p, x)]"
| "pm_insert p x ((q, y) # m) = (if path_eq p q then (q, x) # m else (q, y) # pm_insert p x m)"

definition pm_remove :: "rstr \<Rightarrow> path_map \<Rightarrow> path_map" where
  "pm_remove p m = filter (\<lambda>b. \<not> path_eq p (fst b)) m"

definition pm_contains :: "rstr \<Rightarrow> path_map \<Rightarrow> bool" where
  "pm_contains p m \<longleftrightarrow> pm_get p m \<noteq> None"

section \<open>The tracker\<close>

record turn_diff_tracker =
  valid :: bool
  display_root :: "rstr option"
  baseline_by_path :: path_map
  current_by_path :: path_map
  origin_by_current_path :: path_map

definition new_tracker :: turn_diff_tracker where
  "new_tracker = \<lparr>valid = True, display_root = None, baseline_by_path = [], current_by_path = [], origin_by_current_path = []\<rparr>"

definition with_display_root :: "rstr \<Rightarrow> turn_diff_tracker" where
  "with_display_root root = new_tracker\<lparr>display_root := Some root\<rparr>"

definition invalidate :: "turn_diff_tracker \<Rightarrow> turn_diff_tracker" where
  "invalidate t = t\<lparr>valid := False\<rparr>"

text \<open>The text before the turn, unless the path is known already.\<close>

definition note_baseline :: "rstr \<Rightarrow> rstr option \<Rightarrow> turn_diff_tracker \<Rightarrow> turn_diff_tracker" where
  "note_baseline path content t =
     (case content of
        Some x \<Rightarrow>
          if \<not> pm_contains path (current_by_path t) \<and> \<not> pm_contains path (baseline_by_path t)
          then t\<lparr>baseline_by_path := pm_insert path x (baseline_by_path t)\<rparr> else t
      | None \<Rightarrow> t)"

definition track_add :: "rstr \<Rightarrow> rstr \<Rightarrow> rstr option \<Rightarrow> turn_diff_tracker \<Rightarrow> turn_diff_tracker" where
  "track_add path content overwritten_content t =
     (let t = t\<lparr>origin_by_current_path := pm_remove path (origin_by_current_path t)\<rparr>;
          t = note_baseline path overwritten_content t
      in t\<lparr>current_by_path := pm_insert path content (current_by_path t)\<rparr>)"

definition track_delete :: "rstr \<Rightarrow> rstr \<Rightarrow> turn_diff_tracker \<Rightarrow> turn_diff_tracker" where
  "track_delete path content t =
     (let removed = pm_get path (current_by_path t);
          t = t\<lparr>current_by_path := pm_remove path (current_by_path t)\<rparr>;
          t = (if removed = None \<and> \<not> pm_contains path (baseline_by_path t)
               then t\<lparr>baseline_by_path := pm_insert path content (baseline_by_path t)\<rparr> else t)
      in t\<lparr>origin_by_current_path := pm_remove path (origin_by_current_path t)\<rparr>)"

definition track_move :: "rstr \<Rightarrow> rstr \<Rightarrow> rstr option \<Rightarrow> rstr \<Rightarrow> turn_diff_tracker \<Rightarrow> turn_diff_tracker" where
  "track_move source_path dest_path overwritten_move_content new_content t =
     (let t = note_baseline dest_path overwritten_move_content t;
          origin = unwrap_or source_path (pm_get source_path (origin_by_current_path t));
          t = t\<lparr>origin_by_current_path := pm_remove source_path (origin_by_current_path t)\<rparr>;
          t = t\<lparr>current_by_path := pm_insert dest_path new_content (pm_remove source_path (current_by_path t))\<rparr>;
          t = t\<lparr>origin_by_current_path := pm_remove dest_path (origin_by_current_path t)\<rparr>
      in if \<not> path_eq dest_path origin
         then t\<lparr>origin_by_current_path := pm_insert dest_path origin (origin_by_current_path t)\<rparr> else t)"

definition track_update ::
  "rstr \<Rightarrow> rstr option \<Rightarrow> rstr \<Rightarrow> rstr option \<Rightarrow> rstr \<Rightarrow> turn_diff_tracker \<Rightarrow> turn_diff_tracker" where
  "track_update source_path move_path old_content overwritten_move_content new_content t =
     (let t = note_baseline source_path (Some old_content) t in
      case move_path of
        Some dest_path \<Rightarrow> track_move source_path dest_path overwritten_move_content new_content t
      | None \<Rightarrow> t\<lparr>current_by_path := pm_insert source_path new_content (current_by_path t)\<rparr>)"

definition track_change :: "applied_patch_change \<Rightarrow> turn_diff_tracker \<Rightarrow> turn_diff_tracker" where
  "track_change c t =
     (case change c of
        Add content overwritten_content \<Rightarrow> track_add (change_path c) content overwritten_content t
      | Delete content \<Rightarrow> track_delete (change_path c) content t
      | Update move_path old_content overwritten_move_content new_content \<Rightarrow>
          track_update (change_path c) move_path old_content overwritten_move_content new_content t)"

definition track_delta :: "applied_patch_delta \<Rightarrow> turn_diff_tracker \<Rightarrow> turn_diff_tracker" where
  "track_delta d t = (if \<not> exact d then invalidate t else fold track_change (changes d) t)"

section \<open>Rendering\<close>

text \<open>
  The parameters: the digest of a list of bytes in hexadecimal, and a unified diff of two texts with a
  radius of context lines under the headers of the old and the new file.
\<close>

record diff_tools =
  sha1_hex :: "nat list \<Rightarrow> rstr"
  unified_with_header :: "nat \<Rightarrow> rstr \<Rightarrow> rstr \<Rightarrow> rstr \<Rightarrow> rstr \<Rightarrow> rstr"

definition ZERO_OID :: rstr where "ZERO_OID = replicate 40 48"
definition DEV_NULL :: rstr where "DEV_NULL = lit ''/dev/null''"
definition REGULAR_FILE_MODE :: rstr where "REGULAR_FILE_MODE = lit ''100644''"

definition git_blob_oid :: "diff_tools \<Rightarrow> rstr \<Rightarrow> rstr" where
  "git_blob_oid tools content =
     (let bytes = encode_utf8 content in
      sha1_hex tools (encode_utf8 (lit ''blob '' @ decimal (length bytes)) @ [0] @ bytes))"

text \<open>The components that are left of a path under the root, written with single separators.\<close>

definition display_path :: "turn_diff_tracker \<Rightarrow> rstr \<Rightarrow> rstr" where
  "display_path t path =
     map (\<lambda>c. if c = 92 then slash else c)
       (case Option.bind (display_root t) (path_strip_prefix path) of
          Some rest \<Rightarrow> join [slash] (map component_text rest)
        | None \<Rightarrow> path)"

definition render_diff ::
  "diff_tools \<Rightarrow> turn_diff_tracker \<Rightarrow> rstr \<Rightarrow> rstr option \<Rightarrow> rstr \<Rightarrow> rstr option \<Rightarrow> rstr option" where
  "render_diff tools t left_path left_content right_path right_content =
     (if left_content = right_content then None
      else let left_display = display_path t left_path;
               right_display = display_path t right_path;
               left_oid = (case left_content of None \<Rightarrow> ZERO_OID | Some content \<Rightarrow> git_blob_oid tools content);
               right_oid = (case right_content of None \<Rightarrow> ZERO_OID | Some content \<Rightarrow> git_blob_oid tools content);
               diff = lit ''diff --git a/'' @ left_display @ lit '' b/'' @ right_display @ [newline];
               mode = (case (left_content, right_content) of
                         (None, Some _) \<Rightarrow> lit ''new file mode '' @ REGULAR_FILE_MODE @ [newline]
                       | (Some _, None) \<Rightarrow> lit ''deleted file mode '' @ REGULAR_FILE_MODE @ [newline]
                       | _ \<Rightarrow> []);
               index = lit ''index '' @ left_oid @ lit ''..'' @ right_oid @ [newline];
               old_header = (if left_content \<noteq> None then lit ''a/'' @ left_display else DEV_NULL);
               new_header = (if right_content \<noteq> None then lit ''b/'' @ right_display else DEV_NULL);
               unified = unified_with_header tools 3 old_header new_header (unwrap_or [] left_content) (unwrap_or [] right_content)
           in Some (diff @ mode @ index @ unified))"

definition render_path_diff :: "diff_tools \<Rightarrow> turn_diff_tracker \<Rightarrow> rstr \<Rightarrow> rstr option" where
  "render_path_diff tools t path =
     render_diff tools t path (pm_get path (baseline_by_path t)) path (pm_get path (current_by_path t))"

definition render_rename_diff :: "diff_tools \<Rightarrow> turn_diff_tracker \<Rightarrow> rstr \<Rightarrow> rstr \<Rightarrow> rstr option" where
  "render_rename_diff tools t source_path dest_path =
     render_diff tools t source_path (pm_get source_path (baseline_by_path t)) dest_path (pm_get dest_path (current_by_path t))"

definition is_rename :: "turn_diff_tracker \<Rightarrow> rstr \<times> rstr \<Rightarrow> bool" where
  "is_rename t b =
     (case b of (dest_path, origin_path) \<Rightarrow>
        \<not> (path_eq dest_path origin_path \<or> pm_contains origin_path (current_by_path t) \<or>
           \<not> pm_contains dest_path (current_by_path t) \<or> \<not> pm_contains origin_path (baseline_by_path t) \<or>
           pm_contains dest_path (baseline_by_path t)))"

definition rename_pairs :: "turn_diff_tracker \<Rightarrow> path_map" where
  "rename_pairs t =
     fold (\<lambda>(dest_path, origin_path). pm_insert origin_path dest_path) (filter (is_rename t) (origin_by_current_path t)) []"

fun dedup_paths :: "rstr list \<Rightarrow> rstr list" where
  "dedup_paths (p # q # ps) = (if path_eq p q then dedup_paths (p # ps) else p # dedup_paths (q # ps))"
| "dedup_paths ps = ps"

definition push_diff :: "rstr \<Rightarrow> rstr option \<Rightarrow> rstr" where
  "push_diff aggregated diff =
     (case diff of
        None \<Rightarrow> aggregated
      | Some d \<Rightarrow>
          (let aggregated = aggregated @ d in
           if aggregated \<noteq> [] \<and> last aggregated = newline then aggregated else aggregated @ [newline]))"

text \<open>The loop over the paths; \<open>handled\<close> is the set of the paths that were done.\<close>

fun diff_loop ::
  "diff_tools \<Rightarrow> turn_diff_tracker \<Rightarrow> path_map \<Rightarrow> rstr list \<Rightarrow> rstr list \<Rightarrow> rstr \<Rightarrow> rstr" where
  "diff_loop tools t pairs [] handled aggregated = aggregated"
| "diff_loop tools t pairs (path # paths) handled aggregated =
     (if list_ex (path_eq path) handled then diff_loop tools t pairs paths handled aggregated
      else if list_ex (\<lambda>b. path_eq path (snd b)) pairs then diff_loop tools t pairs paths (path # handled) aggregated
      else case pm_get path pairs of
             Some dest \<Rightarrow>
               diff_loop tools t pairs paths (dest # path # handled) (push_diff aggregated (render_rename_diff tools t path dest))
           | None \<Rightarrow>
               diff_loop tools t pairs paths (path # handled) (push_diff aggregated (render_path_diff tools t path)))"

definition tracked_paths :: "turn_diff_tracker \<Rightarrow> rstr list" where
  "tracked_paths t =
     dedup_paths (sort_key (display_path t) (map fst (baseline_by_path t) @ map fst (current_by_path t)))"

definition get_unified_diff :: "diff_tools \<Rightarrow> turn_diff_tracker \<Rightarrow> rstr option" where
  "get_unified_diff tools t =
     (if \<not> valid t then None
      else let aggregated = diff_loop tools t (rename_pairs t) (tracked_paths t) [] [] in
           if aggregated \<noteq> [] then Some aggregated else None)"

section \<open>Maps with normalised keys\<close>

definition keys_normal :: "path_map \<Rightarrow> bool" where
  "keys_normal m \<longleftrightarrow> list_all (\<lambda>b. normal_path (fst b)) m"

lemma keys_normal_simps [simp]:
  "keys_normal []" "keys_normal ((q, x) # m) \<longleftrightarrow> normal_path q \<and> keys_normal m"
  by (simp_all add: keys_normal_def)

lemma pm_get_map: "keys_normal m \<Longrightarrow> normal_path p \<Longrightarrow> pm_get p m = map_of m p"
  by (induction p m rule: pm_get.induct) (auto simp: path_eq_normal)

lemma pm_contains_map: "keys_normal m \<Longrightarrow> normal_path p \<Longrightarrow> pm_contains p m \<longleftrightarrow> map_of m p \<noteq> None"
  by (simp add: pm_contains_def pm_get_map)

lemma map_of_insert: "keys_normal m \<Longrightarrow> normal_path p \<Longrightarrow> map_of (pm_insert p x m) = (map_of m)(p \<mapsto> x)"
  by (induction p x m rule: pm_insert.induct) (auto simp: path_eq_normal fun_eq_iff)

lemma map_of_remove: "keys_normal m \<Longrightarrow> normal_path p \<Longrightarrow> map_of (pm_remove p m) = (map_of m)(p := None)"
  by (induction m) (auto simp: pm_remove_def path_eq_normal fun_eq_iff)

lemma keys_insert: "keys_normal m \<Longrightarrow> normal_path p \<Longrightarrow> keys_normal (pm_insert p x m)"
  by (induction p x m rule: pm_insert.induct) auto

lemma keys_remove: "keys_normal m \<Longrightarrow> keys_normal (pm_remove p m)"
  by (auto simp: keys_normal_def pm_remove_def list_all_iff)

lemmas pm_simps = pm_get_map pm_contains_map map_of_insert map_of_remove keys_insert keys_remove

definition both_normal :: "path_map \<Rightarrow> bool" where
  "both_normal m \<longleftrightarrow> keys_normal m \<and> list_all (\<lambda>b. normal_path (snd b)) m"

lemma both_insert: "both_normal m \<Longrightarrow> normal_path p \<Longrightarrow> normal_path x \<Longrightarrow> both_normal (pm_insert p x m)"
  by (induction p x m rule: pm_insert.induct) (auto simp: both_normal_def)

lemma both_remove: "both_normal m \<Longrightarrow> both_normal (pm_remove p m)"
  by (auto simp: both_normal_def keys_normal_def pm_remove_def list_all_iff)

lemma both_get: "both_normal m \<Longrightarrow> normal_path p \<Longrightarrow> normal_path (unwrap_or p (pm_get p m))"
  by (induction p m rule: pm_get.induct) (auto simp: both_normal_def unwrap_or_def)

section \<open>The tracker and the files\<close>

definition tracker_ok :: "turn_diff_tracker \<Rightarrow> bool" where
  "tracker_ok t \<longleftrightarrow> keys_normal (baseline_by_path t) \<and> keys_normal (current_by_path t) \<and>
     both_normal (origin_by_current_path t)"

text \<open>
  The tracker describes the way from the files \<open>v0\<close> to the files \<open>v\<close>: a path it knows has the text
  of the baseline before and the current text now, where no text is no file; any other path is as it was.
\<close>

definition describes :: "turn_diff_tracker \<Rightarrow> (rstr \<rightharpoonup> rstr) \<Rightarrow> (rstr \<rightharpoonup> rstr) \<Rightarrow> bool" where
  "describes t v0 v \<longleftrightarrow>
     (\<forall>p. if map_of (baseline_by_path t) p = None \<and> map_of (current_by_path t) p = None then v p = v0 p
          else v0 p = map_of (baseline_by_path t) p \<and> v p = map_of (current_by_path t) p)"

text \<open>A change on normalised paths that does not move a file onto itself.\<close>

fun tidy :: "applied_patch_file_change \<Rightarrow> rstr \<Rightarrow> bool" where
  "tidy (Update (Some dest) old overwritten new) p \<longleftrightarrow> normal_path p \<and> normal_path dest \<and> dest \<noteq> p"
| "tidy c p \<longleftrightarrow> normal_path p"

lemma new_tracker_describes: "tracker_ok new_tracker" "describes new_tracker v v"
  by (simp_all add: tracker_ok_def describes_def new_tracker_def both_normal_def)

lemma note_baseline_views:
  assumes "tracker_ok t" "normal_path p"
  shows "map_of (baseline_by_path (note_baseline p x t)) =
      (if map_of (current_by_path t) p = None \<and> map_of (baseline_by_path t) p = None then (map_of (baseline_by_path t))(p := x)
       else map_of (baseline_by_path t))"
    "current_by_path (note_baseline p x t) = current_by_path t"
    "origin_by_current_path (note_baseline p x t) = origin_by_current_path t"
    "valid (note_baseline p x t) = valid t"
    "tracker_ok (note_baseline p x t)"
  using assms by (auto simp: note_baseline_def tracker_ok_def pm_simps fun_eq_iff split: option.splits)

definition view_set :: "rstr \<Rightarrow> rstr option \<Rightarrow> rstr option \<Rightarrow> (rstr \<rightharpoonup> rstr) \<times> (rstr \<rightharpoonup> rstr) \<Rightarrow> (rstr \<rightharpoonup> rstr) \<times> (rstr \<rightharpoonup> rstr)" where
  "view_set p before now bc =
     (case bc of (b, c) \<Rightarrow> (if c p = None \<and> b p = None then b(p := before) else b, c(p := now)))"

definition views :: "turn_diff_tracker \<Rightarrow> (rstr \<rightharpoonup> rstr) \<times> (rstr \<rightharpoonup> rstr)" where
  "views t = (map_of (baseline_by_path t), map_of (current_by_path t))"

definition views_describe :: "(rstr \<rightharpoonup> rstr) \<times> (rstr \<rightharpoonup> rstr) \<Rightarrow> (rstr \<rightharpoonup> rstr) \<Rightarrow> (rstr \<rightharpoonup> rstr) \<Rightarrow> bool" where
  "views_describe bc v0 v \<longleftrightarrow>
     (case bc of (b, c) \<Rightarrow> \<forall>p. if b p = None \<and> c p = None then v p = v0 p else v0 p = b p \<and> v p = c p)"

lemma describes_views: "describes t v0 v \<longleftrightarrow> views_describe (views t) v0 v"
  by (simp add: describes_def views_describe_def views_def)

lemma describe_set: "views_describe bc v0 v \<Longrightarrow> views_describe (view_set p (v p) y bc) v0 (v(p := y))"
  by (cases bc) (auto simp: views_describe_def view_set_def split: if_splits)

text \<open>What each kind of change does to the two maps, and that the keys stay normalised.\<close>

lemmas track_defs = note_baseline_def views_def view_set_def tracker_ok_def pm_simps both_insert both_remove both_get Let_def fun_eq_iff

lemma views_add:
  assumes "tracker_ok t" "normal_path p"
  shows "views (track_add p x ov t) = view_set p ov (Some x) (views t)" "tracker_ok (track_add p x ov t)"
  using assms by (auto simp: track_add_def track_defs split: option.splits)

lemma views_delete:
  assumes "tracker_ok t" "normal_path p"
  shows "views (track_delete p x t) = view_set p (Some x) None (views t)" "tracker_ok (track_delete p x t)"
  using assms by (auto simp: track_delete_def track_defs)

lemma views_update:
  assumes "tracker_ok t" "normal_path p"
  shows "views (track_update p None old ov new t) = view_set p (Some old) (Some new) (views t)"
    "tracker_ok (track_update p None old ov new t)"
  using assms by (auto simp: track_update_def track_defs)

lemma views_move:
  assumes "tracker_ok t" "normal_path p" "normal_path dest" "dest \<noteq> p"
  shows "views (track_update p (Some dest) old ov new t) = view_set dest ov (Some new) (view_set p (Some old) None (views t))"
    "tracker_ok (track_update p (Some dest) old ov new t)"
proof -
  define t1 where "t1 = note_baseline p (Some old) t"
  have t1: "tracker_ok t1" "map_of (current_by_path t1) = map_of (current_by_path t)"
    "map_of (baseline_by_path t1) = fst (view_set p (Some old) None (views t))"
    using assms(1,2) by (auto simp: t1_def track_defs)
  have m: "views (track_move p dest ov new t1) = view_set dest ov (Some new) (fst (views t1), (snd (views t1))(p := None)) \<and>
      tracker_ok (track_move p dest ov new t1)"
    using t1(1) assms(2-4) by (auto simp: track_move_def track_defs split: option.splits)
  have "track_update p (Some dest) old ov new t = track_move p dest ov new t1" by (simp add: track_update_def t1_def)
  with m t1(2,3) assms(4) show "views (track_update p (Some dest) old ov new t) = view_set dest ov (Some new) (view_set p (Some old) None (views t))"
    "tracker_ok (track_update p (Some dest) old ov new t)" by (auto simp: views_def view_set_def)
qed

lemma track_change_describes:
  assumes "tracker_ok t" "describes t v0 v" "tidy (change c) (change_path c)"
    "undo_change (change c) (change_path c) (replay_change (change c) (change_path c) v) = v"
  shows "tracker_ok (track_change c t) \<and> describes (track_change c t) v0 (replay_change (change c) (change_path c) v)"
proof -
  let ?p = "change_path c"
  note set1 = describe_set [OF assms(2) [unfolded describes_views], of ?p]
  show ?thesis
  proof (cases "change c")
    case (Add x ov)
    then have "v ?p = ov" using fun_cong [OF assms(4), of ?p] by simp
    with Add assms(1,3) set1 show ?thesis by (simp add: track_change_def describes_views views_add)
  next
    case (Delete x)
    then have "v ?p = Some x" using fun_cong [OF assms(4), of ?p] by simp
    with Delete assms(1,3) set1 show ?thesis by (simp add: track_change_def describes_views views_delete)
  next
    case (Update mv old ov new)
    show ?thesis
    proof (cases mv)
      case None
      with Update have "v ?p = Some old" using fun_cong [OF assms(4), of ?p] by simp
      with Update None assms(1,3) set1 show ?thesis by (simp add: track_change_def describes_views views_update)
    next
      case (Some dest)
      with Update assms(3) have d: "normal_path ?p" "normal_path dest" "dest \<noteq> ?p" by simp_all
      with Update Some have "v ?p = Some old" "v dest = ov"
        using fun_cong [OF assms(4), of ?p] fun_cong [OF assms(4), of dest] by simp_all
      then have "views_describe (view_set dest ov (Some new) (view_set ?p (Some old) None (views t))) v0 (v(?p := None, dest \<mapsto> new))"
        using describe_set [OF set1 [of None], of dest] d by simp
      with Update Some assms(1) d show ?thesis by (simp add: track_change_def describes_views views_move fun_upd_twist)
    qed
  qed
qed

lemma track_change_valid [simp]: "valid (track_change c t) = valid t"
  by (auto simp: track_change_def track_add_def track_delete_def track_update_def track_move_def note_baseline_def Let_def
      split: applied_patch_file_change.split option.split)

lemma track_changes_describe:
  assumes "tracker_ok t" "describes t v0 v" "list_all (\<lambda>c. tidy (change c) (change_path c)) cs" "truthful cs v"
  shows "tracker_ok (fold track_change cs t) \<and> describes (fold track_change cs t) v0 (replay cs v) \<and> valid (fold track_change cs t) = valid t"
  using assms
proof (induction cs arbitrary: t v)
  case (Cons c cs)
  then have "tracker_ok (track_change c t) \<and> describes (track_change c t) v0 (replay_change (change c) (change_path c) v)"
    by (intro track_change_describes) auto
  with Cons.IH [of "track_change c t" "replay_change (change c) (change_path c) v"] Cons.prems show ?case by simp
qed simp

section \<open>What the diff shows\<close>

definition shows_diff :: "rstr option \<Rightarrow> rstr \<Rightarrow> bool" where
  "shows_diff d out \<longleftrightarrow> (case d of None \<Rightarrow> True | Some x \<Rightarrow> sublist x out)"

text \<open>A path was dealt with: as the source of a rename, as its destination, or on its own.\<close>

definition dealt_with :: "diff_tools \<Rightarrow> turn_diff_tracker \<Rightarrow> path_map \<Rightarrow> rstr \<Rightarrow> rstr \<Rightarrow> bool" where
  "dealt_with tools t pairs out p \<longleftrightarrow>
     (case pm_get p pairs of
        Some dest \<Rightarrow> shows_diff (render_rename_diff tools t p dest) out
      | None \<Rightarrow> shows_diff (render_path_diff tools t p) out) \<or> p \<in> snd ` set pairs"

lemma push_diff_shows: "prefix agg (push_diff agg d)" "shows_diff d (push_diff agg d)"
  by (auto simp: push_diff_def shows_diff_def Let_def split: option.split)

lemma shows_diff_mono: "shows_diff d out \<Longrightarrow> prefix out out' \<Longrightarrow> shows_diff d out'"
  by (auto simp: shows_diff_def split: option.splits dest: prefix_imp_sublist intro: sublist_order.order_trans)

lemma dealt_with_mono: "dealt_with tools t pairs out p \<Longrightarrow> prefix out out' \<Longrightarrow> dealt_with tools t pairs out' p"
  by (auto simp: dealt_with_def split: option.splits intro: shows_diff_mono)

lemma both_normal_get: "both_normal m \<Longrightarrow> pm_get p m = Some x \<Longrightarrow> normal_path x"
  by (induction p m rule: pm_get.induct) (auto simp: both_normal_def split: if_splits)

lemma get_in_snd: "pm_get p m = Some x \<Longrightarrow> x \<in> snd ` set m"
  by (induction p m rule: pm_get.induct) (auto split: if_splits)

lemma diff_loop_deals:
  assumes "both_normal pairs" "list_all normal_path paths" "list_all (\<lambda>p. normal_path p \<and> dealt_with tools t pairs agg p) handled"
  shows "prefix agg (diff_loop tools t pairs paths handled agg) \<and>
    list_all (dealt_with tools t pairs (diff_loop tools t pairs paths handled agg)) (paths @ handled)"
  using assms(2,3)
proof (induction paths arbitrary: handled agg)
  case Nil
  then show ?case by (simp add: list_all_iff)
next
  case (Cons path paths)
  let ?loop = "diff_loop tools t pairs"
  have next_ok: ?case if "?loop (path # paths) handled agg = ?loop paths (new @ handled) agg'" "prefix agg agg'"
      "path \<in> set new \<union> set handled" "list_all (\<lambda>p. normal_path p \<and> dealt_with tools t pairs agg' p) new" for new agg'
  proof -
    have "list_all (\<lambda>p. normal_path p \<and> dealt_with tools t pairs agg' p) (new @ handled)"
      using that(4) Cons.prems(2) dealt_with_mono [OF _ that(2)] by (auto simp: list_all_iff)
    then have *: "prefix agg' (?loop paths (new @ handled) agg') \<and>
        list_all (dealt_with tools t pairs (?loop paths (new @ handled) agg')) (paths @ new @ handled)"
      using Cons.IH [of agg' "new @ handled"] Cons.prems(1) by simp
    then show ?thesis
      using that(1-3) by (auto simp: list_all_iff intro: prefix_order.trans)
  qed
  consider (handled) "list_ex (path_eq path) handled"
    | (dest) "\<not> list_ex (path_eq path) handled" "list_ex (\<lambda>b. path_eq path (snd b)) pairs"
    | (rename) dest where "\<not> list_ex (path_eq path) handled" "\<not> list_ex (\<lambda>b. path_eq path (snd b)) pairs" "pm_get path pairs = Some dest"
    | (own) "\<not> list_ex (path_eq path) handled" "\<not> list_ex (\<lambda>b. path_eq path (snd b)) pairs" "pm_get path pairs = None"
    by fastforce
  then show ?case
  proof cases
    case handled
    then have "path \<in> set handled"
      using Cons.prems by (auto simp: list_ex_iff list_all_iff path_eq_normal)
    with handled show ?thesis by (intro next_ok [of "[]" agg]) auto
  next
    case dest
    then have "path \<in> snd ` set pairs"
      using Cons.prems(1) assms(1) by (force simp: list_ex_iff list_all_iff both_normal_def path_eq_normal)
    with dest Cons.prems(1) show ?thesis by (intro next_ok [of "[path]" agg]) (auto simp: dealt_with_def)
  next
    case (rename dest)
    with Cons.prems(1) both_normal_get [OF assms(1) rename(3)] get_in_snd [OF rename(3)] push_diff_shows show ?thesis
      by (intro next_ok [of "[dest, path]" "push_diff agg (render_rename_diff tools t path dest)"]) (auto simp: dealt_with_def)
  next
    case own
    with Cons.prems(1) push_diff_shows show ?thesis
      by (intro next_ok [of "[path]" "push_diff agg (render_path_diff tools t path)"]) (auto simp: dealt_with_def)
  qed
qed

lemma dedup_paths_set: "list_all normal_path ps \<Longrightarrow> set (dedup_paths ps) = set ps"
  by (induction ps rule: dedup_paths.induct) (auto simp: path_eq_normal)

lemma tracked_paths_set:
  assumes "tracker_ok t"
  shows "set (tracked_paths t) = dom (map_of (baseline_by_path t)) \<union> dom (map_of (current_by_path t))"
    "list_all normal_path (tracked_paths t)"
proof -
  let ?ps = "sort_key (display_path t) (map fst (baseline_by_path t) @ map fst (current_by_path t))"
  have n: "list_all normal_path ?ps" using assms by (auto simp: tracker_ok_def keys_normal_def list_all_iff)
  have "set (tracked_paths t) = set ?ps" unfolding tracked_paths_def by (rule dedup_paths_set [OF n])
  then show "set (tracked_paths t) = dom (map_of (baseline_by_path t)) \<union> dom (map_of (current_by_path t))"
    "list_all normal_path (tracked_paths t)"
    using n by (simp_all add: dom_map_of_conv_image_fst list_all_iff)
qed

lemma pm_insert_sets:
  assumes "keys_normal m" "normal_path p"
  shows "set (pm_insert p x m) \<subseteq> insert (p, x) (set m)" "fst ` set (pm_insert p x m) = insert p (fst ` set m)"
    "distinct (map fst m) \<Longrightarrow> distinct (map fst (pm_insert p x m))"
  using assms by (induction p x m rule: pm_insert.induct) (auto simp: path_eq_normal)

definition pairs_ok :: "turn_diff_tracker \<Rightarrow> path_map \<Rightarrow> bool" where
  "pairs_ok t m \<longleftrightarrow> both_normal m \<and> distinct (map fst m) \<and> (\<forall>(a, b)\<in>set m. is_rename t (b, a))"

lemma pairs_ok_insert: "pairs_ok t m \<Longrightarrow> normal_path a \<Longrightarrow> normal_path b \<Longrightarrow> is_rename t (b, a) \<Longrightarrow> pairs_ok t (pm_insert a b m)"
  using pm_insert_sets [of m a b] by (auto simp: pairs_ok_def both_insert) (auto simp: both_normal_def)

lemma rename_pairs_ok:
  assumes "tracker_ok t"
  shows "pairs_ok t (rename_pairs t)"
proof -
  have "pairs_ok t (fold (\<lambda>(dest, origin). pm_insert origin dest) ms m)"
    if "pairs_ok t m" "\<And>b. b \<in> set ms \<Longrightarrow> normal_path (fst b) \<and> normal_path (snd b) \<and> is_rename t b" for ms m
    using that
  proof (induction ms arbitrary: m)
    case (Cons b ms)
    have "pairs_ok t (pm_insert (snd b) (fst b) m)" using Cons.prems(1) Cons.prems(2) [of b] by (simp add: pairs_ok_insert)
    with Cons.IH Cons.prems(2) show ?case by (simp add: case_prod_beta')
  qed simp
  note folded = this
  have "normal_path (fst b) \<and> normal_path (snd b) \<and> is_rename t b" if "b \<in> set (filter (is_rename t) (origin_by_current_path t))" for b
    using assms that by (simp add: tracker_ok_def both_normal_def keys_normal_def list_all_iff)
  moreover have "pairs_ok t []" by (simp add: pairs_ok_def both_normal_def)
  ultimately show ?thesis unfolding rename_pairs_def by (rule folded [rotated])
qed

lemma rename_pair_views:
  assumes "tracker_ok t" "(a, b) \<in> set (rename_pairs t)"
  shows "pm_get a (rename_pairs t) = Some b" "map_of (baseline_by_path t) a \<noteq> None" "map_of (current_by_path t) a = None"
    "map_of (baseline_by_path t) b = None" "map_of (current_by_path t) b \<noteq> None" "normal_path a" "normal_path b"
proof -
  note ok = rename_pairs_ok [OF assms(1), unfolded pairs_ok_def]
  then show n: "normal_path a" "normal_path b" using assms(2) by (auto simp: both_normal_def keys_normal_def list_all_iff)
  from ok assms(2) n show "pm_get a (rename_pairs t) = Some b" by (simp add: pm_get_map both_normal_def)
  have "is_rename t (b, a)" using ok assms(2) by auto
  then show "map_of (baseline_by_path t) a \<noteq> None" "map_of (current_by_path t) a = None"
    "map_of (baseline_by_path t) b = None" "map_of (current_by_path t) b \<noteq> None"
    using assms(1) n by (simp_all add: is_rename_def tracker_ok_def pm_contains_map)
qed

lemma tracked_dealt_with:
  assumes "tracker_ok t" "p \<in> set (tracked_paths t)"
  shows "dealt_with tools t (rename_pairs t) (diff_loop tools t (rename_pairs t) (tracked_paths t) [] []) p"
  using diff_loop_deals [of "rename_pairs t" "tracked_paths t" tools t "[]" "[]"] tracked_paths_set(2) [OF assms(1)]
    rename_pairs_ok [OF assms(1)] assms(2) by (simp add: pairs_ok_def list_all_iff)

text \<open>
  What a diff shows, in terms of the files before the turn and now: the difference of a file's texts
  is a part of it, or the difference of the texts of a rename that the file is one end of.  A file that
  is one end of a rename with the same text is not shown.
\<close>

definition in_diff :: "rstr option \<Rightarrow> rstr option \<Rightarrow> bool" where
  "in_diff out d \<longleftrightarrow> (\<exists>x y. d = Some x \<and> out = Some y \<and> sublist x y)"

definition renamed :: "turn_diff_tracker \<Rightarrow> (rstr \<rightharpoonup> rstr) \<Rightarrow> (rstr \<rightharpoonup> rstr) \<Rightarrow> rstr \<Rightarrow> rstr \<Rightarrow> bool" where
  "renamed t v0 v a b \<longleftrightarrow>
     (a, b) \<in> set (rename_pairs t) \<and> v0 a \<noteq> None \<and> v a = None \<and> v0 b = None \<and> v b \<noteq> None"

definition shown ::
  "diff_tools \<Rightarrow> turn_diff_tracker \<Rightarrow> (rstr \<rightharpoonup> rstr) \<Rightarrow> (rstr \<rightharpoonup> rstr) \<Rightarrow> rstr option \<Rightarrow> rstr \<Rightarrow> bool" where
  "shown tools t v0 v out p \<longleftrightarrow>
     in_diff out (render_diff tools t p (v0 p) p (v p)) \<or>
     (\<exists>a b. renamed t v0 v a b \<and> p \<in> {a, b} \<and> in_diff out (render_diff tools t a (v0 a) b (v b)))"

definition pure_rename :: "turn_diff_tracker \<Rightarrow> (rstr \<rightharpoonup> rstr) \<Rightarrow> (rstr \<rightharpoonup> rstr) \<Rightarrow> rstr \<Rightarrow> bool" where
  "pure_rename t v0 v p \<longleftrightarrow> (\<exists>a b. renamed t v0 v a b \<and> p \<in> {a, b} \<and> v b = v0 a)"

lemma render_diff_None: "render_diff tools t p x q y = None \<longleftrightarrow> x = y"
  by (simp add: render_diff_def Let_def)

lemma render_diff_not_empty: "render_diff tools t p x q y \<noteq> Some []"
  by (simp add: render_diff_def Let_def)

lemma path_diff_simps:
  "render_path_diff tools t p = None \<longleftrightarrow> pm_get p (baseline_by_path t) = pm_get p (current_by_path t)"
  "render_path_diff tools t p \<noteq> Some []"
  by (simp_all add: render_path_diff_def render_diff_None render_diff_not_empty)

lemma rename_diff_simps:
  "render_rename_diff tools t a b = None \<longleftrightarrow> pm_get a (baseline_by_path t) = pm_get b (current_by_path t)"
  "render_rename_diff tools t a b \<noteq> Some []"
  by (simp_all add: render_rename_diff_def render_diff_None render_diff_not_empty)

lemma pair_renamed:
  assumes "tracker_ok t" "describes t v0 v" "(a, b) \<in> set (rename_pairs t)"
  shows "renamed t v0 v a b" "render_rename_diff tools t a b = render_diff tools t a (v0 a) b (v b)"
proof -
  note views = rename_pair_views [OF assms(1,3)]
  have "v0 a = map_of (baseline_by_path t) a" "v a = map_of (current_by_path t) a"
    "v0 b = map_of (baseline_by_path t) b" "v b = map_of (current_by_path t) b"
    using assms(2) views(2-5) unfolding describes_def by metis+
  then show "renamed t v0 v a b" "render_rename_diff tools t a b = render_diff tools t a (v0 a) b (v b)"
    using views assms(1,3) by (simp_all add: renamed_def render_rename_diff_def tracker_ok_def pm_get_map)
qed

lemma changed_is_shown:
  assumes "tracker_ok t" "describes t v0 v" "valid t" "v p \<noteq> v0 p"
  shows "shown tools t v0 v (get_unified_diff tools t) p \<or> pure_rename t v0 v p"
proof -
  let ?pairs = "rename_pairs t"
  define out where "out = diff_loop tools t ?pairs (tracked_paths t) [] []"
  have some: "in_diff (get_unified_diff tools t) d" if "shows_diff d out" "d = render_diff tools t p x q y" "x \<noteq> y" for d p x q y
    using that assms(3) render_diff_None [of tools t p x q y] render_diff_not_empty [of tools t p x q y]
    by (auto simp: in_diff_def shows_diff_def get_unified_diff_def out_def Let_def)
  have p: "p \<in> dom (map_of (baseline_by_path t)) \<union> dom (map_of (current_by_path t))"
    "v0 p = map_of (baseline_by_path t) p" "v p = map_of (current_by_path t) p"
    using assms(2,4) unfolding describes_def by (auto dest!: spec [of _ p] split: if_splits)
  then have tracked: "p \<in> set (tracked_paths t)" "normal_path p"
    using tracked_paths_set [OF assms(1)] by (auto simp: list_all_iff)
  have rename: ?thesis if "(a, b) \<in> set ?pairs" "p \<in> {a, b}" for a b
  proof -
    note views = rename_pair_views [OF assms(1) that(1)] and renamed = pair_renamed [OF assms(1,2) that(1)]
    have "a \<in> set (tracked_paths t)" using views(2) tracked_paths_set(1) [OF assms(1)] by auto
    moreover have "a \<notin> snd ` set ?pairs" using rename_pair_views(4) [OF assms(1)] views(2) by force
    ultimately have "shows_diff (render_rename_diff tools t a b) out"
      using tracked_dealt_with [OF assms(1), of a tools] views(1) by (simp add: dealt_with_def out_def)
    from some [OF this renamed(2)] have "v b = v0 a \<or> in_diff (get_unified_diff tools t) (render_diff tools t a (v0 a) b (v b))"
      unfolding renamed(2) by metis
    with that(2) renamed(1) show ?thesis unfolding shown_def pure_rename_def by blast
  qed
  show ?thesis
  proof (cases "\<exists>(a, b)\<in>set ?pairs. p \<in> {a, b}")
    case False
    then have "pm_get p ?pairs = None" "p \<notin> snd ` set ?pairs"
      using rename_pairs_ok [OF assms(1)] tracked(2)
      by (auto simp: pm_get_map pairs_ok_def both_normal_def dest: map_of_SomeD intro: ccontr)
    then have "shows_diff (render_path_diff tools t p) out"
      using tracked_dealt_with [OF assms(1) tracked(1), of tools] by (simp add: dealt_with_def out_def)
    moreover have "render_path_diff tools t p = render_diff tools t p (v0 p) p (v p)"
      using p tracked(2) assms(1) by (simp add: render_path_diff_def tracker_ok_def pm_get_map)
    ultimately show ?thesis using some assms(4) unfolding shown_def by metis
  qed (use rename in blast)
qed

lemma diff_loop_silent:
  "list_all (\<lambda>p. render_path_diff tools t p = None) paths \<Longrightarrow> diff_loop tools t [] paths handled agg = agg"
  by (induction paths arbitrary: handled) (auto simp: push_diff_def)

lemma unchanged_is_silent:
  assumes "tracker_ok t" "describes t v v"
  shows "get_unified_diff tools t = None"
proof -
  have same: "map_of (baseline_by_path t) p = map_of (current_by_path t) p" for p
    using assms(2) unfolding describes_def by metis
  have "(a, b) \<notin> set (rename_pairs t)" for a b using rename_pair_views(2,3) [OF assms(1), of a b] same by auto
  then have "rename_pairs t = []" by (cases "rename_pairs t") force+
  moreover have "list_all (\<lambda>p. render_path_diff tools t p = None) (tracked_paths t)"
    using assms(1) tracked_paths_set(2) [OF assms(1)] same
    by (simp add: list_all_iff path_diff_simps tracker_ok_def pm_get_map)
  ultimately show ?thesis by (simp add: get_unified_diff_def diff_loop_silent)
qed

section \<open>A turn\<close>

text \<open>
  A turn from the files of a state: patches are applied one after the other and their deltas tracked, a
  patch that failed half way like any other; when something was done that is not known, the
  tracker is invalidated.  The tool writes into two vectors.
\<close>

definition vec_writer :: "rstr writer" where
  "vec_writer w line = (None, w @ line @ [newline])"

inductive turn :: "'s file_system \<Rightarrow> 's \<Rightarrow> turn_diff_tracker \<Rightarrow> 's \<Rightarrow> bool" for fs s0 where
  start: "turn fs s0 (new_tracker\<lparr>display_root := root\<rparr>) s0"
| patch: "turn fs s0 t s \<Longrightarrow> apply_patch fs parent resolve vec_writer patch [] [] s = (r, out, err, s') \<Longrightarrow>
    list_all (\<lambda>c. tidy (change c) (change_path c)) (changes (result_delta r)) \<Longrightarrow> turn fs s0 (track_delta (result_delta r) t) s'"
| unknown: "turn fs s0 t s \<Longrightarrow> turn fs s0 (invalidate t) s'"

lemma track_changes_valid [simp]: "valid (fold track_change cs t) = valid t"
  by (induction cs arbitrary: t) simp_all

lemma turn_describes:
  "turn fs s0 t s \<Longrightarrow> lawful fs \<Longrightarrow> valid t \<Longrightarrow> tracker_ok t \<and> describes t (text_view fs s0) (text_view fs s)"
proof (induction rule: turn.induct)
  case (start root)
  then show ?case using new_tracker_describes by (simp add: tracker_ok_def describes_def)
next
  case (patch t s parent resolve patch r out err s')
  then have "exact (result_delta r)" "valid t" by (auto simp: track_delta_def invalidate_def split: if_splits)
  moreover have "accounts fs (text_view fs s) (result_delta r) s'" using apply_patch_accounts [OF patch.prems(1) patch.hyps(2)] by blast
  ultimately show ?case
    using patch track_changes_describe [of t "text_view fs s0" "text_view fs s" "changes (result_delta r)"]
    by (simp add: accounts_def track_delta_def)
qed (simp add: invalidate_def)

text \<open>
  (C7) The diff of a turn is its net effect, as long as the tracker is valid (every delta was exact and nothing
  unknown was done) and no patch moves a file onto itself.  After any such sequence of patches, complete
  or not, for every file that is not as it was before the turn the diff has the difference of its texts,
  or, where the file is one end of a rename (a file that is gone and one that is new), the difference of
  the old text at the one place and the new text at the other; only a rename that keeps the text is not
  shown.  When all files are as before, there is no diff.
\<close>
theorem turn_diff_is_net_effect:
  assumes "turn fs s0 t s" "lawful fs" "valid t"
  shows "(\<forall>p. text_view fs s p \<noteq> text_view fs s0 p \<longrightarrow>
      shown tools t (text_view fs s0) (text_view fs s) (get_unified_diff tools t) p \<or>
      pure_rename t (text_view fs s0) (text_view fs s) p) \<and>
    (text_view fs s = text_view fs s0 \<longrightarrow> get_unified_diff tools t = None)"
  using turn_describes [OF assms] assms(3) changed_is_shown unchanged_is_silent by metis

definition plain_tools :: diff_tools where
  "plain_tools = \<lparr>sha1_hex = (\<lambda>_. ZERO_OID), unified_with_header = (\<lambda>n a b x y. a @ [newline] @ b @ [newline] @ x @ y)\<rparr>"

lemma vec_work_delete:
  "apply_patch (mem_fs Map.empty) parent (resolver None (lit ''/w'')) vec_writer delete_patch [] [] work_files =
   (Ok \<lparr>changes = [\<lparr>change_path = lit ''/w/a'', change = Delete (lit ''old'' @ [newline])\<rparr>], exact = True\<rparr>,
    lit ''Success. Updated the following files:'' @ [newline] @ lit ''D a'' @ [newline], [],
    work_files\<lparr>mem_files := (mem_files work_files)(lit ''/w/a'' := None)\<rparr>)"
  by (simp add: apply_patch_def parse_patch_delete delete_args_def apply_hunks_def work_paths
      apply_hunks_to_files_def apply_delete_def Let_def mem_fs_def work_files_def
      note_existing_path_delta_support_def ensure_not_directory_def empty_delta_def no_affected_def
      push_change_delta_def print_summary_def vec_writer_def del: lit_simps) simp

definition deleted_tracker :: turn_diff_tracker where
  "deleted_tracker = new_tracker\<lparr>baseline_by_path := [(lit ''/w/a'', lit ''old'' @ [newline])]\<rparr>"

lemma delete_turn:
  "turn (mem_fs Map.empty) work_files deleted_tracker (work_files\<lparr>mem_files := (mem_files work_files)(lit ''/w/a'' := None)\<rparr>)"
proof -
  have "normal_path (lit ''/w/a'')"
    using resolve_path_normal [of "lit ''/w''" None "DeleteFile (lit ''a'')"] by (simp add: work_paths is_absolute_def del: lit_simps) simp
  then have "turn (mem_fs Map.empty) work_files (track_delta \<lparr>changes = [\<lparr>change_path = lit ''/w/a'', change = Delete (lit ''old'' @ [newline])\<rparr>], exact = True\<rparr>
      (new_tracker\<lparr>display_root := None\<rparr>)) (work_files\<lparr>mem_files := (mem_files work_files)(lit ''/w/a'' := None)\<rparr>)"
    using turn.patch [OF turn.start vec_work_delete] by (simp del: lit_simps)
  then show ?thesis
    by (simp add: deleted_tracker_def new_tracker_def track_delta_def track_change_def track_delete_def Let_def pm_remove_def pm_contains_def del: lit_simps)
qed

theorem turn_diff_is_net_effect_witness:
  "in_diff (get_unified_diff plain_tools deleted_tracker)
     (render_diff plain_tools deleted_tracker (lit ''/w/a'') (Some (lit ''old'' @ [newline])) (lit ''/w/a'') None)"
proof -
  let ?v = "text_view (mem_fs Map.empty)" and ?s = "work_files\<lparr>mem_files := (mem_files work_files)(lit ''/w/a'' := None)\<rparr>"
  have none: "rename_pairs deleted_tracker = []" "valid deleted_tracker"
    by (simp_all add: rename_pairs_def deleted_tracker_def new_tracker_def)
  have views: "?v work_files (lit ''/w/a'') = Some (lit ''old'' @ [newline])" "?v ?s (lit ''/w/a'') = None"
    by (simp_all add: text_view_def mem_fs_def work_files_def del: lit_simps)
  have "shown plain_tools deleted_tracker (?v work_files) (?v ?s) (get_unified_diff plain_tools deleted_tracker) (lit ''/w/a'') \<or>
      pure_rename deleted_tracker (?v work_files) (?v ?s) (lit ''/w/a'')"
    using turn_diff_is_net_effect [OF delete_turn mem_fs_lawful none(2), of plain_tools] views
    by (metis option.distinct(1))
  then show ?thesis using views by (simp add: shown_def pure_rename_def renamed_def none del: lit_simps)
qed

text \<open>
  A patch that moves a file onto itself writes the destination and then removes the source: the file
  is gone.  The tracker takes the change for an update.
\<close>

definition self_move :: "hunk list" where
  "self_move = [UpdateFile (lit ''a'') (Some (lit ''a''))
     [\<lparr>change_context = None, old_lines = [lit ''old''], new_lines = [lit ''new''], is_end_of_file = False\<rparr>]]"

lemma self_move_loses_file:
  "case apply_hunks_to_files (mem_fs Map.empty) Map.empty (resolver None (lit ''/w'')) self_move empty_delta work_files of
     (Ok _, d, s) \<Rightarrow> exact d \<and> text_view (mem_fs Map.empty) s (lit ''/w/a'') = None \<and>
       current_by_path (track_delta d new_tracker) = [(lit ''/w/a'', lit ''new'' @ [newline])]
   | _ \<Rightarrow> False"
proof -
  have new: "new_contents_from_chunks (lit ''old'' @ [newline]) (lit ''/w/a'')
      [\<lparr>change_context = None, old_lines = [lit ''old''], new_lines = [lit ''new''], is_end_of_file = False\<rparr>] = Ok (lit ''new'' @ [newline])"
    by (simp add: replace_eval)
  show ?thesis
    by (simp add: self_move_def apply_hunks_to_files_def apply_update_def apply_move_def work_paths derive_new_contents_from_chunks_def new
        mem_fs_def work_files_def note_existing_path_delta_support_def read_optional_file_text_for_delta_def Let_def
        write_file_with_missing_parent_retry_def ensure_not_directory_def push_change_delta_def empty_delta_def text_view_def
        track_delta_def track_change_def track_update_def track_move_def note_baseline_def new_tracker_def pm_contains_def pm_remove_def
        path_eq_def unwrap_or_def del: lit_simps)
qed

end
