(* ===== verification/Protocol_Items.thy ===== *)
theory Protocol_Items
  imports Rust_Text "HOL-Library.Word"
begin

text \<open>
  The data the model-facing components share: JSON values (\<^verbatim>\<open>serde_json::Value\<close>), the
  conversation items of \<^verbatim>\<open>codex-rs/protocol/src/models.rs\<close>, the wire types of
  \<^verbatim>\<open>codex-rs/codex-api/src/endpoint/chat_completions.rs\<close>, and the ordered maps
  (\<^verbatim>\<open>BTreeMap\<close>) the code keeps.

  Parsing and printing JSON text is the business of the \<^verbatim>\<open>serde_json\<close> crate and is an argument of
  the operations that use it.
\<close>

section \<open>JSON values\<close>

datatype json =
    JNull
  | JBool bool
  | JNumber rstr
  | JString rstr
  | JArray "json list"
  | JObject "(rstr \<times> json) list"

fun json_get :: "rstr \<Rightarrow> json \<Rightarrow> json option" where
  "json_get k (JObject fields) = map_of fields k"
| "json_get k _ = None"

fun json_as_str :: "json \<Rightarrow> rstr option" where
  "json_as_str (JString s) = Some s"
| "json_as_str _ = None"

section \<open>Ordered maps\<close>

text \<open>
  What the code relies on of a \<^verbatim>\<open>BTreeMap\<close>: \<^verbatim>\<open>entry(k).or_default()\<close> followed by an update of the
  entry changes that key only, and \<^verbatim>\<open>values()\<close> runs through the entries in the order of the keys.
\<close>

locale ordered_map =
  fixes lookup :: "'m \<Rightarrow> 'k::linorder \<Rightarrow> 'v option"
    and entry :: "'k \<Rightarrow> 'v \<Rightarrow> ('v \<Rightarrow> 'v) \<Rightarrow> 'm \<Rightarrow> 'm"
    and items :: "'m \<Rightarrow> ('k \<times> 'v) list"
    and inv :: "'m \<Rightarrow> bool"
  assumes lookup_entry: "inv m \<Longrightarrow> lookup (entry k d f m) k' =
      (if k' = k then Some (f (case lookup m k of None \<Rightarrow> d | Some v \<Rightarrow> v)) else lookup m k')"
    and inv_entry: "inv m \<Longrightarrow> inv (entry k d f m)"
    and items_sorted: "inv m \<Longrightarrow> sorted_wrt (<) (map fst (items m))"
    and items_lookup: "inv m \<Longrightarrow> (k, v) \<in> set (items m) \<longleftrightarrow> lookup m k = Some v"
begin

text \<open>A run of entry updates, as \<open>(key, update)\<close> pairs, from an empty or filled map.\<close>

definition run :: "'v \<Rightarrow> ('k \<times> ('v \<Rightarrow> 'v)) list \<Rightarrow> 'm \<Rightarrow> 'm" where
  "run d us m = fold (\<lambda>(k, f). entry k d f) us m"

lemma inv_run: "inv m \<Longrightarrow> inv (run d us m)"
  by (induction us arbitrary: m) (auto simp: run_def inv_entry split: prod.splits)

text \<open>The entry of a key is the result of the updates with that key, in order.\<close>

lemma lookup_run:
  assumes "inv m"
  shows "lookup (run d us m) k =
    (if k \<in> fst ` set us \<or> lookup m k \<noteq> None
     then Some (fold (\<lambda>(k', f) v. if k' = k then f v else v) us (case lookup m k of None \<Rightarrow> d | Some v \<Rightarrow> v))
     else None)"
  using assms
proof (induction us arbitrary: m)
  case Nil
  then show ?case by (auto simp: run_def split: option.splits)
next
  case (Cons u us)
  obtain k' f where u: "u = (k', f)" by (cases u)
  have "lookup (run d (u # us) m) k = lookup (run d us (entry k' d f m)) k"
    by (simp add: run_def u)
  also have "\<dots> = (if k \<in> fst ` set us \<or> lookup (entry k' d f m) k \<noteq> None
     then Some (fold (\<lambda>(k', f) v. if k' = k then f v else v) us
       (case lookup (entry k' d f m) k of None \<Rightarrow> d | Some v \<Rightarrow> v))
     else None)"
    by (rule Cons.IH) (simp add: inv_entry Cons.prems)
  finally show ?case
    using Cons.prems by (cases "k' = k") (auto simp: lookup_entry u split: option.splits)
qed

lemma items_distinct: "inv m \<Longrightarrow> distinct (map fst (items m))"
  by (drule items_sorted) (simp add: strict_sorted_iff)

end

text \<open>The maps of the model: association lists with strictly increasing keys.\<close>

fun bt_entry :: "'k::linorder \<Rightarrow> 'v \<Rightarrow> ('v \<Rightarrow> 'v) \<Rightarrow> ('k \<times> 'v) list \<Rightarrow> ('k \<times> 'v) list" where
  "bt_entry k d f [] = [(k, f d)]"
| "bt_entry k d f ((k', v) # m) =
     (if k < k' then (k, f d) # (k', v) # m
      else if k = k' then (k, f v) # m
      else (k', v) # bt_entry k d f m)"

definition bt_inv :: "('k::linorder \<times> 'v) list \<Rightarrow> bool" where
  "bt_inv m \<longleftrightarrow> sorted_wrt (<) (map fst m)"

lemma bt_entry_keys: "fst ` set (bt_entry k d f m) = insert k (fst ` set m)"
  by (induction k d f m rule: bt_entry.induct) auto

lemma bt_inv_entry: "bt_inv m \<Longrightarrow> bt_inv (bt_entry k d f m)"
proof (induction k d f m rule: bt_entry.induct)
  case (2 k d f k' v m)
  then show ?case
    using bt_entry_keys [of k d f m] by (auto simp: bt_inv_def)
qed (simp add: bt_inv_def)

lemma map_of_bt_entry:
  "bt_inv m \<Longrightarrow> map_of (bt_entry k d f m) k' =
     (if k' = k then Some (f (case map_of m k of None \<Rightarrow> d | Some v \<Rightarrow> v)) else map_of m k')"
proof (induction k d f m rule: bt_entry.induct)
  case (2 k d f k2 v m)
  have "map_of m k = None" if "k < k2"
    using that "2.prems" by (auto simp: bt_inv_def map_of_eq_None_iff)
  with 2 show ?case by (auto simp: bt_inv_def)
qed simp

lemma bt_entry_set: "set (bt_entry k d (\<lambda>_. v) m) \<subseteq> insert (k, v) (set m)"
  by (induction m) (auto split: if_splits)

lemma map_of_apsnd: "map_of (map (apsnd f) m) k = map_option f (map_of m k)"
  by (induction m) auto

text \<open>Mapping the values of a map, and an update that ignores the old value but was computed from it.\<close>

lemma map_bt_entry:
  "map (apsnd g) (bt_entry k d (\<lambda>_. v) m) = bt_entry k (g d) (\<lambda>_. g v) (map (apsnd g) m)"
  by (induction m) auto

lemma bt_entry_const:
  "bt_inv m \<Longrightarrow> bt_entry k d (\<lambda>_. f (case map_of m k of None \<Rightarrow> d | Some v \<Rightarrow> v)) m = bt_entry k d f m"
proof (induction m)
  case (Cons x m)
  obtain k' v where x: "x = (k', v)" by (cases x)
  have "map_of m k = None" if "k < k'"
    using that Cons.prems by (auto simp: bt_inv_def map_of_eq_None_iff x)
  with Cons show ?case by (auto simp: bt_inv_def x)
qed simp

interpretation bt: ordered_map map_of bt_entry id bt_inv
proof unfold_locales
  fix m :: "('k::linorder \<times> 'v) list" and k v
  assume "bt_inv m"
  then show "(k, v) \<in> set (id m) \<longleftrightarrow> map_of m k = Some v"
    by (auto simp: bt_inv_def strict_sorted_iff intro: map_of_is_SomeI dest: map_of_SomeD)
qed (auto simp: map_of_bt_entry bt_inv_entry, simp add: bt_inv_def)

section \<open>Conversation items\<close>

datatype image_detail = DetailAuto | DetailLow | DetailHigh | DetailOriginal

datatype content_item =
    InputText rstr
  | InputImage rstr "image_detail option"
  | OutputText rstr

datatype message_phase = Commentary | FinalAnswer

datatype reasoning_summary = SummaryText rstr

datatype reasoning_item_content = ReasoningText rstr | ReasoningPlain rstr

datatype local_shell_status = ShellCompleted | ShellInProgress | ShellIncomplete

record local_shell_exec_action =
  shell_command :: "rstr list"
  shell_timeout_ms :: "64 word option"
  shell_working_directory :: "rstr option"
  shell_env :: "(rstr \<times> rstr) list option"
  shell_user :: "rstr option"

datatype web_search_action =
    WebSearch "rstr option" "rstr list option"
  | OpenPage "rstr option"
  | FindInPage "rstr option" "rstr option"
  | WebOther

datatype output_content_item =
    OutInputText rstr
  | OutInputImage rstr "image_detail option"

datatype function_call_output_body =
    BodyText rstr
  | ContentItems "output_content_item list"

record function_call_output_payload =
  body :: function_call_output_body
  success :: "bool option"

datatype response_item =
    Message (item_id: "rstr option") (item_role: rstr) (item_content: "content_item list")
      (item_phase: "message_phase option")
  | Reasoning rstr "reasoning_summary list" "reasoning_item_content list option" "rstr option"
  | LocalShellCall "rstr option" "rstr option" local_shell_status local_shell_exec_action
  | FunctionCall "rstr option" (call_name: rstr) "rstr option" (call_arguments: rstr) (call_id: rstr)
  | ToolSearchCall "rstr option" "rstr option" "rstr option" rstr json
  | FunctionCallOutput rstr function_call_output_payload
  | CustomToolCall "rstr option" "rstr option" rstr rstr rstr
  | CustomToolCallOutput rstr "rstr option" function_call_output_payload
  | ToolSearchOutput "rstr option" rstr rstr "json list"
  | WebSearchCall "rstr option" "rstr option" "web_search_action option"
  | ImageGenerationCall rstr rstr "rstr option" rstr
  | Compaction rstr
  | ContextCompaction "rstr option"
  | OtherItem

section \<open>Token usage\<close>

record token_usage =
  input_tokens :: int
  cached_input_tokens :: int
  output_tokens :: int
  reasoning_output_tokens :: int
  usage_total_tokens :: int

section \<open>Chat completions wire types\<close>

record chat_function_call =
  fn_name :: rstr
  fn_arguments :: rstr

record chat_tool_call =
  tc_id :: rstr
  tc_function :: chat_function_call

datatype chat_message =
    SystemMessage rstr "rstr option"
  | UserMessage rstr "rstr option"
  | AssistantMessage (as_content: "rstr option") (as_name: "rstr option") (as_prefix: "bool option")
      (as_reasoning_content: "rstr option") (as_tool_calls: "chat_tool_call list option")
  | ToolMessage rstr rstr

record chat_function_call_delta =
  fd_name :: "rstr option"
  fd_arguments :: "rstr option"

record chat_tool_call_delta =
  td_index :: "nat option"
  td_id :: "rstr option"
  td_function :: "chat_function_call_delta option"

record chat_completion_delta =
  d_content :: "rstr option"
  d_role :: "rstr option"
  d_reasoning_content :: "rstr option"
  d_tool_calls :: "chat_tool_call_delta list option"

record chat_completion_chunk_choice =
  ch_delta :: chat_completion_delta
  ch_finish_reason :: "rstr option"
  ch_index :: nat
  ch_logprobs :: "json option"

record chat_usage =
  completion_tokens :: "64 word option"
  prompt_tokens :: "64 word option"
  prompt_cache_hit_tokens :: "64 word option"
  prompt_cache_miss_tokens :: "64 word option"
  total_tokens :: "64 word option"
  details_reasoning_tokens :: "64 word option option"

record chat_completion_chunk =
  ck_id :: rstr
  ck_choices :: "chat_completion_chunk_choice list"
  ck_created :: int
  ck_model :: rstr
  ck_object :: rstr
  ck_usage :: "chat_usage option"
  ck_system_fingerprint :: "rstr option"

definition APPLY_PATCH_TOOL_NAME :: rstr where
  "APPLY_PATCH_TOOL_NAME = lit ''apply_patch''"

definition APPLY_PATCH_INPUT_FIELD :: rstr where
  "APPLY_PATCH_INPUT_FIELD = lit ''input''"

end
