(* ===== verification/Text_Truncation.thy ===== *)
theory Text_Truncation
  imports Protocol_Items
begin

text \<open>
  Truncation of long texts (\<^verbatim>\<open>utils/string/src/truncate.rs\<close>, \<^verbatim>\<open>utils/output-truncation/src/lib.rs\<close>
  and the truncation policy of \<^verbatim>\<open>protocol/src/protocol.rs\<close>).

  Lengths are byte counts of the UTF-8 encoding.  A \<^verbatim>\<open>usize\<close> is a natural number with the
  saturating operations of the source written out at 64 bits; slicing a text at a byte offset inside
  a character panics, so the functions return an \<open>outcome\<close>.  The lemmas show that no slice panics,
  that the kept beginning and end fit the budget, and that what is announced as removed is what is
  missing.
\<close>

section \<open>Machine arithmetic\<close>

definition USIZE_MAX :: nat where
  "USIZE_MAX = 2 ^ 64 - 1"

definition usize_saturating_add :: "nat \<Rightarrow> nat \<Rightarrow> nat" where
  "usize_saturating_add a b = min (a + b) USIZE_MAX"

definition usize_saturating_mul :: "nat \<Rightarrow> nat \<Rightarrow> nat" where
  "usize_saturating_mul a b = min (a * b) USIZE_MAX"

text \<open>\<^verbatim>\<open>&s[..n]\<close> with a byte offset.\<close>

fun byte_slice_to :: "nat \<Rightarrow> rstr \<Rightarrow> (unit, rstr) outcome" where
  "byte_slice_to n [] = (if n = 0 then Ok [] else Panic)"
| "byte_slice_to n (c # cs) =
     (if n = 0 then Ok []
      else if utf8_len c \<le> n then and_then (byte_slice_to (n - utf8_len c) cs) (\<lambda>r. Ok (c # r)) else Panic)"

section \<open>Truncating the middle of a text\<close>

definition APPROX_BYTES_PER_TOKEN :: nat where
  "APPROX_BYTES_PER_TOKEN = 4"

definition approx_token_count :: "rstr \<Rightarrow> nat" where
  "approx_token_count s =
     usize_saturating_add (byte_len s) (APPROX_BYTES_PER_TOKEN - 1) div APPROX_BYTES_PER_TOKEN"

definition approx_bytes_for_tokens :: "nat \<Rightarrow> nat" where
  "approx_bytes_for_tokens tokens = usize_saturating_mul tokens APPROX_BYTES_PER_TOKEN"

definition approx_tokens_from_byte_count :: "nat \<Rightarrow> nat" where
  "approx_tokens_from_byte_count bytes =
     usize_saturating_add bytes (APPROX_BYTES_PER_TOKEN - 1) div APPROX_BYTES_PER_TOKEN"

definition split_budget :: "nat \<Rightarrow> nat \<times> nat" where
  "split_budget budget = (let left = budget div 2 in (left, budget - left))"

text \<open>
  The loop of \<^verbatim>\<open>split_string\<close>: the end of the prefix, the start of the suffix, the number of
  characters removed and whether the suffix has started.
\<close>

fun split_loop ::
  "nat \<Rightarrow> nat \<Rightarrow> nat \<Rightarrow> nat \<times> nat \<times> nat \<times> bool \<Rightarrow> rstr \<Rightarrow> nat \<times> nat \<times> nat \<times> bool" where
  "split_loop beginning_bytes tail_start_target idx state [] = state"
| "split_loop beginning_bytes tail_start_target idx (prefix_end, suffix_start, removed_chars, suffix_started) (c # cs) =
     (let char_end = idx + utf8_len c in
      split_loop beginning_bytes tail_start_target char_end
        (if char_end \<le> beginning_bytes then (char_end, suffix_start, removed_chars, suffix_started)
         else if tail_start_target \<le> idx then
           (if suffix_started then (prefix_end, suffix_start, removed_chars, suffix_started)
            else (prefix_end, idx, removed_chars, True))
         else (prefix_end, suffix_start, usize_saturating_add removed_chars 1, suffix_started)) cs)"

definition split_string :: "rstr \<Rightarrow> nat \<Rightarrow> nat \<Rightarrow> (unit, nat \<times> rstr \<times> rstr) outcome" where
  "split_string s beginning_bytes end_bytes =
     (if s = [] then Ok (0, [], [])
      else let len = byte_len s;
               (prefix_end, suffix_start, removed_chars, _) =
                 split_loop beginning_bytes (len - end_bytes) 0 (0, len, 0, False) s;
               suffix_start = (if suffix_start < prefix_end then prefix_end else suffix_start)
           in and_then (byte_slice_to prefix_end s) (\<lambda>before.
              and_then (byte_slice_from suffix_start s) (\<lambda>after. Ok (removed_chars, before, after))))"

definition removed_units :: "bool \<Rightarrow> nat \<Rightarrow> nat \<Rightarrow> nat" where
  "removed_units use_tokens removed_bytes removed_chars =
     (if use_tokens then approx_tokens_from_byte_count removed_bytes else removed_chars)"

definition format_truncation_marker :: "bool \<Rightarrow> nat \<Rightarrow> rstr" where
  "format_truncation_marker use_tokens removed_count =
     [8230] @ decimal removed_count @
     (if use_tokens then lit '' tokens truncated'' else lit '' chars truncated'') @ [8230]"

definition assemble_truncated_output :: "rstr \<Rightarrow> rstr \<Rightarrow> rstr \<Rightarrow> rstr" where
  "assemble_truncated_output before after marker = before @ marker @ after"

definition truncate_with_byte_estimate :: "rstr \<Rightarrow> nat \<Rightarrow> bool \<Rightarrow> (unit, rstr) outcome" where
  "truncate_with_byte_estimate s max_bytes use_tokens =
     (if s = [] then Ok []
      else let total_chars = length s in
        if max_bytes = 0
        then Ok (format_truncation_marker use_tokens (removed_units use_tokens (byte_len s) total_chars))
        else if byte_len s \<le> max_bytes then Ok s
        else let total_bytes = byte_len s;
                 (left_budget, right_budget) = split_budget max_bytes
             in and_then (split_string s left_budget right_budget) (\<lambda>(removed_chars, left, right).
                  Ok (assemble_truncated_output left right
                    (format_truncation_marker use_tokens
                      (removed_units use_tokens (total_bytes - max_bytes) removed_chars)))))"

definition truncate_middle_chars :: "rstr \<Rightarrow> nat \<Rightarrow> (unit, rstr) outcome" where
  "truncate_middle_chars s max_bytes = truncate_with_byte_estimate s max_bytes False"

definition truncate_middle_with_token_budget :: "rstr \<Rightarrow> nat \<Rightarrow> (unit, rstr \<times> nat option) outcome" where
  "truncate_middle_with_token_budget s max_tokens =
     (if s = [] then Ok ([], None)
      else if 0 < max_tokens \<and> byte_len s \<le> approx_bytes_for_tokens max_tokens then Ok (s, None)
      else and_then (truncate_with_byte_estimate s (approx_bytes_for_tokens max_tokens) True) (\<lambda>truncated.
        let total_tokens = approx_token_count s in
        Ok (if truncated = s then (truncated, None) else (truncated, Some total_tokens))))"

section \<open>Truncation policies\<close>

datatype truncation_policy = BytesPolicy nat | TokensPolicy nat

fun token_budget :: "truncation_policy \<Rightarrow> nat" where
  "token_budget (BytesPolicy bytes) = approx_tokens_from_byte_count bytes"
| "token_budget (TokensPolicy tokens) = tokens"

fun byte_budget :: "truncation_policy \<Rightarrow> nat" where
  "byte_budget (BytesPolicy bytes) = bytes"
| "byte_budget (TokensPolicy tokens) = approx_bytes_for_tokens tokens"

text \<open>\<^verbatim>\<open>policy * f\<close>: the floating-point product, rounded up and cast back, is the parameter \<open>scale\<close>.\<close>

fun policy_mul :: "(nat \<Rightarrow> nat) \<Rightarrow> truncation_policy \<Rightarrow> truncation_policy" where
  "policy_mul scale (BytesPolicy bytes) = BytesPolicy (scale bytes)"
| "policy_mul scale (TokensPolicy tokens) = TokensPolicy (scale tokens)"

fun truncate_text :: "rstr \<Rightarrow> truncation_policy \<Rightarrow> (unit, rstr) outcome" where
  "truncate_text content (BytesPolicy bytes) = truncate_middle_chars content bytes"
| "truncate_text content (TokensPolicy tokens) =
     and_then (truncate_middle_with_token_budget content tokens) (\<lambda>r. Ok (fst r))"

definition formatted_truncate_text :: "rstr \<Rightarrow> truncation_policy \<Rightarrow> (unit, rstr) outcome" where
  "formatted_truncate_text content policy =
     (if byte_len content \<le> byte_budget policy then Ok content
      else let total_lines = length (lines content) in
        and_then (truncate_text content policy) (\<lambda>result.
          Ok (lit ''Total output lines: '' @ decimal total_lines @ [newline, newline] @ result)))"

section \<open>Truncating the items of a tool output\<close>

fun policy_cost :: "truncation_policy \<Rightarrow> rstr \<Rightarrow> nat" where
  "policy_cost (BytesPolicy _) t = byte_len t"
| "policy_cost (TokensPolicy _) t = approx_token_count t"

fun policy_budget :: "truncation_policy \<Rightarrow> nat" where
  "policy_budget (BytesPolicy b) = byte_budget (BytesPolicy b)"
| "policy_budget (TokensPolicy n) = token_budget (TokensPolicy n)"

fun snippet_policy :: "truncation_policy \<Rightarrow> nat \<Rightarrow> truncation_policy" where
  "snippet_policy (BytesPolicy _) remaining_budget = BytesPolicy remaining_budget"
| "snippet_policy (TokensPolicy _) remaining_budget = TokensPolicy remaining_budget"

fun truncate_items_loop ::
  "truncation_policy \<Rightarrow> nat \<Rightarrow> nat \<Rightarrow> output_content_item list \<Rightarrow>
   (unit, output_content_item list \<times> nat) outcome" where
  "truncate_items_loop policy remaining_budget omitted [] = Ok ([], omitted)"
| "truncate_items_loop policy remaining_budget omitted (OutInputImage url detail # items) =
     and_then (truncate_items_loop policy remaining_budget omitted items) (\<lambda>(out, n).
       Ok (OutInputImage url detail # out, n))"
| "truncate_items_loop policy remaining_budget omitted (OutInputText t # items) =
     (if remaining_budget = 0 then truncate_items_loop policy remaining_budget (omitted + 1) items
      else let cost = policy_cost policy t in
        if cost \<le> remaining_budget
        then and_then (truncate_items_loop policy (remaining_budget - cost) omitted items) (\<lambda>(out, n).
               Ok (OutInputText t # out, n))
        else and_then (truncate_text t (snippet_policy policy remaining_budget)) (\<lambda>snippet.
               if snippet = [] then truncate_items_loop policy 0 (omitted + 1) items
               else and_then (truncate_items_loop policy 0 omitted items) (\<lambda>(out, n).
                 Ok (OutInputText snippet # out, n))))"

definition omitted_note :: "nat \<Rightarrow> output_content_item list" where
  "omitted_note n =
     (if 0 < n then [OutInputText (lit ''[omitted '' @ decimal n @ lit '' text items ...]'')] else [])"

definition truncate_function_output_items_with_policy ::
  "output_content_item list \<Rightarrow> truncation_policy \<Rightarrow> (unit, output_content_item list) outcome" where
  "truncate_function_output_items_with_policy items policy =
     and_then (truncate_items_loop policy (policy_budget policy) 0 items) (\<lambda>(out, omitted_text_items).
       Ok (out @ omitted_note omitted_text_items))"

fun is_image_item :: "output_content_item \<Rightarrow> bool" where
  "is_image_item (OutInputImage _ _) = True"
| "is_image_item (OutInputText _) = False"

fun item_texts :: "output_content_item list \<Rightarrow> rstr list" where
  "item_texts [] = []"
| "item_texts (OutInputText t # items) = t # item_texts items"
| "item_texts (OutInputImage _ _ # items) = item_texts items"

text \<open>The combined text: a line feed is put before a segment only when something precedes it.\<close>

definition combine_segments :: "rstr list \<Rightarrow> rstr" where
  "combine_segments segments = foldl (\<lambda>combined t. (if combined \<noteq> [] then combined @ [newline] else combined) @ t) [] segments"

definition formatted_truncate_text_content_items_with_policy ::
  "output_content_item list \<Rightarrow> truncation_policy \<Rightarrow> (unit, output_content_item list \<times> nat option) outcome" where
  "formatted_truncate_text_content_items_with_policy items policy =
     (let text_segments = item_texts items in
      if text_segments = [] then Ok (items, None)
      else let combined = combine_segments text_segments in
        if byte_len combined \<le> byte_budget policy then Ok (items, None)
        else and_then (formatted_truncate_text combined policy) (\<lambda>t.
          Ok (OutInputText t # filter is_image_item items, Some (approx_token_count combined))))"

section \<open>Slices and the split\<close>

lemma utf8_len_pos: "0 < utf8_len c"
  by (simp add: utf8_len_def)

lemma byte_len_simps [simp]: "byte_len [] = 0" "byte_len (c # cs) = utf8_len c + byte_len cs"
  "byte_len (a @ b) = byte_len a + byte_len b"
  by (simp_all add: byte_len_def)

lemma length_le_byte_len: "length s \<le> byte_len s"
proof (induction s)
  case (Cons c s)
  then show ?case using utf8_len_pos [of c] by simp
qed simp

lemma byte_slice_to_prefix: "byte_slice_to (byte_len a) (a @ b) = Ok a"
proof (induction a)
  case Nil
  show ?case by (cases b) simp_all
next
  case (Cons c a)
  then show ?case using utf8_len_pos [of c] by simp
qed

lemma byte_slice_from_suffix: "byte_slice_from (byte_len a) (a @ b) = Ok b"
proof (induction a)
  case Nil
  show ?case by (cases b) simp_all
next
  case (Cons c a)
  then show ?case using utf8_len_pos [of c] by simp
qed

lemma split_loop_suffix:
  "beg \<le> idx \<Longrightarrow> tail \<le> idx \<Longrightarrow> split_loop beg tail idx (pe, ss, rm, True) cs = (pe, ss, rm, True)"
proof (induction cs arbitrary: idx)
  case (Cons c cs)
  then show ?case using utf8_len_pos [of c] by (simp add: Let_def)
qed simp

lemma split_loop_middle:
  assumes "cs = [] \<or> beg < idx + utf8_len (hd cs)" "rm + length cs \<le> USIZE_MAX"
  shows "\<exists>mid suf. cs = mid @ suf \<and> (suf \<noteq> [] \<longrightarrow> tail \<le> idx + byte_len mid) \<and>
    (mid \<noteq> [] \<longrightarrow> idx + byte_len (butlast mid) < tail) \<and>
    split_loop beg tail idx (pe, ss, rm, False) cs =
      (pe, if suf = [] then ss else idx + byte_len mid, rm + length mid, suf \<noteq> [])"
  using assms
proof (induction cs arbitrary: idx rm)
  case (Cons c cs)
  then have after: "beg < idx + utf8_len c" by simp
  show ?case
  proof (cases "tail \<le> idx")
    case True
    then have "split_loop beg tail idx (pe, ss, rm, False) (c # cs) = (pe, idx, rm, True)"
      using after by (simp add: Let_def split_loop_suffix)
    then show ?thesis using True by (intro exI [of _ "[]"] exI [of _ "c # cs"]) simp
  next
    case False
    have "cs = [] \<or> beg < idx + utf8_len c + utf8_len (hd cs)" using after by simp
    then obtain mid suf where "cs = mid @ suf" "suf \<noteq> [] \<longrightarrow> tail \<le> idx + utf8_len c + byte_len mid"
      "mid \<noteq> [] \<longrightarrow> idx + utf8_len c + byte_len (butlast mid) < tail"
      "split_loop beg tail (idx + utf8_len c) (pe, ss, rm + 1, False) cs =
        (pe, if suf = [] then ss else idx + utf8_len c + byte_len mid, rm + 1 + length mid, suf \<noteq> [])"
      using Cons.IH [of "idx + utf8_len c" "rm + 1"] Cons.prems(2) by auto
    moreover have "usize_saturating_add rm 1 = rm + 1"
      using Cons.prems(2) by (simp add: usize_saturating_add_def)
    ultimately show ?thesis
      using False after by (intro exI [of _ "c # mid"] exI [of _ suf]) (simp add: Let_def add.assoc)
  qed
qed simp

lemma split_loop_prefix:
  "\<exists>pre rest. cs = pre @ rest \<and> (pre \<noteq> [] \<longrightarrow> idx + byte_len pre \<le> beg) \<and>
     (rest = [] \<or> beg < idx + byte_len pre + utf8_len (hd rest)) \<and>
     split_loop beg tail idx (pe, ss, rm, False) cs =
       split_loop beg tail (idx + byte_len pre) (if pre = [] then pe else idx + byte_len pre, ss, rm, False) rest"
proof (induction cs arbitrary: idx pe)
  case (Cons c cs)
  show ?case
  proof (cases "idx + utf8_len c \<le> beg")
    case True
    obtain pre rest where "cs = pre @ rest" "pre \<noteq> [] \<longrightarrow> idx + utf8_len c + byte_len pre \<le> beg"
      "rest = [] \<or> beg < idx + utf8_len c + byte_len pre + utf8_len (hd rest)"
      "split_loop beg tail (idx + utf8_len c) (idx + utf8_len c, ss, rm, False) cs =
        split_loop beg tail (idx + utf8_len c + byte_len pre)
          (if pre = [] then idx + utf8_len c else idx + utf8_len c + byte_len pre, ss, rm, False) rest"
      using Cons.IH [of "idx + utf8_len c" "idx + utf8_len c"] by auto
    then show ?thesis
      using True by (intro exI [of _ "c # pre"] exI [of _ rest]) (auto simp: Let_def add.assoc)
  next
    case False
    then show ?thesis by (intro exI [of _ "[]"] exI [of _ "c # cs"]) simp
  qed
qed simp

text \<open>
  The longest beginning of a text, and the longest end of it, that a number of bytes has room for
  without cutting a character.
\<close>

definition longest_prefix :: "nat \<Rightarrow> rstr \<Rightarrow> rstr \<Rightarrow> bool" where
  "longest_prefix n s p \<longleftrightarrow>
     prefix p s \<and> byte_len p \<le> n \<and> (\<forall>q. prefix q s \<and> byte_len q \<le> n \<longrightarrow> prefix q p)"

definition longest_suffix :: "nat \<Rightarrow> rstr \<Rightarrow> rstr \<Rightarrow> bool" where
  "longest_suffix n s p \<longleftrightarrow>
     suffix p s \<and> byte_len p \<le> n \<and> (\<forall>q. suffix q s \<and> byte_len q \<le> n \<longrightarrow> suffix q p)"

lemma longest_prefixI:
  assumes "s = p @ rest" "byte_len p \<le> n" "rest = [] \<or> n < byte_len p + utf8_len (hd rest)"
  shows "longest_prefix n s p"
proof -
  have "prefix q p" if q: "prefix q s" "byte_len q \<le> n" for q
  proof (rule ccontr)
    assume "\<not> prefix q p"
    then obtain z where z: "q = p @ z" "z \<noteq> []"
      using prefix_same_cases [of q s p] q(1) assms(1) by (auto elim!: prefixE)
    then obtain c zs where "z = c # zs" "prefix (c # zs) rest"
      using q(1) assms(1) by (cases z) auto
    then have "hd rest = c" "rest \<noteq> []" by (auto simp: prefix_def)
    then show False using q(2) assms(3) z \<open>z = c # zs\<close> by simp
  qed
  then show ?thesis using assms by (auto simp: longest_prefix_def)
qed

lemma longest_suffixI:
  assumes "s = front @ p" "byte_len p \<le> n" "front = [] \<or> n < utf8_len (last front) + byte_len p"
  shows "longest_suffix n s p"
proof -
  have "suffix q p" if q: "suffix q s" "byte_len q \<le> n" for q
  proof (rule ccontr)
    assume "\<not> suffix q p"
    then obtain z where z: "q = z @ p" "z \<noteq> []"
      using suffix_same_cases [of q s p] q(1) assms(1) by (auto elim!: suffixE simp: suffix_def)
    then obtain c zs where "z = zs @ [c]" by (cases z rule: rev_cases) auto
    moreover have "suffix z front" using q(1) assms(1) z(1) by (auto simp: suffix_def)
    ultimately have "last front = c" "front \<noteq> []" by (auto simp: suffix_def)
    then show False using q(2) assms(3) z \<open>z = zs @ [c]\<close> by simp
  qed
  then show ?thesis using assms by (auto simp: longest_suffix_def suffix_def)
qed

lemma split_string_spec:
  assumes "byte_len s \<le> USIZE_MAX" "beg + end_bytes < byte_len s"
  shows "\<exists>pre mid suf. s = pre @ mid @ suf \<and> longest_prefix beg s pre \<and> longest_suffix end_bytes s suf \<and>
    split_string s beg end_bytes = Ok (length mid, pre, suf)"
proof -
  have nonempty: "s \<noteq> []" using assms(2) by auto
  let ?t = "byte_len s - end_bytes"
  obtain pre rest where pre: "s = pre @ rest" "pre \<noteq> [] \<longrightarrow> byte_len pre \<le> beg"
      "rest = [] \<or> beg < byte_len pre + utf8_len (hd rest)"
      "split_loop beg ?t 0 (0, byte_len s, 0, False) s =
        split_loop beg ?t (byte_len pre) (if pre = [] then 0 else byte_len pre, byte_len s, 0, False) rest"
    using split_loop_prefix [of s 0 beg ?t 0 "byte_len s" 0] unfolding add_0 by blast
  have "length rest \<le> USIZE_MAX" using assms pre(1) length_le_byte_len [of s] by simp
  then obtain mid suf where mid: "rest = mid @ suf" "suf \<noteq> [] \<longrightarrow> ?t \<le> byte_len pre + byte_len mid"
    "mid \<noteq> [] \<longrightarrow> byte_len pre + byte_len (butlast mid) < ?t"
    "split_loop beg ?t (byte_len pre) (if pre = [] then 0 else byte_len pre, byte_len s, 0, False) rest =
      (if pre = [] then 0 else byte_len pre, if suf = [] then byte_len s else byte_len pre + byte_len mid,
       length mid, suf \<noteq> [])"
    using split_loop_middle [of rest beg "byte_len pre" 0 ?t "if pre = [] then 0 else byte_len pre" "byte_len s"]
      pre(3) unfolding add_0 by blast
  have s: "s = pre @ mid @ suf" using pre(1) mid(1) by simp
  then have ends: "(if pre = [] then 0 else byte_len pre) = byte_len pre"
    "(if suf = [] then byte_len s else byte_len pre + byte_len mid) = byte_len (pre @ mid)"
    by auto
  have slices: "byte_slice_to (byte_len pre) s = Ok pre" "(byte_slice_from (byte_len (pre @ mid)) s :: (unit, rstr) outcome) = Ok suf"
    using byte_slice_to_prefix [of pre "mid @ suf"] byte_slice_from_suffix [of "pre @ mid" suf] s by simp_all
  have le: "byte_len suf \<le> end_bytes" "byte_len pre \<le> beg"
    using s mid(2) pre(2) by (cases "suf = []"; cases "pre = []"; auto)+
  have "mid \<noteq> []" using le assms(2) s by auto
  then have "byte_len mid = byte_len (butlast mid) + utf8_len (last mid)"
    by (metis append_butlast_last_id byte_len_simps add_0_right)
  then have "end_bytes < utf8_len (last (pre @ mid)) + byte_len suf"
    using mid(3) \<open>mid \<noteq> []\<close> s by simp
  then have "longest_suffix end_bytes s suf"
    using le(1) s by (intro longest_suffixI [of _ "pre @ mid"]) auto
  moreover have "longest_prefix beg s pre" using le(2) pre by (intro longest_prefixI) auto
  moreover have "split_string s beg end_bytes = Ok (length mid, pre, suf)"
    using nonempty slices pre(4) mid(4) unfolding ends by (simp add: split_string_def Let_def)
  ultimately show ?thesis using s by blast
qed

lemma split_budget_halves: "split_budget n = (n div 2, n - n div 2)"
  by (simp add: split_budget_def Let_def)

lemma longest_empty: "longest_prefix 0 s []" "longest_suffix 0 s []"
proof -
  have "q = []" if "byte_len q \<le> 0" for q using that length_le_byte_len [of q] by simp
  then show "longest_prefix 0 s []" "longest_suffix 0 s []" by (auto simp: longest_prefix_def longest_suffix_def)
qed

lemma truncate_with_byte_estimate_spec:
  assumes "byte_len s \<le> USIZE_MAX"
  shows "(byte_len s \<le> max_bytes \<longrightarrow> truncate_with_byte_estimate s max_bytes use_tokens = Ok s) \<and>
    (max_bytes < byte_len s \<longrightarrow>
      (\<exists>pre mid suf. s = pre @ mid @ suf \<and> longest_prefix (max_bytes div 2) s pre \<and>
         longest_suffix (max_bytes - max_bytes div 2) s suf \<and>
         truncate_with_byte_estimate s max_bytes use_tokens =
           Ok (pre @ format_truncation_marker use_tokens
             (removed_units use_tokens (byte_len s - max_bytes) (length mid)) @ suf)))"
proof (intro conjI impI)
  assume short: "byte_len s \<le> max_bytes"
  have "s = [] \<or> 0 < max_bytes" using short length_le_byte_len [of s] by auto
  with short show "truncate_with_byte_estimate s max_bytes use_tokens = Ok s"
    by (auto simp: truncate_with_byte_estimate_def Let_def)
next
  assume long: "max_bytes < byte_len s"
  then have "s \<noteq> []" by auto
  have "max_bytes div 2 + (max_bytes - max_bytes div 2) < byte_len s" using long by simp
  then obtain pre mid suf where s: "s = pre @ mid @ suf"
    and ends: "longest_prefix (max_bytes div 2) s pre" "longest_suffix (max_bytes - max_bytes div 2) s suf"
    and split: "split_string s (max_bytes div 2) (max_bytes - max_bytes div 2) = Ok (length mid, pre, suf)"
    using split_string_spec [OF assms] by blast
  show "\<exists>pre mid suf. s = pre @ mid @ suf \<and> longest_prefix (max_bytes div 2) s pre \<and>
      longest_suffix (max_bytes - max_bytes div 2) s suf \<and>
      truncate_with_byte_estimate s max_bytes use_tokens =
        Ok (pre @ format_truncation_marker use_tokens
          (removed_units use_tokens (byte_len s - max_bytes) (length mid)) @ suf)"
  proof (cases "max_bytes = 0")
    case True
    with \<open>s \<noteq> []\<close> show ?thesis
      by (intro exI [of _ "[]"] exI [of _ s] exI [of _ "[]"])
        (simp add: truncate_with_byte_estimate_def Let_def longest_empty)
  next
    case False
    then have "truncate_with_byte_estimate s max_bytes use_tokens =
        Ok (pre @ format_truncation_marker use_tokens
          (removed_units use_tokens (byte_len s - max_bytes) (length mid)) @ suf)"
      using long \<open>s \<noteq> []\<close> split
      by (simp add: truncate_with_byte_estimate_def Let_def assemble_truncated_output_def split_budget_halves)
    with s ends show ?thesis by blast
  qed
qed

lemma truncate_no_panic:
  assumes "byte_len s \<le> USIZE_MAX"
  shows "\<exists>r. truncate_with_byte_estimate s max_bytes use_tokens = Ok r"
  using truncate_with_byte_estimate_spec [OF assms, of max_bytes use_tokens]
  by (cases "max_bytes < byte_len s") auto

lemma truncate_text_no_panic: "byte_len s \<le> USIZE_MAX \<Longrightarrow> \<exists>r. truncate_text s policy = Ok r"
proof (cases policy)
  case (BytesPolicy b)
  assume "byte_len s \<le> USIZE_MAX"
  then show ?thesis using truncate_no_panic [of s b False] BytesPolicy by (simp add: truncate_middle_chars_def)
next
  case (TokensPolicy n)
  assume "byte_len s \<le> USIZE_MAX"
  then obtain r where "truncate_with_byte_estimate s (approx_bytes_for_tokens n) True = Ok r"
    using truncate_no_panic by blast
  then show ?thesis
    using TokensPolicy by (auto simp: truncate_middle_with_token_budget_def Let_def)
qed

text \<open>
  (C19) Truncating a text to a byte budget never cuts a character and never panics.  A text within the
  budget is returned as it is.  A longer one keeps the longest beginning that fits into half of the budget
  and the longest end that fits into the rest of it, around a marker that gives the exact number of
  characters between them.
\<close>
theorem truncate_middle_keeps_ends:
  assumes "byte_len s \<le> USIZE_MAX"
  shows "(byte_len s \<le> max_bytes \<longrightarrow> truncate_middle_chars s max_bytes = Ok s) \<and>
    (max_bytes < byte_len s \<longrightarrow>
      (\<exists>pre mid suf. s = pre @ mid @ suf \<and> longest_prefix (max_bytes div 2) s pre \<and>
         longest_suffix (max_bytes - max_bytes div 2) s suf \<and>
         truncate_middle_chars s max_bytes =
           Ok (pre @ [8230] @ decimal (length mid) @ lit '' chars truncated'' @ [8230] @ suf)))"
  using truncate_with_byte_estimate_spec [OF assms, of max_bytes False]
  by (auto simp: truncate_middle_chars_def format_truncation_marker_def removed_units_def)

theorem truncate_middle_keeps_ends_witness:
  "byte_len (lit ''abcdef'') \<le> USIZE_MAX \<and>
   (\<exists>pre mid suf. lit ''abcdef'' = pre @ mid @ suf \<and> longest_prefix 2 (lit ''abcdef'') pre \<and>
      longest_suffix 2 (lit ''abcdef'') suf \<and>
      truncate_middle_chars (lit ''abcdef'') 4 =
        Ok (pre @ [8230] @ decimal (length mid) @ lit '' chars truncated'' @ [8230] @ suf))"
proof -
  have "byte_len (lit ''abcdef'') \<le> USIZE_MAX" "4 < byte_len (lit ''abcdef'')"
    by (simp_all add: utf8_len_def USIZE_MAX_def)
  then show ?thesis using truncate_middle_keeps_ends [of "lit ''abcdef''" 4] by auto
qed

section \<open>Tool outputs\<close>

text \<open>
  Truncating the items of a tool output keeps every image in place.  The texts fall into a beginning
  that is kept as it is and fits the budget, at most one that is shortened, and the rest, which is
  counted in a note at the end.
\<close>

lemma item_texts_append: "item_texts (a @ b) = item_texts a @ item_texts b"
  by (induction a rule: item_texts.induct) simp_all

lemma truncate_items_loop_exhausted:
  "truncate_items_loop policy 0 omitted items =
     Ok (filter is_image_item items, omitted + length (item_texts items))"
  by (induction items arbitrary: omitted rule: item_texts.induct) simp_all

lemma item_texts_images [simp]: "item_texts (filter is_image_item items) = []"
  by (induction items rule: item_texts.induct) simp_all

lemma truncate_items_loop_spec:
  assumes "list_all (\<lambda>t. byte_len t \<le> USIZE_MAX) (item_texts items)"
  shows "\<exists>out n kept short. truncate_items_loop policy budget omitted items = Ok (out, omitted + n) \<and>
    filter is_image_item out = filter is_image_item items \<and>
    item_texts out = kept @ short \<and> prefix kept (item_texts items) \<and> length short \<le> 1 \<and>
    length kept + length short + n = length (item_texts items) \<and>
    sum_list (map (policy_cost policy) kept) \<le> budget"
  using assms
proof (induction items arbitrary: budget omitted rule: item_texts.induct)
  case 1
  show ?case by (intro exI [of _ "[]"] exI [of _ 0]) simp
next
  case (3 url detail items)
  then have "list_all (\<lambda>t. byte_len t \<le> USIZE_MAX) (item_texts items)" by simp
  from "3.IH" [OF this] obtain out n kept short where
    "truncate_items_loop policy budget omitted items = Ok (out, omitted + n)"
    "filter is_image_item out = filter is_image_item items" "item_texts out = kept @ short"
    "prefix kept (item_texts items)" "length short \<le> 1"
    "length kept + length short + n = length (item_texts items)" "sum_list (map (policy_cost policy) kept) \<le> budget"
    by blast
  then show ?case by (intro exI [of _ "OutInputImage url detail # out"] exI [of _ n]) auto
next
  case (2 t items)
  have IH: "\<exists>out n kept short. truncate_items_loop policy b om items = Ok (out, om + n) \<and>
    filter is_image_item out = filter is_image_item items \<and>
    item_texts out = kept @ short \<and> prefix kept (item_texts items) \<and> length short \<le> 1 \<and>
    length kept + length short + n = length (item_texts items) \<and>
    sum_list (map (policy_cost policy) kept) \<le> b" for b om
    using 2 by simp
  consider "budget = 0" | "0 < budget" "policy_cost policy t \<le> budget" | "0 < budget" "budget < policy_cost policy t"
    by linarith
  then show ?case
  proof cases
    case 1
    then show ?thesis
      by (intro exI [of _ "filter is_image_item items"] exI [of _ "Suc (length (item_texts items))"] exI [of _ "[]"])
        (simp add: truncate_items_loop_exhausted)
  next
    case 2
    obtain out n kept short where
      "truncate_items_loop policy (budget - policy_cost policy t) omitted items = Ok (out, omitted + n)"
      "filter is_image_item out = filter is_image_item items" "item_texts out = kept @ short"
      "prefix kept (item_texts items)" "length short \<le> 1"
      "length kept + length short + n = length (item_texts items)"
      "sum_list (map (policy_cost policy) kept) \<le> budget - policy_cost policy t"
      using IH by blast
    with 2 show ?thesis
      by (intro exI [of _ "OutInputText t # out"] exI [of _ n] exI [of _ "t # kept"] exI [of _ short])
        (auto simp: Let_def)
  next
    case 3
    obtain snippet where sn: "truncate_text t (snippet_policy policy budget) = Ok snippet"
      using truncate_text_no_panic [of t] "2.prems" by auto
    show ?thesis
    proof (cases "snippet = []")
      case True
      with 3 sn show ?thesis
        by (intro exI [of _ "filter is_image_item items"] exI [of _ "Suc (length (item_texts items))"] exI [of _ "[]"])
          (simp add: Let_def truncate_items_loop_exhausted)
    next
      case False
      with 3 sn show ?thesis
        by (intro exI [of _ "OutInputText snippet # filter is_image_item items"]
            exI [of _ "length (item_texts items)"] exI [of _ "[]"] exI [of _ "[snippet]"])
          (simp add: Let_def truncate_items_loop_exhausted)
    qed
  qed
qed

text \<open>
  Truncating a tool output never panics and keeps every image in order; its texts fall into a
  beginning kept as it is, which fits the budget, at most one that is shortened, and the rest, whose
  number a note at the end gives exactly.
\<close>
theorem truncate_output_items_accounts:
  assumes "list_all (\<lambda>t. byte_len t \<le> USIZE_MAX) (item_texts items)"
  shows "\<exists>out n kept short.
    truncate_function_output_items_with_policy items policy = Ok (out @ omitted_note n) \<and>
    filter is_image_item out = filter is_image_item items \<and>
    item_texts out = kept @ short \<and> prefix kept (item_texts items) \<and> length short \<le> 1 \<and>
    length kept + length short + n = length (item_texts items) \<and>
    sum_list (map (policy_cost policy) kept) \<le> policy_budget policy"
proof -
  obtain out n kept short where
    loop: "truncate_items_loop policy (policy_budget policy) 0 items = Ok (out, n)" and
    rest: "filter is_image_item out = filter is_image_item items" "item_texts out = kept @ short"
      "prefix kept (item_texts items)" "length short \<le> 1"
      "length kept + length short + n = length (item_texts items)"
      "sum_list (map (policy_cost policy) kept) \<le> policy_budget policy"
    using truncate_items_loop_spec [OF assms, of policy "policy_budget policy" 0] unfolding add_0 by blast
  have "truncate_function_output_items_with_policy items policy = Ok (out @ omitted_note n)"
    by (simp add: truncate_function_output_items_with_policy_def loop)
  with rest show ?thesis by blast
qed

definition sample_output :: "output_content_item list" where
  "sample_output = [OutInputText (lit ''ab''), OutInputImage (lit ''u'') None, OutInputText (lit ''c'')]"

theorem truncate_output_items_accounts_witness:
  "list_all (\<lambda>t. byte_len t \<le> USIZE_MAX) (item_texts sample_output) \<and>
   (\<exists>out n kept short.
      truncate_function_output_items_with_policy sample_output (BytesPolicy 2) = Ok (out @ omitted_note n) \<and>
      filter is_image_item out = filter is_image_item sample_output \<and>
      item_texts out = kept @ short \<and> length kept + length short + n = 2)"
proof -
  have small: "list_all (\<lambda>t. byte_len t \<le> USIZE_MAX) (item_texts sample_output)"
    by (simp add: sample_output_def utf8_len_def USIZE_MAX_def)
  have two: "length (item_texts sample_output) = 2" by (simp add: sample_output_def)
  show ?thesis
    using truncate_output_items_accounts [OF small, of "BytesPolicy 2"] small unfolding two by blast
qed

end
