(* ===== verification/Patch_Runtime.thy ===== *)
theory Patch_Runtime
  imports Patch_Safety Turn_Diff Text_Truncation
begin

text \<open>
  The \<^verbatim>\<open>apply_patch\<close> tool as a whole: its runtime (\<^verbatim>\<open>core/src/tools/runtimes/apply_patch.rs\<close> and
  \<^verbatim>\<open>is_likely_sandbox_denied\<close> of \<^verbatim>\<open>core/src/exec.rs\<close>), the handler
  (\<^verbatim>\<open>core/src/tools/handlers/apply_patch.rs\<close>), which parses and verifies the patch, has it assessed
  and hands it to the orchestrator, and the part of \<^verbatim>\<open>core/src/tools/events.rs\<close> that reports a patch
  and feeds the tracker of the turn's diff.

  The file system of an environment is a parameter that depends on the sandbox it is used under; so are
  the reviewers and the hooks, the \<^verbatim>\<open>similar\<close> crate, the lower case of a text, the number of \<^verbatim>\<open>SIGSYS\<close> and the JSON
  rendering of the answer.  The state of the file system after some attempts is what their replay
  gives: an attempt is the only event of the orchestrator that touches it.

  The theorem puts the parts together: which files can be different after the tool was called, and
  what must have happened for that.
\<close>

section \<open>The runtime\<close>

datatype windows_sandbox_level = LevelDisabled | LevelRestrictedToken | LevelElevated

record fs_sandbox_context =
  context_permissions :: permission_profile
  context_cwd :: "rstr option"
  context_windows_level :: windows_sandbox_level
  context_private_desktop :: bool
  context_legacy_landlock :: bool

record sandbox_attempt =
  attempt_sandbox :: sandbox_type
  attempt_permissions :: permission_profile
  attempt_cwd :: rstr
  attempt_windows_level :: windows_sandbox_level
  attempt_private_desktop :: bool
  attempt_legacy_landlock :: bool

record 's tool_environment =
  environment_id :: rstr
  environment_cwd :: rstr
  environment_fs :: "fs_sandbox_context option \<Rightarrow> 's file_system"

record patch_request =
  request_environment_id :: rstr
  request_action :: patch_action
  request_file_paths :: "rstr list"
  request_changes :: "(rstr \<times> protocol_change) list"
  request_requirement :: approval_requirement
  request_additional_permissions :: "additional_permissions option"
  request_preapproved :: bool

record exec_output =
  exit_code :: int
  stdout_text :: rstr
  stderr_text :: rstr
  aggregated_output :: rstr
  exec_duration_ms :: nat
  timed_out :: bool

definition SANDBOX_DENIED_KEYWORDS :: "rstr list" where
  "SANDBOX_DENIED_KEYWORDS =
     [lit ''operation not permitted'', lit ''permission denied'', lit ''read-only file system'', lit ''seccomp'',
      lit ''sandbox'', lit ''landlock'', lit ''failed to write file'']"

definition is_likely_sandbox_denied :: "(rstr \<Rightarrow> rstr) \<Rightarrow> int option \<Rightarrow> sandbox_type \<Rightarrow> exec_output \<Rightarrow> bool" where
  "is_likely_sandbox_denied to_lowercase sigsys sandbox_type out =
     (if sandbox_type = NoSandbox \<or> exit_code out = 0 then False
      else if list_ex (\<lambda>section. list_ex (\<lambda>needle. contains_str needle (to_lowercase section)) SANDBOX_DENIED_KEYWORDS)
                [stderr_text out, stdout_text out, aggregated_output out] then True
      else if exit_code out \<in> {2, 126, 127} then False
      else (case sigsys of
              Some code \<Rightarrow> sandbox_type = LinuxSeccomp \<and> exit_code out = 128 + code
            | None \<Rightarrow> False))"

definition file_system_sandbox_context_for_attempt ::
  "patch_request \<Rightarrow> sandbox_attempt \<Rightarrow> (unit, fs_sandbox_context option) outcome" where
  "file_system_sandbox_context_for_attempt req attempt =
     (if attempt_sandbox attempt = NoSandbox then Ok None
      else and_then (effective_permission_profile (attempt_permissions attempt) (request_additional_permissions req)) (\<lambda>permissions.
        Ok (Some \<lparr>context_permissions = permissions, context_cwd = Some (attempt_cwd attempt),
          context_windows_level = attempt_windows_level attempt, context_private_desktop = attempt_private_desktop attempt,
          context_legacy_landlock = attempt_legacy_landlock attempt\<rparr>)))"

type_synonym patch_approval_key = "rstr \<times> rstr"

definition approval_keys :: "patch_request \<Rightarrow> patch_approval_key list" where
  "approval_keys req = map (\<lambda>path. (request_environment_id req, path)) (request_file_paths req)"

text \<open>
  The answer of \<^verbatim>\<open>start_approval_async\<close>: of the guardian, when the review is routed to it; else of the
  user, unless the permissions were granted before or the paths were approved for the session.  The last
  component tells whether the user was asked.
\<close>

definition patch_start_approval ::
  "(patch_approval_key \<Rightarrow> rstr option) \<Rightarrow> review_decision option \<Rightarrow> (rstr option \<Rightarrow> review_decision) \<Rightarrow> patch_request \<Rightarrow> rstr option \<Rightarrow>
   approval_store \<Rightarrow> review_decision \<times> approval_store \<times> bool" where
  "patch_start_approval to_json guardian_review user req retry_reason store =
     (case guardian_review of
        Some d \<Rightarrow> (d, store, False)
      | None \<Rightarrow>
          if request_preapproved req \<and> retry_reason = None then (Approved, store, False)
          else case retry_reason of
                 Some reason \<Rightarrow> (user (Some reason), store, True)
               | None \<Rightarrow> with_cached_approval to_json (approval_keys req) (user None) store)"

text \<open>What the runtime and the handler take from their surroundings.\<close>

record runtime_world =
  to_lowercase :: "rstr \<Rightarrow> rstr"
  sigsys_code :: "int option"
  elapsed_ms :: nat
  unified_differ :: differ
  answer_json :: "rstr \<Rightarrow> int \<Rightarrow> nat \<Rightarrow> rstr"
  hook_answers :: "trace \<Rightarrow> hook_decision option"
  review_answers :: "trace \<Rightarrow> review_decision"
  rejection_message :: rstr
  timeout_message :: rstr

text \<open>
  One attempt: the answer, the committed delta of the runtime so far and the file system.  The delta of
  the answer is the committed one.
\<close>

definition patch_runtime_run ::
  "'z sandbox_env_scheme \<Rightarrow> runtime_world \<Rightarrow> 's tool_environment \<Rightarrow> patch_request \<Rightarrow> sandbox_attempt \<Rightarrow> applied_patch_delta \<times> 's \<Rightarrow>
   (unit, (exec_output tool_error + exec_output) \<times> applied_patch_delta \<times> 's) outcome" where
  "patch_runtime_run env w e req attempt cs =
     (case cs of (committed_delta, s) \<Rightarrow>
      and_then (file_system_sandbox_context_for_attempt req attempt) (\<lambda>sandbox.
        case apply_patch (environment_fs e sandbox) path_parent (resolver (home_dir env) (action_cwd (request_action req)))
               vec_writer (action_patch (request_action req)) [] [] s of
          (result, stdout, stderr, s) \<Rightarrow>
            if result = Panic then Panic
            else let failed = (case result of Err _ \<Rightarrow> True | _ \<Rightarrow> False);
                     committed_delta = delta_append committed_delta (result_delta result);
                     out = \<lparr>exit_code = (if failed then 1 else 0), stdout_text = stdout, stderr_text = stderr,
                       aggregated_output = stdout @ stderr, exec_duration_ms = elapsed_ms w, timed_out = False\<rparr>
                 in if failed \<and> is_likely_sandbox_denied (to_lowercase w) (sigsys_code w) (attempt_sandbox attempt) out
                    then Ok (Inl (SandboxDenied out None), committed_delta, s)
                    else Ok (Inr out, committed_delta, s)))"

section \<open>Reporting\<close>

datatype tool_event_stage =
    StageBegin
  | StageSuccess exec_output "applied_patch_delta option"
  | StageOutput exec_output
  | StageMessage rstr
  | StageRejected rstr "applied_patch_delta option"

datatype tracker_update = TrackDelta applied_patch_delta | InvalidateTracker | KeepTracker

datatype patch_apply_status = PatchCompleted | PatchFailed | PatchDeclined

definition tracker_update_for_known_delta :: "applied_patch_delta \<Rightarrow> tracker_update" where
  "tracker_update_for_known_delta d = (if exact d \<and> changes d = [] then KeepTracker else TrackDelta d)"

definition status_of_exit :: "exec_output \<Rightarrow> patch_apply_status" where
  "status_of_exit out = (if exit_code out = 0 then PatchCompleted else PatchFailed)"

text \<open>What \<^verbatim>\<open>emit\<close> passes to \<^verbatim>\<open>emit_patch_end\<close>: the two outputs, the status and the tracker's update.\<close>

fun patch_end_of_stage :: "tool_event_stage \<Rightarrow> (rstr \<times> rstr \<times> patch_apply_status \<times> tracker_update) option" where
  "patch_end_of_stage StageBegin = None"
| "patch_end_of_stage (StageSuccess out d) =
     Some (stdout_text out, stderr_text out, status_of_exit out,
       (case d of Some d \<Rightarrow> tracker_update_for_known_delta d | None \<Rightarrow> InvalidateTracker))"
| "patch_end_of_stage (StageOutput out) = Some (stdout_text out, stderr_text out, status_of_exit out, InvalidateTracker)"
| "patch_end_of_stage (StageMessage msg) = Some ([], msg, PatchFailed, KeepTracker)"
| "patch_end_of_stage (StageRejected msg d) =
     Some ([], msg, PatchDeclined, (case d of Some d \<Rightarrow> tracker_update_for_known_delta d | None \<Rightarrow> KeepTracker))"

fun update_tracker :: "tracker_update \<Rightarrow> turn_diff_tracker \<Rightarrow> turn_diff_tracker \<times> bool" where
  "update_tracker (TrackDelta d) t = (track_delta d t, True)"
| "update_tracker InvalidateTracker t = (invalidate t, True)"
| "update_tracker KeepTracker t = (t, False)"

text \<open>The new tracker and the diff that is sent, if one is.\<close>

definition emit_turn_diff :: "diff_tools \<Rightarrow> tracker_update \<Rightarrow> turn_diff_tracker \<Rightarrow> turn_diff_tracker \<times> rstr option" where
  "emit_turn_diff tools update t =
     (let previous_diff = get_unified_diff tools t;
          (t', tracker_changed) = update_tracker update t;
          unified_diff = get_unified_diff tools t'
      in (t', if tracker_changed \<and> (previous_diff \<noteq> None \<or> unified_diff \<noteq> None) then Some (unwrap_or [] unified_diff) else None))"

definition build_content_with_timeout :: "exec_output \<Rightarrow> rstr" where
  "build_content_with_timeout out =
     (if timed_out out
      then lit ''command timed out after '' @ decimal (exec_duration_ms out) @ lit '' milliseconds'' @ [newline] @ aggregated_output out
      else aggregated_output out)"

definition format_exec_output_str :: "exec_output \<Rightarrow> truncation_policy \<Rightarrow> (unit, rstr) outcome" where
  "format_exec_output_str out policy = formatted_truncate_text (build_content_with_timeout out) policy"

text \<open>\<open>to_json\<close> renders the output, the exit code and the seconds, rounded to a tenth, that the milliseconds make.\<close>

definition format_exec_output_for_model_structured ::
  "(rstr \<Rightarrow> int \<Rightarrow> nat \<Rightarrow> rstr) \<Rightarrow> truncation_policy \<Rightarrow> exec_output \<Rightarrow> (unit, rstr) outcome" where
  "format_exec_output_for_model_structured to_json policy out =
     and_then (format_exec_output_str out policy) (\<lambda>formatted_output. Ok (to_json formatted_output (exit_code out) (exec_duration_ms out)))"

text \<open>\<^verbatim>\<open>ToolEmitter::finish\<close> for a patch; the runtime has no timeouts.\<close>

definition patch_emitter_finish ::
  "(rstr \<Rightarrow> int \<Rightarrow> nat \<Rightarrow> rstr) \<Rightarrow> truncation_policy \<Rightarrow> exec_output tool_error + exec_output \<Rightarrow> applied_patch_delta option \<Rightarrow>
   (unit, tool_event_stage \<times> (rstr + rstr)) outcome" where
  "patch_emitter_finish to_json policy out d =
     (case out of
        Inr out \<Rightarrow>
          and_then (format_exec_output_for_model_structured to_json policy out) (\<lambda>content.
            Ok (StageSuccess out d, if exit_code out = 0 then Inr content else Inl content))
      | Inl (SandboxDenied out _) \<Rightarrow>
          and_then (format_exec_output_for_model_structured to_json policy out) (\<lambda>response.
            Ok (case d of Some delta \<Rightarrow> StageSuccess out (Some delta) | None \<Rightarrow> StageOutput out, Inl response))
      | Inl (tool_error.OtherError err) \<Rightarrow>
          (let msg = lit ''execution error: '' @ err in Ok (StageMessage msg, Inl msg))
      | Inl (Rejected msg) \<Rightarrow>
          (let normalized = (if msg = lit ''rejected by user'' then lit ''patch rejected by user'' else msg)
           in Ok (StageRejected normalized d, Inl normalized)))"

section \<open>The handler\<close>

datatype tool_payload = FunctionPayload rstr | ToolSearchPayload rstr | CustomPayload rstr | LocalShellPayload "rstr list"

record 's patch_turn =
  turn_environments :: "'s tool_environment list"
  multi_environment :: bool
  turn_approval_policy :: ask_for_approval
  turn_profile :: permission_profile
  turn_cwd :: rstr
  turn_windows_level :: windows_sandbox_level
  turn_private_desktop :: bool
  turn_legacy_landlock :: bool
  turn_truncation :: truncation_policy
  granted_session_permissions :: "additional_permissions option"
  granted_turn_permissions :: "additional_permissions option"
  turn_settings :: turn_context

definition orchestrator_turn :: "'s patch_turn \<Rightarrow> turn_context" where
  "orchestrator_turn t =
     (turn_settings t)\<lparr>turn_file_system_policy := file_system_sandbox_policy (turn_profile t),
       turn_network_policy := network_sandbox_policy_of (turn_profile t),
       windows_sandbox_enabled := (turn_windows_level t \<noteq> LevelDisabled)\<rparr>"

definition require_environment_id :: "rstr option \<Rightarrow> bool \<Rightarrow> rstr + rstr option" where
  "require_environment_id parsed_environment_id allow_environment_id =
     (case parsed_environment_id of
        Some eid \<Rightarrow> if \<not> allow_environment_id then Inl (lit ''apply_patch environment selection is unavailable for this turn'') else Inr (Some eid)
      | None \<Rightarrow> Inr None)"

definition primary :: "'s tool_environment list \<Rightarrow> 's tool_environment option" where
  "primary es = (case es of [] \<Rightarrow> None | e # _ \<Rightarrow> Some e)"

definition resolve_tool_environment :: "'s tool_environment list \<Rightarrow> rstr option \<Rightarrow> rstr + 's tool_environment option" where
  "resolve_tool_environment es eid =
     (case eid of
        None \<Rightarrow> Inr (primary es)
      | Some eid \<Rightarrow>
          (case List.find (\<lambda>e. environment_id e = eid) es of
             Some e \<Rightarrow> Inr (Some e)
           | None \<Rightarrow> Inl (lit ''unknown turn environment id `'' @ eid @ lit ''`'')))"

definition turn_file_system_sandbox_context ::
  "'s patch_turn \<Rightarrow> additional_permissions option \<Rightarrow> (unit, fs_sandbox_context) outcome" where
  "turn_file_system_sandbox_context t additional =
     (let (base_file_system, base_network) = to_runtime_permissions (turn_profile t) in
      and_then (from_runtime_permissions_with_enforcement (profile_enforcement (turn_profile t))
                 (effective_file_system_sandbox_policy base_file_system additional)
                 (effective_network_sandbox_policy base_network additional)) (\<lambda>permissions.
        Ok \<lparr>context_permissions = permissions, context_cwd = Some (turn_cwd t), context_windows_level = turn_windows_level t,
            context_private_desktop = turn_private_desktop t, context_legacy_landlock = turn_legacy_landlock t\<rparr>))"

text \<open>The attempt the orchestrator makes in a sandbox; the working directory is that of the action.\<close>

definition attempt_in :: "'s patch_turn \<Rightarrow> patch_request \<Rightarrow> sandbox_type \<Rightarrow> sandbox_attempt" where
  "attempt_in t req sandbox =
     \<lparr>attempt_sandbox = sandbox, attempt_permissions = turn_profile t, attempt_cwd = action_cwd (request_action req),
      attempt_windows_level = turn_windows_level t, attempt_private_desktop = turn_private_desktop t,
      attempt_legacy_landlock = turn_legacy_landlock t\<rparr>"

fun replay_attempts ::
  "'z sandbox_env_scheme \<Rightarrow> runtime_world \<Rightarrow> 's patch_turn \<Rightarrow> 's tool_environment \<Rightarrow> patch_request \<Rightarrow> trace \<Rightarrow> applied_patch_delta \<times> 's \<Rightarrow>
   (unit, applied_patch_delta \<times> 's) outcome" where
  "replay_attempts env w t e req [] cs = Ok cs"
| "replay_attempts env w t e req (Attempted sandbox # tr) cs =
     and_then (patch_runtime_run env w e req (attempt_in t req sandbox) cs) (\<lambda>(_, cs). replay_attempts env w t e req tr cs)"
| "replay_attempts env w t e req (_ # tr) cs = replay_attempts env w t e req tr cs"

text \<open>
  The runtime as the orchestrator sees it.  An attempt that panics ends the call, as the replay of the
  whole trace does then; what the attempt is taken to answer does not matter.
\<close>

definition patch_tool_world ::
  "'z sandbox_env_scheme \<Rightarrow> runtime_world \<Rightarrow> 's patch_turn \<Rightarrow> 's tool_environment \<Rightarrow> patch_request \<Rightarrow> 's \<Rightarrow> exec_output tool_world" where
  "patch_tool_world env w t e req s =
     \<lparr>exec_approval_requirement = Some (request_requirement req), tool_sandbox_permissions = UseDefault,
      sandbox_preference = PreferAuto, escalate_on_failure = True,
      tool_wants_no_sandbox_approval = patch_wants_no_sandbox_approval, has_permission_request_payload = True,
      run_permission_request_hooks = hook_answers w, start_approval = review_answers w,
      tool_run = (\<lambda>tr sandbox.
        case and_then (replay_attempts env w t e req tr (empty_delta, s)) (patch_runtime_run env w e req (attempt_in t req sandbox)) of
          Ok (r, _) \<Rightarrow> r
        | _ \<Rightarrow> Inl (tool_error.OtherError [])),
      begin_network_approval = (\<lambda>_. None), finish_network_approval = (\<lambda>_. None),
      guardian_rejection_message = rejection_message w, guardian_timeout_message = timeout_message w\<rparr>"

text \<open>What a call comes to: the last event, the answer to the model, what the orchestrator did, the committed delta and the files.\<close>

type_synonym 's patch_result = "tool_event_stage option \<times> (rstr + rstr) \<times> trace \<times> applied_patch_delta \<times> 's"

definition patch_request_for ::
  "'s tool_environment \<Rightarrow> runtime_invocation \<Rightarrow> rstr list \<Rightarrow> effective_additional_permissions \<Rightarrow> patch_request" where
  "patch_request_for e apply file_paths effective =
     \<lparr>request_environment_id = environment_id e, request_action = invocation_action apply, request_file_paths = file_paths,
      request_changes = convert_apply_patch_to_protocol (invocation_action apply),
      request_requirement = invocation_requirement apply,
      request_additional_permissions = eff_additional_permissions effective,
      request_preapproved = permissions_preapproved effective\<rparr>"

definition delegate_to_runtime ::
  "'z sandbox_env_scheme \<Rightarrow> runtime_world \<Rightarrow> 's patch_turn \<Rightarrow> 's tool_environment \<Rightarrow> patch_request \<Rightarrow> 's \<Rightarrow> (unit, 's patch_result) outcome" where
  "delegate_to_runtime env w t e req s =
     (case orchestrator_run (patch_tool_world env w t e req s) (orchestrator_turn t) (turn_approval_policy t) [] of
        (out, tr) \<Rightarrow>
          and_then (replay_attempts env w t e req tr (empty_delta, s)) (\<lambda>(d, s).
            and_then (patch_emitter_finish (answer_json w) (turn_truncation t)
                       (case out of Inl err \<Rightarrow> Inl err | Inr (result, _) \<Rightarrow> Inr result) (Some d)) (\<lambda>(stage, content).
              Ok (Some stage, content, tr, d, s))))"

definition run_verified_patch ::
  "'z sandbox_env_scheme \<Rightarrow> runtime_world \<Rightarrow> 's patch_turn \<Rightarrow> 's tool_environment \<Rightarrow> patch_action \<Rightarrow> rstr \<Rightarrow> 's \<Rightarrow> (unit, 's patch_result) outcome" where
  "run_verified_patch env w t e action cwd s =
     and_then (effective_patch_permissions env (granted_session_permissions t) (granted_turn_permissions t)
                (file_system_sandbox_policy (turn_profile t)) action cwd) (\<lambda>(file_paths, effective, pol).
       case apply_patch_decision env (turn_os (turn_settings t)) (turn_approval_policy t) (turn_profile t)
              (turn_windows_level t \<noteq> LevelDisabled) pol action of
         InvocationOutput item \<Rightarrow> Ok (None, item, [], empty_delta, s)
       | DelegateToRuntime apply \<Rightarrow> delegate_to_runtime env w t e (patch_request_for e apply file_paths effective) s)"

definition respond :: "'s \<Rightarrow> rstr \<Rightarrow> (unit, 's patch_result) outcome" where
  "respond s msg = Ok (None, Inl msg, [], empty_delta, s)"

definition answer_verified ::
  "'z sandbox_env_scheme \<Rightarrow> runtime_world \<Rightarrow> 's patch_turn \<Rightarrow> 's tool_environment \<Rightarrow> 's \<Rightarrow> maybe_verified \<Rightarrow> (unit, 's patch_result) outcome" where
  "answer_verified env w t e s v =
     (case v of
        VerifiedBody action \<Rightarrow> run_verified_patch env w t e action (environment_cwd e) s
      | CorrectnessError err \<Rightarrow> respond s (lit ''apply_patch verification failed: '' @ display_patch_error err)
      | VerifiedShellParseError _ \<Rightarrow> respond s (lit ''apply_patch handler received invalid patch input'')
      | VerifiedNotApplyPatch \<Rightarrow> respond s (lit ''apply_patch handler received non-apply_patch input''))"

definition handle_parsed_patch ::
  "'z sandbox_env_scheme \<Rightarrow> runtime_world \<Rightarrow> 's patch_turn \<Rightarrow> 's tool_environment \<Rightarrow> apply_patch_args \<Rightarrow> 's \<Rightarrow> (unit, 's patch_result) outcome" where
  "handle_parsed_patch env w t e args s =
     and_then (turn_file_system_sandbox_context t None) (\<lambda>sandbox.
       and_then (verify_apply_patch_args (home_dir env) (unified_differ w)
                  (environment_fs e (Some (sandbox\<lparr>context_cwd := Some (environment_cwd e)\<rparr>))) s args (environment_cwd e))
         (answer_verified env w t e s))"

definition apply_patch_handle ::
  "'z sandbox_env_scheme \<Rightarrow> runtime_world \<Rightarrow> 's patch_turn \<Rightarrow> tool_payload \<Rightarrow> 's \<Rightarrow> (unit, 's patch_result) outcome" where
  "apply_patch_handle env w t payload s =
     (case payload of
        CustomPayload input \<Rightarrow>
          (case parse_patch input of
             Err err \<Rightarrow> respond s (lit ''apply_patch verification failed: '' @ display_parse_error err)
           | Panic \<Rightarrow> Panic
           | Ok args \<Rightarrow>
               (case require_environment_id (args_environment_id args) (multi_environment t) of
                  Inl err \<Rightarrow> respond s err
                | Inr eid \<Rightarrow>
                    (case resolve_tool_environment (turn_environments t) eid of
                       Inl err \<Rightarrow> respond s err
                     | Inr None \<Rightarrow> respond s (lit ''apply_patch is unavailable in this session'')
                     | Inr (Some e) \<Rightarrow> handle_parsed_patch env w t e args s)))
      | _ \<Rightarrow> respond s (lit ''apply_patch handler received unsupported payload''))"

text \<open>
  A shell command that is an invocation of \<^verbatim>\<open>apply_patch\<close> is taken over; the answer is absent when it
  is none.  The callers pass the file system of the environment.
\<close>

definition intercept_apply_patch ::
  "'z sandbox_env_scheme \<Rightarrow> runtime_world \<Rightarrow> bash_query \<Rightarrow> 's patch_turn \<Rightarrow> 's tool_environment \<Rightarrow> rstr list \<Rightarrow> rstr \<Rightarrow> 's \<Rightarrow>
   (unit, 's patch_result option) outcome" where
  "intercept_apply_patch env w q t e command cwd s =
     and_then (turn_file_system_sandbox_context t None) (\<lambda>sandbox.
       and_then (maybe_parse_apply_patch_verified q (home_dir env) (unified_differ w)
                  (environment_fs e (Some (sandbox\<lparr>context_cwd := Some cwd\<rparr>))) s command cwd) (\<lambda>v.
         case v of
           VerifiedBody action \<Rightarrow> and_then (run_verified_patch env w t e action cwd s) (\<lambda>r. Ok (Some r))
         | CorrectnessError err \<Rightarrow>
             and_then (respond s (lit ''apply_patch verification failed: '' @ display_patch_error err)) (\<lambda>r. Ok (Some r))
         | VerifiedShellParseError _ \<Rightarrow> Ok None
         | VerifiedNotApplyPatch \<Rightarrow> Ok None))"

section \<open>What a call can change\<close>

definition confined_to :: "('s \<Rightarrow> rstr \<Rightarrow> rstr option) \<Rightarrow> 'z sandbox_env_scheme \<Rightarrow> patch_action \<Rightarrow> rstr set \<Rightarrow> bool" where
  "confined_to view env a T \<longleftrightarrow>
     (\<forall>fs out err r out' err' s s'. local_on view fs \<longrightarrow>
        apply_patch fs path_parent (resolver (home_dir env) (action_cwd a)) vec_writer (action_patch a) out err s = (r, out', err', s') \<longrightarrow>
        unchanged_outside view T s s')"

text \<open>An attempt is one application of the patch, and its delta is committed.\<close>

lemma runtime_run_applies:
  assumes "patch_runtime_run env w e req attempt (d, s) = Ok (r, d', s')"
  obtains sandbox r1 out err where "apply_patch (environment_fs e sandbox) path_parent
      (resolver (home_dir env) (action_cwd (request_action req))) vec_writer (action_patch (request_action req)) [] [] s = (r1, out, err, s')"
    "d' = delta_append d (result_delta r1)" "\<And>m. r \<noteq> Inl (tool_error.OtherError m)"
proof -
  obtain sandbox where "file_system_sandbox_context_for_attempt req attempt = Ok sandbox"
    using assms by (auto simp: patch_runtime_run_def outcome_simps)
  moreover obtain r1 out err s1 where run: "apply_patch (environment_fs e sandbox) path_parent
      (resolver (home_dir env) (action_cwd (request_action req))) vec_writer (action_patch (request_action req)) [] [] s = (r1, out, err, s1)"
    by (metis prod_cases4)
  ultimately have "s' = s1" "d' = delta_append d (result_delta r1)" "\<And>m. r \<noteq> Inl (tool_error.OtherError m)"
    using assms by (auto simp: patch_runtime_run_def Let_def split: if_splits)
  with run that show ?thesis by blast
qed

lemma runtime_run_frame:
  assumes "patch_runtime_run env w e req attempt (d, s) = Ok (r, d', s')" "\<And>sandbox. local_on view (environment_fs e sandbox)"
    "confined_to view env (request_action req) T"
  shows "unchanged_outside view T s s'"
proof -
  from assms(1) obtain sandbox r1 out err where "apply_patch (environment_fs e sandbox) path_parent
      (resolver (home_dir env) (action_cwd (request_action req))) vec_writer (action_patch (request_action req)) [] [] s = (r1, out, err, s')"
    by (rule runtime_run_applies)
  with assms(3) [unfolded confined_to_def] assms(2) show ?thesis by blast
qed

lemma replay_frame:
  assumes "replay_attempts env w t e req tr (d, s) = Ok (d', s')" "\<And>sandbox. local_on view (environment_fs e sandbox)"
    "confined_to view env (request_action req) T"
  shows "unchanged_outside view T s s' \<and> (list_all (\<lambda>e. \<not> is_attempt e) tr \<longrightarrow> s' = s)"
  using assms(1)
proof (induction tr arbitrary: d s)
  case (Cons ev tr)
  show ?case
  proof (cases "\<exists>sandbox. ev = Attempted sandbox")
    case True
    then obtain sandbox r d1 s1 where ev: "ev = Attempted sandbox"
      and step: "patch_runtime_run env w e req (attempt_in t req sandbox) (d, s) = Ok (r, d1, s1)"
      and rest: "replay_attempts env w t e req tr (d1, s1) = Ok (d', s')"
      using Cons.prems by (auto simp: outcome_simps)
    from Cons.IH [OF rest] runtime_run_frame [OF step assms(2,3)] show ?thesis using ev by (auto intro: unchanged_trans)
  next
    case False
    with Cons show ?thesis by (cases ev) auto
  qed
qed simp

text \<open>A patch that needs an approval and is attempted has one.\<close>

lemma delegated_attempt_approved:
  assumes "delegate_to_runtime env w t e req s = Ok (stage, content, tr, d, s')" "request_requirement req = NeedsApproval r a"
  shows "list_all (\<lambda>e. \<not> is_attempt e) tr \<or> list_ex approves tr"
proof -
  obtain out where run: "orchestrator_run (patch_tool_world env w t e req s) (orchestrator_turn t) (turn_approval_policy t) [] = (out, tr)"
    using assms(1) by (auto simp: delegate_to_runtime_def outcome_simps split: prod.splits)
  have "needs_ask (orchestrator_turn t) (requirement_of (patch_tool_world env w t e req s) (orchestrator_turn t) (turn_approval_policy t))"
    by (simp add: requirement_of_def patch_tool_world_def unwrap_or_def assms(2) needs_ask_def)
  with run show ?thesis
    by (cases rule: orchestrator_trace [OF run]) (auto simp: patch_tool_world_def)
qed

lemma verified_confined:
  assumes "parse_patch patch = Ok args" "single_returns patch"
    "verify_apply_patch_args (home_dir env) diff fs0 s0 args cwd = Ok (VerifiedBody a)"
  shows "confined_to view env a (patch_targets (home_dir env) (action_cwd a) (args_hunks args))"
  unfolding confined_to_def
proof (intro allI impI)
  fix fs out err r out' err' s s'
  assume "local_on view fs"
    "apply_patch fs path_parent (resolver (home_dir env) (action_cwd a)) vec_writer (action_patch a) out err s = (r, out', err', s')"
  then show "unchanged_outside view (patch_targets (home_dir env) (action_cwd a) (args_hunks args)) s s'"
    using verified_frame [OF assms(1,2), where workdir = "args_workdir args"] assms(3) by simp
qed

abbreviation granted_policy :: "'s patch_turn \<Rightarrow> fs_policy" where
  "granted_policy t \<equiv> effective_file_system_sandbox_policy (file_system_sandbox_policy (turn_profile t))
     (merge_permission_profiles (granted_session_permissions t) (granted_turn_permissions t))"

abbreviation auto_approved_in :: "'z sandbox_env_scheme \<Rightarrow> 's patch_turn \<Rightarrow> patch_action \<Rightarrow> bool" where
  "auto_approved_in env t a \<equiv> \<exists>sandbox. assess_patch_safety env (turn_os (turn_settings t)) a (turn_approval_policy t) (turn_profile t)
     (granted_policy t) (action_cwd a) (turn_windows_level t \<noteq> LevelDisabled) = AutoApprove sandbox False"

lemma run_verified_changes:
  assumes "run_verified_patch env w t e a cwd s = Ok (stage, content, tr, d, s')" "confined_to view env a T"
    "\<And>sandbox. local_on view (environment_fs e sandbox)" "view s' q \<noteq> view s q"
  shows "q \<in> T \<and> (list_ex approves tr \<or> auto_approved_in env t a)"
proof -
  let ?decision = "apply_patch_decision env (turn_os (turn_settings t)) (turn_approval_policy t) (turn_profile t)
      (turn_windows_level t \<noteq> LevelDisabled) (granted_policy t) a"
  have "s' \<noteq> s" using assms(4) by auto
  then obtain file_paths effective inv where dec: "?decision = DelegateToRuntime inv"
    and run: "delegate_to_runtime env w t e (patch_request_for e inv file_paths effective) s = Ok (stage, content, tr, d, s')"
    using assms(1)
    by (cases ?decision) (auto simp: run_verified_patch_def effective_patch_permissions_def Let_def outcome_simps)
  let ?req = "patch_request_for e inv file_paths effective"
  have a: "request_action ?req = a" and req: "auto_approved_in env t a \<or> request_requirement ?req = NeedsApproval None None"
    using dec by (auto simp: apply_patch_decision_def patch_request_for_def assess_patch_safety_def
        split: safety_check.splits if_splits permission_profile.splits option.splits)
  have "replay_attempts env w t e ?req tr (empty_delta, s) = Ok (d, s')"
    using run by (auto simp: delegate_to_runtime_def outcome_simps split: prod.splits)
  from replay_frame [OF this assms(3), of T] assms(2) a
  have frame: "unchanged_outside view T s s'" "list_all (\<lambda>e. \<not> is_attempt e) tr \<Longrightarrow> s' = s" by auto
  have "q \<in> T" using frame(1) assms(4) by (auto simp: unchanged_outside_def)
  moreover have "list_ex approves tr" if "request_requirement ?req = NeedsApproval None None"
    using delegated_attempt_approved [OF run that] frame(2) \<open>s' \<noteq> s\<close> by blast
  ultimately show ?thesis using req by blast
qed

lemma parse_patch_workdir: "parse_patch patch = Ok args \<Longrightarrow> args_workdir args = None"
  by (auto simp: parse_patch_def PARSE_IN_STRICT_MODE_def parse_patch_text_def Let_def outcome_simps split: prod.splits)

lemma environment_of_turn: "resolve_tool_environment es eid = Inr (Some e) \<Longrightarrow> e \<in> set es"
  by (auto simp: resolve_tool_environment_def primary_def find_Some_iff split: option.splits list.splits)

lemma handle_parsed_cases:
  assumes "handle_parsed_patch env w t e args s = Ok r"
  obtains (run) sandbox a where "verify_apply_patch_args (home_dir env) (unified_differ w)
      (environment_fs e (Some (sandbox\<lparr>context_cwd := Some (environment_cwd e)\<rparr>))) s args (environment_cwd e) = Ok (VerifiedBody a)"
      "run_verified_patch env w t e a (environment_cwd e) s = Ok r"
  | (refused) msg where "respond s msg = Ok r"
proof -
  obtain sandbox v where v: "verify_apply_patch_args (home_dir env) (unified_differ w)
      (environment_fs e (Some (sandbox\<lparr>context_cwd := Some (environment_cwd e)\<rparr>))) s args (environment_cwd e) = Ok v"
    and answer: "answer_verified env w t e s v = Ok r"
    using assms unfolding handle_parsed_patch_def and_then_Ok_iff by blast
  then show ?thesis by (cases v) (auto simp: answer_verified_def intro: that)
qed

text \<open>
  (C6) Which files a call of \<^verbatim>\<open>apply_patch\<close> with a patch that parses and has no line ending in two carriage
  returns can change, whatever the sandboxes, the attempts and their failures, the hooks and the reviewers do: the
  targets of its hunks in one of the environments of the turn.  And if its hunks are on different files, a file
  that did change is one that the permissions of the turn, with what was granted, allow to write, unless
  someone approved the patch before or the policy is \<^verbatim>\<open>on-failure\<close>.  The working directories of the
  environments are absolute, and an operation of their file systems changes only the file it is on.
\<close>
theorem handled_patch_confined:
  assumes "apply_patch_handle env w t (CustomPayload patch) s = Ok (stage, content, tr, d, s')"
    "parse_patch patch = Ok args" "single_returns patch"
    "\<And>e. e \<in> set (turn_environments t) \<Longrightarrow> is_absolute (environment_cwd e) \<and> (\<forall>sandbox. local_on view (environment_fs e sandbox))"
    "view s' q \<noteq> view s q"
  shows "\<exists>e\<in>set (turn_environments t).
    q \<in> patch_targets (home_dir env) (environment_cwd e) (args_hunks args) \<and>
    (distinct (map (resolve_path (resolver (home_dir env) (environment_cwd e))) (args_hunks args)) \<longrightarrow>
      list_ex approves tr \<or> turn_approval_policy t = OnFailure \<or>
      can_write_path_with_cwd env (granted_policy t) q (environment_cwd e))"
proof -
  have "s' \<noteq> s" using assms(5) by auto
  then obtain e where e: "e \<in> set (turn_environments t)"
    and handled: "handle_parsed_patch env w t e args s = Ok (stage, content, tr, d, s')"
    using assms(1,2) environment_of_turn
    by (auto simp: apply_patch_handle_def respond_def split: sum.splits option.splits)
  obtain sandbox a where v: "verify_apply_patch_args (home_dir env) (unified_differ w)
      (environment_fs e (Some (sandbox\<lparr>context_cwd := Some (environment_cwd e)\<rparr>))) s args (environment_cwd e) = Ok (VerifiedBody a)"
    and run: "run_verified_patch env w t e a (environment_cwd e) s = Ok (stage, content, tr, d, s')"
    using handled \<open>s' \<noteq> s\<close> by (cases rule: handle_parsed_cases [OF handled]) (auto simp: respond_def)
  have cwd: "action_cwd a = environment_cwd e"
    using verified_action(2) [OF v] parse_patch_workdir [OF assms(2)] by simp
  note env_ok = assms(4) [OF e]
  from run_verified_changes [where view = view and q = q, OF run verified_confined [OF assms(2,3) v] _ assms(5)] env_ok
  have q: "q \<in> patch_targets (home_dir env) (environment_cwd e) (args_hunks args)" and
    cases: "list_ex approves tr \<or> auto_approved_in env t a"
    by (simp_all add: cwd)
  from cases show ?thesis
  proof
    assume "auto_approved_in env t a"
    with auto_approved_targets [OF v] env_ok q e show ?thesis unfolding cwd by blast
  qed (use q e in blast)
qed

definition work_environment :: "mem_state tool_environment" where
  "work_environment = \<lparr>environment_id = lit ''local'', environment_cwd = lit ''/w'', environment_fs = (\<lambda>_. mem_fs Map.empty)\<rparr>"

definition open_turn :: "mem_state patch_turn" where
  "open_turn =
     \<lparr>turn_environments = [work_environment], multi_environment = False, turn_approval_policy = OnRequest, turn_profile = Disabled,
      turn_cwd = lit ''/w'', turn_windows_level = LevelDisabled, turn_private_desktop = False, turn_legacy_landlock = False,
      turn_truncation = BytesPolicy 1000, granted_session_permissions = None, granted_turn_permissions = None,
      turn_settings = linux_turn\<rparr>"

definition quiet_world :: runtime_world where
  "quiet_world =
     \<lparr>to_lowercase = to_ascii_lowercase, sigsys_code = Some 31, elapsed_ms = 0, unified_differ = (\<lambda>_ _ _. []),
      answer_json = (\<lambda>t _ _. t), hook_answers = (\<lambda>_. None), review_answers = (\<lambda>_. Denied),
      rejection_message = [], timeout_message = []\<rparr>"

definition deleted_files :: mem_state where
  "deleted_files = work_files\<lparr>mem_files := (mem_files work_files)(lit ''/w/a'' := None)\<rparr>"

lemma unrestricted_writable: "can_write_path_with_cwd env unrestricted p cwd"
  by (simp add: can_write_path_with_cwd_def resolve_access_with_cwd_def unrestricted_def can_write_def has_full_disk_write_access_def)

lemma open_turn_permissions:
  "effective_patch_permissions work_env None None (file_system_sandbox_policy Disabled) delete_action (lit ''/w'') =
     Ok ([lit ''/w/a''], \<lparr>eff_sandbox_permissions = UseDefault, eff_additional_permissions = None, permissions_preapproved = False\<rparr>, unrestricted)"
proof -
  have "file_paths_for_action work_env delete_action = [lit ''/w/a'']"
    by (simp add: file_paths_for_action_def delete_action_def to_abs_path_def work_env_def path_eval)
  moreover have "write_permissions_for_paths work_env ps unrestricted cwd = None" for ps cwd
    by (simp add: write_permissions_for_paths_def unrestricted_writable path_set_def sorted_absolute_paths_def)
  ultimately show ?thesis
    by (simp add: effective_patch_permissions_def merge_permission_profiles_def effective_file_system_sandbox_policy_def
        apply_granted_turn_permissions_def del: lit_simps)
qed

definition delete_request :: patch_request where
  "delete_request = patch_request_for work_environment
     \<lparr>invocation_action = delete_action, auto_approved = True, invocation_requirement = Skip False None\<rparr> [lit ''/w/a'']
     \<lparr>eff_sandbox_permissions = UseDefault, eff_additional_permissions = None, permissions_preapproved = False\<rparr>"

definition delete_delta :: applied_patch_delta where
  "delete_delta = \<lparr>changes = [\<lparr>change_path = lit ''/w/a'', change = Delete (lit ''old'' @ [newline])\<rparr>], exact = True\<rparr>"

lemma delete_attempt:
  "\<exists>out. exit_code out = 0 \<and> aggregated_output out = lit ''Success. Updated the following files:'' @ [newline] @ lit ''D a'' @ [newline] \<and> timed_out out = False \<and>
     patch_runtime_run work_env quiet_world work_environment delete_request (attempt_in open_turn delete_request NoSandbox) (empty_delta, work_files) =
     Ok (Inr out, delete_delta, deleted_files)"
  using vec_work_delete [of path_parent]
  by (simp add: patch_runtime_run_def file_system_sandbox_context_for_attempt_def attempt_in_def delete_request_def patch_request_for_def
      work_environment_def delete_action_def work_env_def deleted_files_def delete_delta_def delta_append_def empty_delta_def Let_def del: lit_simps)

lemma delete_orchestrated:
  "\<exists>out. orchestrator_run (patch_tool_world work_env quiet_world open_turn work_environment delete_request work_files)
      (orchestrator_turn open_turn) OnRequest [] = (Inr (out, False), [Attempted NoSandbox]) \<and>
     byte_len (build_content_with_timeout out) \<le> 1000"
proof -
  obtain out where out: "aggregated_output out = lit ''Success. Updated the following files:'' @ [newline] @ lit ''D a'' @ [newline]"
      "\<not> timed_out out"
      "patch_runtime_run work_env quiet_world work_environment delete_request (attempt_in open_turn delete_request NoSandbox) (empty_delta, work_files) =
        Ok (Inr out, delete_delta, deleted_files)"
    using delete_attempt by blast
  have "initial_sandbox (patch_tool_world work_env quiet_world open_turn work_environment delete_request work_files) (orchestrator_turn open_turn)
      (Skip False None) = NoSandbox"
    by (simp add: initial_sandbox_def patch_tool_world_def orchestrator_turn_def open_turn_def linux_turn_def unrestricted_def
        sandbox_override_for_first_attempt_def select_initial_def should_require_platform_sandbox_def network_is_enabled_def
        requires_escalated_permissions_def)
  moreover have "byte_len (build_content_with_timeout out) \<le> 1000"
    using out(1,2) by (simp add: build_content_with_timeout_def utf8_len_def)
  ultimately show ?thesis
    using out(3)
    by (simp add: orchestrator_run_def patch_tool_world_def delete_request_def patch_request_for_def unwrap_or_def approval_phase_def
        orchestrator_turn_def open_turn_def linux_turn_def run_attempt_def Let_def)
qed

lemma open_turn_simps:
  "turn_environments open_turn = [work_environment]" "\<not> multi_environment open_turn" "turn_approval_policy open_turn = OnRequest"
  "turn_profile open_turn = Disabled" "turn_windows_level open_turn = LevelDisabled" "turn_truncation open_turn = BytesPolicy 1000"
  "granted_session_permissions open_turn = None" "granted_turn_permissions open_turn = None" "turn_os (turn_settings open_turn) = Linux"
  "environment_cwd work_environment = lit ''/w''" "environment_fs work_environment sandbox = mem_fs Map.empty" "home_dir work_env = None"
  "action_cwd delete_action = lit ''/w''" "action_changes delete_action \<noteq> []"
  by (simp_all add: open_turn_def linux_turn_def work_environment_def work_env_def delete_action_def del: lit_simps)

lemma delete_decision:
  "apply_patch_decision work_env Linux OnRequest Disabled False unrestricted delete_action =
     DelegateToRuntime \<lparr>invocation_action = delete_action, auto_approved = True, invocation_requirement = Skip False None\<rparr>"
proof -
  have "is_write_patch_constrained_to_writable_paths work_env delete_action unrestricted (lit ''/w'')"
    by (simp add: is_write_patch_constrained_to_writable_paths_def delete_action_def patch_path_writable_def safety_normalize_def
        unrestricted_writable del: lit_simps)
  then show ?thesis
    by (simp add: apply_patch_decision_def assess_patch_safety_def open_turn_simps del: lit_simps)
qed

lemma delegate_delete:
  "\<exists>stage content. delegate_to_runtime work_env quiet_world open_turn work_environment delete_request work_files =
     Ok (Some stage, content, [Attempted NoSandbox], delete_delta, deleted_files)"
proof -
  obtain out where run: "orchestrator_run (patch_tool_world work_env quiet_world open_turn work_environment delete_request work_files)
      (orchestrator_turn open_turn) OnRequest [] = (Inr (out, False), [Attempted NoSandbox])"
    and short: "byte_len (build_content_with_timeout out) \<le> 1000" using delete_orchestrated by blast
  obtain r where attempt: "patch_runtime_run work_env quiet_world work_environment delete_request
      (attempt_in open_turn delete_request NoSandbox) (empty_delta, work_files) = Ok (r, delete_delta, deleted_files)" using delete_attempt by blast
  have "format_exec_output_for_model_structured (answer_json quiet_world) (BytesPolicy 1000) out =
      Ok (answer_json quiet_world (build_content_with_timeout out) (exit_code out) (exec_duration_ms out))"
    using short by (simp add: format_exec_output_for_model_structured_def format_exec_output_str_def formatted_truncate_text_def)
  with run attempt show ?thesis
    by (simp add: delegate_to_runtime_def patch_emitter_finish_def open_turn_simps)
qed

lemma handle_delete:
  "\<exists>stage content. apply_patch_handle work_env quiet_world open_turn (CustomPayload delete_patch) work_files =
     Ok (Some stage, content, [Attempted NoSandbox], delete_delta, deleted_files)"
proof -
  have "run_verified_patch work_env quiet_world open_turn work_environment delete_action (lit ''/w'') work_files =
      delegate_to_runtime work_env quiet_world open_turn work_environment delete_request work_files"
    using open_turn_permissions delete_decision by (simp add: run_verified_patch_def delete_request_def open_turn_simps del: lit_simps)
  moreover have "\<exists>sandbox. turn_file_system_sandbox_context open_turn None = Ok sandbox"
    using from_runtime_total by (simp add: turn_file_system_sandbox_context_def to_runtime_permissions_def outcome_simps) blast
  moreover have "delete_args\<lparr>args_workdir := None\<rparr> = delete_args" "args_environment_id delete_args = None" by (simp_all add: delete_args_def)
  ultimately show ?thesis
    using delegate_delete verify_delete [of "unified_differ quiet_world"]
    by (auto simp: apply_patch_handle_def parse_patch_delete require_environment_id_def resolve_tool_environment_def primary_def
        handle_parsed_patch_def answer_verified_def open_turn_simps simp del: lit_simps)
qed

theorem handled_patch_confined_witness:
  "\<exists>e\<in>set (turn_environments open_turn).
    lit ''/w/a'' \<in> patch_targets (home_dir work_env) (environment_cwd e) (args_hunks delete_args) \<and>
    can_write_path_with_cwd work_env (granted_policy open_turn) (lit ''/w/a'') (environment_cwd e)"
proof -
  obtain stage content where run: "apply_patch_handle work_env quiet_world open_turn (CustomPayload delete_patch) work_files =
      Ok (Some stage, content, [Attempted NoSandbox], delete_delta, deleted_files)" using handle_delete by blast
  note delete_patch_returns
  moreover have "is_absolute (environment_cwd e) \<and> (\<forall>sandbox. local_on (text_view (mem_fs Map.empty)) (environment_fs e sandbox))"
    if "e \<in> set (turn_environments open_turn)" for e
    using that mem_fs_local by (simp add: open_turn_simps) (simp add: is_absolute_def)
  moreover have "text_view (mem_fs Map.empty) deleted_files (lit ''/w/a'') \<noteq> text_view (mem_fs Map.empty) work_files (lit ''/w/a'')"
    by (simp add: text_view_def mem_fs_def work_files_def deleted_files_def)
  ultimately show ?thesis
    using handled_patch_confined [OF run parse_patch_delete, of "text_view (mem_fs Map.empty)" "lit ''/w/a''"]
    by (simp add: open_turn_simps delete_args_def del: lit_simps)
qed

section \<open>The diff of the turn after a call\<close>

lemma obtain_approval_error: "obtain_approval w g r hooks tr = (Inl e, tr') \<Longrightarrow> \<exists>m. e = Rejected m"
proof -
  have "reject_if_not_approved w g d = Inl e \<Longrightarrow> \<exists>m. e = Rejected m" for d
  proof (cases d)
    case (NetworkPolicyAmendment h a)
    then show "reject_if_not_approved w g d = Inl e \<Longrightarrow> \<exists>m. e = Rejected m" by (cases a) auto
  qed auto
  then show "obtain_approval w g r hooks tr = (Inl e, tr') \<Longrightarrow> \<exists>m. e = Rejected m"
    by (auto simp: obtain_approval_def request_approval_def Let_def split: option.splits hook_decision.splits if_splits sum.splits)
qed

text \<open>An error of the orchestrator that is none of a reviewer and none of the sandbox is the answer of the last attempt.\<close>

lemma orchestrator_other_error:
  assumes "orchestrator_run w tc policy tr0 = (Inl (tool_error.OtherError m), tr)" "\<And>tr. begin_network_approval w tr = None"
  obtains tr1 sandbox where "tr = tr1 @ [Attempted sandbox]" "tool_run w tr1 sandbox = Inl (tool_error.OtherError m)"
proof -
  have attempt: "run_attempt w sandbox tr = (tool_run w tr sandbox, False, tr @ [Attempted sandbox])" for sandbox tr
    by (simp add: run_attempt_def assms(2))
  have phase: "approval_phase w tc req tr \<noteq> (Inl (tool_error.OtherError m), tr')" for req tr tr'
    by (auto simp: approval_phase_def split: approval_requirement.split prod.split sum.split dest: obtain_approval_error)
  have esc: "\<exists>tr1 sandbox. tr' = tr1 @ [Attempted sandbox] \<and> tool_run w tr1 sandbox = Inl (tool_error.OtherError m)"
    if "escalated_attempt w tc policy ap out ctx tr = (Inl (tool_error.OtherError m), tr')" for ap out ctx tr tr'
    using that
    by (auto simp: escalated_attempt_def attempt Let_def split: prod.splits sum.splits if_splits dest: obtain_approval_error)
  have "\<exists>tr1 sandbox. tr = tr1 @ [Attempted sandbox] \<and> tool_run w tr1 sandbox = Inl (tool_error.OtherError m)"
    using assms(1)
    by (auto simp: orchestrator_run_def attempt Let_def phase dest: esc split: prod.splits sum.splits tool_error.splits if_splits)
  with that show ?thesis by blast
qed

lemma replay_attempts_append:
  "replay_attempts env w t e req (tr @ tr') cs = and_then (replay_attempts env w t e req tr cs) (replay_attempts env w t e req tr')"
proof (induction tr arbitrary: cs)
  case (Cons ev tr)
  then show ?case by (cases ev; cases "patch_runtime_run env w e req (attempt_in t req (case ev of Attempted sb \<Rightarrow> sb)) cs") auto
qed simp

lemma delegated_stage:
  assumes "delegate_to_runtime env w t e req s = Ok (Some stage, content, tr, d, s')"
  shows "(\<exists>out. stage = StageSuccess out (Some d)) \<or> (\<exists>m. stage = StageRejected m (Some d))"
proof -
  let ?w = "patch_tool_world env w t e req s"
  obtain out where run: "orchestrator_run ?w (orchestrator_turn t) (turn_approval_policy t) [] = (out, tr)"
    and replayed: "replay_attempts env w t e req tr (empty_delta, s) = Ok (d, s')"
    and fin: "patch_emitter_finish (answer_json w) (turn_truncation t) (case out of Inl err \<Rightarrow> Inl err | Inr (result, _) \<Rightarrow> Inr result) (Some d) =
      Ok (stage, content)"
    using assms by (auto simp: delegate_to_runtime_def outcome_simps split: prod.splits)
  have "out \<noteq> Inl (tool_error.OtherError m)" for m
  proof
    assume "out = Inl (tool_error.OtherError m)"
    moreover have "begin_network_approval ?w tr = None" for tr by (simp add: patch_tool_world_def)
    ultimately obtain tr1 sandbox where tr: "tr = tr1 @ [Attempted sandbox]" and err: "tool_run ?w tr1 sandbox = Inl (tool_error.OtherError m)"
      using run orchestrator_other_error [of ?w] by metis
    then obtain d1 s1 r where before: "replay_attempts env w t e req tr1 (empty_delta, s) = Ok (d1, s1)"
      and attempt: "patch_runtime_run env w e req (attempt_in t req sandbox) (d1, s1) = Ok (r, d, s')"
      using replayed by (auto simp: replay_attempts_append outcome_simps)
    have "r = Inl (tool_error.OtherError m)" using err before attempt by (simp add: patch_tool_world_def)
    with attempt show False by (metis runtime_run_applies)
  qed
  with fin show ?thesis
    by (cases out) (auto simp: patch_emitter_finish_def outcome_simps Let_def split: tool_error.splits)
qed

text \<open>The files that are described do not depend on the sandbox they are read under.\<close>

definition plain_environment :: "('s \<Rightarrow> rstr \<Rightarrow> rstr option) \<Rightarrow> 's tool_environment \<Rightarrow> bool" where
  "plain_environment view e \<longleftrightarrow> (\<forall>sandbox. lawful (environment_fs e sandbox) \<and> text_view (environment_fs e sandbox) = view)"

definition tells :: "('s \<Rightarrow> rstr \<Rightarrow> rstr option) \<Rightarrow> (rstr \<rightharpoonup> rstr) \<Rightarrow> applied_patch_delta \<times> 's \<Rightarrow> bool" where
  "tells view v cs \<longleftrightarrow> (case cs of (d, s) \<Rightarrow> exact d \<longrightarrow> view s = replay (changes d) v \<and> truthful (changes d) v)"

lemma replay_tells:
  assumes "replay_attempts env w t e req tr cs = Ok cs'" "plain_environment view e" "tells view v cs"
  shows "tells view v cs'"
  using assms(1,3)
proof (induction tr arbitrary: cs)
  case (Cons ev tr)
  show ?case
  proof (cases "\<exists>sandbox. ev = Attempted sandbox")
    case True
    then obtain sandbox d s r d1 s1 where cs: "cs = (d, s)"
      and step: "patch_runtime_run env w e req (attempt_in t req sandbox) (d, s) = Ok (r, d1, s1)"
      and rest: "replay_attempts env w t e req tr (d1, s1) = Ok cs'"
      using Cons.prems(1) by (cases cs) (auto simp: outcome_simps)
    from step obtain sb r1 out err where run: "apply_patch (environment_fs e sb) path_parent
        (resolver (home_dir env) (action_cwd (request_action req))) vec_writer (action_patch (request_action req)) [] [] s = (r1, out, err, s1)"
      and d1: "d1 = delta_append d (result_delta r1)" by (rule runtime_run_applies)
    have "lawful (environment_fs e sb)" "text_view (environment_fs e sb) = view" using assms(2) by (auto simp: plain_environment_def)
    with apply_patch_accounts [OF _ run] Cons.prems(2) have "tells view v (d1, s1)"
      by (auto simp: tells_def cs d1 accounts_def delta_append_def truthful_append)
    with Cons.IH [OF rest] show ?thesis .
  next
    case False
    with Cons show ?thesis by (cases ev) auto
  qed
qed simp

lemma handled_delegates:
  assumes "apply_patch_handle env w t (CustomPayload patch) s = Ok (Some stage, content, tr, d, s')"
  obtains e req where "e \<in> set (turn_environments t)" "delegate_to_runtime env w t e req s = Ok (Some stage, content, tr, d, s')"
proof -
  obtain e args where e: "e \<in> set (turn_environments t)" "handle_parsed_patch env w t e args s = Ok (Some stage, content, tr, d, s')"
    using assms
    by (auto simp: apply_patch_handle_def respond_def split: sum.splits option.splits outcome.splits dest!: environment_of_turn)
  then obtain a where "run_verified_patch env w t e a (environment_cwd e) s = Ok (Some stage, content, tr, d, s')"
    by (cases rule: handle_parsed_cases [OF e(2)]) (auto simp: respond_def)
  then have "\<exists>req. delegate_to_runtime env w t e req s = Ok (Some stage, content, tr, d, s')"
    by (auto simp: run_verified_patch_def outcome_simps split: internal_invocation.splits) (metis internal_invocation.exhaust)
  with e(1) that show ?thesis by blast
qed

lemma known_delta_update:
  assumes "tracker_ok k" "describes k v0 v" "list_all (\<lambda>c. tidy (change c) (change_path c)) (changes d)"
    "exact d \<Longrightarrow> v' = replay (changes d) v \<and> truthful (changes d) v"
    "update_tracker (tracker_update_for_known_delta d) k = (k', changed)"
  shows "valid k' = (valid k \<and> exact d) \<and> (valid k' \<longrightarrow> tracker_ok k' \<and> describes k' v0 v')"
proof (cases "exact d \<and> changes d = []")
  case True
  with assms show ?thesis by (simp add: tracker_update_for_known_delta_def)
next
  case False
  then have "k' = track_delta d k" using assms(5) by (auto simp: tracker_update_for_known_delta_def split: if_splits)
  with assms(4) track_changes_describe [OF assms(1-3)] show ?thesis by (auto simp: track_delta_def invalidate_def)
qed

text \<open>
  (C16) The diff of the turn keeps up with the calls of the tool, as long as no change of the delta moves a
  file onto itself.  However such a call ended, completely, half way, denied by the sandbox and tried again, or
  refused by a reviewer after a first attempt had committed a part of the patch: the report of the call leaves
  a tracker that describes the files as they are now, or one that is not valid, and it is valid exactly if it was
  and the delta is exact.  (The changes are on normalised paths, and each environment's file system is the plain one
  of the model.)
\<close>
theorem tracker_follows_call:
  assumes "apply_patch_handle env w t (CustomPayload patch) s = Ok (Some stage, content, tr, d, s')"
    "\<And>e. e \<in> set (turn_environments t) \<Longrightarrow> plain_environment view e"
    "tracker_ok k" "describes k v0 (view s)" "list_all (\<lambda>c. tidy (change c) (change_path c)) (changes d)"
    "patch_end_of_stage stage = Some (stdout, stderr, status, update)" "emit_turn_diff tools update k = (k', sent)"
  shows "valid k' = (valid k \<and> exact d) \<and> (valid k' \<longrightarrow> tracker_ok k' \<and> describes k' v0 (view s'))"
proof -
  obtain e req where e: "e \<in> set (turn_environments t)" "delegate_to_runtime env w t e req s = Ok (Some stage, content, tr, d, s')"
    by (rule handled_delegates [OF assms(1)])
  then have "replay_attempts env w t e req tr (empty_delta, s) = Ok (d, s')"
    by (auto simp: delegate_to_runtime_def outcome_simps split: prod.splits)
  from replay_tells [OF this assms(2) [OF e(1)], of "view s"] have "exact d \<Longrightarrow> view s' = replay (changes d) (view s) \<and> truthful (changes d) (view s)"
    by (simp add: tells_def empty_delta_def)
  moreover have "update = tracker_update_for_known_delta d" using delegated_stage [OF e(2)] assms(6) by auto
  then obtain changed where "update_tracker (tracker_update_for_known_delta d) k = (k', changed)"
    using assms(7) by (auto simp: emit_turn_diff_def Let_def split: prod.splits)
  ultimately show ?thesis using known_delta_update [OF assms(3-5)] by blast
qed

theorem tracker_follows_call_witness:
  "\<exists>k. valid k \<and> tracker_ok k \<and> describes k (text_view (mem_fs Map.empty) work_files) (text_view (mem_fs Map.empty) deleted_files)"
proof -
  obtain stage content where run: "apply_patch_handle work_env quiet_world open_turn (CustomPayload delete_patch) work_files =
      Ok (Some stage, content, [Attempted NoSandbox], delete_delta, deleted_files)" using handle_delete by blast
  then obtain e req where "delegate_to_runtime work_env quiet_world open_turn e req work_files =
      Ok (Some stage, content, [Attempted NoSandbox], delete_delta, deleted_files)" by (rule handled_delegates)
  from delegated_stage [OF this] obtain out err status update where upd: "patch_end_of_stage stage = Some (out, err, status, update)"
    by (cases stage) auto
  obtain k sent where emit: "emit_turn_diff plain_tools update new_tracker = (k, sent)" by fastforce
  have plain: "plain_environment (text_view (mem_fs Map.empty)) e" if "e \<in> set (turn_environments open_turn)" for e
    using that mem_fs_lawful by (simp add: open_turn_simps plain_environment_def)
  have "normal_path (lit ''/w/a'')"
    using resolve_path_normal [of "lit ''/w''" None "DeleteFile (lit ''a'')"] by (simp add: work_paths is_absolute_def del: lit_simps) simp
  then have delta: "list_all (\<lambda>c. tidy (change c) (change_path c)) (changes delete_delta)" "exact delete_delta"
    by (simp_all add: delete_delta_def del: lit_simps)
  from tracker_follows_call [OF run plain new_tracker_describes delta(1) upd emit] delta(2)
  have "valid k \<and> tracker_ok k \<and> describes k (text_view (mem_fs Map.empty) work_files) (text_view (mem_fs Map.empty) deleted_files)"
    by (simp add: new_tracker_def)
  then show ?thesis ..
qed

section \<open>Calls that end early\<close>

text \<open>
  A call that is refused before it comes to the runtime (a payload of another kind, a patch that does
  not parse, an environment that is not there, a patch that does not fit the files, one that the
  approval settings rule out) changes no file, asks nobody, attempts nothing, reports no
  event and answers with an error.
\<close>
theorem refused_call_changes_nothing:
  assumes "apply_patch_handle env w t payload s = Ok (None, answer, tr, d, s')"
  shows "s' = s \<and> tr = [] \<and> d = empty_delta \<and> (\<exists>msg. answer = Inl msg)"
proof -
  have delegate: "delegate_to_runtime env w t e req s \<noteq> Ok (None, r)" for e req r
    by (auto simp: delegate_to_runtime_def outcome_simps split: prod.splits)
  have verified: "s' = s \<and> tr = [] \<and> d = empty_delta \<and> (\<exists>msg. answer = Inl msg)"
    if "run_verified_patch env w t e a cwd s = Ok (None, answer, tr, d, s')" for e a cwd
    using that delegate
    by (auto simp: run_verified_patch_def apply_patch_decision_def outcome_simps split: internal_invocation.splits safety_check.splits)
  have parsed: "s' = s \<and> tr = [] \<and> d = empty_delta \<and> (\<exists>msg. answer = Inl msg)"
    if "handle_parsed_patch env w t e args s = Ok (None, answer, tr, d, s')" for e args
    using verified by (cases rule: handle_parsed_cases [OF that]) (auto simp: respond_def)
  show ?thesis
    using assms parsed
    by (auto simp: apply_patch_handle_def respond_def split: tool_payload.splits outcome.splits sum.splits option.splits)
qed

theorem refused_call_changes_nothing_witness:
  "\<exists>answer. apply_patch_handle work_env quiet_world open_turn (FunctionPayload []) work_files = Ok (None, answer, [], empty_delta, work_files) \<and>
     (\<exists>msg. answer = Inl msg)"
  using refused_call_changes_nothing [of work_env quiet_world open_turn "FunctionPayload []" work_files]
  by (simp add: apply_patch_handle_def respond_def)

lemma apply_patch_returns: "fst (apply_patch fs parent resolve writeln patch out err s) \<noteq> Panic"
proof (cases "parse_patch patch")
  case (Ok args)
  have "fst (apply_hunks fs parent resolve writeln hs out err s) \<noteq> Panic" for hs
    using apply_hunks_to_files_no_panic [of fs parent resolve hs empty_delta s]
    by (auto simp: apply_hunks_def Let_def split: prod.splits outcome.splits option.splits)
  with Ok show ?thesis by (simp add: apply_patch_def)
next
  case (Err e)
  then show ?thesis by (auto simp: apply_patch_def Let_def split: prod.splits option.splits)
next
  case Panic
  then show ?thesis using parse_patch_not_Panic by metis
qed

text \<open>
  (C32) An attempt always comes to an end with an answer, whatever the patch, the permissions and the file
  system: the conversion of the permissions does not reach its \<^verbatim>\<open>unreachable!\<close>, and the patch is
  applied or fails.  Without a sandbox the answer is an output, never a denial, so that there is
  no third attempt; and the delta of the attempt is added to what was committed before.
\<close>
theorem attempt_returns:
  "\<exists>r d' s'. patch_runtime_run env w e req attempt (d, s) = Ok (r, d', s') \<and>
     prefix (changes d) (changes d') \<and> (if attempt_sandbox attempt = NoSandbox then \<exists>out. r = Inr out else True)"
proof -
  obtain sandbox where ctx: "file_system_sandbox_context_for_attempt req attempt = Ok sandbox"
  proof -
    obtain p where "effective_permission_profile (attempt_permissions attempt) (request_additional_permissions req) = Ok p"
      unfolding effective_permission_profile_def Let_def case_prod_beta using from_runtime_total by meson
    then show ?thesis
      by (cases "attempt_sandbox attempt = NoSandbox") (simp_all add: file_system_sandbox_context_for_attempt_def that)
  qed
  obtain r1 out err s1 where run: "apply_patch (environment_fs e sandbox) path_parent
      (resolver (home_dir env) (action_cwd (request_action req))) vec_writer (action_patch (request_action req)) [] [] s = (r1, out, err, s1)"
    by (metis prod_cases4)
  have "r1 \<noteq> Panic"
    using apply_patch_returns [of "environment_fs e sandbox" path_parent "resolver (home_dir env) (action_cwd (request_action req))"
        vec_writer "action_patch (request_action req)" "[]" "[]" s] run by simp
  with ctx run show ?thesis
    by (auto simp: patch_runtime_run_def Let_def delta_append_def is_likely_sandbox_denied_def)
qed

end
