(* ===== verification/Chat_Stream.thy ===== *)
theory Chat_Stream
  imports Protocol_Items
begin

text \<open>
  The streaming side of the Chat Completions client,
  \<^verbatim>\<open>codex-rs/codex-api/src/sse/chat_completions.rs\<close>: server-sent events become the response events
  of the agent.  \<open>chat_stream_state\<close> is \<^verbatim>\<open>ChatCompletionsStreamState\<close>; the methods that push to
  \<^verbatim>\<open>events\<close> take and return the state with the events.  \<open>json_of\<close> and \<open>chunk_of\<close> stand for
  \<^verbatim>\<open>serde_json::from_str\<close> at \<^verbatim>\<open>Value\<close> and at \<^verbatim>\<open>ChatCompletionChunk\<close>; a poll of the event stream is
  an event, an error, the end, or a timeout; \<open>rx_open\<close> says, from what has been sent, whether the
  receiver still listens.

  The promise of the component is a protocol of events, stated as an automaton: items are
  announced before their deltas, the finished message carries exactly the text that was streamed,
  and nothing follows the completion.  The lemmas show by simulation that every run follows it, and
  that the tool calls reported at the end are the ones the chunks spell out.
\<close>

section \<open>State and events\<close>

datatype response_event =
    Created
  | OutputItemDone response_item
  | OutputItemAdded response_item
  | ServerModel rstr
  | ServerReasoningIncluded bool
  | Completed rstr "token_usage option" "bool option"
  | OutputTextDelta rstr
  | ToolCallInputDelta rstr "rstr option" rstr
  | ReasoningSummaryDelta rstr int
  | ReasoningContentDelta rstr int
  | ReasoningSummaryPartAdded int
  | ModelsEtag rstr

datatype api_error = StreamError rstr

record tool_call_state =
  ts_id :: "rstr option"
  ts_name :: "rstr option"
  ts_arguments :: rstr
  ts_added :: bool
  ts_streamed_input_len :: nat

definition default_tool_call :: tool_call_state where
  "default_tool_call = \<lparr>ts_id = None, ts_name = None, ts_arguments = [], ts_added = False,
     ts_streamed_input_len = 0\<rparr>"

record chat_stream_state =
  response_id :: "rstr option"
  content :: rstr
  reasoning_content :: rstr
  tool_calls :: "(nat \<times> tool_call_state) list"
  usage :: "token_usage option"
  message_started :: bool
  message_done :: bool
  reasoning_started :: bool
  reasoning_done :: bool
  completed :: bool

definition default_stream_state :: chat_stream_state where
  "default_stream_state = \<lparr>response_id = None, content = [], reasoning_content = [], tool_calls = [],
     usage = None, message_started = False, message_done = False, reasoning_started = False,
     reasoning_done = False, completed = False\<rparr>"

type_synonym stream_step = "chat_stream_state \<times> response_event list"

section \<open>Usage\<close>

text \<open>\<^verbatim>\<open>tokens as i64\<close> of a \<^verbatim>\<open>u64\<close> reads the same bits as a signed number.\<close>

definition to_i64 :: "64 word option \<Rightarrow> int" where
  "to_i64 v = (case v of Some tokens \<Rightarrow> sint tokens | None \<Rightarrow> 0)"

definition usage_from :: "chat_usage \<Rightarrow> token_usage" where
  "usage_from v = \<lparr>
     input_tokens = to_i64 (prompt_tokens v),
     cached_input_tokens = to_i64 (prompt_cache_hit_tokens v),
     output_tokens = to_i64 (completion_tokens v),
     reasoning_output_tokens = to_i64 (Option.bind (details_reasoning_tokens v) (\<lambda>r. r)),
     usage_total_tokens = to_i64 (total_tokens v)\<rparr>"

section \<open>Announcing and finishing items\<close>

definition assistant_message :: "content_item list \<Rightarrow> response_item" where
  "assistant_message items = Message None (lit ''assistant'') items (Some FinalAnswer)"

definition reasoning_item :: "reasoning_item_content list option \<Rightarrow> response_item" where
  "reasoning_item c = Reasoning (lit ''deepseek_reasoning'') [] c None"

definition ensure_message_started :: "stream_step \<Rightarrow> stream_step" where
  "ensure_message_started = (\<lambda>(st, events).
     if message_started st then (st, events)
     else (st\<lparr>message_started := True\<rparr>, events @ [OutputItemAdded (assistant_message [])]))"

definition ensure_reasoning_started :: "stream_step \<Rightarrow> stream_step" where
  "ensure_reasoning_started = (\<lambda>(st, events).
     if reasoning_started st then (st, events)
     else (st\<lparr>reasoning_started := True\<rparr>, events @ [OutputItemAdded (reasoning_item None)]))"

definition finish_message :: "stream_step \<Rightarrow> stream_step" where
  "finish_message = (\<lambda>(st, events).
     if message_done st \<or> content st = [] then (st, events)
     else (st\<lparr>message_done := True\<rparr>,
           events @ [OutputItemDone (assistant_message [OutputText (content st)])]))"

definition finish_reasoning :: "stream_step \<Rightarrow> stream_step" where
  "finish_reasoning = (\<lambda>(st, events).
     if reasoning_done st \<or> reasoning_content st = [] then (st, events)
     else (st\<lparr>reasoning_done := True\<rparr>,
           events @ [OutputItemDone (reasoning_item (Some [ReasoningText (reasoning_content st)]))]))"

section \<open>Tool calls\<close>

definition apply_patch_input :: "(rstr \<Rightarrow> rstr + json) \<Rightarrow> rstr \<Rightarrow> rstr option" where
  "apply_patch_input json_of arguments =
     (case json_of arguments of
        Inl _ \<Rightarrow> None
      | Inr v \<Rightarrow> Option.bind (json_get APPLY_PATCH_INPUT_FIELD v) json_as_str)"

text \<open>The delta, and the new \<^verbatim>\<open>streamed_input_len\<close>.\<close>

definition apply_patch_delta ::
  "(rstr \<Rightarrow> rstr + json) \<Rightarrow> rstr \<Rightarrow> nat \<Rightarrow> (api_error, rstr \<times> nat) outcome" where
  "apply_patch_delta json_of arguments streamed_input_len =
     (case apply_patch_input json_of arguments of
        None \<Rightarrow> Ok ([], streamed_input_len)
      | Some input \<Rightarrow>
          if byte_len input \<le> streamed_input_len then Ok ([], streamed_input_len)
          else and_then (byte_slice_from streamed_input_len input) (\<lambda>delta. Ok (delta, byte_len input)))"

text \<open>The identity and the name of the call, then its announcement.\<close>

definition tool_call_header :: "chat_tool_call_delta \<Rightarrow> tool_call_state \<Rightarrow> tool_call_state" where
  "tool_call_header tc ts =
     (let ts = (case td_id tc of Some i \<Rightarrow> ts\<lparr>ts_id := Some i\<rparr> | None \<Rightarrow> ts) in
      case td_function tc of
        None \<Rightarrow> ts
      | Some f \<Rightarrow> (case fd_name f of Some n \<Rightarrow> ts\<lparr>ts_name := Some n\<rparr> | None \<Rightarrow> ts))"

definition announce_apply_patch :: "nat \<Rightarrow> tool_call_state \<Rightarrow> tool_call_state \<times> response_event list" where
  "announce_apply_patch index ts =
     (if ts_name ts = Some APPLY_PATCH_TOOL_NAME \<and> \<not> ts_added ts
      then (ts\<lparr>ts_added := True\<rparr>,
            [OutputItemAdded (CustomToolCall None None
               (case ts_id ts of Some i \<Rightarrow> i | None \<Rightarrow> decimal index) APPLY_PATCH_TOOL_NAME [])])
      else (ts, []))"

text \<open>Appending a piece of the arguments, and the delta event for it.\<close>

definition append_arguments ::
  "(rstr \<Rightarrow> rstr + json) \<Rightarrow> nat \<Rightarrow> rstr \<Rightarrow> tool_call_state \<Rightarrow>
   (api_error, tool_call_state \<times> response_event list) outcome" where
  "append_arguments json_of index arguments ts =
     (let ts = ts\<lparr>ts_arguments := ts_arguments ts @ arguments\<rparr> in
      and_then
        (if ts_name ts = Some APPLY_PATCH_TOOL_NAME
         then and_then (apply_patch_delta json_of (ts_arguments ts) (ts_streamed_input_len ts))
                (\<lambda>(delta, n). Ok (delta, ts\<lparr>ts_streamed_input_len := n\<rparr>))
         else Ok (arguments, ts))
        (\<lambda>(delta, ts). Ok (ts,
           if delta = [] then []
           else [ToolCallInputDelta (case ts_id ts of Some i \<Rightarrow> i | None \<Rightarrow> decimal index)
                   (ts_id ts) delta])))"

text \<open>\<^verbatim>\<open>self.tool_calls.entry(index).or_default()\<close>.\<close>

definition entry_or_default :: "chat_stream_state \<Rightarrow> nat \<Rightarrow> tool_call_state" where
  "entry_or_default st k = (case map_of (tool_calls st) k of Some ts \<Rightarrow> ts | None \<Rightarrow> default_tool_call)"

definition process_tool_call_delta ::
  "(rstr \<Rightarrow> rstr + json) \<Rightarrow> chat_tool_call_delta \<Rightarrow> stream_step \<Rightarrow> (api_error, stream_step) outcome" where
  "process_tool_call_delta json_of tc = (\<lambda>(st, events).
     case td_index tc of
       None \<Rightarrow> Err (StreamError (lit ''chat completion tool call delta missing index''))
     | Some index \<Rightarrow>
         (let ts1 = tool_call_header tc (entry_or_default st index);
              store = (\<lambda>ts. st\<lparr>tool_calls := bt_entry index default_tool_call (\<lambda>_. ts) (tool_calls st)\<rparr>)
          in case td_function tc of
               None \<Rightarrow> Ok (store ts1, events)
             | Some f \<Rightarrow>
                 (let (ts2, added) = announce_apply_patch index ts1 in
                  case fd_arguments f of
                    None \<Rightarrow> Ok (store ts2, events @ added)
                  | Some arguments \<Rightarrow>
                      and_then (append_arguments json_of index arguments ts2) (\<lambda>(ts3, deltas).
                        Ok (store ts3, events @ added @ deltas)))))"

fun process_tool_call_deltas ::
  "(rstr \<Rightarrow> rstr + json) \<Rightarrow> chat_tool_call_delta list \<Rightarrow> stream_step \<Rightarrow> (api_error, stream_step) outcome" where
  "process_tool_call_deltas json_of [] step = Ok step"
| "process_tool_call_deltas json_of (tc # tcs) step =
     and_then (process_tool_call_delta json_of tc step) (process_tool_call_deltas json_of tcs)"

section \<open>Chunks\<close>

definition process_reasoning :: "rstr option \<Rightarrow> stream_step \<Rightarrow> stream_step" where
  "process_reasoning r step =
     (case r of
        Some reasoning \<Rightarrow>
          if reasoning = [] then step
          else let (st, events) = ensure_reasoning_started step in
            (st\<lparr>reasoning_content := reasoning_content st @ reasoning\<rparr>,
             events @ [ReasoningContentDelta reasoning 0])
      | None \<Rightarrow> step)"

definition process_content :: "rstr option \<Rightarrow> stream_step \<Rightarrow> stream_step" where
  "process_content c step =
     (case c of
        Some text \<Rightarrow>
          if text = [] then step
          else let (st, events) = ensure_message_started (finish_reasoning step) in
            (st\<lparr>content := content st @ text\<rparr>, events @ [OutputTextDelta text])
      | None \<Rightarrow> step)"

definition process_choice ::
  "(rstr \<Rightarrow> rstr + json) \<Rightarrow> chat_completion_chunk_choice \<Rightarrow> stream_step \<Rightarrow> (api_error, stream_step) outcome" where
  "process_choice json_of choice step =
     (if ch_index choice \<noteq> 0 then Ok step
      else let delta = ch_delta choice;
               step = process_content (d_content delta) (process_reasoning (d_reasoning_content delta) step)
           in case d_tool_calls delta of
                Some tcs \<Rightarrow> process_tool_call_deltas json_of tcs (finish_reasoning step)
              | None \<Rightarrow> Ok step)"

fun process_choices ::
  "(rstr \<Rightarrow> rstr + json) \<Rightarrow> chat_completion_chunk_choice list \<Rightarrow> stream_step \<Rightarrow> (api_error, stream_step) outcome" where
  "process_choices json_of [] step = Ok step"
| "process_choices json_of (c # cs) step =
     and_then (process_choice json_of c step) (process_choices json_of cs)"

definition process_chunk ::
  "(rstr \<Rightarrow> rstr + json) \<Rightarrow> chat_completion_chunk \<Rightarrow> chat_stream_state \<Rightarrow> (api_error, stream_step) outcome" where
  "process_chunk json_of chunk st =
     (let st = st\<lparr>response_id := (case response_id st of Some i \<Rightarrow> Some i | None \<Rightarrow> Some (ck_id chunk))\<rparr>;
          st = (case ck_usage chunk of Some u \<Rightarrow> st\<lparr>usage := Some (usage_from u)\<rparr> | None \<Rightarrow> st)
      in process_choices json_of (ck_choices chunk) (st, []))"

definition tool_call_item :: "(rstr \<Rightarrow> rstr + json) \<Rightarrow> tool_call_state \<Rightarrow> response_item" where
  "tool_call_item json_of ts =
     (let call_id = (case ts_id ts of Some i \<Rightarrow> i | None \<Rightarrow> []);
          name = (case ts_name ts of Some n \<Rightarrow> n | None \<Rightarrow> [])
      in if name = APPLY_PATCH_TOOL_NAME
         then CustomToolCall None None call_id name
                (case apply_patch_input json_of (ts_arguments ts) of
                   Some input \<Rightarrow> input | None \<Rightarrow> ts_arguments ts)
         else FunctionCall None name None (ts_arguments ts) call_id)"

definition process_done :: "(rstr \<Rightarrow> rstr + json) \<Rightarrow> chat_stream_state \<Rightarrow> stream_step" where
  "process_done json_of st =
     (let (st, events) = finish_reasoning (finish_message (st, [])) in
      (st\<lparr>completed := True\<rparr>,
       events @ map (\<lambda>(_, ts). OutputItemDone (tool_call_item json_of ts)) (tool_calls st) @
       [Completed (case response_id st of Some i \<Rightarrow> i | None \<Rightarrow> lit ''chatcmpl-deepseek'')
          (usage st) (Some True)]))"

section \<open>The event loop\<close>

text \<open>\<open>None\<close> is \<^verbatim>\<open>Ok(None)\<close>; the error of an error document and a parse failure are both returned.\<close>

definition chat_error :: "(rstr \<Rightarrow> rstr + json) \<Rightarrow> rstr \<Rightarrow> api_error option" where
  "chat_error json_of data =
     (case json_of data of
        Inl err \<Rightarrow> Some (StreamError (lit ''failed to parse chat completion JSON: '' @ err))
      | Inr v \<Rightarrow>
          (case json_get (lit ''error'') v of
             None \<Rightarrow> None
           | Some error \<Rightarrow>
               Some (StreamError
                 (case Option.bind (json_get (lit ''message'') error) json_as_str of
                    Some m \<Rightarrow> m | None \<Rightarrow> lit ''chat completions stream error''))))"

definition process_chat_completions_data ::
  "(rstr \<Rightarrow> rstr + json) \<Rightarrow> (rstr \<Rightarrow> rstr + chat_completion_chunk) \<Rightarrow> chat_stream_state \<Rightarrow> rstr \<Rightarrow>
   (api_error, stream_step) outcome" where
  "process_chat_completions_data json_of chunk_of st data =
     (case chat_error json_of data of
        Some error \<Rightarrow> Err error
      | None \<Rightarrow>
          (case chunk_of data of
             Inl err \<Rightarrow> Err (StreamError (lit ''failed to parse chat completion chunk: '' @ err))
           | Inr chunk \<Rightarrow> process_chunk json_of chunk st))"

datatype sse_poll = SseEvent rstr | SseError rstr | SseClosed | SseTimeout

type_synonym sent_item = "api_error + response_event"

fun is_completed :: "response_event \<Rightarrow> bool" where
  "is_completed (Completed _ _ _) = True"
| "is_completed _ = False"

definition send_error :: "(sent_item list \<Rightarrow> bool) \<Rightarrow> sent_item list \<Rightarrow> api_error \<Rightarrow> sent_item list" where
  "send_error rx_open sent e = (if rx_open sent then sent @ [Inl e] else sent)"

text \<open>What has been sent, and whether the loop goes on.\<close>

fun send_events ::
  "(sent_item list \<Rightarrow> bool) \<Rightarrow> sent_item list \<Rightarrow> response_event list \<Rightarrow> sent_item list \<times> bool" where
  "send_events rx_open sent [] = (sent, True)"
| "send_events rx_open sent (e # es) =
     (if \<not> rx_open sent then (sent, False)
      else if is_completed e then (sent @ [Inr e], False)
      else send_events rx_open (sent @ [Inr e]) es)"

text \<open>
  The loop over the polls of the stream so far: what was sent, and whether the loop is still
  waiting for the next poll.
\<close>

fun process_chat_completions_sse ::
  "(rstr \<Rightarrow> rstr + json) \<Rightarrow> (rstr \<Rightarrow> rstr + chat_completion_chunk) \<Rightarrow> (sent_item list \<Rightarrow> bool) \<Rightarrow>
   chat_stream_state \<Rightarrow> sent_item list \<Rightarrow> sse_poll list \<Rightarrow> (api_error, sent_item list \<times> bool) outcome" where
  "process_chat_completions_sse json_of chunk_of rx_open st sent [] = Ok (sent, True)"
| "process_chat_completions_sse json_of chunk_of rx_open st sent (poll # polls) =
     (case poll of
        SseError msg \<Rightarrow> Ok (send_error rx_open sent (StreamError msg), False)
      | SseClosed \<Rightarrow>
          Ok (send_error rx_open sent (StreamError (lit ''stream closed before chat completions [DONE]'')), False)
      | SseTimeout \<Rightarrow> Ok (send_error rx_open sent (StreamError (lit ''idle timeout waiting for SSE'')), False)
      | SseEvent data \<Rightarrow>
          (case (if trim data = lit ''[DONE]'' then Ok (process_done json_of st)
                 else process_chat_completions_data json_of chunk_of st data) of
             Err e \<Rightarrow> Ok (send_error rx_open sent e, False)
           | Panic \<Rightarrow> Panic
           | Ok (st, events) \<Rightarrow>
               (let (sent, go_on) = send_events rx_open sent events in
                if go_on then process_chat_completions_sse json_of chunk_of rx_open st sent polls
                else Ok (sent, False))))"

section \<open>The protocol of events\<close>

text \<open>
  What a consumer of the events has seen: the text and the reasoning streamed so far, which items
  were announced and finished, and whether the response is over.
\<close>

record protocol =
  p_text :: rstr
  p_text_open :: bool
  p_text_done :: bool
  p_reason :: rstr
  p_reason_open :: bool
  p_reason_done :: bool
  p_over :: bool

definition protocol_start :: protocol where
  "protocol_start = \<lparr>p_text = [], p_text_open = False, p_text_done = False, p_reason = [],
     p_reason_open = False, p_reason_done = False, p_over = False\<rparr>"

fun accept_added :: "protocol \<Rightarrow> response_item \<Rightarrow> protocol option" where
  "accept_added p (Message _ _ items _) =
     (if p_text_open p \<or> items \<noteq> [] then None else Some (p\<lparr>p_text_open := True\<rparr>))"
| "accept_added p (Reasoning _ _ c _) =
     (if p_reason_open p \<or> c \<noteq> None then None else Some (p\<lparr>p_reason_open := True\<rparr>))"
| "accept_added p (CustomToolCall _ _ _ _ _) = Some p"
| "accept_added p _ = None"

fun accept_done :: "protocol \<Rightarrow> response_item \<Rightarrow> protocol option" where
  "accept_done p (Message _ _ items _) =
     (if p_text_open p \<and> \<not> p_text_done p \<and> p_text p \<noteq> [] \<and> items = [OutputText (p_text p)]
      then Some (p\<lparr>p_text_done := True\<rparr>) else None)"
| "accept_done p (Reasoning _ _ c _) =
     (if p_reason_open p \<and> \<not> p_reason_done p \<and> p_reason p \<noteq> [] \<and> c = Some [ReasoningText (p_reason p)]
      then Some (p\<lparr>p_reason_done := True\<rparr>) else None)"
| "accept_done p (CustomToolCall _ _ _ _ _) = Some p"
| "accept_done p (FunctionCall _ _ _ _ _) = Some p"
| "accept_done p _ = None"

fun accept_event :: "protocol \<Rightarrow> response_event \<Rightarrow> protocol option" where
  "accept_event p (OutputItemAdded item) = accept_added p item"
| "accept_event p (OutputItemDone item) = accept_done p item"
| "accept_event p (OutputTextDelta t) =
     (if p_text_open p \<and> \<not> p_text_done p \<and> t \<noteq> [] then Some (p\<lparr>p_text := p_text p @ t\<rparr>) else None)"
| "accept_event p (ReasoningContentDelta t _) =
     (if p_reason_open p \<and> t \<noteq> [] then Some (p\<lparr>p_reason := p_reason p @ t\<rparr>) else None)"
| "accept_event p (ToolCallInputDelta _ _ d) = (if d \<noteq> [] then Some p else None)"
| "accept_event p (Completed _ _ _) =
     (if (p_text p = [] \<or> p_text_done p) \<and> (p_reason p = [] \<or> p_reason_done p)
      then Some (p\<lparr>p_over := True\<rparr>) else None)"
| "accept_event p _ = None"

definition accept :: "protocol \<Rightarrow> response_event \<Rightarrow> protocol option" where
  "accept p e = (if p_over p then None else accept_event p e)"

fun accepts :: "protocol \<Rightarrow> response_event list \<Rightarrow> protocol option" where
  "accepts p [] = Some p"
| "accepts p (e # es) = Option.bind (accept p e) (\<lambda>q. accepts q es)"

lemma accepts_append: "accepts p (xs @ ys) = Option.bind (accepts p xs) (\<lambda>q. accepts q ys)"
  by (induction xs arbitrary: p) (auto split: bind_splits)

lemma accepts_prefix: "accepts p (xs @ ys) \<noteq> None \<Longrightarrow> accepts p xs \<noteq> None"
  by (cases "accepts p xs") (simp_all add: accepts_append)

section \<open>Every step follows the protocol\<close>

definition abs_state :: "chat_stream_state \<Rightarrow> protocol" where
  "abs_state st = \<lparr>p_text = content st, p_text_open = message_started st, p_text_done = message_done st,
     p_reason = reasoning_content st, p_reason_open = reasoning_started st,
     p_reason_done = reasoning_done st, p_over = completed st\<rparr>"

text \<open>A state before the end of the stream.\<close>

definition streaming :: "chat_stream_state \<Rightarrow> bool" where
  "streaming st \<longleftrightarrow> (content st \<noteq> [] \<longrightarrow> message_started st) \<and> (reasoning_content st \<noteq> [] \<longrightarrow> reasoning_started st) \<and>
     \<not> message_done st \<and> \<not> completed st"

definition follows :: "stream_step \<Rightarrow> stream_step \<Rightarrow> bool" where
  "follows s s' \<longleftrightarrow> (streaming (fst s) \<longrightarrow> streaming (fst s') \<and>
     (\<exists>new. snd s' = snd s @ new \<and> list_all (\<lambda>e. \<not> is_completed e) new \<and>
        accepts (abs_state (fst s)) new = Some (abs_state (fst s'))))"

lemma follows_refl: "follows s s"
  by (simp add: follows_def)

lemma follows_trans: "follows s s' \<Longrightarrow> follows s' s'' \<Longrightarrow> follows s s''"
  by (fastforce simp: follows_def accepts_append)

lemma follows_snoc:
  assumes "streaming st \<Longrightarrow> streaming st' \<and> accept (abs_state st) e = Some (abs_state st')" "\<not> is_completed e"
  shows "follows (st, evs) (st', evs @ [e])"
  using assms by (simp add: follows_def)

lemmas stream_simps = abs_state_def streaming_def accept_def assistant_message_def reasoning_item_def

lemma follows_ensure_message_started: "follows s (ensure_message_started s)"
  by (cases s) (auto simp: ensure_message_started_def stream_simps intro!: follows_refl follows_snoc)

lemma follows_ensure_reasoning_started: "follows s (ensure_reasoning_started s)"
  by (cases s) (auto simp: ensure_reasoning_started_def stream_simps intro!: follows_refl follows_snoc)

lemma follows_finish_reasoning: "follows s (finish_reasoning s)"
  by (cases s) (auto simp: finish_reasoning_def stream_simps intro!: follows_refl follows_snoc)

lemma follows_process_reasoning: "follows s (process_reasoning r s)"
proof (cases "r = None \<or> r = Some []")
  case True
  then show ?thesis by (auto simp: process_reasoning_def follows_refl)
next
  case False
  then obtain t where t: "r = Some t" "t \<noteq> []" by auto
  obtain st evs where s: "ensure_reasoning_started s = (st, evs)" by force
  then have "reasoning_started st" by (auto simp: ensure_reasoning_started_def split: prod.splits if_splits)
  then have "follows (st, evs)
      (st\<lparr>reasoning_content := reasoning_content st @ t\<rparr>, evs @ [ReasoningContentDelta t 0])"
    using t by (intro follows_snoc) (auto simp: stream_simps)
  with follows_ensure_reasoning_started [of s] show ?thesis
    using t by (auto simp: process_reasoning_def s intro: follows_trans)
qed

lemma follows_process_content: "follows s (process_content c s)"
proof (cases "c = None \<or> c = Some []")
  case True
  then show ?thesis by (auto simp: process_content_def follows_refl)
next
  case False
  then obtain t where t: "c = Some t" "t \<noteq> []" by auto
  obtain st evs where s: "ensure_message_started (finish_reasoning s) = (st, evs)" by force
  then have "message_started st" by (auto simp: ensure_message_started_def split: prod.splits if_splits)
  then have "follows (st, evs) (st\<lparr>content := content st @ t\<rparr>, evs @ [OutputTextDelta t])"
    using t by (intro follows_snoc) (auto simp: stream_simps)
  moreover have "follows s (st, evs)"
    using follows_trans [OF follows_finish_reasoning follows_ensure_message_started, of s] s by simp
  ultimately show ?thesis
    using t by (auto simp: process_content_def s intro: follows_trans)
qed

text \<open>Tool call events leave the protocol state alone.\<close>

definition tool_event :: "response_event \<Rightarrow> bool" where
  "tool_event e \<longleftrightarrow> (case e of
     OutputItemAdded (CustomToolCall _ _ _ _ _) \<Rightarrow> True
   | ToolCallInputDelta _ _ d \<Rightarrow> d \<noteq> []
   | _ \<Rightarrow> False)"

lemma accepts_tool_events:
  "list_all tool_event es \<Longrightarrow> \<not> p_over p \<Longrightarrow> accepts p es = Some p"
  by (induction es) (auto simp: tool_event_def accept_def split: response_event.splits response_item.splits)

lemma tool_event_not_completed: "tool_event e \<Longrightarrow> \<not> is_completed e"
  by (cases e) (auto simp: tool_event_def)

lemma follows_tool_events:
  "list_all tool_event new \<Longrightarrow> follows (st, evs) (st\<lparr>tool_calls := m\<rparr>, evs @ new)"
  using tool_event_not_completed
  by (auto simp: follows_def stream_simps list_all_iff intro!: accepts_tool_events)

lemma append_arguments_events:
  "append_arguments json_of index a ts = Ok (ts', evs) \<Longrightarrow> list_all tool_event evs"
  by (auto simp: append_arguments_def Let_def outcome_simps tool_event_def split: if_splits)

text \<open>
  What a tool call delta does to the map: the entry of its index is updated by the fields the delta
  has, as far as the final item depends on it (identity, name and arguments).
\<close>

type_synonym tool_core = "rstr option \<times> rstr option \<times> rstr"

definition tool_core :: "tool_call_state \<Rightarrow> tool_core" where
  "tool_core ts = (ts_id ts, ts_name ts, ts_arguments ts)"

definition override :: "'a option \<Rightarrow> 'a option \<Rightarrow> 'a option" where
  "override new old = (case new of Some x \<Rightarrow> Some x | None \<Rightarrow> old)"

definition delta_name :: "chat_tool_call_delta \<Rightarrow> rstr option" where
  "delta_name tc = Option.bind (td_function tc) fd_name"

definition delta_arguments :: "chat_tool_call_delta \<Rightarrow> rstr" where
  "delta_arguments tc = (case Option.bind (td_function tc) fd_arguments of Some a \<Rightarrow> a | None \<Rightarrow> [])"

definition core_update :: "chat_tool_call_delta \<Rightarrow> tool_core \<Rightarrow> tool_core" where
  "core_update tc = (\<lambda>(i, n, a). (override (td_id tc) i, override (delta_name tc) n, a @ delta_arguments tc))"

lemma core_update_core:
  "core_update tc (tool_core ts) =
   (override (td_id tc) (ts_id ts), override (delta_name tc) (ts_name ts), ts_arguments ts @ delta_arguments tc)"
  by (simp add: core_update_def tool_core_def)

lemma tool_call_header_core:
  "tool_core (tool_call_header tc ts) =
   (override (td_id tc) (ts_id ts), override (delta_name tc) (ts_name ts), ts_arguments ts)"
  by (auto simp: tool_call_header_def tool_core_def override_def delta_name_def Let_def split: option.splits)

lemma announce_core: "announce_apply_patch i ts = (ts', evs) \<Longrightarrow> tool_core ts' = tool_core ts"
  by (auto simp: announce_apply_patch_def tool_core_def split: if_splits)

lemma announce_events: "announce_apply_patch i ts = (ts', evs) \<Longrightarrow> list_all tool_event evs"
  by (auto simp: announce_apply_patch_def tool_event_def split: if_splits)

lemma append_arguments_core:
  "append_arguments json_of i a ts = Ok (ts', evs) \<Longrightarrow>
   tool_core ts' = (ts_id ts, ts_name ts, ts_arguments ts @ a)"
  by (auto simp: append_arguments_def Let_def outcome_simps tool_core_def split: if_splits)

lemma process_tool_call_delta_Ok:
  assumes "process_tool_call_delta json_of tc (st, evs) = Ok s'"
  obtains k ts new where "td_index tc = Some k" "list_all tool_event new"
    "s' = (st\<lparr>tool_calls := bt_entry k default_tool_call (\<lambda>_. ts) (tool_calls st)\<rparr>, evs @ new)"
    "tool_core ts = core_update tc (tool_core (entry_or_default st k))"
proof -
  from assms obtain k where k: "td_index tc = Some k"
    by (cases "td_index tc") (auto simp: process_tool_call_delta_def)
  let ?ts1 = "tool_call_header tc (entry_or_default st k)"
  obtain ts2 added where ann: "announce_apply_patch k ?ts1 = (ts2, added)" by force
  have run: "process_tool_call_delta json_of tc (st, evs) =
      (let store = (\<lambda>ts. st\<lparr>tool_calls := bt_entry k default_tool_call (\<lambda>_. ts) (tool_calls st)\<rparr>)
       in case td_function tc of
            None \<Rightarrow> Ok (store ?ts1, evs)
          | Some f \<Rightarrow>
              (case fd_arguments f of
                 None \<Rightarrow> Ok (store ts2, evs @ added)
               | Some a \<Rightarrow>
                   and_then (append_arguments json_of k a ts2) (\<lambda>(ts3, deltas).
                     Ok (store ts3, evs @ added @ deltas))))"
    by (cases "td_function tc") (simp_all add: process_tool_call_delta_def k Let_def ann)
  show thesis
  proof (cases "td_function tc")
    case None
    with assms run k show thesis
      by (intro that [of k "[]" ?ts1])
        (auto simp: tool_call_header_core core_update_core delta_arguments_def)
  next
    case f: (Some f)
    show thesis
    proof (cases "fd_arguments f")
      case None
      with assms run k f announce_core [OF ann] announce_events [OF ann] show thesis
        by (intro that [of k added ts2])
          (auto simp: tool_call_header_core core_update_core delta_arguments_def)
    next
      case (Some a)
      with assms run f obtain ts3 deltas where ap: "append_arguments json_of k a ts2 = Ok (ts3, deltas)"
        "s' = (st\<lparr>tool_calls := bt_entry k default_tool_call (\<lambda>_. ts3) (tool_calls st)\<rparr>, evs @ added @ deltas)"
        by (auto simp: outcome_simps)
      have "tool_core ts3 = core_update tc (tool_core (entry_or_default st k))"
        using append_arguments_core [OF ap(1)] announce_core [OF ann] f Some
          tool_call_header_core [of tc "entry_or_default st k"]
        by (simp add: core_update_def delta_arguments_def tool_core_def)
      then show thesis
        using k ap(2) announce_events [OF ann] append_arguments_events [OF ap(1)]
        by (intro that [of k "added @ deltas" ts3]) auto
    qed
  qed
qed

lemma follows_process_tool_call_delta:
  assumes "process_tool_call_delta json_of tc s = Ok s'"
  shows "follows s s'"
proof -
  obtain st evs where s: "s = (st, evs)" by (cases s)
  show ?thesis
    using process_tool_call_delta_Ok [OF assms [unfolded s]] by (metis s follows_tool_events)
qed

lemma follows_process_tool_call_deltas:
  "process_tool_call_deltas json_of tcs s = Ok s' \<Longrightarrow> follows s s'"
  by (induction tcs arbitrary: s)
    (auto simp: outcome_simps follows_refl intro: follows_trans follows_process_tool_call_delta)

lemma follows_process_choice:
  assumes "process_choice json_of c s = Ok s'"
  shows "follows s s'"
proof (cases "ch_index c = 0")
  case True
  let ?s1 = "process_content (d_content (ch_delta c)) (process_reasoning (d_reasoning_content (ch_delta c)) s)"
  have s1: "follows s ?s1" by (rule follows_trans [OF follows_process_reasoning follows_process_content])
  show ?thesis
  proof (cases "d_tool_calls (ch_delta c)")
    case None
    with assms True s1 show ?thesis by (simp add: process_choice_def Let_def)
  next
    case (Some tcs)
    with assms True have "follows (finish_reasoning ?s1) s'"
      by (intro follows_process_tool_call_deltas) (simp add: process_choice_def Let_def)
    with s1 follows_finish_reasoning show ?thesis by (blast intro: follows_trans)
  qed
qed (use assms in \<open>simp add: process_choice_def follows_refl\<close>)

lemma follows_process_choices: "process_choices json_of cs s = Ok s' \<Longrightarrow> follows s s'"
  by (induction cs arbitrary: s)
    (auto simp: outcome_simps follows_refl intro: follows_trans follows_process_choice)

lemma follows_process_chunk:
  assumes "process_chunk json_of chunk st = Ok s'"
  shows "follows (st, []) s'"
proof -
  obtain st1 where st1: "process_choices json_of (ck_choices chunk) (st1, []) = Ok s'"
    "abs_state st1 = abs_state st" "streaming st1 = streaming st"
    using assms by (auto simp: process_chunk_def Let_def stream_simps split: option.splits)
  from follows_process_choices [OF st1(1)] show ?thesis by (simp add: follows_def st1(2,3))
qed

text \<open>The end of the stream finishes what is open.\<close>

lemma finish_items_accepts:
  assumes "streaming st" "finish_reasoning (finish_message (st, [])) = (st1, evs)"
  shows "accepts (abs_state st) evs = Some (abs_state st1) \<and>
    (content st1 = [] \<or> message_done st1) \<and> (reasoning_content st1 = [] \<or> reasoning_done st1) \<and>
    \<not> completed st1 \<and> list_all (\<lambda>e. \<not> is_completed e) evs"
  using assms
  by (auto simp: finish_reasoning_def finish_message_def stream_simps split: if_splits)

lemma accepts_tool_items:
  "\<not> p_over p \<Longrightarrow> accepts p (map (\<lambda>(_, ts). OutputItemDone (tool_call_item json_of ts)) m) = Some p"
  by (induction m) (auto simp: accept_def tool_call_item_def Let_def)

lemma process_done_accepts:
  assumes "streaming st" "process_done json_of st = (st', evs)"
  shows "accepts (abs_state st) evs = Some (abs_state st')"
proof -
  obtain st1 evs1 where f: "finish_reasoning (finish_message (st, [])) = (st1, evs1)" by force
  from finish_items_accepts [OF assms(1) f] assms(2) show ?thesis
    by (auto simp: process_done_def f accepts_append accepts_tool_items stream_simps)
qed

section \<open>The whole stream\<close>

text \<open>
  A trace: accepted events, and possibly one error, after which and after the completion nothing
  comes.
\<close>

definition legal_trace :: "sent_item list \<Rightarrow> bool" where
  "legal_trace sent \<longleftrightarrow> (\<exists>evs. accepts protocol_start evs \<noteq> None \<and>
     (sent = map Inr evs \<or> (\<exists>e. sent = map Inr evs @ [Inl e]) \<and> list_all (\<lambda>e. \<not> is_completed e) evs))"

fun terminal :: "sent_item \<Rightarrow> bool" where
  "terminal (Inl e) = True"
| "terminal (Inr e) = is_completed e"

text \<open>Where the loop is between two polls.\<close>

definition loop_inv :: "chat_stream_state \<Rightarrow> sent_item list \<Rightarrow> bool" where
  "loop_inv st sent \<longleftrightarrow> streaming st \<and> (\<exists>evs. sent = map Inr evs \<and> list_all (\<lambda>e. \<not> is_completed e) evs \<and>
     accepts protocol_start evs = Some (abs_state st))"

lemma loop_inv_default: "loop_inv default_stream_state []"
  by (simp add: loop_inv_def default_stream_state_def stream_simps protocol_start_def)

lemma send_events_prefix:
  "send_events rx_open sent es = (sent', go_on) \<Longrightarrow>
   \<exists>xs ys. es = xs @ ys \<and> sent' = sent @ map Inr xs \<and> (go_on \<longrightarrow> ys = [] \<and> list_all (\<lambda>e. \<not> is_completed e) xs) \<and>
     (\<not> go_on \<longrightarrow> (\<forall>l. rx_open l) \<longrightarrow> xs \<noteq> [] \<and> is_completed (last xs))"
proof (induction es arbitrary: sent)
  case (Cons e es)
  consider "\<not> rx_open sent" | "rx_open sent" "is_completed e" | "rx_open sent" "\<not> is_completed e" by blast
  then show ?case
  proof cases
    case 1
    with Cons.prems show ?thesis by (intro exI [of _ "[]"] exI [of _ "e # es"]) auto
  next
    case 2
    with Cons.prems show ?thesis by (intro exI [of _ "[e]"] exI [of _ es]) auto
  next
    case 3
    with Cons.prems have "send_events rx_open (sent @ [Inr e]) es = (sent', go_on)" by simp
    from Cons.IH [OF this] obtain xs ys where "es = xs @ ys" "sent' = (sent @ [Inr e]) @ map Inr xs"
      "go_on \<longrightarrow> ys = [] \<and> list_all (\<lambda>e. \<not> is_completed e) xs"
      "\<not> go_on \<longrightarrow> (\<forall>l. rx_open l) \<longrightarrow> xs \<noteq> [] \<and> is_completed (last xs)" by blast
    with 3 show ?thesis by (intro exI [of _ "e # xs"] exI [of _ ys]) auto
  qed
qed auto

lemma loop_inv_legal_error: "loop_inv st sent \<Longrightarrow> legal_trace (send_error rx_open sent e)"
  unfolding loop_inv_def legal_trace_def send_error_def by fastforce

text \<open>The events of one poll, sent as far as the receiver takes them.\<close>

lemma loop_inv_send:
  assumes "loop_inv st sent" "accepts (abs_state st) es = Some (abs_state st')"
    "send_events rx_open sent es = (sent', go_on)"
  shows "legal_trace sent' \<and> (go_on \<longrightarrow> streaming st' \<longrightarrow> loop_inv st' sent') \<and>
    (\<not> go_on \<longrightarrow> (\<forall>l. rx_open l) \<longrightarrow> sent' \<noteq> [] \<and> terminal (last sent'))"
proof -
  obtain evs where evs: "sent = map Inr evs" "list_all (\<lambda>e. \<not> is_completed e) evs"
    "accepts protocol_start evs = Some (abs_state st)" using assms(1) by (auto simp: loop_inv_def)
  obtain xs ys where xs: "es = xs @ ys" "sent' = sent @ map Inr xs"
    "go_on \<longrightarrow> ys = [] \<and> list_all (\<lambda>e. \<not> is_completed e) xs"
    "\<not> go_on \<longrightarrow> (\<forall>l. rx_open l) \<longrightarrow> xs \<noteq> [] \<and> is_completed (last xs)"
    using send_events_prefix [OF assms(3)] by blast
  have all: "accepts protocol_start (evs @ xs @ ys) = Some (abs_state st')"
    using assms(2) evs(3) xs(1) by (simp add: accepts_append)
  then have "accepts protocol_start (evs @ xs) \<noteq> None"
    using accepts_prefix [of protocol_start "evs @ xs" ys] by simp
  then have "legal_trace sent'"
    unfolding legal_trace_def using xs(2) evs(1) by (intro exI [of _ "evs @ xs"]) simp
  moreover have "loop_inv st' sent'" if "go_on" "streaming st'"
    using that all xs evs by (auto simp: loop_inv_def intro!: exI [of _ "evs @ xs"])
  moreover have "sent' \<noteq> [] \<and> terminal (last sent')" if "\<not> go_on" "\<forall>l. rx_open l"
    using that xs(2,4) by (simp add: last_map)
  ultimately show ?thesis by blast
qed

section \<open>Slices of the patch input\<close>

text \<open>
  What is relied on of \<^verbatim>\<open>serde_json::from_str\<close>: it reads a whole document and refuses trailing
  characters, so a text that has an \<^verbatim>\<open>input\<close> string has the same one after more text, if any.
\<close>

definition json_final :: "(rstr \<Rightarrow> rstr + json) \<Rightarrow> bool" where
  "json_final json_of \<longleftrightarrow> (\<forall>s t i j. apply_patch_input json_of s = Some i \<longrightarrow>
     apply_patch_input json_of (s @ t) = Some j \<longrightarrow> i = j)"

text \<open>The streamed length is zero or that of the input some earlier part of the arguments had.\<close>

definition streamed_ok :: "(rstr \<Rightarrow> rstr + json) \<Rightarrow> tool_call_state \<Rightarrow> bool" where
  "streamed_ok json_of ts \<longleftrightarrow> ts_streamed_input_len ts = 0 \<or>
     (\<exists>p t i. ts_arguments ts = p @ t \<and> apply_patch_input json_of p = Some i \<and>
        ts_streamed_input_len ts = byte_len i)"

definition tools_ok :: "(rstr \<Rightarrow> rstr + json) \<Rightarrow> chat_stream_state \<Rightarrow> bool" where
  "tools_ok json_of st \<longleftrightarrow> (\<forall>(k, ts) \<in> set (tool_calls st). streamed_ok json_of ts)"

lemma byte_slice_from_0 [simp]: "byte_slice_from 0 s = Ok s"
  by (cases s) auto

lemma apply_patch_delta_Ok:
  assumes "json_final json_of" "streamed_ok json_of ts"
  shows "\<exists>delta n. apply_patch_delta json_of (ts_arguments ts @ a) (ts_streamed_input_len ts) = Ok (delta, n) \<and>
    streamed_ok json_of (ts\<lparr>ts_arguments := ts_arguments ts @ a, ts_streamed_input_len := n\<rparr>)"
proof (cases "apply_patch_input json_of (ts_arguments ts @ a)")
  case None
  with assms(2) show ?thesis by (fastforce simp: apply_patch_delta_def streamed_ok_def)
next
  case (Some input)
  from assms(2) consider "ts_streamed_input_len ts = 0"
    | p t i where "ts_arguments ts = p @ t" "apply_patch_input json_of p = Some i"
        "ts_streamed_input_len ts = byte_len i"
    by (auto simp: streamed_ok_def)
  then show ?thesis
  proof cases
    case 1
    have "streamed_ok json_of (ts\<lparr>ts_arguments := ts_arguments ts @ a, ts_streamed_input_len := byte_len input\<rparr>)"
      unfolding streamed_ok_def using Some
      by (intro disjI2 exI [of _ "ts_arguments ts @ a"] exI [of _ "[]"] exI [of _ input]) simp
    with 1 Some show ?thesis by (auto simp: apply_patch_delta_def streamed_ok_def)
  next
    case (2 p t i)
    then have "i = input"
      using assms(1) Some unfolding json_final_def by (metis append.assoc)
    with 2 Some show ?thesis by (fastforce simp: apply_patch_delta_def streamed_ok_def)
  qed
qed

lemma append_arguments_no_panic:
  assumes "json_final json_of" "streamed_ok json_of ts"
  shows "\<exists>ts' evs. append_arguments json_of k a ts = Ok (ts', evs) \<and> streamed_ok json_of ts'"
proof (cases "ts_name ts = Some APPLY_PATCH_TOOL_NAME")
  case True
  with apply_patch_delta_Ok [OF assms, of a] show ?thesis
    by (auto simp: append_arguments_def Let_def)
next
  case False
  then show ?thesis using assms(2) by (fastforce simp: append_arguments_def Let_def streamed_ok_def)
qed

lemma streamed_ok_header: "streamed_ok json_of ts \<Longrightarrow> streamed_ok json_of (tool_call_header tc ts)"
  by (auto simp: streamed_ok_def tool_call_header_def Let_def split: option.splits)

lemma streamed_ok_announce:
  "streamed_ok json_of ts \<Longrightarrow> streamed_ok json_of (fst (announce_apply_patch k ts))"
  by (auto simp: streamed_ok_def announce_apply_patch_def)

lemma tools_ok_store:
  "tools_ok json_of st \<Longrightarrow> streamed_ok json_of ts \<Longrightarrow>
   tools_ok json_of (st\<lparr>tool_calls := bt_entry k default_tool_call (\<lambda>_. ts) (tool_calls st)\<rparr>)"
  using bt_entry_set [of k default_tool_call ts "tool_calls st"] by (auto simp: tools_ok_def)

lemma entry_streamed_ok: "tools_ok json_of st \<Longrightarrow> streamed_ok json_of (entry_or_default st k)"
  by (auto simp: tools_ok_def entry_or_default_def default_tool_call_def streamed_ok_def
      split: option.splits dest: map_of_SomeD)

definition safe_result :: "(rstr \<Rightarrow> rstr + json) \<Rightarrow> (api_error, stream_step) outcome \<Rightarrow> bool" where
  "safe_result json_of r \<longleftrightarrow> r \<noteq> Panic \<and> (\<forall>s. r = Ok s \<longrightarrow> tools_ok json_of (fst s))"

lemma safe_process_tool_call_delta:
  assumes "json_final json_of" "tools_ok json_of (fst s)"
  shows "safe_result json_of (process_tool_call_delta json_of tc s)"
proof -
  obtain st evs where s: "s = (st, evs)" by (cases s)
  show ?thesis
  proof (cases "td_index tc")
    case None
    then show ?thesis by (simp add: process_tool_call_delta_def s safe_result_def)
  next
    case (Some k)
    let ?ts1 = "tool_call_header tc (entry_or_default st k)"
    obtain ts2 added where ann: "announce_apply_patch k ?ts1 = (ts2, added)" by force
    have ok: "streamed_ok json_of ?ts1" "streamed_ok json_of ts2"
      using entry_streamed_ok streamed_ok_header streamed_ok_announce [of json_of ?ts1 k] ann assms(2)
      by (simp_all add: s)
    show ?thesis
    proof (cases "Option.bind (td_function tc) fd_arguments")
      case None
      then show ?thesis
        using ok assms(2) Some ann
        by (auto simp: process_tool_call_delta_def s safe_result_def Let_def tools_ok_store
            split: option.splits bind_splits)
    next
      case args: (Some a)
      then obtain f where f: "td_function tc = Some f" "fd_arguments f = Some a"
        by (auto split: bind_splits)
      obtain ts3 deltas where "append_arguments json_of k a ts2 = Ok (ts3, deltas)" "streamed_ok json_of ts3"
        using append_arguments_no_panic [OF assms(1) ok(2)] by blast
      with f Some ann assms(2) show ?thesis
        by (auto simp: process_tool_call_delta_def s safe_result_def Let_def tools_ok_store)
    qed
  qed
qed

lemma safe_and_then:
  "safe_result json_of r \<Longrightarrow> (\<And>s. tools_ok json_of (fst s) \<Longrightarrow> safe_result json_of (f s)) \<Longrightarrow>
   safe_result json_of (and_then r f)"
  by (cases r) (auto simp: safe_result_def)

lemma safe_process_tool_call_deltas:
  "json_final json_of \<Longrightarrow> tools_ok json_of (fst s) \<Longrightarrow> safe_result json_of (process_tool_call_deltas json_of tcs s)"
proof (induction tcs arbitrary: s)
  case (Cons tc tcs)
  then show ?case by (simp add: safe_and_then safe_process_tool_call_delta)
qed (simp add: safe_result_def)

text \<open>The other operations do not touch the tool calls.\<close>

lemma tool_calls_unchanged:
  "tool_calls (fst (finish_reasoning s)) = tool_calls (fst s)"
  "tool_calls (fst (finish_message s)) = tool_calls (fst s)"
  "tool_calls (fst (process_reasoning r s)) = tool_calls (fst s)"
  "tool_calls (fst (process_content c s)) = tool_calls (fst s)"
  by (cases s; auto simp: finish_reasoning_def finish_message_def process_reasoning_def process_content_def
      ensure_reasoning_started_def ensure_message_started_def split: option.splits prod.splits)+

lemma safe_process_choice:
  "json_final json_of \<Longrightarrow> tools_ok json_of (fst s) \<Longrightarrow> safe_result json_of (process_choice json_of c s)"
  by (auto simp: process_choice_def Let_def tools_ok_def tool_calls_unchanged safe_result_def [of _ "Ok _"]
      intro!: safe_process_tool_call_deltas split: option.splits)

lemma safe_process_choices:
  "json_final json_of \<Longrightarrow> tools_ok json_of (fst s) \<Longrightarrow> safe_result json_of (process_choices json_of cs s)"
proof (induction cs arbitrary: s)
  case (Cons c cs)
  then show ?case by (simp add: safe_and_then safe_process_choice)
qed (simp add: safe_result_def)

lemma safe_process_chunk:
  "json_final json_of \<Longrightarrow> tools_ok json_of st \<Longrightarrow> safe_result json_of (process_chunk json_of chunk st)"
  unfolding process_chunk_def Let_def
  by (intro safe_process_choices) (auto simp: tools_ok_def split: option.splits)

lemma safe_process_data:
  "json_final json_of \<Longrightarrow> tools_ok json_of st \<Longrightarrow>
   safe_result json_of (process_chat_completions_data json_of chunk_of st data)"
  by (auto simp: process_chat_completions_data_def safe_process_chunk safe_result_def [of _ "Err _"]
      split: option.splits sum.splits)

section \<open>Runs of the loop\<close>

lemma data_follows:
  assumes "process_chat_completions_data json_of chunk_of st data = Ok (st', evs)" "streaming st"
  shows "streaming st' \<and> accepts (abs_state st) evs = Some (abs_state st')"
proof -
  from assms(1) obtain chunk where "process_chunk json_of chunk st = Ok (st', evs)"
    by (auto simp: process_chat_completions_data_def split: option.splits sum.splits)
  from follows_process_chunk [OF this] assms(2) show ?thesis by (auto simp: follows_def)
qed

lemma process_done_not_go_on:
  assumes "process_done json_of st = (st', evs)" "send_events rx_open sent evs = (sent', go_on)"
  shows "\<not> go_on"
proof -
  from assms(1) have "\<exists>e \<in> set evs. is_completed e" by (auto simp: process_done_def split: prod.splits)
  with send_events_prefix [OF assms(2)] show ?thesis by (fastforce simp: list_all_iff)
qed

lemma sse_loop_runs:
  assumes "json_final json_of" "loop_inv st sent" "tools_ok json_of st"
  shows "\<exists>sent' waiting. process_chat_completions_sse json_of chunk_of rx_open st sent polls = Ok (sent', waiting) \<and>
    legal_trace sent' \<and> (waiting \<longrightarrow> list_all (\<lambda>x. \<not> terminal x) sent') \<and>
    (\<not> waiting \<and> (\<forall>l. rx_open l) \<longrightarrow> sent' \<noteq> [] \<and> terminal (last sent'))"
  using assms(2,3)
proof (induction polls arbitrary: st sent)
  case Nil
  then show ?case by (force simp: loop_inv_def legal_trace_def list_all_iff)
next
  case (Cons poll polls)
  have error: "legal_trace (send_error rx_open sent e) \<and>
      ((\<forall>l. rx_open l) \<longrightarrow> send_error rx_open sent e \<noteq> [] \<and> terminal (last (send_error rx_open sent e)))" for e
    using loop_inv_legal_error [OF Cons.prems(1)] by (simp add: send_error_def)
  have "streaming st" using Cons.prems(1) by (simp add: loop_inv_def)
  show ?case
  proof (cases poll)
    case (SseEvent data)
    let ?r = "if trim data = lit ''[DONE]'' then Ok (process_done json_of st)
      else process_chat_completions_data json_of chunk_of st data"
    consider (err) e where "?r = Err e"
      | (ok) st' evs where "?r = Ok (st', evs)" "accepts (abs_state st) evs = Some (abs_state st')"
          "trim data \<noteq> lit ''[DONE]'' \<Longrightarrow> streaming st' \<and> tools_ok json_of st'"
    proof (cases "trim data = lit ''[DONE]''")
      case True
      with process_done_accepts [OF \<open>streaming st\<close>] show thesis
        by (cases "process_done json_of st") (auto intro: ok)
    next
      case False
      show thesis
      proof (cases "process_chat_completions_data json_of chunk_of st data")
        case (Ok s)
        obtain st' evs where s: "s = (st', evs)" by (cases s)
        have "tools_ok json_of st'"
          using safe_process_data [OF assms(1) Cons.prems(2), of chunk_of data] Ok
          by (simp add: safe_result_def s)
        with False Ok data_follows [OF Ok [unfolded s] \<open>streaming st\<close>] show thesis
          by (intro ok [of st' evs]) (simp_all add: s)
      next
        case (Err e)
        with False show thesis by (intro err) simp
      next
        case Panic
        with safe_process_data [OF assms(1) Cons.prems(2)] show thesis by (simp add: safe_result_def)
      qed
    qed
    then show ?thesis
    proof cases
      case (err e)
      with error [of e] SseEvent show ?thesis by auto
    next
      case (ok st' evs)
      obtain sent1 go_on where sent: "send_events rx_open sent evs = (sent1, go_on)" by force
      note step = loop_inv_send [OF Cons.prems(1) ok(2) sent]
      show ?thesis
      proof (cases go_on)
        case True
        have "trim data \<noteq> lit ''[DONE]''"
          using process_done_not_go_on sent True ok(1) by (metis outcome.inject(1))
        with ok(3) step True have "loop_inv st' sent1" "tools_ok json_of st'" by auto
        from Cons.IH [OF this] show ?thesis using SseEvent ok(1) sent True by simp
      next
        case False
        with SseEvent ok(1) sent step show ?thesis by auto
      qed
    qed
  qed (use error in auto)
qed

lemma chat_stream_runs:
  assumes "json_final json_of"
  shows "\<exists>sent waiting. process_chat_completions_sse json_of chunk_of rx_open default_stream_state [] polls =
      Ok (sent, waiting) \<and> legal_trace sent \<and> (waiting \<longrightarrow> list_all (\<lambda>x. \<not> terminal x) sent) \<and>
      (\<not> waiting \<and> (\<forall>l. rx_open l) \<longrightarrow> sent \<noteq> [] \<and> terminal (last sent))"
  by (rule sse_loop_runs [OF assms loop_inv_default])
    (simp add: tools_ok_def default_stream_state_def)

text \<open>
  (C9) Every run of the Chat Completions stream follows the event protocol.  Whatever the server
  sends, and whenever the receiver stops listening, the loop does not panic; what it sends is a
  sequence of events in which items are announced before their deltas, a finished item carries what
  was streamed for it, the completion comes only when everything streamed is finished, and nothing
  follows the completion or an error.  While it waits it has sent no terminal item, and with a
  receiver that listens it ends with exactly one.
\<close>
theorem chat_stream_follows_protocol:
  assumes "json_final json_of"
  shows "\<exists>sent waiting. process_chat_completions_sse json_of chunk_of rx_open default_stream_state [] polls =
      Ok (sent, waiting) \<and> legal_trace sent \<and> (waiting \<longrightarrow> list_all (\<lambda>x. \<not> terminal x) sent) \<and>
      (\<not> waiting \<and> (\<forall>l. rx_open l) \<longrightarrow> sent \<noteq> [] \<and> terminal (last sent))"
  using assms by (rule chat_stream_runs)

text \<open>A stand-in for the JSON parser: one document with an input, one without.\<close>

definition toy_json :: "rstr \<Rightarrow> rstr + json" where
  "toy_json s =
     (if s = lit ''P'' then Inr (JObject [(APPLY_PATCH_INPUT_FIELD, JString (lit ''patch''))])
      else if s = lit ''C'' then Inr (JObject [])
      else Inl (lit ''expected value''))"

lemma toy_json_final: "json_final toy_json"
  unfolding json_final_def
proof (intro allI impI)
  fix s t i j
  have input: "apply_patch_input toy_json u = (if u = lit ''P'' then Some (lit ''patch'') else None)" for u
    by (auto simp: apply_patch_input_def toy_json_def)
  assume "apply_patch_input toy_json s = Some i" "apply_patch_input toy_json (s @ t) = Some j"
  then show "i = j" unfolding input by (auto split: if_splits)
qed

definition text_chunk :: "rstr \<Rightarrow> chat_completion_chunk" where
  "text_chunk t = \<lparr>ck_id = lit ''r'', ck_choices = [\<lparr>ch_delta = \<lparr>d_content = Some t, d_role = None,
     d_reasoning_content = None, d_tool_calls = None\<rparr>, ch_finish_reason = None, ch_index = 0, ch_logprobs = None\<rparr>],
     ck_created = 0, ck_model = lit ''m'', ck_object = lit ''o'', ck_usage = None, ck_system_fingerprint = None\<rparr>"

definition toy_chunk :: "rstr \<Rightarrow> rstr + chat_completion_chunk" where
  "toy_chunk s = (if s = lit ''C'' then Inr (text_chunk (lit ''hi'')) else Inl (lit ''missing field''))"

lemma toy_run:
  "process_chat_completions_sse toy_json toy_chunk (\<lambda>_. True) default_stream_state []
     [SseEvent (lit ''C''), SseEvent (lit ''C''), SseEvent (lit ''[DONE]'')] =
   Ok (map Inr [OutputItemAdded (assistant_message []), OutputTextDelta (lit ''hi''), OutputTextDelta (lit ''hi''),
      OutputItemDone (assistant_message [OutputText (lit ''hihi'')]), Completed (lit ''r'') None (Some True)], False)"
  by (simp add: default_stream_state_def process_chat_completions_data_def chat_error_def toy_json_def toy_chunk_def
      text_chunk_def process_chunk_def process_choice_def process_content_def process_reasoning_def
      ensure_message_started_def finish_reasoning_def finish_message_def process_done_def trim_id is_whitespace_def
      assistant_message_def)

theorem chat_stream_follows_protocol_witness:
  "legal_trace (map Inr [OutputItemAdded (assistant_message []), OutputTextDelta (lit ''hi''),
     OutputTextDelta (lit ''hi''), OutputItemDone (assistant_message [OutputText (lit ''hihi'')]),
     Completed (lit ''r'') None (Some True)])"
  using chat_stream_follows_protocol [OF toy_json_final, where chunk_of = toy_chunk and rx_open = "\<lambda>_. True" and
      polls = "[SseEvent (lit ''C''), SseEvent (lit ''C''), SseEvent (lit ''[DONE]'')]"]
  unfolding toy_run by (metis (no_types, lifting) outcome.inject(1) prod.inject)

section \<open>What a completed stream says\<close>

definition streamed_text :: "response_event list \<Rightarrow> rstr" where
  "streamed_text evs = concat (map (\<lambda>e. case e of OutputTextDelta t \<Rightarrow> t | _ \<Rightarrow> []) evs)"

definition finished_messages :: "response_event list \<Rightarrow> content_item list list" where
  "finished_messages evs =
     concat (map (\<lambda>e. case e of OutputItemDone (Message _ _ items _) \<Rightarrow> [items] | _ \<Rightarrow> []) evs)"

lemma accept_step:
  assumes "accept p e = Some q"
  shows "p_text q = p_text p @ streamed_text [e] \<and> (p_text_done p \<longrightarrow> p_text_done q \<and> p_text q = p_text p) \<and>
    finished_messages [e] = (if p_text_done q \<and> \<not> p_text_done p then [[OutputText (p_text q)]] else []) \<and>
    (p_text_done q \<and> \<not> p_text_done p \<longrightarrow> p_text q \<noteq> []) \<and>
    (p_over q \<longleftrightarrow> is_completed e) \<and> (is_completed e \<longrightarrow> p_text q = [] \<or> p_text_done q)"
  using assms unfolding accept_def
  by (cases e; simp split: if_splits)
    (auto simp: streamed_text_def finished_messages_def split: if_splits elim!: accept_added.elims accept_done.elims)

lemma accepts_summary:
  "accepts protocol_start evs = Some q \<Longrightarrow>
   p_text q = streamed_text evs \<and>
   finished_messages evs = (if p_text_done q then [[OutputText (p_text q)]] else []) \<and>
   (p_text_done q \<longrightarrow> p_text q \<noteq> []) \<and>
   (p_over q \<longleftrightarrow> (\<exists>e \<in> set evs. is_completed e)) \<and>
   (p_over q \<longrightarrow> is_completed (last evs) \<and> (p_text q = [] \<or> p_text_done q))"
proof (induction evs arbitrary: q rule: rev_induct)
  case Nil
  then show ?case by (auto simp: protocol_start_def streamed_text_def finished_messages_def)
next
  case (snoc e evs)
  then obtain p where p: "accepts protocol_start evs = Some p" "accept p e = Some q"
    by (auto simp: accepts_append bind_eq_Some_conv)
  have "\<not> p_over p" using p(2) by (auto simp: accept_def)
  moreover have "streamed_text (evs @ [e]) = streamed_text evs @ streamed_text [e]"
    "finished_messages (evs @ [e]) = finished_messages evs @ finished_messages [e]"
    by (simp_all add: streamed_text_def finished_messages_def)
  ultimately show ?case
    using snoc.IH [OF p(1)] accept_step [OF p(2)] by auto
qed

text \<open>
  (C10) In a response that was completed, the text of the finished assistant message is exactly the
  concatenation of the text deltas that were streamed: one finished message with that text, or none
  when nothing was streamed; and the completion is the last thing sent.
\<close>
theorem completed_text_is_streamed_text:
  assumes "json_final json_of"
    "process_chat_completions_sse json_of chunk_of rx_open default_stream_state [] polls = Ok (sent, waiting)"
    "Inr (Completed i u b) \<in> set sent"
  shows "\<exists>evs. sent = map Inr evs \<and> is_completed (last evs) \<and>
    finished_messages evs = (if streamed_text evs = [] then [] else [[OutputText (streamed_text evs)]])"
proof -
  have "legal_trace sent" using chat_stream_runs [OF assms(1)] assms(2) by (metis outcome.inject(1) prod.inject)
  then obtain evs q where evs: "accepts protocol_start evs = Some q"
    "sent = map Inr evs \<or> (\<exists>e. sent = map Inr evs @ [Inl e]) \<and> list_all (\<lambda>e. \<not> is_completed e) evs"
    by (auto simp: legal_trace_def)
  with assms(3) have sent: "sent = map Inr evs" by (fastforce simp: list_all_iff)
  then have over: "p_over q" using accepts_summary [OF evs(1)] assms(3) by force
  with accepts_summary [OF evs(1)] sent show ?thesis by (intro exI [of _ evs]) auto
qed

theorem completed_text_is_streamed_text_witness:
  "\<exists>evs. (map Inr [OutputItemAdded (assistant_message []), OutputTextDelta (lit ''hi''),
       OutputTextDelta (lit ''hi''), OutputItemDone (assistant_message [OutputText (lit ''hihi'')]),
       Completed (lit ''r'') None (Some True)] :: sent_item list) = map Inr evs \<and> is_completed (last evs) \<and>
    finished_messages evs = (if streamed_text evs = [] then [] else [[OutputText (streamed_text evs)]])"
  by (rule completed_text_is_streamed_text [OF toy_json_final toy_run]) simp

section \<open>Tool calls at the end of the stream\<close>

text \<open>The tool call deltas of a chunk, of the primary choice only.\<close>

definition chunk_tool_deltas :: "chat_completion_chunk \<Rightarrow> chat_tool_call_delta list" where
  "chunk_tool_deltas chunk = concat (map (\<lambda>c. case d_tool_calls (ch_delta c) of Some tcs \<Rightarrow> tcs | None \<Rightarrow> [])
     (filter (\<lambda>c. ch_index c = 0) (ck_choices chunk)))"

fun run_chunks ::
  "(rstr \<Rightarrow> rstr + json) \<Rightarrow> chat_completion_chunk list \<Rightarrow> chat_stream_state \<Rightarrow> (api_error, chat_stream_state) outcome" where
  "run_chunks json_of [] st = Ok st"
| "run_chunks json_of (c # cs) st =
     and_then (process_chunk json_of c st) (\<lambda>(st, _). run_chunks json_of cs st)"

text \<open>What the deltas say of the call with index \<open>k\<close>: the last identity, the last name, all arguments.\<close>

definition call_spec :: "chat_tool_call_delta list \<Rightarrow> nat \<Rightarrow> tool_core" where
  "call_spec ds k = fold core_update (filter (\<lambda>d. td_index d = Some k) ds) (None, None, [])"

definition tool_cores :: "chat_stream_state \<Rightarrow> (nat \<times> tool_core) list" where
  "tool_cores st = map (apsnd tool_core) (tool_calls st)"

definition core_runs :: "chat_tool_call_delta list \<Rightarrow> (nat \<times> (tool_core \<Rightarrow> tool_core)) list" where
  "core_runs ds = map (\<lambda>d. (the (td_index d), core_update d)) ds"

abbreviation run_cores :: "chat_tool_call_delta list \<Rightarrow> (nat \<times> tool_core) list \<Rightarrow> (nat \<times> tool_core) list" where
  "run_cores ds m \<equiv> bt.run (None, None, []) (core_runs ds) m"

lemma run_cores_append: "run_cores (a @ b) m = run_cores b (run_cores a m)"
  by (simp add: bt.run_def core_runs_def)

lemma tool_cores_lookup:
  "(case map_of (tool_cores st) k of None \<Rightarrow> (None, None, []) | Some c \<Rightarrow> c) = tool_core (entry_or_default st k)"
proof -
  have "map_of (tool_cores st) k = map_option tool_core (map_of (tool_calls st) k)"
    by (simp add: tool_cores_def map_of_apsnd)
  then show ?thesis
    by (auto simp: entry_or_default_def default_tool_call_def tool_core_def split: option.splits)
qed

definition tracks :: "chat_tool_call_delta list \<Rightarrow> stream_step \<Rightarrow> stream_step \<Rightarrow> bool" where
  "tracks ds s s' \<longleftrightarrow> list_all (\<lambda>d. td_index d \<noteq> None) ds \<and>
     (bt_inv (tool_cores (fst s)) \<longrightarrow> tool_cores (fst s') = run_cores ds (tool_cores (fst s)))"

lemma tracks_append: "tracks a s s' \<Longrightarrow> tracks b s' s'' \<Longrightarrow> tracks (a @ b) s s''"
  using bt.inv_run [of "tool_cores (fst s)"] by (auto simp: tracks_def run_cores_append)

lemma tracks_Nil: "tool_calls (fst s') = tool_calls (fst s) \<Longrightarrow> tracks [] s s'"
  by (simp add: tracks_def tool_cores_def core_runs_def bt.run_def)

lemma tracks_process_tool_call_delta:
  assumes "process_tool_call_delta json_of tc s = Ok s'"
  shows "tracks [tc] s s'"
proof -
  obtain st evs where s: "s = (st, evs)" by (cases s)
  obtain k ts new where d: "td_index tc = Some k"
    "s' = (st\<lparr>tool_calls := bt_entry k default_tool_call (\<lambda>_. ts) (tool_calls st)\<rparr>, evs @ new)"
    "tool_core ts = core_update tc (tool_core (entry_or_default st k))"
    using process_tool_call_delta_Ok [OF assms [unfolded s]] by metis
  have "tool_cores (fst s') = bt_entry k (None, None, []) (\<lambda>_. tool_core ts) (tool_cores st)"
    using d(2) by (simp add: tool_cores_def map_bt_entry default_tool_call_def tool_core_def [of "\<lparr>ts_id = _, ts_name = _,
      ts_arguments = _, ts_added = _, ts_streamed_input_len = _\<rparr>"])
  then show ?thesis
    using bt_entry_const [of "tool_cores st" k "(None, None, [])" "core_update tc"] d(1,3)
    by (simp add: tracks_def s core_runs_def bt.run_def tool_cores_lookup)
qed

lemma tracks_process_tool_call_deltas:
  "process_tool_call_deltas json_of tcs s = Ok s' \<Longrightarrow> tracks tcs s s'"
proof (induction tcs arbitrary: s)
  case (Cons tc tcs)
  then obtain s1 where s1: "process_tool_call_delta json_of tc s = Ok s1"
    "process_tool_call_deltas json_of tcs s1 = Ok s'" by (auto simp: outcome_simps)
  from tracks_append [OF tracks_process_tool_call_delta [OF s1(1)] Cons.IH [OF s1(2)]] show ?case by simp
qed (simp add: tracks_Nil)

lemma tracks_process_choice:
  assumes "process_choice json_of c s = Ok s'"
  shows "tracks (if ch_index c = 0 then case d_tool_calls (ch_delta c) of Some tcs \<Rightarrow> tcs | None \<Rightarrow> [] else []) s s'"
proof (cases "ch_index c = 0")
  case True
  let ?s1 = "process_content (d_content (ch_delta c)) (process_reasoning (d_reasoning_content (ch_delta c)) s)"
  show ?thesis
  proof (cases "d_tool_calls (ch_delta c)")
    case None
    with assms True have "s' = ?s1" by (simp add: process_choice_def Let_def)
    with True None show ?thesis by (simp add: tracks_Nil tool_calls_unchanged)
  next
    case (Some tcs)
    with assms True have "tracks tcs (finish_reasoning ?s1) s'"
      by (intro tracks_process_tool_call_deltas) (simp add: process_choice_def Let_def)
    moreover have "tracks [] s (finish_reasoning ?s1)" by (simp add: tracks_Nil tool_calls_unchanged)
    ultimately show ?thesis using tracks_append [of "[]"] True Some by fastforce
  qed
qed (use assms in \<open>simp add: process_choice_def tracks_Nil\<close>)

lemma tracks_process_choices:
  "process_choices json_of cs s = Ok s' \<Longrightarrow>
   tracks (concat (map (\<lambda>c. case d_tool_calls (ch_delta c) of Some tcs \<Rightarrow> tcs | None \<Rightarrow> [])
     (filter (\<lambda>c. ch_index c = 0) cs))) s s'"
proof (induction cs arbitrary: s)
  case (Cons c cs)
  then obtain s1 where s1: "process_choice json_of c s = Ok s1" "process_choices json_of cs s1 = Ok s'"
    by (auto simp: outcome_simps)
  from tracks_append [OF tracks_process_choice [OF s1(1)] Cons.IH [OF s1(2)]] show ?case
    by (auto split: if_splits)
qed (simp add: tracks_Nil)

lemma tracks_process_chunk:
  assumes "process_chunk json_of chunk st = Ok s'"
  shows "tracks (chunk_tool_deltas chunk) (st, []) s'"
proof -
  obtain st1 where st1: "process_choices json_of (ck_choices chunk) (st1, []) = Ok s'" "tool_calls st1 = tool_calls st"
    using assms by (auto simp: process_chunk_def Let_def split: option.splits)
  from tracks_process_choices [OF st1(1)] st1(2) show ?thesis
    by (simp add: tracks_def tool_cores_def chunk_tool_deltas_def)
qed

lemma tracks_run_chunks:
  "run_chunks json_of cs st = Ok st' \<Longrightarrow> tracks (concat (map chunk_tool_deltas cs)) (st, []) (st', [])"
proof (induction cs arbitrary: st)
  case (Cons c cs)
  then obtain st1 evs where st1: "process_chunk json_of c st = Ok (st1, evs)" "run_chunks json_of cs st1 = Ok st'"
    by (auto simp: outcome_simps)
  have "tracks (concat (map chunk_tool_deltas cs)) (st1, evs) (st', [])"
    using Cons.IH [OF st1(2)] by (simp add: tracks_def)
  from tracks_append [OF tracks_process_chunk [OF st1(1)] this] show ?case by simp
qed (simp add: tracks_Nil)

lemma fold_core_runs:
  assumes "list_all (\<lambda>d. td_index d \<noteq> None) ds"
  shows "fold (\<lambda>(k', f) v. if k' = k then f v else v) (core_runs ds) v =
    fold core_update (filter (\<lambda>d. td_index d = Some k) ds) v"
  using assms by (induction ds arbitrary: v) (auto simp: core_runs_def)

lemma run_cores_spec:
  assumes "list_all (\<lambda>d. td_index d \<noteq> None) ds"
  shows "run_cores ds [] = map (\<lambda>k. (k, call_spec ds k)) (sorted_list_of_set ((the \<circ> td_index) ` set ds))"
    (is "?m = map _ (sorted_list_of_set ?K)")
proof -
  have inv: "bt_inv ?m" by (rule bt.inv_run) (simp add: bt_inv_def)
  have look: "map_of ?m k = (if k \<in> ?K then Some (call_spec ds k) else None)" for k
  proof -
    have "fst ` set (core_runs ds) = ?K" by (simp add: core_runs_def image_image comp_def)
    then show ?thesis
      using bt.lookup_run [of "[]" "(None, None, [])" "core_runs ds" k] fold_core_runs [OF assms]
      by (simp add: bt_inv_def call_spec_def)
  qed
  have keys: "map fst ?m = sorted_list_of_set ?K"
  proof (rule sorted_distinct_set_unique)
    show "sorted (map fst ?m)" "distinct (map fst ?m)"
      using inv by (auto simp: bt_inv_def strict_sorted_iff)
    show "set (map fst ?m) = set (sorted_list_of_set ?K)"
    proof -
      have "k \<in> fst ` set ?m \<longleftrightarrow> k \<in> ?K" for k
        using look [of k] map_of_eq_None_iff [of ?m k] by (cases "k \<in> ?K") auto
      then show ?thesis by auto
    qed
  qed auto
  have "map (\<lambda>k. (k, the (map_of ?m k))) (map fst ?m) = ?m"
    using bt.items_distinct [OF inv] by (auto simp: comp_def intro!: map_idI)
  then have "?m = map (\<lambda>k. (k, the (map_of ?m k))) (map fst ?m)" by (rule sym)
  also have "\<dots> = map (\<lambda>k. (k, call_spec ds k)) (sorted_list_of_set ?K)"
    unfolding keys by (rule map_cong) (auto simp: look)
  finally show ?thesis .
qed

text \<open>The item of a finished call depends only on its identity, name and arguments.\<close>

definition core_item :: "(rstr \<Rightarrow> rstr + json) \<Rightarrow> tool_core \<Rightarrow> response_item" where
  "core_item json_of = (\<lambda>(i, n, a). tool_call_item json_of
     \<lparr>ts_id = i, ts_name = n, ts_arguments = a, ts_added = False, ts_streamed_input_len = 0\<rparr>)"

lemma tool_call_item_core: "tool_call_item json_of ts = core_item json_of (tool_core ts)"
  by (simp add: tool_call_item_def core_item_def tool_core_def Let_def split: option.split)

definition finished_calls :: "response_event list \<Rightarrow> response_item list" where
  "finished_calls evs = concat (map (\<lambda>e. case e of
     OutputItemDone item \<Rightarrow> (case item of Message _ _ _ _ \<Rightarrow> [] | Reasoning _ _ _ _ \<Rightarrow> [] | _ \<Rightarrow> [item])
   | _ \<Rightarrow> []) evs)"

lemma process_done_calls:
  "finished_calls (snd (process_done json_of st)) = map (core_item json_of \<circ> snd) (tool_cores st)"
proof -
  obtain st1 evs where f: "finish_reasoning (finish_message (st, [])) = (st1, evs)" by force
  then have "finished_calls evs = []" "tool_calls st1 = tool_calls st"
    by (auto simp: finish_reasoning_def finish_message_def finished_calls_def assistant_message_def
        reasoning_item_def split: if_splits)
  moreover have append: "finished_calls (xs @ ys) = finished_calls xs @ finished_calls ys" for xs ys
    by (simp add: finished_calls_def)
  moreover have "finished_calls (map (\<lambda>(_, ts). OutputItemDone (tool_call_item json_of ts)) m) =
      map (\<lambda>(_, ts). tool_call_item json_of ts) m" for m :: "(nat \<times> tool_call_state) list"
    by (induction m) (auto simp: finished_calls_def tool_call_item_def Let_def)
  moreover have "finished_calls [Completed i u b] = []" for i u b by (simp add: finished_calls_def)
  ultimately show ?thesis
    by (simp add: process_done_def f tool_cores_def tool_call_item_core case_prod_beta comp_def)
qed

text \<open>
  (C11) The tool calls reported when the stream ends are the ones the chunks spell out: one per
  index that occurs, in increasing order of the index, each with the last identity and the last name
  given for its index and with the concatenation of all its argument pieces, however the pieces were
  spread over the chunks and interleaved with other calls.
\<close>
theorem finished_calls_spec:
  assumes "run_chunks json_of chunks default_stream_state = Ok st"
  shows "let ds = concat (map chunk_tool_deltas chunks) in
    finished_calls (snd (process_done json_of st)) =
    map (\<lambda>k. core_item json_of (call_spec ds k)) (sorted_list_of_set ((the \<circ> td_index) ` set ds))"
proof -
  let ?ds = "concat (map chunk_tool_deltas chunks)"
  have "tool_cores default_stream_state = []" by (simp add: tool_cores_def default_stream_state_def)
  with tracks_run_chunks [OF assms] have "tool_cores st = run_cores ?ds []"
    "list_all (\<lambda>d. td_index d \<noteq> None) ?ds"
    by (simp_all add: tracks_def bt_inv_def)
  then show ?thesis by (simp add: process_done_calls run_cores_spec comp_def Let_def)
qed

definition call_delta :: "nat \<Rightarrow> rstr option \<Rightarrow> rstr option \<Rightarrow> rstr \<Rightarrow> chat_tool_call_delta" where
  "call_delta k i n a = \<lparr>td_index = Some k, td_id = i, td_function = Some \<lparr>fd_name = n, fd_arguments = Some a\<rparr>\<rparr>"

definition call_chunk :: "chat_tool_call_delta list \<Rightarrow> chat_completion_chunk" where
  "call_chunk tcs = \<lparr>ck_id = lit ''r'', ck_choices = [\<lparr>ch_delta = \<lparr>d_content = None, d_role = None,
     d_reasoning_content = None, d_tool_calls = Some tcs\<rparr>, ch_finish_reason = None, ch_index = 0, ch_logprobs = None\<rparr>],
     ck_created = 0, ck_model = lit ''m'', ck_object = lit ''o'', ck_usage = None, ck_system_fingerprint = None\<rparr>"

lemmas chunk_eval =
  process_chunk_def process_choice_def process_content_def process_reasoning_def finish_reasoning_def
  process_tool_call_delta_def entry_or_default_def default_tool_call_def default_stream_state_def
  tool_call_header_def announce_apply_patch_def append_arguments_def APPLY_PATCH_TOOL_NAME_def

theorem finished_calls_spec_witness:
  "\<exists>st. run_chunks toy_json
      [call_chunk [call_delta 1 (Some (lit ''b'')) (Some (lit ''g'')) (lit ''{'')],
       call_chunk [call_delta 0 (Some (lit ''a'')) (Some (lit ''f'')) [], call_delta 1 None None (lit ''}'')]]
      default_stream_state = Ok st \<and>
    finished_calls (snd (process_done toy_json st)) =
      [FunctionCall None (lit ''f'') None [] (lit ''a''), FunctionCall None (lit ''g'') None (lit ''{}'') (lit ''b'')]"
proof -
  let ?cs = "[call_chunk [call_delta 1 (Some (lit ''b'')) (Some (lit ''g'')) (lit ''{'')],
       call_chunk [call_delta 0 (Some (lit ''a'')) (Some (lit ''f'')) [], call_delta 1 None None (lit ''}'')]]"
  have "\<exists>st. run_chunks toy_json ?cs default_stream_state = Ok st"
    by (simp add: call_chunk_def call_delta_def chunk_eval)
  then obtain st where st: "run_chunks toy_json ?cs default_stream_state = Ok st" by blast
  have "finished_calls (snd (process_done toy_json st)) =
      [FunctionCall None (lit ''f'') None [] (lit ''a''), FunctionCall None (lit ''g'') None (lit ''{}'') (lit ''b'')]"
  proof -
    let ?ds = "[call_delta 1 (Some (lit ''b'')) (Some (lit ''g'')) (lit ''{''),
      call_delta 0 (Some (lit ''a'')) (Some (lit ''f'')) [], call_delta 1 None None (lit ''}'')]"
    have ds: "concat (map chunk_tool_deltas ?cs) = ?ds" by (simp add: chunk_tool_deltas_def call_chunk_def)
    have "(the \<circ> td_index) ` set ?ds = {0..<2}" by (auto simp: call_delta_def)
    then have keys: "sorted_list_of_set ((the \<circ> td_index) ` set ?ds) = [0, 1]" by (simp add: upt_rec)
    have "call_spec ?ds 0 = (Some (lit ''a''), Some (lit ''f''), [])"
      "call_spec ?ds 1 = (Some (lit ''b''), Some (lit ''g''), lit ''{}'')"
      by (simp_all add: call_spec_def call_delta_def core_update_def override_def delta_name_def delta_arguments_def)
    then show ?thesis
      using finished_calls_spec [OF st] unfolding ds Let_def keys
      by (simp add: core_item_def tool_call_item_def APPLY_PATCH_TOOL_NAME_def)
  qed
  with st show ?thesis by blast
qed

text \<open>
  A tool call delta without an index ends the stream with an error: no event of its chunk is
  sent, and in particular no tool call is guessed from it.
\<close>
theorem missing_index_is_error:
  assumes "td_index tc = None"
  shows "process_tool_call_deltas json_of (tc # tcs) step =
    Err (StreamError (lit ''chat completion tool call delta missing index''))"
  using assms by (cases step) (simp add: process_tool_call_delta_def)

theorem missing_index_is_error_witness:
  "process_tool_call_deltas toy_json [\<lparr>td_index = None, td_id = None, td_function = None\<rparr>] (default_stream_state, []) =
   Err (StreamError (lit ''chat completion tool call delta missing index''))"
  by (rule missing_index_is_error) simp

section \<open>Token counts\<close>

text \<open>
  Token counts below \<open>2^63\<close> are reported unchanged and a larger one wraps to a negative number:
  the cast from \<^verbatim>\<open>u64\<close> to \<^verbatim>\<open>i64\<close> loses nothing but the sign.
\<close>
theorem usage_counts_wrap:
  "to_i64 (Some tokens) =
   (if uint tokens < 2 ^ 63 then uint tokens else uint tokens - 2 ^ 64)"
proof -
  have "uint tokens < 2 ^ 64" using unsigned_less [of tokens, where 'a = int] by simp
  moreover have "sint tokens = (uint tokens + 2 ^ 63) mod 2 ^ 64 - 2 ^ 63"
    using int_word_sint [of "uint tokens", where 'a = 64] by simp
  moreover have "(x + 2 ^ 63) mod 2 ^ 64 = (if x < 2 ^ 63 then x + 2 ^ 63 else x - 2 ^ 63)"
    if "0 \<le> x" "x < 2 ^ 64" for x :: int
    using that mod_add_self2 [of "x - 2 ^ 63" "2 ^ 64"] by (auto simp: mod_pos_pos_trivial add.commute)
  ultimately show ?thesis by (auto simp: to_i64_def)
qed

section \<open>Reasoning after the answer has begun\<close>

text \<open>
  Reasoning is finished by the first answer text.  Reasoning that comes later is streamed as deltas
  but belongs to no finished item.
\<close>

lemma late_reasoning_in_no_item:
  "let s = process_reasoning (Some (lit ''b'')) (process_content (Some (lit ''x''))
       (process_reasoning (Some (lit ''a'')) (default_stream_state, [])));
     evs = snd s @ snd (process_done toy_json (fst s))
   in ReasoningContentDelta (lit ''b'') 0 \<in> set evs \<and>
     [item \<leftarrow> [case e of OutputItemDone i \<Rightarrow> i | _ \<Rightarrow> OtherItem. e \<leftarrow> evs].
        (case item of Reasoning _ _ _ _ \<Rightarrow> True | _ \<Rightarrow> False)] = [reasoning_item (Some [ReasoningText (lit ''a'')])]"
  by (simp add: process_reasoning_def process_content_def default_stream_state_def ensure_reasoning_started_def
      ensure_message_started_def finish_reasoning_def finish_message_def process_done_def
      assistant_message_def reasoning_item_def)

end
