(* ===== verification/Chat_Request.thy ===== *)
theory Chat_Request
  imports Protocol_Items
begin

text \<open>
  The request side of the Chat Completions client, \<^verbatim>\<open>codex-rs/core/src/chat_completions.rs\<close>: the
  conversation items of a prompt become chat messages, the tool specifications become chat tools
  (with the schemas tightened in strict mode), and the reasoning effort becomes the thinking
  settings.  \<open>to_json_text\<close> is \<^verbatim>\<open>serde_json::to_string\<close> and \<open>schema_value\<close> is \<^verbatim>\<open>serde_json::to_value\<close> on a
  schema; the loops over an index are recursions over the items that are left.

  The lemmas show that building the messages succeeds exactly for the supported items, that nothing
  of the conversation is lost, reordered or invented, that reasoning is replayed only where tool
  calls need it, and that strict schemas close every object they describe.
\<close>

section \<open>Errors\<close>

datatype codex_err = UnsupportedOperation rstr

definition unsupported_images_message :: rstr where
  "unsupported_images_message = lit ''Chat Completions request adapter does not support images''"

fun unsupported_item_name :: "response_item \<Rightarrow> rstr" where
  "unsupported_item_name (LocalShellCall _ _ _ _) = lit ''local shell call''"
| "unsupported_item_name (ToolSearchCall _ _ _ _ _) = lit ''tool search call''"
| "unsupported_item_name (CustomToolCall _ _ _ _ _) = lit ''custom tool call''"
| "unsupported_item_name (CustomToolCallOutput _ _ _) = lit ''custom tool call output''"
| "unsupported_item_name (ToolSearchOutput _ _ _ _) = lit ''tool search output''"
| "unsupported_item_name (WebSearchCall _ _ _) = lit ''web search call''"
| "unsupported_item_name (ImageGenerationCall _ _ _ _) = lit ''image generation call''"
| "unsupported_item_name _ = lit ''unknown item''"

definition unsupported_item :: "response_item \<Rightarrow> codex_err" where
  "unsupported_item item = UnsupportedOperation
     (lit ''Chat Completions request adapter does not support '' @ unsupported_item_name item)"

section \<open>Texts\<close>

fun content_parts :: "content_item list \<Rightarrow> (codex_err, rstr list) outcome" where
  "content_parts [] = Ok []"
| "content_parts (InputText t # items) = and_then (content_parts items) (\<lambda>ps. Ok (t # ps))"
| "content_parts (OutputText t # items) = and_then (content_parts items) (\<lambda>ps. Ok (t # ps))"
| "content_parts (InputImage _ _ # items) = Err (UnsupportedOperation unsupported_images_message)"

definition content_text :: "content_item list \<Rightarrow> (codex_err, rstr) outcome" where
  "content_text content = and_then (content_parts content) (\<lambda>parts. Ok (join [newline] parts))"

fun reasoning_item_text :: "reasoning_item_content \<Rightarrow> rstr" where
  "reasoning_item_text (ReasoningText t) = t"
| "reasoning_item_text (ReasoningPlain t) = t"

definition reasoning_content_text :: "reasoning_item_content list option \<Rightarrow> rstr option" where
  "reasoning_content_text content =
     (case content of
        None \<Rightarrow> None
      | Some items \<Rightarrow>
          let parts = map reasoning_item_text items in
          if parts = [] then None else Some (join [newline] parts))"

definition function_output_text :: "function_call_output_payload \<Rightarrow> (codex_err, rstr) outcome" where
  "function_output_text output =
     (case body output of
        BodyText t \<Rightarrow> Ok t
      | ContentItems _ \<Rightarrow> Err (UnsupportedOperation
          (lit ''Chat Completions request adapter does not support structured tool output'')))"

definition role_assistant :: rstr where "role_assistant = lit ''assistant''"
definition role_user :: rstr where "role_user = lit ''user''"
definition role_system :: rstr where "role_system = lit ''system''"
definition role_developer :: rstr where "role_developer = lit ''developer''"

lemmas role_defs = role_assistant_def role_user_def role_system_def role_developer_def

definition chat_message_from_content ::
  "rstr \<Rightarrow> content_item list \<Rightarrow> rstr option \<Rightarrow> (codex_err, chat_message) outcome" where
  "chat_message_from_content role content reasoning_content =
     and_then (content_text content) (\<lambda>text.
       if role = role_system \<or> role = role_developer then Ok (SystemMessage text None)
       else if role = role_user then Ok (UserMessage text None)
       else if role = role_assistant then Ok (AssistantMessage (Some text) None None reasoning_content None)
       else Err (UnsupportedOperation
              (lit ''Chat Completions does not support message role `'' @ role @ lit ''`'')))"

section \<open>Tool calls\<close>

text \<open>\<^verbatim>\<open>to_json_text\<close> fails or returns the text of the document.\<close>

definition apply_patch_chat_arguments ::
  "(json \<Rightarrow> rstr + rstr) \<Rightarrow> rstr \<Rightarrow> (codex_err, rstr) outcome" where
  "apply_patch_chat_arguments to_json_text input =
     (case to_json_text (JObject [(APPLY_PATCH_INPUT_FIELD, JString input)]) of
        Inr t \<Rightarrow> Ok t
      | Inl err \<Rightarrow> Err (UnsupportedOperation (lit ''failed to encode apply_patch arguments: '' @ err)))"

fun is_supported_chat_tool_call :: "response_item \<Rightarrow> bool" where
  "is_supported_chat_tool_call (FunctionCall _ _ _ _ _) = True"
| "is_supported_chat_tool_call (CustomToolCall _ _ _ name _) = (name = APPLY_PATCH_TOOL_NAME)"
| "is_supported_chat_tool_call _ = False"

fun chat_tool_call_from_item ::
  "(json \<Rightarrow> rstr + rstr) \<Rightarrow> response_item \<Rightarrow> (codex_err, chat_tool_call option) outcome" where
  "chat_tool_call_from_item to_json_text (FunctionCall i name ns arguments call) =
     Ok (Some \<lparr>tc_id = call, tc_function = \<lparr>fn_name = name, fn_arguments = arguments\<rparr>\<rparr>)"
| "chat_tool_call_from_item to_json_text (CustomToolCall i st call name input) =
     (if name = APPLY_PATCH_TOOL_NAME
      then and_then (apply_patch_chat_arguments to_json_text input) (\<lambda>arguments.
             Ok (Some \<lparr>tc_id = call, tc_function = \<lparr>fn_name = name, fn_arguments = arguments\<rparr>\<rparr>))
      else Err (unsupported_item (CustomToolCall i st call name input)))"
| "chat_tool_call_from_item to_json_text _ = Ok None"

text \<open>The tool calls at the front of the items, and the items after them.\<close>

fun collect_tool_call_list ::
  "(json \<Rightarrow> rstr + rstr) \<Rightarrow> response_item list \<Rightarrow> (codex_err, chat_tool_call list \<times> response_item list) outcome" where
  "collect_tool_call_list to_json_text [] = Ok ([], [])"
| "collect_tool_call_list to_json_text (item # items) =
     and_then (chat_tool_call_from_item to_json_text item) (\<lambda>r.
       case r of
         None \<Rightarrow> Ok ([], item # items)
       | Some tc \<Rightarrow>
           and_then (collect_tool_call_list to_json_text items) (\<lambda>(tcs, rest). Ok (tc # tcs, rest)))"

definition collect_tool_calls ::
  "(json \<Rightarrow> rstr + rstr) \<Rightarrow> response_item list \<Rightarrow>
   (codex_err, chat_tool_call list option \<times> response_item list) outcome" where
  "collect_tool_calls to_json_text items =
     and_then (collect_tool_call_list to_json_text items) (\<lambda>(tcs, rest).
       Ok (if tcs \<noteq> [] then Some tcs else None, rest))"

lemma collect_tool_call_list_length:
  "collect_tool_call_list to_json_text items = Ok (tcs, rest) \<Longrightarrow> length rest + length tcs = length items"
  by (induction items arbitrary: tcs)
    (auto simp: outcome_simps split: option.splits)

lemma collect_tool_calls_length:
  "collect_tool_calls to_json_text items = Ok (r, rest) \<Longrightarrow> length rest \<le> length items"
  using collect_tool_call_list_length by (fastforce simp: collect_tool_calls_def outcome_simps)

lemma collect_tool_calls_shorter:
  assumes "collect_tool_calls to_json_text (item # items) = Ok (r, rest)"
    "chat_tool_call_from_item to_json_text item \<noteq> Ok None"
  shows "length rest < Suc (length items)"
proof -
  from assms(1) obtain tcs where tcs: "collect_tool_call_list to_json_text (item # items) = Ok (tcs, rest)"
    by (auto simp: collect_tool_calls_def outcome_simps)
  with assms(2) have "tcs \<noteq> []" by (auto simp: outcome_simps split: option.splits)
  with collect_tool_call_list_length [OF tcs] show ?thesis by (cases tcs) auto
qed

text \<open>Both kinds of call are consumed, so the loop over the items goes on.\<close>

lemma collect_function_shorter:
  "collect_tool_calls to_json_text (FunctionCall i n ns a c # items) = Ok (r, rest) \<Longrightarrow> length rest < Suc (length items)"
  by (erule collect_tool_calls_shorter) simp

lemma collect_custom_shorter:
  "collect_tool_calls to_json_text (CustomToolCall i st c n inp # items) = Ok (r, rest) \<Longrightarrow> length rest < Suc (length items)"
  by (erule collect_tool_calls_shorter) (auto simp: outcome_simps)

section \<open>Messages\<close>

text \<open>One assistant message, and the items left after the tool calls it carries.\<close>

definition assistant_step ::
  "rstr option \<Rightarrow> rstr option \<Rightarrow> chat_tool_call list option \<Rightarrow> chat_message" where
  "assistant_step content reasoning tcs = AssistantMessage content None None reasoning tcs"

function segment_messages ::
  "(json \<Rightarrow> rstr + rstr) \<Rightarrow> bool \<Rightarrow> rstr option \<Rightarrow> response_item list \<Rightarrow>
   (codex_err, chat_message list) outcome" where
  "segment_messages to_json_text has_tool_call pending [] = Ok []"
| "segment_messages to_json_text has_tool_call pending (item # items) =
     (case item of
        Reasoning _ _ content _ \<Rightarrow>
          segment_messages to_json_text has_tool_call (reasoning_content_text content) items
      | Message _ role content _ \<Rightarrow>
          if role = role_assistant then
            and_then (content_text content) (\<lambda>text.
            and_then (collect_tool_calls to_json_text items) (\<lambda>(tcs, rest).
              let reasoning = (if has_tool_call then pending else None);
                  pending = (if has_tool_call then None else pending)
              in and_then (segment_messages to_json_text has_tool_call pending rest) (\<lambda>ms.
                   Ok (assistant_step (Some text) reasoning tcs # ms))))
          else
            and_then (chat_message_from_content role content None) (\<lambda>m.
            and_then (segment_messages to_json_text has_tool_call None items) (\<lambda>ms. Ok (m # ms)))
      | FunctionCall _ _ _ _ _ \<Rightarrow>
          and_then (collect_tool_calls to_json_text (item # items)) (\<lambda>(tcs, rest).
          and_then (segment_messages to_json_text has_tool_call None rest) (\<lambda>ms.
            Ok (assistant_step None pending tcs # ms)))
      | CustomToolCall _ _ _ _ _ \<Rightarrow>
          and_then (collect_tool_calls to_json_text (item # items)) (\<lambda>(tcs, rest).
          and_then (segment_messages to_json_text has_tool_call None rest) (\<lambda>ms.
            Ok (assistant_step None pending tcs # ms)))
      | FunctionCallOutput call output \<Rightarrow>
          and_then (function_output_text output) (\<lambda>text.
          and_then (segment_messages to_json_text has_tool_call pending items) (\<lambda>ms.
            Ok (ToolMessage text call # ms)))
      | CustomToolCallOutput call name output \<Rightarrow>
          and_then (function_output_text output) (\<lambda>text.
          and_then (segment_messages to_json_text has_tool_call pending items) (\<lambda>ms.
            Ok (ToolMessage text call # ms)))
      | LocalShellCall _ _ _ _ \<Rightarrow> Err (unsupported_item item)
      | ToolSearchCall _ _ _ _ _ \<Rightarrow> Err (unsupported_item item)
      | ToolSearchOutput _ _ _ _ \<Rightarrow> Err (unsupported_item item)
      | WebSearchCall _ _ _ \<Rightarrow> Err (unsupported_item item)
      | ImageGenerationCall _ _ _ _ \<Rightarrow> Err (unsupported_item item)
      | Compaction _ \<Rightarrow> segment_messages to_json_text has_tool_call pending items
      | ContextCompaction _ \<Rightarrow> segment_messages to_json_text has_tool_call pending items
      | OtherItem \<Rightarrow> segment_messages to_json_text has_tool_call pending items)"
  by pat_completeness auto
termination
proof (relation "measure (\<lambda>(_, _, _, items). length items)")
qed (auto dest: collect_tool_calls_length collect_function_shorter collect_custom_shorter)

definition append_chat_messages_from_segment ::
  "(json \<Rightarrow> rstr + rstr) \<Rightarrow> response_item list \<Rightarrow> (codex_err, chat_message list) outcome" where
  "append_chat_messages_from_segment to_json_text items =
     segment_messages to_json_text (list_ex is_supported_chat_tool_call items) None items"

text \<open>The loop of \<^verbatim>\<open>chat_messages_from_items\<close>; \<open>segment\<close> is \<^verbatim>\<open>items[segment_start..index]\<close>.\<close>

fun user_message_content :: "response_item \<Rightarrow> content_item list option" where
  "user_message_content (Message _ role content _) = (if role = role_user then Some content else None)"
| "user_message_content _ = None"

fun messages_loop ::
  "(json \<Rightarrow> rstr + rstr) \<Rightarrow> response_item list \<Rightarrow> response_item list \<Rightarrow> (codex_err, chat_message list) outcome" where
  "messages_loop to_json_text segment [] = append_chat_messages_from_segment to_json_text segment"
| "messages_loop to_json_text segment (item # items) =
     (case user_message_content item of
        Some content \<Rightarrow>
          and_then (append_chat_messages_from_segment to_json_text segment) (\<lambda>ms.
          and_then (chat_message_from_content role_user content None) (\<lambda>m.
          and_then (messages_loop to_json_text [] items) (\<lambda>rest. Ok (ms @ m # rest))))
      | None \<Rightarrow> messages_loop to_json_text (segment @ [item]) items)"

definition chat_messages_from_items ::
  "(json \<Rightarrow> rstr + rstr) \<Rightarrow> response_item list \<Rightarrow> (codex_err, chat_message list) outcome" where
  "chat_messages_from_items to_json_text items = messages_loop to_json_text [] items"

section \<open>What a conversation says\<close>

text \<open>
  The script of a conversation: who said what, which tools were called with which arguments, and
  what they returned.
\<close>

datatype speaker = SystemSpeaker | UserSpeaker | AssistantSpeaker

datatype utterance =
    Said speaker rstr
  | Called chat_tool_call
  | Returned rstr rstr

fun message_script :: "chat_message \<Rightarrow> utterance list" where
  "message_script (SystemMessage t _) = [Said SystemSpeaker t]"
| "message_script (UserMessage t _) = [Said UserSpeaker t]"
| "message_script (AssistantMessage c _ _ _ tcs) =
     (case c of None \<Rightarrow> [] | Some t \<Rightarrow> [Said AssistantSpeaker t]) @
     map Called (case tcs of None \<Rightarrow> [] | Some l \<Rightarrow> l)"
| "message_script (ToolMessage t call) = [Returned call t]"

fun content_item_text :: "content_item \<Rightarrow> rstr" where
  "content_item_text (InputText t) = t"
| "content_item_text (OutputText t) = t"
| "content_item_text (InputImage _ _) = []"

definition role_speaker :: "rstr \<Rightarrow> speaker" where
  "role_speaker role = (if role = role_user then UserSpeaker
     else if role = role_assistant then AssistantSpeaker else SystemSpeaker)"

fun output_text :: "function_call_output_payload \<Rightarrow> rstr" where
  "output_text output = (case body output of BodyText t \<Rightarrow> t | ContentItems _ \<Rightarrow> [])"

fun item_script :: "(json \<Rightarrow> rstr + rstr) \<Rightarrow> response_item \<Rightarrow> utterance list" where
  "item_script to_json_text (Message _ role content _) =
     [Said (role_speaker role) (join [newline] (map content_item_text content))]"
| "item_script to_json_text (FunctionCall _ name _ arguments call) =
     [Called \<lparr>tc_id = call, tc_function = \<lparr>fn_name = name, fn_arguments = arguments\<rparr>\<rparr>]"
| "item_script to_json_text (CustomToolCall _ _ call name input) =
     [Called \<lparr>tc_id = call, tc_function = \<lparr>fn_name = name, fn_arguments =
        (case to_json_text (JObject [(APPLY_PATCH_INPUT_FIELD, JString input)]) of Inr t \<Rightarrow> t | Inl _ \<Rightarrow> [])\<rparr>\<rparr>]"
| "item_script to_json_text (FunctionCallOutput call output) = [Returned call (output_text output)]"
| "item_script to_json_text (CustomToolCallOutput call _ output) = [Returned call (output_text output)]"
| "item_script to_json_text _ = []"

text \<open>The items the adapter supports.\<close>

fun text_content :: "content_item \<Rightarrow> bool" where
  "text_content (InputImage _ _) = False"
| "text_content _ = True"

fun supported_item :: "(json \<Rightarrow> rstr + rstr) \<Rightarrow> response_item \<Rightarrow> bool" where
  "supported_item to_json_text (Message _ role content _) \<longleftrightarrow>
     (role = role_system \<or> role = role_developer \<or> role = role_user \<or> role = role_assistant) \<and>
     list_all text_content content"
| "supported_item to_json_text (CustomToolCall _ _ _ name input) \<longleftrightarrow> name = APPLY_PATCH_TOOL_NAME \<and>
     \<not> isl (to_json_text (JObject [(APPLY_PATCH_INPUT_FIELD, JString input)]))"
| "supported_item to_json_text (FunctionCallOutput _ output) \<longleftrightarrow> (case body output of BodyText _ \<Rightarrow> True | _ \<Rightarrow> False)"
| "supported_item to_json_text (CustomToolCallOutput _ _ output) \<longleftrightarrow> (case body output of BodyText _ \<Rightarrow> True | _ \<Rightarrow> False)"
| "supported_item to_json_text (LocalShellCall _ _ _ _) \<longleftrightarrow> False"
| "supported_item to_json_text (ToolSearchCall _ _ _ _ _) \<longleftrightarrow> False"
| "supported_item to_json_text (ToolSearchOutput _ _ _ _) \<longleftrightarrow> False"
| "supported_item to_json_text (WebSearchCall _ _ _) \<longleftrightarrow> False"
| "supported_item to_json_text (ImageGenerationCall _ _ _ _) \<longleftrightarrow> False"
| "supported_item to_json_text _ \<longleftrightarrow> True"

text \<open>
  A result is faithful to some items: it is never a panic, it is a list of messages exactly when all
  items are supported, and then it says what the items say.
\<close>

definition faithful ::
  "(json \<Rightarrow> rstr + rstr) \<Rightarrow> response_item list \<Rightarrow> (codex_err, chat_message list) outcome \<Rightarrow> bool" where
  "faithful to_json_text items r \<longleftrightarrow>
     (case r of
        Ok ms \<Rightarrow> list_all (supported_item to_json_text) items \<and>
          concat (map message_script ms) = concat (map (item_script to_json_text) items)
      | Err e \<Rightarrow> \<not> list_all (supported_item to_json_text) items
      | Panic \<Rightarrow> False)"

lemma content_text_cases:
  "content_text content =
   (if list_all text_content content then Ok (join [newline] (map content_item_text content))
    else Err (UnsupportedOperation unsupported_images_message))"
proof -
  have "content_parts content =
     (if list_all text_content content then Ok (map content_item_text content)
      else Err (UnsupportedOperation unsupported_images_message))"
    by (induction content rule: content_parts.induct) auto
  then show ?thesis by (simp add: content_text_def)
qed

lemma function_output_text_cases:
  "function_output_text output =
   (case body output of BodyText t \<Rightarrow> Ok t
    | ContentItems _ \<Rightarrow> Err (UnsupportedOperation
        (lit ''Chat Completions request adapter does not support structured tool output'')))"
  by (simp add: function_output_text_def)

lemma chat_message_from_content_faithful:
  "faithful to_json_text [Message i role content ph]
     (and_then (chat_message_from_content role content rc) (\<lambda>m. Ok [m]))"
  by (auto simp: faithful_def chat_message_from_content_def content_text_cases role_speaker_def role_defs)

lemma collect_tool_call_list_cases:
  "(\<exists>tcs rest pre. collect_tool_call_list to_json_text items = Ok (tcs, rest) \<and> items = pre @ rest \<and>
      list_all (supported_item to_json_text) pre \<and> map Called tcs = concat (map (item_script to_json_text) pre)) \<or>
   (\<exists>e. collect_tool_call_list to_json_text items = Err e \<and> \<not> list_all (supported_item to_json_text) items)"
proof (induction items)
  case Nil
  then show ?case by simp
next
  case (Cons item items)
  show ?case
  proof (cases "chat_tool_call_from_item to_json_text item")
    case (Ok r)
    show ?thesis
    proof (cases r)
      case None
      with Ok show ?thesis by (intro disjI1 exI [of _ "[]"] exI [of _ "item # items"]) simp
    next
      case (Some tc)
      with Ok have tc: "supported_item to_json_text item" "item_script to_json_text item = [Called tc]"
        by (cases item; auto simp: outcome_simps apply_patch_chat_arguments_def split: sum.splits if_splits)+
      from Cons.IH show ?thesis
      proof (elim disjE exE conjE)
        fix tcs rest pre
        assume "collect_tool_call_list to_json_text items = Ok (tcs, rest)" "items = pre @ rest"
          "list_all (supported_item to_json_text) pre" "map Called tcs = concat (map (item_script to_json_text) pre)"
        with Ok Some tc show ?thesis
          by (intro disjI1 exI [of _ "tc # tcs"] exI [of _ rest] exI [of _ "item # pre"]) simp
      qed (use Ok Some in simp)
    qed
  next
    case (Err e)
    then have "\<not> supported_item to_json_text item"
      by (cases item) (auto simp: outcome_simps apply_patch_chat_arguments_def split: sum.splits if_splits)
    with Err show ?thesis by simp
  next
    case Panic
    then have False
      by (cases item) (auto simp: outcome_simps apply_patch_chat_arguments_def split: sum.splits if_splits)
    then show ?thesis ..
  qed
qed

lemma collect_tool_calls_cases:
  obtains (ok) tcs rest pre where "collect_tool_calls to_json_text items = Ok (tcs, rest)" "items = pre @ rest"
      "list_all (supported_item to_json_text) pre"
      "map Called (case tcs of None \<Rightarrow> [] | Some l \<Rightarrow> l) = concat (map (item_script to_json_text) pre)"
  | (err) e where "collect_tool_calls to_json_text items = Err e" "\<not> list_all (supported_item to_json_text) items"
proof (rule disjE [OF collect_tool_call_list_cases [of to_json_text items]], elim exE conjE)
  fix tcs rest pre
  assume a: "collect_tool_call_list to_json_text items = Ok (tcs, rest)" "items = pre @ rest"
    "list_all (supported_item to_json_text) pre" "map Called tcs = concat (map (item_script to_json_text) pre)"
  show thesis
    by (rule ok [of "if tcs \<noteq> [] then Some tcs else None" rest pre])
      (use a in \<open>auto simp: collect_tool_calls_def\<close>)
next
  assume "\<exists>e. collect_tool_call_list to_json_text items = Err e \<and> \<not> list_all (supported_item to_json_text) items"
  then obtain e where a: "collect_tool_call_list to_json_text items = Err e" "\<not> list_all (supported_item to_json_text) items"
    by blast
  show thesis by (rule err [of e]) (use a in \<open>simp_all add: collect_tool_calls_def\<close>)
qed

text \<open>The tool calls at the front, one message for them, and the messages for the rest.\<close>

lemma faithful_collect:
  assumes "\<And>tcs rest. collect_tool_calls to_json_text items = Ok (tcs, rest) \<Longrightarrow> faithful to_json_text rest (f rest)"
    "\<And>tcs. message_script (g tcs) = front @ map Called (case tcs of None \<Rightarrow> [] | Some l \<Rightarrow> l)"
    "front = concat (map (item_script to_json_text) before)" "list_all (supported_item to_json_text) before"
  shows "faithful to_json_text (before @ items)
    (and_then (collect_tool_calls to_json_text items) (\<lambda>(tcs, rest). and_then (f rest) (\<lambda>ms. Ok (g tcs # ms))))"
proof (cases rule: collect_tool_calls_cases [of to_json_text items])
  case (ok tcs rest pre)
  from assms(1) [OF ok(1)] show ?thesis
    using ok assms(2-4) by (cases "f rest") (auto simp: faithful_def)
next
  case (err e)
  then show ?thesis by (simp add: faithful_def)
qed

lemma faithful_one:
  assumes "faithful to_json_text [item] (and_then r (\<lambda>m. Ok [m]))" "\<And>m. r = Ok m \<Longrightarrow> faithful to_json_text items r'"
  shows "faithful to_json_text (item # items) (and_then r (\<lambda>m. and_then r' (\<lambda>ms. Ok (m # ms))))"
  using assms by (cases r; cases r') (auto simp: faithful_def)

lemma faithful_skip:
  "faithful to_json_text items r \<Longrightarrow> supported_item to_json_text item \<Longrightarrow> item_script to_json_text item = [] \<Longrightarrow>
   faithful to_json_text (item # items) r"
  by (cases r) (auto simp: faithful_def)

lemma faithful_unsupported: "\<not> supported_item to_json_text item \<Longrightarrow> faithful to_json_text (item # items) (Err e)"
  by (simp add: faithful_def)

lemma faithful_output:
  assumes "\<And>t. function_output_text output = Ok t \<Longrightarrow> faithful to_json_text items r"
    "supported_item to_json_text item \<longleftrightarrow> (case body output of BodyText _ \<Rightarrow> True | _ \<Rightarrow> False)"
    "item_script to_json_text item = [Returned call (output_text output)]"
  shows "faithful to_json_text (item # items)
    (and_then (function_output_text output) (\<lambda>text. and_then r (\<lambda>ms. Ok (ToolMessage text call # ms))))"
  using assms(1) [of "output_text output"] assms(2,3)
  by (cases "body output"; cases r) (simp_all add: faithful_def function_output_text_def)

lemma segment_messages_faithful: "faithful to_json_text items (segment_messages to_json_text has pending items)"
proof (induction to_json_text has pending items rule: segment_messages.induct)
  case (1 to_json_text has_tool_call pending)
  then show ?case by (simp add: faithful_def)
next
  case (2 to_json_text has pending item items)
  show ?case
  proof (cases item)
    case (Message i role content ph)
    show ?thesis
    proof (cases "role = role_assistant")
      case True
      let ?reasoning = "if has then pending else None" and ?pending = "if has then None else pending"
      have "faithful to_json_text ([item] @ items)
        (and_then (collect_tool_calls to_json_text items) (\<lambda>(tcs, rest).
           and_then (segment_messages to_json_text has ?pending rest) (\<lambda>ms.
             Ok (assistant_step (Some (join [newline] (map content_item_text content))) ?reasoning tcs # ms))))"
        if plain: "list_all text_content content"
      proof (rule faithful_collect)
        fix tcs rest
        assume "collect_tool_calls to_json_text items = Ok (tcs, rest)"
        with "2.IH"(1) [OF Message True, of "join [newline] (map content_item_text content)" "(tcs, rest)"] plain
        show "faithful to_json_text rest (segment_messages to_json_text has ?pending rest)"
          by (simp add: content_text_cases)
      qed (use that Message True in \<open>auto simp: assistant_step_def role_speaker_def role_defs\<close>)
      then show ?thesis
        using Message True by (auto simp: content_text_cases Let_def case_prod_beta intro: faithful_unsupported)
    next
      case False
      with Message "2.IH"(2) [OF Message False] show ?thesis
        by (auto intro!: faithful_one chat_message_from_content_faithful)
    qed
  next
    case (FunctionCall i n ns a c)
    from faithful_collect [of to_json_text "item # items" "segment_messages to_json_text has None"
        "assistant_step None pending" "[]" "[]"] "2.IH"(4) FunctionCall
    show ?thesis by (auto simp: assistant_step_def)
  next
    case (CustomToolCall i st c n inp)
    from faithful_collect [of to_json_text "item # items" "segment_messages to_json_text has None"
        "assistant_step None pending" "[]" "[]"] "2.IH"(6) CustomToolCall
    show ?thesis by (auto simp: assistant_step_def)
  qed (use "2.IH" in \<open>auto intro!: faithful_skip faithful_unsupported faithful_output\<close>)
qed

lemma faithful_append:
  assumes "faithful to_json_text xs r" "\<And>ms. r = Ok ms \<Longrightarrow> faithful to_json_text ys r'"
  shows "faithful to_json_text (xs @ ys) (and_then r (\<lambda>ms. and_then r' (\<lambda>ms'. Ok (ms @ ms'))))"
  using assms by (cases r; cases r') (auto simp: faithful_def)

lemma messages_loop_faithful: "faithful to_json_text (segment @ items) (messages_loop to_json_text segment items)"
proof (induction items arbitrary: segment)
  case Nil
  then show ?case by (simp add: append_chat_messages_from_segment_def segment_messages_faithful)
next
  case (Cons item items)
  show ?case
  proof (cases "user_message_content item")
    case None
    with Cons.IH [of "segment @ [item]"] show ?thesis by simp
  next
    case (Some content)
    then obtain i ph where item: "item = Message i role_user content ph"
      by (cases item) (auto split: if_splits)
    have "faithful to_json_text (item # items)
        (and_then (chat_message_from_content role_user content None) (\<lambda>m.
          and_then (messages_loop to_json_text [] items) (\<lambda>rest. Ok (m # rest))))"
    proof (rule faithful_one)
      show "faithful to_json_text [item] (and_then (chat_message_from_content role_user content None) (\<lambda>m. Ok [m]))"
        unfolding item by (rule chat_message_from_content_faithful)
      show "faithful to_json_text items (messages_loop to_json_text [] items)"
        using Cons.IH [of "[]"] by simp
    qed
    from faithful_append [OF segment_messages_faithful this] Some show ?thesis
      by (simp add: append_chat_messages_from_segment_def and_then_assoc)
  qed
qed

text \<open>
  (C12) Building the chat messages never panics, succeeds exactly when every item of the conversation
  is supported, and then loses, reorders and invents nothing: the messages say the same texts, make
  the same tool calls with the same arguments and identifiers, and return the same outputs, in the
  order of the items.
\<close>
theorem conversation_preserved:
  "case chat_messages_from_items to_json_text items of
     Ok ms \<Rightarrow> list_all (supported_item to_json_text) items \<and>
       concat (map message_script ms) = concat (map (item_script to_json_text) items)
   | Err e \<Rightarrow> \<not> list_all (supported_item to_json_text) items
   | Panic \<Rightarrow> False"
  using messages_loop_faithful [of to_json_text "[]" items]
  by (simp add: chat_messages_from_items_def faithful_def)

section \<open>Reasoning\<close>

fun plain_message :: "chat_message \<Rightarrow> bool" where
  "plain_message (AssistantMessage _ _ _ reasoning tcs) \<longleftrightarrow> reasoning = None \<and> tcs = None"
| "plain_message _ \<longleftrightarrow> True"

lemma chat_message_from_content_plain:
  "chat_message_from_content role content None = Ok m \<Longrightarrow> plain_message m"
  by (auto simp: chat_message_from_content_def outcome_simps split: if_splits)

lemma collect_tool_calls_no_call:
  assumes "\<not> list_ex is_supported_chat_tool_call items" "collect_tool_calls to_json_text items = Ok (tcs, rest)"
  shows "tcs = None \<and> rest = items"
proof (cases items)
  case Nil
  with assms(2) show ?thesis by (simp add: collect_tool_calls_def)
next
  case (Cons item more)
  with assms show ?thesis
    by (cases item) (auto simp: collect_tool_calls_def outcome_simps split: if_splits)
qed

lemma segment_messages_plain:
  "\<not> list_ex is_supported_chat_tool_call items \<Longrightarrow> segment_messages to_json_text False pending items = Ok ms \<Longrightarrow>
   list_all plain_message ms"
proof (induction items arbitrary: pending ms)
  case (Cons item items)
  show ?case
  proof (cases item)
    case (Message i role content ph)
    show ?thesis
    proof (cases "role = role_assistant")
      case True
      with Cons.prems(2) Message obtain t tcs rest ms' where
        "collect_tool_calls to_json_text items = Ok (tcs, rest)"
        "segment_messages to_json_text False pending rest = Ok ms'"
        "ms = assistant_step (Some t) None tcs # ms'"
        by (auto simp: outcome_simps)
      with Cons.IH [of pending ms'] Cons.prems(1) collect_tool_calls_no_call [of items to_json_text tcs rest]
      show ?thesis by (auto simp: assistant_step_def)
    next
      case False
      with Cons.prems(2) Message obtain m ms' where
        "chat_message_from_content role content None = Ok m"
        "segment_messages to_json_text False None items = Ok ms'" "ms = m # ms'"
        by (auto simp: outcome_simps)
      with Cons.IH [of None ms'] Cons.prems(1) chat_message_from_content_plain show ?thesis by auto
    qed
  next
    case (FunctionCall i n ns a c)
    with Cons.prems(1) show ?thesis by simp
  next
    case (CustomToolCall i st c n inp)
    with Cons.prems show ?thesis
      by (auto simp: outcome_simps collect_tool_calls_def split: if_splits)
  qed (use Cons in \<open>auto simp: outcome_simps\<close>)
qed simp

lemma messages_loop_plain:
  "\<not> list_ex is_supported_chat_tool_call (segment @ items) \<Longrightarrow> messages_loop to_json_text segment items = Ok ms \<Longrightarrow>
   list_all plain_message ms"
proof (induction items arbitrary: segment ms)
  case Nil
  then show ?case by (auto simp: append_chat_messages_from_segment_def intro: segment_messages_plain)
next
  case (Cons item items)
  show ?case
  proof (cases "user_message_content item")
    case None
    with Cons.IH [of "segment @ [item]"] Cons.prems show ?thesis by simp
  next
    case (Some content)
    with Cons.prems(2) obtain ms1 m ms2 where
      "append_chat_messages_from_segment to_json_text segment = Ok ms1"
      "chat_message_from_content role_user content None = Ok m"
      "messages_loop to_json_text [] items = Ok ms2" "ms = ms1 @ m # ms2"
      by (auto simp: outcome_simps)
    with Cons.IH [of "[]" ms2] Cons.prems(1) segment_messages_plain chat_message_from_content_plain
    show ?thesis by (auto simp: append_chat_messages_from_segment_def)
  qed
qed

text \<open>
  Reasoning is sent back only where tool calls need it: in a conversation without tool calls no
  assistant message carries reasoning content or tool calls.
\<close>
theorem reasoning_only_with_tool_calls:
  assumes "\<not> list_ex is_supported_chat_tool_call items" "chat_messages_from_items to_json_text items = Ok ms"
  shows "list_all plain_message ms"
  using assms messages_loop_plain [of "[]" items] by (simp add: chat_messages_from_items_def)

theorem reasoning_only_with_tool_calls_witness:
  "list_all plain_message [UserMessage (lit ''q'') None, AssistantMessage (Some (lit ''a'')) None None None None]"
proof (rule reasoning_only_with_tool_calls [of "[Message None role_user [InputText (lit ''q'')] None,
    Reasoning [] [] (Some [ReasoningText (lit ''r'')]) None, Message None role_assistant [OutputText (lit ''a'')] None]"
    "\<lambda>_. Inl []"])
qed (simp_all add: chat_messages_from_items_def append_chat_messages_from_segment_def chat_message_from_content_def
    content_text_def role_defs collect_tool_calls_def reasoning_content_text_def assistant_step_def)

text \<open>
  A turn of reasoning, answer text and tool calls is replayed as one assistant message that
  carries all three, as the interface requires of a turn with tool calls.
\<close>
theorem tool_turn_is_one_message:
  assumes "calls \<noteq> []"
  shows "chat_messages_from_items to_json_text
    (Reasoning rid [] (Some [ReasoningText r]) enc # Message mid role_assistant [OutputText t] ph #
     map (\<lambda>c. FunctionCall None (fn_name (tc_function c)) None (fn_arguments (tc_function c)) (tc_id c)) calls) =
    Ok [AssistantMessage (Some t) None None (Some r) (Some calls)]"
proof -
  let ?item = "\<lambda>c. FunctionCall None (fn_name (tc_function c)) None (fn_arguments (tc_function c)) (tc_id c)"
  have "collect_tool_call_list to_json_text (map ?item cs) = Ok (cs, [])" for cs
    by (induction cs) simp_all
  then have collect: "collect_tool_calls to_json_text (map ?item calls) = Ok (Some calls, [])"
    using assms by (simp add: collect_tool_calls_def)
  have loop: "messages_loop to_json_text seg (map ?item cs) =
      append_chat_messages_from_segment to_json_text (seg @ map ?item cs)" for seg cs
    by (induction cs arbitrary: seg) simp_all
  have "list_ex is_supported_chat_tool_call (map ?item calls)" using assms by (cases calls) simp_all
  then show ?thesis
    by (simp add: chat_messages_from_items_def loop append_chat_messages_from_segment_def collect content_text_def
        reasoning_content_text_def assistant_step_def role_defs)
qed

theorem tool_turn_is_one_message_witness:
  "chat_messages_from_items (\<lambda>_. Inl []) [Reasoning [] [] (Some [ReasoningText (lit ''r'')]) None,
     Message None role_assistant [OutputText (lit ''t'')] None, FunctionCall None (lit ''f'') None (lit ''{}'') (lit ''c'')] =
   Ok [AssistantMessage (Some (lit ''t'')) None None (Some (lit ''r''))
     (Some [\<lparr>tc_id = lit ''c'', tc_function = \<lparr>fn_name = lit ''f'', fn_arguments = lit ''{}''\<rparr>\<rparr>])]"
  using tool_turn_is_one_message [of "[\<lparr>tc_id = lit ''c'', tc_function = \<lparr>fn_name = lit ''f'', fn_arguments = lit ''{}''\<rparr>\<rparr>]"
      "\<lambda>_. Inl []" "[]" "lit ''r''" None None "lit ''t''" None] by simp

end
