(* ===== verification/Chat_Tools.thy ===== *)
theory Chat_Tools
  imports Chat_Request
begin

text \<open>
  The rest of a Chat Completions request: the tools with their parameter schemas
  (\<^verbatim>\<open>codex-rs/tools/src/json_schema.rs\<close>, the tool part of
  \<^verbatim>\<open>codex-rs/core/src/chat_completions.rs\<close>), the thinking settings, the formatted input of
  \<^verbatim>\<open>codex-rs/core/src/client_common.rs\<close>, and the assembly of the request.

  \<open>schema_value\<close> is \<^verbatim>\<open>serde_json::to_value\<close> on a schema, \<open>exec_output\<close> reads the JSON of a shell
  output (the duration comes back as the text its \<^verbatim>\<open>Display\<close> prints), and
  \<open>json_instructions\<close> is \<^verbatim>\<open>deepseek_json_output_instructions\<close>, which pretty-prints a schema.
\<close>

section \<open>Schemas\<close>

datatype primitive_type = TString | TNumber | TBoolean | TInteger | TObject | TArray | TNull

datatype schema_kind = Single primitive_type | Multiple "primitive_type list"

text \<open>A \<^verbatim>\<open>BTreeMap\<close> of properties is a list in the order of its keys.\<close>

datatype json_schema =
  Schema (schema_type: "schema_kind option") (sdescription: "rstr option") (enum_values: "json list option")
    (sitems: "json_schema option") (properties: "(rstr \<times> json_schema) list option")
    (required: "rstr list option") (additional_properties: "additional option")
    (any_of: "json_schema list option")
and additional = AllowBoolean bool | AllowSchema json_schema

definition schema_string :: "rstr option \<Rightarrow> json_schema" where
  "schema_string d = Schema (Some (Single TString)) d None None None None None None"

definition schema_object ::
  "(rstr \<times> json_schema) list \<Rightarrow> rstr list option \<Rightarrow> additional option \<Rightarrow> json_schema" where
  "schema_object props req add = Schema (Some (Single TObject)) None None None (Some props) req add None"

function normalize_deepseek_strict_schema :: "json_schema \<Rightarrow> json_schema" where
  "normalize_deepseek_strict_schema (Schema ty desc enums its props req add anys) =
     (let ty = (if ty = None \<and> props \<noteq> None then Some (Single TObject) else ty);
          props = map_option (map (\<lambda>kv. (fst kv, normalize_deepseek_strict_schema (snd kv)))) props;
          its = map_option normalize_deepseek_strict_schema its;
          anys = map_option (map normalize_deepseek_strict_schema) anys;
          is_object = (ty = Some (Single TObject))
      in Schema ty desc enums its props
           (if is_object then Some (case props of Some ps \<Rightarrow> map fst ps | None \<Rightarrow> []) else req)
           (if is_object then Some (AllowBoolean False) else add) anys)"
  by pat_completeness auto

lemma size_property: "(k, v) \<in> set ps \<Longrightarrow> size v \<le> size_list (size_prod (\<lambda>x. 0) size) ps"
  by (induction ps) (auto simp: le_SucI le_add2 trans_le_add2)

lemma size_variant: "v \<in> set vs \<Longrightarrow> size v \<le> size_list size vs" for v :: json_schema
  by (induction vs) auto

termination normalize_deepseek_strict_schema
  by (relation "measure size") (auto dest!: size_property size_variant)

definition deepseek_strict_parameters :: "json_schema \<Rightarrow> json_schema" where
  "deepseek_strict_parameters p =
     (let is_empty_schema = (schema_type p = None \<and> properties p = None \<and> sitems p = None \<and> any_of p = None);
          p = (if is_empty_schema
               then Schema (Some (Single TObject)) (sdescription p) (enum_values p) (sitems p) (Some [])
                      (required p) (additional_properties p) (any_of p)
               else p)
      in normalize_deepseek_strict_schema p)"

section \<open>Strict schemas are closed\<close>












text \<open>
  An object that may also be null has a list of types, is not taken for an object, and keeps its
  optional and open properties in strict mode.
\<close>

lemma nullable_object_stays_open:
  "normalize_deepseek_strict_schema
     (Schema (Some (Multiple [TObject, TNull])) None None None (Some [(lit ''a'', schema_string None)]) None None None) =
   Schema (Some (Multiple [TObject, TNull])) None None None (Some [(lit ''a'', schema_string None)]) None None None"
  by (simp add: schema_string_def)

section \<open>Tools\<close>

record responses_api_tool =
  rt_name :: rstr
  rt_description :: rstr
  rt_strict :: bool
  rt_defer_loading :: "bool option"
  rt_parameters :: json_schema
  rt_output_schema :: "json option"

record freeform_tool =
  ff_name :: rstr
  ff_description :: rstr
  ff_format :: "rstr \<times> rstr \<times> rstr"

datatype tool_spec =
    FunctionTool responses_api_tool
  | NamespaceTool rstr rstr "responses_api_tool list"
  | ToolSearchTool rstr rstr json_schema
  | LocalShellTool
  | ImageGenerationTool rstr
  | WebSearchTool json
  | FreeformTool freeform_tool

fun tool_name :: "tool_spec \<Rightarrow> rstr" where
  "tool_name (FunctionTool t) = rt_name t"
| "tool_name (NamespaceTool n _ _) = n"
| "tool_name (ToolSearchTool _ _ _) = lit ''tool_search''"
| "tool_name LocalShellTool = lit ''local_shell''"
| "tool_name (ImageGenerationTool _) = lit ''image_generation''"
| "tool_name (WebSearchTool _) = lit ''web_search''"
| "tool_name (FreeformTool t) = ff_name t"

datatype chat_tool_strict_mode = PreserveToolSetting | StrictDisabled | StrictEnabled

record chat_tool =
  ct_name :: rstr
  ct_description :: "rstr option"
  ct_parameters :: "json option"
  ct_strict :: "bool option"

definition chat_tool_from_function ::
  "(json_schema \<Rightarrow> json option) \<Rightarrow> responses_api_tool \<Rightarrow> chat_tool_strict_mode \<Rightarrow> chat_tool" where
  "chat_tool_from_function schema_value f strict_mode =
     (let (parameters, strict) =
        (case strict_mode of
           PreserveToolSetting \<Rightarrow> (rt_parameters f, rt_strict f)
         | StrictDisabled \<Rightarrow> (rt_parameters f, False)
         | StrictEnabled \<Rightarrow> (deepseek_strict_parameters (rt_parameters f), True))
      in \<lparr>ct_name = rt_name f, ct_description = Some (rt_description f),
          ct_parameters = Some (case schema_value parameters of Some v \<Rightarrow> v | None \<Rightarrow> JNull),
          ct_strict = Some strict\<rparr>)"

text \<open>The description texts of the patch tool are arguments: they are prose for the model.\<close>

definition chat_tool_from_apply_patch ::
  "(json_schema \<Rightarrow> json option) \<Rightarrow> rstr \<Rightarrow> rstr \<Rightarrow> freeform_tool \<Rightarrow> chat_tool_strict_mode \<Rightarrow> chat_tool" where
  "chat_tool_from_apply_patch schema_value tool_text input_text f strict_mode =
     (let parameters = schema_object [(APPLY_PATCH_INPUT_FIELD, schema_string (Some input_text))]
            (Some [APPLY_PATCH_INPUT_FIELD]) (Some (AllowBoolean False))
      in \<lparr>ct_name = ff_name f, ct_description = Some tool_text, ct_parameters = schema_value parameters,
          ct_strict = Some (strict_mode = PreserveToolSetting \<or> strict_mode = StrictEnabled)\<rparr>)"

definition unsupported_tool :: "tool_spec \<Rightarrow> codex_err" where
  "unsupported_tool tool = UnsupportedOperation
     (lit ''Chat Completions request adapter does not support `'' @ tool_name tool @ lit ''` tools'')"

fun chat_tool_from_spec ::
  "(json_schema \<Rightarrow> json option) \<Rightarrow> rstr \<Rightarrow> rstr \<Rightarrow> chat_tool_strict_mode \<Rightarrow> tool_spec \<Rightarrow> (codex_err, chat_tool) outcome" where
  "chat_tool_from_spec schema_value tool_text input_text strict_mode (FunctionTool f) =
     Ok (chat_tool_from_function schema_value f strict_mode)"
| "chat_tool_from_spec schema_value tool_text input_text strict_mode (FreeformTool f) =
     (if ff_name f = APPLY_PATCH_TOOL_NAME
      then Ok (chat_tool_from_apply_patch schema_value tool_text input_text f strict_mode)
      else Err (unsupported_tool (FreeformTool f)))"
| "chat_tool_from_spec schema_value tool_text input_text strict_mode tool = Err (unsupported_tool tool)"

fun chat_tools_from_specs ::
  "(json_schema \<Rightarrow> json option) \<Rightarrow> rstr \<Rightarrow> rstr \<Rightarrow> tool_spec list \<Rightarrow> chat_tool_strict_mode \<Rightarrow>
   (codex_err, chat_tool list) outcome" where
  "chat_tools_from_specs schema_value tool_text input_text [] strict_mode = Ok []"
| "chat_tools_from_specs schema_value tool_text input_text (tool # tools) strict_mode =
     and_then (chat_tool_from_spec schema_value tool_text input_text strict_mode tool) (\<lambda>t.
     and_then (chat_tools_from_specs schema_value tool_text input_text tools strict_mode) (\<lambda>ts. Ok (t # ts)))"

section \<open>Thinking\<close>

datatype reasoning_effort = EffortNone | EffortMinimal | EffortLow | EffortMedium | EffortHigh | EffortXHigh

datatype chat_thinking = ThinkingEnabled | ThinkingDisabled

datatype chat_reasoning_effort = ChatHigh | ChatMax

record model_info =
  slug :: rstr
  supports_reasoning_summaries :: bool
  default_reasoning_level :: "reasoning_effort option"

definition configured_effort :: "model_info \<Rightarrow> reasoning_effort option \<Rightarrow> reasoning_effort option" where
  "configured_effort model effort = (case effort of Some e \<Rightarrow> Some e | None \<Rightarrow> default_reasoning_level model)"

definition think :: "model_info \<Rightarrow> reasoning_effort option \<Rightarrow> chat_thinking option" where
  "think model effort =
     (if \<not> supports_reasoning_summaries model then None
      else let configured = configured_effort model effort in
        if configured = Some EffortNone \<or> configured = Some EffortMinimal then Some ThinkingDisabled
        else if configured \<noteq> None then Some ThinkingEnabled
        else None)"

definition chat_reasoning_effort :: "model_info \<Rightarrow> reasoning_effort option \<Rightarrow> chat_reasoning_effort option" where
  "chat_reasoning_effort model effort =
     (if \<not> supports_reasoning_summaries model then None
      else case configured_effort model effort of
        Some EffortXHigh \<Rightarrow> Some ChatMax
      | Some EffortHigh \<Rightarrow> Some ChatHigh
      | Some EffortMedium \<Rightarrow> Some ChatHigh
      | Some EffortLow \<Rightarrow> Some ChatHigh
      | Some EffortNone \<Rightarrow> None
      | Some EffortMinimal \<Rightarrow> None
      | None \<Rightarrow> None)"

text \<open>
  The two thinking settings never contradict each other: an effort is sent exactly when thinking
  is enabled, and nothing is sent to a model without reasoning.
\<close>
theorem effort_iff_thinking:
  "(chat_reasoning_effort model effort \<noteq> None \<longleftrightarrow> think model effort = Some ThinkingEnabled) \<and>
   (think model effort \<noteq> None \<longleftrightarrow> supports_reasoning_summaries model \<and> configured_effort model effort \<noteq> None)"
  by (auto simp: chat_reasoning_effort_def think_def Let_def split: option.splits reasoning_effort.splits)

section \<open>Formatted input\<close>

record exec_output =
  ex_output :: rstr
  ex_exit_code :: int
  ex_duration_text :: rstr

text \<open>\<^verbatim>\<open>str::parse::<u32>\<close>: an optional plus sign, decimal digits, no overflow.\<close>

definition parse_u32 :: "rstr \<Rightarrow> nat option" where
  "parse_u32 s =
     (let digits = (case s of c # cs \<Rightarrow> if c = 43 then cs else s | [] \<Rightarrow> []) in
      if digits \<noteq> [] \<and> list_all is_ascii_digit digits
      then let n = fold (\<lambda>c acc. 10 * acc + (c - 48)) digits 0 in if n < 2 ^ 32 then Some n else None
      else None)"

definition strip_total_output_header :: "rstr \<Rightarrow> (rstr \<times> nat) option" where
  "strip_total_output_header output =
     Option.bind (strip_prefix (lit ''Total output lines: '') output) (\<lambda>after_prefix.
     Option.bind (split_once newline after_prefix) (\<lambda>(total_segment, remainder).
     Option.bind (parse_u32 total_segment) (\<lambda>total_lines.
       Some (case strip_prefix [newline] remainder of Some r \<Rightarrow> r | None \<Rightarrow> remainder, total_lines))))"

definition int_text :: "int \<Rightarrow> rstr" where
  "int_text i = (if i < 0 then [45] @ decimal (nat (- i)) else decimal (nat i))"

definition build_structured_output :: "exec_output \<Rightarrow> rstr" where
  "build_structured_output parsed =
     (let sections = [lit ''Exit code: '' @ int_text (ex_exit_code parsed),
                      lit ''Wall time: '' @ ex_duration_text parsed @ lit '' seconds''];
          (sections, output) =
            (case strip_total_output_header (ex_output parsed) of
               Some (stripped, total_lines) \<Rightarrow>
                 (sections @ [lit ''Total output lines: '' @ decimal total_lines], stripped)
             | None \<Rightarrow> (sections, ex_output parsed))
      in join [newline] (sections @ [lit ''Output:'', output]))"

definition parse_structured_shell_output :: "(rstr \<Rightarrow> exec_output option) \<Rightarrow> rstr \<Rightarrow> rstr option" where
  "parse_structured_shell_output exec_json raw = map_option build_structured_output (exec_json raw)"

definition is_shell_tool_name :: "rstr \<Rightarrow> bool" where
  "is_shell_tool_name name \<longleftrightarrow> name = lit ''shell'' \<or> name = lit ''container.exec''"

text \<open>An output that answers a shell call, rewritten if its text is the JSON of a shell output.\<close>

definition reserialize_output ::
  "(rstr \<Rightarrow> exec_output option) \<Rightarrow> function_call_output_payload \<Rightarrow> function_call_output_payload" where
  "reserialize_output exec_json output =
     (case body output of
        BodyText t \<Rightarrow>
          (case parse_structured_shell_output exec_json t of
             Some structured \<Rightarrow> output\<lparr>body := BodyText structured\<rparr>
           | None \<Rightarrow> output)
      | ContentItems _ \<Rightarrow> output)"

fun reserialize_item ::
  "(rstr \<Rightarrow> exec_output option) \<Rightarrow> rstr set \<Rightarrow> response_item \<Rightarrow> response_item \<times> rstr set" where
  "reserialize_item exec_json ids (LocalShellCall i call st act) =
     (LocalShellCall i call st act,
      (case (case call of Some c \<Rightarrow> Some c | None \<Rightarrow> i) of Some ident \<Rightarrow> insert ident ids | None \<Rightarrow> ids))"
| "reserialize_item exec_json ids (CustomToolCall i st call name input) =
     (CustomToolCall i st call name input, if name = APPLY_PATCH_TOOL_NAME then insert call ids else ids)"
| "reserialize_item exec_json ids (FunctionCall i name ns args call) =
     (FunctionCall i name ns args call,
      if is_shell_tool_name name \<or> name = APPLY_PATCH_TOOL_NAME then insert call ids else ids)"
| "reserialize_item exec_json ids (FunctionCallOutput call output) =
     (FunctionCallOutput call (if call \<in> ids then reserialize_output exec_json output else output), ids - {call})"
| "reserialize_item exec_json ids (CustomToolCallOutput call name output) =
     (CustomToolCallOutput call name (if call \<in> ids then reserialize_output exec_json output else output), ids - {call})"
| "reserialize_item exec_json ids item = (item, ids)"

fun reserialize_shell_outputs ::
  "(rstr \<Rightarrow> exec_output option) \<Rightarrow> rstr set \<Rightarrow> response_item list \<Rightarrow> response_item list" where
  "reserialize_shell_outputs exec_json ids [] = []"
| "reserialize_shell_outputs exec_json ids (item # items) =
     (let (item', ids') = reserialize_item exec_json ids item
      in item' # reserialize_shell_outputs exec_json ids' items)"

record prompt =
  pr_input :: "response_item list"
  pr_tools :: "tool_spec list"
  pr_parallel_tool_calls :: bool
  pr_base_instructions :: rstr
  pr_output_schema :: "json option"
  pr_output_schema_strict :: bool

definition get_formatted_input :: "(rstr \<Rightarrow> exec_output option) \<Rightarrow> prompt \<Rightarrow> response_item list" where
  "get_formatted_input exec_json p =
     (if list_ex (\<lambda>t. case t of FreeformTool f \<Rightarrow> ff_name f = APPLY_PATCH_TOOL_NAME | _ \<Rightarrow> False) (pr_tools p)
      then reserialize_shell_outputs exec_json {} (pr_input p) else pr_input p)"

text \<open>An item with the text of its output left out.\<close>

fun without_output :: "response_item \<Rightarrow> response_item" where
  "without_output (FunctionCallOutput call output) = FunctionCallOutput call (output\<lparr>body := BodyText []\<rparr>)"
| "without_output (CustomToolCallOutput call name output) = CustomToolCallOutput call name (output\<lparr>body := BodyText []\<rparr>)"
| "without_output item = item"

lemma reserialize_item_without: "without_output (fst (reserialize_item exec_json ids item)) = without_output item"
  by (cases item) (auto simp: reserialize_output_def split: function_call_output_body.splits option.splits)

lemma reserialize_without:
  "map without_output (reserialize_shell_outputs exec_json ids items) = map without_output items"
proof (induction items arbitrary: ids)
  case (Cons item items)
  then show ?case
    using reserialize_item_without [of exec_json ids item] by (simp add: Let_def case_prod_beta)
qed simp

text \<open>
  Formatting the input of a request changes nothing but the text of tool outputs: the items are
  the same, in the same order, with the same roles, calls, identifiers and success flags.
\<close>
theorem formatted_input_keeps_items:
  "map without_output (get_formatted_input exec_json p) = map without_output (pr_input p)"
  by (simp add: get_formatted_input_def reserialize_without)

section \<open>The request\<close>

datatype chat_json_output_mode = JsonGeneric | JsonDeepSeek

datatype chat_tool_choice = ChoiceNone | ChoiceAuto | ChoiceRequired | ChoiceFunction rstr

record chat_completions_request =
  rq_model :: rstr
  rq_messages :: "chat_message list"
  rq_tools :: "chat_tool list"
  rq_tool_choice :: "chat_tool_choice option"
  rq_thinking :: "chat_thinking option"
  rq_reasoning_effort :: "chat_reasoning_effort option"
  rq_json_object :: bool
  rq_stream :: bool
  rq_include_usage :: bool

definition build_chat_completions_request_with_json_mode ::
  "(json \<Rightarrow> rstr + rstr) \<Rightarrow> (json_schema \<Rightarrow> json option) \<Rightarrow> (rstr \<Rightarrow> exec_output option) \<Rightarrow> (json \<Rightarrow> rstr) \<Rightarrow>
   rstr \<Rightarrow> rstr \<Rightarrow> prompt \<Rightarrow> model_info \<Rightarrow> reasoning_effort option \<Rightarrow> chat_tool_strict_mode \<Rightarrow>
   chat_json_output_mode \<Rightarrow> (codex_err, chat_completions_request) outcome" where
  "build_chat_completions_request_with_json_mode to_json_text schema_value exec_json json_instructions
     tool_text input_text p model effort strict_mode json_mode =
     (let system = (if pr_base_instructions p \<noteq> [] then [SystemMessage (pr_base_instructions p) None] else []);
          schema = (case (json_mode, pr_output_schema p) of
                      (JsonDeepSeek, Some s) \<Rightarrow> [SystemMessage (json_instructions s) None]
                    | _ \<Rightarrow> [])
      in and_then (chat_messages_from_items to_json_text (get_formatted_input exec_json p)) (\<lambda>ms.
         and_then (chat_tools_from_specs schema_value tool_text input_text (pr_tools p) strict_mode) (\<lambda>tools.
           Ok \<lparr>rq_model = slug model, rq_messages = system @ schema @ ms, rq_tools = tools,
               rq_tool_choice = Some ChoiceAuto, rq_thinking = think model effort, rq_reasoning_effort = chat_reasoning_effort model effort,
               rq_json_object = (pr_output_schema p \<noteq> None), rq_stream = True, rq_include_usage = True\<rparr>)))"

end
