(* ===== verification/Context_Fragments.thy ===== *)
theory Context_Fragments
  imports Text_Truncation
begin

text \<open>
  Injected context in the conversation (\<^verbatim>\<open>core/src/context/fragment.rs\<close>,
  \<^verbatim>\<open>contextual_user_message.rs\<close> with the fragments it registers, and the tests of
  \<^verbatim>\<open>core/src/event_mapping.rs\<close>): which messages the program wrote itself and which are turns of
  the user.

  A fragment of the trait \<^verbatim>\<open>ContextualUserFragment\<close> is recognised by its start and end marker.  The
  locale \<open>marked_fragment\<close> states what a pair of markers must satisfy for a rendered fragment to be
  recognised whatever its body; it is interpreted for every fragment the program registers.  The XML
  reader behind hook prompts is a parameter \<open>from_xml\<close>.
\<close>

section \<open>Text tests\<close>

text \<open>\<^verbatim>\<open>str::get\<close> is the slice, or nothing where slicing would panic.\<close>

definition get_to :: "nat \<Rightarrow> rstr \<Rightarrow> rstr option" where
  "get_to n s = (case byte_slice_to n s of Ok r \<Rightarrow> Some r | _ \<Rightarrow> None)"

definition get_from :: "nat \<Rightarrow> rstr \<Rightarrow> rstr option" where
  "get_from n s = (case (byte_slice_from n s :: (unit, rstr) outcome) of Ok r \<Rightarrow> Some r | _ \<Rightarrow> None)"

definition eq_ignore_ascii_case :: "rstr \<Rightarrow> rstr \<Rightarrow> bool" where
  "eq_ignore_ascii_case a b \<longleftrightarrow> to_ascii_lowercase a = to_ascii_lowercase b"

definition is_some_and :: "'a option \<Rightarrow> ('a \<Rightarrow> bool) \<Rightarrow> bool" where
  "is_some_and x f = (case x of Some y \<Rightarrow> f y | None \<Rightarrow> False)"

lemma get_to_append: "get_to (byte_len a) (a @ b) = Some a"
  by (simp add: get_to_def byte_slice_to_prefix)

lemma get_from_append: "get_from (byte_len a) (a @ b) = Some b"
  by (simp add: get_from_def byte_slice_from_suffix)

section \<open>Fragments\<close>

definition matches_text :: "rstr \<Rightarrow> rstr \<Rightarrow> rstr \<Rightarrow> bool" where
  "matches_text START_MARKER END_MARKER s =
     (if START_MARKER = [] \<or> END_MARKER = [] then False
      else let trimmed = trim_start s;
               starts_with_marker = is_some_and (get_to (byte_len START_MARKER) trimmed)
                 (\<lambda>candidate. eq_ignore_ascii_case candidate START_MARKER);
               trimmed = trim_end trimmed;
               ends_with_marker = is_some_and (get_from (byte_len trimmed - byte_len END_MARKER) trimmed)
                 (\<lambda>candidate. eq_ignore_ascii_case candidate END_MARKER)
           in starts_with_marker \<and> ends_with_marker)"

definition render_fragment :: "rstr \<Rightarrow> rstr \<Rightarrow> rstr \<Rightarrow> rstr" where
  "render_fragment START_MARKER END_MARKER inner =
     (if START_MARKER = [] \<and> END_MARKER = [] then inner else START_MARKER @ inner @ END_MARKER)"

definition fragment_item :: "rstr \<Rightarrow> rstr \<Rightarrow> rstr \<Rightarrow> rstr \<Rightarrow> response_item" where
  "fragment_item ROLE START_MARKER END_MARKER inner =
     Message None ROLE [InputText (render_fragment START_MARKER END_MARKER inner)] None"

locale marked_fragment =
  fixes start_marker :: rstr and end_marker :: rstr
  assumes start_ok: "start_marker \<noteq> []" "\<not> is_whitespace (hd start_marker)"
    and end_ok: "end_marker \<noteq> []" "\<not> is_whitespace (last end_marker)"
begin

lemma rendered_matches: "matches_text start_marker end_marker (render_fragment start_marker end_marker inner)"
proof -
  let ?t = "start_marker @ inner @ end_marker"
  have "trim_start ?t = ?t" by (rule trim_start_append [OF start_ok])
  moreover have "trim_end ?t = ?t"
    using trim_end_append_nonws [OF end_ok, of "start_marker @ inner"] by simp
  moreover have "get_from (byte_len ?t - byte_len end_marker) ?t = Some end_marker"
    using get_from_append [of "start_marker @ inner" end_marker] by simp
  ultimately show ?thesis
    using start_ok(1) end_ok(1)
    by (simp add: matches_text_def render_fragment_def get_to_append is_some_and_def eq_ignore_ascii_case_def)
qed

end

text \<open>The markers of the fragments the program injects.\<close>

definition user_instructions_markers :: "rstr \<times> rstr" where
  "user_instructions_markers = (lit ''# AGENTS.md instructions for '', lit ''</INSTRUCTIONS>'')"
definition environment_context_markers :: "rstr \<times> rstr" where
  "environment_context_markers = (lit ''<environment_context>'', lit ''</environment_context>'')"
definition skill_markers :: "rstr \<times> rstr" where
  "skill_markers = (lit ''<skill>'', lit ''</skill>'')"
definition user_shell_command_markers :: "rstr \<times> rstr" where
  "user_shell_command_markers = (lit ''<user_shell_command>'', lit ''</user_shell_command>'')"
definition turn_aborted_markers :: "rstr \<times> rstr" where
  "turn_aborted_markers = (lit ''<turn_aborted>'', lit ''</turn_aborted>'')"
definition subagent_notification_markers :: "rstr \<times> rstr" where
  "subagent_notification_markers = (lit ''<subagent_notification>'', lit ''</subagent_notification>'')"
definition goal_context_markers :: "rstr \<times> rstr" where
  "goal_context_markers = (lit ''<goal_context>'', lit ''</goal_context>'')"

lemmas marker_pairs = user_instructions_markers_def environment_context_markers_def skill_markers_def
  user_shell_command_markers_def turn_aborted_markers_def subagent_notification_markers_def
  goal_context_markers_def

interpretation user_instructions: marked_fragment "fst user_instructions_markers" "snd user_instructions_markers"
  by unfold_locales (simp_all add: marker_pairs is_whitespace_def)
interpretation environment_context: marked_fragment "fst environment_context_markers" "snd environment_context_markers"
  by unfold_locales (simp_all add: marker_pairs is_whitespace_def)
interpretation skill: marked_fragment "fst skill_markers" "snd skill_markers"
  by unfold_locales (simp_all add: marker_pairs is_whitespace_def)
interpretation user_shell_command: marked_fragment "fst user_shell_command_markers" "snd user_shell_command_markers"
  by unfold_locales (simp_all add: marker_pairs is_whitespace_def)
interpretation turn_aborted: marked_fragment "fst turn_aborted_markers" "snd turn_aborted_markers"
  by unfold_locales (simp_all add: marker_pairs is_whitespace_def)
interpretation subagent_notification:
  marked_fragment "fst subagent_notification_markers" "snd subagent_notification_markers"
  by unfold_locales (simp_all add: marker_pairs is_whitespace_def)
interpretation goal_context: marked_fragment "fst goal_context_markers" "snd goal_context_markers"
  by unfold_locales (simp_all add: marker_pairs is_whitespace_def)

definition CONTEXTUAL_MARKERS :: "(rstr \<times> rstr) list" where
  "CONTEXTUAL_MARKERS =
     [user_instructions_markers, environment_context_markers, skill_markers, user_shell_command_markers,
      turn_aborted_markers, subagent_notification_markers, goal_context_markers]"

definition matches_process_limit_warning :: "rstr \<Rightarrow> bool" where
  "matches_process_limit_warning s =
     starts_with (lit ''Warning: The maximum number of unified exec processes you can keep open is'') (trim s)"

definition matches_apply_patch_warning :: "rstr \<Rightarrow> bool" where
  "matches_apply_patch_warning s =
     (starts_with (lit ''Warning: apply_patch was requested via '') (trim s) \<and>
      ends_with (lit ''Use the apply_patch tool instead of exec_command.'') (trim s))"

definition matches_model_mismatch_warning :: "rstr \<Rightarrow> bool" where
  "matches_model_mismatch_warning s =
     starts_with (lit ''Warning: Your account was flagged for potentially high-risk cyber activity'') (trim s)"

definition is_standard_contextual_user_text :: "rstr \<Rightarrow> bool" where
  "is_standard_contextual_user_text s =
     (list_ex (\<lambda>(a, b). matches_text a b s) CONTEXTUAL_MARKERS \<or> matches_process_limit_warning s \<or>
      matches_apply_patch_warning s \<or> matches_model_mismatch_warning s)"

definition parse_hook_prompt_fragment :: "(rstr \<Rightarrow> (rstr \<times> rstr) option) \<Rightarrow> rstr \<Rightarrow> (rstr \<times> rstr) option" where
  "parse_hook_prompt_fragment from_xml s =
     (case from_xml (trim s) of
        None \<Rightarrow> None
      | Some (t, hook_run_id) \<Rightarrow> if trim hook_run_id = [] then None else Some (t, hook_run_id))"

fun is_contextual_user_fragment :: "(rstr \<Rightarrow> (rstr \<times> rstr) option) \<Rightarrow> content_item \<Rightarrow> bool" where
  "is_contextual_user_fragment from_xml (InputText s) =
     (parse_hook_prompt_fragment from_xml s \<noteq> None \<or> is_standard_contextual_user_text s)"
| "is_contextual_user_fragment from_xml _ = False"

definition is_contextual_user_message_content :: "(rstr \<Rightarrow> (rstr \<times> rstr) option) \<Rightarrow> content_item list \<Rightarrow> bool" where
  "is_contextual_user_message_content from_xml message = list_ex (is_contextual_user_fragment from_xml) message"

definition CONTEXTUAL_DEVELOPER_PREFIXES :: "rstr list" where
  "CONTEXTUAL_DEVELOPER_PREFIXES =
     [lit ''<permissions instructions>'', lit ''<model_switch>'', lit ''<collaboration_mode>'',
      lit ''<realtime_conversation>'', lit ''<personality_spec>'']"

fun is_contextual_dev_fragment :: "content_item \<Rightarrow> bool" where
  "is_contextual_dev_fragment (InputText s) =
     (let trimmed = trim_start s in
      list_ex (\<lambda>prefix. is_some_and (get_to (byte_len prefix) trimmed)
        (\<lambda>candidate. eq_ignore_ascii_case candidate prefix)) CONTEXTUAL_DEVELOPER_PREFIXES)"
| "is_contextual_dev_fragment _ = False"

definition is_contextual_dev_message_content :: "content_item list \<Rightarrow> bool" where
  "is_contextual_dev_message_content message = list_ex is_contextual_dev_fragment message"

definition has_non_contextual_dev_message_content :: "content_item list \<Rightarrow> bool" where
  "has_non_contextual_dev_message_content message = list_ex (\<lambda>c. \<not> is_contextual_dev_fragment c) message"

text \<open>
  A message is an instruction of another agent when it is one text that reads as JSON of that type;
  the reader is the parameter \<open>inter_agent_json\<close>.
\<close>

fun is_inter_agent_instruction_content :: "(rstr \<Rightarrow> bool) \<Rightarrow> content_item list \<Rightarrow> bool" where
  "is_inter_agent_instruction_content inter_agent_json [InputText s] = inter_agent_json s"
| "is_inter_agent_instruction_content inter_agent_json [OutputText s] = inter_agent_json s"
| "is_inter_agent_instruction_content inter_agent_json _ = False"

lemma rendered_recognised:
  assumes "(a, b) \<in> set CONTEXTUAL_MARKERS"
  shows "matches_text a b (render_fragment a b inner)"
  using assms user_instructions.rendered_matches environment_context.rendered_matches skill.rendered_matches
    user_shell_command.rendered_matches turn_aborted.rendered_matches subagent_notification.rendered_matches
    goal_context.rendered_matches
  by (auto simp: CONTEXTUAL_MARKERS_def prod_eq_iff)

text \<open>
  Every fragment the program injects into the conversation is recognised as its own when it is
  read back, whatever its body: it is never taken for a turn of the user.
\<close>
theorem injected_fragment_recognised:
  assumes "(a, b) \<in> set CONTEXTUAL_MARKERS"
  shows "is_contextual_user_message_content from_xml (item_content (fragment_item ROLE a b inner))"
  using rendered_recognised [OF assms, of inner] assms
  by (auto simp: is_contextual_user_message_content_def fragment_item_def is_standard_contextual_user_text_def
      list_ex_iff)

theorem injected_fragment_recognised_witness:
  "(lit ''<skill>'', lit ''</skill>'') \<in> set CONTEXTUAL_MARKERS \<and>
   is_contextual_user_message_content (\<lambda>_. None)
     (item_content (fragment_item (lit ''user'') (lit ''<skill>'') (lit ''</skill>'') (lit ''x'')))"
proof -
  have m: "(lit ''<skill>'', lit ''</skill>'') \<in> set CONTEXTUAL_MARKERS"
    by (simp add: CONTEXTUAL_MARKERS_def marker_pairs)
  show ?thesis using injected_fragment_recognised [OF m] m by blast
qed

end
