(* ===== verification/Context_Normalize.thy ===== *)
theory Context_Normalize
  imports Context_Fragments
begin

text \<open>
  Normalising the conversation history before it is sent (\<^verbatim>\<open>core/src/context_manager/normalize.rs\<close>):
  every call gets an output, every output has a call, images go where the model has none.

  \<open>debug\<close> tells a build with debug assertions, in which \<^verbatim>\<open>error_or_panic\<close> panics; in a release
  build it logs.  A call and its output share a \<open>pair_key\<close>; a local shell call is answered by a
  function output.
\<close>

section \<open>Missing outputs\<close>

datatype input_modality = TextModality | ImageModality

definition IMAGE_CONTENT_OMITTED_PLACEHOLDER :: rstr where
  "IMAGE_CONTENT_OMITTED_PLACEHOLDER = lit ''image content omitted because you do not support image input''"

definition aborted_payload :: function_call_output_payload where
  "aborted_payload = \<lparr>body = BodyText (lit ''aborted''), success = None\<rparr>"

definition has_function_output :: "rstr \<Rightarrow> response_item list \<Rightarrow> bool" where
  "has_function_output cid items =
     list_ex (\<lambda>i. case i of FunctionCallOutput existing _ \<Rightarrow> existing = cid | _ \<Rightarrow> False) items"

definition has_search_output :: "rstr \<Rightarrow> response_item list \<Rightarrow> bool" where
  "has_search_output cid items =
     list_ex (\<lambda>i. case i of ToolSearchOutput (Some existing) _ _ _ \<Rightarrow> existing = cid | _ \<Rightarrow> False) items"

definition has_custom_output :: "rstr \<Rightarrow> response_item list \<Rightarrow> bool" where
  "has_custom_output cid items =
     list_ex (\<lambda>i. case i of CustomToolCallOutput existing _ _ \<Rightarrow> existing = cid | _ \<Rightarrow> False) items"

text \<open>
  The output to insert after a call without one, and whether its absence is reported by
  \<^verbatim>\<open>error_or_panic\<close>.
\<close>

fun missing_output :: "response_item list \<Rightarrow> response_item \<Rightarrow> (bool \<times> response_item) option" where
  "missing_output items (FunctionCall _ _ _ _ cid) =
     (if has_function_output cid items then None else Some (False, FunctionCallOutput cid aborted_payload))"
| "missing_output items (ToolSearchCall _ (Some cid) _ _ _) =
     (if has_search_output cid items then None
      else Some (False, ToolSearchOutput (Some cid) (lit ''completed'') (lit ''client'') []))"
| "missing_output items (CustomToolCall _ _ cid _ _) =
     (if has_custom_output cid items then None else Some (True, CustomToolCallOutput cid None aborted_payload))"
| "missing_output items (LocalShellCall _ (Some cid) _ _) =
     (if has_function_output cid items then None else Some (True, FunctionCallOutput cid aborted_payload))"
| "missing_output items _ = None"

definition missing_outputs :: "response_item list \<Rightarrow> (nat \<times> bool \<times> response_item) list" where
  "missing_outputs items =
     List.map_filter (\<lambda>(idx, item). map_option (Pair idx) (missing_output items item)) (enumerate 0 items)"

definition vec_insert :: "nat \<Rightarrow> 'a \<Rightarrow> 'a list \<Rightarrow> (unit, 'a list) outcome" where
  "vec_insert i x xs = (if i \<le> length xs then Ok (take i xs @ x # drop i xs) else Panic)"

text \<open>The insertions run in reverse order, so \<open>foldr\<close> meets the last one first.\<close>

definition insert_outputs ::
  "(nat \<times> response_item) list \<Rightarrow> response_item list \<Rightarrow> (unit, response_item list) outcome" where
  "insert_outputs outputs items =
     foldr (\<lambda>(idx, output_item) acc. and_then acc (vec_insert (idx + 1) output_item)) outputs (Ok items)"

definition ensure_call_outputs_present ::
  "bool \<Rightarrow> response_item list \<Rightarrow> (unit, response_item list) outcome" where
  "ensure_call_outputs_present debug items =
     (let missing = missing_outputs items in
      if debug \<and> list_ex (\<lambda>(_, reported, _). reported) missing then Panic
      else insert_outputs (map (\<lambda>(idx, _, out). (idx, out)) missing) items)"

section \<open>Orphan outputs\<close>

definition function_call_ids :: "response_item list \<Rightarrow> rstr list" where
  "function_call_ids items =
     List.map_filter (\<lambda>i. case i of FunctionCall _ _ _ _ cid \<Rightarrow> Some cid | _ \<Rightarrow> None) items"

definition tool_search_call_ids :: "response_item list \<Rightarrow> rstr list" where
  "tool_search_call_ids items =
     List.map_filter (\<lambda>i. case i of ToolSearchCall _ cid _ _ _ \<Rightarrow> cid | _ \<Rightarrow> None) items"

definition local_shell_call_ids :: "response_item list \<Rightarrow> rstr list" where
  "local_shell_call_ids items =
     List.map_filter (\<lambda>i. case i of LocalShellCall _ cid _ _ \<Rightarrow> cid | _ \<Rightarrow> None) items"

definition custom_tool_call_ids :: "response_item list \<Rightarrow> rstr list" where
  "custom_tool_call_ids items =
     List.map_filter (\<lambda>i. case i of CustomToolCall _ _ cid _ _ \<Rightarrow> Some cid | _ \<Rightarrow> None) items"

fun has_match :: "response_item list \<Rightarrow> response_item \<Rightarrow> bool" where
  "has_match items (FunctionCallOutput cid _) =
     (cid \<in> set (function_call_ids items) \<or> cid \<in> set (local_shell_call_ids items))"
| "has_match items (CustomToolCallOutput cid _ _) = (cid \<in> set (custom_tool_call_ids items))"
| "has_match items (ToolSearchOutput cid _ execution _) =
     (execution = lit ''server'' \<or>
      (case cid of Some cid \<Rightarrow> cid \<in> set (tool_search_call_ids items) | None \<Rightarrow> True))"
| "has_match items _ = True"

definition remove_orphan_outputs :: "bool \<Rightarrow> response_item list \<Rightarrow> (unit, response_item list) outcome" where
  "remove_orphan_outputs debug items =
     (if debug \<and> list_ex (\<lambda>i. \<not> has_match items i) items then Panic
      else Ok (filter (has_match items) items))"

section \<open>Removing counterparts\<close>

fun remove_first_matching :: "('a \<Rightarrow> bool) \<Rightarrow> 'a list \<Rightarrow> 'a list" where
  "remove_first_matching P [] = []"
| "remove_first_matching P (x # xs) = (if P x then xs else x # remove_first_matching P xs)"

definition is_function_output :: "rstr \<Rightarrow> response_item \<Rightarrow> bool" where
  "is_function_output cid i = (case i of FunctionCallOutput existing _ \<Rightarrow> existing = cid | _ \<Rightarrow> False)"
definition is_function_call :: "rstr \<Rightarrow> response_item \<Rightarrow> bool" where
  "is_function_call cid i = (case i of FunctionCall _ _ _ _ existing \<Rightarrow> existing = cid | _ \<Rightarrow> False)"
definition is_local_shell_call :: "rstr \<Rightarrow> response_item \<Rightarrow> bool" where
  "is_local_shell_call cid i = (case i of LocalShellCall _ (Some existing) _ _ \<Rightarrow> existing = cid | _ \<Rightarrow> False)"
definition is_search_output :: "rstr \<Rightarrow> response_item \<Rightarrow> bool" where
  "is_search_output cid i = (case i of ToolSearchOutput (Some existing) _ _ _ \<Rightarrow> existing = cid | _ \<Rightarrow> False)"
definition is_search_call :: "rstr \<Rightarrow> response_item \<Rightarrow> bool" where
  "is_search_call cid i = (case i of ToolSearchCall _ (Some existing) _ _ _ \<Rightarrow> existing = cid | _ \<Rightarrow> False)"
definition is_custom_output :: "rstr \<Rightarrow> response_item \<Rightarrow> bool" where
  "is_custom_output cid i = (case i of CustomToolCallOutput existing _ _ \<Rightarrow> existing = cid | _ \<Rightarrow> False)"
definition is_custom_call :: "rstr \<Rightarrow> response_item \<Rightarrow> bool" where
  "is_custom_call cid i = (case i of CustomToolCall _ _ existing _ _ \<Rightarrow> existing = cid | _ \<Rightarrow> False)"

fun remove_corresponding_for :: "response_item list \<Rightarrow> response_item \<Rightarrow> response_item list" where
  "remove_corresponding_for items (FunctionCall _ _ _ _ cid) = remove_first_matching (is_function_output cid) items"
| "remove_corresponding_for items (FunctionCallOutput cid _) =
     (if list_ex (is_function_call cid) items then remove_first_matching (is_function_call cid) items
      else remove_first_matching (is_local_shell_call cid) items)"
| "remove_corresponding_for items (ToolSearchCall _ (Some cid) _ _ _) = remove_first_matching (is_search_output cid) items"
| "remove_corresponding_for items (ToolSearchOutput (Some cid) _ _ _) = remove_first_matching (is_search_call cid) items"
| "remove_corresponding_for items (CustomToolCall _ _ cid _ _) = remove_first_matching (is_custom_output cid) items"
| "remove_corresponding_for items (CustomToolCallOutput cid _ _) = remove_first_matching (is_custom_call cid) items"
| "remove_corresponding_for items (LocalShellCall _ (Some cid) _ _) = remove_first_matching (is_function_output cid) items"
| "remove_corresponding_for items _ = items"

section \<open>Images\<close>

fun strip_content_image :: "content_item \<Rightarrow> content_item" where
  "strip_content_image (InputImage _ _) = InputText IMAGE_CONTENT_OMITTED_PLACEHOLDER"
| "strip_content_image c = c"

fun replace_output_image :: "rstr \<Rightarrow> output_content_item \<Rightarrow> output_content_item" where
  "replace_output_image placeholder (OutInputImage _ _) = OutInputText placeholder"
| "replace_output_image placeholder c = c"

definition strip_payload_images :: "function_call_output_payload \<Rightarrow> function_call_output_payload" where
  "strip_payload_images output =
     (case body output of
        BodyText _ \<Rightarrow> output
      | ContentItems content_items \<Rightarrow>
          output\<lparr>body := ContentItems (map (replace_output_image IMAGE_CONTENT_OMITTED_PLACEHOLDER) content_items)\<rparr>)"

fun strip_item_images :: "response_item \<Rightarrow> response_item" where
  "strip_item_images (Message i role content phase) = Message i role (map strip_content_image content) phase"
| "strip_item_images (FunctionCallOutput cid output) = FunctionCallOutput cid (strip_payload_images output)"
| "strip_item_images (CustomToolCallOutput cid name output) = CustomToolCallOutput cid name (strip_payload_images output)"
| "strip_item_images (ImageGenerationCall i status revised _) = ImageGenerationCall i status revised []"
| "strip_item_images item = item"

definition strip_images_when_unsupported :: "input_modality list \<Rightarrow> response_item list \<Rightarrow> response_item list" where
  "strip_images_when_unsupported input_modalities items =
     (if ImageModality \<in> set input_modalities then items else map strip_item_images items)"

definition normalize_history ::
  "bool \<Rightarrow> input_modality list \<Rightarrow> response_item list \<Rightarrow> (unit, response_item list) outcome" where
  "normalize_history debug input_modalities items =
     and_then (ensure_call_outputs_present debug items) (\<lambda>items.
     and_then (remove_orphan_outputs debug items) (\<lambda>items.
       Ok (strip_images_when_unsupported input_modalities items)))"

section \<open>Calls and outputs as pairs\<close>

datatype pair_key = FunctionKey rstr | SearchKey rstr | CustomKey rstr

fun call_key :: "response_item \<Rightarrow> pair_key option" where
  "call_key (FunctionCall _ _ _ _ cid) = Some (FunctionKey cid)"
| "call_key (LocalShellCall _ cid _ _) = map_option FunctionKey cid"
| "call_key (ToolSearchCall _ cid _ _ _) = map_option SearchKey cid"
| "call_key (CustomToolCall _ _ cid _ _) = Some (CustomKey cid)"
| "call_key _ = None"

fun output_key :: "response_item \<Rightarrow> pair_key option" where
  "output_key (FunctionCallOutput cid _) = Some (FunctionKey cid)"
| "output_key (ToolSearchOutput cid _ _ _) = map_option SearchKey cid"
| "output_key (CustomToolCallOutput cid _ _) = Some (CustomKey cid)"
| "output_key _ = None"

text \<open>An output of a search the server ran itself needs no call.\<close>

fun server_output :: "response_item \<Rightarrow> bool" where
  "server_output (ToolSearchOutput _ _ execution _) = (execution = lit ''server'')"
| "server_output _ = False"

definition calls_answered :: "response_item list \<Rightarrow> bool" where
  "calls_answered items \<longleftrightarrow>
     (\<forall>i \<in> set items. \<forall>k. call_key i = Some k \<longrightarrow> (\<exists>j \<in> set items. output_key j = Some k))"

definition outputs_called :: "response_item list \<Rightarrow> bool" where
  "outputs_called items \<longleftrightarrow>
     (\<forall>i \<in> set items. \<forall>k. output_key i = Some k \<longrightarrow> server_output i \<or> (\<exists>j \<in> set items. call_key j = Some k))"

lemma has_output_iff:
  "has_function_output cid items \<longleftrightarrow> (\<exists>j \<in> set items. output_key j = Some (FunctionKey cid))"
  "has_search_output cid items \<longleftrightarrow> (\<exists>j \<in> set items. output_key j = Some (SearchKey cid))"
  "has_custom_output cid items \<longleftrightarrow> (\<exists>j \<in> set items. output_key j = Some (CustomKey cid))"
  unfolding has_function_output_def has_search_output_def has_custom_output_def list_ex_iff
  by (rule bex_cong [OF refl], rename_tac i, case_tac i; auto split: option.splits)+


lemma has_match_iff:
  "has_match items i \<longleftrightarrow>
     (\<forall>k. output_key i = Some k \<longrightarrow> server_output i \<or> (\<exists>j \<in> set items. call_key j = Some k))"
proof -
  have ids: "cid \<in> set (function_call_ids items) \<or> cid \<in> set (local_shell_call_ids items)
      \<longleftrightarrow> (\<exists>j \<in> set items. call_key j = Some (FunctionKey cid))"
    "cid \<in> set (custom_tool_call_ids items) \<longleftrightarrow> (\<exists>j \<in> set items. call_key j = Some (CustomKey cid))"
    "cid \<in> set (tool_search_call_ids items) \<longleftrightarrow> (\<exists>j \<in> set items. call_key j = Some (SearchKey cid))" for cid
    unfolding function_call_ids_def local_shell_call_ids_def custom_tool_call_ids_def tool_search_call_ids_def
    by (induction items; simp add: List.map_filter_simps split: option.splits; rename_tac i l; case_tac i; auto)+
  show ?thesis
    by (cases i) (auto simp: ids split: option.splits)
qed

lemma orphan_free_iff: "outputs_called items \<longleftrightarrow> list_all (has_match items) items"
  by (auto simp: outputs_called_def has_match_iff list_all_iff)

section \<open>The inserted outputs\<close>

text \<open>What the reversed insertions amount to: each call is followed by the output it lacks.\<close>

definition with_missing :: "response_item list \<Rightarrow> response_item \<Rightarrow> response_item list" where
  "with_missing items i = i # (case missing_output items i of None \<Rightarrow> [] | Some (_, out) \<Rightarrow> [out])"

lemma insert_outputs_from:
  assumes "length xs = n"
  shows "insert_outputs (map (\<lambda>(idx, _, out). (idx, out))
      (List.map_filter (\<lambda>(idx, item). map_option (Pair idx) (missing_output items item)) (enumerate n ys)))
      (xs @ ys) = Ok (xs @ concat (map (with_missing items) ys))"
  using assms
proof (induction ys arbitrary: n xs)
  case Nil
  then show ?case by (simp add: insert_outputs_def List.map_filter_simps)
next
  case (Cons y ys)
  from Cons.prems have "length (xs @ [y]) = Suc n" by simp
  from Cons.IH [OF this] Cons.prems show ?case
    by (auto simp: insert_outputs_def List.map_filter_simps with_missing_def vec_insert_def split: option.splits)
qed

lemma ensure_call_outputs_release:
  "ensure_call_outputs_present False items = Ok (concat (map (with_missing items) items))"
  using insert_outputs_from [of "[]" 0 items items]
  by (simp add: ensure_call_outputs_present_def missing_outputs_def)

text \<open>An inserted output answers its call, and nothing is inserted where every call is answered.\<close>

lemma missing_output_key:
  "missing_output items i = Some (r, out) \<Longrightarrow>
     output_key out = call_key i \<and> call_key i \<noteq> None \<and> call_key out = None"
  by (induction items i rule: missing_output.induct) (auto split: if_splits)

lemma missing_output_none_iff:
  "missing_output items i = None \<longleftrightarrow>
     (\<forall>k. call_key i = Some k \<longrightarrow> (\<exists>j \<in> set items. output_key j = Some k))"
  by (induction items i rule: missing_output.induct) (auto simp: has_output_iff)

lemma answered_iff: "calls_answered items \<longleftrightarrow> list_all (\<lambda>i. missing_output items i = None) items"
  by (auto simp: calls_answered_def missing_output_none_iff list_all_iff)

lemma ensure_call_outputs_answered:
  assumes "calls_answered items"
  shows "ensure_call_outputs_present debug items = Ok items"
proof -
  have none: "missing_output items i = None" if "i \<in> set items" for i
    using assms that by (simp add: answered_iff list_all_iff)
  have "missing_outputs items = []"
    using none by (auto simp: missing_outputs_def List.map_filter_def filter_empty_conv
        in_set_enumerate_eq)
  then show ?thesis
    by (simp add: ensure_call_outputs_present_def insert_outputs_def)
qed

lemma set_with_missing:
  "set (concat (map (with_missing items) items)) =
     set items \<union> {out. \<exists>i \<in> set items. \<exists>r. missing_output items i = Some (r, out)}"
  by (auto simp: with_missing_def split: option.splits) (metis option.inject)

lemma with_missing_answered: "calls_answered (concat (map (with_missing items) items))"
  unfolding calls_answered_def
proof (intro ballI allI impI)
  fix i k
  assume i: "i \<in> set (concat (map (with_missing items) items))" and k: "call_key i = Some k"
  then have "i \<in> set items"
    unfolding set_with_missing by (auto dest: missing_output_key)
  then show "\<exists>j \<in> set (concat (map (with_missing items) items)). output_key j = Some k"
    using k missing_output_key [of items i] missing_output_none_iff [of items i]
    by (cases "missing_output items i") (fastforce simp: set_with_missing simp del: set_concat)+
qed

text \<open>Only an output can be an orphan, and dropping orphans leaves every call its output.\<close>

lemma call_has_match: "output_key i = None \<Longrightarrow> has_match items i"
  by (simp add: has_match_iff)

lemma call_not_output: "call_key i = Some k \<Longrightarrow> output_key i = None"
  by (cases i) auto

lemma filter_match_calls:
  "(\<exists>j \<in> set (filter (has_match items) items). call_key j = Some k) \<longleftrightarrow> (\<exists>j \<in> set items. call_key j = Some k)"
  by (auto intro: call_has_match call_not_output)

lemma filter_match_called: "outputs_called (filter (has_match items) items)"
  unfolding outputs_called_def using filter_match_calls by (auto simp: has_match_iff)

lemma filter_match_answered:
  assumes "calls_answered items"
  shows "calls_answered (filter (has_match items) items)"
  unfolding calls_answered_def
proof (intro ballI allI impI)
  fix i k
  assume i: "i \<in> set (filter (has_match items) items)" and k: "call_key i = Some k"
  with assms obtain j where "j \<in> set items" "output_key j = Some k"
    by (auto simp: calls_answered_def)
  with i k show "\<exists>j \<in> set (filter (has_match items) items). output_key j = Some k"
    by (auto simp: has_match_iff)
qed

section \<open>Stripping images\<close>

lemma strip_keys [simp]:
  "call_key (strip_item_images i) = call_key i" "output_key (strip_item_images i) = output_key i"
  "server_output (strip_item_images i) = server_output i"
  by (cases i; simp)+

lemma replace_output_image_idem [simp]:
  "replace_output_image q (replace_output_image q c) = replace_output_image q c"
  by (cases c) auto

lemma strip_payload_idem [simp]: "strip_payload_images (strip_payload_images p) = strip_payload_images p"
  by (auto simp: strip_payload_images_def split: function_call_output_body.splits)

lemma strip_content_idem [simp]: "strip_content_image (strip_content_image c) = strip_content_image c"
  by (cases c) auto

lemma strip_item_idem [simp]: "strip_item_images (strip_item_images i) = strip_item_images i"
  by (cases i) auto

lemma strip_images_map:
  "strip_images_when_unsupported mods items =
     map (if ImageModality \<in> set mods then id else strip_item_images) items"
  by (simp add: strip_images_when_unsupported_def)

lemma strip_images_pairs [simp]:
  "calls_answered (strip_images_when_unsupported mods items) = calls_answered items"
  "outputs_called (strip_images_when_unsupported mods items) = outputs_called items"
  by (auto simp: strip_images_when_unsupported_def calls_answered_def outputs_called_def)

text \<open>The images an item shows the model.\<close>

fun item_images :: "response_item \<Rightarrow> nat" where
  "item_images (Message _ _ content _) = length (filter (\<lambda>c. case c of InputImage _ _ \<Rightarrow> True | _ \<Rightarrow> False) content)"
| "item_images (FunctionCallOutput _ output) =
     (case body output of BodyText _ \<Rightarrow> 0
      | ContentItems cs \<Rightarrow> length (filter (\<lambda>c. case c of OutInputImage _ _ \<Rightarrow> True | _ \<Rightarrow> False) cs))"
| "item_images (CustomToolCallOutput _ _ output) =
     (case body output of BodyText _ \<Rightarrow> 0
      | ContentItems cs \<Rightarrow> length (filter (\<lambda>c. case c of OutInputImage _ _ \<Rightarrow> True | _ \<Rightarrow> False) cs))"
| "item_images (ImageGenerationCall _ _ _ result) = (if result = [] then 0 else 1)"
| "item_images _ = 0"

lemma strip_item_no_image [simp]: "item_images (strip_item_images i) = 0"
proof -
  have "\<not> (case strip_content_image c of InputImage _ _ \<Rightarrow> True | _ \<Rightarrow> False)"
    "\<not> (case replace_output_image IMAGE_CONTENT_OMITTED_PLACEHOLDER d of OutInputImage _ _ \<Rightarrow> True | _ \<Rightarrow> False)" for c d
    by (cases c; simp) (cases d; simp)
  then show ?thesis
    by (cases i) (auto simp: strip_payload_images_def filter_empty_conv split: function_call_output_body.splits)
qed

section \<open>What the model is sent\<close>

lemma normalize_release:
  "normalize_history False mods items =
     Ok (let answered = concat (map (with_missing items) items) in
         strip_images_when_unsupported mods (filter (has_match answered) answered))"
  by (simp add: normalize_history_def ensure_call_outputs_release remove_orphan_outputs_def Let_def)

lemma normalize_paired:
  assumes "calls_answered items" "outputs_called items"
  shows "normalize_history debug mods items = Ok (strip_images_when_unsupported mods items)"
proof -
  have "filter (has_match items) items = items" "\<not> list_ex (\<lambda>i. \<not> has_match items i) items"
    using assms(2) by (auto simp: orphan_free_iff list_all_iff list_ex_iff)
  then show ?thesis
    by (simp add: normalize_history_def ensure_call_outputs_answered assms(1) remove_orphan_outputs_def)
qed

lemma with_missing_non_outputs:
  "filter (\<lambda>i. output_key i = None) (concat (map (with_missing items) ys)) = filter (\<lambda>i. output_key i = None) ys"
  by (induction ys) (auto simp: with_missing_def split: option.splits dest: missing_output_key)

lemma strip_non_outputs:
  "filter (\<lambda>i. output_key i = None) (strip_images_when_unsupported mods items) =
     strip_images_when_unsupported mods (filter (\<lambda>i. output_key i = None) items)"
  by (simp add: strip_images_map filter_map comp_def)

text \<open>
  (C14) In a release build, normalising a history gives one in which every call is answered and
  every output has its call, that has the same calls and messages in the same order (without their
  images where the model takes none), and that every later normalisation, also in a build with
  debug assertions, accepts and leaves as it is.
\<close>

theorem prompt_history_paired:
  "\<exists>out. normalize_history False mods items = Ok out
     \<and> calls_answered out \<and> outputs_called out
     \<and> filter (\<lambda>i. output_key i = None) out =
         strip_images_when_unsupported mods (filter (\<lambda>i. output_key i = None) items)
     \<and> (ImageModality \<in> set mods \<or> sum_list (map item_images out) = 0)
     \<and> (\<forall>debug. normalize_history debug mods out = Ok out)"
proof -
  define answered where "answered = concat (map (with_missing items) items)"
  define kept where "kept = filter (has_match answered) answered"
  define out where "out = strip_images_when_unsupported mods kept"
  have "calls_answered answered"
    unfolding answered_def by (rule with_missing_answered)
  then have paired: "calls_answered kept" "outputs_called kept"
    unfolding kept_def by (rule filter_match_answered) (rule filter_match_called)
  have "filter (\<lambda>i. output_key i = None) kept = filter (\<lambda>i. output_key i = None) answered"
    unfolding kept_def filter_filter by (rule filter_cong) (auto intro: call_has_match)
  then have same: "filter (\<lambda>i. output_key i = None) kept = filter (\<lambda>i. output_key i = None) items"
    by (simp only: answered_def with_missing_non_outputs)
  have idem: "strip_images_when_unsupported mods out = out"
    by (simp add: out_def strip_images_when_unsupported_def)
  have "normalize_history False mods items = Ok out"
    by (simp only: normalize_release out_def kept_def answered_def Let_def)
  moreover have "ImageModality \<in> set mods \<or> sum_list (map item_images out) = 0"
    by (auto simp: out_def strip_images_when_unsupported_def)
  moreover have "normalize_history debug mods out = Ok out" for debug
    using normalize_paired [of out debug mods] paired idem by (simp add: out_def)
  ultimately show ?thesis
    using paired same by (auto simp: out_def strip_non_outputs)
qed

end
