(* ===== verification/Context_Estimate.thy ===== *)
theory Context_Estimate
  imports Context_Fragments
begin

text \<open>
  Token accounting of a conversation: the usage counters of \<^verbatim>\<open>protocol/src/protocol.rs\<close> and the
  byte-based estimates of \<^verbatim>\<open>core/src/context_manager/history.rs\<close>.

  An \<^verbatim>\<open>i64\<close> is an \<open>int\<close>; saturating operations clamp, and the plain \<open>+\<close> and \<open>-\<close> of the source
  panic on overflow in a build with debug assertions (\<open>debug\<close>) and wrap in a release build.  What
  the estimates take from crates (\<^verbatim>\<open>serde_json\<close>, \<^verbatim>\<open>base64\<close>, \<^verbatim>\<open>image\<close>) is a \<open>codec\<close>.  The cache
  keyed by the SHA-1 digest of an image URL only remembers \<open>estimate_original_image_bytes\<close> and is
  left out.
\<close>

section \<open>Signed 64-bit arithmetic\<close>

definition I64_MAX :: int where "I64_MAX = 2 ^ 63 - 1"
definition I64_MIN :: int where "I64_MIN = - (2 ^ 63)"

definition is_i64 :: "int \<Rightarrow> bool" where
  "is_i64 x \<longleftrightarrow> I64_MIN \<le> x \<and> x \<le> I64_MAX"

definition i64_clamp :: "int \<Rightarrow> int" where
  "i64_clamp x = max I64_MIN (min I64_MAX x)"

definition i64_saturating_add :: "int \<Rightarrow> int \<Rightarrow> int" where
  "i64_saturating_add a b = i64_clamp (a + b)"

definition i64_saturating_sub :: "int \<Rightarrow> int \<Rightarrow> int" where
  "i64_saturating_sub a b = i64_clamp (a - b)"

definition i64_saturating_mul :: "int \<Rightarrow> int \<Rightarrow> int" where
  "i64_saturating_mul a b = i64_clamp (a * b)"

definition i64_wrap :: "int \<Rightarrow> int" where
  "i64_wrap x = (x + 2 ^ 63) mod 2 ^ 64 - 2 ^ 63"

definition i64_checked :: "bool \<Rightarrow> int \<Rightarrow> (unit, int) outcome" where
  "i64_checked debug x = (if is_i64 x then Ok x else if debug then Panic else Ok (i64_wrap x))"

text \<open>\<^verbatim>\<open>i64::try_from(n).unwrap_or(i64::MAX)\<close> of a \<^verbatim>\<open>usize\<close>.\<close>

definition i64_from_usize :: "nat \<Rightarrow> int" where
  "i64_from_usize n = (if int n \<le> I64_MAX then int n else I64_MAX)"

definition usize_from_i64 :: "int \<Rightarrow> nat" where
  "usize_from_i64 x = (if 0 \<le> x then nat x else USIZE_MAX)"

lemma is_i64_wrap: "is_i64 (i64_wrap x)"
proof -
  have "0 \<le> (x + 2 ^ 63) mod 2 ^ 64" "(x + 2 ^ 63) mod 2 ^ 64 < 2 ^ 64"
    by simp_all
  then show ?thesis by (simp add: is_i64_def i64_wrap_def I64_MIN_def I64_MAX_def)
qed

lemma i64_checked_in_range [simp]: "is_i64 x \<Longrightarrow> i64_checked debug x = Ok x"
  by (simp add: i64_checked_def)

lemma i64_checked_is_i64: "i64_checked debug x = Ok y \<Longrightarrow> is_i64 y"
  by (auto simp: i64_checked_def is_i64_wrap split: if_splits)

lemma i64_clamp_mono: "x \<le> y \<Longrightarrow> i64_clamp x \<le> i64_clamp y"
  by (simp add: i64_clamp_def)

lemma is_i64_clamp [simp]: "is_i64 (i64_clamp x)"
  by (simp add: is_i64_def i64_clamp_def I64_MIN_def I64_MAX_def)

lemma i64_from_usize_range: "0 \<le> i64_from_usize n \<and> i64_from_usize n \<le> I64_MAX"
  by (simp add: i64_from_usize_def I64_MAX_def)

text \<open>\<^verbatim>\<open>.fold(0i64, i64::saturating_add)\<close>; on non-negative numbers it is the clamped sum.\<close>

definition i64_saturating_sum :: "int list \<Rightarrow> int" where
  "i64_saturating_sum xs = foldl i64_saturating_add 0 xs"

lemma i64_saturating_sum_from:
  assumes "\<forall>x \<in> set xs. 0 \<le> x" "0 \<le> a" "a \<le> I64_MAX"
  shows "foldl i64_saturating_add a xs = min I64_MAX (a + sum_list xs)"
  using assms
proof (induction xs arbitrary: a)
  case (Cons x xs)
  have *: "i64_saturating_add a x = min I64_MAX (a + x)"
    using Cons.prems by (simp add: i64_saturating_add_def i64_clamp_def I64_MIN_def I64_MAX_def)
  have "0 \<le> sum_list xs" using Cons.prems(1) by (simp add: sum_list_nonneg)
  with Cons show ?case by (simp add: * I64_MAX_def)
qed simp

lemma i64_saturating_sum_eq:
  "\<forall>x \<in> set xs. 0 \<le> x \<Longrightarrow> i64_saturating_sum xs = min I64_MAX (sum_list xs)"
  unfolding i64_saturating_sum_def by (subst i64_saturating_sum_from) (auto simp: I64_MAX_def)

section \<open>Usage counters\<close>

record token_usage_info =
  total_token_usage :: token_usage
  last_token_usage :: token_usage
  model_context_window :: "int option"

definition default_usage :: token_usage where
  "default_usage = \<lparr>input_tokens = 0, cached_input_tokens = 0, output_tokens = 0,
     reasoning_output_tokens = 0, usage_total_tokens = 0\<rparr>"

definition usage_add_assign :: "bool \<Rightarrow> token_usage \<Rightarrow> token_usage \<Rightarrow> (unit, token_usage) outcome" where
  "usage_add_assign debug u other =
     and_then (i64_checked debug (input_tokens u + input_tokens other)) (\<lambda>i.
     and_then (i64_checked debug (cached_input_tokens u + cached_input_tokens other)) (\<lambda>c.
     and_then (i64_checked debug (output_tokens u + output_tokens other)) (\<lambda>out.
     and_then (i64_checked debug (reasoning_output_tokens u + reasoning_output_tokens other)) (\<lambda>r.
     and_then (i64_checked debug (usage_total_tokens u + usage_total_tokens other)) (\<lambda>t.
       Ok \<lparr>input_tokens = i, cached_input_tokens = c, output_tokens = out,
           reasoning_output_tokens = r, usage_total_tokens = t\<rparr>)))))"

definition append_last_usage ::
  "bool \<Rightarrow> token_usage \<Rightarrow> token_usage_info \<Rightarrow> (unit, token_usage_info) outcome" where
  "append_last_usage debug last_usage info =
     and_then (usage_add_assign debug (total_token_usage info) last_usage) (\<lambda>total.
       Ok (info\<lparr>total_token_usage := total, last_token_usage := last_usage\<rparr>))"

definition new_or_append ::
  "bool \<Rightarrow> token_usage_info option \<Rightarrow> token_usage option \<Rightarrow> int option \<Rightarrow>
   (unit, token_usage_info option) outcome" where
  "new_or_append debug info last_usage window =
     (if info = None \<and> last_usage = None then Ok None
      else let info0 = (case info of Some i \<Rightarrow> i
             | None \<Rightarrow> \<lparr>total_token_usage = default_usage, last_token_usage = default_usage,
                        model_context_window = window\<rparr>)
           in and_then (case last_usage of Some u \<Rightarrow> append_last_usage debug u info0 | None \<Rightarrow> Ok info0) (\<lambda>i.
                Ok (Some (case window of Some w \<Rightarrow> i\<lparr>model_context_window := Some w\<rparr> | None \<Rightarrow> i))))"

definition fill_to_context_window ::
  "bool \<Rightarrow> int \<Rightarrow> token_usage_info \<Rightarrow> (unit, token_usage_info) outcome" where
  "fill_to_context_window debug context_window info =
     (let previous_total = usage_total_tokens (total_token_usage info) in
      and_then (i64_checked debug (context_window - previous_total)) (\<lambda>d.
        Ok \<lparr>total_token_usage = default_usage\<lparr>usage_total_tokens := context_window\<rparr>,
            last_token_usage = default_usage\<lparr>usage_total_tokens := max d 0\<rparr>,
            model_context_window = Some context_window\<rparr>))"

definition full_context_window :: "bool \<Rightarrow> int \<Rightarrow> (unit, token_usage_info) outcome" where
  "full_context_window debug context_window =
     fill_to_context_window debug context_window
       \<lparr>total_token_usage = default_usage, last_token_usage = default_usage,
        model_context_window = Some context_window\<rparr>"

definition cached_input :: "token_usage \<Rightarrow> int" where
  "cached_input u = max (cached_input_tokens u) 0"

definition non_cached_input :: "bool \<Rightarrow> token_usage \<Rightarrow> (unit, int) outcome" where
  "non_cached_input debug u =
     and_then (i64_checked debug (input_tokens u - cached_input u)) (\<lambda>d. Ok (max d 0))"

definition blended_total :: "bool \<Rightarrow> token_usage \<Rightarrow> (unit, int) outcome" where
  "blended_total debug u =
     and_then (non_cached_input debug u) (\<lambda>n.
     and_then (i64_checked debug (n + max (output_tokens u) 0)) (\<lambda>t. Ok (max t 0)))"

section \<open>Estimated sizes\<close>

record codec =
  to_json_string :: "response_item \<Rightarrow> rstr option"
  base64_decode :: "rstr \<Rightarrow> nat list option"
  image_dimensions :: "nat list \<Rightarrow> (nat \<times> nat) option"

definition RESIZED_IMAGE_BYTES_ESTIMATE :: int where
  "RESIZED_IMAGE_BYTES_ESTIMATE = 7373"

definition ORIGINAL_IMAGE_PATCH_SIZE :: int where
  "ORIGINAL_IMAGE_PATCH_SIZE = 32"

definition ORIGINAL_IMAGE_MAX_PATCHES :: nat where
  "ORIGINAL_IMAGE_MAX_PATCHES = 10000"

definition estimate_reasoning_length :: "nat \<Rightarrow> nat" where
  "estimate_reasoning_length encoded_len = usize_saturating_mul encoded_len 3 div 4 - 650"

definition approx_tokens_from_byte_count_i64 :: "int \<Rightarrow> int" where
  "approx_tokens_from_byte_count_i64 bytes =
     (if bytes \<le> 0 then 0 else i64_from_usize (approx_tokens_from_byte_count (usize_from_i64 bytes)))"

text \<open>
  The five bytes of the scheme are five characters (lemma \<open>data_url_scheme\<close>), so the slice after
  them drops five characters.
\<close>

definition parse_base64_image_data_url :: "rstr \<Rightarrow> rstr option" where
  "parse_base64_image_data_url url =
     (if \<not> is_some_and (get_to 5 url) (\<lambda>prefix. eq_ignore_ascii_case prefix (lit ''data:'')) then None
      else case split_once (ch (CHR '','')) url of
        None \<Rightarrow> None
      | Some (metadata, payload) \<Rightarrow>
          let metadata_without_scheme = drop 5 metadata;
              metadata_parts = split_on (ch (CHR '';'')) metadata_without_scheme;
              mime_type = (case metadata_parts of [] \<Rightarrow> [] | p # _ \<Rightarrow> p);
              has_base64_marker = list_ex (\<lambda>part. eq_ignore_ascii_case part (lit ''base64'')) (tl metadata_parts)
          in if \<not> is_some_and (get_to 6 mime_type) (\<lambda>prefix. eq_ignore_ascii_case prefix (lit ''image/'')) then None
             else if \<not> has_base64_marker then None
             else Some payload)"

definition image_patches :: "int \<Rightarrow> int \<Rightarrow> int" where
  "image_patches width height =
     (let patch_size = ORIGINAL_IMAGE_PATCH_SIZE;
          patches_wide = i64_saturating_add width (i64_saturating_sub patch_size 1) div patch_size;
          patches_high = i64_saturating_add height (i64_saturating_sub patch_size 1) div patch_size
      in i64_saturating_mul patches_wide patches_high)"

definition estimate_original_image_bytes :: "codec \<Rightarrow> rstr \<Rightarrow> int option" where
  "estimate_original_image_bytes cd image_url =
     (case parse_base64_image_data_url image_url of
        None \<Rightarrow> None
      | Some payload \<Rightarrow>
        (case base64_decode cd payload of
           None \<Rightarrow> None
         | Some bytes \<Rightarrow>
           (case image_dimensions cd bytes of
              None \<Rightarrow> None
            | Some (width, height) \<Rightarrow>
                let patch_count = usize_from_i64 (image_patches (int width) (int height));
                    patch_count = min patch_count ORIGINAL_IMAGE_MAX_PATCHES
                in Some (i64_from_usize (approx_bytes_for_tokens patch_count)))))"

definition accumulate_image ::
  "codec \<Rightarrow> rstr \<times> image_detail option \<Rightarrow> int \<times> int \<Rightarrow> int \<times> int" where
  "accumulate_image cd = (\<lambda>(image_url, detail) (payload_bytes, replacement_bytes).
     case parse_base64_image_data_url image_url of
       None \<Rightarrow> (payload_bytes, replacement_bytes)
     | Some payload \<Rightarrow>
         (i64_saturating_add payload_bytes (i64_from_usize (byte_len payload)),
          i64_saturating_add replacement_bytes
            (if detail = Some DetailOriginal
             then (case estimate_original_image_bytes cd image_url of Some n \<Rightarrow> n | None \<Rightarrow> RESIZED_IMAGE_BYTES_ESTIMATE)
             else RESIZED_IMAGE_BYTES_ESTIMATE)))"

fun message_images :: "content_item list \<Rightarrow> (rstr \<times> image_detail option) list" where
  "message_images [] = []"
| "message_images (InputImage url detail # content) = (url, detail) # message_images content"
| "message_images (_ # content) = message_images content"

fun output_images :: "output_content_item list \<Rightarrow> (rstr \<times> image_detail option) list" where
  "output_images [] = []"
| "output_images (OutInputImage url detail # content) = (url, detail) # output_images content"
| "output_images (_ # content) = output_images content"

definition payload_images :: "function_call_output_payload \<Rightarrow> (rstr \<times> image_detail option) list" where
  "payload_images output = (case body output of ContentItems cs \<Rightarrow> output_images cs | BodyText _ \<Rightarrow> [])"

fun inline_images :: "response_item \<Rightarrow> (rstr \<times> image_detail option) list" where
  "inline_images (Message _ _ content _) = message_images content"
| "inline_images (FunctionCallOutput _ output) = payload_images output"
| "inline_images (CustomToolCallOutput _ _ output) = payload_images output"
| "inline_images _ = []"

definition image_data_url_estimate_adjustment :: "codec \<Rightarrow> response_item \<Rightarrow> int \<times> int" where
  "image_data_url_estimate_adjustment cd item = fold (accumulate_image cd) (inline_images item) (0, 0)"

definition estimate_serialized_bytes :: "codec \<Rightarrow> response_item \<Rightarrow> int" where
  "estimate_serialized_bytes cd item =
     (let raw = (case to_json_string cd item of Some serialized \<Rightarrow> i64_from_usize (byte_len serialized) | None \<Rightarrow> 0);
          (payload_bytes, replacement_bytes) = image_data_url_estimate_adjustment cd item
      in if payload_bytes = 0 \<or> replacement_bytes = 0 then raw
         else i64_saturating_add (i64_saturating_sub raw payload_bytes) replacement_bytes)"

fun estimate_response_item_model_visible_bytes :: "codec \<Rightarrow> response_item \<Rightarrow> int" where
  "estimate_response_item_model_visible_bytes cd (Reasoning _ _ _ (Some content)) =
     i64_from_usize (estimate_reasoning_length (byte_len content))"
| "estimate_response_item_model_visible_bytes cd (Compaction content) =
     i64_from_usize (estimate_reasoning_length (byte_len content))"
| "estimate_response_item_model_visible_bytes cd (ContextCompaction (Some content)) =
     i64_from_usize (estimate_reasoning_length (byte_len content))"
| "estimate_response_item_model_visible_bytes cd item = estimate_serialized_bytes cd item"

definition estimate_item_token_count :: "codec \<Rightarrow> response_item \<Rightarrow> int" where
  "estimate_item_token_count cd item =
     approx_tokens_from_byte_count_i64 (estimate_response_item_model_visible_bytes cd item)"

section \<open>The slice after the scheme\<close>

lemma byte_slice_to_ok: "byte_slice_to n s = Ok p \<Longrightarrow> byte_len p = n \<and> (\<exists>r. s = p @ r)"
proof (induction n s arbitrary: p rule: byte_slice_to.induct)
  case (2 n c cs)
  then show ?case
    by (cases "byte_slice_to (n - utf8_len c) cs") (auto split: if_splits)
qed (auto split: if_splits)

text \<open>A URL that passes the scheme test can be sliced after five bytes, before and after the comma.\<close>

lemma data_url_scheme:
  assumes scheme: "is_some_and (get_to 5 url) (\<lambda>prefix. eq_ignore_ascii_case prefix (lit ''data:''))"
    and split: "split_once (ch (CHR '','')) url = Some (metadata, payload)"
  shows "byte_slice_from 5 metadata = (Ok (drop 5 metadata) :: (unit, rstr) outcome)"
proof -
  obtain p where "get_to 5 url = Some p" and low: "to_ascii_lowercase p = lit ''data:''"
    using scheme by (auto simp: is_some_and_def eq_ignore_ascii_case_def to_ascii_lowercase_def split: option.splits)
  then obtain r where p: "byte_len p = 5" "url = p @ r"
    by (auto simp: get_to_def dest: byte_slice_to_ok split: outcome.splits)
  have len: "length p = 5"
    using arg_cong [OF low, of length] by (simp add: to_ascii_lowercase_def)
  have "44 \<notin> set (to_ascii_lowercase p)"
    by (simp add: low)
  then have comma: "44 \<notin> set p"
    by (force simp: to_ascii_lowercase_def)
  have skip: "split_once 44 (p @ r) = map_option (apfst ((@) p)) (split_once 44 r)"
    using comma by (induction p) (auto simp: option.map_comp comp_def option.map_ident split: option.splits, cases "split_once 44 r", auto)
  obtain m where "metadata = p @ m"
    using split by (auto simp: p skip)
  then show ?thesis
    using byte_slice_from_suffix [of p m] p len by simp
qed

section \<open>Bounds\<close>

lemma approx_tokens_i64_range:
  "0 \<le> approx_tokens_from_byte_count_i64 b \<and> approx_tokens_from_byte_count_i64 b \<le> I64_MAX"
  using i64_from_usize_range by (simp add: approx_tokens_from_byte_count_i64_def I64_MAX_def)

lemma estimate_item_range: "0 \<le> estimate_item_token_count cd i \<and> estimate_item_token_count cd i \<le> I64_MAX"
  by (simp add: estimate_item_token_count_def approx_tokens_i64_range)

lemma original_image_bounded:
  "estimate_original_image_bytes cd url = Some n \<Longrightarrow> 0 \<le> n \<and> n \<le> 40000"
  by (auto simp: estimate_original_image_bytes_def Let_def i64_from_usize_def approx_bytes_for_tokens_def
      usize_saturating_mul_def APPROX_BYTES_PER_TOKEN_def ORIGINAL_IMAGE_MAX_PATCHES_def I64_MAX_def
      split: option.splits if_splits)

section \<open>Totals\<close>

definition usage_sum :: "token_usage list \<Rightarrow> token_usage" where
  "usage_sum us = \<lparr>input_tokens = sum_list (map input_tokens us),
     cached_input_tokens = sum_list (map cached_input_tokens us),
     output_tokens = sum_list (map output_tokens us),
     reasoning_output_tokens = sum_list (map reasoning_output_tokens us),
     usage_total_tokens = sum_list (map usage_total_tokens us)\<rparr>"

definition usage_fields :: "token_usage \<Rightarrow> int list" where
  "usage_fields u = [input_tokens u, cached_input_tokens u, output_tokens u,
     reasoning_output_tokens u, usage_total_tokens u]"

text \<open>The usages of a run of responses, appended one by one from an empty counter.\<close>

definition append_usages ::
  "bool \<Rightarrow> int option \<Rightarrow> token_usage list \<Rightarrow> (unit, token_usage_info option) outcome" where
  "append_usages debug window us =
     foldl (\<lambda>acc u. and_then acc (\<lambda>info. new_or_append debug info (Some u) window)) (Ok None) us"

lemma usage_sum_snoc:
  "usage_sum (us @ [u]) = \<lparr>input_tokens = input_tokens (usage_sum us) + input_tokens u,
     cached_input_tokens = cached_input_tokens (usage_sum us) + cached_input_tokens u,
     output_tokens = output_tokens (usage_sum us) + output_tokens u,
     reasoning_output_tokens = reasoning_output_tokens (usage_sum us) + reasoning_output_tokens u,
     usage_total_tokens = usage_total_tokens (usage_sum us) + usage_total_tokens u\<rparr>"
  by (simp add: usage_sum_def)

lemma usage_add_sum:
  assumes "\<forall>x \<in> set (usage_fields (usage_sum (us @ [u]))). is_i64 x"
  shows "usage_add_assign debug (usage_sum us) u = Ok (usage_sum (us @ [u]))"
  using assms by (simp add: usage_add_assign_def usage_sum_snoc usage_fields_def)

lemma usage_sum_bounded:
  assumes "\<forall>v \<in> set (us @ [u]). \<forall>x \<in> set (usage_fields v). 0 \<le> x"
    and "\<forall>x \<in> set (usage_fields (usage_sum (us @ [u]))). x \<le> I64_MAX"
  shows "\<forall>x \<in> set (usage_fields (usage_sum us)). x \<le> I64_MAX"
    and "\<forall>x \<in> set (usage_fields (usage_sum (us @ [u]))). is_i64 x"
proof -
  have nonneg: "0 \<le> sum_list (map f us)" if "f \<in> {input_tokens, cached_input_tokens, output_tokens,
      reasoning_output_tokens, usage_total_tokens}" for f :: "token_usage \<Rightarrow> int"
    using assms(1) that by (intro sum_list_nonneg) (auto simp: usage_fields_def)
  then have ge: "0 \<le> sum_list (map input_tokens us)" "0 \<le> sum_list (map cached_input_tokens us)"
    "0 \<le> sum_list (map output_tokens us)" "0 \<le> sum_list (map reasoning_output_tokens us)"
    "0 \<le> sum_list (map usage_total_tokens us)"
    by auto
  show "\<forall>x \<in> set (usage_fields (usage_sum us)). x \<le> I64_MAX"
    using assms by (auto simp: usage_fields_def usage_sum_def)
  show "\<forall>x \<in> set (usage_fields (usage_sum (us @ [u]))). is_i64 x"
    using assms ge by (auto simp: usage_fields_def usage_sum_def is_i64_def I64_MIN_def)
qed

text \<open>
  As long as the sums fit 64 bits, the counters of a session hold the sum of the usages the
  responses reported, the usage of the last response, and the context window, in any build.
\<close>

theorem token_totals_accumulate:
  assumes "us \<noteq> []" "\<forall>u \<in> set us. \<forall>x \<in> set (usage_fields u). 0 \<le> x"
    and "\<forall>x \<in> set (usage_fields (usage_sum us)). x \<le> I64_MAX"
  shows "append_usages debug window us =
    Ok (Some \<lparr>total_token_usage = usage_sum us, last_token_usage = last us, model_context_window = window\<rparr>)"
  using assms
proof (induction us rule: rev_induct)
  case (snoc u us)
  note bounds = usage_sum_bounded [OF snoc.prems(2,3)]
  have add: "usage_add_assign debug (usage_sum us) u = Ok (usage_sum (us @ [u]))"
    by (rule usage_add_sum) (rule bounds(2))
  have step: "append_usages debug window (us @ [u]) =
      and_then (append_usages debug window us) (\<lambda>info. new_or_append debug info (Some u) window)"
    by (simp add: append_usages_def)
  show ?case
  proof (cases "us = []")
    case True
    then have "usage_sum us = default_usage"
      by (simp add: usage_sum_def default_usage_def)
    with add True show ?thesis
      by (cases window) (simp_all add: append_usages_def new_or_append_def append_last_usage_def)
  next
    case False
    with snoc.IH snoc.prems(2) bounds(1) have "append_usages debug window us =
        Ok (Some \<lparr>total_token_usage = usage_sum us, last_token_usage = last us, model_context_window = window\<rparr>)"
      by simp
    with step add show ?thesis
      by (cases window) (simp_all add: new_or_append_def append_last_usage_def)
  qed
qed simp

definition sample_usage :: token_usage where
  "sample_usage = \<lparr>input_tokens = 7, cached_input_tokens = 2, output_tokens = 5,
     reasoning_output_tokens = 1, usage_total_tokens = 12\<rparr>"

theorem token_totals_accumulate_witness:
  "append_usages True (Some 100) [sample_usage, sample_usage] =
     Ok (Some \<lparr>total_token_usage = usage_sum [sample_usage, sample_usage],
        last_token_usage = sample_usage, model_context_window = Some 100\<rparr>)
   \<and> usage_total_tokens (usage_sum [sample_usage, sample_usage]) = 24"
  using token_totals_accumulate [of "[sample_usage, sample_usage]" True "Some 100"]
  by (simp add: usage_fields_def usage_sum_def sample_usage_def I64_MAX_def)

text \<open>Filling the window sets the total to it; the last usage is what was missing.\<close>

lemma fill_to_context_window_total:
  assumes "is_i64 (w - usage_total_tokens (total_token_usage info))"
  shows "\<exists>i. fill_to_context_window debug w info = Ok i \<and> usage_total_tokens (total_token_usage i) = w
     \<and> usage_total_tokens (last_token_usage i) = max 0 (w - usage_total_tokens (total_token_usage info))
     \<and> model_context_window i = Some w"
  using assms by (simp add: fill_to_context_window_def Let_def max.commute)

lemma blended_total_nonneg: "blended_total debug u = Ok n \<Longrightarrow> 0 \<le> n"
  by (auto simp: blended_total_def outcome_simps)

end
