(* ===== verification/Context_History.thy ===== *)
theory Context_History
  imports Context_Normalize Context_Estimate
begin

text \<open>
  The conversation history (\<^verbatim>\<open>ContextManager\<close> of \<^verbatim>\<open>core/src/context_manager/history.rs\<close>): its
  state, the operations that record, rewrite and roll back items, and its token accounting.

  \<open>from_xml\<close> reads a hook prompt and \<open>inter_agent_json\<close> an instruction of another agent, both with
  crates; \<open>scale\<close> is the floating-point product of \<^verbatim>\<open>policy * 1.2\<close>.
\<close>

section \<open>State\<close>

record 'c context_manager =
  cm_items :: "response_item list"
  cm_history_version :: "64 word"
  cm_token_info :: "token_usage_info option"
  cm_reference_context_item :: "'c option"

record total_token_usage_breakdown =
  last_api_response_total_tokens :: int
  all_history_items_model_visible_bytes :: int
  estimated_tokens_of_items_added_since_last_successful_api_response :: int
  estimated_bytes_of_items_added_since_last_successful_api_response :: int

definition u64_saturating_add :: "64 word \<Rightarrow> 64 word \<Rightarrow> 64 word" where
  "u64_saturating_add a b = (if unat a + unat b < 2 ^ 64 then a + b else - 1)"

definition position :: "('a \<Rightarrow> bool) \<Rightarrow> 'a list \<Rightarrow> nat option" where
  "position P xs = (let i = length (takeWhile (\<lambda>x. \<not> P x) xs) in if i < length xs then Some i else None)"

definition rposition :: "('a \<Rightarrow> bool) \<Rightarrow> 'a list \<Rightarrow> nat option" where
  "rposition P xs = map_option (\<lambda>i. length xs - 1 - i) (position P (rev xs))"

section \<open>Kinds of items\<close>

fun is_api_message :: "response_item \<Rightarrow> bool" where
  "is_api_message (Message _ role _ _) = (role \<noteq> lit ''system'')"
| "is_api_message OtherItem = False"
| "is_api_message _ = True"

fun is_model_generated_item :: "response_item \<Rightarrow> bool" where
  "is_model_generated_item (Message _ role _ _) = (role = lit ''assistant'')"
| "is_model_generated_item (Reasoning _ _ _ _) = True"
| "is_model_generated_item (FunctionCall _ _ _ _ _) = True"
| "is_model_generated_item (ToolSearchCall _ _ _ _ _) = True"
| "is_model_generated_item (WebSearchCall _ _ _) = True"
| "is_model_generated_item (ImageGenerationCall _ _ _ _) = True"
| "is_model_generated_item (CustomToolCall _ _ _ _ _) = True"
| "is_model_generated_item (LocalShellCall _ _ _ _) = True"
| "is_model_generated_item (Compaction _) = True"
| "is_model_generated_item (ContextCompaction _) = True"
| "is_model_generated_item (FunctionCallOutput _ _) = False"
| "is_model_generated_item (ToolSearchOutput _ _ _ _) = False"
| "is_model_generated_item (CustomToolCallOutput _ _ _) = False"
| "is_model_generated_item OtherItem = False"

fun is_codex_generated_item :: "response_item \<Rightarrow> bool" where
  "is_codex_generated_item (FunctionCallOutput _ _) = True"
| "is_codex_generated_item (ToolSearchOutput _ _ _ _) = True"
| "is_codex_generated_item (CustomToolCallOutput _ _ _) = True"
| "is_codex_generated_item (Message _ role _ _) = (role = lit ''developer'')"
| "is_codex_generated_item _ = False"

fun is_user_turn_boundary ::
  "(rstr \<Rightarrow> (rstr \<times> rstr) option) \<Rightarrow> (rstr \<Rightarrow> bool) \<Rightarrow> response_item \<Rightarrow> bool" where
  "is_user_turn_boundary from_xml inter_agent_json (Message _ role content _) =
     (role = lit ''user'' \<and> \<not> is_contextual_user_message_content from_xml content \<or>
      role = lit ''assistant'' \<and> is_inter_agent_instruction_content inter_agent_json content)"
| "is_user_turn_boundary from_xml inter_agent_json _ = False"

definition user_message_positions ::
  "(rstr \<Rightarrow> (rstr \<times> rstr) option) \<Rightarrow> (rstr \<Rightarrow> bool) \<Rightarrow> response_item list \<Rightarrow> nat list" where
  "user_message_positions from_xml inter_agent_json items =
     map fst (filter (\<lambda>(idx, item). is_user_turn_boundary from_xml inter_agent_json item) (enumerate 0 items))"

section \<open>Recording\<close>

definition new_manager :: "(unit, 'c context_manager) outcome" where
  "new_manager = and_then (new_or_append False None None None) (\<lambda>info.
     Ok \<lparr>cm_items = [], cm_history_version = 0, cm_token_info = info, cm_reference_context_item = None\<rparr>)"

definition set_token_info :: "token_usage_info option \<Rightarrow> 'c context_manager \<Rightarrow> 'c context_manager" where
  "set_token_info info cm = cm\<lparr>cm_token_info := info\<rparr>"

definition set_reference_context_item :: "'c option \<Rightarrow> 'c context_manager \<Rightarrow> 'c context_manager" where
  "set_reference_context_item item cm = cm\<lparr>cm_reference_context_item := item\<rparr>"

definition set_token_usage_full :: "bool \<Rightarrow> int \<Rightarrow> 'c context_manager \<Rightarrow> (unit, 'c context_manager) outcome" where
  "set_token_usage_full debug context_window cm =
     and_then (case cm_token_info cm of
         Some info \<Rightarrow> fill_to_context_window debug context_window info
       | None \<Rightarrow> full_context_window debug context_window) (\<lambda>info.
       Ok (cm\<lparr>cm_token_info := Some info\<rparr>))"

definition update_token_info ::
  "bool \<Rightarrow> token_usage \<Rightarrow> int option \<Rightarrow> 'c context_manager \<Rightarrow> (unit, 'c context_manager) outcome" where
  "update_token_info debug usage window cm =
     and_then (new_or_append debug (cm_token_info cm) (Some usage) window) (\<lambda>info.
       Ok (cm\<lparr>cm_token_info := info\<rparr>))"

definition truncate_function_output_payload ::
  "function_call_output_payload \<Rightarrow> truncation_policy \<Rightarrow> (unit, function_call_output_payload) outcome" where
  "truncate_function_output_payload output policy =
     and_then (case body output of
         BodyText content \<Rightarrow> and_then (truncate_text content policy) (\<lambda>t. Ok (BodyText t))
       | ContentItems items \<Rightarrow>
           and_then (truncate_function_output_items_with_policy items policy) (\<lambda>cs. Ok (ContentItems cs))) (\<lambda>b.
       Ok \<lparr>body = b, success = success output\<rparr>)"

fun process_item ::
  "(nat \<Rightarrow> nat) \<Rightarrow> truncation_policy \<Rightarrow> response_item \<Rightarrow> (unit, response_item) outcome" where
  "process_item scale policy (FunctionCallOutput cid output) =
     and_then (truncate_function_output_payload output (policy_mul scale policy)) (\<lambda>out.
       Ok (FunctionCallOutput cid out))"
| "process_item scale policy (CustomToolCallOutput cid name output) =
     and_then (truncate_function_output_payload output (policy_mul scale policy)) (\<lambda>out.
       Ok (CustomToolCallOutput cid name out))"
| "process_item scale policy item = Ok item"

fun record_items ::
  "(nat \<Rightarrow> nat) \<Rightarrow> truncation_policy \<Rightarrow> response_item list \<Rightarrow> 'c context_manager \<Rightarrow>
   (unit, 'c context_manager) outcome" where
  "record_items scale policy [] cm = Ok cm"
| "record_items scale policy (item # rest) cm =
     (if \<not> is_api_message item then record_items scale policy rest cm
      else and_then (process_item scale policy item) (\<lambda>processed.
        record_items scale policy rest (cm\<lparr>cm_items := cm_items cm @ [processed]\<rparr>)))"

definition for_prompt ::
  "bool \<Rightarrow> input_modality list \<Rightarrow> 'c context_manager \<Rightarrow> (unit, response_item list) outcome" where
  "for_prompt debug input_modalities cm = normalize_history debug input_modalities (cm_items cm)"

section \<open>Rewriting\<close>

definition replace_items :: "response_item list \<Rightarrow> 'c context_manager \<Rightarrow> 'c context_manager" where
  "replace_items items cm =
     cm\<lparr>cm_items := items, cm_history_version := u64_saturating_add (cm_history_version cm) 1\<rparr>"

definition remove_first_item :: "'c context_manager \<Rightarrow> 'c context_manager" where
  "remove_first_item cm =
     (case cm_items cm of
        [] \<Rightarrow> cm
      | removed # rest \<Rightarrow> cm\<lparr>cm_items := remove_corresponding_for rest removed\<rparr>)"

definition remove_last_item :: "'c context_manager \<Rightarrow> bool \<times> 'c context_manager" where
  "remove_last_item cm =
     (if cm_items cm = [] then (False, cm)
      else (True, cm\<lparr>cm_items := remove_corresponding_for (butlast (cm_items cm)) (last (cm_items cm)),
                    cm_history_version := u64_saturating_add (cm_history_version cm) 1\<rparr>))"

definition is_output_image :: "output_content_item \<Rightarrow> bool" where
  "is_output_image c = (case c of OutInputImage _ _ \<Rightarrow> True | _ \<Rightarrow> False)"

fun is_function_call_output :: "response_item \<Rightarrow> bool" where
  "is_function_call_output (FunctionCallOutput _ _) = True"
| "is_function_call_output _ = False"

definition replace_last_turn_images ::
  "(rstr \<Rightarrow> (rstr \<times> rstr) option) \<Rightarrow> (rstr \<Rightarrow> bool) \<Rightarrow> rstr \<Rightarrow> 'c context_manager \<Rightarrow> bool \<times> 'c context_manager" where
  "replace_last_turn_images from_xml inter_agent_json placeholder cm =
     (case rposition (\<lambda>item. is_function_call_output item \<or> is_user_turn_boundary from_xml inter_agent_json item) (cm_items cm) of
        None \<Rightarrow> (False, cm)
      | Some index \<Rightarrow>
        (case cm_items cm ! index of
           FunctionCallOutput cid output \<Rightarrow>
             (case body output of
                BodyText _ \<Rightarrow> (False, cm)
              | ContentItems content_items \<Rightarrow>
                  let replaced = list_ex is_output_image content_items;
                      output' = output\<lparr>body := ContentItems (map (replace_output_image placeholder) content_items)\<rparr>;
                      cm' = cm\<lparr>cm_items := (cm_items cm)[index := FunctionCallOutput cid output']\<rparr>
                  in (replaced,
                      if replaced then cm'\<lparr>cm_history_version := u64_saturating_add (cm_history_version cm) 1\<rparr>
                      else cm'))
         | _ \<Rightarrow> (False, cm)))"

section \<open>Rolling back\<close>

text \<open>A contextual message above a turn, which a rollback of the turn drops with it, and a bundle
  whose other text the surviving history then lacks.\<close>

fun trimmable :: "(rstr \<Rightarrow> (rstr \<times> rstr) option) \<Rightarrow> response_item \<Rightarrow> bool" where
  "trimmable from_xml (Message _ role content _) =
     (role = lit ''developer'' \<and> is_contextual_dev_message_content content \<or>
      role = lit ''user'' \<and> is_contextual_user_message_content from_xml content)"
| "trimmable from_xml _ = False"

fun mixed_bundle :: "response_item \<Rightarrow> bool" where
  "mixed_bundle (Message _ role content _) =
     (role = lit ''developer'' \<and> is_contextual_dev_message_content content \<and>
      has_non_contextual_dev_message_content content)"
| "mixed_bundle _ = False"

fun trim_pre_turn_context_updates ::
  "(rstr \<Rightarrow> (rstr \<times> rstr) option) \<Rightarrow> response_item list \<Rightarrow> nat \<Rightarrow> nat \<Rightarrow> 'c context_manager \<Rightarrow>
   nat \<times> 'c context_manager" where
  "trim_pre_turn_context_updates from_xml snapshot first_idx cut_idx cm =
     (if first_idx < cut_idx then
        let item = snapshot ! (cut_idx - 1) in
        if trimmable from_xml item
        then trim_pre_turn_context_updates from_xml snapshot first_idx (cut_idx - 1)
               (if mixed_bundle item then cm\<lparr>cm_reference_context_item := None\<rparr> else cm)
        else (cut_idx, cm)
      else (cut_idx, cm))"

declare trim_pre_turn_context_updates.simps [simp del]

definition drop_last_n_user_turns ::
  "(rstr \<Rightarrow> (rstr \<times> rstr) option) \<Rightarrow> (rstr \<Rightarrow> bool) \<Rightarrow> 32 word \<Rightarrow> 'c context_manager \<Rightarrow> 'c context_manager" where
  "drop_last_n_user_turns from_xml inter_agent_json num_turns cm =
     (if num_turns = 0 then cm
      else let snapshot = cm_items cm;
               user_positions = user_message_positions from_xml inter_agent_json snapshot
           in case user_positions of
                [] \<Rightarrow> replace_items snapshot cm
              | first_instruction_turn_idx # _ \<Rightarrow>
                  let n_from_end = unat num_turns;
                      cut_idx = (if length user_positions \<le> n_from_end then first_instruction_turn_idx
                                 else user_positions ! (length user_positions - n_from_end));
                      (cut_idx, cm) = trim_pre_turn_context_updates from_xml snapshot
                        first_instruction_turn_idx cut_idx cm
                  in replace_items (take cut_idx snapshot) cm)"

section \<open>Token usage of the history\<close>

definition estimate_token_count_with_base_instructions :: "codec \<Rightarrow> rstr \<Rightarrow> 'c context_manager \<Rightarrow> int option" where
  "estimate_token_count_with_base_instructions cd base_instructions cm =
     (let base_tokens = i64_from_usize (approx_token_count base_instructions);
          items_tokens = i64_saturating_sum (map (estimate_item_token_count cd) (cm_items cm))
      in Some (i64_saturating_add base_tokens items_tokens))"

fun is_encrypted_reasoning :: "response_item \<Rightarrow> bool" where
  "is_encrypted_reasoning (Reasoning _ _ _ (Some _)) = True"
| "is_encrypted_reasoning _ = False"

definition get_non_last_reasoning_items_tokens ::
  "(rstr \<Rightarrow> (rstr \<times> rstr) option) \<Rightarrow> (rstr \<Rightarrow> bool) \<Rightarrow> codec \<Rightarrow> 'c context_manager \<Rightarrow> int" where
  "get_non_last_reasoning_items_tokens from_xml inter_agent_json cd cm =
     (case rposition (is_user_turn_boundary from_xml inter_agent_json) (cm_items cm) of
        None \<Rightarrow> 0
      | Some last_user_index \<Rightarrow>
          i64_saturating_sum (map (estimate_item_token_count cd)
            (filter is_encrypted_reasoning (take last_user_index (cm_items cm)))))"

definition items_after_last_model_generated_item :: "'c context_manager \<Rightarrow> response_item list" where
  "items_after_last_model_generated_item cm =
     (let start = (case rposition is_model_generated_item (cm_items cm) of
                     None \<Rightarrow> length (cm_items cm)
                   | Some index \<Rightarrow> usize_saturating_add index 1)
      in drop start (cm_items cm))"

definition last_total_tokens :: "'c context_manager \<Rightarrow> int" where
  "last_total_tokens cm =
     (case cm_token_info cm of Some info \<Rightarrow> usage_total_tokens (last_token_usage info) | None \<Rightarrow> 0)"

definition get_total_token_usage ::
  "(rstr \<Rightarrow> (rstr \<times> rstr) option) \<Rightarrow> (rstr \<Rightarrow> bool) \<Rightarrow> codec \<Rightarrow> bool \<Rightarrow> 'c context_manager \<Rightarrow> int" where
  "get_total_token_usage from_xml inter_agent_json cd server_reasoning_included cm =
     (let last_tokens = last_total_tokens cm;
          items_after = i64_saturating_sum (map (estimate_item_token_count cd) (items_after_last_model_generated_item cm))
      in if server_reasoning_included then i64_saturating_add last_tokens items_after
         else i64_saturating_add
                (i64_saturating_add last_tokens (get_non_last_reasoning_items_tokens from_xml inter_agent_json cd cm))
                items_after)"

definition get_total_token_usage_breakdown :: "codec \<Rightarrow> 'c context_manager \<Rightarrow> total_token_usage_breakdown" where
  "get_total_token_usage_breakdown cd cm =
     (let after = items_after_last_model_generated_item cm in
      \<lparr>last_api_response_total_tokens = last_total_tokens cm,
       all_history_items_model_visible_bytes =
         i64_saturating_sum (map (estimate_response_item_model_visible_bytes cd) (cm_items cm)),
       estimated_tokens_of_items_added_since_last_successful_api_response =
         i64_saturating_sum (map (estimate_item_token_count cd) after),
       estimated_bytes_of_items_added_since_last_successful_api_response =
         i64_saturating_sum (map (estimate_response_item_model_visible_bytes cd) after)\<rparr>)"

section \<open>The turns of a history\<close>

lemma positions_upt:
  "user_message_positions fx ij items = filter (\<lambda>i. is_user_turn_boundary fx ij (items ! i)) [0..<length items]"
proof -
  have "map fst (filter (\<lambda>(i, x). P x) (enumerate n xs)) = filter (\<lambda>i. P (xs ! (i - n))) [n..<n + length xs]"
    for P :: "response_item \<Rightarrow> bool" and n xs
  proof (induction xs arbitrary: n)
    case (Cons x xs)
    have "filter (\<lambda>i. P (xs ! (i - Suc n))) [Suc n..<Suc n + length xs]
        = filter (\<lambda>i. P ((x # xs) ! (i - n))) [Suc n..<Suc n + length xs]"
      by (rule filter_cong) (auto simp: nth_Cons' Suc_diff_le)
    moreover have "[n..<n + length (x # xs)] = n # [Suc n..<Suc n + length xs]"
      by (simp add: upt_rec)
    ultimately show ?case
      using Cons.IH [of "Suc n"] by simp
  qed simp
  from this [of _ 0 items] show ?thesis
    by (simp add: user_message_positions_def)
qed

lemma filter_upt_nth:
  "k < length (filter P [0..<n]) \<Longrightarrow>
     length (filter P [0..<filter P [0..<n] ! k]) = k \<and> P (filter P [0..<n] ! k) \<and> filter P [0..<n] ! k < n"
proof (induction n)
  case (Suc n)
  show ?case
  proof (cases "k < length (filter P [0..<n])")
    case True
    with Suc.IH show ?thesis by (auto simp: nth_append)
  next
    case False
    with Suc.prems have "P n" "k = length (filter P [0..<n])"
      by (auto split: if_splits)
    then show ?thesis by (simp add: nth_append)
  qed
qed simp

lemma count_turns_take:
  assumes "m \<le> length items"
  shows "length (filter P (take m items)) = length (filter (\<lambda>i. P (items ! i)) [0..<m])"
proof -
  have "take m items = map ((!) items) [0..<m]"
    using assms by (intro nth_equalityI) auto
  then show ?thesis by (simp add: filter_map comp_def)
qed

lemma trimmable_not_boundary: "trimmable fx i \<Longrightarrow> \<not> is_user_turn_boundary fx ij i"
  by (cases i) auto

lemma trim_pre_turn_spec:
  assumes "trim_pre_turn_context_updates fx snapshot first cutoff cm = (c, cm')" "first \<le> cutoff" "cutoff \<le> length snapshot"
  shows "first \<le> c \<and> c \<le> cutoff \<and> list_all (trimmable fx) (drop c (take cutoff snapshot))
    \<and> (c = first \<or> 0 < c \<and> \<not> trimmable fx (snapshot ! (c - 1)))
    \<and> cm' = (if list_ex mixed_bundle (drop c (take cutoff snapshot)) then cm\<lparr>cm_reference_context_item := None\<rparr> else cm)"
  using assms
proof (induction fx snapshot first cutoff cm rule: trim_pre_turn_context_updates.induct)
  case (1 fx snapshot first cutoff cm)
  let ?item = "snapshot ! (cutoff - 1)"
  show ?case
  proof (cases "first < cutoff \<and> trimmable fx ?item")
    case False
    with "1.prems" show ?thesis
      by (subst (asm) trim_pre_turn_context_updates.simps) (auto simp: Let_def split: if_splits)
  next
    case True
    then have step: "trim_pre_turn_context_updates fx snapshot first (cutoff - 1)
        (if mixed_bundle ?item then cm\<lparr>cm_reference_context_item := None\<rparr> else cm) = (c, cm')"
      using "1.prems"(1) by (subst (asm) trim_pre_turn_context_updates.simps) (simp add: Let_def)
    have bounds: "first \<le> cutoff - 1" "cutoff - 1 \<le> length snapshot"
      using True "1.prems"(3) by linarith+
    have IH: "first \<le> c" "c \<le> cutoff - 1" "list_all (trimmable fx) (drop c (take (cutoff - 1) snapshot))"
      "c = first \<or> 0 < c \<and> \<not> trimmable fx (snapshot ! (c - 1))"
      "cm' = (let cm1 = (if mixed_bundle ?item then cm\<lparr>cm_reference_context_item := None\<rparr> else cm) in
         if list_ex mixed_bundle (drop c (take (cutoff - 1) snapshot)) then cm1\<lparr>cm_reference_context_item := None\<rparr> else cm1)"
      using "1.IH" [OF _ refl _ step bounds] True by (auto simp: Let_def)
    have "take cutoff snapshot = take (cutoff - 1) snapshot @ [?item]"
      using take_Suc_conv_app_nth [of "cutoff - 1" snapshot] True "1.prems"(3) by fastforce
    then have "drop c (take cutoff snapshot) = drop c (take (cutoff - 1) snapshot) @ [?item]"
      using IH(2) "1.prems"(3) by simp
    with IH True show ?thesis
      by (auto simp: Let_def)
  qed
qed

section \<open>Rollback\<close>

lemma takeWhile_first_position:
  assumes "filter (\<lambda>i. P (items ! i)) [0..<length items] = p # ps"
  shows "takeWhile (\<lambda>x. \<not> P x) items = take p items" "p < length items"
proof -
  have p: "length (filter (\<lambda>i. P (items ! i)) [0..<p]) = 0" "P (items ! p)" "p < length items"
    using filter_upt_nth [of 0 "\<lambda>i. P (items ! i)" "length items"] assms by auto
  then show "takeWhile (\<lambda>x. \<not> P x) items = take p items" "p < length items"
    using takeWhile_eq_take_P_nth [of p items "\<lambda>x. \<not> P x"] by (auto simp: filter_empty_conv)
qed

lemma turn_count_positions:
  "length (filter (is_user_turn_boundary fx ij) items) = length (user_message_positions fx ij items)"
  using count_turns_take [of "length items" items "is_user_turn_boundary fx ij"] by (simp add: positions_upt)

lemma no_turns_takeWhile:
  "user_message_positions fx ij items = [] \<Longrightarrow> takeWhile (\<lambda>i. \<not> is_user_turn_boundary fx ij i) items = items"
  using turn_count_positions [of fx ij items] by (auto simp: takeWhile_eq_all_conv filter_empty_conv)

text \<open>The cut of a rollback of \<open>n > 0\<close> turns, before and after the contextual messages are trimmed.\<close>

lemma rollback_cut:
  assumes n: "num_turns \<noteq> 0" and ps: "user_message_positions fx ij (cm_items cm) = p # ps"
  defines "k \<equiv> length (p # ps) - unat num_turns" and "B \<equiv> is_user_turn_boundary fx ij"
  shows "\<exists>cutoff c cm'. trim_pre_turn_context_updates fx (cm_items cm) p cutoff cm = (c, cm')
    \<and> drop_last_n_user_turns fx ij num_turns cm = replace_items (take c (cm_items cm)) cm'
    \<and> p \<le> cutoff \<and> cutoff < length (cm_items cm) \<and> B (cm_items cm ! cutoff)
    \<and> length (filter B (take cutoff (cm_items cm))) = k"
proof -
  define cutoff where "cutoff = (p # ps) ! k"
  have "0 < unat num_turns" using n by (simp add: unat_gt_0)
  then have k: "k < length (p # ps)" by (simp add: k_def)
  have cutoff: "length (filter (\<lambda>i. B (cm_items cm ! i)) [0..<cutoff]) = k" "B (cm_items cm ! cutoff)" "cutoff < length (cm_items cm)"
    using filter_upt_nth [of k "\<lambda>i. B (cm_items cm ! i)" "length (cm_items cm)"] k
    by (simp_all add: cutoff_def ps [symmetric] positions_upt B_def)
  have "sorted (p # ps)"
    unfolding ps [symmetric] positions_upt by (rule sorted_wrt_filter) simp
  then have "p \<le> cutoff"
    unfolding cutoff_def using k sorted_nth_mono [of "p # ps" 0 k] by simp
  moreover have "drop_last_n_user_turns fx ij num_turns cm =
      (let (c, cm') = trim_pre_turn_context_updates fx (cm_items cm) p cutoff cm in
       replace_items (take c (cm_items cm)) cm')"
    using n by (simp add: drop_last_n_user_turns_def ps cutoff_def k_def Let_def)
  ultimately show ?thesis
    using cutoff count_turns_take [of cutoff "cm_items cm" B]
    by (cases "trim_pre_turn_context_updates fx (cm_items cm) p cutoff cm") auto
qed

text \<open>
  (C15) Rolling back \<open>n > 0\<close> turns keeps a beginning of the history: exactly \<open>n\<close> turns fewer (none
  when there are not more), all that precedes the first turn, and of the rest everything but the
  contextual messages right above the first dropped turn; the baseline for context updates is
  forgotten exactly when a trimmed message bundled other text, and the version moves on.
\<close>

theorem rollback_drops_turns:
  assumes "num_turns \<noteq> 0"
  shows "\<exists>kept trimmed dropped.
    cm_items cm = kept @ trimmed @ dropped
    \<and> drop_last_n_user_turns fx ij num_turns cm = cm\<lparr>
         cm_items := kept,
         cm_history_version := u64_saturating_add (cm_history_version cm) 1,
         cm_reference_context_item := (if list_ex mixed_bundle trimmed then None else cm_reference_context_item cm)\<rparr>
    \<and> length (filter (is_user_turn_boundary fx ij) kept) =
        length (filter (is_user_turn_boundary fx ij) (cm_items cm)) - unat num_turns
    \<and> prefix (takeWhile (\<lambda>i. \<not> is_user_turn_boundary fx ij i) (cm_items cm)) kept
    \<and> list_all (trimmable fx) trimmed
    \<and> (dropped = [] \<or> is_user_turn_boundary fx ij (hd dropped))
    \<and> (kept = takeWhile (\<lambda>i. \<not> is_user_turn_boundary fx ij i) (cm_items cm) \<or> \<not> trimmable fx (last kept))"
    (is "\<exists>kept trimmed dropped. ?P kept trimmed dropped")
proof (cases "user_message_positions fx ij (cm_items cm)")
  case Nil
  then have "?P (cm_items cm) [] []"
    using assms turn_count_positions [of fx ij "cm_items cm"]
    by (simp only: no_turns_takeWhile [OF Nil]) (simp add: drop_last_n_user_turns_def replace_items_def)
  then show ?thesis by blast
next
  case (Cons p ps)
  let ?items = "cm_items cm" and ?B = "is_user_turn_boundary fx ij"
  obtain cutoff c cm' where trim: "trim_pre_turn_context_updates fx ?items p cutoff cm = (c, cm')"
    and res: "drop_last_n_user_turns fx ij num_turns cm = replace_items (take c ?items) cm'"
    and cutoff: "p \<le> cutoff" "cutoff < length ?items" "?B (?items ! cutoff)"
      "length (filter ?B (take cutoff ?items)) = length (p # ps) - unat num_turns"
    using rollback_cut [OF assms Cons] by blast
  note spec = trim_pre_turn_spec [OF trim cutoff(1)]
  have first: "takeWhile (\<lambda>i. \<not> ?B i) ?items = take p ?items"
    by (rule takeWhile_first_position) (rule Cons [unfolded positions_upt])
  define trimmed where "trimmed = drop c (take cutoff ?items)"
  have spec: "p \<le> c" "c \<le> cutoff" "list_all (trimmable fx) trimmed"
    "c = p \<or> 0 < c \<and> \<not> trimmable fx (?items ! (c - 1))"
    "cm' = (if list_ex mixed_bundle trimmed then cm\<lparr>cm_reference_context_item := None\<rparr> else cm)"
    using spec cutoff(2) by (auto simp: trimmed_def)
  have split: "take cutoff ?items = take c ?items @ trimmed"
    unfolding trimmed_def using spec(2) by (metis append_take_drop_id min.absorb1 take_take)
  have "filter ?B trimmed = []"
    using spec(3) by (auto simp: filter_empty_conv list_all_iff dest: trimmable_not_boundary)
  then have count: "length (filter ?B (take c ?items)) = length (p # ps) - unat num_turns"
    using cutoff(4) by (simp add: split)
  have "last (take c ?items) = ?items ! (c - 1)" if "0 < c"
    using that spec(2) cutoff(2) last_conv_nth [of "take c ?items"] by force
  then have maximal: "take c ?items = takeWhile (\<lambda>i. \<not> ?B i) ?items \<or> \<not> trimmable fx (last (take c ?items))"
    using spec(4) first by metis
  have "prefix (take p ?items) (take c ?items)"
    using spec(1) by (metis min.absorb1 take_is_prefix take_take)
  moreover have "?items = take c ?items @ trimmed @ drop cutoff ?items"
    using split by (metis append.assoc append_take_drop_id)
  moreover have "drop_last_n_user_turns fx ij num_turns cm = cm\<lparr>
         cm_items := take c ?items,
         cm_history_version := u64_saturating_add (cm_history_version cm) 1,
         cm_reference_context_item := (if list_ex mixed_bundle trimmed then None else cm_reference_context_item cm)\<rparr>"
    by (simp add: res spec(5) replace_items_def)
  moreover have "?B (hd (drop cutoff ?items))"
    using cutoff(2,3) by (simp add: hd_drop_conv_nth)
  ultimately have "?P (take c ?items) trimmed (drop cutoff ?items)"
    using maximal count spec(3) turn_count_positions [of fx ij ?items] Cons
    by (simp only: first simp_thms)
  then show ?thesis by blast
qed

definition sample_user :: "rstr \<Rightarrow> response_item" where
  "sample_user t = Message None (lit ''user'') [InputText t] None"

definition sample_history :: "nat context_manager" where
  "sample_history = \<lparr>cm_items = [Message None (lit ''developer'') [InputText (lit ''rules'')] None,
      sample_user (lit ''one''), Message None (lit ''assistant'') [OutputText (lit ''ok'')] None,
      Message None (lit ''developer'') [InputText (lit ''<model_switch>x''), InputText (lit ''more'')] None,
      sample_user (lit ''two'')],
    cm_history_version = 7, cm_token_info = None, cm_reference_context_item = Some 3\<rparr>"

theorem rollback_drops_turns_witness:
  "(1 :: 32 word) \<noteq> 0 \<and>
   (\<exists>kept. prefix kept (cm_items sample_history)
      \<and> cm_items (drop_last_n_user_turns (\<lambda>_. None) (\<lambda>_. False) 1 sample_history) = kept
      \<and> length (filter (is_user_turn_boundary (\<lambda>_. None) (\<lambda>_. False)) kept) =
          length (filter (is_user_turn_boundary (\<lambda>_. None) (\<lambda>_. False)) (cm_items sample_history)) - 1)"
proof -
  have one: "(1 :: 32 word) \<noteq> 0" by simp
  from rollback_drops_turns [OF one, of sample_history "\<lambda>_. None" "\<lambda>_. False"]
  obtain kept trimmed dropped where "cm_items sample_history = kept @ trimmed @ dropped"
    "drop_last_n_user_turns (\<lambda>_. None) (\<lambda>_. False) 1 sample_history = sample_history\<lparr>
         cm_items := kept,
         cm_history_version := u64_saturating_add (cm_history_version sample_history) 1,
         cm_reference_context_item := (if list_ex mixed_bundle trimmed then None else cm_reference_context_item sample_history)\<rparr>"
    "length (filter (is_user_turn_boundary (\<lambda>_. None) (\<lambda>_. False)) kept) =
        length (filter (is_user_turn_boundary (\<lambda>_. None) (\<lambda>_. False)) (cm_items sample_history)) - unat (1 :: 32 word)"
    by blast
  then show ?thesis using one by (intro conjI exI [of _ kept]) simp_all
qed

section \<open>Removing single items\<close>

definition well_paired :: "response_item list \<Rightarrow> bool" where
  "well_paired items \<longleftrightarrow> calls_answered items \<and> outputs_called items
     \<and> distinct (List.map_filter call_key items) \<and> distinct (List.map_filter output_key items)"

definition counterpart :: "response_item \<Rightarrow> response_item \<Rightarrow> bool" where
  "counterpart x i \<longleftrightarrow> (call_key x \<noteq> None \<and> output_key i = call_key x \<or> output_key x \<noteq> None \<and> call_key i = output_key x)"

lemma set_map_filter_iff: "y \<in> set (List.map_filter f xs) \<longleftrightarrow> (\<exists>x \<in> set xs. f x = Some y)"
  by (induction xs) (auto simp: List.map_filter_simps split: option.splits)

lemma map_filter_append: "List.map_filter f (xs @ ys) = List.map_filter f xs @ List.map_filter f ys"
  by (simp add: List.map_filter_def)

lemma distinct_map_filter_filter: "distinct (List.map_filter f xs) \<Longrightarrow> distinct (List.map_filter f (filter P xs))"
  by (induction xs) (auto simp: List.map_filter_simps set_map_filter_iff split: option.splits)

lemma remove_first_matching_key:
  assumes "\<And>x. P x \<longleftrightarrow> f x = Some k" "distinct (List.map_filter f items)"
  shows "remove_first_matching P items = filter (\<lambda>x. f x \<noteq> Some k) items"
  using assms(2)
proof (induction items)
  case (Cons x xs)
  have "filter (\<lambda>x. f x \<noteq> Some k) xs = xs" if "f x = Some k"
    using that Cons.prems by (force simp: filter_id_conv List.map_filter_simps set_map_filter_iff)
  with Cons show ?case
    by (auto simp: assms(1) List.map_filter_simps split: option.splits)
qed simp

lemma is_output_keys:
  "is_function_output cid i \<longleftrightarrow> output_key i = Some (FunctionKey cid)"
  "is_search_output cid i \<longleftrightarrow> output_key i = Some (SearchKey cid)"
  "is_custom_output cid i \<longleftrightarrow> output_key i = Some (CustomKey cid)"
  "is_search_call cid i \<longleftrightarrow> call_key i = Some (SearchKey cid)"
  "is_custom_call cid i \<longleftrightarrow> call_key i = Some (CustomKey cid)"
  "is_function_call cid i \<or> is_local_shell_call cid i \<longleftrightarrow> call_key i = Some (FunctionKey cid)"
  by (cases i; auto simp: is_function_output_def is_search_output_def is_custom_output_def
      is_search_call_def is_custom_call_def is_function_call_def is_local_shell_call_def split: option.splits)+

text \<open>With distinct keys, the first counterpart is the only one.\<close>

lemma remove_first_matching_fallback:
  assumes "\<not> (\<exists>x \<in> set xs. P x) \<or> \<not> (\<exists>x \<in> set xs. Q x)"
  shows "(if list_ex P xs then remove_first_matching P xs else remove_first_matching Q xs) =
    remove_first_matching (\<lambda>x. P x \<or> Q x) xs"
proof -
  have "remove_first_matching P xs = remove_first_matching (\<lambda>x. P x \<or> Q x) xs" if "\<forall>x \<in> set xs. \<not> Q x"
    using that by (induction xs) auto
  moreover have "remove_first_matching Q xs = remove_first_matching (\<lambda>x. P x \<or> Q x) xs" if "\<forall>x \<in> set xs. \<not> P x"
    using that by (induction xs) auto
  ultimately show ?thesis
    using assms by (auto simp: list_ex_iff)
qed

lemma distinct_keys_same:
  assumes "distinct (List.map_filter f xs)" "i \<in> set xs" "j \<in> set xs" "f i = Some k" "f j = Some k"
  shows "i = j"
  using assms by (induction xs) (auto simp: List.map_filter_simps set_map_filter_iff split: option.splits)

lemma remove_function_call:
  assumes distinct: "distinct (List.map_filter call_key items)"
  shows "(if list_ex (is_function_call cid) items then remove_first_matching (is_function_call cid) items
      else remove_first_matching (is_local_shell_call cid) items) =
    filter (\<lambda>i. call_key i \<noteq> Some (FunctionKey cid)) items"
proof -
  have "\<not> (is_function_call cid i \<and> is_local_shell_call cid j)" if "i \<in> set items" "j \<in> set items" for i j
    using distinct_keys_same [OF distinct that] is_output_keys(6) [of cid i] is_output_keys(6) [of cid j]
    by (cases i) (auto simp: is_function_call_def is_local_shell_call_def)
  then have "\<not> (\<exists>i \<in> set items. is_function_call cid i) \<or> \<not> (\<exists>i \<in> set items. is_local_shell_call cid i)"
    by blast
  then show ?thesis
    by (simp only: remove_first_matching_fallback remove_first_matching_key [OF is_output_keys(6) distinct])
qed

lemma remove_corresponding_filter:
  assumes calls: "distinct (List.map_filter call_key items)" and outs: "distinct (List.map_filter output_key items)"
  shows "remove_corresponding_for items x = filter (\<lambda>i. \<not> counterpart x i) items"
  by (cases "(items, x)" rule: remove_corresponding_for.cases)
     (simp_all add: counterpart_def remove_function_call [OF calls, simplified]
       remove_first_matching_key [OF is_output_keys(1) outs] remove_first_matching_key [OF is_output_keys(2) outs]
       remove_first_matching_key [OF is_output_keys(3) outs] remove_first_matching_key [OF is_output_keys(4) calls]
       remove_first_matching_key [OF is_output_keys(5) calls])

lemma well_paired_without:
  assumes "well_paired (pre @ x # post)"
  shows "well_paired (filter (\<lambda>i. \<not> counterpart x i) (pre @ post))"
proof -
  let ?all = "pre @ x # post" and ?kept = "filter (\<lambda>i. \<not> counterpart x i) (pre @ post)"
  have calls: "distinct (List.map_filter call_key ?all)" and outs: "distinct (List.map_filter output_key ?all)"
    using assms by (simp_all only: well_paired_def)
  have answered: "\<exists>j \<in> set ?all. output_key j = Some k" if "i \<in> set ?all" "call_key i = Some k" for i k
    using assms that unfolding well_paired_def calls_answered_def by blast
  have called: "server_output i \<or> (\<exists>j \<in> set ?all. call_key j = Some k)" if "i \<in> set ?all" "output_key i = Some k" for i k
    using assms that unfolding well_paired_def outputs_called_def by blast
  have uniq: "f i \<noteq> Some k" if "distinct (List.map_filter f ?all)" "f x = Some k" "i \<in> set (pre @ post)"
    for f :: "response_item \<Rightarrow> pair_key option" and i k
    using that by (auto simp: map_filter_append List.map_filter_simps set_map_filter_iff)
  have rest: "distinct (List.map_filter f (pre @ post))" if "distinct (List.map_filter f ?all)"
    for f :: "response_item \<Rightarrow> pair_key option"
    using that by (auto simp: map_filter_append List.map_filter_simps split: option.splits)
  have "\<exists>j \<in> set ?kept. output_key j = Some k" if "i \<in> set ?kept" "call_key i = Some k" for i k
  proof -
    from that obtain j where j: "j \<in> set ?all" "output_key j = Some k"
      using answered [of i k] by auto
    have "j \<noteq> x" "\<not> counterpart x j"
      using that j call_not_output [of j] uniq [OF calls, of k i] by (auto simp: counterpart_def)
    with j show ?thesis by auto
  qed
  moreover have "server_output i \<or> (\<exists>j \<in> set ?kept. call_key j = Some k)" if "i \<in> set ?kept" "output_key i = Some k" for i k
  proof (cases "server_output i")
    case False
    with that obtain j where j: "j \<in> set ?all" "call_key j = Some k"
      using called [of i k] by auto
    have "output_key x \<noteq> Some k" "call_key x \<noteq> Some k"
      using uniq [OF outs, of k i] that by (auto simp: counterpart_def)
    then have "j \<noteq> x" "\<not> counterpart x j"
      using j call_not_output [of j] by (auto simp: counterpart_def)
    with j show ?thesis by auto
  qed simp
  ultimately show ?thesis
    using distinct_map_filter_filter [OF rest [OF calls]] distinct_map_filter_filter [OF rest [OF outs]]
    unfolding well_paired_def calls_answered_def outputs_called_def by blast
qed

text \<open>
  (C35) Where calls and outputs are paired one to one, removing the oldest or the newest item keeps
  them paired: the counterpart goes with it and nothing else does.
\<close>
theorem remove_item_keeps_pairs:
  assumes "well_paired (cm_items cm)" "cm_items cm \<noteq> []"
  shows "well_paired (cm_items (remove_first_item cm))
    \<and> cm_items (remove_first_item cm) = filter (\<lambda>i. \<not> counterpart (hd (cm_items cm)) i) (tl (cm_items cm))
    \<and> fst (remove_last_item cm) \<and> well_paired (cm_items (snd (remove_last_item cm)))
    \<and> cm_items (snd (remove_last_item cm)) = filter (\<lambda>i. \<not> counterpart (last (cm_items cm)) i) (butlast (cm_items cm))"
proof -
  obtain x rest where first: "cm_items cm = x # rest"
    using assms(2) by (cases "cm_items cm") auto
  obtain init y where last: "cm_items cm = init @ [y]"
    using assms(2) by (cases "cm_items cm" rule: rev_cases) auto
  have "remove_corresponding_for rest x = filter (\<lambda>i. \<not> counterpart x i) rest"
    using assms(1) by (intro remove_corresponding_filter)
      (auto simp: well_paired_def first List.map_filter_simps split: option.splits)
  moreover have "remove_corresponding_for init y = filter (\<lambda>i. \<not> counterpart y i) init"
    using assms(1) by (intro remove_corresponding_filter) (auto simp: well_paired_def last map_filter_append)
  moreover have "well_paired (filter (\<lambda>i. \<not> counterpart x i) rest)" "well_paired (filter (\<lambda>i. \<not> counterpart y i) init)"
    using assms(1) well_paired_without [of "[]" x rest] well_paired_without [of init y "[]"] first last by auto
  moreover have "hd (cm_items cm) = x" "tl (cm_items cm) = rest" "last (cm_items cm) = y" "butlast (cm_items cm) = init"
    by (simp_all only: first list.sel, simp_all only: first [symmetric] last last_snoc butlast_snoc)
  moreover have "cm_items (remove_first_item cm) = remove_corresponding_for rest x"
    by (simp add: remove_first_item_def first)
  moreover have "cm_items (snd (remove_last_item cm)) = remove_corresponding_for init y" "fst (remove_last_item cm)"
    by (simp_all add: remove_last_item_def last)
  ultimately show ?thesis by simp
qed

definition sample_call :: "rstr \<Rightarrow> response_item" where
  "sample_call cid = FunctionCall None (lit ''shell'') None (lit ''x'') cid"

definition sample_paired :: "nat context_manager" where
  "sample_paired = \<lparr>cm_items = [sample_call [97], FunctionCallOutput [97] aborted_payload, sample_user [98]],
    cm_history_version = 0, cm_token_info = None, cm_reference_context_item = None\<rparr>"

lemma sample_paired_items:
  "cm_items sample_paired = [sample_call [97], FunctionCallOutput [97] aborted_payload, sample_user [98]]"
  by (simp add: sample_paired_def)

lemma sample_keys:
  "call_key (sample_call c) = Some (FunctionKey c)" "output_key (sample_call c) = None"
  "call_key (sample_user t) = None" "output_key (sample_user t) = None"
  by (simp_all add: sample_call_def sample_user_def)

theorem remove_item_keeps_pairs_witness:
  "well_paired (cm_items sample_paired) \<and> cm_items (remove_first_item sample_paired) = [sample_user [98]]
   \<and> cm_items (snd (remove_last_item sample_paired)) = [sample_call [97], FunctionCallOutput [97] aborted_payload]
   \<and> well_paired (cm_items (snd (remove_last_item sample_paired)))"
proof -
  have paired: "well_paired (cm_items sample_paired)"
    by (auto simp: sample_paired_items well_paired_def calls_answered_def outputs_called_def sample_keys
        List.map_filter_simps)
  have "cm_items sample_paired \<noteq> []"
    by (simp add: sample_paired_items)
  from remove_item_keeps_pairs [OF paired this] paired show ?thesis
    by (auto simp: sample_paired_items counterpart_def sample_keys)
qed

section \<open>Recording\<close>

fun payload_of :: "response_item \<Rightarrow> function_call_output_payload option" where
  "payload_of (FunctionCallOutput _ output) = Some output"
| "payload_of (CustomToolCallOutput _ _ output) = Some output"
| "payload_of _ = None"

fun with_payload :: "function_call_output_payload \<Rightarrow> response_item \<Rightarrow> response_item" where
  "with_payload p (FunctionCallOutput cid _) = FunctionCallOutput cid p"
| "with_payload p (CustomToolCallOutput cid name _) = CustomToolCallOutput cid name p"
| "with_payload p item = item"

lemma process_item_eq:
  "process_item scale policy i =
     (case payload_of i of None \<Rightarrow> Ok i
      | Some output \<Rightarrow> and_then (truncate_function_output_payload output (policy_mul scale policy)) (\<lambda>p. Ok (with_payload p i)))"
  by (cases i) simp_all

lemma with_payload_kind [simp]:
  "call_key (with_payload p i) = call_key i" "output_key (with_payload p i) = output_key i"
  "is_api_message (with_payload p i) = is_api_message i"
  by (cases i; simp)+

text \<open>What recording keeps: items are only appended, one for each item that is not a system message
  or unknown, and only the bodies of tool outputs change.\<close>

definition same_but_payload :: "response_item \<Rightarrow> response_item \<Rightarrow> bool" where
  "same_but_payload i j \<longleftrightarrow> (case payload_of i of None \<Rightarrow> j = i | Some p \<Rightarrow> (\<exists>q. j = with_payload q i \<and> success q = success p))"

lemma process_item_same: "process_item scale policy i = Ok j \<Longrightarrow> same_but_payload i j"
  by (auto simp: process_item_eq same_but_payload_def truncate_function_output_payload_def outcome_simps
      split: option.splits)

text \<open>Texts that fit the address space.\<close>

definition payload_fits :: "function_call_output_payload \<Rightarrow> bool" where
  "payload_fits p = (case body p of
      BodyText t \<Rightarrow> byte_len t \<le> USIZE_MAX
    | ContentItems cs \<Rightarrow> list_all (\<lambda>t. byte_len t \<le> USIZE_MAX) (item_texts cs))"

definition item_fits :: "response_item \<Rightarrow> bool" where
  "item_fits i = (case payload_of i of None \<Rightarrow> True | Some p \<Rightarrow> payload_fits p)"

lemma process_item_ok:
  assumes "item_fits i"
  shows "\<exists>j. process_item scale policy i = Ok j"
proof -
  have "\<exists>q. truncate_function_output_payload p (policy_mul scale policy) = Ok q" if "payload_fits p" for p
  proof (cases "body p")
    case (BodyText t)
    with that show ?thesis
      using truncate_text_no_panic [of t "policy_mul scale policy"]
      by (auto simp: truncate_function_output_payload_def payload_fits_def)
  next
    case (ContentItems cs)
    with that show ?thesis
      using truncate_items_loop_spec [of cs "policy_mul scale policy" "policy_budget (policy_mul scale policy)" 0]
      by (auto simp: truncate_function_output_payload_def payload_fits_def truncate_function_output_items_with_policy_def)
  qed
  then show ?thesis
    using assms by (fastforce simp: process_item_eq item_fits_def split: option.splits)
qed

lemma record_items_appends:
  assumes "list_all item_fits items"
  shows "\<exists>new. record_items scale policy items cm = Ok (cm\<lparr>cm_items := cm_items cm @ new\<rparr>)
    \<and> list_all2 same_but_payload (filter is_api_message items) new"
  using assms
proof (induction items arbitrary: cm)
  case Nil
  show ?case by (intro exI [of _ "[]"]) simp
next
  case (Cons item rest)
  obtain j where j: "process_item scale policy item = Ok j"
    using process_item_ok [of item scale policy] Cons.prems by auto
  from Cons.IH [of "cm\<lparr>cm_items := cm_items cm @ (if is_api_message item then [j] else [])\<rparr>"] Cons.prems obtain new where
    "record_items scale policy rest (cm\<lparr>cm_items := cm_items cm @ (if is_api_message item then [j] else [])\<rparr>) =
       Ok (cm\<lparr>cm_items := cm_items cm @ (if is_api_message item then [j] else []) @ new\<rparr>)"
    "list_all2 same_but_payload (filter is_api_message rest) new"
    by auto
  then show ?case
    using j process_item_same [OF j]
    by (intro exI [of _ "(if is_api_message item then [j] else []) @ new"]) (auto split: if_splits)
qed

section \<open>Usage\<close>

lemma rposition_snoc: "rposition P (xs @ [x]) = (if P x then Some (length xs) else rposition P xs)"
  by (auto simp: rposition_def position_def Let_def)

lemma rposition_bound: "rposition P xs = Some i \<Longrightarrow> i < length xs"
  by (auto simp: rposition_def position_def Let_def split: if_splits)

lemma estimate_sum_mono:
  assumes "sum_list (map (estimate_item_token_count cd) xs) \<le> sum_list (map (estimate_item_token_count cd) ys)"
  shows "i64_saturating_sum (map (estimate_item_token_count cd) xs)
    \<le> i64_saturating_sum (map (estimate_item_token_count cd) ys)"
  using assms by (subst (1 2) i64_saturating_sum_eq) (auto simp: estimate_item_range)

lemma estimate_sum_append:
  "sum_list (map (estimate_item_token_count cd) xs) \<le> sum_list (map (estimate_item_token_count cd) (xs @ ys))"
  by (auto intro!: sum_list_nonneg simp: estimate_item_range)

text \<open>An item the model did not generate moves no boundary back.\<close>

lemma usage_snoc:
  assumes "\<not> is_model_generated_item i"
  shows "get_total_token_usage fx ij cd srv cm \<le> get_total_token_usage fx ij cd srv (cm\<lparr>cm_items := cm_items cm @ [i]\<rparr>)"
proof -
  let ?cm' = "cm\<lparr>cm_items := cm_items cm @ [i]\<rparr>" and ?est = "estimate_item_token_count cd"
  have "i64_saturating_sum (map ?est (items_after_last_model_generated_item cm))
      \<le> i64_saturating_sum (map ?est (items_after_last_model_generated_item ?cm'))"
    using assms
    by (intro estimate_sum_mono)
      (auto simp: items_after_last_model_generated_item_def rposition_snoc Let_def estimate_item_range
        split: option.splits intro!: sum_list_nonneg)
  moreover have "get_non_last_reasoning_items_tokens fx ij cd cm \<le> get_non_last_reasoning_items_tokens fx ij cd ?cm'"
  proof (cases "rposition (is_user_turn_boundary fx ij) (cm_items cm)")
    case None
    have "0 \<le> i64_saturating_sum (map ?est xs)" for xs
      using estimate_sum_mono [of cd "[]" xs] estimate_sum_append [of cd "[]" xs]
      by (simp add: i64_saturating_sum_def)
    with None show ?thesis
      by (simp add: get_non_last_reasoning_items_tokens_def rposition_snoc)
  next
    case (Some u)
    have "cm_items cm = take u (cm_items cm) @ drop u (cm_items cm)" by simp
    then have "sum_list (map ?est (filter is_encrypted_reasoning (take u (cm_items cm))))
        \<le> sum_list (map ?est (filter is_encrypted_reasoning (cm_items cm)))"
      by (metis estimate_sum_append filter_append)
    with Some rposition_bound [OF Some] show ?thesis
      by (auto simp: get_non_last_reasoning_items_tokens_def rposition_snoc intro: estimate_sum_mono)
  qed
  moreover have "last_total_tokens ?cm' = last_total_tokens cm"
    by (simp add: last_total_tokens_def)
  ultimately show ?thesis
    by (auto simp: get_total_token_usage_def Let_def i64_saturating_add_def intro!: i64_clamp_mono add_mono)
qed

lemma usage_append:
  assumes "list_all (\<lambda>i. \<not> is_model_generated_item i) new"
  shows "get_total_token_usage fx ij cd srv cm \<le> get_total_token_usage fx ij cd srv (cm\<lparr>cm_items := cm_items cm @ new\<rparr>)"
  using assms
proof (induction new rule: rev_induct)
  case (snoc i new)
  then show ?case
    using usage_snoc [of i fx ij cd srv "cm\<lparr>cm_items := cm_items cm @ new\<rparr>"] by (simp add: order_trans)
qed simp

lemma same_but_payload_model: "same_but_payload i j \<Longrightarrow> is_model_generated_item j = is_model_generated_item i"
  by (cases i) (auto simp: same_but_payload_def)

text \<open>
  Recording items never panics and only appends: one item for each recorded one that is neither a
  system message nor unknown, changed at most in the body of a tool output.  Items the model did not
  generate never lower the estimated token usage.
\<close>

theorem recording_appends_and_raises_usage:
  assumes "list_all item_fits items" "list_all (\<lambda>i. \<not> is_model_generated_item i) items"
  shows "\<exists>new. record_items scale policy items cm = Ok (cm\<lparr>cm_items := cm_items cm @ new\<rparr>)
    \<and> list_all2 same_but_payload (filter is_api_message items) new
    \<and> get_total_token_usage fx ij cd srv cm \<le> get_total_token_usage fx ij cd srv (cm\<lparr>cm_items := cm_items cm @ new\<rparr>)"
proof -
  obtain new where new: "record_items scale policy items cm = Ok (cm\<lparr>cm_items := cm_items cm @ new\<rparr>)"
    "list_all2 same_but_payload (filter is_api_message items) new"
    using record_items_appends [OF assms(1)] by blast
  have "list_all (\<lambda>i. \<not> is_model_generated_item i) new"
  proof -
    have "\<not> is_model_generated_item j" if "j \<in> set new" for j
    proof -
      from new(2) that obtain i where "i \<in> set items" "same_but_payload i j"
        unfolding list_all2_conv_all_nth in_set_conv_nth [of j]
        by (metis filter_is_subset nth_mem subset_code(1))
      with assms(2) show ?thesis by (simp add: same_but_payload_model list_all_iff)
    qed
    then show ?thesis by (simp add: list_all_iff)
  qed
  with new show ?thesis using usage_append by blast
qed

definition sample_codec :: codec where
  "sample_codec = \<lparr>to_json_string = (\<lambda>i. Some (lit ''{}'')), base64_decode = (\<lambda>_. None), image_dimensions = (\<lambda>_. None)\<rparr>"

theorem recording_appends_and_raises_usage_witness:
  "\<exists>new. record_items (\<lambda>n. n + n div 5) (BytesPolicy 10) [FunctionCallOutput (lit ''a'') aborted_payload, OtherItem] sample_paired =
       Ok (sample_paired\<lparr>cm_items := cm_items sample_paired @ new\<rparr>) \<and> length new = 1
     \<and> get_total_token_usage (\<lambda>_. None) (\<lambda>_. False) sample_codec True sample_paired
        \<le> get_total_token_usage (\<lambda>_. None) (\<lambda>_. False) sample_codec True (sample_paired\<lparr>cm_items := cm_items sample_paired @ new\<rparr>)"
proof -
  let ?items = "[FunctionCallOutput (lit ''a'') aborted_payload, OtherItem]"
  have "list_all item_fits ?items" "list_all (\<lambda>i. \<not> is_model_generated_item i) ?items"
    by (simp_all add: item_fits_def payload_fits_def aborted_payload_def byte_len_def utf8_len_def USIZE_MAX_def)
  from recording_appends_and_raises_usage [OF this, of "\<lambda>n. n + n div 5" "BytesPolicy 10" sample_paired
      "\<lambda>_. None" "\<lambda>_. False" sample_codec True]
  obtain new where new: "record_items (\<lambda>n. n + n div 5) (BytesPolicy 10) ?items sample_paired =
       Ok (sample_paired\<lparr>cm_items := cm_items sample_paired @ new\<rparr>)"
    "list_all2 same_but_payload (filter is_api_message ?items) new"
    "get_total_token_usage (\<lambda>_. None) (\<lambda>_. False) sample_codec True sample_paired
        \<le> get_total_token_usage (\<lambda>_. None) (\<lambda>_. False) sample_codec True (sample_paired\<lparr>cm_items := cm_items sample_paired @ new\<rparr>)"
    by blast
  have "length new = 1" using list_all2_lengthD [OF new(2)] by simp
  with new(1,3) show ?thesis by blast
qed

end
