(* ===== verification/Inline_Tags.thy ===== *)
theory Inline_Tags
  imports Stream_Text
begin

text \<open>
  Hidden inline tags (\<^verbatim>\<open>inline_hidden_tag.rs\<close>) and the citation parser built on them
  (\<^verbatim>\<open>citation.rs\<close>).

  Positions and lengths are counted in characters.  The source counts bytes, but only compares
  positions in one text, and lengths of texts that begin or end at the same place, so the order is the
  same.  The loop of \<^verbatim>\<open>push_str\<close> ends because the delimiters are not empty; as a
  \<open>partial_function\<close> it has the value \<open>None\<close> where it would not end.
\<close>

section \<open>Searching\<close>

fun find_str :: "'a list \<Rightarrow> 'a list \<Rightarrow> nat option" where
  "find_str n [] = (if n = [] then Some 0 else None)"
| "find_str n (c # cs) = (if starts_with n (c # cs) then Some 0 else map_option Suc (find_str n cs))"

fun longest_loop :: "rstr \<Rightarrow> rstr \<Rightarrow> nat \<Rightarrow> nat" where
  "longest_loop s needle 0 = 0"
| "longest_loop s needle (Suc k) = (if ends_with (take (Suc k) needle) s then Suc k else longest_loop s needle k)"

definition longest_suffix_prefix_len :: "rstr \<Rightarrow> rstr \<Rightarrow> nat" where
  "longest_suffix_prefix_len s needle = longest_loop s needle (min (length s) (length needle - 1))"

section \<open>The parser\<close>

record 't extracted_inline_tag =
  et_tag :: 't
  et_content :: rstr

record 't inline_tag_spec =
  spec_tag :: 't
  spec_open :: rstr
  spec_close :: rstr

record 't active_tag =
  active_tag_of :: 't
  active_close :: rstr
  active_content :: rstr

record 't inline_hidden_tag_parser =
  ip_specs :: "'t inline_tag_spec list"
  ip_pending :: rstr
  ip_active :: "'t active_tag option"

definition inline_new :: "'t inline_tag_spec list \<Rightarrow> (unit, 't inline_hidden_tag_parser) outcome" where
  "inline_new specs =
     (if specs = [] then Panic
      else if list_ex (\<lambda>spec. spec_open spec = [] \<or> spec_close spec = []) specs then Panic
      else Ok \<lparr>ip_specs = specs, ip_pending = [], ip_active = None\<rparr>)"

definition open_less :: "nat \<times> nat \<times> nat \<Rightarrow> nat \<times> nat \<times> nat \<Rightarrow> bool" where
  "open_less = (\<lambda>(pos_a, len_a, idx_a) (pos_b, len_b, idx_b).
     pos_a < pos_b \<or> pos_a = pos_b \<and> (len_b < len_a \<or> len_a = len_b \<and> idx_a < idx_b))"

fun min_open :: "(nat \<times> nat \<times> nat) list \<Rightarrow> (nat \<times> nat \<times> nat) option" where
  "min_open [] = None"
| "min_open (c # cs) =
     (case min_open cs of None \<Rightarrow> Some c | Some d \<Rightarrow> Some (if open_less d c then d else c))"

definition open_candidates :: "'t inline_tag_spec list \<Rightarrow> rstr \<Rightarrow> (nat \<times> nat \<times> nat) list" where
  "open_candidates specs pending =
     List.map_filter (\<lambda>(idx, spec). map_option (\<lambda>pos. (pos, length (spec_open spec), idx)) (find_str (spec_open spec) pending))
       (enumerate 0 specs)"

definition find_next_open :: "'t inline_tag_spec list \<Rightarrow> rstr \<Rightarrow> (nat \<times> nat) option" where
  "find_next_open specs pending = map_option (\<lambda>(pos, _, idx). (pos, idx)) (min_open (open_candidates specs pending))"

definition max_open_prefix_suffix_len :: "'t inline_tag_spec list \<Rightarrow> rstr \<Rightarrow> nat" where
  "max_open_prefix_suffix_len specs pending =
     fold max (map (\<lambda>spec. longest_suffix_prefix_len pending (spec_open spec)) specs) 0"

partial_function (option) tag_loop ::
  "'t inline_tag_spec list \<Rightarrow> 't active_tag option \<Rightarrow> rstr \<Rightarrow> 't extracted_inline_tag stream_text_chunk \<Rightarrow>
   ('t active_tag option \<times> rstr \<times> 't extracted_inline_tag stream_text_chunk) option" where
  "tag_loop specs active pending out =
     (case active of
        Some a \<Rightarrow>
          (case find_str (active_close a) pending of
             Some close_idx \<Rightarrow>
               tag_loop specs None (drop (close_idx + length (active_close a)) pending)
                 (out\<lparr>extracted := extracted out @
                    [\<lparr>et_tag = active_tag_of a, et_content = active_content a @ take close_idx pending\<rparr>]\<rparr>)
           | None \<Rightarrow>
               let keep = longest_suffix_prefix_len pending (active_close a);
                   n = length pending - keep
               in Some (Some (a\<lparr>active_content := active_content a @ take n pending\<rparr>), drop n pending, out))
      | None \<Rightarrow>
          (case find_next_open specs pending of
             Some (open_idx, spec_idx) \<Rightarrow>
               let spec = specs ! spec_idx in
               tag_loop specs
                 (Some \<lparr>active_tag_of = spec_tag spec, active_close = spec_close spec, active_content = []\<rparr>)
                 (drop (open_idx + length (spec_open spec)) pending)
                 (out\<lparr>visible_text := visible_text out @ take open_idx pending\<rparr>)
           | None \<Rightarrow>
               let keep = max_open_prefix_suffix_len specs pending;
                   n = length pending - keep
               in Some (None, drop n pending, out\<lparr>visible_text := visible_text out @ take n pending\<rparr>)))"

definition inline_push_str ::
  "rstr \<Rightarrow> 't inline_hidden_tag_parser \<Rightarrow>
   ('t extracted_inline_tag stream_text_chunk \<times> 't inline_hidden_tag_parser) option" where
  "inline_push_str chunk p =
     map_option (\<lambda>(active, pending, out). (out, p\<lparr>ip_active := active, ip_pending := pending\<rparr>))
       (tag_loop (ip_specs p) (ip_active p) (ip_pending p @ chunk) empty_chunk)"

definition inline_finish ::
  "'t inline_hidden_tag_parser \<Rightarrow> 't extracted_inline_tag stream_text_chunk \<times> 't inline_hidden_tag_parser" where
  "inline_finish p =
     (case ip_active p of
        Some a \<Rightarrow>
          (empty_chunk\<lparr>extracted := [\<lparr>et_tag = active_tag_of a, et_content = active_content a @ ip_pending p\<rparr>]\<rparr>,
           p\<lparr>ip_active := None, ip_pending := []\<rparr>)
      | None \<Rightarrow> (empty_chunk\<lparr>visible_text := ip_pending p\<rparr>, p\<lparr>ip_pending := []\<rparr>))"

section \<open>Citations\<close>

datatype citation_tag = Citation

definition CITATION_OPEN :: rstr where
  "CITATION_OPEN = lit ''<oai-mem-citation>''"

definition CITATION_CLOSE :: rstr where
  "CITATION_CLOSE = lit ''</oai-mem-citation>''"

definition citation_new :: "(unit, citation_tag inline_hidden_tag_parser) outcome" where
  "citation_new = inline_new [\<lparr>spec_tag = Citation, spec_open = CITATION_OPEN, spec_close = CITATION_CLOSE\<rparr>]"

definition citation_chunk :: "citation_tag extracted_inline_tag stream_text_chunk \<Rightarrow> rstr stream_text_chunk" where
  "citation_chunk c = \<lparr>visible_text = visible_text c, extracted = map et_content (extracted c)\<rparr>"

definition citation_push_str ::
  "rstr \<Rightarrow> citation_tag inline_hidden_tag_parser \<Rightarrow>
   (rstr stream_text_chunk \<times> citation_tag inline_hidden_tag_parser) option" where
  "citation_push_str chunk p = map_option (apfst citation_chunk) (inline_push_str chunk p)"

definition citation_finish ::
  "citation_tag inline_hidden_tag_parser \<Rightarrow> rstr stream_text_chunk \<times> citation_tag inline_hidden_tag_parser" where
  "citation_finish p = apfst citation_chunk (inline_finish p)"

definition strip_citations :: "rstr \<Rightarrow> (unit, rstr \<times> rstr list) outcome option" where
  "strip_citations t =
     (case citation_new of
        Ok p \<Rightarrow>
          map_option (\<lambda>(out, p).
            let tail = fst (citation_finish p)
            in Ok (visible_text out @ visible_text tail, extracted out @ extracted tail)) (citation_push_str t p)
      | Err e \<Rightarrow> Some (Err e)
      | Panic \<Rightarrow> Some Panic)"

section \<open>Occurrences\<close>

definition occ :: "'a list \<Rightarrow> 'a list \<Rightarrow> nat \<Rightarrow> bool" where
  "occ n s i \<longleftrightarrow> i \<le> length s \<and> prefix n (drop i s)"

lemma occ_bound: "occ n s i \<Longrightarrow> i + length n \<le> length s"
  by (auto simp: occ_def dest!: prefix_length_le)

lemma find_str_Some: "find_str n s = Some i \<longleftrightarrow> occ n s i \<and> (\<forall>j < i. \<not> occ n s j)"
proof (induction n s arbitrary: i rule: find_str.induct)
  case (2 n c cs)
  have tail: "occ n (c # cs) (Suc j) \<longleftrightarrow> occ n cs j" for j by (simp add: occ_def)
  show ?case
  proof (cases i)
    case 0
    then show ?thesis by (auto simp: occ_def starts_with_iff)
  next
    case (Suc k)
    have "(\<forall>j < Suc k. \<not> occ n (c # cs) j) \<longleftrightarrow> \<not> occ n (c # cs) 0 \<and> (\<forall>j < k. \<not> occ n cs j)"
      using tail less_Suc_eq_0_disj by auto
    moreover have "occ n (c # cs) 0 \<longleftrightarrow> starts_with n (c # cs)"
      by (simp add: occ_def starts_with_iff)
    ultimately show ?thesis using 2 Suc tail by auto
  qed
qed (auto simp: occ_def)

lemma find_str_None: "find_str n s = None \<longleftrightarrow> (\<forall>i. \<not> occ n s i)"
proof -
  have "\<exists>i. find_str n s = Some i" if "occ n s j" for j
    using that find_str_Some [of n s] by (metis (full_types) LeastI_ex not_less_Least)
  then show ?thesis using find_str_Some [of n s] by (cases "find_str n s") auto
qed

lemma occ_append: "occ n p i \<Longrightarrow> occ n (p @ b) i"
  by (auto simp: occ_def prefix_def)

lemma occ_append_inside: "occ n (p @ b) i \<Longrightarrow> i + length n \<le> length p \<Longrightarrow> occ n p i"
  by (auto simp: occ_def intro: prefix_length_prefix [of n "drop i p @ b" "drop i p"])

lemma occ_shift: "k \<le> length s \<Longrightarrow> occ n (drop k s) i \<longleftrightarrow> occ n s (k + i)"
  by (auto simp: occ_def add.commute)

lemma occ_inside_butlast:
  assumes "occ o2 s i" "occ n s pos" "i \<le> pos" "pos + length n < i + length o2"
  shows "sublist n (butlast o2)"
proof -
  from assms(1,2) obtain x y where xy: "drop i s = o2 @ x" "drop pos s = n @ y" by (auto simp: occ_def prefix_def)
  have "drop (pos - i) (o2 @ x) = n @ y"
    using xy assms(3) by (metis drop_drop le_add_diff_inverse2)
  then have "take (length n) (drop (pos - i) o2) = n"
    using assms(3,4) by (auto simp: append_eq_append_conv2 split: nat_diff_split)
  then have "n = take (length n) (drop (pos - i) (butlast o2))"
    using assms(3,4) by (simp add: butlast_conv_take drop_take min_def)
  then show ?thesis
    by (metis append_take_drop_id sublist_appendI)
qed

lemma longest_loop_spec:
  "longest_loop s needle m \<le> m \<and> ends_with (take (longest_loop s needle m) needle) s
   \<and> (\<forall>k. longest_loop s needle m < k \<and> k \<le> m \<longrightarrow> \<not> ends_with (take k needle) s)"
  by (induction m) (auto simp: ends_with_iff le_Suc_eq)

lemma longest_spec:
  shows longest_le: "longest_suffix_prefix_len s n \<le> length s"
    and longest_max: "suffix (take k n) s \<Longrightarrow> k < length n \<Longrightarrow> k \<le> length s \<Longrightarrow> k \<le> longest_suffix_prefix_len s n"
    and longest_suffix: "suffix (take (longest_suffix_prefix_len s n) n) s"
  using longest_loop_spec [of s n "min (length s) (length n - 1)"]
  by (auto simp: longest_suffix_prefix_len_def ends_with_iff not_less [symmetric])

lemma longest_less:
  assumes "n \<noteq> []"
  shows "longest_suffix_prefix_len s n < length n"
proof -
  have "longest_suffix_prefix_len s n \<le> length n - 1"
    using longest_loop_spec [of s n "min (length s) (length n - 1)"] by (simp add: longest_suffix_prefix_len_def)
  with assms show ?thesis by (cases n) auto
qed

lemma longest_eqI:
  assumes "n \<noteq> []"
    and "\<And>k. k < length n \<Longrightarrow> k \<le> length s \<and> suffix (take k n) s \<longleftrightarrow> k \<le> length t \<and> suffix (take k n) t"
  shows "longest_suffix_prefix_len s n = longest_suffix_prefix_len t n"
proof (rule antisym)
  show "longest_suffix_prefix_len s n \<le> longest_suffix_prefix_len t n"
    using assms longest_le [of s n] longest_suffix [of s n] longest_less [of n s] by (auto intro: longest_max)
  show "longest_suffix_prefix_len t n \<le> longest_suffix_prefix_len s n"
    using assms longest_le [of t n] longest_suffix [of t n] longest_less [of n t] by (auto intro: longest_max)
qed

text \<open>
  What is not kept can never become part of a delimiter: with \<open>keep\<close> at least the longest beginning of
  the delimiter at the end of \<open>p\<close>, occurrences in a longer text begin in the kept part.
\<close>

lemma occ_after_kept:
  assumes none: "\<And>j. \<not> occ n p j" and keep: "longest_suffix_prefix_len p n \<le> keep" and occ: "occ n (p @ b) i"
  shows "length p - keep \<le> i"
proof (rule ccontr)
  assume i: "\<not> length p - keep \<le> i"
  then have len: "i < length p" by simp
  have "\<not> i + length n \<le> length p"
    using none occ_append_inside [OF occ] by blast
  moreover have "prefix n (drop i p @ b)" using occ len by (simp add: occ_def)
  ultimately have "prefix (drop i p) n"
    by (intro prefix_length_prefix [of "drop i p" "drop i p @ b" n]) auto
  then have "drop i p = take (length p - i) n"
    using len by (auto simp: prefix_def)
  then have "suffix (take (length p - i) n) p"
    by (metis suffix_drop)
  moreover have "length p - i < length n" "length p - i \<le> length p"
    using \<open>\<not> i + length n \<le> length p\<close> len by linarith+
  ultimately have "length p - i \<le> longest_suffix_prefix_len p n"
    by (rule longest_max)
  with keep i show False by simp
qed

lemma longest_kept:
  assumes n: "n \<noteq> []" and keep: "longest_suffix_prefix_len p n \<le> keep" "keep \<le> length p"
  shows "longest_suffix_prefix_len (p @ b) n = longest_suffix_prefix_len (drop (length p - keep) p @ b) n"
proof (rule longest_eqI [OF n])
  fix k assume k: "k < length n"
  define q r where "q = take (length p - keep) p" and "r = drop (length p - keep) p"
  have p: "p = q @ r" and r: "length r = keep" using keep(2) by (simp_all add: q_def r_def)
  have "k \<le> length (r @ b)" if suf: "suffix (take k n) (p @ b)" "k \<le> length (p @ b)"
  proof (rule ccontr)
    assume long: "\<not> k \<le> length (r @ b)"
    from suf(1) obtain z where z: "q @ r @ b = z @ take k n" by (auto simp: suffix_def p)
    define q' where "q' = drop (length z) q"
    have "length z < length q" using arg_cong [OF z, of length] long k by simp
    then have q': "take k n = q' @ r @ b" "q = z @ q'"
      using arg_cong [OF z, of "drop (length z)"] arg_cong [OF z, of "take (length z)"]
      by (simp_all add: q'_def) (metis append_take_drop_id)
    have "n = (q' @ r) @ b @ drop k n"
      using append_take_drop_id [of k n] q'(1) by simp
    then have "take (length (q' @ r)) n = q' @ r"
      by (metis append_eq_conv_conj)
    then have "suffix (take (length q' + length r) n) p"
      by (simp add: p q'(2) suffix_def)
    moreover have "length q' + length r < length n" "0 < length q'" "length q' + length r \<le> length p"
      using arg_cong [OF q'(1), of length] k long by (simp_all add: p q'(2))
    ultimately show False using longest_max [of "length q' + length r" n p] keep(1) r by (cases q') auto
  qed
  moreover have "suffix (take k n) (q @ r @ b) \<longleftrightarrow> suffix (take k n) (r @ b)" if "k \<le> length (r @ b)"
    using that k suffix_length_suffix [of "take k n" "q @ r @ b" "r @ b"]
    by (auto intro: suffix_order.trans simp: suffix_append)
  ultimately show "k \<le> length (p @ b) \<and> suffix (take k n) (p @ b) \<longleftrightarrow>
      k \<le> length (drop (length p - keep) p @ b) \<and> suffix (take k n) (drop (length p - keep) p @ b)"
    unfolding r_def [symmetric] by (auto simp: p)
qed

lemma find_str_kept:
  assumes "\<And>j. \<not> occ n p j" "longest_suffix_prefix_len p n \<le> keep" "keep \<le> length p"
  shows "find_str n (p @ b) = map_option (\<lambda>i. length p - keep + i) (find_str n (drop (length p - keep) p @ b))"
proof -
  let ?sh = "length p - keep"
  have shift: "occ n (drop ?sh p @ b) i \<longleftrightarrow> occ n (p @ b) (?sh + i)" for i
    using occ_shift [of ?sh "p @ b" n i] assms(3) by simp
  have after: "occ n (p @ b) i \<Longrightarrow> ?sh \<le> i" for i
    using occ_after_kept [OF assms(1,2)] .
  show ?thesis
  proof (cases "find_str n (drop ?sh p @ b)")
    case None
    then have "find_str n (p @ b) = None"
      unfolding find_str_None shift using after by (metis le_Suc_ex)
    with None show ?thesis by simp
  next
    case (Some i)
    then have "occ n (p @ b) (?sh + i)" "\<forall>j < i. \<not> occ n (p @ b) (?sh + j)"
      by (simp_all add: find_str_Some shift)
    then have "find_str n (p @ b) = Some (?sh + i)"
      unfolding find_str_Some using after by (metis add_less_cancel_left le_Suc_ex)
    with Some show ?thesis by simp
  qed
qed

section \<open>The earliest opening delimiter\<close>

definition wf_specs :: "'t inline_tag_spec list \<Rightarrow> bool" where
  "wf_specs specs \<longleftrightarrow>
     (\<forall>s \<in> set specs. spec_open s \<noteq> [] \<and> spec_close s \<noteq> [] \<and>
        (\<forall>s' \<in> set specs. \<not> sublist (spec_open s) (butlast (spec_open s'))))"

lemma open_less_trans: "open_less a b \<Longrightarrow> open_less b c \<Longrightarrow> open_less a c"
  by (auto simp: open_less_def)

lemma open_less_total: "open_less a b \<or> a = b \<or> open_less b a"
  by (auto simp: open_less_def)

lemma open_less_asym: "open_less a b \<Longrightarrow> \<not> open_less b a"
  by (auto simp: open_less_def)

lemma min_open_in: "min_open cs = Some c \<Longrightarrow> c \<in> set cs"
  by (induction cs arbitrary: c) (auto split: option.splits if_splits)

lemma min_open_least: "min_open cs = Some c \<Longrightarrow> d \<in> set cs \<Longrightarrow> \<not> open_less d c"
proof (induction cs arbitrary: c d)
  case (Cons x cs)
  show ?case
  proof (cases "min_open cs")
    case None
    then have "cs = []" by (cases cs) (auto split: option.splits)
    with Cons.prems show ?thesis by (auto simp: open_less_def)
  next
    case (Some e)
    have c: "c = (if open_less e x then e else x)" using Cons.prems(1) Some by simp
    have "\<not> open_less d e" if "d \<in> set cs" using Cons.IH [OF Some that] .
    then consider "d = x" | "d = e" | "open_less e d"
      using Cons.prems(2) open_less_total [of d e] by auto
    then show ?thesis
    proof cases
      case 3
      then show ?thesis
        using c open_less_trans [of e d x] open_less_asym [of e d] open_less_asym [of d x] by (cases "open_less e x") auto
    qed (use c open_less_asym [of e x] open_less_asym [of e e] open_less_asym [of x x] in \<open>cases "open_less e x"; auto\<close>)+
  qed
qed simp

lemma min_open_None [simp]: "min_open cs = None \<longleftrightarrow> cs = []"
  by (cases cs) (auto split: option.splits)

lemma candidate_iff:
  "(pos, len, idx) \<in> set (open_candidates specs p) \<longleftrightarrow>
     idx < length specs \<and> len = length (spec_open (specs ! idx)) \<and> find_str (spec_open (specs ! idx)) p = Some pos"
proof -
  have "(pos, len, idx) \<in> set (List.map_filter (\<lambda>(idx, spec). map_option (\<lambda>pos. (pos, length (spec_open spec), idx))
      (find_str (spec_open spec) p)) xs) \<longleftrightarrow>
    (\<exists>spec. (idx, spec) \<in> set xs \<and> len = length (spec_open spec) \<and> find_str (spec_open spec) p = Some pos)"
    for xs :: "(nat \<times> 'a inline_tag_spec) list"
    by (induction xs) (auto simp: List.map_filter_simps split: option.splits)
  then show ?thesis by (auto simp: open_candidates_def in_set_enumerate_eq)
qed

lemma min_open_unique:
  assumes "c \<in> set cs" "\<And>d. d \<in> set cs \<Longrightarrow> \<not> open_less d c"
  shows "min_open cs = Some c"
proof (cases "min_open cs")
  case None
  with assms(1) show ?thesis by simp
next
  case (Some d)
  have "\<not> open_less c d" using min_open_least [OF Some assms(1)] .
  with assms(2) [OF min_open_in [OF Some]] show ?thesis
    using Some open_less_total [of c d] by auto
qed

text \<open>More text does not change the earliest delimiter: no other can end inside it.\<close>

lemma find_next_open_append:
  assumes wf: "wf_specs specs" and found: "find_next_open specs p = Some (pos, idx)"
  shows "find_next_open specs (p @ b) = Some (pos, idx)"
proof -
  obtain len where min: "min_open (open_candidates specs p) = Some (pos, len, idx)"
    using found by (auto simp: find_next_open_def)
  note c = min_open_in [OF min, unfolded candidate_iff]
  have occ: "occ (spec_open (specs ! idx)) p pos" using c by (simp add: find_str_Some)
  have stay: "find_str n (p @ b) = Some i" if "find_str n p = Some i" for n :: rstr and i
    using that find_str_Some occ_append occ_append_inside occ_bound by (smt (verit) add_le_mono1 less_imp_le_nat order_trans)
  have "min_open (open_candidates specs (p @ b)) = Some (pos, len, idx)"
  proof (rule min_open_unique)
    show "(pos, len, idx) \<in> set (open_candidates specs (p @ b))"
      using c stay by (simp add: candidate_iff)
  next
    fix d assume d: "d \<in> set (open_candidates specs (p @ b))"
    obtain i l j where dij: "d = (i, l, j)" by (cases d)
    note dc = d [unfolded dij candidate_iff]
    let ?o = "spec_open (specs ! j)" and ?n = "spec_open (specs ! idx)"
    show "\<not> open_less d (pos, len, idx)"
    proof (cases "find_str ?o p")
      case (Some i')
      then have "d \<in> set (open_candidates specs p)"
        using stay [OF Some] dc dij by (simp add: candidate_iff)
      then show ?thesis using min_open_least [OF min] by blast
    next
      case None
      have "pos < i"
      proof (rule ccontr)
        assume "\<not> pos < i"
        have occ': "occ ?o (p @ b) i" using dc by (simp add: find_str_Some)
        have "\<not> i + length ?o \<le> length p"
          using None occ_append_inside [OF occ'] by (auto simp: find_str_None)
        moreover have "occ ?n (p @ b) pos" by (rule occ_append [OF occ])
        ultimately have "sublist ?n (butlast ?o)"
          using occ_inside_butlast [OF occ' \<open>occ ?n (p @ b) pos\<close>] occ_bound [OF occ] \<open>\<not> pos < i\<close> by simp
        then show False using wf c dc by (auto simp: wf_specs_def)
      qed
      then show ?thesis by (simp add: dij open_less_def)
    qed
  qed
  then show ?thesis by (simp add: find_next_open_def)
qed

lemma max_open_spec:
  assumes "s \<in> set specs"
  shows "longest_suffix_prefix_len p (spec_open s) \<le> max_open_prefix_suffix_len specs p"
  using assms Max_ge [of "insert 0 (set (map (\<lambda>spec. longest_suffix_prefix_len p (spec_open spec)) specs))"]
  by (simp add: max_open_prefix_suffix_len_def Max.set_eq_fold [symmetric])

lemma max_open_le: "max_open_prefix_suffix_len specs p \<le> length p"
proof -
  have "fold max xs m \<le> k" if "\<forall>x \<in> set xs. x \<le> k" "m \<le> k" for xs m and k :: nat
    using that by (induction xs arbitrary: m) auto
  then show ?thesis by (simp add: max_open_prefix_suffix_len_def longest_le)
qed

lemma kept_specs:
  assumes wf: "wf_specs specs" and none: "find_next_open specs p = None"
  defines "sh \<equiv> length p - max_open_prefix_suffix_len specs p"
  shows "find_next_open specs (p @ b) = map_option (\<lambda>(pos, idx). (sh + pos, idx)) (find_next_open specs (drop sh p @ b))"
    and "max_open_prefix_suffix_len specs (p @ b) = max_open_prefix_suffix_len specs (drop sh p @ b)"
proof -
  have no_occ: "\<not> occ (spec_open s) p j" if "s \<in> set specs" for s j
  proof -
    from that obtain idx where idx: "idx < length specs" "specs ! idx = s" by (auto simp: in_set_conv_nth)
    have "open_candidates specs p = []" using none by (simp add: find_next_open_def)
    then have "find_str (spec_open s) p = None"
      using candidate_iff [of _ "length (spec_open s)" idx specs p] idx by (cases "find_str (spec_open s) p") auto
    then show ?thesis by (simp add: find_str_None)
  qed
  have find: "find_str (spec_open s) (p @ b) = map_option (\<lambda>i. sh + i) (find_str (spec_open s) (drop sh p @ b))"
    if "s \<in> set specs" for s
    unfolding sh_def by (rule find_str_kept) (use no_occ that max_open_spec max_open_le in auto)
  have cands: "open_candidates specs (p @ b) = map (\<lambda>(pos, len, idx). (sh + pos, len, idx)) (open_candidates specs (drop sh p @ b))"
  proof -
    have "List.map_filter (\<lambda>(idx, spec). map_option (\<lambda>pos. (pos, length (spec_open spec), idx)) (find_str (spec_open spec) (p @ b))) xs
        = map (\<lambda>(pos, len, idx). (sh + pos, len, idx)) (List.map_filter (\<lambda>(idx, spec).
            map_option (\<lambda>pos. (pos, length (spec_open spec), idx)) (find_str (spec_open spec) (drop sh p @ b))) xs)"
      if "snd ` set xs \<subseteq> set specs" for xs :: "(nat \<times> 'a inline_tag_spec) list"
      using that by (induction xs) (auto simp: List.map_filter_simps find split: option.splits)
    moreover have "snd ` set (enumerate 0 specs) \<subseteq> set specs"
      by (metis image_set map_snd_enumerate order_refl)
    ultimately show ?thesis by (simp add: open_candidates_def)
  qed
  have "min_open (map (\<lambda>(pos, len, idx). (sh + pos, len, idx)) cs) = map_option (\<lambda>(pos, len, idx). (sh + pos, len, idx)) (min_open cs)" for cs
    by (induction cs) (auto simp: open_less_def split: option.splits)
  then show "find_next_open specs (p @ b) = map_option (\<lambda>(pos, idx). (sh + pos, idx)) (find_next_open specs (drop sh p @ b))"
    by (simp add: find_next_open_def cands option.map_comp comp_def case_prod_unfold)
  have "longest_suffix_prefix_len (p @ b) (spec_open s) = longest_suffix_prefix_len (drop sh p @ b) (spec_open s)" if "s \<in> set specs" for s
    unfolding sh_def by (rule longest_kept) (use wf that max_open_spec max_open_le in \<open>auto simp: wf_specs_def\<close>)
  then show "max_open_prefix_suffix_len specs (p @ b) = max_open_prefix_suffix_len specs (drop sh p @ b)"
    unfolding max_open_prefix_suffix_len_def by (metis (no_types, lifting) map_eq_conv)
qed

section \<open>The loop\<close>

definition active_ok :: "'t active_tag option \<Rightarrow> bool" where
  "active_ok active = (case active of None \<Rightarrow> True | Some a \<Rightarrow> active_close a \<noteq> [])"

lemma find_next_open_bounds:
  assumes "wf_specs specs" "find_next_open specs p = Some (pos, idx)"
  shows "specs ! idx \<in> set specs" "pos + length (spec_open (specs ! idx)) \<le> length p" "spec_open (specs ! idx) \<noteq> []"
proof -
  obtain len where "(pos, len, idx) \<in> set (open_candidates specs p)"
    using assms(2) by (auto simp: find_next_open_def dest: min_open_in)
  then have idx: "idx < length specs" and occ: "occ (spec_open (specs ! idx)) p pos"
    by (auto simp: candidate_iff find_str_Some)
  show "specs ! idx \<in> set specs" using idx by simp
  with assms(1) show "spec_open (specs ! idx) \<noteq> []" by (simp add: wf_specs_def)
  show "pos + length (spec_open (specs ! idx)) \<le> length p" by (rule occ_bound [OF occ])
qed

text \<open>One rule of induction for the loop: it consumes a delimiter at a time.\<close>

lemma tag_loop_induct [consumes 2, case_names close keep_close open_tag keep_open]:
  assumes "wf_specs specs" "active_ok active"
    and close: "\<And>a p i. \<lbrakk>active_close a \<noteq> []; find_str (active_close a) p = Some i;
      P None (drop (i + length (active_close a)) p)\<rbrakk> \<Longrightarrow> P (Some a) p"
    and keep_close: "\<And>a p. \<lbrakk>active_close a \<noteq> []; find_str (active_close a) p = None\<rbrakk> \<Longrightarrow> P (Some a) p"
    and open_tag: "\<And>p i idx. \<lbrakk>find_next_open specs p = Some (i, idx); specs ! idx \<in> set specs;
      P (Some \<lparr>active_tag_of = spec_tag (specs ! idx), active_close = spec_close (specs ! idx), active_content = []\<rparr>)
        (drop (i + length (spec_open (specs ! idx))) p)\<rbrakk> \<Longrightarrow> P None p"
    and keep_open: "\<And>p. find_next_open specs p = None \<Longrightarrow> P None p"
  shows "P active p"
  using assms(2)
proof (induction "length p" arbitrary: p active rule: less_induct)
  case less
  show ?case
  proof (cases active)
    case None
    show ?thesis
    proof (cases "find_next_open specs p")
      case (Some c)
      obtain i idx where c: "c = (i, idx)" by (cases c)
      note b = find_next_open_bounds [OF assms(1) Some [unfolded c]]
      have "length (drop (i + length (spec_open (specs ! idx))) p) < length p" using b by (cases "spec_open (specs ! idx)") auto
      moreover have "spec_close (specs ! idx) \<noteq> []" using b(1) assms(1) by (simp add: wf_specs_def)
      ultimately show ?thesis
        using open_tag [OF Some [unfolded c] b(1)] less.hyps None by (simp add: active_ok_def)
    qed (simp add: None keep_open)
  next
    case (Some a)
    then have ne: "active_close a \<noteq> []" using less.prems by (simp add: active_ok_def)
    show ?thesis
    proof (cases "find_str (active_close a) p")
      case (Some i)
      then have "i + length (active_close a) \<le> length p" by (simp add: find_str_Some occ_bound)
      then have "length (drop (i + length (active_close a)) p) < length p" using ne by (cases "active_close a") auto
      then show ?thesis
        using close [OF ne Some] less.hyps \<open>active = Some a\<close> by (simp add: active_ok_def)
    qed (simp add: Some keep_close ne)
  qed
qed

lemma chunk_extract: "out\<lparr>extracted := extracted out @ x\<rparr> = chunk_append out \<lparr>visible_text = [], extracted = x\<rparr>"
  by (cases out) (simp add: chunk_append_def)

lemma chunk_show: "out\<lparr>visible_text := visible_text out @ x\<rparr> = chunk_append out \<lparr>visible_text = x, extracted = []\<rparr>"
  by (cases out) (simp add: chunk_append_def)

lemma tag_loop_simps:
  "find_str (active_close a) p = Some i \<Longrightarrow> tag_loop specs (Some a) p out =
     tag_loop specs None (drop (i + length (active_close a)) p)
       (chunk_append out \<lparr>visible_text = [],
          extracted = [\<lparr>et_tag = active_tag_of a, et_content = active_content a @ take i p\<rparr>]\<rparr>)"
  "find_str (active_close a) p = None \<Longrightarrow> tag_loop specs (Some a) p out =
     (let n = length p - longest_suffix_prefix_len p (active_close a) in
      Some (Some (a\<lparr>active_content := active_content a @ take n p\<rparr>), drop n p, out))"
  "find_next_open specs p = Some (i, idx) \<Longrightarrow> tag_loop specs None p out =
     tag_loop specs (Some \<lparr>active_tag_of = spec_tag (specs ! idx), active_close = spec_close (specs ! idx), active_content = []\<rparr>)
       (drop (i + length (spec_open (specs ! idx))) p) (chunk_append out \<lparr>visible_text = take i p, extracted = []\<rparr>)"
  "find_next_open specs p = None \<Longrightarrow> tag_loop specs None p out =
     (let n = length p - max_open_prefix_suffix_len specs p in
      Some (None, drop n p, chunk_append out \<lparr>visible_text = take n p, extracted = []\<rparr>))"
  by (subst tag_loop.simps [of specs "Some a" p out], simp add: chunk_extract)
     (subst tag_loop.simps [of specs "Some a" p out], simp,
      subst tag_loop.simps [of specs None p out], simp add: chunk_show Let_def,
      subst tag_loop.simps [of specs None p out], simp add: chunk_show Let_def)

lemma tag_loop_total: "wf_specs specs \<Longrightarrow> active_ok active \<Longrightarrow> \<exists>r. tag_loop specs active p out = Some r"
  by (induction active p arbitrary: out rule: tag_loop_induct) (auto simp: tag_loop_simps Let_def)

lemma tag_loop_out:
  "wf_specs specs \<Longrightarrow> active_ok active \<Longrightarrow>
     tag_loop specs active p (chunk_append o1 o2) =
     map_option (\<lambda>(active, p, out). (active, p, chunk_append o1 out)) (tag_loop specs active p o2)"
  by (induction active p arbitrary: o2 rule: tag_loop_induct) (auto simp: tag_loop_simps Let_def)

lemma tag_loop_ok:
  "wf_specs specs \<Longrightarrow> active_ok active \<Longrightarrow> tag_loop specs active p out = Some (active', p', out') \<Longrightarrow> active_ok active'"
  by (induction active p arbitrary: out rule: tag_loop_induct) (auto simp: tag_loop_simps Let_def active_ok_def)

lemma find_str_append: "find_str n p = Some i \<Longrightarrow> find_str n (p @ b) = Some i"
  unfolding find_str_Some using occ_append occ_append_inside occ_bound
  by (smt (verit) add_le_mono1 less_imp_le_nat order_trans)

lemma drop_beyond: "i + k \<le> length p \<Longrightarrow> drop (i + k) (p @ b) = drop (i + k) p @ b"
  by simp

text \<open>The loop on a longer text goes on from where the loop on its beginning stopped.\<close>

lemma tag_loop_append:
  assumes "wf_specs specs" "active_ok active" "tag_loop specs active p out = Some (active', p', out')"
  shows "tag_loop specs active (p @ b) out = tag_loop specs active' (p' @ b) out'"
  using assms
proof (induction active p arbitrary: out rule: tag_loop_induct)
  case (close a p i)
  have "i + length (active_close a) \<le> length p"
    using close(2) by (simp add: find_str_Some occ_bound)
  with close find_str_append [OF close(2), of b] show ?case
    by (simp add: tag_loop_simps)
next
  case (keep_close a p)
  let ?n = "active_close a"
  define sh where "sh = length p - longest_suffix_prefix_len p ?n"
  have no: "\<not> occ ?n p j" for j using keep_close(2) by (simp add: find_str_None)
  have find: "find_str ?n (p @ b) = map_option (\<lambda>i. sh + i) (find_str ?n (drop sh p @ b))"
    unfolding sh_def by (rule find_str_kept [OF no order_refl longest_le])
  have longest: "longest_suffix_prefix_len (p @ b) ?n = longest_suffix_prefix_len (drop sh p @ b) ?n"
    unfolding sh_def by (rule longest_kept [OF keep_close(1) order_refl longest_le])
  have sh: "sh \<le> length p" by (simp add: sh_def)
  have res: "active' = Some (a\<lparr>active_content := active_content a @ take sh p\<rparr>)" "p' = drop sh p" "out' = out"
    using keep_close by (auto simp: tag_loop_simps Let_def sh_def)
  show ?case
  proof (cases "find_str ?n (drop sh p @ b)")
    case None
    have "longest_suffix_prefix_len (drop sh p @ b) ?n \<le> length (drop sh p @ b)" by (rule longest_le)
    with take_add [of sh "length (drop sh p @ b) - longest_suffix_prefix_len (drop sh p @ b) ?n" "p @ b"] None find longest sh
    show ?thesis by (simp add: res tag_loop_simps Let_def)
  next
    case (Some i)
    with find sh take_add [of sh i p] show ?thesis
      by (simp add: res tag_loop_simps ac_simps)
  qed
next
  case (open_tag p i idx)
  note b = find_next_open_bounds [OF assms(1) open_tag(1)]
  with open_tag find_next_open_append [OF assms(1) open_tag(1), of b] show ?case
    by (simp add: tag_loop_simps)
next
  case (keep_open p)
  define sh where "sh = length p - max_open_prefix_suffix_len specs p"
  note kept = kept_specs [OF assms(1) keep_open(1), of b, folded sh_def]
  have sh: "sh \<le> length p" by (simp add: sh_def)
  have res: "active' = None" "p' = drop sh p" "out' = chunk_append out \<lparr>visible_text = take sh p, extracted = []\<rparr>"
    using keep_open by (auto simp: tag_loop_simps Let_def sh_def)
  show ?case
  proof (cases "find_next_open specs (drop sh p @ b)")
    case None
    with kept sh max_open_le [of specs "drop sh p @ b"]
      take_add [of sh "length (drop sh p @ b) - max_open_prefix_suffix_len specs (drop sh p @ b)" "p @ b"]
    show ?thesis by (simp add: res tag_loop_simps Let_def chunk_append_def)
  next
    case (Some c)
    obtain i idx where c: "c = (i, idx)" by (cases c)
    with Some kept sh take_add [of sh i p] show ?thesis
      by (simp add: res tag_loop_simps ac_simps chunk_append_def)
  qed
qed

section \<open>The cut into chunks\<close>

definition inline_inv :: "'t inline_hidden_tag_parser \<Rightarrow> bool" where
  "inline_inv p \<longleftrightarrow> wf_specs (ip_specs p) \<and> active_ok (ip_active p) \<and> inline_push_str [] p = Some (empty_chunk, p)"

lemma inline_push_total:
  assumes "wf_specs (ip_specs p)" "active_ok (ip_active p)"
  shows "\<exists>r. inline_push_str chunk p = Some r"
  using tag_loop_total [OF assms, of "ip_pending p @ chunk" empty_chunk] by (auto simp: inline_push_str_def)

lemma inline_push_push:
  assumes wf: "wf_specs (ip_specs p)" "active_ok (ip_active p)" and a: "inline_push_str a p = Some (o1, p1)"
  shows "inline_push_str (a @ b) p = map_option (apfst (chunk_append o1)) (inline_push_str b p1)"
    and "wf_specs (ip_specs p1)" "active_ok (ip_active p1)"
proof -
  obtain active pending where loop: "tag_loop (ip_specs p) (ip_active p) (ip_pending p @ a) empty_chunk = Some (active, pending, o1)"
    and p1: "p1 = p\<lparr>ip_active := active, ip_pending := pending\<rparr>"
    using a by (auto simp: inline_push_str_def)
  show "wf_specs (ip_specs p1)" using wf p1 by simp
  have ok: "active_ok active" by (rule tag_loop_ok [OF wf loop])
  with p1 show "active_ok (ip_active p1)" by simp
  have "tag_loop (ip_specs p) (ip_active p) (ip_pending p @ a @ b) empty_chunk =
      tag_loop (ip_specs p) active (pending @ b) (chunk_append o1 empty_chunk)"
    using tag_loop_append [OF wf loop, of b] by simp
  also have "\<dots> = map_option (\<lambda>(active, p, out). (active, p, chunk_append o1 out))
      (tag_loop (ip_specs p) active (pending @ b) empty_chunk)"
    by (rule tag_loop_out [OF wf(1) ok])
  finally show "inline_push_str (a @ b) p = map_option (apfst (chunk_append o1)) (inline_push_str b p1)"
    by (simp add: inline_push_str_def p1 option.map_comp comp_def case_prod_unfold apfst_def map_prod_def)
qed

lemma chunk_append_idem: "chunk_append c d = c \<Longrightarrow> d = empty_chunk"
  by (cases c; cases d) (simp add: chunk_append_def empty_chunk_def)

lemma inline_push_inv:
  assumes "inline_inv p" "inline_push_str a p = Some (o1, p1)"
  shows "inline_inv p1"
proof -
  have wf: "wf_specs (ip_specs p)" "active_ok (ip_active p)" using assms(1) by (simp_all add: inline_inv_def)
  note step = inline_push_push [OF wf assms(2)]
  obtain o2 p2 where nil: "inline_push_str [] p1 = Some (o2, p2)"
    using inline_push_total [OF step(2,3), of "[]"] by auto
  have "Some (o1, p1) = Some (chunk_append o1 o2, p2)"
    using step(1) [of "[]"] assms(2) nil by simp
  then have "chunk_append o1 o2 = o1" "p2 = p1" by simp_all
  with nil chunk_append_idem show ?thesis
    using step(2,3) by (auto simp: inline_inv_def)
qed

text \<open>The laws of the trait, for a parser whose chunks are a mapping of those of the inline parser.\<close>

lemma inline_laws:
  assumes inv: "inline_inv p" and g: "\<And>c d. g (chunk_append c d) = chunk_append (g c) (g d)" "g empty_chunk = empty_chunk"
  defines "push \<equiv> \<lambda>chunk p. the (map_option (apfst g) (inline_push_str chunk p))"
  shows "inline_inv (snd (push a p))" and "push [] p = (empty_chunk, p)"
    and "push (a @ b) p = (chunk_append (fst (push a p)) (fst (push b (snd (push a p)))), snd (push b (snd (push a p))))"
proof -
  have wf: "wf_specs (ip_specs p)" "active_ok (ip_active p)" using inv by (simp_all add: inline_inv_def)
  obtain o1 p1 where a: "inline_push_str a p = Some (o1, p1)" using inline_push_total [OF wf, of a] by auto
  note step = inline_push_push [OF wf a]
  obtain o2 p2 where b: "inline_push_str b p1 = Some (o2, p2)" using inline_push_total [OF step(2,3), of b] by auto
  show "inline_inv (snd (push a p))" using inline_push_inv [OF inv a] by (simp add: push_def a)
  show "push [] p = (empty_chunk, p)" using inv by (simp add: push_def inline_inv_def g)
  show "push (a @ b) p = (chunk_append (fst (push a p)) (fst (push b (snd (push a p)))), snd (push b (snd (push a p))))"
    using step(1) [of b] by (simp add: push_def a b g)
qed

lemmas inline_id_laws = inline_laws [where g = id, simplified apfst_id option.map_id0 id_apply, simplified]

interpretation inline: stream_text_parser "\<lambda>chunk p. the (inline_push_str chunk p)" inline_finish inline_inv id
  by unfold_locales (simp_all add: inline_id_laws)

lemma citation_chunk_append: "citation_chunk (chunk_append c d) = chunk_append (citation_chunk c) (citation_chunk d)"
  "citation_chunk empty_chunk = empty_chunk"
  by (simp_all add: citation_chunk_def chunk_append_def empty_chunk_def)

lemmas citation_laws = inline_laws [where g = citation_chunk, OF _ citation_chunk_append, folded citation_push_str_def]

interpretation citations: stream_text_parser "\<lambda>chunk p. the (citation_push_str chunk p)" citation_finish inline_inv id
  by unfold_locales (simp_all add: citation_laws)

section \<open>Citations in a text\<close>

definition citation_start :: "citation_tag inline_hidden_tag_parser" where
  "citation_start = \<lparr>ip_specs = [\<lparr>spec_tag = Citation, spec_open = CITATION_OPEN, spec_close = CITATION_CLOSE\<rparr>],
     ip_pending = [], ip_active = None\<rparr>"

lemma citation_delimiters:
  "CITATION_OPEN = 60 # lit ''oai-mem-citation>''" "60 \<notin> set (lit ''oai-mem-citation>'')"
  "CITATION_CLOSE = 60 # lit ''/oai-mem-citation>''" "60 \<notin> set (lit ''/oai-mem-citation>'')"
  by (simp_all add: CITATION_OPEN_def CITATION_CLOSE_def)

lemma citation_nonempty [simp]: "CITATION_OPEN \<noteq> []" "CITATION_CLOSE \<noteq> []"
  by (simp_all add: citation_delimiters)

lemma citation_new_Ok: "citation_new = Ok citation_start"
  by (simp add: citation_new_def inline_new_def citation_start_def)

lemma citation_specs_wf: "wf_specs (ip_specs citation_start)"
proof -
  have "\<not> sublist s (butlast s)" if "s \<noteq> []" for s :: rstr
    using that sublist_length_le [of s "butlast s"] by (cases s) auto
  then show ?thesis by (simp add: wf_specs_def citation_start_def)
qed

lemma max_open_single:
  "max_open_prefix_suffix_len [spec] p = longest_suffix_prefix_len p (spec_open spec)"
  by (simp add: max_open_prefix_suffix_len_def)

lemma find_next_open_single:
  "find_next_open [spec] p = map_option (\<lambda>pos. (pos, 0)) (find_str (spec_open spec) p)"
  by (cases "find_str (spec_open spec) p") (simp_all add: find_next_open_def open_candidates_def List.map_filter_simps)

lemma citation_start_inv: "inline_inv citation_start"
proof -
  have "find_str CITATION_OPEN [] = None" by simp
  then have "tag_loop (ip_specs citation_start) None [] empty_chunk = Some (None, [], empty_chunk)"
    by (simp add: citation_start_def tag_loop_simps find_next_open_single empty_chunk_def chunk_append_def)
  then have "inline_push_str [] citation_start = Some (empty_chunk, citation_start)"
    by (simp add: inline_push_str_def citation_start_def)
  then show ?thesis
    using citation_specs_wf by (simp add: inline_inv_def active_ok_def citation_start_def)
qed

lemma citation_push_total: "\<exists>out p. citation_push_str t citation_start = Some (out, p)"
  using inline_push_total [OF citation_specs_wf, of t]
  by (auto simp: citation_push_str_def active_ok_def citation_start_def)

lemma strip_citations_push:
  "strip_citations t =
     (let (out, p) = the (citation_push_str t citation_start); tail = fst (citation_finish p)
      in Some (Ok (visible_text out @ visible_text tail, extracted out @ extracted tail)))"
  using citation_push_total [of t] by (auto simp: strip_citations_def citation_new_Ok Let_def)

text \<open>
  (C17) Reading citations from a stream of bytes gives the visible text and the citations of the whole
  text, however the bytes are cut, inside a tag or inside a character.
\<close>

theorem citations_any_byte_split:
  assumes "list_all is_scalar t" "concat chunks = encode_utf8 t"
  defines "push \<equiv> \<lambda>chunk p. the (citation_push_str chunk p)"
  shows "\<exists>out u tail u'. push_all_bytes push chunks (utf8_new citation_start) = (Inr out, u)
    \<and> utf8_finish push citation_finish u = (Inr tail, u') \<and> pending_utf8 u' = []
    \<and> strip_citations t = Some (Ok (visible_text out @ visible_text tail, extracted out @ extracted tail))"
proof -
  obtain out where out: "push_all_bytes push chunks (utf8_new citation_start) = (Inr out, utf8_new (snd (push t citation_start)))"
    "citations.agrees out (fst (push t citation_start))"
    "utf8_finish push citation_finish (utf8_new (snd (push t citation_start))) =
        (Inr (fst (citation_finish (snd (push t citation_start)))), utf8_new (snd (citation_finish (snd (push t citation_start)))))"
    using citations.utf8_any_split [OF citation_start_inv assms(1,2)] unfolding push_def by blast
  have "strip_citations t = Some (Ok (visible_text out @ visible_text (fst (citation_finish (snd (push t citation_start)))),
      extracted out @ extracted (fst (citation_finish (snd (push t citation_start))))))"
    using out(2) by (simp add: strip_citations_push push_def citations.agrees_def Let_def case_prod_unfold)
  moreover have "pending_utf8 (utf8_new (snd (citation_finish (snd (push t citation_start))))) = []"
    by (simp add: utf8_new_def)
  ultimately show ?thesis using out(1,3) by blast
qed

theorem citations_any_byte_split_witness:
  "list_all is_scalar [97, 233] \<and> concat [[97, 195], [169]] = encode_utf8 [97, 233] \<and>
   (\<exists>out u tail u'. push_all_bytes (\<lambda>chunk p. the (citation_push_str chunk p)) [[97, 195], [169]] (utf8_new citation_start) = (Inr out, u)
    \<and> utf8_finish (\<lambda>chunk p. the (citation_push_str chunk p)) citation_finish u = (Inr tail, u')
    \<and> strip_citations [97, 233] = Some (Ok (visible_text out @ visible_text tail, extracted out @ extracted tail)))"
proof -
  have "list_all is_scalar [97, 233]" "concat [[97, 195], [169]] = encode_utf8 [97, 233]"
    by (simp_all add: is_scalar_def encode_utf8_def encode_char_def)
  from citations_any_byte_split [OF this] this show ?thesis by blast
qed

text \<open>A delimiter that repeats its first character nowhere cannot overlap the text before it.\<close>

lemma find_str_after:
  assumes n: "n = x # n'" "x \<notin> set n'" and t: "\<not> sublist n t"
  shows "find_str n (t @ n @ rest) = Some (length t)"
  unfolding find_str_Some
proof (intro conjI allI impI notI)
  show "occ n (t @ n @ rest) (length t)" by (simp add: occ_def)
  fix j assume j: "j < length t" and occ: "occ n (t @ n @ rest) j"
  show False
  proof (cases "j + length n \<le> length t")
    case True
    then have "prefix n (drop j t)" using occ_append_inside [OF occ] by (simp add: occ_def)
    then have "sublist n t" by (metis append_take_drop_id prefix_def sublist_appendI)
    with t show False by simp
  next
    case False
    obtain y where "drop j t @ n @ rest = n @ y" using occ j by (auto simp: occ_def prefix_def)
    moreover have "length t - j < length n" using False j by linarith
    ultimately have "(drop j t @ n @ rest) ! (length t - j) = n ! (length t - j)"
      by (simp only: nth_append if_True)
    moreover have "(drop j t @ n @ rest) ! (length t - j) = x" using j n by (simp add: nth_append)
    moreover have "n ! (length t - j) \<in> set n'"
      using n(1) j False by (cases "length t - j") (auto simp: less_diff_conv)
    ultimately show False using n(2) by simp
  qed
qed

lemma find_str_absent: "\<not> sublist n t \<Longrightarrow> find_str n t = None"
  by (auto simp: find_str_None occ_def prefix_def) (metis append_take_drop_id sublist_appendI)

text \<open>A text with citations in it: pieces of visible text, each followed by a citation, and a last piece.\<close>

fun render_cited :: "(rstr \<times> rstr) list \<Rightarrow> rstr \<Rightarrow> rstr" where
  "render_cited [] final = final"
| "render_cited ((t, c) # pieces) final = t @ CITATION_OPEN @ c @ CITATION_CLOSE @ render_cited pieces final"

lemma citation_loop:
  assumes "list_all (\<lambda>(t, c). \<not> sublist CITATION_OPEN t \<and> \<not> sublist CITATION_CLOSE c) pieces"
  shows "tag_loop (ip_specs citation_start) None (render_cited pieces final) out =
    tag_loop (ip_specs citation_start) None final
      (chunk_append out \<lparr>visible_text = concat (map fst pieces),
         extracted = map (\<lambda>(t, c). \<lparr>et_tag = Citation, et_content = c\<rparr>) pieces\<rparr>)"
  using assms
proof (induction pieces arbitrary: out)
  case Nil
  show ?case by (cases out) (simp add: chunk_append_def)
next
  case (Cons piece pieces)
  obtain t c where tc: "piece = (t, c)" by (cases piece)
  have "find_str CITATION_OPEN (t @ CITATION_OPEN @ c @ CITATION_CLOSE @ render_cited pieces final) = Some (length t)"
    using Cons.prems tc by (intro find_str_after [OF citation_delimiters(1,2)]) simp
  moreover have "find_str CITATION_CLOSE (c @ CITATION_CLOSE @ render_cited pieces final) = Some (length c)"
    using Cons.prems tc by (intro find_str_after [OF citation_delimiters(3,4)]) simp
  ultimately show ?case
    using Cons tc by (simp add: citation_start_def find_next_open_single tag_loop_simps) (simp add: chunk_append_def)
qed

text \<open>
  Citations are read back exactly: from a text that holds citations between pieces of visible
  text, stripping returns the pieces joined and the citations in order.
\<close>

theorem strip_citations_roundtrip:
  assumes "list_all (\<lambda>(t, c). \<not> sublist CITATION_OPEN t \<and> \<not> sublist CITATION_CLOSE c) pieces"
    and "\<not> sublist CITATION_OPEN final"
  shows "strip_citations (render_cited pieces final) = Some (Ok (concat (map fst pieces) @ final, map snd pieces))"
proof -
  define n where "n = length final - longest_suffix_prefix_len final CITATION_OPEN"
  have loop: "tag_loop (ip_specs citation_start) None (render_cited pieces final) empty_chunk =
      Some (None, drop n final, \<lparr>visible_text = concat (map fst pieces) @ take n final,
        extracted = map (\<lambda>(t, c). \<lparr>et_tag = Citation, et_content = c\<rparr>) pieces\<rparr>)"
    using find_str_absent [OF assms(2)]
    by (simp add: citation_loop [OF assms(1)])
       (simp add: citation_start_def find_next_open_single tag_loop_simps Let_def n_def max_open_single chunk_append_def empty_chunk_def)
  have push: "citation_push_str (render_cited pieces final) citation_start =
      Some (\<lparr>visible_text = concat (map fst pieces) @ take n final, extracted = map snd pieces\<rparr>,
        citation_start\<lparr>ip_active := None, ip_pending := drop n final\<rparr>)"
    using loop by (simp add: citation_push_str_def inline_push_str_def citation_chunk_def citation_start_def comp_def case_prod_unfold)
  show ?thesis
    by (simp add: strip_citations_push push citation_finish_def inline_finish_def citation_chunk_def empty_chunk_def)
qed

theorem strip_citations_roundtrip_witness:
  "strip_citations (render_cited [(lit ''a < b '', lit ''doc'')] (lit ''!'')) = Some (Ok (lit ''a < b !'', [lit ''doc'']))"
proof -
  have "\<not> sublist CITATION_OPEN t" "\<not> sublist CITATION_CLOSE t" if "length t < 18" for t
    using that sublist_length_le [of _ t] by (fastforce simp: citation_delimiters)+
  then show ?thesis
    using strip_citations_roundtrip [of "[(lit ''a < b '', lit ''doc'')]" "lit ''!''"] by simp
qed

end
