(* ===== verification/Plan_Blocks.thy ===== *)
theory Plan_Blocks
  imports Inline_Tags
begin

text \<open>
  Blocks between lines that hold only a tag (\<^verbatim>\<open>tagged_line_parser.rs\<close>), the plan parser built on
  them (\<^verbatim>\<open>proposed_plan.rs\<close>) and the parser of assistant text, which strips citations and then plan
  blocks (\<^verbatim>\<open>assistant_text.rs\<close>).

  The parser decides about a line as soon as it cannot be a tag line any more.  \<open>ref_lines\<close> is the
  reference it is compared with: it looks at whole lines of the whole text.
\<close>

section \<open>Tag lines\<close>

record 't tag_spec =
  tag_open :: rstr
  tag_close :: rstr
  tag_value :: 't

datatype 't tagged_line_segment = SegNormal rstr | TagStart 't | TagDelta 't rstr | TagEnd 't

record 't tagged_line_parser =
  tl_specs :: "'t tag_spec list"
  tl_active_tag :: "'t option"
  tl_detect_tag :: bool
  tl_line_buffer :: rstr

definition tagged_new :: "'t tag_spec list \<Rightarrow> 't tagged_line_parser" where
  "tagged_new specs = \<lparr>tl_specs = specs, tl_active_tag = None, tl_detect_tag = True, tl_line_buffer = []\<rparr>"

definition push_segment :: "'t tagged_line_segment list \<Rightarrow> 't tagged_line_segment \<Rightarrow> 't tagged_line_segment list" where
  "push_segment segments segment =
     (case segment of
        SegNormal delta \<Rightarrow>
          if delta = [] then segments
          else (case rev segments of
                  SegNormal existing # rest \<Rightarrow> rev rest @ [SegNormal (existing @ delta)]
                | _ \<Rightarrow> segments @ [segment])
      | TagDelta tag delta \<Rightarrow>
          if delta = [] then segments
          else (case rev segments of
                  TagDelta existing_tag existing # rest \<Rightarrow>
                    if existing_tag = tag then rev rest @ [TagDelta existing_tag (existing @ delta)] else segments @ [segment]
                | _ \<Rightarrow> segments @ [segment])
      | TagStart tag \<Rightarrow> segments @ [segment]
      | TagEnd tag \<Rightarrow> segments @ [segment])"

definition tl_push_text ::
  "'t tagged_line_parser \<Rightarrow> rstr \<Rightarrow> 't tagged_line_segment list \<Rightarrow> 't tagged_line_segment list" where
  "tl_push_text p t segments =
     (case tl_active_tag p of
        Some tag \<Rightarrow> push_segment segments (TagDelta tag t)
      | None \<Rightarrow> push_segment segments (SegNormal t))"

definition is_tag_prefix :: "'t tag_spec list \<Rightarrow> rstr \<Rightarrow> bool" where
  "is_tag_prefix specs slug =
     list_ex (\<lambda>spec. starts_with (trim_end slug) (tag_open spec) \<or> starts_with (trim_end slug) (tag_close spec)) specs"

definition match_open :: "'t tag_spec list \<Rightarrow> rstr \<Rightarrow> 't option" where
  "match_open specs slug = map_option tag_value (find (\<lambda>spec. tag_open spec = slug) specs)"

definition match_close :: "'t tag_spec list \<Rightarrow> rstr \<Rightarrow> 't option" where
  "match_close specs slug = map_option tag_value (find (\<lambda>spec. tag_close spec = slug) specs)"

definition strip_newline :: "rstr \<Rightarrow> rstr" where
  "strip_newline l = (if l \<noteq> [] \<and> last l = newline then butlast l else l)"

text \<open>A whole line, at its line feed (\<^verbatim>\<open>finish_line\<close>) or at the end of the text.\<close>

definition take_line ::
  "'t tagged_line_parser \<Rightarrow> 't tagged_line_segment list \<Rightarrow> 't tagged_line_parser \<times> 't tagged_line_segment list" where
  "take_line p segments =
     (let line = tl_line_buffer p;
          p = p\<lparr>tl_line_buffer := []\<rparr>;
          slug = trim_end (trim_start (strip_newline line))
      in case (tl_active_tag p, match_open (tl_specs p) slug) of
           (None, Some tag) \<Rightarrow> (p\<lparr>tl_active_tag := Some tag\<rparr>, push_segment segments (TagStart tag))
         | (active_tag, _) \<Rightarrow>
             (case match_close (tl_specs p) slug of
                Some tag \<Rightarrow>
                  if active_tag = Some tag
                  then (p\<lparr>tl_active_tag := None\<rparr>, push_segment segments (TagEnd tag))
                  else (p, tl_push_text p line segments)
              | None \<Rightarrow> (p, tl_push_text p line segments)))"

definition finish_line ::
  "'t tagged_line_parser \<Rightarrow> 't tagged_line_segment list \<Rightarrow> 't tagged_line_parser \<times> 't tagged_line_segment list" where
  "finish_line p segments = apfst (\<lambda>p. p\<lparr>tl_detect_tag := True\<rparr>) (take_line p segments)"

fun parse_loop ::
  "'t tagged_line_parser \<Rightarrow> rstr \<Rightarrow> 't tagged_line_segment list \<Rightarrow> rstr \<Rightarrow>
   't tagged_line_parser \<times> 't tagged_line_segment list" where
  "parse_loop p run segments [] = (p, if run \<noteq> [] then tl_push_text p run segments else segments)"
| "parse_loop p run segments (c # cs) =
     (if tl_detect_tag p then
        let segments = (if run \<noteq> [] then tl_push_text p run segments else segments);
            p = p\<lparr>tl_line_buffer := tl_line_buffer p @ [c]\<rparr>
        in if c = newline then
             let (p, segments) = finish_line p segments in parse_loop p [] segments cs
           else let slug = trim_start (tl_line_buffer p) in
             if slug = [] \<or> is_tag_prefix (tl_specs p) slug then parse_loop p [] segments cs
             else let buffered = tl_line_buffer p;
                      p = p\<lparr>tl_line_buffer := [], tl_detect_tag := False\<rparr>
                  in parse_loop p [] (tl_push_text p buffered segments) cs
      else
        let run = run @ [c] in
        if c = newline then parse_loop (p\<lparr>tl_detect_tag := True\<rparr>) [] (tl_push_text p run segments) cs
        else parse_loop p run segments cs)"

definition tagged_parse ::
  "rstr \<Rightarrow> 't tagged_line_parser \<Rightarrow> 't tagged_line_segment list \<times> 't tagged_line_parser" where
  "tagged_parse delta p = (let (p, segments) = parse_loop p [] [] delta in (segments, p))"

definition tagged_finish :: "'t tagged_line_parser \<Rightarrow> 't tagged_line_segment list \<times> 't tagged_line_parser" where
  "tagged_finish p =
     (let (p, segments) = (if tl_line_buffer p \<noteq> [] then take_line p [] else (p, []));
          segments = (case tl_active_tag p of Some tag \<Rightarrow> push_segment segments (TagEnd tag) | None \<Rightarrow> segments)
      in (segments, p\<lparr>tl_active_tag := None, tl_detect_tag := True\<rparr>))"

section \<open>Proposed plans\<close>

definition OPEN_TAG :: rstr where
  "OPEN_TAG = lit ''<proposed_plan>''"

definition CLOSE_TAG :: rstr where
  "CLOSE_TAG = lit ''</proposed_plan>''"

datatype plan_tag = ProposedPlan

datatype proposed_plan_segment = PlanNormal rstr | ProposedPlanStart | ProposedPlanDelta rstr | ProposedPlanEnd

definition plan_new :: "plan_tag tagged_line_parser" where
  "plan_new = tagged_new [\<lparr>tag_open = OPEN_TAG, tag_close = CLOSE_TAG, tag_value = ProposedPlan\<rparr>]"

fun map_segment :: "plan_tag tagged_line_segment \<Rightarrow> proposed_plan_segment" where
  "map_segment (SegNormal t) = PlanNormal t"
| "map_segment (TagStart ProposedPlan) = ProposedPlanStart"
| "map_segment (TagDelta ProposedPlan t) = ProposedPlanDelta t"
| "map_segment (TagEnd ProposedPlan) = ProposedPlanEnd"

fun map_segments_loop ::
  "proposed_plan_segment stream_text_chunk \<Rightarrow> plan_tag tagged_line_segment list \<Rightarrow> proposed_plan_segment stream_text_chunk" where
  "map_segments_loop out [] = out"
| "map_segments_loop out (segment # segments) =
     (let mapped = map_segment segment;
          out = (case mapped of PlanNormal t \<Rightarrow> out\<lparr>visible_text := visible_text out @ t\<rparr> | _ \<Rightarrow> out)
      in map_segments_loop (out\<lparr>extracted := extracted out @ [mapped]\<rparr>) segments)"

definition map_segments :: "plan_tag tagged_line_segment list \<Rightarrow> proposed_plan_segment stream_text_chunk" where
  "map_segments segments = map_segments_loop empty_chunk segments"

definition plan_push_str ::
  "rstr \<Rightarrow> plan_tag tagged_line_parser \<Rightarrow> proposed_plan_segment stream_text_chunk \<times> plan_tag tagged_line_parser" where
  "plan_push_str chunk p = apfst map_segments (tagged_parse chunk p)"

definition plan_finish ::
  "plan_tag tagged_line_parser \<Rightarrow> proposed_plan_segment stream_text_chunk \<times> plan_tag tagged_line_parser" where
  "plan_finish p = apfst map_segments (tagged_finish p)"

definition strip_proposed_plan_blocks :: "rstr \<Rightarrow> rstr" where
  "strip_proposed_plan_blocks t =
     (let (out, p) = plan_push_str t plan_new in visible_text out @ visible_text (fst (plan_finish p)))"

fun plan_text_loop :: "bool \<Rightarrow> rstr \<Rightarrow> proposed_plan_segment list \<Rightarrow> bool \<times> rstr" where
  "plan_text_loop saw_plan_block plan_text [] = (saw_plan_block, plan_text)"
| "plan_text_loop saw_plan_block plan_text (ProposedPlanStart # segments) = plan_text_loop True [] segments"
| "plan_text_loop saw_plan_block plan_text (ProposedPlanDelta delta # segments) =
     plan_text_loop saw_plan_block (plan_text @ delta) segments"
| "plan_text_loop saw_plan_block plan_text (_ # segments) = plan_text_loop saw_plan_block plan_text segments"

definition extract_proposed_plan_text :: "rstr \<Rightarrow> rstr option" where
  "extract_proposed_plan_text t =
     (let (out, p) = plan_push_str t plan_new;
          (saw_plan_block, plan_text) = plan_text_loop False [] (extracted out @ extracted (fst (plan_finish p)))
      in if saw_plan_block then Some plan_text else None)"

section \<open>Assistant text\<close>

record assistant_text_chunk =
  at_visible_text :: rstr
  at_citations :: "rstr list"
  at_plan_segments :: "proposed_plan_segment list"

record assistant_text_stream_parser =
  as_plan_mode :: bool
  as_citations :: "citation_tag inline_hidden_tag_parser"
  as_plan :: "plan_tag tagged_line_parser"

definition assistant_new :: "bool \<Rightarrow> (unit, assistant_text_stream_parser) outcome" where
  "assistant_new plan_mode =
     and_then citation_new (\<lambda>c. Ok \<lparr>as_plan_mode = plan_mode, as_citations = c, as_plan = plan_new\<rparr>)"

definition parse_visible_text ::
  "rstr \<Rightarrow> assistant_text_stream_parser \<Rightarrow> assistant_text_chunk \<times> assistant_text_stream_parser" where
  "parse_visible_text visible s =
     (if \<not> as_plan_mode s then (\<lparr>at_visible_text = visible, at_citations = [], at_plan_segments = []\<rparr>, s)
      else let (plan_chunk, plan) = plan_push_str visible (as_plan s)
           in (\<lparr>at_visible_text = visible_text plan_chunk, at_citations = [], at_plan_segments = extracted plan_chunk\<rparr>,
               s\<lparr>as_plan := plan\<rparr>))"

definition assistant_push_str ::
  "rstr \<Rightarrow> assistant_text_stream_parser \<Rightarrow> (assistant_text_chunk \<times> assistant_text_stream_parser) option" where
  "assistant_push_str chunk s =
     map_option (\<lambda>(citation_chunk, c).
       let (out, s) = parse_visible_text (visible_text citation_chunk) (s\<lparr>as_citations := c\<rparr>)
       in (out\<lparr>at_citations := extracted citation_chunk\<rparr>, s)) (citation_push_str chunk (as_citations s))"

definition assistant_finish ::
  "assistant_text_stream_parser \<Rightarrow> assistant_text_chunk \<times> assistant_text_stream_parser" where
  "assistant_finish s =
     (let (citation_chunk, c) = citation_finish (as_citations s);
          (out, s) = parse_visible_text (visible_text citation_chunk) (s\<lparr>as_citations := c\<rparr>);
          (out, s) =
            (if as_plan_mode s then
               let (tail, plan) = plan_finish (as_plan s);
                   s = s\<lparr>as_plan := plan\<rparr>
               in if text_chunk_is_empty tail then (out, s)
                  else (out\<lparr>at_visible_text := at_visible_text out @ visible_text tail,
                            at_plan_segments := at_plan_segments out @ extracted tail\<rparr>, s)
             else (out, s))
      in (out\<lparr>at_citations := extracted citation_chunk\<rparr>, s))"

section \<open>What segments say\<close>

text \<open>Segments character by character: how text is cut into segments does not show.\<close>

datatype 't segment_event = OutsideChar rchar | BlockStart 't | InsideChar 't rchar | BlockEnd 't

fun segment_events :: "'t tagged_line_segment \<Rightarrow> 't segment_event list" where
  "segment_events (SegNormal t) = map OutsideChar t"
| "segment_events (TagStart g) = [BlockStart g]"
| "segment_events (TagDelta g t) = map (InsideChar g) t"
| "segment_events (TagEnd g) = [BlockEnd g]"

definition flat :: "'t tagged_line_segment list \<Rightarrow> 't segment_event list" where
  "flat segments = concat (map segment_events segments)"

definition text_events :: "'t option \<Rightarrow> rstr \<Rightarrow> 't segment_event list" where
  "text_events active t = (case active of None \<Rightarrow> map OutsideChar t | Some g \<Rightarrow> map (InsideChar g) t)"

lemma text_events_simps [simp]:
  "text_events active [] = []" "text_events active (a @ b) = text_events active a @ text_events active b"
  by (simp_all add: text_events_def split: option.splits)

lemma flat_append [simp]: "flat [] = []" "flat (a @ b) = flat a @ flat b" "flat (s # a) = segment_events s @ flat a"
  by (simp_all add: flat_def)

lemma flat_push_segment [simp]: "flat (push_segment segments s) = flat segments @ segment_events s"
proof -
  have "segments = rev rest @ [x]" if "rev segments = x # rest" for x rest
    using that by (metis rev.simps(2) rev_rev_ident)
  then show ?thesis
    by (cases s; cases "rev segments"; cases "hd (rev segments)")
       (auto simp: push_segment_def)
qed

lemma flat_push_text [simp]: "flat (tl_push_text p t segments) = flat segments @ text_events (tl_active_tag p) t"
  by (simp add: tl_push_text_def text_events_def split: option.splits)

text \<open>The events of a line, and the block it leaves open.\<close>

definition line_events :: "'t tag_spec list \<Rightarrow> 't option \<Rightarrow> rstr \<Rightarrow> 't option \<times> 't segment_event list" where
  "line_events specs active line =
     (let slug = trim_end (trim_start (strip_newline line)) in
      case (active, match_open specs slug) of
        (None, Some g) \<Rightarrow> (Some g, [BlockStart g])
      | _ \<Rightarrow> (case match_close specs slug of
                Some g \<Rightarrow> if active = Some g then (None, [BlockEnd g]) else (active, text_events active line)
              | None \<Rightarrow> (active, text_events active line)))"

lemma take_line_events:
  assumes "take_line p segments = (p', segments')"
  shows "p' = p\<lparr>tl_line_buffer := [], tl_active_tag := fst (line_events (tl_specs p) (tl_active_tag p) (tl_line_buffer p))\<rparr>
    \<and> flat segments' = flat segments @ snd (line_events (tl_specs p) (tl_active_tag p) (tl_line_buffer p))"
  using assms by (auto simp: take_line_def line_events_def Let_def split: option.splits if_splits)

section \<open>The loop without its buffer of text\<close>

fun event_loop :: "'t tagged_line_parser \<Rightarrow> rstr \<Rightarrow> 't tagged_line_parser \<times> 't segment_event list" where
  "event_loop p [] = (p, [])"
| "event_loop p (c # cs) =
     (if tl_detect_tag p then
        let buffered = tl_line_buffer p @ [c] in
        if c = newline then
          let (active, es) = line_events (tl_specs p) (tl_active_tag p) buffered
          in apsnd ((@) es) (event_loop (p\<lparr>tl_line_buffer := [], tl_active_tag := active\<rparr>) cs)
        else if trim_start buffered = [] \<or> is_tag_prefix (tl_specs p) (trim_start buffered)
        then event_loop (p\<lparr>tl_line_buffer := buffered\<rparr>) cs
        else apsnd ((@) (text_events (tl_active_tag p) buffered))
               (event_loop (p\<lparr>tl_line_buffer := [], tl_detect_tag := False\<rparr>) cs)
      else apsnd ((@) (text_events (tl_active_tag p) [c])) (event_loop (p\<lparr>tl_detect_tag := (c = newline)\<rparr>) cs))"

lemma parse_loop_events:
  assumes "parse_loop p run segments cs = (p', segments')"
  shows "p' = fst (event_loop p cs)
    \<and> flat segments' = flat segments @ text_events (tl_active_tag p) run @ snd (event_loop p cs)"
  using assms
proof (induction p run segments cs rule: parse_loop.induct)
  case (1 p run segments)
  then show ?case by auto
next
  case (2 p run segments c cs)
  let ?p = "p\<lparr>tl_line_buffer := tl_line_buffer p @ [c]\<rparr>"
  let ?segments = "if run \<noteq> [] then tl_push_text p run segments else segments"
  have run: "flat ?segments = flat segments @ text_events (tl_active_tag p) run" by simp
  consider "\<not> tl_detect_tag p" "c = newline" | "\<not> tl_detect_tag p" "c \<noteq> newline"
    | "tl_detect_tag p" "c = newline"
    | "tl_detect_tag p" "c \<noteq> newline" "trim_start (tl_line_buffer ?p) = [] \<or> is_tag_prefix (tl_specs p) (trim_start (tl_line_buffer ?p))"
    | "tl_detect_tag p" "c \<noteq> newline" "\<not> (trim_start (tl_line_buffer ?p) = [] \<or> is_tag_prefix (tl_specs p) (trim_start (tl_line_buffer ?p)))"
    by blast
  then show ?case
  proof cases
    case 1
    with 2 show ?thesis by simp
  next
    case x: 2
    with 2 show ?thesis by (cases p) simp
  next
    case 3
    obtain q segs where tl: "take_line ?p ?segments = (q, segs)" by force
    note ev = take_line_events [OF tl]
    have "parse_loop (q\<lparr>tl_detect_tag := True\<rparr>) [] segs cs = (p', segments')"
      using "2.prems" 3 tl by (simp add: finish_line_def)
    from "2.IH"(1) [OF 3(1) refl refl 3(2) _ _ this] tl have IH: "p' = fst (event_loop (q\<lparr>tl_detect_tag := True\<rparr>) cs)"
      "flat segments' = flat segs @ snd (event_loop (q\<lparr>tl_detect_tag := True\<rparr>) cs)"
      by (auto simp: finish_line_def)
    have "q\<lparr>tl_detect_tag := True\<rparr> = p\<lparr>tl_line_buffer := [],
        tl_active_tag := fst (line_events (tl_specs p) (tl_active_tag p) (tl_line_buffer ?p))\<rparr>"
      using ev 3(1) by simp
    with IH ev run 3 show ?thesis
      by (cases p) (simp add: Let_def case_prod_unfold)
  next
    case 4
    with 2 run show ?thesis by (simp add: Let_def)
  next
    case 5
    with 2 run show ?thesis by (simp add: Let_def)
  qed
qed

lemma event_loop_append:
  "event_loop p (a @ b) =
     (let (p1, e1) = event_loop p a; (p2, e2) = event_loop p1 b in (p2, e1 @ e2))"
proof (induction a arbitrary: p)
  case (Cons c cs)
  then show ?case by (simp add: Let_def case_prod_unfold apsnd_def map_prod_def)
qed (simp add: case_prod_unfold)

section \<open>The cut into chunks\<close>

fun plan_events :: "proposed_plan_segment \<Rightarrow> plan_tag segment_event list" where
  "plan_events (PlanNormal t) = map OutsideChar t"
| "plan_events ProposedPlanStart = [BlockStart ProposedPlan]"
| "plan_events (ProposedPlanDelta t) = map (InsideChar ProposedPlan) t"
| "plan_events ProposedPlanEnd = [BlockEnd ProposedPlan]"

definition plan_flat :: "proposed_plan_segment list \<Rightarrow> plan_tag segment_event list" where
  "plan_flat segments = concat (map plan_events segments)"

fun outside_text :: "'t segment_event list \<Rightarrow> rstr" where
  "outside_text [] = []"
| "outside_text (OutsideChar c # es) = c # outside_text es"
| "outside_text (_ # es) = outside_text es"

lemma outside_text_append [simp]: "outside_text (a @ b) = outside_text a @ outside_text b"
  by (induction a rule: outside_text.induct) simp_all

lemma outside_text_map [simp]: "outside_text (map OutsideChar t) = t" "outside_text (map (InsideChar g) t) = []"
  by (induction t) simp_all

lemma plan_tag_eq [simp]: "(g :: plan_tag) = ProposedPlan"
  by (cases g) simp

lemma plan_flat_append [simp]: "plan_flat [] = []" "plan_flat (a @ b) = plan_flat a @ plan_flat b"
  by (simp_all add: plan_flat_def)

lemma map_segments_flat:
  "plan_flat (extracted (map_segments segs)) = flat segs" "visible_text (map_segments segs) = outside_text (flat segs)"
proof -
  have "plan_events (map_segment s) = segment_events s" for s
    by (induction s rule: map_segment.induct) simp_all
  then have "plan_flat (extracted (map_segments_loop out segs)) = plan_flat (extracted out) @ flat segs
      \<and> visible_text (map_segments_loop out segs) = visible_text out @ outside_text (flat segs)" for out
  proof (induction segs arbitrary: out)
    case (Cons s segs)
    then show ?case
      by (cases s rule: map_segment.cases) (simp_all add: Let_def plan_flat_def)
  qed simp
  then show "plan_flat (extracted (map_segments segs)) = flat segs" "visible_text (map_segments segs) = outside_text (flat segs)"
    by (simp_all add: map_segments_def)
qed

lemma plan_push_events:
  "snd (plan_push_str t p) = fst (event_loop p t)"
  "plan_flat (extracted (fst (plan_push_str t p))) = snd (event_loop p t)"
  "visible_text (fst (plan_push_str t p)) = outside_text (snd (event_loop p t))"
  using parse_loop_events [of p "[]" "[]" t "fst (parse_loop p [] [] t)" "snd (parse_loop p [] [] t)"]
  by (simp_all add: plan_push_str_def tagged_parse_def case_prod_unfold map_segments_flat)

interpretation plan: stream_text_parser plan_push_str plan_finish "\<lambda>_. True" plan_flat
proof unfold_locales
  fix p :: "plan_tag tagged_line_parser"
  show "plan_push_str [] p = (empty_chunk, p)"
    by (simp add: plan_push_str_def tagged_parse_def map_segments_def)
qed (simp_all add: plan_push_events event_loop_append case_prod_unfold Let_def)

section \<open>Whole lines\<close>

fun split_lines :: "rstr \<Rightarrow> rstr list" where
  "split_lines [] = []"
| "split_lines (c # cs) =
     (if c = newline then [newline] # split_lines cs
      else case split_lines cs of [] \<Rightarrow> [[c]] | l # ls \<Rightarrow> (c # l) # ls)"

fun ref_lines :: "'t tag_spec list \<Rightarrow> 't option \<Rightarrow> rstr list \<Rightarrow> 't option \<times> 't segment_event list" where
  "ref_lines specs active [] = (active, [])"
| "ref_lines specs active (l # ls) =
     (let (active, es) = line_events specs active l in apsnd ((@) es) (ref_lines specs active ls))"

definition ref_events :: "'t tag_spec list \<Rightarrow> rstr \<Rightarrow> 't segment_event list" where
  "ref_events specs t =
     (let (active, es) = ref_lines specs None (split_lines t)
      in es @ (case active of Some g \<Rightarrow> [BlockEnd g] | None \<Rightarrow> []))"

text \<open>A beginning of a tag line is never ruled out.\<close>

lemma trim_end_ws: "s = trim_end s @ drop (length (trim_end s)) s \<and> list_all is_whitespace (drop (length (trim_end s)) s)"
proof -
  have "s = rev (dropWhile is_whitespace (rev s)) @ rev (takeWhile is_whitespace (rev s))"
    by (metis rev_append rev_rev_ident takeWhile_dropWhile_id)
  then show ?thesis
    unfolding trim_end_def by (metis append_eq_conv_conj list_all_rev list_all_iff set_takeWhileD set_rev)
qed

lemma trim_end_last: "trim_end s \<noteq> [] \<Longrightarrow> \<not> is_whitespace (last (trim_end s))"
  by (simp add: trim_end_def last_rev hd_dropWhile)

lemma trim_end_prefix:
  assumes "prefix x y"
  shows "prefix (trim_end x) (trim_end y)"
proof (cases "trim_end x = []")
  case False
  have "prefix (trim_end x) x" using trim_end_ws [of x] by (metis prefixI)
  then have x: "prefix (trim_end x) y" using assms by (rule prefix_order.trans)
  have y: "y = trim_end y @ drop (length (trim_end y)) y" "list_all is_whitespace (drop (length (trim_end y)) y)"
    using trim_end_ws [of y] by blast+
  show ?thesis
  proof (rule ccontr)
    assume np: "\<not> prefix (trim_end x) (trim_end y)"
    have py: "prefix (trim_end y) y" using y(1) by (metis prefixI)
    have "prefix (trim_end y) (trim_end x)" using prefix_same_cases [OF py x] np by simp
    then obtain z where z0: "trim_end x = trim_end y @ z" by (auto simp: prefix_def)
    with np have "z \<noteq> []" by auto
    with z0 have z: "trim_end x = trim_end y @ z" "z \<noteq> []" by simp_all
    have "prefix z (drop (length (trim_end y)) y)"
      using x y(1) z(1) by (metis same_prefix_prefix)
    then have "is_whitespace (last z)"
      using y(2) last_in_set [OF z(2)] set_mono_prefix [of z] unfolding list_all_iff by blast
    moreover have "last z = last (trim_end x)" using z by simp
    ultimately show False using trim_end_last [OF False] by simp
  qed
qed simp

lemma trim_start_prefix: "prefix x y \<Longrightarrow> trim_start x \<noteq> [] \<Longrightarrow> prefix (trim_start x) (trim_start y)"
  by (auto simp: trim_start_def prefix_def dropWhile_append1 dropWhile_eq_Nil_conv)

lemma tag_line_not_ruled_out:
  assumes "prefix x l" "trim_start x \<noteq> []"
    and "match_open specs (trim_end (trim_start l)) \<noteq> None \<or> match_close specs (trim_end (trim_start l)) \<noteq> None"
  shows "is_tag_prefix specs (trim_start x)"
proof -
  have "prefix (trim_end (trim_start x)) (trim_end (trim_start l))"
    using assms(1,2) by (intro trim_end_prefix trim_start_prefix)
  moreover have "\<exists>spec \<in> set specs. tag_open spec = trim_end (trim_start l) \<or> tag_close spec = trim_end (trim_start l)"
    using assms(3) unfolding match_open_def match_close_def option.map_disc_iff find_None_iff by blast
  ultimately show ?thesis
    unfolding is_tag_prefix_def list_ex_iff starts_with_iff by metis
qed

lemma ruled_out_text:
  assumes "prefix x (strip_newline l)" "trim_start x \<noteq> []" "\<not> is_tag_prefix specs (trim_start x)"
  shows "line_events specs active l = (active, text_events active l)"
proof -
  have "match_open specs (trim_end (trim_start (strip_newline l))) = None"
    "match_close specs (trim_end (trim_start (strip_newline l))) = None"
    using tag_line_not_ruled_out [OF assms(1,2)] assms(3) by blast+
  then show ?thesis by (simp add: line_events_def Let_def split: option.splits)
qed

text \<open>
  Reading one line from its start, or from what is buffered of it: a line with its line feed gives the
  events of the line; the rest of a text without one is buffered, or already given as text.
\<close>

definition line_start :: "'t tag_spec list \<Rightarrow> 't option \<Rightarrow> rstr \<Rightarrow> 't tagged_line_parser" where
  "line_start specs active buffered =
     \<lparr>tl_specs = specs, tl_active_tag = active, tl_detect_tag = True, tl_line_buffer = buffered\<rparr>"

definition mid_line :: "'t tag_spec list \<Rightarrow> 't option \<Rightarrow> 't tagged_line_parser" where
  "mid_line specs active =
     \<lparr>tl_specs = specs, tl_active_tag = active, tl_detect_tag = False, tl_line_buffer = []\<rparr>"

lemma event_loop_mid_line:
  assumes "newline \<notin> set w"
  shows "event_loop (mid_line specs active) w = (mid_line specs active, text_events active w)"
    and "event_loop (mid_line specs active) (w @ [newline]) = (line_start specs active [], text_events active (w @ [newline]))"
proof -
  have one: "text_events active [c] @ text_events active w = text_events active (c # w)" for c w
    using text_events_simps(2) [of active "[c]" w] by simp
  show "event_loop (mid_line specs active) w = (mid_line specs active, text_events active w)"
    using assms by (induction w) (auto simp: mid_line_def one)
  then show "event_loop (mid_line specs active) (w @ [newline]) = (line_start specs active [], text_events active (w @ [newline]))"
    by (simp add: event_loop_append) (simp add: mid_line_def line_start_def)
qed

lemma strip_newline_snoc [simp]: "strip_newline (w @ [newline]) = w"
  by (simp add: strip_newline_def)

lemma strip_newline_none: "newline \<notin> set w \<Longrightarrow> strip_newline w = w"
  by (metis last_in_set strip_newline_def)

lemma event_loop_line:
  assumes "newline \<notin> set w"
  shows "event_loop (line_start specs active u) (w @ [newline]) =
      (let (active', es) = line_events specs active (u @ w @ [newline]) in (line_start specs active' [], es))"
  using assms
proof (induction w arbitrary: u)
  case Nil
  show ?case by (simp add: line_start_def case_prod_unfold)
next
  case (Cons c w)
  show ?case
  proof (cases "trim_start (u @ [c]) = [] \<or> is_tag_prefix specs (trim_start (u @ [c]))")
    case True
    then have "event_loop (line_start specs active u) ((c # w) @ [newline]) =
        event_loop (line_start specs active (u @ [c])) (w @ [newline])"
      using Cons.prems by (auto simp: line_start_def)
    with Cons show ?thesis by simp
  next
    case False
    then have step: "event_loop (line_start specs active u) ((c # w) @ [newline]) =
        apsnd ((@) (text_events active (u @ [c]))) (event_loop (mid_line specs active) (w @ [newline]))"
      using Cons.prems by (auto simp: line_start_def mid_line_def)
    have "strip_newline (u @ (c # w) @ [newline]) = (u @ [c]) @ w"
      using strip_newline_snoc [of "u @ c # w"] by simp
    then have "line_events specs active (u @ (c # w) @ [newline]) = (active, text_events active (u @ (c # w) @ [newline]))"
      using False by (intro ruled_out_text [of "u @ [c]"]) auto
    moreover have "text_events active (u @ [c]) @ text_events active (w @ [newline]) = text_events active (u @ (c # w) @ [newline])"
      by (simp only: text_events_simps(2) [symmetric]) simp
    moreover have "event_loop (mid_line specs active) (w @ [newline]) = (line_start specs active [], text_events active (w @ [newline]))"
      using Cons.prems by (intro event_loop_mid_line) simp
    ultimately show ?thesis
      by (simp only: step) (simp add: Let_def)
  qed
qed

lemma event_loop_rest:
  assumes "newline \<notin> set (u @ w)" "u @ w \<noteq> []"
  shows "event_loop (line_start specs active u) w = (line_start specs active (u @ w), []) \<or>
    event_loop (line_start specs active u) w = (mid_line specs active, text_events active (u @ w)) \<and>
      line_events specs active (u @ w) = (active, text_events active (u @ w))"
  using assms
proof (induction w arbitrary: u)
  case (Cons c w)
  show ?case
  proof (cases "trim_start (u @ [c]) = [] \<or> is_tag_prefix specs (trim_start (u @ [c]))")
    case True
    then have "event_loop (line_start specs active u) (c # w) = event_loop (line_start specs active (u @ [c])) w"
      using Cons.prems by (auto simp: line_start_def)
    with Cons.IH [of "u @ [c]"] Cons.prems show ?thesis by simp
  next
    case False
    then have "event_loop (line_start specs active u) (c # w) =
        apsnd ((@) (text_events active (u @ [c]))) (event_loop (mid_line specs active) w)"
      using Cons.prems by (auto simp: line_start_def mid_line_def)
    moreover have "line_events specs active (u @ c # w) = (active, text_events active (u @ c # w))"
      using False Cons.prems by (intro ruled_out_text [of "u @ [c]"]) (simp_all add: strip_newline_none)
    moreover have "text_events active (u @ [c]) @ text_events active w = text_events active (u @ c # w)"
      by (simp only: text_events_simps(2) [symmetric]) simp
    ultimately show ?thesis
      using Cons.prems by (simp add: event_loop_mid_line(1))
  qed
qed simp

lemma split_lines_cases:
  "split_lines t = [] \<and> t = [] \<or>
   (\<exists>w rest. t = w @ newline # rest \<and> newline \<notin> set w \<and> split_lines t = (w @ [newline]) # split_lines rest) \<or>
   newline \<notin> set t \<and> t \<noteq> [] \<and> split_lines t = [t]"
proof (induction t)
  case (Cons c t)
  show ?case
  proof (cases "c = newline")
    case True
    then have "c # t = [] @ newline # t \<and> newline \<notin> set [] \<and> split_lines (c # t) = ([] @ [newline]) # split_lines t" by simp
    then show ?thesis by blast
  next
    case False
    from Cons.IH show ?thesis
    proof (elim disjE exE conjE)
      fix w rest assume "t = w @ newline # rest" "newline \<notin> set w" "split_lines t = (w @ [newline]) # split_lines rest"
      with False have "c # t = (c # w) @ newline # rest \<and> newline \<notin> set (c # w) \<and>
          split_lines (c # t) = ((c # w) @ [newline]) # split_lines rest" by simp
      then show ?thesis by blast
    qed (use False in simp_all)
  qed
qed simp

text \<open>The events of a finished parse, from the start of a line.\<close>

definition finish_events :: "'t tagged_line_parser \<Rightarrow> 't segment_event list" where
  "finish_events p =
     (let (active, es) = (if tl_line_buffer p \<noteq> [] then line_events (tl_specs p) (tl_active_tag p) (tl_line_buffer p)
                          else (tl_active_tag p, []))
      in es @ (case active of Some g \<Rightarrow> [BlockEnd g] | None \<Rightarrow> []))"

lemma tagged_finish_events: "flat (fst (tagged_finish p)) = finish_events p"
proof (cases "tl_line_buffer p = []")
  case True
  then show ?thesis by (simp add: tagged_finish_def finish_events_def split: option.splits)
next
  case False
  obtain p' segs where tl: "take_line p [] = (p', segs)" by force
  with False take_line_events [OF tl] show ?thesis
    by (simp add: tagged_finish_def finish_events_def case_prod_unfold Let_def split: option.splits)
qed

lemma event_loop_ref:
  "(let (p, es) = event_loop (line_start specs active []) t in es @ finish_events p) =
   (let (active', es) = ref_lines specs active (split_lines t)
    in es @ (case active' of Some g \<Rightarrow> [BlockEnd g] | None \<Rightarrow> []))"
proof (induction "length t" arbitrary: t active rule: less_induct)
  case less
  consider "t = []" "split_lines t = []"
    | w rest where "t = w @ newline # rest" "newline \<notin> set w" "split_lines t = (w @ [newline]) # split_lines rest"
    | "newline \<notin> set t" "t \<noteq> []" "split_lines t = [t]"
    using split_lines_cases [of t] by blast
  then show ?case
  proof cases
    case 1
    then show ?thesis by (simp add: finish_events_def line_start_def)
  next
    case 2
    obtain a es where le: "line_events specs active (w @ [newline]) = (a, es)" by force
    have "event_loop (line_start specs active []) t =
        apsnd ((@) es) (event_loop (line_start specs a []) rest)"
      using event_loop_append [of "line_start specs active []" "w @ [newline]" rest]
        event_loop_line [OF 2(2), of specs active "[]"] le
      by (simp add: 2(1) case_prod_unfold Let_def apsnd_def map_prod_def)
    moreover have "length rest < length t" using 2(1) by simp
    ultimately show ?thesis
      using less.hyps [of rest a] le 2(3) by (simp add: case_prod_unfold Let_def)
  next
    case 3
    then have rest: "event_loop (line_start specs active []) t = (line_start specs active t, []) \<or>
        event_loop (line_start specs active []) t = (mid_line specs active, text_events active t) \<and>
        line_events specs active t = (active, text_events active t)"
      using event_loop_rest [of "[]" t specs active] by simp
    then show ?thesis
      using 3 by (auto simp: finish_events_def line_start_def mid_line_def case_prod_unfold Let_def)
  qed
qed

text \<open>
  (C18) However a text is cut into chunks, the segments the parser gives, with those of its end, are those
  of the whole lines of the text: a line that holds only an opening tag outside a block starts one, a
  line that holds only its closing tag ends it, every other line is text of the block it is in, and a
  block still open at the end is closed.
\<close>

theorem tagged_lines_match_reference:
  "(let (p, segments) = fold (\<lambda>chunk (p, segments). let (s, p) = tagged_parse chunk p in (p, segments @ s))
        chunks (tagged_new specs, [])
    in flat (segments @ fst (tagged_finish p))) = ref_events specs (concat chunks)"
proof -
  have parse: "flat (fst (tagged_parse chunk p)) = snd (event_loop p chunk)" "snd (tagged_parse chunk p) = fst (event_loop p chunk)"
    for chunk and p :: "'a tagged_line_parser"
    using parse_loop_events [of p "[]" "[]" chunk "fst (parse_loop p [] [] chunk)" "snd (parse_loop p [] [] chunk)"]
    by (simp_all add: tagged_parse_def case_prod_unfold)
  have all: "fst (fold (\<lambda>chunk (p, segments). let (s, p) = tagged_parse chunk p in (p, segments @ s)) chunks (p, segments)) =
        fst (event_loop p (concat chunks)) \<and>
      flat (snd (fold (\<lambda>chunk (p, segments). let (s, p) = tagged_parse chunk p in (p, segments @ s)) chunks (p, segments))) =
        flat segments @ snd (event_loop p (concat chunks))" for p :: "'a tagged_line_parser" and segments
    by (induction chunks arbitrary: p segments) (simp_all add: case_prod_unfold parse event_loop_append Let_def)
  have "tagged_new specs = line_start specs None []" by (simp add: tagged_new_def line_start_def)
  with all [of "tagged_new specs" "[]"] event_loop_ref [of specs None "concat chunks"] show ?thesis
    by (simp add: case_prod_unfold Let_def tagged_finish_events ref_events_def)
qed

section \<open>Plans\<close>

text \<open>Blocks are never nested, text is in the block it belongs to, and every block ends.\<close>

fun run_blocks :: "'t option \<Rightarrow> 't segment_event list \<Rightarrow> 't option option" where
  "run_blocks active [] = Some active"
| "run_blocks active (OutsideChar c # es) = (if active = None then run_blocks active es else None)"
| "run_blocks active (InsideChar g c # es) = (if active = Some g then run_blocks active es else None)"
| "run_blocks active (BlockStart g # es) = (if active = None then run_blocks (Some g) es else None)"
| "run_blocks active (BlockEnd g # es) = (if active = Some g then run_blocks None es else None)"

lemma run_blocks_append:
  "run_blocks active (a @ b) = Option.bind (run_blocks active a) (\<lambda>active. run_blocks active b)"
  by (induction active a rule: run_blocks.induct) auto

lemma run_blocks_text [simp]: "run_blocks active (text_events active t) = Some active"
  by (induction t) (auto simp: text_events_def split: option.splits)

lemma run_blocks_line: "run_blocks active (snd (line_events specs active l)) = Some (fst (line_events specs active l))"
  by (auto simp: line_events_def Let_def split: option.splits)

lemma run_blocks_lines: "run_blocks active (snd (ref_lines specs active ls)) = Some (fst (ref_lines specs active ls))"
  by (induction ls arbitrary: active) (auto simp: run_blocks_append run_blocks_line case_prod_unfold Let_def)

lemma ref_events_blocks: "run_blocks None (ref_events specs t) = Some None"
  using run_blocks_lines [of None specs "split_lines t"]
  by (auto simp: ref_events_def case_prod_unfold Let_def run_blocks_append split: option.splits)

definition plan_specs :: "plan_tag tag_spec list" where
  "plan_specs = [\<lparr>tag_open = OPEN_TAG, tag_close = CLOSE_TAG, tag_value = ProposedPlan\<rparr>]"

fun last_block :: "rstr option \<Rightarrow> 't segment_event list \<Rightarrow> rstr option" where
  "last_block acc [] = acc"
| "last_block acc (BlockStart g # es) = last_block (Some []) es"
| "last_block acc (InsideChar g c # es) = last_block (map_option (\<lambda>t. t @ [c]) acc) es"
| "last_block acc (_ # es) = last_block acc es"

lemma last_block_append: "last_block acc (a @ b) = last_block (last_block acc a) b"
  by (induction acc a rule: last_block.induct) simp_all

lemma last_block_text [simp]:
  "last_block acc (map OutsideChar t) = acc" "last_block acc (map (InsideChar g) t) = map_option (\<lambda>u. u @ t) acc"
  by (induction t arbitrary: acc) (auto simp: option.map_comp comp_def option.map_ident)

lemma plan_text_loop_last:
  assumes "plan_text_loop saw t segs = (saw', t')"
  shows "(if saw' then Some t' else None) = last_block (if saw then Some t else None) (plan_flat segs)"
  using assms
  by (induction saw t segs rule: plan_text_loop.induct)
     (auto simp: plan_flat_def last_block_append split: if_splits)

lemma plan_whole_events:
  "plan_flat (extracted (fst (plan_push_str t plan_new)) @ extracted (fst (plan_finish (snd (plan_push_str t plan_new)))))
     = ref_events plan_specs t"
  "visible_text (fst (plan_push_str t plan_new)) @ visible_text (fst (plan_finish (snd (plan_push_str t plan_new))))
     = outside_text (ref_events plan_specs t)"
proof -
  have new: "plan_new = line_start plan_specs None []"
    by (simp add: plan_new_def tagged_new_def line_start_def plan_specs_def)
  have fin: "plan_flat (extracted (fst (plan_finish p))) = finish_events p"
    "visible_text (fst (plan_finish p)) = outside_text (finish_events p)" for p
    by (simp_all add: plan_finish_def map_segments_flat tagged_finish_events)
  have ref: "snd (event_loop plan_new t) @ finish_events (fst (event_loop plan_new t)) = ref_events plan_specs t"
    using event_loop_ref [of plan_specs None t] by (simp add: new ref_events_def case_prod_unfold Let_def)
  show "plan_flat (extracted (fst (plan_push_str t plan_new)) @ extracted (fst (plan_finish (snd (plan_push_str t plan_new)))))
     = ref_events plan_specs t"
    by (simp add: plan_push_events fin ref)
  show "visible_text (fst (plan_push_str t plan_new)) @ visible_text (fst (plan_finish (snd (plan_push_str t plan_new))))
     = outside_text (ref_events plan_specs t)"
    by (simp add: plan_push_events fin ref [symmetric])
qed

text \<open>
  The stripped text is the text outside the plan blocks, the extracted plan is the text of the last
  block, if there is one, and the blocks are well formed.
\<close>

theorem plan_helpers_match_reference:
  "strip_proposed_plan_blocks t = outside_text (ref_events plan_specs t)
   \<and> extract_proposed_plan_text t = last_block None (ref_events plan_specs t)
   \<and> run_blocks None (ref_events plan_specs t) = Some None"
proof -
  have "extract_proposed_plan_text t = last_block None (ref_events plan_specs t)"
    using plan_text_loop_last [of False "[]" "extracted (fst (plan_push_str t plan_new)) @
        extracted (fst (plan_finish (snd (plan_push_str t plan_new))))"] plan_whole_events(1) [of t]
    by (auto simp: extract_proposed_plan_text_def case_prod_unfold Let_def)
  then show ?thesis
    using plan_whole_events(2) [of t] ref_events_blocks
    by (simp add: strip_proposed_plan_blocks_def case_prod_unfold)
qed

section \<open>Assistant text in chunks\<close>

definition at_append :: "assistant_text_chunk \<Rightarrow> assistant_text_chunk \<Rightarrow> assistant_text_chunk" where
  "at_append c d = \<lparr>at_visible_text = at_visible_text c @ at_visible_text d,
     at_citations = at_citations c @ at_citations d, at_plan_segments = at_plan_segments c @ at_plan_segments d\<rparr>"

fun assistant_push_all ::
  "rstr list \<Rightarrow> assistant_text_stream_parser \<Rightarrow> (assistant_text_chunk \<times> assistant_text_stream_parser) option" where
  "assistant_push_all [] s = Some (\<lparr>at_visible_text = [], at_citations = [], at_plan_segments = []\<rparr>, s)"
| "assistant_push_all (chunk # chunks) s =
     Option.bind (assistant_push_str chunk s) (\<lambda>(out, s).
       map_option (apfst (at_append out)) (assistant_push_all chunks s))"

definition at_agrees :: "assistant_text_chunk \<Rightarrow> assistant_text_chunk \<Rightarrow> bool" where
  "at_agrees c d \<longleftrightarrow> at_visible_text c = at_visible_text d \<and> at_citations c = at_citations d
     \<and> plan_flat (at_plan_segments c) = plan_flat (at_plan_segments d)"

lemma at_agrees_append: "at_agrees c c' \<Longrightarrow> at_agrees d d' \<Longrightarrow> at_agrees (at_append c d) (at_append c' d')"
  by (simp add: at_agrees_def at_append_def)

lemma at_agrees_trans: "at_agrees c d \<Longrightarrow> at_agrees d e \<Longrightarrow> at_agrees c e"
  by (simp add: at_agrees_def)

lemma assistant_push_eq:
  fixes chunk s
  assumes "inline_inv (as_citations s)"
  defines "cited \<equiv> the (citation_push_str chunk (as_citations s))"
  shows "assistant_push_str chunk s =
    (let v = visible_text (fst cited); planned = plan_push_str v (as_plan s) in
     if as_plan_mode s
     then Some (\<lparr>at_visible_text = visible_text (fst planned), at_citations = extracted (fst cited),
                at_plan_segments = extracted (fst planned)\<rparr>,
               \<lparr>as_plan_mode = True, as_citations = snd cited, as_plan = snd planned\<rparr>)
     else Some (\<lparr>at_visible_text = v, at_citations = extracted (fst cited), at_plan_segments = []\<rparr>,
               \<lparr>as_plan_mode = False, as_citations = snd cited, as_plan = as_plan s\<rparr>))"
proof -
  obtain r where "citation_push_str chunk (as_citations s) = Some r"
    using assms(1) inline_push_total [of "as_citations s" chunk] by (auto simp: inline_inv_def citation_push_str_def)
  then show ?thesis
    by (cases s) (simp add: assistant_push_str_def parse_visible_text_def cited_def case_prod_unfold Let_def)
qed

text \<open>Two chunks, and their concatenation.\<close>

lemma assistant_push_push:
  assumes "inline_inv (as_citations s)"
  shows "\<exists>o1 s1 o2 s2 w. assistant_push_str a s = Some (o1, s1) \<and> inline_inv (as_citations s1)
    \<and> assistant_push_str b s1 = Some (o2, s2) \<and> assistant_push_str (a @ b) s = Some (w, s2)
    \<and> at_agrees (at_append o1 o2) w"
proof -
  let ?push = "\<lambda>chunk p. the (citation_push_str chunk p)"
  define c1 where "c1 = ?push a (as_citations s)"
  have inv: "inline_inv (snd c1)" unfolding c1_def by (rule citation_laws(1) [OF assms])
  have whole: "?push (a @ b) (as_citations s) = (chunk_append (fst c1) (fst (?push b (snd c1))), snd (?push b (snd c1)))"
    unfolding c1_def by (rule citation_laws(3) [OF assms])
  show ?thesis
  proof (cases "as_plan_mode s")
    case True
    let ?v1 = "visible_text (fst c1)" and ?v2 = "visible_text (fst (?push b (snd c1)))"
    have "plan.agrees (chunk_append (fst (plan_push_str ?v1 (as_plan s))) (fst (plan_push_str ?v2 (snd (plan_push_str ?v1 (as_plan s))))))
        (fst (plan_push_str (?v1 @ ?v2) (as_plan s)))"
      by (rule plan.push_push_agrees) simp
    with True inv whole assms plan.push_state [where s = "as_plan s" and a = ?v1 and b = ?v2] show ?thesis
      by (simp add: assistant_push_eq Let_def c1_def [symmetric] at_agrees_def at_append_def plan.agrees_def)
  next
    case False
    with inv whole assms show ?thesis
      by (simp add: assistant_push_eq Let_def c1_def [symmetric] at_agrees_def at_append_def)
  qed
qed

lemma assistant_push_nil:
  assumes "inline_inv (as_citations s)"
  shows "assistant_push_str [] s = Some (\<lparr>at_visible_text = [], at_citations = [], at_plan_segments = []\<rparr>, s)"
  using assms by (cases s) (simp add: assistant_push_eq citation_laws(2) Let_def plan.push_nil)

lemma assistant_push_all_whole:
  assumes "inline_inv (as_citations s)"
  shows "\<exists>out w s'. assistant_push_all chunks s = Some (out, s') \<and> assistant_push_str (concat chunks) s = Some (w, s')
    \<and> at_agrees out w"
  using assms
proof (induction chunks arbitrary: s)
  case Nil
  then show ?case by (simp add: assistant_push_nil at_agrees_def)
next
  case (Cons chunk chunks)
  from assistant_push_push [OF Cons.prems, of chunk "concat chunks"]
  obtain o1 s1 o2 s2 w where step: "assistant_push_str chunk s = Some (o1, s1)" "inline_inv (as_citations s1)"
    "assistant_push_str (concat chunks) s1 = Some (o2, s2)" "assistant_push_str (chunk @ concat chunks) s = Some (w, s2)"
    "at_agrees (at_append o1 o2) w"
    by blast
  from Cons.IH [OF step(2)] step(3) obtain out where
    "assistant_push_all chunks s1 = Some (out, s2)" "at_agrees out o2"
    by auto
  with step at_agrees_append [of o1 o1 out o2] at_agrees_trans show ?case
    by (auto simp: at_agrees_def [of o1 o1])
qed

text \<open>
  Assistant text in chunks: however it is cut, the visible text, the citations and the plan segments,
  read character by character, are those of the whole text, and the parser ends in the same state.
\<close>

theorem assistant_text_any_split:
  "\<exists>s out w s'. assistant_new plan_mode = Ok s \<and> assistant_push_all chunks s = Some (out, s')
    \<and> assistant_push_str (concat chunks) s = Some (w, s')
    \<and> at_visible_text out = at_visible_text w \<and> at_citations out = at_citations w
    \<and> plan_flat (at_plan_segments out) = plan_flat (at_plan_segments w)"
  using assistant_push_all_whole [of "\<lparr>as_plan_mode = plan_mode, as_citations = citation_start, as_plan = plan_new\<rparr>" chunks]
    citation_start_inv
  by (auto simp: assistant_new_def citation_new_Ok at_agrees_def)

end
