(* ===== verification/Net_Host.thy ===== *)
theory Net_Host
  imports Absolute_Path "HOL-Library.Word" "HOL-Library.Monad_Syntax"
begin

unbundle bit_operations_syntax

text \<open>
  Hosts, addresses and domain patterns of the network proxy
  (\<^verbatim>\<open>network-proxy/src/policy.rs\<close>).  The first section is the part of \<^verbatim>\<open>std::net\<close> the file
  uses: addresses at their machine width, the parser behind \<^verbatim>\<open>str::parse::<IpAddr>\<close> and the
  classification methods.  Then the classification of addresses that must not be reached
  (\<open>is_non_public_ip\<close>), the normalisation of hosts, and the patterns of the allow and deny
  lists.

  Shown here: the mask arithmetic of \<open>ipv4_in_cidr\<close> is membership in the block, the IPv4
  classification is exactly a table of address ranges and reaches through IPv6 addresses that
  embed IPv4 ones, normalised hosts are lower case without a final dot, and the comparison of
  patterns used for managed constraints is inclusion of the sets of host names they stand for.
\<close>

section \<open>Addresses of the standard library\<close>

datatype ipv4_addr = Ipv4Addr "8 word" "8 word" "8 word" "8 word"

datatype ipv6_addr =
  Ipv6Addr "16 word" "16 word" "16 word" "16 word" "16 word" "16 word" "16 word" "16 word"

datatype ip_addr = V4 ipv4_addr | V6 ipv6_addr

text \<open>\<^verbatim>\<open>u32::from(Ipv4Addr)\<close>: the octets in network order.\<close>

fun ipv4_bits :: "ipv4_addr \<Rightarrow> 32 word" where
  "ipv4_bits (Ipv4Addr a b c d) = ((ucast a * 256 + ucast b) * 256 + ucast c) * 256 + ucast d"

fun ipv4_is_loopback :: "ipv4_addr \<Rightarrow> bool" where
  "ipv4_is_loopback (Ipv4Addr a b c d) \<longleftrightarrow> a = 127"

fun ipv4_is_private :: "ipv4_addr \<Rightarrow> bool" where
  "ipv4_is_private (Ipv4Addr a b c d) \<longleftrightarrow>
     a = 10 \<or> a = 172 \<and> 16 \<le> b \<and> b \<le> 31 \<or> a = 192 \<and> b = 168"

fun ipv4_is_link_local :: "ipv4_addr \<Rightarrow> bool" where
  "ipv4_is_link_local (Ipv4Addr a b c d) \<longleftrightarrow> a = 169 \<and> b = 254"

fun ipv4_is_unspecified :: "ipv4_addr \<Rightarrow> bool" where
  "ipv4_is_unspecified (Ipv4Addr a b c d) \<longleftrightarrow> a = 0 \<and> b = 0 \<and> c = 0 \<and> d = 0"

fun ipv4_is_multicast :: "ipv4_addr \<Rightarrow> bool" where
  "ipv4_is_multicast (Ipv4Addr a b c d) \<longleftrightarrow> 224 \<le> a \<and> a \<le> 239"

fun ipv4_is_broadcast :: "ipv4_addr \<Rightarrow> bool" where
  "ipv4_is_broadcast (Ipv4Addr a b c d) \<longleftrightarrow> a = 255 \<and> b = 255 \<and> c = 255 \<and> d = 255"

text \<open>\<^verbatim>\<open>Ipv6Addr::to_ipv4\<close> reads IPv4-mapped and IPv4-compatible addresses, \<^verbatim>\<open>::1\<close> and \<^verbatim>\<open>::\<close> too.\<close>

definition octets_of :: "16 word \<Rightarrow> 16 word \<Rightarrow> ipv4_addr" where
  "octets_of ab cd =
     Ipv4Addr (ucast (drop_bit 8 ab)) (ucast ab) (ucast (drop_bit 8 cd)) (ucast cd)"

fun to_ipv4 :: "ipv6_addr \<Rightarrow> ipv4_addr option" where
  "to_ipv4 (Ipv6Addr s0 s1 s2 s3 s4 s5 ab cd) =
     (if s0 = 0 \<and> s1 = 0 \<and> s2 = 0 \<and> s3 = 0 \<and> s4 = 0 \<and> (s5 = 0 \<or> s5 = 0xffff)
      then Some (octets_of ab cd) else None)"

definition ipv6_is_loopback :: "ipv6_addr \<Rightarrow> bool" where
  "ipv6_is_loopback ip \<longleftrightarrow> ip = Ipv6Addr 0 0 0 0 0 0 0 1"

definition ipv6_is_unspecified :: "ipv6_addr \<Rightarrow> bool" where
  "ipv6_is_unspecified ip \<longleftrightarrow> ip = Ipv6Addr 0 0 0 0 0 0 0 0"

fun first_segment :: "ipv6_addr \<Rightarrow> 16 word" where
  "first_segment (Ipv6Addr s0 s1 s2 s3 s4 s5 s6 s7) = s0"

definition ipv6_is_multicast :: "ipv6_addr \<Rightarrow> bool" where
  "ipv6_is_multicast ip \<longleftrightarrow> first_segment ip AND 0xff00 = 0xff00"

definition ipv6_is_unique_local :: "ipv6_addr \<Rightarrow> bool" where
  "ipv6_is_unique_local ip \<longleftrightarrow> first_segment ip AND 0xfe00 = 0xfc00"

definition ipv6_is_unicast_link_local :: "ipv6_addr \<Rightarrow> bool" where
  "ipv6_is_unicast_link_local ip \<longleftrightarrow> first_segment ip AND 0xffc0 = 0xfe80"

fun ip_is_loopback :: "ip_addr \<Rightarrow> bool" where
  "ip_is_loopback (V4 ip) = ipv4_is_loopback ip"
| "ip_is_loopback (V6 ip) = ipv6_is_loopback ip"

text \<open>
  The recursive descent parser of \<^verbatim>\<open>core::net\<close>.  A reader takes the remaining text and
  returns what it read with the rest, or \<^const>\<open>None\<close> and nothing is consumed.
\<close>

definition to_digit :: "nat \<Rightarrow> rchar \<Rightarrow> nat option" where
  "to_digit radix c =
     (let v = if 48 \<le> c \<and> c \<le> 57 then c - 48
              else if 97 \<le> c \<and> c \<le> 122 then c - 87
              else if 65 \<le> c \<and> c \<le> 90 then c - 55 else radix
      in if v < radix then Some v else None)"

abbreviation digits_value :: "nat \<Rightarrow> rstr \<Rightarrow> nat" where
  "digits_value radix ds \<equiv> foldl (\<lambda>v d. v * radix + the (to_digit radix d)) 0 ds"

definition read_number :: "nat \<Rightarrow> nat \<Rightarrow> bool \<Rightarrow> nat \<Rightarrow> rstr \<Rightarrow> (nat \<times> rstr) option" where
  "read_number radix max_digits allow_zero_prefix bound s =
     (let ds = takeWhile (\<lambda>c. to_digit radix c \<noteq> None) s;
          n = digits_value radix ds
      in if ds = [] \<or> max_digits < length ds \<or>
            \<not> allow_zero_prefix \<and> hd ds = ch CHR ''0'' \<and> 1 < length ds \<or> bound < n
         then None else Some (n, drop (length ds) s))"

definition read_given_char :: "rchar \<Rightarrow> rstr \<Rightarrow> rstr option" where
  "read_given_char c s = (case s of [] \<Rightarrow> None | x # rest \<Rightarrow> if x = c then Some rest else None)"

abbreviation read_octet :: "rstr \<Rightarrow> (nat \<times> rstr) option" where
  "read_octet \<equiv> read_number 10 3 False 255"

definition read_dotted :: "rstr \<Rightarrow> (nat \<times> rstr) option" where
  "read_dotted s = do { s \<leftarrow> read_given_char (ch CHR ''.'') s; read_octet s }"

definition read_ipv4_addr :: "rstr \<Rightarrow> (ipv4_addr \<times> rstr) option" where
  "read_ipv4_addr s = do {
     (a, s) \<leftarrow> read_octet s;
     (b, s) \<leftarrow> read_dotted s;
     (c, s) \<leftarrow> read_dotted s;
     (d, s) \<leftarrow> read_dotted s;
     Some (Ipv4Addr (word_of_nat a) (word_of_nat b) (word_of_nat c) (word_of_nat d), s) }"

definition read_separator ::
  "bool \<Rightarrow> (rstr \<Rightarrow> ('a \<times> rstr) option) \<Rightarrow> rstr \<Rightarrow> ('a \<times> rstr) option" where
  "read_separator first inner s =
     (if first then inner s else do { s \<leftarrow> read_given_char (ch CHR '':'') s; inner s })"

fun ipv4_groups :: "ipv4_addr \<Rightarrow> 16 word list" where
  "ipv4_groups (Ipv4Addr a b c d) =
     [word_of_nat (unat a * 256 + unat b), word_of_nat (unat c * 256 + unat d)]"

text \<open>Reads at most the given number of groups; the flag says that an IPv4 address ended them.\<close>

fun read_groups :: "nat \<Rightarrow> bool \<Rightarrow> rstr \<Rightarrow> 16 word list \<times> bool \<times> rstr" where
  "read_groups 0 first s = ([], False, s)"
| "read_groups (Suc k) first s =
     (case if 0 < k then read_separator first read_ipv4_addr s else None of
        Some (v4, s') \<Rightarrow> (ipv4_groups v4, True, s')
      | None \<Rightarrow>
          (case read_separator first (read_number 16 4 True 65535) s of
             None \<Rightarrow> ([], False, s)
           | Some (g, s') \<Rightarrow>
               let (gs, v4, s'') = read_groups k False s' in (word_of_nat g # gs, v4, s'')))"

fun ipv6_of_groups :: "16 word list \<Rightarrow> ipv6_addr option" where
  "ipv6_of_groups [a, b, c, d, e, f, g, h] = Some (Ipv6Addr a b c d e f g h)"
| "ipv6_of_groups _ = None"

definition read_ipv6_addr :: "rstr \<Rightarrow> (ipv6_addr \<times> rstr) option" where
  "read_ipv6_addr s =
     (let (head, head_ipv4, s) = read_groups 8 True s
      in if length head = 8 then map_option (\<lambda>ip. (ip, s)) (ipv6_of_groups head)
         else if head_ipv4 then None
         else do {
           s \<leftarrow> read_given_char (ch CHR '':'') s;
           s \<leftarrow> read_given_char (ch CHR '':'') s;
           let (tail, _, s) = read_groups (8 - (length head + 1)) True s
           in map_option (\<lambda>ip. (ip, s))
                (ipv6_of_groups (head @ replicate (8 - length head - length tail) 0 @ tail)) })"

definition parse_ip_addr :: "rstr \<Rightarrow> ip_addr option" where
  "parse_ip_addr s =
     (case read_ipv4_addr s of
        Some (ip, rest) \<Rightarrow> if rest = [] then Some (V4 ip) else None
      | None \<Rightarrow>
          (case read_ipv6_addr s of
             Some (ip, rest) \<Rightarrow> if rest = [] then Some (V6 ip) else None
           | None \<Rightarrow> None))"

section \<open>Addresses that are not public\<close>

definition ipv4_in_cidr :: "ipv4_addr \<Rightarrow> ipv4_addr \<Rightarrow> nat \<Rightarrow> bool" where
  "ipv4_in_cidr ip base len =
     (let m = if len = 0 then 0 else push_bit (32 - len) (- 1 :: 32 word)
      in ipv4_bits ip AND m = ipv4_bits base AND m)"

definition is_non_public_ipv4 :: "ipv4_addr \<Rightarrow> bool" where
  "is_non_public_ipv4 ip \<longleftrightarrow>
     ipv4_is_loopback ip \<or> ipv4_is_private ip \<or> ipv4_is_link_local ip \<or> ipv4_is_unspecified ip \<or>
     ipv4_is_multicast ip \<or> ipv4_is_broadcast ip \<or>
     ipv4_in_cidr ip (Ipv4Addr 0 0 0 0) 8 \<or>
     ipv4_in_cidr ip (Ipv4Addr 100 64 0 0) 10 \<or>
     ipv4_in_cidr ip (Ipv4Addr 192 0 0 0) 24 \<or>
     ipv4_in_cidr ip (Ipv4Addr 192 0 2 0) 24 \<or>
     ipv4_in_cidr ip (Ipv4Addr 198 18 0 0) 15 \<or>
     ipv4_in_cidr ip (Ipv4Addr 198 51 100 0) 24 \<or>
     ipv4_in_cidr ip (Ipv4Addr 203 0 113 0) 24 \<or>
     ipv4_in_cidr ip (Ipv4Addr 240 0 0 0) 4"

definition is_non_public_ipv6 :: "ipv6_addr \<Rightarrow> bool" where
  "is_non_public_ipv6 ip =
     (case to_ipv4 ip of
        Some v4 \<Rightarrow> is_non_public_ipv4 v4 \<or> ipv6_is_loopback ip
      | None \<Rightarrow>
          ipv6_is_loopback ip \<or> ipv6_is_unspecified ip \<or> ipv6_is_multicast ip \<or>
          ipv6_is_unique_local ip \<or> ipv6_is_unicast_link_local ip)"

fun is_non_public_ip :: "ip_addr \<Rightarrow> bool" where
  "is_non_public_ip (V4 ip) = is_non_public_ipv4 ip"
| "is_non_public_ip (V6 ip) = is_non_public_ipv6 ip"

section \<open>Hosts\<close>

text \<open>\<^verbatim>\<open>str::split_once\<close> with a string as the delimiter.\<close>

fun split_once_str :: "rstr \<Rightarrow> rstr \<Rightarrow> (rstr \<times> rstr) option" where
  "split_once_str d [] = (if d = [] then Some ([], []) else None)"
| "split_once_str d (c # cs) =
     (case strip_prefix d (c # cs) of
        Some rest \<Rightarrow> Some ([], rest)
      | None \<Rightarrow> map_option (\<lambda>(a, b). (c # a, b)) (split_once_str d cs))"

definition is_ip_literal :: "rstr \<Rightarrow> bool" where
  "is_ip_literal s \<longleftrightarrow> parse_ip_addr s \<noteq> None"

definition unscoped_ip_literal :: "rstr \<Rightarrow> rstr option" where
  "unscoped_ip_literal host = do {
     (ip, _) \<leftarrow> split_once (ch CHR ''%'') host;
     parse_ip_addr ip;
     Some ip }"

definition scoped_literal :: "rstr \<Rightarrow> rstr \<Rightarrow> rstr option" where
  "scoped_literal delimiter host =
     (case split_once_str delimiter host of
        Some (ip, scope) \<Rightarrow> if is_ip_literal ip then Some (ip @ lit ''%'' @ scope) else None
      | None \<Rightarrow> None)"

definition normalize_ip_literal :: "rstr \<Rightarrow> rstr option" where
  "normalize_ip_literal host =
     (if is_ip_literal host then Some host
      else case scoped_literal (lit ''%25'') host of
             Some ip \<Rightarrow> Some ip
           | None \<Rightarrow> scoped_literal (lit ''%'') host)"

definition normalize_dns_host_or_ip_literal :: "rstr \<Rightarrow> rstr" where
  "normalize_dns_host_or_ip_literal host =
     (let host = trim_end_matches (ch CHR ''.'') (to_ascii_lowercase host)
      in case normalize_ip_literal host of Some ip \<Rightarrow> ip | None \<Rightarrow> host)"

definition bracketed :: "rstr \<Rightarrow> rstr option" where
  "bracketed host =
     (case strip_prefix (lit ''['') host of
        Some rest \<Rightarrow> map_option fst (split_once (ch CHR '']'') rest)
      | None \<Rightarrow> None)"

definition normalize_host :: "rstr \<Rightarrow> rstr" where
  "normalize_host host =
     (let host = trim host
      in case bracketed host of
           Some inner \<Rightarrow> normalize_dns_host_or_ip_literal inner
         | None \<Rightarrow>
             if count_list host (ch CHR '':'') = 1
             then normalize_dns_host_or_ip_literal (hd (split_on (ch CHR '':'') host))
             else normalize_dns_host_or_ip_literal host)"

definition host_parse :: "rstr \<Rightarrow> (rstr, rstr) outcome" where
  "host_parse input =
     (let normalized = normalize_host input
      in if normalized = [] then Err (lit ''host is empty'') else Ok normalized)"

definition is_loopback_host :: "rstr \<Rightarrow> bool" where
  "is_loopback_host host =
     (let host = (case unscoped_ip_literal host of Some ip \<Rightarrow> ip | None \<Rightarrow> host)
      in if host = lit ''localhost'' then True
         else case parse_ip_addr host of Some ip \<Rightarrow> ip_is_loopback ip | None \<Rightarrow> False)"

section \<open>Domain patterns\<close>

datatype domain_pattern =
    ApexAndSubdomains rstr
  | SubdomainsOnly rstr
  | Exact rstr

definition parse_domain :: "rstr \<Rightarrow> (rstr \<Rightarrow> domain_pattern) \<Rightarrow> domain_pattern" where
  "parse_domain domain build =
     (let domain = trim domain in if domain = [] then Exact [] else build domain)"

definition pattern_parse :: "rstr \<Rightarrow> domain_pattern" where
  "pattern_parse input =
     (let input = trim input
      in if input = [] then Exact []
         else case strip_prefix (lit ''**.'') input of
                Some domain \<Rightarrow> parse_domain domain ApexAndSubdomains
              | None \<Rightarrow>
                  (case strip_prefix (lit ''*.'') input of
                     Some domain \<Rightarrow> parse_domain domain SubdomainsOnly
                   | None \<Rightarrow> Exact input))"

text \<open>
  \<^verbatim>\<open>url::Host::parse\<close> followed by its printing is the parameter \<open>url_host\<close>, \<^const>\<open>None\<close> where it
  refuses the text.
\<close>

definition parse_domain_for_constraints :: "(rstr \<Rightarrow> rstr option) \<Rightarrow> rstr \<Rightarrow> rstr" where
  "parse_domain_for_constraints url_host domain =
     (let domain = trim_end_matches (ch CHR ''.'') (trim domain)
      in if domain = [] then []
         else
           let host = (if starts_with (lit ''['') domain \<and> ends_with (lit '']'') domain
                       then take (length domain - 2) (drop 1 domain) else domain)
           in if ch CHR ''*'' \<in> set host \<or> ch CHR ''?'' \<in> set host \<or> ch CHR ''%'' \<in> set host
              then domain
              else case url_host host of Some h \<Rightarrow> h | None \<Rightarrow> [])"

definition parse_for_constraints :: "(rstr \<Rightarrow> rstr option) \<Rightarrow> rstr \<Rightarrow> domain_pattern" where
  "parse_for_constraints url_host input =
     (let input = trim input
      in if input = [] then Exact []
         else case strip_prefix (lit ''**.'') input of
                Some domain \<Rightarrow> ApexAndSubdomains (parse_domain_for_constraints url_host domain)
              | None \<Rightarrow>
                  (case strip_prefix (lit ''*.'') input of
                     Some domain \<Rightarrow> SubdomainsOnly (parse_domain_for_constraints url_host domain)
                   | None \<Rightarrow> Exact (parse_domain_for_constraints url_host input)))"

definition normalize_domain :: "rstr \<Rightarrow> rstr" where
  "normalize_domain domain = to_ascii_lowercase (trim_end_matches (ch CHR ''.'') domain)"

definition domain_eq :: "rstr \<Rightarrow> rstr \<Rightarrow> bool" where
  "domain_eq left right \<longleftrightarrow> normalize_domain left = normalize_domain right"

definition is_subdomain_or_equal :: "rstr \<Rightarrow> rstr \<Rightarrow> bool" where
  "is_subdomain_or_equal child parent =
     (let child = normalize_domain child; parent = normalize_domain parent
      in if child = parent then True else ends_with (lit ''.'' @ parent) child)"

definition is_strict_subdomain :: "rstr \<Rightarrow> rstr \<Rightarrow> bool" where
  "is_strict_subdomain child parent =
     (let child = normalize_domain child; parent = normalize_domain parent
      in child \<noteq> parent \<and> ends_with (lit ''.'' @ parent) child)"

fun pattern_allows :: "domain_pattern \<Rightarrow> domain_pattern \<Rightarrow> bool" where
  "pattern_allows (Exact domain) (Exact candidate) = domain_eq candidate domain"
| "pattern_allows (Exact domain) _ = False"
| "pattern_allows (SubdomainsOnly domain) (Exact candidate) = is_strict_subdomain candidate domain"
| "pattern_allows (SubdomainsOnly domain) (SubdomainsOnly candidate) =
     is_subdomain_or_equal candidate domain"
| "pattern_allows (SubdomainsOnly domain) (ApexAndSubdomains candidate) =
     is_strict_subdomain candidate domain"
| "pattern_allows (ApexAndSubdomains domain) (Exact candidate) =
     is_subdomain_or_equal candidate domain"
| "pattern_allows (ApexAndSubdomains domain) (SubdomainsOnly candidate) =
     is_subdomain_or_equal candidate domain"
| "pattern_allows (ApexAndSubdomains domain) (ApexAndSubdomains candidate) =
     is_subdomain_or_equal candidate domain"

definition expand_domain_pattern :: "rstr \<Rightarrow> rstr list" where
  "expand_domain_pattern pattern =
     (case pattern_parse pattern of
        Exact domain \<Rightarrow> [domain]
      | SubdomainsOnly domain \<Rightarrow> [lit ''?*.'' @ domain]
      | ApexAndSubdomains domain \<Rightarrow> [domain, lit ''?*.'' @ domain])"

definition normalize_pattern :: "rstr \<Rightarrow> rstr" where
  "normalize_pattern pattern =
     (let pattern = trim pattern
      in if pattern = lit ''*'' then lit ''*''
         else
           let (pre, remainder) =
                 (case strip_prefix (lit ''**.'') pattern of
                    Some domain \<Rightarrow> (lit ''**.'', domain)
                  | None \<Rightarrow>
                      (case strip_prefix (lit ''*.'') pattern of
                         Some domain \<Rightarrow> (lit ''*.'', domain)
                       | None \<Rightarrow> ([], pattern)));
               remainder = normalize_host remainder
           in if pre = [] then remainder else pre @ remainder)"

definition is_global_wildcard_domain_pattern :: "rstr \<Rightarrow> bool" where
  "is_global_wildcard_domain_pattern pattern \<longleftrightarrow>
     list_ex (\<lambda>candidate. candidate = lit ''*'') (expand_domain_pattern (normalize_pattern pattern))"

text \<open>
  The crate \<^verbatim>\<open>globset\<close> is a parameter: which patterns it can build, which sets of them, and
  which texts a (case-insensitive) pattern matches.  A compiled set is the list of its patterns.
\<close>

record glob_lib =
  glob_ok :: "rstr \<Rightarrow> bool"
  globset_ok :: "rstr list \<Rightarrow> bool"
  glob_match :: "rstr \<Rightarrow> rstr \<Rightarrow> bool"

datatype global_wildcard = AllowGlobal | RejectGlobal

datatype compile_error = UnsupportedGlobalWildcard | InvalidGlobPattern rstr | GlobSetRejected

fun add_candidates ::
  "glob_lib \<Rightarrow> rstr list \<Rightarrow> rstr list \<Rightarrow> (compile_error, rstr list) outcome" where
  "add_candidates lib seen [] = Ok seen"
| "add_candidates lib seen (c # cs) =
     (if c \<in> set seen then add_candidates lib seen cs
      else if glob_ok lib c then add_candidates lib (seen @ [c]) cs
      else Err (InvalidGlobPattern c))"

fun compile_patterns ::
  "glob_lib \<Rightarrow> global_wildcard \<Rightarrow> rstr list \<Rightarrow> rstr list \<Rightarrow> (compile_error, rstr list) outcome" where
  "compile_patterns lib policy seen [] = Ok seen"
| "compile_patterns lib policy seen (p # ps) =
     (if policy = RejectGlobal \<and> is_global_wildcard_domain_pattern p
      then Err UnsupportedGlobalWildcard
      else and_then (add_candidates lib seen (expand_domain_pattern (normalize_pattern p)))
             (\<lambda>seen. compile_patterns lib policy seen ps))"

definition compile_globset_with_policy ::
  "glob_lib \<Rightarrow> rstr list \<Rightarrow> global_wildcard \<Rightarrow> (compile_error, rstr list) outcome" where
  "compile_globset_with_policy lib patterns policy =
     and_then (compile_patterns lib policy [] patterns)
       (\<lambda>globs. if globset_ok lib globs then Ok globs else Err GlobSetRejected)"

definition compile_allowlist_globset :: "glob_lib \<Rightarrow> rstr list \<Rightarrow> (compile_error, rstr list) outcome" where
  "compile_allowlist_globset lib patterns = compile_globset_with_policy lib patterns AllowGlobal"

definition compile_denylist_globset :: "glob_lib \<Rightarrow> rstr list \<Rightarrow> (compile_error, rstr list) outcome" where
  "compile_denylist_globset lib patterns = compile_globset_with_policy lib patterns RejectGlobal"

definition globset_is_match :: "glob_lib \<Rightarrow> rstr list \<Rightarrow> rstr \<Rightarrow> bool" where
  "globset_is_match lib globs host \<longleftrightarrow> list_ex (\<lambda>g. glob_match lib g host) globs"

section \<open>Evaluation\<close>

named_theorems addr_eval "equations that evaluate hosts and addresses"

lemmas host_defs [addr_eval] =
  parse_ip_addr_def read_ipv4_addr_def read_ipv6_addr_def read_separator_def read_dotted_def
  read_given_char_def read_number_def to_digit_def is_ip_literal_def unscoped_ip_literal_def
  scoped_literal_def normalize_ip_literal_def normalize_dns_host_or_ip_literal_def bracketed_def
  normalize_host_def host_parse_def is_loopback_host_def trim_def trim_start_def trim_end_def
  is_whitespace_def to_ascii_lowercase_def trim_end_matches_def starts_with_def ends_with_def

lemma read_groups_unfold:
  "0 < k \<Longrightarrow> read_groups k first s =
     (case if 1 < k then read_separator first read_ipv4_addr s else None of
        Some (v4, s') \<Rightarrow> (ipv4_groups v4, True, s')
      | None \<Rightarrow>
          (case read_separator first (read_number 16 4 True 65535) s of
             None \<Rightarrow> ([], False, s)
           | Some (g, s') \<Rightarrow>
               let (gs, v4, s'') = read_groups (k - 1) False s'
               in (word_of_nat g # gs, v4, s'')))"
  by (cases k) (auto split: option.split)

lemmas read_groups_numeral [addr_eval] = read_groups_unfold [of "numeral n" for n, OF zero_less_numeral]

section \<open>Blocks and ranges of IPv4 addresses\<close>

definition ipv4_number :: "ipv4_addr \<Rightarrow> nat" where
  "ipv4_number ip = unat (ipv4_bits ip)"

lemma ipv4_number_octets:
  "ipv4_number (Ipv4Addr a b c d) = ((unat a * 256 + unat b) * 256 + unat c) * 256 + unat d"
proof -
  have "unat x < 256" for x :: "8 word" using unsigned_less [of x, where ?'a = nat] by simp
  note octet = this [of a] this [of b] this [of c] this [of d]
  then show ?thesis
    by (simp add: ipv4_number_def unat_word_ariths unsigned_ucast_eq take_bit_eq_mod)
qed

lemma and_high_mask_eq_iff:
  fixes x y :: "32 word"
  assumes "n \<le> 32"
  shows "x AND NOT (mask n) = y AND NOT (mask n) \<longleftrightarrow> unat x div 2 ^ n = unat y div 2 ^ n"
proof -
  have "x AND NOT (mask n) = push_bit n (drop_bit n x)" for x :: "32 word"
    by (rule bit_word_eqI) (auto simp: bit_simps)
  moreover have "push_bit n (drop_bit n x) = push_bit n (drop_bit n y) \<longleftrightarrow> drop_bit n x = drop_bit n y"
    (is "?l \<longleftrightarrow> ?r")
  proof
    assume ?l
    then have "drop_bit n (push_bit n (drop_bit n x)) = drop_bit n (push_bit n (drop_bit n y))"
      by simp
    moreover have "drop_bit n (push_bit n (drop_bit n z)) = drop_bit n z" for z :: "32 word"
      by (rule bit_word_eqI) (auto simp: bit_simps dest: bit_imp_le_length)
    ultimately show ?r by simp
  qed simp
  moreover have "drop_bit n x = drop_bit n y \<longleftrightarrow> unat x div 2 ^ n = unat y div 2 ^ n"
    by (simp only: word_unat_eq_iff [of "drop_bit n x"] unat_drop_bit_eq) (simp add: drop_bit_eq_div)
  ultimately show ?thesis by simp
qed

lemma ipv4_in_cidr_iff:
  assumes "len \<le> 32"
  shows "ipv4_in_cidr ip base len \<longleftrightarrow>
           ipv4_number ip div 2 ^ (32 - len) = ipv4_number base div 2 ^ (32 - len)"
proof (cases "len = 0")
  case True
  have "unat w div 2 ^ 32 = 0" for w :: "32 word"
    using unsigned_less [of w, where ?'a = nat] by simp
  then show ?thesis using True by (simp add: ipv4_in_cidr_def ipv4_number_def)
next
  case False
  then show ?thesis by (simp add: ipv4_in_cidr_def ipv4_number_def and_high_mask_eq_iff)
qed

lemma div_range: "0 < k \<Longrightarrow> n div k = q \<longleftrightarrow> k * q \<le> n \<and> n < k * q + k" for n k q :: nat
  by (metis div_nat_eqI div_mult_mod_eq le_add1 mod_less_divisor mult.commute mult_Suc_right
      add.commute nat_add_left_cancel_less)

lemma in_cidr_range:
  assumes "len \<le> 32" "2 ^ (32 - len) dvd ipv4_number base"
  shows "ipv4_in_cidr ip base len \<longleftrightarrow>
           ipv4_number base \<le> ipv4_number ip \<and> ipv4_number ip < ipv4_number base + 2 ^ (32 - len)"
proof -
  define k where "k = (2::nat) ^ (32 - len)"
  have "0 < k" by (simp add: k_def)
  obtain q where "ipv4_number base = k * q" using assms(2) unfolding k_def [symmetric] by (rule dvdE)
  then show ?thesis
    using \<open>0 < k\<close> div_range [OF \<open>0 < k\<close>, of _ q]
    by (simp add: ipv4_in_cidr_iff [OF assms(1)] k_def [symmetric])
qed

text \<open>The octets of an address are the digits of its number.\<close>

lemma octet_bound: "unat (x :: 8 word) < 256"
  using unsigned_less [of x, where ?'a = nat] by simp

lemma ipv4_number_div:
  "ipv4_number (Ipv4Addr a b c d) div 268435456 = unat a div 16"
  "ipv4_number (Ipv4Addr a b c d) div 16777216 = unat a"
  "ipv4_number (Ipv4Addr a b c d) div 1048576 = unat a * 16 + unat b div 16"
  "ipv4_number (Ipv4Addr a b c d) div 65536 = unat a * 256 + unat b"
proof -
  have two: "ipv4_number (Ipv4Addr a b c d) div 65536 = unat a * 256 + unat b"
    using octet_bound [of c] octet_bound [of d] unfolding ipv4_number_octets by simp
  then show "ipv4_number (Ipv4Addr a b c d) div 65536 = unat a * 256 + unat b" .
  have deeper: "n div (65536 * k) = n div 65536 div k" for n k :: nat
    by (simp add: div_mult2_eq)
  show "ipv4_number (Ipv4Addr a b c d) div 268435456 = unat a div 16"
    "ipv4_number (Ipv4Addr a b c d) div 16777216 = unat a"
    "ipv4_number (Ipv4Addr a b c d) div 1048576 = unat a * 16 + unat b div 16"
    using deeper [of "ipv4_number (Ipv4Addr a b c d)" 4096] deeper [of "ipv4_number (Ipv4Addr a b c d)" 256]
      deeper [of "ipv4_number (Ipv4Addr a b c d)" 16] octet_bound [of b]
    by (simp_all add: two)
qed

lemmas octet_compare =
  word_unat_eq_iff [of _ "numeral n :: 8 word" for n] word_le_nat_alt [where 'a = 8]

lemma two_octets_eq:
  "unat (b :: 8 word) < 256 \<Longrightarrow> v < 256 \<Longrightarrow> unat (a :: 8 word) * 256 + unat b = u * 256 + v \<longleftrightarrow> unat a = u \<and> unat b = v"
  by (metis div_mult_self3 div_less add.commute add_cancel_right_left add_left_cancel zero_neq_numeral
      mod_less mod_mult_self3)

lemma std_blocks:
  "ipv4_is_loopback ip \<longleftrightarrow> ipv4_in_cidr ip (Ipv4Addr 127 0 0 0) 8"
  "ipv4_is_private ip \<longleftrightarrow>
     ipv4_in_cidr ip (Ipv4Addr 10 0 0 0) 8 \<or> ipv4_in_cidr ip (Ipv4Addr 172 16 0 0) 12 \<or>
     ipv4_in_cidr ip (Ipv4Addr 192 168 0 0) 16"
  "ipv4_is_link_local ip \<longleftrightarrow> ipv4_in_cidr ip (Ipv4Addr 169 254 0 0) 16"
  "ipv4_is_multicast ip \<longleftrightarrow> ipv4_in_cidr ip (Ipv4Addr 224 0 0 0) 4"
  "ipv4_is_unspecified ip \<Longrightarrow> ipv4_in_cidr ip (Ipv4Addr 0 0 0 0) 8"
  "ipv4_is_broadcast ip \<Longrightarrow> ipv4_in_cidr ip (Ipv4Addr 240 0 0 0) 4"
proof -
  obtain a b c d where ip: "ip = Ipv4Addr a b c d" by (cases ip)
  note octets = octet_bound [of a] octet_bound [of b]
  note eval = ipv4_in_cidr_iff ipv4_number_div octet_compare ip
  show "ipv4_is_loopback ip \<longleftrightarrow> ipv4_in_cidr ip (Ipv4Addr 127 0 0 0) 8"
    "ipv4_is_unspecified ip \<Longrightarrow> ipv4_in_cidr ip (Ipv4Addr 0 0 0 0) 8"
    "ipv4_is_broadcast ip \<Longrightarrow> ipv4_in_cidr ip (Ipv4Addr 240 0 0 0) 4"
    by (simp_all add: eval)
  show "ipv4_is_link_local ip \<longleftrightarrow> ipv4_in_cidr ip (Ipv4Addr 169 254 0 0) 16"
    using two_octets_eq [OF octets(2), of 254 a 169] by (simp add: eval)
  show "ipv4_is_multicast ip \<longleftrightarrow> ipv4_in_cidr ip (Ipv4Addr 224 0 0 0) 4"
    using div_range [of 16 "unat a" 14] by (auto simp: eval)
  show "ipv4_is_private ip \<longleftrightarrow>
     ipv4_in_cidr ip (Ipv4Addr 10 0 0 0) 8 \<or> ipv4_in_cidr ip (Ipv4Addr 172 16 0 0) 12 \<or>
     ipv4_in_cidr ip (Ipv4Addr 192 168 0 0) 16"
  proof -
    have "a = 10 \<longleftrightarrow> ipv4_in_cidr ip (Ipv4Addr 10 0 0 0) 8"
      by (simp add: eval)
    moreover have "a = 172 \<and> 16 \<le> b \<and> b \<le> 31 \<longleftrightarrow> ipv4_in_cidr ip (Ipv4Addr 172 16 0 0) 12"
    proof -
      have "x * 16 + y = 2753 \<longleftrightarrow> x = 172 \<and> y = 1" if "y < 16" for x y :: nat
        using that by presburger
      moreover have "x div 16 = 1 \<longleftrightarrow> 16 \<le> x \<and> x \<le> 31" for x :: nat
        using div_range [of 16 x 1] by auto
      moreover have "unat b div 16 < 16" using octets by simp
      ultimately show ?thesis by (simp add: eval)
    qed
    moreover have "a = 192 \<and> b = 168 \<longleftrightarrow> ipv4_in_cidr ip (Ipv4Addr 192 168 0 0) 16"
      using two_octets_eq [OF octets(2), of 168 a 192] by (simp add: eval)
    ultimately show ?thesis unfolding ip by simp
  qed
qed

text \<open>The blocks the source lists, with the ones the standard library knows.\<close>

definition non_public_blocks :: "(ipv4_addr \<times> nat) list" where
  "non_public_blocks =
     [(Ipv4Addr 0 0 0 0, 8), (Ipv4Addr 10 0 0 0, 8), (Ipv4Addr 100 64 0 0, 10),
      (Ipv4Addr 127 0 0 0, 8), (Ipv4Addr 169 254 0 0, 16), (Ipv4Addr 172 16 0 0, 12),
      (Ipv4Addr 192 0 0 0, 24), (Ipv4Addr 192 0 2 0, 24), (Ipv4Addr 192 168 0 0, 16),
      (Ipv4Addr 198 18 0 0, 15), (Ipv4Addr 198 51 100 0, 24), (Ipv4Addr 203 0 113 0, 24),
      (Ipv4Addr 224 0 0 0, 4), (Ipv4Addr 240 0 0 0, 4)]"

definition in_block :: "ipv4_addr \<Rightarrow> ipv4_addr \<times> nat \<Rightarrow> bool" where
  "in_block ip block \<longleftrightarrow>
     ipv4_number (fst block) \<le> ipv4_number ip \<and>
     ipv4_number ip < ipv4_number (fst block) + 2 ^ (32 - snd block)"

lemma in_cidr_block:
  "block \<in> set non_public_blocks \<Longrightarrow> ipv4_in_cidr ip (fst block) (snd block) \<longleftrightarrow> in_block ip block"
  unfolding in_block_def
  by (rule in_cidr_range) (auto simp: non_public_blocks_def ipv4_number_octets dvd_def)

lemma non_public_ipv4_iff:
  "is_non_public_ipv4 ip \<longleftrightarrow> (\<exists>block\<in>set non_public_blocks. in_block ip block)"
proof -
  have "is_non_public_ipv4 ip \<longleftrightarrow>
      (\<exists>block\<in>set non_public_blocks. ipv4_in_cidr ip (fst block) (snd block))"
    unfolding is_non_public_ipv4_def std_blocks(1,2,3,4) non_public_blocks_def
    using std_blocks(5,6) [of ip] by auto
  then show ?thesis by (simp add: in_cidr_block cong: bex_cong)
qed

lemma embedded_ipv4:
  assumes "to_ipv4 ip = Some v4"
  shows "is_non_public_ip (V6 ip) \<longleftrightarrow> is_non_public_ip (V4 v4)"
proof (cases "ipv6_is_loopback ip")
  case True
  then have "v4 = Ipv4Addr 0 0 0 1" using assms by (auto simp: ipv6_is_loopback_def octets_of_def)
  then have "is_non_public_ipv4 v4"
    by (simp add: non_public_ipv4_iff non_public_blocks_def in_block_def ipv4_number_octets)
  then show ?thesis using assms by (simp add: is_non_public_ipv6_def)
next
  case False
  then show ?thesis using assms by (simp add: is_non_public_ipv6_def)
qed

section \<open>Plain host texts\<close>

text \<open>
  A host text is plain if it has no white space, no scope and no character that is special in a
  pattern or in brackets.
\<close>

definition plain_host :: "rstr \<Rightarrow> bool" where
  "plain_host h \<longleftrightarrow> (\<forall>c\<in>set h. \<not> is_whitespace c \<and> c \<notin> {37, 42, 63, 91, 92, 93, 123, 125})"

lemma plain_host_subset: "plain_host h \<Longrightarrow> set x \<subseteq> set h \<Longrightarrow> plain_host x"
  by (auto simp: plain_host_def)

lemma to_ascii_lowercase_idem: "to_ascii_lowercase (to_ascii_lowercase s) = to_ascii_lowercase s"
  by (simp add: to_ascii_lowercase_def)

lemma lowercase_symbol: "\<not> (65 \<le> c \<and> c \<le> 90) \<Longrightarrow> \<not> (97 \<le> c \<and> c \<le> 122) \<Longrightarrow>
    count_list (to_ascii_lowercase s) c = count_list s c"
  by (induction s) (auto simp: to_ascii_lowercase_def)

lemma plain_host_lower:
  assumes "plain_host h" shows "plain_host (to_ascii_lowercase h)"
proof -
  have letters: "\<not> is_whitespace d \<and> d \<notin> {37, 42, 63, 91, 92, 93, 123, 125}" if "97 \<le> d" "d \<le> 122" for d
    using that by (auto simp: is_whitespace_def)
  show ?thesis
    unfolding plain_host_def
  proof
    fix c assume "c \<in> set (to_ascii_lowercase h)"
    then obtain x where x: "x \<in> set h" "c = (if 65 \<le> x \<and> x \<le> 90 then x + 32 else x)"
      by (auto simp: to_ascii_lowercase_def)
    show "\<not> is_whitespace c \<and> c \<notin> {37, 42, 63, 91, 92, 93, 123, 125}"
    proof (cases "65 \<le> x \<and> x \<le> 90")
      case True
      then show ?thesis using letters [of c] x(2) by simp
    next
      case False
      then have "c = x" using x(2) by simp
      then show ?thesis using assms x(1) unfolding plain_host_def by blast
    qed
  qed
qed

lemma trim_end_matches_split:
  obtains n where "s = trim_end_matches c s @ replicate n c"
proof
  let ?tail = "takeWhile (\<lambda>x. x = c) (rev s)"
  have "rev s = ?tail @ dropWhile (\<lambda>x. x = c) (rev s)" by simp
  then have "s = rev (dropWhile (\<lambda>x. x = c) (rev s)) @ rev ?tail"
    by (metis rev_append rev_rev_ident)
  moreover have "replicate (length ?tail) c = rev ?tail"
    using replicate_length_same [of "rev ?tail" c] set_takeWhileD [of _ "\<lambda>x. x = c" "rev s"] by simp
  ultimately show "s = trim_end_matches c s @ replicate (length ?tail) c"
    by (simp add: trim_end_matches_def)
qed

lemma trim_end_matches_facts:
  "set (trim_end_matches c s) \<subseteq> set s" "d \<noteq> c \<Longrightarrow> count_list (trim_end_matches c s) d = count_list s d"
  "trim_end_matches c (trim_end_matches c s) = trim_end_matches c s"
  "to_ascii_lowercase s = s \<Longrightarrow> to_ascii_lowercase (trim_end_matches c s) = trim_end_matches c s"
proof -
  obtain n where n: "s = trim_end_matches c s @ replicate n c" by (rule trim_end_matches_split)
  define t where "t = trim_end_matches c s"
  have s: "s = t @ replicate n c" using n by (simp add: t_def)
  have "count_list (replicate n c) d = 0" if "d \<noteq> c" using that by (induction n) auto
  then show "set (trim_end_matches c s) \<subseteq> set s" "d \<noteq> c \<Longrightarrow> count_list (trim_end_matches c s) d = count_list s d"
    unfolding t_def [symmetric] by (simp_all add: s)
  show "trim_end_matches c (trim_end_matches c s) = trim_end_matches c s"
    by (simp add: trim_end_matches_def)
  assume "to_ascii_lowercase s = s"
  then have "to_ascii_lowercase (t @ replicate n c) = t @ replicate n c" by (simp only: s [symmetric])
  then have "to_ascii_lowercase t = t" by (simp add: to_ascii_lowercase_def)
  then show "to_ascii_lowercase (trim_end_matches c s) = trim_end_matches c s" by (simp add: t_def)
qed

lemma plain_host_trim: "plain_host h \<Longrightarrow> trim h = h"
  using hd_in_set [of h] last_in_set [of h] unfolding plain_host_def by (intro trim_id) blast

lemma split_once_str_None: "c \<notin> set s \<Longrightarrow> split_once_str (c # d) s = None"
  by (induction s) auto

lemma plain_dns:
  assumes "plain_host h"
  shows "normalize_dns_host_or_ip_literal h = trim_end_matches 46 (to_ascii_lowercase h)"
proof -
  let ?h = "trim_end_matches 46 (to_ascii_lowercase h)"
  have "plain_host ?h"
    using plain_host_subset [OF plain_host_lower [OF assms] trim_end_matches_facts(1)] .
  then have "37 \<notin> set ?h" by (auto simp: plain_host_def)
  then have "split_once_str (37 # d) ?h = None" for d
    by (rule split_once_str_None)
  then show ?thesis
    by (simp add: normalize_dns_host_or_ip_literal_def normalize_ip_literal_def scoped_literal_def Let_def)
qed

lemma plain_special: "plain_host h \<Longrightarrow> 42 \<notin> set h" "plain_host h \<Longrightarrow> 91 \<notin> set h"
  by (auto simp: plain_host_def)

lemma bracketed_None: "91 \<notin> set h \<Longrightarrow> bracketed h = None"
  by (cases h) (auto simp: bracketed_def)

lemma hd_split_on:
  "set (hd (split_on d s)) \<subseteq> set s" "d \<notin> set (hd (split_on d s))"
proof -
  show "d \<notin> set (hd (split_on d s))" using split_on_parts [of "hd (split_on d s)" d s] by simp
  show "set (hd (split_on d s)) \<subseteq> set s" by (induction s) (auto split: list.splits)
qed

lemma normalize_plain:
  assumes "plain_host h"
  obtains x where "normalize_host h = trim_end_matches 46 (to_ascii_lowercase x)"
    "set x \<subseteq> set h" "count_list x 58 \<noteq> 1"
proof (cases "count_list h 58 = 1")
  case True
  let ?x = "hd (split_on 58 h)"
  have "plain_host ?x" using plain_host_subset [OF assms hd_split_on(1)] .
  then have "normalize_host h = trim_end_matches 46 (to_ascii_lowercase ?x)"
    using True by (simp add: normalize_host_def plain_host_trim assms bracketed_None plain_special plain_dns)
  then show ?thesis using that hd_split_on [of 58 h] by (simp add: count_list_0_iff)
next
  case False
  then have "normalize_host h = trim_end_matches 46 (to_ascii_lowercase h)"
    by (simp add: normalize_host_def plain_host_trim assms bracketed_None plain_special plain_dns)
  then show ?thesis using that False by blast
qed

lemma normalize_host_plain:
  assumes "plain_host h"
  shows "plain_host (normalize_host h)" "normalize_host (normalize_host h) = normalize_host h"
proof -
  obtain x where x: "normalize_host h = trim_end_matches 46 (to_ascii_lowercase x)"
    "set x \<subseteq> set h" "count_list x 58 \<noteq> 1" by (rule normalize_plain [OF assms])
  let ?y = "trim_end_matches 46 (to_ascii_lowercase x)"
  have y: "plain_host ?y"
    using plain_host_subset [OF plain_host_lower trim_end_matches_facts(1)] plain_host_subset [OF assms x(2)]
    by blast
  have "count_list ?y 58 \<noteq> 1"
    using x(3) by (simp add: trim_end_matches_facts(2) lowercase_symbol)
  moreover have "trim_end_matches 46 (to_ascii_lowercase ?y) = ?y"
    using trim_end_matches_facts(3,4) to_ascii_lowercase_idem by metis
  ultimately have "normalize_host ?y = ?y"
    by (simp add: normalize_host_def plain_host_trim y bracketed_None plain_special plain_dns)
  then show "plain_host (normalize_host h)" "normalize_host (normalize_host h) = normalize_host h"
    using x(1) y by simp_all
qed

text \<open>A text that begins with a star still does after normalisation.\<close>

lemma split_once_str_Some: "split_once_str d s = Some (a, b) \<Longrightarrow> s = a @ d @ b"
  by (induction s arbitrary: a) (auto simp: strip_prefix_Some_iff split: option.splits if_splits)

lemma star_dns:
  assumes "x = 42 # r"
  shows "42 \<in> set (normalize_dns_host_or_ip_literal x)"
proof -
  let ?h = "trim_end_matches 46 (to_ascii_lowercase x)"
  obtain n where n: "to_ascii_lowercase x = ?h @ replicate n 46" by (rule trim_end_matches_split)
  have "to_ascii_lowercase x = 42 # to_ascii_lowercase r" using assms by (simp add: to_ascii_lowercase_def)
  then have "42 # to_ascii_lowercase r = ?h @ replicate n 46" using n by simp
  then obtain r' where h: "?h = 42 # r'" by (cases ?h; cases n) auto
  have "42 \<in> set ip" if scoped: "scoped_literal d ?h = Some ip" for d ip
  proof -
    obtain a scope where split: "split_once_str d ?h = Some (a, scope)" "is_ip_literal a"
        "ip = a @ lit ''%'' @ scope"
      using scoped by (auto simp: scoped_literal_def split: option.splits if_splits)
    have "a \<noteq> []" using split(2) by (auto simp: addr_eval)
    then show ?thesis using split_once_str_Some [OF split(1)] split(3) h by (cases a) auto
  qed
  then show ?thesis
    using h by (auto simp: normalize_dns_host_or_ip_literal_def normalize_ip_literal_def Let_def
        split: option.splits)
qed

lemma star_kept:
  assumes "trim p = 42 # r" shows "42 \<in> set (normalize_host p)"
proof -
  have "bracketed (42 # r) = None" by (simp add: bracketed_def)
  moreover have "\<exists>r'. hd (split_on 58 (42 # r)) = 42 # r'" by (auto split: list.splits)
  then have star: "42 \<in> set (normalize_dns_host_or_ip_literal (hd (split_on 58 (42 # r))))"
    using star_dns by blast
  ultimately show ?thesis
    using assms star star_dns [OF refl, of r] by (simp add: normalize_host_def Let_def)
qed

text \<open>An entry that stands for a plain host compiles to the glob of that host.\<close>

lemma expand_plain:
  assumes "normalize_host p = h" "plain_host h" "h \<noteq> []"
  shows "expand_domain_pattern (normalize_pattern p) = [h]"
proof -
  have "42 \<notin> set h" using assms(2) by (rule plain_special)
  then have no_star: "trim p \<noteq> 42 # r" for r using star_kept assms(1) by blast
  then have "normalize_pattern p = normalize_host (trim p)"
    by (cases "trim p") (auto simp: normalize_pattern_def Let_def)
  also have "\<dots> = h" using assms(1) by (simp add: normalize_host_def trim_trim)
  finally have norm: "normalize_pattern p = h" .
  obtain c r where "h = c # r" "c \<noteq> 42" using \<open>42 \<notin> set h\<close> assms(3) by (cases h) auto
  then have "pattern_parse h = Exact h"
    using plain_host_trim [OF assms(2)] by (simp add: pattern_parse_def Let_def)
  then show ?thesis by (simp add: norm expand_domain_pattern_def)
qed

section \<open>Properties\<close>

text \<open>
  (C30) An IPv4 address, written as such or embedded in an IPv6 address, is kept from the
  sandboxed program exactly when its number lies in one of the reserved ranges of the table
  \<open>non_public_blocks\<close>: the masks of the code and the methods of the standard library together
  compute membership in these ranges, with no gap and no overlap at their ends.
\<close>

theorem non_public_addresses:
  assumes "addr = V4 ip \<or> (\<exists>six. addr = V6 six \<and> to_ipv4 six = Some ip)"
  shows "is_non_public_ip addr \<longleftrightarrow> (\<exists>block\<in>set non_public_blocks. in_block ip block)"
  using assms embedded_ipv4 by (auto simp: non_public_ipv4_iff)

theorem non_public_addresses_witness:
  "is_non_public_ip (V6 (Ipv6Addr 0 0 0 0 0 0xffff 0xac1f 0xfffe)) \<longleftrightarrow>
     (\<exists>block\<in>set non_public_blocks. in_block (Ipv4Addr 172 31 255 254) block)"
  by (rule non_public_addresses) (simp add: octets_of_def)

text \<open>
  What a pattern matches.  Its globs are those that \<^const>\<open>expand_domain_pattern\<close> makes of it, and
  \<^verbatim>\<open>globset\<close> documents of the two forms that a domain without special characters matches itself and
  \<^verbatim>\<open>?*.\<close> in front of it stands for at least one character and a dot, both without regard to case.
\<close>

fun pattern_domain :: "domain_pattern \<Rightarrow> rstr" where
  "pattern_domain (Exact d) = d"
| "pattern_domain (SubdomainsOnly d) = d"
| "pattern_domain (ApexAndSubdomains d) = d"

fun pattern_globs :: "domain_pattern \<Rightarrow> rstr list" where
  "pattern_globs (Exact d) = [d]"
| "pattern_globs (SubdomainsOnly d) = [lit ''?*.'' @ d]"
| "pattern_globs (ApexAndSubdomains d) = [d, lit ''?*.'' @ d]"

lemma expand_globs: "expand_domain_pattern p = pattern_globs (pattern_parse p)"
  by (simp add: expand_domain_pattern_def split: domain_pattern.split)

definition documented_globs :: "glob_lib \<Rightarrow> bool" where
  "documented_globs lib \<longleftrightarrow>
     (\<forall>d host. plain_host d \<longrightarrow>
        (glob_match lib d host \<longleftrightarrow> to_ascii_lowercase host = to_ascii_lowercase d) \<and>
        (glob_match lib (lit ''?*.'' @ d) host \<longleftrightarrow>
           (\<exists>x. x \<noteq> [] \<and> to_ascii_lowercase host = x @ ch CHR ''.'' # to_ascii_lowercase d)))"

definition pattern_hosts :: "glob_lib \<Rightarrow> domain_pattern \<Rightarrow> rstr set" where
  "pattern_hosts lib p = {host. list_ex (\<lambda>g. glob_match lib g host) (pattern_globs p)}"

text \<open>A domain in normal form: plain, in lower case, without dots at its ends.\<close>

definition plain_domain :: "rstr \<Rightarrow> bool" where
  "plain_domain d \<longleftrightarrow> plain_host d \<and> normalize_domain d = d \<and> d \<noteq> [] \<and> hd d \<noteq> ch CHR ''.''"

lemma plain_domain_lower: "plain_domain d \<Longrightarrow> to_ascii_lowercase d = d"
  unfolding plain_domain_def normalize_domain_def by (metis to_ascii_lowercase_idem)

definition below_domain :: "rstr \<Rightarrow> rstr \<Rightarrow> bool" where
  "below_domain d host \<longleftrightarrow> (\<exists>x. x \<noteq> [] \<and> host = x @ 46 # d)"

lemma below_domain_trans: "below_domain d c \<Longrightarrow> below_domain c host \<Longrightarrow> below_domain d host"
  unfolding below_domain_def by (metis append.assoc append_Cons append_is_Nil_conv)

lemma below_domain_Cons: "below_domain d (a # 46 # d)"
  unfolding below_domain_def by (rule exI [of _ "[a]"]) simp

lemma below_domain_prepend: "below_domain d (a # 46 # c) \<Longrightarrow> c \<noteq> d \<Longrightarrow> 46 \<noteq> hd c \<Longrightarrow> below_domain d c"
  unfolding below_domain_def by (auto simp: Cons_eq_append_conv)

lemma plain_pattern_hosts:
  assumes "documented_globs lib" "plain_domain (pattern_domain p)"
  shows "host \<in> pattern_hosts lib p \<longleftrightarrow>
    (case p of
       Exact d \<Rightarrow> to_ascii_lowercase host = d
     | SubdomainsOnly d \<Rightarrow> below_domain d (to_ascii_lowercase host)
     | ApexAndSubdomains d \<Rightarrow> to_ascii_lowercase host = d \<or> below_domain d (to_ascii_lowercase host))"
  using assms plain_domain_lower [OF assms(2)]
  by (cases p) (simp_all add: pattern_hosts_def documented_globs_def plain_domain_def below_domain_def del: lit_simps)

lemma plain_subdomain:
  assumes "plain_domain c" "plain_domain d"
  shows "is_subdomain_or_equal c d \<longleftrightarrow> c = d \<or> below_domain d c" "is_strict_subdomain c d \<longleftrightarrow> below_domain d c"
    "domain_eq c d \<longleftrightarrow> c = d"
proof -
  have "suffix (46 # d) c \<longleftrightarrow> below_domain d c"
    using assms(1) by (auto simp: suffix_def plain_domain_def below_domain_def)
  then show "is_subdomain_or_equal c d \<longleftrightarrow> c = d \<or> below_domain d c" "is_strict_subdomain c d \<longleftrightarrow> below_domain d c"
    "domain_eq c d \<longleftrightarrow> c = d"
    using assms unfolding plain_domain_def
    by (auto simp: is_subdomain_or_equal_def is_strict_subdomain_def domain_eq_def ends_with_iff below_domain_def Let_def)
qed

lemma pattern_allows_hosts:
  assumes "documented_globs lib" "plain_domain (pattern_domain managed)" "plain_domain (pattern_domain candidate)"
    "pattern_allows managed candidate"
  shows "pattern_hosts lib candidate \<subseteq> pattern_hosts lib managed"
proof
  fix host
  assume "host \<in> pattern_hosts lib candidate"
  then show "host \<in> pattern_hosts lib managed"
    unfolding plain_pattern_hosts [OF assms(1,2)] plain_pattern_hosts [OF assms(1,3)]
    using assms(4) plain_subdomain [OF assms(3,2)]
    by (cases managed; cases candidate) (auto intro: below_domain_trans)
qed

text \<open>
  (C29) For patterns that name plain domains (no wildcard inside the domain, lower case, no dots at its
  ends), a managed pattern allows a configured one exactly when every text that the globs of the
  configured pattern match is matched by the globs of the managed one.  The comparison by string suffixes
  is therefore neither too wide (no configured entry reaches a host outside the managed one) nor too narrow.
\<close>

theorem managed_pattern_inclusion:
  assumes "documented_globs lib" "plain_domain (pattern_domain managed)" "plain_domain (pattern_domain candidate)"
  shows "pattern_allows managed candidate \<longleftrightarrow> pattern_hosts lib candidate \<subseteq> pattern_hosts lib managed"
proof
  assume "pattern_allows managed candidate"
  then show "pattern_hosts lib candidate \<subseteq> pattern_hosts lib managed" by (rule pattern_allows_hosts [OF assms])
next
  let ?c = "pattern_domain candidate" and ?d = "pattern_domain managed"
  have lower: "to_ascii_lowercase ?c = ?c" "to_ascii_lowercase (97 # 46 # ?c) = 97 # 46 # ?c"
    "to_ascii_lowercase (98 # 46 # ?c) = 98 # 46 # ?c"
    using plain_domain_lower [OF assms(3)] by (auto simp: to_ascii_lowercase_def)
  have first: "46 \<noteq> hd ?c" using assms(3) by (auto simp: plain_domain_def)
  have different: "97 # 46 # ?c \<noteq> ?d \<or> 98 # 46 # ?c \<noteq> ?d" by (cases ?d) auto
  assume "pattern_hosts lib candidate \<subseteq> pattern_hosts lib managed"
  then have incl: "host \<in> pattern_hosts lib candidate \<Longrightarrow> host \<in> pattern_hosts lib managed" for host by blast
  show "pattern_allows managed candidate"
    using incl [of ?c] incl [of "97 # 46 # ?c"] incl [of "98 # 46 # ?c"] plain_subdomain [OF assms(3,2)] different
      below_domain_Cons [of ?c 97] below_domain_Cons [of ?c 98] below_domain_prepend [OF _ _ first, of ?d]
    unfolding plain_pattern_hosts [OF assms(1,2)] plain_pattern_hosts [OF assms(1,3)] lower
    by (cases managed; cases candidate) auto
qed

text \<open>A matcher with the documented behaviour on the two forms.\<close>

definition suffix_globs :: glob_lib where
  "suffix_globs =
     \<lparr>glob_ok = (\<lambda>_. True), globset_ok = (\<lambda>_. True),
      glob_match = (\<lambda>g host.
        (case strip_prefix (lit ''?*.'') g of
           Some d \<Rightarrow> to_ascii_lowercase d \<noteq> to_ascii_lowercase host \<and> ends_with (46 # to_ascii_lowercase d) (to_ascii_lowercase host)
             \<and> Suc (length d) < length host
         | None \<Rightarrow> to_ascii_lowercase host = to_ascii_lowercase g))\<rparr>"

lemma suffix_globs_documented: "documented_globs suffix_globs"
proof -
  have "strip_prefix (lit ''?*.'') d = None" if "plain_host d" for d
    using that by (cases d) (auto simp: plain_host_def)
  moreover have "strip_prefix (lit ''?*.'') (lit ''?*.'' @ d) = Some d" for d by simp
  moreover have "to_ascii_lowercase d \<noteq> to_ascii_lowercase host \<and> ends_with (46 # to_ascii_lowercase d) (to_ascii_lowercase host)
      \<and> Suc (length d) < length host \<longleftrightarrow> (\<exists>x. x \<noteq> [] \<and> to_ascii_lowercase host = x @ 46 # to_ascii_lowercase d)" for d host
  proof -
    have len: "length (to_ascii_lowercase z) = length z" for z by (simp add: to_ascii_lowercase_def)
    show ?thesis
    proof
      assume "\<exists>x. x \<noteq> [] \<and> to_ascii_lowercase host = x @ 46 # to_ascii_lowercase d"
      then obtain x where x: "x \<noteq> []" "to_ascii_lowercase host = x @ 46 # to_ascii_lowercase d" by blast
      then have "length host = length x + Suc (length d)" using len [of host] len [of d] by simp
      with x show "to_ascii_lowercase d \<noteq> to_ascii_lowercase host \<and> ends_with (46 # to_ascii_lowercase d) (to_ascii_lowercase host)
          \<and> Suc (length d) < length host" by (auto simp: ends_with_iff suffix_def)
    next
      assume *: "to_ascii_lowercase d \<noteq> to_ascii_lowercase host \<and> ends_with (46 # to_ascii_lowercase d) (to_ascii_lowercase host)
          \<and> Suc (length d) < length host"
      then obtain x where x: "to_ascii_lowercase host = x @ 46 # to_ascii_lowercase d" by (auto simp: ends_with_iff suffix_def)
      moreover have "x \<noteq> []" using x * len [of host] len [of d] by (metis length_Cons less_irrefl append_Nil)
      ultimately show "\<exists>x. x \<noteq> [] \<and> to_ascii_lowercase host = x @ 46 # to_ascii_lowercase d" by blast
    qed
  qed
  ultimately show ?thesis unfolding documented_globs_def suffix_globs_def by (simp del: lit_simps)
qed

theorem managed_pattern_inclusion_witness:
  "pattern_hosts suffix_globs (Exact (lit ''x.a.b'')) \<subseteq> pattern_hosts suffix_globs (SubdomainsOnly (lit ''a.b''))"
proof -
  have "pattern_allows (SubdomainsOnly (lit ''a.b'')) (Exact (lit ''x.a.b''))"
    by (simp add: is_strict_subdomain_def normalize_domain_def addr_eval)
  moreover have "plain_domain (lit ''a.b'')" "plain_domain (lit ''x.a.b'')"
    by (simp_all add: plain_domain_def plain_host_def is_whitespace_def normalize_domain_def addr_eval)
  ultimately show ?thesis
    using managed_pattern_inclusion [OF suffix_globs_documented, of "SubdomainsOnly (lit ''a.b'')" "Exact (lit ''x.a.b'')"]
    by (simp del: lit_simps pattern_allows.simps)
qed

text \<open>
  A wildcard inside a domain is not understood by the comparison: the managed entry
  \<^verbatim>\<open>region*.v2.argotunnel.com\<close>, which matches \<^verbatim>\<open>region1.v2.argotunnel.com\<close> when it is
  compiled, does not allow that host in the user's list.
\<close>

lemma inner_wildcard_not_compared:
  "\<not> pattern_allows (parse_for_constraints Some (lit ''region*.v2.argotunnel.com''))
       (parse_for_constraints Some (lit ''region1.v2.argotunnel.com''))"
  by (simp add: parse_for_constraints_def parse_domain_for_constraints_def domain_eq_def normalize_domain_def addr_eval)

end
