(* ===== verification/Net_Config.thy ===== *)
theory Net_Config
  imports Net_Host "HOL-Library.List_Lexorder"
begin

text \<open>
  The settings of the network proxy (\<^verbatim>\<open>network-proxy/src/config.rs\<close>) and the managed
  constraints on them (\<^verbatim>\<open>network-proxy/src/state.rs\<close>).  A domain list is kept as the list of
  its entries; the \<^verbatim>\<open>BTreeMap\<close> of socket paths is an association list in the order of its keys.
  The crates \<^verbatim>\<open>globset\<close> and \<^verbatim>\<open>url\<close> and the directories of the process are the record
  \<open>net_env\<close>.

  Shown here: what the effective lists contain (an entry that denies wins over one that allows,
  whatever their order), that validation accepts exactly the settings within the constraints, and
  where the listeners of the proxy may be bound.
\<close>

record net_env =
  net_globs :: glob_lib
  net_url_host :: "rstr \<Rightarrow> rstr option"
  net_url_parse :: "rstr \<Rightarrow> (rstr option \<times> nat option) option"
  net_home :: "rstr option"
  net_cwd :: "rstr + rstr"

section \<open>Settings\<close>

datatype domain_permission = NoPermission | AllowDomain | DenyDomain

text \<open>The derived \<^verbatim>\<open>Ord\<close> of \<^verbatim>\<open>NetworkDomainPermission\<close>.\<close>

fun permission_rank :: "domain_permission \<Rightarrow> nat" where
  "permission_rank NoPermission = 0"
| "permission_rank AllowDomain = 1"
| "permission_rank DenyDomain = 2"

record domain_entry =
  entry_pattern :: rstr
  entry_permission :: domain_permission

definition domain_entry_of :: "rstr \<Rightarrow> domain_permission \<Rightarrow> domain_entry" where
  "domain_entry_of p perm = \<lparr>entry_pattern = p, entry_permission = perm\<rparr>"

datatype network_mode = Limited | Full

datatype socket_permission = AllowSocket | NoSocket

record proxy_settings =
  proxy_enabled :: bool
  proxy_url :: rstr
  enable_socks5 :: bool
  socks_url :: rstr
  enable_socks5_udp :: bool
  allow_upstream_proxy :: bool
  dangerously_allow_non_loopback_proxy :: bool
  dangerously_allow_all_unix_sockets :: bool
  proxy_mode :: network_mode
  proxy_domains :: "domain_entry list option"
  proxy_unix_sockets :: "(rstr \<times> socket_permission) list option"
  allow_local_binding :: bool
  proxy_mitm :: bool

definition default_settings :: proxy_settings where
  "default_settings =
     \<lparr>proxy_enabled = False, proxy_url = lit ''http://127.0.0.1:3128'', enable_socks5 = True,
      socks_url = lit ''http://127.0.0.1:8081'', enable_socks5_udp = True,
      allow_upstream_proxy = True, dangerously_allow_non_loopback_proxy = False,
      dangerously_allow_all_unix_sockets = False, proxy_mode = Full, proxy_domains = None,
      proxy_unix_sockets = None, allow_local_binding = False, proxy_mitm = False\<rparr>"

subsection \<open>The list of domains\<close>

text \<open>The loop keeps the patterns in the order they are first met and the strongest permission of each.\<close>

fun effective_permissions ::
  "rstr list \<Rightarrow> (rstr \<rightharpoonup> domain_permission) \<Rightarrow> domain_entry list \<Rightarrow>
   rstr list \<times> (rstr \<rightharpoonup> domain_permission)" where
  "effective_permissions order perms [] = (order, perms)"
| "effective_permissions order perms (e # es) =
     (let order = (if perms (entry_pattern e) = None then order @ [entry_pattern e] else order);
          permission = (case perms (entry_pattern e) of
                          Some p \<Rightarrow> p | None \<Rightarrow> entry_permission e);
          permission = (if permission_rank permission < permission_rank (entry_permission e)
                        then entry_permission e else permission)
      in effective_permissions order (perms(entry_pattern e \<mapsto> permission)) es)"

fun take_permissions :: "rstr list \<Rightarrow> (rstr \<rightharpoonup> domain_permission) \<Rightarrow> domain_entry list" where
  "take_permissions [] perms = []"
| "take_permissions (p # ps) perms =
     (case perms p of
        Some permission \<Rightarrow> domain_entry_of p permission # take_permissions ps (perms(p := None))
      | None \<Rightarrow> take_permissions ps perms)"

definition effective_entries :: "domain_entry list \<Rightarrow> domain_entry list" where
  "effective_entries es =
     (case effective_permissions [] Map.empty es of (order, perms) \<Rightarrow> take_permissions order perms)"

definition domain_entries :: "proxy_settings \<Rightarrow> domain_permission \<Rightarrow> rstr list option" where
  "domain_entries s permission =
     (case proxy_domains s of
        None \<Rightarrow> None
      | Some es \<Rightarrow>
          (let ps = map entry_pattern
                      (filter (\<lambda>e. entry_permission e = permission) (effective_entries es))
           in if ps = [] then None else Some ps))"

definition allowed_domains :: "proxy_settings \<Rightarrow> rstr list option" where
  "allowed_domains s = domain_entries s AllowDomain"

definition denied_domains :: "proxy_settings \<Rightarrow> rstr list option" where
  "denied_domains s = domain_entries s DenyDomain"

text \<open>\<^verbatim>\<open>unwrap_or_default\<close>.\<close>

fun or_empty :: "'a list option \<Rightarrow> 'a list" where
  "or_empty None = []"
| "or_empty (Some xs) = xs"

definition some_entries :: "'a list \<Rightarrow> 'a list option" where
  "some_entries es = (if es = [] then None else Some es)"

definition upsert_domain_permission ::
  "proxy_settings \<Rightarrow> rstr \<Rightarrow> domain_permission \<Rightarrow> (rstr \<Rightarrow> rstr) \<Rightarrow> proxy_settings" where
  "upsert_domain_permission s host permission norm =
     (let es = filter (\<lambda>e. norm (entry_pattern e) \<noteq> norm host) (or_empty (proxy_domains s))
      in s\<lparr>proxy_domains := some_entries (es @ [domain_entry_of host permission])\<rparr>)"

fun add_domain_entries :: "domain_permission \<Rightarrow> domain_entry list \<Rightarrow> rstr list \<Rightarrow> domain_entry list" where
  "add_domain_entries permission es [] = es"
| "add_domain_entries permission es (p # ps) =
     add_domain_entries permission
       (if list_ex (\<lambda>e. entry_pattern e = p \<and> entry_permission e = permission) es then es
        else es @ [domain_entry_of p permission]) ps"

definition set_domain_entries ::
  "proxy_settings \<Rightarrow> rstr list \<Rightarrow> domain_permission \<Rightarrow> proxy_settings" where
  "set_domain_entries s entries permission =
     (let es = filter (\<lambda>e. entry_permission e \<noteq> permission) (or_empty (proxy_domains s))
      in s\<lparr>proxy_domains := some_entries (add_domain_entries permission es entries)\<rparr>)"

definition set_allowed_domains :: "proxy_settings \<Rightarrow> rstr list \<Rightarrow> proxy_settings" where
  "set_allowed_domains s entries = set_domain_entries s entries AllowDomain"

definition set_denied_domains :: "proxy_settings \<Rightarrow> rstr list \<Rightarrow> proxy_settings" where
  "set_denied_domains s entries = set_domain_entries s entries DenyDomain"

subsection \<open>Unix sockets\<close>

fun btree_insert :: "rstr \<Rightarrow> 'v \<Rightarrow> (rstr \<times> 'v) list \<Rightarrow> (rstr \<times> 'v) list" where
  "btree_insert k v [] = [(k, v)]"
| "btree_insert k v ((k', v') # rest) =
     (if k = k' then (k, v) # rest
      else if k < k' then (k, v) # (k', v') # rest
      else (k', v') # btree_insert k v rest)"

definition allow_unix_sockets :: "proxy_settings \<Rightarrow> rstr list" where
  "allow_unix_sockets s =
     (case proxy_unix_sockets s of
        None \<Rightarrow> []
      | Some es \<Rightarrow> map fst (filter (\<lambda>(p, permission). permission = AllowSocket) es))"

definition set_unix_socket_entries ::
  "proxy_settings \<Rightarrow> rstr list \<Rightarrow> socket_permission \<Rightarrow> proxy_settings" where
  "set_unix_socket_entries s entries permission =
     (let es = filter (\<lambda>(p, existing). existing \<noteq> permission) (or_empty (proxy_unix_sockets s))
      in s\<lparr>proxy_unix_sockets :=
             some_entries (foldl (\<lambda>es p. btree_insert p permission es) es entries)\<rparr>)"

definition set_allow_unix_sockets :: "proxy_settings \<Rightarrow> rstr list \<Rightarrow> proxy_settings" where
  "set_allow_unix_sockets s entries = set_unix_socket_entries s entries AllowSocket"

datatype validated_socket_path = NativeSocket rstr | UnixStyleAbsolute rstr

definition unix_style_parse :: "rstr \<Rightarrow> validated_socket_path option" where
  "unix_style_parse p = (if starts_with (lit ''/'') p then Some (UnixStyleAbsolute p) else None)"

definition socket_path_parse :: "net_env \<Rightarrow> rstr \<Rightarrow> (unit, validated_socket_path) outcome" where
  "socket_path_parse env socket_path =
     (if is_absolute socket_path
      then (case from_absolute_path (net_home env) (net_cwd env) socket_path of
              Inl e \<Rightarrow> Err ()
            | Inr p \<Rightarrow> Ok (NativeSocket p))
      else (case unix_style_parse socket_path of Some p \<Rightarrow> Ok p | None \<Rightarrow> Err ()))"

text \<open>The error names the position of the first entry that is no absolute path.\<close>

fun validate_sockets_from :: "net_env \<Rightarrow> nat \<Rightarrow> rstr list \<Rightarrow> (nat, unit) outcome" where
  "validate_sockets_from env index [] = Ok ()"
| "validate_sockets_from env index (p # ps) =
     (case socket_path_parse env p of
        Ok _ \<Rightarrow> validate_sockets_from env (index + 1) ps
      | _ \<Rightarrow> Err index)"

definition validate_unix_socket_allowlist_paths :: "net_env \<Rightarrow> proxy_settings \<Rightarrow> (nat, unit) outcome" where
  "validate_unix_socket_allowlist_paths env s = validate_sockets_from env 0 (allow_unix_sockets s)"

fun allows_method :: "network_mode \<Rightarrow> rstr \<Rightarrow> bool" where
  "allows_method Full m = True"
| "allows_method Limited m = (m \<in> {lit ''GET'', lit ''HEAD'', lit ''OPTIONS''})"

section \<open>The listeners of the proxy\<close>

type_synonym socket_addr = "ip_addr \<times> nat"

abbreviation loopback_at :: "nat \<Rightarrow> socket_addr" where
  "loopback_at port \<equiv> (V4 (Ipv4Addr 127 0 0 1), port)"

definition clamp_non_loopback :: "socket_addr \<Rightarrow> bool \<Rightarrow> socket_addr" where
  "clamp_non_loopback addr allow_non_loopback =
     (if ip_is_loopback (fst addr) then addr
      else if allow_non_loopback then addr
      else loopback_at (snd addr))"

definition clamp_bind_addrs ::
  "socket_addr \<Rightarrow> socket_addr \<Rightarrow> proxy_settings \<Rightarrow> socket_addr \<times> socket_addr" where
  "clamp_bind_addrs http_addr socks_addr cfg =
     (let http_addr = clamp_non_loopback http_addr (dangerously_allow_non_loopback_proxy cfg);
          socks_addr = clamp_non_loopback socks_addr (dangerously_allow_non_loopback_proxy cfg)
      in if allow_unix_sockets cfg = [] \<and> \<not> dangerously_allow_all_unix_sockets cfg
         then (http_addr, socks_addr)
         else (loopback_at (snd http_addr), loopback_at (snd socks_addr)))"

text \<open>\<^verbatim>\<open>str::parse::<u16>\<close>: an optional plus sign and decimal digits.\<close>

definition parse_u16 :: "rstr \<Rightarrow> nat option" where
  "parse_u16 s =
     (let ds = (case strip_prefix (lit ''+'') s of Some rest \<Rightarrow> rest | None \<Rightarrow> s);
          n = digits_value 10 ds
      in if ds \<noteq> [] \<and> list_all (\<lambda>c. to_digit 10 c \<noteq> None) ds \<and> n < 65536 then Some n else None)"

abbreviation port_or :: "nat \<Rightarrow> nat option \<Rightarrow> nat" where
  "port_or default_port port \<equiv> case_option default_port (\<lambda>p. p) port"

definition parse_host_port_fallback :: "rstr \<Rightarrow> nat \<Rightarrow> (unit, rstr \<times> nat) outcome" where
  "parse_host_port_fallback input default_port =
     (let without_scheme = (case split_once_str (lit ''://'') input of
                              Some (_, rest) \<Rightarrow> rest | None \<Rightarrow> input);
          host_port = hd (split_on (ch CHR ''/'') without_scheme);
          host_port = (case rsplit_once (ch CHR ''@'') host_port of
                         Some (_, rest) \<Rightarrow> rest | None \<Rightarrow> host_port);
          bracket = (case strip_prefix (lit ''['') host_port of
                       Some rest \<Rightarrow> split_once (ch CHR '']'') rest | None \<Rightarrow> None)
      in case bracket of
           Some (host, after) \<Rightarrow>
             let port = port_or default_port
                          (case strip_prefix (lit '':'') after of
                             Some p \<Rightarrow> parse_u16 p | None \<Rightarrow> None)
             in if host = [] then Err () else Ok (host, port)
         | None \<Rightarrow>
             (case if count_list host_port (ch CHR '':'') = 1
                   then rsplit_once (ch CHR '':'') host_port else None of
                Some (host, port) \<Rightarrow>
                  if host = [] then Err () else Ok (host, port_or default_port (parse_u16 port))
              | None \<Rightarrow> if host_port = [] then Err () else Ok (host_port, default_port)))"

definition trim_brackets :: "rstr \<Rightarrow> rstr" where
  "trim_brackets s =
     (let bracket = (\<lambda>c. c = ch CHR ''['' \<or> c = ch CHR '']'')
      in rev (dropWhile bracket (rev (dropWhile bracket s))))"

definition parse_host_port :: "net_env \<Rightarrow> rstr \<Rightarrow> nat \<Rightarrow> (unit, rstr \<times> nat) outcome" where
  "parse_host_port env url default_port =
     (let trimmed = trim url
      in if trimmed = [] then Err ()
         else if (case parse_ip_addr trimmed of Some (V6 _) \<Rightarrow> True | _ \<Rightarrow> False) \<and>
                 \<not> starts_with (lit ''['') trimmed
         then Ok (trimmed, default_port)
         else
           let candidate = (if contains_str (lit ''://'') trimmed then trimmed
                            else lit ''http://'' @ trimmed)
           in case net_url_parse env candidate of
                Some (Some host, port) \<Rightarrow>
                  let host = trim_brackets host
                  in if host = [] then Err () else Ok (host, port_or default_port port)
              | _ \<Rightarrow> parse_host_port_fallback trimmed default_port)"

definition resolve_addr :: "net_env \<Rightarrow> rstr \<Rightarrow> nat \<Rightarrow> (unit, socket_addr) outcome" where
  "resolve_addr env url default_port =
     and_then (parse_host_port env url default_port) (\<lambda>(host, port).
       let host = (if to_ascii_lowercase host = lit ''localhost'' then lit ''127.0.0.1'' else host)
       in case parse_ip_addr host of
            Some ip \<Rightarrow> Ok (ip, port)
          | None \<Rightarrow> Ok (loopback_at port))"

datatype resolve_error = InvalidSocket nat | InvalidProxyUrl rstr | InvalidSocksUrl rstr

definition resolve_runtime :: "net_env \<Rightarrow> proxy_settings \<Rightarrow> (resolve_error, socket_addr \<times> socket_addr) outcome" where
  "resolve_runtime env cfg =
     and_then (map_err InvalidSocket (validate_unix_socket_allowlist_paths env cfg)) (\<lambda>_.
     and_then (map_err (\<lambda>_. InvalidProxyUrl (proxy_url cfg)) (resolve_addr env (proxy_url cfg) 3128)) (\<lambda>http_addr.
     and_then (map_err (\<lambda>_. InvalidSocksUrl (socks_url cfg)) (resolve_addr env (socks_url cfg) 8081)) (\<lambda>socks_addr.
       Ok (clamp_bind_addrs http_addr socks_addr cfg))))"

section \<open>Managed constraints\<close>

record proxy_constraints =
  max_enabled :: "bool option"
  max_mode :: "network_mode option"
  max_allow_upstream_proxy :: "bool option"
  max_non_loopback_proxy :: "bool option"
  max_all_unix_sockets :: "bool option"
  managed_allowed :: "rstr list option"
  allowlist_expansion_enabled :: "bool option"
  managed_denied :: "rstr list option"
  denylist_expansion_enabled :: "bool option"
  managed_unix_sockets :: "rstr list option"
  max_allow_local_binding :: "bool option"

definition default_constraints :: proxy_constraints where
  "default_constraints =
     \<lparr>max_enabled = None, max_mode = None, max_allow_upstream_proxy = None,
      max_non_loopback_proxy = None, max_all_unix_sockets = None, managed_allowed = None,
      allowlist_expansion_enabled = None, managed_denied = None,
      denylist_expansion_enabled = None, managed_unix_sockets = None,
      max_allow_local_binding = None\<rparr>"

text \<open>
  The candidate and the allowed value of an error are texts; where the source prints a list or a
  set for debugging they are its elements.
\<close>

datatype shown_value = ShownText rstr | ShownMode network_mode | ShownEntries "rstr list"

datatype constraint_error = InvalidValue rstr shown_value shown_value

fun network_mode_rank :: "network_mode \<Rightarrow> nat" where
  "network_mode_rank Limited = 0"
| "network_mode_rank Full = 1"

definition disabled_by_managed :: "rstr \<Rightarrow> bool \<Rightarrow> (constraint_error, unit) outcome" where
  "disabled_by_managed field reject =
     (if reject
      then Err (InvalidValue field (ShownText (lit ''true''))
                  (ShownText (lit ''false (disabled by managed config)'')))
      else Ok ())"

definition validate_mode :: "network_mode \<Rightarrow> network_mode option \<Rightarrow> (constraint_error, unit) outcome" where
  "validate_mode mode bound =
     (case bound of
        None \<Rightarrow> Ok ()
      | Some m \<Rightarrow>
          if network_mode_rank m < network_mode_rank mode
          then Err (InvalidValue (lit ''network.mode'') (ShownMode mode) (ShownMode m)) else Ok ())"

definition validate_non_global_wildcard_domain_patterns ::
  "rstr \<Rightarrow> rstr list \<Rightarrow> (constraint_error, unit) outcome" where
  "validate_non_global_wildcard_domain_patterns field patterns =
     (case List.find is_global_wildcard_domain_pattern patterns of
        Some p \<Rightarrow>
          Err (InvalidValue field (ShownText (trim p))
                 (ShownText (lit ''exact hosts or scoped wildcards like *.example.com or **.example.com'')))
      | None \<Rightarrow> Ok ())"

abbreviation lower_set :: "rstr list \<Rightarrow> rstr set" where
  "lower_set entries \<equiv> set (map to_ascii_lowercase entries)"

abbreviation missing_from :: "rstr list \<Rightarrow> rstr set \<Rightarrow> rstr list" where
  "missing_from required present \<equiv>
     filter (\<lambda>e. e \<notin> present) (remdups (map to_ascii_lowercase required))"

definition validate_allowed_domains ::
  "net_env \<Rightarrow> bool option \<Rightarrow> rstr list \<Rightarrow> rstr list \<Rightarrow> rstr list \<Rightarrow> (constraint_error, unit) outcome" where
  "validate_allowed_domains env expansion managed allowed denied =
     (let field = lit ''network.allowed_domains'' in
      case expansion of
        Some True \<Rightarrow>
          (let missing = missing_from managed (lower_set allowed \<union> lower_set denied)
           in if missing = [] then Ok ()
              else Err (InvalidValue field (ShownText (lit ''missing managed allowed_domains entries''))
                          (ShownEntries missing)))
      | Some False \<Rightarrow>
          (if lower_set allowed = lower_set managed - lower_set denied then Ok ()
           else Err (InvalidValue field (ShownEntries allowed)
                       (ShownText (lit ''must match managed allowed_domains''))))
      | None \<Rightarrow>
          (let managed_patterns = map (parse_for_constraints (net_url_host env)) managed;
               invalid = filter (\<lambda>e. \<not> list_ex (\<lambda>m. pattern_allows m (parse_for_constraints (net_url_host env) e))
                                        managed_patterns) allowed
           in if invalid = [] then Ok ()
              else Err (InvalidValue field (ShownEntries invalid)
                          (ShownText (lit ''subset of managed allowed_domains'')))))"

definition validate_denied_domains ::
  "bool option \<Rightarrow> rstr list \<Rightarrow> rstr list \<Rightarrow> (constraint_error, unit) outcome" where
  "validate_denied_domains expansion managed denied =
     (let field = lit ''network.denied_domains'' in
      if expansion = Some False
      then if lower_set denied = lower_set managed then Ok ()
           else Err (InvalidValue field (ShownEntries denied)
                       (ShownText (lit ''must match managed denied_domains'')))
      else
        let missing = missing_from managed (lower_set denied)
        in if missing = [] then Ok ()
           else Err (InvalidValue field (ShownText (lit ''missing managed denied_domains entries''))
                       (ShownEntries missing)))"

definition validate_unix_sockets :: "rstr list \<Rightarrow> rstr list \<Rightarrow> (constraint_error, unit) outcome" where
  "validate_unix_sockets managed sockets =
     (let invalid = filter (\<lambda>e. to_ascii_lowercase e \<notin> lower_set managed) sockets
      in if invalid = [] then Ok ()
         else Err (InvalidValue (lit ''network.allow_unix_sockets'') (ShownEntries invalid)
                     (ShownText (lit ''subset of managed allow_unix_sockets''))))"

definition validate_policy_against_constraints ::
  "net_env \<Rightarrow> proxy_settings \<Rightarrow> proxy_constraints \<Rightarrow> (constraint_error, unit) outcome" where
  "validate_policy_against_constraints env s c =
     (let allowed = or_empty (allowed_domains s);
          denied = or_empty (denied_domains s);
          all_sockets = case_option (managed_unix_sockets c = None) (\<lambda>b. b) (max_all_unix_sockets c)
      in
      and_then (validate_non_global_wildcard_domain_patterns (lit ''network.denied_domains'') denied) (\<lambda>_.
      and_then (disabled_by_managed (lit ''network.enabled'')
                  (max_enabled c = Some False \<and> proxy_enabled s)) (\<lambda>_.
      and_then (validate_mode (proxy_mode s) (max_mode c)) (\<lambda>_.
      and_then (disabled_by_managed (lit ''network.allow_upstream_proxy'')
                  (max_allow_upstream_proxy c = Some False \<and> allow_upstream_proxy s)) (\<lambda>_.
      and_then (disabled_by_managed (lit ''network.dangerously_allow_non_loopback_proxy'')
                  (max_non_loopback_proxy c = Some False \<and> dangerously_allow_non_loopback_proxy s)) (\<lambda>_.
      and_then (disabled_by_managed (lit ''network.dangerously_allow_all_unix_sockets'')
                  (dangerously_allow_all_unix_sockets s \<and> \<not> all_sockets)) (\<lambda>_.
      and_then (disabled_by_managed (lit ''network.allow_local_binding'')
                  (max_allow_local_binding c = Some False \<and> allow_local_binding s)) (\<lambda>_.
      and_then (case managed_allowed c of
                  None \<Rightarrow> Ok ()
                | Some managed \<Rightarrow>
                    and_then (validate_non_global_wildcard_domain_patterns (lit ''network.allowed_domains'') managed)
                      (\<lambda>_. validate_allowed_domains env (allowlist_expansion_enabled c) managed allowed denied)) (\<lambda>_.
      and_then (case managed_denied c of
                  None \<Rightarrow> Ok ()
                | Some managed \<Rightarrow>
                    and_then (validate_non_global_wildcard_domain_patterns (lit ''network.denied_domains'') managed)
                      (\<lambda>_. validate_denied_domains (denylist_expansion_enabled c) managed denied)) (\<lambda>_.
      (case managed_unix_sockets c of
         None \<Rightarrow> Ok ()
       | Some managed \<Rightarrow> validate_unix_sockets managed (allow_unix_sockets s))))))))))))"

section \<open>The effective lists\<close>

text \<open>\<open>has_entry es p perm\<close>: the list has an entry for the pattern with this permission.\<close>

definition has_entry :: "domain_entry list \<Rightarrow> rstr \<Rightarrow> domain_permission \<Rightarrow> bool" where
  "has_entry es p perm \<longleftrightarrow> (\<exists>e\<in>set es. entry_pattern e = p \<and> entry_permission e = perm)"

lemma has_entry_simps [simp]:
  "\<not> has_entry [] p perm"
  "has_entry (e # es) p perm \<longleftrightarrow> entry_pattern e = p \<and> entry_permission e = perm \<or> has_entry es p perm"
  "has_entry (es @ es') p perm \<longleftrightarrow> has_entry es p perm \<or> has_entry es' p perm"
  by (auto simp: has_entry_def)

definition strongest :: "domain_entry list \<Rightarrow> rstr \<Rightarrow> domain_permission option" where
  "strongest es p =
     (if has_entry es p DenyDomain then Some DenyDomain
      else if has_entry es p AllowDomain then Some AllowDomain
      else if has_entry es p NoPermission then Some NoPermission else None)"

lemma effective_permissions_spec:
  assumes "distinct order" "set order = dom (strongest done)"
    "effective_permissions order (strongest done) es = (order', perms')"
  shows "perms' = strongest (done @ es) \<and> distinct order' \<and> set order' = dom perms'"
  using assms
proof (induction es arbitrary: order "done")
  case Nil
  then show ?case by simp
next
  case (Cons e es)
  let ?p = "entry_pattern e"
  let ?order = "if strongest done ?p = None then order @ [?p] else order"
  let ?perm = "case strongest done ?p of Some q \<Rightarrow> q | None \<Rightarrow> entry_permission e"
  have step: "(strongest done)(?p \<mapsto>
      if permission_rank ?perm < permission_rank (entry_permission e) then entry_permission e else ?perm)
      = strongest (done @ [e])"
    by (rule ext, cases "entry_permission e") (auto simp: strongest_def)
  have "distinct ?order" "set ?order = dom (strongest (done @ [e]))"
    using Cons.prems(1,2) unfolding step [symmetric] by (auto simp: domIff)
  moreover have "effective_permissions ?order (strongest (done @ [e])) es = (order', perms')"
    using Cons.prems(3) unfolding step [symmetric] by (simp add: Let_def)
  ultimately show ?case using Cons.IH [of ?order "done @ [e]"] by simp
qed

lemma take_permissions_spec:
  "distinct order \<Longrightarrow> set order \<subseteq> dom perms \<Longrightarrow>
   take_permissions order perms = map (\<lambda>p. domain_entry_of p (the (perms p))) order"
proof (induction order arbitrary: perms)
  case (Cons p ps)
  then have "take_permissions ps (perms(p := None)) =
      map (\<lambda>q. domain_entry_of q (the ((perms(p := None)) q))) ps"
    by (intro Cons.IH) auto
  moreover have "map (\<lambda>q. domain_entry_of q (the ((perms(p := None)) q))) ps =
      map (\<lambda>q. domain_entry_of q (the (perms q))) ps"
    using Cons.prems by auto
  ultimately show ?case using Cons.prems by (auto simp del: fun_upd_apply)
qed simp

lemma effective_entries_spec:
  "distinct (map entry_pattern (effective_entries es)) \<and>
   (e \<in> set (effective_entries es) \<longleftrightarrow>
     (\<exists>p perm. e = domain_entry_of p perm \<and> strongest es p = Some perm))"
proof -
  obtain order perms where run: "effective_permissions [] Map.empty es = (order, perms)"
    by (cases "effective_permissions [] Map.empty es")
  have "strongest [] = Map.empty" by (simp add: strongest_def fun_eq_iff)
  then have spec: "perms = strongest es" "distinct order" "set order = dom perms"
    using effective_permissions_spec [of "[]" "[]" es order perms] run by auto
  then have "effective_entries es = map (\<lambda>p. domain_entry_of p (the (strongest es p))) order"
    by (simp add: effective_entries_def run take_permissions_spec)
  moreover have "map entry_pattern (map (\<lambda>p. domain_entry_of p (the (strongest es p))) order) = order"
    by (induction order) (simp_all add: domain_entry_of_def)
  ultimately show ?thesis using spec by (force simp: domIff)
qed

lemma domain_lists:
  "p \<in> set (or_empty (allowed_domains s)) \<longleftrightarrow>
     has_entry (or_empty (proxy_domains s)) p AllowDomain \<and>
     \<not> has_entry (or_empty (proxy_domains s)) p DenyDomain"
  "p \<in> set (or_empty (denied_domains s)) \<longleftrightarrow> has_entry (or_empty (proxy_domains s)) p DenyDomain"
  "allowed_domains s \<noteq> Some []" "denied_domains s \<noteq> Some []"
proof -
  have pick: "p \<in> set (or_empty (domain_entries s perm)) \<longleftrightarrow>
      strongest (or_empty (proxy_domains s)) p = Some perm" for perm
  proof (cases "proxy_domains s")
    case None
    then show ?thesis by (simp add: domain_entries_def strongest_def)
  next
    case (Some es)
    then have "p \<in> set (or_empty (domain_entries s perm)) \<longleftrightarrow>
        (\<exists>e\<in>set (effective_entries es). entry_permission e = perm \<and> entry_pattern e = p)"
      by (auto simp: domain_entries_def Let_def filter_empty_conv)
    also have "\<dots> \<longleftrightarrow> strongest es p = Some perm"
      using effective_entries_spec [of es] by (force simp: domain_entry_of_def)
    finally show ?thesis using Some by simp
  qed
  show "p \<in> set (or_empty (allowed_domains s)) \<longleftrightarrow>
      has_entry (or_empty (proxy_domains s)) p AllowDomain \<and>
      \<not> has_entry (or_empty (proxy_domains s)) p DenyDomain"
    "p \<in> set (or_empty (denied_domains s)) \<longleftrightarrow> has_entry (or_empty (proxy_domains s)) p DenyDomain"
    unfolding allowed_domains_def denied_domains_def pick by (auto simp: strongest_def)
  show "allowed_domains s \<noteq> Some []" "denied_domains s \<noteq> Some []"
    by (auto simp: allowed_domains_def denied_domains_def domain_entries_def Let_def split: option.splits)
qed

text \<open>After an update the normalised host has one entry, the new one.\<close>

lemma upsert_entries:
  "has_entry (or_empty (proxy_domains (upsert_domain_permission s host perm norm))) p q \<longleftrightarrow>
     p = host \<and> q = perm \<or> norm p \<noteq> norm host \<and> has_entry (or_empty (proxy_domains s)) p q"
  by (auto simp: upsert_domain_permission_def some_entries_def has_entry_def domain_entry_of_def Let_def)

section \<open>What validation accepts\<close>

definition settings_within :: "net_env \<Rightarrow> proxy_settings \<Rightarrow> proxy_constraints \<Rightarrow> bool" where
  "settings_within env s c \<longleftrightarrow>
     (let allowed = or_empty (allowed_domains s); denied = or_empty (denied_domains s) in
      list_all (\<lambda>p. \<not> is_global_wildcard_domain_pattern p) denied \<and>
      \<not> (max_enabled c = Some False \<and> proxy_enabled s) \<and>
      (max_mode c = Some Limited \<longrightarrow> proxy_mode s = Limited) \<and>
      \<not> (max_allow_upstream_proxy c = Some False \<and> allow_upstream_proxy s) \<and>
      \<not> (max_non_loopback_proxy c = Some False \<and> dangerously_allow_non_loopback_proxy s) \<and>
      (max_all_unix_sockets c = Some False \<or> max_all_unix_sockets c = None \<and> managed_unix_sockets c \<noteq> None
         \<longrightarrow> \<not> dangerously_allow_all_unix_sockets s) \<and>
      \<not> (max_allow_local_binding c = Some False \<and> allow_local_binding s) \<and>
      (\<forall>managed. managed_allowed c = Some managed \<longrightarrow>
         list_all (\<lambda>p. \<not> is_global_wildcard_domain_pattern p) managed \<and>
         (allowlist_expansion_enabled c = Some True \<longrightarrow>
            lower_set managed \<subseteq> lower_set allowed \<union> lower_set denied) \<and>
         (allowlist_expansion_enabled c = Some False \<longrightarrow>
            lower_set allowed = lower_set managed - lower_set denied) \<and>
         (allowlist_expansion_enabled c = None \<longrightarrow>
            (\<forall>e\<in>set allowed. \<exists>m\<in>set managed. pattern_allows (parse_for_constraints (net_url_host env) m)
               (parse_for_constraints (net_url_host env) e)))) \<and>
      (\<forall>managed. managed_denied c = Some managed \<longrightarrow>
         list_all (\<lambda>p. \<not> is_global_wildcard_domain_pattern p) managed \<and>
         lower_set managed \<subseteq> lower_set denied \<and>
         (denylist_expansion_enabled c = Some False \<longrightarrow> lower_set denied = lower_set managed)) \<and>
      (\<forall>managed. managed_unix_sockets c = Some managed \<longrightarrow>
         lower_set (allow_unix_sockets s) \<subseteq> lower_set managed))"

lemma check_iffs:
  "disabled_by_managed field b = Ok u \<longleftrightarrow> \<not> b"
  "validate_mode m bound = Ok u \<longleftrightarrow> (bound = Some Limited \<longrightarrow> m = Limited)"
  "validate_non_global_wildcard_domain_patterns field ps = Ok u \<longleftrightarrow>
     list_all (\<lambda>p. \<not> is_global_wildcard_domain_pattern p) ps"
  "validate_allowed_domains env expansion managed allowed denied = Ok u \<longleftrightarrow>
     (expansion = Some True \<longrightarrow> lower_set managed \<subseteq> lower_set allowed \<union> lower_set denied) \<and>
     (expansion = Some False \<longrightarrow> lower_set allowed = lower_set managed - lower_set denied) \<and>
     (expansion = None \<longrightarrow>
        (\<forall>e\<in>set allowed. \<exists>m\<in>set managed. pattern_allows (parse_for_constraints (net_url_host env) m)
               (parse_for_constraints (net_url_host env) e)))"
  "validate_denied_domains expansion managed denied = Ok u \<longleftrightarrow>
     lower_set managed \<subseteq> lower_set denied \<and>
     (expansion = Some False \<longrightarrow> lower_set denied = lower_set managed)"
  "validate_unix_sockets managed sockets = Ok u \<longleftrightarrow> lower_set sockets \<subseteq> lower_set managed"
proof -
  show "disabled_by_managed field b = Ok u \<longleftrightarrow> \<not> b" by (simp add: disabled_by_managed_def)
  show "validate_mode m bound = Ok u \<longleftrightarrow> (bound = Some Limited \<longrightarrow> m = Limited)"
    by (cases m; cases "the bound") (auto simp: validate_mode_def split: option.splits)
  show "validate_non_global_wildcard_domain_patterns field ps = Ok u \<longleftrightarrow>
     list_all (\<lambda>p. \<not> is_global_wildcard_domain_pattern p) ps"
  proof (cases "List.find is_global_wildcard_domain_pattern ps")
    case None
    then show ?thesis
      by (simp add: validate_non_global_wildcard_domain_patterns_def list_all_iff) (simp add: find_None_iff)
  next
    case (Some p)
    then have "p \<in> set ps" "is_global_wildcard_domain_pattern p" by (auto simp: find_Some_iff)
    then show ?thesis
      using Some by (auto simp: validate_non_global_wildcard_domain_patterns_def list_all_iff)
  qed
  show "validate_allowed_domains env expansion managed allowed denied = Ok u \<longleftrightarrow>
     (expansion = Some True \<longrightarrow> lower_set managed \<subseteq> lower_set allowed \<union> lower_set denied) \<and>
     (expansion = Some False \<longrightarrow> lower_set allowed = lower_set managed - lower_set denied) \<and>
     (expansion = None \<longrightarrow>
        (\<forall>e\<in>set allowed. \<exists>m\<in>set managed. pattern_allows (parse_for_constraints (net_url_host env) m)
               (parse_for_constraints (net_url_host env) e)))"
    by (cases expansion; cases "the expansion")
      (auto simp: validate_allowed_domains_def Let_def filter_empty_conv list_ex_iff)
  show "validate_denied_domains expansion managed denied = Ok u \<longleftrightarrow>
     lower_set managed \<subseteq> lower_set denied \<and>
     (expansion = Some False \<longrightarrow> lower_set denied = lower_set managed)"
    by (auto simp: validate_denied_domains_def Let_def filter_empty_conv)
  show "validate_unix_sockets managed sockets = Ok u \<longleftrightarrow> lower_set sockets \<subseteq> lower_set managed"
    by (auto simp: validate_unix_sockets_def Let_def filter_empty_conv)
qed

lemma validate_iff: "validate_policy_against_constraints env s c = Ok () \<longleftrightarrow> settings_within env s c"
proof -
  have seq: "and_then m (\<lambda>_. k) = Ok () \<longleftrightarrow> m = Ok () \<and> k = Ok ()"
    for m k :: "(constraint_error, unit) outcome" by (cases m) auto
  have opt: "(case x of None \<Rightarrow> Ok () | Some y \<Rightarrow> f y) = Ok () \<longleftrightarrow> (\<forall>y. x = Some y \<longrightarrow> f y = Ok ())"
    for x and f :: "'a \<Rightarrow> (constraint_error, unit) outcome" by (cases x) auto
  have all: "(dangerously_allow_all_unix_sockets s \<and>
      \<not> case_option (managed_unix_sockets c = None) (\<lambda>b. b) (max_all_unix_sockets c)) \<longleftrightarrow>
      \<not> (max_all_unix_sockets c = Some False \<or> max_all_unix_sockets c = None \<and> managed_unix_sockets c \<noteq> None
         \<longrightarrow> \<not> dangerously_allow_all_unix_sockets s)"
    by (cases "max_all_unix_sockets c") auto
  show ?thesis
    unfolding validate_policy_against_constraints_def settings_within_def Let_def
    by (simp only: seq opt check_iffs all not_not conj_assoc)
qed

text \<open>The mode is checked apart from the rest, so it can be changed on its own.\<close>

lemma settings_within_mode:
  assumes "settings_within env s c" "settings_within env (s'\<lparr>proxy_mode := m\<rparr>) c"
  shows "settings_within env (s\<lparr>proxy_mode := m\<rparr>) c"
  using assms
  by (simp add: settings_within_def allowed_domains_def denied_domains_def domain_entries_def
      allow_unix_sockets_def Let_def)

lemma clamp_bind_addrs_local:
  assumes "\<not> dangerously_allow_non_loopback_proxy s \<or> allow_unix_sockets s \<noteq> [] \<or>
         dangerously_allow_all_unix_sockets s"
  shows "ip_is_loopback (fst (fst (clamp_bind_addrs a b s))) \<and>
         ip_is_loopback (fst (snd (clamp_bind_addrs a b s)))"
  using assms by (auto simp: clamp_bind_addrs_def clamp_non_loopback_def)

section \<open>Properties\<close>

text \<open>
  (C28) Settings that pass the managed constraints give the user nothing the constraints withhold.
  Every switch that is managed to be off is off, the mode is limited where it has to be, and all Unix
  sockets can only be allowed where that is managed, or neither it nor a list of sockets is.  Sockets are
  managed ones.  No entry of the deny list is a global wildcard; every managed denied domain is denied, and
  only these where the list may not be extended.  The user's allowlist covers the managed one, is equal to
  it, or is bounded by it, as the managed setting says (entries the user denies taken out): in the last
  case each entry is allowed by a managed one, and for plain domains no host matches it that does not match
  the managed entry.
\<close>

theorem validated_settings_respect_limits:
  assumes ok: "validate_policy_against_constraints env s c = Ok ()"
  shows "(max_enabled c = Some False \<longrightarrow> \<not> proxy_enabled s) \<and>
    (max_mode c = Some Limited \<longrightarrow> proxy_mode s = Limited) \<and>
    (max_allow_local_binding c = Some False \<longrightarrow> \<not> allow_local_binding s) \<and>
    (max_allow_upstream_proxy c = Some False \<longrightarrow> \<not> allow_upstream_proxy s) \<and>
    (max_non_loopback_proxy c = Some False \<longrightarrow> \<not> dangerously_allow_non_loopback_proxy s) \<and>
    (dangerously_allow_all_unix_sockets s \<longrightarrow>
       max_all_unix_sockets c = Some True \<or> max_all_unix_sockets c = None \<and> managed_unix_sockets c = None) \<and>
    (\<forall>managed. managed_unix_sockets c = Some managed \<longrightarrow> lower_set (allow_unix_sockets s) \<subseteq> lower_set managed) \<and>
    (\<forall>p \<in> set (or_empty (denied_domains s)). \<not> is_global_wildcard_domain_pattern p) \<and>
    (\<forall>managed. managed_denied c = Some managed \<longrightarrow>
       lower_set managed \<subseteq> lower_set (or_empty (denied_domains s)) \<and>
       (denylist_expansion_enabled c = Some False \<longrightarrow> lower_set (or_empty (denied_domains s)) = lower_set managed)) \<and>
    (\<forall>managed. managed_allowed c = Some managed \<longrightarrow>
       (\<forall>p \<in> set managed. \<not> is_global_wildcard_domain_pattern p) \<and>
       (case allowlist_expansion_enabled c of
          Some True \<Rightarrow> lower_set managed \<subseteq> lower_set (or_empty (allowed_domains s)) \<union> lower_set (or_empty (denied_domains s))
        | Some False \<Rightarrow> lower_set (or_empty (allowed_domains s)) = lower_set managed - lower_set (or_empty (denied_domains s))
        | None \<Rightarrow> (\<forall>e \<in> set (or_empty (allowed_domains s)). \<exists>m \<in> set managed.
            let entry = parse_for_constraints (net_url_host env) e; bound = parse_for_constraints (net_url_host env) m
            in pattern_allows bound entry \<and>
               (documented_globs (net_globs env) \<and> plain_domain (pattern_domain entry) \<and> plain_domain (pattern_domain bound) \<longrightarrow>
                pattern_hosts (net_globs env) entry \<subseteq> pattern_hosts (net_globs env) bound))))"
proof -
  have within: "settings_within env s c" using ok by (simp add: validate_iff)
  note w = within [unfolded settings_within_def Let_def]
  have allowed: "case allowlist_expansion_enabled c of
          Some True \<Rightarrow> lower_set managed \<subseteq> lower_set (or_empty (allowed_domains s)) \<union> lower_set (or_empty (denied_domains s))
        | Some False \<Rightarrow> lower_set (or_empty (allowed_domains s)) = lower_set managed - lower_set (or_empty (denied_domains s))
        | None \<Rightarrow> (\<forall>e \<in> set (or_empty (allowed_domains s)). \<exists>m \<in> set managed.
            let entry = parse_for_constraints (net_url_host env) e; bound = parse_for_constraints (net_url_host env) m
            in pattern_allows bound entry \<and>
               (documented_globs (net_globs env) \<and> plain_domain (pattern_domain entry) \<and> plain_domain (pattern_domain bound) \<longrightarrow>
                pattern_hosts (net_globs env) entry \<subseteq> pattern_hosts (net_globs env) bound))"
    if "managed_allowed c = Some managed" for managed
  proof (cases "allowlist_expansion_enabled c")
    case None
    then have "\<forall>e \<in> set (or_empty (allowed_domains s)). \<exists>m \<in> set managed.
        pattern_allows (parse_for_constraints (net_url_host env) m) (parse_for_constraints (net_url_host env) e)"
      using w that by blast
    with None show ?thesis unfolding Let_def None option.case by (meson pattern_allows_hosts)
  next
    case (Some b)
    with w that show ?thesis by (cases b) simp_all
  qed
  have "dangerously_allow_all_unix_sockets s \<longrightarrow>
      max_all_unix_sockets c = Some True \<or> max_all_unix_sockets c = None \<and> managed_unix_sockets c = None"
    using w by (cases "max_all_unix_sockets c") auto
  moreover have "(\<forall>p \<in> set managed. \<not> is_global_wildcard_domain_pattern p)" if "managed_allowed c = Some managed" for managed
    using w that by (simp add: list_all_iff)
  moreover have "\<forall>p \<in> set (or_empty (denied_domains s)). \<not> is_global_wildcard_domain_pattern p"
    using w by (simp add: list_all_iff)
  ultimately show ?thesis using w by (intro conjI allI impI allowed) simp_all
qed

theorem validated_settings_respect_limits_witness:
  "pattern_hosts suffix_globs (Exact (lit ''a.b'')) \<subseteq> pattern_hosts suffix_globs (SubdomainsOnly (lit ''b''))"
proof -
  define env where "env = \<lparr>net_globs = suffix_globs,
    net_url_host = Some, net_url_parse = \<lambda>_. None, net_home = None, net_cwd = Inr (lit ''/'')\<rparr>"
  define s where "s = default_settings\<lparr>proxy_domains := Some [domain_entry_of (lit ''a.b'') AllowDomain]\<rparr>"
  define c where "c = default_constraints\<lparr>managed_allowed := Some [lit ''*.b'']\<rparr>"
  have lists: "or_empty (allowed_domains s) = [lit ''a.b'']" "or_empty (denied_domains s) = []"
    by (simp_all add: s_def default_settings_def allowed_domains_def denied_domains_def domain_entries_def
        effective_entries_def domain_entry_of_def)
  have exact: "parse_for_constraints Some (lit ''a.b'') = Exact (lit ''a.b'')"
    and managed: "parse_for_constraints Some (lit ''*.b'') = SubdomainsOnly (lit ''b'')"
    by (simp_all add: parse_for_constraints_def parse_domain_for_constraints_def addr_eval)
  have "pattern_allows (SubdomainsOnly (lit ''b'')) (Exact (lit ''a.b''))"
    by (simp add: is_strict_subdomain_def normalize_domain_def addr_eval)
  moreover have "\<not> is_global_wildcard_domain_pattern (lit ''*.b'')"
    by (simp add: is_global_wildcard_domain_pattern_def expand_domain_pattern_def normalize_pattern_def
        pattern_parse_def parse_domain_def addr_eval)
  ultimately have "settings_within env s c"
    using exact managed lists
    by (simp add: settings_within_def env_def c_def default_constraints_def Let_def del: lit_simps)
  then have "validate_policy_against_constraints env s c = Ok ()" by (simp add: validate_iff)
  moreover have "plain_domain (lit ''a.b'')" "plain_domain (lit ''b'')"
    by (simp_all add: plain_domain_def plain_host_def is_whitespace_def normalize_domain_def addr_eval)
  ultimately show ?thesis
    using validated_settings_respect_limits [of env s c] lists exact managed suffix_globs_documented
    by (simp add: c_def default_constraints_def env_def Let_def del: lit_simps)
qed

text \<open>
  The listeners of the proxy are bound to loopback addresses, whatever addresses the settings
  name and however the URL parser reads them, unless other addresses were enabled on purpose; and
  even then as soon as a request may be forwarded to a Unix socket.
\<close>

theorem listeners_stay_local:
  assumes "resolve_runtime env s = Ok (http_addr, socks_addr)"
    and "\<not> dangerously_allow_non_loopback_proxy s \<or> allow_unix_sockets s \<noteq> [] \<or>
         dangerously_allow_all_unix_sockets s"
  shows "ip_is_loopback (fst http_addr) \<and> ip_is_loopback (fst socks_addr)"
proof -
  obtain a b where "(http_addr, socks_addr) = clamp_bind_addrs a b s"
    using assms(1) unfolding resolve_runtime_def and_then_Ok_iff by (metis outcome.inject(1))
  then show ?thesis using clamp_bind_addrs_local [OF assms(2), of a b] by (metis fst_conv snd_conv)
qed

theorem listeners_stay_local_witness:
  "ip_is_loopback (V4 (Ipv4Addr 127 0 0 1)) \<and> ip_is_loopback (V4 (Ipv4Addr 127 0 0 1))"
proof -
  define env where "env = \<lparr>net_globs = \<lparr>glob_ok = \<lambda>_. True, globset_ok = \<lambda>_. True, glob_match = \<lambda>g h. g = h\<rparr>,
    net_url_host = Some, net_url_parse = \<lambda>_. None, net_home = None, net_cwd = Inr (lit ''/'')\<rparr>"
  define s where "s = default_settings\<lparr>proxy_url := lit ''8.8.8.8:1'', socks_url := lit ''8.8.8.8:2''\<rparr>"
  have "resolve_runtime env s = Ok (loopback_at 1, loopback_at 2)"
    by (simp add: resolve_runtime_def validate_unix_socket_allowlist_paths_def allow_unix_sockets_def s_def
        default_settings_def env_def resolve_addr_def parse_host_port_def parse_host_port_fallback_def
        rsplit_once_def parse_u16_def clamp_bind_addrs_def clamp_non_loopback_def addr_eval)
  from listeners_stay_local [OF this] show ?thesis by (simp add: s_def default_settings_def)
qed

end
