(* ===== verification/Net_State.thy ===== *)
theory Net_State
  imports Net_Config
begin

text \<open>
  The state of the network proxy and its decisions: \<^verbatim>\<open>network-proxy/src/runtime.rs\<close>,
  \<^verbatim>\<open>build_config_state\<close> of \<^verbatim>\<open>state.rs\<close>, \<^verbatim>\<open>evaluate_host_policy\<close> of \<^verbatim>\<open>network_policy.rs\<close> and
  the check before a connection in \<^verbatim>\<open>connect_policy.rs\<close>.

  The state is shared behind a lock, and every operation first lets the reloader replace it.  An
  operation takes the answer of the reloader as an argument.  \<^verbatim>\<open>set_network_mode\<close> and
  \<^verbatim>\<open>update_domain_list\<close> read a snapshot, work on it without the lock and start again when the
  state has changed meanwhile: their argument is the list of rounds, each with the answer of the
  reloader and what other tasks do to the state between the snapshot and the write; the value
  \<^const>\<open>None\<close> means that the rounds given are used up.  Name resolution, with its time limit, and the
  creation of certificates are the record \<open>proxy_io\<close>.

  Shown here: what must hold of a request that is let through, whoever decides; the invariant that
  the compiled lists belong to the settings and the settings to the constraints, whatever other
  tasks do in between; and that a host which was denied at run time stays denied under all its
  spellings.
\<close>

section \<open>State\<close>

record blocked_request =
  blocked_host :: rstr
  blocked_reason :: rstr
  blocked_client :: "rstr option"
  blocked_method :: "rstr option"
  blocked_mode :: "network_mode option"
  blocked_protocol :: rstr
  blocked_decision :: "rstr option"
  blocked_source :: "rstr option"
  blocked_port :: "nat option"
  blocked_timestamp :: int

record 'm config_state =
  cs_config :: proxy_settings
  cs_allow_set :: "rstr list"
  cs_deny_set :: "rstr list"
  cs_mitm :: "'m option"
  cs_constraints :: proxy_constraints
  cs_blocked :: "blocked_request list"
  cs_blocked_total :: "64 word"

record 'm proxy_io =
  io_env :: net_env
  io_mitm_new :: "bool \<Rightarrow> bool \<Rightarrow> 'm option"
  io_lookup_host :: "rstr \<Rightarrow> nat \<Rightarrow> socket_addr list option"

datatype proxy_error =
    BadSocketPath nat
  | BadConstraint constraint_error
  | BadPattern compile_error
  | MitmFailed
  | ReloadFailed rstr
  | BadHost rstr

abbreviation io_globs :: "'m proxy_io \<Rightarrow> glob_lib" where
  "io_globs io \<equiv> net_globs (io_env io)"

definition build_config_state ::
  "'m proxy_io \<Rightarrow> proxy_settings \<Rightarrow> proxy_constraints \<Rightarrow> (proxy_error, 'm config_state) outcome" where
  "build_config_state io config constraints =
     and_then (map_err BadSocketPath (validate_unix_socket_allowlist_paths (io_env io) config)) (\<lambda>_.
     let allowed = or_empty (allowed_domains config); denied = or_empty (denied_domains config) in
     and_then (map_err BadConstraint
                 (validate_non_global_wildcard_domain_patterns (lit ''network.denied_domains'') denied)) (\<lambda>_.
     and_then (map_err BadPattern (compile_denylist_globset (io_globs io) denied)) (\<lambda>deny_set.
     and_then (map_err BadPattern (compile_allowlist_globset (io_globs io) allowed)) (\<lambda>allow_set.
     and_then (if proxy_mitm config
               then (case io_mitm_new io (allow_upstream_proxy config) (allow_local_binding config) of
                       Some m \<Rightarrow> Ok (Some m)
                     | None \<Rightarrow> Err MitmFailed)
               else Ok None) (\<lambda>mitm.
       Ok \<lparr>cs_config = config, cs_allow_set = allow_set, cs_deny_set = deny_set, cs_mitm = mitm,
           cs_constraints = constraints, cs_blocked = [], cs_blocked_total = 0\<rparr>)))))"

text \<open>
  A reload reads the log of blocked requests and writes the new state later, in a second critical
  section.
\<close>

type_synonym 'm reload = "(proxy_error, 'm config_state option) outcome"

definition reload_commit :: "'m config_state \<Rightarrow> 'm config_state \<Rightarrow> 'm config_state" where
  "reload_commit snapshot new_state =
     new_state\<lparr>cs_blocked := cs_blocked snapshot, cs_blocked_total := cs_blocked_total snapshot\<rparr>"

definition reload_if_needed ::
  "'m reload \<Rightarrow> 'm config_state \<Rightarrow> (proxy_error, 'm config_state) outcome" where
  "reload_if_needed reload st =
     and_then reload (\<lambda>answer.
       case answer of None \<Rightarrow> Ok st | Some new_state \<Rightarrow> Ok (reload_commit st new_state))"

definition force_reload ::
  "(proxy_error, 'm config_state) outcome \<Rightarrow> 'm config_state \<Rightarrow> (proxy_error, 'm config_state) outcome" where
  "force_reload reloaded st =
     and_then reloaded (\<lambda>new_state. Ok (new_state\<lparr>cs_blocked := cs_blocked st\<rparr>))"

definition replace_config_state ::
  "'m reload \<Rightarrow> 'm config_state \<Rightarrow> 'm config_state \<Rightarrow> (proxy_error, 'm config_state) outcome" where
  "replace_config_state reload new_state st =
     and_then (reload_if_needed reload st) (\<lambda>st. Ok (reload_commit st new_state))"

section \<open>Decisions about hosts\<close>

datatype block_reason = Denied | NotAllowed | NotAllowedLocal

fun block_reason_str :: "block_reason \<Rightarrow> rstr" where
  "block_reason_str Denied = lit ''denied''"
| "block_reason_str NotAllowed = lit ''not_allowed''"
| "block_reason_str NotAllowedLocal = lit ''not_allowed_local''"

datatype block_decision = Allowed | Blocked block_reason

definition globset_matches_host_or_unscoped :: "glob_lib \<Rightarrow> rstr list \<Rightarrow> rstr \<Rightarrow> bool" where
  "globset_matches_host_or_unscoped lib globs host \<longleftrightarrow>
     globset_is_match lib globs host \<or>
     (case unscoped_ip_literal host of Some ip \<Rightarrow> globset_is_match lib globs ip | None \<Rightarrow> False)"

definition is_explicit_local_allowlisted :: "rstr list \<Rightarrow> rstr \<Rightarrow> bool" where
  "is_explicit_local_allowlisted allowed host =
     list_ex (\<lambda>p.
       let p = trim p
       in if p = lit ''*'' \<or> starts_with (lit ''*.'') p \<or> starts_with (lit ''**.'') p then False
          else if ch CHR ''*'' \<in> set p \<or> ch CHR ''?'' \<in> set p then False
          else normalize_host p = host \<or>
               (case unscoped_ip_literal host of Some ip \<Rightarrow> normalize_host p = ip | None \<Rightarrow> False))
       allowed"

definition host_resolves_to_non_public_ip :: "'m proxy_io \<Rightarrow> rstr \<Rightarrow> nat \<Rightarrow> bool" where
  "host_resolves_to_non_public_ip io host port =
     (case parse_ip_addr host of
        Some ip \<Rightarrow> is_non_public_ip ip
      | None \<Rightarrow>
          (case io_lookup_host io host port of
             None \<Rightarrow> True
           | Some addrs \<Rightarrow> list_ex (\<lambda>addr. is_non_public_ip (fst addr)) addrs))"

definition local_literal :: "rstr \<Rightarrow> bool" where
  "local_literal host =
     (let host_no_scope = (case unscoped_ip_literal host of Some ip \<Rightarrow> ip | None \<Rightarrow> host)
      in if is_loopback_host host then True
         else case parse_ip_addr host_no_scope of Some ip \<Rightarrow> is_non_public_ip ip | None \<Rightarrow> False)"

definition host_decision :: "'m proxy_io \<Rightarrow> rstr \<Rightarrow> nat \<Rightarrow> 'm config_state \<Rightarrow> block_decision" where
  "host_decision io input port st =
     (case host_parse input of
        Ok host \<Rightarrow>
          (let allowed_opt = allowed_domains (cs_config st);
               allowed = or_empty allowed_opt
           in if globset_matches_host_or_unscoped (io_globs io) (cs_deny_set st) host
              then Blocked Denied
              else
                let is_allowlisted = globset_matches_host_or_unscoped (io_globs io) (cs_allow_set st) host
                in if \<not> allow_local_binding (cs_config st) \<and>
                      (if local_literal host then \<not> is_explicit_local_allowlisted allowed host
                       else host_resolves_to_non_public_ip io host port)
                   then Blocked NotAllowedLocal
                   else if allowed_opt = None \<or> \<not> is_allowlisted then Blocked NotAllowed
                   else Allowed)
      | _ \<Rightarrow> Blocked NotAllowed)"

definition host_blocked ::
  "'m proxy_io \<Rightarrow> 'm reload \<Rightarrow> rstr \<Rightarrow> nat \<Rightarrow> 'm config_state \<Rightarrow>
   (proxy_error, block_decision \<times> 'm config_state) outcome" where
  "host_blocked io reload input port st =
     and_then (reload_if_needed reload st) (\<lambda>st. Ok (host_decision io input port st, st))"

datatype network_protocol = Http | HttpsConnect | Socks5Tcp | Socks5Udp

datatype policy_decision = DenyRequest | AskUser

datatype decision_source = BaselinePolicy | ModeGuard | ProxyState | Decider

record policy_request =
  req_protocol :: network_protocol
  req_host :: rstr
  req_port :: nat
  req_client_addr :: "rstr option"
  req_method :: "rstr option"
  req_command :: "rstr option"
  req_exec_policy_hint :: "rstr option"

datatype network_decision = AllowRequest | DenyRequestWith rstr decision_source policy_decision

definition deny_with_source :: "rstr \<Rightarrow> decision_source \<Rightarrow> network_decision" where
  "deny_with_source reason source =
     DenyRequestWith (if reason = [] then lit ''policy_denied'' else reason) source DenyRequest"

fun map_decider_decision :: "network_decision \<Rightarrow> network_decision" where
  "map_decider_decision AllowRequest = AllowRequest"
| "map_decider_decision (DenyRequestWith reason source decision) = DenyRequestWith reason Decider decision"

text \<open>The decision, and whether the decider has overridden the baseline (for the audit event).\<close>

fun decide_request ::
  "(policy_request \<Rightarrow> network_decision) option \<Rightarrow> policy_request \<Rightarrow> block_decision \<Rightarrow> network_decision \<times> bool" where
  "decide_request decider request Allowed = (AllowRequest, False)"
| "decide_request (Some decide) request (Blocked NotAllowed) =
     (let d = map_decider_decision (decide request) in (d, d = AllowRequest))"
| "decide_request None request (Blocked NotAllowed) =
     (deny_with_source (block_reason_str NotAllowed) BaselinePolicy, False)"
| "decide_request decider request (Blocked reason) =
     (deny_with_source (block_reason_str reason) BaselinePolicy, False)"

definition evaluate_host_policy ::
  "'m proxy_io \<Rightarrow> 'm reload \<Rightarrow> (policy_request \<Rightarrow> network_decision) option \<Rightarrow> policy_request \<Rightarrow>
   'm config_state \<Rightarrow> (proxy_error, (network_decision \<times> bool) \<times> 'm config_state) outcome" where
  "evaluate_host_policy io reload decider request st =
     and_then (host_blocked io reload (req_host request) (req_port request) st) (\<lambda>(decision, st).
       Ok (decide_request decider request decision, st))"

text \<open>The check before a direct connection; the connection itself is a parameter.\<close>

datatype 'c connect_result = TargetRejected | Connected 'c

definition target_connect ::
  "bool \<Rightarrow> (socket_addr \<Rightarrow> 'c) \<Rightarrow> socket_addr \<Rightarrow> 'c connect_result" where
  "target_connect local_binding connect addr =
     (if \<not> local_binding \<and> is_non_public_ip (fst addr) then TargetRejected
      else Connected (connect addr))"

section \<open>The log of blocked requests\<close>

definition MAX_BLOCKED_EVENTS :: nat where
  "MAX_BLOCKED_EVENTS = 200"

definition saturating_incr :: "64 word \<Rightarrow> 64 word" where
  "saturating_incr n = (if n = - 1 then n else n + 1)"

fun pop_front_while :: "'a list \<Rightarrow> 'a list" where
  "pop_front_while q = (if MAX_BLOCKED_EVENTS < length q then pop_front_while (tl q) else q)"

declare pop_front_while.simps [simp del]

definition record_entry :: "blocked_request \<Rightarrow> 'm config_state \<Rightarrow> 'm config_state" where
  "record_entry entry st =
     st\<lparr>cs_blocked := pop_front_while (cs_blocked st @ [entry]),
        cs_blocked_total := saturating_incr (cs_blocked_total st)\<rparr>"

text \<open>The result is what the observer of blocked requests, if there is one, is told.\<close>

definition record_blocked ::
  "bool \<Rightarrow> 'm reload \<Rightarrow> blocked_request \<Rightarrow> 'm config_state \<Rightarrow>
   (proxy_error, blocked_request option \<times> 'm config_state) outcome" where
  "record_blocked observed reload entry st =
     and_then (reload_if_needed reload st) (\<lambda>st.
       Ok (if observed then Some entry else None, record_entry entry st))"

definition drain_blocked ::
  "'m reload \<Rightarrow> 'm config_state \<Rightarrow> (proxy_error, blocked_request list \<times> 'm config_state) outcome" where
  "drain_blocked reload st =
     and_then (reload_if_needed reload st) (\<lambda>st. Ok (cs_blocked st, st\<lparr>cs_blocked := []\<rparr>))"

subsection \<open>Reading the policy\<close>

definition read_policy ::
  "('m config_state \<Rightarrow> 'a) \<Rightarrow> 'm reload \<Rightarrow> 'm config_state \<Rightarrow> (proxy_error, 'a \<times> 'm config_state) outcome" where
  "read_policy f reload st = and_then (reload_if_needed reload st) (\<lambda>st. Ok (f st, st))"

definition current_cfg :: "'m reload \<Rightarrow> 'm config_state \<Rightarrow> (proxy_error, proxy_settings \<times> 'm config_state) outcome" where
  "current_cfg = read_policy cs_config"

definition current_patterns ::
  "'m reload \<Rightarrow> 'm config_state \<Rightarrow> (proxy_error, (rstr list \<times> rstr list) \<times> 'm config_state) outcome" where
  "current_patterns =
     read_policy (\<lambda>st. (or_empty (allowed_domains (cs_config st)), or_empty (denied_domains (cs_config st))))"

definition enabled_now :: "'m reload \<Rightarrow> 'm config_state \<Rightarrow> (proxy_error, bool \<times> 'm config_state) outcome" where
  "enabled_now = read_policy (\<lambda>st. proxy_enabled (cs_config st))"

definition upstream_proxy_now :: "'m reload \<Rightarrow> 'm config_state \<Rightarrow> (proxy_error, bool \<times> 'm config_state) outcome" where
  "upstream_proxy_now = read_policy (\<lambda>st. allow_upstream_proxy (cs_config st))"

definition local_binding_now :: "'m reload \<Rightarrow> 'm config_state \<Rightarrow> (proxy_error, bool \<times> 'm config_state) outcome" where
  "local_binding_now = read_policy (\<lambda>st. allow_local_binding (cs_config st))"

definition network_mode_now :: "'m reload \<Rightarrow> 'm config_state \<Rightarrow> (proxy_error, network_mode \<times> 'm config_state) outcome" where
  "network_mode_now = read_policy (\<lambda>st. proxy_mode (cs_config st))"

definition mitm_state_now :: "'m reload \<Rightarrow> 'm config_state \<Rightarrow> (proxy_error, 'm option \<times> 'm config_state) outcome" where
  "mitm_state_now = read_policy cs_mitm"

text \<open>
  Whether requests may go to a Unix socket: only where the platform supports it.
  \<^verbatim>\<open>fs::canonicalize\<close> is the argument \<open>canonicalize\<close>.
\<close>

fun socket_listed :: "net_env \<Rightarrow> (rstr \<Rightarrow> rstr option) \<Rightarrow> rstr \<Rightarrow> rstr option \<Rightarrow> rstr list \<Rightarrow> bool" where
  "socket_listed env canonicalize requested requested_canonical [] = False"
| "socket_listed env canonicalize requested requested_canonical (allowed # rest) =
     (case socket_path_parse env allowed of
        Ok (NativeSocket p) \<Rightarrow>
          p = requested \<or>
          requested_canonical \<noteq> None \<and> canonicalize p = requested_canonical \<or>
          socket_listed env canonicalize requested requested_canonical rest
      | _ \<Rightarrow> socket_listed env canonicalize requested requested_canonical rest)"

definition is_unix_socket_allowed ::
  "'m proxy_io \<Rightarrow> bool \<Rightarrow> (rstr \<Rightarrow> rstr option) \<Rightarrow> 'm reload \<Rightarrow> rstr \<Rightarrow> 'm config_state \<Rightarrow>
   (proxy_error, bool \<times> 'm config_state) outcome" where
  "is_unix_socket_allowed io supported canonicalize reload path =
     read_policy (\<lambda>st.
       if \<not> supported then False
       else if \<not> is_absolute path then False
       else if dangerously_allow_all_unix_sockets (cs_config st) then True
       else case from_absolute_path (net_home (io_env io)) (net_cwd (io_env io)) path of
              Inl e \<Rightarrow> False
            | Inr requested \<Rightarrow>
                socket_listed (io_env io) canonicalize requested (canonicalize requested)
                  (allow_unix_sockets (cs_config st))) reload"

definition method_allowed ::
  "rstr \<Rightarrow> 'm reload \<Rightarrow> 'm config_state \<Rightarrow> (proxy_error, bool \<times> 'm config_state) outcome" where
  "method_allowed m = read_policy (\<lambda>st. allows_method (proxy_mode (cs_config st)) m)"

definition blocked_snapshot ::
  "'m reload \<Rightarrow> 'm config_state \<Rightarrow> (proxy_error, blocked_request list \<times> 'm config_state) outcome" where
  "blocked_snapshot = read_policy cs_blocked"

section \<open>Changing the policy at run time\<close>

record 'm round =
  round_reload :: "'m reload"
  round_gap :: "'m config_state \<Rightarrow> 'm config_state"

fun set_network_mode ::
  "'m proxy_io \<Rightarrow> network_mode \<Rightarrow> 'm round list \<Rightarrow> 'm config_state \<Rightarrow>
   ((proxy_error, unit) outcome \<times> 'm config_state) option" where
  "set_network_mode io m [] st = None"
| "set_network_mode io m (r # rs) st =
     (case reload_if_needed (round_reload r) st of
        Ok st \<Rightarrow>
          (case validate_policy_against_constraints (io_env io) ((cs_config st)\<lparr>proxy_mode := m\<rparr>)
                  (cs_constraints st) of
             Ok _ \<Rightarrow>
               (let now = round_gap r st
                in if cs_constraints now \<noteq> cs_constraints st then set_network_mode io m rs now
                   else Some (Ok (), now\<lparr>cs_config := (cs_config now)\<lparr>proxy_mode := m\<rparr>\<rparr>))
           | Err e \<Rightarrow> Some (Err (BadConstraint e), st)
           | Panic \<Rightarrow> Some (Panic, st))
      | Err e \<Rightarrow> Some (Err e, st)
      | Panic \<Rightarrow> Some (Panic, st))"

datatype domain_list_kind = AllowList | DenyList

fun list_permission :: "domain_list_kind \<Rightarrow> domain_permission" where
  "list_permission AllowList = AllowDomain"
| "list_permission DenyList = DenyDomain"

fun target_entries :: "domain_list_kind \<Rightarrow> proxy_settings \<Rightarrow> rstr list" where
  "target_entries AllowList s = or_empty (allowed_domains s)"
| "target_entries DenyList s = or_empty (denied_domains s)"

fun opposite_entries :: "domain_list_kind \<Rightarrow> proxy_settings \<Rightarrow> rstr list" where
  "opposite_entries AllowList s = or_empty (denied_domains s)"
| "opposite_entries DenyList s = or_empty (allowed_domains s)"

fun update_rounds ::
  "'m proxy_io \<Rightarrow> domain_list_kind \<Rightarrow> rstr \<Rightarrow> 'm round list \<Rightarrow> 'm config_state \<Rightarrow>
   ((proxy_error, unit) outcome \<times> 'm config_state) option" where
  "update_rounds io target host [] st = None"
| "update_rounds io target host (r # rs) st =
     (case reload_if_needed (round_reload r) st of
        Ok st \<Rightarrow>
          (let target_contains = list_ex (\<lambda>e. normalize_host e = host) (target_entries target (cs_config st));
               opposite_contains = list_ex (\<lambda>e. normalize_host e = host) (opposite_entries target (cs_config st))
           in if target_contains \<and> \<not> opposite_contains then Some (Ok (), st)
              else
                let candidate = upsert_domain_permission (cs_config st) host (list_permission target) normalize_host
                in case and_then (map_err BadConstraint
                            (validate_policy_against_constraints (io_env io) candidate (cs_constraints st)))
                            (\<lambda>_. build_config_state io candidate (cs_constraints st)) of
                     Ok new_state \<Rightarrow>
                       (let now = round_gap r st
                        in if cs_constraints now \<noteq> cs_constraints st \<or> cs_config now \<noteq> cs_config st
                           then update_rounds io target host rs now
                           else Some (Ok (), reload_commit st new_state))
                   | Err e \<Rightarrow> Some (Err e, st)
                   | Panic \<Rightarrow> Some (Panic, st))
      | Err e \<Rightarrow> Some (Err e, st)
      | Panic \<Rightarrow> Some (Panic, st))"

definition update_domain_list ::
  "'m proxy_io \<Rightarrow> rstr \<Rightarrow> domain_list_kind \<Rightarrow> 'm round list \<Rightarrow> 'm config_state \<Rightarrow>
   ((proxy_error, unit) outcome \<times> 'm config_state) option" where
  "update_domain_list io input target rounds st =
     (case host_parse input of
        Ok host \<Rightarrow> update_rounds io target host rounds st
      | Err e \<Rightarrow> Some (Err (BadHost e), st)
      | Panic \<Rightarrow> Some (Panic, st))"

definition add_allowed_domain ::
  "'m proxy_io \<Rightarrow> rstr \<Rightarrow> 'm round list \<Rightarrow> 'm config_state \<Rightarrow>
   ((proxy_error, unit) outcome \<times> 'm config_state) option" where
  "add_allowed_domain io input = update_domain_list io input AllowList"

definition add_denied_domain ::
  "'m proxy_io \<Rightarrow> rstr \<Rightarrow> 'm round list \<Rightarrow> 'm config_state \<Rightarrow>
   ((proxy_error, unit) outcome \<times> 'm config_state) option" where
  "add_denied_domain io input = update_domain_list io input DenyList"

section \<open>The reloader\<close>

text \<open>
  \<^verbatim>\<open>MtimeConfigReloader\<close> of \<^verbatim>\<open>core/src/network_proxy_loader.rs\<close>: when a file of a configuration
  layer has changed, the settings and the constraints are read again, the settings are checked
  against the constraints and compiled.  Modification times are pairs of what the file system says
  now and what was remembered; reading the layers is the argument \<open>loaded\<close>.
\<close>

fun layer_changed :: "int option \<times> int option \<Rightarrow> bool" where
  "layer_changed (Some new_mtime, Some old_mtime) = (new_mtime > old_mtime)"
| "layer_changed (Some _, None) = True"
| "layer_changed (None, Some _) = True"
| "layer_changed (None, None) = False"

definition needs_reload :: "(int option \<times> int option) list \<Rightarrow> bool" where
  "needs_reload mtimes = list_ex layer_changed mtimes"

type_synonym loaded_layers = "(proxy_error, proxy_settings \<times> proxy_constraints) outcome"

definition enforce_trusted_constraints ::
  "'m proxy_io \<Rightarrow> proxy_settings \<Rightarrow> proxy_constraints \<Rightarrow> (proxy_error, proxy_constraints) outcome" where
  "enforce_trusted_constraints io config constraints =
     and_then (map_err BadConstraint (validate_policy_against_constraints (io_env io) config constraints))
       (\<lambda>_. Ok constraints)"

definition load_config_state ::
  "'m proxy_io \<Rightarrow> loaded_layers \<Rightarrow> (proxy_error, 'm config_state) outcome" where
  "load_config_state io loaded =
     and_then loaded (\<lambda>(config, constraints).
     and_then (enforce_trusted_constraints io config constraints) (\<lambda>constraints.
       build_config_state io config constraints))"

definition mtime_maybe_reload ::
  "'m proxy_io \<Rightarrow> (int option \<times> int option) list \<Rightarrow> loaded_layers \<Rightarrow> 'm reload" where
  "mtime_maybe_reload io mtimes loaded =
     (if \<not> needs_reload mtimes then Ok None
      else and_then (load_config_state io loaded) (\<lambda>st. Ok (Some st)))"

section \<open>Compiled lists\<close>

text \<open>A host is on a list if a pattern of one of its entries matches the host, or the host without its scope.\<close>

definition on_list :: "glob_lib \<Rightarrow> rstr list \<Rightarrow> rstr \<Rightarrow> bool" where
  "on_list lib patterns host \<longleftrightarrow>
     (\<exists>p\<in>set patterns. \<exists>g\<in>set (expand_domain_pattern (normalize_pattern p)).
        glob_match lib g host \<or> (\<exists>ip. unscoped_ip_literal host = Some ip \<and> glob_match lib g ip))"

lemma add_candidates_set: "add_candidates lib seen cs = Ok globs \<Longrightarrow> set globs = set seen \<union> set cs"
  by (induction lib seen cs rule: add_candidates.induct) (auto split: if_splits)

lemma compile_patterns_set:
  "compile_patterns lib pol seen ps = Ok globs \<Longrightarrow>
   set globs = set seen \<union> (\<Union>p\<in>set ps. set (expand_domain_pattern (normalize_pattern p)))"
proof (induction ps arbitrary: seen)
  case (Cons p ps)
  then obtain seen' where "add_candidates lib seen (expand_domain_pattern (normalize_pattern p)) = Ok seen'"
      "compile_patterns lib pol seen' ps = Ok globs"
    by (auto simp: and_then_Ok_iff split: if_splits)
  then show ?case using Cons.IH add_candidates_set by fastforce
qed simp

lemma compiled_match:
  assumes "compile_globset_with_policy lib ps pol = Ok globs"
  shows "globset_matches_host_or_unscoped lib globs host \<longleftrightarrow> on_list lib ps host"
proof -
  have "set globs = (\<Union>p\<in>set ps. set (expand_domain_pattern (normalize_pattern p)))"
    using assms compile_patterns_set by (fastforce simp: compile_globset_with_policy_def and_then_Ok_iff split: if_splits)
  then show ?thesis
    by (auto simp: globset_matches_host_or_unscoped_def globset_is_match_def list_ex_iff on_list_def
        split: option.splits)
qed

definition lists_compiled :: "'m proxy_io \<Rightarrow> 'm config_state \<Rightarrow> bool" where
  "lists_compiled io st \<longleftrightarrow>
     compile_denylist_globset (io_globs io) (or_empty (denied_domains (cs_config st))) = Ok (cs_deny_set st) \<and>
     compile_allowlist_globset (io_globs io) (or_empty (allowed_domains (cs_config st))) = Ok (cs_allow_set st)"

lemma lists_match:
  assumes "lists_compiled io st"
  shows "globset_matches_host_or_unscoped (io_globs io) (cs_deny_set st) host \<longleftrightarrow>
           on_list (io_globs io) (or_empty (denied_domains (cs_config st))) host"
    "globset_matches_host_or_unscoped (io_globs io) (cs_allow_set st) host \<longleftrightarrow>
           on_list (io_globs io) (or_empty (allowed_domains (cs_config st))) host"
  using assms compiled_match
  by (auto simp: lists_compiled_def compile_denylist_globset_def compile_allowlist_globset_def)

lemma build_config_state_Ok:
  assumes "build_config_state io config constraints = Ok st"
  shows "cs_config st = config" "cs_constraints st = constraints" "cs_blocked st = []"
    "cs_blocked_total st = 0" "lists_compiled io st"
  using assms unfolding build_config_state_def Let_def and_then_Ok_iff
  by (auto simp: lists_compiled_def map_err_iff)

section \<open>The invariant\<close>

text \<open>
  The compiled lists are those of the settings, the settings are within the constraints, and the
  log of blocked requests is bounded.
\<close>

definition proxy_ok :: "'m proxy_io \<Rightarrow> 'm config_state \<Rightarrow> bool" where
  "proxy_ok io st \<longleftrightarrow>
     lists_compiled io st \<and> settings_within (io_env io) (cs_config st) (cs_constraints st) \<and>
     length (cs_blocked st) \<le> MAX_BLOCKED_EVENTS"

definition reload_ok :: "'m proxy_io \<Rightarrow> 'm reload \<Rightarrow> bool" where
  "reload_ok io reload \<longleftrightarrow>
     (case reload of Ok (Some new_state) \<Rightarrow> proxy_ok io new_state | _ \<Rightarrow> True)"

definition round_ok :: "'m proxy_io \<Rightarrow> 'm round \<Rightarrow> bool" where
  "round_ok io r \<longleftrightarrow> reload_ok io (round_reload r) \<and> (\<forall>s. proxy_ok io s \<longrightarrow> proxy_ok io (round_gap r s))"

lemma reload_commit_ok: "proxy_ok io st \<Longrightarrow> proxy_ok io new \<Longrightarrow> proxy_ok io (reload_commit st new)"
  by (simp add: proxy_ok_def reload_commit_def lists_compiled_def)

lemma reload_if_needed_ok:
  "reload_if_needed reload st = Ok st' \<Longrightarrow> reload_ok io reload \<Longrightarrow> proxy_ok io st \<Longrightarrow> proxy_ok io st'"
  by (auto simp: reload_if_needed_def and_then_Ok_iff reload_ok_def reload_commit_ok split: option.splits)

lemma pop_front_while_drop: "pop_front_while q = drop (length q - MAX_BLOCKED_EVENTS) q"
proof (induction q rule: pop_front_while.induct)
  case (1 q)
  show ?case
  proof (cases "MAX_BLOCKED_EVENTS < length q")
    case True
    then have "pop_front_while q = drop (length (tl q) - MAX_BLOCKED_EVENTS) (tl q)"
      using 1 by (subst pop_front_while.simps) simp
    also have "\<dots> = drop (length q - MAX_BLOCKED_EVENTS) q"
      using True by (cases q) (auto simp: Suc_diff_le)
    finally show ?thesis .
  qed (subst pop_front_while.simps, simp)
qed

lemma record_entry_ok: "proxy_ok io st \<Longrightarrow> proxy_ok io (record_entry e st)"
  by (simp add: proxy_ok_def record_entry_def lists_compiled_def pop_front_while_drop)

lemma update_commit_ok:
  assumes "validate_policy_against_constraints (io_env io) candidate (cs_constraints st) = Ok ()"
    "build_config_state io candidate (cs_constraints st) = Ok new" "proxy_ok io st"
  shows "proxy_ok io (reload_commit st new)"
  using assms build_config_state_Ok [OF assms(2)]
  by (simp add: proxy_ok_def reload_commit_def lists_compiled_def validate_iff)

lemma set_network_mode_ok:
  assumes "set_network_mode io m rounds st = Some (res, st')" "list_all (round_ok io) rounds" "proxy_ok io st"
  shows "proxy_ok io st'"
  using assms
proof (induction rounds arbitrary: st)
  case (Cons r rs)
  show ?case
  proof (cases "reload_if_needed (round_reload r) st")
    case (Ok s)
    then have s: "proxy_ok io s" using Cons.prems reload_if_needed_ok by (auto simp: round_ok_def)
    then have now: "proxy_ok io (round_gap r s)" using Cons.prems by (simp add: round_ok_def)
    have mode: "proxy_ok io (n\<lparr>cs_config := (cs_config n)\<lparr>proxy_mode := m\<rparr>\<rparr>)"
      if "proxy_ok io n" "cs_constraints n = cs_constraints s"
        "validate_policy_against_constraints (io_env io) ((cs_config s)\<lparr>proxy_mode := m\<rparr>) (cs_constraints s) = Ok ()" for n
      using that settings_within_mode [of "io_env io" "cs_config n" "cs_constraints n" m "cs_config s"]
      by (simp add: proxy_ok_def validate_iff lists_compiled_def allowed_domains_def denied_domains_def domain_entries_def)
    show ?thesis
      using Cons.prems(1,2) Ok s now mode [OF now] Cons.IH [of "round_gap r s"]
      by (auto simp: Let_def split: outcome.splits if_splits)
  qed (use Cons.prems in auto)
qed simp

lemma update_rounds_ok:
  assumes "update_rounds io target host rounds st = Some (res, st')" "list_all (round_ok io) rounds" "proxy_ok io st"
  shows "proxy_ok io st'"
  using assms
proof (induction rounds arbitrary: st)
  case (Cons r rs)
  show ?case
  proof (cases "reload_if_needed (round_reload r) st")
    case (Ok s)
    then have s: "proxy_ok io s" using Cons.prems reload_if_needed_ok by (auto simp: round_ok_def)
    then have now: "proxy_ok io (round_gap r s)" using Cons.prems by (simp add: round_ok_def)
    show ?thesis
      using Cons.prems(1,2) Ok s now Cons.IH [of "round_gap r s"] update_commit_ok [OF _ _ s]
      by (auto simp: Let_def and_then_Ok_iff map_err_iff split: outcome.splits if_splits)
  qed (use Cons.prems in auto)
qed simp

subsection \<open>What the proxy relies on of its reloader\<close>

locale config_reloader =
  fixes io :: "'m proxy_io"
    and maybe_reload :: "'q \<Rightarrow> 'm reload"
    and reload_now :: "'q \<Rightarrow> (proxy_error, 'm config_state) outcome"
  assumes maybe_reload_ok: "reload_ok io (maybe_reload q)"
    and reload_now_ok: "reload_now q = Ok st \<Longrightarrow> proxy_ok io st"
begin

lemma reload_keeps:
  "reload_if_needed (maybe_reload q) st = Ok st' \<Longrightarrow> proxy_ok io st \<Longrightarrow> proxy_ok io st'"
  by (rule reload_if_needed_ok [OF _ maybe_reload_ok])

lemma queries_keep:
  assumes "proxy_ok io st"
  shows "host_blocked io (maybe_reload q) input port st = Ok (d, st') \<Longrightarrow> proxy_ok io st'"
    "evaluate_host_policy io (maybe_reload q) decider request st = Ok (nd, st') \<Longrightarrow> proxy_ok io st'"
    "read_policy f (maybe_reload q) st = Ok (x, st') \<Longrightarrow> proxy_ok io st'"
  using reload_keeps [OF _ assms]
  by (auto simp: host_blocked_def evaluate_host_policy_def read_policy_def and_then_Ok_iff)

lemma writes_keep:
  assumes "proxy_ok io st"
  shows "record_blocked observed (maybe_reload q) entry st = Ok (told, st') \<Longrightarrow> proxy_ok io st'"
    "drain_blocked (maybe_reload q) st = Ok (log, st') \<Longrightarrow> proxy_ok io st'"
    "force_reload (reload_now q) st = Ok st' \<Longrightarrow> proxy_ok io st'"
    "replace_config_state (maybe_reload q) new_state st = Ok st' \<Longrightarrow> proxy_ok io new_state \<Longrightarrow> proxy_ok io st'"
proof -
  show "record_blocked observed (maybe_reload q) entry st = Ok (told, st') \<Longrightarrow> proxy_ok io st'"
    by (auto simp: record_blocked_def and_then_Ok_iff intro: record_entry_ok reload_keeps [OF _ assms])
  show "drain_blocked (maybe_reload q) st = Ok (log, st') \<Longrightarrow> proxy_ok io st'"
    using reload_keeps [OF _ assms]
    by (auto simp: drain_blocked_def and_then_Ok_iff proxy_ok_def lists_compiled_def)
  show "force_reload (reload_now q) st = Ok st' \<Longrightarrow> proxy_ok io st'"
    using reload_now_ok [of q] assms
    by (auto simp: force_reload_def and_then_Ok_iff proxy_ok_def lists_compiled_def)
  show "replace_config_state (maybe_reload q) new_state st = Ok st' \<Longrightarrow> proxy_ok io new_state \<Longrightarrow> proxy_ok io st'"
    by (auto simp: replace_config_state_def and_then_Ok_iff
        intro: reload_commit_ok reload_keeps [OF _ assms])
qed

end

lemma load_config_state_ok: "load_config_state io loaded = Ok st \<Longrightarrow> proxy_ok io st"
  using build_config_state_Ok
  by (fastforce simp: load_config_state_def enforce_trusted_constraints_def and_then_Ok_iff map_err_iff
      proxy_ok_def validate_iff)

interpretation mtime: config_reloader io
  "\<lambda>(mtimes, loaded). mtime_maybe_reload io mtimes loaded" "\<lambda>(mtimes, loaded). load_config_state io loaded"
  for io :: "'m proxy_io"
proof unfold_locales
  fix q and st :: "'m config_state"
  show "reload_ok io (case q of (mtimes, loaded) \<Rightarrow> mtime_maybe_reload io mtimes loaded)"
    using load_config_state_ok
    by (cases q) (auto simp: mtime_maybe_reload_def reload_ok_def and_then_Ok_iff split: outcome.splits option.splits)
  show "(case q of (mtimes, loaded) \<Rightarrow> load_config_state io loaded) = Ok st \<Longrightarrow> proxy_ok io st"
    using load_config_state_ok by (cases q) auto
qed

subsection \<open>Runs\<close>

text \<open>
  The states that sequences of operations lead to; reading the policy reloads at most.  What happens between the snapshot and the write
  of an operation that retries is itself such a sequence.
\<close>

inductive proxy_reach :: "'m proxy_io \<Rightarrow> 'm config_state \<Rightarrow> 'm config_state \<Rightarrow> bool" for io where
  start: "proxy_reach io st st"
| evaluate: "proxy_reach io st0 st \<Longrightarrow>
    evaluate_host_policy io (mtime_maybe_reload io mtimes loaded) decider request st = Ok (d, st') \<Longrightarrow>
    proxy_reach io st0 st'"
| read: "proxy_reach io st0 st \<Longrightarrow>
    reload_if_needed (mtime_maybe_reload io mtimes loaded) st = Ok st' \<Longrightarrow> proxy_reach io st0 st'"
| blocked: "proxy_reach io st0 st \<Longrightarrow>
    record_blocked observed (mtime_maybe_reload io mtimes loaded) entry st = Ok (told, st') \<Longrightarrow> proxy_reach io st0 st'"
| drain: "proxy_reach io st0 st \<Longrightarrow>
    drain_blocked (mtime_maybe_reload io mtimes loaded) st = Ok (log, st') \<Longrightarrow> proxy_reach io st0 st'"
| force: "proxy_reach io st0 st \<Longrightarrow>
    force_reload (load_config_state io loaded) st = Ok st' \<Longrightarrow> proxy_reach io st0 st'"
| replace_state: "proxy_reach io st0 st \<Longrightarrow> load_config_state io (Ok (config, constraints)) = Ok new_state \<Longrightarrow>
    replace_config_state (mtime_maybe_reload io mtimes loaded) new_state st = Ok st' \<Longrightarrow>
    proxy_reach io st0 st'"
| mode: "proxy_reach io st0 st \<Longrightarrow>
    (\<And>r. r \<in> set rounds \<Longrightarrow> \<exists>mtimes loaded. round_reload r = mtime_maybe_reload io mtimes loaded) \<Longrightarrow>
    (\<And>r s. r \<in> set rounds \<Longrightarrow> proxy_reach io s (round_gap r s)) \<Longrightarrow>
    set_network_mode io m rounds st = Some (res, st') \<Longrightarrow> proxy_reach io st0 st'"
| domains: "proxy_reach io st0 st \<Longrightarrow>
    (\<And>r. r \<in> set rounds \<Longrightarrow> \<exists>mtimes loaded. round_reload r = mtime_maybe_reload io mtimes loaded) \<Longrightarrow>
    (\<And>r s. r \<in> set rounds \<Longrightarrow> proxy_reach io s (round_gap r s)) \<Longrightarrow>
    update_domain_list io input target rounds st = Some (res, st') \<Longrightarrow> proxy_reach io st0 st'"

lemma mtime_reload_ok: "reload_ok io (mtime_maybe_reload io mtimes loaded)"
  using mtime.maybe_reload_ok [of io "(mtimes, loaded)"] by simp

lemma proxy_reach_ok: "proxy_reach io st st' \<Longrightarrow> proxy_ok io st \<Longrightarrow> proxy_ok io st'"
proof (induction rule: proxy_reach.induct)
  case (evaluate st0 st mtimes loaded)
  then show ?case using mtime.queries_keep(2) [of io st "(mtimes, loaded)"] by simp
next
  case (read st0 st mtimes loaded)
  then show ?case using mtime.reload_keeps [of io "(mtimes, loaded)" st] by simp
next
  case (blocked st0 st observed mtimes loaded)
  then show ?case using mtime.writes_keep(1) [of io st observed "(mtimes, loaded)"] by simp
next
  case (drain st0 st mtimes loaded)
  then show ?case using mtime.writes_keep(2) [of io st "(mtimes, loaded)"] by simp
next
  case (force st0 st loaded)
  then show ?case using mtime.writes_keep(3) [of io st "([], loaded)"] by simp
next
  case (replace_state st0 st config constraints new_state mtimes loaded)
  then show ?case
    using mtime.writes_keep(4) [of io st "(mtimes, loaded)"] load_config_state_ok by fastforce
next
  case (mode st0 st rounds m res st')
  then have "list_all (round_ok io) rounds"
    using mtime_reload_ok by (fastforce simp: list_all_iff round_ok_def)
  then show ?case using mode set_network_mode_ok by blast
next
  case (domains st0 st rounds input target res st')
  then have "list_all (round_ok io) rounds"
    using mtime_reload_ok by (fastforce simp: list_all_iff round_ok_def)
  then show ?case
    using domains update_rounds_ok by (auto simp: update_domain_list_def split: outcome.splits)
qed simp

section \<open>Who may be reached\<close>

definition reaches_public_only :: "'m proxy_io \<Rightarrow> rstr \<Rightarrow> nat \<Rightarrow> bool" where
  "reaches_public_only io host port \<longleftrightarrow>
     (case parse_ip_addr host of
        Some ip \<Rightarrow> \<not> is_non_public_ip ip
      | None \<Rightarrow> (\<exists>addrs. io_lookup_host io host port = Some addrs \<and>
                    list_all (\<lambda>addr. \<not> is_non_public_ip (fst addr)) addrs))"

text \<open>An entry without wildcards that is the host, or the host without its scope, in some spelling.\<close>

definition named_explicitly :: "rstr list \<Rightarrow> rstr \<Rightarrow> bool" where
  "named_explicitly allowed host \<longleftrightarrow>
     (\<exists>p\<in>set allowed. ch CHR ''*'' \<notin> set (trim p) \<and> ch CHR ''?'' \<notin> set (trim p) \<and>
        (normalize_host p = host \<or> unscoped_ip_literal host = Some (normalize_host p)))"

lemma normalize_host_trim: "normalize_host (trim p) = normalize_host p"
  by (simp add: normalize_host_def trim_trim)

lemma explicit_local_named: "is_explicit_local_allowlisted allowed host \<Longrightarrow> named_explicitly allowed host"
  unfolding is_explicit_local_allowlisted_def named_explicitly_def list_ex_iff Let_def normalize_host_trim
  by (erule bexE, rule bexI) (auto split: if_splits option.splits)

lemma resolves_public: "\<not> host_resolves_to_non_public_ip io host port \<Longrightarrow> reaches_public_only io host port"
  by (auto simp: host_resolves_to_non_public_ip_def reaches_public_only_def list_ex_iff list_all_iff
      split: option.splits)

text \<open>What a decision that is not final for local reasons or because of the deny list says.\<close>

lemma host_decision_passes:
  assumes "lists_compiled io st" "host_decision io input port st \<in> {Allowed, Blocked NotAllowed}"
    "normalize_host input \<noteq> []"
  shows "\<not> on_list (io_globs io) (or_empty (denied_domains (cs_config st))) (normalize_host input)"
    "allow_local_binding (cs_config st) \<or>
     (if local_literal (normalize_host input)
      then named_explicitly (or_empty (allowed_domains (cs_config st))) (normalize_host input)
      else reaches_public_only io (normalize_host input) port)"
    "host_decision io input port st = Allowed \<Longrightarrow>
     on_list (io_globs io) (or_empty (allowed_domains (cs_config st))) (normalize_host input)"
proof -
  have parse: "host_parse input = Ok (normalize_host input)" using assms(3) by (simp add: host_parse_def Let_def)
  show "\<not> on_list (io_globs io) (or_empty (denied_domains (cs_config st))) (normalize_host input)"
    "host_decision io input port st = Allowed \<Longrightarrow>
     on_list (io_globs io) (or_empty (allowed_domains (cs_config st))) (normalize_host input)"
    using assms(2) lists_match [OF assms(1)]
    by (auto simp: host_decision_def parse Let_def split: if_splits)
  show "allow_local_binding (cs_config st) \<or>
     (if local_literal (normalize_host input)
      then named_explicitly (or_empty (allowed_domains (cs_config st))) (normalize_host input)
      else reaches_public_only io (normalize_host input) port)"
    using assms(2) explicit_local_named [of _ "normalize_host input"]
      resolves_public [of io "normalize_host input" port]
    by (auto simp: host_decision_def parse Let_def split: if_splits)
qed

lemma empty_host_not_allowed: "normalize_host input = [] \<Longrightarrow> host_decision io input port st = Blocked NotAllowed"
  by (simp add: host_decision_def host_parse_def Let_def)

lemma decide_request_allow:
  "decide_request decider request decision = (AllowRequest, overridden) \<longleftrightarrow>
     decision = Allowed \<and> \<not> overridden \<or>
     decision = Blocked NotAllowed \<and> overridden \<and> (\<exists>decide. decider = Some decide \<and> decide request = AllowRequest)"
proof -
  have "map_decider_decision d = AllowRequest \<longleftrightarrow> d = AllowRequest" for d by (cases d) auto
  then show ?thesis
    by (cases "(decider, request, decision)" rule: decide_request.cases)
      (auto simp: deny_with_source_def Let_def)
qed

section \<open>Hosts denied at run time\<close>

lemma update_rounds_denied:
  assumes "update_rounds io DenyList host rounds st = Some (Ok (), st')" "list_all (round_ok io) rounds"
    "proxy_ok io st" "normalize_host host = host"
  shows "\<exists>p\<in>set (or_empty (denied_domains (cs_config st'))). normalize_host p = host"
  using assms
proof (induction rounds arbitrary: st)
  case (Cons r rs)
  show ?case
  proof (cases "reload_if_needed (round_reload r) st")
    case (Ok s)
    then have s: "proxy_ok io s" using Cons.prems reload_if_needed_ok by (auto simp: round_ok_def)
    then have now: "proxy_ok io (round_gap r s)" using Cons.prems by (simp add: round_ok_def)
    let ?candidate = "upsert_domain_permission (cs_config s) host DenyDomain normalize_host"
    have denied: "host \<in> set (or_empty (denied_domains ?candidate))"
      by (simp add: domain_lists upsert_entries)
    have built: "cs_config (reload_commit s new) = ?candidate"
      if "build_config_state io ?candidate (cs_constraints s) = Ok new" for new
      using build_config_state_Ok(1) [OF that] by (simp add: reload_commit_def)
    show ?thesis
      using Cons.prems Ok now denied built Cons.IH [of "round_gap r s"]
      by (auto simp: Let_def and_then_Ok_iff list_ex_iff split: outcome.splits if_splits)
  qed (use Cons.prems in auto)
qed simp

lemma denied_entry_blocks:
  assumes "lists_compiled io st" "p \<in> set (or_empty (denied_domains (cs_config st)))"
    "normalize_host p = host" "plain_host host" "host \<noteq> []" "glob_match (io_globs io) host host"
    "normalize_host other = host"
  shows "host_decision io other port st = Blocked Denied"
proof -
  have "on_list (io_globs io) (or_empty (denied_domains (cs_config st))) host"
    unfolding on_list_def using assms(2,6) expand_plain [OF assms(3-5)] by (rule_tac bexI [of _ p]) simp_all
  then show ?thesis
    using assms(5,7) lists_match(1) [OF assms(1)]
    by (simp add: host_decision_def host_parse_def Let_def)
qed

section \<open>Unix sockets\<close>

text \<open>A request reaches a socket only if an absolute path of the list names it, directly or after links.\<close>

lemma socket_listed_iff:
  "socket_listed env canonicalize requested rc allowed \<longleftrightarrow>
     (\<exists>a\<in>set allowed. \<exists>p. socket_path_parse env a = Ok (NativeSocket p) \<and>
        (p = requested \<or> rc \<noteq> None \<and> canonicalize p = rc))"
  by (induction allowed) (auto split: outcome.splits validated_socket_path.splits)

section \<open>Limits of the code\<close>

text \<open>
  \<^verbatim>\<open>force_reload\<close> keeps the log but not the count of blocked requests, unlike the other ways to
  replace the state: afterwards the count is that of the new state, zero for a freshly built one.
\<close>

lemma force_reload_forgets_total:
  "build_config_state io config constraints = Ok new \<Longrightarrow> force_reload (Ok new) st = Ok st' \<Longrightarrow>
   cs_blocked st' = cs_blocked st \<and> cs_blocked_total st' = 0"
  using build_config_state_Ok by (auto simp: force_reload_def)

text \<open>
  A request that is blocked while the lists are updated is dropped from the log: the write puts
  back the log of the snapshot, and the check before it compares settings and constraints only.
\<close>

lemma update_drops_concurrent_entries:
  assumes "update_rounds io target host [\<lparr>round_reload = Ok None, round_gap = record_entry entry\<rparr>] st = Some (Ok (), st')"
  shows "cs_blocked st' = cs_blocked st \<and> cs_blocked_total st' = cs_blocked_total st"
  using assms
  by (auto simp: reload_if_needed_def Let_def reload_commit_def record_entry_def split: outcome.splits if_splits)

text \<open>
  A setting for the examples: names are compared literally, and every name resolves to one public
  address.
\<close>

definition sample_io :: "unit proxy_io" where
  "sample_io =
     \<lparr>io_env = \<lparr>net_globs = \<lparr>glob_ok = \<lambda>_. True, globset_ok = \<lambda>_. True, glob_match = \<lambda>g h. g = h\<rparr>,
                net_url_host = Some, net_url_parse = \<lambda>_. None, net_home = None, net_cwd = Inr (lit ''/'')\<rparr>,
      io_mitm_new = \<lambda>_ _. None,
      io_lookup_host = \<lambda>_ port. Some [(V4 (Ipv4Addr 8 8 8 8), port)]\<rparr>"

definition sample_state :: "domain_entry list option \<Rightarrow> rstr list \<Rightarrow> rstr list \<Rightarrow> unit config_state" where
  "sample_state domains allow_set deny_set =
     \<lparr>cs_config = default_settings\<lparr>proxy_domains := domains\<rparr>, cs_allow_set = allow_set, cs_deny_set = deny_set,
      cs_mitm = None, cs_constraints = default_constraints, cs_blocked = [], cs_blocked_total = 0\<rparr>"

lemmas sample_defs = sample_io_def sample_state_def default_settings_def default_constraints_def

lemmas list_eval = allowed_domains_def denied_domains_def domain_entries_def effective_entries_def
  domain_entry_of_def Let_def

lemmas decision_eval = host_decision_def globset_matches_host_or_unscoped_def globset_is_match_def
  is_explicit_local_allowlisted_def local_literal_def host_resolves_to_non_public_ip_def

text \<open>
  Local addresses that the list names explicitly pass the policy, and are then refused by the check
  before the connection, which only looks at \<^verbatim>\<open>allow_local_binding\<close>.
\<close>

lemma explicit_local_target_rejected:
  defines "st \<equiv> sample_state (Some [domain_entry_of (lit ''127.0.0.1'') AllowDomain]) [lit ''127.0.0.1''] []"
  shows "host_decision sample_io (lit ''127.0.0.1'') 80 st = Allowed"
    "target_connect (allow_local_binding (cs_config st)) connect (V4 (Ipv4Addr 127 0 0 1), 80) = TargetRejected"
proof -
  have "is_non_public_ip (V4 (Ipv4Addr 127 0 0 1))"
    by (simp add: is_non_public_ipv4_def)
  then show "target_connect (allow_local_binding (cs_config st)) connect (V4 (Ipv4Addr 127 0 0 1), 80) = TargetRejected"
    by (simp add: target_connect_def st_def sample_defs)
  show "host_decision sample_io (lit ''127.0.0.1'') 80 st = Allowed"
    by (simp add: decision_eval st_def sample_defs list_eval addr_eval)
qed

text \<open>The pattern for every host is rejected in the deny list only.\<close>

lemma global_wildcard_allowed:
  "glob_ok lib (lit ''*'') \<Longrightarrow> globset_ok lib [lit ''*''] \<Longrightarrow> compile_allowlist_globset lib [lit ''*''] = Ok [lit ''*'']"
  "compile_denylist_globset lib [lit ''*''] = Err UnsupportedGlobalWildcard"
  by (simp_all add: compile_allowlist_globset_def compile_denylist_globset_def compile_globset_with_policy_def
      is_global_wildcard_domain_pattern_def expand_domain_pattern_def normalize_pattern_def pattern_parse_def addr_eval)

text \<open>Addresses that are not globally routable but not treated as local.\<close>

lemma unrouted_ipv6_is_public:
  "\<not> is_non_public_ip (V6 (Ipv6Addr 0x2001 0xdb8 0 0 0 0 0 1))"
  "\<not> is_non_public_ip (V6 (Ipv6Addr 0x64 0xff9b 0 0 0 0 0x7f00 1))"
  "\<not> is_non_public_ip (V6 (Ipv6Addr 0xfec0 0 0 0 0 0 0 1))"
  by (simp_all add: is_non_public_ipv6_def ipv6_is_loopback_def ipv6_is_unspecified_def ipv6_is_multicast_def
      ipv6_is_unique_local_def ipv6_is_unicast_link_local_def)

section \<open>Properties\<close>

text \<open>Concrete states: nothing listed, one name allowed, one name denied, and a request.\<close>

definition sample_empty :: "unit config_state" where
  "sample_empty = sample_state None [] []"

definition sample_allowing :: "unit config_state" where
  "sample_allowing = sample_state (Some [domain_entry_of (lit ''a.b'') AllowDomain]) [lit ''a.b''] []"

definition sample_denying :: "unit config_state" where
  "sample_denying = sample_state (Some [domain_entry_of (lit ''a.b'') DenyDomain]) [] [lit ''a.b'']"

definition sample_request :: policy_request where
  "sample_request = \<lparr>req_protocol = Http, req_host = lit ''A.b:80'', req_port = 80, req_client_addr = None,
     req_method = None, req_command = None, req_exec_policy_hint = None\<rparr>"

definition sample_round :: "unit round" where
  "sample_round = \<lparr>round_reload = mtime_maybe_reload sample_io [] (Err MitmFailed), round_gap = \<lambda>s. s\<rparr>"

lemmas sample_states = sample_empty_def sample_allowing_def sample_denying_def sample_request_def
  sample_round_def sample_defs

lemmas compile_eval = compile_denylist_globset_def compile_allowlist_globset_def
  compile_globset_with_policy_def is_global_wildcard_domain_pattern_def expand_domain_pattern_def
  normalize_pattern_def pattern_parse_def

lemma sample_public: "\<not> is_non_public_ipv4 (Ipv4Addr 8 8 8 8)"
  by (simp add: non_public_ipv4_iff non_public_blocks_def in_block_def ipv4_number_octets)

lemma sample_ok: "proxy_ok sample_io sample_empty" "proxy_ok sample_io sample_allowing"
  "list_all (round_ok sample_io) [sample_round]"
  by (simp_all add: proxy_ok_def lists_compiled_def settings_within_def sample_states list_eval compile_eval
      addr_eval round_ok_def mtime_reload_ok)

lemma sample_deny: "add_denied_domain sample_io (lit ''A.b.'') [sample_round] sample_empty = Some (Ok (), sample_denying)"
  by (simp add: add_denied_domain_def update_domain_list_def reload_if_needed_def mtime_maybe_reload_def
      needs_reload_def sample_states list_eval compile_eval addr_eval upsert_domain_permission_def some_entries_def
      validate_policy_against_constraints_def build_config_state_def validate_unix_socket_allowlist_paths_def
      allow_unix_sockets_def validate_non_global_wildcard_domain_patterns_def disabled_by_managed_def
      validate_mode_def reload_commit_def)

text \<open>
  (C25) What must hold when a request is let through, by the lists or by the decider that is asked
  on a miss: its host, in the normal form, is on no denied entry; unless local networks were enabled,
  a local literal is named explicitly in the allowlist and any other host resolves to public addresses
  only; and it is on the allowlist, or the decider has said so.  Only a request without any host name
  can be let through on the decider's word alone.
\<close>

theorem granted_request_is_safe:
  assumes granted: "evaluate_host_policy io reload decider request st = Ok ((AllowRequest, overridden), st')"
    and "proxy_ok io st" "reload_ok io reload"
  shows "(normalize_host (req_host request) \<noteq> [] \<longrightarrow>
      \<not> on_list (io_globs io) (or_empty (denied_domains (cs_config st'))) (normalize_host (req_host request)) \<and>
      (allow_local_binding (cs_config st') \<or>
       (if local_literal (normalize_host (req_host request))
        then named_explicitly (or_empty (allowed_domains (cs_config st'))) (normalize_host (req_host request))
        else reaches_public_only io (normalize_host (req_host request)) (req_port request)))) \<and>
    (normalize_host (req_host request) \<noteq> [] \<and>
     on_list (io_globs io) (or_empty (allowed_domains (cs_config st'))) (normalize_host (req_host request)) \<or>
     overridden \<and> (\<exists>decide. decider = Some decide \<and> decide request = AllowRequest))"
proof -
  obtain decision where st': "reload_if_needed reload st = Ok st'"
    and decision: "decision = host_decision io (req_host request) (req_port request) st'"
      "decide_request decider request decision = (AllowRequest, overridden)"
    using granted by (auto simp: evaluate_host_policy_def host_blocked_def and_then_Ok_iff)
  have lists: "lists_compiled io st'"
    using reload_if_needed_ok [OF st' assms(3,2)] by (simp add: proxy_ok_def)
  have "decision \<in> {Allowed, Blocked NotAllowed}" using decision(2) decide_request_allow by auto
  then have passed: "host_decision io (req_host request) (req_port request) st' \<in> {Allowed, Blocked NotAllowed}"
    using decision(1) by simp
  show ?thesis
  proof (cases "normalize_host (req_host request) = []")
    case True
    then have "decision = Blocked NotAllowed" using decision(1) empty_host_not_allowed by simp
    then show ?thesis using True decision(2) unfolding decide_request_allow by simp
  next
    case False
    then show ?thesis
      using host_decision_passes [OF lists passed False] decision decide_request_allow by auto
  qed
qed

theorem granted_request_is_safe_witness:
  "on_list (io_globs sample_io) (or_empty (allowed_domains (cs_config sample_allowing)))
     (normalize_host (req_host sample_request))"
proof -
  have "host_decision sample_io (lit ''A.b:80'') 80 sample_allowing = Allowed"
    by (simp add: decision_eval sample_states list_eval addr_eval sample_public)
  then have "evaluate_host_policy sample_io (Ok None) None sample_request sample_allowing =
      Ok ((AllowRequest, False), sample_allowing)"
    by (simp add: evaluate_host_policy_def host_blocked_def reload_if_needed_def sample_request_def del: lit_simps)
  then show ?thesis
    using granted_request_is_safe [of sample_io "Ok None" None sample_request sample_allowing False sample_allowing]
      sample_ok(2) by (simp add: reload_ok_def del: lit_simps)
qed

text \<open>
  (C26) However the operations on the state follow each other, reloads included, and whatever other
  tasks do between the snapshot and the write of an operation that retries: the compiled lists stay
  those of the settings, the settings stay within the managed constraints, and the log of blocked
  requests stays bounded.
\<close>

theorem policy_stays_within_constraints:
  assumes "proxy_reach io st st'" "proxy_ok io st"
  shows "lists_compiled io st' \<and>
    validate_policy_against_constraints (io_env io) (cs_config st') (cs_constraints st') = Ok () \<and>
    length (cs_blocked st') \<le> MAX_BLOCKED_EVENTS"
  using proxy_reach_ok [OF assms] by (simp add: proxy_ok_def validate_iff)

theorem policy_stays_within_constraints_witness:
  "lists_compiled sample_io sample_denying \<and>
   validate_policy_against_constraints (io_env sample_io) (cs_config sample_denying)
     (cs_constraints sample_denying) = Ok () \<and>
   length (cs_blocked sample_denying) \<le> MAX_BLOCKED_EVENTS"
proof (rule policy_stays_within_constraints)
  show "proxy_ok sample_io sample_empty" by (rule sample_ok)
  show "proxy_reach sample_io sample_empty sample_denying"
    using sample_deny unfolding add_denied_domain_def
    by (rule proxy_reach.domains [OF proxy_reach.start, rotated 2])
      (auto simp: sample_round_def intro: proxy_reach.start)
qed

text \<open>
  (C27) A host that was denied at run time stays denied: after \<^verbatim>\<open>add_denied_domain\<close> has succeeded, in
  whatever round, every text with the same normal form (other case, a port, final dots) is blocked as
  denied, whatever the allowlist and the resolver say.  The text that was denied must be plain: no white
  space, no scope, no brackets and no character that is special in a pattern.  The one fact used of
  \<^verbatim>\<open>globset\<close> is that a pattern without special characters matches itself.  Spellings of an address with
  another normal form are not covered, see below.
\<close>

theorem denied_host_stays_denied:
  assumes "add_denied_domain io input rounds st = Some (Ok (), st')"
    and "proxy_ok io st" "list_all (round_ok io) rounds"
    and "plain_host input"
    and "\<And>d. plain_host d \<Longrightarrow> glob_match (io_globs io) d d"
    and "normalize_host other = normalize_host input"
  shows "host_decision io other port st' = Blocked Denied"
proof -
  let ?host = "normalize_host input"
  have run: "update_rounds io DenyList ?host rounds st = Some (Ok (), st')" "?host \<noteq> []"
    using assms(1) by (auto simp: add_denied_domain_def update_domain_list_def host_parse_def Let_def
        split: if_splits)
  have plain: "plain_host ?host" "normalize_host ?host = ?host"
    using normalize_host_plain [OF assms(4)] by simp_all
  obtain p where "p \<in> set (or_empty (denied_domains (cs_config st')))" "normalize_host p = ?host"
    using update_rounds_denied [OF run(1) assms(3,2) plain(2)] by blast
  moreover have "lists_compiled io st'"
    using update_rounds_ok [OF run(1) assms(3,2)] by (simp add: proxy_ok_def)
  ultimately show ?thesis
    using denied_entry_blocks plain(1) run(2) assms(5,6) by blast
qed

theorem denied_host_stays_denied_witness:
  "host_decision sample_io (lit ''a.B:443'') 443 sample_denying = Blocked Denied"
proof (rule denied_host_stays_denied)
  show "add_denied_domain sample_io (lit ''A.b.'') [sample_round] sample_empty = Some (Ok (), sample_denying)"
    by (rule sample_deny)
  show "proxy_ok sample_io sample_empty" "list_all (round_ok sample_io) [sample_round]" by (rule sample_ok)+
  show "plain_host (lit ''A.b.'')" by (simp add: plain_host_def is_whitespace_def)
  show "glob_match (io_globs sample_io) d d" for d by (simp add: sample_io_def)
  show "normalize_host (lit ''a.B:443'') = normalize_host (lit ''A.b.'')" by (simp add: addr_eval)
qed

text \<open>
  Two spellings of one IPv6 address have different normal forms, since a literal keeps its text; denying
  one of them does not put the other on the deny list.
\<close>

lemma address_spellings_not_unified:
  "parse_ip_addr (lit ''2001:db8::1'') = parse_ip_addr (lit ''2001:db8:0:0:0:0:0:1'') \<and>
   parse_ip_addr (lit ''2001:db8::1'') \<noteq> None \<and>
   normalize_host (lit ''2001:db8::1'') \<noteq> normalize_host (lit ''2001:db8:0:0:0:0:0:1'')"
proof -
  have five: "replicate 5 x = [x, x, x, x, x]" for x :: 'a by (simp add: numeral_eq_Suc)
  have a: "parse_ip_addr (lit ''2001:db8::1'') = Some (V6 (Ipv6Addr 0x2001 0xdb8 0 0 0 0 0 1))"
    by (simp add: addr_eval five)
  have b: "parse_ip_addr (lit ''2001:db8:0:0:0:0:0:1'') = Some (V6 (Ipv6Addr 0x2001 0xdb8 0 0 0 0 0 1))"
    by (simp add: addr_eval)
  have n: "normalize_host (lit ''2001:db8::1'') = lit ''2001:db8::1''"
    by (simp add: addr_eval five)
  have m: "normalize_host (lit ''2001:db8:0:0:0:0:0:1'') = lit ''2001:db8:0:0:0:0:0:1''"
    by (simp add: addr_eval)
  show ?thesis unfolding a b n m by simp
qed

end
