(* ===== verification/Spec2Isabelle.thy ===== *)
theory Spec2Isabelle
  imports Patch_Agreement Patch_Runtime Chat_Stream Chat_Tools Context_History Plan_Blocks Tool_Orchestrator Net_State
begin

text \<open>
  A verification library of DeepSeekX, a terminal coding agent in Rust
  (\<^verbatim>\<open>codex-rs\<close>).  A session sends the conversation to a chat-completions endpoint, turns the
  streamed answer into items, runs the tools the model asks for (shell commands under an execution
  policy, file patches), records the items in a history and prepares the next request from it.  The
  theories model the pure core of that loop, component by component, from the sources under
  \<^verbatim>\<open>codex-rs\<close>; file names below are relative to it.

  \<^bold>\<open>Conventions.\<close>  \<^verbatim>\<open>Rust_Text\<close> fixes how Rust values are written: a string is the list of
  its Unicode scalar values, a fallible computation an \<open>outcome\<close> with the values \<open>Ok\<close>, \<open>Err\<close> and
  \<open>Panic\<close>, so that indexing and slicing out of range is a value that the theorems exclude.  Lengths
  and offsets of a \<^verbatim>\<open>str\<close> are in bytes.  Unsigned sizes are natural numbers where the code only
  compares and adds lengths of values in memory; 64-bit token counts are integers with the
  saturation and the conversions written out.  All recursions are total functions: there is no fuel
  in the development.  The models describe a Unix build; the branches under \<^verbatim>\<open>cfg(windows)\<close> are
  left out.

  \<^bold>\<open>Parameters.\<close>  Code outside the repository is an argument of the definitions that use it: the
  file system behind \<^verbatim>\<open>ExecutorFileSystem\<close> (\<open>file_system\<close>, \<open>lawful\<close>), the crate
  \<^verbatim>\<open>multimap\<close> (\<open>multimap\<close>, \<open>lawful_multimap\<close>), the JSON printer and parser, the calls a
  Starlark interpreter makes, the answers of the operating system to each call
  (\<open>amend_io\<close>), the home and current directory (\<open>host_env\<close>).  What the theorems rely on of them
  is a named hypothesis, and every witness instantiates it with a concrete function.

  \<^bold>\<open>Patches\<close> (\<^verbatim>\<open>apply-patch/src\<close>).
  \<^item> \<^verbatim>\<open>Patch_Format\<close>: \<^verbatim>\<open>parser.rs\<close>, the batch parser with both modes and all errors: it never
    panics, returns well-formed hunks, and its error lines lie in the patch.
  \<^item> \<^verbatim>\<open>Patch_Grammar\<close>: a printer of the documented grammar; parsing the printed text gives the
    hunks back.
  \<^item> \<^verbatim>\<open>Patch_Stream\<close>: \<^verbatim>\<open>streaming_parser.rs\<close> as a state machine over characters, with the
    invariant of its reachable states; \<^verbatim>\<open>Patch_Agreement\<close>: fed in any pieces it agrees with the
    batch parser on the texts the printer writes; where they differ otherwise is a lemma.
  \<^item> \<^verbatim>\<open>Patch_Replace\<close>: \<^verbatim>\<open>seek_sequence.rs\<close> and the computation of new contents
    (\<^verbatim>\<open>lib.rs\<close>): bounds of the search, and the reverse-order edits as one left-to-right splice;
    the limits found are stated as lemmas at its end.
  \<^item> \<^verbatim>\<open>Patch_Files\<close>: applying hunks to a file system (\<^verbatim>\<open>lib.rs\<close>): every exact delta replays and
    undoes what happened, also when the application fails half-way.

  \<^bold>\<open>Chat\<close> (\<^verbatim>\<open>codex-api/src\<close>, \<^verbatim>\<open>core/src\<close>, \<^verbatim>\<open>protocol/src\<close>, \<^verbatim>\<open>tools/src\<close>).
  \<^item> \<^verbatim>\<open>Protocol_Items\<close>: the items, contents, events and usage records the components exchange.
  \<^item> \<^verbatim>\<open>Chat_Stream\<close>: \<^verbatim>\<open>sse/chat_completions.rs\<close>, from server-sent chunks to events: the event
    order is a protocol given as a step relation, finished texts are the concatenated deltas, tool
    calls are assembled by index.
  \<^item> \<^verbatim>\<open>Chat_Request\<close>, \<^verbatim>\<open>Chat_Tools\<close>: \<^verbatim>\<open>chat_completions.rs\<close>, \<^verbatim>\<open>client_common.rs\<close> and the
    schema types: what a conversation says is what the messages say, tool turns are one message,
    object schemas are closed in strict mode, except those with a list of types.

  \<^bold>\<open>Execution policy\<close> (\<^verbatim>\<open>execpolicy/src\<close>, \<^verbatim>\<open>utils/absolute-path/src\<close>).
  \<^item> \<^verbatim>\<open>Absolute_Path\<close>: Unix paths and their normal form, resolution against a base directory.
  \<^item> \<^verbatim>\<open>Exec_Policy\<close>: rules, host executables, overlays, network rules; the locale
    \<open>rule_contract\<close> holds what the policy relies on of a rule.
  \<^item> \<^verbatim>\<open>Policy_Parser\<close>: \<^verbatim>\<open>parser.rs\<close>; the examples each call declares hold for its rules.  \<^verbatim>\<open>Policy_Amend\<close>:
    \<^verbatim>\<open>amend.rs\<close>, one line is added and nothing is lost.

  \<^bold>\<open>Running tools\<close> (\<^verbatim>\<open>shell-command/src\<close>, \<^verbatim>\<open>protocol/src\<close>, \<^verbatim>\<open>sandboxing/src\<close>, \<^verbatim>\<open>core/src\<close>).
  \<^item> \<^verbatim>\<open>Shell_Script\<close>: \<^verbatim>\<open>bash.rs\<close>, \<^verbatim>\<open>shell_detect.rs\<close>, the plain commands of a shell script; the
    nodes of the crate \<^verbatim>\<open>tree-sitter\<close> are data and its parser a parameter.  The walks with an
    explicit stack are the sets and lists of descendants.
  \<^item> \<^verbatim>\<open>Command_Safety\<close>: \<^verbatim>\<open>command_safety\<close>, which commands are known to be safe or may be
    dangerous; none is both.
  \<^item> \<^verbatim>\<open>Sandbox_Policy\<close>, \<^verbatim>\<open>Sandbox_Roots\<close>: \<^verbatim>\<open>permissions.rs\<close> and the legacy policies of
    \<^verbatim>\<open>protocol.rs\<close>.  The access of a path is that of the most specific entry that covers it;
    metadata of a project is protected; deny entries survive every rebuilding; a broken deny
    pattern denies everything; legacy policies survive the way there and back.  The file system the
    code asks and the glob compiler are the record \<open>sandbox_env\<close>.
  \<^item> \<^verbatim>\<open>Permission_Profile\<close>: the profiles of \<^verbatim>\<open>models.rs\<close> and \<^verbatim>\<open>policy_transforms.rs\<close>:
    merging, intersecting and the effective policy of additional permissions.
  \<^item> \<^verbatim>\<open>Exec_Approval\<close>: \<^verbatim>\<open>exec_policy.rs\<close>, whether a command runs, is asked for or is refused,
    and the amendment of the policy in the file and in memory.
  \<^item> \<^verbatim>\<open>Tool_Orchestrator\<close>: \<^verbatim>\<open>orchestrator.rs\<close> and \<^verbatim>\<open>tools/sandboxing.rs\<close>: approval, sandbox,
    attempt and retry as a function over a trace of events; every trace is a run of a protocol.
    The answers of users, hooks, the network proxy and the tool itself are functions of the trace.
  \<^item> \<^verbatim>\<open>Patch_Invocation\<close>: \<^verbatim>\<open>apply-patch/src/invocation.rs\<close>, from a command line to a verified
    action; what is carried out is what was verified, and it changes only the paths of the action.
  \<^item> \<^verbatim>\<open>Patch_Safety\<close>: \<^verbatim>\<open>core/src/safety.rs\<close>, \<^verbatim>\<open>core/src/apply_patch.rs\<close> and the permissions and
    the streamed progress of \<^verbatim>\<open>tools/handlers/apply_patch.rs\<close>: whether a patch is approved, asked for
    or rejected; progress is delayed but not lost.
  \<^item> \<^verbatim>\<open>Turn_Diff\<close>: \<^verbatim>\<open>turn_diff_tracker.rs\<close>: from the deltas of patches to one diff, which shows every
    file that a turn has changed.  Patches that move a file onto itself are excluded: they remove it.
  \<^item> \<^verbatim>\<open>Patch_Runtime\<close>: the handler and the runtime of \<^verbatim>\<open>apply_patch\<close> and its reports in
    \<^verbatim>\<open>tools/events.rs\<close>: parser, verification, assessment, orchestrator and file system in one
    function.  The theorems say which files a call can change and what must have happened for it, that the
    diff of the turn keeps up with the files, and that calls end.  The state after some attempts is the
    replay of the attempts in the orchestrator's trace.

  \<^bold>\<open>Network policy\<close> (\<^verbatim>\<open>network-proxy/src\<close>, \<^verbatim>\<open>core/src/network_proxy_loader.rs\<close>).
  \<^item> \<^verbatim>\<open>Net_Host\<close>: \<^verbatim>\<open>policy.rs\<close>, which addresses are not public, how hosts are normalised and what
    domain patterns stand for.  The parser of \<^verbatim>\<open>std::net\<close> is modelled; the crates \<^verbatim>\<open>globset\<close> and
    \<^verbatim>\<open>url\<close> are parameters.
  \<^item> \<^verbatim>\<open>Net_Config\<close>: \<^verbatim>\<open>config.rs\<close> and the constraints of \<^verbatim>\<open>state.rs\<close>: the effective lists, the
    addresses of the listeners, and that validated settings respect the managed limits.
  \<^item> \<^verbatim>\<open>Net_State\<close>: \<^verbatim>\<open>runtime.rs\<close>, \<^verbatim>\<open>network_policy.rs\<close>, \<^verbatim>\<open>connect_policy.rs\<close> and the reloader:
    decisions about requests and changes of the policy at run time.  The locale \<open>config_reloader\<close> is the
    contract of a reloader, interpreted for the one that watches the configuration files.  Operations
    that retry take a list of rounds with what other tasks do in each; the theorems hold for every such
    list.  The limits found are lemmas before its properties.
  \<^bold>\<open>History\<close> (\<^verbatim>\<open>core/src/context_manager\<close>, \<^verbatim>\<open>core/src/context\<close>, \<^verbatim>\<open>utils\<close>).
  \<^item> \<^verbatim>\<open>Text_Truncation\<close>: \<^verbatim>\<open>utils/string/src/truncate.rs\<close> and \<^verbatim>\<open>utils/output-truncation\<close>: the longest
    ends that fit are kept and the rest is counted.
  \<^item> \<^verbatim>\<open>Context_Fragments\<close>: the marked fragments of user messages.
  \<^item> \<^verbatim>\<open>Context_Normalize\<close>, \<^verbatim>\<open>Context_Estimate\<close>, \<^verbatim>\<open>Context_History\<close>: \<^verbatim>\<open>normalize.rs\<close> and
    \<^verbatim>\<open>history.rs\<close>: calls and outputs are paired in every prompt, rollback drops whole turns,
    removal keeps pairs, token totals accumulate with saturation.
  \<^bold>\<open>Streamed text\<close> (\<^verbatim>\<open>utils/stream-parser/src\<close>).
  \<^item> \<^verbatim>\<open>Stream_Text\<close>: UTF-8 decoding in pieces and the locale \<open>stream_text_parser\<close>, the contract of
    an incremental parser; \<^verbatim>\<open>Inline_Tags\<close> and \<^verbatim>\<open>Plan_Blocks\<close> interpret it for hidden tags,
    citations and plan blocks: the result does not depend on how the text is cut.
  \<^bold>\<open>Not modelled.\<close>  The terminal interface, the app server and the rest of the session loop (concurrent tasks,
  channels and sockets around the components above), process sandboxes and the servers of
  the network proxy (kernel and socket interfaces), login and key rings (cryptographic libraries), persistence
  (SQLite and logs), MCP, plugins, cloud tasks, telemetry and model-provider clients (adapters over
  third-party crates), and the generated protocol types.
\<close>

end
